(* ===== verification/Prelude.thy ===== *)
theory Prelude
  imports Main "HOL-Library.Word"
begin

text \<open>
  The conventions every component of the development shares.

  \<^item> Fixed-width integers are words: \<open>u8\<close>, \<open>u16\<close>, \<open>u32\<close>, \<open>u64\<close>. A C function that returns
    \<open>int\<close> returns an \<open>int\<close> here; a \<open>uint32_t\<close> returned through \<open>int\<close> goes through \<open>sint\<close>.
    Times read from the clock (\<open>time(NULL)\<close>) are arguments of type \<open>int\<close>.
  \<^item> A pointer to a component's state is an \<open>option\<close>: \<open>None\<close> is \<open>NULL\<close>. The prologue
    \<open>if (!h) return r;\<close> that opens every operation is \<open>with_handle r h\<close> (or \<open>read_handle\<close>
    for an operation that changes nothing, \<open>map_option\<close> for a \<open>void\<close> one).
  \<^item> An array with a fill count is the list of its live slots, whose length is the count; the
    bound of the array is a guard of the operations that append. A pointer into such an array is
    an index. Slots past the count are never read before they are written, except where a
    definition says so.
  \<^item> Undefined behaviour of C (an access outside an array, a \<open>memcpy\<close> past the end of its source)
    is the outcome \<open>Undef\<close>: operations that can reach it return an \<open>outcome\<close>.

  The second half holds the loops the components share (linear search, \<open>memmove\<close> removal, the
  shifting loop, the compaction loop) with their characterisations, and the locales that state
  the contracts components rely on.
\<close>

section \<open>Types and handles\<close>

type_synonym u8 = "8 word"
type_synonym u16 = "16 word"
type_synonym u32 = "32 word"
type_synonym u64 = "64 word"
type_synonym time_t = int

text \<open>Opaque pointers (functions, heap blocks, user data); \<open>NULL\<close> is \<open>0\<close>.\<close>

type_synonym ptr = u64

datatype 'a outcome = Done 'a | Undef

named_theorems handle_simps

definition with_handle :: "'r \<Rightarrow> 's option \<Rightarrow> ('s \<Rightarrow> 's \<times> 'r) \<Rightarrow> 's option \<times> 'r" where
  "with_handle r h f =
     (case h of None \<Rightarrow> (None, r) | Some s \<Rightarrow> (let (s', x) = f s in (Some s', x)))"

definition with_handle_ub ::
    "'r \<Rightarrow> 's option \<Rightarrow> ('s \<Rightarrow> ('s \<times> 'r) outcome) \<Rightarrow> ('s option \<times> 'r) outcome" where
  "with_handle_ub r h f =
     (case h of None \<Rightarrow> Done (None, r)
      | Some s \<Rightarrow> (case f s of Undef \<Rightarrow> Undef | Done (s', x) \<Rightarrow> Done (Some s', x)))"

definition read_handle :: "'r \<Rightarrow> 's option \<Rightarrow> ('s \<Rightarrow> 'r) \<Rightarrow> 'r" where
  "read_handle r h f = (case h of None \<Rightarrow> r | Some s \<Rightarrow> f s)"

lemma with_handle_None [simp]: "with_handle r None f = (None, r)"
  by (simp add: with_handle_def)

lemma with_handle_ub_None [simp]: "with_handle_ub r None f = Done (None, r)"
  by (simp add: with_handle_ub_def)

lemma read_handle_simps [simp]: "read_handle r None f = r" "read_handle r (Some s) f = f s"
  by (simp_all add: read_handle_def)

lemma with_handle_Some: "with_handle r (Some s) f = (Some (fst (f s)), snd (f s))"
  by (simp add: with_handle_def split: prod.split)

lemma with_handle_eq [simp]: "with_handle r (Some s) f = (Some s', x) \<longleftrightarrow> f s = (s', x)"
  by (auto simp: with_handle_def split: prod.split)

lemma with_handle_not_None [simp]: "with_handle r (Some s) f \<noteq> (None, x)"
  by (auto simp: with_handle_def split: prod.split)

lemma fst_with_handle [simp]: "fst (with_handle r (Some s) f) = Some (fst (f s))"
  and snd_with_handle [simp]: "snd (with_handle r (Some s) f) = snd (f s)"
  by (simp_all add: with_handle_Some)

lemma with_handle_ub_eq [simp]:
  "with_handle_ub r (Some s) f = Done (Some s', x) \<longleftrightarrow> f s = Done (s', x)"
  by (auto simp: with_handle_ub_def split: outcome.split prod.split)

lemma with_handle_ub_not_None [simp]: "with_handle_ub r (Some s) f \<noteq> Done (None, x)"
  by (auto simp: with_handle_ub_def split: outcome.split prod.split)

lemma with_handle_ub_Undef [simp]: "with_handle_ub r (Some s) f = Undef \<longleftrightarrow> f s = Undef"
  by (auto simp: with_handle_ub_def split: outcome.split prod.split)

section \<open>Words\<close>

lemma unat_of_nat_u32: "n < 4294967296 \<Longrightarrow> unat (of_nat n :: u32) = n"
  by (simp add: unat_of_nat)

lemma unat_of_nat_u64: "n < 18446744073709551616 \<Longrightarrow> unat (of_nat n :: u64) = n"
  by (simp add: unat_of_nat)

lemma of_nat_u32_inject:
  "m < 4294967296 \<Longrightarrow> n < 4294967296 \<Longrightarrow> (of_nat m :: u32) = of_nat n \<longleftrightarrow> m = n"
  by (metis unat_of_nat_u32)

lemma unat_succ_less:
  fixes a b :: "'a::len word"
  assumes "a < b"
  shows "unat (a + 1) = Suc (unat a)"
proof -
  have "Suc (unat a) < 2 ^ LENGTH('a)"
  proof (rule le_less_trans)
    show "Suc (unat a) \<le> unat b" using assms by (simp add: word_less_nat_alt Suc_leI)
  qed (rule unsigned_less)
  then show ?thesis by (simp add: unat_word_ariths)
qed

lemma sint_small:
  assumes "(w :: u32) < 2147483648"
  shows "sint w = uint w"
proof -
  have "uint w < 2147483648" using assms by (simp add: word_less_def)
  moreover have "- (2 ^ 31) \<le> uint w" by (rule order_trans [OF _ uint_nonnegative]) simp
  ultimately have "signed_take_bit 31 (uint w) = uint w"
    by (intro signed_take_bit_int_eq_self) simp_all
  then show ?thesis by (simp add: sint_uint)
qed

text \<open>Counting on from any place of a ring meets every place once in a round.\<close>

lemma turn_unique:
  fixes c i n :: nat
  assumes "c < n" and "i < n"
  shows "\<exists>!k. k < n \<and> (c + k) mod n = i"
proof (rule ex1I)
  show "(i + n - c) mod n < n \<and> (c + (i + n - c) mod n) mod n = i"
    using assms by (auto simp: mod_add_right_eq)
next
  fix k assume k: "k < n \<and> (c + k) mod n = i"
  have "(i + n - c) mod n = ((c + k) mod n + (n - c)) mod n"
    using k assms by simp
  also have "\<dots> = (c + k + (n - c)) mod n" by (simp add: mod_add_left_eq)
  also have "c + k + (n - c) = k + n" using assms by simp
  finally show "k = (i + n - c) mod n" using k by simp
qed

section \<open>Decimal numerals: \<open>%u\<close>\<close>

fun dec_digits :: "nat \<Rightarrow> string" where
  "dec_digits n =
     (if n < 10 then [char_of (48 + n)] else dec_digits (n div 10) @ [char_of (48 + n mod 10)])"

declare dec_digits.simps [simp del]

section \<open>Linear search: \<open>for (i = 0; i < count; i++) if (P(a[i])) ...\<close>\<close>

primrec first_idx :: "('a \<Rightarrow> bool) \<Rightarrow> 'a list \<Rightarrow> nat option" where
  "first_idx P [] = None"
| "first_idx P (x # xs) = (if P x then Some 0 else map_option Suc (first_idx P xs))"

lemma first_idx_None: "first_idx P xs = None \<longleftrightarrow> (\<forall>x\<in>set xs. \<not> P x)"
  by (induction xs) auto

lemma first_idx_Some:
  "first_idx P xs = Some i \<longleftrightarrow> i < length xs \<and> P (xs ! i) \<and> (\<forall>j<i. \<not> P (xs ! j))"
proof (induction xs arbitrary: i)
  case Nil
  then show ?case by simp
next
  case (Cons x xs)
  then show ?case
    by (cases i) (auto simp: less_Suc_eq_0_disj)
qed

lemma first_idx_SomeD:
  assumes "first_idx P xs = Some i"
  shows "i < length xs" and "P (xs ! i)" and "xs ! i \<in> set xs"
  using assms by (auto simp: first_idx_Some)

lemma first_idx_append:
  "first_idx P (xs @ ys) =
     (case first_idx P xs of Some i \<Rightarrow> Some i
      | None \<Rightarrow> map_option (\<lambda>i. length xs + i) (first_idx P ys))"
  by (cases "first_idx P ys"; induction xs) (auto split: option.split)

lemma first_idx_snoc_key:
  "first_idx P (xs @ [x]) =
     (case first_idx P xs of Some i \<Rightarrow> Some i
      | None \<Rightarrow> if P x then Some (length xs) else None)"
  by (simp add: first_idx_append split: option.split)

lemma first_idx_update_same:
  assumes "\<And>x. x \<in> set xs \<Longrightarrow> P (f x) = P x" and "i < length xs"
  shows "first_idx P (xs[i := f (xs ! i)]) = first_idx P xs"
  using assms
proof (induction xs arbitrary: i)
  case Nil
  then show ?case by simp
next
  case (Cons x xs)
  then show ?case by (cases i) auto
qed

lemma first_idx_map:
  "(\<And>x. x \<in> set xs \<Longrightarrow> P (f x) = P x) \<Longrightarrow> first_idx P (map f xs) = first_idx P xs"
  by (induction xs) auto

section \<open>Predicates on every slot\<close>

lemma list_all_update: "list_all P xs \<Longrightarrow> P y \<Longrightarrow> list_all P (xs[i := y])"
  by (cases "i < length xs") (auto simp: list_all_length nth_list_update)

lemma list_all_nth: "list_all P xs \<Longrightarrow> i < length xs \<Longrightarrow> P (xs ! i)"
  by (simp add: list_all_length)

section \<open>Slots addressed by identifier: \<open>if (id == 0 || id > count) return r; ... a[id - 1]\<close>\<close>

definition slot_of :: "u32 \<Rightarrow> 'a list \<Rightarrow> nat option" where
  "slot_of k xs = (if k = 0 \<or> unat k > length xs then None else Some (unat k - 1))"

lemma slot_of_Some: "slot_of k xs = Some i \<longleftrightarrow> i < length xs \<and> unat k = Suc i"
proof -
  have "k \<noteq> 0 \<longleftrightarrow> 0 < unat k" by (simp add: unat_gt_0)
  then show ?thesis by (auto simp: slot_of_def)
qed

lemma slot_of_SomeD: "slot_of k xs = Some i \<Longrightarrow> i < length xs"
  by (simp add: slot_of_Some)

lemma slot_of_length: "length ys = length xs \<Longrightarrow> slot_of k ys = slot_of k xs"
  by (simp add: slot_of_def)

lemma slot_of_update [simp]: "slot_of k (xs[i := x]) = slot_of k xs"
  by (simp add: slot_of_def)

lemma slot_of_inj: "slot_of a xs = Some i \<Longrightarrow> slot_of b xs = Some i \<Longrightarrow> a = b"
  by (metis slot_of_Some word_unat_eq_iff)

lemma slot_of_0 [simp]: "slot_of 0 xs = None"
  by (simp add: slot_of_def)

lemma next_id:
  assumes "length xs < 4294967295"
  shows "unat (of_nat (length xs) + 1 :: u32) = Suc (length xs)"
    and "(of_nat (length xs) + 1 :: u32) \<noteq> 0"
proof -
  have "(of_nat (length xs) + 1 :: u32) = of_nat (Suc (length xs))" by simp
  then show u: "unat (of_nat (length xs) + 1 :: u32) = Suc (length xs)"
    using assms unat_of_nat_u32 [of "Suc (length xs)"] by (simp add: add.commute)
  then show "(of_nat (length xs) + 1 :: u32) \<noteq> 0" by auto
qed

lemma slot_of_snoc:
  assumes "length xs < 4294967295"
  shows "slot_of k (xs @ [x]) =
     (if k = of_nat (length xs) + 1 then Some (length xs) else slot_of k xs)"
    and "slot_of (of_nat (length xs) + 1) xs = None"
proof -
  have "unat k = Suc (length xs) \<longleftrightarrow> k = of_nat (length xs) + 1"
    using next_id [OF assms] by (metis word_unat_eq_iff)
  then show "slot_of k (xs @ [x]) =
     (if k = of_nat (length xs) + 1 then Some (length xs) else slot_of k xs)"
    using next_id [OF assms] by (auto simp: slot_of_def)
  show "slot_of (of_nat (length xs) + 1) xs = None"
    using next_id [OF assms] by (simp add: slot_of_def)
qed

text \<open>The entry an identifier denotes.\<close>

definition slot_get :: "u32 \<Rightarrow> 'a list \<Rightarrow> 'a option" where
  "slot_get k xs = map_option (\<lambda>i. xs ! i) (slot_of k xs)"

lemma slot_get_snoc:
  assumes "length xs < 4294967295"
  shows "slot_get k (xs @ [x]) = (if k = of_nat (length xs) + 1 then Some x else slot_get k xs)"
    and "slot_get (of_nat (length xs) + 1) xs = None"
proof -
  show "slot_get k (xs @ [x]) = (if k = of_nat (length xs) + 1 then Some x else slot_get k xs)"
    using slot_of_snoc(1) [OF assms, of k x]
    by (cases "slot_of k xs") (auto simp: slot_get_def nth_append dest: slot_of_SomeD)
  show "slot_get (of_nat (length xs) + 1) xs = None"
    using slot_of_snoc(2) [OF assms] by (simp add: slot_get_def)
qed

lemma slot_get_Some: "slot_get k xs = Some x \<longleftrightarrow> (\<exists>i. slot_of k xs = Some i \<and> xs ! i = x)"
  by (auto simp: slot_get_def)

lemma slot_get_None: "slot_of k xs = None \<Longrightarrow> slot_get k xs = None"
  by (simp add: slot_get_def)

lemma slot_get_update: "slot_of k xs = Some i \<Longrightarrow> slot_get k (xs[i := x]) = Some x"
  by (auto simp: slot_get_def dest: slot_of_SomeD)

lemma slot_get_update_other:
  "slot_of k xs = Some i \<Longrightarrow> j \<noteq> k \<Longrightarrow> slot_get j (xs[i := x]) = slot_get j xs"
  using slot_of_inj [of k xs i j]
  by (cases "slot_of j xs"; cases "i = the (slot_of j xs)") (auto simp: slot_get_def)

lemma list_all_slot: "list_all P xs \<Longrightarrow> slot_of k xs = Some i \<Longrightarrow> P (xs ! i)"
  by (simp add: list_all_nth slot_of_SomeD)

section \<open>Removal: \<open>memmove(&a[i], &a[i+1], (count - i - 1) * sizeof *a)\<close> and the shifting loop\<close>

definition remove_at :: "nat \<Rightarrow> 'a list \<Rightarrow> 'a list" where
  "remove_at i xs = take i xs @ drop (Suc i) xs"

lemma remove_at_simps [simp]:
  "remove_at i [] = []"
  "remove_at 0 (x # xs) = xs"
  "remove_at (Suc i) (x # xs) = x # remove_at i xs"
  by (simp_all add: remove_at_def)

lemma length_remove_at: "i < length xs \<Longrightarrow> length (remove_at i xs) = length xs - 1"
  by (simp add: remove_at_def)

lemma length_remove_at_Suc: "i < length xs \<Longrightarrow> Suc (length (remove_at i xs)) = length xs"
  by (simp add: remove_at_def)

lemma set_remove_at: "set (remove_at i xs) \<subseteq> set xs"
  by (auto simp: remove_at_def dest: in_set_takeD in_set_dropD)

lemma list_all_remove_at: "list_all P xs \<Longrightarrow> list_all P (remove_at i xs)"
  using set_remove_at [of i xs] by (auto simp: list_all_iff)

lemma length_remove_at_le: "length (remove_at i xs) \<le> length xs"
  by (simp add: remove_at_def)

lemma map_remove_at: "map f (remove_at i xs) = remove_at i (map f xs)"
  by (simp add: remove_at_def take_map drop_map)

lemma distinct_remove_at: "distinct xs \<Longrightarrow> distinct (remove_at i xs)"
proof (induction xs arbitrary: i)
  case Nil
  then show ?case by simp
next
  case (Cons x xs)
  then show ?case using set_remove_at [of _ xs] by (cases i) auto
qed

lemma remove_at_not_in: "distinct xs \<Longrightarrow> i < length xs \<Longrightarrow> xs ! i \<notin> set (remove_at i xs)"
proof (induction xs arbitrary: i)
  case Nil
  then show ?case by simp
next
  case (Cons x xs)
  show ?case
  proof (cases i)
    case 0
    with Cons.prems show ?thesis by simp
  next
    case (Suc k)
    with Cons show ?thesis by (auto simp: in_set_conv_nth)
  qed
qed

lemma set_remove_at_distinct:
  assumes "distinct xs" and "i < length xs"
  shows "set (remove_at i xs) = set xs - {xs ! i}"
  using assms
proof (induction xs arbitrary: i)
  case Nil
  then show ?case by simp
next
  case (Cons x xs)
  then show ?case by (cases i) auto
qed

text \<open>With distinct keys, removing the found slot is filtering the key out.\<close>

lemma remove_at_filter_key:
  assumes "distinct (map key xs)" and "first_idx (\<lambda>x. key x = k) xs = Some i"
  shows "remove_at i xs = filter (\<lambda>x. key x \<noteq> k) xs"
  using assms
proof (induction xs arbitrary: i)
  case Nil
  then show ?case by simp
next
  case (Cons x xs)
  show ?case
  proof (cases "key x = k")
    case True
    with Cons.prems have "filter (\<lambda>y. key y \<noteq> k) xs = xs"
      by (intro filter_True) (auto dest: image_eqI [of _ key, OF sym])
    with True Cons.prems show ?thesis by simp
  next
    case False
    with Cons show ?thesis by auto
  qed
qed

function shift_down :: "nat \<Rightarrow> nat \<Rightarrow> 'a list \<Rightarrow> 'a list" where
  "shift_down j n xs =
     (if j < n - 1 then shift_down (Suc j) n (xs[j := xs ! Suc j]) else xs)"
  by pat_completeness auto
termination
  by (relation "measure (\<lambda>(j, n, xs). n - j)") auto

declare shift_down.simps [simp del]

lemma length_shift_down [simp]: "length (shift_down j n xs) = length xs"
  by (induction j n xs rule: shift_down.induct) (subst shift_down.simps, simp)

lemma shift_down_nth:
  "n \<le> length xs \<Longrightarrow>
   shift_down j n xs ! k = (if j \<le> k \<and> Suc k < n then xs ! Suc k else xs ! k)"
proof (induction j n xs arbitrary: k rule: shift_down.induct)
  case (1 j n xs)
  show ?case
  proof (cases "j < n - 1")
    case True
    then have "shift_down j n xs ! k =
        (if Suc j \<le> k \<and> Suc k < n then xs[j := xs ! Suc j] ! Suc k else xs[j := xs ! Suc j] ! k)"
      using "1" by (subst shift_down.simps) simp
    with True "1.prems" show ?thesis
      by (auto simp: nth_list_update)
  next
    case False
    then show ?thesis by (subst shift_down.simps) auto
  qed
qed

text \<open>The shifting loop followed by \<open>count--\<close> removes exactly the found slot.\<close>

lemma shift_down_remove_at:
  assumes "i < length xs"
  shows "take (length xs - Suc 0) (shift_down i (length xs) xs) = remove_at i xs"
proof (rule nth_equalityI)
  show "length (take (length xs - Suc 0) (shift_down i (length xs) xs)) = length (remove_at i xs)"
    using assms by (simp add: length_remove_at)
next
  fix k assume "k < length (take (length xs - Suc 0) (shift_down i (length xs) xs))"
  then have k: "k < length xs - 1" by simp
  then show "take (length xs - Suc 0) (shift_down i (length xs) xs) ! k = remove_at i xs ! k"
    using assms by (auto simp: shift_down_nth remove_at_def nth_append min_def)
qed

section \<open>In-place compaction: \<open>if (P(a[i])) { a[w] = a[i]; f(&a[w]); w++; }\<close>\<close>

function compact_loop ::
    "('a \<Rightarrow> bool) \<Rightarrow> ('a \<Rightarrow> 'a) \<Rightarrow> nat \<Rightarrow> nat \<Rightarrow> 'a list \<Rightarrow> 'a list \<times> nat" where
  "compact_loop P f i w xs =
     (if i < length xs
      then if P (xs ! i) then compact_loop P f (Suc i) (Suc w) (xs[w := f (xs ! i)])
           else compact_loop P f (Suc i) w xs
      else (xs, w))"
  by pat_completeness auto
termination
  by (relation "measure (\<lambda>(P, f, i, w, xs). length xs - i)") auto

declare compact_loop.simps [simp del]

lemma compact_loop_filter:
  assumes "w \<le> i" and "i \<le> length xs" and "compact_loop P f i w xs = (ys, n)"
  shows "take n ys = take w xs @ map f (filter P (drop i xs)) \<and> n \<le> length ys"
  using assms
proof (induction P f i w xs arbitrary: ys n rule: compact_loop.induct)
  case (1 P f i w xs)
  show ?case
  proof (cases "i < length xs")
    case False
    then have "compact_loop P f i w xs = (xs, w)" by (subst compact_loop.simps) simp
    with False "1.prems" show ?thesis by simp
  next
    case True
    then have d: "drop i xs = xs ! i # drop (Suc i) xs"
      by (simp add: Cons_nth_drop_Suc)
    show ?thesis
    proof (cases "P (xs ! i)")
      case P: True
      let ?xs = "xs[w := f (xs ! i)]"
      from True P "1.prems"(3) have "compact_loop P f (Suc i) (Suc w) ?xs = (ys, n)"
        by (simp add: compact_loop.simps [of P f i w xs])
      with "1.IH"(1) [OF True P, of ys n] "1.prems"(1) True
      have "take n ys = take (Suc w) ?xs @ map f (filter P (drop (Suc i) ?xs)) \<and> n \<le> length ys"
        by simp
      moreover have "take (Suc w) ?xs = take w xs @ [f (xs ! i)]"
        using "1.prems"(1) True by (simp add: take_Suc_conv_app_nth)
      moreover have "drop (Suc i) ?xs = drop (Suc i) xs"
        using "1.prems"(1) by simp
      ultimately show ?thesis using P d by simp
    next
      case nP: False
      from True nP "1.prems"(3) have "compact_loop P f (Suc i) w xs = (ys, n)"
        by (simp add: compact_loop.simps [of P f i w xs])
      with "1.IH"(2) [OF True nP, of ys n] "1.prems"(1) True nP d show ?thesis by simp
    qed
  qed
qed

definition compact :: "('a \<Rightarrow> bool) \<Rightarrow> ('a \<Rightarrow> 'a) \<Rightarrow> 'a list \<Rightarrow> 'a list" where
  "compact P f xs = (let (ys, n) = compact_loop P f 0 0 xs in take n ys)"

lemma compact_eq: "compact P f xs = map f (filter P xs)"
proof -
  obtain ys n where c: "compact_loop P f 0 0 xs = (ys, n)" by (meson surj_pair)
  with compact_loop_filter [OF le_refl _ c] show ?thesis by (simp add: compact_def)
qed

section \<open>The entry a search finds\<close>

lemma first_idx_find: "map_option (\<lambda>i. xs ! i) (first_idx P xs) = find P xs"
  by (induction xs) (auto simp: option.map_comp comp_def)

lemma first_idx_find_None: "first_idx P xs = None \<longleftrightarrow> find P xs = None"
  by (metis first_idx_find map_option_is_None)

lemma first_idx_find_Some: "first_idx P xs = Some i \<Longrightarrow> find P xs = Some (xs ! i)"
  by (metis first_idx_find option.simps(9))

lemma find_snoc: "find P (xs @ [x]) = (case find P xs of None \<Rightarrow> if P x then Some x else None | Some y \<Rightarrow> Some y)"
  by (induction xs) auto

lemma find_update_found: "first_idx P xs = Some i \<Longrightarrow> P x \<Longrightarrow> find P (xs[i := x]) = Some x"
proof (induction xs arbitrary: i)
  case (Cons y ys)
  then show ?case by (cases i) (auto split: if_splits)
qed simp

lemma find_update_other:
  "\<not> P (xs ! i) \<Longrightarrow> \<not> P x \<Longrightarrow> i < length xs \<Longrightarrow> find P (xs[i := x]) = find P xs"
proof (induction xs arbitrary: i)
  case (Cons y ys)
  then show ?case by (cases i) auto
qed simp

lemma find_remove_at_other: "\<not> P (xs ! i) \<Longrightarrow> i < length xs \<Longrightarrow> find P (remove_at i xs) = find P xs"
proof (induction xs arbitrary: i)
  case (Cons y ys)
  then show ?case by (cases i) auto
qed simp

text \<open>Updating the slot found for key \<open>j\<close> without changing its key, seen from key \<open>k\<close>.\<close>

lemma find_key_update:
  assumes "first_idx (\<lambda>x. key x = j) xs = Some i" and "key y = j"
  shows "find (\<lambda>x. key x = k) (xs[i := y]) = (if j = k then Some y else find (\<lambda>x. key x = k) xs)"
proof (cases "j = k")
  case True
  with assms show ?thesis by (simp add: find_update_found)
next
  case False
  with assms first_idx_SomeD [OF assms(1)] show ?thesis by (simp add: find_update_other)
qed

section \<open>Tables read as maps\<close>

lemma map_of_update_nth:
  assumes "distinct (map fst ps)" and "i < length ps" and "fst (ps ! i) = k"
  shows "map_of (ps[i := (k, v)]) = (map_of ps)(k \<mapsto> v)"
  using assms
proof (induction ps arbitrary: i)
  case Nil
  then show ?case by simp
next
  case (Cons q ps)
  show ?case
  proof (cases i)
    case 0
    with Cons.prems show ?thesis by (cases q) auto
  next
    case (Suc j)
    with Cons.prems have "map_of (ps[j := (k, v)]) = (map_of ps)(k \<mapsto> v)" and "fst q \<noteq> k"
      using Cons.IH [of j] by (auto dest: nth_mem)
    with Suc show ?thesis by (cases q) (auto simp: fun_eq_iff)
  qed
qed

lemma map_of_snoc: "map_of ps k = None \<Longrightarrow> map_of (ps @ [(k, v)]) = (map_of ps)(k \<mapsto> v)"
  by (auto simp: map_add_def fun_eq_iff split: option.split)

text \<open>A search for a key is the lookup in the map the table denotes.\<close>

lemma first_idx_map_of:
  "map_option (\<lambda>i. f (xs ! i)) (first_idx (\<lambda>x. key x = k) xs) = map_of (map (\<lambda>x. (key x, f x)) xs) k"
  by (induction xs) (auto simp: option.map_comp comp_def)

text \<open>When every slot's key is its number plus one, searching for a key is indexing by it.\<close>

definition dense_ids :: "('a \<Rightarrow> u32) \<Rightarrow> 'a list \<Rightarrow> bool" where
  "dense_ids key xs \<longleftrightarrow> (\<forall>i<length xs. key (xs ! i) = of_nat i + 1)"

lemma dense_ids_Nil [simp]: "dense_ids key []"
  by (simp add: dense_ids_def)

lemma dense_ids_snoc: "dense_ids key xs \<Longrightarrow> key x = of_nat (length xs) + 1 \<Longrightarrow> dense_ids key (xs @ [x])"
  by (auto simp: dense_ids_def nth_append less_Suc_eq)

lemma dense_ids_update: "dense_ids key xs \<Longrightarrow> key x = key (xs ! i) \<Longrightarrow> dense_ids key (xs[i := x])"
  by (cases "i < length xs") (auto simp: dense_ids_def nth_list_update)

lemma dense_first_idx:
  assumes "dense_ids key xs" and "length xs < 4294967295"
  shows "first_idx (\<lambda>x. key x = k) xs = slot_of k xs"
proof -
  have key: "key (xs ! i) = k \<longleftrightarrow> unat k = Suc i" if "i < length xs" for i
  proof -
    have "unat (of_nat i + 1 :: u32) = Suc i"
      using that assms(2) next_id(1) [of "replicate i ()"] by simp
    then show ?thesis using that assms(1) by (metis dense_ids_def word_unat_eq_iff)
  qed
  show ?thesis
  proof (cases "slot_of k xs")
    case None
    then have "unat k = 0 \<or> unat k > length xs" by (auto simp: slot_of_def split: if_splits)
    then have "first_idx (\<lambda>x. key x = k) xs = None"
      using key by (auto simp: first_idx_None in_set_conv_nth) blast+
    with None show ?thesis by simp
  next
    case (Some i)
    then have "i < length xs" "unat k = Suc i" by (auto simp: slot_of_Some)
    with key have "first_idx (\<lambda>x. key x = k) xs = Some i" by (auto simp: first_idx_Some)
    with Some show ?thesis by simp
  qed
qed

section \<open>Words\<close>

unbundle bit_operations_syntax

lemma xor_cancel:
  fixes a b c :: "'w::len word"
  shows "a XOR c = b XOR c \<longleftrightarrow> a = b" and "c XOR a = c XOR b \<longleftrightarrow> a = b"
  by (metis xor.assoc xor_self_eq xor.right_neutral) (metis xor.assoc xor_self_eq xor.left_neutral)

end
