(* ===== verification/Contracts.thy ===== *)
theory Contracts
  imports Prelude
begin

text \<open>
  The interfaces the components implement, as locales. Each one states the operations a client
  calls and the laws it relies on, and proves once what follows for a whole history of calls;
  the component theories interpret them on the operations of the code.

  \<^item> \<open>invariant_system\<close>: an invariant kept by every step holds in every reachable state.
  \<^item> \<open>handle_table\<close>: creating an object hands out a fresh identifier and leaves the other
    identifiers alone (users, transactions, sockets, pipes, queues, ...).
  \<^item> \<open>slot_table\<close>: such a table whose slots are filled in order (a sublocale of the former).
  \<^item> \<open>shrinking_table\<close>: a table with removal that reuses identifiers in use (processes, users,
    encryption keys, files).
  \<^item> \<open>byte_fifo\<close>: what comes out of a buffer is what went in, in the same order (pipes).
  \<^item> \<open>expiring_cache\<close>: a map whose entries live for a fixed number of ticks (the ARP cache).
  \<^item> \<open>recursive_lock\<close>: a lock with an owner and a depth; at most one thread is ahead with its
    acquisitions (mutexes).
\<close>

section \<open>Reachable states\<close>

inductive reach :: "('s \<Rightarrow> bool) \<Rightarrow> ('s \<Rightarrow> 's \<Rightarrow> bool) \<Rightarrow> 's \<Rightarrow> bool"
  for init :: "'s \<Rightarrow> bool" and step :: "'s \<Rightarrow> 's \<Rightarrow> bool" where
  reach_init: "init s \<Longrightarrow> reach init step s"
| reach_step: "reach init step s \<Longrightarrow> step s t \<Longrightarrow> reach init step t"

locale invariant_system =
  fixes init :: "'s \<Rightarrow> bool" and step :: "'s \<Rightarrow> 's \<Rightarrow> bool" and inv :: "'s \<Rightarrow> bool"
  assumes inv_init: "init s \<Longrightarrow> inv s"
    and inv_step: "step s t \<Longrightarrow> inv s \<Longrightarrow> inv t"
begin

lemma inv_reachable: "reach init step s \<Longrightarrow> inv s"
  by (induction rule: reach.induct) (auto intro: inv_init inv_step)

end

section \<open>Tables that hand out identifiers\<close>

fun create_all :: "('s \<Rightarrow> 'a \<Rightarrow> 's \<times> u32) \<Rightarrow> 's \<Rightarrow> 'a list \<Rightarrow> 's \<times> u32 list" where
  "create_all create s [] = (s, [])"
| "create_all create s (a # as) =
     (let (s', i) = create s a; (s'', is) = create_all create s' as in (s'', i # is))"

locale handle_table =
  fixes create :: "'s \<Rightarrow> 'a \<Rightarrow> 's \<times> u32"
    and lookup :: "'s \<Rightarrow> u32 \<Rightarrow> 'e option"
    and inv :: "'s \<Rightarrow> bool"
  assumes create_inv: "inv s \<Longrightarrow> create s a = (s', i) \<Longrightarrow> inv s'"
    and create_fail: "inv s \<Longrightarrow> create s a = (s', 0) \<Longrightarrow> s' = s"
    and create_fresh: "inv s \<Longrightarrow> create s a = (s', i) \<Longrightarrow> i \<noteq> 0 \<Longrightarrow>
          lookup s i = None \<and> lookup s' i \<noteq> None"
    and create_frame: "inv s \<Longrightarrow> create s a = (s', i) \<Longrightarrow> j \<noteq> i \<Longrightarrow> lookup s' j = lookup s j"
begin

lemma lookup_kept:
  assumes "inv s" and "create s a = (s', i)" and "lookup s j = Some e"
  shows "lookup s' j = Some e"
proof (cases "j = i")
  case True
  with assms create_fresh have "i = 0" by fastforce
  with assms create_fail show ?thesis by blast
next
  case False
  with assms create_frame show ?thesis by simp
qed

text \<open>A whole series of creations: every identifier handed out is new and resolves at the end.\<close>

lemma create_all_kept:
  "inv s \<Longrightarrow> create_all create s as = (s', is) \<Longrightarrow> lookup s j = Some e \<Longrightarrow>
   inv s' \<and> lookup s' j = Some e"
proof (induction as arbitrary: s "is")
  case Nil
  then show ?case by simp
next
  case (Cons a as)
  obtain t i ks where "create s a = (t, i)" and "create_all create t as = (s', ks)"
    using Cons.prems(2) by (auto split: prod.splits)
  with Cons.prems Cons.IH [of t ks] create_inv lookup_kept show ?case by blast
qed

lemma create_all_fresh:
  "inv s \<Longrightarrow> create_all create s as = (s', is) \<Longrightarrow> 0 \<notin> set is \<Longrightarrow>
   distinct is \<and> (\<forall>i\<in>set is. lookup s i = None \<and> lookup s' i \<noteq> None)"
proof (induction as arbitrary: s "is")
  case Nil
  then show ?case by simp
next
  case (Cons a as)
  obtain t i ks where t: "create s a = (t, i)" and ks: "create_all create t as = (s', ks)"
      and eq: "is = i # ks"
    using Cons.prems(2) by (auto split: prod.splits)
  have i: "i \<noteq> 0" and t_inv: "inv t" using Cons.prems t eq create_inv by auto
  from create_fresh [OF Cons.prems(1) t i] have si: "lookup s i = None" and ti: "lookup t i \<noteq> None"
    by auto
  from Cons.IH [OF t_inv ks] Cons.prems(3) eq
  have IH: "distinct ks" "\<forall>k\<in>set ks. lookup t k = None \<and> lookup s' k \<noteq> None" by auto
  have "i \<notin> set ks" using IH(2) ti by auto
  moreover have "lookup s' i \<noteq> None" using create_all_kept [OF t_inv ks] ti by auto
  moreover have "\<forall>k\<in>set ks. lookup s k = None"
    using IH(2) \<open>i \<notin> set ks\<close> create_frame [OF Cons.prems(1) t] by (metis)
  ultimately show ?case using IH si eq by auto
qed

end

text \<open>
  A table whose slots are filled in order, an identifier being the slot number plus one, is such
  a table of identifiers.
\<close>

locale slot_table =
  fixes create :: "'s \<Rightarrow> 'a \<Rightarrow> 's \<times> u32"
    and slots :: "'s \<Rightarrow> 'e list"
    and cap :: nat
  assumes create_snoc: "create s a = (s', i) \<Longrightarrow>
      s' = s \<and> i = 0 \<or>
      length (slots s) < cap \<and> i = of_nat (length (slots s)) + 1 \<and> (\<exists>e. slots s' = slots s @ [e])"
    and cap_u32: "cap < 4294967296"
begin

lemma create_cases:
  assumes "create s a = (s', i)"
  obtains (fail) "s' = s" and "i = 0"
  | (new) e where "length (slots s) < 4294967295" and "length (slots s) < cap"
      and "i = of_nat (length (slots s)) + 1" and "i \<noteq> 0" and "slots s' = slots s @ [e]"
proof -
  consider "s' = s" "i = 0"
    | e where "length (slots s) < cap" "i = of_nat (length (slots s)) + 1" "slots s' = slots s @ [e]"
    using create_snoc [OF assms] by blast
  then show thesis
  proof cases
    case 1
    then show thesis by (rule fail)
  next
    case (2 e)
    with cap_u32 have "length (slots s) < 4294967295" by simp
    with 2 next_id(2) [OF this] show thesis by (intro new) auto
  qed
qed

end

sublocale slot_table \<subseteq>
  handle_table create "\<lambda>s i. slot_get i (slots s)" "\<lambda>s. length (slots s) \<le> cap"
proof
  show "length (slots s') \<le> cap" if "length (slots s) \<le> cap" "create s a = (s', i)" for s a s' i
    using that(2) by (cases rule: create_cases) (use that(1) in auto)
  show "s' = s" if "create s a = (s', 0)" for s a s'
    using that by (cases rule: create_cases) auto
  show "slot_get i (slots s) = None \<and> slot_get i (slots s') \<noteq> None"
    if "create s a = (s', i)" "i \<noteq> 0" for s a s' i
    using that(1) by (cases rule: create_cases) (use that(2) in \<open>auto simp: slot_get_snoc\<close>)
  show "slot_get k (slots s') = slot_get k (slots s)" if "create s a = (s', i)" "k \<noteq> i" for s a s' i k
    using that(1) by (cases rule: create_cases) (use that(2) in \<open>auto simp: slot_get_snoc\<close>)
qed

section \<open>Tables that shrink\<close>

text \<open>
  A table that numbers a new entry by its count plus one, and removes entries by shifting, hands
  out numbers that are in use: after removing any entry but the last of a table numbered 1 to
  \<open>n\<close>, the next entry gets number \<open>n\<close>, which the last one still has.
\<close>

locale shrinking_table =
  fixes create :: "'s \<Rightarrow> 'a \<Rightarrow> 's \<times> u32"
    and remove :: "'s \<Rightarrow> u32 \<Rightarrow> 's"
    and slots :: "'s \<Rightarrow> 'e list"
    and key :: "'e \<Rightarrow> u32"
  assumes create_key: "create s a = (s', i) \<Longrightarrow> i \<noteq> 0 \<Longrightarrow>
            i = of_nat (length (slots s)) + 1 \<and> (\<exists>e. slots s' = slots s @ [e] \<and> key e = i)"
    and remove_key: "first_idx (\<lambda>e. key e = k) (slots s) = Some j \<Longrightarrow>
            slots (remove s k) = remove_at j (slots s)"
begin

lemma key_reused:
  assumes "dense_ids key (slots s)" and "length (slots s) < 4294967295"
    and "1 \<le> unat k" and "unat k < length (slots s)"
    and "create (remove s k) a = (s', i)" and "i \<noteq> 0"
  shows "i = of_nat (length (slots s)) \<and> \<not> distinct (map key (slots s'))"
proof -
  let ?n = "length (slots s)" and ?j = "unat k - 1"
  have "first_idx (\<lambda>e. key e = k) (slots s) = Some ?j"
    using dense_first_idx [OF assms(1,2)] assms(3,4) by (simp add: slot_of_Some)
  then have r: "slots (remove s k) = remove_at ?j (slots s)" by (rule remove_key)
  moreover have j: "?j < ?n - 1" using assms(3,4) by linarith
  ultimately have len: "length (slots (remove s k)) = ?n - 1" by (simp add: length_remove_at)
  obtain e where e: "i = of_nat (?n - 1) + 1" "slots s' = slots (remove s k) @ [e]" "key e = i"
    using create_key [OF assms(5,6)] len by auto
  then have i: "i = of_nat ?n" using assms(4) by (simp add: of_nat_diff)
  have "Suc (?n - 2) = ?n - 1" using j by linarith
  then have "slots s ! (?n - 1) = remove_at ?j (slots s) ! (?n - 2)"
    using j by (auto simp: remove_at_def nth_append min_def)
  moreover have "?n - 2 < length (slots (remove s k))" using len j by linarith
  ultimately have last: "slots s ! (?n - 1) \<in> set (slots (remove s k))" using r by (metis nth_mem)
  have "key (slots s ! (?n - 1)) = of_nat (?n - 1) + 1" using assms(1,4) by (simp add: dense_ids_def)
  with e(1) have "key (slots s ! (?n - 1)) = i" by simp
  with last have "i \<in> key ` set (slots (remove s k))" by (metis image_eqI)
  with e i show ?thesis by simp
qed

end

section \<open>Byte streams\<close>

datatype 'b stream_op = Put "'b list" | Get nat

fun stream_run ::
    "('s \<Rightarrow> 'b list \<Rightarrow> 's option) \<Rightarrow> ('s \<Rightarrow> nat \<Rightarrow> 's \<times> 'b list) \<Rightarrow> 's \<Rightarrow> 'b stream_op list \<Rightarrow>
     's \<times> 'b list \<times> 'b list" where
  "stream_run put get s [] = (s, [], [])"
| "stream_run put get s (Put xs # ops) =
     (case put s xs of
        None \<Rightarrow> stream_run put get s ops
      | Some s' \<Rightarrow> (let (t, w, r) = stream_run put get s' ops in (t, xs @ w, r)))"
| "stream_run put get s (Get n # ops) =
     (let (s', xs) = get s n; (t, w, r) = stream_run put get s' ops in (t, w, xs @ r))"

text \<open>
  \<open>stream_run\<close> gives the final state, the bytes accepted and the bytes delivered.
\<close>

locale byte_fifo =
  fixes content :: "'s \<Rightarrow> 'b list"
    and put :: "'s \<Rightarrow> 'b list \<Rightarrow> 's option"
    and get :: "'s \<Rightarrow> nat \<Rightarrow> 's \<times> 'b list"
    and inv :: "'s \<Rightarrow> bool"
  assumes put_appends: "inv s \<Longrightarrow> put s xs = Some s' \<Longrightarrow> content s' = content s @ xs \<and> inv s'"
    and get_takes: "inv s \<Longrightarrow> get s n = (s', xs) \<Longrightarrow> content s = xs @ content s' \<and> inv s'"
begin

lemma stream_integrity:
  "inv s \<Longrightarrow> stream_run put get s ops = (t, w, r) \<Longrightarrow>
   r @ content t = content s @ w \<and> inv t"
proof (induction ops arbitrary: s t w r rule: list.induct)
  case Nil
  then show ?case by simp
next
  case (Cons op ops)
  show ?case
  proof (cases op)
    case (Put xs)
    show ?thesis
    proof (cases "put s xs")
      case None
      with Put Cons.prems Cons.IH show ?thesis by simp
    next
      case (Some s')
      with Put Cons.prems obtain w' where
          "stream_run put get s' ops = (t, w', r)" and "w = xs @ w'"
        by (auto split: prod.splits)
      with put_appends [OF Cons.prems(1) Some] Cons.IH show ?thesis by auto
    qed
  next
    case (Get n)
    obtain s' xs where g: "get s n = (s', xs)" by fastforce
    with Get Cons.prems obtain r' where
        "stream_run put get s' ops = (t, w, r')" and "r = xs @ r'"
      by (auto split: prod.splits)
    with get_takes [OF Cons.prems(1) g] Cons.IH [of s' t w r'] show ?thesis by auto
  qed
qed

end

section \<open>Recursive locks\<close>

text \<open>The specification: the state is the owner with its depth, if there is one.\<close>

fun spec_lock :: "('t \<times> nat) option \<Rightarrow> 't \<Rightarrow> ('t \<times> nat) option \<times> bool" where
  "spec_lock None t = (Some (t, 1), True)"
| "spec_lock (Some (u, d)) t = (if u = t then (Some (u, Suc d), True) else (Some (u, d), False))"

fun spec_unlock :: "('t \<times> nat) option \<Rightarrow> 't \<Rightarrow> ('t \<times> nat) option \<times> bool" where
  "spec_unlock None t = (None, False)"
| "spec_unlock (Some (u, d)) t =
     (if u = t then (if d \<le> 1 then None else Some (u, d - 1), True) else (Some (u, d), False))"

datatype 't lock_op = Acquire 't | Release 't

fun op_thread :: "'t lock_op \<Rightarrow> 't" where
  "op_thread (Acquire t) = t" | "op_thread (Release t) = t"

text \<open>\<open>lock_run\<close> counts, per thread, the granted acquisitions less the granted releases.\<close>

fun lock_run ::
    "('s \<Rightarrow> 't \<Rightarrow> 's \<times> bool) \<Rightarrow> ('s \<Rightarrow> 't \<Rightarrow> 's \<times> bool) \<Rightarrow> 's \<Rightarrow> 't lock_op list \<Rightarrow> 's \<times> ('t \<Rightarrow> int)" where
  "lock_run l u s [] = (s, \<lambda>_. 0)"
| "lock_run l u s (Acquire t # ops) =
     (let (s', b) = l s t; (s'', d) = lock_run l u s' ops in (s'', d(t := d t + (if b then 1 else 0))))"
| "lock_run l u s (Release t # ops) =
     (let (s', b) = u s t; (s'', d) = lock_run l u s' ops in (s'', d(t := d t - (if b then 1 else 0))))"

definition held :: "('t \<times> nat) option \<Rightarrow> 't \<Rightarrow> int" where
  "held h t = (case h of None \<Rightarrow> 0 | Some (u, d) \<Rightarrow> if u = t then int d else 0)"

lemma held_lock: "spec_lock h t = (h', b) \<Longrightarrow> held h' = (held h)(t := held h t + (if b then 1 else 0))"
  by (cases "(h, t)" rule: spec_lock.cases) (auto simp: held_def fun_eq_iff split: if_splits)

lemma held_unlock:
  "spec_unlock h t = (h', b) \<Longrightarrow> (\<forall>u d. h = Some (u, d) \<longrightarrow> 0 < d) \<Longrightarrow>
   held h' = (held h)(t := held h t - (if b then 1 else 0))"
  by (cases "(h, t)" rule: spec_unlock.cases) (auto simp: held_def fun_eq_iff split: if_splits)

locale recursive_lock =
  fixes holder :: "'s \<Rightarrow> ('t \<times> nat) option"
    and lock :: "'s \<Rightarrow> 't \<Rightarrow> 's \<times> bool"
    and unlock :: "'s \<Rightarrow> 't \<Rightarrow> 's \<times> bool"
    and valid :: "'t \<Rightarrow> bool"
    and ok :: "nat \<Rightarrow> 's \<Rightarrow> bool"
  assumes lock_refines: "ok (Suc n) s \<Longrightarrow> valid t \<Longrightarrow> lock s t = (s', b) \<Longrightarrow>
            ok n s' \<and> spec_lock (holder s) t = (holder s', b)"
    and unlock_refines: "ok (Suc n) s \<Longrightarrow> valid t \<Longrightarrow> unlock s t = (s', b) \<Longrightarrow>
            ok n s' \<and> spec_unlock (holder s) t = (holder s', b)"
    and depth_pos: "ok n s \<Longrightarrow> holder s = Some (t, d) \<Longrightarrow> 0 < d"
begin

lemma run_balance:
  "ok (length ops) s \<Longrightarrow> \<forall>x\<in>set ops. valid (op_thread x) \<Longrightarrow> lock_run lock unlock s ops = (s', d) \<Longrightarrow>
   ok 0 s' \<and> (\<forall>t. held (holder s') t = held (holder s) t + d t)"
proof (induction ops arbitrary: s d)
  case Nil
  then show ?case by auto
next
  case (Cons x ops)
  show ?case
  proof (cases x)
    case (Acquire t)
    obtain s1 b d1 where 1: "lock s t = (s1, b)" "lock_run lock unlock s1 ops = (s', d1)"
        and d: "d = d1(t := d1 t + (if b then 1 else 0))"
      using Cons.prems(3) Acquire by (auto split: prod.splits)
    from Acquire Cons.prems have "ok (Suc (length ops)) s" "valid t" by auto
    with lock_refines 1(1) have "ok (length ops) s1" and "spec_lock (holder s) t = (holder s1, b)"
      by blast+
    with Cons.IH [OF _ _ 1(2)] Cons.prems(2) held_lock [of "holder s" t "holder s1" b] d
    show ?thesis by auto
  next
    case (Release t)
    obtain s1 b d1 where 1: "unlock s t = (s1, b)" "lock_run lock unlock s1 ops = (s', d1)"
        and d: "d = d1(t := d1 t - (if b then 1 else 0))"
      using Cons.prems(3) Release by (auto split: prod.splits)
    from Release Cons.prems have o: "ok (Suc (length ops)) s" and "valid t" by auto
    with unlock_refines 1(1) have "ok (length ops) s1" and "spec_unlock (holder s) t = (holder s1, b)"
      by blast+
    with Cons.IH [OF _ _ 1(2)] Cons.prems(2) held_unlock [of "holder s" t "holder s1" b]
      depth_pos [OF o] d
    show ?thesis by auto
  qed
qed

lemma mutual_exclusion:
  assumes "ok (length ops) s" and "holder s = None" and "\<forall>x\<in>set ops. valid (op_thread x)"
    and "lock_run lock unlock s ops = (s', d)" and "0 < d t" and "0 < d u"
  shows "t = u"
proof -
  have d: "d x = held (holder s') x" for x
    using run_balance [OF assms(1,3,4)] assms(2) by (simp add: held_def)
  show ?thesis
    using assms(5,6) unfolding d by (auto simp: held_def split: option.splits if_splits)
qed

end

section \<open>Caches whose entries expire\<close>

text \<open>
  The specification maps a key to its value and the number of ticks it still survives: adding
  sets the full lifetime, a tick takes one from every entry and drops those with none left.
\<close>

definition spec_tick :: "('k \<Rightarrow> ('v \<times> nat) option) \<Rightarrow> 'k \<Rightarrow> ('v \<times> nat) option" where
  "spec_tick m k = (case m k of None \<Rightarrow> None | Some (v, n) \<Rightarrow> (case n of 0 \<Rightarrow> None | Suc n' \<Rightarrow> Some (v, n')))"

lemma spec_tick_power:
  "(spec_tick ^^ n) m k = (case m k of None \<Rightarrow> None | Some (v, l) \<Rightarrow> if n \<le> l then Some (v, l - n) else None)"
proof (induction n)
  case 0
  then show ?case by (simp split: option.split)
next
  case (Suc n)
  then show ?case
    by (auto simp: spec_tick_def Suc_diff_Suc split: option.split nat.split)
qed

locale expiring_cache =
  fixes entry :: "'s \<Rightarrow> 'k \<Rightarrow> ('v \<times> nat) option"
    and add :: "'s \<Rightarrow> 'k \<Rightarrow> 'v \<Rightarrow> 's option"
    and tick :: "'s \<Rightarrow> 's"
    and life :: nat
    and inv :: "'s \<Rightarrow> bool"
  assumes add_entry: "inv s \<Longrightarrow> add s k v = Some s' \<Longrightarrow> entry s' = (entry s)(k \<mapsto> (v, life)) \<and> inv s'"
    and tick_entry: "inv s \<Longrightarrow> entry (tick s) = spec_tick (entry s) \<and> inv (tick s)"
begin

lemma ticks: "inv s \<Longrightarrow> entry ((tick ^^ n) s) = (spec_tick ^^ n) (entry s) \<and> inv ((tick ^^ n) s)"
  by (induction n) (auto simp: tick_entry)

text \<open>An entry survives exactly \<open>life\<close> ticks after it was added; others keep their own time.\<close>

lemma lifetime:
  assumes "inv s" and "add s k v = Some s'"
  shows "entry ((tick ^^ n) s') k = (if n \<le> life then Some (v, life - n) else None) \<and>
    (j \<noteq> k \<longrightarrow> entry ((tick ^^ n) s') j = entry ((tick ^^ n) s) j)"
  using add_entry [OF assms] ticks [OF assms(1)] ticks [of s'] by (auto simp: spec_tick_power)

end

section \<open>Elections\<close>

text \<open>
  Voters of a finite electorate cast votes for candidates in numbered terms. What makes elections
  safe is that no voter votes for two candidates in one term; a majority of the electorate then
  determines its candidate.
\<close>

locale ballot =
  fixes electorate :: "'v set" and cast :: "'v \<Rightarrow> 't \<Rightarrow> 'c \<Rightarrow> bool"
  assumes finite_electorate: "finite electorate"
    and single_vote: "v \<in> electorate \<Longrightarrow> cast v t a \<Longrightarrow> cast v t b \<Longrightarrow> a = b"
begin

lemma majorities_meet:
  assumes "A \<subseteq> electorate" and "B \<subseteq> electorate"
    and "card electorate div 2 < card A" and "card electorate div 2 < card B"
  shows "A \<inter> B \<noteq> {}"
proof
  assume "A \<inter> B = {}"
  moreover have "finite A" "finite B" using assms(1,2) finite_electorate finite_subset by blast+
  ultimately have "card (A \<union> B) = card A + card B" by (simp add: card_Un_disjoint)
  moreover have "card (A \<union> B) \<le> card electorate" using card_mono [OF finite_electorate, of "A \<union> B"] assms(1,2) by simp
  ultimately show False using assms(3,4) by linarith
qed

lemma one_winner:
  assumes "card electorate div 2 < card {v \<in> electorate. cast v t a}"
    and "card electorate div 2 < card {v \<in> electorate. cast v t b}"
  shows "a = b"
  using majorities_meet [OF _ _ assms] single_vote by blast

end

end
