(* ===== verification/Scheduler.thy ===== *)
theory Scheduler
  imports Contracts
begin

text \<open>
  The process scheduler of \<open>core-services/process_scheduler.c\<close>: a table of at most 512 processes
  and a round-robin cursor into it. \<open>scheduler_add_process\<close> copies the name with an unbounded
  \<open>strcpy\<close> into a 256-byte field, so a longer name is undefined behaviour.
\<close>

section \<open>State\<close>

definition MAX_SCHEDULED_PROCESSES :: nat where "MAX_SCHEDULED_PROCESSES = 512"

datatype ProcessPriority =
  PRIORITY_REALTIME | PRIORITY_HIGH | PRIORITY_NORMAL | PRIORITY_LOW | PRIORITY_IDLE

datatype ProcessState =
  PROC_STATE_NEW | PROC_STATE_READY | PROC_STATE_RUNNING | PROC_STATE_WAITING
  | PROC_STATE_TERMINATED

record ScheduledProcess =
  sp_pid :: u32
  sp_name :: string
  sp_state :: ProcessState
  sp_priority :: ProcessPriority
  sp_cpu_time :: u32
  sp_memory_usage :: u32
  sp_context_switches :: u32
  sp_creation_time :: u64

record ProcessScheduler =
  sc_processes :: "ScheduledProcess list"
  sc_current_process_idx :: u32
  sc_time_slice_ms :: u32

section \<open>Operations\<close>

definition scheduler_create :: "bool \<Rightarrow> ProcessScheduler option" where
  "scheduler_create malloc_ok =
     (if \<not> malloc_ok then None
      else Some \<lparr>sc_processes = [], sc_current_process_idx = 0, sc_time_slice_ms = 10\<rparr>)"

definition scheduler_destroy :: "ProcessScheduler option \<Rightarrow> ProcessScheduler option" where
  "scheduler_destroy h = None"

definition scheduler_add_process ::
    "ProcessScheduler option \<Rightarrow> string option \<Rightarrow> ProcessPriority \<Rightarrow> time_t \<Rightarrow>
     (ProcessScheduler option \<times> u32) outcome" where
  "scheduler_add_process h name priority now = with_handle_ub 0 h (\<lambda>s.
     if length (sc_processes s) \<ge> MAX_SCHEDULED_PROCESSES then Done (s, 0)
     else case name of None \<Rightarrow> Done (s, 0)
     | Some nm \<Rightarrow>
         if length nm \<ge> 256 then Undef
         else let pid = of_nat (length (sc_processes s)) + 1;
                  proc = \<lparr>sp_pid = pid, sp_name = nm, sp_state = PROC_STATE_NEW,
                          sp_priority = priority, sp_cpu_time = 0, sp_memory_usage = 0,
                          sp_context_switches = 0, sp_creation_time = of_int now\<rparr>
              in Done (s\<lparr>sc_processes := sc_processes s @ [proc]\<rparr>, pid))"

text \<open>The inner loop of the source shifts the slots after the found one and drops the last.\<close>

definition scheduler_remove_process ::
    "ProcessScheduler option \<Rightarrow> u32 \<Rightarrow> ProcessScheduler option" where
  "scheduler_remove_process h pid = map_option (\<lambda>s.
     case first_idx (\<lambda>p. sp_pid p = pid) (sc_processes s) of
       None \<Rightarrow> s
     | Some i \<Rightarrow>
         (let n = length (sc_processes s)
          in s\<lparr>sc_processes := take (n - 1) (shift_down i n (sc_processes s))\<rparr>)) h"

definition scheduler_schedule_next :: "ProcessScheduler option \<Rightarrow> ProcessScheduler option" where
  "scheduler_schedule_next h = map_option (\<lambda>s.
     if length (sc_processes s) = 0 then s
     else s\<lparr>sc_current_process_idx :=
              (sc_current_process_idx s + 1) mod of_nat (length (sc_processes s))\<rparr>) h"

text \<open>The pointer returned is an index into the array of 512 slots, live or not.\<close>

definition scheduler_get_current_process :: "ProcessScheduler option \<Rightarrow> nat option" where
  "scheduler_get_current_process h = read_handle None h (\<lambda>s.
     if length (sc_processes s) = 0 then None else Some (unat (sc_current_process_idx s)))"

definition scheduler_update_process_state ::
    "ProcessScheduler option \<Rightarrow> u32 \<Rightarrow> ProcessState \<Rightarrow> ProcessScheduler option" where
  "scheduler_update_process_state h pid st = map_option (\<lambda>s.
     case first_idx (\<lambda>p. sp_pid p = pid) (sc_processes s) of
       None \<Rightarrow> s
     | Some i \<Rightarrow> s\<lparr>sc_processes :=
                     (sc_processes s)[i := (sc_processes s ! i)\<lparr>sp_state := st\<rparr>]\<rparr>) h"

section \<open>The operations as steps\<close>

definition sched_init :: "ProcessScheduler \<Rightarrow> bool" where
  "sched_init s \<longleftrightarrow> scheduler_create True = Some s"

inductive sched_step :: "ProcessScheduler \<Rightarrow> ProcessScheduler \<Rightarrow> bool" where
  sched_add: "scheduler_add_process (Some s) name pr now = Done (Some t, pid) \<Longrightarrow> sched_step s t"
| sched_remove: "scheduler_remove_process (Some s) pid = Some t \<Longrightarrow> sched_step s t"
| sched_next: "scheduler_schedule_next (Some s) = Some t \<Longrightarrow> sched_step s t"
| sched_update: "scheduler_update_process_state (Some s) pid st = Some t \<Longrightarrow> sched_step s t"

definition sched_inv :: "ProcessScheduler \<Rightarrow> bool" where
  "sched_inv s \<longleftrightarrow> length (sc_processes s) \<le> MAX_SCHEDULED_PROCESSES \<and>
     unat (sc_current_process_idx s) < MAX_SCHEDULED_PROCESSES"

lemmas sched_defs = scheduler_create_def scheduler_add_process_def scheduler_remove_process_def
  scheduler_schedule_next_def scheduler_update_process_state_def scheduler_get_current_process_def

lemma unat_mod_count:
  assumes "0 < n" and "n \<le> MAX_SCHEDULED_PROCESSES"
  shows "unat (w mod of_nat n :: u32) = unat w mod n" and "unat (w mod of_nat n :: u32) < n"
proof -
  have "unat (of_nat n :: u32) = n"
    using assms by (intro unat_of_nat_u32) (simp add: MAX_SCHEDULED_PROCESSES_def)
  then show "unat (w mod of_nat n :: u32) = unat w mod n" by (simp add: unat_mod_distrib)
  with assms show "unat (w mod of_nat n :: u32) < n" by simp
qed

lemma scheduler_remove_eq:
  "scheduler_remove_process (Some s) pid =
     Some (case first_idx (\<lambda>p. sp_pid p = pid) (sc_processes s) of
             None \<Rightarrow> s | Some i \<Rightarrow> s\<lparr>sc_processes := remove_at i (sc_processes s)\<rparr>)"
  by (auto simp: scheduler_remove_process_def Let_def shift_down_remove_at
      dest: first_idx_SomeD split: option.split)

interpretation sched: invariant_system sched_init sched_step sched_inv
proof
  fix s assume "sched_init s"
  then show "sched_inv s"
    by (auto simp: sched_init_def scheduler_create_def sched_inv_def MAX_SCHEDULED_PROCESSES_def)
next
  fix s t assume "sched_step s t" and inv: "sched_inv s"
  then show "sched_inv t"
  proof cases
    case (sched_add name pr now pid)
    with inv show ?thesis
      by (auto simp: scheduler_add_process_def sched_inv_def Let_def split: if_splits option.splits)
  next
    case (sched_remove pid)
    with inv show ?thesis
      by (auto simp: scheduler_remove_eq sched_inv_def length_remove_at
          dest: first_idx_SomeD split: option.splits)
  next
    case sched_next
    with inv show ?thesis
      using unat_mod_count(2) [of "length (sc_processes s)" "sc_current_process_idx s + 1"]
      by (auto simp: scheduler_schedule_next_def sched_inv_def split: if_splits)
  next
    case (sched_update pid st)
    with inv show ?thesis
      by (auto simp: scheduler_update_process_state_def sched_inv_def split: option.splits)
  qed
qed

section \<open>Round robin\<close>

definition sched_run :: "nat \<Rightarrow> ProcessScheduler \<Rightarrow> ProcessScheduler" where
  "sched_run k s = ((\<lambda>s. the (scheduler_schedule_next (Some s))) ^^ k) s"

lemma sched_run_Suc: "sched_run (Suc k) s = the (scheduler_schedule_next (Some (sched_run k s)))"
  by (simp add: sched_run_def)

lemma sched_run_processes [simp]: "sc_processes (sched_run k s) = sc_processes s"
  by (induction k) (simp_all add: sched_run_Suc scheduler_schedule_next_def, simp add: sched_run_def)

lemma sched_run_cursor:
  assumes "sched_inv s" and "unat (sc_current_process_idx s) < length (sc_processes s)"
  shows "unat (sc_current_process_idx (sched_run k s)) =
         (unat (sc_current_process_idx s) + k) mod length (sc_processes s)"
proof (induction k)
  case 0
  with assms show ?case by (simp add: sched_run_def)
next
  case (Suc k)
  let ?n = "length (sc_processes s)" and ?c = "sc_current_process_idx (sched_run k s)"
  have n: "0 < ?n" "?n \<le> MAX_SCHEDULED_PROCESSES" using assms by (auto simp: sched_inv_def)
  have "unat ?c < ?n" using Suc n by simp
  then have "unat (?c + 1) = unat ?c + 1"
    using n by (intro unat_word_ariths(1) [THEN trans]) (simp add: MAX_SCHEDULED_PROCESSES_def)
  with Suc n show ?case
    by (simp add: sched_run_Suc scheduler_schedule_next_def unat_mod_count mod_Suc_eq)
qed

section \<open>Properties\<close>

text \<open>
  Claim C22: round robin is fair. From any reachable state whose cursor is on a live process, each
  of the \<open>n\<close> processes is the current one after exactly one number \<open>k < n\<close> of calls of
  \<open>scheduler_schedule_next\<close>.
\<close>

theorem scheduler_round_robin:
  assumes "reach sched_init sched_step s"
    and "unat (sc_current_process_idx s) < length (sc_processes s)"
    and "i < length (sc_processes s)"
  shows "\<exists>!k. k < length (sc_processes s) \<and>
           scheduler_get_current_process (Some (sched_run k s)) = Some i"
proof -
  have "sched_inv s" using assms(1) by (rule sched.inv_reachable)
  then have "scheduler_get_current_process (Some (sched_run k s)) =
      Some ((unat (sc_current_process_idx s) + k) mod length (sc_processes s))" for k
    using assms by (auto simp: scheduler_get_current_process_def sched_run_cursor)
  with turn_unique [OF assms(2,3)] show ?thesis by simp
qed

definition sched_two :: ProcessScheduler where
  "sched_two =
     \<lparr>sc_processes =
        [\<lparr>sp_pid = 1, sp_name = ''init'', sp_state = PROC_STATE_NEW, sp_priority = PRIORITY_HIGH,
          sp_cpu_time = 0, sp_memory_usage = 0, sp_context_switches = 0, sp_creation_time = 0\<rparr>,
         \<lparr>sp_pid = 2, sp_name = ''shell'', sp_state = PROC_STATE_NEW, sp_priority = PRIORITY_LOW,
          sp_cpu_time = 0, sp_memory_usage = 0, sp_context_switches = 0, sp_creation_time = 0\<rparr>],
      sc_current_process_idx = 0, sc_time_slice_ms = 10\<rparr>"

lemma sched_two_reachable: "reach sched_init sched_step sched_two"
proof -
  let ?p = "sc_processes sched_two ! 0"
  let ?s0 = "\<lparr>sc_processes = [], sc_current_process_idx = 0, sc_time_slice_ms = 10\<rparr>"
  have "sched_init ?s0" by (simp add: sched_init_def scheduler_create_def)
  moreover have "sched_step ?s0 (?s0\<lparr>sc_processes := [?p]\<rparr>)"
    by (rule sched_add [where name = "Some ''init''" and pr = PRIORITY_HIGH and now = 0 and pid = 1])
       (simp add: scheduler_add_process_def sched_two_def MAX_SCHEDULED_PROCESSES_def)
  moreover have "sched_step (?s0\<lparr>sc_processes := [?p]\<rparr>) sched_two"
    by (rule sched_add [where name = "Some ''shell''" and pr = PRIORITY_LOW and now = 0 and pid = 2])
       (simp add: scheduler_add_process_def sched_two_def MAX_SCHEDULED_PROCESSES_def)
  ultimately show ?thesis by (meson reach_init reach_step)
qed

theorem scheduler_round_robin_witness:
  "reach sched_init sched_step sched_two \<and>
   (\<exists>!k. k < 2 \<and> scheduler_get_current_process (Some (sched_run k sched_two)) = Some 1)"
proof -
  have n: "length (sc_processes sched_two) = 2" "sc_current_process_idx sched_two = 0"
    by (simp_all add: sched_two_def)
  show ?thesis
    using sched_two_reachable scheduler_round_robin [OF sched_two_reachable, of 1]
    by (simp add: n)
qed

text \<open>
  The slot the cursor selects always lies inside the array of 512 processes, whatever
  processes were added and removed before.
\<close>

lemma scheduler_current_in_array:
  assumes "reach sched_init sched_step s" and "scheduler_get_current_process (Some s) = Some i"
  shows "i < MAX_SCHEDULED_PROCESSES"
  using sched.inv_reachable [OF assms(1)] assms(2)
  by (auto simp: scheduler_get_current_process_def sched_inv_def split: if_splits)

lemma scheduler_current_in_array_witness:
  "scheduler_get_current_process (Some sched_two) = Some 0 \<and> (0::nat) < MAX_SCHEDULED_PROCESSES"
proof -
  have c: "scheduler_get_current_process (Some sched_two) = Some 0"
    by (simp add: scheduler_get_current_process_def sched_two_def)
  show ?thesis using c scheduler_current_in_array [OF sched_two_reachable c] by simp
qed

text \<open>
  The shifting loop of \<open>scheduler_remove_process\<close> deletes exactly the process with the
  given pid, when pids are distinct, and keeps the other processes in their order.
\<close>

lemma scheduler_remove_exact:
  assumes "distinct (map sp_pid (sc_processes s))"
    and "scheduler_remove_process (Some s) pid = Some t"
  shows "sc_processes t = filter (\<lambda>p. sp_pid p \<noteq> pid) (sc_processes s)"
proof (cases "first_idx (\<lambda>p. sp_pid p = pid) (sc_processes s)")
  case None
  with assms(2) show ?thesis
    by (auto simp: scheduler_remove_eq first_idx_None intro: filter_True [symmetric])
next
  case (Some i)
  with assms(2) have "sc_processes t = remove_at i (sc_processes s)"
    by (auto simp: scheduler_remove_eq)
  with remove_at_filter_key [OF assms(1) Some] show ?thesis by simp
qed

lemma scheduler_remove_exact_witness:
  "scheduler_remove_process (Some sched_two) 1 =
     Some (sched_two\<lparr>sc_processes := [sc_processes sched_two ! 1]\<rparr>) \<and>
   [sc_processes sched_two ! 1] = filter (\<lambda>p. sp_pid p \<noteq> 1) (sc_processes sched_two)"
proof -
  have r: "scheduler_remove_process (Some sched_two) 1 =
      Some (sched_two\<lparr>sc_processes := [sc_processes sched_two ! 1]\<rparr>)"
    by (simp add: scheduler_remove_eq sched_two_def)
  have d: "distinct (map sp_pid (sc_processes sched_two))" by (simp add: sched_two_def)
  show ?thesis using r scheduler_remove_exact [OF d r] by simp
qed

text \<open>
  Identifiers are not stable under removal. After adding two processes, removing the
  first and adding another, two live processes carry the same pid; and after advancing the cursor
  to the second process and removing it, the "current" slot is past the live ones.
\<close>

lemma scheduler_removal_breaks_identity:
  "(\<exists>s. reach sched_init sched_step s \<and> \<not> distinct (map sp_pid (sc_processes s))) \<and>
   (\<exists>s i. reach sched_init sched_step s \<and> scheduler_get_current_process (Some s) = Some i \<and>
      length (sc_processes s) \<le> i)"
proof
  let ?p = "sc_processes sched_two"
  let ?a = "sched_two\<lparr>sc_processes := [?p ! 1]\<rparr>"
  let ?b = "sched_two\<lparr>sc_processes := [?p ! 1, ?p ! 1]\<rparr>"
  have "sched_step sched_two ?a"
    by (rule sched_remove [where pid = 1]) (simp add: scheduler_remove_eq sched_two_def)
  moreover have "sched_step ?a ?b"
    by (rule sched_add [where name = "Some ''shell''" and pr = PRIORITY_LOW and now = 0 and pid = 2])
       (simp add: scheduler_add_process_def sched_two_def MAX_SCHEDULED_PROCESSES_def)
  ultimately have "reach sched_init sched_step ?b"
    using sched_two_reachable by (meson reach_step)
  then show "\<exists>s. reach sched_init sched_step s \<and> \<not> distinct (map sp_pid (sc_processes s))"
    by (auto intro!: exI [of _ ?b])
next
  let ?c = "sched_two\<lparr>sc_current_process_idx := 1\<rparr>"
  let ?d = "?c\<lparr>sc_processes := [sc_processes sched_two ! 0]\<rparr>"
  have "sched_step sched_two ?c"
    by (rule sched_next) (simp add: scheduler_schedule_next_def sched_two_def)
  moreover have "sched_step ?c ?d"
    by (rule sched_remove [where pid = 2]) (simp add: scheduler_remove_eq sched_two_def)
  ultimately have "reach sched_init sched_step ?d"
    using sched_two_reachable by (meson reach_step)
  then show "\<exists>s i. reach sched_init sched_step s \<and>
      scheduler_get_current_process (Some s) = Some i \<and> length (sc_processes s) \<le> i"
    by (intro exI [of _ ?d] exI [of _ 1]) (simp add: scheduler_get_current_process_def)
qed

section \<open>Process identifiers\<close>

definition process_add :: "ProcessScheduler \<Rightarrow> string \<times> ProcessPriority \<times> time_t \<Rightarrow> ProcessScheduler \<times> u32" where
  "process_add s a = (case a of (nm, pr, now) \<Rightarrow>
     (case scheduler_add_process (Some s) (Some nm) pr now of Undef \<Rightarrow> (s, 0) | Done (h, k) \<Rightarrow> (the h, k)))"

definition process_remove :: "ProcessScheduler \<Rightarrow> u32 \<Rightarrow> ProcessScheduler" where
  "process_remove s k = the (scheduler_remove_process (Some s) k)"

interpretation process_table: shrinking_table process_add process_remove sc_processes sp_pid
  by unfold_locales
     (auto simp: process_add_def process_remove_def scheduler_add_process_def scheduler_remove_eq
       with_handle_ub_def Let_def split: if_splits)

end
