(* ===== verification/Journal.thy ===== *)
theory Journal
  imports Contracts
begin

unbundle bit_operations_syntax

text \<open>
  The filesystem journal of \<open>fs/fs_journal.c\<close>: entries (at most 4096, never removed), transactions
  (at most 512, removed by checkpoints), their state machine, the rotating checksum, commit, abort,
  checkpoint and recovery. A transaction stores the identifiers of its entries in an array of 256
  that \<open>journal_add_entry\<close> does not bound: the 257th write is undefined behaviour.
  Commit is composed of its three parts (mark COMMITTING, sync the entries one by one, mark
  COMMITTED), so that a crash between two of them is a state of the model.
\<close>

section \<open>State\<close>

definition MAX_JOURNAL_ENTRIES :: nat where "MAX_JOURNAL_ENTRIES = 4096"
definition MAX_JOURNAL_TRANSACTIONS :: nat where "MAX_JOURNAL_TRANSACTIONS = 512"
definition JOURNAL_ENTRY_SIZE :: nat where "JOURNAL_ENTRY_SIZE = 512"

datatype JournalMode = JOURNAL_MODE_WRITEBACK | JOURNAL_MODE_ORDERED | JOURNAL_MODE_DATA

datatype JournalEntryType =
  JOURNAL_ENTRY_START | JOURNAL_ENTRY_METADATA | JOURNAL_ENTRY_DATA | JOURNAL_ENTRY_COMMIT
  | JOURNAL_ENTRY_REVOKE

datatype TransactionState =
  TRANS_STATE_IDLE | TRANS_STATE_RUNNING | TRANS_STATE_COMMITTING | TRANS_STATE_COMMITTED
  | TRANS_STATE_ABORTED

record JournalEntry =
  je_entry_id :: u32
  je_type :: JournalEntryType
  je_transaction_id :: u32
  je_block_number :: u64
  je_data_length :: u32
  je_data :: "u8 list"
  je_checksum :: u32
  je_timestamp :: time_t
  je_is_synced :: bool

record Transaction =
  tr_transaction_id :: u32
  tr_state :: TransactionState
  tr_start_time :: time_t
  tr_commit_time :: time_t
  tr_entry_ids :: "u32 list"
  tr_in_progress :: bool

record FilesystemJournal =
  jn_entries :: "JournalEntry list"
  jn_transactions :: "Transaction list"
  jn_current_transaction_id :: u32
  jn_mode :: JournalMode
  jn_total_transactions :: u64
  jn_recovered_transactions :: u64
  jn_recovery_needed :: bool

text \<open>The all-zero transaction that \<open>memset\<close> leaves.\<close>

definition zero_transaction :: Transaction where
  "zero_transaction = \<lparr>tr_transaction_id = 0, tr_state = TRANS_STATE_IDLE, tr_start_time = 0,
     tr_commit_time = 0, tr_entry_ids = [], tr_in_progress = False\<rparr>"

section \<open>Checksum\<close>

definition rotl1 :: "u32 \<Rightarrow> u32" where
  "rotl1 c = push_bit 1 c OR drop_bit 31 c"

definition checksum_step :: "u32 \<Rightarrow> u8 \<Rightarrow> u32" where
  "checksum_step c b = rotl1 c XOR ucast b"

text \<open>\<open>data\<close> is the pointed-to buffer, of at least \<open>len\<close> bytes.\<close>

definition journal_calculate_checksum :: "u8 list option \<Rightarrow> u32 \<Rightarrow> u32" where
  "journal_calculate_checksum data len =
     (case data of None \<Rightarrow> 0
      | Some d \<Rightarrow> if len = 0 then 0 else foldl checksum_step 0 (take (unat len) d))"

definition journal_verify_checksum :: "JournalEntry option \<Rightarrow> int" where
  "journal_verify_checksum e = read_handle (-1) e (\<lambda>e.
     if journal_calculate_checksum (Some (je_data e)) (je_data_length e) = je_checksum e
     then 0 else -1)"

section \<open>Operations\<close>

definition journal_init :: "bool \<Rightarrow> JournalMode \<Rightarrow> FilesystemJournal option" where
  "journal_init malloc_ok mode =
     (if \<not> malloc_ok then None
      else Some \<lparr>jn_entries = [], jn_transactions = [], jn_current_transaction_id = 1,
                 jn_mode = mode, jn_total_transactions = 0, jn_recovered_transactions = 0,
                 jn_recovery_needed = False\<rparr>)"

definition journal_get_entry :: "FilesystemJournal option \<Rightarrow> u32 \<Rightarrow> nat option" where
  "journal_get_entry h entry_id = read_handle None h (\<lambda>j.
     first_idx (\<lambda>e. je_entry_id e = entry_id) (jn_entries j))"

definition journal_get_transaction :: "FilesystemJournal option \<Rightarrow> u32 \<Rightarrow> nat option" where
  "journal_get_transaction h trans_id = read_handle None h (\<lambda>j.
     first_idx (\<lambda>t. tr_transaction_id t = trans_id) (jn_transactions j))"

definition journal_begin_transaction ::
    "FilesystemJournal option \<Rightarrow> time_t \<Rightarrow> FilesystemJournal option \<times> u32" where
  "journal_begin_transaction h now = with_handle 0 h (\<lambda>j.
     if length (jn_transactions j) \<ge> MAX_JOURNAL_TRANSACTIONS then (j, 0)
     else let tid = jn_current_transaction_id j;
              trans = \<lparr>tr_transaction_id = tid, tr_state = TRANS_STATE_RUNNING,
                       tr_start_time = now, tr_commit_time = 0, tr_entry_ids = [],
                       tr_in_progress = True\<rparr>
          in (j\<lparr>jn_transactions := jn_transactions j @ [trans],
                jn_current_transaction_id := tid + 1,
                jn_total_transactions := jn_total_transactions j + 1\<rparr>, tid))"

text \<open>
  The entry that \<open>journal_add_entry\<close> fills in. Entry slots are zeroed by \<open>journal_init\<close> and used
  once, so the bytes of a new entry that are not copied are zero.
\<close>

definition make_entry ::
    "u32 \<Rightarrow> JournalEntryType \<Rightarrow> u32 \<Rightarrow> u64 \<Rightarrow> u8 list option \<Rightarrow> u32 \<Rightarrow> time_t \<Rightarrow> JournalEntry" where
  "make_entry entry_id type trans_id block_num data data_len now =
     (let zeros = replicate JOURNAL_ENTRY_SIZE 0;
          n = unat data_len;
          (bytes, csum) = (case data of
              None \<Rightarrow> (zeros, 0)
            | Some d \<Rightarrow> if n > 0
                then (take n d @ drop n zeros, journal_calculate_checksum data data_len)
                else (zeros, 0))
      in \<lparr>je_entry_id = entry_id, je_type = type, je_transaction_id = trans_id,
          je_block_number = block_num, je_data_length = data_len, je_data = bytes,
          je_checksum = csum, je_timestamp = now, je_is_synced = False\<rparr>)"

definition journal_add_entry ::
    "FilesystemJournal option \<Rightarrow> u32 \<Rightarrow> JournalEntryType \<Rightarrow> u64 \<Rightarrow> u8 list option \<Rightarrow> u32 \<Rightarrow> time_t \<Rightarrow>
     (FilesystemJournal option \<times> int) outcome" where
  "journal_add_entry h trans_id type block_num data data_len now = with_handle_ub (-1) h (\<lambda>j.
     if length (jn_entries j) \<ge> MAX_JOURNAL_ENTRIES then Done (j, -1)
     else if unat data_len > JOURNAL_ENTRY_SIZE then Done (j, -1)
     else case journal_get_transaction (Some j) trans_id of
       None \<Rightarrow> Done (j, -1)
     | Some k \<Rightarrow>
         let trans = jn_transactions j ! k in
         if tr_state trans \<noteq> TRANS_STATE_RUNNING then Done (j, -1)
         else if (case data of None \<Rightarrow> False | Some d \<Rightarrow> length d < unat data_len) then Undef
         else if length (tr_entry_ids trans) \<ge> 256 then Undef
         else let entry_id = of_nat (length (jn_entries j)) + 1;
                  entry = make_entry entry_id type trans_id block_num data data_len now;
                  trans' = trans\<lparr>tr_entry_ids := tr_entry_ids trans @ [entry_id]\<rparr>
              in Done (j\<lparr>jn_entries := jn_entries j @ [entry],
                         jn_transactions := (jn_transactions j)[k := trans']\<rparr>, sint entry_id))"

text \<open>The loop over a transaction's entries that sets or clears \<open>is_synced\<close>.\<close>

definition set_synced :: "bool \<Rightarrow> JournalEntry list \<Rightarrow> u32 \<Rightarrow> JournalEntry list" where
  "set_synced b es entry_id =
     (case first_idx (\<lambda>e. je_entry_id e = entry_id) es of
        None \<Rightarrow> es
      | Some i \<Rightarrow> es[i := (es ! i)\<lparr>je_is_synced := b\<rparr>])"

definition commit_start :: "FilesystemJournal \<Rightarrow> nat \<Rightarrow> time_t \<Rightarrow> FilesystemJournal" where
  "commit_start j k now = j\<lparr>jn_transactions := (jn_transactions j)[k :=
     (jn_transactions j ! k)\<lparr>tr_state := TRANS_STATE_COMMITTING, tr_commit_time := now\<rparr>]\<rparr>"

definition commit_sync :: "nat \<Rightarrow> FilesystemJournal \<Rightarrow> nat \<Rightarrow> FilesystemJournal" where
  "commit_sync n j k = j\<lparr>jn_entries :=
     foldl (set_synced True) (jn_entries j) (take n (tr_entry_ids (jn_transactions j ! k)))\<rparr>"

definition commit_finish :: "FilesystemJournal \<Rightarrow> nat \<Rightarrow> FilesystemJournal" where
  "commit_finish j k = j\<lparr>jn_transactions := (jn_transactions j)[k :=
     (jn_transactions j ! k)\<lparr>tr_state := TRANS_STATE_COMMITTED, tr_in_progress := False\<rparr>]\<rparr>"

definition journal_commit_transaction ::
    "FilesystemJournal option \<Rightarrow> u32 \<Rightarrow> time_t \<Rightarrow> FilesystemJournal option \<times> int" where
  "journal_commit_transaction h trans_id now = with_handle (-1) h (\<lambda>j.
     case journal_get_transaction (Some j) trans_id of
       None \<Rightarrow> (j, -1)
     | Some k \<Rightarrow>
         if tr_state (jn_transactions j ! k) \<noteq> TRANS_STATE_RUNNING then (j, -1)
         else let n = length (tr_entry_ids (jn_transactions j ! k))
              in (commit_finish (commit_sync n (commit_start j k now) k) k, 0))"

definition journal_abort_transaction ::
    "FilesystemJournal option \<Rightarrow> u32 \<Rightarrow> FilesystemJournal option \<times> int" where
  "journal_abort_transaction h trans_id = with_handle (-1) h (\<lambda>j.
     case journal_get_transaction (Some j) trans_id of
       None \<Rightarrow> (j, -1)
     | Some k \<Rightarrow>
         let trans = (jn_transactions j ! k)\<lparr>tr_state := TRANS_STATE_ABORTED, tr_in_progress := False\<rparr>
         in (j\<lparr>jn_transactions := (jn_transactions j)[k := trans],
               jn_entries := foldl (set_synced False) (jn_entries j) (tr_entry_ids trans)\<rparr>, 0))"

text \<open>The cleanup aborts what is open, in memory that it then zeroes and frees.\<close>

definition journal_cleanup :: "FilesystemJournal option \<Rightarrow> FilesystemJournal option" where
  "journal_cleanup h = None"

definition journal_checkpoint :: "FilesystemJournal option \<Rightarrow> FilesystemJournal option \<times> int" where
  "journal_checkpoint h = with_handle (-1) h (\<lambda>j.
     let cleared = map (\<lambda>t. if tr_state t = TRANS_STATE_COMMITTED \<and> \<not> tr_in_progress t
                            then zero_transaction else t) (jn_transactions j)
     in (j\<lparr>jn_transactions := compact (\<lambda>t. tr_transaction_id t > 0) id cleared\<rparr>, 0))"

fun recover_entries ::
    "TransactionState \<Rightarrow> JournalEntry list \<Rightarrow> u32 list \<Rightarrow> u32 \<Rightarrow> JournalEntry list \<times> u32" where
  "recover_entries st es [] c = (es, c)"
| "recover_entries st es (i # is) c =
     (case first_idx (\<lambda>e. je_entry_id e = i) es of
        None \<Rightarrow> recover_entries st es is c
      | Some m \<Rightarrow>
          if journal_verify_checksum (Some (es ! m)) = 0 \<and> st = TRANS_STATE_COMMITTING
          then recover_entries st (es[m := (es ! m)\<lparr>je_is_synced := True\<rparr>]) is (c + 1)
          else recover_entries st es is c)"

fun recover_loop ::
    "JournalEntry list \<Rightarrow> Transaction list \<Rightarrow> u32 \<Rightarrow> JournalEntry list \<times> Transaction list \<times> u32" where
  "recover_loop es [] c = (es, [], c)"
| "recover_loop es (t # ts) c =
     (if tr_state t = TRANS_STATE_RUNNING \<or> tr_state t = TRANS_STATE_COMMITTING
      then let (es1, c1) = recover_entries (tr_state t) es (tr_entry_ids t) c;
               t' = (if tr_state t = TRANS_STATE_COMMITTING
                     then t\<lparr>tr_state := TRANS_STATE_COMMITTED\<rparr>
                     else t\<lparr>tr_state := TRANS_STATE_ABORTED\<rparr>);
               (es2, ts', c2) = recover_loop es1 ts c1
           in (es2, t' # ts', c2)
      else let (es2, ts', c2) = recover_loop es ts c in (es2, t # ts', c2))"

definition journal_recover :: "FilesystemJournal option \<Rightarrow> FilesystemJournal option \<times> int" where
  "journal_recover h = with_handle (-1) h (\<lambda>j.
     let (es, ts, c) = recover_loop (jn_entries j) (jn_transactions j) 0
     in (j\<lparr>jn_recovery_needed := False, jn_entries := es, jn_transactions := ts,
           jn_recovered_transactions := ucast c\<rparr>, 0))"

definition journal_sync_to_disk :: "FilesystemJournal option \<Rightarrow> FilesystemJournal option \<times> int" where
  "journal_sync_to_disk h = with_handle (-1) h (\<lambda>j.
     (j\<lparr>jn_entries := map (\<lambda>e. if \<not> je_is_synced e then e\<lparr>je_is_synced := True\<rparr> else e) (jn_entries j)\<rparr>,
      int (length (filter (\<lambda>e. \<not> je_is_synced e) (jn_entries j)))))"

definition journal_get_pending_transactions :: "FilesystemJournal option \<Rightarrow> u32" where
  "journal_get_pending_transactions h = read_handle 0 h (\<lambda>j.
     of_nat (length (filter tr_in_progress (jn_transactions j))))"

definition journal_set_mode ::
    "FilesystemJournal option \<Rightarrow> JournalMode \<Rightarrow> FilesystemJournal option \<times> int" where
  "journal_set_mode h mode = with_handle (-1) h (\<lambda>j.
     if journal_get_pending_transactions (Some j) > 0 then (j, -1)
     else (j\<lparr>jn_mode := mode\<rparr>, 0))"

definition journal_get_mode :: "FilesystemJournal option \<Rightarrow> JournalMode" where
  "journal_get_mode h = read_handle JOURNAL_MODE_WRITEBACK h jn_mode"

section \<open>The checksum detects a changed byte\<close>

lemma rotl1_bit: "n < 32 \<Longrightarrow> bit (rotl1 c) n = bit c (if n = 0 then 31 else n - 1)"
  unfolding rotl1_def bit_or_iff bit_push_bit_iff bit_drop_bit_eq comp_def
  by (auto dest: bit_imp_le_length)

lemma rotl1_inj: "rotl1 c = rotl1 d \<Longrightarrow> c = d"
proof (rule bit_word_eqI)
  fix n assume eq: "rotl1 c = rotl1 d" and "n < LENGTH(32)"
  then have n: "n < 32" by simp
  show "bit c n = bit d n"
  proof (cases "n = 31")
    case True
    with rotl1_bit [of 0 c] rotl1_bit [of 0 d] eq show ?thesis by simp
  next
    case False
    with n rotl1_bit [of "Suc n" c] rotl1_bit [of "Suc n" d] eq show ?thesis by simp
  qed
qed

lemma ucast_u8_inj: "(ucast (a :: u8) :: u32) = ucast b \<longleftrightarrow> a = b"
  by (rule iffI, simp add: bit_eq_iff bit_simps, simp)

lemma checksum_step_inj_state: "checksum_step c b = checksum_step d b \<longleftrightarrow> c = d"
  by (auto simp: checksum_step_def xor_cancel dest: rotl1_inj)

lemma checksum_step_inj_byte: "checksum_step c b = checksum_step c b' \<longleftrightarrow> b = b'"
  by (auto simp: checksum_step_def xor_cancel ucast_u8_inj)

lemma foldl_checksum_inj: "foldl checksum_step c xs = foldl checksum_step d xs \<longleftrightarrow> c = d"
  by (induction xs arbitrary: c d) (simp_all add: checksum_step_inj_state)

lemma foldl_checksum_zeros [simp]: "foldl checksum_step 0 (replicate n 0) = 0"
  by (induction n) (simp_all add: checksum_step_def rotl1_def)

section \<open>Invariant\<close>

definition entry_ok :: "JournalEntry \<Rightarrow> bool" where
  "entry_ok e \<longleftrightarrow> length (je_data e) = JOURNAL_ENTRY_SIZE \<and>
     unat (je_data_length e) \<le> JOURNAL_ENTRY_SIZE \<and> journal_verify_checksum (Some e) = 0"

definition trans_ok :: "u32 set \<Rightarrow> Transaction \<Rightarrow> bool" where
  "trans_ok ids t \<longleftrightarrow> length (tr_entry_ids t) \<le> 256 \<and> tr_state t \<noteq> TRANS_STATE_COMMITTING \<and>
     (tr_state t = TRANS_STATE_RUNNING \<longrightarrow> tr_in_progress t) \<and> set (tr_entry_ids t) \<subseteq> ids"

definition journal_inv :: "FilesystemJournal \<Rightarrow> bool" where
  "journal_inv j \<longleftrightarrow>
     length (jn_entries j) \<le> MAX_JOURNAL_ENTRIES \<and>
     length (jn_transactions j) \<le> MAX_JOURNAL_TRANSACTIONS \<and>
     map je_entry_id (jn_entries j) = map (\<lambda>m. of_nat (Suc m)) [0..<length (jn_entries j)] \<and>
     (\<forall>e\<in>set (jn_entries j). entry_ok e) \<and>
     (\<forall>t\<in>set (jn_transactions j). trans_ok (je_entry_id ` set (jn_entries j)) t)"

lemma verify_synced [simp]:
  "journal_verify_checksum (Some (e\<lparr>je_is_synced := b\<rparr>)) = journal_verify_checksum (Some e)"
  by (simp add: journal_verify_checksum_def)

lemma entry_ok_synced [simp]: "entry_ok (e\<lparr>je_is_synced := b\<rparr>) = entry_ok e"
  by (simp add: entry_ok_def)

lemma dense_ids_distinct:
  assumes "map key xs = map (\<lambda>m. of_nat (Suc m) :: u32) [0..<length xs]"
    and "length xs \<le> MAX_JOURNAL_ENTRIES"
  shows "distinct (map key xs)"
proof -
  have "inj_on (\<lambda>m. of_nat (Suc m) :: u32) {0..<length xs}"
    using assms(2) by (intro inj_onI)
      (auto simp: of_nat_u32_inject MAX_JOURNAL_ENTRIES_def simp del: of_nat_Suc)
  then show ?thesis using assms(1) by (simp add: distinct_map del: of_nat_Suc)
qed

lemma journal_inv_distinct: "journal_inv j \<Longrightarrow> distinct (map je_entry_id (jn_entries j))"
  by (auto simp: journal_inv_def intro: dense_ids_distinct)

section \<open>Syncing a set of entries\<close>

definition sync_ids :: "bool \<Rightarrow> u32 set \<Rightarrow> JournalEntry list \<Rightarrow> JournalEntry list" where
  "sync_ids b I es = map (\<lambda>e. if je_entry_id e \<in> I then e\<lparr>je_is_synced := b\<rparr> else e) es"

lemma sync_ids_simps [simp]:
  "sync_ids b I [] = []"
  "sync_ids b I (e # es) =
     (if je_entry_id e \<in> I then e\<lparr>je_is_synced := b\<rparr> else e) # sync_ids b I es"
  by (simp_all add: sync_ids_def)

lemma sync_ids_keys [simp]: "map je_entry_id (sync_ids b I es) = map je_entry_id es"
  by (induction es) auto

lemma sync_ids_key_set [simp]: "je_entry_id ` set (sync_ids b I es) = je_entry_id ` set es"
  by (metis list.set_map sync_ids_keys)

lemma length_sync_ids [simp]: "length (sync_ids b I es) = length es"
  by (simp add: sync_ids_def)

lemma sync_ids_empty [simp]: "sync_ids b {} es = es"
  by (induction es) auto

lemma sync_ids_sync_ids: "sync_ids b J (sync_ids b I es) = sync_ids b (I \<union> J) es"
  by (induction es) auto

lemma sync_ids_verify:
  "\<forall>e\<in>set es. journal_verify_checksum (Some e) = 0 \<Longrightarrow>
   \<forall>e\<in>set (sync_ids b I es). journal_verify_checksum (Some e) = 0"
  by (induction es) auto

lemma sync_ids_entry_ok:
  "\<forall>e\<in>set es. entry_ok e \<Longrightarrow> \<forall>e\<in>set (sync_ids b I es). entry_ok e"
  by (induction es) auto

lemma set_synced_key_absent:
  "i \<notin> je_entry_id ` set es \<Longrightarrow> sync_ids b {i} es = es"
  by (induction es) auto

lemma set_synced_eq:
  "distinct (map je_entry_id es) \<Longrightarrow> set_synced b es i = sync_ids b {i} es"
proof (induction es)
  case Nil
  then show ?case by (simp add: set_synced_def)
next
  case (Cons e es)
  show ?case
  proof (cases "je_entry_id e = i")
    case True
    with Cons.prems show ?thesis by (auto simp: set_synced_def set_synced_key_absent)
  next
    case False
    with Cons show ?thesis by (auto simp: set_synced_def split: option.splits)
  qed
qed

lemma foldl_set_synced_eq:
  "distinct (map je_entry_id es) \<Longrightarrow> foldl (set_synced b) es is = sync_ids b (set is) es"
proof (induction "is" arbitrary: es)
  case Nil
  then show ?case by simp
next
  case (Cons i "is")
  then have "foldl (set_synced b) es (i # is) = sync_ids b (set is) (sync_ids b {i} es)"
    by (simp add: set_synced_eq)
  also have "\<dots> = sync_ids b (set (i # is)) es" by (subst sync_ids_sync_ids) simp
  finally show ?case .
qed

lemma recover_entries_committing:
  assumes "distinct (map je_entry_id es)" and "\<forall>e\<in>set es. journal_verify_checksum (Some e) = 0"
  shows "fst (recover_entries TRANS_STATE_COMMITTING es is c) = foldl (set_synced True) es is"
  using assms
proof (induction "is" arbitrary: es c)
  case Nil
  then show ?case by simp
next
  case (Cons i "is")
  show ?case
  proof (cases "first_idx (\<lambda>e. je_entry_id e = i) es")
    case None
    then have "set_synced True es i = es" by (simp add: set_synced_def)
    with None Cons show ?thesis by simp
  next
    case (Some m)
    let ?es = "es[m := (es ! m)\<lparr>je_is_synced := True\<rparr>]"
    have m: "m < length es" "es ! m \<in> set es" using Some by (auto dest: first_idx_SomeD)
    have "map je_entry_id ?es = map je_entry_id es"
      using m by (simp add: map_update list_update_same_conv)
    moreover have "\<forall>e\<in>set ?es. journal_verify_checksum (Some e) = 0"
      using Cons.prems(2) m(2)
        set_update_subset_insert [of es m "(es ! m)\<lparr>je_is_synced := True\<rparr>"] by force
    ultimately have "fst (recover_entries TRANS_STATE_COMMITTING ?es is (c + 1)) =
        foldl (set_synced True) ?es is"
      using Cons.IH [of ?es "c + 1"] Cons.prems(1) by simp
    moreover have "set_synced True es i = ?es" using Some by (simp add: set_synced_def)
    ultimately show ?thesis using Some m Cons.prems(2) by simp
  qed
qed

lemma recover_entries_running:
  "st \<noteq> TRANS_STATE_COMMITTING \<Longrightarrow> fst (recover_entries st es is c) = es"
  by (induction "is" arbitrary: c) (auto split: option.split)

definition recovered :: "Transaction \<Rightarrow> Transaction" where
  "recovered t =
     (if tr_state t = TRANS_STATE_COMMITTING then t\<lparr>tr_state := TRANS_STATE_COMMITTED\<rparr>
      else if tr_state t = TRANS_STATE_RUNNING then t\<lparr>tr_state := TRANS_STATE_ABORTED\<rparr> else t)"

definition committing_ids :: "Transaction list \<Rightarrow> u32 set" where
  "committing_ids ts = (\<Union>t \<in> {t \<in> set ts. tr_state t = TRANS_STATE_COMMITTING}. set (tr_entry_ids t))"

lemma committing_ids_simps [simp]:
  "committing_ids [] = {}"
  "committing_ids (t # ts) = (if tr_state t = TRANS_STATE_COMMITTING
     then set (tr_entry_ids t) \<union> committing_ids ts else committing_ids ts)"
  by (auto simp: committing_ids_def)

lemma recover_loop_eq:
  assumes "distinct (map je_entry_id es)" and "\<forall>e\<in>set es. journal_verify_checksum (Some e) = 0"
    and "recover_loop es ts c = (es', ts', c')"
  shows "es' = sync_ids True (committing_ids ts) es \<and> ts' = map recovered ts"
  using assms
proof (induction ts arbitrary: es c es' ts' c')
  case Nil
  then show ?case by simp
next
  case (Cons t ts)
  show ?case
  proof (cases "tr_state t = TRANS_STATE_COMMITTING")
    case True
    let ?es = "sync_ids True (set (tr_entry_ids t)) es"
    have es1: "fst (recover_entries TRANS_STATE_COMMITTING es (tr_entry_ids t) c) = ?es"
      using Cons.prems recover_entries_committing foldl_set_synced_eq by simp
    obtain c1 ts1 where rest: "recover_loop ?es ts c1 = (es', ts1, c')"
        and ts': "ts' = t\<lparr>tr_state := TRANS_STATE_COMMITTED\<rparr> # ts1"
      using Cons.prems(3) True es1 by (auto split: prod.splits)
    have ok: "\<forall>e\<in>set ?es. journal_verify_checksum (Some e) = 0"
      using Cons.prems(2) by (rule sync_ids_verify)
    have d: "distinct (map je_entry_id ?es)" using Cons.prems(1) by simp
    from Cons.IH [OF d ok rest] have "es' = sync_ids True (committing_ids ts) ?es"
        and "ts1 = map recovered ts" by auto
    with True ts' show ?thesis by (simp add: sync_ids_sync_ids recovered_def)
  next
    case False
    have "fst (recover_entries (tr_state t) es (tr_entry_ids t) c) = es"
      using False by (rule recover_entries_running)
    then obtain c1 ts1 where rest: "recover_loop es ts c1 = (es', ts1, c')"
        and ts': "ts' = recovered t # ts1"
      using Cons.prems(3) False by (auto simp: recovered_def split: prod.splits if_splits)
    with Cons.IH [OF Cons.prems(1,2) rest] False show ?thesis by simp
  qed
qed

section \<open>Every operation keeps the invariant\<close>

definition journal_start :: "FilesystemJournal \<Rightarrow> bool" where
  "journal_start j \<longleftrightarrow> (\<exists>mode. journal_init True mode = Some j)"

inductive journal_step :: "FilesystemJournal \<Rightarrow> FilesystemJournal \<Rightarrow> bool" where
  j_begin: "journal_begin_transaction (Some j) now = (Some j', i) \<Longrightarrow> journal_step j j'"
| j_add: "journal_add_entry (Some j) tid ty bn d n now = Done (Some j', r) \<Longrightarrow> journal_step j j'"
| j_commit: "journal_commit_transaction (Some j) tid now = (Some j', r) \<Longrightarrow> journal_step j j'"
| j_abort: "journal_abort_transaction (Some j) tid = (Some j', r) \<Longrightarrow> journal_step j j'"
| j_checkpoint: "journal_checkpoint (Some j) = (Some j', r) \<Longrightarrow> journal_step j j'"
| j_recover: "journal_recover (Some j) = (Some j', r) \<Longrightarrow> journal_step j j'"
| j_sync: "journal_sync_to_disk (Some j) = (Some j', r) \<Longrightarrow> journal_step j j'"
| j_mode: "journal_set_mode (Some j) mode = (Some j', r) \<Longrightarrow> journal_step j j'"

lemma checkpoint_transactions:
  assumes "\<forall>t\<in>set (jn_transactions j). tr_transaction_id t \<noteq> 0"
    and "journal_checkpoint (Some j) = (Some j', r)"
  shows "jn_transactions j' =
    filter (\<lambda>t. \<not> (tr_state t = TRANS_STATE_COMMITTED \<and> \<not> tr_in_progress t)) (jn_transactions j)"
proof -
  have "filter (\<lambda>t. tr_transaction_id t > 0)
      (map (\<lambda>t. if tr_state t = TRANS_STATE_COMMITTED \<and> \<not> tr_in_progress t
                then zero_transaction else t) ts) =
    filter (\<lambda>t. \<not> (tr_state t = TRANS_STATE_COMMITTED \<and> \<not> tr_in_progress t)) ts"
    if "\<forall>t\<in>set ts. tr_transaction_id t \<noteq> 0" for ts
    using that by (induction ts) (auto simp: zero_transaction_def word_gt_0)
  with assms show ?thesis by (auto simp: journal_checkpoint_def compact_eq)
qed

lemma checkpoint_subset:
  assumes "journal_checkpoint (Some j) = (Some j', r)"
  shows "set (jn_transactions j') \<subseteq> set (jn_transactions j) \<union> {zero_transaction}"
    and "length (jn_transactions j') \<le> length (jn_transactions j)"
    and "jn_entries j' = jn_entries j"
  using assms
  by (auto simp: journal_checkpoint_def compact_eq intro: length_filter_le [THEN le_trans])

lemma make_entry_id [simp]: "je_entry_id (make_entry i ty tid bn d n now) = i"
  by (simp add: make_entry_def Let_def split: prod.split)

lemma make_entry_ok:
  assumes "unat n \<le> JOURNAL_ENTRY_SIZE"
    and "\<not> (case d of None \<Rightarrow> False | Some xs \<Rightarrow> length xs < unat n)"
  shows "entry_ok (make_entry i ty tid bn d n now)"
proof (cases d)
  case None
  with assms show ?thesis
    by (simp add: make_entry_def entry_ok_def journal_verify_checksum_def
        journal_calculate_checksum_def)
next
  case (Some xs)
  show ?thesis
  proof (cases "n = 0")
    case True
    with Some show ?thesis
      by (simp add: make_entry_def entry_ok_def journal_verify_checksum_def
          journal_calculate_checksum_def)
  next
    case False
    with Some assms show ?thesis
      by (simp add: make_entry_def entry_ok_def journal_verify_checksum_def Let_def
          journal_calculate_checksum_def unat_gt_0)
  qed
qed

lemma add_entry_cases:
  assumes "journal_add_entry (Some j) tid ty bn d n now = Done (Some j', r)" and "j' \<noteq> j"
  obtains k i where "journal_get_transaction (Some j) tid = Some k"
    and "i = of_nat (length (jn_entries j)) + 1"
    and "length (jn_entries j) < MAX_JOURNAL_ENTRIES"
    and "length (tr_entry_ids (jn_transactions j ! k)) < 256"
    and "entry_ok (make_entry i ty tid bn d n now)"
    and "j' = j\<lparr>jn_entries := jn_entries j @ [make_entry i ty tid bn d n now],
           jn_transactions := (jn_transactions j)[k := (jn_transactions j ! k)
             \<lparr>tr_entry_ids := tr_entry_ids (jn_transactions j ! k) @ [i]\<rparr>]\<rparr>"
  using assms make_entry_ok
  by (simp add: journal_add_entry_def Let_def not_le split: if_splits option.splits)

lemma get_transaction_SomeD:
  assumes "journal_get_transaction (Some j) tid = Some k"
  shows "k < length (jn_transactions j)" "jn_transactions j ! k \<in> set (jn_transactions j)"
    "tr_transaction_id (jn_transactions j ! k) = tid"
  using assms by (auto simp: journal_get_transaction_def dest: first_idx_SomeD)

lemma trans_ok_mono: "trans_ok I t \<Longrightarrow> I \<subseteq> J \<Longrightarrow> trans_ok J t"
  by (auto simp: trans_ok_def)

lemma ball_list_update:
  "\<forall>x\<in>set xs. P x \<Longrightarrow> P y \<Longrightarrow> \<forall>x\<in>set (xs[k := y]). P x"
  using set_update_subset_insert [of xs k y] by auto

lemma add_entry_inv:
  assumes inv: "journal_inv j"
    and add: "journal_add_entry (Some j) tid ty bn d n now = Done (Some j', r)"
  shows "journal_inv j'"
proof (cases "j' = j")
  case True
  with inv show ?thesis by simp
next
  case False
  with add show ?thesis
  proof (cases rule: add_entry_cases)
    case (1 k i)
    let ?e = "make_entry i ty tid bn d n now"
    let ?t = "jn_transactions j ! k"
    let ?I = "je_entry_id ` set (jn_entries j @ [?e])"
    have "trans_ok (je_entry_id ` set (jn_entries j)) t" if "t \<in> set (jn_transactions j)" for t
      using inv that by (simp add: journal_inv_def)
    then have all: "\<forall>t\<in>set (jn_transactions j). trans_ok ?I t"
      by (auto intro: trans_ok_mono)
    with get_transaction_SomeD [OF 1(1)] 1(4)
    have "trans_ok ?I (?t\<lparr>tr_entry_ids := tr_entry_ids ?t @ [i]\<rparr>)"
      by (auto simp: trans_ok_def)
    with all have "\<forall>t\<in>set ((jn_transactions j)[k := ?t\<lparr>tr_entry_ids := tr_entry_ids ?t @ [i]\<rparr>]).
        trans_ok ?I t"
      by (rule ball_list_update)
    with inv 1 show ?thesis by (auto simp: journal_inv_def)
  qed
qed

lemma commit_eq:
  assumes "journal_inv j" and "journal_get_transaction (Some j) tid = Some k"
    and "tr_state (jn_transactions j ! k) = TRANS_STATE_RUNNING"
  shows "journal_commit_transaction (Some j) tid now =
    (Some (j\<lparr>jn_entries := sync_ids True (set (tr_entry_ids (jn_transactions j ! k))) (jn_entries j),
             jn_transactions := (jn_transactions j)[k := (jn_transactions j ! k)
               \<lparr>tr_commit_time := now, tr_state := TRANS_STATE_COMMITTED, tr_in_progress := False\<rparr>]\<rparr>), 0)"
  using assms journal_inv_distinct [OF assms(1)] get_transaction_SomeD(1) [OF assms(2)]
  by (simp add: journal_commit_transaction_def commit_finish_def commit_sync_def commit_start_def
      foldl_set_synced_eq)

lemma journal_inv_sync_update:
  assumes "journal_inv j" and "trans_ok (je_entry_id ` set (jn_entries j)) t"
    and "jn_entries j' = sync_ids b I (jn_entries j)"
    and "jn_transactions j' = (jn_transactions j)[k := t]"
  shows "journal_inv j'"
proof -
  have "\<forall>u\<in>set (jn_transactions j'). trans_ok (je_entry_id ` set (jn_entries j)) u"
    using assms unfolding assms(4) by (intro ball_list_update) (auto simp: journal_inv_def)
  with assms show ?thesis by (auto simp: journal_inv_def sync_ids_entry_ok)
qed

lemma journal_commit_inv:
  assumes inv: "journal_inv j" and c: "journal_commit_transaction (Some j) tid now = (Some j', r)"
  shows "journal_inv j'"
proof (cases "j' = j")
  case True
  with inv show ?thesis by simp
next
  case False
  with c obtain k where k: "journal_get_transaction (Some j) tid = Some k"
      and st: "tr_state (jn_transactions j ! k) = TRANS_STATE_RUNNING"
    by (auto simp: journal_commit_transaction_def split: option.splits if_splits)
  from k inv have "trans_ok (je_entry_id ` set (jn_entries j)) (jn_transactions j ! k)"
    by (auto simp: journal_inv_def dest: get_transaction_SomeD)
  then have "trans_ok (je_entry_id ` set (jn_entries j)) ((jn_transactions j ! k)
      \<lparr>tr_commit_time := now, tr_state := TRANS_STATE_COMMITTED, tr_in_progress := False\<rparr>)"
    by (simp add: trans_ok_def)
  from journal_inv_sync_update [OF inv this, of j' True] c commit_eq [OF inv k st] show ?thesis
    by auto
qed

lemma journal_abort_inv:
  assumes inv: "journal_inv j" and a: "journal_abort_transaction (Some j) tid = (Some j', r)"
  shows "journal_inv j'"
proof (cases "journal_get_transaction (Some j) tid")
  case None
  with inv a show ?thesis by (simp add: journal_abort_transaction_def)
next
  case (Some k)
  have "trans_ok (je_entry_id ` set (jn_entries j)) (jn_transactions j ! k)"
    using Some inv by (auto simp: journal_inv_def dest: get_transaction_SomeD)
  then have "trans_ok (je_entry_id ` set (jn_entries j))
      ((jn_transactions j ! k)\<lparr>tr_state := TRANS_STATE_ABORTED, tr_in_progress := False\<rparr>)"
    by (simp add: trans_ok_def)
  from journal_inv_sync_update [OF inv this, of j' False] a Some show ?thesis
    by (auto simp: journal_abort_transaction_def Let_def foldl_set_synced_eq
        journal_inv_distinct [OF inv])
qed

lemma recover_eq:
  assumes "distinct (map je_entry_id (jn_entries j))"
    and "\<forall>e\<in>set (jn_entries j). journal_verify_checksum (Some e) = 0"
    and "journal_recover (Some j) = (Some j', r)"
  shows "jn_entries j' = sync_ids True (committing_ids (jn_transactions j)) (jn_entries j)"
    and "jn_transactions j' = map recovered (jn_transactions j)" and "r = 0"
proof -
  obtain es ts c where l: "recover_loop (jn_entries j) (jn_transactions j) 0 = (es, ts, c)"
    using prod_cases3 by blast
  from assms(3) recover_loop_eq [OF assms(1,2) l] l
  show "jn_entries j' = sync_ids True (committing_ids (jn_transactions j)) (jn_entries j)"
    and "jn_transactions j' = map recovered (jn_transactions j)" and "r = 0"
    by (auto simp: journal_recover_def)
qed

lemma journal_recover_inv:
  assumes inv: "journal_inv j" and r: "journal_recover (Some j) = (Some j', r)"
  shows "journal_inv j'"
proof -
  have v: "\<forall>e\<in>set (jn_entries j). journal_verify_checksum (Some e) = 0"
    using inv by (auto simp: journal_inv_def entry_ok_def)
  note eq = recover_eq [OF journal_inv_distinct [OF inv] v r]
  have "trans_ok I (recovered t)" if "trans_ok I t" for I t
    using that by (auto simp: trans_ok_def recovered_def)
  with inv show ?thesis by (auto simp: journal_inv_def eq sync_ids_entry_ok)
qed

lemma journal_sync_inv:
  assumes inv: "journal_inv j" and "journal_sync_to_disk (Some j) = (Some j', r)"
  shows "journal_inv j'"
proof -
  have "map (\<lambda>e. if \<not> je_is_synced e then e\<lparr>je_is_synced := True\<rparr> else e) es =
      sync_ids True (je_entry_id ` set es) es" for es
    by (auto simp: sync_ids_def)
  with assms have "j' = j\<lparr>jn_entries := sync_ids True (je_entry_id ` set (jn_entries j)) (jn_entries j)\<rparr>"
    by (simp add: journal_sync_to_disk_def)
  with inv show ?thesis by (auto simp: journal_inv_def sync_ids_entry_ok)
qed

interpretation journal: invariant_system journal_start journal_step journal_inv
proof
  fix j assume "journal_start j"
  then show "journal_inv j" by (auto simp: journal_start_def journal_init_def journal_inv_def)
next
  fix j j' assume "journal_step j j'" and inv: "journal_inv j"
  then show "journal_inv j'"
  proof cases
    case (j_begin now i)
    have "trans_ok I \<lparr>tr_transaction_id = tid, tr_state = TRANS_STATE_RUNNING, tr_start_time = now,
        tr_commit_time = 0, tr_entry_ids = [], tr_in_progress = True\<rparr>" for I tid
      by (simp add: trans_ok_def)
    with j_begin inv show ?thesis
      by (auto simp: journal_begin_transaction_def journal_inv_def Let_def split: if_splits)
  next
    case (j_checkpoint r)
    have "trans_ok I zero_transaction" for I by (simp add: trans_ok_def zero_transaction_def)
    with checkpoint_subset [OF j_checkpoint] inv show ?thesis by (auto simp: journal_inv_def)
  next
    case (j_mode mode r)
    with inv show ?thesis by (auto simp: journal_set_mode_def journal_inv_def split: if_splits)
  qed (auto intro: inv add_entry_inv journal_commit_inv journal_abort_inv journal_recover_inv
      journal_sync_inv)
qed

section \<open>A crash in the middle of a commit\<close>

lemma commit_interrupted:
  assumes inv: "journal_inv j" and k: "k < length (jn_transactions j)"
    and j1: "j1 = commit_sync n (commit_start j k now) k"
  shows "jn_entries j1 = sync_ids True (set (take n (tr_entry_ids (jn_transactions j ! k)))) (jn_entries j)"
    and "jn_transactions j1 = (jn_transactions j)[k := (jn_transactions j ! k)
           \<lparr>tr_state := TRANS_STATE_COMMITTING, tr_commit_time := now\<rparr>]"
    and "committing_ids (jn_transactions j1) = set (tr_entry_ids (jn_transactions j ! k))"
proof -
  let ?t = "(jn_transactions j ! k)\<lparr>tr_state := TRANS_STATE_COMMITTING, tr_commit_time := now\<rparr>"
  show "jn_entries j1 = sync_ids True (set (take n (tr_entry_ids (jn_transactions j ! k)))) (jn_entries j)"
    using k by (simp add: j1 commit_sync_def commit_start_def foldl_set_synced_eq
        journal_inv_distinct [OF inv])
  show ts: "jn_transactions j1 = (jn_transactions j)[k := ?t]"
    by (simp add: j1 commit_sync_def commit_start_def)
  have "{u \<in> set (jn_transactions j1). tr_state u = TRANS_STATE_COMMITTING} = {?t}"
    using inv k set_update_memI [OF k, of ?t] set_update_subset_insert [of "jn_transactions j" k ?t]
    by (auto simp: ts journal_inv_def trans_ok_def)
  then show "committing_ids (jn_transactions j1) = set (tr_entry_ids (jn_transactions j ! k))"
    by (simp add: committing_ids_def)
qed

lemma recover_interrupted:
  assumes inv: "journal_inv j" and k: "k < length (jn_transactions j)"
    and j1: "j1 = commit_sync n (commit_start j k now) k"
    and r: "journal_recover (Some j1) = (Some j2, r)"
  shows "jn_entries j2 = sync_ids True (set (tr_entry_ids (jn_transactions j ! k))) (jn_entries j)"
    and "jn_transactions j2 = map recovered (jn_transactions j1)" and "r = 0"
    and "jn_transactions j2 ! k = (jn_transactions j ! k)
           \<lparr>tr_state := TRANS_STATE_COMMITTED, tr_commit_time := now\<rparr>"
proof -
  note int = commit_interrupted [OF inv k j1]
  have d: "distinct (map je_entry_id (jn_entries j1))"
    using journal_inv_distinct [OF inv] by (simp add: int)
  have v: "\<forall>e\<in>set (jn_entries j1). journal_verify_checksum (Some e) = 0"
    unfolding int using inv by (intro sync_ids_verify) (auto simp: journal_inv_def entry_ok_def)
  note rec = recover_eq [OF d v r]
  have "set (take n (tr_entry_ids (jn_transactions j ! k))) \<union> set (tr_entry_ids (jn_transactions j ! k))
      = set (tr_entry_ids (jn_transactions j ! k))"
    by (auto dest: in_set_takeD)
  then show "jn_entries j2 = sync_ids True (set (tr_entry_ids (jn_transactions j ! k))) (jn_entries j)"
    unfolding rec(1) int(3) int(1) sync_ids_sync_ids by simp
  show "jn_transactions j2 = map recovered (jn_transactions j1)" and "r = 0" by (fact rec)+
  show "jn_transactions j2 ! k = (jn_transactions j ! k)
           \<lparr>tr_state := TRANS_STATE_COMMITTED, tr_commit_time := now\<rparr>"
    using k by (simp add: rec int recovered_def)
qed

lemma recover_returns: "\<exists>j'. journal_recover (Some j) = (Some j', 0)"
  by (simp add: journal_recover_def split: prod.split)

section \<open>Properties\<close>

text \<open>
  The journal checksum detects the change of any single byte of an entry's data.
\<close>

lemma journal_checksum_detects_byte:
  assumes "i < unat n" and "unat n \<le> length d" and "d ! i \<noteq> b"
  shows "journal_calculate_checksum (Some (d[i := b])) n \<noteq> journal_calculate_checksum (Some d) n"
proof -
  let ?xs = "take (unat n) d"
  have i: "i < length ?xs" using assms by simp
  have split: "?xs = take i ?xs @ d ! i # drop (Suc i) ?xs"
    using assms i id_take_nth_drop [OF i] by simp
  have "take (unat n) (d[i := b]) = take i ?xs @ b # drop (Suc i) ?xs"
    using upd_conv_take_nth_drop [OF i, of b] by (simp add: take_update_swap)
  moreover have "n \<noteq> 0" using assms(1) by auto
  moreover have "checksum_step c b \<noteq> checksum_step c (d ! i)" for c
    using assms(3) by (simp add: checksum_step_inj_byte)
  ultimately show ?thesis
    by (subst (2) journal_calculate_checksum_def)
       (simp add: journal_calculate_checksum_def split [THEN arg_cong [of _ _ "foldl checksum_step 0"]]
          foldl_checksum_inj del: take_take)
qed

lemma journal_checksum_detects_byte_witness:
  "(1::nat) < unat (3::u32) \<and>
   journal_calculate_checksum (Some [7, 9, 8]) 3 \<noteq> journal_calculate_checksum (Some [7, 1, 8]) 3"
  using journal_checksum_detects_byte [of 1 3 "[7, 1, 8]" 9] by simp

definition journal_ex :: FilesystemJournal where
  "journal_ex =
     \<lparr>jn_entries = [make_entry 1 JOURNAL_ENTRY_DATA 1 7 (Some [1, 2]) 2 0],
      jn_transactions = [\<lparr>tr_transaction_id = 1, tr_state = TRANS_STATE_RUNNING, tr_start_time = 0,
        tr_commit_time = 0, tr_entry_ids = [1], tr_in_progress = True\<rparr>],
      jn_current_transaction_id = 2, jn_mode = JOURNAL_MODE_ORDERED, jn_total_transactions = 1,
      jn_recovered_transactions = 0, jn_recovery_needed = False\<rparr>"

lemma journal_ex_facts:
  "jn_entries journal_ex = [make_entry 1 JOURNAL_ENTRY_DATA 1 7 (Some [1, 2]) 2 0]"
  "tr_state (jn_transactions journal_ex ! 0) = TRANS_STATE_RUNNING"
  "journal_get_transaction (Some journal_ex) 1 = Some 0"
  by (simp_all add: journal_ex_def journal_get_transaction_def)

lemma journal_ex_reachable: "reach journal_start journal_step journal_ex"
proof -
  let ?j0 = "journal_ex\<lparr>jn_entries := [], jn_transactions := [], jn_current_transaction_id := 1,
      jn_total_transactions := 0\<rparr>"
  let ?j1 = "journal_ex\<lparr>jn_entries := [],
      jn_transactions := [(jn_transactions journal_ex ! 0)\<lparr>tr_entry_ids := []\<rparr>]\<rparr>"
  have "journal_init True JOURNAL_MODE_ORDERED = Some ?j0"
    by (simp add: journal_init_def journal_ex_def)
  then have "journal_start ?j0" by (auto simp: journal_start_def)
  moreover have "journal_step ?j0 ?j1"
    by (rule j_begin [where now = 0 and i = 1])
       (simp add: journal_begin_transaction_def journal_ex_def MAX_JOURNAL_TRANSACTIONS_def)
  moreover have "journal_step ?j1 journal_ex"
    by (rule j_add [where tid = 1 and ty = JOURNAL_ENTRY_DATA and bn = 7 and d = "Some [1, 2]"
          and n = 2 and now = 0 and r = 1])
       (simp add: journal_add_entry_def journal_get_transaction_def journal_ex_def
          MAX_JOURNAL_ENTRIES_def JOURNAL_ENTRY_SIZE_def)
  ultimately show ?thesis by (meson reach_init reach_step)
qed

text \<open>
  In every reachable journal the stored checksum of every entry verifies, so recovery
  never skips an entry.
\<close>

lemma journal_entries_verify:
  assumes "reach journal_start journal_step j" and "e \<in> set (jn_entries j)"
  shows "journal_verify_checksum (Some e) = 0"
  using journal.inv_reachable [OF assms(1)] assms(2) by (auto simp: journal_inv_def entry_ok_def)

lemma journal_entries_verify_witness:
  "journal_verify_checksum (Some (make_entry 1 JOURNAL_ENTRY_DATA 1 7 (Some [1, 2]) 2 0)) = 0"
  using journal_entries_verify [OF journal_ex_reachable] by (simp add: journal_ex_facts)

text \<open>
  Committing a running transaction succeeds, marks it committed and no longer in
  progress, and syncs exactly its entries: every other entry and every other field is unchanged.
\<close>

lemma journal_commit_syncs_exactly:
  assumes "reach journal_start journal_step j"
    and "journal_get_transaction (Some j) tid = Some k"
    and "tr_state (jn_transactions j ! k) = TRANS_STATE_RUNNING"
  shows "\<exists>j'. journal_commit_transaction (Some j) tid now = (Some j', 0) \<and>
     tr_state (jn_transactions j' ! k) = TRANS_STATE_COMMITTED \<and>
     \<not> tr_in_progress (jn_transactions j' ! k) \<and>
     (\<forall>m < length (jn_entries j). jn_entries j' ! m =
        (if je_entry_id (jn_entries j ! m) \<in> set (tr_entry_ids (jn_transactions j ! k))
         then (jn_entries j ! m)\<lparr>je_is_synced := True\<rparr> else jn_entries j ! m))"
proof -
  have inv: "journal_inv j" using assms(1) by (rule journal.inv_reachable)
  from commit_eq [OF inv assms(2,3)] get_transaction_SomeD(1) [OF assms(2)]
  show ?thesis by (simp add: sync_ids_def)
qed

lemma journal_commit_syncs_exactly_witness:
  "\<exists>j'. journal_commit_transaction (Some journal_ex) 1 5 = (Some j', 0) \<and>
     je_is_synced (jn_entries j' ! 0)"
  using journal_commit_syncs_exactly [OF journal_ex_reachable journal_ex_facts(3,2), of 5]
  by (auto simp: journal_ex_facts) (simp add: journal_ex_def)

text \<open>
  Claim C19: recovery completes an interrupted commit. If the machine stops after the transaction
  was marked COMMITTING and any number \<open>n\<close> of its entries were synced, then recovery leaves exactly
  the entries an uninterrupted commit would have left and marks the transaction committed.
\<close>

theorem journal_recover_completes_commit:
  assumes "reach journal_start journal_step j"
    and "journal_get_transaction (Some j) tid = Some k"
    and "tr_state (jn_transactions j ! k) = TRANS_STATE_RUNNING"
  shows "\<exists>j1 j2. journal_commit_transaction (Some j) tid now = (Some j1, 0) \<and>
     journal_recover (Some (commit_sync n (commit_start j k now) k)) = (Some j2, 0) \<and>
     jn_entries j2 = jn_entries j1 \<and> tr_state (jn_transactions j2 ! k) = TRANS_STATE_COMMITTED"
proof -
  have inv: "journal_inv j" using assms(1) by (rule journal.inv_reachable)
  have k: "k < length (jn_transactions j)" using assms(2) by (rule get_transaction_SomeD)
  obtain j2 where r: "journal_recover (Some (commit_sync n (commit_start j k now) k)) = (Some j2, 0)"
    using recover_returns by blast
  from recover_interrupted [OF inv k refl r] commit_eq [OF inv assms(2,3)] r show ?thesis by auto
qed

theorem journal_recover_completes_commit_witness:
  "\<exists>j2. journal_recover (Some (commit_sync 0 (commit_start journal_ex 0 5) 0)) = (Some j2, 0) \<and>
     tr_state (jn_transactions j2 ! 0) = TRANS_STATE_COMMITTED"
  using journal_recover_completes_commit [OF journal_ex_reachable journal_ex_facts(3,2), of 5 0]
  by blast

text \<open>
  A transaction recovered this way stays pending for ever: recovery does not clear
  \<open>in_progress\<close>, so the next checkpoint keeps the transaction and a change of mode is refused.
\<close>

lemma journal_recovered_stays_pending:
  assumes "reach journal_start journal_step j"
    and "journal_get_transaction (Some j) tid = Some k" and "tid \<noteq> 0"
    and "tr_state (jn_transactions j ! k) = TRANS_STATE_RUNNING"
    and "journal_recover (Some (commit_sync n (commit_start j k now) k)) = (Some j2, r)"
    and "journal_checkpoint (Some j2) = (Some j3, r')"
  shows "jn_transactions j2 ! k \<in> set (jn_transactions j3) \<and>
         journal_set_mode (Some j3) mode = (Some j3, -1)"
proof -
  have inv: "journal_inv j" using assms(1) by (rule journal.inv_reachable)
  have k: "k < length (jn_transactions j)" using assms(2) by (rule get_transaction_SomeD)
  note rec = recover_interrupted [OF inv k refl assms(5)]
  have len: "length (jn_transactions j2) = length (jn_transactions j)"
    by (simp add: rec commit_interrupted [OF inv k refl])
  let ?t = "jn_transactions j2 ! k"
  have t: "?t \<in> set (jn_transactions j2)" using k len by (intro nth_mem) simp
  have id: "tr_transaction_id ?t = tid" using rec(4) get_transaction_SomeD(3) [OF assms(2)] by simp
  have prog: "tr_in_progress ?t"
    using inv assms(4) nth_mem [OF k] unfolding rec(4) by (auto simp: journal_inv_def trans_ok_def)
  have mem: "?t \<in> set (jn_transactions j3)"
    using assms(3,6) t id prog
    by (force simp: journal_checkpoint_def compact_eq word_gt_0 image_iff)
  have "length (jn_transactions j3) \<le> MAX_JOURNAL_TRANSACTIONS"
    using checkpoint_subset(2) [OF assms(6)] len inv by (simp add: journal_inv_def)
  then have "length (filter tr_in_progress (jn_transactions j3)) < 4294967296"
    using le_trans [OF length_filter_le [of tr_in_progress "jn_transactions j3"]]
    by (fastforce simp: MAX_JOURNAL_TRANSACTIONS_def)
  moreover have "0 < length (filter tr_in_progress (jn_transactions j3))"
    using mem prog by (auto simp: filter_empty_conv)
  ultimately have "journal_get_pending_transactions (Some j3) > 0"
    by (simp add: journal_get_pending_transactions_def word_gt_0 of_nat_u32_inject [of _ 0, simplified])
  with mem show ?thesis by (simp add: journal_set_mode_def)
qed

lemma journal_recovered_stays_pending_witness:
  "\<exists>j2 j3. journal_recover (Some (commit_sync 1 (commit_start journal_ex 0 5) 0)) = (Some j2, 0) \<and>
     journal_checkpoint (Some j2) = (Some j3, 0) \<and>
     journal_set_mode (Some j3) JOURNAL_MODE_DATA = (Some j3, -1)"
proof -
  obtain j2 where r: "journal_recover (Some (commit_sync 1 (commit_start journal_ex 0 5) 0)) = (Some j2, 0)"
    using recover_returns by blast
  obtain j3 where c: "journal_checkpoint (Some j2) = (Some j3, 0)"
    by (simp add: journal_checkpoint_def)
  from journal_recovered_stays_pending [OF journal_ex_reachable journal_ex_facts(3) _ journal_ex_facts(2) r c]
  show ?thesis using r c by auto
qed

lemma journal_many_entries:
  "m \<le> 256 \<Longrightarrow> \<exists>j t. reach journal_start journal_step j \<and> jn_transactions j = [t] \<and>
     tr_transaction_id t = 1 \<and> tr_state t = TRANS_STATE_RUNNING \<and>
     length (tr_entry_ids t) = m \<and> length (jn_entries j) = m"
proof (induction m)
  case 0
  let ?t = "\<lparr>tr_transaction_id = 1, tr_state = TRANS_STATE_RUNNING, tr_start_time = 0,
      tr_commit_time = 0, tr_entry_ids = [], tr_in_progress = True\<rparr>"
  obtain j0 where j0: "journal_init True JOURNAL_MODE_DATA = Some j0"
    by (simp add: journal_init_def)
  then obtain j1 where "journal_begin_transaction (Some j0) 0 = (Some j1, 1)"
      and j1: "jn_transactions j1 = [?t]" "jn_entries j1 = []"
    by (auto simp: journal_begin_transaction_def journal_init_def MAX_JOURNAL_TRANSACTIONS_def)
  moreover have "journal_start j0" using j0 by (auto simp: journal_start_def)
  ultimately have "reach journal_start journal_step j1"
    by (meson j_begin reach_init reach_step)
  with j1 show ?case by (intro exI [of _ j1] exI [of _ ?t]) simp
next
  case (Suc m)
  then obtain j t where j: "reach journal_start journal_step j" "jn_transactions j = [t]"
      "tr_transaction_id t = 1" "tr_state t = TRANS_STATE_RUNNING" "length (tr_entry_ids t) = m"
      "length (jn_entries j) = m"
    by auto
  then obtain j' r where "journal_add_entry (Some j) 1 JOURNAL_ENTRY_METADATA 0 None 0 0 = Done (Some j', r)"
      and j': "jn_transactions j' = [t\<lparr>tr_entry_ids := tr_entry_ids t @ [of_nat m + 1]\<rparr>]"
        "length (jn_entries j') = Suc m"
    using Suc.prems by (simp add: journal_add_entry_def journal_get_transaction_def
        MAX_JOURNAL_ENTRIES_def JOURNAL_ENTRY_SIZE_def Let_def)
  then have "reach journal_start journal_step j'" using j(1) by (meson j_add reach_step)
  with j j' show ?case
    by (intro exI [of _ j'] exI [of _ "t\<lparr>tr_entry_ids := tr_entry_ids t @ [of_nat m + 1]\<rparr>"]) simp
qed

text \<open>
  The array of entry identifiers of a transaction is not bounded by the code. There is
  a reachable journal, with a running transaction of 256 entries, where adding one more entry
  (which all the checks of \<open>journal_add_entry\<close> let through) writes outside the array.
\<close>

lemma journal_add_entry_overflow:
  "\<exists>j. reach journal_start journal_step j \<and>
     journal_add_entry (Some j) 1 JOURNAL_ENTRY_METADATA 0 None 0 0 = Undef"
proof -
  obtain j t where "reach journal_start journal_step j" "jn_transactions j = [t]"
      "tr_transaction_id t = 1" "tr_state t = TRANS_STATE_RUNNING" "length (tr_entry_ids t) = 256"
      "length (jn_entries j) = 256"
    using journal_many_entries [of 256] by auto
  then show ?thesis
    by (intro exI [of _ j]) (simp add: journal_add_entry_def journal_get_transaction_def
        MAX_JOURNAL_ENTRIES_def JOURNAL_ENTRY_SIZE_def)
qed

end
