(* ===== verification/Threads.thy ===== *)
theory Threads
  imports Contracts
begin

text \<open>
  The thread manager of \<open>core-services/thread_manager.c\<close>: threads with their state machine,
  recursive mutexes with a waiting list, and counting semaphores with a waiting list. The three
  tables only grow, an identifier is the slot number plus one. The stack that \<open>thread_create\<close>
  allocates is the argument \<open>stack\<close>, the result of \<open>malloc\<close>.
\<close>

section \<open>State\<close>

definition MAX_THREADS :: nat where "MAX_THREADS = 4096"
definition MAX_MUTEXES :: nat where "MAX_MUTEXES = 2048"
definition MAX_SEMAPHORES :: nat where "MAX_SEMAPHORES = 2048"
definition MAX_THREAD_NAME_LEN :: nat where "MAX_THREAD_NAME_LEN = 64"

datatype ThreadState =
  THREAD_CREATED | THREAD_RUNNING | THREAD_BLOCKED | THREAD_WAITING | THREAD_SUSPENDED
  | THREAD_TERMINATED

datatype ThreadPriority =
  PRIORITY_REALTIME | PRIORITY_HIGH | PRIORITY_NORMAL | PRIORITY_LOW
  | PRIORITY_IDLE

record Thread =
  th_thread_id :: u32
  th_parent_pid :: u32
  th_state :: ThreadState
  th_priority :: ThreadPriority
  th_start_routine :: ptr
  th_arg :: ptr
  th_stack_size :: u32
  th_stack :: ptr
  th_stack_pointer :: u32
  th_cpu_time_us :: u64
  th_created_time :: time_t
  th_terminated_time :: time_t
  th_name :: string

record Mutex =
  mx_mutex_id :: u32
  mx_owner_thread_id :: u32
  mx_is_locked :: bool
  mx_lock_count :: u32
  mx_waiting_threads :: "u32 list"

record Semaphore =
  sm_semaphore_id :: u32
  sm_count :: u32
  sm_max_count :: u32
  sm_waiting_threads :: "u32 list"

record ThreadManager =
  tm_threads :: "Thread list"
  tm_mutexes :: "Mutex list"
  tm_semaphores :: "Semaphore list"
  tm_current_thread_id :: u32
  tm_total_threads_created :: u64
  tm_context_switches :: u64

section \<open>Threads\<close>

definition thread_init :: "bool \<Rightarrow> ThreadManager option" where
  "thread_init malloc_ok =
     (if \<not> malloc_ok then None
      else Some \<lparr>tm_threads = [], tm_mutexes = [], tm_semaphores = [], tm_current_thread_id = 0,
                 tm_total_threads_created = 0, tm_context_switches = 0\<rparr>)"

text \<open>The cleanup frees the stacks, listed as the second result, and the manager.\<close>

definition thread_cleanup :: "ThreadManager option \<Rightarrow> ThreadManager option \<times> ptr list" where
  "thread_cleanup h = (case h of None \<Rightarrow> (None, [])
     | Some m \<Rightarrow> (None, filter (\<lambda>p. p \<noteq> 0) (map th_stack (tm_threads m))))"

definition thread_create ::
    "ThreadManager option \<Rightarrow> u32 \<Rightarrow> ptr \<Rightarrow> ptr \<Rightarrow> ThreadPriority \<Rightarrow> u32 \<Rightarrow> string option \<Rightarrow> ptr \<Rightarrow> time_t \<Rightarrow>
     ThreadManager option \<times> u32" where
  "thread_create h parent_pid start_routine arg priority stack_size name stack now =
     with_handle 0 h (\<lambda>m.
       if length (tm_threads m) \<ge> MAX_THREADS then (m, 0)
       else if start_routine = 0 \<or> stack_size = 0 then (m, 0)
       else if stack = 0 then (m, 0)
       else let tid = of_nat (length (tm_threads m)) + 1;
                nm = (case name of Some s \<Rightarrow> take (MAX_THREAD_NAME_LEN - 1) s
                      | None \<Rightarrow> take (MAX_THREAD_NAME_LEN - 1) (''Thread-'' @ dec_digits (unat tid)));
                thread = \<lparr>th_thread_id = tid, th_parent_pid = parent_pid, th_state = THREAD_CREATED,
                          th_priority = priority, th_start_routine = start_routine, th_arg = arg,
                          th_stack_size = stack_size, th_stack = stack, th_stack_pointer = 0,
                          th_cpu_time_us = 0, th_created_time = now, th_terminated_time = 0,
                          th_name = nm\<rparr>
            in (m\<lparr>tm_threads := tm_threads m @ [thread],
                  tm_total_threads_created := tm_total_threads_created m + 1\<rparr>, tid))"

definition thread_start :: "ThreadManager option \<Rightarrow> u32 \<Rightarrow> ThreadManager option \<times> int" where
  "thread_start h thread_id = with_handle (-1) h (\<lambda>m.
     case slot_of thread_id (tm_threads m) of None \<Rightarrow> (m, -1)
     | Some i \<Rightarrow>
         let t = tm_threads m ! i in
         if th_state t \<noteq> THREAD_CREATED then (m, -1)
         else (m\<lparr>tm_threads := (tm_threads m)[i := t\<lparr>th_state := THREAD_RUNNING\<rparr>]\<rparr>, 0))"

definition thread_join :: "ThreadManager option \<Rightarrow> u32 \<Rightarrow> ThreadManager option \<times> int" where
  "thread_join h thread_id = with_handle (-1) h (\<lambda>m.
     case slot_of thread_id (tm_threads m) of None \<Rightarrow> (m, -1)
     | Some i \<Rightarrow>
         let t = tm_threads m ! i in
         if th_state t = THREAD_TERMINATED then (m, 0)
         else (m\<lparr>tm_threads := (tm_threads m)[i := t\<lparr>th_state := THREAD_WAITING\<rparr>]\<rparr>, 0))"

definition thread_detach :: "ThreadManager option \<Rightarrow> u32 \<Rightarrow> ThreadManager option \<times> int" where
  "thread_detach h thread_id = with_handle (-1) h (\<lambda>m.
     case slot_of thread_id (tm_threads m) of None \<Rightarrow> (m, -1)
     | Some i \<Rightarrow>
         (m\<lparr>tm_threads := (tm_threads m)[i := (tm_threads m ! i)\<lparr>th_state := THREAD_RUNNING\<rparr>]\<rparr>, 0))"

definition thread_exit :: "ThreadManager option \<Rightarrow> u32 \<Rightarrow> time_t \<Rightarrow> ThreadManager option \<times> int" where
  "thread_exit h thread_id now = with_handle (-1) h (\<lambda>m.
     case slot_of thread_id (tm_threads m) of None \<Rightarrow> (m, -1)
     | Some i \<Rightarrow>
         (m\<lparr>tm_threads := (tm_threads m)[i := (tm_threads m ! i)
              \<lparr>th_state := THREAD_TERMINATED, th_terminated_time := now\<rparr>]\<rparr>, 0))"

definition thread_cancel :: "ThreadManager option \<Rightarrow> u32 \<Rightarrow> time_t \<Rightarrow> ThreadManager option \<times> int" where
  "thread_cancel h thread_id now = with_handle (-1) h (\<lambda>m.
     case slot_of thread_id (tm_threads m) of None \<Rightarrow> (m, -1)
     | Some i \<Rightarrow>
         let t = tm_threads m ! i in
         if th_state t = THREAD_TERMINATED then (m, -1)
         else (m\<lparr>tm_threads := (tm_threads m)[i := t
                   \<lparr>th_state := THREAD_TERMINATED, th_terminated_time := now\<rparr>]\<rparr>, 0))"

definition thread_suspend :: "ThreadManager option \<Rightarrow> u32 \<Rightarrow> ThreadManager option \<times> int" where
  "thread_suspend h thread_id = with_handle (-1) h (\<lambda>m.
     case slot_of thread_id (tm_threads m) of None \<Rightarrow> (m, -1)
     | Some i \<Rightarrow>
         let t = tm_threads m ! i in
         if th_state t = THREAD_TERMINATED then (m, -1)
         else (m\<lparr>tm_threads := (tm_threads m)[i := t\<lparr>th_state := THREAD_SUSPENDED\<rparr>]\<rparr>, 0))"

definition thread_resume :: "ThreadManager option \<Rightarrow> u32 \<Rightarrow> ThreadManager option \<times> int" where
  "thread_resume h thread_id = with_handle (-1) h (\<lambda>m.
     case slot_of thread_id (tm_threads m) of None \<Rightarrow> (m, -1)
     | Some i \<Rightarrow>
         let t = tm_threads m ! i in
         if th_state t \<noteq> THREAD_SUSPENDED then (m, -1)
         else (m\<lparr>tm_threads := (tm_threads m)[i := t\<lparr>th_state := THREAD_RUNNING\<rparr>]\<rparr>, 0))"

definition thread_get_state :: "ThreadManager option \<Rightarrow> u32 \<Rightarrow> ThreadState" where
  "thread_get_state h thread_id = read_handle THREAD_TERMINATED h (\<lambda>m.
     case slot_of thread_id (tm_threads m) of None \<Rightarrow> THREAD_TERMINATED
     | Some i \<Rightarrow> th_state (tm_threads m ! i))"

section \<open>Mutexes\<close>

definition mutex_create :: "ThreadManager option \<Rightarrow> ThreadManager option \<times> u32" where
  "mutex_create h = with_handle 0 h (\<lambda>m.
     if length (tm_mutexes m) \<ge> MAX_MUTEXES then (m, 0)
     else let mid = of_nat (length (tm_mutexes m)) + 1
          in (m\<lparr>tm_mutexes := tm_mutexes m @ [\<lparr>mx_mutex_id = mid, mx_owner_thread_id = 0,
                mx_is_locked = False, mx_lock_count = 0, mx_waiting_threads = []\<rparr>]\<rparr>, mid))"

definition mutex_lock :: "ThreadManager option \<Rightarrow> u32 \<Rightarrow> u32 \<Rightarrow> ThreadManager option \<times> int" where
  "mutex_lock h mutex_id thread_id = with_handle (-1) h (\<lambda>m.
     case slot_of mutex_id (tm_mutexes m) of None \<Rightarrow> (m, -1)
     | Some i \<Rightarrow>
         let mx = tm_mutexes m ! i in
         if mx_owner_thread_id mx = thread_id
         then (m\<lparr>tm_mutexes := (tm_mutexes m)[i := mx\<lparr>mx_lock_count := mx_lock_count mx + 1\<rparr>]\<rparr>, 0)
         else if mx_is_locked mx
         then (if length (mx_waiting_threads mx) < MAX_THREADS
               then m\<lparr>tm_mutexes := (tm_mutexes m)[i :=
                      mx\<lparr>mx_waiting_threads := mx_waiting_threads mx @ [thread_id]\<rparr>]\<rparr>
               else m, -1)
         else (m\<lparr>tm_mutexes := (tm_mutexes m)[i := mx\<lparr>mx_is_locked := True,
                   mx_owner_thread_id := thread_id, mx_lock_count := 1\<rparr>]\<rparr>, 0))"

definition mutex_unlock :: "ThreadManager option \<Rightarrow> u32 \<Rightarrow> u32 \<Rightarrow> ThreadManager option \<times> int" where
  "mutex_unlock h mutex_id thread_id = with_handle (-1) h (\<lambda>m.
     case slot_of mutex_id (tm_mutexes m) of None \<Rightarrow> (m, -1)
     | Some i \<Rightarrow>
         let mx = tm_mutexes m ! i in
         if mx_owner_thread_id mx \<noteq> thread_id \<or> \<not> mx_is_locked mx then (m, -1)
         else let mx1 = mx\<lparr>mx_lock_count := mx_lock_count mx - 1\<rparr>;
                  mx2 = (if mx_lock_count mx1 = 0
                         then mx1\<lparr>mx_is_locked := False, mx_owner_thread_id := 0,
                                  mx_waiting_threads := tl (mx_waiting_threads mx1)\<rparr>
                         else mx1)
              in (m\<lparr>tm_mutexes := (tm_mutexes m)[i := mx2]\<rparr>, 0))"

definition mutex_trylock :: "ThreadManager option \<Rightarrow> u32 \<Rightarrow> u32 \<Rightarrow> ThreadManager option \<times> int" where
  "mutex_trylock h mutex_id thread_id = with_handle (-1) h (\<lambda>m.
     case slot_of mutex_id (tm_mutexes m) of None \<Rightarrow> (m, -1)
     | Some i \<Rightarrow>
         let mx = tm_mutexes m ! i in
         if mx_is_locked mx \<and> mx_owner_thread_id mx \<noteq> thread_id then (m, -1)
         else if mx_owner_thread_id mx = thread_id
         then (m\<lparr>tm_mutexes := (tm_mutexes m)[i := mx\<lparr>mx_lock_count := mx_lock_count mx + 1\<rparr>]\<rparr>, 0)
         else (m\<lparr>tm_mutexes := (tm_mutexes m)[i := mx\<lparr>mx_is_locked := True,
                   mx_owner_thread_id := thread_id, mx_lock_count := 1\<rparr>]\<rparr>, 0))"

definition mutex_destroy :: "ThreadManager option \<Rightarrow> u32 \<Rightarrow> ThreadManager option \<times> int" where
  "mutex_destroy h mutex_id = with_handle (-1) h (\<lambda>m.
     case slot_of mutex_id (tm_mutexes m) of None \<Rightarrow> (m, -1)
     | Some i \<Rightarrow>
         let mx = tm_mutexes m ! i in
         if mx_is_locked mx \<or> length (mx_waiting_threads mx) > 0 then (m, -1)
         else (m\<lparr>tm_mutexes := (tm_mutexes m)[i := mx\<lparr>mx_mutex_id := 0\<rparr>]\<rparr>, 0))"

section \<open>Semaphores\<close>

definition semaphore_create :: "ThreadManager option \<Rightarrow> u32 \<Rightarrow> u32 \<Rightarrow> ThreadManager option \<times> u32" where
  "semaphore_create h initial_count max_count = with_handle 0 h (\<lambda>m.
     if length (tm_semaphores m) \<ge> MAX_SEMAPHORES then (m, 0)
     else let sid = of_nat (length (tm_semaphores m)) + 1
          in (m\<lparr>tm_semaphores := tm_semaphores m @ [\<lparr>sm_semaphore_id = sid, sm_count = initial_count,
                sm_max_count = max_count, sm_waiting_threads = []\<rparr>]\<rparr>, sid))"

definition semaphore_wait :: "ThreadManager option \<Rightarrow> u32 \<Rightarrow> u32 \<Rightarrow> ThreadManager option \<times> int" where
  "semaphore_wait h sem_id thread_id = with_handle (-1) h (\<lambda>m.
     case slot_of sem_id (tm_semaphores m) of None \<Rightarrow> (m, -1)
     | Some i \<Rightarrow>
         let s = tm_semaphores m ! i in
         if sm_count s > 0
         then (m\<lparr>tm_semaphores := (tm_semaphores m)[i := s\<lparr>sm_count := sm_count s - 1\<rparr>]\<rparr>, 0)
         else (if length (sm_waiting_threads s) < MAX_THREADS
               then m\<lparr>tm_semaphores := (tm_semaphores m)[i :=
                      s\<lparr>sm_waiting_threads := sm_waiting_threads s @ [thread_id]\<rparr>]\<rparr>
               else m, -1))"

definition semaphore_post :: "ThreadManager option \<Rightarrow> u32 \<Rightarrow> ThreadManager option \<times> int" where
  "semaphore_post h sem_id = with_handle (-1) h (\<lambda>m.
     case slot_of sem_id (tm_semaphores m) of None \<Rightarrow> (m, -1)
     | Some i \<Rightarrow>
         let s = tm_semaphores m ! i in
         if sm_count s \<ge> sm_max_count s then (m, -1)
         else (m\<lparr>tm_semaphores := (tm_semaphores m)[i := s\<lparr>sm_count := sm_count s + 1,
                   sm_waiting_threads := tl (sm_waiting_threads s)\<rparr>]\<rparr>, 0))"

definition semaphore_getvalue :: "ThreadManager option \<Rightarrow> u32 \<Rightarrow> int" where
  "semaphore_getvalue h sem_id = read_handle (-1) h (\<lambda>m.
     case slot_of sem_id (tm_semaphores m) of None \<Rightarrow> -1
     | Some i \<Rightarrow> sint (sm_count (tm_semaphores m ! i)))"

definition semaphore_destroy :: "ThreadManager option \<Rightarrow> u32 \<Rightarrow> ThreadManager option \<times> int" where
  "semaphore_destroy h sem_id = with_handle (-1) h (\<lambda>m.
     case slot_of sem_id (tm_semaphores m) of None \<Rightarrow> (m, -1)
     | Some i \<Rightarrow>
         let s = tm_semaphores m ! i in
         if length (sm_waiting_threads s) > 0 then (m, -1)
         else (m\<lparr>tm_semaphores := (tm_semaphores m)[i := s\<lparr>sm_semaphore_id := 0\<rparr>]\<rparr>, 0))"

section \<open>Counters\<close>

definition thread_get_count :: "ThreadManager option \<Rightarrow> u32" where
  "thread_get_count h = read_handle 0 h (\<lambda>m. of_nat (length (tm_threads m)))"

definition thread_get_current_id :: "ThreadManager option \<Rightarrow> u32" where
  "thread_get_current_id h = read_handle 0 h tm_current_thread_id"

definition thread_get_total_created :: "ThreadManager option \<Rightarrow> u64" where
  "thread_get_total_created h = read_handle 0 h tm_total_threads_created"

section \<open>Identifiers\<close>

text \<open>
  \<open>thread_create\<close> as a table of identifiers: the arguments of a call are a tuple, the stack
  pointer included.
\<close>

definition thread_table_create ::
    "ThreadManager \<Rightarrow> u32 \<times> ptr \<times> ptr \<times> ThreadPriority \<times> u32 \<times> string option \<times> ptr \<times> time_t \<Rightarrow>
     ThreadManager \<times> u32" where
  "thread_table_create m a = (case a of (pid, f, arg, pr, sz, nm, st, now) \<Rightarrow>
     (case thread_create (Some m) pid f arg pr sz nm st now of (h, i) \<Rightarrow> (the h, i)))"

definition thread_lookup :: "ThreadManager \<Rightarrow> u32 \<Rightarrow> Thread option" where
  "thread_lookup m i = slot_get i (tm_threads m)"

interpretation thread_ids: slot_table thread_table_create tm_threads MAX_THREADS
proof
  fix m a m' i assume "thread_table_create m a = (m', i)"
  then show "m' = m \<and> i = 0 \<or>
    length (tm_threads m) < MAX_THREADS \<and> i = of_nat (length (tm_threads m)) + 1 \<and>
    (\<exists>t. tm_threads m' = tm_threads m @ [t])"
    by (cases a) (auto simp: thread_table_create_def thread_create_def with_handle_Some Let_def
      split: if_splits)
qed (simp add: MAX_THREADS_def)

section \<open>A mutex is a recursive lock\<close>

definition mutex_holder :: "u32 \<Rightarrow> ThreadManager \<Rightarrow> (u32 \<times> nat) option" where
  "mutex_holder mid m = (case slot_get mid (tm_mutexes m) of
     None \<Rightarrow> None
   | Some mx \<Rightarrow> if mx_is_locked mx then Some (mx_owner_thread_id mx, unat (mx_lock_count mx)) else None)"

text \<open>
  \<open>mutex_ok mid n m\<close>: the mutex exists, an unlocked mutex has no owner, a locked one has a
  thread as owner, and \<open>n\<close> more recursive acquisitions cannot wrap its 32-bit depth.
\<close>

definition mutex_ok :: "u32 \<Rightarrow> nat \<Rightarrow> ThreadManager \<Rightarrow> bool" where
  "mutex_ok mid n m = (case slot_get mid (tm_mutexes m) of
     None \<Rightarrow> False
   | Some mx \<Rightarrow> (mx_is_locked mx \<longleftrightarrow> mx_owner_thread_id mx \<noteq> 0) \<and>
       (mx_is_locked mx \<longleftrightarrow> mx_lock_count mx \<noteq> 0) \<and> unat (mx_lock_count mx) + n < 2 ^ 32)"

definition lock_op :: "u32 \<Rightarrow> ThreadManager \<Rightarrow> u32 \<Rightarrow> ThreadManager \<times> bool" where
  "lock_op mid m t = (case mutex_lock (Some m) mid t of (h, r) \<Rightarrow> (the h, r = 0))"

definition trylock_op :: "u32 \<Rightarrow> ThreadManager \<Rightarrow> u32 \<Rightarrow> ThreadManager \<times> bool" where
  "trylock_op mid m t = (case mutex_trylock (Some m) mid t of (h, r) \<Rightarrow> (the h, r = 0))"

definition unlock_op :: "u32 \<Rightarrow> ThreadManager \<Rightarrow> u32 \<Rightarrow> ThreadManager \<times> bool" where
  "unlock_op mid m t = (case mutex_unlock (Some m) mid t of (h, r) \<Rightarrow> (the h, r = 0))"

lemma unat_succ: "unat (w :: u32) + Suc n < 2 ^ 32 \<Longrightarrow> unat (w + 1) = Suc (unat w)"
  by (subst unat_word_ariths) simp

lemma unat_pred: "(w :: u32) \<noteq> 0 \<Longrightarrow> unat (w - 1) = unat w - 1"
  by (simp add: unat_minus_one)

lemma mutex_okE:
  assumes "mutex_ok mid n m"
  obtains i mx where "slot_of mid (tm_mutexes m) = Some i"
    and "tm_mutexes m ! i = mx" and "slot_get mid (tm_mutexes m) = Some mx"
    and "mx_is_locked mx \<longleftrightarrow> mx_owner_thread_id mx \<noteq> 0"
    and "mx_is_locked mx \<longleftrightarrow> mx_lock_count mx \<noteq> 0"
    and "unat (mx_lock_count mx) + n < 2 ^ 32"
  using assms by (auto simp: mutex_ok_def slot_get_Some split: option.splits)

lemma lock_op_refines:
  assumes "mutex_ok mid (Suc n) m" and "t \<noteq> 0" and "lock_op mid m t = (m', b)"
  shows "mutex_ok mid n m' \<and> spec_lock (mutex_holder mid m) t = (mutex_holder mid m', b)"
  using assms(1)
proof (cases rule: mutex_okE)
  case (1 i mx)
  note i = 1(1) and mx = 1(2,3) and ok = 1(4-6)
  note upd = slot_get_update [OF i] unat_succ [OF ok(3)]
  have nz: "mx_lock_count mx + 1 \<noteq> 0" using upd(2) by auto
  show ?thesis
    using assms(2,3) ok i mx upd nz
    by (auto simp: lock_op_def mutex_lock_def mutex_holder_def mutex_ok_def with_handle_def Let_def
        split: if_splits)
qed

lemma trylock_op_refines:
  assumes "mutex_ok mid (Suc n) m" and "t \<noteq> 0" and "trylock_op mid m t = (m', b)"
  shows "mutex_ok mid n m' \<and> spec_lock (mutex_holder mid m) t = (mutex_holder mid m', b)"
  using assms(1)
proof (cases rule: mutex_okE)
  case (1 i mx)
  note i = 1(1) and mx = 1(2,3) and ok = 1(4-6)
  note upd = slot_get_update [OF i] unat_succ [OF ok(3)]
  have nz: "mx_lock_count mx + 1 \<noteq> 0" using upd(2) by auto
  show ?thesis
    using assms(2,3) ok i mx upd nz
    by (auto simp: trylock_op_def mutex_trylock_def mutex_holder_def mutex_ok_def with_handle_def
        Let_def split: if_splits)
qed

lemma unlock_op_refines:
  assumes "mutex_ok mid (Suc n) m" and "t \<noteq> 0" and "unlock_op mid m t = (m', b)"
  shows "mutex_ok mid n m' \<and> spec_unlock (mutex_holder mid m) t = (mutex_holder mid m', b)"
  using assms(1)
proof (cases rule: mutex_okE)
  case (1 i mx)
  note i = 1(1) and mx = 1(2,3) and ok = 1(4-6)
  have one: "mx_lock_count mx - 1 = 0 \<longleftrightarrow> unat (mx_lock_count mx) \<le> 1" if "mx_lock_count mx \<noteq> 0"
    using that unat_pred [OF that] by (auto simp: unat_eq_0 [symmetric] simp del: unat_eq_0)
  show ?thesis
    using assms(2,3) ok i mx slot_get_update [OF i] one unat_pred [of "mx_lock_count mx"]
    by (auto simp: unlock_op_def mutex_unlock_def mutex_holder_def mutex_ok_def with_handle_def Let_def
        split: if_splits)
qed

interpretation mutex: recursive_lock
  "mutex_holder mid" "lock_op mid" "unlock_op mid" "\<lambda>t. t \<noteq> 0" "mutex_ok mid" for mid
proof
  show "\<And>n s t s' b. mutex_ok mid (Suc n) s \<Longrightarrow> t \<noteq> 0 \<Longrightarrow> lock_op mid s t = (s', b) \<Longrightarrow>
      mutex_ok mid n s' \<and> spec_lock (mutex_holder mid s) t = (mutex_holder mid s', b)"
    by (rule lock_op_refines)
  show "\<And>n s t s' b. mutex_ok mid (Suc n) s \<Longrightarrow> t \<noteq> 0 \<Longrightarrow> unlock_op mid s t = (s', b) \<Longrightarrow>
      mutex_ok mid n s' \<and> spec_unlock (mutex_holder mid s) t = (mutex_holder mid s', b)"
    by (rule unlock_op_refines)
  show "\<And>n s t d. mutex_ok mid n s \<Longrightarrow> mutex_holder mid s = Some (t, d) \<Longrightarrow> 0 < d"
    by (auto simp: mutex_holder_def mutex_ok_def unat_gt_0 split: option.splits if_splits)
qed

section \<open>Semaphores over a history of calls\<close>

datatype sem_call = SemWait u32 | SemPost

fun sem_run :: "ThreadManager \<Rightarrow> u32 \<Rightarrow> sem_call list \<Rightarrow> ThreadManager \<times> nat \<times> nat" where
  "sem_run m sid [] = (m, 0, 0)"
| "sem_run m sid (SemWait t # cs) =
     (let (h, r) = semaphore_wait (Some m) sid t; (m', w, p) = sem_run (the h) sid cs
      in (m', if r = 0 then Suc w else w, p))"
| "sem_run m sid (SemPost # cs) =
     (let (h, r) = semaphore_post (Some m) sid; (m', w, p) = sem_run (the h) sid cs
      in (m', w, if r = 0 then Suc p else p))"

definition sem_value :: "ThreadManager \<Rightarrow> u32 \<Rightarrow> nat \<Rightarrow> nat \<Rightarrow> bool" where
  "sem_value m sid c mx \<longleftrightarrow> (\<exists>s. slot_get sid (tm_semaphores m) = Some s \<and>
     unat (sm_count s) = c \<and> unat (sm_max_count s) = mx)"

lemma semaphore_wait_value:
  assumes "sem_value m sid c mx" and "semaphore_wait (Some m) sid t = (Some m', r)"
  shows "if r = 0 then 0 < c \<and> sem_value m' sid (c - 1) mx else sem_value m' sid c mx"
proof -
  from assms(1) obtain i s where i: "slot_of sid (tm_semaphores m) = Some i"
      and s: "tm_semaphores m ! i = s" "unat (sm_count s) = c" "unat (sm_max_count s) = mx"
    by (auto simp: sem_value_def slot_get_Some)
  show ?thesis
    using assms(2) i s slot_get_update [OF i]
    by (auto simp: semaphore_wait_def sem_value_def word_gt_0 unat_pred unat_gt_0 slot_get_Some Let_def
        split: if_splits)
qed

lemma semaphore_post_value:
  assumes "sem_value m sid c mx" and "semaphore_post (Some m) sid = (Some m', r)"
  shows "if r = 0 then c < mx \<and> sem_value m' sid (Suc c) mx else sem_value m' sid c mx"
proof -
  from assms(1) obtain i s where i: "slot_of sid (tm_semaphores m) = Some i"
      and s: "tm_semaphores m ! i = s" "unat (sm_count s) = c" "unat (sm_max_count s) = mx"
    by (auto simp: sem_value_def slot_get_Some)
  have "unat (sm_count s + 1) = Suc (unat (sm_count s))" if "sm_count s < sm_max_count s"
    using that by (rule unat_succ_less)
  with assms(2) i s slot_get_update [OF i] show ?thesis
    by (auto simp: semaphore_post_def sem_value_def slot_get_Some Let_def not_le word_less_nat_alt
        split: if_splits)
qed

lemma sem_ops_return:
  "\<exists>m' r. semaphore_wait (Some m) sid t = (Some m', r)" "\<exists>m' r. semaphore_post (Some m) sid = (Some m', r)"
  by (simp_all add: semaphore_wait_def semaphore_post_def with_handle_Some)

lemma sem_run_balance:
  "sem_value m sid c mx \<Longrightarrow> c \<le> mx \<Longrightarrow> sem_run m sid cs = (m', w, p) \<Longrightarrow>
   w \<le> c + p \<and> c + p - w \<le> mx \<and> sem_value m' sid (c + p - w) mx"
proof (induction cs arbitrary: m c w p)
  case Nil
  then show ?case by auto
next
  case (Cons x cs)
  show ?case
  proof (cases x)
    case (SemWait t)
    obtain m1 r where 1: "semaphore_wait (Some m) sid t = (Some m1, r)" using sem_ops_return by blast
    obtain w1 p1 where 2: "sem_run m1 sid cs = (m', w1, p1)" using Cons.prems(3) SemWait 1
      by (auto split: prod.splits)
    have wp: "w = (if r = 0 then Suc w1 else w1)" "p = p1"
      using Cons.prems(3) SemWait 1 2 by auto
    from semaphore_wait_value [OF Cons.prems(1) 1] Cons.IH [OF _ _ 2] Cons.prems(2) wp
    show ?thesis by (cases "r = 0") (force+)
  next
    case SemPost
    obtain m1 r where 1: "semaphore_post (Some m) sid = (Some m1, r)" using sem_ops_return by blast
    obtain w1 p1 where 2: "sem_run m1 sid cs = (m', w1, p1)" using Cons.prems(3) SemPost 1
      by (auto split: prod.splits)
    have wp: "w = w1" "p = (if r = 0 then Suc p1 else p1)"
      using Cons.prems(3) SemPost 1 2 by auto
    from semaphore_post_value [OF Cons.prems(1) 1] Cons.IH [OF _ _ 2] Cons.prems(2) wp
    show ?thesis by (cases "r = 0") (force+)
  qed
qed

section \<open>Thread states over a history of calls\<close>

datatype thread_call =
  CallStart | CallJoin | CallDetach | CallExit time_t | CallCancel time_t | CallSuspend | CallResume

fun thread_apply :: "thread_call \<Rightarrow> ThreadManager \<Rightarrow> u32 \<Rightarrow> ThreadManager option \<times> int" where
  "thread_apply CallStart m k = thread_start (Some m) k"
| "thread_apply CallJoin m k = thread_join (Some m) k"
| "thread_apply CallDetach m k = thread_detach (Some m) k"
| "thread_apply (CallExit now) m k = thread_exit (Some m) k now"
| "thread_apply (CallCancel now) m k = thread_cancel (Some m) k now"
| "thread_apply CallSuspend m k = thread_suspend (Some m) k"
| "thread_apply CallResume m k = thread_resume (Some m) k"

fun thread_run :: "ThreadManager \<Rightarrow> (thread_call \<times> u32) list \<Rightarrow> ThreadManager" where
  "thread_run m [] = m"
| "thread_run m ((c, k) # cs) = thread_run (the (fst (thread_apply c m k))) cs"

lemmas thread_op_defs = thread_start_def thread_join_def thread_detach_def thread_exit_def
  thread_cancel_def thread_suspend_def thread_resume_def

lemma thread_apply_terminated:
  assumes "thread_get_state (Some m) j = THREAD_TERMINATED" and "c \<noteq> CallDetach \<or> k \<noteq> j"
  shows "thread_get_state (Some (the (fst (thread_apply c m k)))) j = THREAD_TERMINATED"
proof -
  have other: "slot_of j xs = Some i' \<Longrightarrow> slot_of k xs = Some i \<Longrightarrow> i' \<noteq> i" if "k \<noteq> j"
    for xs :: "Thread list" and i i'
    using that slot_of_inj by metis
  show ?thesis
    using assms
    by (cases c; cases "k = j")
       (auto simp: thread_op_defs thread_get_state_def Let_def dest: other slot_of_SomeD
          split: option.splits)
qed


section \<open>Properties\<close>

definition mutex_start :: ThreadManager where
  "mutex_start = the (fst (mutex_create (thread_init True)))"

lemma mutex_start_eq: "mutex_start = \<lparr>tm_threads = [], tm_mutexes = [\<lparr>mx_mutex_id = 1,
    mx_owner_thread_id = 0, mx_is_locked = False, mx_lock_count = 0, mx_waiting_threads = []\<rparr>],
    tm_semaphores = [], tm_current_thread_id = 0, tm_total_threads_created = 0, tm_context_switches = 0\<rparr>"
  by (simp add: mutex_start_def mutex_create_def thread_init_def MAX_MUTEXES_def Let_def)

definition sem_start :: "u32 \<Rightarrow> u32 \<Rightarrow> ThreadManager" where
  "sem_start c mx = the (fst (semaphore_create (thread_init True) c mx))"

definition thread_args :: "u32 \<times> ptr \<times> ptr \<times> ThreadPriority \<times> u32 \<times> string option \<times> ptr \<times> time_t" where
  "thread_args = (7, 4096, 0, PRIORITY_NORMAL, 8192, None, 65536, 100)"

text \<open>
  Claim C20. Mutual exclusion: run any interleaving of \<open>mutex_lock\<close> and \<open>mutex_unlock\<close> calls of
  threads with non-zero identifiers on a free mutex, few enough that the 32-bit depth cannot
  wrap. If afterwards two threads both have more successful locks than successful unlocks, they
  are the same thread.
\<close>

theorem mutex_mutual_exclusion:
  assumes "mutex_ok mid (length calls) m" and "mutex_holder mid m = None"
    and "\<forall>x\<in>set calls. op_thread x \<noteq> 0"
    and "lock_run (lock_op mid) (unlock_op mid) m calls = (m', balance)"
    and "0 < balance t" and "0 < balance u"
  shows "t = u"
  by (rule mutex.mutual_exclusion [OF assms])

theorem mutex_mutual_exclusion_witness:
  "snd (lock_run (lock_op 1) (unlock_op 1) mutex_start [Acquire 5, Acquire 6, Acquire 5, Release 5]) 5 = 1
   \<and> snd (lock_run (lock_op 1) (unlock_op 1) mutex_start
          [Acquire 5, Acquire 6, Acquire 5, Release 5]) 6 \<le> 0"
proof -
  let ?calls = "[Acquire 5, Acquire 6, Acquire 5, Release 5] :: u32 lock_op list"
  have ok: "mutex_ok 1 (length ?calls) mutex_start" "mutex_holder 1 mutex_start = None"
    "\<forall>x\<in>set ?calls. op_thread x \<noteq> 0"
    by (simp_all add: mutex_start_eq mutex_ok_def mutex_holder_def slot_get_def slot_of_def)
  have five_six: "(5 :: u32) \<noteq> 6" by simp
  have five: "snd (lock_run (lock_op 1) (unlock_op 1) mutex_start ?calls) 5 = 1" by code_simp
  have "0 < snd (lock_run (lock_op 1) (unlock_op 1) mutex_start ?calls) u \<Longrightarrow> 5 = u" for u
    using mutex_mutual_exclusion [OF ok, of _ "snd (lock_run (lock_op 1) (unlock_op 1) mutex_start ?calls)" 5 u]
      five by (metis prod.collapse zero_less_one)
  from this [of 6] have "\<not> 0 < snd (lock_run (lock_op 1) (unlock_op 1) mutex_start ?calls) 6"
    using five_six by blast
  with five show ?thesis by linarith
qed

text \<open>
  \<open>mutex_lock\<close>, \<open>mutex_trylock\<close> and \<open>mutex_unlock\<close> implement the specification of a
  recursive lock: on a well-formed mutex and for a non-zero thread identifier each of them
  changes owner and depth and reports success as the specification does, and keeps the mutex
  well formed.
\<close>

lemma mutex_refines_recursive_lock:
  assumes "mutex_ok mid (Suc n) m" and "t \<noteq> 0"
  shows "(case lock_op mid m t of (m', b) \<Rightarrow>
            mutex_ok mid n m' \<and> spec_lock (mutex_holder mid m) t = (mutex_holder mid m', b)) \<and>
         (case trylock_op mid m t of (m', b) \<Rightarrow>
            mutex_ok mid n m' \<and> spec_lock (mutex_holder mid m) t = (mutex_holder mid m', b)) \<and>
         (case unlock_op mid m t of (m', b) \<Rightarrow>
            mutex_ok mid n m' \<and> spec_unlock (mutex_holder mid m) t = (mutex_holder mid m', b))"
  using lock_op_refines [OF assms] trylock_op_refines [OF assms] unlock_op_refines [OF assms]
  by (auto split: prod.splits)

lemma mutex_refines_recursive_lock_witness:
  "mutex_holder 1 (fst (lock_op 1 mutex_start 5)) = Some (5, 1)"
proof -
  have "mutex_ok 1 (Suc 10) mutex_start" "mutex_holder 1 mutex_start = None"
    by (simp_all add: mutex_start_eq mutex_ok_def mutex_holder_def slot_get_def slot_of_def)
  with mutex_refines_recursive_lock [of 1 10 mutex_start 5] show ?thesis
    by (auto split: prod.splits)
qed

text \<open>
  Thread identifier 0 breaks mutual exclusion: \<open>mutex_lock\<close> takes the empty owner field
  of a free mutex for thread 0 holding it, reports success without locking it, and the next
  thread is granted the same mutex. A destroyed mutex can still be locked.
\<close>

lemma mutex_thread_zero_and_destroyed:
  "snd (lock_op 1 mutex_start 0) \<and> snd (lock_op 1 (fst (lock_op 1 mutex_start 0)) 5) \<and>
   snd (unlock_op 1 (fst (lock_op 1 mutex_start 0)) 0) = False \<and>
   snd (mutex_destroy (Some mutex_start) 1) = 0 \<and>
   snd (mutex_lock (fst (mutex_destroy (Some mutex_start) 1)) 1 5) = 0"
  by (simp add: mutex_start_eq lock_op_def unlock_op_def mutex_lock_def mutex_unlock_def
      mutex_destroy_def with_handle_Some slot_of_def Let_def)

text \<open>
  A counting semaphore conserves its units over any history of \<open>semaphore_wait\<close> and
  \<open>semaphore_post\<close>: starting from \<open>c\<close> units, granted waits never exceed \<open>c\<close> plus the granted
  posts, and the count is exactly their difference, between 0 and the maximum.
\<close>

lemma semaphore_conserves_units:
  assumes "sem_value m sid c mx" and "c \<le> mx" and "sem_run m sid calls = (m', waits, posts)"
  shows "waits \<le> c + posts \<and> c + posts - waits \<le> mx \<and> sem_value m' sid (c + posts - waits) mx"
  by (rule sem_run_balance [OF assms])

lemma semaphore_conserves_units_witness:
  "sem_value (fst (sem_run (sem_start 1 2) 1 [SemWait 3, SemWait 4, SemPost])) 1 1 2"
proof -
  let ?r = "sem_run (sem_start 1 2) 1 [SemWait 3, SemWait 4, SemPost]"
  have "snd ?r = (1, 1)" by code_simp
  moreover have "slot_get 1 (tm_semaphores (sem_start 1 2)) =
      Some \<lparr>sm_semaphore_id = 1, sm_count = 1, sm_max_count = 2, sm_waiting_threads = []\<rparr>"
    by code_simp
  then have "sem_value (sem_start 1 2) 1 1 2" by (simp add: sem_value_def)
  ultimately show ?thesis
    using semaphore_conserves_units [of "sem_start 1 2" 1 1 2 _ "fst ?r" 1 1]
    by (metis add_diff_cancel_left' one_le_numeral prod.collapse)
qed

text \<open>
  Termination of a thread is final: over any history of calls to \<open>thread_start\<close>,
  \<open>thread_join\<close>, \<open>thread_exit\<close>, \<open>thread_cancel\<close>, \<open>thread_suspend\<close>, \<open>thread_resume\<close> and
  \<open>thread_detach\<close>, on any threads, a terminated thread stays terminated as long as
  \<open>thread_detach\<close> is not called on it.
\<close>

lemma thread_terminated_is_final:
  assumes "thread_get_state (Some m) k = THREAD_TERMINATED" and "(CallDetach, k) \<notin> set calls"
  shows "thread_get_state (Some (thread_run m calls)) k = THREAD_TERMINATED"
  using assms
proof (induction calls arbitrary: m)
  case Nil
  then show ?case by simp
next
  case (Cons x calls)
  obtain c j where "x = (c, j)" by fastforce
  with Cons thread_apply_terminated [of m k c j] show ?case by auto
qed

definition one_thread :: ThreadManager where
  "one_thread = fst (thread_table_create (the (thread_init True)) thread_args)"

lemma thread_terminated_is_final_witness:
  "thread_get_state (Some (thread_run (thread_run one_thread [(CallStart, 1), (CallExit 200, 1)])
     [(CallJoin, 1), (CallSuspend, 1), (CallResume, 1), (CallDetach, 2)])) 1 = THREAD_TERMINATED"
proof (rule thread_terminated_is_final)
  show "thread_get_state (Some (thread_run one_thread [(CallStart, 1), (CallExit 200, 1)])) 1 =
      THREAD_TERMINATED" by code_simp
qed simp

text \<open>
  \<open>thread_detach\<close> brings a terminated thread back to the running state, and sets a
  thread running that was never started.
\<close>

lemma thread_detach_revives:
  "thread_get_state (Some (thread_run one_thread [(CallStart, 1), (CallExit 200, 1), (CallDetach, 1)])) 1
     = THREAD_RUNNING \<and>
   thread_get_state (Some (thread_run one_thread [(CallDetach, 1)])) 1 = THREAD_RUNNING"
  by code_simp

text \<open>
  The identifiers a series of \<open>thread_create\<close> calls hands out are distinct, were unknown
  before, and all resolve to a thread afterwards.
\<close>

lemma thread_identifiers_fresh:
  assumes "length (tm_threads m) \<le> MAX_THREADS"
    and "create_all thread_table_create m args = (m', ids)" and "0 \<notin> set ids"
  shows "distinct ids \<and> (\<forall>i\<in>set ids. thread_lookup m i = None \<and> thread_lookup m' i \<noteq> None)"
  using thread_ids.create_all_fresh [OF assms] by (simp add: thread_lookup_def)

lemma thread_identifiers_fresh_witness:
  "distinct (snd (create_all thread_table_create (the (thread_init True)) [thread_args, thread_args]))"
proof -
  let ?r = "create_all thread_table_create (the (thread_init True)) [thread_args, thread_args]"
  have "0 \<notin> set (snd ?r)" by code_simp
  moreover have "length (tm_threads (the (thread_init True))) \<le> MAX_THREADS" by code_simp
  ultimately show ?thesis
    using thread_identifiers_fresh [of _ _ "fst ?r" "snd ?r"] by (metis prod.collapse)
qed

end
