(* ===== verification/IPC.thy ===== *)
theory IPC
  imports Contracts
begin

text \<open>
  Inter-process communication, \<open>core-services/ipc_manager.c\<close>: pipes, message queues and local
  sockets. The bytes of a pipe (\<open>buffer\<close> up to \<open>buffer_size\<close>), of a message (\<open>data\<close> up to \<open>size\<close>)
  and of a socket (\<open>send_buffer\<close> up to \<open>send_pos\<close>, \<open>recv_buffer\<close> up to \<open>recv_pos\<close>) are lists of
  bytes. A caller's data pointer is the list of the bytes it points to (\<open>None\<close> is \<open>NULL\<close>), which
  the declared size may exceed; a caller's destination buffer is the list of bytes copied to it,
  returned beside the result, and the argument says whether the pointer is not \<open>NULL\<close>.

  The size checks of the writes are additions of 32-bit words and may wrap; a copy past the end
  of the source or of the target array is \<open>Undef\<close>.
\<close>

section \<open>State\<close>

definition MAX_PIPES :: nat where "MAX_PIPES = 1024"
definition MAX_MESSAGE_QUEUES :: nat where "MAX_MESSAGE_QUEUES = 512"
definition MAX_SOCKETS :: nat where "MAX_SOCKETS = 2048"
definition PIPE_BUFFER_SIZE :: nat where "PIPE_BUFFER_SIZE = 4096"
definition MAX_MESSAGE_SIZE :: nat where "MAX_MESSAGE_SIZE = 8192"
definition MAX_QUEUE_MESSAGES :: nat where "MAX_QUEUE_MESSAGES = 1024"

datatype SocketType = SOCKET_UNIX | SOCKET_INET | SOCKET_INET6
datatype SocketProtocol = SOCKET_STREAM | SOCKET_DGRAM | SOCKET_RAW

record Pipe =
  pp_pipe_id :: u32
  pp_reader_pid :: u32
  pp_writer_pid :: u32
  pp_buffer :: "u8 list"
  pp_buffer_pos :: u32
  pp_is_open :: bool
  pp_bytes_written :: u64
  pp_bytes_read :: u64

record Message =
  ms_data :: "u8 list"
  ms_size :: u32
  ms_sender_pid :: u32
  ms_timestamp :: time_t

record MessageQueue =
  mq_queue_id :: u32
  mq_owner_pid :: u32
  mq_messages :: "Message list"
  mq_max_messages :: u32
  mq_total_sent :: u64
  mq_total_received :: u64

record Socket =
  so_socket_id :: u32
  so_socket_type :: SocketType
  so_protocol :: SocketProtocol
  so_owner_pid :: u32
  so_is_listening :: bool
  so_is_connected :: bool
  so_connected_socket_id :: u32
  so_send_buffer :: "u8 list"
  so_recv_buffer :: "u8 list"
  so_bytes_sent :: u64
  so_bytes_received :: u64

record IPCManager =
  im_pipes :: "Pipe list"
  im_queues :: "MessageQueue list"
  im_sockets :: "Socket list"
  im_total_pipes_created :: u64
  im_total_queues_created :: u64
  im_total_sockets_created :: u64

definition ipc_init :: "bool \<Rightarrow> IPCManager option" where
  "ipc_init malloc_ok =
     (if \<not> malloc_ok then None
      else Some \<lparr>im_pipes = [], im_queues = [], im_sockets = [], im_total_pipes_created = 0,
                 im_total_queues_created = 0, im_total_sockets_created = 0\<rparr>)"

text \<open>The cleanup closes the open pipes and frees the manager they are part of.\<close>

definition ipc_cleanup :: "IPCManager option \<Rightarrow> IPCManager option" where
  "ipc_cleanup h = None"

section \<open>Pipes\<close>

definition ipc_create_pipe :: "IPCManager option \<Rightarrow> u32 \<Rightarrow> u32 \<Rightarrow> IPCManager option \<times> u32" where
  "ipc_create_pipe h reader_pid writer_pid = with_handle 0 h (\<lambda>m.
     if length (im_pipes m) \<ge> MAX_PIPES then (m, 0)
     else let pid = of_nat (length (im_pipes m)) + 1;
              pipe = \<lparr>pp_pipe_id = pid, pp_reader_pid = reader_pid, pp_writer_pid = writer_pid,
                      pp_buffer = [], pp_buffer_pos = 0, pp_is_open = True, pp_bytes_written = 0,
                      pp_bytes_read = 0\<rparr>
          in (m\<lparr>im_pipes := im_pipes m @ [pipe],
                im_total_pipes_created := im_total_pipes_created m + 1\<rparr>, pid))"

definition ipc_pipe_write ::
    "IPCManager option \<Rightarrow> u32 \<Rightarrow> u8 list option \<Rightarrow> u32 \<Rightarrow> (IPCManager option \<times> int) outcome" where
  "ipc_pipe_write h pipe_id data sz = with_handle_ub (-1) h (\<lambda>m.
     case data of None \<Rightarrow> Done (m, -1)
     | Some bytes \<Rightarrow> (case slot_of pipe_id (im_pipes m) of None \<Rightarrow> Done (m, -1)
     | Some i \<Rightarrow>
         let p = im_pipes m ! i; buffer_size = of_nat (length (pp_buffer p)) in
         if \<not> pp_is_open p then Done (m, -1)
         else if sz + buffer_size > of_nat PIPE_BUFFER_SIZE then Done (m, -1)
         else if length bytes < unat sz \<or> length (pp_buffer p) + unat sz > PIPE_BUFFER_SIZE then Undef
         else Done (m\<lparr>im_pipes := (im_pipes m)[i := p
                \<lparr>pp_buffer := pp_buffer p @ take (unat sz) bytes,
                 pp_bytes_written := pp_bytes_written p + ucast sz\<rparr>]\<rparr>, sint sz)))"

definition ipc_pipe_read ::
    "IPCManager option \<Rightarrow> u32 \<Rightarrow> bool \<Rightarrow> u32 \<Rightarrow> IPCManager option \<times> int \<times> u8 list" where
  "ipc_pipe_read h pipe_id buffer max_size = with_handle (-1, []) h (\<lambda>m.
     if \<not> buffer then (m, -1, [])
     else case slot_of pipe_id (im_pipes m) of None \<Rightarrow> (m, -1, [])
     | Some i \<Rightarrow>
         let p = im_pipes m ! i; buffer_size = of_nat (length (pp_buffer p)) in
         if \<not> pp_is_open p then (m, -1, [])
         else if buffer_size = 0 then (m, 0, [])
         else let read_size = (if max_size < buffer_size then max_size else buffer_size)
              in (m\<lparr>im_pipes := (im_pipes m)[i := p
                    \<lparr>pp_buffer := drop (unat read_size) (pp_buffer p),
                     pp_bytes_read := pp_bytes_read p + ucast read_size\<rparr>]\<rparr>,
                  sint read_size, take (unat read_size) (pp_buffer p)))"

definition ipc_pipe_close :: "IPCManager option \<Rightarrow> u32 \<Rightarrow> IPCManager option \<times> int" where
  "ipc_pipe_close h pipe_id = with_handle (-1) h (\<lambda>m.
     case slot_of pipe_id (im_pipes m) of None \<Rightarrow> (m, -1)
     | Some i \<Rightarrow>
         (m\<lparr>im_pipes := (im_pipes m)[i := (im_pipes m ! i)
              \<lparr>pp_is_open := False, pp_buffer := [], pp_buffer_pos := 0\<rparr>]\<rparr>, 0))"

section \<open>Message queues\<close>

definition ipc_create_message_queue ::
    "IPCManager option \<Rightarrow> u32 \<Rightarrow> u32 \<Rightarrow> IPCManager option \<times> u32" where
  "ipc_create_message_queue h owner_pid max_messages = with_handle 0 h (\<lambda>m.
     if length (im_queues m) \<ge> MAX_MESSAGE_QUEUES then (m, 0)
     else let qid = of_nat (length (im_queues m)) + 1;
              queue = \<lparr>mq_queue_id = qid, mq_owner_pid = owner_pid, mq_messages = [],
                       mq_max_messages = max_messages, mq_total_sent = 0, mq_total_received = 0\<rparr>
          in (m\<lparr>im_queues := im_queues m @ [queue],
                im_total_queues_created := im_total_queues_created m + 1\<rparr>, qid))"

definition ipc_queue_send ::
    "IPCManager option \<Rightarrow> u32 \<Rightarrow> u32 \<Rightarrow> u8 list option \<Rightarrow> u32 \<Rightarrow> time_t \<Rightarrow>
     (IPCManager option \<times> int) outcome" where
  "ipc_queue_send h queue_id sender_pid data sz now = with_handle_ub (-1) h (\<lambda>m.
     case data of None \<Rightarrow> Done (m, -1)
     | Some bytes \<Rightarrow> (case slot_of queue_id (im_queues m) of None \<Rightarrow> Done (m, -1)
     | Some i \<Rightarrow>
         let q = im_queues m ! i in
         if of_nat (length (mq_messages q)) \<ge> mq_max_messages q \<or> sz > of_nat MAX_MESSAGE_SIZE
         then Done (m, -1)
         else if length (mq_messages q) \<ge> MAX_QUEUE_MESSAGES \<or> length bytes < unat sz then Undef
         else let msg = \<lparr>ms_data = take (unat sz) bytes, ms_size = sz, ms_sender_pid = sender_pid,
                         ms_timestamp = now\<rparr>
              in Done (m\<lparr>im_queues := (im_queues m)[i := q
                   \<lparr>mq_messages := mq_messages q @ [msg], mq_total_sent := mq_total_sent q + 1\<rparr>]\<rparr>,
                   sint sz)))"

definition ipc_queue_receive ::
    "IPCManager option \<Rightarrow> u32 \<Rightarrow> bool \<Rightarrow> u32 \<Rightarrow> IPCManager option \<times> int \<times> u8 list" where
  "ipc_queue_receive h queue_id buffer max_size = with_handle (-1, []) h (\<lambda>m.
     if \<not> buffer then (m, -1, [])
     else case slot_of queue_id (im_queues m) of None \<Rightarrow> (m, -1, [])
     | Some i \<Rightarrow>
         let q = im_queues m ! i in
         (case mq_messages q of
            [] \<Rightarrow> (m, 0, [])
          | msg # rest \<Rightarrow>
              let copy_size = (if max_size < ms_size msg then max_size else ms_size msg)
              in (m\<lparr>im_queues := (im_queues m)[i := q
                    \<lparr>mq_messages := rest, mq_total_received := mq_total_received q + 1\<rparr>]\<rparr>,
                  sint copy_size, take (unat copy_size) (ms_data msg))))"

definition ipc_queue_delete :: "IPCManager option \<Rightarrow> u32 \<Rightarrow> IPCManager option \<times> int" where
  "ipc_queue_delete h queue_id = with_handle (-1) h (\<lambda>m.
     case slot_of queue_id (im_queues m) of None \<Rightarrow> (m, -1)
     | Some i \<Rightarrow>
         (m\<lparr>im_queues := (im_queues m)[i := (im_queues m ! i)
              \<lparr>mq_messages := [], mq_owner_pid := 0\<rparr>]\<rparr>, 0))"

definition ipc_queue_get_message_count :: "IPCManager option \<Rightarrow> u32 \<Rightarrow> u32" where
  "ipc_queue_get_message_count h queue_id = read_handle 0 h (\<lambda>m.
     case slot_of queue_id (im_queues m) of None \<Rightarrow> 0
     | Some i \<Rightarrow> of_nat (length (mq_messages (im_queues m ! i))))"

section \<open>Sockets\<close>

definition ipc_create_socket ::
    "IPCManager option \<Rightarrow> SocketType \<Rightarrow> SocketProtocol \<Rightarrow> u32 \<Rightarrow> IPCManager option \<times> u32" where
  "ipc_create_socket h typ protocol owner_pid = with_handle 0 h (\<lambda>m.
     if length (im_sockets m) \<ge> MAX_SOCKETS then (m, 0)
     else let sid = of_nat (length (im_sockets m)) + 1;
              socket = \<lparr>so_socket_id = sid, so_socket_type = typ, so_protocol = protocol,
                        so_owner_pid = owner_pid, so_is_listening = False, so_is_connected = False,
                        so_connected_socket_id = 0, so_send_buffer = [], so_recv_buffer = [],
                        so_bytes_sent = 0, so_bytes_received = 0\<rparr>
          in (m\<lparr>im_sockets := im_sockets m @ [socket],
                im_total_sockets_created := im_total_sockets_created m + 1\<rparr>, sid))"

definition ipc_socket_bind :: "IPCManager option \<Rightarrow> u32 \<Rightarrow> string option \<Rightarrow> int" where
  "ipc_socket_bind h socket_id address = read_handle (-1) h (\<lambda>m.
     case slot_of socket_id (im_sockets m) of None \<Rightarrow> -1
     | Some i \<Rightarrow>
         if address = None then -1
         else if so_is_listening (im_sockets m ! i) \<or> so_is_connected (im_sockets m ! i) then -1
         else 0)"

definition ipc_socket_listen :: "IPCManager option \<Rightarrow> u32 \<Rightarrow> u32 \<Rightarrow> IPCManager option \<times> int" where
  "ipc_socket_listen h socket_id backlog = with_handle (-1) h (\<lambda>m.
     case slot_of socket_id (im_sockets m) of None \<Rightarrow> (m, -1)
     | Some i \<Rightarrow>
         let s = im_sockets m ! i in
         if so_is_connected s then (m, -1)
         else (m\<lparr>im_sockets := (im_sockets m)[i := s\<lparr>so_is_listening := True\<rparr>]\<rparr>, 0))"

definition ipc_socket_connect ::
    "IPCManager option \<Rightarrow> u32 \<Rightarrow> string option \<Rightarrow> IPCManager option \<times> int" where
  "ipc_socket_connect h socket_id address = with_handle (-1) h (\<lambda>m.
     case slot_of socket_id (im_sockets m) of None \<Rightarrow> (m, -1)
     | Some i \<Rightarrow>
         if address = None then (m, -1)
         else let s = im_sockets m ! i in
         if so_is_listening s then (m, -1)
         else (m\<lparr>im_sockets := (im_sockets m)[i := s\<lparr>so_is_connected := True\<rparr>]\<rparr>, 0))"

definition ipc_socket_send ::
    "IPCManager option \<Rightarrow> u32 \<Rightarrow> u8 list option \<Rightarrow> u32 \<Rightarrow> (IPCManager option \<times> int) outcome" where
  "ipc_socket_send h socket_id data sz = with_handle_ub (-1) h (\<lambda>m.
     case data of None \<Rightarrow> Done (m, -1)
     | Some bytes \<Rightarrow> (case slot_of socket_id (im_sockets m) of None \<Rightarrow> Done (m, -1)
     | Some i \<Rightarrow>
         let s = im_sockets m ! i; send_pos = of_nat (length (so_send_buffer s)) in
         if \<not> so_is_connected s then Done (m, -1)
         else if sz + send_pos > of_nat PIPE_BUFFER_SIZE then Done (m, -1)
         else if length bytes < unat sz \<or> length (so_send_buffer s) + unat sz > PIPE_BUFFER_SIZE
         then Undef
         else Done (m\<lparr>im_sockets := (im_sockets m)[i := s
                \<lparr>so_send_buffer := so_send_buffer s @ take (unat sz) bytes,
                 so_bytes_sent := so_bytes_sent s + ucast sz\<rparr>]\<rparr>, sint sz)))"

definition ipc_socket_recv ::
    "IPCManager option \<Rightarrow> u32 \<Rightarrow> bool \<Rightarrow> u32 \<Rightarrow> IPCManager option \<times> int \<times> u8 list" where
  "ipc_socket_recv h socket_id buffer max_size = with_handle (-1, []) h (\<lambda>m.
     if \<not> buffer then (m, -1, [])
     else case slot_of socket_id (im_sockets m) of None \<Rightarrow> (m, -1, [])
     | Some i \<Rightarrow>
         let s = im_sockets m ! i; recv_pos = of_nat (length (so_recv_buffer s)) in
         if \<not> so_is_connected s then (m, -1, [])
         else if recv_pos = 0 then (m, 0, [])
         else let read_size = (if max_size < recv_pos then max_size else recv_pos)
              in (m\<lparr>im_sockets := (im_sockets m)[i := s
                    \<lparr>so_recv_buffer := drop (unat read_size) (so_recv_buffer s),
                     so_bytes_received := so_bytes_received s + ucast read_size\<rparr>]\<rparr>,
                  sint read_size, take (unat read_size) (so_recv_buffer s)))"

definition ipc_socket_close :: "IPCManager option \<Rightarrow> u32 \<Rightarrow> IPCManager option \<times> int" where
  "ipc_socket_close h socket_id = with_handle (-1) h (\<lambda>m.
     case slot_of socket_id (im_sockets m) of None \<Rightarrow> (m, -1)
     | Some i \<Rightarrow>
         (m\<lparr>im_sockets := (im_sockets m)[i := (im_sockets m ! i)
              \<lparr>so_is_listening := False, so_is_connected := False, so_send_buffer := [],
               so_recv_buffer := []\<rparr>]\<rparr>, 0))"

definition ipc_get_pipe_count :: "IPCManager option \<Rightarrow> u32" where
  "ipc_get_pipe_count h = read_handle 0 h (\<lambda>m. of_nat (length (im_pipes m)))"

definition ipc_get_queue_count :: "IPCManager option \<Rightarrow> u32" where
  "ipc_get_queue_count h = read_handle 0 h (\<lambda>m. of_nat (length (im_queues m)))"

definition ipc_get_socket_count :: "IPCManager option \<Rightarrow> u32" where
  "ipc_get_socket_count h = read_handle 0 h (\<lambda>m. of_nat (length (im_sockets m)))"


section \<open>Identifiers\<close>

definition pipe_table_create :: "IPCManager \<Rightarrow> u32 \<times> u32 \<Rightarrow> IPCManager \<times> u32" where
  "pipe_table_create m a = (case a of (r, w) \<Rightarrow> (case ipc_create_pipe (Some m) r w of (h, k) \<Rightarrow> (the h, k)))"

definition queue_table_create :: "IPCManager \<Rightarrow> u32 \<times> u32 \<Rightarrow> IPCManager \<times> u32" where
  "queue_table_create m a =
     (case a of (r, w) \<Rightarrow> (case ipc_create_message_queue (Some m) r w of (h, k) \<Rightarrow> (the h, k)))"

definition socket_table_create ::
    "IPCManager \<Rightarrow> SocketType \<times> SocketProtocol \<times> u32 \<Rightarrow> IPCManager \<times> u32" where
  "socket_table_create m a =
     (case a of (t, p, r) \<Rightarrow> (case ipc_create_socket (Some m) t p r of (h, k) \<Rightarrow> (the h, k)))"

interpretation pipe_ids: slot_table pipe_table_create im_pipes MAX_PIPES
  by unfold_locales
     (auto simp: pipe_table_create_def ipc_create_pipe_def with_handle_Some Let_def MAX_PIPES_def
       split: if_splits)

interpretation queue_ids: slot_table queue_table_create im_queues MAX_MESSAGE_QUEUES
  by unfold_locales
     (auto simp: queue_table_create_def ipc_create_message_queue_def with_handle_Some Let_def
       MAX_MESSAGE_QUEUES_def split: if_splits)

interpretation socket_ids: slot_table socket_table_create im_sockets MAX_SOCKETS
  by unfold_locales
     (auto simp: socket_table_create_def ipc_create_socket_def with_handle_Some Let_def MAX_SOCKETS_def
       split: if_splits)

section \<open>Reachable states\<close>

inductive ipc_step :: "IPCManager \<Rightarrow> IPCManager \<Rightarrow> bool" where
  step_create_pipe: "ipc_create_pipe (Some m) r w = (Some m', k) \<Longrightarrow> ipc_step m m'"
| step_pipe_write: "ipc_pipe_write (Some m) k d sz = Done (Some m', x) \<Longrightarrow> ipc_step m m'"
| step_pipe_read: "ipc_pipe_read (Some m) k b sz = (Some m', y) \<Longrightarrow> ipc_step m m'"
| step_pipe_close: "ipc_pipe_close (Some m) k = (Some m', x) \<Longrightarrow> ipc_step m m'"
| step_create_queue: "ipc_create_message_queue (Some m) p n = (Some m', k) \<Longrightarrow> ipc_step m m'"
| step_queue_send: "ipc_queue_send (Some m) k p d sz now = Done (Some m', x) \<Longrightarrow> ipc_step m m'"
| step_queue_receive: "ipc_queue_receive (Some m) k b sz = (Some m', y) \<Longrightarrow> ipc_step m m'"
| step_queue_delete: "ipc_queue_delete (Some m) k = (Some m', x) \<Longrightarrow> ipc_step m m'"
| step_create_socket: "ipc_create_socket (Some m) t pr p = (Some m', k) \<Longrightarrow> ipc_step m m'"
| step_socket_listen: "ipc_socket_listen (Some m) k n = (Some m', x) \<Longrightarrow> ipc_step m m'"
| step_socket_connect: "ipc_socket_connect (Some m) k a = (Some m', x) \<Longrightarrow> ipc_step m m'"
| step_socket_send: "ipc_socket_send (Some m) k d sz = Done (Some m', x) \<Longrightarrow> ipc_step m m'"
| step_socket_recv: "ipc_socket_recv (Some m) k b sz = (Some m', y) \<Longrightarrow> ipc_step m m'"
| step_socket_close: "ipc_socket_close (Some m) k = (Some m', x) \<Longrightarrow> ipc_step m m'"

abbreviation ipc_reachable :: "IPCManager \<Rightarrow> bool" where
  "ipc_reachable \<equiv> reach (\<lambda>m. ipc_init True = Some m) ipc_step"

definition pipe_fits :: "Pipe \<Rightarrow> bool" where
  "pipe_fits p \<longleftrightarrow> length (pp_buffer p) \<le> PIPE_BUFFER_SIZE"

definition message_fits :: "Message \<Rightarrow> bool" where
  "message_fits g \<longleftrightarrow> length (ms_data g) = unat (ms_size g) \<and> unat (ms_size g) \<le> MAX_MESSAGE_SIZE"

definition queue_fits :: "MessageQueue \<Rightarrow> bool" where
  "queue_fits q \<longleftrightarrow> length (mq_messages q) \<le> MAX_QUEUE_MESSAGES \<and>
     length (mq_messages q) \<le> unat (mq_max_messages q) \<and> list_all message_fits (mq_messages q)"

definition socket_fits :: "Socket \<Rightarrow> bool" where
  "socket_fits s \<longleftrightarrow> length (so_send_buffer s) \<le> PIPE_BUFFER_SIZE \<and> so_recv_buffer s = [] \<and>
     \<not> (so_is_listening s \<and> so_is_connected s)"

definition ipc_inv :: "IPCManager \<Rightarrow> bool" where
  "ipc_inv m \<longleftrightarrow>
     length (im_pipes m) \<le> MAX_PIPES \<and> length (im_queues m) \<le> MAX_MESSAGE_QUEUES \<and>
     length (im_sockets m) \<le> MAX_SOCKETS \<and> list_all pipe_fits (im_pipes m) \<and>
     list_all queue_fits (im_queues m) \<and> list_all socket_fits (im_sockets m)"

lemmas fits_defs = pipe_fits_def message_fits_def queue_fits_def socket_fits_def

lemma queue_fits_send:
  assumes "queue_fits q" and "\<not> mq_max_messages q \<le> of_nat (length (mq_messages q))"
    and "length (mq_messages q) < MAX_QUEUE_MESSAGES" and "sz \<le> of_nat MAX_MESSAGE_SIZE"
    and "unat sz \<le> length bytes"
  shows "queue_fits (q\<lparr>mq_messages := mq_messages q @ [\<lparr>ms_data = take (unat sz) bytes, ms_size = sz,
           ms_sender_pid = p, ms_timestamp = now\<rparr>], mq_total_sent := t\<rparr>)"
proof -
  have "unat sz \<le> MAX_MESSAGE_SIZE" using assms(4) by (simp add: word_le_nat_alt MAX_MESSAGE_SIZE_def)
  moreover have "length (mq_messages q) < unat (mq_max_messages q)"
    using assms(2,3) by (simp add: not_le word_less_nat_alt unat_of_nat_u32 MAX_QUEUE_MESSAGES_def)
  ultimately show ?thesis using assms by (simp add: fits_defs)
qed

lemma ipc_inv_slots:
  assumes "ipc_inv m"
  shows "slot_of k (im_pipes m) = Some i \<Longrightarrow> pipe_fits (im_pipes m ! i)"
    and "slot_of k (im_queues m) = Some i \<Longrightarrow> queue_fits (im_queues m ! i)"
    and "slot_of k (im_sockets m) = Some i \<Longrightarrow> socket_fits (im_sockets m ! i)"
  using assms by (auto simp: ipc_inv_def intro: list_all_slot)

lemma ipc_inv_step: "ipc_step m m' \<Longrightarrow> ipc_inv m \<Longrightarrow> ipc_inv m'"
proof (induction rule: ipc_step.induct)
  case (step_create_pipe m r w m' k)
  then show ?case
    by (auto simp: ipc_create_pipe_def ipc_inv_def pipe_fits_def Let_def split: if_splits)
next
  case (step_pipe_write m k d sz m' x)
  then show ?case
    by (auto simp: ipc_pipe_write_def ipc_inv_def pipe_fits_def Let_def
        intro!: list_all_update split: if_splits option.splits)
next
  case (step_pipe_read m k b sz m' y)
  with ipc_inv_slots(1) [of m k] show ?case
    by (auto simp: ipc_pipe_read_def ipc_inv_def Let_def pipe_fits_def
        intro!: list_all_update split: if_splits option.splits)
next
  case (step_pipe_close m k m' x)
  then show ?case
    by (auto simp: ipc_pipe_close_def ipc_inv_def pipe_fits_def
        intro!: list_all_update split: option.splits)
next
  case (step_create_queue m p n m' k)
  then show ?case
    by (auto simp: ipc_create_message_queue_def ipc_inv_def queue_fits_def Let_def split: if_splits)
next
  case (step_queue_send m k p d sz now m' x)
  with ipc_inv_slots(2) [of m k] show ?case
    by (auto simp: ipc_queue_send_def ipc_inv_def Let_def not_le not_less
        intro!: list_all_update queue_fits_send split: if_splits option.splits)
next
  case (step_queue_receive m k b sz m' y)
  with ipc_inv_slots(2) [of m k] show ?case
    by (auto simp: ipc_queue_receive_def ipc_inv_def Let_def queue_fits_def
        intro!: list_all_update split: if_splits option.splits list.splits)
next
  case (step_queue_delete m k m' x)
  then show ?case
    by (auto simp: ipc_queue_delete_def ipc_inv_def queue_fits_def
        intro!: list_all_update split: option.splits)
next
  case (step_create_socket m t pr p m' k)
  then show ?case
    by (auto simp: ipc_create_socket_def ipc_inv_def socket_fits_def Let_def split: if_splits)
next
  case (step_socket_listen m k n m' x)
  with ipc_inv_slots(3) [of m k] show ?case
    by (auto simp: ipc_socket_listen_def ipc_inv_def socket_fits_def Let_def
        intro!: list_all_update split: if_splits option.splits)
next
  case (step_socket_connect m k a m' x)
  with ipc_inv_slots(3) [of m k] show ?case
    by (auto simp: ipc_socket_connect_def ipc_inv_def socket_fits_def Let_def
        intro!: list_all_update split: if_splits option.splits)
next
  case (step_socket_send m k d sz m' x)
  with ipc_inv_slots(3) [of m k] show ?case
    by (auto simp: ipc_socket_send_def ipc_inv_def socket_fits_def Let_def
        intro!: list_all_update split: if_splits option.splits)
next
  case (step_socket_recv m k b sz m' y)
  with ipc_inv_slots(3) [of m k] show ?case
    by (auto simp: ipc_socket_recv_def ipc_inv_def socket_fits_def Let_def
        intro!: list_all_update split: if_splits option.splits)
next
  case (step_socket_close m k m' x)
  then show ?case
    by (auto simp: ipc_socket_close_def ipc_inv_def socket_fits_def
        intro!: list_all_update split: option.splits)
qed

interpretation ipc: invariant_system "\<lambda>m. ipc_init True = Some m" ipc_step ipc_inv
proof
  show "ipc_init True = Some m \<Longrightarrow> ipc_inv m" for m by (auto simp: ipc_init_def ipc_inv_def)
qed (rule ipc_inv_step)

section \<open>A pipe is a byte stream\<close>

definition pipe_content :: "u32 \<Rightarrow> IPCManager \<Rightarrow> u8 list" where
  "pipe_content k m = (case slot_get k (im_pipes m) of None \<Rightarrow> [] | Some p \<Rightarrow> pp_buffer p)"

text \<open>
  An open pipe whose counters account for the bytes in its buffer.
\<close>

definition pipe_ok :: "u32 \<Rightarrow> IPCManager \<Rightarrow> bool" where
  "pipe_ok k m = (case slot_get k (im_pipes m) of None \<Rightarrow> False
     | Some p \<Rightarrow> pp_is_open p \<and> length (pp_buffer p) \<le> PIPE_BUFFER_SIZE \<and>
         pp_bytes_written p = pp_bytes_read p + of_nat (length (pp_buffer p)))"

text \<open>
  A write of a block that is short enough for the size check not to wrap; \<open>None\<close> is a refusal. A write of
  4294963200 bytes or more, which can pass the check and overrun the buffer (see the lemmas on the wrapped
  check below), is left out of the streams: it is taken as refused here.
\<close>

definition pipe_put :: "u32 \<Rightarrow> IPCManager \<Rightarrow> u8 list \<Rightarrow> IPCManager option" where
  "pipe_put k m xs =
     (if length xs \<ge> 4294963200 then None
      else case ipc_pipe_write (Some m) k (Some xs) (of_nat (length xs)) of
             Undef \<Rightarrow> None
           | Done (h, r) \<Rightarrow> if r < 0 then None else h)"

definition pipe_get :: "u32 \<Rightarrow> IPCManager \<Rightarrow> nat \<Rightarrow> IPCManager \<times> u8 list" where
  "pipe_get k m n = (case ipc_pipe_read (Some m) k True (of_nat n) of (h, r, bytes) \<Rightarrow> (the h, bytes))"

lemma pipe_okE:
  assumes "pipe_ok k m"
  obtains i p where "slot_of k (im_pipes m) = Some i" and "im_pipes m ! i = p" and "pp_is_open p"
    and "length (pp_buffer p) \<le> PIPE_BUFFER_SIZE"
    and "pp_bytes_written p = pp_bytes_read p + of_nat (length (pp_buffer p))"
    and "pipe_content k m = pp_buffer p"
  using assms by (auto simp: pipe_ok_def pipe_content_def slot_get_Some split: option.splits)

lemma pipe_put_appends:
  assumes "pipe_ok k m" and "pipe_put k m xs = Some m'"
  shows "pipe_content k m' = pipe_content k m @ xs \<and> pipe_ok k m'"
  using assms(1)
proof (cases rule: pipe_okE)
  case (1 i p)
  have len: "length xs < 4294963200" using assms(2) by (simp add: pipe_put_def split: if_splits)
  then have u: "unat (of_nat (length xs) :: u32) = length xs" by (simp add: unat_of_nat_u32)
  have "(ucast (of_nat (length xs) :: u32) :: u64) = of_nat (length xs)"
    using u by (metis of_nat_unat)
  with assms(2) len u 1 slot_get_update [OF 1(1)] show ?thesis
    by (auto simp: pipe_put_def ipc_pipe_write_def with_handle_ub_def pipe_content_def pipe_ok_def Let_def
        split: if_splits outcome.splits)
qed

lemma pipe_get_eq:
  assumes "slot_of k (im_pipes m) = Some i" and "im_pipes m ! i = p" and "pp_is_open p"
    and "pp_buffer p \<noteq> []" and "length (pp_buffer p) \<le> PIPE_BUFFER_SIZE"
  obtains r where "r \<le> length (pp_buffer p)" and "pipe_get k m n =
     (m\<lparr>im_pipes := (im_pipes m)[i := p\<lparr>pp_buffer := drop r (pp_buffer p),
          pp_bytes_read := pp_bytes_read p + of_nat r\<rparr>]\<rparr>, take r (pp_buffer p))"
proof -
  let ?b = "of_nat (length (pp_buffer p)) :: u32"
  define w where "w = (if (of_nat n :: u32) < ?b then of_nat n else ?b)"
  have u: "unat ?b = length (pp_buffer p)" using assms(5) by (simp add: unat_of_nat_u32 PIPE_BUFFER_SIZE_def)
  then have "?b \<noteq> 0" using assms(4) by (metis length_0_conv unat_eq_0)
  with assms have "pipe_get k m n =
     (m\<lparr>im_pipes := (im_pipes m)[i := p\<lparr>pp_buffer := drop (unat w) (pp_buffer p),
          pp_bytes_read := pp_bytes_read p + of_nat (unat w)\<rparr>]\<rparr>, take (unat w) (pp_buffer p))"
    unfolding of_nat_unat w_def
    by (simp add: pipe_get_def ipc_pipe_read_def with_handle_Some Let_def del: of_nat_unat)
  moreover have "unat w \<le> length (pp_buffer p)" using u by (simp add: w_def word_less_nat_alt)
  ultimately show thesis by (rule that [rotated])
qed

lemma pipe_get_takes:
  assumes "pipe_ok k m" and "pipe_get k m n = (m', xs)"
  shows "pipe_content k m = xs @ pipe_content k m' \<and> pipe_ok k m'"
  using assms(1)
proof (cases rule: pipe_okE)
  case (1 i p)
  show ?thesis
  proof (cases "pp_buffer p = []")
    case True
    with 1 assms show ?thesis
      by (simp add: pipe_get_def ipc_pipe_read_def with_handle_Some Let_def)
  next
    case False
    obtain r where r: "r \<le> length (pp_buffer p)" and eq: "pipe_get k m n =
     (m\<lparr>im_pipes := (im_pipes m)[i := p\<lparr>pp_buffer := drop r (pp_buffer p),
          pp_bytes_read := pp_bytes_read p + of_nat r\<rparr>]\<rparr>, take r (pp_buffer p))"
      using pipe_get_eq [OF 1(1-3) False 1(4)] by blast
    from assms(2) eq have m': "slot_get k (im_pipes m') = Some (p\<lparr>pp_buffer := drop r (pp_buffer p),
          pp_bytes_read := pp_bytes_read p + of_nat r\<rparr>)" and xs: "xs = take r (pp_buffer p)"
      using slot_get_update [OF 1(1)] by auto
    show ?thesis using r m' xs 1(3-6) by (simp add: pipe_content_def pipe_ok_def of_nat_diff)
  qed
qed

interpretation pipe: byte_fifo "pipe_content k" "pipe_put k" "pipe_get k" "pipe_ok k" for k
  by unfold_locales (use pipe_put_appends pipe_get_takes in blast)+

section \<open>A queue is a stream of messages\<close>

definition queue_content :: "u32 \<Rightarrow> IPCManager \<Rightarrow> u8 list list" where
  "queue_content k m = (case slot_get k (im_queues m) of None \<Rightarrow> [] | Some q \<Rightarrow> map ms_data (mq_messages q))"

definition queue_ok :: "u32 \<Rightarrow> IPCManager \<Rightarrow> bool" where
  "queue_ok k m = (case slot_get k (im_queues m) of None \<Rightarrow> False
     | Some q \<Rightarrow> queue_fits q \<and> unat (mq_max_messages q) \<le> MAX_QUEUE_MESSAGES)"

text \<open>
  Sending one message (\<open>None\<close> is a refusal), and receiving up to \<open>n\<close> messages with a buffer that
  holds the largest message, as long as the queue reports that there are any.
\<close>

definition queue_put :: "u32 \<Rightarrow> IPCManager \<Rightarrow> u8 list list \<Rightarrow> IPCManager option" where
  "queue_put k m xs = (case xs of
     [d] \<Rightarrow> if length d \<ge> 4294967296 then None
            else (case ipc_queue_send (Some m) k 1 (Some d) (of_nat (length d)) 0 of
                    Undef \<Rightarrow> None
                  | Done (h, r) \<Rightarrow> if r < 0 then None else h)
   | _ \<Rightarrow> None)"

primrec queue_get :: "u32 \<Rightarrow> IPCManager \<Rightarrow> nat \<Rightarrow> IPCManager \<times> u8 list list" where
  "queue_get k m 0 = (m, [])"
| "queue_get k m (Suc n) =
     (if ipc_queue_get_message_count (Some m) k = 0 then (m, [])
      else case ipc_queue_receive (Some m) k True (of_nat MAX_MESSAGE_SIZE) of
             (h, r, d) \<Rightarrow> (case queue_get k (the h) n of (m', ds) \<Rightarrow> (m', d # ds)))"

lemma queue_okE:
  assumes "queue_ok k m"
  obtains i q where "slot_of k (im_queues m) = Some i" and "im_queues m ! i = q" and "queue_fits q"
    and "unat (mq_max_messages q) \<le> MAX_QUEUE_MESSAGES"
    and "queue_content k m = map ms_data (mq_messages q)"
  using assms by (auto simp: queue_ok_def queue_content_def slot_get_Some split: option.splits)

lemma queue_put_appends:
  assumes "queue_ok k m" and "queue_put k m xs = Some m'"
  shows "queue_content k m' = queue_content k m @ xs \<and> queue_ok k m'"
  using assms(1)
proof (cases rule: queue_okE)
  case (1 i q)
  from assms(2) obtain d where xs: "xs = [d]" and d: "length d < 4294967296"
    by (auto simp: queue_put_def split: list.splits if_splits)
  let ?sz = "of_nat (length d) :: u32"
  let ?q = "q\<lparr>mq_messages := mq_messages q @ [\<lparr>ms_data = take (unat ?sz) d, ms_size = ?sz,
      ms_sender_pid = 1, ms_timestamp = 0\<rparr>], mq_total_sent := mq_total_sent q + 1\<rparr>"
  have u: "unat ?sz = length d" using d by (rule unat_of_nat_u32)
  have sent: "\<not> mq_max_messages q \<le> of_nat (length (mq_messages q))" "?sz \<le> of_nat MAX_MESSAGE_SIZE"
      "length (mq_messages q) < MAX_QUEUE_MESSAGES"
    and m': "m' = m\<lparr>im_queues := (im_queues m)[i := ?q]\<rparr>"
    using assms(2) 1 xs d
    by (auto simp: queue_put_def ipc_queue_send_def with_handle_ub_def Let_def
        split: if_splits outcome.splits)
  have "queue_fits ?q" by (rule queue_fits_send [OF 1(3) sent(1,3,2)]) (simp add: u)
  with 1 m' u xs slot_get_update [OF 1(1)] show ?thesis
    by (simp add: queue_content_def queue_ok_def)
qed

lemma queue_receive_head:
  assumes "queue_ok k m" and "queue_content k m = d # ds"
  obtains m' r where "ipc_queue_receive (Some m) k True (of_nat MAX_MESSAGE_SIZE) = (Some m', r, d)"
    and "queue_content k m' = ds" and "queue_ok k m'"
  using assms(1)
proof (cases rule: queue_okE)
  case (1 i q)
  with assms(2) obtain g gs where q: "mq_messages q = g # gs" and gd: "ms_data g = d" "map ms_data gs = ds"
    by auto
  have g: "length d = unat (ms_size g)" "length d \<le> MAX_MESSAGE_SIZE" and gs: "queue_fits (q\<lparr>mq_messages := gs,
      mq_total_received := mq_total_received q + 1\<rparr>)"
    using 1(3) q gd by (auto simp: fits_defs)
  then have le: "\<not> of_nat MAX_MESSAGE_SIZE < ms_size g"
    by (simp add: word_less_nat_alt MAX_MESSAGE_SIZE_def)
  show thesis
  proof (rule that)
    show "ipc_queue_receive (Some m) k True (of_nat MAX_MESSAGE_SIZE) =
        (Some (m\<lparr>im_queues := (im_queues m)[i := q\<lparr>mq_messages := gs,
           mq_total_received := mq_total_received q + 1\<rparr>]\<rparr>), sint (ms_size g), d)"
      using 1 q gd g le by (simp add: ipc_queue_receive_def Let_def)
  qed (use 1 gd gs slot_get_update [OF 1(1)] in \<open>simp_all add: queue_content_def queue_ok_def\<close>)
qed

lemma queue_count_zero:
  assumes "queue_ok k m"
  shows "ipc_queue_get_message_count (Some m) k = 0 \<longleftrightarrow> queue_content k m = []"
  using assms
proof (cases rule: queue_okE)
  case (1 i q)
  then have "unat (of_nat (length (mq_messages q)) :: u32) = length (mq_messages q)"
    by (intro unat_of_nat_u32) (simp add: fits_defs MAX_QUEUE_MESSAGES_def)
  with 1 show ?thesis by (metis (no_types, lifting) ipc_queue_get_message_count_def length_0_conv
      map_is_Nil_conv option.simps(5) read_handle_simps(2) unat_eq_0)
qed

lemma queue_get_takes:
  "queue_ok k m \<Longrightarrow> queue_get k m n = (m', xs) \<Longrightarrow> queue_content k m = xs @ queue_content k m' \<and> queue_ok k m'"
proof (induction n arbitrary: m xs)
  case 0
  then show ?case by simp
next
  case (Suc n)
  show ?case
  proof (cases "queue_content k m")
    case Nil
    with Suc.prems queue_count_zero [OF Suc.prems(1)] show ?thesis by simp
  next
    case (Cons d ds)
    obtain m1 r where 1: "ipc_queue_receive (Some m) k True (of_nat MAX_MESSAGE_SIZE) = (Some m1, r, d)"
        "queue_content k m1 = ds" "queue_ok k m1"
      using queue_receive_head [OF Suc.prems(1) Cons] .
    with Suc.prems Cons queue_count_zero [OF Suc.prems(1)] obtain ys
      where "queue_get k m1 n = (m', ys)" "xs = d # ys" by (auto split: prod.splits)
    with Suc.IH [OF 1(3)] 1 Cons show ?thesis by auto
  qed
qed

interpretation queue: byte_fifo "queue_content k" "queue_put k" "queue_get k" "queue_ok k" for k
  by unfold_locales (use queue_put_appends queue_get_takes in blast)+

section \<open>Properties\<close>

definition ipc_empty :: IPCManager where "ipc_empty = the (ipc_init True)"

definition ipc_one_pipe :: IPCManager where
  "ipc_one_pipe = fst (pipe_table_create ipc_empty (10, 11))"

definition ipc_one_queue :: IPCManager where
  "ipc_one_queue = fst (queue_table_create ipc_empty (10, 2))"

definition ipc_one_socket :: IPCManager where
  "ipc_one_socket = the (fst (ipc_socket_connect
     (Some (fst (socket_table_create ipc_empty (SOCKET_UNIX, SOCKET_STREAM, 10)))) 1 (Some ''/a'')))"

lemma ipc_one_pipe_eq: "im_pipes ipc_one_pipe = [\<lparr>pp_pipe_id = 1, pp_reader_pid = 10, pp_writer_pid = 11,
    pp_buffer = [], pp_buffer_pos = 0, pp_is_open = True, pp_bytes_written = 0, pp_bytes_read = 0\<rparr>]"
  by (simp add: ipc_one_pipe_def pipe_table_create_def ipc_empty_def ipc_create_pipe_def ipc_init_def
      MAX_PIPES_def with_handle_Some Let_def)

lemma ipc_one_queue_eq: "im_queues ipc_one_queue = [\<lparr>mq_queue_id = 1, mq_owner_pid = 10, mq_messages = [],
    mq_max_messages = 2, mq_total_sent = 0, mq_total_received = 0\<rparr>]"
  by (simp add: ipc_one_queue_def queue_table_create_def ipc_empty_def ipc_create_message_queue_def
      ipc_init_def MAX_MESSAGE_QUEUES_def with_handle_Some Let_def)

lemma ipc_one_pipe_reachable: "ipc_reachable ipc_one_pipe"
proof (rule reach_step)
  show "ipc_reachable ipc_empty" by (rule reach_init) (simp add: ipc_empty_def ipc_init_def)
  show "ipc_step ipc_empty ipc_one_pipe"
    by (rule step_create_pipe [of _ 10 11 _ 1])
       (simp add: ipc_one_pipe_def pipe_table_create_def ipc_empty_def ipc_create_pipe_def ipc_init_def
         MAX_PIPES_def with_handle_Some Let_def)
qed

lemma ipc_one_socket_reachable: "ipc_reachable ipc_one_socket"
proof (rule reach_step)
  let ?s = "fst (socket_table_create ipc_empty (SOCKET_UNIX, SOCKET_STREAM, 10))"
  show "ipc_step ?s ipc_one_socket"
    by (rule step_socket_connect [of _ 1 "Some ''/a''" _
          "snd (ipc_socket_connect (Some ?s) 1 (Some ''/a''))"])
       (simp add: ipc_one_socket_def ipc_socket_connect_def with_handle_Some)
  show "ipc_reachable ?s"
  proof (rule reach_step)
    show "ipc_reachable ipc_empty" by (rule reach_init) (simp add: ipc_empty_def ipc_init_def)
    show "ipc_step ipc_empty ?s"
      by (rule step_create_socket [of _ SOCKET_UNIX SOCKET_STREAM 10 _ 1])
         (simp add: socket_table_create_def ipc_empty_def ipc_create_socket_def ipc_init_def
           MAX_SOCKETS_def with_handle_Some Let_def)
  qed
qed

text \<open>
  Claim C21. Integrity of a pipe: over any sequence of writes, of fewer than 4294963200 bytes each, and reads of an open pipe, the bytes
  read followed by the bytes still buffered are the bytes that were buffered followed by the
  bytes of the accepted writes, in order; and the pipe's counters keep
  \<open>bytes_written = bytes_read + buffered\<close>.
\<close>

theorem ipc_pipe_stream_integrity:
  assumes "pipe_ok k m" and "stream_run (pipe_put k) (pipe_get k) m calls = (m', written, delivered)"
  shows "delivered @ pipe_content k m' = pipe_content k m @ written \<and> pipe_ok k m'"
  by (rule pipe.stream_integrity [OF assms])

theorem ipc_pipe_stream_integrity_witness:
  "fst (snd (stream_run (pipe_put 1) (pipe_get 1) ipc_one_pipe [Put [1, 2, 3], Get 2, Put [4], Get 9]))
     = [1, 2, 3, 4] \<and>
   snd (snd (stream_run (pipe_put 1) (pipe_get 1) ipc_one_pipe [Put [1, 2, 3], Get 2, Put [4], Get 9]))
     @ pipe_content 1
        (fst (stream_run (pipe_put 1) (pipe_get 1) ipc_one_pipe [Put [1, 2, 3], Get 2, Put [4], Get 9]))
     = [1, 2, 3, 4]"
proof -
  let ?r = "stream_run (pipe_put 1) (pipe_get 1) ipc_one_pipe [Put [1, 2, 3], Get 2, Put [4], Get 9]"
  have "pipe_ok 1 ipc_one_pipe" and "pipe_content 1 ipc_one_pipe = []"
    by (simp_all add: pipe_ok_def pipe_content_def ipc_one_pipe_eq slot_get_def slot_of_def)
  moreover have "fst (snd ?r) = [1, 2, 3, 4]"
    by (simp add: pipe_put_def pipe_get_def ipc_pipe_write_def ipc_pipe_read_def with_handle_ub_def
        with_handle_Some slot_of_def ipc_one_pipe_eq PIPE_BUFFER_SIZE_def Let_def split: prod.split)
  ultimately show ?thesis
    using ipc_pipe_stream_integrity [of 1 ipc_one_pipe "[Put [1, 2, 3], Get 2, Put [4], Get 9]"
        "fst ?r" "fst (snd ?r)" "snd (snd ?r)"]
    by (metis append_Nil prod.collapse)
qed

text \<open>
  Messages come out of a queue in the order they were sent, each exactly once and
  unchanged: over any sequence of sends and receives on a queue of at most 1024 messages, the
  messages received followed by those still queued are those queued before followed by those
  accepted.
\<close>

lemma ipc_queue_fifo:
  assumes "queue_ok k m" and "stream_run (queue_put k) (queue_get k) m calls = (m', sent, received)"
  shows "received @ queue_content k m' = queue_content k m @ sent \<and> queue_ok k m'"
  by (rule queue.stream_integrity [OF assms])

lemma ipc_queue_fifo_witness:
  "snd (snd (stream_run (queue_put 1) (queue_get 1) ipc_one_queue [Put [[1, 2]], Put [[3]], Put [[4]], Get 1]))
     @ queue_content 1 (fst (stream_run (queue_put 1) (queue_get 1) ipc_one_queue
          [Put [[1, 2]], Put [[3]], Put [[4]], Get 1]))
   = [[1, 2], [3]]"
proof -
  let ?r = "stream_run (queue_put 1) (queue_get 1) ipc_one_queue [Put [[1, 2]], Put [[3]], Put [[4]], Get 1]"
  have "queue_ok 1 ipc_one_queue" and "queue_content 1 ipc_one_queue = []"
    by (simp_all add: queue_ok_def queue_content_def queue_fits_def ipc_one_queue_eq slot_get_def slot_of_def
        MAX_QUEUE_MESSAGES_def)
  moreover have "fst (snd ?r) = [[1, 2], [3]]"
    by (simp add: queue_put_def ipc_queue_send_def ipc_queue_receive_def with_handle_ub_def
        ipc_queue_get_message_count_def with_handle_Some slot_of_def ipc_one_queue_eq
        MAX_MESSAGE_SIZE_def MAX_QUEUE_MESSAGES_def Let_def word_le_nat_alt split: prod.split)
  ultimately show ?thesis
    using ipc_queue_fifo [of 1 ipc_one_queue "[Put [[1, 2]], Put [[3]], Put [[4]], Get 1]"
        "fst ?r" "fst (snd ?r)" "snd (snd ?r)"]
    by (metis append_Nil prod.collapse)
qed

text \<open>
  When exactly a pipe write is undefined: in a reachable state, with a data pointer
  to at least \<open>sz\<close> bytes, \<open>ipc_pipe_write\<close> writes outside the buffer if and only if the pipe is
  open and the 32-bit sum in its size check wraps; every shorter write is defined.
\<close>

lemma ipc_pipe_write_overflow_exact:
  assumes "ipc_reachable m" and "unat sz \<le> length bytes"
  shows "ipc_pipe_write (Some m) k (Some bytes) sz = Undef \<longleftrightarrow>
     (\<exists>p. slot_get k (im_pipes m) = Some p \<and> pp_is_open p \<and> 2 ^ 32 \<le> unat sz + length (pp_buffer p))"
proof (cases "slot_of k (im_pipes m)")
  case None
  then show ?thesis by (simp add: ipc_pipe_write_def slot_get_def)
next
  case (Some i)
  let ?p = "im_pipes m ! i"
  have le: "length (pp_buffer ?p) \<le> 4096"
    using ipc_inv_slots(1) [OF ipc.inv_reachable [OF assms(1)] Some]
    by (simp add: pipe_fits_def PIPE_BUFFER_SIZE_def)
  have sz: "unat sz < 4294967296" using unsigned_less [of sz, where 'a = nat] by simp
  have "unat (sz + of_nat (length (pp_buffer ?p))) = (unat sz + length (pp_buffer ?p)) mod 4294967296"
    using le by (simp add: unat_word_ariths unat_of_nat_u32)
  also have "\<dots> = (if unat sz + length (pp_buffer ?p) < 4294967296 then unat sz + length (pp_buffer ?p)
      else unat sz + length (pp_buffer ?p) - 4294967296)"
    using le sz by (simp add: le_mod_geq)
  finally have "sz + of_nat (length (pp_buffer ?p)) > of_nat PIPE_BUFFER_SIZE \<longleftrightarrow>
      unat sz + length (pp_buffer ?p) < 4294967296 \<and> unat sz + length (pp_buffer ?p) > 4096"
    using le sz by (auto simp: word_less_nat_alt PIPE_BUFFER_SIZE_def)
  with Some le assms(2) show ?thesis
    by (auto simp: ipc_pipe_write_def slot_get_def Let_def PIPE_BUFFER_SIZE_def)
qed

lemma ipc_pipe_write_overflow_exact_witness:
  "ipc_pipe_write (Some ipc_one_pipe) 1 (Some [1, 2, 3]) 3 \<noteq> Undef"
  using ipc_pipe_write_overflow_exact [OF ipc_one_pipe_reachable, of 3 "[1, 2, 3]" 1]
  by (simp add: ipc_one_pipe_eq slot_get_Some slot_of_def)

text \<open>
  The size check can be defeated: after one byte is in the pipe, a write of
  \<open>0xFFFFFFFF\<close> bytes passes the check and overruns the 4096-byte buffer, whatever the data.
\<close>

lemma ipc_pipe_write_wraps:
  "ipc_pipe_write (fst (case ipc_pipe_write (Some ipc_one_pipe) 1 (Some [7]) 1 of Done x \<Rightarrow> x))
     1 (Some bytes) 0xFFFFFFFF = Undef"
  by (simp add: ipc_pipe_write_def with_handle_ub_def slot_of_def ipc_one_pipe_eq PIPE_BUFFER_SIZE_def
      Let_def)

text \<open>
  In every reachable state every buffer stays inside its array: pipes hold at most
  4096 bytes, queues at most 1024 messages and no more than their declared maximum, messages at
  most 8192 bytes, and no socket is both listening and connected.
\<close>

lemma ipc_buffers_bounded:
  assumes "ipc_reachable m"
  shows "list_all (\<lambda>p. length (pp_buffer p) \<le> 4096) (im_pipes m) \<and>
    list_all (\<lambda>q. length (mq_messages q) \<le> min 1024 (unat (mq_max_messages q)) \<and>
      list_all (\<lambda>g. length (ms_data g) = unat (ms_size g) \<and> unat (ms_size g) \<le> 8192) (mq_messages q))
      (im_queues m) \<and>
    list_all (\<lambda>s. length (so_send_buffer s) \<le> 4096 \<and> \<not> (so_is_listening s \<and> so_is_connected s))
      (im_sockets m)"
  using ipc.inv_reachable [OF assms]
  by (auto simp: ipc_inv_def fits_defs PIPE_BUFFER_SIZE_def MAX_QUEUE_MESSAGES_def MAX_MESSAGE_SIZE_def
      list_all_iff)

lemma ipc_buffers_bounded_witness:
  "list_all (\<lambda>p. length (pp_buffer p) \<le> 4096) (im_pipes ipc_one_pipe)"
  using ipc_buffers_bounded [OF ipc_one_pipe_reachable] by blast

text \<open>
  A local socket never delivers data: in every reachable state \<open>ipc_socket_recv\<close> copies
  nothing, changes nothing and returns 0 or -1, whatever was sent before.
\<close>

lemma ipc_socket_recv_never_delivers:
  assumes "ipc_reachable m"
  shows "\<exists>r. ipc_socket_recv (Some m) k b n = (Some m, r, []) \<and> r \<in> {0, -1}"
  using ipc_inv_slots(3) [OF ipc.inv_reachable [OF assms]]
  by (auto simp: ipc_socket_recv_def with_handle_Some socket_fits_def Let_def split: option.splits)

lemma ipc_socket_recv_never_delivers_witness:
  "\<exists>r. ipc_socket_recv (Some ipc_one_socket) 1 True 100 = (Some ipc_one_socket, r, []) \<and> r \<in> {0, -1}"
  by (rule ipc_socket_recv_never_delivers [OF ipc_one_socket_reachable])

text \<open>
  A queue declared with more than 1024 messages overruns its array: when it holds 1024
  messages, the next accepted send is undefined.
\<close>

lemma ipc_queue_send_overflow:
  assumes "slot_get k (im_queues m) = Some q" and "length (mq_messages q) = 1024"
    and "mq_max_messages q > 1024" and "sz \<le> 8192"
  shows "ipc_queue_send (Some m) k p (Some bytes) sz now = Undef"
  using assms by (auto simp: ipc_queue_send_def slot_get_Some MAX_MESSAGE_SIZE_def MAX_QUEUE_MESSAGES_def
      Let_def)

definition ipc_full_queue :: IPCManager where
  "ipc_full_queue = ipc_one_queue\<lparr>im_queues := [\<lparr>mq_queue_id = 1, mq_owner_pid = 10,
     mq_messages = replicate 1024 \<lparr>ms_data = [], ms_size = 0, ms_sender_pid = 1, ms_timestamp = 0\<rparr>,
     mq_max_messages = 2000, mq_total_sent = 1024, mq_total_received = 0\<rparr>]\<rparr>"

lemma ipc_full_queue_overflows:
  "ipc_queue_send (Some ipc_full_queue) 1 1 (Some [5]) 1 0 = Undef"
  by (rule ipc_queue_send_overflow [where q = "im_queues ipc_full_queue ! 0"])
     (simp_all add: ipc_full_queue_def slot_get_Some slot_of_def)

end
