(* ===== verification/Network_Stack.thy ===== *)
theory Network_Stack
  imports Contracts
begin

unbundle bit_operations_syntax

text \<open>
  The network stack of \<open>net/network_stack.c\<close>: sockets and connections (tables that only grow),
  TCP streams (a table with removal), the routing table and the ARP cache, and the traffic
  counters. The buffers of a stream are lists of bytes; \<open>tx_ok\<close> and \<open>rx_ok\<close> say whether the two
  \<open>malloc\<close> calls of \<open>net_tcp_open_stream\<close> succeed. Pointers to data are lists of bytes (\<open>None\<close> is
  \<open>NULL\<close>). Searches return the index of the slot they find.
\<close>

section \<open>State\<close>

definition MAX_NETWORK_CONNECTIONS :: nat where "MAX_NETWORK_CONNECTIONS = 2048"
definition MAX_SOCKETS :: nat where "MAX_SOCKETS = 4096"
definition MAX_ROUTES :: nat where "MAX_ROUTES = 512"
definition MAX_ARP_ENTRIES :: nat where "MAX_ARP_ENTRIES = 256"
definition MAX_TCP_STREAMS :: nat where "MAX_TCP_STREAMS = 1024"

datatype ProtocolType = PROTO_TCP | PROTO_UDP | PROTO_ICMP | PROTO_IGMP

datatype ConnectionState =
  CONN_STATE_CLOSED | CONN_STATE_LISTEN | CONN_STATE_ESTABLISHED | CONN_STATE_CLOSING
  | CONN_STATE_TIME_WAIT

datatype TCPState =
  TCP_STATE_CLOSED | TCP_STATE_LISTEN | TCP_STATE_SYN_SENT | TCP_STATE_SYN_RECV
  | TCP_STATE_ESTABLISHED | TCP_STATE_FIN_WAIT_1 | TCP_STATE_FIN_WAIT_2 | TCP_STATE_CLOSING
  | TCP_STATE_TIME_WAIT

record ConnectionStats =
  cs_ip_address :: u32
  cs_port :: u16
  cs_bytes_sent :: u32
  cs_bytes_received :: u32
  cs_packets_sent :: u32
  cs_packets_received :: u32
  cs_errors :: u32

record Connection =
  cn_connection_id :: u32
  cn_protocol :: ProtocolType
  cn_state :: ConnectionState
  cn_local_ip :: u32
  cn_remote_ip :: u32
  cn_local_port :: u16
  cn_remote_port :: u16
  cn_stats :: ConnectionStats
  cn_created_time :: time_t
  cn_last_activity :: time_t

record TCPStream =
  ts_stream_id :: u32
  ts_state :: TCPState
  ts_sequence_number :: u32
  ts_acknowledgment_number :: u32
  ts_window_size :: u32
  ts_mss :: u32
  ts_cwnd :: u32
  ts_ssthresh :: u32
  ts_rtt_ms :: u32
  ts_retransmit_count :: u32
  ts_tx_buffer :: "u8 list"
  ts_rx_buffer :: "u8 list"
  ts_tx_size :: u32
  ts_rx_size :: u32

record Socket =
  sk_socket_id :: u32
  sk_protocol :: ProtocolType
  sk_state :: ConnectionState
  sk_local_ip :: u32
  sk_local_port :: u16
  sk_backlog :: u32
  sk_pending_connections :: u32

record RouteEntry =
  rt_destination_ip :: u32
  rt_gateway_ip :: u32
  rt_netmask :: u32
  rt_metric :: u32
  rt_interface :: string
  rt_is_active :: bool

record ARPEntry =
  ar_ip_address :: u32
  ar_mac_address :: "u8 list"
  ar_ttl_ms :: u32
  ar_is_valid :: bool

record NetworkStack =
  ns_connections :: "Connection list"
  ns_sockets :: "Socket list"
  ns_tcp_streams :: "TCPStream list"
  ns_routing_table :: "RouteEntry list"
  ns_arp_table :: "ARPEntry list"
  ns_mtu_size :: u32
  ns_total_packets_sent :: u64
  ns_total_packets_received :: u64
  ns_total_bytes_sent :: u64
  ns_total_bytes_received :: u64
  ns_packet_loss_percent :: u32

definition zero_stats :: ConnectionStats where
  "zero_stats = \<lparr>cs_ip_address = 0, cs_port = 0, cs_bytes_sent = 0, cs_bytes_received = 0,
     cs_packets_sent = 0, cs_packets_received = 0, cs_errors = 0\<rparr>"

definition net_stack_init :: "bool \<Rightarrow> u32 \<Rightarrow> NetworkStack option" where
  "net_stack_init malloc_ok mtu_size =
     (if \<not> malloc_ok then None
      else Some \<lparr>ns_connections = [], ns_sockets = [], ns_tcp_streams = [], ns_routing_table = [],
                 ns_arp_table = [], ns_mtu_size = (if mtu_size > 0 then mtu_size else 1500),
                 ns_total_packets_sent = 0, ns_total_packets_received = 0, ns_total_bytes_sent = 0,
                 ns_total_bytes_received = 0, ns_packet_loss_percent = 0\<rparr>)"

text \<open>The cleanup frees the buffers of the live streams, then the stack.\<close>

definition net_stack_cleanup :: "NetworkStack option \<Rightarrow> NetworkStack option \<times> u8 list list" where
  "net_stack_cleanup h = (case h of None \<Rightarrow> (None, [])
     | Some s \<Rightarrow> (None, concat (map (\<lambda>t. [ts_tx_buffer t, ts_rx_buffer t]) (ns_tcp_streams s))))"

section \<open>Searches\<close>

definition net_get_connection :: "NetworkStack option \<Rightarrow> u32 \<Rightarrow> nat option" where
  "net_get_connection h conn_id = read_handle None h (\<lambda>s.
     first_idx (\<lambda>c. cn_connection_id c = conn_id) (ns_connections s))"

definition net_get_tcp_stream :: "NetworkStack option \<Rightarrow> u32 \<Rightarrow> nat option" where
  "net_get_tcp_stream h stream_id = read_handle None h (\<lambda>s.
     first_idx (\<lambda>t. ts_stream_id t = stream_id) (ns_tcp_streams s))"

definition net_get_socket :: "NetworkStack option \<Rightarrow> u32 \<Rightarrow> nat option" where
  "net_get_socket h socket_id = read_handle None h (\<lambda>s.
     first_idx (\<lambda>k. sk_socket_id k = socket_id) (ns_sockets s))"

section \<open>Sockets\<close>

definition net_socket_create ::
    "NetworkStack option \<Rightarrow> ProtocolType \<Rightarrow> u32 \<Rightarrow> u16 \<Rightarrow> NetworkStack option \<times> u32" where
  "net_socket_create h protocol local_ip local_port = with_handle 0 h (\<lambda>s.
     if length (ns_sockets s) \<ge> MAX_SOCKETS then (s, 0)
     else let sid = of_nat (length (ns_sockets s)) + 1;
              socket = \<lparr>sk_socket_id = sid, sk_protocol = protocol, sk_state = CONN_STATE_CLOSED,
                        sk_local_ip = local_ip, sk_local_port = local_port, sk_backlog = 0,
                        sk_pending_connections = 0\<rparr>
          in (s\<lparr>ns_sockets := ns_sockets s @ [socket]\<rparr>, sid))"

definition net_socket_listen ::
    "NetworkStack option \<Rightarrow> u32 \<Rightarrow> u32 \<Rightarrow> NetworkStack option \<times> int" where
  "net_socket_listen h socket_id backlog = with_handle (-1) h (\<lambda>s.
     case net_get_socket (Some s) socket_id of None \<Rightarrow> (s, -1)
     | Some i \<Rightarrow>
         let k = ns_sockets s ! i in
         if sk_state k \<noteq> CONN_STATE_CLOSED then (s, -1)
         else (s\<lparr>ns_sockets := (ns_sockets s)[i := k\<lparr>sk_state := CONN_STATE_LISTEN,
                   sk_backlog := backlog, sk_pending_connections := 0\<rparr>]\<rparr>, 0))"

definition net_socket_connect ::
    "NetworkStack option \<Rightarrow> u32 \<Rightarrow> u32 \<Rightarrow> u16 \<Rightarrow> time_t \<Rightarrow> time_t \<Rightarrow> NetworkStack option \<times> int" where
  "net_socket_connect h socket_id remote_ip remote_port now1 now2 = with_handle (-1) h (\<lambda>s.
     case net_get_socket (Some s) socket_id of None \<Rightarrow> (s, -1)
     | Some i \<Rightarrow>
         let k = ns_sockets s ! i in
         if sk_state k = CONN_STATE_ESTABLISHED then (s, -1)
         else let s1 = s\<lparr>ns_sockets := (ns_sockets s)[i := k\<lparr>sk_state := CONN_STATE_ESTABLISHED\<rparr>]\<rparr> in
         if length (ns_connections s1) < MAX_NETWORK_CONNECTIONS
         then let conn = \<lparr>cn_connection_id = of_nat (length (ns_connections s1)) + 1,
                          cn_protocol = sk_protocol k, cn_state = CONN_STATE_ESTABLISHED,
                          cn_local_ip = sk_local_ip k, cn_remote_ip = remote_ip,
                          cn_local_port = sk_local_port k, cn_remote_port = remote_port,
                          cn_stats = zero_stats, cn_created_time = now1, cn_last_activity = now2\<rparr>
              in (s1\<lparr>ns_connections := ns_connections s1 @ [conn]\<rparr>, 0)
         else (s1, 0))"

definition net_socket_close :: "NetworkStack option \<Rightarrow> u32 \<Rightarrow> NetworkStack option \<times> int" where
  "net_socket_close h socket_id = with_handle (-1) h (\<lambda>s.
     case net_get_socket (Some s) socket_id of None \<Rightarrow> (s, -1)
     | Some i \<Rightarrow>
         (s\<lparr>ns_sockets := (ns_sockets s)[i := (ns_sockets s ! i)\<lparr>sk_state := CONN_STATE_CLOSED,
              sk_backlog := 0, sk_pending_connections := 0\<rparr>]\<rparr>, 0))"

definition net_socket_send ::
    "NetworkStack option \<Rightarrow> u32 \<Rightarrow> u8 list option \<Rightarrow> u32 \<Rightarrow> NetworkStack option \<times> int" where
  "net_socket_send h socket_id data sz = with_handle (-1) h (\<lambda>s.
     if data = None \<or> sz = 0 then (s, -1)
     else case net_get_socket (Some s) socket_id of None \<Rightarrow> (s, -1)
     | Some i \<Rightarrow>
         if sk_state (ns_sockets s ! i) \<noteq> CONN_STATE_ESTABLISHED then (s, -1)
         else if sz > ns_mtu_size s then (s, -1)
         else (s\<lparr>ns_total_packets_sent := ns_total_packets_sent s + 1,
                 ns_total_bytes_sent := ns_total_bytes_sent s + ucast sz\<rparr>, sint sz))"

text \<open>The receive operations fill the caller's buffer with zero bytes.\<close>

definition net_socket_receive ::
    "NetworkStack option \<Rightarrow> u32 \<Rightarrow> bool \<Rightarrow> u32 \<Rightarrow> NetworkStack option \<times> int \<times> u8 list" where
  "net_socket_receive h socket_id buffer sz = with_handle (-1, []) h (\<lambda>s.
     if \<not> buffer \<or> sz = 0 then (s, -1, [])
     else case net_get_socket (Some s) socket_id of None \<Rightarrow> (s, -1, [])
     | Some i \<Rightarrow>
         if sk_state (ns_sockets s ! i) \<noteq> CONN_STATE_ESTABLISHED then (s, -1, [])
         else (s\<lparr>ns_total_packets_received := ns_total_packets_received s + 1,
                 ns_total_bytes_received := ns_total_bytes_received s + ucast sz\<rparr>,
               0, replicate (unat sz) 0))"

section \<open>TCP streams\<close>

definition net_tcp_open_stream ::
    "NetworkStack option \<Rightarrow> u32 \<Rightarrow> u16 \<Rightarrow> u32 \<Rightarrow> u16 \<Rightarrow> bool \<Rightarrow> bool \<Rightarrow> NetworkStack option \<times> u32" where
  "net_tcp_open_stream h local_ip local_port remote_ip remote_port tx_ok rx_ok = with_handle 0 h (\<lambda>s.
     if length (ns_tcp_streams s) \<ge> MAX_TCP_STREAMS then (s, 0)
     else if \<not> tx_ok \<or> \<not> rx_ok then (s, 0)
     else let sid = of_nat (length (ns_tcp_streams s)) + 1;
              stream = \<lparr>ts_stream_id = sid, ts_state = TCP_STATE_ESTABLISHED,
                        ts_sequence_number = 1000, ts_acknowledgment_number = 0,
                        ts_window_size = 65536, ts_mss = 1460, ts_cwnd = 1460, ts_ssthresh = 65536,
                        ts_rtt_ms = 50, ts_retransmit_count = 0,
                        ts_tx_buffer = replicate 8192 0, ts_rx_buffer = replicate 8192 0,
                        ts_tx_size = 8192, ts_rx_size = 8192\<rparr>
          in (s\<lparr>ns_tcp_streams := ns_tcp_streams s @ [stream]\<rparr>, sid))"

text \<open>
  The \<open>memmove\<close> of \<open>net_tcp_close_stream\<close> moves \<open>count - 1\<close> slots down from the slot after the
  closed one, whatever its position \<open>i\<close>: slots \<open>i + 1\<close> to \<open>i + count - 1\<close>. Inside the array this
  moves the live streams behind the closed one (and dead slots, which are not observed); if the
  last of them is slot 1024 or beyond the access is outside the array.
\<close>

definition net_tcp_close_stream ::
    "NetworkStack option \<Rightarrow> u32 \<Rightarrow> (NetworkStack option \<times> int) outcome" where
  "net_tcp_close_stream h stream_id = with_handle_ub (-1) h (\<lambda>s.
     case net_get_tcp_stream (Some s) stream_id of None \<Rightarrow> Done (s, -1)
     | Some i \<Rightarrow>
         if i + length (ns_tcp_streams s) > MAX_TCP_STREAMS then Undef
         else Done (s\<lparr>ns_tcp_streams := remove_at i (ns_tcp_streams s)\<rparr>, 0))"

definition net_tcp_send_data ::
    "NetworkStack option \<Rightarrow> u32 \<Rightarrow> u8 list option \<Rightarrow> u32 \<Rightarrow> (NetworkStack option \<times> int) outcome" where
  "net_tcp_send_data h stream_id data sz = with_handle_ub (-1) h (\<lambda>s.
     case data of None \<Rightarrow> Done (s, -1)
     | Some bytes \<Rightarrow>
     if sz = 0 then Done (s, -1)
     else case net_get_tcp_stream (Some s) stream_id of None \<Rightarrow> Done (s, -1)
     | Some i \<Rightarrow>
         let t = ns_tcp_streams s ! i in
         if ts_state t \<noteq> TCP_STATE_ESTABLISHED then Done (s, -1)
         else if sz > ts_tx_size t then Done (s, -1)
         else if length bytes < unat sz then Undef
         else Done (s\<lparr>ns_tcp_streams := (ns_tcp_streams s)[i := t
                   \<lparr>ts_tx_buffer := take (unat sz) bytes @ drop (unat sz) (ts_tx_buffer t),
                    ts_sequence_number := ts_sequence_number t + sz\<rparr>],
                 ns_total_packets_sent := ns_total_packets_sent s + 1,
                 ns_total_bytes_sent := ns_total_bytes_sent s + ucast sz\<rparr>, sint sz))"

definition net_tcp_receive_data ::
    "NetworkStack option \<Rightarrow> u32 \<Rightarrow> bool \<Rightarrow> u32 \<Rightarrow> NetworkStack option \<times> int \<times> u8 list" where
  "net_tcp_receive_data h stream_id buffer sz = with_handle (-1, []) h (\<lambda>s.
     if \<not> buffer \<or> sz = 0 then (s, -1, [])
     else case net_get_tcp_stream (Some s) stream_id of None \<Rightarrow> (s, -1, [])
     | Some i \<Rightarrow>
         let t = ns_tcp_streams s ! i in
         if ts_state t \<noteq> TCP_STATE_ESTABLISHED then (s, -1, [])
         else (s\<lparr>ns_tcp_streams := (ns_tcp_streams s)[i := t
                   \<lparr>ts_acknowledgment_number := ts_acknowledgment_number t + 1\<rparr>],
                 ns_total_packets_received := ns_total_packets_received s + 1,
                 ns_total_bytes_received := ns_total_bytes_received s + ucast sz\<rparr>,
               sint sz, replicate (unat sz) 0))"

section \<open>Routes\<close>

definition net_add_route ::
    "NetworkStack option \<Rightarrow> u32 \<Rightarrow> u32 \<Rightarrow> u32 \<Rightarrow> u32 \<Rightarrow> string option \<Rightarrow> NetworkStack option \<times> int" where
  "net_add_route h dest_ip gateway_ip netmask metric interface = with_handle (-1) h (\<lambda>s.
     if length (ns_routing_table s) \<ge> MAX_ROUTES then (s, -1)
     else case interface of None \<Rightarrow> (s, -1)
     | Some nm \<Rightarrow>
         let route = \<lparr>rt_destination_ip = dest_ip, rt_gateway_ip = gateway_ip, rt_netmask = netmask,
                      rt_metric = metric, rt_interface = take 15 nm, rt_is_active = True\<rparr>
         in (s\<lparr>ns_routing_table := ns_routing_table s @ [route]\<rparr>, 0))"

definition net_remove_route :: "NetworkStack option \<Rightarrow> u32 \<Rightarrow> NetworkStack option \<times> int" where
  "net_remove_route h dest_ip = with_handle (-1) h (\<lambda>s.
     case first_idx (\<lambda>r. rt_destination_ip r = dest_ip) (ns_routing_table s) of
       None \<Rightarrow> (s, -1)
     | Some i \<Rightarrow> (s\<lparr>ns_routing_table := remove_at i (ns_routing_table s)\<rparr>, 0))"

definition net_find_route :: "NetworkStack option \<Rightarrow> u32 \<Rightarrow> nat option" where
  "net_find_route h dest_ip = read_handle None h (\<lambda>s.
     first_idx (\<lambda>r. dest_ip AND rt_netmask r = rt_destination_ip r AND rt_netmask r)
       (ns_routing_table s))"

section \<open>ARP cache\<close>

definition net_arp_add_entry ::
    "NetworkStack option \<Rightarrow> u32 \<Rightarrow> u8 list option \<Rightarrow> (NetworkStack option \<times> int) outcome" where
  "net_arp_add_entry h ip mac_addr = with_handle_ub (-1) h (\<lambda>s.
     case mac_addr of None \<Rightarrow> Done (s, -1)
     | Some mac \<Rightarrow>
     if length (ns_arp_table s) \<ge> MAX_ARP_ENTRIES then Done (s, -1)
     else if length mac < 6 then Undef
     else case first_idx (\<lambda>e. ar_ip_address e = ip) (ns_arp_table s) of
       Some i \<Rightarrow>
         Done (s\<lparr>ns_arp_table := (ns_arp_table s)[i := (ns_arp_table s ! i)
                   \<lparr>ar_mac_address := take 6 mac, ar_ttl_ms := 600000\<rparr>]\<rparr>, 0)
     | None \<Rightarrow>
         Done (s\<lparr>ns_arp_table := ns_arp_table s @ [\<lparr>ar_ip_address = ip, ar_mac_address = take 6 mac,
                   ar_ttl_ms = 600000, ar_is_valid = True\<rparr>]\<rparr>, 0))"

definition net_arp_resolve :: "NetworkStack option \<Rightarrow> u32 \<Rightarrow> bool \<Rightarrow> int \<times> u8 list" where
  "net_arp_resolve h ip mac_addr = read_handle (-1, []) h (\<lambda>s.
     if \<not> mac_addr then (-1, [])
     else case first_idx (\<lambda>e. ar_ip_address e = ip \<and> ar_is_valid e) (ns_arp_table s) of
       None \<Rightarrow> (-1, [])
     | Some i \<Rightarrow> (0, ar_mac_address (ns_arp_table s ! i)))"

definition net_arp_purge_expired :: "NetworkStack option \<Rightarrow> NetworkStack option \<times> int" where
  "net_arp_purge_expired h = with_handle (-1) h (\<lambda>s.
     (s\<lparr>ns_arp_table := compact (\<lambda>e. ar_ttl_ms e > 0) (\<lambda>e. e\<lparr>ar_ttl_ms := ar_ttl_ms e - 1000\<rparr>)
          (ns_arp_table s)\<rparr>, 0))"

section \<open>Counters\<close>

definition net_get_total_packets_sent :: "NetworkStack option \<Rightarrow> u64" where
  "net_get_total_packets_sent h = read_handle 0 h ns_total_packets_sent"

definition net_get_total_packets_received :: "NetworkStack option \<Rightarrow> u64" where
  "net_get_total_packets_received h = read_handle 0 h ns_total_packets_received"

definition net_get_total_bytes_sent :: "NetworkStack option \<Rightarrow> u64" where
  "net_get_total_bytes_sent h = read_handle 0 h ns_total_bytes_sent"

definition net_get_total_bytes_received :: "NetworkStack option \<Rightarrow> u64" where
  "net_get_total_bytes_received h = read_handle 0 h ns_total_bytes_received"

section \<open>The ARP cache is a cache whose entries expire\<close>

definition arp_pair :: "ARPEntry \<Rightarrow> u32 \<times> u8 list \<times> nat" where
  "arp_pair e = (ar_ip_address e, ar_mac_address e, unat (ar_ttl_ms e) div 1000)"

definition arp_entry :: "NetworkStack \<Rightarrow> u32 \<Rightarrow> (u8 list \<times> nat) option" where
  "arp_entry s = map_of (map arp_pair (ns_arp_table s))"

definition arp_entry_ok :: "ARPEntry \<Rightarrow> bool" where
  "arp_entry_ok e \<longleftrightarrow> ar_is_valid e \<and> length (ar_mac_address e) = 6 \<and>
     unat (ar_ttl_ms e) mod 1000 = 0 \<and> unat (ar_ttl_ms e) \<le> 600000"

definition arp_ok :: "NetworkStack \<Rightarrow> bool" where
  "arp_ok s \<longleftrightarrow> distinct (map ar_ip_address (ns_arp_table s)) \<and> list_all arp_entry_ok (ns_arp_table s)"

definition arp_add :: "NetworkStack \<Rightarrow> u32 \<Rightarrow> u8 list \<Rightarrow> NetworkStack option" where
  "arp_add s ip mac =
     (if length mac \<noteq> 6 then None
      else case net_arp_add_entry (Some s) ip (Some mac) of
             Undef \<Rightarrow> None
           | Done (h, r) \<Rightarrow> if r = 0 then h else None)"

definition arp_tick :: "NetworkStack \<Rightarrow> NetworkStack" where
  "arp_tick s = the (fst (net_arp_purge_expired (Some s)))"

lemma arp_fst: "map fst (map arp_pair xs) = map ar_ip_address xs"
  by (simp add: arp_pair_def comp_def)

lemma arp_add_table:
  assumes "arp_add s ip mac = Some s'"
  shows "length mac = 6 \<and> ns_arp_table s' =
    (case first_idx (\<lambda>e. ar_ip_address e = ip) (ns_arp_table s) of
       Some i \<Rightarrow> (ns_arp_table s)[i := (ns_arp_table s ! i)\<lparr>ar_mac_address := mac, ar_ttl_ms := 600000\<rparr>]
     | None \<Rightarrow> ns_arp_table s @ [\<lparr>ar_ip_address = ip, ar_mac_address = mac, ar_ttl_ms = 600000, ar_is_valid = True\<rparr>])"
  using assms
  by (auto simp: arp_add_def net_arp_add_entry_def with_handle_ub_def
      split: if_splits outcome.splits option.splits)

lemma arp_add_entry:
  assumes "arp_ok s" and "arp_add s ip mac = Some s'"
  shows "arp_entry s' = (arp_entry s)(ip \<mapsto> (mac, 600)) \<and> arp_ok s'"
proof (cases "first_idx (\<lambda>e. ar_ip_address e = ip) (ns_arp_table s)")
  case None
  note t = arp_add_table [OF assms(2)]
  from None have "ip \<notin> set (map ar_ip_address (ns_arp_table s))" by (auto simp: first_idx_None)
  moreover from this have "map_of (map arp_pair (ns_arp_table s)) ip = None"
    by (auto simp: map_of_eq_None_iff arp_pair_def)
  ultimately show ?thesis using None t assms(1) map_of_snoc [of "map arp_pair (ns_arp_table s)" ip "(mac, 600)"]
    by (auto simp: arp_entry_def arp_pair_def arp_ok_def arp_entry_ok_def)
next
  case (Some i)
  let ?xs = "ns_arp_table s" and ?e = "(ns_arp_table s ! i)\<lparr>ar_mac_address := mac, ar_ttl_ms := 600000\<rparr>"
  note i = first_idx_SomeD(1,2) [OF Some]
  have t: "length mac = 6" "ns_arp_table s' = ?xs[i := ?e]" using arp_add_table [OF assms(2)] Some by auto
  have "map ar_ip_address (?xs[i := ?e]) = map ar_ip_address ?xs"
    using i(1) by (simp add: map_update list_update_same_conv)
  moreover have "arp_entry_ok ?e"
    using assms(1) i(1) t(1) list_all_nth [of arp_entry_ok ?xs i] by (simp add: arp_ok_def arp_entry_ok_def)
  moreover have "map_of (map arp_pair (?xs[i := ?e])) = (map_of (map arp_pair ?xs))(ip \<mapsto> (mac, 600))"
    using map_of_update_nth [of "map arp_pair ?xs" i ip "(mac, 600)"] assms(1) i
    by (simp add: map_update arp_pair_def comp_def arp_ok_def)
  ultimately show ?thesis using t assms(1) by (simp add: arp_entry_def arp_ok_def list_all_update)
qed

lemma arp_ttl_step:
  assumes "arp_entry_ok e" and "ar_ttl_ms e > 0"
  shows "arp_entry_ok (e\<lparr>ar_ttl_ms := ar_ttl_ms e - 1000\<rparr>)"
    and "Suc (unat (ar_ttl_ms e - 1000) div 1000) = unat (ar_ttl_ms e) div 1000"
proof -
  let ?t = "unat (ar_ttl_ms e)"
  have "0 < ?t" using assms(2) by (simp add: word_gt_0 unat_gt_0)
  with assms(1) have ge: "1000 \<le> ?t" unfolding arp_entry_ok_def
    by (metis mod_less not_less not_gr_zero)
  then have "(1000 :: u32) \<le> ar_ttl_ms e" by (simp add: word_le_nat_alt)
  then have sub: "unat (ar_ttl_ms e - 1000) = ?t - 1000" by (simp add: unat_sub)
  show "arp_entry_ok (e\<lparr>ar_ttl_ms := ar_ttl_ms e - 1000\<rparr>)"
    using assms(1) ge sub by (auto simp: arp_entry_ok_def mod_if [of ?t])
  show "Suc (unat (ar_ttl_ms e - 1000) div 1000) = ?t div 1000"
    using ge sub by (simp add: div_if [of ?t])
qed

lemma arp_purge_entries:
  assumes "list_all arp_entry_ok xs" and "distinct (map ar_ip_address xs)"
  shows "map_of (map arp_pair (map (\<lambda>e. e\<lparr>ar_ttl_ms := ar_ttl_ms e - 1000\<rparr>) (filter (\<lambda>e. ar_ttl_ms e > 0) xs)))
    = spec_tick (map_of (map arp_pair xs))"
  using assms
proof (induction xs)
  case Nil
  then show ?case by (simp add: spec_tick_def fun_eq_iff)
next
  case (Cons e xs)
  then have none: "map_of (map arp_pair xs) (ar_ip_address e) = None"
    by (auto simp: map_of_eq_None_iff arp_pair_def)
  have pair: "arp_pair e = (ar_ip_address e, ar_mac_address e, unat (ar_ttl_ms e) div 1000)"
    "arp_pair (e\<lparr>ar_ttl_ms := t\<rparr>) = (ar_ip_address e, ar_mac_address e, unat t div 1000)" for t
    by (simp_all add: arp_pair_def)
  show ?case
  proof (cases "ar_ttl_ms e > 0")
    case True
    with Cons arp_ttl_step [of e] show ?thesis
      by (auto simp: fun_eq_iff spec_tick_def pair split: nat.split)
  next
    case False
    then have "ar_ttl_ms e = 0" by (simp add: word_gt_0)
    with Cons none show ?thesis
      by (auto simp: fun_eq_iff spec_tick_def pair)
  qed
qed

lemma arp_tick_table: "ns_arp_table (arp_tick s) =
    map (\<lambda>e. e\<lparr>ar_ttl_ms := ar_ttl_ms e - 1000\<rparr>) (filter (\<lambda>e. ar_ttl_ms e > 0) (ns_arp_table s))"
  by (simp add: arp_tick_def net_arp_purge_expired_def compact_eq)

lemma arp_tick_entry:
  assumes "arp_ok s"
  shows "arp_entry (arp_tick s) = spec_tick (arp_entry s) \<and> arp_ok (arp_tick s)"
proof -
  have "distinct (map ar_ip_address (filter (\<lambda>e. ar_ttl_ms e > 0) (ns_arp_table s)))"
    using assms by (simp add: arp_ok_def distinct_map_filter)
  with assms arp_purge_entries [of "ns_arp_table s"] show ?thesis
    by (auto simp: arp_entry_def arp_ok_def arp_tick_table comp_def list_all_iff arp_ttl_step)
qed

interpretation arp: expiring_cache arp_entry arp_add arp_tick 600 arp_ok
  by unfold_locales (use arp_add_entry arp_tick_entry in blast)+

lemma arp_resolve_entry:
  assumes "arp_ok s"
  shows "net_arp_resolve (Some s) ip True =
    (case arp_entry s ip of None \<Rightarrow> (-1, []) | Some (mac, n) \<Rightarrow> (0, mac))"
proof -
  have "first_idx (\<lambda>e. ar_ip_address e = ip \<and> ar_is_valid e) xs = first_idx (\<lambda>e. ar_ip_address e = ip) xs"
    if "list_all arp_entry_ok xs" for xs
    using that by (induction xs) (auto simp: arp_entry_ok_def)
  with assms first_idx_map_of [of "\<lambda>e. (ar_mac_address e, unat (ar_ttl_ms e) div 1000)" "ns_arp_table s"
      ar_ip_address ip, symmetric]
  show ?thesis
    by (auto simp: net_arp_resolve_def arp_entry_def arp_pair_def [abs_def] arp_ok_def split: option.splits)
qed

section \<open>Calls and reachable states\<close>

datatype net_call =
  SocketCreate ProtocolType u32 u16 | SocketListen u32 u32 | SocketConnect u32 u32 u16 time_t time_t
  | SocketClose u32 | SocketSend u32 "u8 list option" u32 | SocketReceive u32 bool u32
  | TcpOpen u32 u16 u32 u16 bool bool | TcpClose u32 | TcpSend u32 "u8 list option" u32
  | TcpReceive u32 bool u32
  | AddRoute u32 u32 u32 u32 "string option" | RemoveRoute u32
  | ArpAdd u32 "u8 list option" | ArpPurge

definition lift_int :: "NetworkStack option \<times> int \<Rightarrow> (NetworkStack \<times> int) outcome" where
  "lift_int x = Done (the (fst x), snd x)"

definition lift_ub :: "(NetworkStack option \<times> int) outcome \<Rightarrow> (NetworkStack \<times> int) outcome" where
  "lift_ub x = (case x of Undef \<Rightarrow> Undef | Done (h, r) \<Rightarrow> Done (the h, r))"

fun net_apply :: "net_call \<Rightarrow> NetworkStack \<Rightarrow> (NetworkStack \<times> int) outcome" where
  "net_apply (SocketCreate p ip port) s =
     (case net_socket_create (Some s) p ip port of (h, k) \<Rightarrow> Done (the h, uint k))"
| "net_apply (SocketListen k b) s = lift_int (net_socket_listen (Some s) k b)"
| "net_apply (SocketConnect k ip port t1 t2) s = lift_int (net_socket_connect (Some s) k ip port t1 t2)"
| "net_apply (SocketClose k) s = lift_int (net_socket_close (Some s) k)"
| "net_apply (SocketSend k d sz) s = lift_int (net_socket_send (Some s) k d sz)"
| "net_apply (SocketReceive k b sz) s =
     (case net_socket_receive (Some s) k b sz of (h, r, _) \<Rightarrow> Done (the h, r))"
| "net_apply (TcpOpen a b c d tx rx) s =
     (case net_tcp_open_stream (Some s) a b c d tx rx of (h, k) \<Rightarrow> Done (the h, uint k))"
| "net_apply (TcpClose k) s = lift_ub (net_tcp_close_stream (Some s) k)"
| "net_apply (TcpSend k d sz) s = lift_ub (net_tcp_send_data (Some s) k d sz)"
| "net_apply (TcpReceive k b sz) s =
     (case net_tcp_receive_data (Some s) k b sz of (h, r, _) \<Rightarrow> Done (the h, r))"
| "net_apply (AddRoute d g n mt i) s = lift_int (net_add_route (Some s) d g n mt i)"
| "net_apply (RemoveRoute d) s = lift_int (net_remove_route (Some s) d)"
| "net_apply (ArpAdd ip mac) s = lift_ub (net_arp_add_entry (Some s) ip mac)"
| "net_apply ArpPurge s = lift_int (net_arp_purge_expired (Some s))"

definition net_step :: "NetworkStack \<Rightarrow> NetworkStack \<Rightarrow> bool" where
  "net_step s t \<longleftrightarrow> (\<exists>c r. net_apply c s = Done (t, r))"

abbreviation net_reachable :: "NetworkStack \<Rightarrow> bool" where
  "net_reachable \<equiv> reach (\<lambda>s. \<exists>mtu. net_stack_init True mtu = Some s) net_step"

definition stream_ok :: "TCPStream \<Rightarrow> bool" where
  "stream_ok t \<longleftrightarrow> ts_state t = TCP_STATE_ESTABLISHED \<and> ts_tx_size t = 8192 \<and> length (ts_tx_buffer t) = 8192"

definition net_inv :: "NetworkStack \<Rightarrow> bool" where
  "net_inv s \<longleftrightarrow>
     dense_ids sk_socket_id (ns_sockets s) \<and> length (ns_sockets s) \<le> MAX_SOCKETS \<and>
     dense_ids cn_connection_id (ns_connections s) \<and> length (ns_connections s) \<le> MAX_NETWORK_CONNECTIONS \<and>
     list_all stream_ok (ns_tcp_streams s) \<and> length (ns_tcp_streams s) \<le> MAX_TCP_STREAMS \<and>
     length (ns_routing_table s) \<le> MAX_ROUTES \<and>
     arp_ok s \<and> length (ns_arp_table s) \<le> MAX_ARP_ENTRIES"

lemmas lift_simps = lift_int_def lift_ub_def with_handle_Some with_handle_ub_def Let_def

lemma net_arp_add_inv:
  assumes "net_inv s" and "net_arp_add_entry (Some s) ip (Some mac) = Done (Some t, r)"
  shows "net_inv t"
proof (cases "t = s")
  case False
  with assms(2) have "r = 0" and len: "\<not> length mac < 6" and room: "length (ns_arp_table s) < MAX_ARP_ENTRIES"
    by (auto simp: net_arp_add_entry_def split: if_splits option.splits)
  then have "net_arp_add_entry (Some s) ip (Some (take 6 mac)) = Done (Some t, 0)"
    using assms(2) by (auto simp: net_arp_add_entry_def split: if_splits option.splits)
  with len have add: "arp_add s ip (take 6 mac) = Some t" by (simp add: arp_add_def)
  with assms(1) have "arp_ok t" using arp_add_entry [OF _ add] by (simp add: net_inv_def)
  moreover have "length (ns_arp_table t) \<le> MAX_ARP_ENTRIES"
    using arp_add_table [OF add] room by (auto split: option.splits)
  moreover have "ns_sockets t = ns_sockets s" "ns_connections t = ns_connections s"
    "ns_tcp_streams t = ns_tcp_streams s" "ns_routing_table t = ns_routing_table s"
    using assms(2) by (auto simp: net_arp_add_entry_def split: if_splits option.splits)
  ultimately show ?thesis using assms(1) by (simp add: net_inv_def)
qed (use assms in simp)

lemma net_inv_step: "net_apply c s = Done (t, r) \<Longrightarrow> net_inv s \<Longrightarrow> net_inv t"
proof (cases c)
  case (SocketCreate p ip port)
  assume "net_apply c s = Done (t, r)" "net_inv s"
  with SocketCreate show ?thesis
    by (auto simp: net_socket_create_def lift_simps net_inv_def dense_ids_snoc arp_ok_def split: if_splits)
next
  case (SocketConnect k ip port t1 t2)
  assume "net_apply c s = Done (t, r)" "net_inv s"
  with SocketConnect show ?thesis
    by (auto simp: net_socket_connect_def lift_simps net_inv_def dense_ids_snoc arp_ok_def dense_ids_update
        split: if_splits option.splits)
next
  case (TcpOpen a b c' d tx rx)
  assume "net_apply c s = Done (t, r)" "net_inv s"
  with TcpOpen show ?thesis
    by (auto simp: net_tcp_open_stream_def lift_simps net_inv_def arp_ok_def stream_ok_def split: if_splits)
next
  case (TcpClose k)
  assume "net_apply c s = Done (t, r)" "net_inv s"
  with TcpClose show ?thesis
    by (auto simp: net_tcp_close_stream_def lift_simps net_inv_def arp_ok_def list_all_remove_at
        intro!: order.trans [OF length_remove_at_le] split: if_splits option.splits)
next
  case (TcpSend k d sz)
  assume a: "net_apply c s = Done (t, r)" "net_inv s"
  have ok: "stream_ok (ns_tcp_streams s ! i)" if "net_get_tcp_stream (Some s) k = Some i" for i
    using that a(2) by (auto simp: net_get_tcp_stream_def net_inv_def dest: first_idx_SomeD(1) list_all_nth)
  from a TcpSend ok show ?thesis
    by (auto simp: net_tcp_send_data_def lift_simps net_inv_def arp_ok_def stream_ok_def word_less_nat_alt
        intro!: list_all_update split: if_splits option.splits)
next
  case (TcpReceive k b sz)
  assume a: "net_apply c s = Done (t, r)" "net_inv s"
  have ok: "stream_ok (ns_tcp_streams s ! i)" if "net_get_tcp_stream (Some s) k = Some i" for i
    using that a(2) by (auto simp: net_get_tcp_stream_def net_inv_def dest: first_idx_SomeD(1) list_all_nth)
  from a TcpReceive ok show ?thesis
    by (auto simp: net_tcp_receive_data_def lift_simps net_inv_def arp_ok_def stream_ok_def
        intro!: list_all_update split: if_splits option.splits)
next
  case (ArpAdd ip mac)
  assume a: "net_apply c s = Done (t, r)" "net_inv s"
  show ?thesis
  proof (cases mac)
    case None
    with a ArpAdd show ?thesis by (simp add: net_arp_add_entry_def lift_simps)
  next
    case (Some x)
    with a(1) ArpAdd have "net_arp_add_entry (Some s) ip (Some x) = Done (Some t, r)"
      by (auto simp: lift_ub_def net_arp_add_entry_def with_handle_ub_def
          split: outcome.splits if_splits option.splits)
    then show ?thesis by (rule net_arp_add_inv [OF a(2)])
  qed
next
  case ArpPurge
  assume a: "net_apply c s = Done (t, r)" "net_inv s"
  with ArpPurge have t: "t = arp_tick s" by (simp add: lift_int_def arp_tick_def)
  moreover have "length (ns_arp_table (arp_tick s)) \<le> length (ns_arp_table s)" by (simp add: arp_tick_table)
  moreover have "ns_sockets (arp_tick s) = ns_sockets s" "ns_connections (arp_tick s) = ns_connections s"
    "ns_tcp_streams (arp_tick s) = ns_tcp_streams s" "ns_routing_table (arp_tick s) = ns_routing_table s"
    by (simp_all add: arp_tick_def net_arp_purge_expired_def)
  ultimately show ?thesis using a(2) arp_tick_entry [of s] by (simp add: net_inv_def)
qed (auto simp: net_socket_listen_def net_socket_close_def net_socket_send_def net_socket_receive_def
      net_add_route_def net_remove_route_def lift_simps net_inv_def arp_ok_def dense_ids_update
      intro: order.trans [OF length_remove_at_le] split: if_splits option.splits)

interpretation net: invariant_system "\<lambda>s. \<exists>mtu. net_stack_init True mtu = Some s" net_step net_inv
proof
  show "\<exists>mtu. net_stack_init True mtu = Some s \<Longrightarrow> net_inv s" for s
    by (auto simp: net_stack_init_def net_inv_def arp_ok_def)
  show "net_step s t \<Longrightarrow> net_inv s \<Longrightarrow> net_inv t" for s t
    by (auto simp: net_step_def intro: net_inv_step)
qed

section \<open>Sockets and connections by identifier\<close>

definition net_socket_table_create ::
    "NetworkStack \<Rightarrow> ProtocolType \<times> u32 \<times> u16 \<Rightarrow> NetworkStack \<times> u32" where
  "net_socket_table_create s a =
     (case a of (p, ip, port) \<Rightarrow> (case net_socket_create (Some s) p ip port of (h, k) \<Rightarrow> (the h, k)))"

interpretation net_socket_ids: slot_table net_socket_table_create ns_sockets MAX_SOCKETS
  by unfold_locales
     (auto simp: net_socket_table_create_def net_socket_create_def lift_simps MAX_SOCKETS_def
       split: if_splits)

text \<open>In a reachable state the linear searches are direct accesses.\<close>

lemma net_get_socket_slot:
  assumes "net_inv s"
  shows "net_get_socket (Some s) k = slot_of k (ns_sockets s)"
    and "net_get_connection (Some s) k = slot_of k (ns_connections s)"
  using assms dense_first_idx [of sk_socket_id "ns_sockets s" k]
    dense_first_idx [of cn_connection_id "ns_connections s" k]
  by (auto simp: net_get_socket_def net_get_connection_def net_inv_def MAX_SOCKETS_def
      MAX_NETWORK_CONNECTIONS_def)

section \<open>Traffic accounting\<close>

fun net_run :: "NetworkStack \<Rightarrow> net_call list \<Rightarrow> (NetworkStack \<times> (net_call \<times> int) list) outcome" where
  "net_run s [] = Done (s, [])"
| "net_run s (c # cs) = (case net_apply c s of
     Undef \<Rightarrow> Undef
   | Done (t, r) \<Rightarrow> (case net_run t cs of Undef \<Rightarrow> Undef | Done (u, tr) \<Rightarrow> Done (u, (c, r) # tr)))"

text \<open>The bytes a call reports as sent.\<close>

fun sent_bytes :: "net_call \<times> int \<Rightarrow> int" where
  "sent_bytes (SocketSend k d sz, r) = max r 0"
| "sent_bytes (TcpSend k d sz, r) = max r 0"
| "sent_bytes _ = 0"

definition sent_packets :: "(net_call \<times> int) list \<Rightarrow> nat" where
  "sent_packets tr = length (filter (\<lambda>x. sent_bytes x > 0) tr)"

lemma net_apply_sent:
  assumes "net_apply c s = Done (t, r)" and "net_inv s" and "ns_mtu_size s < 2147483648"
  shows "ns_total_bytes_sent t = ns_total_bytes_sent s + of_int (sent_bytes (c, r)) \<and>
    ns_total_packets_sent t = ns_total_packets_sent s + (if sent_bytes (c, r) > 0 then 1 else 0) \<and>
    ns_mtu_size t = ns_mtu_size s"
proof -
  have pos: "sint sz = uint sz \<and> 0 < uint sz \<and> (scast sz :: u64) = ucast sz"
    if "sz < 2147483648" "sz \<noteq> 0" for sz :: u32
  proof -
    have "sint sz = uint sz" using sint_small that(1) .
    moreover from this have "(scast sz :: u64) = ucast sz" by (metis of_int_sint of_int_uint)
    ultimately show ?thesis using that(2) uint_nonnegative [of sz] uint_0_iff [of sz] by linarith
  qed
  show ?thesis
  proof (cases c)
    case (SocketSend k d sz)
    with assms pos [of sz] show ?thesis
      by (auto simp: net_socket_send_def lift_simps split: if_splits option.splits)
  next
    case (TcpSend k d sz)
    have "sz < 2147483648" if "net_get_tcp_stream (Some s) k = Some i" "\<not> ts_tx_size (ns_tcp_streams s ! i) < sz" for i
    proof -
      have "stream_ok (ns_tcp_streams s ! i)"
        using that(1) assms(2)
        by (auto simp: net_get_tcp_stream_def net_inv_def dest: first_idx_SomeD(1) list_all_nth)
      with that(2) show ?thesis by (simp add: stream_ok_def not_less word_less_nat_alt word_le_nat_alt)
    qed
    with assms TcpSend pos [of sz] show ?thesis
      by (auto simp: net_tcp_send_data_def lift_simps split: if_splits option.splits)
  qed (use assms in \<open>auto simp: net_socket_create_def net_socket_listen_def net_socket_connect_def
      net_socket_close_def net_socket_receive_def net_tcp_open_stream_def net_tcp_close_stream_def
      net_tcp_receive_data_def net_add_route_def net_remove_route_def net_arp_add_entry_def
      net_arp_purge_expired_def lift_simps split: if_splits option.splits\<close>)
qed

lemma net_run_sent:
  "net_run s cs = Done (t, tr) \<Longrightarrow> net_inv s \<Longrightarrow> ns_mtu_size s < 2147483648 \<Longrightarrow>
   ns_total_bytes_sent t = ns_total_bytes_sent s + of_int (sum_list (map sent_bytes tr)) \<and>
   ns_total_packets_sent t = ns_total_packets_sent s + of_nat (sent_packets tr)"
proof (induction cs arbitrary: s tr)
  case Nil
  then show ?case by (simp add: sent_packets_def)
next
  case (Cons c cs)
  then obtain u r tr' where 1: "net_apply c s = Done (u, r)" "net_run u cs = Done (t, tr')" "tr = (c, r) # tr'"
    by (auto split: outcome.splits prod.splits)
  from net_apply_sent [OF 1(1) Cons.prems(2,3)] net_inv_step [OF 1(1) Cons.prems(2)] Cons.IH [OF 1(2)]
    Cons.prems(3) 1(3)
  show ?case by (simp add: sent_packets_def)
qed

section \<open>Routes\<close>

definition route_matches :: "u32 \<Rightarrow> RouteEntry \<Rightarrow> bool" where
  "route_matches ip r \<longleftrightarrow> ip AND rt_netmask r = rt_destination_ip r AND rt_netmask r"

definition route_for :: "NetworkStack \<Rightarrow> u32 \<Rightarrow> RouteEntry option" where
  "route_for s ip = map_option (\<lambda>i. ns_routing_table s ! i) (net_find_route (Some s) ip)"

lemma route_for_find: "route_for s ip = find (route_matches ip) (ns_routing_table s)"
  by (simp add: route_for_def net_find_route_def route_matches_def [abs_def] first_idx_find)

section \<open>A series of opened streams\<close>

primrec net_opened :: "nat \<Rightarrow> NetworkStack" where
  "net_opened 0 = the (net_stack_init True 1500)"
| "net_opened (Suc n) = the (fst (net_tcp_open_stream (Some (net_opened n)) 1 80 2 80 True True))"

lemma net_opened_streams:
  "n \<le> MAX_TCP_STREAMS \<Longrightarrow>
   length (ns_tcp_streams (net_opened n)) = n \<and> dense_ids ts_stream_id (ns_tcp_streams (net_opened n))"
proof (induction n)
  case 0
  then show ?case by (simp add: net_stack_init_def)
next
  case (Suc n)
  then show ?case by (auto simp: net_tcp_open_stream_def Let_def dense_ids_snoc)
qed

section \<open>Properties\<close>

definition net_start :: NetworkStack where "net_start = the (net_stack_init True 1500)"

lemma net_start_reachable: "net_reachable net_start"
  by (rule reach_init) (auto simp: net_start_def net_stack_init_def)

text \<open>
  Lifetime of ARP entries: after a successful \<open>net_arp_add_entry\<close> in a reachable state,
  \<open>net_arp_resolve\<close> gives the address for exactly 600 calls of \<open>net_arp_purge_expired\<close> and fails
  from the 601st on, and the addition does not change how any other address resolves, at any
  time.
\<close>

lemma net_arp_lifetime:
  assumes "net_reachable s" and "arp_add s ip mac = Some s'"
  shows "net_arp_resolve (Some ((arp_tick ^^ n) s')) ip True = (if n \<le> 600 then (0, mac) else (-1, [])) \<and>
    (\<forall>jp. jp \<noteq> ip \<longrightarrow> net_arp_resolve (Some ((arp_tick ^^ n) s')) jp True =
                      net_arp_resolve (Some ((arp_tick ^^ n) s)) jp True)"
proof -
  have s: "arp_ok s" using net.inv_reachable [OF assms(1)] by (simp add: net_inv_def)
  have ok: "arp_ok ((arp_tick ^^ n) s)" "arp_ok ((arp_tick ^^ n) s')"
    using arp.ticks [OF s] arp.ticks arp_add_entry [OF s assms(2)] by blast+
  show ?thesis
    using arp.lifetime [OF s assms(2), of n] arp_resolve_entry [OF ok(1)] arp_resolve_entry [OF ok(2)] by auto
qed

lemma net_arp_lifetime_witness:
  "net_arp_resolve (Some ((arp_tick ^^ 600) (the (arp_add net_start 167772161 [1, 2, 3, 4, 5, 6])))) 167772161 True
     = (0, [1, 2, 3, 4, 5, 6]) \<and>
   net_arp_resolve (Some ((arp_tick ^^ 601) (the (arp_add net_start 167772161 [1, 2, 3, 4, 5, 6])))) 167772161 True
     = (-1, [])"
proof -
  have "arp_add net_start 167772161 [1, 2, 3, 4, 5, 6] \<noteq> None"
    by (simp add: arp_add_def net_arp_add_entry_def net_start_def net_stack_init_def MAX_ARP_ENTRIES_def
        with_handle_ub_def)
  then obtain s' where "arp_add net_start 167772161 [1, 2, 3, 4, 5, 6] = Some s'" by blast
  with net_arp_lifetime [OF net_start_reachable this, of 600] net_arp_lifetime [OF net_start_reachable this, of 601]
  show ?thesis by simp
qed

text \<open>
  Closing a TCP stream accesses memory outside the stream table exactly when the
  closed stream is late enough in the table: with \<open>n\<close> streams opened one after the other,
  \<open>net_tcp_close_stream\<close> of stream \<open>k\<close> is undefined if and only if \<open>k - 1 + n > 1024\<close>, and otherwise
  it succeeds and leaves \<open>n - 1\<close> streams.
\<close>

lemma net_tcp_close_overrun:
  assumes "n \<le> 1024" and "1 \<le> unat k" and "unat k \<le> n"
  shows "(net_tcp_close_stream (Some (net_opened n)) k = Undef \<longleftrightarrow> 1024 < unat k - 1 + n) \<and>
    (unat k - 1 + n \<le> 1024 \<longrightarrow>
      (\<exists>s'. net_tcp_close_stream (Some (net_opened n)) k = Done (Some s', 0) \<and>
            length (ns_tcp_streams s') = n - 1))"
proof -
  let ?xs = "ns_tcp_streams (net_opened n)"
  have len: "length ?xs = n" and dense: "dense_ids ts_stream_id ?xs"
    using net_opened_streams [of n] assms(1) by (simp_all add: MAX_TCP_STREAMS_def)
  have "net_get_tcp_stream (Some (net_opened n)) k = slot_of k ?xs"
    using dense_first_idx [OF dense] len assms(1) by (simp add: net_get_tcp_stream_def)
  also have "slot_of k ?xs = Some (unat k - 1)" using assms len by (simp add: slot_of_Some)
  finally show ?thesis
    using len assms by (auto simp: net_tcp_close_stream_def MAX_TCP_STREAMS_def length_remove_at)
qed

lemma net_tcp_close_overrun_witness:
  "net_tcp_close_stream (Some (net_opened 600)) 500 = Undef \<and>
   net_tcp_close_stream (Some (net_opened 2)) 1 \<noteq> Undef"
  using net_tcp_close_overrun [of 600 500] net_tcp_close_overrun [of 2 1] by simp

text \<open>
  Traffic accounting: over any history of calls to the stack from a reachable state
  with an MTU below 2^31, the total of bytes sent grows by exactly the sum of the sizes the send
  operations returned, and the total of packets by the number of sends that succeeded (both
  modulo 2^64).
\<close>

lemma net_traffic_accounting:
  assumes "net_reachable s" and "ns_mtu_size s < 2147483648" and "net_run s calls = Done (t, trace)"
  shows "ns_total_bytes_sent t = ns_total_bytes_sent s + of_int (sum_list (map sent_bytes trace)) \<and>
    ns_total_packets_sent t = ns_total_packets_sent s + of_nat (sent_packets trace)"
  by (rule net_run_sent [OF assms(3) net.inv_reachable [OF assms(1)] assms(2)])

lemma net_traffic_accounting_witness:
  "\<exists>t trace. net_run net_start [SocketCreate PROTO_TCP 1 80, SocketSend 1 (Some [1, 2]) 2,
      SocketConnect 1 2 90 5 5, SocketSend 1 (Some [1, 2]) 2] = Done (t, trace) \<and>
    map snd trace = [1, -1, 0, 2] \<and> ns_total_bytes_sent t = 2"
proof -
  let ?cs = "[SocketCreate PROTO_TCP 1 80, SocketSend 1 (Some [1, 2]) 2, SocketConnect 1 2 90 5 5,
    SocketSend 1 (Some [1, 2]) 2]"
  obtain t where t: "net_run net_start ?cs = Done (t, zip ?cs [1, -1, 0, 2])"
    by (simp add: net_start_def net_stack_init_def net_socket_create_def net_socket_send_def
        net_socket_connect_def net_get_socket_def lift_simps MAX_SOCKETS_def MAX_NETWORK_CONNECTIONS_def
        word_less_nat_alt)
  moreover have "ns_total_bytes_sent net_start = 0" "ns_mtu_size net_start < 2147483648"
    by (simp_all add: net_start_def net_stack_init_def)
  ultimately show ?thesis using net_traffic_accounting [OF net_start_reachable _ t] by simp
qed

definition make_route :: "u32 \<Rightarrow> u32 \<Rightarrow> u32 \<Rightarrow> u32 \<Rightarrow> string \<Rightarrow> RouteEntry" where
  "make_route d g netmask metric nm = \<lparr>rt_destination_ip = d, rt_gateway_ip = g, rt_netmask = netmask,
     rt_metric = metric, rt_interface = take 15 nm, rt_is_active = True\<rparr>"

text \<open>
  A new route never takes traffic from an older one: after \<open>net_add_route\<close> succeeds,
  every address that had a route keeps exactly that route, whatever the new route's mask and
  metric; an address without a route gets the new one if the new destination matches it under
  the new mask.
\<close>

lemma net_routes_first_match:
  assumes "length (ns_routing_table s) < 512"
  shows "\<exists>s'. net_add_route (Some s) d g netmask metric (Some nm) = (Some s', 0) \<and>
    (\<forall>ip. route_for s' ip = (case route_for s ip of Some old \<Rightarrow> Some old
       | None \<Rightarrow> if ip AND netmask = d AND netmask then Some (make_route d g netmask metric nm) else None))"
  using assms
  by (auto simp: net_add_route_def with_handle_Some route_for_find find_snoc route_matches_def make_route_def
      MAX_ROUTES_def split: option.split)

lemma net_routes_first_match_witness:
  "\<exists>s'. net_add_route (Some net_start) 167772160 1 4278190080 10 (Some ''eth0'') = (Some s', 0) \<and>
     route_for s' 167772161 = Some (make_route 167772160 1 4278190080 10 ''eth0'')"
proof -
  have "length (ns_routing_table net_start) < 512" "route_for net_start 167772161 = None"
    by (simp_all add: net_start_def net_stack_init_def route_for_find)
  with net_routes_first_match [OF this(1), of 167772160 1 4278190080 10 "''eth0''"] show ?thesis by auto
qed

text \<open>
  Closing a stream frees its number for reuse while later streams keep theirs: after opening two
  streams, closing the first and opening another, two open streams have identifier 2, and data
  sent to the new one goes into the old one.
\<close>

lemma net_tcp_id_reused:
  assumes "net_run net_start [TcpOpen 1 80 2 80 True True, TcpOpen 1 81 2 81 True True, TcpClose 1,
      TcpOpen 1 82 2 82 True True] = Done (t, trace)"
  shows "map snd trace = [1, 2, 0, 2] \<and> map ts_stream_id (ns_tcp_streams t) = [2, 2] \<and>
    net_get_tcp_stream (Some t) 2 = Some 0"
  using assms
  by (auto simp: net_start_def net_stack_init_def net_tcp_open_stream_def net_tcp_close_stream_def
      net_get_tcp_stream_def lift_simps MAX_TCP_STREAMS_def)

end
