(* ===== verification/Networking_Core.thy ===== *)
theory Networking_Core
  imports Contracts
begin

text \<open>
  The socket layer of \<open>net/networking_core.c\<close>: one interface and a table of 256 sockets. Sending
  and receiving check the socket and report a result; they move no data. The two DNS addresses
  are not initialised by \<open>network_init\<close>; their initial contents are arguments.
\<close>

datatype NetworkProtocol = NET_IPV4 | NET_IPV6
datatype TransportProtocol = NET_TCP | NET_UDP | NET_ICMP

text \<open>An address is its four octets.\<close>

type_synonym IPv4Address = "u8 \<times> u8 \<times> u8 \<times> u8"

record CoreSocket =
  nk_port :: u16
  nk_protocol :: NetworkProtocol
  nk_transport :: TransportProtocol
  nk_local_ip :: IPv4Address
  nk_remote_ip :: IPv4Address
  nk_is_connected :: bool
  nk_socket_id :: u32

record NetworkInterface =
  ni_ip_address :: IPv4Address
  ni_subnet_mask :: IPv4Address
  ni_gateway :: IPv4Address
  ni_dns_primary :: IPv4Address
  ni_dns_secondary :: IPv4Address
  ni_mac_address :: string
  ni_dhcp_enabled :: bool
  ni_is_connected :: bool

record NetworkCore =
  nc_interface :: NetworkInterface
  nc_sockets :: "CoreSocket list"

definition network_init :: "bool \<Rightarrow> IPv4Address \<Rightarrow> IPv4Address \<Rightarrow> NetworkCore option" where
  "network_init malloc_ok dns1 dns2 =
     (if \<not> malloc_ok then None
      else Some \<lparr>nc_interface = \<lparr>ni_ip_address = (0, 0, 0, 0), ni_subnet_mask = (0, 0, 0, 0),
                   ni_gateway = (0, 0, 0, 0), ni_dns_primary = dns1, ni_dns_secondary = dns2,
                   ni_mac_address = ''00:00:00:00:00:00'', ni_dhcp_enabled = True,
                   ni_is_connected = False\<rparr>,
                 nc_sockets = []\<rparr>)"

definition network_cleanup :: "NetworkCore option \<Rightarrow> NetworkCore option" where
  "network_cleanup h = None"

definition network_configure_interface ::
    "NetworkCore option \<Rightarrow> IPv4Address option \<Rightarrow> IPv4Address option \<Rightarrow> NetworkCore option \<times> int" where
  "network_configure_interface h ip netmask = with_handle (-1) h (\<lambda>n.
     case (ip, netmask) of
       (Some a, Some b) \<Rightarrow>
         (n\<lparr>nc_interface := (nc_interface n)\<lparr>ni_ip_address := a, ni_subnet_mask := b,
              ni_is_connected := True\<rparr>\<rparr>, 0)
     | _ \<Rightarrow> (n, -1))"

definition network_socket_create ::
    "NetworkCore option \<Rightarrow> TransportProtocol \<Rightarrow> u16 \<Rightarrow> NetworkCore option \<times> u32" where
  "network_socket_create h protocol port = with_handle 0 h (\<lambda>n.
     if length (nc_sockets n) \<ge> 256 then (n, 0)
     else let sid = of_nat (length (nc_sockets n)) + 1;
              socket = \<lparr>nk_port = port, nk_protocol = NET_IPV4, nk_transport = protocol,
                        nk_local_ip = (0, 0, 0, 0), nk_remote_ip = (0, 0, 0, 0),
                        nk_is_connected = False, nk_socket_id = sid\<rparr>
          in (n\<lparr>nc_sockets := nc_sockets n @ [socket]\<rparr>, sid))"

definition network_socket_connect ::
    "NetworkCore option \<Rightarrow> u32 \<Rightarrow> IPv4Address option \<Rightarrow> u16 \<Rightarrow> NetworkCore option \<times> int" where
  "network_socket_connect h socket_id remote_ip port = with_handle (-1) h (\<lambda>n.
     case remote_ip of None \<Rightarrow> (n, -1)
     | Some ip \<Rightarrow> (case slot_of socket_id (nc_sockets n) of None \<Rightarrow> (n, -1)
     | Some i \<Rightarrow>
         (n\<lparr>nc_sockets := (nc_sockets n)[i := (nc_sockets n ! i)
              \<lparr>nk_remote_ip := ip, nk_is_connected := True\<rparr>]\<rparr>, 0)))"

definition network_socket_send :: "NetworkCore option \<Rightarrow> u32 \<Rightarrow> bool \<Rightarrow> u32 \<Rightarrow> int" where
  "network_socket_send h socket_id data sz = read_handle (-1) h (\<lambda>n.
     if \<not> data \<or> sz = 0 then -1
     else case slot_of socket_id (nc_sockets n) of None \<Rightarrow> -1
     | Some i \<Rightarrow> if \<not> nk_is_connected (nc_sockets n ! i) then -1 else sint sz)"

definition network_socket_receive :: "NetworkCore option \<Rightarrow> u32 \<Rightarrow> bool \<Rightarrow> u32 \<Rightarrow> int" where
  "network_socket_receive h socket_id buffer sz = read_handle (-1) h (\<lambda>n.
     if \<not> buffer \<or> sz = 0 then -1
     else case slot_of socket_id (nc_sockets n) of None \<Rightarrow> -1
     | Some i \<Rightarrow> if \<not> nk_is_connected (nc_sockets n ! i) then -1 else 0)"

definition network_socket_close :: "NetworkCore option \<Rightarrow> u32 \<Rightarrow> NetworkCore option \<times> int" where
  "network_socket_close h socket_id = with_handle (-1) h (\<lambda>n.
     case slot_of socket_id (nc_sockets n) of None \<Rightarrow> (n, -1)
     | Some i \<Rightarrow>
         (n\<lparr>nc_sockets := (nc_sockets n)[i := (nc_sockets n ! i)\<lparr>nk_is_connected := False\<rparr>]\<rparr>, 0))"

section \<open>Identifiers and connections\<close>

definition core_socket_create :: "NetworkCore \<Rightarrow> TransportProtocol \<times> u16 \<Rightarrow> NetworkCore \<times> u32" where
  "core_socket_create n a =
     (case a of (p, port) \<Rightarrow> (case network_socket_create (Some n) p port of (h, k) \<Rightarrow> (the h, k)))"

interpretation core_socket_ids: slot_table core_socket_create nc_sockets 256
  by unfold_locales
     (auto simp: core_socket_create_def network_socket_create_def with_handle_Some Let_def split: if_splits)

datatype core_call = CoreCreate TransportProtocol u16 | CoreConnect u32 IPv4Address u16 | CoreClose u32

fun core_apply :: "NetworkCore \<Rightarrow> core_call \<Rightarrow> NetworkCore" where
  "core_apply n (CoreCreate p port) = the (fst (network_socket_create (Some n) p port))"
| "core_apply n (CoreConnect k ip port) = the (fst (network_socket_connect (Some n) k (Some ip) port))"
| "core_apply n (CoreClose k) = the (fst (network_socket_close (Some n) k))"

text \<open>The state a client expects: the last connect or close of the socket decides.\<close>

fun core_spec :: "bool \<Rightarrow> u32 \<Rightarrow> core_call list \<Rightarrow> bool" where
  "core_spec b k [] = b"
| "core_spec b k (CoreConnect j ip port # cs) = core_spec (if j = k then True else b) k cs"
| "core_spec b k (CoreClose j # cs) = core_spec (if j = k then False else b) k cs"
| "core_spec b k (CoreCreate p port # cs) = core_spec b k cs"

definition core_connected :: "NetworkCore \<Rightarrow> u32 \<Rightarrow> bool" where
  "core_connected n k = (case slot_get k (nc_sockets n) of None \<Rightarrow> False | Some s \<Rightarrow> nk_is_connected s)"

definition core_known :: "NetworkCore \<Rightarrow> u32 \<Rightarrow> bool" where
  "core_known n k \<longleftrightarrow> slot_get k (nc_sockets n) \<noteq> None"

lemma core_apply_connected:
  assumes "length (nc_sockets n) \<le> 256" and "core_known n k"
  shows "length (nc_sockets (core_apply n c)) \<le> 256 \<and> core_known (core_apply n c) k \<and>
    core_connected (core_apply n c) k = core_spec (core_connected n k) k [c]"
proof (cases c)
  case (CoreCreate p port)
  from assms(2) obtain y where y: "slot_get k (nc_sockets n) = Some y" by (auto simp: core_known_def)
  then have "slot_get k (nc_sockets n @ [x]) = Some y" for x
    using assms(1) slot_get_snoc [of "nc_sockets n"] by auto
  with CoreCreate assms y show ?thesis
    by (auto simp: network_socket_create_def core_known_def core_connected_def Let_def)
next
  case (CoreConnect j ip port)
  with assms show ?thesis
    by (cases "slot_of j (nc_sockets n)"; cases "j = k")
       (auto simp: network_socket_connect_def core_known_def core_connected_def slot_get_update
         slot_get_update_other slot_get_None)
next
  case (CoreClose j)
  with assms show ?thesis
    by (cases "slot_of j (nc_sockets n)"; cases "j = k")
       (auto simp: network_socket_close_def core_known_def core_connected_def slot_get_update
         slot_get_update_other slot_get_None)
qed

text \<open>
  Over any history of socket calls, a send of a non-empty block succeeds on an existing socket
  exactly when the last connect or close of that socket was a connect.
\<close>

lemma core_connected_history:
  "length (nc_sockets n) \<le> 256 \<Longrightarrow> core_known n k \<Longrightarrow>
   core_connected (foldl core_apply n cs) k = core_spec (core_connected n k) k cs"
proof (induction cs arbitrary: n)
  case Nil
  then show ?case by simp
next
  case (Cons c cs)
  from core_apply_connected [OF Cons.prems, of c] Cons.IH [of "core_apply n c"] show ?case
    by (cases c) auto
qed

lemma core_send_connected:
  assumes "0 < sz" and "sz < 2147483648" and "core_known n k"
  shows "network_socket_send (Some n) k True sz = (if core_connected n k then uint sz else -1)"
  using assms sint_small [OF assms(2)]
  by (auto simp: network_socket_send_def core_connected_def core_known_def slot_get_def word_gt_0)

end
