(* ===== verification/Security_Core.thy ===== *)
theory Security_Core
  imports Contracts
begin

unbundle bit_operations_syntax

text \<open>
  The security core of \<open>security/security_core.c\<close>: users with a lockout counter, policies with
  access rules, the access check, the audit log and encryption keys. Strings are bounded copies
  (\<open>strncpy\<close> with a final NUL): a user name keeps 63 characters, a password 127. The key material
  of a key is its first \<open>key_size\<close> bytes.
\<close>

section \<open>State\<close>

definition MAX_SECURITY_POLICIES :: nat where "MAX_SECURITY_POLICIES = 256"
definition MAX_ACCESS_RULES :: nat where "MAX_ACCESS_RULES = 1024"
definition MAX_AUDIT_LOGS :: nat where "MAX_AUDIT_LOGS = 8192"
definition MAX_ENCRYPTION_KEYS :: nat where "MAX_ENCRYPTION_KEYS = 512"
definition MAX_USERS :: nat where "MAX_USERS = 128"

text \<open>The values of \<open>Permission\<close> are bits of a mask.\<close>

definition PERMISSION_NONE :: u32 where "PERMISSION_NONE = 0"
definition PERMISSION_READ :: u32 where "PERMISSION_READ = 1"
definition PERMISSION_WRITE :: u32 where "PERMISSION_WRITE = 2"
definition PERMISSION_EXECUTE :: u32 where "PERMISSION_EXECUTE = 4"
definition PERMISSION_DELETE :: u32 where "PERMISSION_DELETE = 8"
definition PERMISSION_ADMIN :: u32 where "PERMISSION_ADMIN = 16"

datatype RuleType = RULE_ALLOW | RULE_DENY | RULE_AUDIT

datatype AuditAction =
  AUDIT_ACTION_READ | AUDIT_ACTION_WRITE | AUDIT_ACTION_EXECUTE | AUDIT_ACTION_DELETE
  | AUDIT_ACTION_PERMISSION_CHANGE | AUDIT_ACTION_FAILED_ACCESS

datatype EncryptionMethod = ENCRYPT_AES128 | ENCRYPT_AES256 | ENCRYPT_SHA256 | ENCRYPT_RSA2048

record User =
  us_user_id :: u32
  us_username :: string
  us_password_hash :: string
  us_permissions :: u32
  us_is_active :: bool
  us_is_admin :: bool
  us_failed_login_attempts :: u32
  us_last_login :: time_t
  us_created_time :: time_t

record AccessRule =
  ru_rule_id :: u32
  ru_subject_id :: u32
  ru_object_id :: u32
  ru_rule_type :: RuleType
  ru_permissions :: u32
  ru_is_active :: bool
  ru_created_time :: time_t
  ru_expires_time :: time_t

record SecurityPolicy =
  po_policy_id :: u32
  po_name :: string
  po_rules :: "AccessRule list"
  po_is_enabled :: bool
  po_enforcement_level :: u32

record AuditLog =
  al_log_id :: u32
  al_action :: AuditAction
  al_user_id :: u32
  al_subject_id :: u32
  al_object_id :: u32
  al_success :: bool
  al_timestamp :: time_t
  al_details :: string

record EncryptionKey =
  ek_key_id :: u32
  ek_method :: EncryptionMethod
  ek_key_data :: "u8 list"
  ek_key_size :: u32
  ek_creation_time :: time_t
  ek_expiration_time :: time_t
  ek_is_active :: bool

record SecurityCore =
  sc_users :: "User list"
  sc_policies :: "SecurityPolicy list"
  sc_audit_logs :: "AuditLog list"
  sc_keys :: "EncryptionKey list"
  sc_selinux_enabled :: bool
  sc_failed_access_threshold :: u32
  sc_lockout_duration_sec :: u32
  sc_total_access_denied :: u64
  sc_total_access_granted :: u64

definition security_init :: "bool \<Rightarrow> SecurityCore option" where
  "security_init malloc_ok =
     (if \<not> malloc_ok then None
      else Some \<lparr>sc_users = [], sc_policies = [], sc_audit_logs = [], sc_keys = [],
                 sc_selinux_enabled = False, sc_failed_access_threshold = 5,
                 sc_lockout_duration_sec = 900, sc_total_access_denied = 0,
                 sc_total_access_granted = 0\<rparr>)"

definition security_cleanup :: "SecurityCore option \<Rightarrow> SecurityCore option" where
  "security_cleanup h = None"

section \<open>Users\<close>

definition security_get_user :: "SecurityCore option \<Rightarrow> u32 \<Rightarrow> nat option" where
  "security_get_user h user_id = read_handle None h (\<lambda>c.
     first_idx (\<lambda>u. us_user_id u = user_id) (sc_users c))"

definition security_create_user ::
    "SecurityCore option \<Rightarrow> string option \<Rightarrow> string option \<Rightarrow> time_t \<Rightarrow> SecurityCore option \<times> u32" where
  "security_create_user h username password now = with_handle 0 h (\<lambda>c.
     if length (sc_users c) \<ge> MAX_USERS then (c, 0)
     else case (username, password) of
       (Some name, Some pw) \<Rightarrow>
         if first_idx (\<lambda>u. us_username u = name) (sc_users c) \<noteq> None then (c, 0)
         else let uid = of_nat (length (sc_users c)) + 1;
                  user = \<lparr>us_user_id = uid, us_username = take 63 name, us_password_hash = take 127 pw,
                          us_permissions = PERMISSION_READ OR PERMISSION_WRITE, us_is_active = True,
                          us_is_admin = False, us_failed_login_attempts = 0, us_last_login = 0,
                          us_created_time = now\<rparr>
              in (c\<lparr>sc_users := sc_users c @ [user]\<rparr>, uid)
     | _ \<Rightarrow> (c, 0))"

definition security_delete_user :: "SecurityCore option \<Rightarrow> u32 \<Rightarrow> SecurityCore option \<times> int" where
  "security_delete_user h user_id = with_handle (-1) h (\<lambda>c.
     case first_idx (\<lambda>u. us_user_id u = user_id) (sc_users c) of
       None \<Rightarrow> (c, -1)
     | Some i \<Rightarrow> (c\<lparr>sc_users := remove_at i (sc_users c)\<rparr>, 0))"

definition security_authenticate_user ::
    "SecurityCore option \<Rightarrow> u32 \<Rightarrow> string option \<Rightarrow> time_t \<Rightarrow> SecurityCore option \<times> int" where
  "security_authenticate_user h user_id password now = with_handle (-1) h (\<lambda>c.
     case password of None \<Rightarrow> (c, -1)
     | Some pw \<Rightarrow> (case security_get_user (Some c) user_id of None \<Rightarrow> (c, -1)
     | Some i \<Rightarrow>
         let u = sc_users c ! i in
         if \<not> us_is_active u then (c, -1)
         else if us_password_hash u \<noteq> pw
         then let u1 = u\<lparr>us_failed_login_attempts := us_failed_login_attempts u + 1\<rparr>;
                  u2 = (if us_failed_login_attempts u1 \<ge> sc_failed_access_threshold c
                        then u1\<lparr>us_is_active := False\<rparr> else u1)
              in (c\<lparr>sc_users := (sc_users c)[i := u2]\<rparr>, -1)
         else (c\<lparr>sc_users := (sc_users c)[i := u\<lparr>us_failed_login_attempts := 0, us_last_login := now\<rparr>],
                 sc_total_access_granted := sc_total_access_granted c + 1\<rparr>, 0)))"

definition security_set_user_permissions ::
    "SecurityCore option \<Rightarrow> u32 \<Rightarrow> u32 \<Rightarrow> SecurityCore option \<times> int" where
  "security_set_user_permissions h user_id permissions = with_handle (-1) h (\<lambda>c.
     case security_get_user (Some c) user_id of None \<Rightarrow> (c, -1)
     | Some i \<Rightarrow>
         (c\<lparr>sc_users := (sc_users c)[i := (sc_users c ! i)\<lparr>us_permissions := permissions\<rparr>]\<rparr>, 0))"

section \<open>Policies\<close>

definition security_get_policy :: "SecurityCore option \<Rightarrow> u32 \<Rightarrow> nat option" where
  "security_get_policy h policy_id = read_handle None h (\<lambda>c.
     first_idx (\<lambda>p. po_policy_id p = policy_id) (sc_policies c))"

definition security_create_policy ::
    "SecurityCore option \<Rightarrow> string option \<Rightarrow> u32 \<Rightarrow> SecurityCore option \<times> u32" where
  "security_create_policy h name enforcement_level = with_handle 0 h (\<lambda>c.
     if length (sc_policies c) \<ge> MAX_SECURITY_POLICIES then (c, 0)
     else case name of None \<Rightarrow> (c, 0)
     | Some nm \<Rightarrow>
         let pid = of_nat (length (sc_policies c)) + 1
         in (c\<lparr>sc_policies := sc_policies c @ [\<lparr>po_policy_id = pid, po_name = take 63 nm, po_rules = [],
                 po_is_enabled = True, po_enforcement_level = enforcement_level\<rparr>]\<rparr>, pid))"

definition security_add_access_rule ::
    "SecurityCore option \<Rightarrow> u32 \<Rightarrow> u32 \<Rightarrow> u32 \<Rightarrow> RuleType \<Rightarrow> u32 \<Rightarrow> time_t \<Rightarrow> SecurityCore option \<times> int" where
  "security_add_access_rule h policy_id subject_id object_id rule_type permissions now =
     with_handle (-1) h (\<lambda>c.
     case security_get_policy (Some c) policy_id of None \<Rightarrow> (c, -1)
     | Some i \<Rightarrow>
         let p = sc_policies c ! i in
         if length (po_rules p) \<ge> MAX_ACCESS_RULES then (c, -1)
         else let rule = \<lparr>ru_rule_id = of_nat (length (po_rules p)) + 1, ru_subject_id = subject_id,
                          ru_object_id = object_id, ru_rule_type = rule_type,
                          ru_permissions = permissions, ru_is_active = True, ru_created_time = now,
                          ru_expires_time = 0\<rparr>
              in (c\<lparr>sc_policies := (sc_policies c)[i := p\<lparr>po_rules := po_rules p @ [rule]\<rparr>]\<rparr>, 0))"

definition security_remove_access_rule ::
    "SecurityCore option \<Rightarrow> u32 \<Rightarrow> u32 \<Rightarrow> SecurityCore option \<times> int" where
  "security_remove_access_rule h policy_id rule_id = with_handle (-1) h (\<lambda>c.
     case security_get_policy (Some c) policy_id of None \<Rightarrow> (c, -1)
     | Some i \<Rightarrow>
         let p = sc_policies c ! i in
         (case first_idx (\<lambda>r. ru_rule_id r = rule_id) (po_rules p) of
            None \<Rightarrow> (c, -1)
          | Some j \<Rightarrow>
              (c\<lparr>sc_policies := (sc_policies c)[i := p\<lparr>po_rules := remove_at j (po_rules p)\<rparr>]\<rparr>, 0)))"

definition security_enable_policy ::
    "SecurityCore option \<Rightarrow> u32 \<Rightarrow> bool \<Rightarrow> SecurityCore option \<times> int" where
  "security_enable_policy h policy_id enable = with_handle (-1) h (\<lambda>c.
     case security_get_policy (Some c) policy_id of None \<Rightarrow> (c, -1)
     | Some i \<Rightarrow>
         (c\<lparr>sc_policies := (sc_policies c)[i := (sc_policies c ! i)\<lparr>po_is_enabled := enable\<rparr>]\<rparr>, 0))"

section \<open>Access check and audit\<close>

definition security_check_access ::
    "SecurityCore option \<Rightarrow> u32 \<Rightarrow> u32 \<Rightarrow> u32 \<Rightarrow> SecurityCore option \<times> int" where
  "security_check_access h user_id object_id required_permission = with_handle (-1) h (\<lambda>c.
     case security_get_user (Some c) user_id of
       None \<Rightarrow> (c\<lparr>sc_total_access_denied := sc_total_access_denied c + 1\<rparr>, -1)
     | Some i \<Rightarrow>
         if \<not> us_is_active (sc_users c ! i)
         then (c\<lparr>sc_total_access_denied := sc_total_access_denied c + 1\<rparr>, -1)
         else if us_permissions (sc_users c ! i) AND required_permission = 0
         then (c\<lparr>sc_total_access_denied := sc_total_access_denied c + 1\<rparr>, -1)
         else (c\<lparr>sc_total_access_granted := sc_total_access_granted c + 1\<rparr>, 0))"

definition security_audit_action ::
    "SecurityCore option \<Rightarrow> u32 \<Rightarrow> u32 \<Rightarrow> u32 \<Rightarrow> AuditAction \<Rightarrow> bool \<Rightarrow> string option \<Rightarrow> time_t \<Rightarrow>
     SecurityCore option \<times> int" where
  "security_audit_action h user_id subject_id object_id action success details now =
     with_handle (-1) h (\<lambda>c.
     if length (sc_audit_logs c) \<ge> MAX_AUDIT_LOGS then (c, -1)
     else let log = \<lparr>al_log_id = of_nat (length (sc_audit_logs c)) + 1, al_action = action,
                     al_user_id = user_id, al_subject_id = subject_id, al_object_id = object_id,
                     al_success = success, al_timestamp = now,
                     al_details = (case details of None \<Rightarrow> '''' | Some d \<Rightarrow> take 255 d)\<rparr>
          in (c\<lparr>sc_audit_logs := sc_audit_logs c @ [log]\<rparr>, 0))"

section \<open>Encryption keys\<close>

definition security_create_encryption_key ::
    "SecurityCore option \<Rightarrow> EncryptionMethod \<Rightarrow> u32 \<Rightarrow> time_t \<Rightarrow> SecurityCore option \<times> u32" where
  "security_create_encryption_key h method sz now = with_handle 0 h (\<lambda>c.
     if length (sc_keys c) \<ge> MAX_ENCRYPTION_KEYS then (c, 0)
     else if sz > 256 then (c, 0)
     else let kid = of_nat (length (sc_keys c)) + 1;
              key = \<lparr>ek_key_id = kid, ek_method = method, ek_key_data = replicate (unat sz) 0,
                     ek_key_size = sz, ek_creation_time = now,
                     ek_expiration_time = now + 365 * 24 * 3600, ek_is_active = True\<rparr>
          in (c\<lparr>sc_keys := sc_keys c @ [key]\<rparr>, kid))"

definition security_delete_encryption_key :: "SecurityCore option \<Rightarrow> u32 \<Rightarrow> SecurityCore option \<times> int" where
  "security_delete_encryption_key h key_id = with_handle (-1) h (\<lambda>c.
     case first_idx (\<lambda>k. ek_key_id k = key_id) (sc_keys c) of
       None \<Rightarrow> (c, -1)
     | Some i \<Rightarrow> (c\<lparr>sc_keys := remove_at i (sc_keys c)\<rparr>, 0))"

definition security_get_encryption_key :: "SecurityCore option \<Rightarrow> u32 \<Rightarrow> nat option" where
  "security_get_encryption_key h key_id = read_handle None h (\<lambda>c.
     first_idx (\<lambda>k. ek_key_id k = key_id \<and> ek_is_active k) (sc_keys c))"

section \<open>Settings and counters\<close>

definition security_enable_selinux :: "SecurityCore option \<Rightarrow> bool \<Rightarrow> SecurityCore option \<times> int" where
  "security_enable_selinux h enable = with_handle (-1) h (\<lambda>c. (c\<lparr>sc_selinux_enabled := enable\<rparr>, 0))"

definition security_set_failed_access_threshold ::
    "SecurityCore option \<Rightarrow> u32 \<Rightarrow> SecurityCore option \<times> int" where
  "security_set_failed_access_threshold h threshold = with_handle (-1) h (\<lambda>c.
     if threshold = 0 then (c, -1) else (c\<lparr>sc_failed_access_threshold := threshold\<rparr>, 0))"

definition security_set_lockout_duration :: "SecurityCore option \<Rightarrow> u32 \<Rightarrow> SecurityCore option \<times> int" where
  "security_set_lockout_duration h seconds = with_handle (-1) h (\<lambda>c.
     if seconds = 0 then (c, -1) else (c\<lparr>sc_lockout_duration_sec := seconds\<rparr>, 0))"

definition security_get_audit_log_count :: "SecurityCore option \<Rightarrow> u32" where
  "security_get_audit_log_count h = read_handle 0 h (\<lambda>c. of_nat (length (sc_audit_logs c)))"

definition security_get_audit_log :: "SecurityCore option \<Rightarrow> u32 \<Rightarrow> nat option" where
  "security_get_audit_log h log_id = read_handle None h (\<lambda>c.
     first_idx (\<lambda>l. al_log_id l = log_id) (sc_audit_logs c))"

definition security_get_total_access_denied :: "SecurityCore option \<Rightarrow> u64" where
  "security_get_total_access_denied h = read_handle 0 h sc_total_access_denied"

definition security_get_total_access_granted :: "SecurityCore option \<Rightarrow> u64" where
  "security_get_total_access_granted h = read_handle 0 h sc_total_access_granted"

section \<open>Histories of calls\<close>

datatype sec_call =
  CreateUser "string option" "string option" time_t | DeleteUser u32
  | Authenticate u32 "string option" time_t | SetPermissions u32 u32
  | CreatePolicy "string option" u32 | AddRule u32 u32 u32 RuleType u32 time_t | RemoveRule u32 u32
  | EnablePolicy u32 bool | CheckAccess u32 u32 u32
  | AuditCall u32 u32 u32 AuditAction bool "string option" time_t
  | CreateKey EncryptionMethod u32 time_t | DeleteKey u32
  | EnableSelinux bool | SetThreshold u32 | SetLockout u32

fun sec_apply :: "SecurityCore \<Rightarrow> sec_call \<Rightarrow> SecurityCore" where
  "sec_apply c (CreateUser n p t) = the (fst (security_create_user (Some c) n p t))"
| "sec_apply c (DeleteUser k) = the (fst (security_delete_user (Some c) k))"
| "sec_apply c (Authenticate k p t) = the (fst (security_authenticate_user (Some c) k p t))"
| "sec_apply c (SetPermissions k p) = the (fst (security_set_user_permissions (Some c) k p))"
| "sec_apply c (CreatePolicy n l) = the (fst (security_create_policy (Some c) n l))"
| "sec_apply c (AddRule p s ob r m t) = the (fst (security_add_access_rule (Some c) p s ob r m t))"
| "sec_apply c (RemoveRule p r) = the (fst (security_remove_access_rule (Some c) p r))"
| "sec_apply c (EnablePolicy p b) = the (fst (security_enable_policy (Some c) p b))"
| "sec_apply c (CheckAccess k ob m) = the (fst (security_check_access (Some c) k ob m))"
| "sec_apply c (AuditCall k s ob a b d t) = the (fst (security_audit_action (Some c) k s ob a b d t))"
| "sec_apply c (CreateKey m sz t) = the (fst (security_create_encryption_key (Some c) m sz t))"
| "sec_apply c (DeleteKey k) = the (fst (security_delete_encryption_key (Some c) k))"
| "sec_apply c (EnableSelinux b) = the (fst (security_enable_selinux (Some c) b))"
| "sec_apply c (SetThreshold n) = the (fst (security_set_failed_access_threshold (Some c) n))"
| "sec_apply c (SetLockout n) = the (fst (security_set_lockout_duration (Some c) n))"

text \<open>The calls that manage users; all others leave the users alone.\<close>

fun user_call :: "sec_call \<Rightarrow> bool" where
  "user_call (CreateUser n p t) = True"
| "user_call (DeleteUser k) = True"
| "user_call (Authenticate k p t) = True"
| "user_call (SetPermissions k p) = True"
| "user_call _ = False"

lemmas policy_op_defs = security_create_policy_def security_add_access_rule_def
  security_remove_access_rule_def security_enable_policy_def security_check_access_def
  security_audit_action_def security_create_encryption_key_def security_delete_encryption_key_def
  security_enable_selinux_def security_set_failed_access_threshold_def
  security_set_lockout_duration_def

lemma other_calls_keep_users: "\<not> user_call x \<Longrightarrow> sc_users (sec_apply c x) = sc_users c"
  by (cases x) (auto simp: policy_op_defs Let_def split: option.splits)

lemma other_calls_run: "list_all (\<lambda>x. \<not> user_call x) xs \<Longrightarrow> sc_users (foldl sec_apply c xs) = sc_users c"
  by (induction xs arbitrary: c) (auto simp: other_calls_keep_users)

definition user_of :: "SecurityCore \<Rightarrow> u32 \<Rightarrow> User option" where
  "user_of c k = find (\<lambda>u. us_user_id u = k) (sc_users c)"

lemma get_user_of:
  "security_get_user (Some c) k = None \<longleftrightarrow> user_of c k = None"
  "security_get_user (Some c) k = Some i \<Longrightarrow> user_of c k = Some (sc_users c ! i)"
  by (simp_all add: security_get_user_def user_of_def first_idx_find_None first_idx_find_Some)

lemma get_user_SomeE:
  assumes "user_of c k = Some u"
  obtains i where "security_get_user (Some c) k = Some i" and "sc_users c ! i = u"
  using assms get_user_of [of c k] by (metis not_None_eq option.inject)

lemma user_of_update:
  assumes "security_get_user (Some c) j = Some i" and "us_user_id u = j"
  shows "find (\<lambda>u. us_user_id u = k) ((sc_users c)[i := u]) = (if j = k then Some u else user_of c k)"
  using assms find_key_update [of us_user_id j "sc_users c" i u k]
  by (simp add: security_get_user_def user_of_def)

section \<open>Lockout\<close>

definition locked_out :: "SecurityCore \<Rightarrow> u32 \<Rightarrow> bool" where
  "locked_out c k = (case user_of c k of None \<Rightarrow> False | Some u \<Rightarrow> \<not> us_is_active u)"

lemma get_user_id: "security_get_user (Some c) k = Some i \<Longrightarrow> us_user_id (sc_users c ! i) = k"
  by (auto simp: security_get_user_def dest: first_idx_SomeD(2))

lemma locked_out_apply:
  assumes "locked_out c k" and "x \<noteq> DeleteUser k"
  shows "locked_out (sec_apply c x) k"
proof (cases "user_call x")
  case False
  then show ?thesis using assms(1) other_calls_keep_users by (simp add: locked_out_def user_of_def)
next
  case True
  from assms(1) obtain u where u: "user_of c k = Some u" "\<not> us_is_active u"
    by (auto simp: locked_out_def split: option.splits)
  show ?thesis
  proof (cases x)
    case (CreateUser n p t)
    with u show ?thesis
      by (auto simp: security_create_user_def locked_out_def user_of_def find_snoc Let_def
          split: option.splits)
  next
    case (DeleteUser j)
    have "find (\<lambda>u. us_user_id u = k) (remove_at i (sc_users c)) = Some u"
      if "first_idx (\<lambda>u. us_user_id u = j) (sc_users c) = Some i" for i
      using u(1) DeleteUser assms(2) first_idx_SomeD(1,2) [OF that]
      by (simp add: user_of_def find_remove_at_other)
    with u DeleteUser show ?thesis
      by (auto simp: security_delete_user_def locked_out_def user_of_def split: option.split)
  next
    case (Authenticate j p t)
    with u get_user_of(2) [of c j] get_user_id [of c j] show ?thesis
      by (auto simp: security_authenticate_user_def locked_out_def user_of_update Let_def
          user_of_def [of "_\<lparr>sc_users := _\<rparr>"] user_of_def [of "_\<lparr>sc_users := _, sc_total_access_granted := _\<rparr>"]
          split: option.splits)
  next
    case (SetPermissions j p)
    with u get_user_of(2) [of c j] get_user_id [of c j] show ?thesis
      by (auto simp: security_set_user_permissions_def locked_out_def user_of_update
          user_of_def [of "_\<lparr>sc_users := _\<rparr>"] split: option.splits)
  qed (use True in auto)
qed

lemma locked_out_run:
  "locked_out c k \<Longrightarrow> DeleteUser k \<notin> set xs \<Longrightarrow> locked_out (foldl sec_apply c xs) k"
  by (induction xs arbitrary: c) (auto simp: locked_out_apply)

lemma locked_out_refused:
  assumes "locked_out c k"
  shows "snd (security_authenticate_user (Some c) k p t) = -1"
    and "snd (security_check_access (Some c) k ob m) = -1"
  using assms get_user_of [of c k]
  by (auto simp: security_authenticate_user_def security_check_access_def locked_out_def
      split: option.splits)

section \<open>Guessing a password\<close>

definition guess :: "u32 \<Rightarrow> SecurityCore \<Rightarrow> string \<Rightarrow> SecurityCore" where
  "guess k c pw = sec_apply c (Authenticate k (Some pw) 0)"

lemma wrong_guess:
  assumes "user_of c k = Some u" and "us_is_active u" and "us_password_hash u \<noteq> pw"
  shows "sc_failed_access_threshold (guess k c pw) = sc_failed_access_threshold c"
    and "user_of (guess k c pw) k =
      Some (u\<lparr>us_failed_login_attempts := us_failed_login_attempts u + 1,
              us_is_active := \<not> sc_failed_access_threshold c \<le> us_failed_login_attempts u + 1\<rparr>)"
proof -
  obtain i where i: "security_get_user (Some c) k = Some i" "sc_users c ! i = u"
    using assms(1) by (rule get_user_SomeE)
  then have k: "us_user_id u = k" using get_user_id by blast
  show "sc_failed_access_threshold (guess k c pw) = sc_failed_access_threshold c"
    using i assms(2,3) by (simp add: guess_def security_authenticate_user_def Let_def)
  show "user_of (guess k c pw) k =
      Some (u\<lparr>us_failed_login_attempts := us_failed_login_attempts u + 1,
              us_is_active := \<not> sc_failed_access_threshold c \<le> us_failed_login_attempts u + 1\<rparr>)"
    using i k assms(2,3) user_of_update [OF i(1), of _ k]
    by (simp add: guess_def security_authenticate_user_def Let_def user_of_def [of "_\<lparr>sc_users := _\<rparr>"])
qed

lemma guesses_below_threshold:
  "user_of c k = Some u \<Longrightarrow> us_is_active u \<Longrightarrow> us_password_hash u \<notin> set pws \<Longrightarrow>
   unat (us_failed_login_attempts u) + length pws < unat (sc_failed_access_threshold c) \<Longrightarrow>
   sc_failed_access_threshold (foldl (guess k) c pws) = sc_failed_access_threshold c \<and>
   (\<exists>u'. user_of (foldl (guess k) c pws) k = Some u' \<and> us_is_active u' \<and>
      us_password_hash u' = us_password_hash u \<and>
      unat (us_failed_login_attempts u') = unat (us_failed_login_attempts u) + length pws)"
proof (induction pws arbitrary: c u)
  case Nil
  then show ?case by auto
next
  case (Cons pw pws)
  let ?c = "guess k c pw" and ?th = "sc_failed_access_threshold c"
  let ?u = "u\<lparr>us_failed_login_attempts := us_failed_login_attempts u + 1, us_is_active := True\<rparr>"
  have suc: "unat (us_failed_login_attempts u + 1) = Suc (unat (us_failed_login_attempts u))"
    by (rule unat_succ_less [of _ ?th]) (use Cons.prems(4) in \<open>simp add: word_less_nat_alt\<close>)
  then have "\<not> ?th \<le> us_failed_login_attempts u + 1" using Cons.prems(4) by (simp add: word_le_nat_alt)
  with wrong_guess [of c k u pw] Cons.prems(1-3)
  have 1: "user_of ?c k = Some ?u" "sc_failed_access_threshold ?c = ?th" by auto
  have "us_password_hash u \<notin> set pws" using Cons.prems(3) by simp
  with Cons.IH [OF 1(1)] 1(2) suc Cons.prems(4) show ?case by simp
qed

lemma guess_at_threshold:
  assumes "user_of c k = Some u" and "us_is_active u" and "us_password_hash u \<noteq> pw"
    and "Suc (unat (us_failed_login_attempts u)) = unat (sc_failed_access_threshold c)"
  shows "locked_out (guess k c pw) k"
proof -
  have "unat (us_failed_login_attempts u + 1) = Suc (unat (us_failed_login_attempts u))"
    by (rule unat_succ_less [of _ "sc_failed_access_threshold c"])
       (use assms(4) in \<open>simp add: word_less_nat_alt\<close>)
  with assms(4) have "sc_failed_access_threshold c \<le> us_failed_login_attempts u + 1"
    by (simp add: word_le_nat_alt)
  with wrong_guess [OF assms(1-3)] show ?thesis by (simp add: locked_out_def)
qed

lemma guesses_locked: "locked_out c k \<Longrightarrow> locked_out (foldl (guess k) c pws) k"
proof (induction pws arbitrary: c)
  case (Cons pw pws)
  have "locked_out (guess k c pw) k"
    unfolding guess_def by (rule locked_out_apply [OF Cons.prems]) simp
  with Cons.IH show ?case by simp
qed simp

lemma guesses_reach_threshold:
  assumes "user_of c k = Some u" and "us_is_active u" and "us_failed_login_attempts u = 0"
    and "us_password_hash u \<notin> set pws" and "0 < sc_failed_access_threshold c"
    and "unat (sc_failed_access_threshold c) \<le> length pws"
  shows "locked_out (foldl (guess k) c pws) k"
proof -
  define n where "n = unat (sc_failed_access_threshold c) - 1"
  have n: "Suc n = unat (sc_failed_access_threshold c)" using assms(5) by (simp add: n_def word_gt_0 unat_gt_0)
  with assms(6) have lt: "n < length pws" by simp
  then have split: "pws = take n pws @ pws ! n # drop (Suc n) pws" by (rule id_take_nth_drop)
  let ?c = "foldl (guess k) c (take n pws)"
  have "us_password_hash u \<notin> set (take n pws)" using assms(4) by (meson in_set_takeD)
  then obtain u' where u': "user_of ?c k = Some u'" "us_is_active u'" "us_password_hash u' = us_password_hash u"
      "unat (us_failed_login_attempts u') = n"
    and th: "sc_failed_access_threshold ?c = sc_failed_access_threshold c"
    using guesses_below_threshold [OF assms(1,2), of "take n pws"] assms(3) n lt by auto
  have "us_password_hash u' \<noteq> pws ! n" using assms(4) lt u'(3) by auto
  then have "locked_out (guess k ?c (pws ! n)) k"
    using guess_at_threshold [OF u'(1,2)] n u'(4) th by simp
  then show ?thesis by (subst split) (simp add: guesses_locked)
qed

section \<open>Properties\<close>

definition sec_start :: SecurityCore where "sec_start = the (security_init True)"

definition sec_alice :: SecurityCore where
  "sec_alice = sec_apply sec_start (CreateUser (Some ''alice'') (Some ''secret'') 10)"

lemma sec_alice_user: "user_of sec_alice 1 = Some \<lparr>us_user_id = 1, us_username = ''alice'',
    us_password_hash = ''secret'', us_permissions = 3, us_is_active = True, us_is_admin = False,
    us_failed_login_attempts = 0, us_last_login = 0, us_created_time = 10\<rparr>"
  and sec_alice_threshold: "sc_failed_access_threshold sec_alice = 5"
  by (simp_all add: sec_alice_def sec_start_def security_init_def security_create_user_def user_of_def
      MAX_USERS_def PERMISSION_READ_def PERMISSION_WRITE_def Let_def)

text \<open>
  Claim C31. Lockout: for an active user without failed logins, fewer wrong passwords in a row than
  the threshold leave the account usable (the right password is accepted), and as many as the
  threshold lock it for good: whatever calls follow, as long as the user is not deleted, every
  login with any password and every access check of that user is refused.
\<close>

theorem security_lockout:
  assumes "user_of c k = Some u" and "us_is_active u" and "us_failed_login_attempts u = 0"
    and "us_password_hash u \<notin> set guesses" and "0 < sc_failed_access_threshold c"
  shows "(length guesses < unat (sc_failed_access_threshold c) \<longrightarrow>
      snd (security_authenticate_user (Some (foldl (guess k) c guesses)) k (Some (us_password_hash u)) t) = 0) \<and>
    (unat (sc_failed_access_threshold c) \<le> length guesses \<longrightarrow> DeleteUser k \<notin> set calls \<longrightarrow>
      snd (security_authenticate_user (Some (foldl sec_apply (foldl (guess k) c guesses) calls)) k pw t) = -1 \<and>
      snd (security_check_access (Some (foldl sec_apply (foldl (guess k) c guesses) calls)) k ob m) = -1)"
proof (intro conjI impI)
  assume "length guesses < unat (sc_failed_access_threshold c)"
  with guesses_below_threshold [OF assms(1,2,4)] assms(3) obtain u' where
    "user_of (foldl (guess k) c guesses) k = Some u'" "us_is_active u'" "us_password_hash u' = us_password_hash u"
    by auto
  moreover from this(1) obtain i where "security_get_user (Some (foldl (guess k) c guesses)) k = Some i"
    "sc_users (foldl (guess k) c guesses) ! i = u'" by (rule get_user_SomeE)
  ultimately show "snd (security_authenticate_user (Some (foldl (guess k) c guesses)) k
      (Some (us_password_hash u)) t) = 0"
    by (simp add: security_authenticate_user_def Let_def)
next
  assume n: "unat (sc_failed_access_threshold c) \<le> length guesses" and "DeleteUser k \<notin> set calls"
  then have "locked_out (foldl sec_apply (foldl (guess k) c guesses) calls) k"
    using guesses_reach_threshold [OF assms n] locked_out_run by blast
  then show "snd (security_authenticate_user (Some (foldl sec_apply (foldl (guess k) c guesses) calls)) k pw t) = -1"
    and "snd (security_check_access (Some (foldl sec_apply (foldl (guess k) c guesses) calls)) k ob m) = -1"
    by (simp_all add: locked_out_refused)
qed

theorem security_lockout_witness:
  "snd (security_authenticate_user (Some (foldl (guess 1) sec_alice (replicate 4 ''x''))) 1 (Some ''secret'') 20) = 0 \<and>
   snd (security_authenticate_user (Some (foldl sec_apply (foldl (guess 1) sec_alice (replicate 5 ''x''))
     [SetLockout 1, SetPermissions 1 31])) 1 (Some ''secret'') 9999) = -1"
  using security_lockout [OF sec_alice_user, of "replicate 4 ''x''" 20 "[]"]
    security_lockout [OF sec_alice_user, of "replicate 5 ''x''" 9999 "[SetLockout 1, SetPermissions 1 31]"
      "Some ''secret''"]
  by (simp add: sec_alice_threshold)

text \<open>
  The access check looks only at the user's own permissions: it grants exactly when the
  user exists, is active and has at least one of the required bits, and no history of calls that
  do not manage users (policies, allow and deny rules, SELinux, settings, audit, keys) changes
  any of its answers.
\<close>

lemma security_check_access_ignores_policies:
  assumes "list_all (\<lambda>x. \<not> user_call x) calls"
  shows "snd (security_check_access (Some (foldl sec_apply c calls)) k ob m) =
    (case user_of c k of None \<Rightarrow> -1
     | Some u \<Rightarrow> if us_is_active u \<and> us_permissions u AND m \<noteq> 0 then 0 else -1)"
proof -
  let ?c = "foldl sec_apply c calls"
  have "user_of ?c k = user_of c k" using other_calls_run [OF assms] by (simp add: user_of_def)
  with get_user_of [of ?c k] show ?thesis
    by (auto simp: security_check_access_def split: option.splits)
qed

lemma security_check_access_ignores_policies_witness:
  "snd (security_check_access (Some (foldl sec_apply sec_alice
      [CreatePolicy (Some ''p'') 3, AddRule 1 1 42 RULE_DENY 31 5, EnableSelinux True])) 1 42
      (PERMISSION_WRITE OR PERMISSION_ADMIN)) = 0"
  using security_check_access_ignores_policies [of "[CreatePolicy (Some ''p'') 3, AddRule 1 1 42 RULE_DENY 31 5,
      EnableSelinux True]" sec_alice 1 42 "PERMISSION_WRITE OR PERMISSION_ADMIN"]
  by (simp add: sec_alice_user PERMISSION_WRITE_def PERMISSION_ADMIN_def)

text \<open>
  A user created under a new identifier can log in with exactly one password: the first
  127 characters of the one given. A longer password is never accepted by the account it was set
  for.
\<close>

lemma security_password_roundtrip:
  assumes "security_create_user (Some c) (Some name) (Some pw) t = (Some c', k)" and "k \<noteq> 0"
    and "user_of c k = None" and "0 < sc_failed_access_threshold c"
  shows "snd (security_authenticate_user (Some c') k (Some pw') t') = (if pw' = take 127 pw then 0 else -1)"
proof -
  have "\<exists>u. user_of c' k = Some u \<and> us_is_active u \<and> us_password_hash u = take 127 pw"
    using assms(1-3) by (auto simp: security_create_user_def user_of_def find_snoc Let_def split: if_splits)
  then obtain u i where u: "us_is_active u" "us_password_hash u = take 127 pw"
      and i: "security_get_user (Some c') k = Some i" "sc_users c' ! i = u"
    using get_user_SomeE by metis
  then show ?thesis by (simp add: security_authenticate_user_def Let_def)
qed

lemma security_password_roundtrip_witness:
  "snd (security_authenticate_user (fst (security_create_user (Some sec_start) (Some ''bob'')
      (Some (replicate 200 CHR ''a'')) 10)) 1 (Some (replicate 200 CHR ''a'')) 20) = -1"
proof -
  obtain c' where c': "security_create_user (Some sec_start) (Some ''bob'') (Some (replicate 200 CHR ''a'')) 10
      = (Some c', 1)"
    by (simp add: sec_start_def security_init_def security_create_user_def MAX_USERS_def Let_def)
  have "user_of sec_start 1 = None" "0 < sc_failed_access_threshold sec_start"
    by (simp_all add: sec_start_def security_init_def user_of_def)
  with security_password_roundtrip [OF c', of "replicate 200 CHR ''a''" 20] c' show ?thesis by simp
qed

definition sec_three :: SecurityCore where
  "sec_three = foldl sec_apply sec_start [CreateUser (Some ''a'') (Some ''pa'') 1,
     CreateUser (Some ''b'') (Some ''pb'') 2, DeleteUser 1, CreateUser (Some ''c'') (Some ''pc'') 3]"

text \<open>
  Deleting a user lets its successors share an identifier: after creating two users,
  deleting the first and creating a third, the third gets the identifier of the second, and
  logging in under it checks the second's password.
\<close>

lemma security_user_ids_reused:
  "map us_user_id (sc_users sec_three) = [2, 2] \<and>
   snd (security_authenticate_user (Some sec_three) 2 (Some ''pc'') 9) = -1 \<and>
   snd (security_authenticate_user (Some sec_three) 2 (Some ''pb'') 9) = 0"
  by (simp add: sec_three_def sec_start_def security_init_def security_create_user_def
      security_delete_user_def security_authenticate_user_def security_get_user_def with_handle_Some
      MAX_USERS_def Let_def)

section \<open>Identifiers of users and keys\<close>

definition user_create :: "SecurityCore \<Rightarrow> string \<times> string \<times> time_t \<Rightarrow> SecurityCore \<times> u32" where
  "user_create c a = (case a of (nm, pw, now) \<Rightarrow>
     (case security_create_user (Some c) (Some nm) (Some pw) now of (h, k) \<Rightarrow> (the h, k)))"

definition user_delete :: "SecurityCore \<Rightarrow> u32 \<Rightarrow> SecurityCore" where
  "user_delete c k = the (fst (security_delete_user (Some c) k))"

definition key_create :: "SecurityCore \<Rightarrow> EncryptionMethod \<times> u32 \<times> time_t \<Rightarrow> SecurityCore \<times> u32" where
  "key_create c a = (case a of (m, sz, now) \<Rightarrow>
     (case security_create_encryption_key (Some c) m sz now of (h, k) \<Rightarrow> (the h, k)))"

definition key_delete :: "SecurityCore \<Rightarrow> u32 \<Rightarrow> SecurityCore" where
  "key_delete c k = the (fst (security_delete_encryption_key (Some c) k))"

interpretation user_table: shrinking_table user_create user_delete sc_users us_user_id
  by unfold_locales
     (auto simp: user_create_def user_delete_def security_create_user_def security_delete_user_def
       with_handle_Some Let_def split: if_splits)

interpretation key_table: shrinking_table key_create key_delete sc_keys ek_key_id
  by unfold_locales
     (auto simp: key_create_def key_delete_def security_create_encryption_key_def
       security_delete_encryption_key_def with_handle_Some Let_def split: if_splits)

end
