(* ===== verification/Memory_Manager.thy ===== *)
theory Memory_Manager
  imports Contracts
begin

text \<open>
  The block allocator of \<open>mm/memory_manager.c\<close>: a table of blocks over \<open>malloc\<close>, \<open>realloc\<close> and
  \<open>free\<close>, whose results are arguments (\<open>0\<close> is \<open>NULL\<close>). The table has \<open>max_blocks\<close> slots; the list
  holds the \<open>block_count\<close> slots in use so far.
\<close>

section \<open>State and operations\<close>

record MemoryBlock =
  mb_ptr :: ptr
  mb_size :: u64
  mb_in_use :: bool

record MemoryManager =
  mm_blocks :: "MemoryBlock list"
  mm_max_blocks :: u32
  mm_total_allocated :: u64
  mm_total_freed :: u64

definition memory_manager_init :: "bool \<Rightarrow> bool \<Rightarrow> u32 \<Rightarrow> MemoryManager option" where
  "memory_manager_init malloc_ok blocks_ok max_blocks =
     (if \<not> malloc_ok then None
      else if \<not> blocks_ok then None
      else Some \<lparr>mm_blocks = [], mm_max_blocks = max_blocks, mm_total_allocated = 0, mm_total_freed = 0\<rparr>)"

text \<open>The pointers the cleanup gives back to \<open>free\<close> are the second result.\<close>

definition memory_manager_cleanup :: "MemoryManager option \<Rightarrow> MemoryManager option \<times> ptr list" where
  "memory_manager_cleanup h = (case h of None \<Rightarrow> (None, [])
     | Some m \<Rightarrow> (None, map mb_ptr (filter (\<lambda>b. mb_in_use b \<and> mb_ptr b \<noteq> 0) (mm_blocks m))))"

definition memory_allocate :: "MemoryManager option \<Rightarrow> u64 \<Rightarrow> ptr \<Rightarrow> MemoryManager option \<times> ptr" where
  "memory_allocate h sz p = with_handle 0 h (\<lambda>m.
     if sz = 0 \<or> of_nat (length (mm_blocks m)) \<ge> mm_max_blocks m then (m, 0)
     else if p = 0 then (m, 0)
     else (m\<lparr>mm_blocks := mm_blocks m @ [\<lparr>mb_ptr = p, mb_size = sz, mb_in_use = True\<rparr>],
             mm_total_allocated := mm_total_allocated m + sz\<rparr>, p))"

text \<open>The second result of \<open>memory_free\<close> says whether the pointer was given to \<open>free\<close>.\<close>

definition memory_free :: "MemoryManager option \<Rightarrow> ptr \<Rightarrow> MemoryManager option \<times> bool" where
  "memory_free h p = with_handle False h (\<lambda>m.
     if p = 0 then (m, False)
     else case first_idx (\<lambda>b. mb_ptr b = p \<and> mb_in_use b) (mm_blocks m) of
       None \<Rightarrow> (m, False)
     | Some i \<Rightarrow>
         let b = mm_blocks m ! i
         in (m\<lparr>mm_blocks := (mm_blocks m)[i := b\<lparr>mb_in_use := False\<rparr>],
               mm_total_freed := mm_total_freed m + mb_size b\<rparr>, True))"

definition memory_reallocate ::
    "MemoryManager option \<Rightarrow> ptr \<Rightarrow> u64 \<Rightarrow> ptr \<Rightarrow> MemoryManager option \<times> ptr" where
  "memory_reallocate h p new_size new_p = with_handle 0 h (\<lambda>m.
     if new_size = 0 then (m, 0)
     else case first_idx (\<lambda>b. mb_ptr b = p \<and> mb_in_use b) (mm_blocks m) of
       None \<Rightarrow> (m, 0)
     | Some i \<Rightarrow>
         if new_p = 0 then (m, 0)
         else let b = mm_blocks m ! i
         in (m\<lparr>mm_blocks := (mm_blocks m)[i := b\<lparr>mb_ptr := new_p, mb_size := new_size\<rparr>],
               mm_total_allocated := mm_total_allocated m + (new_size - mb_size b)\<rparr>, new_p))"

definition memory_get_usage :: "MemoryManager option \<Rightarrow> u64" where
  "memory_get_usage h = read_handle 0 h (\<lambda>m. mm_total_allocated m - mm_total_freed m)"

text \<open>
  A product of two \<open>int\<close> operands is undefined outside the 32-bit range. The available memory
  starts from the constant expression \<open>8 * 1024 * 1024 * 1024\<close>, whose operands are \<open>int\<close>.
\<close>

definition int_mul :: "int outcome \<Rightarrow> int \<Rightarrow> int outcome" where
  "int_mul x b = (case x of Undef \<Rightarrow> Undef
     | Done a \<Rightarrow> if - (2 ^ 31) \<le> a * b \<and> a * b < 2 ^ 31 then Done (a * b) else Undef)"

definition memory_get_available :: "MemoryManager option \<Rightarrow> u64 outcome" where
  "memory_get_available h = read_handle (Done 0) h (\<lambda>m.
     case int_mul (int_mul (int_mul (Done 8) 1024) 1024) 1024 of
       Undef \<Rightarrow> Undef
     | Done n \<Rightarrow> Done (of_int n - memory_get_usage (Some m)))"

definition memory_defragment :: "MemoryManager option \<Rightarrow> MemoryManager option" where
  "memory_defragment h = h"

section \<open>Histories\<close>

datatype mem_call = MemAlloc u64 ptr | MemFree ptr | MemRealloc ptr u64 ptr

fun mem_apply :: "MemoryManager \<Rightarrow> mem_call \<Rightarrow> MemoryManager \<times> ptr" where
  "mem_apply m (MemAlloc sz p) = (case memory_allocate (Some m) sz p of (h, q) \<Rightarrow> (the h, q))"
| "mem_apply m (MemFree p) = (the (fst (memory_free (Some m) p)), 0)"
| "mem_apply m (MemRealloc p sz q) = (case memory_reallocate (Some m) p sz q of (h, q) \<Rightarrow> (the h, q))"

definition mem_step :: "MemoryManager \<Rightarrow> MemoryManager \<Rightarrow> bool" where
  "mem_step m m' \<longleftrightarrow> (\<exists>x. m' = fst (mem_apply m x))"

abbreviation mem_reachable :: "MemoryManager \<Rightarrow> bool" where
  "mem_reachable \<equiv> reach (\<lambda>m. \<exists>n. memory_manager_init True True n = Some m) mem_step"

definition block_weight :: "MemoryBlock \<Rightarrow> u64" where
  "block_weight b = (if mb_in_use b then mb_size b else 0)"

definition mem_inv :: "MemoryManager \<Rightarrow> bool" where
  "mem_inv m \<longleftrightarrow> length (mm_blocks m) \<le> unat (mm_max_blocks m) \<and>
     mm_total_allocated m - mm_total_freed m = sum_list (map block_weight (mm_blocks m))"

lemma sum_list_word_update:
  fixes f :: "'a \<Rightarrow> u64"
  assumes "i < length xs"
  shows "sum_list (map f (xs[i := y])) = sum_list (map f xs) + (f y - f (xs ! i))"
  using assms
proof (induction xs arbitrary: i)
  case (Cons x xs)
  then show ?case by (cases i) (auto simp: algebra_simps)
qed simp

lemma mem_alloc_room:
  assumes "length xs \<le> unat n" and "\<not> (n :: u32) \<le> of_nat (length xs)"
  shows "Suc (length xs) \<le> unat n"
proof -
  have "length xs < 2 ^ 32" using assms(1) unsigned_less [of n, where 'a = nat] by (simp add: le_less_trans)
  with assms(2) show ?thesis by (simp add: not_le word_less_nat_alt unat_of_nat_u32)
qed

lemma mem_inv_apply: "mem_inv m \<Longrightarrow> mem_inv (fst (mem_apply m x))"
proof (cases x)
  case (MemAlloc sz p)
  assume "mem_inv m"
  with MemAlloc mem_alloc_room [of "mm_blocks m" "mm_max_blocks m"] show ?thesis
    by (auto simp: memory_allocate_def with_handle_Some mem_inv_def block_weight_def algebra_simps)
next
  case (MemFree p)
  assume a: "mem_inv m"
  have "i < length (mm_blocks m) \<and> mb_in_use (mm_blocks m ! i)"
    if "first_idx (\<lambda>b. mb_ptr b = p \<and> mb_in_use b) (mm_blocks m) = Some i" for i
    using first_idx_SomeD [OF that] by simp
  with a MemFree show ?thesis
    by (auto simp: memory_free_def mem_inv_def sum_list_word_update block_weight_def Let_def algebra_simps
        split: option.split)
next
  case (MemRealloc p sz q)
  assume a: "mem_inv m"
  have "i < length (mm_blocks m) \<and> mb_in_use (mm_blocks m ! i)"
    if "first_idx (\<lambda>b. mb_ptr b = p \<and> mb_in_use b) (mm_blocks m) = Some i" for i
    using first_idx_SomeD [OF that] by simp
  with a MemRealloc show ?thesis
    by (auto simp: memory_reallocate_def with_handle_Some mem_inv_def sum_list_word_update block_weight_def
        Let_def algebra_simps split: option.split)
qed

interpretation mem: invariant_system
  "\<lambda>m. \<exists>n. memory_manager_init True True n = Some m" mem_step mem_inv
proof
  show "\<exists>n. memory_manager_init True True n = Some m \<Longrightarrow> mem_inv m" for m
    by (auto simp: memory_manager_init_def mem_inv_def)
  show "mem_step m m' \<Longrightarrow> mem_inv m \<Longrightarrow> mem_inv m'" for m m'
    by (auto simp: mem_step_def mem_inv_apply)
qed

section \<open>Slots\<close>

fun mem_run :: "MemoryManager \<Rightarrow> mem_call list \<Rightarrow> MemoryManager \<times> nat" where
  "mem_run m [] = (m, 0)"
| "mem_run m (x # xs) =
     (let (m', q) = mem_apply m x; (m'', n) = mem_run m' xs
      in (m'', (case x of MemAlloc sz p \<Rightarrow> if q \<noteq> 0 then Suc n else n | _ \<Rightarrow> n)))"

lemma mem_apply_slots:
  "mm_max_blocks (fst (mem_apply m x)) = mm_max_blocks m \<and>
   length (mm_blocks (fst (mem_apply m x))) = length (mm_blocks m) +
     (case x of MemAlloc sz p \<Rightarrow> if snd (mem_apply m x) \<noteq> 0 then 1 else 0 | _ \<Rightarrow> 0)"
  by (cases x) (auto simp: memory_allocate_def memory_free_def memory_reallocate_def with_handle_Some
      Let_def split: option.split)

lemma mem_run_slots:
  "mem_run m xs = (m', n) \<Longrightarrow> mem_inv m \<Longrightarrow>
   mm_max_blocks m' = mm_max_blocks m \<and> length (mm_blocks m') = length (mm_blocks m) + n \<and> mem_inv m'"
proof (induction xs arbitrary: m n)
  case (Cons x xs)
  obtain m1 q where 1: "mem_apply m x = (m1, q)" by fastforce
  obtain k where 2: "mem_run m1 xs = (m', k)"
    using Cons.prems(1) 1 by (auto split: prod.splits)
  with Cons.IH [OF 2] mem_inv_apply [of m x] mem_apply_slots [of m x] Cons.prems 1
  show ?case by (cases x) auto
qed simp

section \<open>Properties\<close>

definition mem_two_slots :: MemoryManager where
  "mem_two_slots = the (memory_manager_init True True 2)"

text \<open>
  The reported usage is the memory in use: in every reachable state \<open>memory_get_usage\<close>
  is the sum of the sizes of the blocks in use (modulo 2^64), through any history of
  allocations, releases and reallocations, whatever addresses the C allocator returns.
\<close>

lemma memory_usage_exact:
  assumes "mem_reachable m"
  shows "memory_get_usage (Some m) = sum_list (map mb_size (filter mb_in_use (mm_blocks m)))"
proof -
  have "sum_list (map block_weight xs) = sum_list (map mb_size (filter mb_in_use xs))" for xs
    by (induction xs) (auto simp: block_weight_def)
  with mem.inv_reachable [OF assms] show ?thesis by (simp add: memory_get_usage_def mem_inv_def)
qed

lemma memory_usage_exact_witness:
  "memory_get_usage (Some (fst (mem_apply (fst (mem_apply mem_two_slots (MemAlloc 100 4096))) (MemRealloc 4096 40 8192))))
     = 40"
proof -
  let ?m = "fst (mem_apply (fst (mem_apply mem_two_slots (MemAlloc 100 4096))) (MemRealloc 4096 40 8192))"
  have "mem_reachable mem_two_slots"
    by (rule reach_init) (auto simp: mem_two_slots_def memory_manager_init_def)
  moreover have "mem_step m (fst (mem_apply m x))" for m x by (auto simp: mem_step_def)
  ultimately have "mem_reachable ?m" by (meson reach_step)
  from memory_usage_exact [OF this] show ?thesis
    by (simp add: mem_two_slots_def memory_manager_init_def memory_allocate_def memory_reallocate_def
        with_handle_Some Let_def)
qed

text \<open>
  Slots are never reused: over any history from the start, the number of allocations
  that succeed is at most \<open>max_blocks\<close>, however many blocks were freed in between, and once it is
  reached every further allocation fails.
\<close>

lemma memory_slots_never_reused:
  assumes "memory_manager_init True True n = Some m" and "mem_run m calls = (m', k)"
  shows "k \<le> unat n \<and> (k = unat n \<longrightarrow> snd (memory_allocate (Some m') sz p) = 0)"
proof -
  have "mem_inv m" "mm_blocks m = []" "mm_max_blocks m = n"
    using assms(1) by (auto simp: memory_manager_init_def mem_inv_def)
  with mem_run_slots [OF assms(2)] have "length (mm_blocks m') = k" "mm_max_blocks m' = n" "k \<le> unat n"
    by (auto simp: mem_inv_def)
  then show ?thesis by (auto simp: memory_allocate_def with_handle_Some)
qed

lemma memory_slots_never_reused_witness:
  "snd (memory_allocate (Some (fst (mem_run mem_two_slots
     [MemAlloc 10 4096, MemFree 4096, MemAlloc 10 4096, MemFree 4096]))) 10 4096) = 0"
proof -
  let ?r = "mem_run mem_two_slots [MemAlloc 10 4096, MemFree 4096, MemAlloc 10 4096, MemFree 4096]"
  have "snd ?r = 2"
    by (simp add: mem_two_slots_def memory_manager_init_def memory_allocate_def memory_free_def
        with_handle_Some word_le_nat_alt Let_def)
  moreover have "memory_manager_init True True 2 = Some mem_two_slots"
    by (simp add: mem_two_slots_def memory_manager_init_def)
  ultimately show ?thesis
    using memory_slots_never_reused [of 2 mem_two_slots _ "fst ?r" "snd ?r" 10 4096]
    by (simp add: prod_eq_iff del: mem_run.simps)
qed

text \<open>
  \<open>memory_get_available\<close> evaluates a constant expression that overflows \<open>int\<close>, for every manager.
\<close>

lemma memory_available_undefined: "memory_get_available (Some m) = Undef"
  by (simp add: memory_get_available_def int_mul_def)

end
