(* ===== verification/Virtual_Memory.thy ===== *)
theory Virtual_Memory
  imports Contracts
begin

text \<open>
  The page tables of \<open>mm/virtual_memory.c\<close>. A page table is an array of entries filled in order;
  a page number is an index into it. The results of \<open>malloc\<close> are arguments. The bytes of the
  physical memory and of the swap area are allocated and never accessed, so only their addresses
  are kept.
\<close>

section \<open>State\<close>

definition PAGE_SIZE :: u64 where "PAGE_SIZE = 4096"
definition MAX_PAGE_TABLES :: nat where "MAX_PAGE_TABLES = 65536"

datatype PageState = PAGE_PRESENT | PAGE_ABSENT | PAGE_SWAPPED | PAGE_PROTECTED | PAGE_READONLY

record PageTableEntry =
  pe_page_number :: u32
  pe_frame_number :: u32
  pe_state :: PageState
  pe_accessed :: bool
  pe_dirty :: bool
  pe_writable :: bool
  pe_last_accessed :: time_t

record PageTable =
  pt_page_table_id :: u32
  pt_entries :: "PageTableEntry list"
  pt_max_entries :: u32
  pt_virtual_start :: u64
  pt_virtual_end :: u64

record VirtualMemoryManager =
  vm_page_tables :: "PageTable list"
  vm_max_page_tables :: u32
  vm_physical_memory :: ptr
  vm_total_physical_memory :: u64
  vm_used_physical_memory :: u64
  vm_page_faults :: u32
  vm_swaps :: u32
  vm_swap_storage :: ptr
  vm_swap_size :: u64

section \<open>Operations\<close>

definition vm_init :: "bool \<Rightarrow> bool \<Rightarrow> ptr \<Rightarrow> ptr \<Rightarrow> u64 \<Rightarrow> VirtualMemoryManager option" where
  "vm_init malloc_ok tables_ok memory swap physical_memory_size =
     (if \<not> malloc_ok then None
      else if \<not> tables_ok then None
      else if memory = 0 then None
      else if swap = 0 then None
      else Some \<lparr>vm_page_tables = [], vm_max_page_tables = of_nat MAX_PAGE_TABLES,
                 vm_physical_memory = memory, vm_total_physical_memory = physical_memory_size,
                 vm_used_physical_memory = 0, vm_page_faults = 0, vm_swaps = 0,
                 vm_swap_storage = swap, vm_swap_size = physical_memory_size * 2\<rparr>)"

text \<open>The cleanup frees the arrays of all page tables, the three areas and the manager.\<close>

definition vm_cleanup :: "VirtualMemoryManager option \<Rightarrow> VirtualMemoryManager option" where
  "vm_cleanup h = None"

definition vm_create_page_table ::
    "VirtualMemoryManager option \<Rightarrow> u64 \<Rightarrow> u64 \<Rightarrow> bool \<Rightarrow> VirtualMemoryManager option \<times> int" where
  "vm_create_page_table h virtual_start virtual_end entries_ok = with_handle (-1) h (\<lambda>v.
     if length (vm_page_tables v) \<ge> MAX_PAGE_TABLES then (v, -1)
     else if \<not> entries_ok then (v, -1)
     else let tid = of_nat (length (vm_page_tables v)) + 1;
              pt = \<lparr>pt_page_table_id = tid, pt_entries = [],
                    pt_max_entries = ucast ((virtual_end - virtual_start) div PAGE_SIZE + 1),
                    pt_virtual_start = virtual_start, pt_virtual_end = virtual_end\<rparr>
          in (v\<lparr>vm_page_tables := vm_page_tables v @ [pt]\<rparr>, sint tid))"

definition vm_allocate_page ::
    "VirtualMemoryManager option \<Rightarrow> u32 \<Rightarrow> time_t \<Rightarrow> VirtualMemoryManager option \<times> u32" where
  "vm_allocate_page h page_table_id now = with_handle 0 h (\<lambda>v.
     case slot_of page_table_id (vm_page_tables v) of None \<Rightarrow> (v, 0)
     | Some i \<Rightarrow>
         let pt = vm_page_tables v ! i; entry_count = of_nat (length (pt_entries pt)) in
         if entry_count \<ge> pt_max_entries pt then (v, 0)
         else let pte = \<lparr>pe_page_number = entry_count, pe_frame_number = 0, pe_state = PAGE_ABSENT,
                         pe_accessed = False, pe_dirty = False, pe_writable = True,
                         pe_last_accessed = now\<rparr>
              in (v\<lparr>vm_page_tables := (vm_page_tables v)[i := pt\<lparr>pt_entries := pt_entries pt @ [pte]\<rparr>]\<rparr>,
                  entry_count))"

text \<open>
  The operations on one entry share their guards: the page table must exist and the page number
  be below its entry count. \<open>f\<close> is what the operation does to the entry, \<open>g\<close> to the manager.
\<close>

definition on_entry ::
    "VirtualMemoryManager option \<Rightarrow> u32 \<Rightarrow> u32 \<Rightarrow> (PageTableEntry \<Rightarrow> PageTableEntry) \<Rightarrow>
     (VirtualMemoryManager \<Rightarrow> VirtualMemoryManager) \<Rightarrow> VirtualMemoryManager option \<times> int" where
  "on_entry h page_table_id page_number f g = with_handle (-1) h (\<lambda>v.
     case slot_of page_table_id (vm_page_tables v) of None \<Rightarrow> (v, -1)
     | Some i \<Rightarrow>
         let pt = vm_page_tables v ! i; n = unat page_number in
         if n \<ge> length (pt_entries pt) then (v, -1)
         else (g (v\<lparr>vm_page_tables := (vm_page_tables v)[i :=
                  pt\<lparr>pt_entries := (pt_entries pt)[n := f (pt_entries pt ! n)]\<rparr>]\<rparr>), 0))"

definition vm_free_page ::
    "VirtualMemoryManager option \<Rightarrow> u32 \<Rightarrow> u32 \<Rightarrow> VirtualMemoryManager option \<times> int" where
  "vm_free_page h page_table_id page_number =
     on_entry h page_table_id page_number (\<lambda>e. e\<lparr>pe_state := PAGE_ABSENT, pe_frame_number := 0\<rparr>) (\<lambda>v. v)"

definition vm_map_virtual_to_physical ::
    "VirtualMemoryManager option \<Rightarrow> u32 \<Rightarrow> u32 \<Rightarrow> u32 \<Rightarrow> VirtualMemoryManager option \<times> int" where
  "vm_map_virtual_to_physical h page_table_id virtual_page physical_frame =
     on_entry h page_table_id virtual_page
       (\<lambda>e. e\<lparr>pe_frame_number := physical_frame, pe_state := PAGE_PRESENT\<rparr>) (\<lambda>v. v)"

definition vm_handle_page_fault ::
    "VirtualMemoryManager option \<Rightarrow> u32 \<Rightarrow> u32 \<Rightarrow> time_t \<Rightarrow> VirtualMemoryManager option \<times> int" where
  "vm_handle_page_fault h page_table_id page_number now =
     on_entry h page_table_id page_number
       (\<lambda>e. e\<lparr>pe_state := PAGE_PRESENT, pe_accessed := True, pe_last_accessed := now\<rparr>)
       (\<lambda>v. v\<lparr>vm_page_faults := vm_page_faults v + 1\<rparr>)"

definition vm_swap_page ::
    "VirtualMemoryManager option \<Rightarrow> u32 \<Rightarrow> u32 \<Rightarrow> VirtualMemoryManager option \<times> int" where
  "vm_swap_page h page_table_id page_number =
     on_entry h page_table_id page_number (\<lambda>e. e\<lparr>pe_state := PAGE_SWAPPED\<rparr>)
       (\<lambda>v. v\<lparr>vm_swaps := vm_swaps v + 1\<rparr>)"

definition vm_get_available_memory :: "VirtualMemoryManager option \<Rightarrow> u64" where
  "vm_get_available_memory h =
     read_handle 0 h (\<lambda>v. vm_total_physical_memory v - vm_used_physical_memory v)"

definition vm_get_page_fault_count :: "VirtualMemoryManager option \<Rightarrow> u32" where
  "vm_get_page_fault_count h = read_handle 0 h vm_page_faults"

definition vm_set_page_protection ::
    "VirtualMemoryManager option \<Rightarrow> u32 \<Rightarrow> u32 \<Rightarrow> bool \<Rightarrow> VirtualMemoryManager option \<times> int" where
  "vm_set_page_protection h page_table_id page_number writable =
     on_entry h page_table_id page_number (\<lambda>e. e\<lparr>pe_writable := writable\<rparr>) (\<lambda>v. v)"

section \<open>Pages\<close>

definition page_of :: "VirtualMemoryManager \<Rightarrow> u32 \<Rightarrow> u32 \<Rightarrow> PageTableEntry option" where
  "page_of v t n = (case slot_get t (vm_page_tables v) of None \<Rightarrow> None
     | Some pt \<Rightarrow> if unat n < length (pt_entries pt) then Some (pt_entries pt ! unat n) else None)"

lemma on_entry_page:
  assumes "on_entry (Some v) t n f g = (Some v', r)" and "\<And>w. vm_page_tables (g w) = vm_page_tables w"
  shows "(r = 0 \<longleftrightarrow> page_of v t n \<noteq> None) \<and> r \<in> {0, -1} \<and>
    page_of v' t' n' = (if t' = t \<and> n' = n then map_option f (page_of v t n) else page_of v t' n')"
proof (cases "slot_of t (vm_page_tables v)")
  case None
  with assms(1) have "v' = v" "r = -1" by (auto simp: on_entry_def)
  with None show ?thesis by (auto simp: page_of_def slot_get_None)
next
  case (Some i)
  let ?pt = "vm_page_tables v ! i"
  have pt: "slot_get t (vm_page_tables v) = Some ?pt" using Some by (simp add: slot_get_def)
  show ?thesis
  proof (cases "unat n < length (pt_entries ?pt)")
    case False
    with assms(1) Some have "v' = v" "r = -1" by (auto simp: on_entry_def Let_def)
    with pt False show ?thesis by (auto simp: page_of_def)
  next
    case True
    let ?pt' = "?pt\<lparr>pt_entries := (pt_entries ?pt)[unat n := f (pt_entries ?pt ! unat n)]\<rparr>"
    have r: "r = 0" and v': "vm_page_tables v' = (vm_page_tables v)[i := ?pt']"
      using assms Some True by (auto simp: on_entry_def Let_def)
    have n': "unat n' \<noteq> unat n" if "n' \<noteq> n" using that by (metis word_unat_eq_iff)
    show ?thesis
    proof (cases "t' = t")
      case False
      with v' r pt True slot_get_update_other [OF Some] show ?thesis by (simp add: page_of_def)
    next
      case t: True
      with v' r pt True slot_get_update [OF Some] n' show ?thesis by (auto simp: page_of_def)
    qed
  qed
qed

section \<open>Histories\<close>

datatype vm_call =
  VmCreate u64 u64 bool | VmAllocate u32 time_t | VmFree u32 u32 | VmMap u32 u32 u32
  | VmFault u32 u32 time_t | VmSwap u32 u32 | VmProtect u32 u32 bool

fun vm_apply :: "VirtualMemoryManager \<Rightarrow> vm_call \<Rightarrow> VirtualMemoryManager" where
  "vm_apply v (VmCreate a b ok) = the (fst (vm_create_page_table (Some v) a b ok))"
| "vm_apply v (VmAllocate t now) = the (fst (vm_allocate_page (Some v) t now))"
| "vm_apply v (VmFree t n) = the (fst (vm_free_page (Some v) t n))"
| "vm_apply v (VmMap t n fr) = the (fst (vm_map_virtual_to_physical (Some v) t n fr))"
| "vm_apply v (VmFault t n now) = the (fst (vm_handle_page_fault (Some v) t n now))"
| "vm_apply v (VmSwap t n) = the (fst (vm_swap_page (Some v) t n))"
| "vm_apply v (VmProtect t n w) = the (fst (vm_set_page_protection (Some v) t n w))"

text \<open>What a call does to an existing page it names.\<close>

fun page_effect :: "vm_call \<Rightarrow> u32 \<Rightarrow> u32 \<Rightarrow> PageTableEntry \<Rightarrow> PageTableEntry" where
  "page_effect (VmFree t n) t' n' e =
     (if t = t' \<and> n = n' then e\<lparr>pe_state := PAGE_ABSENT, pe_frame_number := 0\<rparr> else e)"
| "page_effect (VmMap t n fr) t' n' e =
     (if t = t' \<and> n = n' then e\<lparr>pe_frame_number := fr, pe_state := PAGE_PRESENT\<rparr> else e)"
| "page_effect (VmFault t n now) t' n' e =
     (if t = t' \<and> n = n' then e\<lparr>pe_state := PAGE_PRESENT, pe_accessed := True, pe_last_accessed := now\<rparr>
      else e)"
| "page_effect (VmSwap t n) t' n' e = (if t = t' \<and> n = n' then e\<lparr>pe_state := PAGE_SWAPPED\<rparr> else e)"
| "page_effect (VmProtect t n w) t' n' e = (if t = t' \<and> n = n' then e\<lparr>pe_writable := w\<rparr> else e)"
| "page_effect _ t' n' e = e"

lemma on_entry_apply:
  assumes "\<And>w. vm_page_tables (g w) = vm_page_tables w" and "page_of v t' n' = Some e"
  shows "page_of (the (fst (on_entry (Some v) t n f g))) t' n' = Some (if t = t' \<and> n = n' then f e else e)"
proof -
  obtain v' r where 1: "on_entry (Some v) t n f g = (Some v', r)"
    by (simp add: on_entry_def with_handle_Some)
  with on_entry_page [OF 1 assms(1), of t' n'] assms(2) show ?thesis by auto
qed

lemma vm_create_tables:
  "vm_page_tables (vm_apply v (VmCreate a b ok)) = vm_page_tables v \<or>
   length (vm_page_tables v) < MAX_PAGE_TABLES \<and>
   (\<exists>pt. vm_page_tables (vm_apply v (VmCreate a b ok)) = vm_page_tables v @ [pt])"
  by (auto simp: vm_create_page_table_def Let_def)

lemma vm_apply_bounded:
  "length (vm_page_tables v) \<le> MAX_PAGE_TABLES \<Longrightarrow> length (vm_page_tables (vm_apply v x)) \<le> MAX_PAGE_TABLES"
  by (cases x)
     (auto simp: vm_create_page_table_def vm_allocate_page_def vm_free_page_def vm_map_virtual_to_physical_def
       vm_handle_page_fault_def vm_swap_page_def vm_set_page_protection_def on_entry_def Let_def
       split: option.split)

lemma vm_apply_page:
  assumes "page_of v t n = Some e" and "length (vm_page_tables v) \<le> MAX_PAGE_TABLES"
  shows "page_of (vm_apply v x) t n = Some (page_effect x t n e)"
proof (cases x)
  case (VmCreate a b ok)
  have "slot_get t (vm_page_tables v @ [pt]) = slot_get t (vm_page_tables v)" for pt
    using slot_get_snoc [of "vm_page_tables v"] assms by (auto simp: page_of_def MAX_PAGE_TABLES_def split: option.splits)
  with VmCreate assms(1) vm_create_tables [of v a b ok] show ?thesis by (auto simp: page_of_def)
next
  case (VmAllocate s now)
  show ?thesis
  proof (cases "slot_of s (vm_page_tables v)")
    case None
    with VmAllocate assms(1) show ?thesis by (simp add: vm_allocate_page_def)
  next
    case (Some i)
    have pt: "slot_get s (vm_page_tables v) = Some (vm_page_tables v ! i)" using Some by (simp add: slot_get_def)
    show ?thesis
      using VmAllocate assms(1) Some pt slot_get_update [OF Some] slot_get_update_other [OF Some, of t]
      by (cases "s = t") (auto simp: vm_allocate_page_def page_of_def Let_def nth_append split: if_splits option.splits)
  qed
qed (use assms in \<open>simp_all add: vm_free_page_def vm_map_virtual_to_physical_def vm_handle_page_fault_def
      vm_swap_page_def vm_set_page_protection_def on_entry_apply\<close>)

lemma vm_run_page:
  "page_of v t n = Some e \<Longrightarrow> length (vm_page_tables v) \<le> MAX_PAGE_TABLES \<Longrightarrow>
   page_of (foldl vm_apply v xs) t n = Some (fold (\<lambda>x. page_effect x t n) xs e)"
  by (induction xs arbitrary: v e) (auto simp: vm_apply_page vm_apply_bounded)

lemma vm_apply_memory:
  "vm_total_physical_memory (vm_apply v x) = vm_total_physical_memory v \<and>
   vm_used_physical_memory (vm_apply v x) = vm_used_physical_memory v"
  by (cases x)
     (auto simp: vm_create_page_table_def vm_allocate_page_def vm_free_page_def vm_map_virtual_to_physical_def
       vm_handle_page_fault_def vm_swap_page_def vm_set_page_protection_def on_entry_def Let_def
       split: option.split)

section \<open>Properties\<close>

definition vm_start :: VirtualMemoryManager where "vm_start = the (vm_init True True 4096 8192 65536)"

definition vm_two_pages :: VirtualMemoryManager where
  "vm_two_pages = foldl vm_apply vm_start [VmCreate 0 8191 True, VmAllocate 1 5, VmAllocate 1 5]"

lemmas vm_op_defs = vm_create_page_table_def vm_allocate_page_def vm_free_page_def
  vm_map_virtual_to_physical_def vm_handle_page_fault_def vm_swap_page_def vm_set_page_protection_def
  on_entry_def

lemma vm_two_pages_tables: "vm_page_tables vm_two_pages = [\<lparr>pt_page_table_id = 1,
    pt_entries = [\<lparr>pe_page_number = 0, pe_frame_number = 0, pe_state = PAGE_ABSENT, pe_accessed = False,
                   pe_dirty = False, pe_writable = True, pe_last_accessed = 5\<rparr>,
                  \<lparr>pe_page_number = 1, pe_frame_number = 0, pe_state = PAGE_ABSENT, pe_accessed = False,
                   pe_dirty = False, pe_writable = True, pe_last_accessed = 5\<rparr>],
    pt_max_entries = 2, pt_virtual_start = 0, pt_virtual_end = 8191\<rparr>]"
  by (simp add: vm_two_pages_def vm_start_def vm_init_def vm_op_defs slot_of_def MAX_PAGE_TABLES_def
      PAGE_SIZE_def Let_def word_le_nat_alt)

text \<open>
  Isolation of pages: over any history of calls, an existing page ends up as the calls
  that name exactly this table and page make it, in their order; calls on other pages, other
  tables, creations and allocations leave it alone. In particular a mapped page keeps its frame
  until it is freed or mapped again.
\<close>

lemma vm_page_isolation:
  assumes "page_of v t n = Some e" and "length (vm_page_tables v) \<le> 65536"
    and "\<forall>x\<in>set calls. x \<noteq> VmFree t n \<and> (\<forall>fr. x \<noteq> VmMap t n fr)"
  shows "page_of (foldl vm_apply v calls) t n = Some (fold (\<lambda>x. page_effect x t n) calls e) \<and>
    pe_frame_number (fold (\<lambda>x. page_effect x t n) calls e) = pe_frame_number e"
proof
  show "page_of (foldl vm_apply v calls) t n = Some (fold (\<lambda>x. page_effect x t n) calls e)"
    using vm_run_page assms(1,2) by (simp add: MAX_PAGE_TABLES_def)
  have "pe_frame_number (page_effect x t n e) = pe_frame_number e"
    if "x \<noteq> VmFree t n" "\<forall>fr. x \<noteq> VmMap t n fr" for x e
    using that by (cases x) auto
  then show "pe_frame_number (fold (\<lambda>x. page_effect x t n) calls e) = pe_frame_number e"
    using assms(3) by (induction calls arbitrary: e) auto
qed

lemma vm_page_isolation_witness:
  "map_option pe_frame_number (page_of (foldl vm_apply vm_two_pages
     [VmMap 1 1 7, VmMap 1 0 3, VmFree 1 1, VmSwap 1 0, VmFault 1 0 9]) 1 0) = Some 3"
proof -
  let ?v = "foldl vm_apply vm_two_pages [VmMap 1 1 7, VmMap 1 0 3]"
  have "map_option pe_frame_number (page_of ?v 1 0) = Some 3" "length (vm_page_tables ?v) \<le> 65536"
    by (simp_all add: vm_op_defs slot_of_def slot_get_def vm_two_pages_tables page_of_def Let_def)
  then obtain e where e: "page_of ?v 1 0 = Some e" "pe_frame_number e = 3" "length (vm_page_tables ?v) \<le> 65536"
    by auto
  have "page_of (foldl vm_apply ?v [VmFree 1 1, VmSwap 1 0, VmFault 1 0 9]) 1 0 =
      Some (fold (\<lambda>x. page_effect x 1 0) [VmFree 1 1, VmSwap 1 0, VmFault 1 0 9] e) \<and>
    pe_frame_number (fold (\<lambda>x. page_effect x 1 0) [VmFree 1 1, VmSwap 1 0, VmFault 1 0 9] e) = pe_frame_number e"
    by (rule vm_page_isolation [OF e(1,3)]) simp
  with e(2) show ?thesis by simp
qed

text \<open>
  The manager never accounts for memory: over any history of calls the available memory
  stays what it was, no matter how many pages are mapped or faulted in; and two pages that are
  brought in by page faults both get frame 0.
\<close>

lemma vm_frames_unaccounted:
  "vm_get_available_memory (Some (foldl vm_apply v calls)) = vm_get_available_memory (Some v) \<and>
   map_option (\<lambda>e. (pe_state e, pe_frame_number e))
     (page_of (foldl vm_apply vm_two_pages [VmFault 1 0 9, VmFault 1 1 9]) 1 0) = Some (PAGE_PRESENT, 0) \<and>
   map_option (\<lambda>e. (pe_state e, pe_frame_number e))
     (page_of (foldl vm_apply vm_two_pages [VmFault 1 0 9, VmFault 1 1 9]) 1 1) = Some (PAGE_PRESENT, 0)"
proof (intro conjI)
  have "vm_total_physical_memory (foldl vm_apply v xs) = vm_total_physical_memory v \<and>
      vm_used_physical_memory (foldl vm_apply v xs) = vm_used_physical_memory v" for xs v
    by (induction xs arbitrary: v) (auto simp: vm_apply_memory)
  then show "vm_get_available_memory (Some (foldl vm_apply v calls)) = vm_get_available_memory (Some v)"
    by (simp add: vm_get_available_memory_def)
qed (simp_all add: vm_op_defs slot_of_def slot_get_def vm_two_pages_tables page_of_def Let_def)

text \<open>The number of the first page of a table is also the value that reports a failure.\<close>

lemma vm_first_page_is_zero:
  assumes "slot_get t (vm_page_tables v) = Some pt" and "pt_entries pt = []" and "0 < pt_max_entries pt"
  shows "snd (vm_allocate_page (Some v) t now) = 0 \<and>
    page_of (the (fst (vm_allocate_page (Some v) t now))) t 0 \<noteq> None"
proof -
  from assms(1) obtain i where i: "slot_of t (vm_page_tables v) = Some i" "vm_page_tables v ! i = pt"
    by (auto simp: slot_get_Some)
  show ?thesis
    using assms(2,3) i slot_get_update [OF i(1)]
    by (auto simp: vm_allocate_page_def page_of_def Let_def not_le)
qed

end
