(* ===== verification/Interrupts.thy ===== *)
theory Interrupts
  imports Contracts
begin

text \<open>
  The interrupt controller of \<open>kernel/interrupt_handler.c\<close>: 256 descriptors, each with a stack of
  up to 512 handlers. Handlers are function pointers; \<open>irq_handle\<close> returns the calls it makes, in
  their order, and assumes that they do not re-enter the controller.
\<close>

section \<open>State and operations\<close>

definition MAX_INTERRUPTS :: nat where "MAX_INTERRUPTS = 256"
definition MAX_IRQ_HANDLERS :: nat where "MAX_IRQ_HANDLERS = 512"

datatype IRQType =
  IRQ_TIMER | IRQ_KEYBOARD | IRQ_MOUSE | IRQ_SERIAL | IRQ_PARALLEL | IRQ_DISK | IRQ_NETWORK
  | IRQ_AUDIO | IRQ_USB | IRQ_CUSTOM

record InterruptDescriptor =
  id_irq_number :: u32
  id_type :: IRQType
  id_enabled :: bool
  id_priority :: u32
  id_handlers :: "ptr list"

record InterruptController =
  ic_interrupt_count :: u32
  ic_total_handled :: u32
  ic_last_interrupt_time :: time_t
  ic_descriptors :: "InterruptDescriptor list"

text \<open>
  \<open>handlers_ok i\<close> says whether the allocation of the \<open>i\<close>-th handler array succeeds; the first
  failure releases what was allocated and gives up. A descriptor that is all zero has type
  \<open>IRQ_TIMER\<close>.
\<close>

definition irq_controller_init :: "bool \<Rightarrow> (nat \<Rightarrow> bool) \<Rightarrow> InterruptController option" where
  "irq_controller_init malloc_ok handlers_ok =
     (if \<not> malloc_ok then None
      else if \<not> list_all handlers_ok [0..<MAX_INTERRUPTS] then None
      else Some \<lparr>ic_interrupt_count = 0, ic_total_handled = 0, ic_last_interrupt_time = 0,
                 ic_descriptors = map (\<lambda>i. \<lparr>id_irq_number = of_nat i, id_type = IRQ_TIMER,
                    id_enabled = False, id_priority = 0, id_handlers = []\<rparr>) [0..<MAX_INTERRUPTS]\<rparr>)"

definition irq_controller_cleanup :: "InterruptController option \<Rightarrow> InterruptController option" where
  "irq_controller_cleanup h = None"

definition irq_register_handler ::
    "InterruptController option \<Rightarrow> u32 \<Rightarrow> IRQType \<Rightarrow> ptr \<Rightarrow> u32 \<Rightarrow> InterruptController option \<times> int" where
  "irq_register_handler h irq_number typ handler priority = with_handle (-1) h (\<lambda>c.
     if unat irq_number \<ge> MAX_INTERRUPTS \<or> handler = 0 then (c, -1)
     else let i = unat irq_number; d = ic_descriptors c ! i in
     if length (id_handlers d) \<ge> MAX_IRQ_HANDLERS then (c, -1)
     else (c\<lparr>ic_descriptors := (ic_descriptors c)[i := d\<lparr>id_handlers := id_handlers d @ [handler],
               id_type := typ, id_priority := priority\<rparr>],
             ic_interrupt_count := ic_interrupt_count c + 1\<rparr>, 0))"

definition irq_unregister_handler ::
    "InterruptController option \<Rightarrow> u32 \<Rightarrow> InterruptController option \<times> int" where
  "irq_unregister_handler h irq_number = with_handle (-1) h (\<lambda>c.
     if unat irq_number \<ge> MAX_INTERRUPTS then (c, -1)
     else let i = unat irq_number; d = ic_descriptors c ! i in
     if length (id_handlers d) > 0
     then (c\<lparr>ic_descriptors := (ic_descriptors c)[i := d\<lparr>id_handlers := butlast (id_handlers d)\<rparr>],
             ic_interrupt_count := ic_interrupt_count c - 1\<rparr>, 0)
     else (c, -1))"

definition irq_enable :: "InterruptController option \<Rightarrow> u32 \<Rightarrow> InterruptController option \<times> int" where
  "irq_enable h irq_number = with_handle (-1) h (\<lambda>c.
     if unat irq_number \<ge> MAX_INTERRUPTS then (c, -1)
     else let i = unat irq_number
     in (c\<lparr>ic_descriptors := (ic_descriptors c)[i := (ic_descriptors c ! i)\<lparr>id_enabled := True\<rparr>]\<rparr>, 0))"

definition irq_disable :: "InterruptController option \<Rightarrow> u32 \<Rightarrow> InterruptController option \<times> int" where
  "irq_disable h irq_number = with_handle (-1) h (\<lambda>c.
     if unat irq_number \<ge> MAX_INTERRUPTS then (c, -1)
     else let i = unat irq_number
     in (c\<lparr>ic_descriptors := (ic_descriptors c)[i := (ic_descriptors c ! i)\<lparr>id_enabled := False\<rparr>]\<rparr>, 0))"

definition irq_handle ::
    "InterruptController option \<Rightarrow> u32 \<Rightarrow> time_t \<Rightarrow> InterruptController option \<times> (ptr \<times> u32) list" where
  "irq_handle h irq_number now = with_handle [] h (\<lambda>c.
     if unat irq_number \<ge> MAX_INTERRUPTS then (c, [])
     else let d = ic_descriptors c ! unat irq_number in
     if \<not> id_enabled d then (c, [])
     else (c\<lparr>ic_total_handled := ic_total_handled c + 1, ic_last_interrupt_time := now\<rparr>,
           map (\<lambda>f. (f, irq_number)) (filter (\<lambda>f. f \<noteq> 0) (id_handlers d))))"

definition irq_acknowledge :: "InterruptController option \<Rightarrow> u32 \<Rightarrow> InterruptController option" where
  "irq_acknowledge h irq_number = h"

definition irq_get_handler_count :: "InterruptController option \<Rightarrow> u32 \<Rightarrow> u32" where
  "irq_get_handler_count h irq_number = read_handle 0 h (\<lambda>c.
     if unat irq_number \<ge> MAX_INTERRUPTS then 0
     else of_nat (length (id_handlers (ic_descriptors c ! unat irq_number))))"

definition irq_get_total_interrupts_handled :: "InterruptController option \<Rightarrow> u32" where
  "irq_get_total_interrupts_handled h = read_handle 0 h ic_total_handled"

section \<open>Histories\<close>

datatype irq_call =
  IrqRegister u32 IRQType ptr u32 | IrqUnregister u32 | IrqEnable u32 | IrqDisable u32
  | IrqHandle u32 time_t

fun irq_apply :: "InterruptController \<Rightarrow> irq_call \<Rightarrow> InterruptController" where
  "irq_apply c (IrqRegister n t f p) = the (fst (irq_register_handler (Some c) n t f p))"
| "irq_apply c (IrqUnregister n) = the (fst (irq_unregister_handler (Some c) n))"
| "irq_apply c (IrqEnable n) = the (fst (irq_enable (Some c) n))"
| "irq_apply c (IrqDisable n) = the (fst (irq_disable (Some c) n))"
| "irq_apply c (IrqHandle n now) = the (fst (irq_handle (Some c) n now))"

definition irq_inv :: "InterruptController \<Rightarrow> bool" where
  "irq_inv c \<longleftrightarrow> length (ic_descriptors c) = MAX_INTERRUPTS \<and>
     list_all (\<lambda>d. length (id_handlers d) \<le> MAX_IRQ_HANDLERS \<and> 0 \<notin> set (id_handlers d)) (ic_descriptors c) \<and>
     ic_interrupt_count c = sum_list (map (\<lambda>d. of_nat (length (id_handlers d))) (ic_descriptors c))"

lemma sum_list_word_update32:
  fixes f :: "'a \<Rightarrow> u32"
  assumes "i < length xs"
  shows "sum_list (map f (xs[i := y])) = sum_list (map f xs) + (f y - f (xs ! i))"
  using assms
proof (induction xs arbitrary: i)
  case (Cons x xs)
  then show ?case by (cases i) (auto simp: algebra_simps)
qed simp

lemmas irq_op_defs = irq_register_handler_def irq_unregister_handler_def irq_enable_def
  irq_disable_def irq_handle_def

lemma irq_inv_apply:
  assumes "irq_inv c"
  shows "irq_inv (irq_apply c x)"
proof -
  have d: "length (id_handlers (ic_descriptors c ! unat n)) \<le> MAX_IRQ_HANDLERS \<and>
      0 \<notin> set (id_handlers (ic_descriptors c ! unat n))" if "unat n < MAX_INTERRUPTS" for n :: u32
    using assms that list_all_nth by (fastforce simp: irq_inv_def)
  then have b: "length (id_handlers (ic_descriptors c ! unat n)) - Suc 0 \<le> MAX_IRQ_HANDLERS \<and>
      0 \<notin> set (butlast (id_handlers (ic_descriptors c ! unat n)))" if "unat n < MAX_INTERRUPTS" for n :: u32
    using that by (meson in_set_butlastD diff_le_self order.trans)
  have pre: "(of_nat (length xs - Suc 0) :: u32) - of_nat (length xs) = -1" if "xs \<noteq> []" for xs :: "ptr list"
    using that by (cases xs) auto
  show ?thesis
    using assms d b
    by (cases x)
       (auto simp: irq_op_defs irq_inv_def Let_def sum_list_word_update32 pre not_le
         intro!: list_all_update)
qed

text \<open>The handlers an interrupt has, as a stack that registrations push and unregistrations pop.\<close>

fun irq_stack :: "u32 \<Rightarrow> irq_call \<Rightarrow> ptr list \<Rightarrow> ptr list" where
  "irq_stack k (IrqRegister n t f p) xs =
     (if n = k \<and> f \<noteq> 0 \<and> length xs < MAX_IRQ_HANDLERS then xs @ [f] else xs)"
| "irq_stack k (IrqUnregister n) xs = (if n = k then butlast xs else xs)"
| "irq_stack k _ xs = xs"

fun irq_switch :: "u32 \<Rightarrow> irq_call \<Rightarrow> bool \<Rightarrow> bool" where
  "irq_switch k (IrqEnable n) b = (if n = k then True else b)"
| "irq_switch k (IrqDisable n) b = (if n = k then False else b)"
| "irq_switch k _ b = b"

definition desc_of :: "InterruptController \<Rightarrow> u32 \<Rightarrow> InterruptDescriptor" where
  "desc_of c k = ic_descriptors c ! unat k"

lemma irq_apply_desc:
  assumes "irq_inv c" and "unat k < MAX_INTERRUPTS"
  shows "id_handlers (desc_of (irq_apply c x) k) = irq_stack k x (id_handlers (desc_of c k)) \<and>
    id_enabled (desc_of (irq_apply c x) k) = irq_switch k x (id_enabled (desc_of c k))"
proof -
  have neq: "unat n \<noteq> unat k" if "n \<noteq> k" for n using that by (metis word_unat_eq_iff)
  show ?thesis
    using assms
    by (cases x)
       (auto simp: irq_op_defs desc_of_def irq_inv_def Let_def nth_list_update dest: neq split: if_splits)
qed

lemma irq_run_desc:
  assumes "irq_inv c" and "unat k < MAX_INTERRUPTS"
  shows "irq_inv (foldl irq_apply c xs) \<and>
    id_handlers (desc_of (foldl irq_apply c xs) k) = fold (irq_stack k) xs (id_handlers (desc_of c k)) \<and>
    id_enabled (desc_of (foldl irq_apply c xs) k) = fold (irq_switch k) xs (id_enabled (desc_of c k))"
  using assms
proof (induction xs arbitrary: c)
  case (Cons x xs)
  from Cons.IH [of "irq_apply c x"] irq_apply_desc [OF Cons.prems, of x] irq_inv_apply [OF Cons.prems(1), of x]
    Cons.prems(2)
  show ?case by simp
qed simp

section \<open>Properties\<close>

definition irq_start :: InterruptController where
  "irq_start = the (irq_controller_init True (\<lambda>_. True))"

lemma irq_start_inv: "irq_inv irq_start"
proof -
  have "sum_list (map (\<lambda>x. 0) xs) = (0 :: u32)" for xs :: "nat list" by (induction xs) auto
  then show ?thesis by (simp add: irq_start_def irq_controller_init_def irq_inv_def list_all_iff comp_def)
qed

lemma irq_start_desc: "unat k < MAX_INTERRUPTS \<Longrightarrow>
    id_handlers (desc_of irq_start k) = [] \<and> \<not> id_enabled (desc_of irq_start k)"
  by (simp add: irq_start_def irq_controller_init_def desc_of_def list_all_iff)

text \<open>
  Claim C37. Delivery of interrupts: after any history of calls from the initial controller, an
  interrupt that is enabled by the last enable or disable call on it invokes exactly the
  handlers on its stack, each once and oldest first, where a registration pushes its handler (up
  to 512) and an unregistration pops the newest; a disabled interrupt invokes nothing. The
  controller's count is the number of registered handlers.
\<close>

theorem irq_delivery:
  assumes "unat k < 256"
  shows "snd (irq_handle (Some (foldl irq_apply irq_start calls)) k now) =
    (if fold (irq_switch k) calls False then map (\<lambda>f. (f, k)) (fold (irq_stack k) calls []) else []) \<and>
    ic_interrupt_count (foldl irq_apply irq_start calls) =
      sum_list (map (\<lambda>d. of_nat (length (id_handlers d))) (ic_descriptors (foldl irq_apply irq_start calls)))"
proof -
  let ?c = "foldl irq_apply irq_start calls"
  have k: "unat k < MAX_INTERRUPTS" using assms by (simp add: MAX_INTERRUPTS_def)
  have run: "irq_inv ?c" "id_handlers (desc_of ?c k) = fold (irq_stack k) calls []"
    "id_enabled (desc_of ?c k) = fold (irq_switch k) calls False"
    using irq_run_desc [OF irq_start_inv k, of calls] irq_start_desc [OF k] by auto
  have "0 \<notin> set (id_handlers (desc_of ?c k))"
    using run(1) k list_all_nth by (fastforce simp: irq_inv_def desc_of_def)
  then have "filter (\<lambda>f. f \<noteq> 0) (id_handlers (desc_of ?c k)) = id_handlers (desc_of ?c k)"
    by (auto intro!: filter_True)
  with run k show ?thesis by (auto simp: irq_handle_def irq_inv_def desc_of_def Let_def)
qed

theorem irq_delivery_witness:
  "snd (irq_handle (Some (foldl irq_apply irq_start [IrqRegister 3 IRQ_DISK 4096 1, IrqRegister 3 IRQ_DISK 8192 1,
     IrqRegister 4 IRQ_AUDIO 100 1, IrqEnable 3, IrqUnregister 3, IrqRegister 3 IRQ_DISK 7 1])) 3 99)
   = [(4096, 3), (7, 3)]"
  using irq_delivery [of 3 "[IrqRegister 3 IRQ_DISK 4096 1, IrqRegister 3 IRQ_DISK 8192 1,
     IrqRegister 4 IRQ_AUDIO 100 1, IrqEnable 3, IrqUnregister 3, IrqRegister 3 IRQ_DISK 7 1]" 99]
  by (simp add: MAX_IRQ_HANDLERS_def)

end
