(* ===== verification/Syscalls.thy ===== *)
theory Syscalls
  imports Contracts "HOL-Library.Signed_Division"
begin

text \<open>
  System call dispatch, \<open>kernel/syscall_handler.c\<close>: a table of 512 descriptors indexed by the call
  number, and the handlers the file defines. A handler is a function of the context and of the
  memory (the bytes at the addresses the arguments hold) that may change both; \<open>None\<close> is a \<open>NULL\<close> pointer.
  A handler gets no pointer to the table and does not change it. Results of
  type \<open>int64_t\<close> are 64-bit words in two's complement. The two readings of the monotonic clock in
  \<open>syscall_invoke\<close> are arguments, each a pair of seconds and nanoseconds.
\<close>

section \<open>State\<close>

definition MAX_SYSCALLS :: nat where "MAX_SYSCALLS = 512"
definition MAX_SYSCALL_ARGS :: nat where "MAX_SYSCALL_ARGS = 6"

record SyscallContext =
  cx_args :: "u64 list"
  cx_argc :: u32
  cx_return_value :: u32
  cx_error_code :: u32

type_synonym memory = "u64 \<Rightarrow> u8"
type_synonym syscall_handler_t = "SyscallContext option \<Rightarrow> memory \<Rightarrow> SyscallContext option \<times> memory \<times> u64"

record SyscallDescriptor =
  sd_syscall_num :: u32
  sd_handler :: "syscall_handler_t option"
  sd_name :: "string option"
  sd_call_count :: u32
  sd_total_time_us :: u64

record SyscallHandler =
  sh_descriptors :: "SyscallDescriptor list"
  sh_handler_count :: u32
  sh_total_syscalls :: u64

definition zero_descriptor :: SyscallDescriptor where
  "zero_descriptor = \<lparr>sd_syscall_num = 0, sd_handler = None, sd_name = None, sd_call_count = 0,
     sd_total_time_us = 0\<rparr>"

section \<open>Dispatch\<close>

definition syscall_init :: "bool \<Rightarrow> SyscallHandler option" where
  "syscall_init malloc_ok =
     (if \<not> malloc_ok then None
      else Some \<lparr>sh_descriptors = replicate MAX_SYSCALLS zero_descriptor, sh_handler_count = 0,
                 sh_total_syscalls = 0\<rparr>)"

definition syscall_cleanup :: "SyscallHandler option \<Rightarrow> SyscallHandler option" where
  "syscall_cleanup h = None"

definition syscall_register ::
    "SyscallHandler option \<Rightarrow> u32 \<Rightarrow> syscall_handler_t option \<Rightarrow> string option \<Rightarrow> SyscallHandler option \<times> int" where
  "syscall_register h num func name = with_handle (-1) h (\<lambda>s.
     case func of None \<Rightarrow> (s, -1)
     | Some f \<Rightarrow>
         if unat num \<ge> MAX_SYSCALLS then (s, -1)
         else if sh_handler_count s \<ge> of_nat MAX_SYSCALLS then (s, -1)
         else (s\<lparr>sh_descriptors := (sh_descriptors s)[unat num := \<lparr>sd_syscall_num = num,
                   sd_handler = Some f, sd_name = name, sd_call_count = 0, sd_total_time_us = 0\<rparr>],
                 sh_handler_count := sh_handler_count s + 1\<rparr>, 0))"

text \<open>
  The time a call took, in microseconds: the division of C rounds towards zero, and the result
  is stored in an unsigned 64-bit integer.
\<close>

definition elapsed_us :: "int \<times> int \<Rightarrow> int \<times> int \<Rightarrow> u64" where
  "elapsed_us t0 t1 = of_int ((fst t1 - fst t0) * 1000000 + (snd t1 - snd t0) sdiv 1000)"

text \<open>The results are the table, the context, the memory and the value returned.\<close>

definition syscall_invoke ::
    "SyscallHandler option \<Rightarrow> u32 \<Rightarrow> SyscallContext option \<Rightarrow> memory \<Rightarrow> int \<times> int \<Rightarrow> int \<times> int \<Rightarrow>
     SyscallHandler option \<times> SyscallContext option \<times> memory \<times> u64" where
  "syscall_invoke h num ctx mem t0 t1 = with_handle (ctx, mem, -1) h (\<lambda>s.
     case ctx of None \<Rightarrow> (s, None, mem, -1)
     | Some c \<Rightarrow>
         if unat num \<ge> MAX_SYSCALLS then (s, ctx, mem, -1)
         else let d = sh_descriptors s ! unat num in
         (case sd_handler d of None \<Rightarrow> (s, ctx, mem, -1)
          | Some f \<Rightarrow>
              let (ctx', mem', result) = f ctx mem
              in (s\<lparr>sh_descriptors := (sh_descriptors s)[unat num := d\<lparr>sd_call_count := sd_call_count d + 1,
                      sd_total_time_us := sd_total_time_us d + elapsed_us t0 t1\<rparr>],
                    sh_total_syscalls := sh_total_syscalls s + 1\<rparr>,
                  map_option (\<lambda>c'. c'\<lparr>cx_return_value := ucast result\<rparr>) ctx', mem', result)))"

definition syscall_get_handler_count :: "SyscallHandler option \<Rightarrow> u32" where
  "syscall_get_handler_count h = read_handle 0 h sh_handler_count"

definition syscall_get_total_calls :: "SyscallHandler option \<Rightarrow> u64" where
  "syscall_get_total_calls h = read_handle 0 h sh_total_syscalls"

section \<open>Handlers\<close>

abbreviation arg32 :: "SyscallContext \<Rightarrow> nat \<Rightarrow> u32" where
  "arg32 c i \<equiv> ucast (cx_args c ! i)"

text \<open>\<open>memset(buffer, 0, count)\<close>.\<close>

definition zero_fill :: "u64 \<Rightarrow> u32 \<Rightarrow> memory \<Rightarrow> memory" where
  "zero_fill p n mem = (\<lambda>a. if unat p \<le> unat a \<and> unat a < unat p + unat n then 0 else mem a)"

definition syscall_read :: syscall_handler_t where
  "syscall_read ctx mem = (case ctx of None \<Rightarrow> (ctx, mem, -1)
     | Some c \<Rightarrow>
         let buffer = cx_args c ! 1; count = arg32 c 2 in
         if buffer = 0 \<or> count = 0 then (ctx, mem, -1) else (ctx, zero_fill buffer count mem, ucast count))"

definition syscall_write :: syscall_handler_t where
  "syscall_write ctx mem = (case ctx of None \<Rightarrow> (ctx, mem, -1)
     | Some c \<Rightarrow>
         let buffer = cx_args c ! 1; count = arg32 c 2 in
         if buffer = 0 \<or> count = 0 then (ctx, mem, -1) else (ctx, mem, ucast count))"

definition syscall_open :: syscall_handler_t where
  "syscall_open ctx mem = (case ctx of None \<Rightarrow> (ctx, mem, -1)
     | Some c \<Rightarrow> let path = cx_args c ! 0 in if path = 0 then (ctx, mem, -1) else (ctx, mem, 3))"

text \<open>The test \<open>fd < 0\<close> of \<open>syscall_close\<close> compares an unsigned number and never holds.\<close>

definition syscall_close :: syscall_handler_t where
  "syscall_close ctx mem = (case ctx of None \<Rightarrow> (ctx, mem, -1)
     | Some c \<Rightarrow> let fd = arg32 c 0 in if fd < 0 then (ctx, mem, -1) else (ctx, mem, 0))"

definition syscall_fork :: syscall_handler_t where
  "syscall_fork ctx mem = (case ctx of None \<Rightarrow> (ctx, mem, -1) | Some c \<Rightarrow> (ctx, mem, 1001))"

definition syscall_exit :: syscall_handler_t where
  "syscall_exit ctx mem = (case ctx of None \<Rightarrow> (ctx, mem, -1) | Some c \<Rightarrow> (ctx, mem, 0))"

definition syscall_exec :: syscall_handler_t where
  "syscall_exec ctx mem = (case ctx of None \<Rightarrow> (ctx, mem, -1)
     | Some c \<Rightarrow>
         let path = cx_args c ! 0; argv = cx_args c ! 1 in
         if path = 0 \<or> argv = 0 then (ctx, mem, -1) else (ctx, mem, 0))"

definition syscall_wait :: syscall_handler_t where
  "syscall_wait ctx mem = (case ctx of None \<Rightarrow> (ctx, mem, -1)
     | Some c \<Rightarrow> let pid = arg32 c 0 in if pid = 0 then (ctx, mem, -1) else (ctx, mem, ucast pid))"

definition syscall_getpid :: syscall_handler_t where
  "syscall_getpid ctx mem = (case ctx of None \<Rightarrow> (ctx, mem, -1) | Some c \<Rightarrow> (ctx, mem, 1000))"

definition syscall_kill :: syscall_handler_t where
  "syscall_kill ctx mem = (case ctx of None \<Rightarrow> (ctx, mem, -1)
     | Some c \<Rightarrow>
         let pid = arg32 c 0; signal = arg32 c 1 in
         if pid = 0 \<or> signal = 0 then (ctx, mem, -1) else (ctx, mem, 0))"

section \<open>Histories\<close>

datatype sys_call =
  SysRegister u32 syscall_handler_t "string option"
  | SysInvoke u32 "SyscallContext option" memory "int \<times> int" "int \<times> int"

fun sys_apply :: "SyscallHandler \<Rightarrow> sys_call \<Rightarrow> SyscallHandler" where
  "sys_apply s (SysRegister n f nm) = the (fst (syscall_register (Some s) n (Some f) nm))"
| "sys_apply s (SysInvoke n c m t0 t1) = the (fst (syscall_invoke (Some s) n c m t0 t1))"

text \<open>
  What the table should hold: the handler of a number is the last one registered for it, among
  the first 512 registrations with a number in range.
\<close>

fun sys_spec :: "u32 \<Rightarrow> nat \<times> syscall_handler_t option \<Rightarrow> sys_call \<Rightarrow> nat \<times> syscall_handler_t option" where
  "sys_spec k (n, g) (SysRegister j f nm) =
     (if unat j < MAX_SYSCALLS \<and> n < MAX_SYSCALLS then (Suc n, if j = k then Some f else g) else (n, g))"
| "sys_spec k (n, g) (SysInvoke j c m t0 t1) = (n, g)"

definition sys_abs :: "u32 \<Rightarrow> SyscallHandler \<Rightarrow> nat \<times> syscall_handler_t option" where
  "sys_abs k s = (unat (sh_handler_count s), sd_handler (sh_descriptors s ! unat k))"

definition sys_inv :: "SyscallHandler \<Rightarrow> bool" where
  "sys_inv s \<longleftrightarrow> length (sh_descriptors s) = MAX_SYSCALLS \<and> unat (sh_handler_count s) \<le> MAX_SYSCALLS"

lemma sys_apply_abs:
  assumes "sys_inv s" and "unat k < MAX_SYSCALLS"
  shows "sys_inv (sys_apply s x) \<and> sys_abs k (sys_apply s x) = sys_spec k (sys_abs k s) x"
proof (cases x)
  case (SysRegister j f nm)
  have neq: "unat j \<noteq> unat k" if "j \<noteq> k" using that by (metis word_unat_eq_iff)
  have room: "of_nat MAX_SYSCALLS \<le> sh_handler_count s \<longleftrightarrow> \<not> unat (sh_handler_count s) < MAX_SYSCALLS"
    by (simp add: word_le_nat_alt MAX_SYSCALLS_def not_less)
  have "unat (sh_handler_count s + 1) = Suc (unat (sh_handler_count s))"
    if "unat (sh_handler_count s) < MAX_SYSCALLS"
    by (rule unat_succ_less [of _ "of_nat MAX_SYSCALLS"])
       (use that in \<open>simp add: word_less_nat_alt MAX_SYSCALLS_def\<close>)
  with SysRegister assms neq room show ?thesis
    by (auto simp: syscall_register_def sys_inv_def sys_abs_def nth_list_update)
next
  case (SysInvoke j c m t0 t1)
  with assms show ?thesis
    by (auto simp: syscall_invoke_def with_handle_Some sys_inv_def sys_abs_def nth_list_update Let_def
        split: option.splits prod.splits)
qed

lemma sys_run_abs:
  "sys_inv s \<Longrightarrow> unat k < MAX_SYSCALLS \<Longrightarrow>
   sys_inv (foldl sys_apply s xs) \<and> sys_abs k (foldl sys_apply s xs) = foldl (sys_spec k) (sys_abs k s) xs"
proof (induction xs arbitrary: s)
  case (Cons x xs)
  from sys_apply_abs [OF Cons.prems, of x] Cons.IH [of "sys_apply s x"] Cons.prems(2) show ?case by simp
qed simp

section \<open>Properties\<close>

definition sys_start :: SyscallHandler where "sys_start = the (syscall_init True)"

definition ctx0 :: SyscallContext where
  "ctx0 = \<lparr>cx_args = [1, 4096, 2, 0, 0, 0], cx_argc = 3, cx_return_value = 0, cx_error_code = 0\<rparr>"

text \<open>
  Claim C36. Dispatch: after any history of registrations and invocations from the empty table,
  invoking a number in range runs exactly the handler registered last for it (among the first
  512 registrations), with the caller's context and memory, keeps what it did to both, returns its
  result and stores the low 32 bits of it in the context; with no handler registered it returns -1 and changes nothing.
\<close>

theorem syscall_dispatch:
  assumes "unat k < 512"
  shows "snd (syscall_invoke (Some (foldl sys_apply sys_start calls)) k (Some c) mem t0 t1) =
    (case snd (foldl (sys_spec k) (0, None) calls) of
       None \<Rightarrow> (Some c, mem, -1)
     | Some f \<Rightarrow> (case f (Some c) mem of (c', mem', r) \<Rightarrow>
         (map_option (\<lambda>x. x\<lparr>cx_return_value := ucast r\<rparr>) c', mem', r)))"
proof -
  let ?s = "foldl sys_apply sys_start calls"
  have k: "unat k < MAX_SYSCALLS" using assms by (simp add: MAX_SYSCALLS_def)
  have start: "sys_inv sys_start" "sys_abs k sys_start = (0, None)"
    using k by (simp_all add: sys_start_def syscall_init_def sys_inv_def sys_abs_def zero_descriptor_def)
  have "sys_abs k ?s = foldl (sys_spec k) (0, None) calls" using sys_run_abs [OF start(1) k] start(2) by simp
  then have "sd_handler (sh_descriptors ?s ! unat k) = snd (foldl (sys_spec k) (0, None) calls)"
    by (metis sys_abs_def snd_conv)
  with k show ?thesis
    by (auto simp: syscall_invoke_def with_handle_Some Let_def split: option.splits prod.splits)
qed

theorem syscall_dispatch_witness:
  "snd (snd (snd (syscall_invoke (Some (foldl sys_apply sys_start [SysRegister 1 syscall_fork None,
      SysRegister 8 syscall_getpid None, SysRegister 1 syscall_write None])) 1 (Some ctx0) (\<lambda>_. 0) (0, 0) (0, 0)))) = 2"
proof -
  let ?cs = "[SysRegister 1 syscall_fork None, SysRegister 8 syscall_getpid None, SysRegister 1 syscall_write None]"
  have "snd (foldl (sys_spec 1) (0, None) ?cs) = Some syscall_write" by (simp add: MAX_SYSCALLS_def)
  with syscall_dispatch [of 1 ?cs ctx0 "\<lambda>_. 0" "(0, 0)" "(0, 0)"] show ?thesis
    by (simp add: syscall_write_def ctx0_def)
qed

text \<open>
  The context keeps only 32 of the 64 bits of a result: a handler that returns \<open>2 ^ 32\<close> leaves 0,
  the value that reports success of most calls.
\<close>

lemma syscall_return_value_truncated:
  "cx_return_value (the (fst (snd (syscall_invoke
     (fst (syscall_register (Some sys_start) 9 (Some (\<lambda>c m. (c, m, 4294967296))) None)) 9 (Some ctx0) mem t0 t1)))) = 0"
  by (simp add: syscall_invoke_def syscall_register_def sys_start_def syscall_init_def with_handle_Some
      MAX_SYSCALLS_def zero_descriptor_def ctx0_def Let_def)

end
