(* ===== verification/Kernel_Hybrid.thy ===== *)
theory Kernel_Hybrid
  imports Memory_Manager
begin

text \<open>
  The kernel core of \<open>kernel/kernel_hybrid.c\<close>: a table of 1024 processes and the totals of
  memory. The float \<open>cpu_usage\<close> is kept as its bit pattern (0 is 0.0f); it is never changed. A
  name that does not fit its 256 bytes makes the \<open>strcpy\<close> of \<open>kernel_start_process\<close> undefined.
\<close>

section \<open>State and operations\<close>

datatype KernelType = KERNEL_LINUX | KERNEL_UNIX | KERNEL_HYBRID

record Process =
  pr_pid :: u32
  pr_name :: string
  pr_priority :: u32
  pr_memory_usage :: u64
  pr_is_running :: bool

record KernelCore =
  kc_type :: KernelType
  kc_version_major :: u32
  kc_version_minor :: u32
  kc_version_patch :: u32
  kc_processes :: "Process list"
  kc_total_memory :: u64
  kc_used_memory :: u64
  kc_cpu_cores :: u32
  kc_cpu_usage :: u32

text \<open>The total memory is the constant expression \<open>8 * 1024 * 1024 * 1024\<close> of type \<open>int\<close>.\<close>

definition kernel_init :: "bool \<Rightarrow> bool \<Rightarrow> KernelType \<Rightarrow> KernelCore option outcome" where
  "kernel_init malloc_ok processes_ok typ =
     (if \<not> malloc_ok then Done None
      else case int_mul (int_mul (int_mul (Done 8) 1024) 1024) 1024 of
        Undef \<Rightarrow> Undef
      | Done bytes \<Rightarrow>
          if \<not> processes_ok then Done None
          else Done (Some \<lparr>kc_type = typ, kc_version_major = 1, kc_version_minor = 0,
                 kc_version_patch = 0, kc_processes = [], kc_total_memory = of_int bytes,
                 kc_used_memory = 0, kc_cpu_cores = 4, kc_cpu_usage = 0\<rparr>))"

definition kernel_cleanup :: "KernelCore option \<Rightarrow> KernelCore option" where
  "kernel_cleanup h = None"

definition kernel_start_process ::
    "KernelCore option \<Rightarrow> string option \<Rightarrow> u32 \<Rightarrow> KernelCore option outcome" where
  "kernel_start_process h name priority = (case h of None \<Rightarrow> Done None
     | Some k \<Rightarrow>
         if length (kc_processes k) \<ge> 1024 then Done (Some k)
         else (case name of None \<Rightarrow> Done (Some k)
         | Some nm \<Rightarrow>
             if length nm \<ge> 256 then Undef
             else Done (Some (k\<lparr>kc_processes := kc_processes k @ [\<lparr>
                    pr_pid = of_nat (length (kc_processes k)) + 1, pr_name = nm,
                    pr_priority = priority, pr_memory_usage = 0, pr_is_running = True\<rparr>]\<rparr>))))"

definition kernel_stop_process :: "KernelCore option \<Rightarrow> u32 \<Rightarrow> KernelCore option" where
  "kernel_stop_process h pid = map_option (\<lambda>k.
     case first_idx (\<lambda>p. pr_pid p = pid) (kc_processes k) of
       None \<Rightarrow> k
     | Some i \<Rightarrow> k\<lparr>kc_processes := (kc_processes k)[i := (kc_processes k ! i)\<lparr>pr_is_running := False\<rparr>]\<rparr>) h"

definition kernel_schedule_tasks :: "KernelCore option \<Rightarrow> KernelCore option" where
  "kernel_schedule_tasks h = h"

definition kernel_get_memory_available :: "KernelCore option \<Rightarrow> u64" where
  "kernel_get_memory_available h = read_handle 0 h (\<lambda>k. kc_total_memory k - kc_used_memory k)"

definition kernel_get_cpu_usage :: "KernelCore option \<Rightarrow> u32" where
  "kernel_get_cpu_usage h = read_handle 0 h kc_cpu_usage"

definition kernel_main_loop :: "KernelCore option \<Rightarrow> int" where
  "kernel_main_loop h = (case h of None \<Rightarrow> -1 | Some k \<Rightarrow> 0)"

section \<open>Processes\<close>

datatype kernel_call = KStart string u32 | KStop u32

text \<open>Calls whose names fit; a start with a longer name has no result.\<close>

fun kernel_apply :: "KernelCore \<Rightarrow> kernel_call \<Rightarrow> KernelCore option" where
  "kernel_apply k (KStart nm p) =
     (case kernel_start_process (Some k) (Some nm) p of Undef \<Rightarrow> None | Done h \<Rightarrow> h)"
| "kernel_apply k (KStop pid) = kernel_stop_process (Some k) pid"

fun kernel_run :: "KernelCore \<Rightarrow> kernel_call list \<Rightarrow> KernelCore option" where
  "kernel_run k [] = Some k"
| "kernel_run k (x # xs) = (case kernel_apply k x of None \<Rightarrow> None | Some k' \<Rightarrow> kernel_run k' xs)"

definition kernel_inv :: "KernelCore \<Rightarrow> bool" where
  "kernel_inv k \<longleftrightarrow> dense_ids pr_pid (kc_processes k) \<and> length (kc_processes k) \<le> 1024"

definition process_running :: "KernelCore \<Rightarrow> u32 \<Rightarrow> bool" where
  "process_running k pid = (case slot_get pid (kc_processes k) of None \<Rightarrow> False | Some p \<Rightarrow> pr_is_running p)"

lemma kernel_apply_inv:
  assumes "kernel_inv k" and "kernel_apply k x = Some k'"
  shows "kernel_inv k'"
  using assms
  by (cases x)
     (auto simp: kernel_start_process_def kernel_stop_process_def kernel_inv_def dense_ids_snoc dense_ids_update
       split: if_splits option.splits)

lemma kernel_find:
  "kernel_inv k \<Longrightarrow> first_idx (\<lambda>p. pr_pid p = pid) (kc_processes k) = slot_of pid (kc_processes k)"
  by (rule dense_first_idx) (auto simp: kernel_inv_def)

lemma kernel_stopped:
  assumes "kernel_inv k" and "slot_get pid (kc_processes k) \<noteq> None" and "kernel_apply k x = Some k'"
  shows "slot_get pid (kc_processes k') \<noteq> None \<and>
    process_running k' pid = (process_running k pid \<and> x \<noteq> KStop pid)"
proof (cases x)
  case (KStart nm p)
  obtain y where y: "slot_get pid (kc_processes k) = Some y" using assms(2) by blast
  then have "slot_get pid (kc_processes k @ [z]) = Some y" for z
    using assms(1) slot_get_snoc [of "kc_processes k"] by (auto simp: kernel_inv_def)
  with KStart assms y show ?thesis
    by (auto simp: kernel_start_process_def process_running_def split: if_splits)
next
  case (KStop q)
  have k': "k' = (case slot_of q (kc_processes k) of None \<Rightarrow> k
      | Some i \<Rightarrow> k\<lparr>kc_processes := (kc_processes k)[i := (kc_processes k ! i)\<lparr>pr_is_running := False\<rparr>]\<rparr>)"
    using KStop assms(3) kernel_find [OF assms(1)] by (simp add: kernel_stop_process_def)
  show ?thesis
  proof (cases "slot_of q (kc_processes k)")
    case None
    then have "q \<noteq> pid" using assms(2) by (auto simp: slot_get_def)
    with None k' KStop assms(2) show ?thesis by simp
  next
    case (Some i)
    with k' KStop assms(2) show ?thesis
      by (cases "q = pid") (auto simp: process_running_def slot_get_update slot_get_update_other)
  qed
qed

text \<open>
  Over any history of starts and stops, a process that exists is running exactly if it was and no
  stop named it.
\<close>

lemma kernel_run_stopped:
  "kernel_inv k \<Longrightarrow> slot_get pid (kc_processes k) \<noteq> None \<Longrightarrow> kernel_run k xs = Some k' \<Longrightarrow>
   process_running k' pid = (process_running k pid \<and> KStop pid \<notin> set xs)"
proof (induction xs arbitrary: k)
  case (Cons x xs)
  then obtain k1 where k1: "kernel_apply k x = Some k1" "kernel_run k1 xs = Some k'"
    by (auto split: option.splits)
  from kernel_stopped [OF Cons.prems(1,2) k1(1)] kernel_apply_inv [OF Cons.prems(1) k1(1)]
    Cons.IH [OF _ _ k1(2)]
  show ?case by auto
qed simp

text \<open>\<open>kernel_init\<close> overflows \<open>int\<close> whenever its first allocation succeeds.\<close>

lemma kernel_init_undefined: "kernel_init True ok typ = Undef"
  by (simp add: kernel_init_def int_mul_def)

end
