(* ===== verification/Filesystem.thy ===== *)
theory Filesystem
  imports Contracts
begin

text \<open>
  The file table of \<open>fs/filesystem_core.c\<close>: up to 10000 entries with an inode number, a name of
  at most 255 characters and a size. Reading and writing change sizes and times; the file system
  stores no contents. Deletion shifts the later entries down. The mount point is its first 511
  characters; for one of 511 characters or more the code leaves the byte after them uninitialised, and no
  operation reads it.
\<close>

section \<open>State\<close>

definition MAX_FILENAME :: nat where "MAX_FILENAME = 256"
definition MAX_PATH :: nat where "MAX_PATH = 512"
definition MAX_FILES :: nat where "MAX_FILES = 10000"

datatype FileType = FS_TYPE_FILE | FS_TYPE_DIR | FS_TYPE_SYMLINK | FS_TYPE_DEVICE

record FileEntry =
  fe_inode :: u32
  fe_name :: string
  fe_type :: FileType
  fe_permissions :: u32
  fe_owner_uid :: u32
  fe_owner_gid :: u32
  fe_size :: u64
  fe_created_time :: time_t
  fe_modified_time :: time_t
  fe_accessed_time :: time_t
  fe_link_count :: u32

record FileSystem =
  fs_entries :: "FileEntry list"
  fs_max_entries :: u32
  fs_mount_point :: string

section \<open>Operations\<close>

definition filesystem_init :: "bool \<Rightarrow> bool \<Rightarrow> string option \<Rightarrow> FileSystem option" where
  "filesystem_init malloc_ok entries_ok mount_point =
     (if \<not> malloc_ok then None
      else if \<not> entries_ok then None
      else Some \<lparr>fs_entries = [], fs_max_entries = of_nat MAX_FILES,
                 fs_mount_point = (case mount_point of Some p \<Rightarrow> take (MAX_PATH - 1) p | None \<Rightarrow> ''/'')\<rparr>)"

definition filesystem_cleanup :: "FileSystem option \<Rightarrow> FileSystem option" where
  "filesystem_cleanup h = None"

definition filesystem_create_file ::
    "FileSystem option \<Rightarrow> string option \<Rightarrow> FileType \<Rightarrow> u32 \<Rightarrow> time_t \<Rightarrow> time_t \<Rightarrow> time_t \<Rightarrow>
     FileSystem option \<times> u32" where
  "filesystem_create_file h name typ permissions t1 t2 t3 = with_handle 0 h (\<lambda>fs.
     if length (fs_entries fs) \<ge> MAX_FILES then (fs, 0)
     else case name of None \<Rightarrow> (fs, 0)
     | Some nm \<Rightarrow>
         let inode = of_nat (length (fs_entries fs)) + 1;
             entry = \<lparr>fe_inode = inode, fe_name = take (MAX_FILENAME - 1) nm, fe_type = typ,
                      fe_permissions = permissions, fe_owner_uid = 0, fe_owner_gid = 0, fe_size = 0,
                      fe_created_time = t1, fe_modified_time = t2, fe_accessed_time = t3,
                      fe_link_count = 1\<rparr>
         in (fs\<lparr>fs_entries := fs_entries fs @ [entry]\<rparr>, inode))"

definition filesystem_delete_file :: "FileSystem option \<Rightarrow> u32 \<Rightarrow> FileSystem option \<times> int" where
  "filesystem_delete_file h inode = with_handle (-1) h (\<lambda>fs.
     case first_idx (\<lambda>e. fe_inode e = inode) (fs_entries fs) of
       None \<Rightarrow> (fs, -1)
     | Some i \<Rightarrow>
         let n = length (fs_entries fs)
         in (fs\<lparr>fs_entries := take (n - 1) (shift_down i n (fs_entries fs))\<rparr>, 0))"

definition filesystem_find_file :: "FileSystem option \<Rightarrow> string option \<Rightarrow> nat option" where
  "filesystem_find_file h name = read_handle None h (\<lambda>fs.
     case name of None \<Rightarrow> None | Some nm \<Rightarrow> first_idx (\<lambda>e. fe_name e = nm) (fs_entries fs))"

definition filesystem_write_file ::
    "FileSystem option \<Rightarrow> u32 \<Rightarrow> bool \<Rightarrow> u64 \<Rightarrow> time_t \<Rightarrow> FileSystem option \<times> int" where
  "filesystem_write_file h inode data sz now = with_handle (-1) h (\<lambda>fs.
     if \<not> data \<or> sz = 0 then (fs, -1)
     else case first_idx (\<lambda>e. fe_inode e = inode \<and> fe_type e = FS_TYPE_FILE) (fs_entries fs) of
       None \<Rightarrow> (fs, -1)
     | Some i \<Rightarrow>
         let e = fs_entries fs ! i
         in (fs\<lparr>fs_entries := (fs_entries fs)[i := e\<lparr>fe_size := fe_size e + sz, fe_modified_time := now\<rparr>]\<rparr>, 0))"

text \<open>The size is returned through an \<open>int\<close>: its low 32 bits, as a signed number.\<close>

definition filesystem_read_file ::
    "FileSystem option \<Rightarrow> u32 \<Rightarrow> bool \<Rightarrow> u64 \<Rightarrow> time_t \<Rightarrow> FileSystem option \<times> int" where
  "filesystem_read_file h inode buffer sz now = with_handle (-1) h (\<lambda>fs.
     if \<not> buffer \<or> sz = 0 then (fs, -1)
     else case first_idx (\<lambda>e. fe_inode e = inode \<and> fe_type e = FS_TYPE_FILE) (fs_entries fs) of
       None \<Rightarrow> (fs, -1)
     | Some i \<Rightarrow>
         let e = fs_entries fs ! i
         in (fs\<lparr>fs_entries := (fs_entries fs)[i := e\<lparr>fe_accessed_time := now\<rparr>]\<rparr>,
             sint (ucast (fe_size e) :: u32)))"

text \<open>The listing hands out the table and its count.\<close>

definition filesystem_list_files :: "FileSystem option \<Rightarrow> bool \<Rightarrow> int \<times> FileEntry list" where
  "filesystem_list_files h entries = read_handle (0, []) h (\<lambda>fs.
     if \<not> entries then (0, []) else (sint (of_nat (length (fs_entries fs)) :: u32), fs_entries fs))"

section \<open>The table as a map from names to files\<close>

definition file_named :: "FileSystem \<Rightarrow> string \<Rightarrow> FileEntry option" where
  "file_named fs nm = map_option (\<lambda>i. fs_entries fs ! i) (filesystem_find_file (Some fs) (Some nm))"

lemma file_named_find: "file_named fs nm = find (\<lambda>e. fe_name e = nm) (fs_entries fs)"
  by (simp add: file_named_def filesystem_find_file_def first_idx_find)

lemma delete_remove_at:
  "filesystem_delete_file (Some fs) inode =
     (case first_idx (\<lambda>e. fe_inode e = inode) (fs_entries fs) of
        None \<Rightarrow> (Some fs, -1)
      | Some i \<Rightarrow> (Some (fs\<lparr>fs_entries := remove_at i (fs_entries fs)\<rparr>), 0))"
  by (auto simp: filesystem_delete_file_def with_handle_Some shift_down_remove_at Let_def
      dest: first_idx_SomeD(1) split: option.split)

section \<open>Properties\<close>

definition fs_start :: FileSystem where "fs_start = the (filesystem_init True True None)"

text \<open>
  Creating a file and finding it: with room in the table, a name of at most 255
  characters that is not taken is afterwards found as the new entry, with the inode returned; a
  name already taken still finds the older file; every other name finds what it found before.
\<close>

lemma filesystem_create_find:
  assumes "length (fs_entries fs) < 10000" and "length nm \<le> 255"
  shows "\<exists>fs' inode e. filesystem_create_file (Some fs) (Some nm) typ perms t1 t2 t3 = (Some fs', inode) \<and>
    inode \<noteq> 0 \<and> fe_inode e = inode \<and> fe_name e = nm \<and> fe_type e = typ \<and> fe_size e = 0 \<and>
    (\<forall>x. file_named fs' x = (if x = nm \<and> file_named fs nm = None then Some e else file_named fs x))"
proof -
  let ?inode = "of_nat (length (fs_entries fs)) + 1 :: u32"
  let ?e = "\<lparr>fe_inode = ?inode, fe_name = nm, fe_type = typ, fe_permissions = perms, fe_owner_uid = 0,
      fe_owner_gid = 0, fe_size = 0, fe_created_time = t1, fe_modified_time = t2, fe_accessed_time = t3,
      fe_link_count = 1\<rparr>"
  let ?fs = "fs\<lparr>fs_entries := fs_entries fs @ [?e]\<rparr>"
  have "filesystem_create_file (Some fs) (Some nm) typ perms t1 t2 t3 = (Some ?fs, ?inode)"
    using assms by (simp add: filesystem_create_file_def MAX_FILES_def MAX_FILENAME_def Let_def)
  moreover have "?inode \<noteq> 0" using assms(1) by (intro next_id(2)) simp
  moreover have "file_named ?fs x = (if x = nm \<and> file_named fs nm = None then Some ?e else file_named fs x)" for x
    by (simp add: file_named_find find_snoc split: option.split)
  ultimately show ?thesis by (intro exI [of _ ?fs] exI [of _ ?inode] exI [of _ ?e]) simp
qed

lemma filesystem_create_find_witness:
  "\<exists>fs' inode. filesystem_create_file (Some fs_start) (Some ''notes'') FS_TYPE_FILE 420 1 1 1 = (Some fs', inode) \<and>
     map_option fe_inode (file_named fs' ''notes'') = Some inode \<and> file_named fs' ''other'' = None"
proof -
  have "length (fs_entries fs_start) < 10000" "file_named fs_start x = None" for x
    by (simp_all add: fs_start_def filesystem_init_def file_named_find)
  with filesystem_create_find [of fs_start "''notes''" FS_TYPE_FILE 420 1 1 1] show ?thesis by fastforce
qed

definition fs_four :: "FileSystem option" where
  "fs_four =
    (let c = (\<lambda>h nm. fst (filesystem_create_file h (Some nm) FS_TYPE_FILE 420 1 1 1));
         h3 = c (c (c (Some fs_start) ''a'') ''b'') ''c''
     in fst (filesystem_write_file (c (fst (filesystem_delete_file h3 1)) ''d'') 3 True 100 9))"

text \<open>
  Deleting a file lets its successors share an inode: after creating three files and deleting the
  first, a fourth file gets the inode of the third, and data written under that inode is added
  to the third file.
\<close>

lemma filesystem_inode_reused:
  "map_option (\<lambda>fs. map (\<lambda>e. (fe_name e, fe_inode e, fe_size e)) (fs_entries fs)) fs_four =
     Some [(''b'', 2, 0), (''c'', 3, 100), (''d'', 3, 0)]"
  by (simp add: fs_four_def fs_start_def filesystem_init_def filesystem_create_file_def delete_remove_at
      filesystem_write_file_def with_handle_Some MAX_FILES_def MAX_FILENAME_def Let_def)

section \<open>Inodes\<close>

definition file_create :: "FileSystem \<Rightarrow> string \<times> FileType \<times> u32 \<times> time_t \<Rightarrow> FileSystem \<times> u32" where
  "file_create fs a = (case a of (nm, ty, pm, now) \<Rightarrow>
     (case filesystem_create_file (Some fs) (Some nm) ty pm now now now of (h, k) \<Rightarrow> (the h, k)))"

definition file_delete :: "FileSystem \<Rightarrow> u32 \<Rightarrow> FileSystem" where
  "file_delete fs k = the (fst (filesystem_delete_file (Some fs) k))"

interpretation file_table: shrinking_table file_create file_delete fs_entries fe_inode
  by unfold_locales
     (auto simp: file_create_def file_delete_def filesystem_create_file_def delete_remove_at
       with_handle_Some Let_def split: if_splits)

end
