(* ===== verification/Device_Driver.thy ===== *)
theory Device_Driver
  imports Contracts
begin

text \<open>
  The driver framework of \<open>drivers/device_driver.c\<close>: a table of drivers and a table of device
  instances. The operations of a driver are function pointers supplied by the driver; only
  whether each is \<open>NULL\<close> is part of the state, and what a call returns is the argument
  \<open>cb\<close>. A deleted instance is all zero, so its \<open>driver_id\<close> is 0, and the access
  \<open>drivers[driver_id - 1]\<close> is outside the array: \<open>Undef\<close>.
\<close>

section \<open>State\<close>

definition MAX_DRIVERS :: nat where "MAX_DRIVERS = 512"
definition MAX_DRIVER_INSTANCES :: nat where "MAX_DRIVER_INSTANCES = 4096"
definition MAX_DRIVER_NAME_LEN :: nat where "MAX_DRIVER_NAME_LEN = 64"

datatype DeviceType =
  DEVICE_TYPE_BLOCK | DEVICE_TYPE_CHAR | DEVICE_TYPE_NETWORK | DEVICE_TYPE_INPUT | DEVICE_TYPE_USB
  | DEVICE_TYPE_AUDIO | DEVICE_TYPE_VIDEO | DEVICE_TYPE_SERIAL | DEVICE_TYPE_MISC

datatype DriverState =
  DRIVER_STATE_UNLOADED | DRIVER_STATE_LOADING | DRIVER_STATE_LOADED | DRIVER_STATE_INITIALIZING
  | DRIVER_STATE_INITIALIZED | DRIVER_STATE_ACTIVE | DRIVER_STATE_ERROR | DRIVER_STATE_UNLOADING

record DeviceInstance =
  dv_device_id :: u32
  dv_type :: DeviceType
  dv_major_num :: u32
  dv_minor_num :: u32
  dv_name :: string
  dv_driver_id :: u32
  dv_is_active :: bool
  dv_bytes_read :: u64
  dv_bytes_written :: u64
  dv_operations :: u64
  dv_created_time :: time_t

text \<open>The entries of the operations table the framework calls: which of them are set.\<close>

record DriverOps =
  op_initialize :: bool
  op_cleanup :: bool
  op_read :: bool
  op_write :: bool
  op_ioctl :: bool

record DriverDescriptor =
  dd_driver_id :: u32
  dd_name :: string
  dd_version :: string
  dd_device_type :: DeviceType
  dd_state :: DriverState
  dd_ops :: "DriverOps option"
  dd_device_count :: u32
  dd_load_time :: u64
  dd_total_operations :: u64
  dd_is_builtin :: bool

record DriverManager =
  dm_drivers :: "DriverDescriptor list"
  dm_instances :: "DeviceInstance list"
  dm_total_drivers_loaded :: u64

definition zero_driver :: DriverDescriptor where
  "zero_driver = \<lparr>dd_driver_id = 0, dd_name = '''', dd_version = '''', dd_device_type = DEVICE_TYPE_BLOCK,
     dd_state = DRIVER_STATE_UNLOADED, dd_ops = None, dd_device_count = 0, dd_load_time = 0,
     dd_total_operations = 0, dd_is_builtin = False\<rparr>"

definition zero_instance :: DeviceInstance where
  "zero_instance = \<lparr>dv_device_id = 0, dv_type = DEVICE_TYPE_BLOCK, dv_major_num = 0, dv_minor_num = 0,
     dv_name = '''', dv_driver_id = 0, dv_is_active = False, dv_bytes_read = 0, dv_bytes_written = 0,
     dv_operations = 0, dv_created_time = 0\<rparr>"

section \<open>Drivers\<close>

definition driver_init :: "bool \<Rightarrow> DriverManager option" where
  "driver_init malloc_ok =
     (if \<not> malloc_ok then None
      else Some \<lparr>dm_drivers = [], dm_instances = [], dm_total_drivers_loaded = 0\<rparr>)"

definition driver_unload :: "DriverManager option \<Rightarrow> u32 \<Rightarrow> DriverManager option \<times> int" where
  "driver_unload h driver_id = with_handle (-1) h (\<lambda>m.
     case slot_of driver_id (dm_drivers m) of None \<Rightarrow> (m, -1)
     | Some i \<Rightarrow>
         let d = dm_drivers m ! i in
         if dd_state d = DRIVER_STATE_UNLOADED then (m, -1)
         else (m\<lparr>dm_drivers := (dm_drivers m)[i := d\<lparr>dd_state := DRIVER_STATE_UNLOADED,
                   dd_device_count := 0\<rparr>]\<rparr>, 0))"

text \<open>The cleanup unloads every loaded driver by its identifier, then frees the manager.\<close>

definition driver_cleanup :: "DriverManager option \<Rightarrow> DriverManager option" where
  "driver_cleanup h = (case h of None \<Rightarrow> None
     | Some m \<Rightarrow>
         let m' = fold (\<lambda>i m. if dd_state (dm_drivers m ! i) \<noteq> DRIVER_STATE_UNLOADED
                     then the (fst (driver_unload (Some m) (dd_driver_id (dm_drivers m ! i)))) else m)
                   [0..<length (dm_drivers m)] m
         in None)"

definition driver_register ::
    "DriverManager option \<Rightarrow> string option \<Rightarrow> string option \<Rightarrow> DeviceType \<Rightarrow> DriverOps option \<Rightarrow> bool \<Rightarrow>
     (DriverManager option \<times> u32) outcome" where
  "driver_register h name version typ ops builtin = with_handle_ub 0 h (\<lambda>m.
     case (name, ops) of
       (Some nm, Some f) \<Rightarrow>
         if length (dm_drivers m) \<ge> MAX_DRIVERS then Done (m, 0)
         else (case version of None \<Rightarrow> Undef
         | Some v \<Rightarrow>
             let did = of_nat (length (dm_drivers m)) + 1;
                 desc = \<lparr>dd_driver_id = did, dd_name = take (MAX_DRIVER_NAME_LEN - 1) nm,
                         dd_version = take 31 v, dd_device_type = typ,
                         dd_state = DRIVER_STATE_UNLOADED, dd_ops = Some f, dd_device_count = 0,
                         dd_load_time = 0, dd_total_operations = 0, dd_is_builtin = builtin\<rparr>
             in Done (m\<lparr>dm_drivers := dm_drivers m @ [desc]\<rparr>, did))
     | _ \<Rightarrow> Done (m, 0))"

definition driver_unregister :: "DriverManager option \<Rightarrow> u32 \<Rightarrow> DriverManager option \<times> int" where
  "driver_unregister h driver_id = with_handle (-1) h (\<lambda>m.
     case slot_of driver_id (dm_drivers m) of None \<Rightarrow> (m, -1)
     | Some i \<Rightarrow>
         if dd_device_count (dm_drivers m ! i) > 0 then (m, -1)
         else let m1 = the (fst (driver_unload (Some m) driver_id))
              in (m1\<lparr>dm_drivers := (dm_drivers m1)[i := zero_driver]\<rparr>, 0))"

definition driver_load :: "DriverManager option \<Rightarrow> u32 \<Rightarrow> time_t \<Rightarrow> DriverManager option \<times> int" where
  "driver_load h driver_id now = with_handle (-1) h (\<lambda>m.
     case slot_of driver_id (dm_drivers m) of None \<Rightarrow> (m, -1)
     | Some i \<Rightarrow>
         let d = dm_drivers m ! i in
         if dd_state d \<noteq> DRIVER_STATE_UNLOADED then (m, -1)
         else (m\<lparr>dm_drivers := (dm_drivers m)[i := d\<lparr>dd_state := DRIVER_STATE_LOADED,
                   dd_load_time := of_int now\<rparr>],
                 dm_total_drivers_loaded := dm_total_drivers_loaded m + 1\<rparr>, 0))"

section \<open>Devices\<close>

definition device_create ::
    "DriverManager option \<Rightarrow> u32 \<Rightarrow> u32 \<Rightarrow> u32 \<Rightarrow> string option \<Rightarrow> time_t \<Rightarrow> DriverManager option \<times> u32" where
  "device_create h driver_id major minor name now = with_handle 0 h (\<lambda>m.
     case name of None \<Rightarrow> (m, 0)
     | Some nm \<Rightarrow> (case slot_of driver_id (dm_drivers m) of None \<Rightarrow> (m, 0)
     | Some i \<Rightarrow>
         if length (dm_instances m) \<ge> MAX_DRIVER_INSTANCES then (m, 0)
         else let d = dm_drivers m ! i in
         if dd_state d \<noteq> DRIVER_STATE_LOADED then (m, 0)
         else let vid = of_nat (length (dm_instances m)) + 1;
                  inst = \<lparr>dv_device_id = vid, dv_type = dd_device_type d, dv_major_num = major,
                          dv_minor_num = minor, dv_name = take (MAX_DRIVER_NAME_LEN - 1) nm,
                          dv_driver_id = driver_id, dv_is_active = False, dv_bytes_read = 0,
                          dv_bytes_written = 0, dv_operations = 0, dv_created_time = now\<rparr>
              in (m\<lparr>dm_drivers := (dm_drivers m)[i := d\<lparr>dd_device_count := dd_device_count d + 1\<rparr>],
                    dm_instances := dm_instances m @ [inst]\<rparr>, vid)))"

text \<open>
  The common prologue of the device operations: the instance, and the slot of its driver, which
  is an array access with the index \<open>driver_id - 1\<close> (a wrapped index for \<open>driver_id = 0\<close>).
\<close>

definition driver_slot :: "DriverManager \<Rightarrow> DeviceInstance \<Rightarrow> nat option" where
  "driver_slot m inst =
     (if unat (dv_driver_id inst - 1) < MAX_DRIVERS then Some (unat (dv_driver_id inst - 1)) else None)"

definition driver_at :: "DriverManager \<Rightarrow> nat \<Rightarrow> DriverDescriptor" where
  "driver_at m j = (if j < length (dm_drivers m) then dm_drivers m ! j else zero_driver)"

definition device_delete :: "DriverManager option \<Rightarrow> u32 \<Rightarrow> (DriverManager option \<times> int) outcome" where
  "device_delete h device_id = with_handle_ub (-1) h (\<lambda>m.
     case slot_of device_id (dm_instances m) of None \<Rightarrow> Done (m, -1)
     | Some i \<Rightarrow>
         let inst = dm_instances m ! i in
         if dv_is_active inst then Done (m, -1)
         else (case driver_slot m inst of None \<Rightarrow> Undef
         | Some j \<Rightarrow>
             let d = driver_at m j;
                 m1 = (if dd_device_count d > 0
                       then m\<lparr>dm_drivers := (dm_drivers m)[j := d\<lparr>dd_device_count := dd_device_count d - 1\<rparr>]\<rparr>
                       else m)
             in Done (m1\<lparr>dm_instances := (dm_instances m1)[i := zero_instance]\<rparr>, 0)))"

definition device_open :: "DriverManager option \<Rightarrow> u32 \<Rightarrow> int \<Rightarrow> (DriverManager option \<times> int) outcome" where
  "device_open h device_id cb = with_handle_ub (-1) h (\<lambda>m.
     case slot_of device_id (dm_instances m) of None \<Rightarrow> Done (m, -1)
     | Some i \<Rightarrow>
         let inst = dm_instances m ! i in
         if dv_is_active inst then Done (m, -1)
         else (case driver_slot m inst of None \<Rightarrow> Undef
         | Some j \<Rightarrow>
             (case dd_ops (driver_at m j) of None \<Rightarrow> Done (m, -1)
              | Some ops \<Rightarrow>
                  if \<not> op_initialize ops then Done (m, -1)
                  else if cb \<noteq> 0 then Done (m, -1)
                  else Done (m\<lparr>dm_instances := (dm_instances m)[i := inst\<lparr>dv_is_active := True\<rparr>]\<rparr>, 0))))"

definition device_close :: "DriverManager option \<Rightarrow> u32 \<Rightarrow> (DriverManager option \<times> int) outcome" where
  "device_close h device_id = with_handle_ub (-1) h (\<lambda>m.
     case slot_of device_id (dm_instances m) of None \<Rightarrow> Done (m, -1)
     | Some i \<Rightarrow>
         let inst = dm_instances m ! i in
         if \<not> dv_is_active inst then Done (m, -1)
         else (case driver_slot m inst of None \<Rightarrow> Undef
         | Some j \<Rightarrow>
             Done (m\<lparr>dm_instances := (dm_instances m)[i := inst\<lparr>dv_is_active := False\<rparr>]\<rparr>, 0)))"

text \<open>What a successful transfer of \<open>cb\<close> bytes counts.\<close>

definition count_operation :: "DriverManager \<Rightarrow> nat \<Rightarrow> nat \<Rightarrow> DeviceInstance \<Rightarrow> DriverManager" where
  "count_operation m i j inst =
     m\<lparr>dm_instances := (dm_instances m)[i := inst\<lparr>dv_operations := dv_operations inst + 1\<rparr>],
       dm_drivers := (dm_drivers m)[j := (driver_at m j)
          \<lparr>dd_total_operations := dd_total_operations (driver_at m j) + 1\<rparr>]\<rparr>"

definition device_read ::
    "DriverManager option \<Rightarrow> u32 \<Rightarrow> bool \<Rightarrow> u32 \<Rightarrow> int \<Rightarrow> (DriverManager option \<times> int) outcome" where
  "device_read h device_id buffer sz cb = with_handle_ub (-1) h (\<lambda>m.
     if \<not> buffer then Done (m, -1)
     else case slot_of device_id (dm_instances m) of None \<Rightarrow> Done (m, -1)
     | Some i \<Rightarrow>
         let inst = dm_instances m ! i in
         if \<not> dv_is_active inst then Done (m, -1)
         else (case driver_slot m inst of None \<Rightarrow> Undef
         | Some j \<Rightarrow>
             (case dd_ops (driver_at m j) of None \<Rightarrow> Done (m, -1)
              | Some ops \<Rightarrow>
                  if \<not> op_read ops then Done (m, -1)
                  else Done (if cb > 0
                       then count_operation m i j (inst\<lparr>dv_bytes_read := dv_bytes_read inst + of_int cb\<rparr>)
                       else m, cb))))"

definition device_write ::
    "DriverManager option \<Rightarrow> u32 \<Rightarrow> bool \<Rightarrow> u32 \<Rightarrow> int \<Rightarrow> (DriverManager option \<times> int) outcome" where
  "device_write h device_id data sz cb = with_handle_ub (-1) h (\<lambda>m.
     if \<not> data then Done (m, -1)
     else case slot_of device_id (dm_instances m) of None \<Rightarrow> Done (m, -1)
     | Some i \<Rightarrow>
         let inst = dm_instances m ! i in
         if \<not> dv_is_active inst then Done (m, -1)
         else (case driver_slot m inst of None \<Rightarrow> Undef
         | Some j \<Rightarrow>
             (case dd_ops (driver_at m j) of None \<Rightarrow> Done (m, -1)
              | Some ops \<Rightarrow>
                  if \<not> op_write ops then Done (m, -1)
                  else Done (if cb > 0
                       then count_operation m i j (inst\<lparr>dv_bytes_written := dv_bytes_written inst + of_int cb\<rparr>)
                       else m, cb))))"

definition device_ioctl ::
    "DriverManager option \<Rightarrow> u32 \<Rightarrow> u32 \<Rightarrow> int \<Rightarrow> (DriverManager option \<times> int) outcome" where
  "device_ioctl h device_id cmd cb = with_handle_ub (-1) h (\<lambda>m.
     case slot_of device_id (dm_instances m) of None \<Rightarrow> Done (m, -1)
     | Some i \<Rightarrow>
         let inst = dm_instances m ! i in
         if \<not> dv_is_active inst then Done (m, -1)
         else (case driver_slot m inst of None \<Rightarrow> Undef
         | Some j \<Rightarrow>
             (case dd_ops (driver_at m j) of None \<Rightarrow> Done (m, -1)
              | Some ops \<Rightarrow>
                  if \<not> op_ioctl ops then Done (m, -1)
                  else Done (if cb = 0 then count_operation m i j inst else m, cb))))"

definition driver_get_info :: "DriverManager option \<Rightarrow> u32 \<Rightarrow> nat option" where
  "driver_get_info h driver_id = read_handle None h (\<lambda>m. slot_of driver_id (dm_drivers m))"

definition device_get_info :: "DriverManager option \<Rightarrow> u32 \<Rightarrow> nat option" where
  "device_get_info h device_id = read_handle None h (\<lambda>m. slot_of device_id (dm_instances m))"

definition driver_get_count :: "DriverManager option \<Rightarrow> u32" where
  "driver_get_count h = read_handle 0 h (\<lambda>m. of_nat (length (dm_drivers m)))"

definition device_get_count :: "DriverManager option \<Rightarrow> u32" where
  "device_get_count h = read_handle 0 h (\<lambda>m. of_nat (length (dm_instances m)))"

section \<open>Calls and reachable states\<close>

datatype drv_call =
  DrvRegister string string DeviceType DriverOps bool | DrvUnregister u32 | DrvLoad u32 time_t
  | DrvUnload u32 | DevCreate u32 u32 u32 string time_t | DevDelete u32 | DevOpen u32 int
  | DevClose u32 | DevRead u32 u32 int | DevWrite u32 u32 int | DevIoctl u32 u32 int

definition fst_outcome :: "(DriverManager option \<times> 'a) outcome \<Rightarrow> DriverManager outcome" where
  "fst_outcome x = (case x of Undef \<Rightarrow> Undef | Done (h, r) \<Rightarrow> Done (the h))"

fun drv_apply :: "drv_call \<Rightarrow> DriverManager \<Rightarrow> DriverManager outcome" where
  "drv_apply (DrvRegister n v t f b) m = fst_outcome (driver_register (Some m) (Some n) (Some v) t (Some f) b)"
| "drv_apply (DrvUnregister k) m = Done (the (fst (driver_unregister (Some m) k)))"
| "drv_apply (DrvLoad k now) m = Done (the (fst (driver_load (Some m) k now)))"
| "drv_apply (DrvUnload k) m = Done (the (fst (driver_unload (Some m) k)))"
| "drv_apply (DevCreate k a b n now) m = Done (the (fst (device_create (Some m) k a b (Some n) now)))"
| "drv_apply (DevDelete k) m = fst_outcome (device_delete (Some m) k)"
| "drv_apply (DevOpen k cb) m = fst_outcome (device_open (Some m) k cb)"
| "drv_apply (DevClose k) m = fst_outcome (device_close (Some m) k)"
| "drv_apply (DevRead k sz cb) m = fst_outcome (device_read (Some m) k True sz cb)"
| "drv_apply (DevWrite k sz cb) m = fst_outcome (device_write (Some m) k True sz cb)"
| "drv_apply (DevIoctl k cmd cb) m = fst_outcome (device_ioctl (Some m) k cmd cb)"

definition drv_step :: "DriverManager \<Rightarrow> DriverManager \<Rightarrow> bool" where
  "drv_step m m' \<longleftrightarrow> (\<exists>x. drv_apply x m = Done m')"

abbreviation drv_reachable :: "DriverManager \<Rightarrow> bool" where
  "drv_reachable \<equiv> reach (\<lambda>m. driver_init True = Some m) drv_step"

text \<open>An instance is deleted or belongs to one of the \<open>n\<close> drivers; a deleted one is not active.\<close>

definition instance_ok :: "nat \<Rightarrow> DeviceInstance \<Rightarrow> bool" where
  "instance_ok n v \<longleftrightarrow> unat (dv_driver_id v) \<le> n \<and> (dv_is_active v \<longrightarrow> dv_driver_id v \<noteq> 0)"

definition drv_inv :: "DriverManager \<Rightarrow> bool" where
  "drv_inv m \<longleftrightarrow> length (dm_drivers m) \<le> MAX_DRIVERS \<and> length (dm_instances m) \<le> MAX_DRIVER_INSTANCES \<and>
     list_all (instance_ok (length (dm_drivers m))) (dm_instances m)"

lemma instance_ok_mono: "list_all (instance_ok n) xs \<Longrightarrow> n \<le> k \<Longrightarrow> list_all (instance_ok k) xs"
  by (auto simp: list_all_iff instance_ok_def)

lemma drv_inv_instance:
  "drv_inv m \<Longrightarrow> slot_of k (dm_instances m) = Some i \<Longrightarrow> instance_ok (length (dm_drivers m)) (dm_instances m ! i)"
  by (auto simp: drv_inv_def intro: list_all_slot)

lemma driver_slot_Some:
  assumes "drv_inv m" and "slot_of k (dm_instances m) = Some i" and "dv_driver_id (dm_instances m ! i) \<noteq> 0"
  obtains j where "driver_slot m (dm_instances m ! i) = Some j" and "j < length (dm_drivers m)"
proof -
  let ?w = "dv_driver_id (dm_instances m ! i)"
  have "unat (?w - 1) < length (dm_drivers m)"
    using drv_inv_instance [OF assms(1,2)] assms(3) by (simp add: instance_ok_def unat_minus_one unat_gt_0)
       (metis Suc_pred assms(3) less_eq_Suc_le unat_gt_0)
  moreover from this assms(1) have "unat (?w - 1) < MAX_DRIVERS" by (simp add: drv_inv_def)
  ultimately show thesis using that by (simp add: driver_slot_def)
qed

lemma driver_slot_deleted: "dv_driver_id v = 0 \<Longrightarrow> driver_slot m v = None"
  by (simp add: driver_slot_def MAX_DRIVERS_def unsigned_minus_1_eq_mask mask_eq_exp_minus_1)

lemma length_drivers_unload [simp]:
  "length (dm_drivers (the (fst (driver_unload (Some m) k)))) = length (dm_drivers m)"
  "dm_instances (the (fst (driver_unload (Some m) k))) = dm_instances m"
  by (auto simp: driver_unload_def Let_def split: option.splits)

lemma drv_inv_register:
  assumes "drv_inv m" and "drv_apply (DrvRegister n v t f b) m = Done m'"
  shows "drv_inv m'"
proof -
  have "list_all (instance_ok (Suc (length (dm_drivers m)))) (dm_instances m)"
    using assms(1) instance_ok_mono by (fastforce simp: drv_inv_def)
  with assms show ?thesis
    by (auto simp: driver_register_def fst_outcome_def drv_inv_def with_handle_ub_def Let_def split: if_splits)
qed

lemma drv_inv_create:
  assumes "drv_inv m" and "drv_apply (DevCreate k a b n now) m = Done m'"
  shows "drv_inv m'"
proof -
  have "unat k \<le> length (dm_drivers m)" if "slot_of k (dm_drivers m) = Some i" for i
    using that by (auto simp: slot_of_Some)
  with assms show ?thesis
    by (auto simp: device_create_def drv_inv_def instance_ok_def Let_def split: option.splits)
qed

lemmas drv_device_defs = device_delete_def device_open_def device_close_def device_read_def
  device_write_def device_ioctl_def count_operation_def

lemma drv_inv_apply: "drv_inv m \<Longrightarrow> drv_apply x m = Done m' \<Longrightarrow> drv_inv m'"
proof (cases x)
  case (DrvUnregister k)
  assume "drv_inv m" "drv_apply x m = Done m'"
  with DrvUnregister show ?thesis
    by (auto simp: driver_unregister_def drv_inv_def Let_def split: option.splits)
next
  case (DrvRegister n v t f b)
  assume "drv_inv m" "drv_apply x m = Done m'"
  with DrvRegister drv_inv_register show ?thesis by blast
next
  case (DevCreate k a b n now)
  assume "drv_inv m" "drv_apply x m = Done m'"
  with DevCreate drv_inv_create show ?thesis by blast
next
  case (DrvLoad k now)
  assume "drv_inv m" "drv_apply x m = Done m'"
  with DrvLoad show ?thesis by (auto simp: driver_load_def drv_inv_def Let_def split: option.splits)
next
  case (DrvUnload k)
  assume "drv_inv m" "drv_apply x m = Done m'"
  with DrvUnload show ?thesis by (auto simp: drv_inv_def)
next
  case (DevDelete k)
  assume "drv_inv m" "drv_apply x m = Done m'"
  with DevDelete show ?thesis
    by (auto simp: device_delete_def fst_outcome_def with_handle_ub_def drv_inv_def Let_def zero_instance_def
        instance_ok_def intro!: list_all_update split: option.splits if_splits)
next
  case (DevOpen k cb)
  assume a: "drv_inv m" "drv_apply x m = Done m'"
  with DevOpen drv_inv_instance [OF a(1), of k] driver_slot_deleted [of _ m] show ?thesis
    by (fastforce simp: device_open_def fst_outcome_def with_handle_ub_def drv_inv_def Let_def
        instance_ok_def intro!: list_all_update split: option.splits if_splits)
next
  case (DevClose k)
  assume a: "drv_inv m" "drv_apply x m = Done m'"
  with DevClose drv_inv_instance [OF a(1), of k] show ?thesis
    by (auto simp: device_close_def fst_outcome_def with_handle_ub_def drv_inv_def Let_def
        instance_ok_def intro!: list_all_update split: option.splits if_splits)
next
  case (DevRead k sz cb)
  assume a: "drv_inv m" "drv_apply x m = Done m'"
  with DevRead drv_inv_instance [OF a(1), of k] show ?thesis
    by (auto simp: device_read_def fst_outcome_def with_handle_ub_def drv_inv_def Let_def count_operation_def
        instance_ok_def intro!: list_all_update split: option.splits if_splits)
next
  case (DevWrite k sz cb)
  assume a: "drv_inv m" "drv_apply x m = Done m'"
  with DevWrite drv_inv_instance [OF a(1), of k] show ?thesis
    by (auto simp: device_write_def fst_outcome_def with_handle_ub_def drv_inv_def Let_def count_operation_def
        instance_ok_def intro!: list_all_update split: option.splits if_splits)
next
  case (DevIoctl k cmd cb)
  assume a: "drv_inv m" "drv_apply x m = Done m'"
  with DevIoctl drv_inv_instance [OF a(1), of k] show ?thesis
    by (auto simp: device_ioctl_def fst_outcome_def with_handle_ub_def drv_inv_def Let_def count_operation_def
        instance_ok_def intro!: list_all_update split: option.splits if_splits)
qed

interpretation drv: invariant_system "\<lambda>m. driver_init True = Some m" drv_step drv_inv
proof
  show "driver_init True = Some m \<Longrightarrow> drv_inv m" for m by (auto simp: driver_init_def drv_inv_def)
  show "drv_step m m' \<Longrightarrow> drv_inv m \<Longrightarrow> drv_inv m'" for m m'
    by (auto simp: drv_step_def intro: drv_inv_apply)
qed

section \<open>Properties\<close>

text \<open>A device call by kind, for statements about all of them.\<close>

fun device_of :: "drv_call \<Rightarrow> u32 option" where
  "device_of (DevDelete k) = Some k"
| "device_of (DevOpen k cb) = Some k"
| "device_of (DevClose k) = Some k"
| "device_of (DevRead k sz cb) = Some k"
| "device_of (DevWrite k sz cb) = Some k"
| "device_of (DevIoctl k cmd cb) = Some k"
| "device_of _ = None"

definition drv_start :: DriverManager where "drv_start = the (driver_init True)"

definition all_ops :: DriverOps where
  "all_ops = \<lparr>op_initialize = True, op_cleanup = True, op_read = True, op_write = True, op_ioctl = True\<rparr>"

fun drv_run :: "DriverManager \<Rightarrow> drv_call list \<Rightarrow> DriverManager outcome" where
  "drv_run m [] = Done m"
| "drv_run m (x # xs) = (case drv_apply x m of Undef \<Rightarrow> Undef | Done m' \<Rightarrow> drv_run m' xs)"

lemma drv_run_reachable: "drv_reachable m \<Longrightarrow> drv_run m xs = Done m' \<Longrightarrow> drv_reachable m'"
proof (induction xs arbitrary: m)
  case (Cons x xs)
  then obtain m1 where "drv_apply x m = Done m1" "drv_run m1 xs = Done m'" by (auto split: outcome.splits)
  moreover from this have "drv_reachable m1"
    using Cons.prems(1) reach_step by (metis drv_step_def)
  ultimately show ?case using Cons.IH by blast
qed simp

definition drv_setup :: "drv_call list" where
  "drv_setup = [DrvRegister ''disk'' ''1'' DEVICE_TYPE_BLOCK all_ops True, DrvLoad 1 5, DevCreate 1 8 0 ''sda'' 5]"

text \<open>
  Memory safety of the device operations, exactly: in a reachable state a call is
  undefined if and only if it deletes or opens an instance that was deleted before (its slot is
  still addressable, with \<open>driver_id\<close> 0, and indexes the driver table at -1). Every other call
  is defined.
\<close>

lemma device_use_after_delete_exact:
  assumes "drv_reachable m"
  shows "drv_apply x m = Undef \<longleftrightarrow>
    (\<exists>k v. (x = DevDelete k \<or> (\<exists>cb. x = DevOpen k cb)) \<and> slot_get k (dm_instances m) = Some v \<and>
           dv_driver_id v = 0)"
proof -
  have inv: "drv_inv m" by (rule drv.inv_reachable [OF assms])
  have active: "dv_driver_id (dm_instances m ! i) \<noteq> 0"
    if "slot_of k (dm_instances m) = Some i" "dv_is_active (dm_instances m ! i)" for k i
    using drv_inv_instance [OF inv that(1)] that(2) by (simp add: instance_ok_def)
  have slot: "driver_slot m (dm_instances m ! i) = None \<longleftrightarrow> dv_driver_id (dm_instances m ! i) = 0"
    if "slot_of k (dm_instances m) = Some i" for k i
    using driver_slot_Some [OF inv that] driver_slot_deleted by (metis option.distinct(1))
  have inactive: "\<not> dv_is_active (dm_instances m ! i)"
    if "slot_of k (dm_instances m) = Some i" "dv_driver_id (dm_instances m ! i) = 0" for k i
    using active that by blast
  show ?thesis
  proof (cases x)
    case (DevDelete k)
    then show ?thesis using slot [of k] inactive [of k] driver_slot_deleted [of _ m]
      by (auto simp: device_delete_def fst_outcome_def with_handle_ub_def slot_get_Some Let_def
          split: option.splits)
  next
    case (DevOpen k cb)
    then show ?thesis using slot [of k] inactive [of k] driver_slot_deleted [of _ m]
      by (auto simp: device_open_def fst_outcome_def with_handle_ub_def slot_get_Some Let_def
          split: option.splits)
  next
    case (DrvRegister n v t f b)
    then show ?thesis by (simp add: driver_register_def fst_outcome_def with_handle_ub_def Let_def)
  next
    case (DevClose k)
    then show ?thesis using slot [of k] active [of k]
      by (auto simp: device_close_def fst_outcome_def with_handle_ub_def Let_def split: option.splits)
  next
    case (DevRead k sz cb)
    then show ?thesis using slot [of k] active [of k]
      by (auto simp: device_read_def fst_outcome_def with_handle_ub_def Let_def split: option.splits)
  next
    case (DevWrite k sz cb)
    then show ?thesis using slot [of k] active [of k]
      by (auto simp: device_write_def fst_outcome_def with_handle_ub_def Let_def split: option.splits)
  next
    case (DevIoctl k cmd cb)
    then show ?thesis using slot [of k] active [of k]
      by (auto simp: device_ioctl_def fst_outcome_def with_handle_ub_def Let_def split: option.splits)
  qed simp_all
qed

definition drv_ready :: DriverManager where
  "drv_ready = \<lparr>dm_drivers = [\<lparr>dd_driver_id = 1, dd_name = ''disk'',
    dd_version = ''1'', dd_device_type = DEVICE_TYPE_BLOCK, dd_state = DRIVER_STATE_LOADED,
    dd_ops = Some all_ops, dd_device_count = 1, dd_load_time = 5, dd_total_operations = 0,
    dd_is_builtin = True\<rparr>], dm_instances = [\<lparr>dv_device_id = 1, dv_type = DEVICE_TYPE_BLOCK,
    dv_major_num = 8, dv_minor_num = 0, dv_name = ''sda'', dv_driver_id = 1, dv_is_active = False,
    dv_bytes_read = 0, dv_bytes_written = 0, dv_operations = 0, dv_created_time = 5\<rparr>],
    dm_total_drivers_loaded = 1\<rparr>"

lemma drv_setup_run: "drv_run drv_start drv_setup = Done drv_ready"
  by (simp add: drv_setup_def drv_start_def driver_init_def driver_register_def driver_load_def device_create_def
      fst_outcome_def with_handle_ub_def with_handle_Some slot_of_def MAX_DRIVERS_def MAX_DRIVER_INSTANCES_def
      MAX_DRIVER_NAME_LEN_def Let_def drv_ready_def)

lemma device_use_after_delete_exact_witness:
  "drv_run drv_start drv_setup = Done drv_ready \<and> drv_apply (DevOpen 1 0) drv_ready \<noteq> Undef \<and>
   (\<exists>m'. drv_apply (DevDelete 1) drv_ready = Done m' \<and> drv_apply (DevOpen 1 0) m' = Undef)"
proof -
  have "drv_reachable drv_start" by (rule reach_init) (simp add: drv_start_def driver_init_def)
  then have r: "drv_reachable drv_ready" using drv_run_reachable drv_setup_run by blast
  obtain m' where m': "drv_apply (DevDelete 1) drv_ready = Done m'" "dm_instances m' = [zero_instance]"
    by (simp add: device_delete_def fst_outcome_def with_handle_ub_def slot_of_def driver_slot_def
        driver_at_def MAX_DRIVERS_def Let_def drv_ready_def)
  then have r': "drv_reachable m'" using r reach_step drv_step_def by metis
  have "drv_apply (DevOpen 1 0) drv_ready \<noteq> Undef"
    using device_use_after_delete_exact [OF r, of "DevOpen 1 0"]
    by (auto simp: slot_get_Some slot_of_def drv_ready_def)
  moreover have "drv_apply (DevOpen 1 0) m' = Undef"
    using device_use_after_delete_exact [OF r', of "DevOpen 1 0"] m'(2)
    by (simp add: slot_get_Some slot_of_def zero_instance_def)
  ultimately show ?thesis using m' drv_setup_run by blast
qed

text \<open>
  Unloading a driver clears its device count, so a driver with live devices can be unloaded and
  then unregistered.
\<close>

lemma driver_unregister_with_devices:
  "snd (driver_unregister (Some drv_ready) 1) = -1 \<and> snd (driver_unload (Some drv_ready) 1) = 0 \<and>
   snd (driver_unregister (fst (driver_unload (Some drv_ready) 1)) 1) = 0"
  by (simp add: driver_unregister_def driver_unload_def with_handle_Some slot_of_def Let_def drv_ready_def)

end
