(* ===== verification/Service_Tables.thy ===== *)
theory Service_Tables
  imports Contracts
begin

text \<open>
  What the services under \<open>src/services\<close> share. Each keeps a global array of its objects (stores,
  brokers, chains, ...) with a count, and every operation starts with

  \<^verbatim>\<open>if (id == 0 || id > g_count) return r;  T *x = &g_array[id - 1];\<close>

  Here the array is the list of its live slots and that prologue is \<open>with_slot\<close> (\<open>with_slot_ub\<close>
  for an operation that can be undefined, \<open>read_slot\<close> for one that changes nothing). The lemmas
  say what the slot of any identifier is afterwards, so that the component proofs work on one
  object. The locales \<open>bounded_refinement\<close> and \<open>call_refinement\<close> lift a simulation of single calls to
  whole histories with their results, and \<open>slot_service\<close> derives that the objects of a service do not influence each
  other.
\<close>

section \<open>Operations on one slot\<close>

definition with_slot :: "'r \<Rightarrow> u32 \<Rightarrow> 'a list \<Rightarrow> ('a \<Rightarrow> 'a \<times> 'r) \<Rightarrow> 'a list \<times> 'r" where
  "with_slot r k xs f =
     (case slot_of k xs of None \<Rightarrow> (xs, r)
      | Some i \<Rightarrow> (let (x, y) = f (xs ! i) in (xs[i := x], y)))"

definition with_slot_ub ::
    "'r \<Rightarrow> u32 \<Rightarrow> 'a list \<Rightarrow> ('a \<Rightarrow> ('a \<times> 'r) outcome) \<Rightarrow> ('a list \<times> 'r) outcome" where
  "with_slot_ub r k xs f =
     (case slot_of k xs of None \<Rightarrow> Done (xs, r)
      | Some i \<Rightarrow> (case f (xs ! i) of Undef \<Rightarrow> Undef | Done (x, y) \<Rightarrow> Done (xs[i := x], y)))"

definition read_slot :: "'r \<Rightarrow> u32 \<Rightarrow> 'a list \<Rightarrow> ('a \<Rightarrow> 'r) \<Rightarrow> 'r" where
  "read_slot r k xs f = (case slot_of k xs of None \<Rightarrow> r | Some i \<Rightarrow> f (xs ! i))"

text \<open>
  Deleting an object: the slots above it are shifted down by the copying loop and the count is
  lowered.
\<close>

definition delete_slot :: "u32 \<Rightarrow> 'a list \<Rightarrow> 'a list \<times> int" where
  "delete_slot k xs =
     (case slot_of k xs of None \<Rightarrow> (xs, -1)
      | Some i \<Rightarrow> (take (length xs - 1) (shift_down i (length xs) xs), 0))"

lemma slot_get_with_slot:
  "slot_get j (fst (with_slot r k xs f)) =
     (if j = k then map_option (\<lambda>x. fst (f x)) (slot_get k xs) else slot_get j xs)"
proof (cases "slot_of k xs")
  case None
  then show ?thesis by (auto simp: with_slot_def slot_get_None)
next
  case (Some i)
  have "fst (with_slot r k xs f) = xs[i := fst (f (xs ! i))]"
    using Some by (simp add: with_slot_def split: prod.split)
  with Some show ?thesis
    by (auto simp: slot_get_update slot_get_update_other) (simp add: slot_get_def)
qed

lemma with_slot_result [simp]:
  "snd (with_slot r k xs f) = (case slot_get k xs of None \<Rightarrow> r | Some x \<Rightarrow> snd (f x))"
  by (auto simp: with_slot_def slot_get_def split: option.split prod.split)

lemma length_with_slot [simp]: "length (fst (with_slot r k xs f)) = length xs"
  by (simp add: with_slot_def split: option.split prod.split)

lemma read_slot_get: "read_slot r k xs f = (case slot_get k xs of None \<Rightarrow> r | Some x \<Rightarrow> f x)"
  by (simp add: read_slot_def slot_get_def split: option.split)

lemma with_slot_None [simp]: "slot_get k xs = None \<Longrightarrow> with_slot r k xs f = (xs, r)"
  by (simp add: with_slot_def slot_get_def)

lemma with_slot_ub_None [simp]: "slot_get k xs = None \<Longrightarrow> with_slot_ub r k xs f = Done (xs, r)"
  by (simp add: with_slot_ub_def slot_get_def)

lemma with_slot_ub_Undef:
  "slot_get k xs = Some x \<Longrightarrow> with_slot_ub r k xs f = Undef \<longleftrightarrow> f x = Undef"
  by (auto simp: with_slot_ub_def slot_get_def split: outcome.splits)

lemma with_slot_ub_Done:
  assumes "slot_get k xs = Some x" and "with_slot_ub r k xs f = Done (ys, y)"
  obtains x' where "f x = Done (x', y)" and "slot_get k ys = Some x'" and "length ys = length xs"
    and "\<And>j. j \<noteq> k \<Longrightarrow> slot_get j ys = slot_get j xs"
proof -
  obtain i where i: "slot_of k xs = Some i" "xs ! i = x" using assms(1) by (auto simp: slot_get_def)
  with assms(2) obtain x' where "f x = Done (x', y)" "ys = xs[i := x']"
    by (auto simp: with_slot_ub_def split: outcome.splits)
  with i show thesis by (intro that [of x']) (auto simp: slot_get_update slot_get_update_other)
qed

lemma with_slot_ub_Some:
  assumes "slot_get k xs = Some x" and "f x = Done (x', y)"
  obtains ys where "with_slot_ub r k xs f = Done (ys, y)" and "slot_get k ys = Some x'"
    and "\<And>j. j \<noteq> k \<Longrightarrow> slot_get j ys = slot_get j xs"
proof -
  obtain i where i: "slot_of k xs = Some i" "xs ! i = x" using assms(1) by (auto simp: slot_get_def)
  with assms(2) show thesis
    by (intro that [of "xs[i := x']"]) (auto simp: with_slot_ub_def slot_get_update slot_get_update_other)
qed

lemma delete_slot_remove_at:
  "delete_slot k xs = (case slot_of k xs of None \<Rightarrow> (xs, -1) | Some i \<Rightarrow> (remove_at i xs, 0))"
  by (auto simp: delete_slot_def shift_down_remove_at dest: slot_of_SomeD split: option.split)

text \<open>
  The slots above a deleted one are renumbered: identifier \<open>j\<close> then denotes the object that had
  \<open>j + 1\<close>.
\<close>

lemma delete_slot_renumbers:
  assumes "slot_of k xs = Some i" and "length xs < 4294967295" and "k \<le> j"
  shows "slot_get j (fst (delete_slot k xs)) = slot_get (j + 1) xs"
proof -
  have i: "i < length xs" "unat k = Suc i" using assms(1) by (auto simp: slot_of_Some)
  have j: "Suc i \<le> unat j" using i assms(3) by (simp add: word_le_nat_alt)
  have old: "slot_of j (remove_at i xs) = (if unat j < length xs then Some (unat j - 1) else None)"
    using i j by (auto simp: slot_of_def length_remove_at unat_eq_0)
  have new: "slot_of (j + 1) xs = (if unat j < length xs then Some (unat j) else None)"
  proof (cases "j + 1 = 0")
    case True
    then have "j = - 1" by (simp add: add_eq_0_iff2)
    then have "unat j = 4294967295" by (simp add: unsigned_minus_1_eq_mask mask_eq_exp_minus_1)
    with assms(2) True show ?thesis by simp
  next
    case False
    then have "unat (j + 1) = Suc (unat j)" by (metis unatSuc add.commute)
    with False show ?thesis by (simp add: slot_of_def)
  qed
  have "remove_at i xs ! (unat j - 1) = xs ! unat j" if "unat j < length xs"
    using i j that by (auto simp: remove_at_def nth_append min_def)
  with old new assms(1) show ?thesis by (simp add: delete_slot_remove_at slot_get_def)
qed

section \<open>Histories of calls with results\<close>

fun call_run :: "('s \<Rightarrow> 'c \<Rightarrow> 's \<times> 'r) \<Rightarrow> 's \<Rightarrow> 'c list \<Rightarrow> 's \<times> 'r list" where
  "call_run step s [] = (s, [])"
| "call_run step s (c # cs) =
     (let (s1, r) = step s c; (s2, rs) = call_run step s1 cs in (s2, r # rs))"

text \<open>
  A simulation of the calls, one by one, under an invariant that may use up a resource (identifiers
  from a counter that must not wrap, say): \<open>inv n s\<close> allows \<open>n\<close> more calls.
\<close>

locale bounded_refinement =
  fixes step :: "'s \<Rightarrow> 'c \<Rightarrow> 's \<times> 'r"
    and spec :: "'a \<Rightarrow> 'c \<Rightarrow> 'a \<times> 'r"
    and abs :: "'s \<Rightarrow> 'a"
    and inv :: "nat \<Rightarrow> 's \<Rightarrow> bool"
    and ok :: "'c \<Rightarrow> bool"
  assumes bounded_simulation:
    "inv (Suc n) s \<Longrightarrow> ok c \<Longrightarrow> step s c = (s', r) \<Longrightarrow> inv n s' \<and> spec (abs s) c = (abs s', r)"
begin

lemma bounded_run:
  "inv (n + length cs) s \<Longrightarrow> list_all ok cs \<Longrightarrow> call_run step s cs = (s', rs) \<Longrightarrow>
   inv n s' \<and> call_run spec (abs s) cs = (abs s', rs)"
proof (induction cs arbitrary: s rs)
  case Nil
  then show ?case by simp
next
  case (Cons c cs)
  obtain s1 r rs1 where "step s c = (s1, r)" and "call_run step s1 cs = (s', rs1)" and "rs = r # rs1"
    using Cons.prems(3) by (auto split: prod.splits)
  with Cons bounded_simulation [of "n + length cs" s c s1 r] show ?case by auto
qed

lemma bounded_results:
  assumes "inv (n + length cs) s" and "list_all ok cs"
  shows "snd (call_run step s cs) = snd (call_run spec (abs s) cs)"
    and "abs (fst (call_run step s cs)) = fst (call_run spec (abs s) cs)"
    and "inv n (fst (call_run step s cs))"
  using bounded_run [OF assms, of "fst (call_run step s cs)" "snd (call_run step s cs)"] by auto

end

text \<open>The usual case, an invariant that every call keeps.\<close>

locale call_refinement =
  fixes step :: "'s \<Rightarrow> 'c \<Rightarrow> 's \<times> 'r"
    and spec :: "'a \<Rightarrow> 'c \<Rightarrow> 'a \<times> 'r"
    and abs :: "'s \<Rightarrow> 'a"
    and inv :: "'s \<Rightarrow> bool"
    and ok :: "'c \<Rightarrow> bool"
  assumes simulation: "inv s \<Longrightarrow> ok c \<Longrightarrow> step s c = (s', r) \<Longrightarrow> inv s' \<and> spec (abs s) c = (abs s', r)"

sublocale call_refinement \<subseteq> unbounded: bounded_refinement step spec abs "\<lambda>n. inv" ok
  by unfold_locales (rule simulation)

context call_refinement begin

lemmas run_refines = unbounded.bounded_run

lemmas run_results = unbounded.bounded_results

end

text \<open>
  A simulation that holds as long as the abstract machine stays within a limit; \<open>guarded\<close> says that a
  whole history does.
\<close>

fun guarded :: "('a \<Rightarrow> 'c \<Rightarrow> 'a \<times> 'r) \<Rightarrow> ('a \<Rightarrow> 'c \<Rightarrow> bool) \<Rightarrow> 'a \<Rightarrow> 'c list \<Rightarrow> bool" where
  "guarded spec guard a [] \<longleftrightarrow> True"
| "guarded spec guard a (c # cs) \<longleftrightarrow> guard a c \<and> guarded spec guard (fst (spec a c)) cs"

locale guarded_refinement =
  fixes step :: "'s \<Rightarrow> 'c \<Rightarrow> 's \<times> 'r"
    and spec :: "'a \<Rightarrow> 'c \<Rightarrow> 'a \<times> 'r"
    and abs :: "'s \<Rightarrow> 'a"
    and inv :: "'s \<Rightarrow> bool"
    and guard :: "'a \<Rightarrow> 'c \<Rightarrow> bool"
  assumes guarded_simulation:
    "inv s \<Longrightarrow> guard (abs s) c \<Longrightarrow> step s c = (s', r) \<Longrightarrow> inv s' \<and> spec (abs s) c = (abs s', r)"
begin

lemma guarded_run:
  assumes "inv s" and "guarded spec guard (abs s) cs"
  shows "inv (fst (call_run step s cs)) \<and> snd (call_run step s cs) = snd (call_run spec (abs s) cs) \<and>
    abs (fst (call_run step s cs)) = fst (call_run spec (abs s) cs)"
  using assms
proof (induction cs arbitrary: s)
  case Nil
  then show ?case by simp
next
  case (Cons c cs)
  obtain s1 r where "step s c = (s1, r)" by fastforce
  with Cons.prems Cons.IH [of s1] guarded_simulation [of s c s1 r] show ?case by (auto split: prod.split)
qed

end

section \<open>Objects of a service are independent\<close>

locale slot_service =
  fixes step :: "'x list \<Rightarrow> 'c \<Rightarrow> 'x list"
    and target :: "'c \<Rightarrow> u32"
    and local :: "'x \<Rightarrow> 'c \<Rightarrow> 'x"
  assumes step_local: "slot_get j (step xs c) =
      (if target c = j then map_option (\<lambda>x. local x c) (slot_get j xs) else slot_get j xs)"
begin

lemma independent:
  "slot_get j (foldl step xs cs) =
   map_option (\<lambda>x. foldl local x (filter (\<lambda>c. target c = j) cs)) (slot_get j xs)"
proof (induction cs arbitrary: xs)
  case Nil
  then show ?case by (simp add: option.map_ident)
next
  case (Cons c cs)
  then show ?case by (simp add: step_local option.map_comp comp_def)
qed

end

section \<open>Tables as maps\<close>

text \<open>
  A table searched by key, as the map from keys to what its entries mean. With distinct keys the
  ways the services change their tables are the updates of that map.
\<close>

definition table_map :: "('x \<Rightarrow> 'k) \<Rightarrow> ('x \<Rightarrow> 'v) \<Rightarrow> 'x list \<Rightarrow> 'k \<rightharpoonup> 'v" where
  "table_map key val xs = map_of (map (\<lambda>x. (key x, val x)) xs)"

lemma table_map_Nil [simp]: "table_map key val [] = Map.empty"
  by (simp add: table_map_def)

lemma table_map_Cons [simp]: "table_map key val (x # xs) = (table_map key val xs)(key x \<mapsto> val x)"
  by (simp add: table_map_def)

lemma table_map_find:
  "table_map key val xs k = map_option (\<lambda>i. val (xs ! i)) (first_idx (\<lambda>x. key x = k) xs)"
  by (simp add: table_map_def first_idx_map_of)

lemma dom_table_map: "dom (table_map key val xs) = set (map key xs)"
  by (simp add: table_map_def dom_map_of_conv_image_fst image_image)

lemma card_table_map: "distinct (map key xs) \<Longrightarrow> card (dom (table_map key val xs)) = length xs"
  using distinct_card [of "map key xs"] by (simp add: dom_table_map)

lemma table_map_update:
  assumes "distinct (map key xs)" and "first_idx (\<lambda>x. key x = k) xs = Some i" and "key y = k"
  shows "table_map key val (xs[i := y]) = (table_map key val xs)(k \<mapsto> val y)"
    and "map key (xs[i := y]) = map key xs"
proof -
  note i = first_idx_SomeD [OF assms(2)]
  show "map key (xs[i := y]) = map key xs"
    using i assms(3) by (simp add: map_update list_update_same_conv)
  have "map_of ((map (\<lambda>x. (key x, val x)) xs)[i := (k, val y)]) = (map_of (map (\<lambda>x. (key x, val x)) xs))(k \<mapsto> val y)"
    using assms(1) i by (intro map_of_update_nth) (simp_all add: comp_def)
  then show "table_map key val (xs[i := y]) = (table_map key val xs)(k \<mapsto> val y)"
    using assms(3) by (simp add: table_map_def map_update)
qed

lemma table_map_snoc:
  "key y \<notin> set (map key xs) \<Longrightarrow> table_map key val (xs @ [y]) = (table_map key val xs)(key y \<mapsto> val y)"
  using map_of_snoc [of "map (\<lambda>x. (key x, val x)) xs" "key y" "val y"]
  by (auto simp: table_map_def map_of_eq_None_iff image_image)

lemma table_map_remove:
  assumes "distinct (map key xs)" and "first_idx (\<lambda>x. key x = k) xs = Some i"
  shows "table_map key val (remove_at i xs) = (table_map key val xs)(k := None)"
proof -
  have "map (\<lambda>x. (key x, val x)) (remove_at i xs) = filter (\<lambda>p. fst p \<noteq> k) (map (\<lambda>x. (key x, val x)) xs)"
    by (simp add: remove_at_filter_key [OF assms] filter_map comp_def)
  then show ?thesis
    by (auto simp: table_map_def map_of_filter [of "\<lambda>k'. k' \<noteq> k"] restrict_map_def fun_eq_iff)
qed

section \<open>Identifiers from a counter\<close>

text \<open>The identifiers of a table are distinct, not 0 and below the counter, which has room for \<open>n\<close> more.\<close>

definition ids_below :: "nat \<Rightarrow> u32 \<Rightarrow> u32 list \<Rightarrow> bool" where
  "ids_below n nx ks \<longleftrightarrow> distinct ks \<and> list_all (\<lambda>k. k \<noteq> 0 \<and> k < nx) ks \<and> nx \<noteq> 0 \<and> unat nx + n < 4294967296"

lemma ids_below_mono: "ids_below (Suc n) nx ks \<Longrightarrow> ids_below n nx ks"
  by (simp add: ids_below_def)

lemma ids_below_new:
  assumes "ids_below (Suc n) nx ks"
  shows "ids_below n (nx + 1) (ks @ [nx])" and "nx \<notin> set ks"
proof -
  have u: "unat (nx + 1) = Suc (unat nx)" using assms by (simp add: ids_below_def unat_word_ariths)
  then have "nx < nx + 1" "nx + 1 \<noteq> 0" by (auto simp: word_less_nat_alt)
  with assms u show "ids_below n (nx + 1) (ks @ [nx])" and "nx \<notin> set ks"
    by (auto simp: ids_below_def list_all_iff dest: less_trans)
qed

lemma ids_below_remove: "ids_below (Suc n) nx ks \<Longrightarrow> ids_below n nx (remove_at i ks)"
  by (simp add: ids_below_def distinct_remove_at list_all_remove_at)

text \<open>Searches of such a table reject the identifier 0 first; the map does not have it.\<close>

definition id_idx :: "('x \<Rightarrow> u32) \<Rightarrow> u32 \<Rightarrow> 'x list \<Rightarrow> nat option" where
  "id_idx key k xs = (if k = 0 then None else first_idx (\<lambda>x. key x = k) xs)"

lemma id_idx_first: "id_idx key k xs = Some i \<Longrightarrow> first_idx (\<lambda>x. key x = k) xs = Some i"
  by (simp add: id_idx_def split: if_splits)

lemma id_idxD: "id_idx key k xs = Some i \<Longrightarrow> i < length xs \<and> key (xs ! i) = k \<and> xs ! i \<in> set xs"
  using first_idx_SomeD [OF id_idx_first] by blast

lemma id_lookup:
  assumes "ids_below n nx (map key xs)"
  shows "table_map key val xs k = map_option (\<lambda>i. val (xs ! i)) (id_idx key k xs)"
proof (cases "k = 0")
  case True
  then have "k \<notin> dom (table_map key val xs)" using assms by (auto simp: dom_table_map ids_below_def list_all_iff)
  with True show ?thesis by (auto simp: id_idx_def)
qed (simp add: table_map_find id_idx_def)

text \<open>A search for an entry of a table inside a table goes on after an object that does not have it;
  since identifiers differ, that finds nothing more.\<close>

lemma nested_search:
  assumes "ids_below n nx (map key xs)"
  shows "first_idx (\<lambda>x. key x = k \<and> sel x \<noteq> None) xs =
    (case id_idx key k xs of None \<Rightarrow> None | Some i \<Rightarrow> if sel (xs ! i) = None then None else Some i)"
proof (cases "id_idx key k xs")
  case None
  then have "\<not> (key x = k)" if "x \<in> set xs" for x
    using that assms by (auto simp: id_idx_def first_idx_None ids_below_def list_all_iff split: if_splits)
  with None show ?thesis by (auto simp: first_idx_None)
next
  case (Some i)
  note i = id_idxD [OF Some]
  have dist: "distinct (map key xs)" using assms by (simp add: ids_below_def)
  have other: "j = i" if "j < length xs" "key (xs ! j) = k" for j
    using that i dist by (auto simp: distinct_conv_nth)
  show ?thesis
  proof (cases "sel (xs ! i) = None")
    case True
    then have "first_idx (\<lambda>x. key x = k \<and> sel x \<noteq> None) xs = None"
      using other by (auto simp: first_idx_None in_set_conv_nth)
    with True Some show ?thesis by simp
  next
    case False
    have "key (xs ! j) \<noteq> k" if "j < i" for j using other [of j] that i by auto
    with False i have "first_idx (\<lambda>x. key x = k \<and> sel x \<noteq> None) xs = Some i"
      unfolding first_idx_Some by auto
    with False Some show ?thesis by simp
  qed
qed

lemma id_update:
  assumes "ids_below (Suc n) nx (map key xs)" and "id_idx key k xs = Some i" and "key y = k"
  shows "ids_below n nx (map key (xs[i := y]))"
    and "table_map key val (xs[i := y]) = (table_map key val xs)(k \<mapsto> val y)"
proof -
  have "distinct (map key xs)" using assms(1) by (simp add: ids_below_def)
  note upd = table_map_update [OF this id_idx_first [OF assms(2)] assms(3)]
  from upd(2) ids_below_mono [OF assms(1)] show "ids_below n nx (map key (xs[i := y]))" by simp
  from upd(1) show "table_map key val (xs[i := y]) = (table_map key val xs)(k \<mapsto> val y)" .
qed

lemma id_remove:
  assumes "ids_below (Suc n) nx (map key xs)" and "id_idx key k xs = Some i"
  shows "ids_below n nx (map key (remove_at i xs))"
    and "table_map key val (remove_at i xs) = (table_map key val xs)(k := None)"
  using assms table_map_remove [OF _ id_idx_first [OF assms(2)]]
  by (auto simp: map_remove_at ids_below_remove) (simp add: ids_below_def)

lemma id_create:
  assumes "ids_below (Suc n) nx (map key xs)" and "key y = nx"
  shows "ids_below n (nx + 1) (map key (xs @ [y]))"
    and "table_map key val (xs @ [y]) = (table_map key val xs)(nx \<mapsto> val y)"
    and "card (dom (table_map key val xs)) = length xs"
  using ids_below_new [OF assms(1)] assms by (auto simp: table_map_snoc card_table_map ids_below_def)

section \<open>Ring buffers\<close>

text \<open>The \<open>n\<close> elements of a circular array that start at \<open>head\<close>.\<close>

definition ring :: "nat \<Rightarrow> nat \<Rightarrow> 'a list \<Rightarrow> 'a list" where
  "ring head n xs = map (\<lambda>i. xs ! ((head + i) mod length xs)) [0..<n]"

lemma length_ring [simp]: "length (ring head n xs) = n"
  by (simp add: ring_def)

lemma ring_0 [simp]: "ring head 0 xs = []"
  by (simp add: ring_def)

lemma mod_ring_distinct:
  fixes h :: nat
  assumes "i < j" and "j < i + L"
  shows "(h + i) mod L \<noteq> (h + j) mod L"
proof
  assume "(h + i) mod L = (h + j) mod L"
  then have "L dvd (h + j) - (h + i)" using assms(1) by (metis add_le_cancel_left less_imp_le mod_eq_dvd_iff_nat)
  then have "L dvd j - i" by simp
  with assms show False by (auto dest: dvd_imp_le)
qed

lemma ring_put:
  assumes "n < length xs"
  shows "ring head (Suc n) (xs[(head + n) mod length xs := x]) = ring head n xs @ [x]"
proof -
  have "xs[(head + n) mod length xs := x] ! ((head + i) mod length xs) = xs ! ((head + i) mod length xs)"
    if "i < n" for i
    using mod_ring_distinct [of i n "length xs" head] that assms by simp
  moreover have "(head + n) mod length xs < length xs" using assms by (intro mod_less_divisor) linarith
  ultimately show ?thesis by (simp add: ring_def)
qed

lemma ring_Suc:
  assumes "head < length xs"
  shows "ring head (Suc n) xs = xs ! head # ring (Suc head mod length xs) n xs"
proof -
  have "ring head (Suc n) xs = xs ! head # map (\<lambda>i. xs ! ((head + Suc i) mod length xs)) [0..<n]"
    using assms by (simp add: ring_def upt_conv_Cons map_Suc_upt [symmetric] comp_def del: upt_Suc)
  then show ?thesis by (simp add: ring_def mod_add_left_eq)
qed

lemma ring_update_head:
  assumes "n < length xs" and "head < length xs"
  shows "ring (Suc head mod length xs) n (xs[head := x]) = ring (Suc head mod length xs) n xs"
proof -
  have "(Suc head mod length xs + i) mod length xs \<noteq> head" if "i < n" for i
    using mod_ring_distinct [of 0 "Suc i" "length xs" head] that assms by (simp add: mod_add_left_eq)
  then show ?thesis by (auto simp: ring_def intro!: nth_list_update_neq [OF not_sym])
qed

lemma map_ring: "xs \<noteq> [] \<Longrightarrow> map f (ring head n xs) = ring head n (map f xs)"
  by (simp add: ring_def)

section \<open>Characters as integers\<close>

text \<open>A \<open>char\<close> promoted to \<open>int\<close>: plain \<open>char\<close> is signed on the targets of the program.\<close>

definition char_int :: "char \<Rightarrow> int" where
  "char_int c = (let n = of_char c in if n < 128 then n else n - 256)"

end
