(* ===== verification/KV_Store.thy ===== *)
theory KV_Store
  imports Service_Tables
begin

text \<open>
  The key-value store of \<open>src/services/dist_kv_store.c\<close>: stores of keys with up to 32 versions of
  a value, tombstones, transactions, replica placement and compaction. A value with its length is
  the list of its bytes. The struct declares \<open>KeyValueEntry *entries[MAX_KEYS]\<close>, but every use
  in the file takes an element as the entry itself (\<open>store->entries[i].key\<close>); the model follows
  the uses. Keys are cut to 255 characters by \<open>strncpy\<close>.

  After the operations come the abstract store (a map from keys to their value history and a
  deletion flag), the proof that any history of calls refines it with the same results, and
  what transactions do.
\<close>

section \<open>Constants and data\<close>

definition MAX_KV_STORES :: nat where "MAX_KV_STORES = 16"
definition MAX_NODES :: nat where "MAX_NODES = 64"
definition MAX_KEYS :: nat where "MAX_KEYS = 16384"
definition MAX_KEY_SIZE :: nat where "MAX_KEY_SIZE = 256"
definition MAX_VALUE_SIZE :: u32 where "MAX_VALUE_SIZE = 65536"
definition MAX_REPLICAS :: u32 where "MAX_REPLICAS = 8"
definition MAX_TRANSACTIONS :: nat where "MAX_TRANSACTIONS = 512"
definition MAX_VERSIONS :: nat where "MAX_VERSIONS = 32"

lemmas kv_consts = MAX_KV_STORES_def MAX_NODES_def MAX_KEYS_def MAX_KEY_SIZE_def MAX_VALUE_SIZE_def
  MAX_REPLICAS_def MAX_TRANSACTIONS_def MAX_VERSIONS_def

datatype NodeHealth = NODE_HEALTHY | NODE_DEGRADED | NODE_UNREACHABLE | NODE_RECOVERING

fun health_code :: "NodeHealth \<Rightarrow> int" where
  "health_code NODE_HEALTHY = 1"
| "health_code NODE_DEGRADED = 2"
| "health_code NODE_UNREACHABLE = 3"
| "health_code NODE_RECOVERING = 4"

datatype ConsistencyModel = CONSISTENCY_STRONG | CONSISTENCY_EVENTUAL | CONSISTENCY_CAUSAL

datatype TransactionState = TX_PENDING | TX_COMMITTED | TX_ABORTED | TX_FAILED

record ValueVersion =
  vv_version :: u32
  vv_timestamp :: u64
  vv_value :: "u8 list"
  vv_author :: string

record KeyValueEntry =
  ke_key :: string
  ke_versions :: "ValueVersion list"
  ke_current_version :: u32
  ke_created_at :: u64
  ke_last_modified :: u64
  ke_access_count :: u32
  ke_is_tombstone :: bool

record Node =
  nd_node_id :: u32
  nd_address :: string
  nd_port :: u16
  nd_health :: NodeHealth
  nd_last_heartbeat :: u64
  nd_replication_lag :: u32
  nd_keys_stored :: u64
  nd_bytes_stored :: u64

record Transaction =
  tx_tx_id :: u64
  tx_operation :: string
  tx_key :: string
  tx_value :: "u8 list"
  tx_state :: TransactionState
  tx_start_time :: u64
  tx_commit_time :: u64
  tx_read_version :: u32
  tx_write_version :: u32

record DistributedKVStore =
  ks_store_id :: u32
  ks_name :: string
  ks_consistency :: ConsistencyModel
  ks_nodes :: "Node list"
  ks_entries :: "KeyValueEntry list"
  ks_transactions :: "Transaction list"
  ks_replica_factor :: u32
  ks_quorum_size :: u32
  ks_hash_ring_size :: u32
  ks_hash_ring :: "u32 list"
  ks_total_reads :: u64
  ks_total_writes :: u64
  ks_total_deletes :: u64
  ks_bytes_total :: u64

record ReplicaNode =
  rn_node_id :: u32
  rn_distance :: u64

text \<open>The static variables of the file.\<close>

record KVState =
  g_stores :: "DistributedKVStore list"
  g_tx_id_counter :: u64

definition kv_initial :: KVState where
  "kv_initial = \<lparr>g_stores = [], g_tx_id_counter = 1\<rparr>"

definition with_store :: "'r \<Rightarrow> u32 \<Rightarrow> KVState \<Rightarrow> (DistributedKVStore \<Rightarrow> DistributedKVStore \<times> 'r) \<Rightarrow> KVState \<times> 'r" where
  "with_store r store_id g f =
     (let (ss, x) = with_slot r store_id (g_stores g) f in (g\<lparr>g_stores := ss\<rparr>, x))"

definition with_store_ub ::
    "'r \<Rightarrow> u32 \<Rightarrow> KVState \<Rightarrow> (DistributedKVStore \<Rightarrow> (DistributedKVStore \<times> 'r) outcome) \<Rightarrow>
     (KVState \<times> 'r) outcome" where
  "with_store_ub r store_id g f =
     (case with_slot_ub r store_id (g_stores g) f of Undef \<Rightarrow> Undef
      | Done (ss, x) \<Rightarrow> Done (g\<lparr>g_stores := ss\<rparr>, x))"

section \<open>Helpers\<close>

fun hash_loop :: "u32 \<Rightarrow> string \<Rightarrow> u32" where
  "hash_loop hash [] = hash"
| "hash_loop hash (c # cs) = hash_loop ((push_bit 5 hash + hash) + of_int (char_int c)) cs"

definition hash_key :: "string \<Rightarrow> u32" where
  "hash_key key = hash_loop 5381 key"

definition find_entry :: "DistributedKVStore \<Rightarrow> string \<Rightarrow> nat option" where
  "find_entry store key = first_idx (\<lambda>e. ke_key e = key) (ks_entries store)"

section \<open>Stores and nodes\<close>

text \<open>\<open>ring_ok\<close> says whether \<open>malloc\<close> gives the hash ring.\<close>

definition kv_create_store ::
    "KVState \<Rightarrow> string option \<Rightarrow> ConsistencyModel \<Rightarrow> u32 \<Rightarrow> bool \<Rightarrow> KVState \<times> int" where
  "kv_create_store g name consistency replica_factor ring_ok =
     (case name of None \<Rightarrow> (g, -1)
      | Some nm \<Rightarrow>
          if length (g_stores g) \<ge> MAX_KV_STORES \<or> \<not> ring_ok then (g, -1)
          else let sid = of_nat (length (g_stores g)) + 1;
                   store = \<lparr>ks_store_id = sid, ks_name = take 63 nm, ks_consistency = consistency,
                     ks_nodes = [], ks_entries = [], ks_transactions = [],
                     ks_replica_factor = (if replica_factor > MAX_REPLICAS then MAX_REPLICAS else replica_factor),
                     ks_quorum_size = replica_factor div 2 + 1, ks_hash_ring_size = 160,
                     ks_hash_ring = replicate 160 0, ks_total_reads = 0, ks_total_writes = 0,
                     ks_total_deletes = 0, ks_bytes_total = 0\<rparr>
               in (g\<lparr>g_stores := g_stores g @ [store]\<rparr>, sint sid))"

definition kv_delete_store :: "KVState \<Rightarrow> u32 \<Rightarrow> KVState \<times> int" where
  "kv_delete_store g store_id =
     (let (ss, r) = delete_slot store_id (g_stores g) in (g\<lparr>g_stores := ss\<rparr>, r))"

definition kv_add_node :: "KVState \<Rightarrow> u32 \<Rightarrow> u32 \<Rightarrow> string option \<Rightarrow> u16 \<Rightarrow> KVState \<times> int" where
  "kv_add_node g store_id node_id address port =
     (case address of None \<Rightarrow> (g, -1)
      | Some addr \<Rightarrow> with_store (-1) store_id g (\<lambda>store.
          if length (ks_nodes store) \<ge> MAX_NODES then (store, -1)
          else (store\<lparr>ks_nodes := ks_nodes store @ [\<lparr>nd_node_id = node_id, nd_address = take 63 addr,
                  nd_port = port, nd_health = NODE_HEALTHY, nd_last_heartbeat = 0,
                  nd_replication_lag = 0, nd_keys_stored = 0, nd_bytes_stored = 0\<rparr>]\<rparr>, 0)))"

definition kv_remove_node :: "KVState \<Rightarrow> u32 \<Rightarrow> u32 \<Rightarrow> KVState \<times> int" where
  "kv_remove_node g store_id node_id = with_store (-1) store_id g (\<lambda>store.
     let ns = ks_nodes store in
     case first_idx (\<lambda>n. nd_node_id n = node_id) ns of None \<Rightarrow> (store, -1)
     | Some i \<Rightarrow> (store\<lparr>ks_nodes := take (length ns - 1) (shift_down i (length ns) ns)\<rparr>, 0))"

definition kv_get_node_health :: "KVState \<Rightarrow> u32 \<Rightarrow> u32 \<Rightarrow> int" where
  "kv_get_node_health g store_id node_id = read_slot (-1) store_id (g_stores g) (\<lambda>store.
     case first_idx (\<lambda>n. nd_node_id n = node_id) (ks_nodes store) of None \<Rightarrow> -1
     | Some i \<Rightarrow> health_code (nd_health (ks_nodes store ! i)))"

definition kv_update_node_health :: "KVState \<Rightarrow> u32 \<Rightarrow> u32 \<Rightarrow> NodeHealth \<Rightarrow> KVState \<times> int" where
  "kv_update_node_health g store_id node_id health = with_store (-1) store_id g (\<lambda>store.
     case first_idx (\<lambda>n. nd_node_id n = node_id) (ks_nodes store) of None \<Rightarrow> (store, -1)
     | Some i \<Rightarrow>
         (store\<lparr>ks_nodes := (ks_nodes store)[i := (ks_nodes store ! i)\<lparr>nd_health := health\<rparr>]\<rparr>, 0))"

section \<open>Keys and values\<close>

text \<open>The pieces of \<open>kv_put\<close>: a further version, a first one, and the counters of the store.\<close>

definition add_version :: "u8 list \<Rightarrow> KeyValueEntry \<Rightarrow> KeyValueEntry" where
  "add_version bytes entry =
     (let version = of_nat (length (ke_versions entry)) + 1
      in entry\<lparr>ke_versions := ke_versions entry @ [\<lparr>vv_version = version, vv_timestamp = 0,
                 vv_value = bytes, vv_author = ''system''\<rparr>],
               ke_current_version := version, ke_last_modified := 0, ke_is_tombstone := False\<rparr>)"

definition new_entry :: "string \<Rightarrow> u8 list \<Rightarrow> KeyValueEntry" where
  "new_entry key bytes =
     \<lparr>ke_key = take (MAX_KEY_SIZE - 1) key,
      ke_versions = [\<lparr>vv_version = 1, vv_timestamp = 0, vv_value = bytes, vv_author = ''system''\<rparr>],
      ke_current_version = 1, ke_created_at = 0, ke_last_modified = 0, ke_access_count = 0,
      ke_is_tombstone = False\<rparr>"

definition count_write :: "u32 \<Rightarrow> DistributedKVStore \<Rightarrow> DistributedKVStore" where
  "count_write value_len store =
     store\<lparr>ks_total_writes := ks_total_writes store + 1,
           ks_bytes_total := ks_bytes_total store + ucast value_len\<rparr>"

text \<open>
  \<open>memcpy\<close> reads \<open>value_len\<close> bytes of \<open>value\<close>, which is undefined when the caller's buffer is
  shorter. When a key has 32 versions the new value is dropped, but the write is counted.
\<close>

definition kv_put ::
    "KVState \<Rightarrow> u32 \<Rightarrow> string option \<Rightarrow> u8 list option \<Rightarrow> u32 \<Rightarrow> (KVState \<times> int) outcome" where
  "kv_put g store_id key value value_len =
     (case (key, value) of
        (Some k, Some v) \<Rightarrow> with_store_ub (-1) store_id g (\<lambda>store.
          if value_len > MAX_VALUE_SIZE then Done (store, -1)
          else let es = ks_entries store; bytes = take (unat value_len) v; short = length v < unat value_len in
          case find_entry store k of
            Some i \<Rightarrow>
              if length (ke_versions (es ! i)) < MAX_VERSIONS
              then if short then Undef
                   else Done (count_write value_len (store\<lparr>ks_entries := es[i := add_version bytes (es ! i)]\<rparr>), 0)
              else Done (count_write value_len store, 0)
          | None \<Rightarrow>
              if length es \<ge> MAX_KEYS then Done (store, -1)
              else if short then Undef
              else Done (count_write value_len (store\<lparr>ks_entries := es @ [new_entry k bytes]\<rparr>), 0))
      | _ \<Rightarrow> Done (g, -1))"

text \<open>
  The arguments of the reading operations: \<open>value\<close> says whether the output buffer is given, \<open>cap\<close>
  is \<open>*value_len\<close> (\<open>None\<close> when the pointer is \<open>NULL\<close>). The result is the code returned and, on
  success, the bytes copied out, whose number is stored in \<open>*value_len\<close>.
\<close>

definition kv_get ::
    "KVState \<Rightarrow> u32 \<Rightarrow> string option \<Rightarrow> bool \<Rightarrow> u32 option \<Rightarrow> KVState \<times> int \<times> u8 list option" where
  "kv_get g store_id key value cap =
     (case (key, cap) of
        (Some k, Some n) \<Rightarrow>
          if \<not> value then (g, -1, None)
          else with_store (-1, None) store_id g (\<lambda>store.
            case find_entry store k of None \<Rightarrow> (store, -1, None)
            | Some i \<Rightarrow>
                let entry = ks_entries store ! i in
                if ke_is_tombstone entry then (store, -1, None)
                else let current = ke_versions entry ! unat (ke_current_version entry - 1) in
                if length (vv_value current) > unat n then (store, -1, None)
                else (store\<lparr>ks_entries := (ks_entries store)[i := entry\<lparr>ke_access_count := ke_access_count entry + 1\<rparr>],
                        ks_total_reads := ks_total_reads store + 1\<rparr>, 0, Some (vv_value current)))
      | _ \<Rightarrow> (g, -1, None))"

definition kv_delete :: "KVState \<Rightarrow> u32 \<Rightarrow> string option \<Rightarrow> KVState \<times> int" where
  "kv_delete g store_id key =
     (case key of None \<Rightarrow> (g, -1)
      | Some k \<Rightarrow> with_store (-1) store_id g (\<lambda>store.
          case find_entry store k of None \<Rightarrow> (store, -1)
          | Some i \<Rightarrow>
              (store\<lparr>ks_entries := (ks_entries store)[i := (ks_entries store ! i)\<lparr>ke_is_tombstone := True\<rparr>],
                 ks_total_deletes := ks_total_deletes store + 1\<rparr>, 0)))"

definition kv_exists :: "KVState \<Rightarrow> u32 \<Rightarrow> string option \<Rightarrow> int" where
  "kv_exists g store_id key =
     (case key of None \<Rightarrow> -1
      | Some k \<Rightarrow> read_slot (-1) store_id (g_stores g) (\<lambda>store.
          case find_entry store k of None \<Rightarrow> 0
          | Some i \<Rightarrow> if ke_is_tombstone (ks_entries store ! i) then 0 else 1))"

section \<open>Versions\<close>

definition kv_get_version ::
    "KVState \<Rightarrow> u32 \<Rightarrow> string option \<Rightarrow> u32 \<Rightarrow> bool \<Rightarrow> u32 option \<Rightarrow> int \<times> u8 list option" where
  "kv_get_version g store_id key version value cap =
     (case (key, cap) of
        (Some k, Some n) \<Rightarrow>
          if \<not> value then (-1, None)
          else read_slot (-1, None) store_id (g_stores g) (\<lambda>store.
            case find_entry store k of None \<Rightarrow> (-1, None)
            | Some i \<Rightarrow>
                let vs = ke_versions (ks_entries store ! i) in
                if version = 0 \<or> version > of_nat (length vs) then (-1, None)
                else let ver = vs ! unat (version - 1) in
                if length (vv_value ver) > unat n then (-1, None) else (0, Some (vv_value ver)))
      | _ \<Rightarrow> (-1, None))"

text \<open>
  \<open>values\<close> says for each position whether \<open>values[i]\<close> is given (\<open>None\<close>: \<open>values\<close> is \<open>NULL\<close>),
  and reading it past its end is undefined; the buffers themselves are assumed large enough, since
  the code has no way to check them. Of each given position the bytes are copied out, with their
  number if \<open>value_lens\<close> is given. \<open>version_count\<close> is \<open>*version_count\<close>.
\<close>

definition kv_get_all_versions ::
    "KVState \<Rightarrow> u32 \<Rightarrow> string option \<Rightarrow> bool list option \<Rightarrow> bool \<Rightarrow> u32 option \<Rightarrow>
     (int \<times> (u8 list \<times> u32 option) option list \<times> u32 option) outcome" where
  "kv_get_all_versions g store_id key values value_lens version_count =
     (case (key, version_count) of
        (Some k, Some n) \<Rightarrow>
          read_slot (Done (-1, [], version_count)) store_id (g_stores g) (\<lambda>store.
            case find_entry store k of None \<Rightarrow> Done (-1, [], version_count)
            | Some i \<Rightarrow>
                let vs = ke_versions (ks_entries store ! i) in
                if of_nat (length vs) > n then Done (-1, [], version_count)
                else (case values of
                   None \<Rightarrow> Done (0, map (\<lambda>_. None) vs, Some (of_nat (length vs)))
                 | Some bufs \<Rightarrow>
                     if length bufs < length vs then Undef
                     else Done (0, map2 (\<lambda>v b. if b then Some (vv_value v,
                                    if value_lens then Some (of_nat (length (vv_value v))) else None)
                                  else None) vs bufs,
                                Some (of_nat (length vs)))))
      | _ \<Rightarrow> Done (-1, [], version_count))"

definition kv_get_version_history ::
    "KVState \<Rightarrow> u32 \<Rightarrow> string option \<Rightarrow> bool \<Rightarrow> u32 option \<Rightarrow> int \<times> ValueVersion list option" where
  "kv_get_version_history g store_id key versions count =
     (case (key, count) of
        (Some k, Some n) \<Rightarrow>
          if \<not> versions then (-1, None)
          else read_slot (-1, None) store_id (g_stores g) (\<lambda>store.
            case find_entry store k of None \<Rightarrow> (-1, None)
            | Some i \<Rightarrow>
                let vs = ke_versions (ks_entries store ! i) in
                if of_nat (length vs) > n then (-1, None) else (0, Some vs))
      | _ \<Rightarrow> (-1, None))"

section \<open>Transactions\<close>

definition kv_start_transaction ::
    "KVState \<Rightarrow> u32 \<Rightarrow> string option \<Rightarrow> string option \<Rightarrow> u8 list option \<Rightarrow> u32 \<Rightarrow>
     (KVState \<times> u64) outcome" where
  "kv_start_transaction g store_id operation key value value_len =
     (case (operation, key, slot_of store_id (g_stores g)) of
        (Some oper, Some k, Some i) \<Rightarrow>
          let store = g_stores g ! i in
          if length (ks_transactions store) \<ge> MAX_TRANSACTIONS then Done (g, 0)
          else
            let len = (if value_len > MAX_VALUE_SIZE then MAX_VALUE_SIZE else value_len);
                bytes = (case value of None \<Rightarrow> [] | Some v \<Rightarrow> take (unat len) v);
                short = (case value of None \<Rightarrow> False | Some v \<Rightarrow> length v < unat len);
                tx = \<lparr>tx_tx_id = g_tx_id_counter g, tx_operation = take 31 oper,
                      tx_key = take (MAX_KEY_SIZE - 1) k, tx_value = bytes, tx_state = TX_PENDING,
                      tx_start_time = 0, tx_commit_time = 0, tx_read_version = 0, tx_write_version = 0\<rparr> in
            if short then Undef
            else Done (g\<lparr>g_stores := (g_stores g)[i :=
                           store\<lparr>ks_transactions := ks_transactions store @ [tx]\<rparr>],
                         g_tx_id_counter := g_tx_id_counter g + 1\<rparr>, tx_tx_id tx)
      | _ \<Rightarrow> Done (g, 0))"

definition set_tx_state :: "nat \<Rightarrow> (Transaction \<Rightarrow> Transaction) \<Rightarrow> DistributedKVStore \<Rightarrow> DistributedKVStore" where
  "set_tx_state i f store =
     store\<lparr>ks_transactions := (ks_transactions store)[i := f (ks_transactions store ! i)]\<rparr>"

definition kv_commit_transaction :: "KVState \<Rightarrow> u32 \<Rightarrow> u64 \<Rightarrow> (KVState \<times> int) outcome" where
  "kv_commit_transaction g store_id tx_id =
     (case slot_get store_id (g_stores g) of None \<Rightarrow> Done (g, -1)
      | Some store \<Rightarrow>
          (case first_idx (\<lambda>t. tx_tx_id t = tx_id) (ks_transactions store) of None \<Rightarrow> Done (g, -1)
           | Some i \<Rightarrow>
               let tx = ks_transactions store ! i;
                   applied =
                     (if tx_operation tx = ''PUT''
                      then kv_put g store_id (Some (tx_key tx)) (Some (tx_value tx)) (of_nat (length (tx_value tx)))
                      else if tx_operation tx = ''DELETE'' then Done (kv_delete g store_id (Some (tx_key tx)))
                      else Done (g, 0)) in
               case applied of Undef \<Rightarrow> Undef
               | Done (g1, r) \<Rightarrow> Done (with_store (-1) store_id g1 (\<lambda>s.
                    (set_tx_state i (\<lambda>t. t\<lparr>tx_state := TX_COMMITTED, tx_commit_time := 0\<rparr>) s, 0)))))"

definition kv_abort_transaction :: "KVState \<Rightarrow> u32 \<Rightarrow> u64 \<Rightarrow> KVState \<times> int" where
  "kv_abort_transaction g store_id tx_id = with_store (-1) store_id g (\<lambda>store.
     case first_idx (\<lambda>t. tx_tx_id t = tx_id) (ks_transactions store) of None \<Rightarrow> (store, -1)
     | Some i \<Rightarrow> (set_tx_state i (\<lambda>t. t\<lparr>tx_state := TX_ABORTED\<rparr>) store, 0))"

text \<open>\<open>state\<close> says whether the output pointer is given.\<close>

definition kv_get_transaction_state ::
    "KVState \<Rightarrow> u32 \<Rightarrow> u64 \<Rightarrow> bool \<Rightarrow> int \<times> TransactionState option" where
  "kv_get_transaction_state g store_id tx_id state =
     (if \<not> state then (-1, None)
      else read_slot (-1, None) store_id (g_stores g) (\<lambda>store.
        case first_idx (\<lambda>t. tx_tx_id t = tx_id) (ks_transactions store) of None \<Rightarrow> (-1, None)
        | Some i \<Rightarrow> (0, Some (tx_state (ks_transactions store ! i)))))"

section \<open>Replicas\<close>

definition kv_get_replicas ::
    "KVState \<Rightarrow> u32 \<Rightarrow> string option \<Rightarrow> bool \<Rightarrow> u32 option \<Rightarrow> int \<times> ReplicaNode list option" where
  "kv_get_replicas g store_id key replicas count =
     (case (key, count) of
        (Some k, Some n) \<Rightarrow>
          if \<not> replicas then (-1, None)
          else read_slot (-1, None) store_id (g_stores g) (\<lambda>store.
            let node_count = of_nat (length (ks_nodes store)) in
            if ks_nodes store = [] then (-1, None)
            else let key_hash = hash_key k;
                     replica_count = (if node_count < ks_replica_factor store then node_count
                                      else ks_replica_factor store) in
            if replica_count > n then (-1, None)
            else (0, Some (map (\<lambda>i. \<lparr>rn_node_id = nd_node_id (ks_nodes store ! i),
                             rn_distance = ucast ((key_hash + of_nat i) mod ks_hash_ring_size store)\<rparr>)
                       [0..<unat replica_count])))
      | _ \<Rightarrow> (-1, None))"

definition kv_replicate_key :: "KVState \<Rightarrow> u32 \<Rightarrow> u32 \<Rightarrow> u32 \<Rightarrow> string option \<Rightarrow> int" where
  "kv_replicate_key g store_id from_node to_node key =
     (case key of None \<Rightarrow> -1 | Some k \<Rightarrow> read_slot (-1) store_id (g_stores g) (\<lambda>store. 0))"

definition kv_sync_node :: "KVState \<Rightarrow> u32 \<Rightarrow> u32 \<Rightarrow> int" where
  "kv_sync_node g store_id node_id = read_slot (-1) store_id (g_stores g) (\<lambda>store. 0)"

section \<open>Scans and compaction\<close>

text \<open>The scanning loop stops when the output array is full.\<close>

fun scan_loop :: "string option \<Rightarrow> nat \<Rightarrow> KeyValueEntry list \<Rightarrow> KeyValueEntry list" where
  "scan_loop prefix room [] = []"
| "scan_loop prefix room (e # es) =
     (if room = 0 then []
      else if \<not> ke_is_tombstone e \<and>
              (case prefix of None \<Rightarrow> True | Some p \<Rightarrow> take (length p) (ke_key e) = p)
      then e # scan_loop prefix (room - 1) es
      else scan_loop prefix room es)"

definition kv_scan ::
    "KVState \<Rightarrow> u32 \<Rightarrow> string option \<Rightarrow> bool \<Rightarrow> u32 option \<Rightarrow> int \<times> KeyValueEntry list option" where
  "kv_scan g store_id key_prefix entries count =
     (case count of None \<Rightarrow> (-1, None)
      | Some n \<Rightarrow>
          if \<not> entries then (-1, None)
          else read_slot (-1, None) store_id (g_stores g) (\<lambda>store.
            (0, Some (scan_loop key_prefix (unat n) (ks_entries store)))))"

fun count_loop :: "u32 \<Rightarrow> KeyValueEntry list \<Rightarrow> u32" where
  "count_loop key_count [] = key_count"
| "count_loop key_count (e # es) =
     count_loop (if \<not> ke_is_tombstone e then key_count + 1 else key_count) es"

definition kv_count_keys :: "KVState \<Rightarrow> u32 \<Rightarrow> bool \<Rightarrow> int \<times> u32 option" where
  "kv_count_keys g store_id count =
     (if \<not> count then (-1, None)
      else read_slot (-1, None) store_id (g_stores g) (\<lambda>store.
        (0, Some (count_loop 0 (ks_entries store)))))"

definition kv_enable_compression :: "KVState \<Rightarrow> u32 \<Rightarrow> int \<Rightarrow> int" where
  "kv_enable_compression g store_id enable = read_slot (-1) store_id (g_stores g) (\<lambda>store. 0)"

definition kv_compact_store :: "KVState \<Rightarrow> u32 \<Rightarrow> KVState \<times> int" where
  "kv_compact_store g store_id = with_store (-1) store_id g (\<lambda>store.
     (store\<lparr>ks_entries := compact (\<lambda>e. \<not> ke_is_tombstone e) (\<lambda>e. e) (ks_entries store)\<rparr>, 0))"

definition kv_rebuild_hash_ring :: "KVState \<Rightarrow> u32 \<Rightarrow> KVState \<times> int" where
  "kv_rebuild_hash_ring g store_id = with_store (-1) store_id g (\<lambda>store.
     (if ks_nodes store = [] then store
      else store\<lparr>ks_hash_ring := map (\<lambda>i. nd_node_id (ks_nodes store ! (i mod length (ks_nodes store))))
                    [0..<unat (ks_hash_ring_size store)]\<rparr>, 0))"

definition kv_get_total_reads :: "KVState \<Rightarrow> u32 \<Rightarrow> u64" where
  "kv_get_total_reads g store_id = read_slot 0 store_id (g_stores g) ks_total_reads"

definition kv_get_total_writes :: "KVState \<Rightarrow> u32 \<Rightarrow> u64" where
  "kv_get_total_writes g store_id = read_slot 0 store_id (g_stores g) ks_total_writes"

definition kv_get_total_deletes :: "KVState \<Rightarrow> u32 \<Rightarrow> u64" where
  "kv_get_total_deletes g store_id = read_slot 0 store_id (g_stores g) ks_total_deletes"

definition kv_get_total_bytes :: "KVState \<Rightarrow> u32 \<Rightarrow> u64" where
  "kv_get_total_bytes g store_id = read_slot 0 store_id (g_stores g) ks_bytes_total"

text \<open>The pointer returned is the slot it points to.\<close>

definition kv_get_store_info :: "KVState \<Rightarrow> u32 \<Rightarrow> nat option" where
  "kv_get_store_info g store_id = slot_of store_id (g_stores g)"

definition kv_export_store :: "KVState \<Rightarrow> u32 \<Rightarrow> string option \<Rightarrow> int" where
  "kv_export_store g store_id format =
     (case format of None \<Rightarrow> -1 | Some f \<Rightarrow> read_slot (-1) store_id (g_stores g) (\<lambda>store. 0))"

section \<open>The abstract store\<close>

text \<open>
  A store denotes a map from keys to the list of values written so far and whether the key is
  deleted. \<open>kv_step\<close> performs one call on the store with a given identifier; \<open>Undefined\<close> is the
  reply of a call that runs into undefined behaviour.
\<close>

datatype kv_call =
  KvPut string "u8 list" | KvGet string u32 | KvDelete string | KvExists string
  | KvVersion string u32 u32 | KvCount | KvCompact

datatype kv_reply = Code int | Bytes int "u8 list option" | Number int "u32 option" | Undefined

type_synonym kv_model = "string \<rightharpoonup> u8 list list \<times> bool"

fun kv_step :: "u32 \<Rightarrow> KVState \<Rightarrow> kv_call \<Rightarrow> KVState \<times> kv_reply" where
  "kv_step sid g (KvPut k v) =
     (case kv_put g sid (Some k) (Some v) (of_nat (length v)) of
        Undef \<Rightarrow> (g, Undefined) | Done (g', r) \<Rightarrow> (g', Code r))"
| "kv_step sid g (KvGet k n) = (let (g', r, out) = kv_get g sid (Some k) True (Some n) in (g', Bytes r out))"
| "kv_step sid g (KvDelete k) = (let (g', r) = kv_delete g sid (Some k) in (g', Code r))"
| "kv_step sid g (KvExists k) = (g, Code (kv_exists g sid (Some k)))"
| "kv_step sid g (KvVersion k v n) = (let (r, out) = kv_get_version g sid (Some k) v True (Some n) in (g, Bytes r out))"
| "kv_step sid g KvCount = (let (r, out) = kv_count_keys g sid True in (g, Number r out))"
| "kv_step sid g KvCompact = (let (g', r) = kv_compact_store g sid in (g', Code r))"

definition live_keys :: "kv_model \<Rightarrow> string set" where
  "live_keys m = {k. \<exists>h. m k = Some (h, False)}"

fun kv_spec :: "kv_model \<Rightarrow> kv_call \<Rightarrow> kv_model \<times> kv_reply" where
  "kv_spec m (KvPut k v) =
     (if length v > 65536 then (m, Code (-1))
      else case m k of
        Some (h, d) \<Rightarrow> (if length h < 32 then m(k \<mapsto> (h @ [v], False)) else m, Code 0)
      | None \<Rightarrow> if card (dom m) \<ge> 16384 then (m, Code (-1)) else (m(k \<mapsto> ([v], False)), Code 0))"
| "kv_spec m (KvGet k n) =
     (m, case m k of
        Some (h, False) \<Rightarrow> if length (last h) > unat n then Bytes (-1) None else Bytes 0 (Some (last h))
      | _ \<Rightarrow> Bytes (-1) None)"
| "kv_spec m (KvDelete k) =
     (case m k of None \<Rightarrow> (m, Code (-1)) | Some (h, d) \<Rightarrow> (m(k \<mapsto> (h, True)), Code 0))"
| "kv_spec m (KvExists k) = (m, Code (if k \<in> live_keys m then 1 else 0))"
| "kv_spec m (KvVersion k v n) =
     (m, case m k of None \<Rightarrow> Bytes (-1) None
      | Some (h, d) \<Rightarrow>
          if v = 0 \<or> unat v > length h then Bytes (-1) None
          else if length (h ! (unat v - 1)) > unat n then Bytes (-1) None
          else Bytes 0 (Some (h ! (unat v - 1))))"
| "kv_spec m KvCount = (m, Number 0 (Some (of_nat (card (live_keys m)))))"
| "kv_spec m KvCompact = (m |` live_keys m, Code 0)"

definition entry_abs :: "KeyValueEntry \<Rightarrow> u8 list list \<times> bool" where
  "entry_abs e = (map vv_value (ke_versions e), ke_is_tombstone e)"

definition kv_map :: "DistributedKVStore \<Rightarrow> kv_model" where
  "kv_map s = table_map ke_key entry_abs (ks_entries s)"

definition kv_abs :: "u32 \<Rightarrow> KVState \<Rightarrow> kv_model" where
  "kv_abs sid g = (case slot_get sid (g_stores g) of None \<Rightarrow> Map.empty | Some s \<Rightarrow> kv_map s)"

definition entry_inv :: "KeyValueEntry \<Rightarrow> bool" where
  "entry_inv e \<longleftrightarrow> ke_versions e \<noteq> [] \<and> length (ke_versions e) \<le> MAX_VERSIONS \<and>
     unat (ke_current_version e) = length (ke_versions e)"

definition store_inv :: "DistributedKVStore \<Rightarrow> bool" where
  "store_inv s \<longleftrightarrow> distinct (map ke_key (ks_entries s)) \<and> list_all entry_inv (ks_entries s) \<and>
     length (ks_entries s) \<le> MAX_KEYS"

definition kv_inv :: "u32 \<Rightarrow> KVState \<Rightarrow> bool" where
  "kv_inv sid g \<longleftrightarrow> (\<exists>s. slot_get sid (g_stores g) = Some s \<and> store_inv s)"

text \<open>Keys that fit the key array, and values whose length fits its type.\<close>

fun kv_fits :: "kv_call \<Rightarrow> bool" where
  "kv_fits (KvPut k v) \<longleftrightarrow> length k < 256 \<and> length v < 4294967296"
| "kv_fits _ \<longleftrightarrow> True"

section \<open>One store\<close>

lemma slot_get_with_store:
  "slot_get j (g_stores (fst (with_store r k g f))) =
     (if j = k then map_option (\<lambda>s. fst (f s)) (slot_get k (g_stores g)) else slot_get j (g_stores g))"
  using slot_get_with_slot [of j r k "g_stores g" f]
  by (simp add: with_store_def split: prod.split) (metis fst_conv)

lemma with_store_result:
  "snd (with_store r k g f) = (case slot_get k (g_stores g) of None \<Rightarrow> r | Some s \<Rightarrow> snd (f s))"
  using with_slot_result [of r k "g_stores g" f]
  by (simp add: with_store_def split: prod.split del: with_slot_result) (metis snd_conv)

lemma find_entry_map: "kv_map s k = map_option (\<lambda>i. entry_abs (ks_entries s ! i)) (find_entry s k)"
  by (simp add: kv_map_def find_entry_def table_map_find)

lemma find_entryD:
  assumes "find_entry s k = Some i"
  shows "i < length (ks_entries s)" and "ke_key (ks_entries s ! i) = k"
  using first_idx_SomeD [OF assms [unfolded find_entry_def]] by auto

lemma kv_map_update:
  assumes "distinct (map ke_key (ks_entries s))" and "find_entry s k = Some i" and "ke_key e = k"
    and "ks_entries s' = (ks_entries s)[i := e]"
  shows "kv_map s' = (kv_map s)(k \<mapsto> entry_abs e)"
  using table_map_update(1) [OF assms(1) assms(2) [unfolded find_entry_def] assms(3)] assms(4) by (simp add: kv_map_def)

lemma dom_kv_map: "dom (kv_map s) = set (map ke_key (ks_entries s))"
  by (simp add: kv_map_def dom_table_map)

lemma kv_map_snoc:
  "kv_map s (ke_key e) = None \<Longrightarrow> ks_entries s' = ks_entries s @ [e] \<Longrightarrow>
   kv_map s' = (kv_map s)(ke_key e \<mapsto> entry_abs e)"
  using dom_kv_map [of s] table_map_snoc [of ke_key e "ks_entries s" entry_abs] by (auto simp: kv_map_def domIff)

lemma card_kv_map: "distinct (map ke_key (ks_entries s)) \<Longrightarrow> card (dom (kv_map s)) = length (ks_entries s)"
  by (simp add: kv_map_def card_table_map)

lemma store_inv_update:
  assumes "store_inv s" and "find_entry s k = Some i" and "ke_key e = k" and "entry_inv e"
    and "ks_entries s' = (ks_entries s)[i := e]"
  shows "store_inv s'"
proof -
  have "map ke_key (ks_entries s') = map ke_key (ks_entries s)"
    using find_entryD [OF assms(2)] assms(3,5) by (simp add: map_update list_update_same_conv)
  with assms show ?thesis by (simp add: store_inv_def list_all_update)
qed

lemma filter_live_map:
  assumes "distinct (map ke_key es)"
  shows "table_map ke_key entry_abs (filter (\<lambda>e. \<not> ke_is_tombstone e) es) =
     table_map ke_key entry_abs es |` live_keys (table_map ke_key entry_abs es)"
  using assms
proof (induction es)
  case Nil
  then show ?case by simp
next
  case (Cons e es)
  have "table_map ke_key entry_abs es (ke_key e) = None"
    using Cons.prems dom_table_map [of ke_key entry_abs es] by auto
  with Cons show ?case
    by (auto simp: fun_eq_iff restrict_map_def live_keys_def entry_abs_def [of e])
qed

lemma live_keys_kv_map:
  assumes "distinct (map ke_key (ks_entries s))"
  shows "live_keys (kv_map s) = set (map ke_key (filter (\<lambda>e. \<not> ke_is_tombstone e) (ks_entries s)))"
proof -
  have "live_keys (kv_map s) = dom (kv_map s |` live_keys (kv_map s))"
    by (auto simp: live_keys_def restrict_map_def split: if_splits)
  then show ?thesis
    unfolding kv_map_def filter_live_map [OF assms, symmetric]
    by (simp add: dom_table_map)
qed

lemma count_loop_filter: "count_loop n es = n + of_nat (length (filter (\<lambda>e. \<not> ke_is_tombstone e) es))"
  by (induction n es rule: count_loop.induct) auto

lemma card_live_keys:
  assumes "distinct (map ke_key (ks_entries s))"
  shows "card (live_keys (kv_map s)) = length (filter (\<lambda>e. \<not> ke_is_tombstone e) (ks_entries s))"
  using distinct_card [OF distinct_map_filter [OF assms]] live_keys_kv_map [OF assms] by simp

section \<open>Simulation\<close>

lemma kv_abs_store: "slot_get sid (g_stores g) = Some s \<Longrightarrow> kv_abs sid g = kv_map s"
  by (simp add: kv_abs_def)

lemma new_entry_abs:
  "length k < 256 \<Longrightarrow> ke_key (new_entry k v) = k"
  "entry_abs (new_entry k v) = ([v], False)" "entry_inv (new_entry k v)"
  by (simp_all add: new_entry_def entry_abs_def entry_inv_def MAX_VERSIONS_def MAX_KEY_SIZE_def)

lemma add_version_abs:
  "ke_key (add_version v e) = ke_key e"
  "entry_abs (add_version v e) = (fst (entry_abs e) @ [v], False)"
  by (simp_all add: add_version_def entry_abs_def Let_def)

lemma add_version_inv: "length (ke_versions e) < MAX_VERSIONS \<Longrightarrow> entry_inv (add_version v e)"
  using next_id(1) [of "ke_versions e"] by (simp add: add_version_def entry_inv_def MAX_VERSIONS_def Let_def)

lemma count_write_simps [simp]:
  "kv_map (count_write n s) = kv_map s" "store_inv (count_write n s) = store_inv s"
  "ks_transactions (count_write n s) = ks_transactions s" "ks_entries (count_write n s) = ks_entries s"
  by (simp_all add: count_write_def kv_map_def store_inv_def)

lemma store_inv_snoc:
  assumes "store_inv s" and "kv_map s (ke_key e) = None" and "entry_inv e" and "length (ks_entries s) < MAX_KEYS"
    and "ks_entries s' = ks_entries s @ [e]"
  shows "store_inv s'"
  using assms dom_kv_map [of s] by (auto simp: store_inv_def domIff)

text \<open>The effect of \<open>kv_put\<close> on the store it addresses.\<close>

definition put_effect :: "string \<Rightarrow> u8 list \<Rightarrow> DistributedKVStore \<Rightarrow> DistributedKVStore \<times> int" where
  "put_effect k v s =
     (if length v > 65536 then (s, -1)
      else case find_entry s k of
        Some i \<Rightarrow>
          (count_write (of_nat (length v))
             (if length (ke_versions (ks_entries s ! i)) < MAX_VERSIONS
              then s\<lparr>ks_entries := (ks_entries s)[i := add_version v (ks_entries s ! i)]\<rparr> else s), 0)
      | None \<Rightarrow>
          if length (ks_entries s) \<ge> MAX_KEYS then (s, -1)
          else (count_write (of_nat (length v)) (s\<lparr>ks_entries := ks_entries s @ [new_entry k v]\<rparr>), 0))"

lemma kv_put_effect:
  assumes "length v < 4294967296"
  shows "kv_put g sid (Some k) (Some v) (of_nat (length v)) = Done (with_store (-1) sid g (put_effect k v))"
proof -
  have len: "unat (of_nat (length v) :: u32) = length v" using assms by (rule unat_of_nat_u32)
  then have big: "(of_nat (length v) :: u32) > MAX_VALUE_SIZE \<longleftrightarrow> length v > 65536"
    by (simp add: word_less_nat_alt MAX_VALUE_SIZE_def)
  show ?thesis
    by (auto simp: kv_put_def with_store_ub_def with_slot_ub_def with_store_def with_slot_def len big
        put_effect_def Let_def split: option.split)
qed

lemma put_effect_spec:
  assumes "store_inv s" and "length k < 256" and "put_effect k v s = (s', r)"
  shows "store_inv s' \<and> kv_spec (kv_map s) (KvPut k v) = (kv_map s', Code r)"
proof (cases "find_entry s k")
  case None
  then have none: "kv_map s k = None" by (simp add: find_entry_map)
  let ?s = "s\<lparr>ks_entries := ks_entries s @ [new_entry k v]\<rparr>"
  have dist: "distinct (map ke_key (ks_entries s))" using assms(1) by (simp add: store_inv_def)
  have "kv_map ?s = (kv_map s)(k \<mapsto> ([v], False))"
    using kv_map_snoc [of s "new_entry k v" ?s] none assms(2) by (simp add: new_entry_abs)
  moreover have "length (ks_entries s) < MAX_KEYS \<Longrightarrow> store_inv ?s"
    using store_inv_snoc [of s "new_entry k v" ?s] assms(1,2) none by (simp add: new_entry_abs)
  ultimately show ?thesis
    using assms none None dist by (auto simp: put_effect_def card_kv_map MAX_KEYS_def split: if_splits)
next
  case (Some i)
  let ?e = "ks_entries s ! i"
  let ?s = "s\<lparr>ks_entries := (ks_entries s)[i := add_version v ?e]\<rparr>"
  have dist: "distinct (map ke_key (ks_entries s))" using assms(1) by (simp add: store_inv_def)
  have key: "ke_key (add_version v ?e) = k" using find_entryD [OF Some] by (simp add: add_version_abs)
  have m: "kv_map s k = Some (entry_abs ?e)" using Some by (simp add: find_entry_map)
  have "kv_map ?s = (kv_map s)(k \<mapsto> (fst (entry_abs ?e) @ [v], False))"
    using kv_map_update [OF dist Some key, of ?s] by (simp add: add_version_abs)
  moreover have "length (ke_versions ?e) < MAX_VERSIONS \<Longrightarrow> store_inv ?s"
    using store_inv_update [OF assms(1) Some key add_version_inv] by simp
  ultimately show ?thesis
    using assms m Some by (auto simp: put_effect_def entry_abs_def MAX_VERSIONS_def split: if_splits)
qed

lemma with_store_elim:
  assumes "with_store d sid g f = (g', r)" and "slot_get sid (g_stores g) = Some s"
  obtains s' where "f s = (s', r)" and "slot_get sid (g_stores g') = Some s'"
    and "g_tx_id_counter g' = g_tx_id_counter g"
proof (rule that)
  show "f s = (fst (f s), r)" using assms with_store_result [of d sid g f] by (metis option.simps(5) prod.collapse snd_conv)
  show "slot_get sid (g_stores g') = Some (fst (f s))"
    using assms slot_get_with_store [of sid d sid g f] by simp
  show "g_tx_id_counter g' = g_tx_id_counter g"
    using assms(1) by (auto simp: with_store_def split: prod.splits)
qed

lemma put_sim:
  assumes "slot_get sid (g_stores g) = Some s" and "store_inv s" and "kv_fits (KvPut k v)"
    and "kv_step sid g (KvPut k v) = (g', r)"
  shows "kv_inv sid g' \<and> kv_spec (kv_map s) (KvPut k v) = (kv_abs sid g', r)"
proof -
  from assms(3,4) obtain c where w: "with_store (-1) sid g (put_effect k v) = (g', c)" "r = Code c"
    by (auto simp: kv_put_effect split: prod.splits)
  then obtain s' where "put_effect k v s = (s', c)" "slot_get sid (g_stores g') = Some s'"
    using with_store_elim [OF w(1) assms(1)] by auto
  with put_effect_spec [OF assms(2)] assms(3) w(2) show ?thesis by (auto simp: kv_inv_def kv_abs_def)
qed

lemma last_version:
  "entry_inv e \<Longrightarrow> vv_value (ke_versions e ! unat (ke_current_version e - 1)) = last (fst (entry_abs e))"
proof -
  assume e: "entry_inv e"
  then have "ke_current_version e \<noteq> 0" by (auto simp: entry_inv_def)
  then have "unat (ke_current_version e - 1) = length (ke_versions e) - 1"
    using e by (simp add: unat_minus_one entry_inv_def)
  with e show ?thesis by (simp add: entry_abs_def entry_inv_def last_conv_nth)
qed

text \<open>Changes of an entry that keep its key, versions and current version.\<close>

lemma touch_entry:
  assumes "store_inv s" and "find_entry s k = Some i" and "ks_entries s' = (ks_entries s)[i := f (ks_entries s ! i)]"
    and "\<And>e. ke_key (f e) = ke_key e \<and> ke_versions (f e) = ke_versions e \<and> ke_current_version (f e) = ke_current_version e"
  shows "store_inv s'" and "kv_map s' = (kv_map s)(k \<mapsto> (fst (entry_abs (ks_entries s ! i)), ke_is_tombstone (f (ks_entries s ! i))))"
proof -
  let ?e = "ks_entries s ! i"
  have key: "ke_key (f ?e) = k" using find_entryD [OF assms(2)] assms(4) by simp
  have "entry_inv (f ?e)"
    using assms(1,4) find_entryD [OF assms(2)] list_all_nth [of entry_inv "ks_entries s" i]
    by (simp add: store_inv_def entry_inv_def)
  with store_inv_update [OF assms(1,2) key] assms(3) show "store_inv s'" by blast
  show "kv_map s' = (kv_map s)(k \<mapsto> (fst (entry_abs ?e), ke_is_tombstone (f ?e)))"
    using kv_map_update [OF _ assms(2) key assms(3)] assms(1,4) by (simp add: store_inv_def entry_abs_def)
qed

lemma get_sim:
  assumes "slot_get sid (g_stores g) = Some s" and "store_inv s"
    and "kv_step sid g (KvGet k n) = (g', r)"
  shows "kv_inv sid g' \<and> kv_spec (kv_map s) (KvGet k n) = (kv_abs sid g', r)"
proof (cases "find_entry s k")
  case None
  with assms show ?thesis
    by (auto simp: kv_get_def find_entry_map kv_inv_def kv_abs_def split: prod.splits elim!: with_store_elim)
next
  case (Some i)
  let ?e = "ks_entries s ! i"
  have m: "kv_map s k = Some (map vv_value (ke_versions ?e), ke_is_tombstone ?e)"
    using Some by (simp add: find_entry_map entry_abs_def)
  have "entry_inv ?e" using assms(2) find_entryD [OF Some] by (simp add: store_inv_def list_all_nth)
  then have last: "vv_value (ke_versions ?e ! unat (ke_current_version ?e - 1)) = last (map vv_value (ke_versions ?e))"
    by (simp add: last_version entry_abs_def)
  let ?s = "s\<lparr>ks_entries := (ks_entries s)[i := ?e\<lparr>ke_access_count := ke_access_count ?e + 1\<rparr>],
    ks_total_reads := ks_total_reads s + 1\<rparr>"
  have "store_inv ?s" "kv_map ?s = kv_map s"
    using touch_entry [OF assms(2) Some, of ?s "\<lambda>e. e\<lparr>ke_access_count := ke_access_count e + 1\<rparr>"] m
    by (simp_all add: entry_abs_def map_upd_triv)
  with assms Some m last show ?thesis
    by (auto simp: kv_get_def kv_inv_def kv_abs_def Let_def split: prod.splits if_splits bool.splits elim!: with_store_elim)
qed

lemma delete_sim:
  assumes "slot_get sid (g_stores g) = Some s" and "store_inv s"
    and "kv_step sid g (KvDelete k) = (g', r)"
  shows "kv_inv sid g' \<and> kv_spec (kv_map s) (KvDelete k) = (kv_abs sid g', r)"
proof (cases "find_entry s k")
  case None
  with assms show ?thesis
    by (auto simp: kv_delete_def find_entry_map kv_inv_def kv_abs_def split: prod.splits elim!: with_store_elim)
next
  case (Some i)
  let ?s = "s\<lparr>ks_entries := (ks_entries s)[i := (ks_entries s ! i)\<lparr>ke_is_tombstone := True\<rparr>],
    ks_total_deletes := ks_total_deletes s + 1\<rparr>"
  have "store_inv ?s" "kv_map ?s = (kv_map s)(k \<mapsto> (fst (entry_abs (ks_entries s ! i)), True))"
    using touch_entry [OF assms(2) Some, of ?s "\<lambda>e. e\<lparr>ke_is_tombstone := True\<rparr>"] by simp_all
  moreover have "kv_map s k = Some (entry_abs (ks_entries s ! i))" using Some by (simp add: find_entry_map)
  ultimately show ?thesis using assms Some
    by (auto simp: kv_delete_def kv_inv_def kv_abs_def split: prod.splits elim!: with_store_elim)
qed

lemma version_sim:
  assumes "slot_get sid (g_stores g) = Some s" and "store_inv s"
  shows "snd (kv_step sid g (KvVersion k v n)) = snd (kv_spec (kv_map s) (KvVersion k v n))"
proof (cases "find_entry s k")
  case None
  with assms show ?thesis by (simp add: kv_get_version_def read_slot_get find_entry_map)
next
  case (Some i)
  let ?vs = "ke_versions (ks_entries s ! i)"
  have "length ?vs \<le> 32"
    using assms(2) find_entryD [OF Some] list_all_nth [of entry_inv "ks_entries s" i]
    by (simp add: store_inv_def entry_inv_def MAX_VERSIONS_def)
  then have "unat (of_nat (length ?vs) :: u32) = length ?vs" by (intro unat_of_nat_u32) simp
  then have "v > of_nat (length ?vs) \<longleftrightarrow> unat v > length ?vs" by (simp add: word_less_nat_alt)
  moreover have "v \<noteq> 0 \<Longrightarrow> unat (v - 1) = unat v - 1" by (simp add: unat_minus_one)
  moreover have "map vv_value ?vs ! (unat v - 1) = vv_value (?vs ! (unat v - 1))"
    if "v \<noteq> 0" "\<not> unat v > length ?vs"
  proof (rule nth_map)
    have "0 < unat v" using that(1) by (simp add: unat_gt_0)
    with that(2) show "unat v - 1 < length ?vs" by linarith
  qed
  ultimately show ?thesis using assms Some
    by (auto simp: kv_get_version_def read_slot_get find_entry_map entry_abs_def Let_def split: prod.splits)
qed

lemma compact_sim:
  assumes "slot_get sid (g_stores g) = Some s" and "store_inv s"
    and "kv_step sid g KvCompact = (g', r)"
  shows "kv_inv sid g' \<and> kv_spec (kv_map s) KvCompact = (kv_abs sid g', r)"
proof -
  let ?es = "filter (\<lambda>e. \<not> ke_is_tombstone e) (ks_entries s)" and ?s = "\<lambda>es. s\<lparr>ks_entries := es\<rparr>"
  have "kv_map (?s ?es) = kv_map s |` live_keys (kv_map s)"
    using assms(2) filter_live_map [of "ks_entries s"] by (simp add: kv_map_def store_inv_def)
  moreover have "store_inv (?s ?es)"
    using assms(2) order_trans [OF length_filter_le [of "\<lambda>e. \<not> ke_is_tombstone e" "ks_entries s"]]
    by (auto simp: store_inv_def distinct_map_filter list_all_iff)
  ultimately show ?thesis using assms
    by (auto simp: kv_compact_store_def compact_eq kv_inv_def kv_abs_def split: prod.splits elim!: with_store_elim)
qed

lemma query_sim:
  assumes "slot_get sid (g_stores g) = Some s" and "store_inv s"
  shows "kv_step sid g (KvExists k) = (g, snd (kv_spec (kv_map s) (KvExists k)))"
    and "kv_step sid g KvCount = (g, snd (kv_spec (kv_map s) KvCount))"
proof -
  show "kv_step sid g (KvExists k) = (g, snd (kv_spec (kv_map s) (KvExists k)))"
    using assms by (auto simp: kv_exists_def read_slot_get live_keys_def find_entry_map entry_abs_def split: option.split)
  show "kv_step sid g KvCount = (g, snd (kv_spec (kv_map s) KvCount))"
    using assms card_live_keys [of s]
    by (simp add: kv_count_keys_def read_slot_get count_loop_filter store_inv_def)
qed

lemmas kv_sims = put_sim get_sim delete_sim compact_sim

interpretation kv: call_refinement "kv_step sid" kv_spec "kv_abs sid" "kv_inv sid" kv_fits
  for sid :: u32
proof
  fix g c g' r
  assume inv: "kv_inv sid g" and ok: "kv_fits c" and st: "kv_step sid g c = (g', r)"
  then obtain s where s: "slot_get sid (g_stores g) = Some s" "store_inv s" by (auto simp: kv_inv_def)
  then have abs: "kv_abs sid g = kv_map s" by (simp add: kv_abs_def)
  show "kv_inv sid g' \<and> kv_spec (kv_abs sid g) c = (kv_abs sid g', r)"
  proof (cases c)
    case (KvVersion k v n)
    have "g' = g" "snd (kv_step sid g c) = r" using st KvVersion by (auto split: prod.splits)
    with version_sim [OF s, of k v n] KvVersion inv abs show ?thesis by (simp add: prod_eq_iff)
  next
    case (KvExists k)
    with query_sim(1) [OF s, of k] st inv abs show ?thesis by (simp add: prod_eq_iff)
  next
    case KvCount
    with query_sim(2) [OF s] st inv abs show ?thesis by (simp add: prod_eq_iff)
  qed (use kv_sims [OF s] st ok abs in \<open>simp_all del: kv_step.simps kv_spec.simps\<close>)
qed

section \<open>Stores are independent\<close>

definition alone :: "DistributedKVStore \<Rightarrow> KVState" where
  "alone s = \<lparr>g_stores = [s], g_tx_id_counter = 1\<rparr>"

definition kv_local :: "DistributedKVStore \<Rightarrow> u32 \<times> kv_call \<Rightarrow> DistributedKVStore" where
  "kv_local s c = the (slot_get 1 (g_stores (fst (kv_step 1 (alone s) (snd c)))))"

definition kv_stores_step :: "DistributedKVStore list \<Rightarrow> u32 \<times> kv_call \<Rightarrow> DistributedKVStore list" where
  "kv_stores_step ss c = g_stores (fst (kv_step (fst c) \<lparr>g_stores = ss, g_tx_id_counter = 1\<rparr> (snd c)))"

lemma slot_get_alone [simp]: "slot_get 1 (g_stores (alone s)) = Some s"
  by (simp add: alone_def slot_get_def slot_of_def)

lemma slot_get_with_store_ub:
  "slot_get j (g_stores (case with_store_ub r k g f of Undef \<Rightarrow> g | Done (g', x) \<Rightarrow> g')) =
     (if j = k then map_option (\<lambda>s. case f s of Undef \<Rightarrow> s | Done (s', x) \<Rightarrow> s') (slot_get k (g_stores g))
      else slot_get j (g_stores g))"
proof (cases "slot_of k (g_stores g)")
  case None
  then show ?thesis by (simp add: with_store_ub_def with_slot_ub_def slot_get_None)
next
  case (Some i)
  then have "slot_get k (g_stores g) = Some (g_stores g ! i)" by (simp add: slot_get_def)
  with Some show ?thesis
    by (cases "f (g_stores g ! i)")
      (auto simp: with_store_ub_def with_slot_ub_def slot_get_update slot_get_update_other
        split: prod.split)
qed

lemma fst_kv_step_put:
  "fst (kv_step sid g (KvPut k v)) = (case kv_put g sid (Some k) (Some v) (of_nat (length v)) of Undef \<Rightarrow> g | Done (g', r) \<Rightarrow> g')"
  by (simp split: outcome.split prod.split)

lemma fst_kv_step:
  "fst (kv_step sid g (KvGet k n)) = fst (kv_get g sid (Some k) True (Some n))"
  "fst (kv_step sid g (KvDelete k)) = fst (kv_delete g sid (Some k))"
  "fst (kv_step sid g KvCompact) = fst (kv_compact_store g sid)"
  "fst (kv_step sid g (KvExists k)) = g" "fst (kv_step sid g (KvVersion k v n)) = g"
  "fst (kv_step sid g KvCount) = g"
  by (simp_all split: prod.split)

interpretation kv_service: slot_service kv_stores_step fst kv_local
proof
  fix j :: u32 and ss :: "DistributedKVStore list" and c :: "u32 \<times> kv_call"
  obtain k x where c: "c = (k, x)" by fastforce
  show "slot_get j (kv_stores_step ss c) =
     (if fst c = j then map_option (\<lambda>s. kv_local s c) (slot_get j ss) else slot_get j ss)"
  proof (cases x)
    case (KvPut key v)
    then show ?thesis
      unfolding kv_stores_step_def kv_local_def c fst_conv snd_conv KvPut fst_kv_step_put kv_put_def
      by (simp add: slot_get_with_store_ub)
  qed (simp_all add: kv_stores_step_def kv_local_def c fst_kv_step kv_get_def kv_delete_def
      kv_compact_store_def slot_get_with_store option.map_ident del: kv_step.simps)
qed

section \<open>Transactions across a history\<close>

definition kv_txs :: "u32 \<Rightarrow> KVState \<Rightarrow> Transaction list" where
  "kv_txs sid g = (case slot_get sid (g_stores g) of None \<Rightarrow> [] | Some s \<Rightarrow> ks_transactions s)"

lemma put_effect_txs: "ks_transactions (fst (put_effect k v s)) = ks_transactions s"
  by (simp add: put_effect_def split: option.split)

lemma kv_step_txs:
  assumes "kv_fits c"
  shows "kv_txs sid (fst (kv_step sid g c)) = kv_txs sid g"
proof (cases c)
  case (KvPut k v)
  have "fst (kv_step sid g c) = fst (with_store (-1) sid g (put_effect k v))"
    unfolding KvPut fst_kv_step_put using KvPut assms by (simp add: kv_put_effect split: prod.split)
  then show ?thesis
    by (simp add: kv_txs_def slot_get_with_store option.case_eq_if put_effect_txs option.map_sel)
next
  case (KvGet k n)
  then show ?thesis
    by (simp add: fst_kv_step kv_txs_def kv_get_def slot_get_with_store option.case_eq_if Let_def option.map_sel
        del: kv_step.simps)
qed (simp_all add: fst_kv_step kv_txs_def kv_delete_def kv_compact_store_def slot_get_with_store
    option.case_eq_if option.map_sel del: kv_step.simps)

lemma kv_run_txs: "list_all kv_fits cs \<Longrightarrow> kv_txs sid (fst (call_run (kv_step sid) g cs)) = kv_txs sid g"
proof (induction cs arbitrary: g)
  case (Cons c cs)
  then show ?case using kv_step_txs [of c sid g]
    by (simp add: Let_def split: prod.split del: kv_step.simps) (metis fst_conv)
qed simp

lemma start_transaction_effect:
  assumes "kv_inv sid g" and "list_all (\<lambda>tx. tx_tx_id tx \<noteq> g_tx_id_counter g) (kv_txs sid g)"
    and "length k < 256" and "length v \<le> 65536"
    and "kv_start_transaction g sid (Some ''PUT'') (Some k) (Some v) (of_nat (length v)) = Done (g1, t)"
    and "t \<noteq> 0"
  shows "kv_inv sid g1 \<and> kv_abs sid g1 = kv_abs sid g \<and>
    first_idx (\<lambda>tx. tx_tx_id tx = t) (kv_txs sid g1) = Some (length (kv_txs sid g)) \<and>
    (\<exists>tx. kv_txs sid g1 = kv_txs sid g @ [tx] \<and> tx_operation tx = ''PUT'' \<and> tx_key tx = k \<and> tx_value tx = v)"
proof -
  obtain s i where s: "slot_of sid (g_stores g) = Some i" "g_stores g ! i = s" "store_inv s"
    using assms(1) by (auto simp: kv_inv_def slot_get_def)
  have len: "unat (of_nat (length v) :: u32) = length v" using assms(4) by (intro unat_of_nat_u32) simp
  then have "\<not> (of_nat (length v) :: u32) > MAX_VALUE_SIZE"
    using assms(4) by (simp add: word_less_nat_alt MAX_VALUE_SIZE_def)
  moreover define tx where "tx = \<lparr>tx_tx_id = g_tx_id_counter g, tx_operation = ''PUT'', tx_key = k, tx_value = v,
      tx_state = TX_PENDING, tx_start_time = 0, tx_commit_time = 0, tx_read_version = 0, tx_write_version = 0\<rparr>"
  moreover have "take (MAX_KEY_SIZE - 1) k = k" using assms(3) by (simp add: MAX_KEY_SIZE_def)
  ultimately have "g_stores g1 = (g_stores g)[i := s\<lparr>ks_transactions := ks_transactions s @ [tx]\<rparr>] \<and> t = g_tx_id_counter g"
    using assms(5,6) s(1,2) len by (simp add: kv_start_transaction_def Let_def split: if_splits) force
  then have g1: "slot_get sid (g_stores g1) = Some (s\<lparr>ks_transactions := ks_transactions s @ [tx]\<rparr>)" and
    tx: "tx_tx_id tx = t" "t = g_tx_id_counter g" "tx_operation tx = ''PUT''" "tx_key tx = k" "tx_value tx = v"
    using s(1) by (simp_all add: slot_get_update tx_def)
  have "kv_txs sid g = ks_transactions s" "kv_abs sid g = kv_map s"
    using s by (simp_all add: kv_txs_def kv_abs_def slot_get_def)
  moreover have "kv_txs sid g1 = ks_transactions s @ [tx]" "kv_abs sid g1 = kv_map s" "kv_inv sid g1"
    using g1 s(3) by (simp_all add: kv_txs_def kv_abs_def kv_inv_def kv_map_def store_inv_def)
  moreover have "first_idx (\<lambda>tx. tx_tx_id tx = t) (ks_transactions s) = None"
    using assms(2) tx(2) calculation(1) by (simp add: first_idx_None list_all_iff)
  ultimately show ?thesis using tx by (simp add: first_idx_snoc_key)
qed

lemma set_tx_simps [simp]:
  "kv_map (set_tx_state i f s) = kv_map s" "store_inv (set_tx_state i f s) = store_inv s"
  "ks_transactions (set_tx_state i f s) = (ks_transactions s)[i := f (ks_transactions s ! i)]"
  by (simp_all add: set_tx_state_def kv_map_def store_inv_def)

lemma commit_put:
  assumes "kv_inv sid g" and "first_idx (\<lambda>tx. tx_tx_id tx = t) (kv_txs sid g) = Some i"
    and "tx_operation (kv_txs sid g ! i) = ''PUT''" and "tx_key (kv_txs sid g ! i) = k"
    and "tx_value (kv_txs sid g ! i) = v" and "length k < 256" and "length v \<le> 65536"
  shows "\<exists>g'. kv_commit_transaction g sid t = Done (g', 0) \<and>
    kv_abs sid g' = fst (kv_spec (kv_abs sid g) (KvPut k v)) \<and>
    tx_state (kv_txs sid g' ! i) = TX_COMMITTED"
proof -
  obtain s where s: "slot_get sid (g_stores g) = Some s" "store_inv s" using assms(1) by (auto simp: kv_inv_def)
  then have txs: "kv_txs sid g = ks_transactions s" by (simp add: kv_txs_def)
  obtain g1 r where g1: "with_store (-1) sid g (put_effect k v) = (g1, r)" by fastforce
  then obtain s1 where s1: "put_effect k v s = (s1, r)" "slot_get sid (g_stores g1) = Some s1"
    using with_store_elim [OF g1 s(1)] by auto
  have spec: "fst (kv_spec (kv_map s) (KvPut k v)) = kv_map s1"
    using put_effect_spec [OF s(2) assms(6) s1(1)] by simp
  have txs1: "ks_transactions s1 = ks_transactions s" using put_effect_txs [of k v s] s1(1) by simp
  let ?f = "\<lambda>s. (set_tx_state i (\<lambda>t. t\<lparr>tx_state := TX_COMMITTED, tx_commit_time := 0\<rparr>) s, 0 :: int)"
  obtain g2 r2 where g2: "with_store (-1) sid g1 ?f = (g2, r2)" by fastforce
  then obtain s2 where s2: "?f s1 = (s2, r2)" "slot_get sid (g_stores g2) = Some s2"
    using with_store_elim [OF g2 s1(2)] by auto
  have "kv_commit_transaction g sid t = Done (g2, r2)"
    using assms(2-7) s(1) g1 g2 txs by (simp add: kv_commit_transaction_def kv_put_effect Let_def)
  moreover have "i < length (ks_transactions s1)"
    using first_idx_SomeD(1) [OF assms(2)] txs txs1 by simp
  ultimately show ?thesis
    using s(1) s2 spec by (auto simp: kv_abs_def kv_txs_def)
qed

section \<open>Properties\<close>

lemma created_store:
  assumes "kv_create_store g name cm rf ring_ok = (g', r)" and "r \<noteq> -1"
  shows "kv_inv (of_int r) g' \<and> kv_abs (of_int r) g' = Map.empty"
proof -
  have len: "length (g_stores g) < 4294967295"
    using assms by (auto simp: kv_create_store_def MAX_KV_STORES_def split: option.splits if_splits)
  from assms obtain s where s: "g_stores g' = g_stores g @ [s]" "ks_entries s = []"
    and r: "r = sint (of_nat (length (g_stores g)) + 1 :: u32)"
    by (fastforce simp: kv_create_store_def Let_def split: option.splits if_splits)
  from r have "of_int r = (of_nat (length (g_stores g)) + 1 :: u32)" by simp
  with s slot_get_snoc(1) [OF len] show ?thesis
    by (simp add: kv_inv_def kv_abs_def kv_map_def store_inv_def)
qed

text \<open>
  A value written to a key that has 32 versions is dropped, although \<open>kv_put\<close> reports success; a
  deleted key in that state stays deleted.
\<close>

lemma kv_put_dropped:
  assumes "kv_inv sid g" and "kv_abs sid g k = Some (h, d)" and "32 \<le> length h"
    and "length k < 256" and "length v \<le> 65536"
  shows "snd (kv_step sid g (KvPut k v)) = Code 0 \<and> kv_abs sid (fst (kv_step sid g (KvPut k v))) = kv_abs sid g"
  using kv.simulation [OF assms(1), of "KvPut k v" "fst (kv_step sid g (KvPut k v))" "snd (kv_step sid g (KvPut k v))"]
    assms(2-5) by simp

text \<open>
  A key of 256 characters or more is stored cut to 255, so it is never found again: each
  \<open>kv_put\<close> of it adds another entry and \<open>kv_get\<close> fails.
\<close>

definition short_keys :: "DistributedKVStore \<Rightarrow> bool" where
  "short_keys s \<longleftrightarrow> list_all (\<lambda>e. length (ke_key e) < 256) (ks_entries s)"

lemma kv_long_key_lost:
  assumes "short_keys s" and "256 \<le> length k" and "length v \<le> 65536" and "length (ks_entries s) < MAX_KEYS"
  shows "short_keys (fst (put_effect k v s)) \<and> snd (put_effect k v s) = 0 \<and>
    length (ks_entries (fst (put_effect k v s))) = Suc (length (ks_entries s)) \<and>
    find_entry (fst (put_effect k v s)) k = None"
proof -
  have none: "find_entry s k = None" if "short_keys s" for s
    using that assms(2) by (fastforce simp: short_keys_def find_entry_def first_idx_None list_all_iff)
  have "short_keys (fst (put_effect k v s))"
    using assms none [of s] by (simp add: put_effect_def short_keys_def new_entry_def MAX_KEY_SIZE_def)
  with none [of s] none [of "fst (put_effect k v s)"] assms show ?thesis by (simp add: put_effect_def)
qed

text \<open>
  Claim C23. The key-value store refines a versioned map: starting from a store just created, any
  history of puts, gets, deletes, version reads, existence tests, counts and compactions on it, in
  which every key put has fewer than 256 characters and every value fewer than \<open>2 ^ 32\<close> bytes,
  gives exactly the replies of the abstract map from keys to their value histories (a get returns
  the last value, a deleted key is absent until it is written again, version \<open>n\<close> is the \<open>n\<close>-th
  value written, compaction forgets exactly the deleted keys, a put of a new key fails exactly
  when 16384 keys exist), no call is undefined, and the store still denotes that map. A longer key is
  stored cut and not found again (\<open>kv_long_key_lost\<close>). Transactions are not calls of the history.
\<close>

theorem kv_refines_versioned_map:
  assumes "kv_create_store g0 name cm rf ring_ok = (g, r)" and "r \<noteq> -1" and "list_all kv_fits cs"
  shows "snd (call_run (kv_step (of_int r)) g cs) = snd (call_run kv_spec Map.empty cs) \<and>
    kv_abs (of_int r) (fst (call_run (kv_step (of_int r)) g cs)) = fst (call_run kv_spec Map.empty cs)"
proof -
  from created_store [OF assms(1,2)] have "kv_inv (of_int r) g" and e: "kv_abs (of_int r) g = Map.empty" by auto
  from kv.run_results(1,2) [OF this(1) assms(3)] show ?thesis unfolding e by blast
qed

definition kv_one_store :: KVState where
  "kv_one_store = fst (kv_create_store kv_initial (Some ''cfg'') CONSISTENCY_STRONG 3 True)"

lemma kv_one_store_created: "kv_create_store kv_initial (Some ''cfg'') CONSISTENCY_STRONG 3 True = (kv_one_store, 1)"
  by (simp add: kv_one_store_def kv_create_store_def kv_initial_def MAX_KV_STORES_def Let_def)

lemma kv_one_store_inv: "kv_inv 1 kv_one_store" and kv_one_store_abs: "kv_abs 1 kv_one_store = Map.empty"
  using created_store [OF kv_one_store_created] by auto

theorem kv_refines_versioned_map_witness:
  "snd (call_run (kv_step 1) kv_one_store
     [KvPut ''a'' [1], KvPut ''a'' [2, 3], KvGet ''a'' 8, KvVersion ''a'' 1 8, KvDelete ''a'', KvGet ''a'' 8,
      KvExists ''a'', KvPut ''a'' [4], KvGet ''a'' 8, KvGet ''a'' 0]) =
   [Code 0, Code 0, Bytes 0 (Some [2, 3]), Bytes 0 (Some [1]), Code 0, Bytes (-1) None, Code 0, Code 0,
    Bytes 0 (Some [4]), Bytes (-1) None]"
proof -
  from kv_refines_versioned_map [OF kv_one_store_created, of "[KvPut ''a'' [1], KvPut ''a'' [2, 3], KvGet ''a'' 8,
      KvVersion ''a'' 1 8, KvDelete ''a'', KvGet ''a'' 8, KvExists ''a'', KvPut ''a'' [4], KvGet ''a'' 8, KvGet ''a'' 0]"]
  show ?thesis by (simp add: live_keys_def)
qed

definition has_prefix :: "string \<Rightarrow> string \<Rightarrow> bool" where
  "has_prefix p k \<longleftrightarrow> take (length p) k = p"

lemma scan_loop_filter:
  "scan_loop (Some p) room es = take room (filter (\<lambda>e. \<not> ke_is_tombstone e \<and> has_prefix p (ke_key e)) es)"
  by (induction "Some p" room es rule: scan_loop.induct) (auto simp: take_Cons' has_prefix_def)

text \<open>
  A scan is the bounded enumeration of the live keys with a prefix: it succeeds, returns
  without repetition entries of live keys with the prefix, as many as fit in the caller's array,
  and all of them when they fit.
\<close>

lemma kv_scan_enumerates:
  assumes "kv_inv sid g"
  shows "\<exists>es. kv_scan g sid (Some p) True (Some n) = (0, Some es) \<and> distinct (map ke_key es) \<and>
    set (map ke_key es) \<subseteq> {k \<in> live_keys (kv_abs sid g). has_prefix p k} \<and>
    length es = min (unat n) (card {k \<in> live_keys (kv_abs sid g). has_prefix p k})"
proof -
  obtain s where s: "slot_get sid (g_stores g) = Some s" "store_inv s" using assms by (auto simp: kv_inv_def)
  let ?es = "filter (\<lambda>e. \<not> ke_is_tombstone e \<and> has_prefix p (ke_key e)) (ks_entries s)"
  have dist: "distinct (map ke_key (ks_entries s))" using s(2) by (simp add: store_inv_def)
  have keys: "set (map ke_key ?es) = {k \<in> live_keys (kv_abs sid g). has_prefix p k}"
    using live_keys_kv_map [OF dist] s(1) by (auto simp: kv_abs_def)
  have "card (set (map ke_key ?es)) = length ?es"
    using distinct_card [OF distinct_map_filter [OF dist]] by simp
  moreover have "distinct (map ke_key (take (unat n) ?es))"
    using distinct_take [OF distinct_map_filter [OF dist]] by (simp flip: take_map)
  moreover have "set (map ke_key (take (unat n) ?es)) \<subseteq> set (map ke_key ?es)"
    by (auto dest: in_set_takeD)
  ultimately show ?thesis
    using s(1) unfolding keys [symmetric]
    by (simp add: kv_scan_def read_slot_get scan_loop_filter min.commute)
qed

definition kv_three_keys :: KVState where
  "kv_three_keys = fst (call_run (kv_step 1) kv_one_store
     [KvPut ''ab'' [1], KvPut ''ac'' [2], KvPut ''b'' [3], KvDelete ''ac''])"

lemma kv_scan_enumerates_witness:
  "\<exists>es. kv_scan kv_three_keys 1 (Some ''a'') True (Some 5) = (0, Some es) \<and> length es = 1"
proof -
  let ?cs = "[KvPut ''ab'' [1], KvPut ''ac'' [2], KvPut ''b'' [3], KvDelete ''ac'']"
  have "kv_inv 1 kv_three_keys" "kv_abs 1 kv_three_keys = fst (call_run kv_spec Map.empty ?cs)"
    using kv.run_results(2,3) [OF kv_one_store_inv, of ?cs] by (simp_all add: kv_three_keys_def kv_one_store_abs)
  moreover have "{k \<in> live_keys (fst (call_run kv_spec Map.empty ?cs)). has_prefix ''a'' k} = {''ab''}"
    by (auto simp: live_keys_def has_prefix_def split: if_splits)
  ultimately show ?thesis using kv_scan_enumerates [of 1 kv_three_keys "''a''" 5] by auto
qed

text \<open>
  Stores are independent: after any history of calls on any stores, each store is what
  the calls addressed to it alone would have made of it.
\<close>

lemma kv_stores_isolated:
  "slot_get j (foldl kv_stores_step ss cs) =
   map_option (\<lambda>s. foldl kv_local s (filter (\<lambda>c. fst c = j) cs)) (slot_get j ss)"
  by (rule kv_service.independent)

text \<open>
  Aborting does not end a transaction: whatever is done to the store between the start
  of a PUT transaction and its commit, and although the transaction was aborted, committing it
  succeeds, writes its value as a put would and marks it committed.
\<close>

lemma kv_aborted_transaction_commits:
  assumes "kv_inv sid g" and "list_all (\<lambda>tx. tx_tx_id tx \<noteq> g_tx_id_counter g) (kv_txs sid g)"
    and "length k < 256" and "length v \<le> 65536"
    and "kv_start_transaction g sid (Some ''PUT'') (Some k) (Some v) (of_nat (length v)) = Done (g1, t)"
    and "t \<noteq> 0" and "list_all kv_fits cs"
    and "kv_abort_transaction (fst (call_run (kv_step sid) g1 cs)) sid t = (g2, r)"
  shows "r = 0 \<and> tx_state (kv_txs sid g2 ! length (kv_txs sid g)) = TX_ABORTED \<and>
    (\<exists>g3. kv_commit_transaction g2 sid t = Done (g3, 0) \<and>
       kv_abs sid g3 = fst (kv_spec (kv_abs sid (fst (call_run (kv_step sid) g1 cs))) (KvPut k v)) \<and>
       tx_state (kv_txs sid g3 ! length (kv_txs sid g)) = TX_COMMITTED)"
proof -
  let ?n = "length (kv_txs sid g)" and ?h = "fst (call_run (kv_step sid) g1 cs)"
  from start_transaction_effect [OF assms(1-6)] obtain tx where
    g1: "kv_inv sid g1" "first_idx (\<lambda>tx. tx_tx_id tx = t) (kv_txs sid g1) = Some ?n"
    and tx: "kv_txs sid g1 = kv_txs sid g @ [tx]" "tx_operation tx = ''PUT''" "tx_key tx = k" "tx_value tx = v"
    by auto
  have h: "kv_inv sid ?h" "kv_txs sid ?h = kv_txs sid g1"
    using kv.run_results(3) [OF g1(1) assms(7)] kv_run_txs [OF assms(7)] by auto
  then obtain s where s: "slot_get sid (g_stores ?h) = Some s" "store_inv s" by (auto simp: kv_inv_def)
  with h(2) have ts: "ks_transactions s = kv_txs sid g1" by (simp add: kv_txs_def)
  from with_store_elim [OF assms(8) [unfolded kv_abort_transaction_def] s(1)] ts g1(2)
  obtain s2 where s2: "s2 = set_tx_state ?n (\<lambda>t. t\<lparr>tx_state := TX_ABORTED\<rparr>) s" "r = 0"
    "slot_get sid (g_stores g2) = Some s2" by auto
  then have g2: "kv_inv sid g2" "kv_abs sid g2 = kv_abs sid ?h"
    "kv_txs sid g2 = (kv_txs sid g1)[?n := tx\<lparr>tx_state := TX_ABORTED\<rparr>]"
    using s ts tx(1) by (auto simp: kv_inv_def kv_abs_def kv_txs_def nth_append)
  have "first_idx (\<lambda>tx. tx_tx_id tx = t) (kv_txs sid g2) = Some ?n"
    using first_idx_update_same [of "kv_txs sid g1" "\<lambda>tx. tx_tx_id tx = t" "\<lambda>t. t\<lparr>tx_state := TX_ABORTED\<rparr>" ?n]
      g1(2) g2(3) tx(1) by simp
  from commit_put [OF g2(1) this _ _ _ assms(3,4)] g2 tx s2(2) show ?thesis by simp
qed

lemma kv_aborted_transaction_commits_witness:
  "\<exists>g1 g3. kv_start_transaction kv_one_store 1 (Some ''PUT'') (Some ''a'') (Some [7]) 1 = Done (g1, 1) \<and>
     kv_commit_transaction (fst (kv_abort_transaction g1 1 1)) 1 1 = Done (g3, 0) \<and>
     kv_abs 1 g3 ''a'' = Some ([[7]], False)"
proof -
  note i = kv_one_store_inv kv_one_store_abs
  have t: "kv_txs 1 kv_one_store = []"
    by (simp add: kv_txs_def kv_one_store_def kv_create_store_def kv_initial_def MAX_KV_STORES_def slot_get_def slot_of_def Let_def)
  obtain g1 where g1: "kv_start_transaction kv_one_store 1 (Some ''PUT'') (Some ''a'') (Some [7]) 1 = Done (g1, 1)"
    by (simp add: kv_start_transaction_def kv_one_store_def kv_create_store_def kv_initial_def kv_consts slot_of_def Let_def)
  have a: "kv_abs 1 g1 = Map.empty"
    using start_transaction_effect [OF i(1), of "''a''" "[7]" g1 1] g1 t i(2) by simp
  from kv_aborted_transaction_commits [OF i(1), of "''a''" "[7]" g1 1 "[]" "fst (kv_abort_transaction g1 1 1)"
      "snd (kv_abort_transaction g1 1 1)"] g1 t
  obtain g3 where "kv_commit_transaction (fst (kv_abort_transaction g1 1 1)) 1 1 = Done (g3, 0)"
    "kv_abs 1 g3 = fst (kv_spec (kv_abs 1 g1) (KvPut ''a'' [7]))" by auto
  with g1 a show ?thesis by auto
qed

end
