(* ===== verification/Msg_Broker.thy ===== *)
theory Msg_Broker
  imports Service_Tables
begin

text \<open>
  The message broker of \<open>src/services/msg_broker.c\<close>: brokers with queues, each a ring buffer of
  messages, and subscribers. A payload with its size is the list of its bytes. The array of a
  queue comes from \<open>malloc\<close> uninitialised: a slot never written is \<open>None\<close>, and reading one is
  undefined. Whether \<open>malloc\<close> succeeds and the times read from the clock are arguments. Released
  payloads are not modelled: the file frees them only in \<open>mb_delete_broker\<close>. The body of
  \<open>mb_nack_message\<close> uses a variable it does not declare, and is left out.

  The second half shows that a queue of any type is a bounded FIFO.
\<close>

section \<open>Constants and data\<close>

definition MAX_MESSAGE_QUEUES :: nat where "MAX_MESSAGE_QUEUES = 256"
definition MAX_QUEUE_SIZE :: u32 where "MAX_QUEUE_SIZE = 32768"
definition MAX_SUBSCRIBERS :: nat where "MAX_SUBSCRIBERS = 512"
definition MAX_MESSAGE_SIZE :: u32 where "MAX_MESSAGE_SIZE = 262144"

datatype QueueType = QUEUE_FIFO | QUEUE_PRIORITY | QUEUE_LIFO

datatype DeliveryGuarantee = DELIVERY_AT_MOST_ONCE | DELIVERY_AT_LEAST_ONCE | DELIVERY_EXACTLY_ONCE

datatype MessageState = MSG_PENDING | MSG_DELIVERED | MSG_ACKNOWLEDGED | MSG_DEAD_LETTER

record Message =
  ms_message_id :: u64
  ms_timestamp :: u64
  ms_priority :: u32
  ms_payload :: "u8 list"
  ms_state :: MessageState
  ms_delivery_attempts :: u32
  ms_sender_id :: string
  ms_expiration_time :: time_t

record MessageQueue =
  mq_queue_id :: u32
  mq_queue_name :: string
  mq_queue_type :: QueueType
  mq_delivery_guarantee :: DeliveryGuarantee
  mq_message_count :: u32
  mq_messages :: "Message option list"
  mq_capacity :: u32
  mq_head :: u32
  mq_tail :: u32
  mq_total_messages :: u64
  mq_total_bytes :: u64
  mq_subscriber_count :: u32
  mq_last_activity :: u64

record Subscriber =
  su_subscriber_id :: u32
  su_subscriber_name :: string
  su_queue_id :: u32
  su_messages_consumed :: u32
  su_bytes_consumed :: u64
  su_pending_acks :: u32
  su_last_activity :: u64
  su_is_connected :: bool

record MessageBroker =
  mb_broker_id :: u32
  mb_broker_name :: string
  mb_queues :: "MessageQueue list"
  mb_subscribers :: "Subscriber list"
  mb_total_messages_routed :: u64
  mb_total_bytes_routed :: u64
  mb_failed_deliveries :: u64
  mb_dlq_size :: u32

type_synonym brokers = "MessageBroker list"

text \<open>A 64-bit identifier returned as \<open>int\<close> keeps its low 32 bits.\<close>

definition id_code :: "u64 \<Rightarrow> int" where
  "id_code n = sint (ucast n :: u32)"

section \<open>Brokers and queues\<close>

definition mb_create_broker :: "brokers \<Rightarrow> string option \<Rightarrow> bool \<Rightarrow> brokers \<times> int" where
  "mb_create_broker bs name queues_ok =
     (case name of None \<Rightarrow> (bs, -1)
      | Some nm \<Rightarrow>
          if length bs \<ge> 8 \<or> \<not> queues_ok then (bs, -1)
          else let bid = of_nat (length bs) + 1
               in (bs @ [\<lparr>mb_broker_id = bid, mb_broker_name = take 63 nm, mb_queues = [],
                     mb_subscribers = [], mb_total_messages_routed = 0, mb_total_bytes_routed = 0,
                     mb_failed_deliveries = 0, mb_dlq_size = 0\<rparr>], sint bid))"

definition mb_delete_broker :: "brokers \<Rightarrow> u32 \<Rightarrow> brokers \<times> int" where
  "mb_delete_broker bs broker_id = delete_slot broker_id bs"

definition mb_create_queue ::
    "brokers \<Rightarrow> u32 \<Rightarrow> string option \<Rightarrow> QueueType \<Rightarrow> u32 \<Rightarrow> bool \<Rightarrow> time_t \<Rightarrow> brokers \<times> int" where
  "mb_create_queue bs broker_id queue_name queue_type capacity messages_ok now =
     (case queue_name of None \<Rightarrow> (bs, -1)
      | Some nm \<Rightarrow> with_slot (-1) broker_id bs (\<lambda>b.
          if capacity > MAX_QUEUE_SIZE \<or> capacity = 0 then (b, -1)
          else if length (mb_queues b) \<ge> MAX_MESSAGE_QUEUES then (b, -1)
          else if \<not> messages_ok then (b, -1)
          else let qid = of_nat (length (mb_queues b)) + 1;
                   queue = \<lparr>mq_queue_id = qid, mq_queue_name = take 63 nm, mq_queue_type = queue_type,
                     mq_delivery_guarantee = DELIVERY_AT_LEAST_ONCE, mq_message_count = 0,
                     mq_messages = replicate (unat capacity) None, mq_capacity = capacity, mq_head = 0,
                     mq_tail = 0, mq_total_messages = 0, mq_total_bytes = 0, mq_subscriber_count = 0,
                     mq_last_activity = of_int now\<rparr>
               in (b\<lparr>mb_queues := mb_queues b @ [queue]\<rparr>, sint qid)))"

definition with_queue ::
    "'r \<Rightarrow> u32 \<Rightarrow> MessageBroker \<Rightarrow> (MessageQueue \<Rightarrow> MessageQueue \<times> 'r) \<Rightarrow> MessageBroker \<times> 'r" where
  "with_queue r queue_id b f =
     (let (qs, x) = with_slot r queue_id (mb_queues b) f in (b\<lparr>mb_queues := qs\<rparr>, x))"

definition mb_delete_queue :: "brokers \<Rightarrow> u32 \<Rightarrow> u32 \<Rightarrow> brokers \<times> int" where
  "mb_delete_queue bs broker_id queue_id = with_slot (-1) broker_id bs (\<lambda>b.
     let (qs, r) = delete_slot queue_id (mb_queues b) in (b\<lparr>mb_queues := qs\<rparr>, r))"

definition mb_set_delivery_guarantee ::
    "brokers \<Rightarrow> u32 \<Rightarrow> u32 \<Rightarrow> DeliveryGuarantee \<Rightarrow> brokers \<times> int" where
  "mb_set_delivery_guarantee bs broker_id queue_id guarantee = with_slot (-1) broker_id bs (\<lambda>b.
     with_queue (-1) queue_id b (\<lambda>q. (q\<lparr>mq_delivery_guarantee := guarantee\<rparr>, 0)))"

definition mb_set_queue_ttl :: "brokers \<Rightarrow> u32 \<Rightarrow> u32 \<Rightarrow> u32 \<Rightarrow> int" where
  "mb_set_queue_ttl bs broker_id queue_id ttl_seconds = read_slot (-1) broker_id bs (\<lambda>b. 0)"

definition mb_purge_queue :: "brokers \<Rightarrow> u32 \<Rightarrow> u32 \<Rightarrow> brokers \<times> int" where
  "mb_purge_queue bs broker_id queue_id = with_slot (-1) broker_id bs (\<lambda>b.
     with_queue (-1) queue_id b (\<lambda>q. (q\<lparr>mq_message_count := 0, mq_head := 0, mq_tail := 0\<rparr>, 0)))"

section \<open>Messages\<close>

text \<open>
  \<open>payload_ok\<close> says whether the copy of the payload can be allocated; when it cannot, the slot at
  \<open>tail\<close> is left half written, but it holds no message and the next send fills it. \<open>now\<close> and
  \<open>now2\<close> are the two readings of the clock.
\<close>

definition make_message :: "MessageQueue \<Rightarrow> u8 list \<Rightarrow> time_t \<Rightarrow> Message" where
  "make_message q bytes now =
     \<lparr>ms_message_id = mq_total_messages q + 1, ms_timestamp = of_int now, ms_priority = 0,
      ms_payload = bytes, ms_state = MSG_PENDING, ms_delivery_attempts = 0,
      ms_sender_id = ''producer'', ms_expiration_time = now + 86400\<rparr>"

definition enqueue :: "MessageQueue \<Rightarrow> u8 list \<Rightarrow> time_t \<Rightarrow> time_t \<Rightarrow> MessageQueue" where
  "enqueue q bytes now now2 =
     q\<lparr>mq_messages := (mq_messages q)[unat (mq_tail q) := Some (make_message q bytes now)],
       mq_tail := (mq_tail q + 1) mod mq_capacity q,
       mq_message_count := mq_message_count q + 1,
       mq_total_messages := mq_total_messages q + 1,
       mq_total_bytes := mq_total_bytes q + of_nat (length bytes),
       mq_last_activity := of_int now2\<rparr>"

definition mb_send_message ::
    "brokers \<Rightarrow> u32 \<Rightarrow> u32 \<Rightarrow> u8 list option \<Rightarrow> u32 \<Rightarrow> bool \<Rightarrow> time_t \<Rightarrow> time_t \<Rightarrow> (brokers \<times> int) outcome" where
  "mb_send_message bs broker_id queue_id payload sz payload_ok now now2 =
     (case payload of None \<Rightarrow> Done (bs, -1)
      | Some v \<Rightarrow> with_slot_ub (-1) broker_id bs (\<lambda>b.
          if sz > MAX_MESSAGE_SIZE then Done (b, -1)
          else case slot_of queue_id (mb_queues b) of None \<Rightarrow> Done (b, -1)
          | Some i \<Rightarrow>
              let q = mb_queues b ! i in
              if mq_message_count q \<ge> mq_capacity q then Done (b, -1)
              else if \<not> payload_ok then Done (b, -1)
              else if length v < unat sz then Undef
              else let bytes = take (unat sz) v
                   in Done (b\<lparr>mb_queues := (mb_queues b)[i := enqueue q bytes now now2],
                              mb_total_messages_routed := mb_total_messages_routed b + 1,
                              mb_total_bytes_routed := mb_total_bytes_routed b + ucast sz\<rparr>,
                            id_code (ms_message_id (make_message q bytes now)))))"

text \<open>The priority is stored in the message just written and is read nowhere.\<close>

definition set_priority :: "u32 \<Rightarrow> MessageQueue \<Rightarrow> MessageQueue" where
  "set_priority priority q =
     (let insert_idx = unat ((mq_tail q - 1 + mq_capacity q) mod mq_capacity q)
      in q\<lparr>mq_messages := (mq_messages q)[insert_idx :=
             map_option (\<lambda>m. m\<lparr>ms_priority := priority\<rparr>) (mq_messages q ! insert_idx)]\<rparr>)"

definition mb_send_priority_message ::
    "brokers \<Rightarrow> u32 \<Rightarrow> u32 \<Rightarrow> u8 list option \<Rightarrow> u32 \<Rightarrow> u32 \<Rightarrow> bool \<Rightarrow> time_t \<Rightarrow> time_t \<Rightarrow>
     (brokers \<times> int) outcome" where
  "mb_send_priority_message bs broker_id queue_id payload sz priority payload_ok now now2 =
     (case mb_send_message bs broker_id queue_id payload sz payload_ok now now2 of
        Undef \<Rightarrow> Undef
      | Done (bs', msg_id) \<Rightarrow>
          Done (if msg_id > 0
                then fst (with_slot () broker_id bs' (\<lambda>b. with_queue () queue_id b (\<lambda>q. (set_priority priority q, ()))))
                else bs', msg_id))"

text \<open>
  \<open>payload\<close> says whether the output buffer is given, \<open>sz\<close> is \<open>*size\<close>. The results are the code
  returned, the bytes copied out (\<open>None\<close> when nothing is copied) and the new \<open>*size\<close>.
\<close>

type_synonym delivery = "int \<times> u8 list option \<times> u32 option"

definition dequeue :: "MessageQueue \<Rightarrow> Message \<Rightarrow> time_t \<Rightarrow> MessageQueue" where
  "dequeue q msg now =
     q\<lparr>mq_messages := (mq_messages q)[unat (mq_head q) :=
         Some (msg\<lparr>ms_state := MSG_DELIVERED, ms_delivery_attempts := ms_delivery_attempts msg + 1\<rparr>)],
       mq_head := (mq_head q + 1) mod mq_capacity q,
       mq_message_count := mq_message_count q - 1,
       mq_last_activity := of_int now\<rparr>"

definition mb_receive_message ::
    "brokers \<Rightarrow> u32 \<Rightarrow> u32 \<Rightarrow> bool \<Rightarrow> u32 option \<Rightarrow> time_t \<Rightarrow> (brokers \<times> delivery) outcome" where
  "mb_receive_message bs broker_id queue_id payload sz now =
     (case sz of None \<Rightarrow> Done (bs, -1, None, None)
      | Some n \<Rightarrow>
          if \<not> payload then Done (bs, -1, None, sz)
          else with_slot_ub (-1, None, sz) broker_id bs (\<lambda>b.
            case slot_of queue_id (mb_queues b) of None \<Rightarrow> Done (b, -1, None, sz)
            | Some i \<Rightarrow>
                let q = mb_queues b ! i in
                if mq_message_count q = 0 then Done (b, 0, None, Some 0)
                else case mq_messages q ! unat (mq_head q) of None \<Rightarrow> Undef
                | Some msg \<Rightarrow>
                    if unat n < length (ms_payload msg) then Done (b, -1, None, sz)
                    else Done (b\<lparr>mb_queues := (mb_queues b)[i := dequeue q msg now]\<rparr>, id_code (ms_message_id msg),
                               Some (ms_payload msg), Some (of_nat (length (ms_payload msg))))))"

definition mb_peek_message ::
    "brokers \<Rightarrow> u32 \<Rightarrow> u32 \<Rightarrow> bool \<Rightarrow> u32 option \<Rightarrow> delivery outcome" where
  "mb_peek_message bs broker_id queue_id payload sz =
     (case sz of None \<Rightarrow> Done (-1, None, None)
      | Some n \<Rightarrow>
          if \<not> payload then Done (-1, None, sz)
          else read_slot (Done (-1, None, sz)) broker_id bs (\<lambda>b.
            read_slot (Done (-1, None, sz)) queue_id (mb_queues b) (\<lambda>q.
              if mq_message_count q = 0 then Done (0, None, Some 0)
              else case mq_messages q ! unat (mq_head q) of None \<Rightarrow> Undef
              | Some msg \<Rightarrow>
                  if unat n < length (ms_payload msg) then Done (-1, None, sz)
                  else Done (id_code (ms_message_id msg), Some (ms_payload msg),
                             Some (of_nat (length (ms_payload msg)))))))"

section \<open>Subscribers\<close>

definition mb_subscribe :: "brokers \<Rightarrow> u32 \<Rightarrow> u32 \<Rightarrow> string option \<Rightarrow> time_t \<Rightarrow> brokers \<times> int" where
  "mb_subscribe bs broker_id queue_id subscriber_name now =
     (case subscriber_name of None \<Rightarrow> (bs, -1)
      | Some nm \<Rightarrow> with_slot (-1) broker_id bs (\<lambda>b.
          case slot_of queue_id (mb_queues b) of None \<Rightarrow> (b, -1)
          | Some i \<Rightarrow>
              if length (mb_subscribers b) \<ge> MAX_SUBSCRIBERS then (b, -1)
              else let sid = of_nat (length (mb_subscribers b)) + 1; q = mb_queues b ! i;
                       sub = \<lparr>su_subscriber_id = sid, su_subscriber_name = take 63 nm, su_queue_id = queue_id,
                         su_messages_consumed = 0, su_bytes_consumed = 0, su_pending_acks = 0,
                         su_last_activity = of_int now, su_is_connected = True\<rparr>
                   in (b\<lparr>mb_queues := (mb_queues b)[i := q\<lparr>mq_subscriber_count := mq_subscriber_count q + 1\<rparr>],
                         mb_subscribers := mb_subscribers b @ [sub]\<rparr>, sint sid)))"

definition mb_unsubscribe :: "brokers \<Rightarrow> u32 \<Rightarrow> u32 \<Rightarrow> brokers \<times> int" where
  "mb_unsubscribe bs broker_id subscriber_id = with_slot (-1) broker_id bs (\<lambda>b.
     let (ss, r) = delete_slot subscriber_id (mb_subscribers b) in (b\<lparr>mb_subscribers := ss\<rparr>, r))"

definition with_subscriber ::
    "u32 \<Rightarrow> u32 \<Rightarrow> brokers \<Rightarrow> (Subscriber \<Rightarrow> Subscriber) \<Rightarrow> brokers \<times> int" where
  "with_subscriber broker_id subscriber_id bs f = with_slot (-1) broker_id bs (\<lambda>b.
     let (ss, r) = with_slot (-1) subscriber_id (mb_subscribers b) (\<lambda>s. (f s, 0))
     in (b\<lparr>mb_subscribers := ss\<rparr>, r))"

definition mb_connect_subscriber :: "brokers \<Rightarrow> u32 \<Rightarrow> u32 \<Rightarrow> time_t \<Rightarrow> brokers \<times> int" where
  "mb_connect_subscriber bs broker_id subscriber_id now =
     with_subscriber broker_id subscriber_id bs
       (\<lambda>s. s\<lparr>su_is_connected := True, su_last_activity := of_int now\<rparr>)"

definition mb_disconnect_subscriber :: "brokers \<Rightarrow> u32 \<Rightarrow> u32 \<Rightarrow> brokers \<times> int" where
  "mb_disconnect_subscriber bs broker_id subscriber_id =
     with_subscriber broker_id subscriber_id bs (\<lambda>s. s\<lparr>su_is_connected := False\<rparr>)"

definition mb_acknowledge_message :: "brokers \<Rightarrow> u32 \<Rightarrow> u32 \<Rightarrow> u64 \<Rightarrow> brokers \<times> int" where
  "mb_acknowledge_message bs broker_id subscriber_id message_id =
     with_subscriber broker_id subscriber_id bs
       (\<lambda>s. if su_pending_acks s > 0 then s\<lparr>su_pending_acks := su_pending_acks s - 1\<rparr> else s)"

section \<open>Dead letters and statistics\<close>

definition mb_move_to_dlq :: "brokers \<Rightarrow> u32 \<Rightarrow> u32 \<Rightarrow> u64 \<Rightarrow> brokers \<times> int" where
  "mb_move_to_dlq bs broker_id queue_id message_id =
     with_slot (-1) broker_id bs (\<lambda>b. (b\<lparr>mb_dlq_size := mb_dlq_size b + 1\<rparr>, 0))"

definition mb_retry_message :: "brokers \<Rightarrow> u32 \<Rightarrow> u32 \<Rightarrow> u64 \<Rightarrow> int" where
  "mb_retry_message bs broker_id queue_id message_id = read_slot (-1) broker_id bs (\<lambda>b. 0)"

definition mb_get_dlq_message :: "brokers \<Rightarrow> u32 \<Rightarrow> bool \<Rightarrow> bool \<Rightarrow> int" where
  "mb_get_dlq_message bs broker_id payload sz =
     (if \<not> payload \<or> \<not> sz then -1 else read_slot (-1) broker_id bs (\<lambda>b. 0))"

definition mb_requeue_dlq_message :: "brokers \<Rightarrow> u32 \<Rightarrow> u32 \<Rightarrow> u64 \<Rightarrow> brokers \<times> int" where
  "mb_requeue_dlq_message bs broker_id queue_id message_id = with_slot (-1) broker_id bs (\<lambda>b.
     (if mb_dlq_size b > 0 then b\<lparr>mb_dlq_size := mb_dlq_size b - 1\<rparr> else b, 0))"

definition mb_get_broker_info :: "brokers \<Rightarrow> u32 \<Rightarrow> nat option" where
  "mb_get_broker_info bs broker_id = slot_of broker_id bs"

definition mb_get_queue_info :: "brokers \<Rightarrow> u32 \<Rightarrow> u32 \<Rightarrow> nat option" where
  "mb_get_queue_info bs broker_id queue_id =
     read_slot None broker_id bs (\<lambda>b. slot_of queue_id (mb_queues b))"

definition mb_get_queue_depth :: "brokers \<Rightarrow> u32 \<Rightarrow> u32 \<Rightarrow> u32" where
  "mb_get_queue_depth bs broker_id queue_id =
     read_slot 0 broker_id bs (\<lambda>b. read_slot 0 queue_id (mb_queues b) mq_message_count)"

definition mb_get_broker_throughput :: "brokers \<Rightarrow> u32 \<Rightarrow> u64" where
  "mb_get_broker_throughput bs broker_id = read_slot 0 broker_id bs mb_total_messages_routed"

section \<open>A queue as a bounded FIFO\<close>

definition live_messages :: "MessageQueue \<Rightarrow> Message option list" where
  "live_messages q = ring (unat (mq_head q)) (unat (mq_message_count q)) (mq_messages q)"

definition queue_inv :: "MessageQueue \<Rightarrow> bool" where
  "queue_inv q \<longleftrightarrow> length (mq_messages q) = unat (mq_capacity q) \<and>
     0 < mq_capacity q \<and> mq_capacity q \<le> MAX_QUEUE_SIZE \<and>
     mq_head q < mq_capacity q \<and> mq_message_count q \<le> mq_capacity q \<and>
     unat (mq_tail q) = (unat (mq_head q) + unat (mq_message_count q)) mod unat (mq_capacity q) \<and>
     None \<notin> set (live_messages q)"

definition content_of :: "Message option \<Rightarrow> u64 \<times> u8 list" where
  "content_of m = (case m of None \<Rightarrow> (0, []) | Some m \<Rightarrow> (ms_message_id m, ms_payload m))"

definition queue_content :: "MessageQueue \<Rightarrow> (u64 \<times> u8 list) list" where
  "queue_content q = map content_of (live_messages q)"

lemma queue_inv_bounds:
  assumes "queue_inv q"
  shows "length (mq_messages q) = unat (mq_capacity q)" and "0 < unat (mq_capacity q)"
    and "unat (mq_capacity q) \<le> 32768" and "unat (mq_head q) < unat (mq_capacity q)"
    and "unat (mq_message_count q) \<le> unat (mq_capacity q)"
  using assms by (auto simp: queue_inv_def word_le_nat_alt word_less_nat_alt MAX_QUEUE_SIZE_def)

lemma length_queue_content [simp]: "length (queue_content q) = unat (mq_message_count q)"
  by (simp add: queue_content_def live_messages_def)

text \<open>The next index of the ring: 32-bit arithmetic is exact here.\<close>

lemma ring_index:
  fixes x c :: u32
  assumes "unat x < unat c" and "unat c \<le> 32768"
  shows "unat ((x + 1) mod c) = Suc (unat x) mod unat c"
proof -
  have "unat (x + 1) = Suc (unat x)" by (rule unat_succ_less [of _ c]) (use assms in \<open>simp add: word_less_nat_alt\<close>)
  then show ?thesis by (simp add: unat_mod_distrib)
qed

lemma enqueue_spec:
  assumes "queue_inv q" and "mq_message_count q < mq_capacity q"
  shows "queue_inv (enqueue q v now now2)"
    and "queue_content (enqueue q v now now2) = queue_content q @ [(mq_total_messages q + 1, v)]"
proof -
  let ?q = "enqueue q v now now2" and ?h = "unat (mq_head q)" and ?n = "unat (mq_message_count q)"
  note b = queue_inv_bounds [OF assms(1)]
  have n: "?n < unat (mq_capacity q)" using assms(2) by (simp add: word_less_nat_alt)
  have count: "unat (mq_message_count ?q) = Suc ?n"
    using unat_succ_less [OF assms(2)] by (simp add: enqueue_def)
  have tail: "unat (mq_tail q) = (?h + ?n) mod unat (mq_capacity q)" using assms(1) by (simp add: queue_inv_def)
  then have "unat (mq_tail q) < unat (mq_capacity q)" using b(2) by simp
  then have tail': "unat (mq_tail ?q) = (?h + Suc ?n) mod unat (mq_capacity q)"
    using b(3) tail by (simp add: enqueue_def ring_index mod_Suc_eq)
  have live: "live_messages ?q = live_messages q @ [Some (make_message q v now)]"
    using ring_put [of ?n "mq_messages q" ?h] n b(1) tail count
    by (simp add: live_messages_def enqueue_def)
  show "queue_inv ?q"
    using assms(1) count tail' live b(1) n
    by (simp add: queue_inv_def word_le_nat_alt) (simp add: enqueue_def)
  show "queue_content ?q = queue_content q @ [(mq_total_messages q + 1, v)]"
    using live by (simp add: queue_content_def content_of_def make_message_def)
qed

lemma dequeue_spec:
  assumes "queue_inv q" and "mq_message_count q \<noteq> 0"
  obtains msg where "mq_messages q ! unat (mq_head q) = Some msg"
    and "queue_content q = (ms_message_id msg, ms_payload msg) # queue_content (dequeue q msg now)"
    and "queue_inv (dequeue q msg now)"
proof -
  let ?h = "unat (mq_head q)" and ?n = "unat (mq_message_count q) - 1" and ?c = "unat (mq_capacity q)"
  note b = queue_inv_bounds [OF assms(1)]
  have "0 < unat (mq_message_count q)" using assms(2) by (simp add: unat_gt_0)
  then have n: "unat (mq_message_count q) = Suc ?n" by linarith
  have split: "live_messages q = mq_messages q ! ?h # ring (Suc ?h mod ?c) ?n (mq_messages q)"
    using ring_Suc [of ?h "mq_messages q" ?n] b n by (simp add: live_messages_def)
  then have "mq_messages q ! ?h \<noteq> None" using assms(1) by (metis list.set_intros(1) queue_inv_def)
  then obtain msg where msg: "mq_messages q ! ?h = Some msg" by blast
  have head: "unat (mq_head (dequeue q msg now)) = Suc ?h mod ?c"
    using ring_index [OF b(4,3)] by (simp add: dequeue_def)
  have count: "unat (mq_message_count (dequeue q msg now)) = ?n"
    using assms(2) by (simp add: dequeue_def unat_minus_one)
  have live: "live_messages (dequeue q msg now) = ring (Suc ?h mod ?c) ?n (mq_messages q)"
    using ring_update_head [of ?n "mq_messages q" ?h] b n head count
    by (simp add: live_messages_def) (simp add: dequeue_def)
  have "(Suc ?h mod ?c + ?n) mod ?c = (Suc ?h + ?n) mod ?c" by (rule mod_add_left_eq)
  also have "Suc ?h + ?n = ?h + unat (mq_message_count q)" using n by linarith
  finally have tail: "unat (mq_tail q) = (Suc ?h mod ?c + ?n) mod ?c"
    using assms(1) by (simp add: queue_inv_def)
  have "queue_inv (dequeue q msg now)"
    using assms(1) live split head count b n tail
    by (simp add: queue_inv_def word_le_nat_alt word_less_nat_alt) (simp add: dequeue_def)
  with live split msg show thesis
    by (intro that [of msg]) (simp_all add: queue_content_def content_of_def)
qed

section \<open>Calls on one queue\<close>

text \<open>
  A call addresses one queue of one broker. A send carries the priority of
  \<open>mb_send_priority_message\<close>, or none for \<open>mb_send_message\<close>, and the outcome of its allocation.
\<close>

datatype mb_call =
  MbSend "u8 list" "u32 option" bool time_t time_t | MbReceive u32 time_t | MbPeek u32 | MbDepth | MbPurge

datatype mb_reply = MbCode int | MbDelivery delivery | MbNumber u32 | MbUndefined

fun mb_step :: "u32 \<times> u32 \<Rightarrow> brokers \<Rightarrow> mb_call \<Rightarrow> brokers \<times> mb_reply" where
  "mb_step (bid, qid) bs (MbSend v pr ok t t2) =
     (case (case pr of None \<Rightarrow> mb_send_message bs bid qid (Some v) (of_nat (length v)) ok t t2
            | Some p \<Rightarrow> mb_send_priority_message bs bid qid (Some v) (of_nat (length v)) p ok t t2) of
        Undef \<Rightarrow> (bs, MbUndefined) | Done (bs', r) \<Rightarrow> (bs', MbCode r))"
| "mb_step (bid, qid) bs (MbReceive n t) =
     (case mb_receive_message bs bid qid True (Some n) t of
        Undef \<Rightarrow> (bs, MbUndefined) | Done (bs', d) \<Rightarrow> (bs', MbDelivery d))"
| "mb_step (bid, qid) bs (MbPeek n) =
     (bs, case mb_peek_message bs bid qid True (Some n) of Undef \<Rightarrow> MbUndefined | Done d \<Rightarrow> MbDelivery d)"
| "mb_step (bid, qid) bs MbDepth = (bs, MbNumber (mb_get_queue_depth bs bid qid))"
| "mb_step (bid, qid) bs MbPurge = (let (bs', r) = mb_purge_queue bs bid qid in (bs', MbCode r))"

text \<open>The specification: a list of messages, the number of messages sent, and a capacity.\<close>

type_synonym mb_model = "(u64 \<times> u8 list) list \<times> u64 \<times> nat"

fun deliver :: "(u64 \<times> u8 list) list \<Rightarrow> u32 \<Rightarrow> delivery" where
  "deliver [] n = (0, None, Some 0)"
| "deliver ((i, v) # q) n =
     (if unat n < length v then (-1, None, Some n) else (id_code i, Some v, Some (of_nat (length v))))"

fun mb_spec :: "mb_model \<Rightarrow> mb_call \<Rightarrow> mb_model \<times> mb_reply" where
  "mb_spec (q, n, c) (MbSend v pr ok t t2) =
     (if length v > 262144 \<or> length q \<ge> c \<or> \<not> ok then ((q, n, c), MbCode (-1))
      else ((q @ [(n + 1, v)], n + 1, c), MbCode (id_code (n + 1))))"
| "mb_spec (q, n, c) (MbReceive m t) =
     ((if q \<noteq> [] \<and> length (snd (hd q)) \<le> unat m then tl q else q, n, c), MbDelivery (deliver q m))"
| "mb_spec (q, n, c) (MbPeek m) = ((q, n, c), MbDelivery (deliver q m))"
| "mb_spec (q, n, c) MbDepth = ((q, n, c), MbNumber (of_nat (length q)))"
| "mb_spec (q, n, c) MbPurge = (([], n, c), MbCode 0)"

definition queue_at :: "u32 \<times> u32 \<Rightarrow> brokers \<Rightarrow> MessageQueue option" where
  "queue_at k bs = Option.bind (slot_get (fst k) bs) (\<lambda>b. slot_get (snd k) (mb_queues b))"

definition queue_abs :: "MessageQueue \<Rightarrow> mb_model" where
  "queue_abs q = (queue_content q, mq_total_messages q, unat (mq_capacity q))"

definition mb_abs :: "u32 \<times> u32 \<Rightarrow> brokers \<Rightarrow> mb_model" where
  "mb_abs k bs = (case queue_at k bs of None \<Rightarrow> ([], 0, 0) | Some q \<Rightarrow> queue_abs q)"

definition mb_inv :: "u32 \<times> u32 \<Rightarrow> brokers \<Rightarrow> bool" where
  "mb_inv k bs \<longleftrightarrow> (\<exists>q. queue_at k bs = Some q \<and> queue_inv q)"

fun mb_fits :: "mb_call \<Rightarrow> bool" where
  "mb_fits (MbSend v pr ok t t2) \<longleftrightarrow> length v < 4294967296"
| "mb_fits _ \<longleftrightarrow> True"

lemma queue_at_E:
  assumes "queue_at (bid, qid) bs = Some q"
  obtains b i j where "slot_of bid bs = Some i" and "bs ! i = b" and "slot_of qid (mb_queues b) = Some j"
    and "mb_queues b ! j = q"
  using assms by (auto simp: queue_at_def slot_get_Some Option.bind_eq_Some_conv)

lemma queue_at_update:
  "slot_of bid bs = Some i \<Longrightarrow> slot_of qid (mb_queues (bs ! i)) = Some j \<Longrightarrow>
   mb_queues b' = (mb_queues (bs ! i))[j := q'] \<Longrightarrow> queue_at (bid, qid) (bs[i := b']) = Some q'"
  by (simp add: queue_at_def slot_get_update)

lemma queue_at_with_queue:
  "queue_at (bid, qid) (fst (with_slot r bid bs (\<lambda>b. with_queue d qid b f))) =
     map_option (\<lambda>q. fst (f q)) (queue_at (bid, qid) bs)"
proof -
  have "mb_queues (fst (with_queue d qid b f)) = fst (with_slot d qid (mb_queues b) f)" for b
    by (simp add: with_queue_def split: prod.split)
  then show ?thesis
    by (cases "slot_get bid bs") (simp_all add: queue_at_def slot_get_with_slot)
qed

definition refused :: "MessageQueue \<Rightarrow> u8 list \<Rightarrow> bool \<Rightarrow> bool" where
  "refused q v ok \<longleftrightarrow> length v > 262144 \<or> mq_message_count q \<ge> mq_capacity q \<or> \<not> ok"

lemma send_effect:
  assumes "queue_at (bid, qid) bs = Some q" and "length v < 4294967296"
  shows "\<exists>bs'. mb_send_message bs bid qid (Some v) (of_nat (length v)) ok t t2 =
      Done (bs', if refused q v ok then -1 else id_code (mq_total_messages q + 1)) \<and>
    queue_at (bid, qid) bs' = Some (if refused q v ok then q else enqueue q v t t2)"
proof -
  have len: "unat (of_nat (length v) :: u32) = length v" using assms(2) by (rule unat_of_nat_u32)
  then have big: "(of_nat (length v) :: u32) > MAX_MESSAGE_SIZE \<longleftrightarrow> length v > 262144"
    by (simp add: word_less_nat_alt MAX_MESSAGE_SIZE_def)
  from assms(1) obtain b i j where s: "slot_of bid bs = Some i" "bs ! i = b" "slot_of qid (mb_queues b) = Some j"
    "mb_queues b ! j = q" by (rule queue_at_E)
  show ?thesis
  proof (cases "refused q v ok")
    case True
    with s big have "mb_send_message bs bid qid (Some v) (of_nat (length v)) ok t t2 = Done (bs, -1)"
      by (auto simp: mb_send_message_def with_slot_ub_def refused_def Let_def list_update_id)
    with True assms(1) show ?thesis by simp
  next
    case False
    define b' where "b' = b\<lparr>mb_queues := (mb_queues b)[j := enqueue q v t t2],
      mb_total_messages_routed := mb_total_messages_routed b + 1,
      mb_total_bytes_routed := mb_total_bytes_routed b + ucast (of_nat (length v) :: u32)\<rparr>"
    have "mb_send_message bs bid qid (Some v) (of_nat (length v)) ok t t2 =
        Done (bs[i := b'], id_code (mq_total_messages q + 1))"
      using False s big len
      by (auto simp: mb_send_message_def with_slot_ub_def refused_def Let_def make_message_def b'_def)
    moreover have "queue_at (bid, qid) (bs[i := b']) = Some (enqueue q v t t2)"
      using s by (intro queue_at_update) (simp_all add: b'_def)
    ultimately show ?thesis using False by simp
  qed
qed

lemma set_priority_abs:
  assumes "queue_inv q"
  shows "queue_inv (set_priority p q)" and "queue_abs (set_priority p q) = queue_abs q"
proof -
  define i where "i = unat ((mq_tail q - 1 + mq_capacity q) mod mq_capacity q)"
  let ?xs = "mq_messages q" and ?g = "map_option (\<lambda>m. m\<lparr>ms_priority := p\<rparr>)"
  have q: "set_priority p q = q\<lparr>mq_messages := ?xs[i := ?g (?xs ! i)]\<rparr>"
    by (simp add: set_priority_def i_def Let_def)
  have keep: "map f (?xs[i := ?g (?xs ! i)]) = map f ?xs" if "\<And>m. f (?g m) = f m" for f :: "Message option \<Rightarrow> 'b"
    using that by (cases "i < length ?xs") (simp_all add: map_update list_update_same_conv list_update_beyond)
  have ne: "?xs \<noteq> []" using queue_inv_bounds(1,2) [OF assms] by auto
  have "map f (live_messages (set_priority p q)) = map f (live_messages q)"
    if "\<And>m. f (?g m) = f m" for f :: "Message option \<Rightarrow> 'b"
    using keep [of f, OF that] ne by (simp add: live_messages_def q map_ring)
  note live = this
  have "map (\<lambda>m. m = None) (live_messages (set_priority p q)) = map (\<lambda>m. m = None) (live_messages q)"
    by (rule live) simp
  moreover have "None \<in> set ms \<longleftrightarrow> True \<in> set (map (\<lambda>m. m = None) ms)" for ms :: "Message option list"
    by (auto simp: image_iff)
  ultimately have "None \<in> set (live_messages (set_priority p q)) \<longleftrightarrow> None \<in> set (live_messages q)" by (simp only:)
  with assms show "queue_inv (set_priority p q)" by (simp add: queue_inv_def) (simp add: q)
  have "queue_content (set_priority p q) = queue_content q"
    unfolding queue_content_def by (rule live) (simp add: content_of_def split: option.split)
  then show "queue_abs (set_priority p q) = queue_abs q" by (simp add: queue_abs_def) (simp add: q)
qed

lemma refused_abs:
  assumes "queue_inv q"
  shows "mb_spec (queue_abs q) (MbSend v pr ok t t2) =
    (if refused q v ok then (queue_abs q, MbCode (-1))
     else (queue_abs (enqueue q v t t2), MbCode (id_code (mq_total_messages q + 1))))"
proof -
  have "refused q v ok \<longleftrightarrow> length v > 262144 \<or> length (queue_content q) \<ge> unat (mq_capacity q) \<or> \<not> ok"
    by (simp add: refused_def word_le_nat_alt)
  moreover have "\<not> refused q v ok \<Longrightarrow>
      queue_abs (enqueue q v t t2) = (queue_content q @ [(mq_total_messages q + 1, v)], mq_total_messages q + 1, unat (mq_capacity q))"
    using enqueue_spec(2) [OF assms] by (simp add: refused_def queue_abs_def not_le) (simp add: enqueue_def)
  ultimately show ?thesis by (simp add: queue_abs_def)
qed

lemma mb_invI: "queue_at k bs = Some q \<Longrightarrow> queue_inv q \<Longrightarrow> mb_inv k bs \<and> mb_abs k bs = queue_abs q"
  by (simp add: mb_inv_def mb_abs_def)

lemma send_sim:
  assumes "queue_at (bid, qid) bs = Some q" and "queue_inv q" and "mb_fits (MbSend v pr ok t t2)"
    and "mb_step (bid, qid) bs (MbSend v pr ok t t2) = (bs', r)"
  shows "mb_inv (bid, qid) bs' \<and> mb_spec (queue_abs q) (MbSend v pr ok t t2) = (mb_abs (bid, qid) bs', r)"
proof -
  let ?q = "if refused q v ok then q else enqueue q v t t2"
  let ?c = "if refused q v ok then -1 else id_code (mq_total_messages q + 1)"
  have len: "length v < 4294967296" using assms(3) by simp
  from send_effect [OF assms(1) len] obtain bs1 where
    s: "mb_send_message bs bid qid (Some v) (of_nat (length v)) ok t t2 = Done (bs1, ?c)"
    and q1: "queue_at (bid, qid) bs1 = Some ?q" by blast
  have inv: "queue_inv ?q" using assms(2) enqueue_spec(1) [OF assms(2)] by (auto simp: refused_def not_le)
  have spec: "mb_spec (queue_abs q) (MbSend v pr ok t t2) = (queue_abs ?q, MbCode ?c)"
    using refused_abs [OF assms(2)] by simp
  have "queue_at (bid, qid) bs' = Some ?q \<or> (\<exists>p. queue_at (bid, qid) bs' = Some (set_priority p ?q))"
    using assms(4) s q1
    by (cases pr) (auto simp: mb_send_priority_message_def queue_at_with_queue split: if_splits)
  moreover have "r = MbCode ?c" using assms(4) s by (auto simp: mb_send_priority_message_def split: option.splits)
  ultimately show ?thesis using mb_invI inv set_priority_abs [OF inv] spec by metis
qed

lemma receive_sim:
  assumes "queue_at (bid, qid) bs = Some q" and "queue_inv q"
    and "mb_step (bid, qid) bs (MbReceive n t) = (bs', r)"
  shows "mb_inv (bid, qid) bs' \<and> mb_spec (queue_abs q) (MbReceive n t) = (mb_abs (bid, qid) bs', r)"
proof -
  from assms(1) obtain b i j where s: "slot_of bid bs = Some i" "bs ! i = b" "slot_of qid (mb_queues b) = Some j"
    "mb_queues b ! j = q" by (rule queue_at_E)
  have same: "bs[i := b] = bs" using list_update_id [of bs i] s(2) by simp
  show ?thesis
  proof (cases "mq_message_count q = 0")
    case True
    then have "queue_content q = []" using length_queue_content [of q] by (simp del: length_queue_content)
    with True assms s same mb_invI [OF assms(1,2)] show ?thesis
      by (auto simp: mb_receive_message_def with_slot_ub_def queue_abs_def Let_def)
  next
    case False
    from dequeue_spec [OF assms(2) False] obtain msg where msg: "mq_messages q ! unat (mq_head q) = Some msg"
      and c: "queue_content q = (ms_message_id msg, ms_payload msg) # queue_content (dequeue q msg t)"
      and inv: "queue_inv (dequeue q msg t)" by blast
    have "queue_at (bid, qid) (bs[i := b\<lparr>mb_queues := (mb_queues b)[j := dequeue q msg t]\<rparr>]) = Some (dequeue q msg t)"
      using s by (intro queue_at_update) simp_all
    note new = mb_invI [OF this inv]
    have "queue_abs (dequeue q msg t) = (queue_content (dequeue q msg t), mq_total_messages q, unat (mq_capacity q))"
      by (simp add: queue_abs_def) (simp add: dequeue_def)
    with False assms(3) s same msg c new mb_invI [OF assms(1,2)] show ?thesis
      by (auto simp: mb_receive_message_def with_slot_ub_def queue_abs_def Let_def split: if_splits)
  qed
qed

lemma read_queue: "queue_at (bid, qid) bs = Some q \<Longrightarrow>
  read_slot r bid bs (\<lambda>b. read_slot r' qid (mb_queues b) f) = f q"
  by (auto simp: queue_at_def read_slot_get Option.bind_eq_Some_conv)

lemma peek_sim:
  assumes "queue_at (bid, qid) bs = Some q" and "queue_inv q"
  shows "mb_peek_message bs bid qid True (Some n) = Done (deliver (queue_content q) n)"
proof (cases "mq_message_count q = 0")
  case True
  then have "queue_content q = []" using length_queue_content [of q] by (simp del: length_queue_content)
  with True assms show ?thesis by (simp add: mb_peek_message_def read_queue)
next
  case False
  from dequeue_spec [OF assms(2) False] obtain msg where "mq_messages q ! unat (mq_head q) = Some msg"
    and "queue_content q = (ms_message_id msg, ms_payload msg) # queue_content (dequeue q msg 0)" by blast
  with False assms show ?thesis by (simp add: mb_peek_message_def read_queue)
qed

lemma purge_sim:
  assumes "queue_at (bid, qid) bs = Some q" and "queue_inv q" and "mb_purge_queue bs bid qid = (bs', r)"
  shows "r = 0 \<and> mb_inv (bid, qid) bs' \<and> mb_abs (bid, qid) bs' = ([], mq_total_messages q, unat (mq_capacity q))"
proof -
  let ?q = "q\<lparr>mq_message_count := 0, mq_head := 0, mq_tail := 0\<rparr>"
  have "queue_at (bid, qid) bs' = Some ?q"
    using assms(1,3) queue_at_with_queue [of bid qid "-1 :: int" bs "-1" "\<lambda>q. (q\<lparr>mq_message_count := 0, mq_head := 0, mq_tail := 0\<rparr>, 0)"]
    by (simp add: mb_purge_queue_def)
  moreover have "queue_inv ?q" using assms(2) by (simp add: queue_inv_def live_messages_def)
  moreover have "queue_abs ?q = ([], mq_total_messages q, unat (mq_capacity q))"
    by (simp add: queue_abs_def queue_content_def live_messages_def)
  moreover have "snd (mb_purge_queue bs bid qid) = 0"
    using assms(1) by (auto simp: mb_purge_queue_def queue_at_def with_queue_def Option.bind_eq_Some_conv split: prod.split)
      (metis with_slot_result option.simps(5) snd_conv)
  ultimately show ?thesis using mb_invI [of "(bid, qid)" bs' ?q] assms(3) by simp
qed

interpretation mb: call_refinement "mb_step k" mb_spec "mb_abs k" "mb_inv k" mb_fits
  for k :: "u32 \<times> u32"
proof
  fix bs c bs' r
  assume inv: "mb_inv k bs" and ok: "mb_fits c" and st: "mb_step k bs c = (bs', r)"
  obtain bid qid where k: "k = (bid, qid)" by fastforce
  from inv obtain q where q: "queue_at (bid, qid) bs = Some q" "queue_inv q" by (auto simp: mb_inv_def k)
  then have abs: "mb_abs k bs = queue_abs q" by (simp add: mb_abs_def k)
  show "mb_inv k bs' \<and> mb_spec (mb_abs k bs) c = (mb_abs k bs', r)"
  proof (cases c)
    case (MbSend v pr ok t t2)
    with send_sim [OF q] ok st abs k show ?thesis by (simp del: mb_step.simps mb_spec.simps)
  next
    case (MbReceive n t)
    with receive_sim [OF q] st abs k show ?thesis by (simp del: mb_step.simps mb_spec.simps)
  next
    case (MbPeek n)
    with peek_sim [OF q, of n] st inv abs k show ?thesis by (auto simp: queue_abs_def)
  next
    case MbDepth
    with st inv abs k read_queue [OF q(1), of 0 0 mq_message_count] show ?thesis
      by (auto simp: queue_abs_def mb_get_queue_depth_def)
  next
    case MbPurge
    with purge_sim [OF q] st abs k show ?thesis by (auto simp: queue_abs_def split: prod.splits)
  qed
qed

section \<open>Properties\<close>

text \<open>The queue just created is empty and well formed.\<close>

lemma created_queue:
  assumes "mb_create_queue bs bid name ty cap ok now = (bs', r)" and "r \<noteq> -1"
  shows "mb_inv (bid, of_int r) bs' \<and> mb_abs (bid, of_int r) bs' = ([], 0, unat cap)"
proof -
  from assms obtain i nm where i: "slot_of bid bs = Some i" "name = Some nm"
    by (cases name; cases "slot_of bid bs") (auto simp: mb_create_queue_def with_slot_def)
  let ?b = "bs ! i" and ?qid = "of_nat (length (mb_queues (bs ! i))) + 1 :: u32"
  from assms i have c: "0 < cap" "cap \<le> MAX_QUEUE_SIZE" "length (mb_queues ?b) < MAX_MESSAGE_QUEUES"
    by (auto simp: mb_create_queue_def with_slot_def word_gt_0 not_le split: if_splits prod.splits)
  from assms i obtain q where bs': "bs' = bs[i := ?b\<lparr>mb_queues := mb_queues ?b @ [q]\<rparr>]" and r: "r = sint ?qid"
    and q: "mq_messages q = replicate (unat cap) None" "mq_capacity q = cap" "mq_message_count q = 0"
      "mq_head q = 0" "mq_tail q = 0" "mq_total_messages q = 0"
    by (fastforce simp: mb_create_queue_def with_slot_def Let_def split: if_splits prod.splits)
  have len: "length (mb_queues ?b) < 4294967295" using c(3) by (simp add: MAX_MESSAGE_QUEUES_def)
  have "queue_at (bid, of_int r) bs' = Some q"
    using slot_get_snoc(1) [OF len, of ?qid q] i by (simp add: bs' r queue_at_def slot_get_update)
  moreover have "queue_inv q" using q c by (simp add: queue_inv_def live_messages_def)
  moreover have "queue_abs q = ([], 0, unat cap)"
    using q by (simp add: queue_abs_def queue_content_def live_messages_def)
  ultimately show ?thesis using mb_invI by metis
qed

text \<open>
  Claim C24. A message queue is a bounded FIFO, whatever its type: from its creation on, any
  history of sends (with or without a priority), receives, peeks, purges and depth queries gives
  exactly the replies of a list of at most \<open>capacity\<close> messages where sends append and receives
  take the oldest. In particular no call is undefined, a message comes out with the bytes and the
  identifier it was sent with, and the queue types LIFO and PRIORITY make no difference.
\<close>

theorem mb_queue_refines_fifo:
  assumes "mb_create_queue bs0 bid name ty cap ok now = (bs, r)" and "r \<noteq> -1" and "list_all mb_fits cs"
  shows "snd (call_run (mb_step (bid, of_int r)) bs cs) = snd (call_run mb_spec ([], 0, unat cap) cs) \<and>
    mb_abs (bid, of_int r) (fst (call_run (mb_step (bid, of_int r)) bs cs)) = fst (call_run mb_spec ([], 0, unat cap) cs)"
proof -
  from created_queue [OF assms(1,2)]
  have "mb_inv (bid, of_int r) bs" and e: "mb_abs (bid, of_int r) bs = ([], 0, unat cap)" by auto
  from mb.run_results(1,2) [OF this(1) assms(3)] show ?thesis unfolding e by blast
qed

definition mb_one_broker :: brokers where
  "mb_one_broker = fst (mb_create_broker [] (Some ''bus'') True)"

definition mb_one_queue :: brokers where
  "mb_one_queue = fst (mb_create_queue mb_one_broker 1 (Some ''jobs'') QUEUE_LIFO 2 True 100)"

theorem mb_queue_refines_fifo_witness:
  "snd (call_run (mb_step (1, 1)) mb_one_queue
     [MbSend [1] None True 0 0, MbSend [2] (Some 9) True 0 0, MbSend [3] None True 0 0, MbReceive 8 0,
      MbSend [4, 5] None True 0 0, MbPeek 0, MbReceive 8 0, MbReceive 8 0, MbReceive 8 0]) =
   [MbCode 1, MbCode 2, MbCode (-1), MbDelivery (1, Some [1], Some 1), MbCode 3,
    MbDelivery (-1, None, Some 0), MbDelivery (2, Some [2], Some 1), MbDelivery (3, Some [4, 5], Some 2),
    MbDelivery (0, None, Some 0)]"
proof -
  have "mb_create_queue mb_one_broker 1 (Some ''jobs'') QUEUE_LIFO 2 True 100 = (mb_one_queue, 1)"
    by (simp add: mb_one_queue_def mb_one_broker_def mb_create_broker_def mb_create_queue_def with_slot_def
        slot_of_def MAX_QUEUE_SIZE_def MAX_MESSAGE_QUEUES_def Let_def)
  from mb_queue_refines_fifo [OF this, of "[MbSend [1] None True 0 0, MbSend [2] (Some 9) True 0 0,
      MbSend [3] None True 0 0, MbReceive 8 0, MbSend [4, 5] None True 0 0, MbPeek 0, MbReceive 8 0, MbReceive 8 0, MbReceive 8 0]"]
  show ?thesis by (simp add: id_code_def)
qed

end
