(* ===== verification/Audit_Chain.thy ===== *)
theory Audit_Chain
  imports Service_Tables
begin

text \<open>
  The audit chain of \<open>src/services/blockchain_audit.c\<close>: audits, each a chain of blocks of
  transactions linked by a hash, compliance rules and queries. A new block keeps whatever hashes
  its slot of the array held before, so here the arrays of audits and of blocks are total
  functions from index to content, with their counts; the program starts with zeroed memory.
  Transactions of a block and rules are lists of live slots. Readings of the clock are arguments.

  The second half shows what the verification of a chain means: over any history it reports
  exactly the first block that was never mined.
\<close>

unbundle bit_operations_syntax

section \<open>Constants and data\<close>

definition MAX_AUDITS :: nat where "MAX_AUDITS = 16"
definition MAX_AUDIT_BLOCKS :: nat where "MAX_AUDIT_BLOCKS = 4096"
definition MAX_TRANSACTIONS_PER_BLOCK :: nat where "MAX_TRANSACTIONS_PER_BLOCK = 256"
definition MAX_EVENT_DATA :: nat where "MAX_EVENT_DATA = 512"
definition MAX_SIGNATURE_SIZE :: nat where "MAX_SIGNATURE_SIZE = 256"
definition MAX_AUDIT_RULES :: nat where "MAX_AUDIT_RULES = 128"

text \<open>\<open>sizeof(AuditTransaction)\<close> with 8-byte alignment: 28 bytes of numbers, 1024 of text, padding.\<close>

definition SIZEOF_TRANSACTION :: u64 where "SIZEOF_TRANSACTION = 1056"

datatype AuditEventType =
  EVENT_USER_LOGIN | EVENT_FILE_ACCESS | EVENT_FILE_MODIFY | EVENT_FILE_DELETE
  | EVENT_PERMISSION_CHANGE | EVENT_SYSTEM_CONFIG | EVENT_SECURITY_ALERT
  | EVENT_RESOURCE_ALLOCATION | EVENT_TRANSACTION | EVENT_DEPLOYMENT | EVENT_BACKUP

fun event_code :: "AuditEventType \<Rightarrow> nat" where
  "event_code EVENT_USER_LOGIN = 1" | "event_code EVENT_FILE_ACCESS = 2"
| "event_code EVENT_FILE_MODIFY = 3" | "event_code EVENT_FILE_DELETE = 4"
| "event_code EVENT_PERMISSION_CHANGE = 5" | "event_code EVENT_SYSTEM_CONFIG = 6"
| "event_code EVENT_SECURITY_ALERT = 7" | "event_code EVENT_RESOURCE_ALLOCATION = 8"
| "event_code EVENT_TRANSACTION = 9" | "event_code EVENT_DEPLOYMENT = 10"
| "event_code EVENT_BACKUP = 11"

datatype EventSeverity = SEVERITY_INFO | SEVERITY_WARNING | SEVERITY_CRITICAL | SEVERITY_COMPLIANCE

text \<open>Severities are compared as the numbers of the enumeration.\<close>

fun severity_code :: "EventSeverity \<Rightarrow> nat" where
  "severity_code SEVERITY_INFO = 1" | "severity_code SEVERITY_WARNING = 2"
| "severity_code SEVERITY_CRITICAL = 3" | "severity_code SEVERITY_COMPLIANCE = 4"

instantiation EventSeverity :: linorder
begin

definition less_eq_EventSeverity :: "EventSeverity \<Rightarrow> EventSeverity \<Rightarrow> bool" where
  "less_eq_EventSeverity a b \<longleftrightarrow> severity_code a \<le> severity_code b"

definition less_EventSeverity :: "EventSeverity \<Rightarrow> EventSeverity \<Rightarrow> bool" where
  "less_EventSeverity a b \<longleftrightarrow> severity_code a < severity_code b"

instance
proof
  show "a \<le> b \<Longrightarrow> b \<le> a \<Longrightarrow> a = b" for a b :: EventSeverity
    by (cases a; cases b) (simp_all add: less_eq_EventSeverity_def)
qed (auto simp: less_eq_EventSeverity_def less_EventSeverity_def)

end

record AuditTransaction =
  at_transaction_id :: u64
  at_timestamp :: u64
  at_user_id :: u32
  at_event_type :: AuditEventType
  at_severity :: EventSeverity
  at_event_data :: string
  at_user_action :: string
  at_resource :: string
  at_result :: string
  at_ip_address :: string

record AuditBlock =
  ab_block_id :: u32
  ab_timestamp :: u64
  ab_previous_hash :: string
  ab_merkle_root :: string
  ab_block_hash :: string
  ab_block_signature :: string
  ab_transactions :: "AuditTransaction list"
  ab_nonce :: u32
  ab_miner_id :: u32
  ab_difficulty :: u64

record ComplianceRule =
  cr_rule_id :: u32
  cr_event_type :: AuditEventType
  cr_min_severity :: EventSeverity
  cr_is_enabled :: bool
  cr_alert_on_violation :: bool

record BlockchainAudit =
  au_audit_id :: u32
  au_name :: string
  au_blocks :: "nat \<Rightarrow> AuditBlock"
  au_block_count :: nat
  au_rules :: "ComplianceRule list"
  au_mining_enabled :: bool
  au_verification_enabled :: bool
  au_total_events :: u64
  au_total_transactions :: u64
  au_compliance_violations :: u64
  au_bytes_stored :: u64

record AuditState =
  g_audits :: "nat \<Rightarrow> BlockchainAudit"
  g_audit_count :: nat
  g_transaction_id_counter :: u64

definition zero_block :: AuditBlock where
  "zero_block = \<lparr>ab_block_id = 0, ab_timestamp = 0, ab_previous_hash = [], ab_merkle_root = [],
     ab_block_hash = [], ab_block_signature = [], ab_transactions = [], ab_nonce = 0, ab_miner_id = 0,
     ab_difficulty = 0\<rparr>"

definition zero_audit :: BlockchainAudit where
  "zero_audit = \<lparr>au_audit_id = 0, au_name = [], au_blocks = (\<lambda>_. zero_block), au_block_count = 0, au_rules = [],
     au_mining_enabled = False, au_verification_enabled = False, au_total_events = 0,
     au_total_transactions = 0, au_compliance_violations = 0, au_bytes_stored = 0\<rparr>"

definition audit_initial :: AuditState where
  "audit_initial = \<lparr>g_audits = (\<lambda>_. zero_audit), g_audit_count = 0, g_transaction_id_counter = 1\<rparr>"

definition audit_of :: "AuditState \<Rightarrow> u32 \<Rightarrow> nat option" where
  "audit_of g audit_id = (if audit_id = 0 \<or> unat audit_id > g_audit_count g then None else Some (unat audit_id - 1))"

definition with_audit :: "'r \<Rightarrow> u32 \<Rightarrow> AuditState \<Rightarrow> (BlockchainAudit \<Rightarrow> BlockchainAudit \<times> 'r) \<Rightarrow> AuditState \<times> 'r" where
  "with_audit r audit_id g f =
     (case audit_of g audit_id of None \<Rightarrow> (g, r)
      | Some i \<Rightarrow> (let (a, x) = f (g_audits g i) in (g\<lparr>g_audits := (g_audits g)(i := a)\<rparr>, x)))"

definition read_audit :: "'r \<Rightarrow> u32 \<Rightarrow> AuditState \<Rightarrow> (BlockchainAudit \<Rightarrow> 'r) \<Rightarrow> 'r" where
  "read_audit r audit_id g f = (case audit_of g audit_id of None \<Rightarrow> r | Some i \<Rightarrow> f (g_audits g i))"

section \<open>The hash\<close>

text \<open>Hexadecimal digits: \<open>%lx\<close> without padding and \<open>%08x\<close> of a 32-bit number.\<close>

definition hex_digit :: "nat \<Rightarrow> char" where
  "hex_digit n = char_of (if n < 10 then 48 + n else 87 + n)"

fun hex_digits :: "nat \<Rightarrow> string" where
  "hex_digits n = (if n < 16 then [hex_digit n] else hex_digits (n div 16) @ [hex_digit (n mod 16)])"

declare hex_digits.simps [simp del]

definition hex8 :: "u32 \<Rightarrow> string" where
  "hex8 w = map (\<lambda>i. hex_digit (unat (drop_bit (4 * i) w) mod 16)) [7, 6, 5, 4, 3, 2, 1, 0]"

definition sum_step :: "u32 \<Rightarrow> char \<Rightarrow> u32" where
  "sum_step acc c = (acc * 31 + of_int (char_int c)) mod 0xFFFFFFFF"

definition compute_sha256 :: "string \<Rightarrow> string" where
  "compute_sha256 data =
     (let total = foldl sum_step 0 data;
          h0 = 0x6a09e667 XOR total;
          h1 = 0xbb67ae85 XOR push_bit 7 h0;
          h2 = 0x3c6ef372 XOR drop_bit 5 h1;
          h3 = 0xa54ff53a XOR push_bit 11 h2
      in take 63 (hex8 h0 @ hex8 h1 @ hex8 h2 @ hex8 h3))"

definition compute_merkle_root :: "AuditTransaction list \<Rightarrow> string" where
  "compute_merkle_root transactions =
     (if transactions = [] then ''0000000000000000''
      else compute_sha256 (concat (map (\<lambda>t. take 63 (hex_digits (unat (at_transaction_id t)))) (take 16 transactions))))"

text \<open>\<open>snprintf(block_data, 1023, "%u%lu%s%s", ...)\<close>.\<close>

definition block_data :: "AuditBlock \<Rightarrow> string" where
  "block_data b = take 1022 (dec_digits (unat (ab_block_id b)) @ dec_digits (unat (ab_timestamp b)) @
     ab_previous_hash b @ ab_merkle_root b)"

section \<open>Chains\<close>

definition audit_create_blockchain :: "AuditState \<Rightarrow> string option \<Rightarrow> AuditState \<times> int" where
  "audit_create_blockchain g name =
     (case name of None \<Rightarrow> (g, -1)
      | Some nm \<Rightarrow>
          if g_audit_count g \<ge> MAX_AUDITS then (g, -1)
          else let n = g_audit_count g; aid = of_nat n + 1 :: u32
               in (g\<lparr>g_audits := (g_audits g)(n := (g_audits g n)\<lparr>au_audit_id := aid, au_name := take 63 nm,
                       au_block_count := 0, au_rules := [], au_mining_enabled := True,
                       au_verification_enabled := True, au_total_events := 0, au_total_transactions := 0,
                       au_compliance_violations := 0, au_bytes_stored := 0\<rparr>),
                     g_audit_count := n + 1\<rparr>, sint aid))"

fun shift_audits :: "nat \<Rightarrow> nat \<Rightarrow> (nat \<Rightarrow> BlockchainAudit) \<Rightarrow> nat \<Rightarrow> BlockchainAudit" where
  "shift_audits i 0 as = as"
| "shift_audits i (Suc n) as = shift_audits (Suc i) n (as(i := as (Suc i)))"

text \<open>The copying loop runs from the deleted slot to the last but one.\<close>

definition audit_delete_blockchain :: "AuditState \<Rightarrow> u32 \<Rightarrow> AuditState \<times> int" where
  "audit_delete_blockchain g audit_id =
     (case audit_of g audit_id of None \<Rightarrow> (g, -1)
      | Some i \<Rightarrow> (g\<lparr>g_audits := shift_audits i (g_audit_count g - 1 - i) (g_audits g),
                     g_audit_count := g_audit_count g - 1\<rparr>, 0))"

text \<open>
  Both operations that add a transaction open a new block when there is none or the last one is
  full; \<open>None\<close>: the chain is full. The slot of the new block keeps its old root and hashes.
\<close>

definition open_block :: "BlockchainAudit \<Rightarrow> time_t \<Rightarrow> BlockchainAudit option" where
  "open_block a now =
     (let n = au_block_count a in
      if n = 0 \<or> length (ab_transactions (au_blocks a (n - 1))) \<ge> MAX_TRANSACTIONS_PER_BLOCK
      then if n \<ge> MAX_AUDIT_BLOCKS then None
           else Some (a\<lparr>au_blocks := (au_blocks a)(n := (au_blocks a n)\<lparr>ab_block_id := of_nat n + 1,
                  ab_timestamp := of_int now, ab_transactions := [], ab_nonce := 0, ab_miner_id := 0,
                  ab_difficulty := 1000,
                  ab_previous_hash := (if n = 0 then ''genesis'' else ab_block_hash (au_blocks a (n - 1)))\<rparr>),
                au_block_count := n + 1\<rparr>)
      else Some a)"

definition append_tx :: "AuditTransaction \<Rightarrow> BlockchainAudit \<Rightarrow> BlockchainAudit" where
  "append_tx tx a =
     (let i = au_block_count a - 1; b = au_blocks a i
      in a\<lparr>au_blocks := (au_blocks a)(i := b\<lparr>ab_transactions := ab_transactions b @ [tx]\<rparr>)\<rparr>)"

definition make_event ::
    "u64 \<Rightarrow> u32 \<Rightarrow> AuditEventType \<Rightarrow> EventSeverity \<Rightarrow> string \<Rightarrow> string \<Rightarrow> string option \<Rightarrow> time_t \<Rightarrow> AuditTransaction" where
  "make_event tx_id user_id event_type severity event_data resource ip_address now =
     \<lparr>at_transaction_id = tx_id, at_timestamp = of_int now, at_user_id = user_id,
      at_event_type = event_type, at_severity = severity,
      at_event_data = take (MAX_EVENT_DATA - 1) event_data,
      at_user_action = take 126 (''action_'' @ dec_digits (event_code event_type)),
      at_resource = take 255 resource, at_result = ''success'',
      at_ip_address = take 63 (case ip_address of None \<Rightarrow> ''0.0.0.0'' | Some ip \<Rightarrow> ip)\<rparr>"

definition audit_add_event ::
    "AuditState \<Rightarrow> u32 \<Rightarrow> u32 \<Rightarrow> AuditEventType \<Rightarrow> EventSeverity \<Rightarrow> string option \<Rightarrow> string option \<Rightarrow>
     string option \<Rightarrow> time_t \<Rightarrow> time_t \<Rightarrow> AuditState \<times> int" where
  "audit_add_event g audit_id user_id event_type severity event_data resource ip_address now now2 =
     (case (event_data, resource, audit_of g audit_id) of
        (Some data, Some res, Some i) \<Rightarrow>
          (case open_block (g_audits g i) now of None \<Rightarrow> (g, -1)
           | Some a \<Rightarrow>
               let tx = make_event (g_transaction_id_counter g) user_id event_type severity data res ip_address now2;
                   a' = (append_tx tx a)\<lparr>au_total_events := au_total_events a + 1,
                     au_total_transactions := au_total_transactions a + 1,
                     au_bytes_stored := au_bytes_stored a + SIZEOF_TRANSACTION\<rparr>
               in (g\<lparr>g_audits := (g_audits g)(i := a'),
                     g_transaction_id_counter := g_transaction_id_counter g + 1\<rparr>, 0))
      | _ \<Rightarrow> (g, -1))"

text \<open>The caller's transaction gets the identifier and the time; the copy stored is the third result.\<close>

definition audit_add_transaction ::
    "AuditState \<Rightarrow> u32 \<Rightarrow> AuditTransaction option \<Rightarrow> time_t \<Rightarrow> time_t \<Rightarrow>
     AuditState \<times> int \<times> AuditTransaction option" where
  "audit_add_transaction g audit_id transaction now now2 =
     (case (transaction, audit_of g audit_id) of
        (Some t, Some i) \<Rightarrow>
          (case open_block (g_audits g i) now of None \<Rightarrow> (g, -1, transaction)
           | Some a \<Rightarrow>
               let tx = t\<lparr>at_transaction_id := g_transaction_id_counter g, at_timestamp := of_int now2\<rparr>;
                   a' = (append_tx tx a)\<lparr>au_total_transactions := au_total_transactions a + 1\<rparr>
               in (g\<lparr>g_audits := (g_audits g)(i := a'),
                     g_transaction_id_counter := g_transaction_id_counter g + 1\<rparr>, 0, Some tx))
      | _ \<Rightarrow> (g, -1, transaction))"

section \<open>Mining and verification\<close>

definition seal_block :: "AuditBlock \<Rightarrow> AuditBlock" where
  "seal_block b =
     (let b1 = b\<lparr>ab_merkle_root := compute_merkle_root (ab_transactions b)\<rparr>;
          b2 = b1\<lparr>ab_block_hash := compute_sha256 (block_data b1)\<rparr>
      in b2\<lparr>ab_block_signature := take (MAX_SIGNATURE_SIZE - 2) (''sig_'' @ ab_block_hash b2)\<rparr>)"

definition audit_mine_block :: "AuditState \<Rightarrow> u32 \<Rightarrow> AuditState \<times> int" where
  "audit_mine_block g audit_id = with_audit (-1) audit_id g (\<lambda>a.
     if au_block_count a = 0 \<or> \<not> au_mining_enabled a then (a, -1)
     else let i = au_block_count a - 1
          in (a\<lparr>au_blocks := (au_blocks a)(i := seal_block (au_blocks a i))\<rparr>, 0))"

definition verify_block :: "BlockchainAudit \<Rightarrow> u32 \<Rightarrow> int" where
  "verify_block a block_id =
     (if block_id = 0 \<or> unat block_id > au_block_count a then -1
      else let b = au_blocks a (unat block_id - 1) in
      if compute_sha256 (block_data b) \<noteq> ab_block_hash b then -1
      else if block_id > 1 \<and> ab_block_hash (au_blocks a (unat block_id - 2)) \<noteq> ab_previous_hash b then -1
      else 0)"

definition audit_verify_block :: "AuditState \<Rightarrow> u32 \<Rightarrow> u32 \<Rightarrow> int" where
  "audit_verify_block g audit_id block_id = read_audit (-1) audit_id g (\<lambda>a. verify_block a block_id)"

text \<open>The loop of the chain verification: \<open>n\<close> blocks are left, \<open>i\<close> is the next index.\<close>

fun verify_loop :: "(u32 \<Rightarrow> int) \<Rightarrow> nat \<Rightarrow> u32 \<Rightarrow> int" where
  "verify_loop ver 0 i = 0"
| "verify_loop ver (Suc n) i = (if ver (i + 1) \<noteq> 0 then sint (i + 1) else verify_loop ver n (i + 1))"

definition audit_verify_chain_integrity :: "AuditState \<Rightarrow> u32 \<Rightarrow> int" where
  "audit_verify_chain_integrity g audit_id = read_audit (-1) audit_id g (\<lambda>a.
     verify_loop (audit_verify_block g audit_id) (au_block_count a) 0)"

text \<open>The numbers of the failing blocks, as many as the caller's array holds.\<close>

definition audit_detect_tampering ::
    "AuditState \<Rightarrow> u32 \<Rightarrow> bool \<Rightarrow> u32 option \<Rightarrow> int \<times> u32 list option" where
  "audit_detect_tampering g audit_id tampered_block_ids count =
     (case count of None \<Rightarrow> (-1, None)
      | Some n \<Rightarrow>
          if \<not> tampered_block_ids then (-1, None)
          else read_audit (-1, None) audit_id g (\<lambda>a.
            (0, Some (foldl (\<lambda>out i. let k = of_nat i + 1 :: u32 in
                  if audit_verify_block g audit_id k \<noteq> 0 \<and> length out < unat n then out @ [k] else out)
                [] [0..<au_block_count a]))))"

section \<open>Compliance rules\<close>

definition audit_add_compliance_rule ::
    "AuditState \<Rightarrow> u32 \<Rightarrow> AuditEventType \<Rightarrow> EventSeverity \<Rightarrow> AuditState \<times> int" where
  "audit_add_compliance_rule g audit_id event_type severity = with_audit (-1) audit_id g (\<lambda>a.
     if length (au_rules a) \<ge> MAX_AUDIT_RULES then (a, -1)
     else let rid = of_nat (length (au_rules a)) + 1
          in (a\<lparr>au_rules := au_rules a @ [\<lparr>cr_rule_id = rid, cr_event_type = event_type,
                cr_min_severity = severity, cr_is_enabled = True, cr_alert_on_violation = True\<rparr>]\<rparr>, sint rid))"

definition audit_remove_compliance_rule :: "AuditState \<Rightarrow> u32 \<Rightarrow> u32 \<Rightarrow> AuditState \<times> int" where
  "audit_remove_compliance_rule g audit_id rule_id = with_audit (-1) audit_id g (\<lambda>a.
     let rs = au_rules a in
     case first_idx (\<lambda>r. cr_rule_id r = rule_id) rs of None \<Rightarrow> (a, -1)
     | Some i \<Rightarrow> (a\<lparr>au_rules := take (length rs - 1) (shift_down i (length rs) rs)\<rparr>, 0))"

definition violates :: "AuditTransaction \<Rightarrow> ComplianceRule \<Rightarrow> bool" where
  "violates tx rule \<longleftrightarrow> cr_is_enabled rule \<and> cr_event_type rule = at_event_type tx \<and>
     at_severity tx < cr_min_severity rule"

fun rule_loop :: "AuditTransaction \<Rightarrow> ComplianceRule list \<Rightarrow> u64 \<Rightarrow> u64" where
  "rule_loop tx [] violations = violations"
| "rule_loop tx (r # rs) violations = rule_loop tx rs (if violates tx r then violations + 1 else violations)"

fun tx_loop :: "AuditTransaction list \<Rightarrow> ComplianceRule list \<Rightarrow> u64 \<Rightarrow> u64" where
  "tx_loop [] rs violations = violations"
| "tx_loop (t # ts) rs violations = tx_loop ts rs (rule_loop t rs violations)"

fun block_loop :: "AuditBlock list \<Rightarrow> ComplianceRule list \<Rightarrow> u64 \<Rightarrow> u64" where
  "block_loop [] rs violations = violations"
| "block_loop (b # bs) rs violations = block_loop bs rs (tx_loop (ab_transactions b) rs violations)"

definition chain_blocks :: "BlockchainAudit \<Rightarrow> AuditBlock list" where
  "chain_blocks a = map (au_blocks a) [0..<au_block_count a]"

definition audit_check_compliance :: "AuditState \<Rightarrow> u32 \<Rightarrow> AuditState \<times> int" where
  "audit_check_compliance g audit_id = with_audit (-1) audit_id g (\<lambda>a.
     let violations = block_loop (chain_blocks a) (au_rules a) 0
     in (a\<lparr>au_compliance_violations := violations\<rparr>, if violations > 0 then 1 else 0))"

section \<open>Queries\<close>

text \<open>
  The three queries run the same nested loops with a different test: the inner loop ends when the
  output array is full.
\<close>

fun query_block :: "(AuditTransaction \<Rightarrow> bool) \<Rightarrow> nat \<Rightarrow> AuditTransaction list \<Rightarrow> AuditTransaction list \<Rightarrow> AuditTransaction list" where
  "query_block P n out [] = out"
| "query_block P n out (t # ts) =
     (if length out < n then query_block P n (if P t then out @ [t] else out) ts else out)"

definition query_chain :: "(AuditTransaction \<Rightarrow> bool) \<Rightarrow> nat \<Rightarrow> BlockchainAudit \<Rightarrow> AuditTransaction list" where
  "query_chain P n a = foldl (\<lambda>out b. query_block P n out (ab_transactions b)) [] (chain_blocks a)"

definition audit_query_events ::
    "AuditState \<Rightarrow> u32 \<Rightarrow> AuditEventType \<Rightarrow> bool \<Rightarrow> u32 option \<Rightarrow> int \<times> AuditTransaction list option" where
  "audit_query_events g audit_id event_type events count =
     (case count of None \<Rightarrow> (-1, None)
      | Some n \<Rightarrow>
          if \<not> events then (-1, None)
          else read_audit (-1, None) audit_id g (\<lambda>a.
            (0, Some (query_chain (\<lambda>t. at_event_type t = event_type) (unat n) a))))"

definition audit_query_by_user ::
    "AuditState \<Rightarrow> u32 \<Rightarrow> u32 \<Rightarrow> bool \<Rightarrow> u32 option \<Rightarrow> int \<times> AuditTransaction list option" where
  "audit_query_by_user g audit_id user_id events count =
     (case count of None \<Rightarrow> (-1, None)
      | Some n \<Rightarrow>
          if \<not> events then (-1, None)
          else read_audit (-1, None) audit_id g (\<lambda>a.
            (0, Some (query_chain (\<lambda>t. at_user_id t = user_id) (unat n) a))))"

definition audit_query_by_resource ::
    "AuditState \<Rightarrow> u32 \<Rightarrow> string option \<Rightarrow> bool \<Rightarrow> u32 option \<Rightarrow> int \<times> AuditTransaction list option" where
  "audit_query_by_resource g audit_id resource events count =
     (case (resource, count) of
        (Some res, Some n) \<Rightarrow>
          if \<not> events then (-1, None)
          else read_audit (-1, None) audit_id g (\<lambda>a.
            (0, Some (query_chain (\<lambda>t. take 255 (at_resource t) = take 255 res) (unat n) a)))
      | _ \<Rightarrow> (-1, None))"

definition audit_get_block :: "AuditState \<Rightarrow> u32 \<Rightarrow> u32 \<Rightarrow> bool \<Rightarrow> int \<times> AuditBlock option" where
  "audit_get_block g audit_id block_id block =
     (if \<not> block then (-1, None)
      else read_audit (-1, None) audit_id g (\<lambda>a.
        if block_id = 0 \<or> unat block_id > au_block_count a then (-1, None)
        else (0, Some (au_blocks a (unat block_id - 1)))))"

definition audit_get_block_by_hash ::
    "AuditState \<Rightarrow> u32 \<Rightarrow> string option \<Rightarrow> bool \<Rightarrow> int \<times> AuditBlock option" where
  "audit_get_block_by_hash g audit_id block_hash block =
     (case block_hash of None \<Rightarrow> (-1, None)
      | Some h \<Rightarrow>
          if \<not> block then (-1, None)
          else read_audit (-1, None) audit_id g (\<lambda>a.
            case first_idx (\<lambda>b. ab_block_hash b = h) (chain_blocks a) of None \<Rightarrow> (-1, None)
            | Some i \<Rightarrow> (0, Some (au_blocks a i))))"

definition audit_get_chain_history ::
    "AuditState \<Rightarrow> u32 \<Rightarrow> bool \<Rightarrow> u32 option \<Rightarrow> int \<times> AuditBlock list option" where
  "audit_get_chain_history g audit_id blocks count =
     (case count of None \<Rightarrow> (-1, None)
      | Some n \<Rightarrow>
          if \<not> blocks then (-1, None)
          else read_audit (-1, None) audit_id g (\<lambda>a.
            if au_block_count a > unat n then (-1, None) else (0, Some (chain_blocks a))))"

definition audit_export_chain :: "AuditState \<Rightarrow> u32 \<Rightarrow> string option \<Rightarrow> int" where
  "audit_export_chain g audit_id format =
     (case format of None \<Rightarrow> -1 | Some f \<Rightarrow> read_audit (-1) audit_id g (\<lambda>a. 0))"

definition audit_generate_compliance_report :: "AuditState \<Rightarrow> u32 \<Rightarrow> string option \<Rightarrow> int" where
  "audit_generate_compliance_report g audit_id output_path =
     (case output_path of None \<Rightarrow> -1 | Some f \<Rightarrow> read_audit (-1) audit_id g (\<lambda>a. 0))"

definition audit_get_event_count :: "AuditState \<Rightarrow> u32 \<Rightarrow> u64" where
  "audit_get_event_count g audit_id = read_audit 0 audit_id g au_total_events"

definition audit_get_compliance_violations :: "AuditState \<Rightarrow> u32 \<Rightarrow> u64" where
  "audit_get_compliance_violations g audit_id = read_audit 0 audit_id g au_compliance_violations"

definition audit_get_chain_size :: "AuditState \<Rightarrow> u32 \<Rightarrow> u64" where
  "audit_get_chain_size g audit_id = read_audit 0 audit_id g au_bytes_stored"

definition audit_get_blockchain_info :: "AuditState \<Rightarrow> u32 \<Rightarrow> nat option" where
  "audit_get_blockchain_info g audit_id = audit_of g audit_id"

section \<open>What verification means\<close>

text \<open>
  The abstract chain: for each block whether it was mined, and the number of transactions in the
  last block.
\<close>

type_synonym chain_model = "bool list \<times> nat"

datatype audit_call =
  AuEvent u32 AuditEventType EventSeverity string string "string option" time_t time_t
  | AuTransaction AuditTransaction time_t time_t
  | AuMine | AuVerifyBlock u32 | AuVerifyChain

fun audit_step :: "u32 \<Rightarrow> AuditState \<Rightarrow> audit_call \<Rightarrow> AuditState \<times> int" where
  "audit_step aid g (AuEvent u et sev data res ip t t2) =
     audit_add_event g aid u et sev (Some data) (Some res) ip t t2"
| "audit_step aid g (AuTransaction tx t t2) =
     (let (g', r, tx') = audit_add_transaction g aid (Some tx) t t2 in (g', r))"
| "audit_step aid g AuMine = audit_mine_block g aid"
| "audit_step aid g (AuVerifyBlock k) = (g, audit_verify_block g aid k)"
| "audit_step aid g AuVerifyChain = (g, audit_verify_chain_integrity g aid)"

fun spec_add :: "chain_model \<Rightarrow> chain_model \<times> int" where
  "spec_add (mined, n) =
     (if mined = [] \<or> 256 \<le> n
      then if length mined \<ge> 4096 then ((mined, n), -1) else ((mined @ [False], 1), 0)
      else ((mined, Suc n), 0))"

fun audit_spec :: "chain_model \<Rightarrow> audit_call \<Rightarrow> chain_model \<times> int" where
  "audit_spec m (AuEvent u et sev data res ip t t2) = spec_add m"
| "audit_spec m (AuTransaction tx t t2) = spec_add m"
| "audit_spec (mined, n) AuMine =
     (if mined = [] then ((mined, n), -1) else ((butlast mined @ [True], n), 0))"
| "audit_spec (mined, n) (AuVerifyBlock k) =
     ((mined, n), if slot_get k mined = Some True then 0 else -1)"
| "audit_spec (mined, n) AuVerifyChain =
     ((mined, n), case first_idx Not mined of None \<Rightarrow> 0 | Some i \<Rightarrow> int i + 1)"

definition is_mined :: "AuditBlock \<Rightarrow> bool" where
  "is_mined b \<longleftrightarrow> ab_block_hash b \<noteq> []"

definition chain_abs :: "BlockchainAudit \<Rightarrow> chain_model" where
  "chain_abs a = (map is_mined (chain_blocks a),
     if au_block_count a = 0 then 0 else length (ab_transactions (au_blocks a (au_block_count a - 1))))"

definition sealed :: "AuditBlock \<Rightarrow> bool" where
  "sealed b \<longleftrightarrow> (is_mined b \<longrightarrow> ab_block_hash b = compute_sha256 (block_data b))"

definition chain_inv :: "BlockchainAudit \<Rightarrow> bool" where
  "chain_inv a \<longleftrightarrow> au_mining_enabled a \<and> au_block_count a \<le> MAX_AUDIT_BLOCKS \<and>
     (\<forall>i<au_block_count a. sealed (au_blocks a i)) \<and>
     (\<forall>i. 0 < i \<longrightarrow> i < au_block_count a \<longrightarrow> ab_previous_hash (au_blocks a i) = ab_block_hash (au_blocks a (i - 1))) \<and>
     (\<forall>i\<ge>au_block_count a. \<not> is_mined (au_blocks a i))"

definition audit_at :: "u32 \<Rightarrow> AuditState \<Rightarrow> BlockchainAudit option" where
  "audit_at aid g = map_option (g_audits g) (audit_of g aid)"

definition audit_inv :: "u32 \<Rightarrow> AuditState \<Rightarrow> bool" where
  "audit_inv aid g \<longleftrightarrow> (\<exists>a. audit_at aid g = Some a \<and> chain_inv a)"

definition audit_abs :: "u32 \<Rightarrow> AuditState \<Rightarrow> chain_model" where
  "audit_abs aid g = (case audit_at aid g of None \<Rightarrow> ([], 0) | Some a \<Rightarrow> chain_abs a)"

lemma sha_nonempty: "compute_sha256 d \<noteq> []"
  by (simp add: compute_sha256_def hex8_def Let_def)

lemma block_data_seal: "block_data (seal_block b) = block_data (b\<lparr>ab_merkle_root := compute_merkle_root (ab_transactions b)\<rparr>)"
  by (simp add: seal_block_def block_data_def Let_def)

lemma seal_block_sealed: "sealed (seal_block b)" "is_mined (seal_block b)"
  "ab_previous_hash (seal_block b) = ab_previous_hash b" "ab_transactions (seal_block b) = ab_transactions b"
proof -
  have "ab_block_hash (seal_block b) = compute_sha256 (block_data (seal_block b))"
    unfolding block_data_seal by (simp add: seal_block_def Let_def)
  then show "sealed (seal_block b)" "is_mined (seal_block b)" by (simp_all add: sealed_def is_mined_def sha_nonempty)
qed (simp_all add: seal_block_def Let_def)

lemma add_tx_sealed:
  "sealed (b\<lparr>ab_transactions := ts\<rparr>) = sealed b" "is_mined (b\<lparr>ab_transactions := ts\<rparr>) = is_mined b"
  by (simp_all add: sealed_def is_mined_def block_data_def)

lemma verify_block_mined:
  assumes "chain_inv a"
  shows "verify_block a k = (if slot_get k (map is_mined (chain_blocks a)) = Some True then 0 else -1)"
proof (cases "slot_of k (chain_blocks a)")
  case None
  then have "k = 0 \<or> unat k > au_block_count a" by (auto simp: slot_of_def chain_blocks_def split: if_splits)
  then show ?thesis by (auto simp: verify_block_def slot_get_def slot_of_def chain_blocks_def)
next
  case (Some i)
  then have i: "i < au_block_count a" "unat k = Suc i" by (auto simp: slot_of_Some chain_blocks_def)
  then have k: "k \<noteq> 0" "1 < k \<longleftrightarrow> 0 < i" by (auto simp: word_less_nat_alt)
  have "slot_get k (map is_mined (chain_blocks a)) = Some (is_mined (au_blocks a i))"
    using i k by (simp add: slot_get_def slot_of_def chain_blocks_def)
  moreover have "sealed (au_blocks a i)" using assms i by (simp add: chain_inv_def)
  moreover have "0 < i \<Longrightarrow> ab_previous_hash (au_blocks a i) = ab_block_hash (au_blocks a (i - 1))"
    using assms i by (simp add: chain_inv_def)
  ultimately show ?thesis
    using i k sha_nonempty [of "block_data (au_blocks a i)"]
    by (auto simp: verify_block_def sealed_def is_mined_def Let_def)
qed

lemma verify_loop_first:
  assumes "\<And>j. j < n \<Longrightarrow> ver (of_nat (k + j) + 1) = (if fs ! j then 0 else -1)"
    and "length fs = n" and "k + n \<le> 4096"
  shows "verify_loop ver n (of_nat k) = (case first_idx Not fs of None \<Rightarrow> 0 | Some i \<Rightarrow> int (k + i) + 1)"
  using assms
proof (induction n arbitrary: k fs)
  case 0
  then show ?case by simp
next
  case (Suc n)
  obtain f gs where fs: "fs = f # gs" using Suc.prems(2) by (cases fs) auto
  have v: "ver (of_nat k + 1) = (if f then 0 else -1)" using Suc.prems(1) [of 0] fs by simp
  have IH: "verify_loop ver n (of_nat (Suc k)) = (case first_idx Not gs of None \<Rightarrow> 0 | Some i \<Rightarrow> int (Suc k + i) + 1)"
  proof (rule Suc.IH)
    show "ver (of_nat (Suc k + j) + 1) = (if gs ! j then 0 else -1)" if "j < n" for j
      using Suc.prems(1) [of "Suc j"] that fs by (simp add: ac_simps)
  qed (use Suc.prems fs in auto)
  have "(of_nat k + 1 :: u32) = of_nat (Suc k)" by simp
  moreover have "sint (of_nat (Suc k) :: u32) = int (Suc k)"
  proof -
    have "unat (of_nat (Suc k) :: u32) = Suc k" using Suc.prems(3) by (intro unat_of_nat_u32) simp
    then have "uint (of_nat (Suc k) :: u32) = int (Suc k)" by (metis int_nat_eq uint_nat unsigned_greater_eq)
    moreover have "(of_nat (Suc k) :: u32) < 2147483648"
      using \<open>unat (of_nat (Suc k) :: u32) = Suc k\<close> Suc.prems(3) by (simp add: word_less_nat_alt)
    ultimately show ?thesis by (simp add: sint_small)
  qed
  ultimately show ?case using v IH fs by (auto simp del: of_nat_Suc split: option.split)
qed

lemma chain_blocks_update:
  "i < au_block_count a \<Longrightarrow> map f (chain_blocks (a\<lparr>au_blocks := (au_blocks a)(i := b)\<rparr>)) = (map f (chain_blocks a))[i := f b]"
  by (rule nth_equalityI) (auto simp: chain_blocks_def nth_list_update)

lemma chain_abs_empty: "fst (chain_abs a) = [] \<longleftrightarrow> au_block_count a = 0"
  by (simp add: chain_abs_def chain_blocks_def)

text \<open>Replacing the last block by one with the same previous hash that is sealed.\<close>

lemma replace_last_inv:
  assumes "chain_inv a" and "0 < au_block_count a" and "sealed b"
    and "ab_previous_hash b = ab_previous_hash (au_blocks a (au_block_count a - 1))"
  shows "chain_inv (a\<lparr>au_blocks := (au_blocks a)(au_block_count a - 1 := b)\<rparr>)"
  using assms by (auto simp: chain_inv_def)

lemma update_last: "xs \<noteq> [] \<Longrightarrow> xs[length xs - 1 := v] = butlast xs @ [v]"
  by (cases xs rule: rev_cases) auto

lemma replace_last_abs:
  assumes "0 < au_block_count a"
  shows "chain_abs (a\<lparr>au_blocks := (au_blocks a)(au_block_count a - 1 := b)\<rparr>) =
    (butlast (fst (chain_abs a)) @ [is_mined b], length (ab_transactions b))"
proof -
  let ?n = "au_block_count a - 1" and ?l = "map is_mined (chain_blocks a)"
  have "?l \<noteq> []" and n: "length ?l - 1 = ?n" using assms by (auto simp: chain_blocks_def)
  then have "?l[?n := is_mined b] = butlast ?l @ [is_mined b]" using update_last [of ?l] by simp
  then show ?thesis using assms by (simp add: chain_abs_def chain_blocks_update)
qed

lemma last_mined:
  assumes "0 < au_block_count a"
  shows "fst (chain_abs a) = butlast (fst (chain_abs a)) @ [is_mined (au_blocks a (au_block_count a - 1))]"
proof -
  have "fst (chain_abs a) \<noteq> []" using assms by (simp add: chain_abs_def chain_blocks_def)
  moreover have "last (fst (chain_abs a)) = is_mined (au_blocks a (au_block_count a - 1))"
    using assms by (simp add: chain_abs_def chain_blocks_def last_map last_upt)
  ultimately show ?thesis using append_butlast_last_id [of "fst (chain_abs a)"] by simp
qed

lemma append_tx_spec:
  assumes "chain_inv a" and "0 < au_block_count a"
  shows "chain_inv (append_tx tx a)" and "chain_abs (append_tx tx a) = (fst (chain_abs a), Suc (snd (chain_abs a)))"
proof -
  let ?b = "au_blocks a (au_block_count a - 1)"
  have "sealed ?b" using assms by (simp add: chain_inv_def)
  then show "chain_inv (append_tx tx a)"
    unfolding append_tx_def Let_def by (intro replace_last_inv assms) (simp_all add: add_tx_sealed)
  show "chain_abs (append_tx tx a) = (fst (chain_abs a), Suc (snd (chain_abs a)))"
    unfolding append_tx_def Let_def replace_last_abs [OF assms(2)] add_tx_sealed
    using last_mined [OF assms(2)] assms(2) by (simp add: chain_abs_def)
qed

lemma open_block_spec:
  assumes "chain_inv a"
  shows "case open_block a t of
      None \<Rightarrow> spec_add (chain_abs a) = (chain_abs a, -1)
    | Some a' \<Rightarrow> chain_inv a' \<and> 0 < au_block_count a' \<and>
        spec_add (chain_abs a) = ((fst (chain_abs a'), Suc (snd (chain_abs a'))), 0)"
proof -
  let ?n = "au_block_count a"
  have fresh: "\<not> is_mined (au_blocks a ?n)" using assms by (simp add: chain_inv_def)
  have len: "length (fst (chain_abs a)) = ?n" by (simp add: chain_abs_def chain_blocks_def)
  show ?thesis
  proof (cases "?n = 0 \<or> length (ab_transactions (au_blocks a (?n - 1))) \<ge> MAX_TRANSACTIONS_PER_BLOCK")
    case False
    then have "open_block a t = Some a" by (simp add: open_block_def Let_def)
    with False assms chain_abs_empty [of a] show ?thesis
      by (simp add: chain_abs_def MAX_TRANSACTIONS_PER_BLOCK_def)
  next
    case full: True
    then have add: "spec_add (chain_abs a) =
        (if ?n \<ge> 4096 then (chain_abs a, -1) else ((fst (chain_abs a) @ [False], 1), 0))"
      using chain_abs_empty [of a] len by (cases "chain_abs a") (auto simp: chain_abs_def MAX_TRANSACTIONS_PER_BLOCK_def)
    show ?thesis
    proof (cases "?n \<ge> MAX_AUDIT_BLOCKS")
      case True
      with full add show ?thesis by (simp add: open_block_def Let_def MAX_AUDIT_BLOCKS_def)
    next
      case False
      define b where "b = (au_blocks a ?n)\<lparr>ab_block_id := of_nat ?n + 1, ab_timestamp := of_int t,
        ab_transactions := [], ab_nonce := 0, ab_miner_id := 0, ab_difficulty := 1000,
        ab_previous_hash := (if ?n = 0 then ''genesis'' else ab_block_hash (au_blocks a (?n - 1)))\<rparr>"
      let ?a = "a\<lparr>au_blocks := (au_blocks a)(?n := b), au_block_count := ?n + 1\<rparr>"
      have o: "open_block a t = Some ?a" using full False by (auto simp: open_block_def Let_def b_def)
      have b: "\<not> is_mined b" "ab_transactions b = []" "0 < ?n \<Longrightarrow> ab_previous_hash b = ab_block_hash (au_blocks a (?n - 1))"
        using fresh by (simp_all add: b_def is_mined_def)
      have "chain_inv ?a"
        using assms False b by (auto simp: chain_inv_def sealed_def less_Suc_eq)
      moreover have "chain_abs ?a = (fst (chain_abs a) @ [False], 0)"
        using b by (simp add: chain_abs_def chain_blocks_def)
      ultimately show ?thesis using o add False by (simp add: MAX_AUDIT_BLOCKS_def)
    qed
  qed
qed

lemma chain_counters [simp]:
  "chain_inv (a\<lparr>au_total_events := x\<rparr>) = chain_inv a" "chain_abs (a\<lparr>au_total_events := x\<rparr>) = chain_abs a"
  "chain_inv (a\<lparr>au_total_transactions := x\<rparr>) = chain_inv a" "chain_abs (a\<lparr>au_total_transactions := x\<rparr>) = chain_abs a"
  "chain_inv (a\<lparr>au_bytes_stored := x\<rparr>) = chain_inv a" "chain_abs (a\<lparr>au_bytes_stored := x\<rparr>) = chain_abs a"
  by (simp_all add: chain_inv_def chain_abs_def chain_blocks_def)

lemma audit_at_update:
  "audit_of g aid = Some i \<Longrightarrow> g_audits g' = (g_audits g)(i := a) \<Longrightarrow> g_audit_count g' = g_audit_count g \<Longrightarrow>
   audit_at aid g' = Some a"
  by (auto simp: audit_at_def audit_of_def split: if_splits)

lemma audit_invI: "audit_at aid g = Some a \<Longrightarrow> chain_inv a \<Longrightarrow> audit_inv aid g \<and> audit_abs aid g = chain_abs a"
  by (simp add: audit_inv_def audit_abs_def)

text \<open>Both operations that add a transaction end like this.\<close>

lemma add_sim:
  assumes "audit_of g aid = Some i" and "chain_inv (g_audits g i)"
    and "open_block (g_audits g i) t = Some a" and "chain_inv a' = chain_inv (append_tx tx a)"
    and "chain_abs a' = chain_abs (append_tx tx a)"
    and "g_audits g' = (g_audits g)(i := a')" and "g_audit_count g' = g_audit_count g"
  shows "audit_inv aid g' \<and> spec_add (chain_abs (g_audits g i)) = (audit_abs aid g', 0)"
proof -
  from open_block_spec [OF assms(2), of t] assms(3) have a: "chain_inv a" "0 < au_block_count a"
    "spec_add (chain_abs (g_audits g i)) = ((fst (chain_abs a), Suc (snd (chain_abs a))), 0)" by auto
  have "audit_inv aid g' \<and> audit_abs aid g' = chain_abs a'"
    using audit_at_update [OF assms(1,6,7)] assms(4) append_tx_spec(1) [OF a(1,2)] by (intro audit_invI) simp_all
  with a(3) append_tx_spec(2) [OF a(1,2)] assms(5) show ?thesis by simp
qed

lemma event_sim:
  assumes "audit_of g aid = Some i" and "chain_inv (g_audits g i)" and "audit_abs aid g = chain_abs (g_audits g i)"
    and "audit_add_event g aid u et sev (Some data) (Some res) ip t t2 = (g', r)"
  shows "audit_inv aid g' \<and> spec_add (audit_abs aid g) = (audit_abs aid g', r)"
proof (cases "open_block (g_audits g i) t")
  case None
  have "audit_inv aid g" using assms(1,2) by (simp add: audit_inv_def audit_at_def)
  with None open_block_spec [OF assms(2), of t] assms show ?thesis
    by (simp add: audit_add_event_def del: spec_add.simps)
next
  case (Some a)
  let ?tx = "make_event (g_transaction_id_counter g) u et sev data res ip t2"
  let ?a = "(append_tx ?tx a)\<lparr>au_total_events := au_total_events a + 1,
    au_total_transactions := au_total_transactions a + 1, au_bytes_stored := au_bytes_stored a + SIZEOF_TRANSACTION\<rparr>"
  have "g_audits g' = (g_audits g)(i := ?a)" "g_audit_count g' = g_audit_count g" "r = 0"
    using assms(1,4) Some by (auto simp: audit_add_event_def Let_def)
  with add_sim [OF assms(1,2) Some, of ?a ?tx g'] assms(3) show ?thesis by (simp del: spec_add.simps)
qed

lemma transaction_sim:
  assumes "audit_of g aid = Some i" and "chain_inv (g_audits g i)" and "audit_abs aid g = chain_abs (g_audits g i)"
    and "audit_add_transaction g aid (Some tx) t t2 = (g', r, out)"
  shows "audit_inv aid g' \<and> spec_add (audit_abs aid g) = (audit_abs aid g', r)"
proof (cases "open_block (g_audits g i) t")
  case None
  have "audit_inv aid g" using assms(1,2) by (simp add: audit_inv_def audit_at_def)
  with None open_block_spec [OF assms(2), of t] assms show ?thesis
    by (simp add: audit_add_transaction_def del: spec_add.simps)
next
  case (Some a)
  let ?tx = "tx\<lparr>at_transaction_id := g_transaction_id_counter g, at_timestamp := of_int t2\<rparr>"
  let ?a = "(append_tx ?tx a)\<lparr>au_total_transactions := au_total_transactions a + 1\<rparr>"
  have "g_audits g' = (g_audits g)(i := ?a)" "g_audit_count g' = g_audit_count g" "r = 0"
    using assms(1,4) Some by (auto simp: audit_add_transaction_def Let_def)
  with add_sim [OF assms(1,2) Some, of ?a ?tx g'] assms(3) show ?thesis by (simp del: spec_add.simps)
qed

lemma mine_sim:
  assumes "audit_of g aid = Some i" and "chain_inv (g_audits g i)" and "audit_abs aid g = chain_abs (g_audits g i)"
    and "audit_mine_block g aid = (g', r)"
  shows "audit_inv aid g' \<and> audit_spec (audit_abs aid g) AuMine = (audit_abs aid g', r)"
proof -
  let ?a = "g_audits g i" and ?n = "au_block_count (g_audits g i)"
  have en: "au_mining_enabled ?a" using assms(2) by (simp add: chain_inv_def)
  show ?thesis
  proof (cases "?n = 0")
    case True
    have "audit_inv aid g" using assms(1,2) by (simp add: audit_inv_def audit_at_def)
    with True assms en chain_abs_empty [of ?a] show ?thesis
      by (cases "chain_abs ?a") (auto simp: audit_mine_block_def with_audit_def fun_upd_idem)
  next
    case False
    let ?s = "seal_block (au_blocks ?a (?n - 1))" and ?u = "\<lambda>b. ?a\<lparr>au_blocks := (au_blocks ?a)(?n - 1 := b)\<rparr>"
    have n: "0 < ?n" using False by simp
    have g': "g' = g\<lparr>g_audits := (g_audits g)(i := ?u ?s)\<rparr>" "r = 0"
      using assms en False by (simp_all add: audit_mine_block_def with_audit_def Let_def)
    have "chain_inv (?u ?s)" by (intro replace_last_inv assms(2) n) (simp_all add: seal_block_sealed)
    moreover have "audit_at aid g' = Some (?u ?s)" using assms(1) by (rule audit_at_update) (simp_all add: g')
    ultimately have "audit_inv aid g' \<and> audit_abs aid g' = chain_abs (?u ?s)" by (intro audit_invI)
    moreover have "chain_abs (?u ?s) = (butlast (fst (chain_abs ?a)) @ [True], snd (chain_abs ?a))"
      unfolding replace_last_abs [OF n] using False by (simp add: seal_block_sealed chain_abs_def)
    ultimately show ?thesis using g'(2) assms(3) chain_abs_empty [of ?a] False by (cases "chain_abs ?a") simp
  qed
qed

lemma verify_chain_mined:
  assumes "audit_of g aid = Some i" and "chain_inv (g_audits g i)"
  shows "audit_verify_chain_integrity g aid =
    (case first_idx Not (map is_mined (chain_blocks (g_audits g i))) of None \<Rightarrow> 0 | Some j \<Rightarrow> int j + 1)"
proof -
  let ?a = "g_audits g i" and ?fs = "map is_mined (chain_blocks (g_audits g i))"
  have len: "length ?fs = au_block_count ?a" "au_block_count ?a \<le> 4096"
    using assms(2) by (simp_all add: chain_blocks_def chain_inv_def MAX_AUDIT_BLOCKS_def)
  have "audit_verify_block g aid (of_nat (0 + j) + 1) = (if ?fs ! j then 0 else -1)" if "j < au_block_count ?a" for j
  proof -
    have "slot_get (of_nat j + 1) ?fs = Some (?fs ! j)"
      using that len next_id [of "replicate j ()"] by (simp add: slot_get_def slot_of_def)
    then show ?thesis using verify_block_mined [OF assms(2)] assms(1) by (simp add: audit_verify_block_def read_audit_def)
  qed
  from verify_loop_first [OF this len(1)] len(2) assms(1) show ?thesis
    by (simp add: audit_verify_chain_integrity_def read_audit_def split: option.split)
qed

interpretation audit: call_refinement "audit_step aid" audit_spec "audit_abs aid" "audit_inv aid" "\<lambda>_. True"
  for aid :: u32
proof
  fix g c g' r
  assume inv: "audit_inv aid g" and st: "audit_step aid g c = (g', r)"
  then obtain i where i: "audit_of g aid = Some i" "chain_inv (g_audits g i)"
    by (auto simp: audit_inv_def audit_at_def)
  then have abs: "audit_abs aid g = chain_abs (g_audits g i)" by (simp add: audit_abs_def audit_at_def)
  show "audit_inv aid g' \<and> audit_spec (audit_abs aid g) c = (audit_abs aid g', r)"
  proof (cases c)
    case (AuEvent u et sev data res ip t t2)
    with event_sim [OF i abs] st show ?thesis by (simp del: spec_add.simps)
  next
    case (AuTransaction tx t t2)
    with transaction_sim [OF i abs] st show ?thesis by (auto simp del: spec_add.simps split: prod.splits)
  next
    case AuMine
    with mine_sim [OF i abs] st show ?thesis by simp
  next
    case (AuVerifyBlock k)
    with verify_block_mined [OF i(2), of k] st inv abs i show ?thesis
      by (auto simp: audit_verify_block_def read_audit_def chain_abs_def)
  next
    case AuVerifyChain
    with verify_chain_mined [OF i] st inv abs show ?thesis by (auto simp: chain_abs_def)
  qed
qed

section \<open>Properties\<close>

text \<open>A chain created in zeroed memory is empty and well formed.\<close>

lemma created_chain:
  assumes "audit_create_blockchain g name = (g', r)" and "r \<noteq> -1" and "g_audits g (g_audit_count g) = zero_audit"
  shows "audit_inv (of_int r) g' \<and> audit_abs (of_int r) g' = ([], 0)"
proof -
  let ?n = "g_audit_count g"
  from assms(1,2) obtain nm where n: "?n < MAX_AUDITS" "name = Some nm"
    by (auto simp: audit_create_blockchain_def split: option.splits if_splits)
  have r: "r = sint (of_nat ?n + 1 :: u32)" and g': "g_audit_count g' = Suc ?n"
    "g_audits g' ?n = (g_audits g ?n)\<lparr>au_audit_id := of_nat ?n + 1, au_name := take 63 nm,
       au_block_count := 0, au_rules := [], au_mining_enabled := True,
       au_verification_enabled := True, au_total_events := 0, au_total_transactions := 0,
       au_compliance_violations := 0, au_bytes_stored := 0\<rparr>"
    using assms(1) n by (auto simp: audit_create_blockchain_def Let_def)
  have "unat (of_nat ?n + 1 :: u32) = Suc ?n" using n next_id(1) [of "replicate ?n ()"] by (simp add: MAX_AUDITS_def)
  then have "audit_of g' (of_int r) = Some ?n" using g'(1) r by (auto simp: audit_of_def)
  then have "audit_at (of_int r) g' = Some (g_audits g' ?n)" by (simp add: audit_at_def)
  moreover have "chain_inv (g_audits g' ?n)" "chain_abs (g_audits g' ?n) = ([], 0)"
    using g'(2) assms(3) by (simp_all add: chain_inv_def zero_audit_def zero_block_def is_mined_def chain_abs_def chain_blocks_def)
  ultimately show ?thesis using audit_invI by metis
qed

text \<open>
  Claim C25. Over any history of events, transactions and mining on a chain created in zeroed
  memory, the results of all calls are those of the abstract chain that only records which blocks
  were mined: a new block is opened exactly when there is none or the last one has 256
  transactions, adding fails exactly when 4096 blocks are full, a block verifies exactly when it
  was mined while it was the last one, and the verification of the chain returns 0 exactly when
  every block was mined, and otherwise the number of the first block that was not.
\<close>

theorem audit_verification_exact:
  assumes "audit_create_blockchain g0 name = (g, r)" and "r \<noteq> -1"
    and "g_audits g0 (g_audit_count g0) = zero_audit"
  shows "snd (call_run (audit_step (of_int r)) g cs) = snd (call_run audit_spec ([], 0) cs) \<and>
    audit_abs (of_int r) (fst (call_run (audit_step (of_int r)) g cs)) = fst (call_run audit_spec ([], 0) cs)"
proof -
  from created_chain [OF assms] have "audit_inv (of_int r) g" and e: "audit_abs (of_int r) g = ([], 0)" by auto
  from audit.run_results(1,2) [OF this(1), of cs] show ?thesis unfolding e by (simp add: list_all_iff)
qed

definition audit_one :: AuditState where
  "audit_one = fst (audit_create_blockchain audit_initial (Some ''main''))"

definition login :: audit_call where
  "login = AuEvent 7 EVENT_USER_LOGIN SEVERITY_INFO ''login'' ''tty'' None 10 10"

theorem audit_verification_exact_witness:
  "snd (call_run (audit_step 1) audit_one [login, AuVerifyChain, AuMine, AuVerifyChain, login, AuVerifyChain]) =
   [0, 1, 0, 0, 0, 0]"
proof -
  have "audit_create_blockchain audit_initial (Some ''main'') = (audit_one, 1)"
    by (simp add: audit_one_def audit_create_blockchain_def audit_initial_def MAX_AUDITS_def Let_def)
  moreover have "g_audits audit_initial (g_audit_count audit_initial) = zero_audit" by (simp add: audit_initial_def)
  ultimately show ?thesis
    using audit_verification_exact [of audit_initial "Some ''main''" audit_one 1
        "[login, AuVerifyChain, AuMine, AuVerifyChain, login, AuVerifyChain]"]
    by (simp add: login_def)
qed

text \<open>
  The condition of zeroed memory is needed. A chain created in the slot of a deleted one keeps the roots and hashes of its
  blocks, so a block opened in the second in which the old one was opened verifies, though it holds other transactions and was
  never mined.
\<close>

lemma reused_slot_verifies:
  defines "mined \<equiv> fst (call_run (audit_step 1) audit_one [login, AuMine])"
  defines "again \<equiv> fst (audit_create_blockchain (fst (audit_delete_blockchain mined 1)) (Some ''new''))"
  shows "snd (call_run (audit_step 1) again [login, AuVerifyChain]) = [0, 0]"
  unfolding mined_def again_def
  by (simp add: login_def audit_one_def audit_initial_def audit_create_blockchain_def audit_delete_blockchain_def
      audit_add_event_def audit_of_def open_block_def append_tx_def zero_audit_def zero_block_def MAX_AUDITS_def
      MAX_AUDIT_BLOCKS_def MAX_TRANSACTIONS_PER_BLOCK_def audit_mine_block_def with_audit_def seal_block_def
      audit_verify_chain_integrity_def audit_verify_block_def read_audit_def verify_block_def block_data_def Let_def)

definition replace_transactions :: "(nat \<Rightarrow> AuditTransaction list) \<Rightarrow> u32 \<Rightarrow> AuditState \<Rightarrow> AuditState" where
  "replace_transactions f aid g = fst (with_audit () aid g (\<lambda>a.
     (a\<lparr>au_blocks := (\<lambda>i. (au_blocks a i)\<lparr>ab_transactions := f i\<rparr>)\<rparr>, ())))"

lemma verify_block_transactions:
  "verify_block (a\<lparr>au_blocks := (\<lambda>i. (au_blocks a i)\<lparr>ab_transactions := f i\<rparr>)\<rparr>) k = verify_block a k"
  by (simp add: verify_block_def block_data_def Let_def)

lemma verify_block_replaced:
  "audit_verify_block (replace_transactions f aid g) aid k = audit_verify_block g aid k"
  "read_audit r aid (replace_transactions f aid g) au_block_count = read_audit r aid g au_block_count"
  "audit_of (replace_transactions f aid g) aid = audit_of g aid"
  by (auto simp: replace_transactions_def with_audit_def audit_verify_block_def read_audit_def audit_of_def
      verify_block_transactions)

text \<open>
  Verification does not look at the transactions: whatever the transactions of the
  blocks of a chain are replaced by, every block and the whole chain verify as before.
\<close>

lemma audit_tampering_undetected:
  "audit_verify_block (replace_transactions f aid g) aid k = audit_verify_block g aid k \<and>
   audit_verify_chain_integrity (replace_transactions f aid g) aid = audit_verify_chain_integrity g aid"
proof -
  have fn: "audit_verify_block (replace_transactions f aid g) aid = audit_verify_block g aid"
    by (rule ext) (rule verify_block_replaced(1))
  have "audit_verify_chain_integrity x aid =
      (case audit_of x aid of None \<Rightarrow> -1
       | Some i \<Rightarrow> verify_loop (audit_verify_block x aid) (read_audit 0 aid x au_block_count) 0)" for x
    by (simp add: audit_verify_chain_integrity_def read_audit_def split: option.split)
  then show ?thesis using fn verify_block_replaced(2) [of 0 aid f g] verify_block_replaced(3) by (auto split: option.split)
qed

text \<open>Queries and the compliance check, without their loops.\<close>

definition chain_transactions :: "BlockchainAudit \<Rightarrow> AuditTransaction list" where
  "chain_transactions a = concat (map ab_transactions (chain_blocks a))"

lemma query_block_take:
  "length out \<le> n \<Longrightarrow> query_block P n out ts = take n (out @ filter P ts)"
  by (induction P n out ts rule: query_block.induct) (auto simp: take_Cons')

lemma query_blocks_take:
  "length out \<le> n \<Longrightarrow>
   foldl (\<lambda>out b. query_block P n out (ab_transactions b)) out bs =
   take n (out @ filter P (concat (map ab_transactions bs)))"
proof (induction bs arbitrary: out)
  case (Cons b bs)
  have "take n (take n (out @ filter P (ab_transactions b)) @ zs) = take n (out @ filter P (ab_transactions b) @ zs)" for zs
    by (simp add: min_def)
  with Cons show ?case by (simp add: query_block_take)
qed simp

lemma rule_loop_count: "rule_loop tx rs v = v + of_nat (length (filter (violates tx) rs))"
  by (induction tx rs v rule: rule_loop.induct) auto

lemma tx_loop_count: "tx_loop ts rs v = v + of_nat (\<Sum>t\<leftarrow>ts. length (filter (violates t) rs))"
  by (induction ts rs v rule: tx_loop.induct) (auto simp: rule_loop_count)

lemma block_loop_count:
  "block_loop bs rs v = v + of_nat (\<Sum>t\<leftarrow>concat (map ab_transactions bs). length (filter (violates t) rs))"
  by (induction bs rs v rule: block_loop.induct) (auto simp: tx_loop_count)

text \<open>
  The three queries are equivalent to one reference definition: they return, in order,
  the transactions of the whole chain with the wanted event type, user or resource, cut to the
  size of the caller's array; and the compliance check counts the pairs of a transaction and an
  enabled rule for its event type whose minimum severity it misses.
\<close>

lemma audit_queries_exact:
  assumes "audit_at aid g = Some a"
  shows "audit_query_events g aid et True (Some n) = (0, Some (take (unat n) (filter (\<lambda>t. at_event_type t = et) (chain_transactions a)))) \<and>
    audit_query_by_user g aid u True (Some n) = (0, Some (take (unat n) (filter (\<lambda>t. at_user_id t = u) (chain_transactions a)))) \<and>
    audit_query_by_resource g aid (Some res) True (Some n) =
      (0, Some (take (unat n) (filter (\<lambda>t. take 255 (at_resource t) = take 255 res) (chain_transactions a)))) \<and>
    audit_get_compliance_violations (fst (audit_check_compliance g aid)) aid =
      of_nat (\<Sum>t\<leftarrow>chain_transactions a. length (filter (violates t) (au_rules a)))"
proof -
  obtain i where i: "audit_of g aid = Some i" "g_audits g i = a" using assms by (auto simp: audit_at_def)
  have q: "query_chain P (unat n) a = take (unat n) (filter P (chain_transactions a))" for P
    by (simp add: query_chain_def query_blocks_take chain_transactions_def)
  have "audit_of (g\<lparr>g_audits := h\<rparr>) aid = Some i" for h using i(1) by (simp add: audit_of_def)
  with i show ?thesis
    by (simp add: audit_query_events_def audit_query_by_user_def audit_query_by_resource_def read_audit_def q
        audit_get_compliance_violations_def audit_check_compliance_def with_audit_def block_loop_count
        chain_transactions_def Let_def)
qed

lemma audit_queries_exact_witness:
  "audit_query_by_user (fst (audit_step 1 audit_one login)) 1 7 True (Some 3) =
   (0, Some [make_event 1 7 EVENT_USER_LOGIN SEVERITY_INFO ''login'' ''tty'' None 10])"
proof -
  let ?tx = "make_event 1 7 EVENT_USER_LOGIN SEVERITY_INFO ''login'' ''tty'' None 10"
  have "\<exists>a. audit_at 1 (fst (audit_step 1 audit_one login)) = Some a \<and> chain_transactions a = [?tx]"
    by (simp add: login_def audit_one_def audit_initial_def audit_create_blockchain_def audit_add_event_def audit_at_def
        audit_of_def open_block_def append_tx_def chain_transactions_def chain_blocks_def zero_audit_def
        MAX_AUDITS_def MAX_AUDIT_BLOCKS_def Let_def)
  then obtain a where a: "audit_at 1 (fst (audit_step 1 audit_one login)) = Some a" "chain_transactions a = [?tx]" by blast
  from audit_queries_exact [OF a(1), of EVENT_BACKUP 3 7 "[]"] a(2) show ?thesis by (simp add: make_event_def)
qed

end
