(* ===== verification/Fault_Tolerance.thy ===== *)
theory Fault_Tolerance
  imports Service_Tables
begin

text \<open>
  The fault tolerance service of \<open>src/services/fault_tolerance.c\<close>: systems with replicas, recovery
  points holding checkpoints with a CRC, failover and clean-up. Readings of the clock are
  arguments; where a field of a reused slot is not written, its old content is an argument too.

  The second half shows that the CRC detects every change within four consecutive bytes, that clean-up ends
  and keeps exactly the most recent recovery points, and which replica a failover picks.
\<close>

unbundle bit_operations_syntax

section \<open>Constants and data\<close>

definition MAX_RECOVERY_POINTS :: nat where "MAX_RECOVERY_POINTS = 256"
definition MAX_REPLICAS :: nat where "MAX_REPLICAS = 5"
definition MAX_CHECKPOINTS :: nat where "MAX_CHECKPOINTS = 128"

datatype ReplicaState = REPLICA_ACTIVE | REPLICA_STANDBY | REPLICA_SYNCING | REPLICA_FAILED

datatype CheckpointState = CHECKPOINT_PENDING | CHECKPOINT_COMPLETED | CHECKPOINT_FAILED

record Checkpoint =
  cp_checkpoint_id :: u64
  cp_timestamp :: u64
  cp_source_node_id :: u32
  cp_data_size :: u64
  cp_crc32 :: u32
  cp_state :: CheckpointState
  cp_recovery_point_id :: u64

record RecoveryPoint =
  rp_recovery_point_id :: u64
  rp_created_time :: u64
  rp_checkpoints :: "Checkpoint list"
  rp_is_complete :: bool
  rp_is_consistent :: bool
  rp_description :: string

record ReplicaInfo =
  ri_replica_id :: u32
  ri_node_id :: u32
  ri_ip_address :: u32
  ri_port :: u16
  ri_state :: ReplicaState
  ri_last_sync_time :: u64
  ri_bytes_synced :: u64
  ri_lag_bytes :: u32
  ri_sync_failures :: u64
  ri_total_syncs :: u64

record FailoverRecord =
  fr_source_node_id :: u32
  fr_target_node_id :: u32
  fr_start_time :: u64
  fr_completion_time :: u64
  fr_duration_ms :: u32
  fr_bytes_transferred :: u64
  fr_success :: bool
  fr_failure_reason :: string

record FaultToleranceSystem =
  ft_system_id :: u32
  ft_name :: string
  ft_primary_node_id :: u32
  ft_replicas :: "ReplicaInfo list"
  ft_recovery_points :: "RecoveryPoint list"
  ft_last_failover :: FailoverRecord
  ft_total_failovers :: u64
  ft_successful_recoveries :: u64
  ft_failed_recoveries :: u64
  ft_checkpoint_interval_ms :: u32
  ft_auto_failover_enabled :: bool

type_synonym ft_systems = "FaultToleranceSystem list"

definition zero_failover :: FailoverRecord where
  "zero_failover = \<lparr>fr_source_node_id = 0, fr_target_node_id = 0, fr_start_time = 0, fr_completion_time = 0,
     fr_duration_ms = 0, fr_bytes_transferred = 0, fr_success = False, fr_failure_reason = []\<rparr>"

section \<open>The CRC\<close>

definition crc_bit :: "u32 \<Rightarrow> u32" where
  "crc_bit crc = (if crc AND 1 \<noteq> 0 then drop_bit 1 crc XOR 0xEDB88320 else drop_bit 1 crc)"

definition crc_byte :: "u32 \<Rightarrow> u8 \<Rightarrow> u32" where
  "crc_byte crc b = (crc_bit ^^ 8) (crc XOR ucast b)"

definition ft_crc32 :: "u8 list \<Rightarrow> u32" where
  "ft_crc32 bytes = foldl crc_byte 0xFFFFFFFF bytes XOR 0xFFFFFFFF"

section \<open>Systems and replicas\<close>

text \<open>Systems are never deleted, so the slot of a new one still has the zeroes of start-up.\<close>

definition ft_create_system :: "ft_systems \<Rightarrow> string option \<Rightarrow> u32 \<Rightarrow> ft_systems \<times> int" where
  "ft_create_system fs name primary_node_id =
     (case name of None \<Rightarrow> (fs, -1)
      | Some nm \<Rightarrow>
          if length fs \<ge> 8 then (fs, -1)
          else let sid = of_nat (length fs) + 1
               in (fs @ [\<lparr>ft_system_id = sid, ft_name = take 63 nm, ft_primary_node_id = primary_node_id,
                     ft_replicas = [], ft_recovery_points = [], ft_last_failover = zero_failover,
                     ft_total_failovers = 0, ft_successful_recoveries = 0, ft_failed_recoveries = 0,
                     ft_checkpoint_interval_ms = 5000, ft_auto_failover_enabled = True\<rparr>], sint sid))"

definition ft_add_replica :: "ft_systems \<Rightarrow> u32 \<Rightarrow> u32 \<Rightarrow> u32 \<Rightarrow> u16 \<Rightarrow> ft_systems \<times> int" where
  "ft_add_replica fs ft_id node_id ip port = with_slot (-1) ft_id fs (\<lambda>ft.
     if length (ft_replicas ft) \<ge> MAX_REPLICAS then (ft, -1)
     else let rid = of_nat (length (ft_replicas ft)) + 1
          in (ft\<lparr>ft_replicas := ft_replicas ft @ [\<lparr>ri_replica_id = rid, ri_node_id = node_id,
                ri_ip_address = ip, ri_port = port, ri_state = REPLICA_STANDBY, ri_last_sync_time = 0,
                ri_bytes_synced = 0, ri_lag_bytes = 0, ri_sync_failures = 0, ri_total_syncs = 0\<rparr>]\<rparr>, sint rid))"

definition ft_remove_replica :: "ft_systems \<Rightarrow> u32 \<Rightarrow> u32 \<Rightarrow> ft_systems \<times> int" where
  "ft_remove_replica fs ft_id replica_id = with_slot (-1) ft_id fs (\<lambda>ft.
     let (rs, r) = delete_slot replica_id (ft_replicas ft) in (ft\<lparr>ft_replicas := rs\<rparr>, r))"

section \<open>Checkpoints and recovery points\<close>

text \<open>
  Reading \<open>data_size\<close> bytes of a shorter buffer is undefined. \<open>now\<close> and \<open>now2\<close> are the times of the
  recovery point and of the checkpoint, \<open>old_description\<close> is what the slot held.
\<close>

definition ft_create_checkpoint ::
    "ft_systems \<Rightarrow> u32 \<Rightarrow> u8 list option \<Rightarrow> u64 \<Rightarrow> time_t \<Rightarrow> time_t \<Rightarrow> string \<Rightarrow> (ft_systems \<times> int) outcome" where
  "ft_create_checkpoint fs ft_id data data_size now now2 old_description =
     (case data of None \<Rightarrow> Done (fs, -1)
      | Some bytes \<Rightarrow> with_slot_ub (-1) ft_id fs (\<lambda>ft.
          if length (ft_recovery_points ft) \<ge> MAX_RECOVERY_POINTS then Done (ft, -1)
          else if length bytes < unat data_size then Undef
          else let rid = of_nat (length (ft_recovery_points ft)) + 1 :: u32;
                   cp = \<lparr>cp_checkpoint_id = 1, cp_timestamp = of_int now2,
                         cp_source_node_id = ft_primary_node_id ft, cp_data_size = data_size,
                         cp_crc32 = ft_crc32 (take (unat data_size) bytes), cp_state = CHECKPOINT_COMPLETED,
                         cp_recovery_point_id = ucast rid\<rparr>;
                   rp = \<lparr>rp_recovery_point_id = ucast rid, rp_created_time = of_int now,
                         rp_checkpoints = [cp], rp_is_complete = False, rp_is_consistent = True,
                         rp_description = old_description\<rparr>
               in Done (ft\<lparr>ft_recovery_points := ft_recovery_points ft @ [rp]\<rparr>, sint rid)))"

text \<open>The first checkpoint with an identifier, as the indices of its recovery point and of itself.\<close>

definition find_checkpoint :: "FaultToleranceSystem \<Rightarrow> u64 \<Rightarrow> (nat \<times> nat) option" where
  "find_checkpoint ft checkpoint_id =
     (case first_idx (\<lambda>rp. first_idx (\<lambda>cp. cp_checkpoint_id cp = checkpoint_id) (rp_checkpoints rp) \<noteq> None)
             (ft_recovery_points ft) of
        None \<Rightarrow> None
      | Some i \<Rightarrow> map_option (\<lambda>j. (i, j))
          (first_idx (\<lambda>cp. cp_checkpoint_id cp = checkpoint_id) (rp_checkpoints (ft_recovery_points ft ! i))))"

definition ft_mark_checkpoint_complete :: "ft_systems \<Rightarrow> u32 \<Rightarrow> u64 \<Rightarrow> ft_systems \<times> int" where
  "ft_mark_checkpoint_complete fs ft_id checkpoint_id = with_slot (-1) ft_id fs (\<lambda>ft.
     case find_checkpoint ft checkpoint_id of None \<Rightarrow> (ft, -1)
     | Some (i, j) \<Rightarrow>
         let rp = ft_recovery_points ft ! i; cp = rp_checkpoints rp ! j
         in (ft\<lparr>ft_recovery_points := (ft_recovery_points ft)[i := rp\<lparr>rp_checkpoints :=
               (rp_checkpoints rp)[j := cp\<lparr>cp_state := CHECKPOINT_COMPLETED\<rparr>]\<rparr>]\<rparr>, 0))"

definition ft_get_checkpoint :: "ft_systems \<Rightarrow> u32 \<Rightarrow> u64 \<Rightarrow> (nat \<times> nat) option" where
  "ft_get_checkpoint fs ft_id checkpoint_id =
     read_slot None ft_id fs (\<lambda>ft. find_checkpoint ft checkpoint_id)"

definition ft_create_recovery_point ::
    "ft_systems \<Rightarrow> u32 \<Rightarrow> string option \<Rightarrow> time_t \<Rightarrow> string \<Rightarrow> ft_systems \<times> int" where
  "ft_create_recovery_point fs ft_id description now old_description = with_slot (-1) ft_id fs (\<lambda>ft.
     if length (ft_recovery_points ft) \<ge> MAX_RECOVERY_POINTS then (ft, -1)
     else let rid = of_nat (length (ft_recovery_points ft)) + 1 :: u32;
              rp = \<lparr>rp_recovery_point_id = ucast rid, rp_created_time = of_int now, rp_checkpoints = [],
                    rp_is_complete = False, rp_is_consistent = True,
                    rp_description = (case description of None \<Rightarrow> old_description | Some d \<Rightarrow> take 255 d)\<rparr>
          in (ft\<lparr>ft_recovery_points := ft_recovery_points ft @ [rp]\<rparr>, sint rid))"

definition find_recovery_point :: "FaultToleranceSystem \<Rightarrow> u64 \<Rightarrow> nat option" where
  "find_recovery_point ft recovery_point_id =
     first_idx (\<lambda>rp. rp_recovery_point_id rp = recovery_point_id) (ft_recovery_points ft)"

definition ft_validate_recovery_point :: "ft_systems \<Rightarrow> u32 \<Rightarrow> u64 \<Rightarrow> int" where
  "ft_validate_recovery_point fs ft_id recovery_point_id = read_slot (-1) ft_id fs (\<lambda>ft.
     case find_recovery_point ft recovery_point_id of None \<Rightarrow> -1
     | Some i \<Rightarrow>
         let rp = ft_recovery_points ft ! i
         in if length (rp_checkpoints rp) > 0 \<and> rp_is_consistent rp then 1 else 0)"

definition ft_get_recovery_point :: "ft_systems \<Rightarrow> u32 \<Rightarrow> u64 \<Rightarrow> nat option" where
  "ft_get_recovery_point fs ft_id recovery_point_id =
     read_slot None ft_id fs (\<lambda>ft. find_recovery_point ft recovery_point_id)"

definition ft_restore_from_recovery_point :: "ft_systems \<Rightarrow> u32 \<Rightarrow> u64 \<Rightarrow> ft_systems \<times> int" where
  "ft_restore_from_recovery_point fs ft_id recovery_point_id = with_slot (-1) ft_id fs (\<lambda>ft.
     let failed = (ft\<lparr>ft_failed_recoveries := ft_failed_recoveries ft + 1\<rparr>, -1) in
     case ft_get_recovery_point fs ft_id recovery_point_id of None \<Rightarrow> failed
     | Some i \<Rightarrow>
         let rp = ft_recovery_points ft ! i in
         if rp_checkpoints rp = [] then failed
         else if rp_is_consistent rp
         then (ft\<lparr>ft_successful_recoveries := ft_successful_recoveries ft + 1\<rparr>, 0)
         else failed)"

section \<open>Replication\<close>

definition with_replica :: "u32 \<Rightarrow> u32 \<Rightarrow> ft_systems \<Rightarrow> (ReplicaInfo \<Rightarrow> ReplicaInfo) \<Rightarrow> ft_systems \<times> int" where
  "with_replica ft_id replica_id fs f = with_slot (-1) ft_id fs (\<lambda>ft.
     let (rs, r) = with_slot (-1) replica_id (ft_replicas ft) (\<lambda>x. (f x, 0)) in (ft\<lparr>ft_replicas := rs\<rparr>, r))"

text \<open>
  The state is set to \<open>REPLICA_SYNCING\<close> before it is compared with \<open>REPLICA_ACTIVE\<close>, so the
  comparison never holds.
\<close>

definition ft_sync_replica ::
    "ft_systems \<Rightarrow> u32 \<Rightarrow> u32 \<Rightarrow> u8 list option \<Rightarrow> u64 \<Rightarrow> time_t \<Rightarrow> ft_systems \<times> int" where
  "ft_sync_replica fs ft_id replica_id data data_size now =
     (case data of None \<Rightarrow> (fs, -1)
      | Some bytes \<Rightarrow> with_replica ft_id replica_id fs (\<lambda>x.
          let y = x\<lparr>ri_bytes_synced := ri_bytes_synced x + data_size, ri_last_sync_time := of_int now,
                    ri_total_syncs := ri_total_syncs x + 1, ri_state := REPLICA_SYNCING\<rparr>
          in if ri_state y = REPLICA_ACTIVE then y\<lparr>ri_state := REPLICA_ACTIVE\<rparr>
             else y\<lparr>ri_state := REPLICA_STANDBY\<rparr>))"

definition ft_set_replica_state :: "ft_systems \<Rightarrow> u32 \<Rightarrow> u32 \<Rightarrow> ReplicaState \<Rightarrow> ft_systems \<times> int" where
  "ft_set_replica_state fs ft_id replica_id state =
     with_replica ft_id replica_id fs (\<lambda>x. x\<lparr>ri_state := state\<rparr>)"

definition ft_get_replica_state :: "ft_systems \<Rightarrow> u32 \<Rightarrow> u32 \<Rightarrow> ReplicaState" where
  "ft_get_replica_state fs ft_id replica_id =
     read_slot REPLICA_FAILED ft_id fs (\<lambda>ft. read_slot REPLICA_FAILED replica_id (ft_replicas ft) ri_state)"

section \<open>Failover\<close>

definition ft_check_primary_health :: "ft_systems \<Rightarrow> u32 \<Rightarrow> int" where
  "ft_check_primary_health fs ft_id = read_slot (-1) ft_id fs (\<lambda>ft. 1)"

definition ft_initiate_failover :: "ft_systems \<Rightarrow> u32 \<Rightarrow> u32 \<Rightarrow> time_t \<Rightarrow> time_t \<Rightarrow> ft_systems \<times> int" where
  "ft_initiate_failover fs ft_id new_primary_id now now2 = with_slot (-1) ft_id fs (\<lambda>ft.
     let rec = (ft_last_failover ft)\<lparr>fr_start_time := of_int now, fr_source_node_id := ft_primary_node_id ft,
           fr_target_node_id := new_primary_id, fr_success := True, fr_completion_time := of_int now2,
           fr_duration_ms := ucast ((of_int now2 - of_int now) * 1000 :: u64)\<rparr>
     in (ft\<lparr>ft_last_failover := rec, ft_primary_node_id := new_primary_id,
            ft_total_failovers := ft_total_failovers ft + 1\<rparr>, 0))"

definition ft_perform_automatic_failover :: "ft_systems \<Rightarrow> u32 \<Rightarrow> time_t \<Rightarrow> time_t \<Rightarrow> ft_systems \<times> int" where
  "ft_perform_automatic_failover fs ft_id now now2 =
     (case slot_get ft_id fs of None \<Rightarrow> (fs, -1)
      | Some ft \<Rightarrow>
          if \<not> ft_auto_failover_enabled ft then (fs, -1)
          else (case first_idx (\<lambda>x. ri_state x = REPLICA_STANDBY) (ft_replicas ft) of
             None \<Rightarrow> (fs, -1)
           | Some i \<Rightarrow> ft_initiate_failover fs ft_id (ri_node_id (ft_replicas ft ! i)) now now2))"

definition ft_recovery_mode :: "ft_systems \<Rightarrow> u32 \<Rightarrow> int" where
  "ft_recovery_mode fs ft_id = read_slot (-1) ft_id fs (\<lambda>ft. 0)"

definition ft_verify_replica_consistency :: "ft_systems \<Rightarrow> u32 \<Rightarrow> int" where
  "ft_verify_replica_consistency fs ft_id = read_slot (-1) ft_id fs (\<lambda>ft.
     case first_idx (\<lambda>x. ri_state x \<noteq> REPLICA_ACTIVE \<and> ri_state x \<noteq> REPLICA_STANDBY) (ft_replicas ft) of
       Some i \<Rightarrow> 0 | None \<Rightarrow> 1)"

definition ft_resync_failed_replica :: "ft_systems \<Rightarrow> u32 \<Rightarrow> u32 \<Rightarrow> ft_systems \<times> int" where
  "ft_resync_failed_replica fs ft_id replica_id = with_replica ft_id replica_id fs
     (\<lambda>x. x\<lparr>ri_state := REPLICA_SYNCING, ri_sync_failures := 0, ri_lag_bytes := 0\<rparr>)"

definition ft_heal_split_brain :: "ft_systems \<Rightarrow> u32 \<Rightarrow> int" where
  "ft_heal_split_brain fs ft_id = read_slot (-1) ft_id fs (\<lambda>ft. 0)"

section \<open>Configuration, statistics and clean-up\<close>

definition ft_set_checkpoint_interval :: "ft_systems \<Rightarrow> u32 \<Rightarrow> u32 \<Rightarrow> ft_systems \<times> int" where
  "ft_set_checkpoint_interval fs ft_id interval_ms =
     with_slot (-1) ft_id fs (\<lambda>ft. (ft\<lparr>ft_checkpoint_interval_ms := interval_ms\<rparr>, 0))"

definition ft_enable_auto_failover :: "ft_systems \<Rightarrow> u32 \<Rightarrow> ft_systems \<times> int" where
  "ft_enable_auto_failover fs ft_id =
     with_slot (-1) ft_id fs (\<lambda>ft. (ft\<lparr>ft_auto_failover_enabled := True\<rparr>, 0))"

definition ft_disable_auto_failover :: "ft_systems \<Rightarrow> u32 \<Rightarrow> ft_systems \<times> int" where
  "ft_disable_auto_failover fs ft_id =
     with_slot (-1) ft_id fs (\<lambda>ft. (ft\<lparr>ft_auto_failover_enabled := False\<rparr>, 0))"

definition ft_get_system_info :: "ft_systems \<Rightarrow> u32 \<Rightarrow> nat option" where
  "ft_get_system_info fs ft_id = slot_of ft_id fs"

definition ft_get_recovery_success_rate :: "ft_systems \<Rightarrow> u32 \<Rightarrow> u64" where
  "ft_get_recovery_success_rate fs ft_id = read_slot 0 ft_id fs (\<lambda>ft.
     let all = ft_successful_recoveries ft + ft_failed_recoveries ft
     in if all = 0 then 0 else (ft_successful_recoveries ft * 100) div all)"

definition ft_get_replica_lag :: "ft_systems \<Rightarrow> u32 \<Rightarrow> u32 \<Rightarrow> u32" where
  "ft_get_replica_lag fs ft_id replica_id =
     read_slot 0 ft_id fs (\<lambda>ft. read_slot 0 replica_id (ft_replicas ft) ri_lag_bytes)"

text \<open>
  The loop of the clean-up: while there are more recovery points than wanted, shift all of them
  down by one slot and lower the count.
\<close>

function cleanup_loop :: "u64 \<Rightarrow> RecoveryPoint list \<Rightarrow> int \<Rightarrow> RecoveryPoint list \<times> int" where
  "cleanup_loop keep_recent rps removed =
     (if length rps > unat keep_recent
      then cleanup_loop keep_recent (take (length rps - 1) (shift_down 0 (length rps) rps)) (removed + 1)
      else (rps, removed))"
  by pat_completeness auto
termination
  by (relation "measure (\<lambda>(keep, rps, removed). length rps)") auto

declare cleanup_loop.simps [simp del]

definition ft_cleanup_old_checkpoints :: "ft_systems \<Rightarrow> u32 \<Rightarrow> u64 \<Rightarrow> ft_systems \<times> int" where
  "ft_cleanup_old_checkpoints fs ft_id keep_recent = with_slot (-1) ft_id fs (\<lambda>ft.
     let (rps, removed) = cleanup_loop keep_recent (ft_recovery_points ft) 0
     in (ft\<lparr>ft_recovery_points := rps\<rparr>, removed))"

section \<open>The CRC is linear and invertible\<close>

lemma crc_bit_odd: "crc_bit c = (if bit c 0 then drop_bit 1 c XOR 0xEDB88320 else drop_bit 1 c)"
  by (simp add: crc_bit_def bit_0 and_one_eq odd_iff_mod_2_eq_one)

lemma crc_bit_xor: "crc_bit (a XOR b) = crc_bit a XOR crc_bit b"
  by (rule bit_word_eqI) (auto simp: crc_bit_odd bit_simps simp del: drop_bit_numeral_minus_bit1)

lemma crc_bits_xor: "(crc_bit ^^ n) (a XOR b) = (crc_bit ^^ n) a XOR (crc_bit ^^ n) b"
  by (induction n) (simp_all add: crc_bit_xor)

lemma crc_bit_top: "bit (crc_bit c) 31 \<longleftrightarrow> bit c 0"
  by (auto simp: crc_bit_odd bit_simps dest: bit_imp_le_length)

lemma crc_bit_inject: "crc_bit a = crc_bit b \<longleftrightarrow> a = b"
proof
  assume eq: "crc_bit a = crc_bit b"
  then have low: "bit a 0 \<longleftrightarrow> bit b 0" using crc_bit_top by metis
  with eq have "drop_bit 1 a = drop_bit 1 b" by (auto simp: crc_bit_odd xor_cancel split: if_splits)
  then have "bit a (Suc n) \<longleftrightarrow> bit b (Suc n)" for n by (metis bit_drop_bit_eq plus_1_eq_Suc comp_apply)
  with low show "a = b" by (intro bit_eqI) (metis not0_implies_Suc)
qed simp

lemma crc_bits_inject: "(crc_bit ^^ n) a = (crc_bit ^^ n) b \<longleftrightarrow> a = b"
  by (induction n) (simp_all add: crc_bit_inject)

text \<open>Bytes packed into a word, first byte lowest.\<close>

fun pack :: "u8 list \<Rightarrow> u32" where
  "pack [] = 0"
| "pack (b # bs) = ucast b XOR push_bit 8 (pack bs)"

lemma pack_bits: "bit (pack bs) n \<Longrightarrow> n < 8 * length bs"
proof (induction bs arbitrary: n)
  case (Cons b bs)
  show ?case
  proof (cases "n < 8")
    case False
    with Cons.prems have "bit (pack bs) (n - 8)" by (auto simp: bit_simps dest: bit_imp_le_length)
    from Cons.IH [OF this] show ?thesis by simp
  qed simp
qed simp

lemma pack_bit_Cons:
  assumes "length bs < 4"
  shows "bit (pack (b # bs)) n \<longleftrightarrow> (if n < 8 then bit b n else bit (pack bs) (n - 8))"
  using pack_bits [of bs "n - 8"] assms by (auto simp: bit_simps dest: bit_imp_le_length)

lemma pack_inject:
  "length bs = length cs \<Longrightarrow> length bs \<le> 4 \<Longrightarrow> pack bs = pack cs \<longleftrightarrow> bs = cs"
proof (induction bs arbitrary: cs)
  case (Cons b bs)
  then obtain c cs' where cs: "cs = c # cs'" by (cases cs) auto
  have len: "length bs < 4" "length cs' < 4" using Cons.prems cs by auto
  show ?case
  proof
    assume eq: "pack (b # bs) = pack cs"
    have *: "(if n < 8 then bit b n else bit (pack bs) (n - 8)) \<longleftrightarrow>
        (if n < 8 then bit c n else bit (pack cs') (n - 8))" for n
      using pack_bit_Cons [OF len(1), of b n] pack_bit_Cons [OF len(2), of c n] eq cs by simp
    have "bit b n \<longleftrightarrow> bit c n" if "n < 8" for n using * [of n] that by simp
    then have "b = c" by (intro bit_word_eqI) simp
    moreover have "pack bs = pack cs'" using * [of "_ + 8"] by (intro bit_eqI) simp
    ultimately show "b # bs = cs" using Cons.IH [of cs'] Cons.prems cs by simp
  qed simp
qed simp

text \<open>Eight steps undo a shift by eight that loses nothing, so a burst of four bytes is one word.\<close>

lemma crc_bits_push:
  "\<forall>n\<ge>32 - k. \<not> bit y n \<Longrightarrow> k \<le> 32 \<Longrightarrow> (crc_bit ^^ k) (push_bit k y) = y"
proof (induction k)
  case (Suc k)
  have "crc_bit (push_bit (Suc k) y) = push_bit k y"
    using Suc.prems by (intro bit_word_eqI, auto simp: crc_bit_odd bit_simps simp del: push_bit_Suc)
      (metis diff_le_mono not_le)
  moreover have "\<forall>n\<ge>32 - k. \<not> bit y n" using Suc.prems(1) by auto
  ultimately show ?case using Suc by (simp add: funpow_swap1)
qed simp

lemma crc_bytes_pack:
  "length bs \<le> 4 \<Longrightarrow> foldl crc_byte c bs = (crc_bit ^^ (8 * length bs)) (c XOR pack bs)"
proof (induction bs arbitrary: c)
  case (Cons b bs)
  have "\<forall>n\<ge>32 - 8. \<not> bit (pack bs) n" using pack_bits [of bs] Cons.prems by fastforce
  then have "(crc_bit ^^ 8) (push_bit 8 (pack bs)) = pack bs" by (intro crc_bits_push) simp_all
  then have step: "crc_byte c b XOR pack bs = (crc_bit ^^ 8) (c XOR pack (b # bs))"
    by (simp add: crc_byte_def crc_bits_xor [symmetric] xor.assoc) (simp add: crc_bits_xor xor.assoc)
  have "foldl crc_byte c (b # bs) = (crc_bit ^^ (8 * length bs)) (crc_byte c b XOR pack bs)"
    using Cons by simp
  also have "\<dots> = (crc_bit ^^ (8 * length bs + 8)) (c XOR pack (b # bs))"
    unfolding step by (simp only: funpow_add comp_apply)
  also have "8 * length bs + 8 = 8 * length (b # bs)" by simp
  finally show ?case .
qed simp

lemma crc_byte_inject: "crc_byte c b = crc_byte d b \<longleftrightarrow> c = d"
  by (simp add: crc_byte_def crc_bits_inject xor_cancel)

lemma crc_bytes_inject: "foldl crc_byte c bs = foldl crc_byte d bs \<longleftrightarrow> c = d"
  by (induction bs arbitrary: c d) (simp_all add: crc_byte_inject)

section \<open>Clean-up and failover\<close>

lemma cleanup_loop_drop:
  "cleanup_loop keep rps n = (drop (length rps - unat keep) rps, n + int (length rps - unat keep))"
proof (induction keep rps n rule: cleanup_loop.induct)
  case (1 keep rps n)
  show ?case
  proof (cases "length rps > unat keep")
    case True
    then obtain x xs where rps: "rps = x # xs" by (cases rps) auto
    have "take (length rps - 1) (shift_down 0 (length rps) rps) = xs"
      using shift_down_remove_at [of 0 rps] rps by simp
    moreover have "length rps = Suc (length xs)" using rps by simp
    ultimately have "cleanup_loop keep xs (n + 1) = (drop (length xs - unat keep) xs, n + 1 + int (length xs - unat keep))"
      using "1.IH" [OF True] by simp
    moreover have "cleanup_loop keep rps n = cleanup_loop keep xs (n + 1)"
      using True \<open>take (length rps - 1) (shift_down 0 (length rps) rps) = xs\<close> by (subst cleanup_loop.simps) simp
    ultimately show ?thesis using True rps by (simp add: Suc_diff_le)
  next
    case False
    then show ?thesis by (subst cleanup_loop.simps) simp
  qed
qed

text \<open>
  A failover changes no replica, so the next automatic failover picks the same node again, even
  though that node is the primary by then.
\<close>

lemma failover_repeats:
  assumes "slot_get k fs = Some ft" and "ft_auto_failover_enabled ft"
    and "first_idx (\<lambda>x. ri_state x = REPLICA_STANDBY) (ft_replicas ft) = Some i"
    and "fs1 = fst (ft_perform_automatic_failover fs k t1 t2)"
    and "fs2 = fst (ft_perform_automatic_failover fs1 k t3 t4)"
  shows "\<exists>ft2. slot_get k fs2 = Some ft2 \<and> ft_primary_node_id ft2 = ri_node_id (ft_replicas ft ! i) \<and>
    fr_source_node_id (ft_last_failover ft2) = fr_target_node_id (ft_last_failover ft2)"
  using assms(1-3) unfolding assms(4,5)
  by (simp add: ft_perform_automatic_failover_def ft_initiate_failover_def slot_get_with_slot Let_def)

text \<open>Every checkpoint has identifier 1, so the searches only ever find the oldest one.\<close>

lemma checkpoint_identifiers:
  assumes "ft_create_checkpoint fs k (Some bytes) n t t2 d = Done (fs', r)" and "r \<noteq> -1"
    and "slot_get k fs = Some ft"
  shows "\<exists>ft' rp cp. slot_get k fs' = Some ft' \<and> ft_recovery_points ft' = ft_recovery_points ft @ [rp] \<and>
    rp_checkpoints rp = [cp] \<and> cp_checkpoint_id cp = 1"
  using with_slot_ub_Done [OF assms(3)] assms(1,2)
  by (fastforce simp: ft_create_checkpoint_def Let_def split: if_splits)

section \<open>Properties\<close>

text \<open>
  Claim C29. The CRC detects every burst of up to four bytes: two messages that differ only inside
  a stretch of at most four consecutive bytes have different checksums, wherever it is.
\<close>

theorem ft_crc32_detects_burst:
  assumes "length us = length vs" and "length us \<le> 4"
  shows "ft_crc32 (xs @ us @ ys) = ft_crc32 (xs @ vs @ ys) \<longleftrightarrow> us = vs"
proof -
  have "foldl crc_byte c us = foldl crc_byte c vs \<longleftrightarrow> us = vs" for c
    using assms by (simp add: crc_bytes_pack crc_bits_inject pack_inject xor_cancel xor.commute [of c])
  then show ?thesis by (simp add: ft_crc32_def xor_cancel crc_bytes_inject)
qed

theorem ft_crc32_detects_burst_witness:
  "ft_crc32 [9, 1, 2, 3, 4, 7] \<noteq> ft_crc32 [9, 1, 2, 4, 3, 7]"
  using ft_crc32_detects_burst [of "[2, 3, 4]" "[2, 4, 3]" "[9, 1]" "[7]"] by simp

text \<open>
  Claim C38. Clean-up ends for every number of recovery points and keeps exactly the wanted number
  of most recent ones, in order, whatever is asked for; it reports how many it removed and leaves
  the rest of the system alone.
\<close>

theorem ft_cleanup_keeps_recent:
  assumes "slot_get k fs = Some ft"
  shows "\<exists>fs'. ft_cleanup_old_checkpoints fs k keep = (fs', int (length (ft_recovery_points ft) - unat keep)) \<and>
    slot_get k fs' = Some (ft\<lparr>ft_recovery_points :=
      drop (length (ft_recovery_points ft) - unat keep) (ft_recovery_points ft)\<rparr>)"
proof -
  let ?r = "ft_cleanup_old_checkpoints fs k keep"
  have "slot_get k (fst ?r) = Some (ft\<lparr>ft_recovery_points :=
      drop (length (ft_recovery_points ft) - unat keep) (ft_recovery_points ft)\<rparr>)"
    using assms by (simp add: ft_cleanup_old_checkpoints_def slot_get_with_slot cleanup_loop_drop)
  moreover have "snd ?r = int (length (ft_recovery_points ft) - unat keep)"
    using assms by (simp add: ft_cleanup_old_checkpoints_def cleanup_loop_drop)
  ultimately show ?thesis by (metis prod.collapse)
qed

definition ft_three_points :: ft_systems where
  "ft_three_points =
     (let fs = fst (ft_create_system [] (Some ''db'') 4);
          add = (\<lambda>fs d. fst (ft_create_recovery_point fs 1 (Some d) 7 []))
      in add (add (add fs ''a'') ''b'') ''c'')"

theorem ft_cleanup_keeps_recent_witness:
  "\<exists>fs' ft. ft_cleanup_old_checkpoints ft_three_points 1 2 = (fs', 1) \<and> slot_get 1 fs' = Some ft \<and>
     map rp_description (ft_recovery_points ft) = [''b'', ''c'']"
proof -
  let ?ft = "ft_three_points ! 0"
  have "ft_three_points = [?ft]" and rps: "map rp_description (ft_recovery_points ?ft) = [''a'', ''b'', ''c'']"
    by (simp_all add: ft_three_points_def ft_create_system_def ft_create_recovery_point_def with_slot_def slot_of_def
        MAX_RECOVERY_POINTS_def Let_def)
  then have "length ft_three_points = 1" by (metis One_nat_def length_Cons list.size(3))
  then have "slot_get 1 ft_three_points = Some ?ft" by (simp add: slot_get_def slot_of_def)
  moreover have "length (ft_recovery_points ?ft) = 3" using arg_cong [OF rps, of length] by simp
  moreover have "map rp_description (drop 1 (ft_recovery_points ?ft)) = [''b'', ''c'']"
    using arg_cong [OF rps, of "drop 1"] by (simp add: drop_map)
  ultimately show ?thesis using ft_cleanup_keeps_recent [of 1 ft_three_points ?ft 2] by auto
qed

end
