(* ===== verification/Resource_Allocator.thy ===== *)
theory Resource_Allocator
  imports Service_Tables
begin

text \<open>
  The resource allocator of \<open>src/services/resource_allocator.c\<close>: pools of CPU cores, memory, disk
  and network bandwidth with an event log, quotas, limits, policies and scaling rules. The total
  network bandwidth is written \<open>10 * 1024 * 1024 * 1024\<close>, an \<open>int\<close> expression that overflows; the
  value it has in the running program is an argument of \<open>ra_create_allocator\<close>. Readings of the
  clock are arguments.

  The second half shows that allocation and release keep the books of every pool exactly.
\<close>

section \<open>Constants and data\<close>

definition MAX_RESOURCE_ALLOCATORS :: nat where "MAX_RESOURCE_ALLOCATORS = 32"
definition MAX_RESOURCE_QUOTAS :: nat where "MAX_RESOURCE_QUOTAS = 512"
definition MAX_RESOURCE_LIMITS :: nat where "MAX_RESOURCE_LIMITS = 512"
definition MAX_QOS_POLICIES :: nat where "MAX_QOS_POLICIES = 256"
definition MAX_RESOURCE_SCALING_RULES :: nat where "MAX_RESOURCE_SCALING_RULES = 256"
definition MAX_ALLOCATION_EVENTS :: nat where "MAX_ALLOCATION_EVENTS = 2048"

datatype ResourceType =
  RESOURCE_TYPE_CPU | RESOURCE_TYPE_MEMORY | RESOURCE_TYPE_DISK_IO | RESOURCE_TYPE_NETWORK_IO
  | RESOURCE_TYPE_NETWORK_BANDWIDTH | RESOURCE_TYPE_GPU

datatype PriorityLevel =
  PRIORITY_LEVEL_LOW | PRIORITY_LEVEL_NORMAL | PRIORITY_LEVEL_HIGH | PRIORITY_LEVEL_CRITICAL

datatype QosClass =
  QOS_CLASS_BEST_EFFORT | QOS_CLASS_BURSTABLE | QOS_CLASS_GUARANTEED | QOS_CLASS_ISOLATED

datatype ScalingAction =
  SCALING_ACTION_INCREASE | SCALING_ACTION_DECREASE | SCALING_ACTION_MAINTAIN | SCALING_ACTION_DYNAMIC

datatype AllocationStatus =
  ALLOCATION_STATUS_ALLOCATED | ALLOCATION_STATUS_SCALED | ALLOCATION_STATUS_THROTTLED
  | ALLOCATION_STATUS_RELEASED | ALLOCATION_STATUS_DENIED

record ResourceQuota =
  rq_quota_id :: u32
  rq_process_id :: u32
  rq_resource_type :: ResourceType
  rq_allocated_amount :: u64
  rq_used_amount :: u64
  rq_max_allowed :: u64
  rq_is_hard_limit :: u8
  rq_created_at :: time_t
  rq_last_updated :: time_t
  rq_exceeded_count :: u32

record ResourceLimit =
  rl_limit_id :: u32
  rl_container_id :: u32
  rl_resource_type :: ResourceType
  rl_limit_value :: u64
  rl_soft_limit_value :: u64
  rl_enforce_limit :: bool
  rl_kill_on_exceed :: u8
  rl_created_at :: time_t
  rl_violations_count :: u32

record QosPolicy =
  qp_policy_id :: u32
  qp_policy_name :: string
  qp_qos_class :: QosClass
  qp_priority :: PriorityLevel
  qp_cpu_request :: u64
  qp_cpu_limit :: u64
  qp_memory_request :: u64
  qp_memory_limit :: u64
  qp_disk_io_request :: u64
  qp_disk_io_limit :: u64
  qp_network_bandwidth_limit :: u64
  qp_created_at :: time_t
  qp_is_active :: bool

record ResourceScalingRule =
  sr_rule_id :: u32
  sr_rule_name :: string
  sr_resource_type :: ResourceType
  sr_trigger_threshold :: u64
  sr_target_allocation :: u64
  sr_scaling_action :: ScalingAction
  sr_cooldown_seconds :: u32
  sr_last_triggered :: time_t
  sr_is_enabled :: bool
  sr_triggered_count :: u32

record AllocationEvent =
  ae_event_id :: u64
  ae_allocation_id :: u32
  ae_resource_type :: ResourceType
  ae_status :: AllocationStatus
  ae_requested_amount :: u64
  ae_allocated_amount :: u64
  ae_event_time :: time_t
  ae_reason :: string

record ResourceAllocator =
  ra_allocator_id :: u32
  ra_name :: string
  ra_total_cpu_cores :: u64
  ra_available_cpu_cores :: u64
  ra_total_memory_bytes :: u64
  ra_available_memory_bytes :: u64
  ra_total_disk_io_bps :: u64
  ra_available_disk_io_bps :: u64
  ra_total_network_bandwidth_bps :: u64
  ra_available_network_bandwidth_bps :: u64
  ra_quotas :: "ResourceQuota list"
  ra_limits :: "ResourceLimit list"
  ra_qos_policies :: "QosPolicy list"
  ra_scaling_rules :: "ResourceScalingRule list"
  ra_events :: "AllocationEvent list"
  ra_total_allocations :: u64
  ra_total_denials :: u64
  ra_total_scalings :: u64
  ra_total_throttles :: u64
  ra_is_active :: bool
  ra_created_at :: time_t
  ra_last_update :: time_t

record AllocatorState =
  g_allocators :: "ResourceAllocator list"
  g_event_id_counter :: u64

definition ra_initial :: AllocatorState where
  "ra_initial = \<lparr>g_allocators = [], g_event_id_counter = 1\<rparr>"

definition with_allocator ::
    "u32 \<Rightarrow> AllocatorState \<Rightarrow> (ResourceAllocator \<Rightarrow> ResourceAllocator \<times> int) \<Rightarrow> AllocatorState \<times> int" where
  "with_allocator allocator_id g f =
     (let (as, r) = with_slot (-1) allocator_id (g_allocators g) f in (g\<lparr>g_allocators := as\<rparr>, r))"

section \<open>Allocators\<close>

definition ra_create_allocator ::
    "AllocatorState \<Rightarrow> string option \<Rightarrow> u64 \<Rightarrow> u64 \<Rightarrow> u64 \<Rightarrow> time_t \<Rightarrow> time_t \<Rightarrow> AllocatorState \<times> int" where
  "ra_create_allocator g name total_cpu_cores total_memory_mb network_total now now2 =
     (case name of None \<Rightarrow> (g, -1)
      | Some nm \<Rightarrow>
          if length (g_allocators g) \<ge> MAX_RESOURCE_ALLOCATORS then (g, -1)
          else let aid = of_nat (length (g_allocators g)) + 1;
                   memory = total_memory_mb * 1024 * 1024;
                   a = \<lparr>ra_allocator_id = aid, ra_name = take 63 nm,
                     ra_total_cpu_cores = total_cpu_cores, ra_available_cpu_cores = total_cpu_cores,
                     ra_total_memory_bytes = memory, ra_available_memory_bytes = memory,
                     ra_total_disk_io_bps = 1073741824, ra_available_disk_io_bps = 1073741824,
                     ra_total_network_bandwidth_bps = network_total,
                     ra_available_network_bandwidth_bps = network_total,
                     ra_quotas = [], ra_limits = [], ra_qos_policies = [], ra_scaling_rules = [],
                     ra_events = [], ra_total_allocations = 0, ra_total_denials = 0,
                     ra_total_scalings = 0, ra_total_throttles = 0, ra_is_active = True,
                     ra_created_at = now, ra_last_update = now2\<rparr>
               in (g\<lparr>g_allocators := g_allocators g @ [a]\<rparr>, sint aid))"

definition ra_delete_allocator :: "AllocatorState \<Rightarrow> u32 \<Rightarrow> AllocatorState \<times> int" where
  "ra_delete_allocator g allocator_id =
     (let (as, r) = delete_slot allocator_id (g_allocators g) in (g\<lparr>g_allocators := as\<rparr>, r))"

section \<open>Quotas, limits, policies and scaling rules\<close>

text \<open>Removal by identifier: search, shift, lower the count.\<close>

definition remove_by_id :: "('a \<Rightarrow> u32) \<Rightarrow> u32 \<Rightarrow> 'a list \<Rightarrow> 'a list option" where
  "remove_by_id key k xs =
     map_option (\<lambda>i. take (length xs - 1) (shift_down i (length xs) xs)) (first_idx (\<lambda>x. key x = k) xs)"

definition ra_create_quota ::
    "AllocatorState \<Rightarrow> u32 \<Rightarrow> u32 \<Rightarrow> ResourceType \<Rightarrow> u64 \<Rightarrow> u64 \<Rightarrow> u8 \<Rightarrow> time_t \<Rightarrow> time_t \<Rightarrow> AllocatorState \<times> int" where
  "ra_create_quota g allocator_id process_id resource_type allocated_amount max_allowed is_hard_limit now now2 =
     with_allocator allocator_id g (\<lambda>a.
       if length (ra_quotas a) \<ge> MAX_RESOURCE_QUOTAS then (a, -1)
       else let qid = of_nat (length (ra_quotas a)) + 1
            in (a\<lparr>ra_quotas := ra_quotas a @ [\<lparr>rq_quota_id = qid, rq_process_id = process_id,
                    rq_resource_type = resource_type, rq_allocated_amount = allocated_amount,
                    rq_used_amount = 0, rq_max_allowed = max_allowed, rq_is_hard_limit = is_hard_limit,
                    rq_created_at = now, rq_last_updated = now2, rq_exceeded_count = 0\<rparr>],
                  ra_total_allocations := ra_total_allocations a + 1\<rparr>, sint qid))"

definition ra_update_quota_usage :: "AllocatorState \<Rightarrow> u32 \<Rightarrow> u32 \<Rightarrow> u64 \<Rightarrow> time_t \<Rightarrow> AllocatorState \<times> int" where
  "ra_update_quota_usage g allocator_id quota_id used_amount now = with_allocator allocator_id g (\<lambda>a.
     case first_idx (\<lambda>q. rq_quota_id q = quota_id) (ra_quotas a) of None \<Rightarrow> (a, -1)
     | Some i \<Rightarrow>
         let q = (ra_quotas a ! i)\<lparr>rq_used_amount := used_amount, rq_last_updated := now\<rparr> in
         if used_amount > rq_max_allowed q
         then (a\<lparr>ra_quotas := (ra_quotas a)[i := q\<lparr>rq_exceeded_count := rq_exceeded_count q + 1\<rparr>],
                 ra_total_throttles := ra_total_throttles a + 1\<rparr>, 0)
         else (a\<lparr>ra_quotas := (ra_quotas a)[i := q]\<rparr>, 0))"

definition ra_delete_quota :: "AllocatorState \<Rightarrow> u32 \<Rightarrow> u32 \<Rightarrow> AllocatorState \<times> int" where
  "ra_delete_quota g allocator_id quota_id = with_allocator allocator_id g (\<lambda>a.
     case remove_by_id rq_quota_id quota_id (ra_quotas a) of None \<Rightarrow> (a, -1)
     | Some qs \<Rightarrow> (a\<lparr>ra_quotas := qs\<rparr>, 0))"

definition ra_create_limit ::
    "AllocatorState \<Rightarrow> u32 \<Rightarrow> u32 \<Rightarrow> ResourceType \<Rightarrow> u64 \<Rightarrow> u8 \<Rightarrow> time_t \<Rightarrow> AllocatorState \<times> int" where
  "ra_create_limit g allocator_id container_id resource_type limit_value kill_on_exceed now =
     with_allocator allocator_id g (\<lambda>a.
       if length (ra_limits a) \<ge> MAX_RESOURCE_LIMITS then (a, -1)
       else let lid = of_nat (length (ra_limits a)) + 1
            in (a\<lparr>ra_limits := ra_limits a @ [\<lparr>rl_limit_id = lid, rl_container_id = container_id,
                    rl_resource_type = resource_type, rl_limit_value = limit_value,
                    rl_soft_limit_value = (limit_value * 80) div 100, rl_enforce_limit = False,
                    rl_kill_on_exceed = kill_on_exceed, rl_created_at = now, rl_violations_count = 0\<rparr>]\<rparr>, sint lid))"

definition ra_enforce_resource_limit :: "AllocatorState \<Rightarrow> u32 \<Rightarrow> u32 \<Rightarrow> AllocatorState \<times> int" where
  "ra_enforce_resource_limit g allocator_id limit_id = with_allocator allocator_id g (\<lambda>a.
     case first_idx (\<lambda>l. rl_limit_id l = limit_id) (ra_limits a) of None \<Rightarrow> (a, -1)
     | Some i \<Rightarrow> (a\<lparr>ra_limits := (ra_limits a)[i := (ra_limits a ! i)\<lparr>rl_enforce_limit := True\<rparr>]\<rparr>, 0))"

definition ra_delete_limit :: "AllocatorState \<Rightarrow> u32 \<Rightarrow> u32 \<Rightarrow> AllocatorState \<times> int" where
  "ra_delete_limit g allocator_id limit_id = with_allocator allocator_id g (\<lambda>a.
     case remove_by_id rl_limit_id limit_id (ra_limits a) of None \<Rightarrow> (a, -1)
     | Some ls \<Rightarrow> (a\<lparr>ra_limits := ls\<rparr>, 0))"

definition ra_create_qos_policy ::
    "AllocatorState \<Rightarrow> u32 \<Rightarrow> string option \<Rightarrow> QosClass \<Rightarrow> PriorityLevel \<Rightarrow> u64 \<Rightarrow> u64 \<Rightarrow> time_t \<Rightarrow> AllocatorState \<times> int" where
  "ra_create_qos_policy g allocator_id policy_name qos_class priority cpu_request memory_request now =
     (case policy_name of None \<Rightarrow> (g, -1)
      | Some nm \<Rightarrow> with_allocator allocator_id g (\<lambda>a.
          if length (ra_qos_policies a) \<ge> MAX_QOS_POLICIES then (a, -1)
          else let pid = of_nat (length (ra_qos_policies a)) + 1
               in (a\<lparr>ra_qos_policies := ra_qos_policies a @ [\<lparr>qp_policy_id = pid, qp_policy_name = take 63 nm,
                       qp_qos_class = qos_class, qp_priority = priority, qp_cpu_request = cpu_request,
                       qp_cpu_limit = cpu_request * 2, qp_memory_request = memory_request,
                       qp_memory_limit = memory_request * 2, qp_disk_io_request = 1048576,
                       qp_disk_io_limit = 10485760, qp_network_bandwidth_limit = 104857600,
                       qp_created_at = now, qp_is_active = True\<rparr>]\<rparr>, sint pid)))"

definition ra_apply_qos_policy :: "AllocatorState \<Rightarrow> u32 \<Rightarrow> u32 \<Rightarrow> u32 \<Rightarrow> AllocatorState \<times> int" where
  "ra_apply_qos_policy g allocator_id policy_id process_id = with_allocator allocator_id g (\<lambda>a.
     case first_idx (\<lambda>p. qp_policy_id p = policy_id) (ra_qos_policies a) of None \<Rightarrow> (a, -1)
     | Some i \<Rightarrow> (a\<lparr>ra_qos_policies := (ra_qos_policies a)[i := (ra_qos_policies a ! i)\<lparr>qp_is_active := True\<rparr>]\<rparr>, 0))"

definition ra_delete_qos_policy :: "AllocatorState \<Rightarrow> u32 \<Rightarrow> u32 \<Rightarrow> AllocatorState \<times> int" where
  "ra_delete_qos_policy g allocator_id policy_id = with_allocator allocator_id g (\<lambda>a.
     case remove_by_id qp_policy_id policy_id (ra_qos_policies a) of None \<Rightarrow> (a, -1)
     | Some ps \<Rightarrow> (a\<lparr>ra_qos_policies := ps\<rparr>, 0))"

definition ra_add_scaling_rule ::
    "AllocatorState \<Rightarrow> u32 \<Rightarrow> string option \<Rightarrow> ResourceType \<Rightarrow> u64 \<Rightarrow> ScalingAction \<Rightarrow> AllocatorState \<times> int" where
  "ra_add_scaling_rule g allocator_id rule_name resource_type trigger_threshold scaling_action =
     (case rule_name of None \<Rightarrow> (g, -1)
      | Some nm \<Rightarrow> with_allocator allocator_id g (\<lambda>a.
          if length (ra_scaling_rules a) \<ge> MAX_RESOURCE_SCALING_RULES then (a, -1)
          else let rid = of_nat (length (ra_scaling_rules a)) + 1
               in (a\<lparr>ra_scaling_rules := ra_scaling_rules a @ [\<lparr>sr_rule_id = rid, sr_rule_name = take 63 nm,
                       sr_resource_type = resource_type, sr_trigger_threshold = trigger_threshold,
                       sr_target_allocation = (trigger_threshold * 120) div 100,
                       sr_scaling_action = scaling_action, sr_cooldown_seconds = 300,
                       sr_last_triggered = 0, sr_is_enabled = True, sr_triggered_count = 0\<rparr>]\<rparr>, sint rid)))"

definition ra_trigger_scaling_rule :: "AllocatorState \<Rightarrow> u32 \<Rightarrow> u32 \<Rightarrow> time_t \<Rightarrow> AllocatorState \<times> int" where
  "ra_trigger_scaling_rule g allocator_id rule_id now = with_allocator allocator_id g (\<lambda>a.
     case first_idx (\<lambda>r. sr_rule_id r = rule_id \<and> sr_is_enabled r) (ra_scaling_rules a) of None \<Rightarrow> (a, -1)
     | Some i \<Rightarrow>
         let r = ra_scaling_rules a ! i in
         if now - sr_last_triggered r \<ge> uint (sr_cooldown_seconds r)
         then (a\<lparr>ra_scaling_rules := (ra_scaling_rules a)[i := r\<lparr>sr_last_triggered := now,
                   sr_triggered_count := sr_triggered_count r + 1\<rparr>],
                 ra_total_scalings := ra_total_scalings a + 1\<rparr>, 0)
         else (a, -1))"

definition ra_delete_scaling_rule :: "AllocatorState \<Rightarrow> u32 \<Rightarrow> u32 \<Rightarrow> AllocatorState \<times> int" where
  "ra_delete_scaling_rule g allocator_id rule_id = with_allocator allocator_id g (\<lambda>a.
     case remove_by_id sr_rule_id rule_id (ra_scaling_rules a) of None \<Rightarrow> (a, -1)
     | Some rs \<Rightarrow> (a\<lparr>ra_scaling_rules := rs\<rparr>, 0))"

section \<open>Allocation\<close>

text \<open>
  The cases of the two \<open>switch\<close> statements: the counters a resource type works on, and the texts.
  \<open>None\<close> is the \<open>default\<close> case.
\<close>

fun available_of :: "ResourceType \<Rightarrow> ResourceAllocator \<Rightarrow> u64 option" where
  "available_of RESOURCE_TYPE_CPU a = Some (ra_available_cpu_cores a)"
| "available_of RESOURCE_TYPE_MEMORY a = Some (ra_available_memory_bytes a)"
| "available_of RESOURCE_TYPE_DISK_IO a = Some (ra_available_disk_io_bps a)"
| "available_of RESOURCE_TYPE_NETWORK_IO a = Some (ra_available_network_bandwidth_bps a)"
| "available_of RESOURCE_TYPE_NETWORK_BANDWIDTH a = Some (ra_available_network_bandwidth_bps a)"
| "available_of RESOURCE_TYPE_GPU a = None"

fun total_of :: "ResourceType \<Rightarrow> ResourceAllocator \<Rightarrow> u64" where
  "total_of RESOURCE_TYPE_CPU a = ra_total_cpu_cores a"
| "total_of RESOURCE_TYPE_MEMORY a = ra_total_memory_bytes a"
| "total_of RESOURCE_TYPE_DISK_IO a = ra_total_disk_io_bps a"
| "total_of RESOURCE_TYPE_NETWORK_IO a = ra_total_network_bandwidth_bps a"
| "total_of RESOURCE_TYPE_NETWORK_BANDWIDTH a = ra_total_network_bandwidth_bps a"
| "total_of RESOURCE_TYPE_GPU a = 0"

fun set_available :: "ResourceType \<Rightarrow> u64 \<Rightarrow> ResourceAllocator \<Rightarrow> ResourceAllocator" where
  "set_available RESOURCE_TYPE_CPU v a = a\<lparr>ra_available_cpu_cores := v\<rparr>"
| "set_available RESOURCE_TYPE_MEMORY v a = a\<lparr>ra_available_memory_bytes := v\<rparr>"
| "set_available RESOURCE_TYPE_DISK_IO v a = a\<lparr>ra_available_disk_io_bps := v\<rparr>"
| "set_available RESOURCE_TYPE_NETWORK_IO v a = a\<lparr>ra_available_network_bandwidth_bps := v\<rparr>"
| "set_available RESOURCE_TYPE_NETWORK_BANDWIDTH v a = a\<lparr>ra_available_network_bandwidth_bps := v\<rparr>"
| "set_available RESOURCE_TYPE_GPU v a = a"

fun granted_reason :: "ResourceType \<Rightarrow> string" where
  "granted_reason RESOURCE_TYPE_CPU = ''CPU allocated successfully''"
| "granted_reason RESOURCE_TYPE_MEMORY = ''Memory allocated successfully''"
| "granted_reason RESOURCE_TYPE_DISK_IO = ''Disk I/O allocated successfully''"
| "granted_reason RESOURCE_TYPE_NETWORK_IO = ''Network bandwidth allocated successfully''"
| "granted_reason RESOURCE_TYPE_NETWORK_BANDWIDTH = ''Network bandwidth allocated successfully''"
| "granted_reason RESOURCE_TYPE_GPU = []"

fun denied_reason :: "ResourceType \<Rightarrow> string" where
  "denied_reason RESOURCE_TYPE_CPU = ''Insufficient CPU cores''"
| "denied_reason RESOURCE_TYPE_MEMORY = ''Insufficient memory''"
| "denied_reason RESOURCE_TYPE_DISK_IO = ''Insufficient disk I/O bandwidth''"
| "denied_reason RESOURCE_TYPE_NETWORK_IO = ''Insufficient network bandwidth''"
| "denied_reason RESOURCE_TYPE_NETWORK_BANDWIDTH = ''Insufficient network bandwidth''"
| "denied_reason RESOURCE_TYPE_GPU = ''Unknown resource type''"

definition allocate ::
    "u64 \<Rightarrow> ResourceType \<Rightarrow> u64 \<Rightarrow> time_t \<Rightarrow> time_t \<Rightarrow> ResourceAllocator \<Rightarrow> ResourceAllocator \<times> int" where
  "allocate event_id resource_type requested_amount now now2 a =
     (let granted = (case available_of resource_type a of None \<Rightarrow> False | Some available \<Rightarrow> available \<ge> requested_amount);
          event = \<lparr>ae_event_id = event_id, ae_allocation_id = of_nat (length (ra_events a)),
            ae_resource_type = resource_type,
            ae_status = (if granted then ALLOCATION_STATUS_ALLOCATED else ALLOCATION_STATUS_DENIED),
            ae_requested_amount = requested_amount,
            ae_allocated_amount = (if granted then requested_amount else 0), ae_event_time = now,
            ae_reason = (if granted then granted_reason resource_type else denied_reason resource_type)\<rparr>;
          a1 = (if granted
                then (set_available resource_type (the (available_of resource_type a) - requested_amount) a)
                       \<lparr>ra_total_allocations := ra_total_allocations a + 1\<rparr>
                else a\<lparr>ra_total_denials := ra_total_denials a + 1\<rparr>)
      in (a1\<lparr>ra_events := ra_events a @ [event], ra_last_update := now2\<rparr>, if granted then 0 else -1))"

definition ra_allocate_resource ::
    "AllocatorState \<Rightarrow> u32 \<Rightarrow> u32 \<Rightarrow> ResourceType \<Rightarrow> u64 \<Rightarrow> time_t \<Rightarrow> time_t \<Rightarrow> AllocatorState \<times> int" where
  "ra_allocate_resource g allocator_id process_id resource_type requested_amount now now2 =
     (case slot_of allocator_id (g_allocators g) of None \<Rightarrow> (g, -1)
      | Some i \<Rightarrow>
          let a = g_allocators g ! i in
          if length (ra_events a) \<ge> MAX_ALLOCATION_EVENTS then (g, -1)
          else let (a', r) = allocate (g_event_id_counter g) resource_type requested_amount now now2 a
               in (g\<lparr>g_allocators := (g_allocators g)[i := a'], g_event_id_counter := g_event_id_counter g + 1\<rparr>, r))"

definition ra_release_resource ::
    "AllocatorState \<Rightarrow> u32 \<Rightarrow> u32 \<Rightarrow> ResourceType \<Rightarrow> u64 \<Rightarrow> time_t \<Rightarrow> AllocatorState \<times> int" where
  "ra_release_resource g allocator_id process_id resource_type amount now = with_allocator allocator_id g (\<lambda>a.
     case available_of resource_type a of None \<Rightarrow> (a, -1)
     | Some available \<Rightarrow>
         let sum = available + amount;
             new = (if sum > total_of resource_type a then total_of resource_type a else sum)
         in ((set_available resource_type new a)\<lparr>ra_last_update := now\<rparr>, 0))"

definition ra_rebalance_resources :: "AllocatorState \<Rightarrow> u32 \<Rightarrow> int" where
  "ra_rebalance_resources g allocator_id = read_slot (-1) allocator_id (g_allocators g) (\<lambda>a. 0)"

section \<open>Reports\<close>

definition ra_get_available_cpu :: "AllocatorState \<Rightarrow> u32 \<Rightarrow> u64" where
  "ra_get_available_cpu g allocator_id = read_slot 0 allocator_id (g_allocators g) ra_available_cpu_cores"

definition ra_get_available_memory :: "AllocatorState \<Rightarrow> u32 \<Rightarrow> u64" where
  "ra_get_available_memory g allocator_id = read_slot 0 allocator_id (g_allocators g) ra_available_memory_bytes"

definition ra_get_available_disk_io :: "AllocatorState \<Rightarrow> u32 \<Rightarrow> u64" where
  "ra_get_available_disk_io g allocator_id = read_slot 0 allocator_id (g_allocators g) ra_available_disk_io_bps"

definition ra_get_available_network_bandwidth :: "AllocatorState \<Rightarrow> u32 \<Rightarrow> u64" where
  "ra_get_available_network_bandwidth g allocator_id =
     read_slot 0 allocator_id (g_allocators g) ra_available_network_bandwidth_bps"

definition ra_get_total_allocations :: "AllocatorState \<Rightarrow> u32 \<Rightarrow> u64" where
  "ra_get_total_allocations g allocator_id = read_slot 0 allocator_id (g_allocators g) ra_total_allocations"

definition ra_get_total_denials :: "AllocatorState \<Rightarrow> u32 \<Rightarrow> u64" where
  "ra_get_total_denials g allocator_id = read_slot 0 allocator_id (g_allocators g) ra_total_denials"

definition ra_get_total_scalings :: "AllocatorState \<Rightarrow> u32 \<Rightarrow> u64" where
  "ra_get_total_scalings g allocator_id = read_slot 0 allocator_id (g_allocators g) ra_total_scalings"

definition ra_get_total_throttles :: "AllocatorState \<Rightarrow> u32 \<Rightarrow> u64" where
  "ra_get_total_throttles g allocator_id = read_slot 0 allocator_id (g_allocators g) ra_total_throttles"

text \<open>
  The three list queries share their guards: both output pointers given, and the caller's array
  large enough for all entries, which are then copied.
\<close>

definition copy_all :: "AllocatorState \<Rightarrow> u32 \<Rightarrow> bool \<Rightarrow> u32 option \<Rightarrow> (ResourceAllocator \<Rightarrow> 'a list) \<Rightarrow> int \<times> 'a list option" where
  "copy_all g allocator_id out count f =
     (case count of None \<Rightarrow> (-1, None)
      | Some n \<Rightarrow>
          if \<not> out then (-1, None)
          else read_slot (-1, None) allocator_id (g_allocators g) (\<lambda>a.
            if length (f a) > unat n then (-1, None) else (0, Some (f a))))"

definition ra_get_allocation_events ::
    "AllocatorState \<Rightarrow> u32 \<Rightarrow> bool \<Rightarrow> u32 option \<Rightarrow> int \<times> AllocationEvent list option" where
  "ra_get_allocation_events g allocator_id events count = copy_all g allocator_id events count ra_events"

definition ra_get_qos_policies ::
    "AllocatorState \<Rightarrow> u32 \<Rightarrow> bool \<Rightarrow> u32 option \<Rightarrow> int \<times> QosPolicy list option" where
  "ra_get_qos_policies g allocator_id policies count = copy_all g allocator_id policies count ra_qos_policies"

definition ra_get_resource_quotas ::
    "AllocatorState \<Rightarrow> u32 \<Rightarrow> bool \<Rightarrow> u32 option \<Rightarrow> int \<times> ResourceQuota list option" where
  "ra_get_resource_quotas g allocator_id quotas count = copy_all g allocator_id quotas count ra_quotas"

definition ra_get_allocator_info :: "AllocatorState \<Rightarrow> u32 \<Rightarrow> nat option" where
  "ra_get_allocator_info g allocator_id = slot_of allocator_id (g_allocators g)"

section \<open>The books\<close>

text \<open>
  The abstract allocator: how much of each pool is in use, and the number of logged events. Both
  network types draw on one pool.
\<close>

datatype ra_call =
  RaAllocate ResourceType u64 time_t time_t | RaRelease ResourceType u64 time_t | RaAvailable ResourceType

datatype ra_reply = RaCode int | RaAmount nat

type_synonym ra_model = "(ResourceType \<Rightarrow> nat) \<times> nat"

fun ra_step :: "u32 \<Rightarrow> AllocatorState \<Rightarrow> ra_call \<Rightarrow> AllocatorState \<times> ra_reply" where
  "ra_step k g (RaAllocate rt n t t2) = (let (g', r) = ra_allocate_resource g k 0 rt n t t2 in (g', RaCode r))"
| "ra_step k g (RaRelease rt n t) = (let (g', r) = ra_release_resource g k 0 rt n t in (g', RaCode r))"
| "ra_step k g (RaAvailable rt) = (g, RaAmount (unat (case rt of
      RESOURCE_TYPE_CPU \<Rightarrow> ra_get_available_cpu g k
    | RESOURCE_TYPE_MEMORY \<Rightarrow> ra_get_available_memory g k
    | RESOURCE_TYPE_DISK_IO \<Rightarrow> ra_get_available_disk_io g k
    | RESOURCE_TYPE_GPU \<Rightarrow> 0
    | _ \<Rightarrow> ra_get_available_network_bandwidth g k)))"

fun pool :: "ResourceType \<Rightarrow> ResourceType" where
  "pool RESOURCE_TYPE_NETWORK_IO = RESOURCE_TYPE_NETWORK_BANDWIDTH"
| "pool rt = rt"

fun ra_spec :: "(ResourceType \<Rightarrow> nat) \<Rightarrow> ra_model \<Rightarrow> ra_call \<Rightarrow> ra_model \<times> ra_reply" where
  "ra_spec T (used, n) (RaAllocate rt req t t2) =
     (if n \<ge> 2048 then ((used, n), RaCode (-1))
      else if rt = RESOURCE_TYPE_GPU \<or> used rt + unat req > T rt then ((used, Suc n), RaCode (-1))
      else ((\<lambda>p. if pool p = pool rt then used p + unat req else used p, Suc n), RaCode 0))"
| "ra_spec T (used, n) (RaRelease rt amt t) =
     (if rt = RESOURCE_TYPE_GPU then ((used, n), RaCode (-1))
      else ((\<lambda>p. if pool p = pool rt then used p - unat amt else used p, n), RaCode 0))"
| "ra_spec T (used, n) (RaAvailable rt) = ((used, n), RaAmount (T rt - used rt))"

definition avail :: "ResourceAllocator \<Rightarrow> ResourceType \<Rightarrow> nat" where
  "avail a rt = (case available_of rt a of None \<Rightarrow> 0 | Some v \<Rightarrow> unat v)"

definition totals :: "ResourceAllocator \<Rightarrow> ResourceType \<Rightarrow> nat" where
  "totals a rt = unat (total_of rt a)"

definition books :: "ResourceAllocator \<Rightarrow> ra_model" where
  "books a = (\<lambda>rt. totals a rt - avail a rt, length (ra_events a))"

definition pools_ok :: "(ResourceType \<Rightarrow> nat) \<Rightarrow> ResourceAllocator \<Rightarrow> bool" where
  "pools_ok T a \<longleftrightarrow> totals a = T \<and> (\<forall>rt. avail a rt \<le> T rt)"

definition ra_inv :: "(ResourceType \<Rightarrow> nat) \<Rightarrow> u32 \<Rightarrow> AllocatorState \<Rightarrow> bool" where
  "ra_inv T k g \<longleftrightarrow> (\<exists>a. slot_get k (g_allocators g) = Some a \<and> pools_ok T a)"

definition ra_abs :: "u32 \<Rightarrow> AllocatorState \<Rightarrow> ra_model" where
  "ra_abs k g = (case slot_get k (g_allocators g) of None \<Rightarrow> (\<lambda>_. 0, 0) | Some a \<Rightarrow> books a)"

text \<open>A released amount must not make the 64-bit sum wrap around.\<close>

fun ra_fits :: "(ResourceType \<Rightarrow> nat) \<Rightarrow> ra_call \<Rightarrow> bool" where
  "ra_fits T (RaRelease rt amt t) \<longleftrightarrow> T rt + unat amt < 18446744073709551616"
| "ra_fits T _ \<longleftrightarrow> True"

lemma avail_set:
  "rt \<noteq> RESOURCE_TYPE_GPU \<Longrightarrow> avail (set_available rt v a) q = (if pool q = pool rt then unat v else avail a q)"
  by (cases rt; cases q) (simp_all add: avail_def)

lemma totals_set: "totals (set_available rt v a) = totals a"
proof
  show "totals (set_available rt v a) q = totals a q" for q by (cases rt; cases q) (simp_all add: totals_def)
qed

lemma avail_pool: "pool q = pool rt \<Longrightarrow> avail a q = avail a rt"
  and totals_pool: "pool q = pool rt \<Longrightarrow> totals a q = totals a rt"
  by (cases q; cases rt; simp add: avail_def totals_def)+

lemma events_set: "ra_events (set_available rt v a) = ra_events a"
  by (cases rt) simp_all

lemma avail_Some: "rt \<noteq> RESOURCE_TYPE_GPU \<Longrightarrow> \<exists>v. available_of rt a = Some v \<and> unat v = avail a rt"
  by (cases rt) (simp_all add: avail_def)

lemma books_frame:
  assumes "\<And>rt. available_of rt a' = available_of rt a" and "\<And>rt. total_of rt a' = total_of rt a"
  shows "avail a' = avail a" and "totals a' = totals a"
  using assms by (simp_all add: avail_def totals_def fun_eq_iff)

lemma frame_simps [simp]:
  "avail (a\<lparr>ra_last_update := x\<rparr>) = avail a" "totals (a\<lparr>ra_last_update := x\<rparr>) = totals a"
  "avail (a\<lparr>ra_events := e\<rparr>) = avail a" "totals (a\<lparr>ra_events := e\<rparr>) = totals a"
  "avail (a\<lparr>ra_total_allocations := n\<rparr>) = avail a" "totals (a\<lparr>ra_total_allocations := n\<rparr>) = totals a"
  "avail (a\<lparr>ra_total_denials := n\<rparr>) = avail a" "totals (a\<lparr>ra_total_denials := n\<rparr>) = totals a"
proof -
  have "available_of rt (a\<lparr>ra_last_update := x\<rparr>) = available_of rt a \<and> total_of rt (a\<lparr>ra_last_update := x\<rparr>) = total_of rt a \<and>
    available_of rt (a\<lparr>ra_events := e\<rparr>) = available_of rt a \<and> total_of rt (a\<lparr>ra_events := e\<rparr>) = total_of rt a \<and>
    available_of rt (a\<lparr>ra_total_allocations := n\<rparr>) = available_of rt a \<and> total_of rt (a\<lparr>ra_total_allocations := n\<rparr>) = total_of rt a \<and>
    available_of rt (a\<lparr>ra_total_denials := n\<rparr>) = available_of rt a \<and> total_of rt (a\<lparr>ra_total_denials := n\<rparr>) = total_of rt a" for rt
    by (cases rt) simp_all
  then show
    "avail (a\<lparr>ra_last_update := x\<rparr>) = avail a" "totals (a\<lparr>ra_last_update := x\<rparr>) = totals a"
    "avail (a\<lparr>ra_events := e\<rparr>) = avail a" "totals (a\<lparr>ra_events := e\<rparr>) = totals a"
    "avail (a\<lparr>ra_total_allocations := n\<rparr>) = avail a" "totals (a\<lparr>ra_total_allocations := n\<rparr>) = totals a"
    "avail (a\<lparr>ra_total_denials := n\<rparr>) = avail a" "totals (a\<lparr>ra_total_denials := n\<rparr>) = totals a"
    by (auto intro!: books_frame)
qed

lemma allocate_books:
  assumes "pools_ok T a" and "length (ra_events a) < MAX_ALLOCATION_EVENTS" and "allocate i rt req t t2 a = (a', r)"
  shows "pools_ok T a' \<and> ra_spec T (books a) (RaAllocate rt req t t2) = (books a', RaCode r)"
proof -
  have n: "length (ra_events a) < 2048" using assms(2) by (simp add: MAX_ALLOCATION_EVENTS_def)
  have T: "totals a = T" and le: "avail a q \<le> T q" for q using assms(1) by (simp_all add: pools_ok_def)
  show ?thesis
  proof (cases "rt = RESOURCE_TYPE_GPU")
    case True
    with assms(3) n T le show ?thesis by (auto simp: allocate_def books_def pools_ok_def Let_def)
  next
    case False
    then obtain v where v: "available_of rt a = Some v" "unat v = avail a rt" using avail_Some by blast
    have enough: "v \<ge> req \<longleftrightarrow> \<not> T rt < T rt - avail a rt + unat req"
      using le [of rt] v(2) by (simp add: word_le_nat_alt) linarith
    show ?thesis
    proof (cases "v \<ge> req")
      case True
      then have sub: "unat (v - req) = avail a rt - unat req" "unat req \<le> avail a rt"
        using v(2) by (simp_all add: unat_sub word_le_nat_alt)
      have a': "avail a' = (\<lambda>q. if pool q = pool rt then avail a rt - unat req else avail a q)" "totals a' = T"
          "length (ra_events a') = Suc (length (ra_events a))" "r = 0"
        using assms(3) v True False sub T
        by (auto simp: allocate_def Let_def avail_set totals_set fun_eq_iff split: if_splits)
      have "(T q - (avail a rt - unat req)) = T q - avail a q + unat req" if "pool q = pool rt" for q
        using avail_pool [OF that, of a] totals_pool [OF that, of a] le [of rt] sub(2) T by simp
      moreover have "avail a' q \<le> T q" for q
        using a'(1) le [of q] avail_pool [of q rt a] by (auto intro: le_trans [OF diff_le_self])
      ultimately show ?thesis using a' enough True False n T by (auto simp: books_def pools_ok_def fun_eq_iff)
    next
      case no: False
      with assms(3) v False n T le enough show ?thesis by (auto simp: allocate_def books_def pools_ok_def Let_def)
    qed
  qed
qed

definition release_effect :: "ResourceType \<Rightarrow> u64 \<Rightarrow> time_t \<Rightarrow> ResourceAllocator \<Rightarrow> ResourceAllocator \<times> int" where
  "release_effect rt amt t a = (case available_of rt a of None \<Rightarrow> (a, -1)
     | Some v \<Rightarrow> ((set_available rt (if v + amt > total_of rt a then total_of rt a else v + amt) a)\<lparr>ra_last_update := t\<rparr>, 0))"

lemma release_resource_effect: "ra_release_resource g k p rt amt t = with_allocator k g (release_effect rt amt t)"
  unfolding ra_release_resource_def release_effect_def [abs_def] Let_def ..

lemma release_books:
  assumes "pools_ok T a" and "ra_fits T (RaRelease rt amt t)" and "release_effect rt amt t a = (a', r)"
  shows "pools_ok T a' \<and> ra_spec T (books a) (RaRelease rt amt t) = (books a', RaCode r)"
proof (cases "rt = RESOURCE_TYPE_GPU")
  case True
  with assms show ?thesis by (auto simp: release_effect_def books_def)
next
  case False
  have T: "totals a = T" and le: "avail a q \<le> T q" for q using assms(1) by (simp_all add: pools_ok_def)
  obtain v where v: "available_of rt a = Some v" "unat v = avail a rt" using avail_Some False by blast
  have tot: "unat (total_of rt a) = T rt" using T by (auto simp: totals_def)
  have "unat v + unat amt < 18446744073709551616" using assms(2) le [of rt] v(2) by simp
  then have sum: "unat (v + amt) = avail a rt + unat amt" using v(2) by (simp add: unat_word_ariths)
  let ?new = "if v + amt > total_of rt a then total_of rt a else v + amt"
  have new: "unat ?new = min (T rt) (avail a rt + unat amt)"
    using sum tot by (auto simp: word_less_nat_alt)
  have a': "avail a' = (\<lambda>q. if pool q = pool rt then min (T rt) (avail a rt + unat amt) else avail a q)"
      "totals a' = T" "length (ra_events a') = length (ra_events a)" "r = 0"
    using assms(3) v False new T by (auto simp: release_effect_def avail_set totals_set events_set fun_eq_iff)
  have "T q - min (T rt) (avail a rt + unat amt) = T q - avail a q - unat amt \<and> min (T rt) (avail a rt + unat amt) \<le> T q"
    if "pool q = pool rt" for q
    using avail_pool [OF that, of a] totals_pool [OF that, of a] T by (auto simp: min_def)
  with a' le False T show ?thesis by (auto simp: books_def pools_ok_def fun_eq_iff)
qed

lemma available_sim:
  assumes "slot_get k (g_allocators g) = Some a" and "pools_ok T a"
  shows "ra_step k g (RaAvailable rt) = (g, snd (ra_spec T (books a) (RaAvailable rt)))"
proof -
  have "T rt - (T rt - avail a rt) = avail a rt" "totals a = T" using assms(2) by (simp_all add: pools_ok_def)
  then show ?thesis using assms(1)
    by (cases rt) (simp_all add: books_def avail_def read_slot_get ra_get_available_cpu_def
        ra_get_available_memory_def ra_get_available_disk_io_def ra_get_available_network_bandwidth_def)
qed

lemma with_allocator_elim:
  assumes "with_allocator k g f = (g', r)" and "slot_get k (g_allocators g) = Some a"
  obtains a' where "f a = (a', r)" and "slot_get k (g_allocators g') = Some a'"
proof (rule that)
  obtain as where w: "with_slot (-1) k (g_allocators g) f = (as, r)" and g': "g_allocators g' = as"
    using assms(1) by (auto simp: with_allocator_def split: prod.splits)
  show "f a = (fst (f a), r)"
    using with_slot_result [of "-1" k "g_allocators g" f] assms(2) w by (simp add: prod_eq_iff del: with_slot_result)
  show "slot_get k (g_allocators g') = Some (fst (f a))"
    using slot_get_with_slot [of k "-1" k "g_allocators g" f] assms(2) w g' by simp
qed

interpretation ra: call_refinement "ra_step k" "ra_spec T" "ra_abs k" "ra_inv T k" "ra_fits T"
  for k :: u32 and T :: "ResourceType \<Rightarrow> nat"
proof
  fix g c g' r
  assume inv: "ra_inv T k g" and ok: "ra_fits T c" and st: "ra_step k g c = (g', r)"
  then obtain a where a: "slot_get k (g_allocators g) = Some a" "pools_ok T a" by (auto simp: ra_inv_def)
  then have abs: "ra_abs k g = books a" by (simp add: ra_abs_def)
  show "ra_inv T k g' \<and> ra_spec T (ra_abs k g) c = (ra_abs k g', r)"
  proof (cases c)
    case (RaAllocate rt req t t2)
    obtain i where i: "slot_of k (g_allocators g) = Some i" "g_allocators g ! i = a"
      using a(1) by (auto simp: slot_get_def)
    show ?thesis
    proof (cases "length (ra_events a) \<ge> MAX_ALLOCATION_EVENTS")
      case True
      with RaAllocate st i inv abs show ?thesis
        by (auto simp: ra_allocate_resource_def books_def MAX_ALLOCATION_EVENTS_def)
    next
      case False
      obtain a' c' where al: "allocate (g_event_id_counter g) rt req t t2 a = (a', c')" by fastforce
      have "slot_get k (g_allocators g') = Some a'" "r = RaCode c'"
        using RaAllocate st i False al by (auto simp: ra_allocate_resource_def slot_get_update)
      with allocate_books [OF a(2) _ al] False RaAllocate abs show ?thesis
        by (auto simp: ra_inv_def ra_abs_def)
    qed
  next
    case (RaRelease rt amt t)
    then obtain c' where "with_allocator k g (release_effect rt amt t) = (g', c')" and r: "r = RaCode c'"
      using st by (auto simp: release_resource_effect split: prod.splits)
    then obtain a' where "release_effect rt amt t a = (a', c')" "slot_get k (g_allocators g') = Some a'"
      using with_allocator_elim [OF _ a(1)] by metis
    with release_books [OF a(2)] ok RaRelease r abs show ?thesis
      by (auto simp: ra_inv_def ra_abs_def simp del: ra_spec.simps)
  next
    case (RaAvailable rt)
    with available_sim [OF a, of rt] st inv abs show ?thesis by (cases "books a") (auto simp del: ra_step.simps)
  qed
qed

section \<open>Properties\<close>

lemma created_allocator:
  assumes "ra_create_allocator g name cpu mb net t t2 = (g', r)" and "r \<noteq> -1"
  shows "\<exists>a. slot_get (of_int r) (g_allocators g') = Some a \<and> pools_ok (totals a) a \<and> books a = (\<lambda>_. 0, 0) \<and>
    totals a = (\<lambda>rt. case rt of RESOURCE_TYPE_CPU \<Rightarrow> unat cpu | RESOURCE_TYPE_MEMORY \<Rightarrow> unat (mb * 1024 * 1024)
      | RESOURCE_TYPE_DISK_IO \<Rightarrow> 1073741824 | RESOURCE_TYPE_GPU \<Rightarrow> 0 | _ \<Rightarrow> unat net)"
proof -
  let ?n = "length (g_allocators g)"
  from assms obtain nm where nm: "name = Some nm" "?n < MAX_RESOURCE_ALLOCATORS"
    by (auto simp: ra_create_allocator_def split: option.splits if_splits)
  then have len: "?n < 4294967295" by (simp add: MAX_RESOURCE_ALLOCATORS_def)
  from assms nm obtain a where a: "g_allocators g' = g_allocators g @ [a]" "r = sint (of_nat ?n + 1 :: u32)"
      "ra_total_cpu_cores a = cpu" "ra_available_cpu_cores a = cpu" "ra_total_memory_bytes a = mb * 1024 * 1024"
      "ra_available_memory_bytes a = mb * 1024 * 1024" "ra_total_disk_io_bps a = 1073741824"
      "ra_available_disk_io_bps a = 1073741824" "ra_total_network_bandwidth_bps a = net"
      "ra_available_network_bandwidth_bps a = net" "ra_events a = []"
    by (fastforce simp: ra_create_allocator_def Let_def split: if_splits)
  have same: "avail a rt = totals a rt" for rt using a by (cases rt) (simp_all add: avail_def totals_def)
  have "totals a = (\<lambda>rt. case rt of RESOURCE_TYPE_CPU \<Rightarrow> unat cpu | RESOURCE_TYPE_MEMORY \<Rightarrow> unat (mb * 1024 * 1024)
      | RESOURCE_TYPE_DISK_IO \<Rightarrow> 1073741824 | RESOURCE_TYPE_GPU \<Rightarrow> 0 | _ \<Rightarrow> unat net)"
    using a by (auto simp: totals_def fun_eq_iff split: ResourceType.split)
  moreover have "slot_get (of_int r) (g_allocators g') = Some a" using slot_get_snoc(1) [OF len] a(1,2) by simp
  moreover have "pools_ok (totals a) a" "books a = (\<lambda>_. 0, 0)" using same a(11) by (simp_all add: pools_ok_def books_def)
  ultimately show ?thesis by blast
qed

text \<open>
  A release so large that the sum wraps around lowers the available amount instead of raising it.
\<close>

lemma ra_release_wraps:
  "available_of RESOURCE_TYPE_CPU a = Some 5 \<Longrightarrow> ra_total_cpu_cores a = 8 \<Longrightarrow>
   available_of RESOURCE_TYPE_CPU (fst (release_effect RESOURCE_TYPE_CPU (-1) t a)) = Some 4"
  by (simp add: release_effect_def)

text \<open>
  Claim C26. The allocator keeps exact books: from its creation on, over any history of
  allocations, releases and queries whose released amounts do not wrap around, an allocation
  succeeds exactly when the amount in use plus the request is within the total of its pool and
  fewer than 2048 allocations were attempted, the amount in use is what was granted less what was
  released (never below zero), and the available amount reported is the total less that. There is no
  pool of GPUs: requests and releases of that type always fail.
\<close>

theorem ra_keeps_books:
  assumes "ra_create_allocator g0 name cpu mb net t0 t1 = (g, r)" and "r \<noteq> -1"
    and "T = (\<lambda>rt. case rt of RESOURCE_TYPE_CPU \<Rightarrow> unat cpu | RESOURCE_TYPE_MEMORY \<Rightarrow> unat (mb * 1024 * 1024)
      | RESOURCE_TYPE_DISK_IO \<Rightarrow> 1073741824 | RESOURCE_TYPE_GPU \<Rightarrow> 0 | _ \<Rightarrow> unat net)"
    and "list_all (ra_fits T) cs"
  shows "snd (call_run (ra_step (of_int r)) g cs) = snd (call_run (ra_spec T) (\<lambda>_. 0, 0) cs) \<and>
    ra_abs (of_int r) (fst (call_run (ra_step (of_int r)) g cs)) = fst (call_run (ra_spec T) (\<lambda>_. 0, 0) cs)"
proof -
  from created_allocator [OF assms(1,2), folded assms(3)] obtain a where
    "slot_get (of_int r) (g_allocators g) = Some a" "pools_ok T a" "books a = (\<lambda>_. 0, 0)" by auto
  then have "ra_inv T (of_int r) g" and e: "ra_abs (of_int r) g = (\<lambda>_. 0, 0)"
    by (simp_all add: ra_inv_def ra_abs_def)
  from ra.run_results(1,2) [OF this(1) assms(4)] show ?thesis unfolding e by blast
qed

definition ra_one :: AllocatorState where
  "ra_one = fst (ra_create_allocator ra_initial (Some ''node'') 8 16 1000 0 0)"

theorem ra_keeps_books_witness:
  "snd (call_run (ra_step 1) ra_one
     [RaAllocate RESOURCE_TYPE_CPU 5 0 0, RaAllocate RESOURCE_TYPE_CPU 4 0 0, RaAvailable RESOURCE_TYPE_CPU,
      RaRelease RESOURCE_TYPE_CPU 2 0, RaAllocate RESOURCE_TYPE_CPU 4 0 0, RaAvailable RESOURCE_TYPE_CPU,
      RaAllocate RESOURCE_TYPE_GPU 1 0 0]) =
   [RaCode 0, RaCode (-1), RaAmount 3, RaCode 0, RaCode 0, RaAmount 1, RaCode (-1)]"
proof -
  have "ra_create_allocator ra_initial (Some ''node'') 8 16 1000 0 0 = (ra_one, 1)"
    by (simp add: ra_one_def ra_create_allocator_def ra_initial_def MAX_RESOURCE_ALLOCATORS_def Let_def)
  from ra_keeps_books [OF this _ refl, of "[RaAllocate RESOURCE_TYPE_CPU 5 0 0, RaAllocate RESOURCE_TYPE_CPU 4 0 0,
      RaAvailable RESOURCE_TYPE_CPU, RaRelease RESOURCE_TYPE_CPU 2 0, RaAllocate RESOURCE_TYPE_CPU 4 0 0,
      RaAvailable RESOURCE_TYPE_CPU, RaAllocate RESOURCE_TYPE_GPU 1 0 0]"]
  show ?thesis by simp
qed

end
