(* ===== verification/Dist_Cache.thy ===== *)
theory Dist_Cache
  imports Service_Tables
begin

text \<open>
  The distributed cache of \<open>src/services/dist_cache.c\<close>: caches with nodes of 16 partitions each; a
  key is stored on the node and in the partition its hash selects. A value is the list of its
  bytes; the block \<open>malloc\<close> gave for it when its entry was created keeps its size, which is the
  ghost field \<open>ce_block\<close>: writing more bytes to it is undefined. Whether \<open>malloc\<close> succeeds and the
  readings of the clock are arguments. Ages are differences of unsigned 64-bit numbers.

  The second half shows that, as long as the nodes stay the same, a cache is a map with expiry.
\<close>

unbundle bit_operations_syntax

section \<open>Constants and data\<close>

definition MAX_CACHE_ENTRIES :: nat where "MAX_CACHE_ENTRIES = 8192"
definition MAX_CACHE_NODES :: nat where "MAX_CACHE_NODES = 64"
definition MAX_KEY_SIZE :: nat where "MAX_KEY_SIZE = 256"
definition MAX_VALUE_SIZE :: u64 where "MAX_VALUE_SIZE = 65536"
definition MAX_CACHE_PARTITIONS :: nat where "MAX_CACHE_PARTITIONS = 16"

datatype CacheEvictionPolicy = CACHE_LRU | CACHE_LFU | CACHE_ARC | CACHE_FIFO

record CacheEntry =
  ce_key :: string
  ce_value :: "u8 list"
  ce_block :: nat
  ce_creation_time :: u64
  ce_last_access_time :: u64
  ce_access_count :: u32
  ce_ttl_seconds :: u32
  ce_is_expired :: bool

record CachePartition =
  pa_partition_id :: u32
  pa_entries :: "CacheEntry list"
  pa_hits :: u64
  pa_misses :: u64
  pa_bytes_used :: u64
  pa_max_bytes :: u32

record CacheNode =
  cn_node_id :: u32
  cn_ip_address :: u32
  cn_port :: u16
  cn_is_primary :: bool
  cn_is_alive :: bool
  cn_last_heartbeat :: u64
  cn_partitions :: "CachePartition list"

record DistributedCache =
  dc_cache_id :: u32
  dc_name :: string
  dc_nodes :: "CacheNode list"
  dc_eviction_policy :: CacheEvictionPolicy
  dc_max_memory_mb :: u32
  dc_partition_count :: u32
  dc_total_hits :: u64
  dc_total_misses :: u64
  dc_total_bytes_stored :: u64
  dc_enable_replication :: bool

type_synonym caches = "DistributedCache list"

section \<open>Caches and nodes\<close>

definition dcache_create :: "caches \<Rightarrow> string option \<Rightarrow> CacheEvictionPolicy \<Rightarrow> u32 \<Rightarrow> caches \<times> int" where
  "dcache_create cs name policy max_memory_mb =
     (case name of None \<Rightarrow> (cs, -1)
      | Some nm \<Rightarrow>
          if length cs \<ge> 8 then (cs, -1)
          else let cid = of_nat (length cs) + 1
               in (cs @ [\<lparr>dc_cache_id = cid, dc_name = take 63 nm, dc_nodes = [], dc_eviction_policy = policy,
                     dc_max_memory_mb = max_memory_mb, dc_partition_count = of_nat MAX_CACHE_PARTITIONS,
                     dc_total_hits = 0, dc_total_misses = 0, dc_total_bytes_stored = 0,
                     dc_enable_replication = False\<rparr>], sint cid))"

definition empty_partition :: "u32 \<Rightarrow> nat \<Rightarrow> CachePartition" where
  "empty_partition max_memory_mb i =
     \<lparr>pa_partition_id = of_nat i, pa_entries = [], pa_hits = 0, pa_misses = 0, pa_bytes_used = 0,
      pa_max_bytes = (max_memory_mb * 1024 * 1024) div of_nat MAX_CACHE_PARTITIONS\<rparr>"

definition dcache_add_node :: "caches \<Rightarrow> u32 \<Rightarrow> u32 \<Rightarrow> u16 \<Rightarrow> time_t \<Rightarrow> caches \<times> int" where
  "dcache_add_node cs cache_id ip port now = with_slot (-1) cache_id cs (\<lambda>c.
     if length (dc_nodes c) \<ge> MAX_CACHE_NODES then (c, -1)
     else let nid = of_nat (length (dc_nodes c)) + 1
          in (c\<lparr>dc_nodes := dc_nodes c @ [\<lparr>cn_node_id = nid, cn_ip_address = ip, cn_port = port,
                cn_is_primary = (dc_nodes c = []), cn_is_alive = True, cn_last_heartbeat = of_int now,
                cn_partitions = map (empty_partition (dc_max_memory_mb c)) [0..<MAX_CACHE_PARTITIONS]\<rparr>]\<rparr>, sint nid))"

definition dcache_remove_node :: "caches \<Rightarrow> u32 \<Rightarrow> u32 \<Rightarrow> caches \<times> int" where
  "dcache_remove_node cs cache_id node_id = with_slot (-1) cache_id cs (\<lambda>c.
     let (ns, r) = delete_slot node_id (dc_nodes c) in (c\<lparr>dc_nodes := ns\<rparr>, r))"

definition dcache_promote_replica :: "caches \<Rightarrow> u32 \<Rightarrow> u32 \<Rightarrow> caches \<times> int" where
  "dcache_promote_replica cs cache_id node_id = with_slot (-1) cache_id cs (\<lambda>c.
     case slot_of node_id (dc_nodes c) of None \<Rightarrow> (c, -1)
     | Some i \<Rightarrow>
         let ns = map (\<lambda>n. n\<lparr>cn_is_primary := False\<rparr>) (dc_nodes c)
         in (c\<lparr>dc_nodes := ns[i := (ns ! i)\<lparr>cn_is_primary := True\<rparr>]\<rparr>, 0))"

fun hash_loop :: "u32 \<Rightarrow> string \<Rightarrow> u32" where
  "hash_loop hash [] = hash"
| "hash_loop hash (c # cs) = hash_loop ((push_bit 5 hash + hash) XOR of_int (char_int c)) cs"

definition dcache_hash_key :: "string \<Rightarrow> u32" where
  "dcache_hash_key key = hash_loop 0 key"

definition dcache_get_partition_for_key :: "caches \<Rightarrow> u32 \<Rightarrow> string option \<Rightarrow> u32" where
  "dcache_get_partition_for_key cs cache_id key =
     (case (key, slot_of cache_id cs) of
        (Some k, Some i) \<Rightarrow> dcache_hash_key k mod of_nat MAX_CACHE_PARTITIONS | _ \<Rightarrow> 0)"

text \<open>The node and the partition of a key; \<open>n\<close> is the number of nodes.\<close>

definition place :: "nat \<Rightarrow> string \<Rightarrow> nat \<times> nat" where
  "place n key = (unat (dcache_hash_key key mod of_nat n), unat (dcache_hash_key key mod of_nat MAX_CACHE_PARTITIONS))"

definition partition_of :: "DistributedCache \<Rightarrow> string \<Rightarrow> CachePartition" where
  "partition_of c key = (let (i, j) = place (length (dc_nodes c)) key in cn_partitions (dc_nodes c ! i) ! j)"

definition set_partition :: "string \<Rightarrow> CachePartition \<Rightarrow> DistributedCache \<Rightarrow> DistributedCache" where
  "set_partition key p c =
     (let (i, j) = place (length (dc_nodes c)) key; node = dc_nodes c ! i
      in c\<lparr>dc_nodes := (dc_nodes c)[i := node\<lparr>cn_partitions := (cn_partitions node)[j := p]\<rparr>]\<rparr>)"

definition find_key :: "string \<Rightarrow> CachePartition \<Rightarrow> nat option" where
  "find_key key p = first_idx (\<lambda>e. ce_key e = key) (pa_entries p)"

section \<open>Values\<close>

definition new_cache_entry :: "string \<Rightarrow> u8 list \<Rightarrow> u32 \<Rightarrow> time_t \<Rightarrow> CacheEntry" where
  "new_cache_entry key bytes ttl_seconds now =
     \<lparr>ce_key = take (MAX_KEY_SIZE - 1) key, ce_value = bytes, ce_block = length bytes,
      ce_creation_time = of_int now, ce_last_access_time = of_int now, ce_access_count = 0,
      ce_ttl_seconds = ttl_seconds, ce_is_expired = False\<rparr>"

definition dcache_put ::
    "caches \<Rightarrow> u32 \<Rightarrow> string option \<Rightarrow> u8 list option \<Rightarrow> u64 \<Rightarrow> u32 \<Rightarrow> bool \<Rightarrow> time_t \<Rightarrow> (caches \<times> int) outcome" where
  "dcache_put cs cache_id key value value_size ttl_seconds block_ok now =
     (case (key, value) of
        (Some k, Some v) \<Rightarrow> with_slot_ub (-1) cache_id cs (\<lambda>c.
          if value_size > MAX_VALUE_SIZE \<or> dc_nodes c = [] then Done (c, -1)
          else let p = partition_of c k; bytes = take (unat value_size) v; short = length v < unat value_size in
          case find_key k p of
            Some i \<Rightarrow>
              let e = pa_entries p ! i in
              if short \<or> ce_block e < unat value_size then Undef
              else let e' = e\<lparr>ce_value := bytes, ce_last_access_time := of_int now,
                              ce_ttl_seconds := ttl_seconds, ce_is_expired := False\<rparr>
                   in Done (set_partition k (p\<lparr>pa_entries := (pa_entries p)[i := e'],
                          pa_bytes_used := pa_bytes_used p - of_nat (length (ce_value e)) + value_size\<rparr>) c, 0)
          | None \<Rightarrow>
              if length (pa_entries p) \<ge> MAX_CACHE_ENTRIES \<or> \<not> block_ok then Done (c, -1)
              else if short then Undef
              else Done ((set_partition k (p\<lparr>pa_entries := pa_entries p @ [new_cache_entry k bytes ttl_seconds now],
                            pa_bytes_used := pa_bytes_used p + value_size\<rparr>) c)
                       \<lparr>dc_total_bytes_stored := dc_total_bytes_stored c + value_size\<rparr>, 0))
      | _ \<Rightarrow> Done (cs, -1))"

definition too_old :: "time_t \<Rightarrow> CacheEntry \<Rightarrow> bool" where
  "too_old now e \<longleftrightarrow> ce_ttl_seconds e > 0 \<and> of_int now - ce_creation_time e > ucast (ce_ttl_seconds e)"

definition miss :: "string \<Rightarrow> CachePartition \<Rightarrow> DistributedCache \<Rightarrow> DistributedCache \<times> u8 list option" where
  "miss key p c =
     ((set_partition key (p\<lparr>pa_misses := pa_misses p + 1\<rparr>) c)\<lparr>dc_total_misses := dc_total_misses c + 1\<rparr>, None)"

text \<open>\<open>value_size\<close> says whether the output pointer is given; the pointer returned is the value.\<close>

definition dcache_get ::
    "caches \<Rightarrow> u32 \<Rightarrow> string option \<Rightarrow> bool \<Rightarrow> time_t \<Rightarrow> caches \<times> u8 list option" where
  "dcache_get cs cache_id key value_size now =
     (case key of None \<Rightarrow> (cs, None)
      | Some k \<Rightarrow>
          if \<not> value_size then (cs, None)
          else with_slot None cache_id cs (\<lambda>c.
            if dc_nodes c = [] then (c, None)
            else let p = partition_of c k in
            case find_key k p of None \<Rightarrow> miss k p c
            | Some i \<Rightarrow>
                let e = pa_entries p ! i in
                if ce_is_expired e then miss k p c
                else if too_old now e
                then miss k (p\<lparr>pa_entries := (pa_entries p)[i := e\<lparr>ce_is_expired := True\<rparr>]\<rparr>) c
                else ((set_partition k (p\<lparr>pa_entries := (pa_entries p)[i := e\<lparr>ce_last_access_time := of_int now,
                           ce_access_count := ce_access_count e + 1\<rparr>], pa_hits := pa_hits p + 1\<rparr>) c)
                        \<lparr>dc_total_hits := dc_total_hits c + 1\<rparr>, Some (ce_value e))))"

definition dcache_delete :: "caches \<Rightarrow> u32 \<Rightarrow> string option \<Rightarrow> caches \<times> int" where
  "dcache_delete cs cache_id key =
     (case key of None \<Rightarrow> (cs, -1)
      | Some k \<Rightarrow> with_slot (-1) cache_id cs (\<lambda>c.
          if dc_nodes c = [] then (c, -1)
          else let p = partition_of c k in
          case find_key k p of None \<Rightarrow> (c, -1)
          | Some i \<Rightarrow>
              let n = of_nat (length (ce_value (pa_entries p ! i))); es = pa_entries p
              in ((set_partition k (p\<lparr>pa_entries := take (length es - 1) (shift_down i (length es) es),
                      pa_bytes_used := pa_bytes_used p - n\<rparr>) c)
                    \<lparr>dc_total_bytes_stored := dc_total_bytes_stored c - n\<rparr>, 0)))"

definition dcache_exists :: "caches \<Rightarrow> u32 \<Rightarrow> string option \<Rightarrow> time_t \<Rightarrow> caches \<times> int" where
  "dcache_exists cs cache_id key now =
     (if key = None \<or> slot_of cache_id cs = None then (cs, 0)
      else let (cs', v) = dcache_get cs cache_id key True now in (cs', if v \<noteq> None then 1 else 0))"

section \<open>Replication, expiry and statistics\<close>

definition dcache_enable_replication :: "caches \<Rightarrow> u32 \<Rightarrow> u8 \<Rightarrow> caches \<times> int" where
  "dcache_enable_replication cs cache_id num_replicas = with_slot (-1) cache_id cs (\<lambda>c.
     if unat num_replicas > length (dc_nodes c) then (c, -1) else (c\<lparr>dc_enable_replication := True\<rparr>, 0))"

definition dcache_sync_node :: "caches \<Rightarrow> u32 \<Rightarrow> u32 \<Rightarrow> time_t \<Rightarrow> caches \<times> int" where
  "dcache_sync_node cs cache_id node_id now = with_slot (-1) cache_id cs (\<lambda>c.
     let (ns, r) = with_slot (-1) node_id (dc_nodes c) (\<lambda>n. (n\<lparr>cn_last_heartbeat := of_int now\<rparr>, 0))
     in (c\<lparr>dc_nodes := ns\<rparr>, r))"

definition dcache_invalidate_key :: "caches \<Rightarrow> u32 \<Rightarrow> string option \<Rightarrow> caches \<times> int" where
  "dcache_invalidate_key cs cache_id key = dcache_delete cs cache_id key"

definition dcache_invalidate_pattern :: "caches \<Rightarrow> u32 \<Rightarrow> string option \<Rightarrow> int" where
  "dcache_invalidate_pattern cs cache_id pattern =
     (case pattern of None \<Rightarrow> -1 | Some p \<Rightarrow> read_slot (-1) cache_id cs (\<lambda>c. 0))"

definition dcache_update_ttl :: "caches \<Rightarrow> u32 \<Rightarrow> string option \<Rightarrow> u32 \<Rightarrow> caches \<times> int" where
  "dcache_update_ttl cs cache_id key ttl_seconds =
     (case key of None \<Rightarrow> (cs, -1)
      | Some k \<Rightarrow> with_slot (-1) cache_id cs (\<lambda>c.
          if dc_nodes c = [] then (c, -1)
          else let p = partition_of c k in
          case find_key k p of None \<Rightarrow> (c, -1)
          | Some i \<Rightarrow> (set_partition k (p\<lparr>pa_entries := (pa_entries p)[i :=
                          (pa_entries p ! i)\<lparr>ce_ttl_seconds := ttl_seconds\<rparr>]\<rparr>) c, 0)))"

definition map_partitions :: "(CachePartition \<Rightarrow> CachePartition) \<Rightarrow> DistributedCache \<Rightarrow> DistributedCache" where
  "map_partitions f c = c\<lparr>dc_nodes := map (\<lambda>n. n\<lparr>cn_partitions := map f (cn_partitions n)\<rparr>) (dc_nodes c)\<rparr>"

definition all_entries :: "DistributedCache \<Rightarrow> CacheEntry list" where
  "all_entries c = concat (map (\<lambda>n. concat (map pa_entries (cn_partitions n))) (dc_nodes c))"

definition dcache_expire_old_entries :: "caches \<Rightarrow> u32 \<Rightarrow> time_t \<Rightarrow> caches \<times> int" where
  "dcache_expire_old_entries cs cache_id now = with_slot (-1) cache_id cs (\<lambda>c.
     (map_partitions (\<lambda>p. p\<lparr>pa_entries := map (\<lambda>e. if too_old now e then e\<lparr>ce_is_expired := True\<rparr> else e)
        (pa_entries p)\<rparr>) c,
      int (length (filter (too_old now) (all_entries c)))))"

definition dcache_set_global_ttl :: "caches \<Rightarrow> u32 \<Rightarrow> u32 \<Rightarrow> int" where
  "dcache_set_global_ttl cs cache_id ttl_seconds = read_slot (-1) cache_id cs (\<lambda>c. 0)"

definition dcache_rebalance_partitions :: "caches \<Rightarrow> u32 \<Rightarrow> int" where
  "dcache_rebalance_partitions cs cache_id = read_slot (-1) cache_id cs (\<lambda>c. 0)"

definition dcache_migrate_partition :: "caches \<Rightarrow> u32 \<Rightarrow> u32 \<Rightarrow> u32 \<Rightarrow> u32 \<Rightarrow> int" where
  "dcache_migrate_partition cs cache_id src_node dst_node partition_id = read_slot (-1) cache_id cs (\<lambda>c. 0)"

definition dcache_get_info :: "caches \<Rightarrow> u32 \<Rightarrow> nat option" where
  "dcache_get_info cs cache_id = slot_of cache_id cs"

definition dcache_get_hit_rate :: "caches \<Rightarrow> u32 \<Rightarrow> u64" where
  "dcache_get_hit_rate cs cache_id = read_slot 0 cache_id cs (\<lambda>c.
     let all = dc_total_hits c + dc_total_misses c in if all = 0 then 0 else (dc_total_hits c * 100) div all)"

definition dcache_get_memory_usage :: "caches \<Rightarrow> u32 \<Rightarrow> u64" where
  "dcache_get_memory_usage cs cache_id = read_slot 0 cache_id cs dc_total_bytes_stored"

definition dcache_flush_all :: "caches \<Rightarrow> u32 \<Rightarrow> caches \<times> int" where
  "dcache_flush_all cs cache_id = with_slot (-1) cache_id cs (\<lambda>c.
     ((map_partitions (\<lambda>p. p\<lparr>pa_entries := [], pa_bytes_used := 0, pa_hits := 0, pa_misses := 0\<rparr>) c)
        \<lparr>dc_total_bytes_stored := 0, dc_total_hits := 0, dc_total_misses := 0\<rparr>, 0))"

text \<open>Here the age is cut to 32 bits before it is compared.\<close>

definition stale :: "time_t \<Rightarrow> CacheEntry \<Rightarrow> bool" where
  "stale now e \<longleftrightarrow> ce_is_expired e \<or>
     ce_ttl_seconds e > 0 \<and> (ucast (of_int now - ce_creation_time e) :: u32) > ce_ttl_seconds e"

definition entry_bytes :: "CacheEntry list \<Rightarrow> u64" where
  "entry_bytes es = sum_list (map (\<lambda>e. of_nat (length (ce_value e))) es)"

definition dcache_cleanup_expired :: "caches \<Rightarrow> u32 \<Rightarrow> time_t \<Rightarrow> caches \<times> int" where
  "dcache_cleanup_expired cs cache_id now = with_slot (-1) cache_id cs (\<lambda>c.
     let dead = filter (stale now) (all_entries c) in
     ((map_partitions (\<lambda>p. p\<lparr>pa_entries := compact (\<lambda>e. \<not> stale now e) (\<lambda>e. e) (pa_entries p),
         pa_bytes_used := pa_bytes_used p - entry_bytes (filter (stale now) (pa_entries p))\<rparr>) c)
        \<lparr>dc_total_bytes_stored := dc_total_bytes_stored c - entry_bytes dead\<rparr>,
      int (length dead)))"

section \<open>The abstract cache\<close>

text \<open>
  A line of the abstract cache: the value, the size of the block it lives in, when the block was
  made, the time to live and the expiry mark. The specification below never mentions nodes,
  partitions or positions; only its capacity depends on how keys are placed.
\<close>

record line =
  ln_value :: "u8 list"
  ln_block :: nat
  ln_created :: u64
  ln_ttl :: u32
  ln_expired :: bool

type_synonym cache_model = "string \<rightharpoonup> line"

datatype dcache_call =
  CachePut string "u8 list" u32 bool time_t | CacheGet string time_t | CacheDelete string
  | CacheExists string time_t | CacheTtl string u32 | CacheFlush | CacheExpire time_t | CacheCleanup time_t

datatype dcache_reply = Code int | Found "u8 list option" | Undefined

fun dcache_step :: "u32 \<Rightarrow> caches \<Rightarrow> dcache_call \<Rightarrow> caches \<times> dcache_reply" where
  "dcache_step cid cs (CachePut k v ttl block_ok now) =
     (case dcache_put cs cid (Some k) (Some v) (of_nat (length v)) ttl block_ok now of
        Undef \<Rightarrow> (cs, Undefined) | Done (cs', r) \<Rightarrow> (cs', Code r))"
| "dcache_step cid cs (CacheGet k now) = (let (cs', r) = dcache_get cs cid (Some k) True now in (cs', Found r))"
| "dcache_step cid cs (CacheDelete k) = (let (cs', r) = dcache_delete cs cid (Some k) in (cs', Code r))"
| "dcache_step cid cs (CacheExists k now) = (let (cs', r) = dcache_exists cs cid (Some k) now in (cs', Code r))"
| "dcache_step cid cs (CacheTtl k ttl) = (let (cs', r) = dcache_update_ttl cs cid (Some k) ttl in (cs', Code r))"
| "dcache_step cid cs CacheFlush = (let (cs', r) = dcache_flush_all cs cid in (cs', Code r))"
| "dcache_step cid cs (CacheExpire now) = (let (cs', r) = dcache_expire_old_entries cs cid now in (cs', Code r))"
| "dcache_step cid cs (CacheCleanup now) = (let (cs', r) = dcache_cleanup_expired cs cid now in (cs', Code r))"

definition outlived :: "time_t \<Rightarrow> line \<Rightarrow> bool" where
  "outlived now l \<longleftrightarrow> ln_ttl l > 0 \<and> of_int now - ln_created l > ucast (ln_ttl l)"

text \<open>What a clean-up removes; it compares the age cut to 32 bits.\<close>

definition stale_line :: "time_t \<Rightarrow> line \<Rightarrow> bool" where
  "stale_line now l \<longleftrightarrow> ln_expired l \<or> ln_ttl l > 0 \<and> (ucast (of_int now - ln_created l) :: u32) > ln_ttl l"

definition sweep_lines :: "(line \<Rightarrow> line option) \<Rightarrow> cache_model \<Rightarrow> cache_model" where
  "sweep_lines g m = (\<lambda>k. Option.bind (m k) g)"

definition lines_with :: "(line \<Rightarrow> bool) \<Rightarrow> cache_model \<Rightarrow> string set" where
  "lines_with Q m = {k. \<exists>l. m k = Some l \<and> Q l}"

definition neighbours :: "nat \<Rightarrow> cache_model \<Rightarrow> string \<Rightarrow> string set" where
  "neighbours n m k = {k' \<in> dom m. place n k' = place n k}"

definition read_line :: "cache_model \<Rightarrow> string \<Rightarrow> time_t \<Rightarrow> cache_model \<times> u8 list option" where
  "read_line m k now =
     (case m k of None \<Rightarrow> (m, None)
      | Some l \<Rightarrow>
          if ln_expired l then (m, None)
          else if outlived now l then (m(k \<mapsto> l\<lparr>ln_expired := True\<rparr>), None)
          else (m, Some (ln_value l)))"

fun dcache_spec :: "nat \<Rightarrow> cache_model \<Rightarrow> dcache_call \<Rightarrow> cache_model \<times> dcache_reply" where
  "dcache_spec n m (CachePut k v ttl block_ok now) =
     (if length v > 65536 then (m, Code (-1))
      else case m k of
        Some l \<Rightarrow>
          if length v > ln_block l then (m, Undefined)
          else (m(k \<mapsto> l\<lparr>ln_value := v, ln_ttl := ttl, ln_expired := False\<rparr>), Code 0)
      | None \<Rightarrow>
          if card (neighbours n m k) \<ge> 8192 \<or> \<not> block_ok then (m, Code (-1))
          else (m(k \<mapsto> \<lparr>ln_value = v, ln_block = length v, ln_created = of_int now, ln_ttl = ttl,
                         ln_expired = False\<rparr>), Code 0))"
| "dcache_spec n m (CacheGet k now) = (let (m', r) = read_line m k now in (m', Found r))"
| "dcache_spec n m (CacheDelete k) = (if m k = None then (m, Code (-1)) else (m(k := None), Code 0))"
| "dcache_spec n m (CacheExists k now) =
     (let (m', r) = read_line m k now in (m', Code (if r \<noteq> None then 1 else 0)))"
| "dcache_spec n m (CacheTtl k ttl) =
     (case m k of None \<Rightarrow> (m, Code (-1)) | Some l \<Rightarrow> (m(k \<mapsto> l\<lparr>ln_ttl := ttl\<rparr>), Code 0))"
| "dcache_spec n m CacheFlush = (Map.empty, Code 0)"
| "dcache_spec n m (CacheExpire now) =
     (sweep_lines (\<lambda>l. Some (if outlived now l then l\<lparr>ln_expired := True\<rparr> else l)) m, Code (int (card (lines_with (outlived now) m))))"
| "dcache_spec n m (CacheCleanup now) =
     (sweep_lines (\<lambda>l. if stale_line now l then None else Some l) m, Code (int (card (lines_with (stale_line now) m))))"

text \<open>Keys that fit the key array, values whose length fits \<open>size_t\<close>.\<close>

fun dcache_fits :: "dcache_call \<Rightarrow> bool" where
  "dcache_fits (CachePut k v ttl block_ok now) \<longleftrightarrow> length k < 256 \<and> length v < 18446744073709551616"
| "dcache_fits _ \<longleftrightarrow> True"

definition line_of :: "CacheEntry \<Rightarrow> line" where
  "line_of e = \<lparr>ln_value = ce_value e, ln_block = ce_block e, ln_created = ce_creation_time e,
     ln_ttl = ce_ttl_seconds e, ln_expired = ce_is_expired e\<rparr>"

definition part_map :: "CachePartition \<Rightarrow> cache_model" where
  "part_map p = table_map ce_key line_of (pa_entries p)"

definition cache_map :: "DistributedCache \<Rightarrow> cache_model" where
  "cache_map c k = part_map (partition_of c k) k"

definition part_at :: "DistributedCache \<Rightarrow> nat \<times> nat \<Rightarrow> CachePartition" where
  "part_at c = (\<lambda>(i, j). cn_partitions (dc_nodes c ! i) ! j)"

definition part_inv :: "nat \<Rightarrow> nat \<times> nat \<Rightarrow> CachePartition \<Rightarrow> bool" where
  "part_inv n ij p \<longleftrightarrow> distinct (map ce_key (pa_entries p)) \<and> length (pa_entries p) \<le> MAX_CACHE_ENTRIES \<and>
     list_all (\<lambda>e. place n (ce_key e) = ij) (pa_entries p)"

definition cache_inv :: "nat \<Rightarrow> DistributedCache \<Rightarrow> bool" where
  "cache_inv n c \<longleftrightarrow> length (dc_nodes c) = n \<and> 0 < n \<and> n \<le> MAX_CACHE_NODES \<and>
     list_all (\<lambda>d. length (cn_partitions d) = MAX_CACHE_PARTITIONS) (dc_nodes c) \<and>
     (\<forall>ij \<in> {..<n} \<times> {..<MAX_CACHE_PARTITIONS}. part_inv n ij (part_at c ij))"

definition dcache_abs :: "u32 \<Rightarrow> caches \<Rightarrow> cache_model" where
  "dcache_abs cid cs = (case slot_get cid cs of None \<Rightarrow> Map.empty | Some c \<Rightarrow> cache_map c)"

definition dcache_inv :: "u32 \<Rightarrow> nat \<Rightarrow> caches \<Rightarrow> bool" where
  "dcache_inv cid n cs \<longleftrightarrow> (\<exists>c. slot_get cid cs = Some c \<and> cache_inv n c)"

section \<open>Placement\<close>

lemma place_in_grid:
  assumes "0 < n" and "n \<le> MAX_CACHE_NODES"
  shows "place n k \<in> {..<n} \<times> {..<MAX_CACHE_PARTITIONS}"
proof -
  have "unat (of_nat n :: u32) = n" using assms(2) by (intro unat_of_nat_u32) (simp add: MAX_CACHE_NODES_def)
  then show ?thesis using assms(1) by (simp add: place_def unat_mod MAX_CACHE_PARTITIONS_def)
qed

lemma partition_of_at: "partition_of c k = part_at c (place (length (dc_nodes c)) k)"
  by (simp add: partition_of_def part_at_def Let_def split: prod.split)

lemma part_at_set:
  assumes "cache_inv n c" and "ij \<in> {..<n} \<times> {..<MAX_CACHE_PARTITIONS}"
  shows "part_at (set_partition k p c) ij = (if ij = place n k then p else part_at c ij)"
proof -
  obtain i j where ij: "place n k = (i, j)" by fastforce
  then have "i < length (dc_nodes c)" "j < MAX_CACHE_PARTITIONS"
    using place_in_grid [of n k] assms(1) by (auto simp: cache_inv_def)
  moreover from this have "length (cn_partitions (dc_nodes c ! i)) = MAX_CACHE_PARTITIONS"
    using assms(1) by (simp add: cache_inv_def list_all_length)
  moreover obtain x y where "ij = (x, y)" by fastforce
  ultimately show ?thesis
    using assms(1) ij by (cases "x = i"; cases "y = j") (auto simp: part_at_def set_partition_def cache_inv_def Let_def)
qed

lemma set_partition_spec:
  assumes "cache_inv n c" and "part_inv n (place n k) p"
  shows "cache_inv n (set_partition k p c)"
    and "cache_map (set_partition k p c) = (\<lambda>k'. if place n k' = place n k then part_map p k' else cache_map c k')"
proof -
  let ?c = "set_partition k p c"
  have len: "length (dc_nodes ?c) = length (dc_nodes c)" by (simp add: set_partition_def Let_def split: prod.split)
  have "list_all (\<lambda>d. length (cn_partitions d) = MAX_CACHE_PARTITIONS) (dc_nodes ?c)"
    using assms(1) place_in_grid [of n k]
    by (auto simp: set_partition_def cache_inv_def list_all_length nth_list_update Let_def split: prod.splits)
  then show "cache_inv n ?c"
    using assms part_at_set [OF assms(1)] len by (auto simp: cache_inv_def)
  have "place n k' \<in> {..<n} \<times> {..<MAX_CACHE_PARTITIONS}" for k'
    using assms(1) by (intro place_in_grid) (simp_all add: cache_inv_def)
  with part_at_set [OF assms(1)] len assms(1)
  show "cache_map ?c = (\<lambda>k'. if place n k' = place n k then part_map p k' else cache_map c k')"
    by (auto simp: cache_map_def partition_of_at cache_inv_def fun_eq_iff)
qed

lemma cache_map_at: "cache_inv n c \<Longrightarrow> cache_map c k = part_map (part_at c (place n k)) k"
  by (simp add: cache_map_def partition_of_at cache_inv_def)

lemma set_partition_map:
  assumes "cache_inv n c" and "part_inv n (place n k) p"
    and "part_map p = (part_map (partition_of c k))(k := x)"
  shows "cache_map (set_partition k p c) = (cache_map c)(k := x)"
proof -
  have "partition_of c k = part_at c (place n k)" using assms(1) by (simp add: partition_of_at cache_inv_def)
  then show ?thesis
    unfolding set_partition_spec(2) [OF assms(1,2)] using assms(3) cache_map_at [OF assms(1)]
    by (auto simp: fun_eq_iff)
qed

lemma part_inv_of: "cache_inv n c \<Longrightarrow> part_inv n (place n k) (partition_of c k)"
  using place_in_grid [of n k] by (auto simp: cache_inv_def partition_of_at split_paired_all)

lemma cache_sizes [simp]:
  "cache_inv n (c\<lparr>dc_total_bytes_stored := b\<rparr>) = cache_inv n c" "cache_inv n (c\<lparr>dc_total_hits := b\<rparr>) = cache_inv n c"
  "cache_inv n (c\<lparr>dc_total_misses := b\<rparr>) = cache_inv n c"
  "cache_map (c\<lparr>dc_total_bytes_stored := b\<rparr>) = cache_map c" "cache_map (c\<lparr>dc_total_hits := b\<rparr>) = cache_map c"
  "cache_map (c\<lparr>dc_total_misses := b\<rparr>) = cache_map c"
  by (simp_all add: cache_inv_def part_at_def cache_map_def partition_of_at fun_eq_iff)

section \<open>One partition\<close>

lemma find_key_map: "part_map p k = map_option (\<lambda>i. line_of (pa_entries p ! i)) (find_key k p)"
  by (simp add: part_map_def find_key_def table_map_find)

lemma find_keyD:
  assumes "find_key k p = Some i"
  shows "i < length (pa_entries p)" and "ce_key (pa_entries p ! i) = k"
  using first_idx_SomeD [OF assms [unfolded find_key_def]] by auto

lemma part_update:
  assumes "part_inv n ij p" and "find_key k p = Some i" and "ce_key e = k"
    and "pa_entries p' = (pa_entries p)[i := e]"
  shows "part_inv n ij p'" and "part_map p' = (part_map p)(k \<mapsto> line_of e)"
proof -
  have dist: "distinct (map ce_key (pa_entries p))" using assms(1) by (simp add: part_inv_def)
  note upd = table_map_update [OF dist assms(2) [unfolded find_key_def] assms(3)]
  have "place n (ce_key e) = ij" using assms(1,3) find_keyD [OF assms(2)] by (auto simp: part_inv_def list_all_length)
  with assms(1,4) upd(2) show "part_inv n ij p'" by (simp add: part_inv_def list_all_update)
  show "part_map p' = (part_map p)(k \<mapsto> line_of e)" using upd(1) assms(4) by (simp add: part_map_def)
qed

lemma part_snoc:
  assumes "part_inv n (place n (ce_key e)) p" and "find_key (ce_key e) p = None"
    and "length (pa_entries p) < MAX_CACHE_ENTRIES" and "pa_entries p' = pa_entries p @ [e]"
  shows "part_inv n (place n (ce_key e)) p'" and "part_map p' = (part_map p)(ce_key e \<mapsto> line_of e)"
proof -
  have "ce_key e \<notin> set (map ce_key (pa_entries p))" using assms(2) by (auto simp: find_key_def first_idx_None)
  with assms show "part_inv n (place n (ce_key e)) p'" and "part_map p' = (part_map p)(ce_key e \<mapsto> line_of e)"
    by (auto simp: part_inv_def part_map_def table_map_snoc)
qed

lemma part_remove:
  assumes "part_inv n ij p" and "find_key k p = Some i" and "pa_entries p' = remove_at i (pa_entries p)"
  shows "part_inv n ij p'" and "part_map p' = (part_map p)(k := None)"
proof -
  have dist: "distinct (map ce_key (pa_entries p))" using assms(1) by (simp add: part_inv_def)
  show "part_inv n ij p'"
    using assms(1,3) length_remove_at_le [of i "pa_entries p"]
    by (simp add: part_inv_def map_remove_at distinct_remove_at list_all_remove_at)
  show "part_map p' = (part_map p)(k := None)"
    using table_map_remove [OF dist assms(2) [unfolded find_key_def]] assms(3) by (simp add: part_map_def)
qed

lemma neighbours_count:
  assumes "cache_inv n c"
  shows "card (neighbours n (cache_map c) k) = length (pa_entries (partition_of c k))"
proof -
  let ?p = "partition_of c k"
  have inv: "part_inv n (place n k) ?p" using assms by (rule part_inv_of)
  have "neighbours n (cache_map c) k = {k' \<in> dom (part_map ?p). place n k' = place n k}"
    using assms cache_map_at [OF assms] by (auto simp: neighbours_def partition_of_at cache_inv_def domIff)
  also have "\<dots> = set (map ce_key (pa_entries ?p))"
    using inv by (auto simp: part_map_def dom_table_map part_inv_def list_all_iff)
  finally show ?thesis using distinct_card [of "map ce_key (pa_entries ?p)"] inv by (simp add: part_inv_def)
qed

section \<open>Simulation\<close>

lemma with_slot_elim:
  assumes "with_slot d cid cs f = (cs', r)" and "slot_get cid cs = Some c"
  obtains c' where "f c = (c', r)" and "slot_get cid cs' = Some c'"
proof (rule that)
  show "f c = (fst (f c), r)" using assms with_slot_result [of d cid cs f] by (cases "f c") simp
  show "slot_get cid cs' = Some (fst (f c))" using assms slot_get_with_slot [of cid d cid cs f] by simp
qed

lemma cache_miss_sim:
  assumes "cache_inv n c" and "part_inv n (place n k) p" and "part_map p = (part_map (partition_of c k))(k := x)"
    and "miss k p c = (c', r)"
  shows "cache_inv n c'" and "cache_map c' = (cache_map c)(k := x)" and "r = None"
proof -
  let ?p = "p\<lparr>pa_misses := pa_misses p + 1\<rparr>"
  have "part_inv n (place n k) ?p" "part_map ?p = (part_map (partition_of c k))(k := x)"
    using assms(2,3) by (simp_all add: part_inv_def part_map_def)
  with set_partition_spec(1) [OF assms(1)] set_partition_map [OF assms(1)] assms(4)
  show "cache_inv n c'" and "cache_map c' = (cache_map c)(k := x)" and "r = None"
    by (auto simp: miss_def)
qed

lemma cache_map_found: "cache_map c k = map_option (\<lambda>i. line_of (pa_entries (partition_of c k) ! i)) (find_key k (partition_of c k))"
  by (simp add: cache_map_def find_key_map)

lemma set_entry_sim:
  assumes "cache_inv n c" and "find_key k (partition_of c k) = Some i"
    and "ce_key e = k" and "pa_entries p = (pa_entries (partition_of c k))[i := e]"
  shows "cache_inv n (set_partition k p c)" and "cache_map (set_partition k p c) = (cache_map c)(k \<mapsto> line_of e)"
  using part_update [OF part_inv_of [OF assms(1)] assms(2-4)] set_partition_spec(1) [OF assms(1)]
    set_partition_map [OF assms(1)] by auto

lemma cache_get_sim:
  assumes "slot_get cid cs = Some c" and "cache_inv n c" and "dcache_get cs cid (Some k) True now = (cs', r)"
  shows "dcache_inv cid n cs' \<and> read_line (cache_map c) k now = (dcache_abs cid cs', r)"
proof -
  let ?p = "partition_of c k"
  note pinv = part_inv_of [OF assms(2), of k]
  have ne: "dc_nodes c \<noteq> []" using assms(2) by (auto simp: cache_inv_def)
  have keep: "cache_map c k = x \<Longrightarrow> part_map ?p = (part_map ?p)(k := x)" for x by (auto simp: cache_map_def)
  show ?thesis
  proof (cases "find_key k ?p")
    case None
    then have "cache_map c k = None" by (simp add: cache_map_found)
    with assms ne None cache_miss_sim [OF assms(2) pinv keep] show ?thesis
      by (auto simp: dcache_get_def dcache_inv_def dcache_abs_def read_line_def elim!: with_slot_elim)
  next
    case (Some i)
    let ?e = "pa_entries ?p ! i"
    have key: "ce_key ?e = k" using find_keyD [OF Some] by simp
    have m: "cache_map c k = Some (line_of ?e)" using Some by (simp add: cache_map_found)
    let ?old = "?p\<lparr>pa_entries := (pa_entries ?p)[i := ?e\<lparr>ce_is_expired := True\<rparr>]\<rparr>"
    have old: "part_inv n (place n k) ?old"
      "part_map ?old = (part_map ?p)(k := Some ((line_of ?e)\<lparr>ln_expired := True\<rparr>))"
      using part_update [OF pinv Some, of "?e\<lparr>ce_is_expired := True\<rparr>" ?old] key by (simp_all add: line_of_def)
    let ?e' = "?e\<lparr>ce_last_access_time := of_int now, ce_access_count := ce_access_count ?e + 1\<rparr>"
    have hit: "cache_inv n (set_partition k p c)" "cache_map (set_partition k p c) = cache_map c"
      if "pa_entries p = (pa_entries ?p)[i := ?e']" for p
      using set_entry_sim [OF assms(2) Some _ that] key m by (simp_all add: line_of_def map_upd_triv)
    have "too_old now ?e = outlived now (line_of ?e)" by (simp add: too_old_def outlived_def line_of_def)
    with assms ne Some m cache_miss_sim [OF assms(2) pinv keep] cache_miss_sim [OF assms(2) old] hit show ?thesis
      by (auto simp: dcache_get_def dcache_inv_def dcache_abs_def read_line_def line_of_def map_upd_triv Let_def
          split: if_splits elim!: with_slot_elim)
  qed
qed

lemma cache_exists_sim:
  assumes "slot_get cid cs = Some c" and "cache_inv n c" and "dcache_exists cs cid (Some k) now = (cs', r)"
  shows "dcache_inv cid n cs' \<and> dcache_spec n (cache_map c) (CacheExists k now) = (dcache_abs cid cs', Code r)"
proof -
  obtain v where "dcache_get cs cid (Some k) True now = (cs', v)" "r = (if v \<noteq> None then 1 else 0)"
    using assms(1,3) by (auto simp: dcache_exists_def slot_get_def split: prod.splits option.splits)
  with cache_get_sim [OF assms(1,2)] show ?thesis by simp
qed

lemma cache_delete_sim:
  assumes "slot_get cid cs = Some c" and "cache_inv n c" and "dcache_delete cs cid (Some k) = (cs', r)"
  shows "dcache_inv cid n cs' \<and> dcache_spec n (cache_map c) (CacheDelete k) = (dcache_abs cid cs', Code r)"
proof -
  have ne: "dc_nodes c \<noteq> []" using assms(2) by (auto simp: cache_inv_def)
  show ?thesis
  proof (cases "find_key k (partition_of c k)")
    case None
    with assms ne show ?thesis
      by (auto simp: dcache_delete_def dcache_inv_def dcache_abs_def cache_map_found elim!: with_slot_elim)
  next
    case (Some i)
    have "cache_inv n (set_partition k p c)" "cache_map (set_partition k p c) = (cache_map c)(k := None)"
      if "pa_entries p = remove_at i (pa_entries (partition_of c k))" for p
      using part_remove [OF part_inv_of [OF assms(2)] Some that] set_partition_spec(1) [OF assms(2)]
        set_partition_map [OF assms(2)] by auto
    with assms ne Some find_keyD [OF Some] show ?thesis
      by (auto simp: dcache_delete_def dcache_inv_def dcache_abs_def cache_map_found shift_down_remove_at Let_def
          elim!: with_slot_elim)
  qed
qed

lemma cache_ttl_sim:
  assumes "slot_get cid cs = Some c" and "cache_inv n c" and "dcache_update_ttl cs cid (Some k) ttl = (cs', r)"
  shows "dcache_inv cid n cs' \<and> dcache_spec n (cache_map c) (CacheTtl k ttl) = (dcache_abs cid cs', Code r)"
proof -
  have ne: "dc_nodes c \<noteq> []" using assms(2) by (auto simp: cache_inv_def)
  show ?thesis
  proof (cases "find_key k (partition_of c k)")
    case None
    with assms ne show ?thesis
      by (auto simp: dcache_update_ttl_def dcache_inv_def dcache_abs_def cache_map_found elim!: with_slot_elim)
  next
    case (Some i)
    let ?e = "(pa_entries (partition_of c k) ! i)\<lparr>ce_ttl_seconds := ttl\<rparr>"
    have "ce_key ?e = k" using find_keyD [OF Some] by simp
    with assms ne Some set_entry_sim [OF assms(2) Some, of ?e] show ?thesis
      by (auto simp: dcache_update_ttl_def dcache_inv_def dcache_abs_def cache_map_found line_of_def Let_def
          elim!: with_slot_elim)
  qed
qed

lemma empty_part_inv: "part_inv n ij (p\<lparr>pa_entries := [], pa_bytes_used := b, pa_hits := h, pa_misses := m\<rparr>)"
  by (simp add: part_inv_def)

lemma cache_flush_sim:
  assumes "slot_get cid cs = Some c" and "cache_inv n c" and "dcache_flush_all cs cid = (cs', r)"
  shows "dcache_inv cid n cs' \<and> dcache_spec n (cache_map c) CacheFlush = (dcache_abs cid cs', Code r)"
proof -
  let ?f = "\<lambda>p. p\<lparr>pa_entries := [], pa_bytes_used := 0, pa_hits := 0, pa_misses := 0\<rparr>"
  let ?c = "map_partitions ?f c"
  have at: "part_at ?c ij = ?f (part_at c ij)" if "ij \<in> {..<n} \<times> {..<MAX_CACHE_PARTITIONS}" for ij
    using that assms(2) by (auto simp: part_at_def map_partitions_def cache_inv_def list_all_length)
  have len: "length (dc_nodes ?c) = n" using assms(2) by (simp add: map_partitions_def cache_inv_def)
  have lens: "list_all (\<lambda>d. length (cn_partitions d) = MAX_CACHE_PARTITIONS) (dc_nodes ?c)"
    using assms(2) by (simp add: map_partitions_def cache_inv_def list_all_length)
  have "\<forall>ij \<in> {..<n} \<times> {..<MAX_CACHE_PARTITIONS}. part_inv n ij (part_at ?c ij)"
    by (intro ballI) (simp only: at empty_part_inv)
  with len lens assms(2) have "cache_inv n ?c" by (simp add: cache_inv_def)
  moreover have "cache_map ?c k = None" for k
    using at [OF place_in_grid [of n k]] len assms(2)
    by (simp add: cache_map_def partition_of_at part_map_def cache_inv_def)
  ultimately show ?thesis
    using assms by (auto simp: dcache_flush_all_def dcache_inv_def dcache_abs_def fun_eq_iff elim!: with_slot_elim)
qed

text \<open>
  The two sweeps change or drop entries one by one, without changing keys. The entries of a cache have
  distinct keys, so counting entries is counting keys.
\<close>

lemma table_map_sweep:
  assumes "distinct (map ce_key es)" and "\<And>e e'. h e = Some e' \<Longrightarrow> ce_key e' = ce_key e"
    and "\<And>e. map_option line_of (h e) = g (line_of e)"
  shows "table_map ce_key line_of (List.map_filter h es) k = Option.bind (table_map ce_key line_of es k) g"
  using assms(1)
proof (induction es)
  case Nil
  then show ?case by simp
next
  case (Cons e es)
  then have none: "table_map ce_key line_of es (ce_key e) = None"
    using dom_table_map [of ce_key line_of es] by (auto simp: domIff)
  have IH: "table_map ce_key line_of (List.map_filter h es) k = Option.bind (table_map ce_key line_of es k) g" using Cons by simp
  show ?case
  proof (cases "h e")
    case h: None
    then have "g (line_of e) = None" using assms(3) [of e] by simp
    then show ?thesis using IH none h by (cases "k = ce_key e") (simp_all add: List.map_filter_simps)
  next
    case h: (Some e')
    then have "g (line_of e) = Some (line_of e')" "ce_key e' = ce_key e" using assms(3) [of e] assms(2) [of e e'] by simp_all
    then show ?thesis using IH h by (cases "k = ce_key e") (simp_all add: List.map_filter_simps)
  qed
qed

lemma map_filter_keys:
  assumes "\<And>e e'. h e = Some e' \<Longrightarrow> ce_key e' = ce_key e"
  shows "map ce_key (List.map_filter h es) = map ce_key (filter (\<lambda>e. h e \<noteq> None) es)"
proof (induction es)
  case Nil
  then show ?case by (simp add: List.map_filter_simps)
next
  case (Cons e es)
  then show ?case using assms [of e] by (cases "h e") (simp_all add: List.map_filter_simps)
qed

lemma part_inv_sweep:
  assumes "part_inv n ij p" and "\<And>e e'. h e = Some e' \<Longrightarrow> ce_key e' = ce_key e" and "pa_entries q = List.map_filter h (pa_entries p)"
  shows "part_inv n ij q"
proof -
  note keys = map_filter_keys [of h "pa_entries p", OF assms(2)]
  have "length (pa_entries q) \<le> length (pa_entries p)"
    using arg_cong [OF keys, of length] assms(3) by simp
  moreover have "list_all (\<lambda>k. place n k = ij) (map ce_key (filter (\<lambda>e. h e \<noteq> None) (pa_entries p)))"
    using assms(1) by (auto simp: part_inv_def list_all_iff)
  then have "list_all (\<lambda>k. place n k = ij) (map ce_key (pa_entries q))" by (simp only: assms(3) keys)
  then have "list_all (\<lambda>e. place n (ce_key e) = ij) (pa_entries q)" by (simp only: list.pred_map comp_def)
  ultimately show ?thesis
    using assms(1,3) keys distinct_map_filter [of ce_key "pa_entries p"] by (simp add: part_inv_def)
qed

lemma cache_sweep:
  assumes "cache_inv n c" and "\<And>p. pa_entries (f p) = List.map_filter h (pa_entries p)"
    and "\<And>e e'. h e = Some e' \<Longrightarrow> ce_key e' = ce_key e" and "\<And>e. map_option line_of (h e) = g (line_of e)"
  shows "cache_inv n (map_partitions f c)" and "cache_map (map_partitions f c) = sweep_lines g (cache_map c)"
proof -
  let ?c = "map_partitions f c"
  have at: "part_at ?c ij = f (part_at c ij)" if "ij \<in> {..<n} \<times> {..<MAX_CACHE_PARTITIONS}" for ij
    using that assms(1) by (auto simp: part_at_def map_partitions_def cache_inv_def list_all_length)
  have len: "length (dc_nodes ?c) = n" using assms(1) by (simp add: map_partitions_def cache_inv_def)
  have lens: "list_all (\<lambda>d. length (cn_partitions d) = MAX_CACHE_PARTITIONS) (dc_nodes ?c)"
    using assms(1) by (simp add: map_partitions_def cache_inv_def list_all_length)
  have parts: "part_inv n ij (part_at c ij)" if "ij \<in> {..<n} \<times> {..<MAX_CACHE_PARTITIONS}" for ij
    using assms(1) that unfolding cache_inv_def by blast
  have "\<forall>ij \<in> {..<n} \<times> {..<MAX_CACHE_PARTITIONS}. part_inv n ij (part_at ?c ij)"
    using part_inv_sweep [OF parts assms(3,2)] at by auto
  with len lens assms(1) show inv: "cache_inv n ?c" by (simp add: cache_inv_def)
  show "cache_map ?c = sweep_lines g (cache_map c)"
  proof
    fix k
    have grid: "place n k \<in> {..<n} \<times> {..<MAX_CACHE_PARTITIONS}"
      using assms(1) by (intro place_in_grid) (simp_all add: cache_inv_def)
    have "distinct (map ce_key (pa_entries (part_at c (place n k))))" using parts [OF grid] by (simp add: part_inv_def)
    from table_map_sweep [where h = h and g = g, OF this assms(3,4)]
    show "cache_map ?c k = sweep_lines g (cache_map c) k"
      unfolding cache_map_at [OF inv] sweep_lines_def cache_map_at [OF assms(1)] part_map_def at [OF grid] assms(2) .
  qed
qed

lemma concat_product:
  "concat (map f (List.product xs ys)) = concat (map (\<lambda>x. concat (map (\<lambda>y. f (x, y)) ys)) xs)"
  by (induction xs) (simp_all add: comp_def)

lemma all_entries_grid:
  assumes "cache_inv n c"
  shows "all_entries c = concat (map (\<lambda>ij. pa_entries (part_at c ij)) (List.product [0..<n] [0..<MAX_CACHE_PARTITIONS]))"
proof -
  have "concat (map pa_entries (cn_partitions (dc_nodes c ! i))) = concat (map (\<lambda>j. pa_entries (part_at c (i, j))) [0..<MAX_CACHE_PARTITIONS])"
    if "i < n" for i
  proof -
    have "length (cn_partitions (dc_nodes c ! i)) = MAX_CACHE_PARTITIONS"
      using assms that by (simp add: cache_inv_def list_all_length)
    then have "map pa_entries (cn_partitions (dc_nodes c ! i)) = map (\<lambda>j. pa_entries (part_at c (i, j))) [0..<MAX_CACHE_PARTITIONS]"
      by (intro nth_equalityI) (simp_all add: part_at_def)
    then show ?thesis by simp
  qed
  moreover have "length (dc_nodes c) = n" using assms by (simp add: cache_inv_def)
  ultimately have "map (\<lambda>d. concat (map pa_entries (cn_partitions d))) (dc_nodes c) =
      map (\<lambda>i. concat (map (\<lambda>j. pa_entries (part_at c (i, j))) [0..<MAX_CACHE_PARTITIONS])) [0..<n]"
    by (intro nth_equalityI) simp_all
  then show ?thesis by (simp add: all_entries_def concat_product)
qed

lemma grid_keys_distinct:
  assumes "distinct ijs" and "list_all (\<lambda>ij. part_inv n ij (part_at c ij)) ijs"
  shows "distinct (map ce_key (concat (map (\<lambda>ij. pa_entries (part_at c ij)) ijs)))"
  using assms
proof (induction ijs)
  case Nil
  then show ?case by simp
next
  case (Cons ij ijs)
  have placed: "place n (ce_key e) = x" if "x \<in> set (ij # ijs)" "e \<in> set (pa_entries (part_at c x))" for e x
    using Cons.prems(2) that by (auto simp: part_inv_def list_all_iff)
  have "ce_key e \<noteq> ce_key e'" if "e \<in> set (pa_entries (part_at c ij))" "x \<in> set ijs" "e' \<in> set (pa_entries (part_at c x))" for e e' x
  proof -
    have "place n (ce_key e) = ij" "place n (ce_key e') = x" using that by (auto intro: placed)
    then show ?thesis using Cons.prems(1) that(2) by auto
  qed
  then have "ce_key ` set (pa_entries (part_at c ij)) \<inter> ce_key ` (\<Union>x \<in> set ijs. set (pa_entries (part_at c x))) = {}"
    by blast
  then show ?case using Cons by (simp add: part_inv_def)
qed

lemma count_lines:
  assumes "cache_inv n c" and "\<And>e. P e = Q (line_of e)"
  shows "length (filter P (all_entries c)) = card (lines_with Q (cache_map c))"
proof -
  let ?grid = "List.product [0..<n] [0..<MAX_CACHE_PARTITIONS]"
  have parts: "part_inv n ij (part_at c ij)" if "ij \<in> {..<n} \<times> {..<MAX_CACHE_PARTITIONS}" for ij
    using assms(1) that unfolding cache_inv_def by blast
  then have "distinct (map ce_key (all_entries c))"
    unfolding all_entries_grid [OF assms(1)] by (intro grid_keys_distinct [where n = n]) (auto simp: list_all_iff distinct_product)
  then have "card (set (map ce_key (filter P (all_entries c)))) = length (filter P (all_entries c))"
    using distinct_card [OF distinct_map_filter] by (metis length_map)
  moreover have "set (map ce_key (filter P (all_entries c))) = lines_with Q (cache_map c)"
  proof (intro equalityI subsetI)
    fix k assume "k \<in> set (map ce_key (filter P (all_entries c)))"
    then obtain ij e where e: "ij \<in> {..<n} \<times> {..<MAX_CACHE_PARTITIONS}" "e \<in> set (pa_entries (part_at c ij))" "P e" "k = ce_key e"
      by (auto simp: all_entries_grid [OF assms(1)])
    have "place n k = ij" "distinct (map ce_key (pa_entries (part_at c ij)))"
      using parts [OF e(1)] e(2,4) by (auto simp: part_inv_def list_all_iff)
    then have "cache_map c k = Some (line_of e)"
      using e(2,4) cache_map_at [OF assms(1), of k] by (auto simp: part_map_def table_map_def map_of_eq_Some_iff comp_def)
    then show "k \<in> lines_with Q (cache_map c)" using e(3) assms(2) by (simp add: lines_with_def)
  next
    fix k assume "k \<in> lines_with Q (cache_map c)"
    then obtain l where l: "cache_map c k = Some l" "Q l" by (auto simp: lines_with_def)
    have grid: "place n k \<in> {..<n} \<times> {..<MAX_CACHE_PARTITIONS}"
      using assms(1) by (intro place_in_grid) (simp_all add: cache_inv_def)
    have "map_of (map (\<lambda>x. (ce_key x, line_of x)) (pa_entries (part_at c (place n k)))) k = Some l"
      using l(1) cache_map_at [OF assms(1), of k] by (simp add: part_map_def table_map_def)
    then obtain e where "e \<in> set (pa_entries (part_at c (place n k)))" "ce_key e = k" "line_of e = l"
      by (auto dest!: map_of_SomeD)
    then show "k \<in> set (map ce_key (filter P (all_entries c)))"
      using grid l(2) assms(2) by (force simp: all_entries_grid [OF assms(1)])
  qed
  ultimately show ?thesis by simp
qed

lemma line_ages: "too_old now e = outlived now (line_of e)" "stale now e = stale_line now (line_of e)"
  by (simp_all add: too_old_def outlived_def stale_def stale_line_def line_of_def)

lemma cache_expire_sim:
  assumes "slot_get cid cs = Some c" and "cache_inv n c" and "dcache_expire_old_entries cs cid now = (cs', r)"
  shows "dcache_inv cid n cs' \<and> dcache_spec n (cache_map c) (CacheExpire now) = (dcache_abs cid cs', Code r)"
proof -
  let ?h = "\<lambda>e. Some (if too_old now e then e\<lparr>ce_is_expired := True\<rparr> else e)"
  let ?f = "\<lambda>p. p\<lparr>pa_entries := map (\<lambda>e. if too_old now e then e\<lparr>ce_is_expired := True\<rparr> else e) (pa_entries p)\<rparr>"
  have "pa_entries (?f p) = List.map_filter ?h (pa_entries p)" for p
    by (simp add: List.map_filter_def comp_def)
  note sw = cache_sweep [OF assms(2), of ?f ?h "\<lambda>l. Some (if outlived now l then l\<lparr>ln_expired := True\<rparr> else l)", OF this]
  have "cache_inv n (map_partitions ?f c)" "cache_map (map_partitions ?f c) =
      sweep_lines (\<lambda>l. Some (if outlived now l then l\<lparr>ln_expired := True\<rparr> else l)) (cache_map c)"
    by (rule sw; auto simp: line_ages; simp add: line_of_def)+
  moreover note count_lines [OF assms(2), of "too_old now" "outlived now", OF line_ages(1)]
  ultimately show ?thesis using assms(1,3)
    by (auto simp: dcache_expire_old_entries_def dcache_inv_def dcache_abs_def elim!: with_slot_elim)
qed

lemma cache_cleanup_sim:
  assumes "slot_get cid cs = Some c" and "cache_inv n c" and "dcache_cleanup_expired cs cid now = (cs', r)"
  shows "dcache_inv cid n cs' \<and> dcache_spec n (cache_map c) (CacheCleanup now) = (dcache_abs cid cs', Code r)"
proof -
  let ?h = "\<lambda>e. if stale now e then None else Some e"
  let ?f = "\<lambda>p. p\<lparr>pa_entries := compact (\<lambda>e. \<not> stale now e) (\<lambda>e. e) (pa_entries p),
         pa_bytes_used := pa_bytes_used p - entry_bytes (filter (stale now) (pa_entries p))\<rparr>"
  have "List.map_filter ?h es = filter (\<lambda>e. \<not> stale now e) es" for es by (induction es) (auto simp: List.map_filter_simps)
  then have "pa_entries (?f p) = List.map_filter ?h (pa_entries p)" for p by (simp add: compact_eq)
  note sw = cache_sweep [OF assms(2), of ?f ?h "\<lambda>l. if stale_line now l then None else Some l", OF this]
  have "cache_inv n (map_partitions ?f c)" "cache_map (map_partitions ?f c) =
      sweep_lines (\<lambda>l. if stale_line now l then None else Some l) (cache_map c)"
    by (rule sw; auto simp: line_ages split: if_splits)+
  moreover note count_lines [OF assms(2), of "stale now" "stale_line now", OF line_ages(2)]
  ultimately show ?thesis using assms(1,3)
    by (auto simp: dcache_cleanup_expired_def dcache_inv_def dcache_abs_def Let_def elim!: with_slot_elim)
qed

text \<open>The effect of \<open>dcache_put\<close> on the cache it addresses, for a value given with its length.\<close>

definition cache_put_effect :: "string \<Rightarrow> u8 list \<Rightarrow> u32 \<Rightarrow> bool \<Rightarrow> time_t \<Rightarrow> DistributedCache \<Rightarrow> (DistributedCache \<times> int) outcome" where
  "cache_put_effect k v ttl block_ok now c =
     (if length v > 65536 \<or> dc_nodes c = [] then Done (c, -1)
      else let p = partition_of c k in
      case find_key k p of
        Some i \<Rightarrow>
          let e = pa_entries p ! i in
          if ce_block e < length v then Undef
          else let e' = e\<lparr>ce_value := v, ce_last_access_time := of_int now, ce_ttl_seconds := ttl, ce_is_expired := False\<rparr>
               in Done (set_partition k (p\<lparr>pa_entries := (pa_entries p)[i := e'],
                      pa_bytes_used := pa_bytes_used p - of_nat (length (ce_value e)) + of_nat (length v)\<rparr>) c, 0)
      | None \<Rightarrow>
          if length (pa_entries p) \<ge> MAX_CACHE_ENTRIES \<or> \<not> block_ok then Done (c, -1)
          else Done ((set_partition k (p\<lparr>pa_entries := pa_entries p @ [new_cache_entry k v ttl now],
                        pa_bytes_used := pa_bytes_used p + of_nat (length v)\<rparr>) c)
                   \<lparr>dc_total_bytes_stored := dc_total_bytes_stored c + of_nat (length v)\<rparr>, 0))"

lemma dcache_put_eq:
  assumes "length v < 18446744073709551616"
  shows "dcache_put cs cid (Some k) (Some v) (of_nat (length v)) ttl block_ok now =
    with_slot_ub (-1) cid cs (cache_put_effect k v ttl block_ok now)"
proof -
  have len: "unat (of_nat (length v) :: u64) = length v" using assms by (simp add: unat_of_nat)
  then have "(of_nat (length v) :: u64) > MAX_VALUE_SIZE \<longleftrightarrow> length v > 65536"
    by (simp add: word_less_nat_alt MAX_VALUE_SIZE_def)
  with len show ?thesis
    by (auto simp: dcache_put_def with_slot_ub_def cache_put_effect_def Let_def split: option.split)
qed

lemma cache_put_spec:
  assumes "cache_inv n c" and "length k < 256"
  shows "case cache_put_effect k v ttl block_ok now c of
      Undef \<Rightarrow> dcache_spec n (cache_map c) (CachePut k v ttl block_ok now) = (cache_map c, Undefined)
    | Done (c', r) \<Rightarrow> cache_inv n c' \<and>
        dcache_spec n (cache_map c) (CachePut k v ttl block_ok now) = (cache_map c', Code r)"
proof -
  let ?p = "partition_of c k"
  have ne: "dc_nodes c \<noteq> []" using assms(1) by (auto simp: cache_inv_def)
  show ?thesis
  proof (cases "find_key k ?p")
    case None
    let ?e = "new_cache_entry k v ttl now"
    have key: "ce_key ?e = k" using assms(2) by (simp add: new_cache_entry_def MAX_KEY_SIZE_def)
    have "cache_inv n (set_partition k p c)" "cache_map (set_partition k p c) = (cache_map c)(k \<mapsto> line_of ?e)"
      if "pa_entries p = pa_entries ?p @ [?e]" "length (pa_entries ?p) < MAX_CACHE_ENTRIES" for p
      using part_snoc [of n ?e ?p p] part_inv_of [OF assms(1), of k] None that key
        set_partition_spec(1) [OF assms(1)] set_partition_map [OF assms(1)] by auto
    then show ?thesis
      using ne None assms(1)
      by (simp add: cache_put_effect_def cache_map_found neighbours_count MAX_CACHE_ENTRIES_def line_of_def
          new_cache_entry_def Let_def)
  next
    case (Some i)
    let ?e = "(pa_entries ?p ! i)\<lparr>ce_value := v, ce_last_access_time := of_int now, ce_ttl_seconds := ttl,
      ce_is_expired := False\<rparr>"
    have "ce_key ?e = k" using find_keyD [OF Some] by simp
    with ne Some assms(1) set_entry_sim [OF assms(1) Some, of ?e] show ?thesis
      by (simp add: cache_put_effect_def cache_map_found line_of_def Let_def)
  qed
qed

lemma cache_put_sim:
  assumes "slot_get cid cs = Some c" and "cache_inv n c" and "dcache_fits (CachePut k v ttl block_ok now)"
    and "dcache_step cid cs (CachePut k v ttl block_ok now) = (cs', r)"
  shows "dcache_inv cid n cs' \<and> dcache_spec n (cache_map c) (CachePut k v ttl block_ok now) = (dcache_abs cid cs', r)"
proof (cases "cache_put_effect k v ttl block_ok now c")
  case Undef
  then have "with_slot_ub (-1) cid cs (cache_put_effect k v ttl block_ok now) = Undef"
    using with_slot_ub_Undef [OF assms(1), of "- 1" "cache_put_effect k v ttl block_ok now"] by simp
  with assms(3,4) have "cs' = cs" "r = Undefined" by (simp_all add: dcache_put_eq)
  with Undef assms cache_put_spec [OF assms(2), of k v ttl block_ok now] show ?thesis
    by (simp add: dcache_inv_def dcache_abs_def del: dcache_spec.simps)
next
  case (Done y)
  obtain c' x where y: "y = (c', x)" by fastforce
  obtain ys where "with_slot_ub (-1) cid cs (cache_put_effect k v ttl block_ok now) = Done (ys, x)" "slot_get cid ys = Some c'"
    using with_slot_ub_Some [where f = "cache_put_effect k v ttl block_ok now", OF assms(1) Done [unfolded y]] by metis
  moreover from this assms(3,4) have "cs' = ys" "r = Code x" by (simp_all add: dcache_put_eq)
  ultimately show ?thesis
    using Done y assms(1-3) cache_put_spec [OF assms(2), of k v ttl block_ok now]
    by (simp add: dcache_inv_def dcache_abs_def del: dcache_spec.simps)
qed

lemma dcache_simulation:
  assumes "dcache_inv cid n cs" and "dcache_fits x" and "dcache_step cid cs x = (cs', r)"
  shows "dcache_inv cid n cs' \<and> dcache_spec n (dcache_abs cid cs) x = (dcache_abs cid cs', r)"
proof -
  obtain c where c: "slot_get cid cs = Some c" "cache_inv n c" using assms(1) by (auto simp: dcache_inv_def)
  then have "dcache_abs cid cs = cache_map c" by (simp add: dcache_abs_def)
  then show ?thesis
    using assms(2,3) cache_put_sim [OF c] cache_get_sim [OF c] cache_exists_sim [OF c] cache_delete_sim [OF c] cache_ttl_sim [OF c] cache_flush_sim [OF c]
      cache_expire_sim [OF c] cache_cleanup_sim [OF c]
    by (cases x) (auto split: prod.splits simp del: dcache_spec.simps simp: dcache_spec.simps(2))
qed

interpretation dcache: call_refinement "dcache_step cid" "dcache_spec n" "dcache_abs cid" "dcache_inv cid n" dcache_fits
  by unfold_locales (rule dcache_simulation)

section \<open>Main theorems\<close>

text \<open>A key of 256 characters or more is stored cut, and then not found in its partition.\<close>

lemma dcache_long_key_lost:
  assumes "list_all (\<lambda>e. length (ce_key e) < 256) (pa_entries p)" and "256 \<le> length k"
    and "pa_entries q = pa_entries p @ [new_cache_entry k v ttl now]"
  shows "list_all (\<lambda>e. length (ce_key e) < 256) (pa_entries q) \<and> find_key k q = None"
  using assms by (auto simp: find_key_def first_idx_None new_cache_entry_def MAX_KEY_SIZE_def list_all_iff)

text \<open>A cache that was created and then given its nodes is in the invariant, and empty.\<close>

lemma add_node_fresh:
  assumes "slot_get cid cs = Some c" and "length (dc_nodes c) < MAX_CACHE_NODES"
    and "list_all (\<lambda>d. length (cn_partitions d) = MAX_CACHE_PARTITIONS \<and> list_all (\<lambda>p. pa_entries p = []) (cn_partitions d)) (dc_nodes c)"
  shows "dcache_inv cid (Suc (length (dc_nodes c))) (fst (dcache_add_node cs cid ip port now))"
    and "dcache_abs cid (fst (dcache_add_node cs cid ip port now)) = Map.empty"
proof -
  obtain c' where c': "slot_get cid (fst (dcache_add_node cs cid ip port now)) = Some c'"
      "length (dc_nodes c') = Suc (length (dc_nodes c))"
      "list_all (\<lambda>d. length (cn_partitions d) = MAX_CACHE_PARTITIONS \<and> list_all (\<lambda>p. pa_entries p = []) (cn_partitions d)) (dc_nodes c')"
    using assms by (auto simp: dcache_add_node_def slot_get_with_slot Let_def empty_partition_def list_all_iff)
  then have empty: "pa_entries (part_at c' ij) = []" if "ij \<in> {..<length (dc_nodes c')} \<times> {..<MAX_CACHE_PARTITIONS}" for ij
    using that by (auto simp: part_at_def list_all_length)
  have "cache_inv (Suc (length (dc_nodes c))) c'"
    using c' empty assms(2) by (auto simp: cache_inv_def part_inv_def list_all_length)
  with c' show "dcache_inv cid (Suc (length (dc_nodes c))) (fst (dcache_add_node cs cid ip port now))"
    by (auto simp: dcache_inv_def)
  have "cache_map c' k = None" for k
    using empty [OF place_in_grid [of "length (dc_nodes c')" k]] c' assms(2)
    by (simp add: cache_map_def partition_of_at part_map_def)
  with c' show "dcache_abs cid (fst (dcache_add_node cs cid ip port now)) = Map.empty"
    by (simp add: dcache_abs_def fun_eq_iff)
qed

text \<open>
  Claim C27. As long as its nodes stay the same, a cache with any number of them answers every
  history of put, get, delete, exists, update-TTL, flush, expire and clean-up calls, in which keys put have fewer
  than 256 characters, as one map from keys to lines does, and ends in the state of that map: a value written is read
  back until it is deleted, flushed or older than its time to live, whichever node and partition its key hashes to;
  expiring marks exactly the lines that are too old and cleaning up removes exactly the stale ones, and both return
  their number. The replies include
  the failures (value over 64 KiB, 8192 keys in the partition already, no memory) and the undefined
  ones: a put of a present key is undefined exactly when the value is longer than the block that was
  allocated when the key was first stored, since \<open>dcache_put\<close> copies it there without reallocating.
  The time of creation is that of the block, so a key that is put again keeps its old age. A longer key is
  stored cut to 255 characters and not found again (\<open>dcache_long_key_lost\<close>).
\<close>

theorem dcache_refines_expiring_map:
  assumes "dcache_inv cid n cs" and "list_all dcache_fits calls"
  shows "snd (call_run (dcache_step cid) cs calls) = snd (call_run (dcache_spec n) (dcache_abs cid cs) calls) \<and>
    dcache_abs cid (fst (call_run (dcache_step cid) cs calls)) = fst (call_run (dcache_spec n) (dcache_abs cid cs) calls) \<and>
    dcache_inv cid n (fst (call_run (dcache_step cid) cs calls))"
  using dcache.run_results [OF assms] by blast

definition one_node_cache :: caches where
  "one_node_cache =
     fst (dcache_add_node (fst (dcache_create [] (Some ''c'') CACHE_LRU 64)) 1 0 80 1000)"

lemma one_node_cache_fresh: "dcache_inv 1 1 one_node_cache" "dcache_abs 1 one_node_cache = Map.empty"
  using add_node_fresh [of 1 "fst (dcache_create [] (Some ''c'') CACHE_LRU 64)"
      "hd (fst (dcache_create [] (Some ''c'') CACHE_LRU 64))" 0 80 1000]
  by (simp_all add: one_node_cache_def dcache_create_def slot_get_def slot_of_def MAX_CACHE_NODES_def)

theorem dcache_refines_expiring_map_witness:
  "snd (call_run (dcache_step 1) one_node_cache
     [CachePut ''k'' [7, 8] 5 True 1000, CacheGet ''k'' 1003, CachePut ''k'' [9] 5 True 1010,
      CacheGet ''k'' 1010, CachePut ''k'' [1, 2, 3] 5 True 1011, CacheDelete ''k'', CacheExists ''k'' 1012]) =
   [Code 0, Found (Some [7, 8]), Code 0, Found None, Undefined, Code 0, Code 0]"
proof -
  let ?calls = "[CachePut ''k'' [7, 8] 5 True 1000, CacheGet ''k'' 1003, CachePut ''k'' [9] 5 True 1010,
      CacheGet ''k'' 1010, CachePut ''k'' [1, 2, 3] 5 True 1011, CacheDelete ''k'', CacheExists ''k'' 1012]"
  have "snd (call_run (dcache_spec 1) Map.empty ?calls) =
      [Code 0, Found (Some [7, 8]), Code 0, Found None, Undefined, Code 0, Code 0]"
    by (simp add: neighbours_def read_line_def outlived_def)
  then show ?thesis
    using dcache_refines_expiring_map [of 1 1 one_node_cache ?calls] one_node_cache_fresh by simp
qed

end
