(* ===== verification/Consensus_Engine.thy ===== *)
theory Consensus_Engine
  imports Service_Tables
begin

text \<open>
  The Raft-style consensus engine of \<open>src/clustering-replication/consensus_engine.c\<close>: one engine
  per node, with its term, its vote, its log, its peers and its quorum operations. The static
  counter \<open>next_quorum_op_id\<close> is an argument and a result of the one operation that uses it; the
  static pointer to the last engine and the array \<open>votes\<close> are written or declared only. The
  result of the floating-point division in the metrics is kept as the pair of its operands.

  The second half shows the safety of elections: whatever calls reach an engine, it gives at most
  one vote per term, so that two candidates with the votes of a majority in one term are the same;
  and that the code does not count those votes: \<open>consensus_win_election\<close> looks at the number of
  votes the engine has given, not at those it has received.
\<close>

section \<open>Constants and data\<close>

definition MAX_CONSENSUS_PEERS :: nat where "MAX_CONSENSUS_PEERS = 64"
definition MAX_LOG_ENTRIES :: nat where "MAX_LOG_ENTRIES = 16384"
definition MAX_QUORUM_OPERATIONS :: nat where "MAX_QUORUM_OPERATIONS = 512"

datatype RaftState = RAFT_STATE_FOLLOWER | RAFT_STATE_CANDIDATE | RAFT_STATE_LEADER

datatype ConsensusOperationType =
  CONSENSUS_OPERATION_APPEND | CONSENSUS_OPERATION_COMMIT | CONSENSUS_OPERATION_SNAPSHOT
  | CONSENSUS_OPERATION_CONFIG_CHANGE

record LogEntry =
  le_log_index :: u32
  le_term :: u32
  le_op_type :: ConsensusOperationType
  le_data :: "u8 list option"
  le_data_size :: u32
  le_timestamp :: u64

record PeerState =
  pr_peer_id :: u32
  pr_node_id :: u32
  pr_next_index :: u64
  pr_match_index :: u64
  pr_is_active :: bool
  pr_failed_request_count :: u32

record QuorumOperation =
  qo_quorum_op_id :: u32
  qo_op_type :: ConsensusOperationType
  qo_peers :: "PeerState list"
  qo_commit_count :: u32
  qo_required_commits :: u32
  qo_timestamp :: u64
  qo_is_committed :: bool

record ConsensusEngine =
  en_engine_id :: u32
  en_node_id :: u32
  en_state :: RaftState
  en_current_term :: u32
  en_voted_for :: u32
  en_log :: "LogEntry list"
  en_commit_index :: u64
  en_last_applied :: u64
  en_peers :: "PeerState list"
  en_vote_count :: u32
  en_quorum_ops :: "QuorumOperation list"
  en_election_timeout_ms :: u32
  en_heartbeat_timeout_ms :: u32
  en_total_log_entries :: u64
  en_total_elections :: u32
  en_total_commits :: u32

record ConsensusMetrics =
  mt_engine_id :: u32
  mt_current_state :: RaftState
  mt_current_term :: u32
  mt_log_size :: u64
  mt_commit_index :: u64
  mt_peer_count :: u32
  mt_election_count :: u32
  mt_commit_count :: u32
  mt_replication_factor :: "(u32 \<times> u32) option"

abbreviation log_size :: "ConsensusEngine \<Rightarrow> u64" where
  "log_size e \<equiv> of_nat (length (en_log e))"

section \<open>Operations\<close>

definition consensus_engine_init :: "u32 \<Rightarrow> bool \<Rightarrow> ConsensusEngine option" where
  "consensus_engine_init node_id malloc_ok =
     (if \<not> malloc_ok then None
      else Some \<lparr>en_engine_id = 1, en_node_id = node_id, en_state = RAFT_STATE_FOLLOWER, en_current_term = 0,
        en_voted_for = 0, en_log = [], en_commit_index = 0, en_last_applied = 0, en_peers = [],
        en_vote_count = 0, en_quorum_ops = [], en_election_timeout_ms = 300, en_heartbeat_timeout_ms = 150,
        en_total_log_entries = 0, en_total_elections = 0, en_total_commits = 0\<rparr>)"

definition consensus_engine_destroy :: "ConsensusEngine option \<Rightarrow> ConsensusEngine option \<times> int" where
  "consensus_engine_destroy h = (None, case h of None \<Rightarrow> -1 | Some e \<Rightarrow> 0)"

definition consensus_add_peer :: "ConsensusEngine option \<Rightarrow> u32 \<Rightarrow> u32 \<Rightarrow> ConsensusEngine option \<times> int" where
  "consensus_add_peer h peer_id node_id = with_handle (-1) h (\<lambda>e.
     if length (en_peers e) \<ge> MAX_CONSENSUS_PEERS then (e, -1)
     else (e\<lparr>en_peers := en_peers e @ [\<lparr>pr_peer_id = peer_id, pr_node_id = node_id,
             pr_next_index = log_size e + 1, pr_match_index = 0, pr_is_active = True,
             pr_failed_request_count = 0\<rparr>]\<rparr>, 0))"

definition consensus_remove_peer :: "ConsensusEngine option \<Rightarrow> u32 \<Rightarrow> ConsensusEngine option \<times> int" where
  "consensus_remove_peer h peer_id = with_handle (-1) h (\<lambda>e.
     if peer_id = 0 then (e, -1)
     else case first_idx (\<lambda>p. pr_peer_id p = peer_id) (en_peers e) of None \<Rightarrow> (e, -1)
     | Some i \<Rightarrow> (e\<lparr>en_peers := remove_at i (en_peers e)\<rparr>, 0))"

definition consensus_append_log_entry ::
    "ConsensusEngine option \<Rightarrow> ConsensusOperationType \<Rightarrow> u8 list option \<Rightarrow> u32 \<Rightarrow> bool \<Rightarrow>
     (ConsensusEngine option \<times> int) outcome" where
  "consensus_append_log_entry h op_type data data_size malloc_ok = with_handle_ub (-1) h (\<lambda>e.
     if length (en_log e) \<ge> MAX_LOG_ENTRIES then Done (e, -1)
     else
       let entry = \<lparr>le_log_index = of_nat (length (en_log e)) + 1, le_term = en_current_term e,
             le_op_type = op_type, le_data = None, le_data_size = 0, le_timestamp = 0\<rparr>;
           push = (\<lambda>x. (e\<lparr>en_log := en_log e @ [x], en_total_log_entries := en_total_log_entries e + 1\<rparr>,
                        sint (le_log_index x)))
       in case data of
         Some d \<Rightarrow>
           if data_size > 0
           then (if \<not> malloc_ok then Done (e, -1)
                 else if length d < unat data_size then Undef
                 else Done (push (entry\<lparr>le_data := Some (take (unat data_size) d), le_data_size := data_size\<rparr>)))
           else Done (push entry)
       | None \<Rightarrow> Done (push entry))"

definition consensus_commit_entry :: "ConsensusEngine option \<Rightarrow> u64 \<Rightarrow> ConsensusEngine option \<times> int" where
  "consensus_commit_entry h log_index = with_handle (-1) h (\<lambda>e.
     if log_index = 0 \<or> log_index > log_size e then (e, -1)
     else (e\<lparr>en_commit_index := log_index, en_total_commits := en_total_commits e + 1\<rparr>, 0))"

definition consensus_request_vote :: "ConsensusEngine option \<Rightarrow> u32 \<Rightarrow> u32 \<Rightarrow> ConsensusEngine option \<times> int" where
  "consensus_request_vote h term candidate_id = with_handle (-1) h (\<lambda>e.
     if term = 0 \<or> candidate_id = 0 then (e, -1)
     else
       let e1 = (if term > en_current_term e then e\<lparr>en_current_term := term, en_voted_for := 0\<rparr> else e)
       in if (en_voted_for e1 = 0 \<or> en_voted_for e1 = candidate_id) \<and> term \<ge> en_current_term e1
          then (e1\<lparr>en_voted_for := candidate_id, en_vote_count := en_vote_count e1 + 1\<rparr>, 0)
          else (e1, -1))"

definition consensus_grant_vote :: "ConsensusEngine option \<Rightarrow> u32 \<Rightarrow> int" where
  "consensus_grant_vote h from_peer_id = read_handle (-1) h (\<lambda>e.
     if from_peer_id = 0 then -1
     else case first_idx (\<lambda>p. pr_peer_id p = from_peer_id) (en_peers e) of None \<Rightarrow> -1 | Some i \<Rightarrow> 0)"

definition consensus_append_entries ::
    "ConsensusEngine option \<Rightarrow> u32 \<Rightarrow> u32 \<Rightarrow> u64 \<Rightarrow> u32 \<Rightarrow> ConsensusEngine option \<times> int" where
  "consensus_append_entries h term leader_id prev_log_index prev_log_term = with_handle (-1) h (\<lambda>e.
     if term = 0 \<or> leader_id = 0 then (e, -1)
     else (if term > en_current_term e
           then e\<lparr>en_current_term := term, en_voted_for := 0, en_state := RAFT_STATE_FOLLOWER\<rparr> else e, 0))"

definition consensus_accept_entries :: "ConsensusEngine option \<Rightarrow> u32 \<Rightarrow> ConsensusEngine option \<times> int" where
  "consensus_accept_entries h from_peer_id = with_handle (-1) h (\<lambda>e.
     if from_peer_id = 0 then (e, -1)
     else case first_idx (\<lambda>p. pr_peer_id p = from_peer_id) (en_peers e) of None \<Rightarrow> (e, -1)
     | Some i \<Rightarrow> (e\<lparr>en_peers := (en_peers e)[i := (en_peers e ! i)\<lparr>pr_match_index := log_size e\<rparr>]\<rparr>, 0))"

definition consensus_start_election :: "ConsensusEngine option \<Rightarrow> ConsensusEngine option \<times> int" where
  "consensus_start_election h = with_handle (-1) h (\<lambda>e.
     (e\<lparr>en_current_term := en_current_term e + 1, en_voted_for := en_node_id e,
        en_state := RAFT_STATE_CANDIDATE, en_vote_count := 1, en_total_elections := en_total_elections e + 1\<rparr>, 0))"

definition consensus_become_leader :: "ConsensusEngine option \<Rightarrow> ConsensusEngine option \<times> int" where
  "consensus_become_leader h = with_handle (-1) h (\<lambda>e.
     (e\<lparr>en_state := RAFT_STATE_LEADER,
        en_peers := map (\<lambda>p. p\<lparr>pr_next_index := log_size e + 1, pr_match_index := 0\<rparr>) (en_peers e)\<rparr>, 0))"

definition majority :: "ConsensusEngine \<Rightarrow> u32" where
  "majority e = (of_nat (length (en_peers e)) + 1) div 2 + 1"

definition consensus_win_election :: "ConsensusEngine option \<Rightarrow> ConsensusEngine option \<times> int" where
  "consensus_win_election h = with_handle (-1) h (\<lambda>e.
     if en_vote_count e \<ge> majority e
     then (let (h', r) = consensus_become_leader (Some e) in (the h', r)) else (e, -1))"

definition consensus_create_quorum_operation ::
    "ConsensusEngine option \<Rightarrow> u32 \<Rightarrow> ConsensusOperationType \<Rightarrow> (ConsensusEngine option \<times> u32) \<times> int" where
  "consensus_create_quorum_operation h next_quorum_op_id op_type =
     (case h of None \<Rightarrow> ((None, next_quorum_op_id), -1)
      | Some e \<Rightarrow>
          if length (en_quorum_ops e) \<ge> MAX_QUORUM_OPERATIONS \<or> en_state e \<noteq> RAFT_STATE_LEADER
          then ((Some e, next_quorum_op_id), -1)
          else ((Some (e\<lparr>en_quorum_ops := en_quorum_ops e @ [\<lparr>qo_quorum_op_id = next_quorum_op_id,
                    qo_op_type = op_type, qo_peers = en_peers e, qo_commit_count = 1,
                    qo_required_commits = majority e, qo_timestamp = 0, qo_is_committed = False\<rparr>]\<rparr>),
                 next_quorum_op_id + 1), sint next_quorum_op_id))"

definition consensus_quorum_operation_complete ::
    "ConsensusEngine option \<Rightarrow> u32 \<Rightarrow> ConsensusEngine option \<times> int" where
  "consensus_quorum_operation_complete h quorum_op_id = with_handle (-1) h (\<lambda>e.
     if quorum_op_id = 0 then (e, -1)
     else case first_idx (\<lambda>q. qo_quorum_op_id q = quorum_op_id) (en_quorum_ops e) of None \<Rightarrow> (e, -1)
     | Some i \<Rightarrow>
         (e\<lparr>en_quorum_ops := (en_quorum_ops e)[i := (en_quorum_ops e ! i)\<lparr>qo_is_committed := True\<rparr>]\<rparr>, 0))"

text \<open>The loop ends: \<open>last_applied\<close> moves towards the commit index.\<close>

function apply_loop :: "u64 \<Rightarrow> u64 \<Rightarrow> u64 \<Rightarrow> u32 \<Rightarrow> u64 \<times> u32" where
  "apply_loop commit sz pos applied =
     (if pos < commit \<and> pos < sz then apply_loop commit sz (pos + 1) (applied + 1) else (pos, applied))"
  by auto
termination
proof (relation "measure (\<lambda>(commit, sz, pos, applied). unat commit - unat pos)")
  fix commit sz pos :: u64 and applied :: u32
  assume "pos < commit \<and> pos < sz"
  then show "((commit, sz, pos + 1, applied + 1), commit, sz, pos, applied)
      \<in> measure (\<lambda>(commit, sz, pos, applied). unat commit - unat pos)"
    using unat_succ_less [of pos commit] by (auto simp: word_less_nat_alt)
qed simp

declare apply_loop.simps [simp del]

definition consensus_apply_committed_entries :: "ConsensusEngine option \<Rightarrow> ConsensusEngine option \<times> int" where
  "consensus_apply_committed_entries h = with_handle (-1) h (\<lambda>e.
     let (pos, applied) = apply_loop (en_commit_index e) (log_size e) (en_last_applied e) 0
     in (e\<lparr>en_last_applied := pos\<rparr>, sint applied))"

definition consensus_create_snapshot :: "ConsensusEngine option \<Rightarrow> u64 \<Rightarrow> int" where
  "consensus_create_snapshot h last_included_index = read_handle (-1) h (\<lambda>e.
     if last_included_index = 0 \<or> last_included_index > log_size e then -1 else 0)"

definition consensus_get_metrics :: "ConsensusEngine option \<Rightarrow> bool \<Rightarrow> int \<times> ConsensusMetrics option" where
  "consensus_get_metrics h metrics = read_handle (-1, None) h (\<lambda>e.
     if \<not> metrics then (-1, None)
     else (0, Some \<lparr>mt_engine_id = en_engine_id e, mt_current_state = en_state e,
        mt_current_term = en_current_term e, mt_log_size = log_size e, mt_commit_index = en_commit_index e,
        mt_peer_count = of_nat (length (en_peers e)), mt_election_count = en_total_elections e,
        mt_commit_count = en_total_commits e,
        mt_replication_factor =
          (if en_peers e \<noteq> []
           then Some (of_nat (length (filter pr_is_active (en_peers e))), of_nat (length (en_peers e)))
           else None)\<rparr>))"

section \<open>Histories of an engine\<close>

datatype en_call =
  AddPeer u32 u32 | RemovePeer u32 | AppendLog ConsensusOperationType "u8 list option" u32 bool | Commit u64
  | RequestVote u32 u32 | GrantVote u32 | AppendEntries u32 u32 u64 u32 | AcceptEntries u32 | StartElection
  | WinElection | BecomeLeader | CreateQuorum u32 ConsensusOperationType | CompleteQuorum u32 | ApplyCommitted

datatype en_reply = Code int | Undefined

definition keep_engine :: "ConsensusEngine option \<times> int \<Rightarrow> ConsensusEngine \<times> en_reply" where
  "keep_engine x = (the (fst x), Code (snd x))"

fun en_step :: "ConsensusEngine \<Rightarrow> en_call \<Rightarrow> ConsensusEngine \<times> en_reply" where
  "en_step e (AddPeer p n) = keep_engine (consensus_add_peer (Some e) p n)"
| "en_step e (RemovePeer p) = keep_engine (consensus_remove_peer (Some e) p)"
| "en_step e (AppendLog t d n ok) =
     (case consensus_append_log_entry (Some e) t d n ok of Undef \<Rightarrow> (e, Undefined) | Done x \<Rightarrow> keep_engine x)"
| "en_step e (Commit i) = keep_engine (consensus_commit_entry (Some e) i)"
| "en_step e (RequestVote t c) = keep_engine (consensus_request_vote (Some e) t c)"
| "en_step e (GrantVote p) = (e, Code (consensus_grant_vote (Some e) p))"
| "en_step e (AppendEntries t l i p) = keep_engine (consensus_append_entries (Some e) t l i p)"
| "en_step e (AcceptEntries p) = keep_engine (consensus_accept_entries (Some e) p)"
| "en_step e StartElection = keep_engine (consensus_start_election (Some e))"
| "en_step e WinElection = keep_engine (consensus_win_election (Some e))"
| "en_step e BecomeLeader = keep_engine (consensus_become_leader (Some e))"
| "en_step e (CreateQuorum q t) = (let ((h, q'), r) = consensus_create_quorum_operation (Some e) q t in (the h, Code r))"
| "en_step e (CompleteQuorum q) = keep_engine (consensus_quorum_operation_complete (Some e) q)"
| "en_step e ApplyCommitted = keep_engine (consensus_apply_committed_entries (Some e))"

text \<open>
  The votes an engine gives: to the candidates whose request it accepts, and to itself when it
  starts an election.
\<close>

fun vote_given :: "ConsensusEngine \<Rightarrow> en_call \<Rightarrow> (u32 \<times> u32) list" where
  "vote_given e (RequestVote t c) = (if snd (en_step e (RequestVote t c)) = Code 0 then [(t, c)] else [])"
| "vote_given e StartElection = [(en_current_term (fst (en_step e StartElection)), en_node_id e)]"
| "vote_given e _ = []"

fun votes_given :: "ConsensusEngine \<Rightarrow> en_call list \<Rightarrow> (u32 \<times> u32) list" where
  "votes_given e [] = []"
| "votes_given e (x # xs) = vote_given e x @ votes_given (fst (en_step e x)) xs"

text \<open>The terms stay so low that the given number of elections does not wrap the term around.\<close>

fun term_room :: "nat \<Rightarrow> en_call \<Rightarrow> bool" where
  "term_room n (RequestVote t c) \<longleftrightarrow> unat t + n < 4294967296"
| "term_room n (AppendEntries t l i p) \<longleftrightarrow> unat t + n < 4294967296"
| "term_room n _ \<longleftrightarrow> True"

definition en_room :: "ConsensusEngine \<Rightarrow> en_call list \<Rightarrow> bool" where
  "en_room e xs \<longleftrightarrow> en_node_id e \<noteq> 0 \<and> unat (en_current_term e) + length xs < 4294967296 \<and>
     list_all (term_room (length xs)) xs"

section \<open>One vote per term\<close>

text \<open>A step raises the term, by one or to the term of a message, or keeps the term and the vote.\<close>

lemma en_step_frame:
  assumes "vote_given e x = []"
  shows "en_node_id (fst (en_step e x)) = en_node_id e"
    and "en_current_term (fst (en_step e x)) = en_current_term e \<and> en_voted_for (fst (en_step e x)) = en_voted_for e \<or>
      (\<exists>t. en_current_term (fst (en_step e x)) = t \<and> en_current_term e < t \<and> (\<forall>n. term_room n x \<longrightarrow> unat t + n < 4294967296))"
  using assms
  by (cases x; auto simp: keep_engine_def consensus_add_peer_def consensus_remove_peer_def consensus_append_log_entry_def
      consensus_commit_entry_def consensus_request_vote_def consensus_append_entries_def consensus_accept_entries_def
      consensus_win_election_def consensus_become_leader_def consensus_create_quorum_operation_def
      consensus_quorum_operation_complete_def consensus_apply_committed_entries_def with_handle_def with_handle_ub_def Let_def
      split: option.splits prod.splits outcome.splits if_splits)+

lemma term_room_mono: "term_room n x \<Longrightarrow> m \<le> n \<Longrightarrow> term_room m x"
  by (cases x) auto

lemma vote_step:
  assumes "(t, c) \<in> set (vote_given e x)" and "en_room e (x # xs)"
  shows "vote_given e x = [(t, c)]" and "c \<noteq> 0"
    and "en_current_term (fst (en_step e x)) = t" and "en_voted_for (fst (en_step e x)) = c"
    and "en_node_id (fst (en_step e x)) = en_node_id e"
    and "en_current_term e \<le> t" and "t = en_current_term e \<Longrightarrow> en_voted_for e \<noteq> 0 \<Longrightarrow> c = en_voted_for e"
    and "unat t + length xs < 4294967296"
proof -
  have elect: "en_current_term e < en_current_term e + 1" "unat (en_current_term e + 1) + length xs < 4294967296"
    if "x = StartElection"
  proof -
    have "unat (en_current_term e + 1) = Suc (unat (en_current_term e))"
      using assms(2) by (simp add: en_room_def unat_word_ariths)
    with assms(2) show "en_current_term e < en_current_term e + 1" "unat (en_current_term e + 1) + length xs < 4294967296"
      by (simp_all add: word_less_nat_alt en_room_def)
  qed
  consider (election) "x = StartElection" "t = en_current_term e + 1" "c = en_node_id e" | (request) "x = RequestVote t c"
    using assms(1) by (cases x) (auto simp: keep_engine_def consensus_start_election_def split: if_splits)
  then show "vote_given e x = [(t, c)]" and "c \<noteq> 0"
    and "en_current_term (fst (en_step e x)) = t" and "en_voted_for (fst (en_step e x)) = c"
    and "en_node_id (fst (en_step e x)) = en_node_id e"
    and "en_current_term e \<le> t" and "t = en_current_term e \<Longrightarrow> en_voted_for e \<noteq> 0 \<Longrightarrow> c = en_voted_for e"
    and "unat t + length xs < 4294967296"
    using assms elect
    by (cases; auto simp: keep_engine_def consensus_start_election_def consensus_request_vote_def en_room_def Let_def
        split: if_splits)+
qed

lemma en_room_step: "en_room e (x # xs) \<Longrightarrow> en_room (fst (en_step e x)) xs"
proof -
  assume room: "en_room e (x # xs)"
  have rest: "list_all (term_room (length xs)) xs"
    using room by (auto simp: en_room_def list_all_iff elim!: term_room_mono)
  show ?thesis
  proof (cases "vote_given e x")
    case Nil
    with en_step_frame [OF Nil] room rest show ?thesis by (fastforce simp: en_room_def)
  next
    case (Cons v vs)
    then have "v \<in> set (vote_given e x)" by simp
    with vote_step [of "fst v" "snd v" e x xs] room rest show ?thesis by (simp add: en_room_def)
  qed
qed

text \<open>Votes still to come are for the current term or a later one, and repeat the current vote.\<close>

lemma votes_later:
  assumes "en_room e xs" and "(t, c) \<in> set (votes_given e xs)"
  shows "c \<noteq> 0" and "en_current_term e \<le> t" and "t = en_current_term e \<Longrightarrow> en_voted_for e \<noteq> 0 \<Longrightarrow> c = en_voted_for e"
proof -
  have "c \<noteq> 0 \<and> en_current_term e \<le> t \<and> (t = en_current_term e \<longrightarrow> en_voted_for e \<noteq> 0 \<longrightarrow> c = en_voted_for e)"
    using assms
  proof (induction xs arbitrary: e)
    case Nil
    then show ?case by simp
  next
    case (Cons x xs)
    let ?e = "fst (en_step e x)"
    note IH = Cons.IH [OF en_room_step [OF Cons.prems(1)]]
    show ?case
    proof (cases "(t, c) \<in> set (vote_given e x)")
      case True
      then show ?thesis using vote_step [OF True Cons.prems(1)] by blast
    next
      case False
      with Cons.prems(2) have later: "(t, c) \<in> set (votes_given ?e xs)" by simp
      show ?thesis
      proof (cases "vote_given e x")
        case Nil
        with IH [OF later] en_step_frame(2) [OF Nil] show ?thesis by fastforce
      next
        case (Cons v vs)
        then have "(fst v, snd v) \<in> set (vote_given e x)" by simp
        from vote_step [OF this Cons.prems(1)] IH [OF later] show ?thesis by fastforce
      qed
    qed
  qed
  then show "c \<noteq> 0" and "en_current_term e \<le> t" and "t = en_current_term e \<Longrightarrow> en_voted_for e \<noteq> 0 \<Longrightarrow> c = en_voted_for e"
    by auto
qed

lemma one_vote_per_term:
  assumes "en_room e xs" and "(t, a) \<in> set (votes_given e xs)" and "(t, b) \<in> set (votes_given e xs)"
  shows "a = b"
  using assms
proof (induction xs arbitrary: e)
  case Nil
  then show ?case by simp
next
  case (Cons x xs)
  let ?e = "fst (en_step e x)"
  note room = en_room_step [OF Cons.prems(1)]
  have now: "d = c" if "(t, c) \<in> set (vote_given e x)" "(t, d) \<in> set (votes_given ?e xs)" for c d
    using vote_step [OF that(1) Cons.prems(1)] votes_later(3) [OF room that(2)] by simp
  have "c = d" if "(t, c) \<in> set (vote_given e x)" "(t, d) \<in> set (vote_given e x)" for c d
    using vote_step(1) [OF that(1) Cons.prems(1)] that by auto
  with now Cons.IH [OF room] Cons.prems(2,3) show ?case by auto
qed

section \<open>Majorities\<close>

definition voters :: "ConsensusEngine list \<Rightarrow> en_call list list \<Rightarrow> u32 \<Rightarrow> u32 \<Rightarrow> nat set" where
  "voters es hs t c = {i. i < length es \<and> (t, c) \<in> set (votes_given (es ! i) (hs ! i))}"

lemma unat_majority:
  assumes "length (en_peers e) \<le> MAX_CONSENSUS_PEERS"
  shows "unat (majority e) = Suc (length (en_peers e)) div 2 + 1"
proof -
  let ?n = "length (en_peers e)"
  have "unat ((of_nat ?n + 1 :: u32) div 2) = Suc ?n div 2"
    using next_id(1) [of "en_peers e"] assms by (simp add: unat_div MAX_CONSENSUS_PEERS_def)
  moreover from this assms have "unat ((of_nat ?n + 1 :: u32) div 2) < 4294967295" by (simp add: MAX_CONSENSUS_PEERS_def)
  ultimately show ?thesis by (simp add: majority_def unat_word_ariths)
qed

text \<open>
  The engines as the electorate of the ballots: each engine with its history, as long as there is
  room for its terms.
\<close>

definition gives :: "ConsensusEngine list \<Rightarrow> en_call list list \<Rightarrow> nat \<Rightarrow> u32 \<Rightarrow> u32 \<Rightarrow> bool" where
  "gives es hs i t c \<longleftrightarrow> en_room (es ! i) (hs ! i) \<and> (t, c) \<in> set (votes_given (es ! i) (hs ! i))"

interpretation engines: ballot "{..<length es}" "gives es hs"
  by unfold_locales (auto simp: gives_def intro: one_vote_per_term)

text \<open>Repeated requests of one candidate are all granted and counted.\<close>

lemma repeated_requests:
  assumes "t = en_current_term e" and "en_voted_for e = c" and "t \<noteq> 0" and "c \<noteq> 0"
  shows "fst (call_run en_step e (replicate k (RequestVote t c))) = e\<lparr>en_vote_count := en_vote_count e + of_nat k\<rparr>"
  using assms
proof (induction k arbitrary: e)
  case 0
  then show ?case by simp
next
  case (Suc k)
  have "en_step e (RequestVote t c) = (e\<lparr>en_vote_count := en_vote_count e + 1\<rparr>, Code 0)"
    using Suc.prems by (simp add: keep_engine_def consensus_request_vote_def Let_def)
  with Suc.IH [of "e\<lparr>en_vote_count := en_vote_count e + 1\<rparr>"] Suc.prems show ?case
    by (simp add: case_prod_beta add.assoc)
qed

lemma grant_votes_ignored: "fst (call_run en_step e (map GrantVote ps)) = e"
  by (induction ps) (simp_all add: case_prod_beta)

section \<open>Main theorems\<close>

text \<open>
  Claim C1. Election safety. Take any number of engines, each driven by any history of calls of its
  own (messages in any order, repeated or lost, elections, log operations), as long as no engine has
  the node number 0 and the terms it has and is told stay so low that as many elections as it gets calls
  do not wrap them around. If two candidates have both been given the votes of
  at least as many engines as \<open>consensus_win_election\<close> asks for, in the same term, they are the same
  candidate.
\<close>

theorem consensus_election_safety:
  assumes "list_all2 en_room es hs"
    and "length es = Suc (length (en_peers e))" and "length (en_peers e) \<le> MAX_CONSENSUS_PEERS"
    and "unat (majority e) \<le> card (voters es hs t a)" and "unat (majority e) \<le> card (voters es hs t b)"
  shows "a = b"
proof (rule engines.one_winner)
  have "voters es hs t c = {i \<in> {..<length es}. gives es hs i t c}" for c
    using list_all2_nthD [OF assms(1)] by (auto simp: voters_def gives_def)
  then show "card {..<length es} div 2 < card {i \<in> {..<length es}. gives es hs i t a}"
    and "card {..<length es} div 2 < card {i \<in> {..<length es}. gives es hs i t b}"
    using assms(2,4,5) unat_majority [OF assms(3)] by simp_all
qed

definition engine :: "u32 \<Rightarrow> ConsensusEngine" where
  "engine n = the (consensus_engine_init n True)"

text \<open>
  Both conditions are needed. An engine with the node number 0 that starts an election has 0 as its vote, which counts as none,
  and gives a second vote in the same term; and an engine whose term wraps around votes again in the terms it has been in.
\<close>

lemma node_zero_votes_twice: "votes_given (engine 0) [StartElection, RequestVote 1 5] = [(1, 0), (1, 5)]"
  by (simp add: engine_def consensus_engine_init_def keep_engine_def consensus_start_election_def
      consensus_request_vote_def Let_def)

lemma wrapped_term_votes_twice:
  "votes_given (engine 1) [StartElection, RequestVote 0xFFFFFFFF 2, StartElection, RequestVote 1 5] =
     [(1, 1), (0xFFFFFFFF, 2), (0, 1), (1, 5)]"
  by (simp add: engine_def consensus_engine_init_def keep_engine_def consensus_start_election_def
      consensus_request_vote_def Let_def)

theorem consensus_election_safety_witness:
  "\<exists>es hs t a. length es = 3 \<and> 2 \<le> card (voters es hs t a) \<and> (\<forall>b. 2 \<le> card (voters es hs t b) \<longrightarrow> b = a)"
proof -
  let ?es = "[engine 1, engine 2, engine 3]"
  let ?hs = "[[StartElection], [RequestVote 1 1], [StartElection, RequestVote 1 1]]"
  let ?e = "fst (en_step (fst (en_step (engine 1) (AddPeer 2 2))) (AddPeer 3 3))"
  have peers: "length (en_peers ?e) = 2"
    by (simp add: engine_def consensus_engine_init_def keep_engine_def consensus_add_peer_def MAX_CONSENSUS_PEERS_def)
  then have maj: "unat (majority ?e) = 2" using unat_majority [of ?e] by (simp add: MAX_CONSENSUS_PEERS_def)
  have room: "list_all2 en_room ?es ?hs" by (simp add: en_room_def engine_def consensus_engine_init_def)
  have v: "voters ?es ?hs 1 1 = {0, 1}"
    by (auto simp: voters_def less_Suc_eq numeral_3_eq_3 engine_def consensus_engine_init_def keep_engine_def
        consensus_start_election_def consensus_request_vote_def Let_def)
  have "b = 1" if "2 \<le> card (voters ?es ?hs 1 b)" for b
    using consensus_election_safety [OF room, of ?e 1 b 1] peers maj that v by (simp add: MAX_CONSENSUS_PEERS_def)
  with v show ?thesis by (intro exI [of _ ?es] exI [of _ ?hs] exI [of _ 1]) auto
qed

text \<open>
  The engine does not count the votes it receives. (1) A candidate with at least one peer
  that has started an election does not win it, however many of its peers grant their votes. (2) An
  engine that gives its vote for a new term to another candidate, as often as a majority, then
  \<open>wins\<close> that election: it becomes leader of the term in which it voted for the other one.
\<close>

lemma consensus_votes_miscounted:
  assumes "length (en_peers e) \<le> MAX_CONSENSUS_PEERS" and "en_peers e \<noteq> []"
    and "en_current_term e < t" and "c \<noteq> 0" and "unat (majority e) \<le> k" and "unat (en_vote_count e) + k < 4294967296"
  shows "snd (en_step (fst (call_run en_step e (StartElection # map GrantVote ps))) WinElection) = Code (-1) \<and>
    (let (e', r) = en_step (fst (call_run en_step e (replicate k (RequestVote t c)))) WinElection
     in r = Code 0 \<and> en_state e' = RAFT_STATE_LEADER \<and> en_current_term e' = t \<and> en_voted_for e' = c)"
proof
  let ?s = "fst (en_step e StartElection)"
  have "fst (call_run en_step e (StartElection # map GrantVote ps)) = ?s"
    using grant_votes_ignored [of ?s ps] by (simp add: case_prod_beta)
  moreover have "majority ?s = majority e" "en_vote_count ?s = 1"
    by (simp_all add: majority_def keep_engine_def consensus_start_election_def)
  moreover have "\<not> majority e \<le> 1"
    using unat_majority [OF assms(1)] assms(2) by (cases "en_peers e") (simp_all add: word_le_nat_alt)
  ultimately show "snd (en_step (fst (call_run en_step e (StartElection # map GrantVote ps))) WinElection) = Code (-1)"
    by (simp add: keep_engine_def consensus_win_election_def del: call_run.simps en_step.simps(9))
next
  obtain j where k: "k = Suc j" using assms(5) unat_majority [OF assms(1)] by (cases k) auto
  have t: "t \<noteq> 0" using assms(3) by auto
  let ?v = "e\<lparr>en_current_term := t, en_voted_for := c, en_vote_count := en_vote_count e + 1\<rparr>"
  have "en_step e (RequestVote t c) = (?v, Code 0)"
    using assms(3,4) by (auto simp: keep_engine_def consensus_request_vote_def Let_def)
  then have run: "fst (call_run en_step e (replicate k (RequestVote t c))) = ?v\<lparr>en_vote_count := en_vote_count e + of_nat k\<rparr>"
    using repeated_requests [of t ?v c j] assms(4) t k by (simp add: case_prod_beta add.assoc)
  have "unat (en_vote_count e + of_nat k) = unat (en_vote_count e) + k"
    using assms(6) by (simp add: unat_word_ariths unat_of_nat)
  with assms(5) have "majority e \<le> en_vote_count e + of_nat k" by (simp add: word_le_nat_alt)
  then show "let (e', r) = en_step (fst (call_run en_step e (replicate k (RequestVote t c)))) WinElection
     in r = Code 0 \<and> en_state e' = RAFT_STATE_LEADER \<and> en_current_term e' = t \<and> en_voted_for e' = c"
    unfolding run by (simp add: keep_engine_def consensus_win_election_def consensus_become_leader_def majority_def
        with_handle_Some)
qed

lemma consensus_votes_miscounted_witness:
  "let e = fst (en_step (engine 1) (AddPeer 2 2)) in
   snd (en_step (fst (call_run en_step e [StartElection, GrantVote 2])) WinElection) = Code (-1) \<and>
   en_state (fst (en_step (fst (call_run en_step e [RequestVote 1 2, RequestVote 1 2])) WinElection)) = RAFT_STATE_LEADER"
proof -
  let ?e = "fst (en_step (engine 1) (AddPeer 2 2))"
  have e: "length (en_peers ?e) = 1" "en_peers ?e \<noteq> []" "en_current_term ?e = 0" "en_vote_count ?e = 0"
    by (simp_all add: engine_def consensus_engine_init_def keep_engine_def consensus_add_peer_def MAX_CONSENSUS_PEERS_def)
  then have "unat (majority ?e) = 2" using unat_majority [of ?e] by (simp add: MAX_CONSENSUS_PEERS_def)
  then show ?thesis
    using consensus_votes_miscounted [of ?e 1 2 2 "[2]"] e
    by (auto simp: MAX_CONSENSUS_PEERS_def numeral_2_eq_2 Let_def case_prod_beta simp del: en_step.simps call_run.simps)
qed

lemma ucast_add_one: "ucast (a + 1 :: u64) = (ucast a + 1 :: u32)"
proof -
  have "take_bit 32 (take_bit 64 k + 1) = take_bit 32 (k + 1)" for k :: int
    using take_bit_add [of 32 "take_bit 64 k" 1] take_bit_add [of 32 k 1] by simp
  then show ?thesis by transfer simp
qed

text \<open>Committed entries are applied up to the commit index, and never past the log.\<close>

lemma apply_loop_exact:
  "apply_loop commit sz pos applied =
     (if pos < commit \<and> pos < sz then (min commit sz, applied + ucast (min commit sz - pos)) else (pos, applied))"
proof (induction commit sz pos applied rule: apply_loop.induct)
  case (1 commit sz pos applied)
  show ?case
  proof (cases "pos < commit \<and> pos < sz")
    case True
    with 1 have IH: "apply_loop commit sz pos applied = (if pos + 1 < commit \<and> pos + 1 < sz
        then (min commit sz, applied + 1 + ucast (min commit sz - (pos + 1))) else (pos + 1, applied + 1))"
      by (simp add: apply_loop.simps [of commit sz pos])
    have le: "pos + 1 \<le> min commit sz" using True by (auto simp: min_def inc_le)
    have "ucast (min commit sz - pos) = (1 :: u32) + ucast (min commit sz - (pos + 1))"
    proof -
      have "min commit sz - pos = (min commit sz - (pos + 1)) + 1" by simp
      then show ?thesis by (metis add.commute ucast_add_one)
    qed
    moreover have "\<not> (pos + 1 < commit \<and> pos + 1 < sz) \<Longrightarrow> min commit sz = pos + 1"
      using le by (auto simp: min_def not_less split: if_splits)
    ultimately show ?thesis using IH True by (cases "pos + 1 < commit \<and> pos + 1 < sz") (auto simp: add.assoc)
  qed (auto simp: apply_loop.simps [of commit sz pos])
qed

end
