(* ===== verification/Watchdog.thy ===== *)
theory Watchdog
  imports Contracts
begin

text \<open>
  The watchdog and deadlock detector of \<open>src/fault-tolerance/watchdog_deadlock_detector.c\<close>: watched
  processes with heartbeats, dependencies \<open>waiter waits for holder\<close> between processes, and the
  cycles found among them. The results of the floating-point divisions in the metrics are kept as
  the pairs of their operands. The slots of \<open>deadlock_cycles\<close> past the count are not read.

  The second half says exactly what the detector finds: the pairs of processes that wait for each
  other. Longer cycles are not found, and a timeout is never found.
\<close>

section \<open>Constants and data\<close>

definition MAX_WATCHED_PROCESSES :: nat where "MAX_WATCHED_PROCESSES = 512"
definition MAX_LOCK_DEPENDENCIES :: nat where "MAX_LOCK_DEPENDENCIES = 4096"
definition MAX_DEADLOCK_CYCLES :: nat where "MAX_DEADLOCK_CYCLES = 256"

datatype WatchdogState =
  WATCHDOG_STATE_HEALTHY | WATCHDOG_STATE_DELAYED | WATCHDOG_STATE_STALLED | WATCHDOG_STATE_TIMEOUT

record WatchdogEntry =
  we_process_id :: u32
  we_thread_id :: u32
  we_state :: WatchdogState
  we_last_heartbeat_time :: u64
  we_timeout_seconds :: u32
  we_watchdog_count :: u64
  we_consecutive_timeouts :: u32
  we_is_monitored :: bool

record LockDependency =
  ld_lock_id :: u32
  ld_holder_process_id :: u32
  ld_waiter_process_id :: u32
  ld_lock_acquired_time :: u64
  ld_wait_start_time :: u64
  ld_wait_duration_us :: u32

text \<open>The array \<open>process_ids\<close> of a cycle holds \<open>process_count\<close> entries.\<close>

record DeadlockCycle =
  dl_cycle_id :: u32
  dl_process_ids :: "u32 list"
  dl_detected_time :: u64
  dl_is_resolved :: bool

record WatchdogDeadlockDetector =
  wd_detector_id :: u32
  wd_watched_processes :: "WatchdogEntry list"
  wd_lock_deps :: "LockDependency list"
  wd_deadlock_cycles :: "DeadlockCycle list"
  wd_total_timeouts_detected :: u64
  wd_total_deadlocks_detected :: u64
  wd_deadlock_resolutions :: u32

record WatchdogMetrics =
  wm_detector_id :: u32
  wm_monitored_processes :: u32
  wm_total_timeouts :: u64
  wm_total_deadlocks :: u64
  wm_deadlock_resolutions :: u32
  wm_timeout_rate :: "(u64 \<times> u32) option"
  wm_deadlock_rate :: "u64 \<times> u64"

section \<open>Watched processes\<close>

definition watchdog_init :: "bool \<Rightarrow> WatchdogDeadlockDetector option" where
  "watchdog_init malloc_ok =
     (if \<not> malloc_ok then None
      else Some \<lparr>wd_detector_id = 1, wd_watched_processes = [], wd_lock_deps = [], wd_deadlock_cycles = [],
        wd_total_timeouts_detected = 0, wd_total_deadlocks_detected = 0, wd_deadlock_resolutions = 0\<rparr>)"

definition watchdog_destroy :: "WatchdogDeadlockDetector option \<Rightarrow> WatchdogDeadlockDetector option \<times> int" where
  "watchdog_destroy h = (None, case h of None \<Rightarrow> -1 | Some d \<Rightarrow> 0)"

definition watchdog_register_process ::
    "WatchdogDeadlockDetector option \<Rightarrow> u32 \<Rightarrow> u32 \<Rightarrow> WatchdogDeadlockDetector option \<times> int" where
  "watchdog_register_process h process_id timeout_seconds = with_handle (-1) h (\<lambda>d.
     if length (wd_watched_processes d) \<ge> MAX_WATCHED_PROCESSES \<or> process_id = 0 then (d, -1)
     else (d\<lparr>wd_watched_processes := wd_watched_processes d @ [\<lparr>we_process_id = process_id, we_thread_id = 0,
             we_state = WATCHDOG_STATE_HEALTHY, we_last_heartbeat_time = 0,
             we_timeout_seconds = (if timeout_seconds > 0 then timeout_seconds else 30),
             we_watchdog_count = 0, we_consecutive_timeouts = 0, we_is_monitored = True\<rparr>]\<rparr>, 0))"

definition find_process :: "u32 \<Rightarrow> WatchdogDeadlockDetector \<Rightarrow> nat option" where
  "find_process process_id d = first_idx (\<lambda>e. we_process_id e = process_id) (wd_watched_processes d)"

definition watchdog_unregister_process ::
    "WatchdogDeadlockDetector option \<Rightarrow> u32 \<Rightarrow> WatchdogDeadlockDetector option \<times> int" where
  "watchdog_unregister_process h process_id = with_handle (-1) h (\<lambda>d.
     if process_id = 0 then (d, -1)
     else case find_process process_id d of None \<Rightarrow> (d, -1)
     | Some i \<Rightarrow> (d\<lparr>wd_watched_processes := remove_at i (wd_watched_processes d)\<rparr>, 0))"

definition watchdog_heartbeat ::
    "WatchdogDeadlockDetector option \<Rightarrow> u32 \<Rightarrow> WatchdogDeadlockDetector option \<times> int" where
  "watchdog_heartbeat h process_id = with_handle (-1) h (\<lambda>d.
     if process_id = 0 then (d, -1)
     else case find_process process_id d of None \<Rightarrow> (d, -1)
     | Some i \<Rightarrow>
         let e = wd_watched_processes d ! i in
         (d\<lparr>wd_watched_processes := (wd_watched_processes d)[i := e\<lparr>we_last_heartbeat_time := 0,
              we_watchdog_count := we_watchdog_count e + 1, we_consecutive_timeouts := 0,
              we_state := WATCHDOG_STATE_HEALTHY\<rparr>]\<rparr>, 0))"

definition watchdog_check_timeout ::
    "WatchdogDeadlockDetector option \<Rightarrow> u32 \<Rightarrow> WatchdogDeadlockDetector option \<times> int" where
  "watchdog_check_timeout h process_id = with_handle (-1) h (\<lambda>d.
     if process_id = 0 then (d, -1)
     else case find_process process_id d of None \<Rightarrow> (d, -1)
     | Some i \<Rightarrow>
         let e = wd_watched_processes d ! i; elapsed = 0 :: u64 in
         if elapsed > ucast (we_timeout_seconds e) * 1000000
         then (d\<lparr>wd_watched_processes := (wd_watched_processes d)[i := e\<lparr>we_state := WATCHDOG_STATE_TIMEOUT,
                   we_consecutive_timeouts := we_consecutive_timeouts e + 1\<rparr>]\<rparr>, 1)
         else (d, 0))"

text \<open>The loop over the watched processes, from index \<open>i\<close> for the remaining \<open>n\<close> of them.\<close>

fun timeout_loop :: "nat \<Rightarrow> nat \<Rightarrow> WatchdogDeadlockDetector \<Rightarrow> u32 \<Rightarrow> WatchdogDeadlockDetector \<times> u32" where
  "timeout_loop 0 i d timeout_count = (d, timeout_count)"
| "timeout_loop (Suc n) i d timeout_count =
     (let (h, r) = watchdog_check_timeout (Some d) (we_process_id (wd_watched_processes d ! i)); d1 = the h
      in if r > 0
         then timeout_loop n (Suc i) (d1\<lparr>wd_total_timeouts_detected := wd_total_timeouts_detected d1 + 1\<rparr>) (timeout_count + 1)
         else timeout_loop n (Suc i) d1 timeout_count)"

definition watchdog_detect_all_timeouts ::
    "WatchdogDeadlockDetector option \<Rightarrow> WatchdogDeadlockDetector option \<times> int" where
  "watchdog_detect_all_timeouts h = with_handle 0 h (\<lambda>d.
     let (d', n) = timeout_loop (length (wd_watched_processes d)) 0 d 0 in (d', sint n))"

definition deadlock_kill_process :: "WatchdogDeadlockDetector option \<Rightarrow> u32 \<Rightarrow> int" where
  "deadlock_kill_process h process_id = read_handle (-1) h (\<lambda>d. if process_id = 0 then -1 else 0)"

definition watchdog_handle_timeout :: "WatchdogDeadlockDetector option \<Rightarrow> u32 \<Rightarrow> int" where
  "watchdog_handle_timeout h process_id = read_handle (-1) h (\<lambda>d.
     if process_id = 0 then -1
     else case find_process process_id d of None \<Rightarrow> -1
     | Some i \<Rightarrow> if we_consecutive_timeouts (wd_watched_processes d ! i) \<ge> 3
                then deadlock_kill_process (Some d) process_id else 0)"

section \<open>Dependencies and cycles\<close>

definition lock_dependency_add ::
    "WatchdogDeadlockDetector option \<Rightarrow> u32 \<Rightarrow> u32 \<Rightarrow> u32 \<Rightarrow> WatchdogDeadlockDetector option \<times> int" where
  "lock_dependency_add h lock_id holder_id waiter_id = with_handle (-1) h (\<lambda>d.
     if length (wd_lock_deps d) \<ge> MAX_LOCK_DEPENDENCIES then (d, -1)
     else (d\<lparr>wd_lock_deps := wd_lock_deps d @ [\<lparr>ld_lock_id = lock_id, ld_holder_process_id = holder_id,
             ld_waiter_process_id = waiter_id, ld_lock_acquired_time = 0, ld_wait_start_time = 0,
             ld_wait_duration_us = 0\<rparr>]\<rparr>, 0))"

definition lock_dependency_remove ::
    "WatchdogDeadlockDetector option \<Rightarrow> u32 \<Rightarrow> WatchdogDeadlockDetector option \<times> int" where
  "lock_dependency_remove h lock_id = with_handle (-1) h (\<lambda>d.
     if lock_id = 0 then (d, -1)
     else case first_idx (\<lambda>x. ld_lock_id x = lock_id) (wd_lock_deps d) of None \<Rightarrow> (d, -1)
     | Some i \<Rightarrow> (d\<lparr>wd_lock_deps := remove_at i (wd_lock_deps d)\<rparr>, 0))"

text \<open>The inner loop: is there a dependency in the opposite direction? It stops at the first.\<close>

fun reversed_loop :: "LockDependency \<Rightarrow> LockDependency list \<Rightarrow> bool" where
  "reversed_loop dep [] \<longleftrightarrow> False"
| "reversed_loop dep (other # others) \<longleftrightarrow>
     (if ld_holder_process_id other = ld_waiter_process_id dep \<and> ld_waiter_process_id other = ld_holder_process_id dep
      then True else reversed_loop dep others)"

text \<open>The outer loop over the remaining dependencies, with the cycles stored so far.\<close>

fun detect_loop :: "LockDependency list \<Rightarrow> LockDependency list \<Rightarrow> DeadlockCycle list \<Rightarrow> u64 \<Rightarrow> DeadlockCycle list \<times> u64" where
  "detect_loop all [] cycles found = (cycles, found)"
| "detect_loop all (dep # deps) cycles found =
     (if length cycles < MAX_DEADLOCK_CYCLES
      then if reversed_loop dep all
           then detect_loop all deps
                  (cycles @ [\<lparr>dl_cycle_id = of_nat (length cycles) + 1,
                     dl_process_ids = [ld_holder_process_id dep, ld_waiter_process_id dep],
                     dl_detected_time = 0, dl_is_resolved = False\<rparr>]) (found + 1)
           else detect_loop all deps cycles found
      else (cycles, found))"

definition deadlock_detect_cycles ::
    "WatchdogDeadlockDetector option \<Rightarrow> WatchdogDeadlockDetector option \<times> int" where
  "deadlock_detect_cycles h = with_handle 0 h (\<lambda>d.
     let (cycles, found) = detect_loop (wd_lock_deps d) (wd_lock_deps d) [] (wd_total_deadlocks_detected d)
     in (d\<lparr>wd_deadlock_cycles := cycles, wd_total_deadlocks_detected := found\<rparr>, int (length cycles)))"

definition deadlock_resolve_cycle ::
    "WatchdogDeadlockDetector option \<Rightarrow> u32 \<Rightarrow> WatchdogDeadlockDetector option \<times> int" where
  "deadlock_resolve_cycle h cycle_id = with_handle (-1) h (\<lambda>d.
     if cycle_id = 0 then (d, -1)
     else case first_idx (\<lambda>c. dl_cycle_id c = cycle_id) (wd_deadlock_cycles d) of None \<Rightarrow> (d, -1)
     | Some i \<Rightarrow>
         (d\<lparr>wd_deadlock_cycles := (wd_deadlock_cycles d)[i := (wd_deadlock_cycles d ! i)\<lparr>dl_is_resolved := True\<rparr>],
            wd_deadlock_resolutions := wd_deadlock_resolutions d + 1\<rparr>, 0))"

definition deadlock_get_cycle_info ::
    "WatchdogDeadlockDetector option \<Rightarrow> u32 \<Rightarrow> bool \<Rightarrow> int \<times> DeadlockCycle option" where
  "deadlock_get_cycle_info h cycle_id cycle = read_handle (-1, None) h (\<lambda>d.
     if cycle_id = 0 \<or> \<not> cycle then (-1, None)
     else case first_idx (\<lambda>c. dl_cycle_id c = cycle_id) (wd_deadlock_cycles d) of None \<Rightarrow> (-1, None)
     | Some i \<Rightarrow> (0, Some (wd_deadlock_cycles d ! i)))"

definition watchdog_get_metrics ::
    "WatchdogDeadlockDetector option \<Rightarrow> bool \<Rightarrow> int \<times> WatchdogMetrics option" where
  "watchdog_get_metrics h metrics = read_handle (-1, None) h (\<lambda>d.
     if \<not> metrics then (-1, None)
     else (0, Some \<lparr>wm_detector_id = wd_detector_id d,
        wm_monitored_processes = of_nat (length (wd_watched_processes d)),
        wm_total_timeouts = wd_total_timeouts_detected d, wm_total_deadlocks = wd_total_deadlocks_detected d,
        wm_deadlock_resolutions = wd_deadlock_resolutions d,
        wm_timeout_rate = (if wd_watched_processes d \<noteq> []
          then Some (wd_total_timeouts_detected d, of_nat (length (wd_watched_processes d))) else None),
        wm_deadlock_rate = (wd_total_deadlocks_detected d, 10000)\<rparr>))"

section \<open>What the detector finds\<close>

text \<open>\<open>(p, q)\<close> is in the relation when \<open>p\<close> waits for a lock that \<open>q\<close> holds.\<close>

definition waits_for :: "WatchdogDeadlockDetector \<Rightarrow> (u32 \<times> u32) set" where
  "waits_for d = (\<lambda>x. (ld_waiter_process_id x, ld_holder_process_id x)) ` set (wd_lock_deps d)"

definition mutual :: "WatchdogDeadlockDetector \<Rightarrow> LockDependency \<Rightarrow> bool" where
  "mutual d x \<longleftrightarrow> (ld_holder_process_id x, ld_waiter_process_id x) \<in> waits_for d"

lemma reversed_loop_mutual: "reversed_loop x (wd_lock_deps d) \<longleftrightarrow> mutual d x"
proof -
  have "reversed_loop x ys \<longleftrightarrow>
      (ld_holder_process_id x, ld_waiter_process_id x) \<in> (\<lambda>x. (ld_waiter_process_id x, ld_holder_process_id x)) ` set ys" for ys
    by (induction x ys rule: reversed_loop.induct) auto
  then show ?thesis by (simp add: mutual_def waits_for_def)
qed

lemma detect_loop_eq:
  assumes "detect_loop all deps cycles found = (cycles', found')" and "length cycles \<le> MAX_DEADLOCK_CYCLES"
  shows "map dl_process_ids cycles' = map dl_process_ids cycles @
      map (\<lambda>x. [ld_holder_process_id x, ld_waiter_process_id x])
        (take (MAX_DEADLOCK_CYCLES - length cycles) (filter (\<lambda>x. reversed_loop x all) deps))"
    and "found' = found + of_nat (length cycles' - length cycles)" and "length cycles \<le> length cycles'"
  using assms
proof (induction all deps cycles found arbitrary: cycles' found' rule: detect_loop.induct)
  case (1 all cycles found)
  {
    case 1
    then show ?case by simp
  next
    case 2
    then show ?case by simp
  next
    case 3
    then show ?case by simp
  }
next
  case (2 all dep deps cycles found)
  note IH = "2.IH"
  {
    case 1
    then show ?case
      using IH(1,4) by (auto simp: Suc_diff_le take_Cons' split: if_splits)
  next
    case 2
    then show ?case
      using IH(2,3,5) by (fastforce simp: Suc_diff_le split: if_splits)
  next
    case 3
    then show ?case
      using IH(3,6) by (fastforce split: if_splits)
  }
qed

text \<open>A timeout is never found, since the elapsed time is the constant 0.\<close>

lemma check_timeout_never: "watchdog_check_timeout (Some d) p = (Some d, snd (watchdog_check_timeout (Some d) p))"
    "snd (watchdog_check_timeout (Some d) p) \<le> 0"
  by (auto simp: watchdog_check_timeout_def with_handle_def Let_def split: option.splits)

lemma timeout_loop_never: "timeout_loop n i d k = (d, k)"
proof (induction n arbitrary: i)
  case 0
  then show ?case by simp
next
  case (Suc n)
  with check_timeout_never [of d "we_process_id (wd_watched_processes d ! i)"] show ?case
    by (auto simp: case_prod_beta simp del: check_timeout_never) (metis fst_conv option.sel)+
qed

lemma watchdog_never_fires: "watchdog_detect_all_timeouts (Some d) = (Some d, 0)"
  by (simp add: watchdog_detect_all_timeouts_def timeout_loop_never)

lemma detect_run:
  assumes "deadlock_detect_cycles (Some d) = (Some d', r)"
  shows "map dl_process_ids (wd_deadlock_cycles d') =
      map (\<lambda>x. [ld_holder_process_id x, ld_waiter_process_id x]) (take 256 (filter (mutual d) (wd_lock_deps d)))"
    and "r = int (length (wd_deadlock_cycles d'))"
    and "wd_total_deadlocks_detected d' = wd_total_deadlocks_detected d + of_nat (length (wd_deadlock_cycles d'))"
    and "r > 0 \<longleftrightarrow> (\<exists>p q. (p, q) \<in> waits_for d \<and> (q, p) \<in> waits_for d)"
proof -
  obtain cycles found where
    run: "detect_loop (wd_lock_deps d) (wd_lock_deps d) [] (wd_total_deadlocks_detected d) = (cycles, found)"
    by fastforce
  with assms have d': "d' = d\<lparr>wd_deadlock_cycles := cycles, wd_total_deadlocks_detected := found\<rparr>" "r = int (length cycles)"
    by (auto simp: deadlock_detect_cycles_def)
  then show "r = int (length (wd_deadlock_cycles d'))" by simp
  show procs: "map dl_process_ids (wd_deadlock_cycles d') =
      map (\<lambda>x. [ld_holder_process_id x, ld_waiter_process_id x]) (take 256 (filter (mutual d) (wd_lock_deps d)))"
    using detect_loop_eq(1) [OF run] d' by (simp add: reversed_loop_mutual MAX_DEADLOCK_CYCLES_def)
  show "wd_total_deadlocks_detected d' = wd_total_deadlocks_detected d + of_nat (length (wd_deadlock_cycles d'))"
    using detect_loop_eq(2) [OF run] d' by simp
  have "r > 0 \<longleftrightarrow> filter (mutual d) (wd_lock_deps d) \<noteq> []"
    using arg_cong [OF procs, of length] d' by (auto simp: min_def split: if_splits)
  also have "\<dots> \<longleftrightarrow> (\<exists>p q. (p, q) \<in> waits_for d \<and> (q, p) \<in> waits_for d)"
    by (auto simp: filter_empty_conv mutual_def waits_for_def)
  finally show "r > 0 \<longleftrightarrow> (\<exists>p q. (p, q) \<in> waits_for d \<and> (q, p) \<in> waits_for d)" .
qed

text \<open>A ring of three or more processes, each waiting for the next, is a deadlock that is not found.\<close>

lemma ring_not_mutual:
  assumes "distinct ps" and "3 \<le> length ps" and "(p, q) \<in> set (zip ps (rotate1 ps))"
  shows "(q, p) \<notin> set (zip ps (rotate1 ps))"
proof
  assume "(q, p) \<in> set (zip ps (rotate1 ps))"
  then obtain j where j: "j < length ps" "ps ! j = q" "ps ! (Suc j mod length ps) = p"
    by (auto simp: set_zip nth_rotate1)
  obtain i where i: "i < length ps" "ps ! i = p" "ps ! (Suc i mod length ps) = q"
    using assms(3) by (auto simp: set_zip nth_rotate1)
  have less: "Suc i mod length ps < length ps" "Suc j mod length ps < length ps" using i(1) by (auto intro: mod_less_divisor)
  have "Suc i mod length ps = j" "Suc j mod length ps = i"
    using i j less nth_eq_iff_index_eq [OF assms(1)] by metis+
  then show False using i(1) j(1) assms(2) by (auto simp: mod_Suc split: if_splits)
qed

lemma deadlock_ring_missed:
  assumes "distinct ps" and "3 \<le> length ps"
    and "map (\<lambda>x. (ld_waiter_process_id x, ld_holder_process_id x)) (wd_lock_deps d) = zip ps (rotate1 ps)"
  shows "snd (deadlock_detect_cycles (Some d)) = 0"
proof -
  obtain d' r where run: "deadlock_detect_cycles (Some d) = (Some d', r)"
    by (cases "deadlock_detect_cycles (Some d)") (auto simp: deadlock_detect_cycles_def with_handle_def split: prod.splits)
  have "waits_for d = set (zip ps (rotate1 ps))" using arg_cong [OF assms(3), of set] by (simp add: waits_for_def)
  with ring_not_mutual [OF assms(1,2)] detect_run(4) [OF run] have "\<not> r > 0" by auto
  with detect_run(2) [OF run] run show ?thesis by simp
qed

section \<open>Main theorems\<close>

text \<open>
  Claim C30. What \<open>deadlock_detect_cycles\<close> reports, for every set of dependencies: one cycle for each
  of the first 256 dependencies whose two processes wait for each other, naming these two; so a cycle is reported if and only if some process waits for one that waits
  for it, and every process named is indeed deadlocked (it waits for itself through the others).
\<close>

theorem deadlock_detection_exact:
  assumes "deadlock_detect_cycles (Some d) = (Some d', r)"
  shows "map dl_process_ids (wd_deadlock_cycles d') =
      map (\<lambda>x. [ld_holder_process_id x, ld_waiter_process_id x]) (take 256 (filter (mutual d) (wd_lock_deps d))) \<and>
    r = int (length (wd_deadlock_cycles d')) \<and>
    wd_total_deadlocks_detected d' = wd_total_deadlocks_detected d + of_nat (length (wd_deadlock_cycles d')) \<and>
    (r > 0 \<longleftrightarrow> (\<exists>p q. (p, q) \<in> waits_for d \<and> (q, p) \<in> waits_for d)) \<and>
    (\<forall>c p. c \<in> set (wd_deadlock_cycles d') \<longrightarrow> p \<in> set (dl_process_ids c) \<longrightarrow> (p, p) \<in> (waits_for d)\<^sup>+)"
proof (intro conjI allI impI detect_run [OF assms])
  fix c p assume "c \<in> set (wd_deadlock_cycles d')" and p: "p \<in> set (dl_process_ids c)"
  then have "dl_process_ids c \<in> set (map dl_process_ids (wd_deadlock_cycles d'))" by simp
  then obtain x where x: "x \<in> set (take 256 (filter (mutual d) (wd_lock_deps d)))"
      "dl_process_ids c = [ld_holder_process_id x, ld_waiter_process_id x]"
    unfolding detect_run(1) [OF assms] by auto
  then have "(ld_waiter_process_id x, ld_holder_process_id x) \<in> waits_for d"
    "(ld_holder_process_id x, ld_waiter_process_id x) \<in> waits_for d"
    using in_set_takeD [OF x(1)] by (auto simp: mutual_def waits_for_def)
  with p x(2) show "(p, p) \<in> (waits_for d)\<^sup>+" by (auto intro: trancl_into_trancl)
qed

definition watchdog_pair :: WatchdogDeadlockDetector where
  "watchdog_pair = the (fst (lock_dependency_add (fst (lock_dependency_add (fst (lock_dependency_add
     (watchdog_init True) 1 7 8)) 2 9 7)) 3 8 7))"

theorem deadlock_detection_exact_witness:
  "\<exists>d'. deadlock_detect_cycles (Some watchdog_pair) = (Some d', 2) \<and>
     map dl_process_ids (wd_deadlock_cycles d') = [[7, 8], [8, 7]] \<and> (7, 7) \<in> (waits_for watchdog_pair)\<^sup>+"
proof -
  obtain d' r where run: "deadlock_detect_cycles (Some watchdog_pair) = (Some d', r)"
    by (cases "deadlock_detect_cycles (Some watchdog_pair)") (auto simp: deadlock_detect_cycles_def with_handle_def split: prod.splits)
  have deps: "map (\<lambda>x. (ld_holder_process_id x, ld_waiter_process_id x)) (wd_lock_deps watchdog_pair) = [(7, 8), (9, 7), (8, 7)]"
    by (simp add: watchdog_pair_def lock_dependency_add_def watchdog_init_def with_handle_def MAX_LOCK_DEPENDENCIES_def)
  have ids: "map dl_process_ids (wd_deadlock_cycles d') = [[7, 8], [8, 7]]"
    using deadlock_detection_exact [OF run]
    by (simp add: watchdog_pair_def lock_dependency_add_def watchdog_init_def with_handle_def MAX_LOCK_DEPENDENCIES_def
        mutual_def waits_for_def)
  then obtain c where "c \<in> set (wd_deadlock_cycles d')" "7 \<in> set (dl_process_ids c)" by (fastforce simp: map_eq_Cons_conv)
  with ids deadlock_detection_exact [OF run] run show ?thesis
    by (intro exI [of _ d']) (auto dest: arg_cong [of _ _ length])
qed

end
