(* ===== verification/Cluster_Manager.thy ===== *)
theory Cluster_Manager
  imports Service_Tables
begin

text \<open>
  The cluster manager of \<open>src/services/cluster_manager.c\<close>: eight clusters with their nodes, leader
  and replication counters, and a ring of 256 events. The array of clusters and its count are
  separate parts of the state here, since \<open>cluster_create\<close> fills a slot but does not raise the
  count: the main theorem says what follows from that. Readings of the clock are arguments. A
  pointer to a cluster is its index.
\<close>

section \<open>Constants and data\<close>

definition MAX_CLUSTER_NODES :: nat where "MAX_CLUSTER_NODES = 256"
definition MAX_NODE_HOSTNAME :: nat where "MAX_NODE_HOSTNAME = 64"
definition MAX_CLUSTER_GROUPS :: u32 where "MAX_CLUSTER_GROUPS = 32"
definition MAX_HEARTBEAT_TIMEOUT :: u32 where "MAX_HEARTBEAT_TIMEOUT = 10"
definition MAX_REPLICATION_FACTOR :: u8 where "MAX_REPLICATION_FACTOR = 5"

datatype NodeHealth = NODE_HEALTHY | NODE_DEGRADED | NODE_UNHEALTHY | NODE_OFFLINE | NODE_REJOINING

datatype ConsensusAlgorithm = CONSENSUS_RAFT | CONSENSUS_PAXOS | CONSENSUS_BYZANTINE

datatype ReplicationMode = REPLICATION_SYNC | REPLICATION_ASYNC | REPLICATION_SEMISYNC

record ClusterNode =
  cn_node_id :: u32
  cn_hostname :: string
  cn_ip_address :: u32
  cn_port :: u16
  cn_health :: NodeHealth
  cn_cpu_cores :: u32
  cn_memory_bytes :: u64
  cn_disk_mb :: u32
  cn_last_heartbeat :: u64
  cn_heartbeat_interval :: u32
  cn_latency_ms :: u32
  cn_packets_sent :: u64
  cn_packets_received :: u64
  cn_bytes_sent :: u64
  cn_bytes_received :: u64
  cn_replication_factor :: u8

record RaftState =
  rs_term :: u64
  rs_voted_for :: u32
  rs_log_index :: u32
  rs_commit_index :: u32
  rs_last_applied :: u32

record ClusterInfo =
  ci_cluster_id :: u32
  ci_cluster_name :: string
  ci_nodes :: "ClusterNode list"
  ci_leader_node_id :: u32
  ci_consensus_algo :: ConsensusAlgorithm
  ci_replication_mode :: ReplicationMode
  ci_raft_state :: RaftState
  ci_healthy_node_count :: u32
  ci_group_count :: u32
  ci_total_data_replicated :: u64
  ci_replication_lag_ms :: u64

record ClusterEvent =
  ev_node_id :: u32
  ev_timestamp :: u64
  ev_status_code :: u32
  ev_message :: string

record ClusterState =
  g_clusters :: "ClusterInfo list"
  g_cluster_count :: u32
  g_cluster_events :: "ClusterEvent list"
  g_event_index :: u32

definition zero_cluster :: ClusterInfo where
  "zero_cluster = \<lparr>ci_cluster_id = 0, ci_cluster_name = '''', ci_nodes = [], ci_leader_node_id = 0,
     ci_consensus_algo = CONSENSUS_RAFT, ci_replication_mode = REPLICATION_SYNC,
     ci_raft_state = \<lparr>rs_term = 0, rs_voted_for = 0, rs_log_index = 0, rs_commit_index = 0, rs_last_applied = 0\<rparr>,
     ci_healthy_node_count = 0, ci_group_count = 0, ci_total_data_replicated = 0, ci_replication_lag_ms = 0\<rparr>"

definition cluster_initial :: ClusterState where
  "cluster_initial = \<lparr>g_clusters = replicate 8 zero_cluster, g_cluster_count = 0,
     g_cluster_events = replicate 256 \<lparr>ev_node_id = 0, ev_timestamp = 0, ev_status_code = 0, ev_message = ''''\<rparr>,
     g_event_index = 0\<rparr>"

definition cluster_slot :: "u32 \<Rightarrow> ClusterState \<Rightarrow> nat option" where
  "cluster_slot cluster_id g =
     (if cluster_id = 0 \<or> cluster_id > g_cluster_count g then None else Some (unat (cluster_id - 1)))"

definition with_cluster ::
    "'r \<Rightarrow> u32 \<Rightarrow> ClusterState \<Rightarrow> (ClusterInfo \<Rightarrow> ClusterInfo \<times> 'r) \<Rightarrow> ClusterState \<times> 'r" where
  "with_cluster r cluster_id g f =
     (case cluster_slot cluster_id g of None \<Rightarrow> (g, r)
      | Some i \<Rightarrow> (let (c, x) = f (g_clusters g ! i) in (g\<lparr>g_clusters := (g_clusters g)[i := c]\<rparr>, x)))"

definition read_cluster :: "'r \<Rightarrow> u32 \<Rightarrow> ClusterState \<Rightarrow> (ClusterInfo \<Rightarrow> 'r) \<Rightarrow> 'r" where
  "read_cluster r cluster_id g f = (case cluster_slot cluster_id g of None \<Rightarrow> r | Some i \<Rightarrow> f (g_clusters g ! i))"

text \<open>The prologue of the operations on one node.\<close>

definition with_node :: "u32 \<Rightarrow> u32 \<Rightarrow> ClusterState \<Rightarrow> (ClusterNode \<Rightarrow> ClusterNode) \<Rightarrow> ClusterState \<times> int" where
  "with_node cluster_id node_id g f = with_cluster (-1) cluster_id g (\<lambda>c.
     let (ns, r) = with_slot (-1) node_id (ci_nodes c) (\<lambda>n. (f n, 0)) in (c\<lparr>ci_nodes := ns\<rparr>, r))"

section \<open>Clusters and nodes\<close>

definition cluster_create :: "ClusterState \<Rightarrow> string option \<Rightarrow> ConsensusAlgorithm \<Rightarrow> ClusterState \<times> int" where
  "cluster_create g name algo =
     (case name of None \<Rightarrow> (g, -1)
      | Some nm \<Rightarrow>
          if g_cluster_count g \<ge> 8 then (g, -1)
          else let i = unat (g_cluster_count g); c = g_clusters g ! i; cid = g_cluster_count g + 1
               in (g\<lparr>g_clusters := (g_clusters g)[i := c\<lparr>ci_cluster_id := cid, ci_cluster_name := take 63 nm,
                     ci_consensus_algo := algo, ci_replication_mode := REPLICATION_SEMISYNC,
                     ci_leader_node_id := 0, ci_nodes := [], ci_healthy_node_count := 0,
                     ci_raft_state := (ci_raft_state c)\<lparr>rs_term := 1, rs_voted_for := 0, rs_log_index := 0\<rparr>\<rparr>]\<rparr>,
                   sint cid))"

definition cluster_add_node ::
    "ClusterState \<Rightarrow> u32 \<Rightarrow> string option \<Rightarrow> u32 \<Rightarrow> u16 \<Rightarrow> ClusterState \<times> int" where
  "cluster_add_node g cluster_id hostname ip port =
     (case hostname of None \<Rightarrow> (g, -1)
      | Some h \<Rightarrow> with_cluster (-1) cluster_id g (\<lambda>c.
          if length (ci_nodes c) \<ge> MAX_CLUSTER_NODES then (c, -1)
          else let nid = of_nat (length (ci_nodes c)) + 1
               in (c\<lparr>ci_nodes := ci_nodes c @ [\<lparr>cn_node_id = nid, cn_hostname = take (MAX_NODE_HOSTNAME - 1) h,
                     cn_ip_address = ip, cn_port = port, cn_health = NODE_OFFLINE, cn_cpu_cores = 4,
                     cn_memory_bytes = 8589934592, cn_disk_mb = 524288, cn_last_heartbeat = 0,
                     cn_heartbeat_interval = 5, cn_latency_ms = 0, cn_packets_sent = 0, cn_packets_received = 0,
                     cn_bytes_sent = 0, cn_bytes_received = 0, cn_replication_factor = 1\<rparr>]\<rparr>, sint nid)))"

text \<open>The search for the healthy node of least latency, over the remaining nodes.\<close>

fun elect_loop :: "ClusterNode list \<Rightarrow> u32 \<Rightarrow> u32 \<Rightarrow> u32" where
  "elect_loop [] max_latency best_node = best_node"
| "elect_loop (n # ns) max_latency best_node =
     (if cn_health n = NODE_HEALTHY \<and> cn_latency_ms n < max_latency
      then elect_loop ns (cn_latency_ms n) (cn_node_id n) else elect_loop ns max_latency best_node)"

definition elect :: "ClusterInfo \<Rightarrow> ClusterInfo \<times> int" where
  "elect c =
     (let best_node = elect_loop (ci_nodes c) 4294967295 0
      in if best_node > 0
         then (c\<lparr>ci_leader_node_id := best_node,
                 ci_raft_state := (ci_raft_state c)\<lparr>rs_term := rs_term (ci_raft_state c) + 1, rs_voted_for := best_node\<rparr>\<rparr>,
               sint best_node)
         else (c, -1))"

definition cluster_elect_leader :: "ClusterState \<Rightarrow> u32 \<Rightarrow> ClusterState \<times> int" where
  "cluster_elect_leader g cluster_id = with_cluster (-1) cluster_id g elect"

definition cluster_remove_node :: "ClusterState \<Rightarrow> u32 \<Rightarrow> u32 \<Rightarrow> ClusterState \<times> int" where
  "cluster_remove_node g cluster_id node_id = with_cluster (-1) cluster_id g (\<lambda>c.
     if slot_of node_id (ci_nodes c) = None then (c, -1)
     else let c1 = (if ci_leader_node_id c = node_id then fst (elect c) else c);
              (ns, r) = delete_slot node_id (ci_nodes c1)
          in (c1\<lparr>ci_nodes := ns\<rparr>, r))"

definition cluster_join_node :: "ClusterState \<Rightarrow> u32 \<Rightarrow> u32 \<Rightarrow> time_t \<Rightarrow> ClusterState \<times> int" where
  "cluster_join_node g cluster_id node_id now = with_node cluster_id node_id g
     (\<lambda>n. n\<lparr>cn_health := NODE_REJOINING, cn_last_heartbeat := of_int now\<rparr>)"

definition cluster_leave_node :: "ClusterState \<Rightarrow> u32 \<Rightarrow> u32 \<Rightarrow> ClusterState \<times> int" where
  "cluster_leave_node g cluster_id node_id = with_node cluster_id node_id g (\<lambda>n. n\<lparr>cn_health := NODE_OFFLINE\<rparr>)"

section \<open>Health\<close>

definition set_health :: "u32 \<Rightarrow> NodeHealth \<Rightarrow> ClusterInfo \<Rightarrow> ClusterInfo \<times> int" where
  "set_health node_id health c =
     (case slot_of node_id (ci_nodes c) of None \<Rightarrow> (c, -1)
      | Some i \<Rightarrow>
          let n = ci_nodes c ! i; c1 = c\<lparr>ci_nodes := (ci_nodes c)[i := n\<lparr>cn_health := health\<rparr>]\<rparr>
          in (if health = NODE_HEALTHY \<and> cn_health n \<noteq> NODE_HEALTHY
              then c1\<lparr>ci_healthy_node_count := ci_healthy_node_count c1 + 1\<rparr>
              else if health \<noteq> NODE_HEALTHY \<and> cn_health n = NODE_HEALTHY
              then c1\<lparr>ci_healthy_node_count := ci_healthy_node_count c1 - 1\<rparr> else c1, 0))"

definition cluster_update_node_health :: "ClusterState \<Rightarrow> u32 \<Rightarrow> u32 \<Rightarrow> NodeHealth \<Rightarrow> ClusterState \<times> int" where
  "cluster_update_node_health g cluster_id node_id health = with_cluster (-1) cluster_id g (set_health node_id health)"

definition cluster_get_node_health :: "ClusterState \<Rightarrow> u32 \<Rightarrow> u32 \<Rightarrow> NodeHealth" where
  "cluster_get_node_health g cluster_id node_id = read_cluster NODE_OFFLINE cluster_id g (\<lambda>c.
     read_slot NODE_OFFLINE node_id (ci_nodes c) cn_health)"

definition cluster_send_heartbeat :: "ClusterState \<Rightarrow> u32 \<Rightarrow> u32 \<Rightarrow> time_t \<Rightarrow> ClusterState \<times> int" where
  "cluster_send_heartbeat g cluster_id node_id now = with_node cluster_id node_id g
     (\<lambda>n. n\<lparr>cn_last_heartbeat := of_int now, cn_packets_sent := cn_packets_sent n + 1,
             cn_bytes_sent := cn_bytes_sent n + 64\<rparr>)"

definition cluster_check_node_alive :: "ClusterState \<Rightarrow> u32 \<Rightarrow> u32 \<Rightarrow> time_t \<Rightarrow> ClusterState \<times> int" where
  "cluster_check_node_alive g cluster_id node_id now = with_cluster 0 cluster_id g (\<lambda>c.
     case slot_of node_id (ci_nodes c) of None \<Rightarrow> (c, 0)
     | Some i \<Rightarrow>
         let n = ci_nodes c ! i; timeout = cn_heartbeat_interval n * MAX_HEARTBEAT_TIMEOUT
         in if (of_int now :: u64) - cn_last_heartbeat n > ucast timeout
            then (fst (set_health node_id NODE_OFFLINE c), 0) else (c, 1))"

section \<open>Leadership and replication\<close>

definition cluster_get_leader :: "ClusterState \<Rightarrow> u32 \<Rightarrow> u32" where
  "cluster_get_leader g cluster_id = read_cluster 0 cluster_id g ci_leader_node_id"

definition count_nodes :: "(ClusterNode \<Rightarrow> bool) \<Rightarrow> ClusterInfo \<Rightarrow> u32" where
  "count_nodes p c = of_nat (length (filter p (ci_nodes c)))"

definition cluster_replicate_data :: "ClusterState \<Rightarrow> u32 \<Rightarrow> bool \<Rightarrow> u64 \<Rightarrow> ClusterState \<times> int" where
  "cluster_replicate_data g cluster_id data sz =
     (if \<not> data then (g, -1)
      else with_cluster (-1) cluster_id g (\<lambda>c.
        let replicated = count_nodes (\<lambda>n. cn_health n = NODE_HEALTHY) c
        in (c\<lparr>ci_nodes := map (\<lambda>n. if cn_health n = NODE_HEALTHY
                  then n\<lparr>cn_bytes_received := cn_bytes_received n + sz, cn_packets_received := cn_packets_received n + 1\<rparr>
                  else n) (ci_nodes c),
              ci_total_data_replicated := ci_total_data_replicated c + sz * ucast replicated\<rparr>, sint replicated)))"

definition cluster_sync_state :: "ClusterState \<Rightarrow> u32 \<Rightarrow> ClusterState \<times> int" where
  "cluster_sync_state g cluster_id = with_cluster (-1) cluster_id g (\<lambda>c.
     let rs = ci_raft_state c
     in (c\<lparr>ci_nodes := map (\<lambda>n. if cn_health n \<noteq> NODE_OFFLINE then n\<lparr>cn_packets_sent := cn_packets_sent n + 1\<rparr> else n) (ci_nodes c),
           ci_raft_state := rs\<lparr>rs_log_index := rs_log_index rs + 1, rs_commit_index := rs_log_index rs + 1\<rparr>\<rparr>,
         sint (count_nodes (\<lambda>n. cn_health n \<noteq> NODE_OFFLINE) c)))"

definition cluster_create_group :: "ClusterState \<Rightarrow> u32 \<Rightarrow> string option \<Rightarrow> ClusterState \<times> int" where
  "cluster_create_group g cluster_id group_name =
     (if group_name = None then (g, -1)
      else with_cluster (-1) cluster_id g (\<lambda>c.
        if ci_group_count c \<ge> MAX_CLUSTER_GROUPS then (c, -1)
        else (c\<lparr>ci_group_count := ci_group_count c + 1\<rparr>, sint (ci_group_count c))))"

definition cluster_add_to_group :: "ClusterState \<Rightarrow> u32 \<Rightarrow> u32 \<Rightarrow> u32 \<Rightarrow> int" where
  "cluster_add_to_group g cluster_id group_id node_id = read_cluster (-1) cluster_id g (\<lambda>c. 0)"

definition cluster_remove_from_group :: "ClusterState \<Rightarrow> u32 \<Rightarrow> u32 \<Rightarrow> u32 \<Rightarrow> int" where
  "cluster_remove_from_group g cluster_id group_id node_id = read_cluster (-1) cluster_id g (\<lambda>c. 0)"

definition cluster_get_group :: "ClusterState \<Rightarrow> u32 \<Rightarrow> u32 \<Rightarrow> nat option" where
  "cluster_get_group g cluster_id group_id = None"

definition cluster_handle_node_failure :: "ClusterState \<Rightarrow> u32 \<Rightarrow> u32 \<Rightarrow> ClusterState \<times> int" where
  "cluster_handle_node_failure g cluster_id node_id = with_cluster (-1) cluster_id g (\<lambda>c.
     if slot_of node_id (ci_nodes c) = None then (c, -1)
     else let c1 = fst (set_health node_id NODE_OFFLINE c)
          in if ci_leader_node_id c1 = node_id then elect c1 else (c1, 0))"

definition raise_term :: "ClusterInfo \<Rightarrow> ClusterInfo" where
  "raise_term c = c\<lparr>ci_raft_state := (ci_raft_state c)\<lparr>rs_term := rs_term (ci_raft_state c) + 1\<rparr>\<rparr>"

definition cluster_promote_replica :: "ClusterState \<Rightarrow> u32 \<Rightarrow> u32 \<Rightarrow> ClusterState \<times> int" where
  "cluster_promote_replica g cluster_id replica_node_id = with_cluster (-1) cluster_id g (\<lambda>c.
     (raise_term (c\<lparr>ci_leader_node_id := replica_node_id\<rparr>), sint replica_node_id))"

definition cluster_initiate_failover :: "ClusterState \<Rightarrow> u32 \<Rightarrow> u32 \<Rightarrow> ClusterState \<times> int" where
  "cluster_initiate_failover g cluster_id new_leader_id = with_cluster (-1) cluster_id g (\<lambda>c.
     if slot_of new_leader_id (ci_nodes c) \<noteq> None
     then (raise_term (c\<lparr>ci_leader_node_id := new_leader_id\<rparr>), 0) else (c, -1))"

definition cluster_set_replication_mode :: "ClusterState \<Rightarrow> u32 \<Rightarrow> ReplicationMode \<Rightarrow> ClusterState \<times> int" where
  "cluster_set_replication_mode g cluster_id mode = with_cluster (-1) cluster_id g (\<lambda>c.
     (c\<lparr>ci_replication_mode := mode\<rparr>, 0))"

definition cluster_set_replication_factor :: "ClusterState \<Rightarrow> u32 \<Rightarrow> u32 \<Rightarrow> u8 \<Rightarrow> ClusterState \<times> int" where
  "cluster_set_replication_factor g cluster_id node_id factor =
     (if factor > MAX_REPLICATION_FACTOR then (g, -1)
      else with_node cluster_id node_id g (\<lambda>n. n\<lparr>cn_replication_factor := factor\<rparr>))"

definition cluster_get_replication_lag :: "ClusterState \<Rightarrow> u32 \<Rightarrow> u64" where
  "cluster_get_replication_lag g cluster_id = read_cluster 0 cluster_id g ci_replication_lag_ms"

definition cluster_get_info :: "ClusterState \<Rightarrow> u32 \<Rightarrow> nat option" where
  "cluster_get_info g cluster_id = cluster_slot cluster_id g"

definition cluster_get_healthy_count :: "ClusterState \<Rightarrow> u32 \<Rightarrow> u32" where
  "cluster_get_healthy_count g cluster_id = read_cluster 0 cluster_id g ci_healthy_node_count"

definition cluster_record_event :: "ClusterState \<Rightarrow> u32 \<Rightarrow> u32 \<Rightarrow> string option \<Rightarrow> time_t \<Rightarrow> ClusterState \<times> int" where
  "cluster_record_event g cluster_id node_id message now =
     (case message of None \<Rightarrow> (g, -1)
      | Some m \<Rightarrow>
          if cluster_id = 0 then (g, -1)
          else (g\<lparr>g_cluster_events := (g_cluster_events g)[unat (g_event_index g mod 256) :=
                    \<lparr>ev_node_id = node_id, ev_timestamp = of_int now, ev_status_code = 0, ev_message = take 255 m\<rparr>],
                  g_event_index := g_event_index g + 1\<rparr>, 0))"

section \<open>Histories of calls\<close>

datatype cl_call =
  Create "string option" ConsensusAlgorithm | AddNode u32 "string option" u32 u16 | RemoveNode u32 u32
  | JoinNode u32 u32 time_t | LeaveNode u32 u32 | UpdateHealth u32 u32 NodeHealth | GetHealth u32 u32
  | Heartbeat u32 u32 time_t | CheckAlive u32 u32 time_t | ElectLeader u32 | GetLeader u32
  | Replicate u32 bool u64 | SyncState u32 | CreateGroup u32 "string option" | AddToGroup u32 u32 u32
  | RemoveFromGroup u32 u32 u32 | GetGroup u32 u32 | NodeFailure u32 u32 | Promote u32 u32 | Failover u32 u32
  | SetMode u32 ReplicationMode | SetFactor u32 u32 u8 | GetLag u32 | GetInfo u32 | GetHealthyCount u32
  | RecordEvent u32 u32 "string option" time_t

datatype cl_reply = Code int | Health NodeHealth | Number u64 | Pointer "nat option"

definition code :: "ClusterState \<times> int \<Rightarrow> ClusterState \<times> cl_reply" where
  "code x = (fst x, Code (snd x))"

fun cl_step :: "ClusterState \<Rightarrow> cl_call \<Rightarrow> ClusterState \<times> cl_reply" where
  "cl_step g (Create n a) = code (cluster_create g n a)"
| "cl_step g (AddNode c h i p) = code (cluster_add_node g c h i p)"
| "cl_step g (RemoveNode c n) = code (cluster_remove_node g c n)"
| "cl_step g (JoinNode c n t) = code (cluster_join_node g c n t)"
| "cl_step g (LeaveNode c n) = code (cluster_leave_node g c n)"
| "cl_step g (UpdateHealth c n h) = code (cluster_update_node_health g c n h)"
| "cl_step g (GetHealth c n) = (g, Health (cluster_get_node_health g c n))"
| "cl_step g (Heartbeat c n t) = code (cluster_send_heartbeat g c n t)"
| "cl_step g (CheckAlive c n t) = code (cluster_check_node_alive g c n t)"
| "cl_step g (ElectLeader c) = code (cluster_elect_leader g c)"
| "cl_step g (GetLeader c) = (g, Number (ucast (cluster_get_leader g c)))"
| "cl_step g (Replicate c d s) = code (cluster_replicate_data g c d s)"
| "cl_step g (SyncState c) = code (cluster_sync_state g c)"
| "cl_step g (CreateGroup c n) = code (cluster_create_group g c n)"
| "cl_step g (AddToGroup c r n) = (g, Code (cluster_add_to_group g c r n))"
| "cl_step g (RemoveFromGroup c r n) = (g, Code (cluster_remove_from_group g c r n))"
| "cl_step g (GetGroup c r) = (g, Pointer (cluster_get_group g c r))"
| "cl_step g (NodeFailure c n) = code (cluster_handle_node_failure g c n)"
| "cl_step g (Promote c n) = code (cluster_promote_replica g c n)"
| "cl_step g (Failover c n) = code (cluster_initiate_failover g c n)"
| "cl_step g (SetMode c m) = code (cluster_set_replication_mode g c m)"
| "cl_step g (SetFactor c n f) = code (cluster_set_replication_factor g c n f)"
| "cl_step g (GetLag c) = (g, Number (cluster_get_replication_lag g c))"
| "cl_step g (GetInfo c) = (g, Pointer (cluster_get_info g c))"
| "cl_step g (GetHealthyCount c) = (g, Number (ucast (cluster_get_healthy_count g c)))"
| "cl_step g (RecordEvent c n m t) = code (cluster_record_event g c n m t)"

text \<open>What each call answers in a service that never has a cluster; it depends on the call only.\<close>

fun inert_reply :: "cl_call \<Rightarrow> cl_reply" where
  "inert_reply (Create n a) = Code (if n = None then -1 else 1)"
| "inert_reply (RecordEvent c n m t) = Code (if c = 0 \<or> m = None then -1 else 0)"
| "inert_reply (CheckAlive c n t) = Code 0"
| "inert_reply (GetHealth c n) = Health NODE_OFFLINE"
| "inert_reply (GetLeader c) = Number 0"
| "inert_reply (GetLag c) = Number 0"
| "inert_reply (GetHealthyCount c) = Number 0"
| "inert_reply (GetGroup c r) = Pointer None"
| "inert_reply (GetInfo c) = Pointer None"
| "inert_reply _ = Code (-1)"

lemma no_cluster [simp]:
  assumes "g_cluster_count g = 0"
  shows "cluster_slot c g = None" and "with_cluster r c g f = (g, r)" and "read_cluster s c g h = s"
    and "with_node c n g k = (g, -1)"
  using assms word_coorder.extremum_strict
  by (auto simp: cluster_slot_def with_cluster_def read_cluster_def with_node_def word_gt_0)

lemma cl_step_inert:
  assumes "g_cluster_count g = 0"
  shows "g_cluster_count (fst (cl_step g x)) = 0" and "snd (cl_step g x) = inert_reply x"
  using assms
  by (cases x; auto simp: code_def cluster_create_def cluster_add_node_def cluster_remove_node_def cluster_join_node_def
      cluster_leave_node_def cluster_update_node_health_def cluster_get_node_health_def cluster_send_heartbeat_def
      cluster_check_node_alive_def cluster_elect_leader_def cluster_get_leader_def cluster_replicate_data_def
      cluster_sync_state_def cluster_create_group_def cluster_add_to_group_def cluster_remove_from_group_def
      cluster_get_group_def cluster_handle_node_failure_def cluster_promote_replica_def cluster_initiate_failover_def
      cluster_set_replication_mode_def cluster_set_replication_factor_def cluster_get_replication_lag_def
      cluster_get_info_def cluster_get_healthy_count_def cluster_record_event_def Let_def split: option.splits)+

interpretation cluster_service: call_refinement cl_step "\<lambda>u x. ((), inert_reply x)" "\<lambda>g. ()" "\<lambda>g. g_cluster_count g = 0" "\<lambda>x. True"
proof unfold_locales
  fix g x g' r
  assume "g_cluster_count g = 0" and "cl_step g x = (g', r)"
  then show "g_cluster_count g' = 0 \<and> ((), inert_reply x) = ((), r)"
    using cl_step_inert [of g x] by simp
qed

lemma call_run_inert: "snd (call_run (\<lambda>u x. ((), inert_reply x)) u xs) = map inert_reply xs"
  by (induction xs) (simp_all add: case_prod_beta)

text \<open>
  The election inside a cluster picks a healthy node of least latency, if one has a latency below
  the largest number.
\<close>

lemma elect_loop_best:
  "elect_loop ns l b = b \<and> (\<forall>n\<in>set ns. cn_health n = NODE_HEALTHY \<longrightarrow> l \<le> cn_latency_ms n) \<or>
   (\<exists>n\<in>set ns. elect_loop ns l b = cn_node_id n \<and> cn_health n = NODE_HEALTHY \<and> cn_latency_ms n < l \<and>
      (\<forall>m\<in>set ns. cn_health m = NODE_HEALTHY \<longrightarrow> cn_latency_ms n \<le> cn_latency_ms m))"
proof (induction ns arbitrary: l b)
  case Nil
  then show ?case by simp
next
  case (Cons n ns)
  show ?case
  proof (cases "cn_health n = NODE_HEALTHY \<and> cn_latency_ms n < l")
    case False
    with Cons.IH [of l b] show ?thesis by (auto simp: not_less dest: order.strict_implies_order less_le_trans)
  next
    case True
    from Cons.IH [of "cn_latency_ms n" "cn_node_id n"] show ?thesis
    proof (elim disjE conjE bexE)
      fix m assume m: "m \<in> set ns" "cn_latency_ms m < cn_latency_ms n" "cn_health m = NODE_HEALTHY"
        "elect_loop ns (cn_latency_ms n) (cn_node_id n) = cn_node_id m"
        "\<forall>k\<in>set ns. cn_health k = NODE_HEALTHY \<longrightarrow> cn_latency_ms m \<le> cn_latency_ms k"
      with True show ?thesis by (intro disjI2 bexI [of _ m]) (auto dest: less_trans)
    qed (use True in auto)
  qed
qed

section \<open>Main theorem\<close>

text \<open>
  Claim C39. The cluster service never has a cluster. Whatever sequence of its 26 operations is called,
  each call answers what it would answer in a service without clusters: a reply that depends on the
  call alone. \<open>cluster_create\<close> answers identifier 1 every time it gets a name, but with that or any other identifier
  every operation on a cluster fails and every query finds nothing (0, offline, no pointer), except
  \<open>cluster_record_event\<close>: it does not look the cluster up and accepts a message for any identifier but 0.
\<close>

theorem cluster_service_inert:
  "snd (call_run cl_step cluster_initial calls) = map inert_reply calls"
  using cluster_service.run_results(1) [of cluster_initial calls]
  by (simp add: cluster_initial_def call_run_inert list_all_iff)

end
