(* ===== verification/Table_Multisets.thy ===== *)
theory Table_Multisets
  imports Service_Tables "HOL-Library.Multiset"
begin

text \<open>Tables whose order does not matter: the multiset of their entries under removal and update.\<close>

lemma mset_remove_at: "i < length xs \<Longrightarrow> mset (remove_at i xs) = mset xs - {#xs ! i#}"
proof (induction xs arbitrary: i)
  case Nil
  then show ?case by simp
next
  case (Cons x xs)
  show ?case
  proof (cases i)
    case 0
    then show ?thesis by simp
  next
    case (Suc j)
    with Cons have "xs ! j \<in># mset xs" by simp
    with Cons Suc show ?thesis by (simp add: add_mset_diff_bothsides)
  qed
qed

lemma first_idx_eq_mset:
  assumes "first_idx (\<lambda>y. y = x) xs = Some j"
  shows "mset (remove_at j xs) = mset xs - {#x#}" and "x \<in> set xs" and "set (remove_at j xs) \<subseteq> set xs"
  using first_idx_SomeD [OF assms] mset_remove_at [of j xs] set_remove_at [of j xs] by auto

text \<open>Replacing one list of a list of lists.\<close>

lemma mset_concat_update:
  "i < length xss \<Longrightarrow> mset (concat (xss[i := ys])) + mset (xss ! i) = mset (concat xss) + mset ys"
proof (induction xss arbitrary: i)
  case Nil
  then show ?case by simp
next
  case (Cons xs xss)
  then show ?case by (cases i) (simp_all add: union_assoc)
qed

end
