(* ===== verification/Auth_Manager.thy ===== *)
theory Auth_Manager
  imports Table_Multisets
begin

text \<open>
  The authentication manager of \<open>src/secure-communication/auth_manager.c\<close>: users with roles, roles
  with permissions, sessions and tokens. The static counters that number them are arguments and
  results of the operations that use them. The bytes of a password hash are the first
  \<open>password_hash_length\<close> ones of its array; a hash that is shorter than the length given with it is
  read past its end, which is undefined.

  The second half shows that permission checks refine role-based access control in which roles are
  held, and permissions granted, with a multiplicity; and how little the sessions and the tokens
  check.
\<close>

section \<open>Constants and data\<close>

definition MAX_AUTH_SESSIONS :: nat where "MAX_AUTH_SESSIONS = 1024"
definition MAX_AUTH_TOKENS :: nat where "MAX_AUTH_TOKENS = 2048"
definition MAX_AUTH_USERS :: nat where "MAX_AUTH_USERS = 512"
definition MAX_AUTH_ROLES :: nat where "MAX_AUTH_ROLES = 128"
definition MAX_PERMISSIONS_PER_ROLE :: nat where "MAX_PERMISSIONS_PER_ROLE = 256"

datatype AuthenticationMethod =
  AUTH_METHOD_PASSWORD | AUTH_METHOD_CERTIFICATE | AUTH_METHOD_OAUTH2 | AUTH_METHOD_SAML | AUTH_METHOD_MFA
  | AUTH_METHOD_BIOMETRIC

datatype TokenType = TOKEN_TYPE_ACCESS | TOKEN_TYPE_REFRESH | TOKEN_TYPE_ID_TOKEN | TOKEN_TYPE_SERVICE_ACCOUNT

datatype AuthenticationState =
  AUTH_STATE_UNAUTHENTICATED | AUTH_STATE_AUTHENTICATING | AUTH_STATE_AUTHENTICATED | AUTH_STATE_EXPIRED
  | AUTH_STATE_REVOKED

record Role =
  ro_role_id :: u32
  ro_role_name :: string
  ro_permissions :: "u32 list"
  ro_created_time :: u64
  ro_is_builtin :: bool

record User =
  au_user_id :: u32
  au_username :: string
  au_email :: string
  au_password_hash :: "u8 list"
  au_role_ids :: "u32 list"
  au_created_time :: u64
  au_last_login_time :: u64
  au_is_active :: bool
  au_is_locked :: bool

record AuthenticationToken =
  tk_token_id :: u32
  tk_token_value :: string
  tk_user_id :: u32
  tk_token_type :: TokenType
  tk_issued_time :: u64
  tk_expiry_time :: u64
  tk_last_used_time :: u64
  tk_is_valid :: bool
  tk_usage_count :: u32

record AuthenticationSession =
  ss_session_id :: u32
  ss_user_id :: u32
  ss_auth_method :: AuthenticationMethod
  ss_state :: AuthenticationState
  ss_active_token_id :: u32
  ss_refresh_token_id :: u32
  ss_session_start_time :: u64
  ss_last_activity_time :: u64
  ss_failed_auth_attempts :: u32
  ss_mfa_enabled :: bool
  ss_mfa_verified :: bool

record AuthenticationManager =
  am_manager_id :: u32
  am_users :: "User list"
  am_roles :: "Role list"
  am_tokens :: "AuthenticationToken list"
  am_sessions :: "AuthenticationSession list"
  am_successful_authentications :: u64
  am_failed_authentications :: u64
  am_active_sessions_count :: u32

record AuthenticationManagerMetrics =
  mm_manager_id :: u32
  mm_total_users :: u32
  mm_active_users :: u32
  mm_locked_users :: u32
  mm_total_roles :: u32
  mm_active_sessions :: u32
  mm_valid_tokens :: u32
  mm_successful_authentications :: u64
  mm_failed_authentications :: u64

type_synonym auth = "AuthenticationManager option"

section \<open>Users and roles\<close>

definition auth_manager_init :: "bool \<Rightarrow> auth" where
  "auth_manager_init malloc_ok =
     (if \<not> malloc_ok then None
      else Some \<lparr>am_manager_id = 1, am_users = [], am_roles = [], am_tokens = [], am_sessions = [],
        am_successful_authentications = 0, am_failed_authentications = 0, am_active_sessions_count = 0\<rparr>)"

definition auth_manager_destroy :: "auth \<Rightarrow> auth \<times> int" where
  "auth_manager_destroy h = (None, case h of None \<Rightarrow> -1 | Some m \<Rightarrow> 0)"

definition user_create ::
    "auth \<Rightarrow> u32 \<Rightarrow> string option \<Rightarrow> string option \<Rightarrow> u8 list option \<Rightarrow> u32 \<Rightarrow> ((auth \<times> u32) \<times> u32) outcome" where
  "user_create h next_user_id username email password_hash hash_length =
     (case (h, username) of
        (Some m, Some nm) \<Rightarrow>
          if length (am_users m) \<ge> MAX_AUTH_USERS then Done ((h, next_user_id), 0)
          else
            let stored = (case password_hash of None \<Rightarrow> Done []
                  | Some p \<Rightarrow> if hash_length > 32 then Done []
                             else if length p < unat hash_length then Undef else Done (take (unat hash_length) p))
            in (case stored of Undef \<Rightarrow> Undef
                | Done p \<Rightarrow> Done ((Some (m\<lparr>am_users := am_users m @ [\<lparr>au_user_id = next_user_id,
                      au_username = take 127 nm, au_email = (case email of None \<Rightarrow> '''' | Some e \<Rightarrow> take 255 e),
                      au_password_hash = p, au_role_ids = [], au_created_time = 0, au_last_login_time = 0,
                      au_is_active = True, au_is_locked = False\<rparr>]\<rparr>), next_user_id + 1), next_user_id))
      | _ \<Rightarrow> Done ((h, next_user_id), 0))"

definition find_user :: "u32 \<Rightarrow> AuthenticationManager \<Rightarrow> nat option" where
  "find_user user_id m = id_idx au_user_id user_id (am_users m)"

definition find_role :: "u32 \<Rightarrow> AuthenticationManager \<Rightarrow> nat option" where
  "find_role role_id m = id_idx ro_role_id role_id (am_roles m)"

definition find_session :: "u32 \<Rightarrow> AuthenticationManager \<Rightarrow> nat option" where
  "find_session session_id m = id_idx ss_session_id session_id (am_sessions m)"

definition set_user :: "nat \<Rightarrow> User \<Rightarrow> AuthenticationManager \<Rightarrow> AuthenticationManager" where
  "set_user i u m = m\<lparr>am_users := (am_users m)[i := u]\<rparr>"

definition set_role :: "nat \<Rightarrow> Role \<Rightarrow> AuthenticationManager \<Rightarrow> AuthenticationManager" where
  "set_role i r m = m\<lparr>am_roles := (am_roles m)[i := r]\<rparr>"

definition user_delete :: "auth \<Rightarrow> u32 \<Rightarrow> auth \<times> int" where
  "user_delete h user_id = with_handle (-1) h (\<lambda>m.
     case find_user user_id m of None \<Rightarrow> (m, -1) | Some i \<Rightarrow> (m\<lparr>am_users := remove_at i (am_users m)\<rparr>, 0))"

definition user_lock :: "auth \<Rightarrow> u32 \<Rightarrow> auth \<times> int" where
  "user_lock h user_id = with_handle (-1) h (\<lambda>m.
     case find_user user_id m of None \<Rightarrow> (m, -1)
     | Some i \<Rightarrow> (set_user i ((am_users m ! i)\<lparr>au_is_locked := True\<rparr>) m, 0))"

definition user_unlock :: "auth \<Rightarrow> u32 \<Rightarrow> auth \<times> int" where
  "user_unlock h user_id = with_handle (-1) h (\<lambda>m.
     case find_user user_id m of None \<Rightarrow> (m, -1)
     | Some i \<Rightarrow> (set_user i ((am_users m ! i)\<lparr>au_is_locked := False\<rparr>) m, 0))"

definition role_create :: "auth \<Rightarrow> u32 \<Rightarrow> string option \<Rightarrow> (auth \<times> u32) \<times> u32" where
  "role_create h next_role_id role_name =
     (case (h, role_name) of
        (Some m, Some nm) \<Rightarrow>
          if length (am_roles m) \<ge> MAX_AUTH_ROLES then ((h, next_role_id), 0)
          else ((Some (m\<lparr>am_roles := am_roles m @ [\<lparr>ro_role_id = next_role_id, ro_role_name = take 63 nm,
                    ro_permissions = [], ro_created_time = 0, ro_is_builtin = False\<rparr>]\<rparr>), next_role_id + 1), next_role_id)
      | _ \<Rightarrow> ((h, next_role_id), 0))"

definition role_add_permission :: "auth \<Rightarrow> u32 \<Rightarrow> u32 \<Rightarrow> auth \<times> int" where
  "role_add_permission h role_id permission = with_handle (-1) h (\<lambda>m.
     case find_role role_id m of None \<Rightarrow> (m, -1)
     | Some i \<Rightarrow>
         let r = am_roles m ! i in
         if length (ro_permissions r) < MAX_PERMISSIONS_PER_ROLE
         then (set_role i (r\<lparr>ro_permissions := ro_permissions r @ [permission]\<rparr>) m, 0) else (m, -1))"

definition role_remove_permission :: "auth \<Rightarrow> u32 \<Rightarrow> u32 \<Rightarrow> auth \<times> int" where
  "role_remove_permission h role_id permission = with_handle (-1) h (\<lambda>m.
     case find_role role_id m of None \<Rightarrow> (m, -1)
     | Some i \<Rightarrow>
         let r = am_roles m ! i in
         (case first_idx (\<lambda>p. p = permission) (ro_permissions r) of None \<Rightarrow> (m, -1)
          | Some j \<Rightarrow> (set_role i (r\<lparr>ro_permissions := remove_at j (ro_permissions r)\<rparr>) m, 0)))"

definition user_assign_role :: "auth \<Rightarrow> u32 \<Rightarrow> u32 \<Rightarrow> auth \<times> int" where
  "user_assign_role h user_id role_id = with_handle (-1) h (\<lambda>m.
     if role_id = 0 then (m, -1)
     else case find_user user_id m of None \<Rightarrow> (m, -1)
     | Some i \<Rightarrow>
         let u = am_users m ! i in
         if length (au_role_ids u) < 64
         then (set_user i (u\<lparr>au_role_ids := au_role_ids u @ [role_id]\<rparr>) m, 0) else (m, -1))"

definition user_revoke_role :: "auth \<Rightarrow> u32 \<Rightarrow> u32 \<Rightarrow> auth \<times> int" where
  "user_revoke_role h user_id role_id = with_handle (-1) h (\<lambda>m.
     if role_id = 0 then (m, -1)
     else case find_user user_id m of None \<Rightarrow> (m, -1)
     | Some i \<Rightarrow>
         let u = am_users m ! i in
         (case first_idx (\<lambda>r. r = role_id) (au_role_ids u) of None \<Rightarrow> (m, -1)
          | Some j \<Rightarrow> (set_user i (u\<lparr>au_role_ids := remove_at j (au_role_ids u)\<rparr>) m, 0)))"

section \<open>Sessions and tokens\<close>

definition auth_session_create :: "auth \<Rightarrow> u32 \<Rightarrow> u32 \<Rightarrow> AuthenticationMethod \<Rightarrow> (auth \<times> u32) \<times> u32" where
  "auth_session_create h next_session_id user_id method =
     (case h of None \<Rightarrow> ((h, next_session_id), 0)
      | Some m \<Rightarrow>
          if length (am_sessions m) \<ge> MAX_AUTH_SESSIONS \<or> user_id = 0 then ((h, next_session_id), 0)
          else ((Some (m\<lparr>am_sessions := am_sessions m @ [\<lparr>ss_session_id = next_session_id, ss_user_id = user_id,
                    ss_auth_method = method, ss_state = AUTH_STATE_UNAUTHENTICATED, ss_active_token_id = 0,
                    ss_refresh_token_id = 0, ss_session_start_time = 0, ss_last_activity_time = 0,
                    ss_failed_auth_attempts = 0, ss_mfa_enabled = False, ss_mfa_verified = False\<rparr>]\<rparr>),
                 next_session_id + 1), next_session_id))"

definition auth_session_destroy :: "auth \<Rightarrow> u32 \<Rightarrow> auth \<times> int" where
  "auth_session_destroy h session_id = with_handle (-1) h (\<lambda>m.
     case find_session session_id m of None \<Rightarrow> (m, -1)
     | Some i \<Rightarrow>
         let m1 = (if ss_state (am_sessions m ! i) = AUTH_STATE_AUTHENTICATED
                   then m\<lparr>am_active_sessions_count := am_active_sessions_count m - 1\<rparr> else m)
         in (m1\<lparr>am_sessions := remove_at i (am_sessions m1)\<rparr>, 0))"

definition auth_session_authenticate :: "auth \<Rightarrow> u32 \<Rightarrow> u8 list option \<Rightarrow> u32 \<Rightarrow> auth \<times> int" where
  "auth_session_authenticate h session_id credentials cred_length = with_handle (-1) h (\<lambda>m.
     if credentials = None then (m, -1)
     else case find_session session_id m of None \<Rightarrow> (m, -1)
     | Some i \<Rightarrow>
         let s = am_sessions m ! i in
         if ss_state s = AUTH_STATE_UNAUTHENTICATED \<or> ss_state s = AUTH_STATE_AUTHENTICATING
         then (m\<lparr>am_sessions := (am_sessions m)[i := s\<lparr>ss_state := AUTH_STATE_AUTHENTICATED, ss_last_activity_time := 0\<rparr>],
                 am_successful_authentications := am_successful_authentications m + 1,
                 am_active_sessions_count := am_active_sessions_count m + 1\<rparr>, 0)
         else (m\<lparr>am_sessions := (am_sessions m)[i := s\<lparr>ss_failed_auth_attempts := ss_failed_auth_attempts s + 1\<rparr>],
                 am_failed_authentications := am_failed_authentications m + 1\<rparr>, -1))"

definition auth_session_verify_mfa :: "auth \<Rightarrow> u32 \<Rightarrow> u8 list option \<Rightarrow> u32 \<Rightarrow> auth \<times> int" where
  "auth_session_verify_mfa h session_id mfa_code code_length = with_handle (-1) h (\<lambda>m.
     if mfa_code = None then (m, -1)
     else case find_session session_id m of None \<Rightarrow> (m, -1)
     | Some i \<Rightarrow>
         let s = am_sessions m ! i in
         if ss_mfa_enabled s then (m\<lparr>am_sessions := (am_sessions m)[i := s\<lparr>ss_mfa_verified := True\<rparr>]\<rparr>, 0)
         else (m, -1))"

definition token_text :: "u32 \<Rightarrow> u32 \<Rightarrow> string" where
  "token_text token_id user_id = ''TOKEN_'' @ dec_digits (unat token_id) @ ''_'' @ dec_digits (unat user_id)"

definition auth_token_generate :: "auth \<Rightarrow> u32 \<Rightarrow> u32 \<Rightarrow> TokenType \<Rightarrow> (auth \<times> u32) \<times> u32" where
  "auth_token_generate h next_token_id user_id token_type =
     (case h of None \<Rightarrow> ((h, next_token_id), 0)
      | Some m \<Rightarrow>
          if length (am_tokens m) \<ge> MAX_AUTH_TOKENS \<or> user_id = 0 then ((h, next_token_id), 0)
          else ((Some (m\<lparr>am_tokens := am_tokens m @ [\<lparr>tk_token_id = next_token_id,
                    tk_token_value = token_text next_token_id user_id, tk_user_id = user_id,
                    tk_token_type = token_type, tk_issued_time = 0, tk_expiry_time = 3600000,
                    tk_last_used_time = 0, tk_is_valid = True, tk_usage_count = 0\<rparr>]\<rparr>),
                 next_token_id + 1), next_token_id))"

definition auth_token_validate :: "auth \<Rightarrow> u32 \<Rightarrow> auth \<times> int" where
  "auth_token_validate h token_id = with_handle (-1) h (\<lambda>m.
     if token_id = 0 then (m, -1)
     else case first_idx (\<lambda>t. tk_token_id t = token_id \<and> tk_is_valid t) (am_tokens m) of None \<Rightarrow> (m, -1)
     | Some i \<Rightarrow>
         let t = am_tokens m ! i in
         (m\<lparr>am_tokens := (am_tokens m)[i := t\<lparr>tk_last_used_time := 0, tk_usage_count := tk_usage_count t + 1\<rparr>]\<rparr>, 0))"

definition auth_token_revoke :: "auth \<Rightarrow> u32 \<Rightarrow> auth \<times> int" where
  "auth_token_revoke h token_id = with_handle (-1) h (\<lambda>m.
     if token_id = 0 then (m, -1)
     else case first_idx (\<lambda>t. tk_token_id t = token_id) (am_tokens m) of None \<Rightarrow> (m, -1)
     | Some i \<Rightarrow> (m\<lparr>am_tokens := (am_tokens m)[i := (am_tokens m ! i)\<lparr>tk_is_valid := False\<rparr>]\<rparr>, 0))"

definition auth_verify_token :: "auth \<Rightarrow> string option \<Rightarrow> int" where
  "auth_verify_token h token_value = read_handle (-1) h (\<lambda>m.
     case token_value of None \<Rightarrow> -1
     | Some v \<Rightarrow> if list_ex (\<lambda>t. tk_is_valid t \<and> tk_token_value t = v) (am_tokens m) then 0 else -1)"

definition auth_check_permission :: "auth \<Rightarrow> u32 \<Rightarrow> u32 \<Rightarrow> int" where
  "auth_check_permission h user_id permission = read_handle (-1) h (\<lambda>m.
     case find_user user_id m of None \<Rightarrow> -1
     | Some i \<Rightarrow>
         if list_ex (\<lambda>rid. list_ex (\<lambda>r. ro_role_id r = rid \<and> list_ex (\<lambda>p. p = permission) (ro_permissions r)) (am_roles m))
              (au_role_ids (am_users m ! i))
         then 0 else -1)"

definition auth_update_last_activity :: "auth \<Rightarrow> u32 \<Rightarrow> auth \<times> int" where
  "auth_update_last_activity h session_id = with_handle (-1) h (\<lambda>m.
     case find_session session_id m of None \<Rightarrow> (m, -1)
     | Some i \<Rightarrow> (m\<lparr>am_sessions := (am_sessions m)[i := (am_sessions m ! i)\<lparr>ss_last_activity_time := 0\<rparr>]\<rparr>, 0))"

definition auth_manager_get_metrics :: "auth \<Rightarrow> bool \<Rightarrow> int \<times> AuthenticationManagerMetrics option" where
  "auth_manager_get_metrics h metrics = read_handle (-1, None) h (\<lambda>m.
     if \<not> metrics then (-1, None)
     else (0, Some \<lparr>mm_manager_id = am_manager_id m, mm_total_users = of_nat (length (am_users m)),
        mm_active_users = of_nat (length (filter au_is_active (am_users m))),
        mm_locked_users = of_nat (length (filter au_is_locked (am_users m))),
        mm_total_roles = of_nat (length (am_roles m)), mm_active_sessions = am_active_sessions_count m,
        mm_valid_tokens = of_nat (length (filter tk_is_valid (am_tokens m))),
        mm_successful_authentications = am_successful_authentications m,
        mm_failed_authentications = am_failed_authentications m\<rparr>))"

section \<open>Role-based access control\<close>

text \<open>
  The abstract state: which users there are and which roles each holds, which roles there are and
  which permissions each grants, both with multiplicity, since assigning a role twice and revoking
  it once leaves it assigned.
\<close>

record rbac =
  rb_users :: "u32 \<rightharpoonup> u32 multiset"
  rb_roles :: "u32 \<rightharpoonup> u32 multiset"
  rb_next_user :: u32
  rb_next_role :: u32

definition allows :: "rbac \<Rightarrow> u32 \<Rightarrow> u32 \<Rightarrow> bool" where
  "allows a u p \<longleftrightarrow> (\<exists>R r P. rb_users a u = Some R \<and> r \<in># R \<and> rb_roles a r = Some P \<and> p \<in># P)"

datatype auth_call =
  CreateUser string string "u8 list" | DeleteUser u32 | LockUser u32 | UnlockUser u32 | CreateRole string
  | AddPermission u32 u32 | RemovePermission u32 u32 | AssignRole u32 u32 | RevokeRole u32 u32 | Check u32 u32

datatype auth_reply = Code int | Identifier u32

record auth_state =
  as_manager :: AuthenticationManager
  as_next_user :: u32
  as_next_role :: u32

definition on_manager :: "auth_state \<Rightarrow> auth \<times> int \<Rightarrow> auth_state \<times> auth_reply" where
  "on_manager s x = (s\<lparr>as_manager := the (fst x)\<rparr>, Code (snd x))"

fun auth_step :: "auth_state \<Rightarrow> auth_call \<Rightarrow> auth_state \<times> auth_reply" where
  "auth_step s (CreateUser n e p) =
     (case user_create (Some (as_manager s)) (as_next_user s) (Some n) (Some e) (Some p) (of_nat (length p)) of
        Undef \<Rightarrow> (s, Code 0)
      | Done ((h, nx), r) \<Rightarrow> (s\<lparr>as_manager := the h, as_next_user := nx\<rparr>, Identifier r))"
| "auth_step s (DeleteUser u) = on_manager s (user_delete (Some (as_manager s)) u)"
| "auth_step s (LockUser u) = on_manager s (user_lock (Some (as_manager s)) u)"
| "auth_step s (UnlockUser u) = on_manager s (user_unlock (Some (as_manager s)) u)"
| "auth_step s (CreateRole n) =
     (let ((h, nx), r) = role_create (Some (as_manager s)) (as_next_role s) (Some n)
      in (s\<lparr>as_manager := the h, as_next_role := nx\<rparr>, Identifier r))"
| "auth_step s (AddPermission r p) = on_manager s (role_add_permission (Some (as_manager s)) r p)"
| "auth_step s (RemovePermission r p) = on_manager s (role_remove_permission (Some (as_manager s)) r p)"
| "auth_step s (AssignRole u r) = on_manager s (user_assign_role (Some (as_manager s)) u r)"
| "auth_step s (RevokeRole u r) = on_manager s (user_revoke_role (Some (as_manager s)) u r)"
| "auth_step s (Check u p) = (s, Code (auth_check_permission (Some (as_manager s)) u p))"

fun auth_spec :: "rbac \<Rightarrow> auth_call \<Rightarrow> rbac \<times> auth_reply" where
  "auth_spec a (CreateUser n e p) =
     (if card (dom (rb_users a)) \<ge> 512 then (a, Identifier 0)
      else (a\<lparr>rb_users := (rb_users a)(rb_next_user a \<mapsto> {#}), rb_next_user := rb_next_user a + 1\<rparr>,
            Identifier (rb_next_user a)))"
| "auth_spec a (DeleteUser u) =
     (if rb_users a u = None then (a, Code (-1)) else (a\<lparr>rb_users := (rb_users a)(u := None)\<rparr>, Code 0))"
| "auth_spec a (LockUser u) = (a, Code (if rb_users a u = None then -1 else 0))"
| "auth_spec a (UnlockUser u) = (a, Code (if rb_users a u = None then -1 else 0))"
| "auth_spec a (CreateRole n) =
     (if card (dom (rb_roles a)) \<ge> 128 then (a, Identifier 0)
      else (a\<lparr>rb_roles := (rb_roles a)(rb_next_role a \<mapsto> {#}), rb_next_role := rb_next_role a + 1\<rparr>,
            Identifier (rb_next_role a)))"
| "auth_spec a (AddPermission r p) =
     (case rb_roles a r of None \<Rightarrow> (a, Code (-1))
      | Some P \<Rightarrow> if size P \<ge> 256 then (a, Code (-1))
                 else (a\<lparr>rb_roles := (rb_roles a)(r \<mapsto> add_mset p P)\<rparr>, Code 0))"
| "auth_spec a (RemovePermission r p) =
     (case rb_roles a r of None \<Rightarrow> (a, Code (-1))
      | Some P \<Rightarrow> if p \<in># P then (a\<lparr>rb_roles := (rb_roles a)(r \<mapsto> P - {#p#})\<rparr>, Code 0) else (a, Code (-1)))"
| "auth_spec a (AssignRole u r) =
     (case rb_users a u of None \<Rightarrow> (a, Code (-1))
      | Some R \<Rightarrow> if r = 0 \<or> size R \<ge> 64 then (a, Code (-1))
                 else (a\<lparr>rb_users := (rb_users a)(u \<mapsto> add_mset r R)\<rparr>, Code 0))"
| "auth_spec a (RevokeRole u r) =
     (case rb_users a u of None \<Rightarrow> (a, Code (-1))
      | Some R \<Rightarrow> if r \<in># R then (a\<lparr>rb_users := (rb_users a)(u \<mapsto> R - {#r#})\<rparr>, Code 0) else (a, Code (-1)))"
| "auth_spec a (Check u p) = (a, Code (if allows a u p then 0 else -1))"

definition users_map :: "AuthenticationManager \<Rightarrow> u32 \<rightharpoonup> u32 multiset" where
  "users_map m = table_map au_user_id (\<lambda>u. mset (au_role_ids u)) (am_users m)"

definition roles_map :: "AuthenticationManager \<Rightarrow> u32 \<rightharpoonup> u32 multiset" where
  "roles_map m = table_map ro_role_id (\<lambda>r. mset (ro_permissions r)) (am_roles m)"

definition auth_abs :: "auth_state \<Rightarrow> rbac" where
  "auth_abs s = \<lparr>rb_users = users_map (as_manager s), rb_roles = roles_map (as_manager s),
     rb_next_user = as_next_user s, rb_next_role = as_next_role s\<rparr>"

definition auth_inv :: "nat \<Rightarrow> auth_state \<Rightarrow> bool" where
  "auth_inv n s \<longleftrightarrow> ids_below n (as_next_user s) (map au_user_id (am_users (as_manager s))) \<and>
     ids_below n (as_next_role s) (map ro_role_id (am_roles (as_manager s))) \<and>
     list_all (\<lambda>u. 0 \<notin> set (au_role_ids u)) (am_users (as_manager s))"

fun auth_fits :: "auth_call \<Rightarrow> bool" where
  "auth_fits (CreateUser n e p) \<longleftrightarrow> length p < 4294967296"
| "auth_fits _ \<longleftrightarrow> True"

section \<open>Simulation\<close>

lemma user_lookup:
  "auth_inv n s \<Longrightarrow> m = as_manager s \<Longrightarrow>
   users_map m u = map_option (\<lambda>i. mset (au_role_ids (am_users m ! i))) (find_user u m)"
  by (auto simp: users_map_def find_user_def auth_inv_def intro: id_lookup)

lemma role_lookup:
  "auth_inv n s \<Longrightarrow> m = as_manager s \<Longrightarrow>
   roles_map m r = map_option (\<lambda>i. mset (ro_permissions (am_roles m ! i))) (find_role r m)"
  by (auto simp: roles_map_def find_role_def auth_inv_def intro: id_lookup)

lemma set_user_sim:
  assumes "auth_inv (Suc n) s" and "find_user u (as_manager s) = Some i" and "au_user_id x = u" and "0 \<notin> set (au_role_ids x)"
  shows "auth_inv n (s\<lparr>as_manager := set_user i x (as_manager s)\<rparr>)"
    and "auth_abs (s\<lparr>as_manager := set_user i x (as_manager s)\<rparr>) =
      (auth_abs s)\<lparr>rb_users := (rb_users (auth_abs s))(u \<mapsto> mset (au_role_ids x))\<rparr>"
  using assms id_update(1) [of n "as_next_user s" au_user_id "am_users (as_manager s)" u i x]
    id_update(2) [of n "as_next_user s" au_user_id "am_users (as_manager s)" u i x "\<lambda>u. mset (au_role_ids u)"]
  by (auto simp: auth_inv_def auth_abs_def users_map_def roles_map_def set_user_def find_user_def ids_below_mono list_all_update)

lemma set_role_sim:
  assumes "auth_inv (Suc n) s" and "find_role r (as_manager s) = Some i" and "ro_role_id x = r"
  shows "auth_inv n (s\<lparr>as_manager := set_role i x (as_manager s)\<rparr>)"
    and "auth_abs (s\<lparr>as_manager := set_role i x (as_manager s)\<rparr>) =
      (auth_abs s)\<lparr>rb_roles := (rb_roles (auth_abs s))(r \<mapsto> mset (ro_permissions x))\<rparr>"
  using assms id_update(1) [of n "as_next_role s" ro_role_id "am_roles (as_manager s)" r i x]
    id_update(2) [of n "as_next_role s" ro_role_id "am_roles (as_manager s)" r i x "\<lambda>r. mset (ro_permissions r)"]
  by (auto simp: auth_inv_def auth_abs_def users_map_def roles_map_def set_role_def find_role_def ids_below_mono)

lemma auth_inv_mono: "auth_inv (Suc n) s \<Longrightarrow> auth_inv n s"
  by (simp add: auth_inv_def ids_below_mono)

lemma user_roles_nonzero:
  "auth_inv n s \<Longrightarrow> find_user u (as_manager s) = Some i \<Longrightarrow> 0 \<notin> set (au_role_ids (am_users (as_manager s) ! i))"
  using id_idxD [of au_user_id u "am_users (as_manager s)" i] by (auto simp: auth_inv_def list_all_iff find_user_def)

lemma user_id_found: "find_user u m = Some i \<Longrightarrow> au_user_id (am_users m ! i) = u"
  using id_idxD [of au_user_id u "am_users m" i] by (simp add: find_user_def)

lemma role_id_found: "find_role r m = Some i \<Longrightarrow> ro_role_id (am_roles m ! i) = r"
  using id_idxD [of ro_role_id r "am_roles m" i] by (simp add: find_role_def)

lemma create_user_sim:
  assumes "auth_inv (Suc n) s" and "auth_fits (CreateUser nm e p)" and "auth_step s (CreateUser nm e p) = (s', r)"
  shows "auth_inv n s' \<and> auth_spec (auth_abs s) (CreateUser nm e p) = (auth_abs s', r)"
proof -
  let ?m = "as_manager s"
  have len: "length p < unat (of_nat (length p) :: u32) \<longleftrightarrow> False" using assms(2) by (simp add: unat_of_nat_u32)
  have ids: "ids_below (Suc n) (as_next_user s) (map au_user_id (am_users ?m))" using assms(1) by (simp add: auth_inv_def)
  have card: "card (dom (users_map ?m)) = length (am_users ?m)"
    using ids by (simp add: users_map_def card_table_map ids_below_def)
  show ?thesis
    using assms(1,3) card ids_below_new [OF ids] len
    by (auto simp: user_create_def auth_abs_def auth_inv_def ids_below_mono MAX_AUTH_USERS_def users_map_def roles_map_def
        table_map_snoc Let_def split: if_splits)
qed

lemma create_role_sim:
  assumes "auth_inv (Suc n) s" and "auth_step s (CreateRole nm) = (s', r)"
  shows "auth_inv n s' \<and> auth_spec (auth_abs s) (CreateRole nm) = (auth_abs s', r)"
proof -
  let ?m = "as_manager s"
  have ids: "ids_below (Suc n) (as_next_role s) (map ro_role_id (am_roles ?m))" using assms(1) by (simp add: auth_inv_def)
  have card: "card (dom (roles_map ?m)) = length (am_roles ?m)"
    using ids by (simp add: roles_map_def card_table_map ids_below_def)
  show ?thesis
    using assms card ids_below_new [OF ids]
    by (auto simp: role_create_def auth_abs_def auth_inv_def ids_below_mono MAX_AUTH_ROLES_def users_map_def roles_map_def
        table_map_snoc split: if_splits)
qed

lemma check_sim:
  assumes "auth_inv n s"
  shows "auth_check_permission (Some (as_manager s)) u p = (if allows (auth_abs s) u p then 0 else -1)"
proof -
  let ?m = "as_manager s"
  have "distinct (map ro_role_id (am_roles ?m))" using assms by (simp add: auth_inv_def ids_below_def)
  then have role: "(\<exists>P. roles_map ?m rid = Some P \<and> p \<in># P) \<longleftrightarrow>
      (\<exists>r\<in>set (am_roles ?m). ro_role_id r = rid \<and> p \<in> set (ro_permissions r))" for rid
    by (fastforce simp: roles_map_def table_map_def comp_def map_of_eq_Some_iff)
  have "allows (auth_abs s) u p \<longleftrightarrow>
      (\<exists>R rid. users_map ?m u = Some R \<and> rid \<in># R \<and> (\<exists>P. roles_map ?m rid = Some P \<and> p \<in># P))"
    by (auto simp: allows_def auth_abs_def)
  then show ?thesis
    unfolding role using user_lookup [OF assms refl, of u]
    by (auto simp: auth_check_permission_def list_ex_iff split: option.splits)
qed

lemma delete_user_sim:
  assumes "auth_inv (Suc n) s" and "auth_step s (DeleteUser u) = (s', r)"
  shows "auth_inv n s' \<and> auth_spec (auth_abs s) (DeleteUser u) = (auth_abs s', r)"
proof (cases "find_user u (as_manager s)")
  case None
  with assms user_lookup [OF assms(1) refl, of u] show ?thesis
    by (auto simp: user_delete_def on_manager_def auth_abs_def auth_inv_mono)
next
  case (Some i)
  with assms id_remove(1) [of n "as_next_user s" au_user_id "am_users (as_manager s)" u i]
    id_remove(2) [of n "as_next_user s" au_user_id "am_users (as_manager s)" u i "\<lambda>u. mset (au_role_ids u)"]
    user_lookup [OF assms(1) refl, of u]
  show ?thesis
    by (auto simp: user_delete_def on_manager_def auth_abs_def auth_inv_def find_user_def ids_below_mono
        list_all_remove_at users_map_def roles_map_def)
qed

lemma missing_user_sim:
  assumes "auth_inv (Suc n) s" and "find_user u (as_manager s) = None" and "auth_step s c = (s', r)"
    and "c \<in> {LockUser u, UnlockUser u, AssignRole u x, RevokeRole u x}"
  shows "auth_inv n s' \<and> auth_spec (auth_abs s) c = (auth_abs s', r)"
  using assms user_lookup [OF assms(1) refl, of u]
  by (auto simp: user_lock_def user_unlock_def user_assign_role_def user_revoke_role_def on_manager_def auth_abs_def
      auth_inv_mono split: if_splits)

lemma present_user_sim:
  assumes "auth_inv (Suc n) s" and "find_user u (as_manager s) = Some i"
  shows "auth_step s (LockUser u) = (s', r) \<Longrightarrow> auth_inv n s' \<and> auth_spec (auth_abs s) (LockUser u) = (auth_abs s', r)"
    and "auth_step s (UnlockUser u) = (s', r) \<Longrightarrow> auth_inv n s' \<and> auth_spec (auth_abs s) (UnlockUser u) = (auth_abs s', r)"
    and "auth_step s (AssignRole u x) = (s', r) \<Longrightarrow> auth_inv n s' \<and> auth_spec (auth_abs s) (AssignRole u x) = (auth_abs s', r)"
    and "auth_step s (RevokeRole u x) = (s', r) \<Longrightarrow> auth_inv n s' \<and> auth_spec (auth_abs s) (RevokeRole u x) = (auth_abs s', r)"
proof -
  let ?u = "am_users (as_manager s) ! i"
  have R: "rb_users (auth_abs s) u = Some (mset (au_role_ids ?u))"
    using user_lookup [OF assms(1) refl, of u] assms(2) by (simp add: auth_abs_def)
  note sim = set_user_sim [OF assms] and facts = user_roles_nonzero [OF assms] user_id_found [OF assms(2)]
  have keep: "(auth_abs s)\<lparr>rb_users := (rb_users (auth_abs s))(u \<mapsto> mset (au_role_ids ?u))\<rparr> = auth_abs s"
    using R by (simp add: map_upd_triv)
  show "auth_inv n s' \<and> auth_spec (auth_abs s) (LockUser u) = (auth_abs s', r)" if "auth_step s (LockUser u) = (s', r)"
    using that R assms(2) facts sim [of "?u\<lparr>au_is_locked := True\<rparr>"] keep by (auto simp: user_lock_def on_manager_def)
  show "auth_inv n s' \<and> auth_spec (auth_abs s) (UnlockUser u) = (auth_abs s', r)" if "auth_step s (UnlockUser u) = (s', r)"
    using that R assms(2) facts sim [of "?u\<lparr>au_is_locked := False\<rparr>"] keep by (auto simp: user_unlock_def on_manager_def)
  show "auth_inv n s' \<and> auth_spec (auth_abs s) (AssignRole u x) = (auth_abs s', r)" if "auth_step s (AssignRole u x) = (s', r)"
    using that R assms(2) facts sim [of "?u\<lparr>au_role_ids := au_role_ids ?u @ [x]\<rparr>"] auth_inv_mono [OF assms(1)]
    by (auto simp: user_assign_role_def on_manager_def Let_def split: if_splits)
  show "auth_inv n s' \<and> auth_spec (auth_abs s) (RevokeRole u x) = (auth_abs s', r)" if step: "auth_step s (RevokeRole u x) = (s', r)"
  proof (cases "first_idx (\<lambda>y. y = x) (au_role_ids ?u)")
    case None
    then have "x \<notin> set (au_role_ids ?u)" by (auto simp: first_idx_None)
    with None step R assms(2) auth_inv_mono [OF assms(1)] show ?thesis
      by (auto simp: user_revoke_role_def on_manager_def Let_def split: if_splits)
  next
    case (Some j)
    note j = first_idx_eq_mset [OF Some]
    then have "0 \<notin> set (remove_at j (au_role_ids ?u))" "x \<noteq> 0" using facts(1) by auto
    with Some step R assms(2) facts j sim [of "?u\<lparr>au_role_ids := remove_at j (au_role_ids ?u)\<rparr>"] show ?thesis
      by (auto simp: user_revoke_role_def on_manager_def Let_def)
  qed
qed

lemma role_ops_sim:
  assumes "auth_inv (Suc n) s"
  shows "auth_step s (AddPermission x p) = (s', r) \<Longrightarrow> auth_inv n s' \<and> auth_spec (auth_abs s) (AddPermission x p) = (auth_abs s', r)"
    and "auth_step s (RemovePermission x p) = (s', r) \<Longrightarrow> auth_inv n s' \<and> auth_spec (auth_abs s) (RemovePermission x p) = (auth_abs s', r)"
proof -
  let ?i = "the (find_role x (as_manager s))"
  let ?r = "am_roles (as_manager s) ! ?i"
  have P: "rb_roles (auth_abs s) x = (if find_role x (as_manager s) = None then None else Some (mset (ro_permissions ?r)))"
    using role_lookup [OF assms refl, of x] by (auto simp: auth_abs_def)
  have sim: "auth_inv n (s\<lparr>as_manager := set_role ?i (?r\<lparr>ro_permissions := ps\<rparr>) (as_manager s)\<rparr>)"
    "auth_abs (s\<lparr>as_manager := set_role ?i (?r\<lparr>ro_permissions := ps\<rparr>) (as_manager s)\<rparr>) =
      (auth_abs s)\<lparr>rb_roles := (rb_roles (auth_abs s))(x \<mapsto> mset ps)\<rparr>"
    if "find_role x (as_manager s) \<noteq> None" for ps
    using that set_role_sim [OF assms, of x ?i "?r\<lparr>ro_permissions := ps\<rparr>"] role_id_found [of x "as_manager s" ?i] by auto
  show "auth_inv n s' \<and> auth_spec (auth_abs s) (AddPermission x p) = (auth_abs s', r)" if "auth_step s (AddPermission x p) = (s', r)"
    using that P sim [of "ro_permissions ?r @ [p]"] auth_inv_mono [OF assms]
    by (auto simp: role_add_permission_def on_manager_def Let_def MAX_PERMISSIONS_PER_ROLE_def split: if_splits)
  show "auth_inv n s' \<and> auth_spec (auth_abs s) (RemovePermission x p) = (auth_abs s', r)"
    if step: "auth_step s (RemovePermission x p) = (s', r)"
  proof (cases "first_idx (\<lambda>y. y = p) (ro_permissions ?r)")
    case None
    then have "p \<notin> set (ro_permissions ?r)" by (auto simp: first_idx_None)
    with None step P auth_inv_mono [OF assms] show ?thesis
      by (cases "find_role x (as_manager s)") (auto simp: role_remove_permission_def on_manager_def Let_def)
  next
    case (Some j)
    with step P first_idx_eq_mset [OF Some] sim [of "remove_at j (ro_permissions ?r)"] auth_inv_mono [OF assms] show ?thesis
      by (cases "find_role x (as_manager s)") (auto simp: role_remove_permission_def on_manager_def Let_def)
  qed
qed

lemma auth_simulation:
  assumes "auth_inv (Suc n) s" and "auth_fits c" and "auth_step s c = (s', r)"
  shows "auth_inv n s' \<and> auth_spec (auth_abs s) c = (auth_abs s', r)"
proof -
  have user: "auth_inv n s' \<and> auth_spec (auth_abs s) c = (auth_abs s', r)"
    if c: "c \<in> {LockUser u, UnlockUser u, AssignRole u x, RevokeRole u x}" for u x
  proof (cases "find_user u (as_manager s)")
    case None
    from missing_user_sim [OF assms(1) None assms(3) c] show ?thesis .
  next
    case (Some i)
    note present = present_user_sim [OF assms(1) Some]
    from c consider "c = LockUser u" | "c = UnlockUser u" | "c = AssignRole u x" | "c = RevokeRole u x" by auto
    then show ?thesis using assms(3) by cases (simp_all only: present)
  qed
  show ?thesis
  proof (cases c)
    case (CreateUser nm e p)
    with assms create_user_sim show ?thesis by blast
  next
    case (CreateRole nm)
    with assms create_role_sim show ?thesis by blast
  next
    case (DeleteUser u)
    with assms delete_user_sim show ?thesis by blast
  next
    case (Check u p)
    with assms check_sim [OF assms(1)] auth_inv_mono [OF assms(1)] show ?thesis by auto
  next
    case (AddPermission x p)
    with assms role_ops_sim(1) show ?thesis by blast
  next
    case (RemovePermission x p)
    with assms role_ops_sim(2) show ?thesis by blast
  next
    case (LockUser u)
    with user [of u undefined] show ?thesis by blast
  next
    case (UnlockUser u)
    with user [of u undefined] show ?thesis by blast
  next
    case (AssignRole u x)
    with user [of u x] show ?thesis by blast
  next
    case (RevokeRole u x)
    with user [of u x] show ?thesis by blast
  qed
qed

interpretation auth: bounded_refinement auth_step auth_spec auth_abs auth_inv auth_fits
  by unfold_locales (rule auth_simulation)

section \<open>Sessions check no credentials\<close>

text \<open>
  A session that was just created, for any user number but 0 (of a locked user, or of none), is
  authenticated by whatever bytes are presented.
\<close>

lemma auth_accepts_any_credentials:
  assumes "auth_session_create (Some m) nx u method = ((Some m', nx'), sid)" and "sid \<noteq> 0"
    and "list_all (\<lambda>s. ss_session_id s \<noteq> nx) (am_sessions m)"
  shows "snd (auth_session_authenticate (Some m') sid (Some bytes) n) = 0"
proof -
  have "first_idx (\<lambda>s. ss_session_id s = nx) (am_sessions m) = None" using assms(3) by (simp add: first_idx_None list_all_iff)
  then show ?thesis
    using assms(1,2)
    by (auto simp: auth_session_create_def auth_session_authenticate_def find_session_def id_idx_def first_idx_snoc_key Let_def
        split: if_splits)
qed

section \<open>Main theorems\<close>

definition auth_start :: auth_state where
  "auth_start = \<lparr>as_manager = the (auth_manager_init True), as_next_user = 1, as_next_role = 1\<rparr>"

definition rbac_start :: rbac where
  "rbac_start = \<lparr>rb_users = Map.empty, rb_roles = Map.empty, rb_next_user = 1, rb_next_role = 1\<rparr>"

lemma auth_start_abs: "auth_abs auth_start = rbac_start" "n < 4294967295 \<Longrightarrow> auth_inv n auth_start"
  by (simp_all add: auth_abs_def auth_start_def rbac_start_def auth_manager_init_def users_map_def roles_map_def
      auth_inv_def ids_below_def)

text \<open>
  Claim C32. Access control. From a new manager, any history of fewer than 4294967295 calls that create,
  delete, lock and unlock users, create roles, grant and withdraw permissions, assign and revoke roles
  and check permissions gets the replies of role-based access control: a check succeeds exactly when
  the user exists and holds, at that moment, a role that grants the permission. Roles and permissions
  count: one assigned twice and revoked once is still held. Locking a user changes no reply of any
  check.
\<close>

theorem auth_refines_rbac:
  assumes "length calls < 4294967295" and "list_all auth_fits calls"
  shows "snd (call_run auth_step auth_start calls) = snd (call_run auth_spec rbac_start calls) \<and>
    auth_abs (fst (call_run auth_step auth_start calls)) = fst (call_run auth_spec rbac_start calls)"
  using auth.bounded_results [of 0 calls auth_start] assms auth_start_abs by simp

theorem auth_refines_rbac_witness:
  "snd (call_run auth_step auth_start
     [CreateUser ''ann'' ''a'' [1], CreateRole ''admin'', AddPermission 1 7, AssignRole 1 1, AssignRole 1 1,
      Check 1 7, RevokeRole 1 1, LockUser 1, Check 1 7, RevokeRole 1 1, Check 1 7]) =
   [Identifier 1, Identifier 1, Code 0, Code 0, Code 0, Code 0, Code 0, Code 0, Code 0, Code 0, Code (-1)]"
proof -
  let ?calls = "[CreateUser ''ann'' ''a'' [1], CreateRole ''admin'', AddPermission 1 7, AssignRole 1 1, AssignRole 1 1,
      Check 1 7, RevokeRole 1 1, LockUser 1, Check 1 7, RevokeRole 1 1, Check 1 7]"
  have "snd (call_run auth_spec rbac_start ?calls) =
      [Identifier 1, Identifier 1, Code 0, Code 0, Code 0, Code 0, Code 0, Code 0, Code 0, Code 0, Code (-1)]"
    by (simp add: rbac_start_def allows_def)
  then show ?thesis using auth_refines_rbac [of ?calls] by simp
qed

end
