(* ===== verification/Config_Manager.thy ===== *)
theory Config_Manager
  imports Service_Tables
begin

text \<open>
  The configuration manager of \<open>src/configuration-management/config_manager.c\<close>: configurations with
  up to 128 keys. The static counter that numbers configurations is an argument and a result of
  \<open>config_create\<close>. A key name is compared over the 128 bytes of its array, of which the last is
  always zero, so two names are equal when the stored name is the whole argument. What
  \<open>config_get_key\<close> writes is the text together with the fact whether a terminating zero was written:
  \<open>strncpy\<close> writes none when the text fills the space it is given.

  The second half shows that a configuration keeps, for every key, the queue of its values: the
  oldest one is read and deleted first.
\<close>

section \<open>Constants and data\<close>

definition MAX_CONFIGS :: nat where "MAX_CONFIGS = 64"
definition MAX_CONFIG_KEYS_PER_CONFIG :: nat where "MAX_CONFIG_KEYS_PER_CONFIG = 128"

datatype ConfigType = CONFIG_TYPE_STRING | CONFIG_TYPE_INTEGER | CONFIG_TYPE_BOOLEAN

datatype ConfigSource = CONFIG_SOURCE_FILE | CONFIG_SOURCE_ENVIRONMENT | CONFIG_SOURCE_RUNTIME

record ConfigKey =
  ck_key_id :: u32
  ck_key_name :: string
  ck_value_type :: ConfigType
  ck_value_data :: string
  ck_source :: ConfigSource
  ck_is_encrypted :: bool

record Config =
  cf_config_id :: u32
  cf_config_name :: string
  cf_keys :: "ConfigKey list"
  cf_total_updates :: u64
  cf_auto_reload_enabled :: bool

record ConfigManager =
  cm_manager_id :: u32
  cm_configs :: "Config list"
  cm_total_config_reads :: u64
  cm_total_config_writes :: u64

record ConfigManagerMetrics =
  cx_manager_id :: u32
  cx_total_configs :: u32
  cx_active_configs :: u32
  cx_total_reads :: u64
  cx_total_writes :: u64

type_synonym cfgs = "ConfigManager option"

section \<open>Operations\<close>

definition config_manager_init :: "bool \<Rightarrow> cfgs" where
  "config_manager_init malloc_ok =
     (if \<not> malloc_ok then None
      else Some \<lparr>cm_manager_id = 1, cm_configs = [], cm_total_config_reads = 0, cm_total_config_writes = 0\<rparr>)"

definition config_manager_destroy :: "cfgs \<Rightarrow> cfgs \<times> int" where
  "config_manager_destroy h = (None, case h of None \<Rightarrow> -1 | Some m \<Rightarrow> 0)"

definition config_create :: "cfgs \<Rightarrow> u32 \<Rightarrow> string option \<Rightarrow> (cfgs \<times> u32) \<times> u32" where
  "config_create h next_config_id config_name =
     (case (h, config_name) of
        (Some m, Some nm) \<Rightarrow>
          if length (cm_configs m) \<ge> MAX_CONFIGS then ((h, next_config_id), 0)
          else ((Some (m\<lparr>cm_configs := cm_configs m @ [\<lparr>cf_config_id = next_config_id, cf_config_name = take 255 nm,
                    cf_keys = [], cf_total_updates = 0, cf_auto_reload_enabled = False\<rparr>]\<rparr>),
                 next_config_id + 1), next_config_id)
      | _ \<Rightarrow> ((h, next_config_id), 0))"

definition find_config :: "u32 \<Rightarrow> ConfigManager \<Rightarrow> nat option" where
  "find_config config_id m = id_idx cf_config_id config_id (cm_configs m)"

definition find_config_key :: "string \<Rightarrow> Config \<Rightarrow> nat option" where
  "find_config_key key_name c = first_idx (\<lambda>k. ck_key_name k = key_name) (cf_keys c)"

definition set_config :: "nat \<Rightarrow> Config \<Rightarrow> ConfigManager \<Rightarrow> ConfigManager" where
  "set_config i c m = m\<lparr>cm_configs := (cm_configs m)[i := c]\<rparr>"

definition config_destroy :: "cfgs \<Rightarrow> u32 \<Rightarrow> cfgs \<times> int" where
  "config_destroy h config_id = with_handle (-1) h (\<lambda>m.
     case find_config config_id m of None \<Rightarrow> (m, -1)
     | Some i \<Rightarrow> (m\<lparr>cm_configs := remove_at i (cm_configs m)\<rparr>, 0))"

definition config_set_key ::
    "cfgs \<Rightarrow> u32 \<Rightarrow> string option \<Rightarrow> ConfigType \<Rightarrow> string option \<Rightarrow> ConfigSource \<Rightarrow> cfgs \<times> int" where
  "config_set_key h config_id key_name typ value source = with_handle (-1) h (\<lambda>m.
     case (key_name, value) of
       (Some k, Some v) \<Rightarrow>
         (case find_config config_id m of None \<Rightarrow> (m, -1)
          | Some i \<Rightarrow>
              let c = cm_configs m ! i in
              if length (cf_keys c) \<ge> MAX_CONFIG_KEYS_PER_CONFIG then (m, -1)
              else (let m1 = set_config i (c\<lparr>cf_keys := cf_keys c @ [\<lparr>ck_key_id = of_nat (length (cf_keys c)) + 1,
                      ck_key_name = take 127 k, ck_value_type = typ, ck_value_data = take 511 v,
                      ck_source = source, ck_is_encrypted = False\<rparr>],
                      cf_total_updates := cf_total_updates c + 1\<rparr>) m
                    in (m1\<lparr>cm_total_config_writes := cm_total_config_writes m1 + 1\<rparr>, 0)))
     | _ \<Rightarrow> (m, -1))"

definition copy_out :: "string \<Rightarrow> u32 \<Rightarrow> string \<times> bool" where
  "copy_out v buffer_size = (take (unat buffer_size - 1) v, length v < unat buffer_size - 1)"

definition config_get_key ::
    "cfgs \<Rightarrow> u32 \<Rightarrow> string option \<Rightarrow> bool \<Rightarrow> u32 \<Rightarrow> cfgs \<times> int \<times> (string \<times> bool) option" where
  "config_get_key h config_id key_name value_buffer buffer_size = with_handle (-1, None) h (\<lambda>m.
     case key_name of None \<Rightarrow> (m, -1, None)
     | Some k \<Rightarrow>
         if \<not> value_buffer \<or> buffer_size = 0 then (m, -1, None)
         else (case find_config config_id m of None \<Rightarrow> (m, -1, None)
         | Some i \<Rightarrow>
             (case find_config_key k (cm_configs m ! i) of None \<Rightarrow> (m, -1, None)
              | Some j \<Rightarrow> (m\<lparr>cm_total_config_reads := cm_total_config_reads m + 1\<rparr>, 0,
                          Some (copy_out (ck_value_data (cf_keys (cm_configs m ! i) ! j)) buffer_size)))))"

definition config_delete_key :: "cfgs \<Rightarrow> u32 \<Rightarrow> string option \<Rightarrow> cfgs \<times> int" where
  "config_delete_key h config_id key_name = with_handle (-1) h (\<lambda>m.
     case key_name of None \<Rightarrow> (m, -1)
     | Some k \<Rightarrow>
         (case find_config config_id m of None \<Rightarrow> (m, -1)
          | Some i \<Rightarrow>
              let c = cm_configs m ! i in
              (case find_config_key k c of None \<Rightarrow> (m, -1)
               | Some j \<Rightarrow>
                   let m1 = set_config i (c\<lparr>cf_keys := remove_at j (cf_keys c), cf_total_updates := cf_total_updates c + 1\<rparr>) m
                   in (m1\<lparr>cm_total_config_writes := cm_total_config_writes m1 + 1\<rparr>, 0))))"

text \<open>This loop does not stop at a configuration that lacks the key.\<close>

definition config_key_encrypt :: "cfgs \<Rightarrow> u32 \<Rightarrow> string option \<Rightarrow> cfgs \<times> int" where
  "config_key_encrypt h config_id key_name = with_handle (-1) h (\<lambda>m.
     case key_name of None \<Rightarrow> (m, -1)
     | Some k \<Rightarrow>
         if config_id = 0 then (m, -1)
         else case first_idx (\<lambda>c. cf_config_id c = config_id \<and> find_config_key k c \<noteq> None) (cm_configs m) of
           None \<Rightarrow> (m, -1)
         | Some i \<Rightarrow>
             let c = cm_configs m ! i; j = the (find_config_key k c)
             in (set_config i (c\<lparr>cf_keys := (cf_keys c)[j := (cf_keys c ! j)\<lparr>ck_is_encrypted := True\<rparr>]\<rparr>) m, 0))"

definition on_config :: "cfgs \<Rightarrow> u32 \<Rightarrow> (Config \<Rightarrow> Config) \<Rightarrow> cfgs \<times> int" where
  "on_config h config_id f = with_handle (-1) h (\<lambda>m.
     case find_config config_id m of None \<Rightarrow> (m, -1) | Some i \<Rightarrow> (set_config i (f (cm_configs m ! i)) m, 0))"

definition config_enable_auto_reload :: "cfgs \<Rightarrow> u32 \<Rightarrow> u32 \<Rightarrow> cfgs \<times> int" where
  "config_enable_auto_reload h config_id interval_seconds = on_config h config_id (\<lambda>c. c\<lparr>cf_auto_reload_enabled := True\<rparr>)"

definition config_disable_auto_reload :: "cfgs \<Rightarrow> u32 \<Rightarrow> cfgs \<times> int" where
  "config_disable_auto_reload h config_id = on_config h config_id (\<lambda>c. c\<lparr>cf_auto_reload_enabled := False\<rparr>)"

definition config_reload :: "cfgs \<Rightarrow> u32 \<Rightarrow> cfgs \<times> int" where
  "config_reload h config_id = on_config h config_id (\<lambda>c. c\<lparr>cf_total_updates := cf_total_updates c + 1\<rparr>)"

definition config_validate_keys :: "cfgs \<Rightarrow> u32 \<Rightarrow> int" where
  "config_validate_keys h config_id = read_handle (-1) h (\<lambda>m.
     case find_config config_id m of None \<Rightarrow> -1
     | Some i \<Rightarrow> if list_ex (\<lambda>k. ck_key_name k = '''') (cf_keys (cm_configs m ! i)) then -1 else 0)"

definition config_export_to_file :: "cfgs \<Rightarrow> u32 \<Rightarrow> string option \<Rightarrow> int" where
  "config_export_to_file h config_id filepath = read_handle (-1) h (\<lambda>m.
     if filepath = None \<or> find_config config_id m = None then -1 else 0)"

definition config_import_from_file :: "cfgs \<Rightarrow> u32 \<Rightarrow> string option \<Rightarrow> int" where
  "config_import_from_file h config_id filepath = read_handle (-1) h (\<lambda>m.
     if filepath = None \<or> find_config config_id m = None then -1 else 0)"

definition config_manager_get_metrics :: "cfgs \<Rightarrow> bool \<Rightarrow> int \<times> ConfigManagerMetrics option" where
  "config_manager_get_metrics h metrics = read_handle (-1, None) h (\<lambda>m.
     if \<not> metrics then (-1, None)
     else (0, Some \<lparr>cx_manager_id = cm_manager_id m, cx_total_configs = of_nat (length (cm_configs m)),
        cx_active_configs = of_nat (length (cm_configs m)), cx_total_reads = cm_total_config_reads m,
        cx_total_writes = cm_total_config_writes m\<rparr>))"

section \<open>Queues of values\<close>

text \<open>What a configuration means: the queue of values of every key, and how many values there are.\<close>

record cfg_model =
  cq_values :: "string \<Rightarrow> string list"
  cq_count :: nat

record cfgs_model =
  cs_configs :: "u32 \<rightharpoonup> cfg_model"
  cs_next :: u32

datatype cfg_call =
  Create string | Destroy u32 | Set u32 string ConfigType string ConfigSource | Get u32 string u32
  | Delete u32 string | Encrypt u32 string | EnableReload u32 u32 | DisableReload u32 | Reload u32 | Validate u32

datatype cfg_reply = Identifier u32 | Code int | Text int "(string \<times> bool) option"

record cfg_state =
  st_manager :: ConfigManager
  st_next :: u32

definition on_state :: "cfg_state \<Rightarrow> cfgs \<times> int \<Rightarrow> cfg_state \<times> cfg_reply" where
  "on_state s x = (s\<lparr>st_manager := the (fst x)\<rparr>, Code (snd x))"

fun cfg_step :: "cfg_state \<Rightarrow> cfg_call \<Rightarrow> cfg_state \<times> cfg_reply" where
  "cfg_step s (Create n) =
     (let ((h, nx), r) = config_create (Some (st_manager s)) (st_next s) (Some n)
      in (s\<lparr>st_manager := the h, st_next := nx\<rparr>, Identifier r))"
| "cfg_step s (Destroy c) = on_state s (config_destroy (Some (st_manager s)) c)"
| "cfg_step s (Set c k t v src) = on_state s (config_set_key (Some (st_manager s)) c (Some k) t (Some v) src)"
| "cfg_step s (Get c k n) =
     (let (h, r, out) = config_get_key (Some (st_manager s)) c (Some k) True n in (s\<lparr>st_manager := the h\<rparr>, Text r out))"
| "cfg_step s (Delete c k) = on_state s (config_delete_key (Some (st_manager s)) c (Some k))"
| "cfg_step s (Encrypt c k) = on_state s (config_key_encrypt (Some (st_manager s)) c (Some k))"
| "cfg_step s (EnableReload c n) = on_state s (config_enable_auto_reload (Some (st_manager s)) c n)"
| "cfg_step s (DisableReload c) = on_state s (config_disable_auto_reload (Some (st_manager s)) c)"
| "cfg_step s (Reload c) = on_state s (config_reload (Some (st_manager s)) c)"
| "cfg_step s (Validate c) = (s, Code (config_validate_keys (Some (st_manager s)) c))"

definition present :: "cfgs_model \<Rightarrow> u32 \<Rightarrow> int" where
  "present a c = (if cs_configs a c = None then -1 else 0)"

fun cfg_spec :: "cfgs_model \<Rightarrow> cfg_call \<Rightarrow> cfgs_model \<times> cfg_reply" where
  "cfg_spec a (Create n) =
     (if card (dom (cs_configs a)) \<ge> 64 then (a, Identifier 0)
      else (a\<lparr>cs_configs := (cs_configs a)(cs_next a \<mapsto> \<lparr>cq_values = (\<lambda>k. []), cq_count = 0\<rparr>), cs_next := cs_next a + 1\<rparr>,
            Identifier (cs_next a)))"
| "cfg_spec a (Destroy c) = (a\<lparr>cs_configs := (cs_configs a)(c := None)\<rparr>, Code (present a c))"
| "cfg_spec a (Set c k t v src) =
     (case cs_configs a c of None \<Rightarrow> (a, Code (-1))
      | Some q \<Rightarrow>
          if cq_count q \<ge> 128 then (a, Code (-1))
          else let k' = take 127 k
               in (a\<lparr>cs_configs := (cs_configs a)(c \<mapsto>
                     \<lparr>cq_values = (cq_values q)(k' := cq_values q k' @ [take 511 v]), cq_count = cq_count q + 1\<rparr>)\<rparr>, Code 0))"
| "cfg_spec a (Get c k n) =
     (a, case cs_configs a c of None \<Rightarrow> Text (-1) None
      | Some q \<Rightarrow> (case cq_values q k of [] \<Rightarrow> Text (-1) None
                  | v # vs \<Rightarrow> if n = 0 then Text (-1) None else Text 0 (Some (copy_out v n))))"
| "cfg_spec a (Delete c k) =
     (case cs_configs a c of None \<Rightarrow> (a, Code (-1))
      | Some q \<Rightarrow>
          (case cq_values q k of [] \<Rightarrow> (a, Code (-1))
           | v # vs \<Rightarrow> (a\<lparr>cs_configs := (cs_configs a)(c \<mapsto>
                          \<lparr>cq_values = (cq_values q)(k := vs), cq_count = cq_count q - 1\<rparr>)\<rparr>, Code 0)))"
| "cfg_spec a (Encrypt c k) =
     (a, case cs_configs a c of None \<Rightarrow> Code (-1) | Some q \<Rightarrow> Code (if cq_values q k = [] then -1 else 0))"
| "cfg_spec a (EnableReload c n) = (a, Code (present a c))"
| "cfg_spec a (DisableReload c) = (a, Code (present a c))"
| "cfg_spec a (Reload c) = (a, Code (present a c))"
| "cfg_spec a (Validate c) =
     (a, case cs_configs a c of None \<Rightarrow> Code (-1) | Some q \<Rightarrow> Code (if cq_values q '''' = [] then 0 else -1))"

definition queues :: "Config \<Rightarrow> cfg_model" where
  "queues c = \<lparr>cq_values = (\<lambda>k. map ck_value_data (filter (\<lambda>x. ck_key_name x = k) (cf_keys c))),
     cq_count = length (cf_keys c)\<rparr>"

definition cfg_map :: "ConfigManager \<Rightarrow> u32 \<rightharpoonup> cfg_model" where
  "cfg_map m = table_map cf_config_id queues (cm_configs m)"

definition cfg_abs :: "cfg_state \<Rightarrow> cfgs_model" where
  "cfg_abs s = \<lparr>cs_configs = cfg_map (st_manager s), cs_next = st_next s\<rparr>"

definition cfg_inv :: "nat \<Rightarrow> cfg_state \<Rightarrow> bool" where
  "cfg_inv n s \<longleftrightarrow> ids_below n (st_next s) (map cf_config_id (cm_configs (st_manager s)))"

section \<open>Simulation\<close>

lemma cfg_lookup:
  "cfg_inv n s \<Longrightarrow> cs_configs (cfg_abs s) c = map_option (\<lambda>i. queues (cm_configs (st_manager s) ! i)) (find_config c (st_manager s))"
  unfolding cfg_abs_def cfg_map_def find_config_def cfg_inv_def by (simp add: id_lookup)

lemma set_config_sim:
  assumes "cfg_inv (Suc n) s" and "find_config c (st_manager s) = Some i" and "cf_config_id x = c"
    and "cm_configs m = (cm_configs (st_manager s))[i := x]"
  shows "cfg_inv n (s\<lparr>st_manager := m\<rparr>)"
    and "cfg_abs (s\<lparr>st_manager := m\<rparr>) = (cfg_abs s)\<lparr>cs_configs := (cs_configs (cfg_abs s))(c \<mapsto> queues x)\<rparr>"
  using assms id_update(1) [of n "st_next s" cf_config_id "cm_configs (st_manager s)" c i x]
    id_update(2) [of n "st_next s" cf_config_id "cm_configs (st_manager s)" c i x queues]
  by (auto simp: cfg_inv_def cfg_abs_def cfg_map_def find_config_def)

lemma config_id_found: "find_config c m = Some i \<Longrightarrow> cf_config_id (cm_configs m ! i) = c"
  using id_idxD [of cf_config_id c "cm_configs m" i] by (simp add: find_config_def)

lemma cfg_inv_mono: "cfg_inv (Suc n) s \<Longrightarrow> cfg_inv n s"
  by (simp add: cfg_inv_def ids_below_mono)

lemma queue_empty: "cq_values (queues c) k = [] \<longleftrightarrow> find_config_key k c = None"
  by (auto simp: queues_def find_config_key_def first_idx_None filter_empty_conv)

lemma filter_first_idx:
  assumes "first_idx P xs = Some j"
  shows "filter P xs = xs ! j # filter P (remove_at j xs)" and "filter (\<lambda>x. \<not> P x \<and> Q x) (remove_at j xs) = filter (\<lambda>x. \<not> P x \<and> Q x) xs"
  using assms
proof (induction xs arbitrary: j)
  case (Cons x xs)
  {
    case 1
    with Cons.IH(1) show ?case by (cases "P x") auto
  next
    case 2
    with Cons.IH(2) show ?case by (cases "P x") auto
  }
qed simp_all

lemma queue_found:
  assumes "find_config_key k c = Some j"
  shows "cq_values (queues c) k = ck_value_data (cf_keys c ! j) # cq_values (queues (c\<lparr>cf_keys := remove_at j (cf_keys c)\<rparr>)) k"
    and "k' \<noteq> k \<Longrightarrow> cq_values (queues (c\<lparr>cf_keys := remove_at j (cf_keys c)\<rparr>)) k' = cq_values (queues c) k'"
proof -
  have j: "first_idx (\<lambda>x. ck_key_name x = k) (cf_keys c) = Some j" using assms by (simp add: find_config_key_def)
  show "cq_values (queues c) k = ck_value_data (cf_keys c ! j) # cq_values (queues (c\<lparr>cf_keys := remove_at j (cf_keys c)\<rparr>)) k"
    using filter_first_idx(1) [OF j] by (simp add: queues_def)
  assume "k' \<noteq> k"
  then have other: "filter (\<lambda>x. ck_key_name x = k') ys = filter (\<lambda>x. ck_key_name x \<noteq> k \<and> ck_key_name x = k') ys" for ys
    by (auto intro: filter_cong)
  have "filter (\<lambda>x. ck_key_name x = k') (remove_at j (cf_keys c)) = filter (\<lambda>x. ck_key_name x = k') (cf_keys c)"
    unfolding other by (rule filter_first_idx(2) [OF j])
  then show "cq_values (queues (c\<lparr>cf_keys := remove_at j (cf_keys c)\<rparr>)) k' = cq_values (queues c) k'"
    by (simp add: queues_def)
qed

lemma create_cfg_sim:
  assumes "cfg_inv (Suc n) s" and "cfg_step s (Create nm) = (s', r)"
  shows "cfg_inv n s' \<and> cfg_spec (cfg_abs s) (Create nm) = (cfg_abs s', r)"
proof -
  let ?x = "\<lparr>cf_config_id = st_next s, cf_config_name = take 255 nm, cf_keys = [], cf_total_updates = 0,
    cf_auto_reload_enabled = False\<rparr>"
  have ids: "ids_below (Suc n) (st_next s) (map cf_config_id (cm_configs (st_manager s)))" using assms(1) by (simp add: cfg_inv_def)
  have "queues ?x = \<lparr>cq_values = (\<lambda>k. []), cq_count = 0\<rparr>" by (simp add: queues_def)
  with assms(2) id_create(1) [OF ids, of ?x] id_create(2) [OF ids, of ?x queues] id_create(3) [OF ids, of ?x queues]
    cfg_inv_mono [OF assms(1)]
  show ?thesis
    by (auto simp: config_create_def cfg_abs_def cfg_inv_def cfg_map_def MAX_CONFIGS_def split: if_splits)
qed

lemma destroy_cfg_sim:
  assumes "cfg_inv (Suc n) s" and "cfg_step s (Destroy c) = (s', r)"
  shows "cfg_inv n s' \<and> cfg_spec (cfg_abs s) (Destroy c) = (cfg_abs s', r)"
proof (cases "find_config c (st_manager s)")
  case None
  with assms cfg_lookup [OF assms(1), of c] cfg_inv_mono [OF assms(1)] show ?thesis
    by (auto simp: config_destroy_def on_state_def present_def cfg_abs_def)
next
  case (Some i)
  have ids: "ids_below (Suc n) (st_next s) (map cf_config_id (cm_configs (st_manager s)))" using assms(1) by (simp add: cfg_inv_def)
  have "id_idx cf_config_id c (cm_configs (st_manager s)) = Some i" using Some by (simp add: find_config_def)
  with assms Some id_remove(1) [OF ids, of c i] id_remove(2) [OF ids, of c i queues] cfg_lookup [OF assms(1), of c]
  show ?thesis
    by (auto simp: config_destroy_def on_state_def present_def cfg_abs_def cfg_inv_def cfg_map_def)
qed

lemma missing_cfg_sim:
  assumes "cfg_inv (Suc n) s" and "find_config c (st_manager s) = None" and "cfg_step s x = (s', r)"
    and "x \<in> {Set c k t v src, Get c k z, Delete c k, EnableReload c z, DisableReload c, Reload c, Validate c}"
  shows "cfg_inv n s' \<and> cfg_spec (cfg_abs s) x = (cfg_abs s', r)"
  using assms cfg_lookup [OF assms(1), of c] cfg_inv_mono [OF assms(1)]
  by (auto simp: config_set_key_def config_get_key_def config_delete_key_def config_enable_auto_reload_def
      config_disable_auto_reload_def config_reload_def config_validate_keys_def on_config_def on_state_def present_def
      with_handle_Some split: if_splits)

lemma set_key_sim:
  assumes "cfg_inv (Suc n) s" and "find_config c (st_manager s) = Some i" and "cfg_step s (Set c k t v src) = (s', r)"
  shows "cfg_inv n s' \<and> cfg_spec (cfg_abs s) (Set c k t v src) = (cfg_abs s', r)"
proof -
  let ?c = "cm_configs (st_manager s) ! i"
  have q: "cs_configs (cfg_abs s) c = Some (queues ?c)" using cfg_lookup [OF assms(1)] assms(2) by simp
  let ?k = "\<lparr>ck_key_id = of_nat (length (cf_keys ?c)) + 1, ck_key_name = take 127 k, ck_value_type = t,
    ck_value_data = take 511 v, ck_source = src, ck_is_encrypted = False\<rparr>"
  let ?x = "?c\<lparr>cf_keys := cf_keys ?c @ [?k], cf_total_updates := cf_total_updates ?c + 1\<rparr>"
  let ?m = "(set_config i ?x (st_manager s))\<lparr>cm_total_config_writes := cm_total_config_writes (st_manager s) + 1\<rparr>"
  have "cfg_inv n (s\<lparr>st_manager := ?m\<rparr>)"
    "cfg_abs (s\<lparr>st_manager := ?m\<rparr>) = (cfg_abs s)\<lparr>cs_configs := (cs_configs (cfg_abs s))(c \<mapsto> queues ?x)\<rparr>"
    using set_config_sim [OF assms(1,2), of ?x ?m] config_id_found [OF assms(2)] by (simp_all add: set_config_def)
  moreover have "queues ?x =
      \<lparr>cq_values = (cq_values (queues ?c))(take 127 k := cq_values (queues ?c) (take 127 k) @ [take 511 v]),
       cq_count = cq_count (queues ?c) + 1\<rparr>"
    by (auto simp: queues_def fun_eq_iff)
  moreover have "cq_count (queues ?c) = length (cf_keys ?c)" by (simp add: queues_def)
  ultimately show ?thesis
    using q assms(2,3) cfg_inv_mono [OF assms(1)]
    by (auto simp: config_set_key_def on_state_def set_config_def MAX_CONFIG_KEYS_PER_CONFIG_def Let_def split: if_splits)
qed

lemma get_key_sim:
  assumes "cfg_inv (Suc n) s" and "find_config c (st_manager s) = Some i" and "cfg_step s (Get c k z) = (s', r)"
  shows "cfg_inv n s' \<and> cfg_spec (cfg_abs s) (Get c k z) = (cfg_abs s', r)"
proof -
  let ?c = "cm_configs (st_manager s) ! i"
  have q: "cs_configs (cfg_abs s) c = Some (queues ?c)" using cfg_lookup [OF assms(1)] assms(2) by simp
  have s': "cfg_abs (s\<lparr>st_manager := (st_manager s)\<lparr>cm_total_config_reads := u\<rparr>\<rparr>) = cfg_abs s"
    "cfg_inv n (s\<lparr>st_manager := (st_manager s)\<lparr>cm_total_config_reads := u\<rparr>\<rparr>)" for u
    using cfg_inv_mono [OF assms(1)] by (simp_all add: cfg_abs_def cfg_map_def cfg_inv_def)
  show ?thesis
  proof (cases "find_config_key k ?c")
    case None
    with q assms(2,3) queue_empty [of ?c k] cfg_inv_mono [OF assms(1)] show ?thesis
      by (auto simp: config_get_key_def with_handle_Some split: if_splits)
  next
    case (Some j)
    with q assms(2,3) queue_found(1) [OF Some] s' cfg_inv_mono [OF assms(1)] show ?thesis
      by (auto simp: config_get_key_def with_handle_Some split: if_splits)
  qed
qed

lemma delete_key_sim:
  assumes "cfg_inv (Suc n) s" and "find_config c (st_manager s) = Some i" and "cfg_step s (Delete c k) = (s', r)"
  shows "cfg_inv n s' \<and> cfg_spec (cfg_abs s) (Delete c k) = (cfg_abs s', r)"
proof -
  let ?c = "cm_configs (st_manager s) ! i"
  have q: "cs_configs (cfg_abs s) c = Some (queues ?c)" using cfg_lookup [OF assms(1)] assms(2) by simp
  show ?thesis
  proof (cases "find_config_key k ?c")
    case None
    with q assms(2,3) queue_empty [of ?c k] cfg_inv_mono [OF assms(1)] show ?thesis
      by (auto simp: config_delete_key_def on_state_def)
  next
    case (Some j)
    let ?vs = "cq_values (queues (?c\<lparr>cf_keys := remove_at j (cf_keys ?c)\<rparr>)) k"
    have "j < length (cf_keys ?c)" using Some by (auto simp: find_config_key_def dest: first_idx_SomeD(1))
    then have "queues (?c\<lparr>cf_keys := remove_at j (cf_keys ?c), cf_total_updates := u\<rparr>) =
        \<lparr>cq_values = (cq_values (queues ?c))(k := ?vs), cq_count = cq_count (queues ?c) - 1\<rparr>" for u
      using queue_found(2) [OF Some] by (auto simp: queues_def fun_eq_iff length_remove_at)
    moreover let ?x = "?c\<lparr>cf_keys := remove_at j (cf_keys ?c), cf_total_updates := cf_total_updates ?c + 1\<rparr>"
    let ?m = "(set_config i ?x (st_manager s))\<lparr>cm_total_config_writes := cm_total_config_writes (st_manager s) + 1\<rparr>"
    have "cfg_inv n (s\<lparr>st_manager := ?m\<rparr>)"
      "cfg_abs (s\<lparr>st_manager := ?m\<rparr>) = (cfg_abs s)\<lparr>cs_configs := (cs_configs (cfg_abs s))(c \<mapsto> queues ?x)\<rparr>"
      using set_config_sim [OF assms(1,2), of ?x ?m] config_id_found [OF assms(2)] by (simp_all add: set_config_def)
    ultimately show ?thesis
      using q assms(2,3) Some queue_found(1) [OF Some] by (auto simp: config_delete_key_def on_state_def set_config_def Let_def)
  qed
qed

lemma touch_cfg_sim:
  assumes "cfg_inv (Suc n) s" and "find_config c (st_manager s) = Some i" and "cfg_step s x = (s', r)"
    and "x \<in> {EnableReload c z, DisableReload c, Reload c, Validate c}"
  shows "cfg_inv n s' \<and> cfg_spec (cfg_abs s) x = (cfg_abs s', r)"
proof -
  let ?c = "cm_configs (st_manager s) ! i"
  have q: "cs_configs (cfg_abs s) c = Some (queues ?c)" using cfg_lookup [OF assms(1)] assms(2) by simp
  have keep: "queues y = queues ?c \<Longrightarrow> cf_config_id y = c \<Longrightarrow> cfg_abs (s\<lparr>st_manager := set_config i y (st_manager s)\<rparr>) = cfg_abs s"
    "cf_config_id y = c \<Longrightarrow> cfg_inv n (s\<lparr>st_manager := set_config i y (st_manager s)\<rparr>)" for y
    using set_config_sim [OF assms(1,2), of y "set_config i y (st_manager s)"] q
    by (auto simp: set_config_def map_upd_triv)
  have "(if list_ex (\<lambda>k. ck_key_name k = '''') (cf_keys ?c) then -1 else 0) =
      (if cq_values (queues ?c) '''' = [] then 0 else -1 :: int)"
    by (auto simp: queues_def list_ex_iff filter_empty_conv)
  with assms(2-4) q keep config_id_found [OF assms(2)] cfg_inv_mono [OF assms(1)] show ?thesis
    by (auto simp: config_enable_auto_reload_def config_disable_auto_reload_def config_reload_def config_validate_keys_def
        on_config_def on_state_def present_def queues_def)
qed

lemma queues_names_values:
  assumes "map (\<lambda>y. (ck_key_name y, ck_value_data y)) (cf_keys x) = map (\<lambda>y. (ck_key_name y, ck_value_data y)) (cf_keys c)"
  shows "queues x = queues c"
proof -
  have pairs: "map ck_value_data (filter (\<lambda>y. ck_key_name y = k) ys) =
      map snd (filter (\<lambda>p. fst p = k) (map (\<lambda>y. (ck_key_name y, ck_value_data y)) ys))" for k ys
    by (simp add: filter_map comp_def)
  have len: "length (cf_keys x) = length (cf_keys c)" using arg_cong [OF assms, of length] by simp
  show ?thesis unfolding queues_def pairs assms len ..
qed

lemma encrypt_sim:
  assumes "cfg_inv (Suc n) s" and "cfg_step s (Encrypt c k) = (s', r)"
  shows "cfg_inv n s' \<and> cfg_spec (cfg_abs s) (Encrypt c k) = (cfg_abs s', r)"
proof -
  let ?m = "st_manager s" and ?P = "\<lambda>x. cf_config_id x = c \<and> find_config_key k x \<noteq> None"
  have dist: "distinct (map cf_config_id (cm_configs ?m))" using assms(1) by (simp add: cfg_inv_def ids_below_def)
  show ?thesis
  proof (cases "first_idx ?P (cm_configs ?m)")
    case None
    then have "cs_configs (cfg_abs s) c = Some q \<Longrightarrow> cq_values q k = []" for q
      using cfg_lookup [OF assms(1), of c] id_idxD [of cf_config_id c "cm_configs ?m"]
      by (auto simp: first_idx_None find_config_def queue_empty)
    with None assms(2) cfg_inv_mono [OF assms(1)] show ?thesis
      by (auto simp: config_key_encrypt_def on_state_def split: option.splits if_splits)
  next
    case (Some i)
    let ?c = "cm_configs ?m ! i"
    have i: "i < length (cm_configs ?m)" "cf_config_id ?c = c" "find_config_key k ?c \<noteq> None" "?c \<in> set (cm_configs ?m)"
      using first_idx_SomeD [OF Some] by auto
    have "c \<noteq> 0" using i(2,4) assms(1) by (auto simp: cfg_inv_def ids_below_def list_all_iff)
    moreover have "first_idx (\<lambda>x. cf_config_id x = c) (cm_configs ?m) = Some i"
      unfolding first_idx_Some using i dist by (auto simp: distinct_conv_nth)
    ultimately have found: "find_config c ?m = Some i" by (simp add: find_config_def id_idx_def)
    obtain j where j: "find_config_key k ?c = Some j" using i(3) by blast
    let ?x = "?c\<lparr>cf_keys := (cf_keys ?c)[j := (cf_keys ?c ! j)\<lparr>ck_is_encrypted := True\<rparr>]\<rparr>"
    have "map (\<lambda>y. (ck_key_name y, ck_value_data y)) (cf_keys ?x) = map (\<lambda>y. (ck_key_name y, ck_value_data y)) (cf_keys ?c)"
      using first_idx_SomeD(1) [OF j [unfolded find_config_key_def]] by (simp add: map_update list_update_same_conv)
    then have "queues ?x = queues ?c" by (rule queues_names_values)
    with assms(2) Some \<open>c \<noteq> 0\<close> j i(2) set_config_sim [OF assms(1) found, of ?x "set_config i ?x ?m"]
      cfg_lookup [OF assms(1), of c] found queue_empty [of ?c k] show ?thesis
      by (auto simp: config_key_encrypt_def on_state_def set_config_def map_upd_triv Let_def)
  qed
qed

lemma cfg_simulation:
  assumes "cfg_inv (Suc n) s" and "True" and "cfg_step s x = (s', r)"
  shows "cfg_inv n s' \<and> cfg_spec (cfg_abs s) x = (cfg_abs s', r)"
proof -
  have one: "cfg_inv n s' \<and> cfg_spec (cfg_abs s) x = (cfg_abs s', r)"
    if x: "x \<in> {Set c k t v src, Get c k z, Delete c k, EnableReload c z, DisableReload c, Reload c, Validate c}" for c k t v src z
  proof (cases "find_config c (st_manager s)")
    case None
    from missing_cfg_sim [OF assms(1) None assms(3) x] show ?thesis .
  next
    case (Some i)
    from x consider "x = Set c k t v src" | "x = Get c k z" | "x = Delete c k"
      | "x \<in> {EnableReload c z, DisableReload c, Reload c, Validate c}" by auto
    then show ?thesis
      using assms(3) set_key_sim [OF assms(1) Some] get_key_sim [OF assms(1) Some] delete_key_sim [OF assms(1) Some]
        touch_cfg_sim [OF assms(1) Some assms(3)]
      by cases blast+
  qed
  show ?thesis
  proof (cases x)
    case (Create nm)
    with create_cfg_sim [OF assms(1)] assms(3) show ?thesis by blast
  next
    case (Destroy c)
    with destroy_cfg_sim [OF assms(1)] assms(3) show ?thesis by blast
  next
    case (Encrypt c k)
    with encrypt_sim [OF assms(1)] assms(3) show ?thesis by blast
  qed (use one in blast)+
qed

interpretation cfg: bounded_refinement cfg_step cfg_spec cfg_abs cfg_inv "\<lambda>x. True"
  by unfold_locales (rule cfg_simulation)

section \<open>Main theorem\<close>

definition cfg_start :: cfg_state where
  "cfg_start = \<lparr>st_manager = the (config_manager_init True), st_next = 1\<rparr>"

definition cfg_empty :: cfgs_model where
  "cfg_empty = \<lparr>cs_configs = Map.empty, cs_next = 1\<rparr>"

lemma cfg_start_abs: "cfg_abs cfg_start = cfg_empty" "n < 4294967295 \<Longrightarrow> cfg_inv n cfg_start"
  by (simp_all add: cfg_abs_def cfg_start_def cfg_empty_def config_manager_init_def cfg_map_def cfg_inv_def ids_below_def)

text \<open>
  From a new manager, every history of fewer than 4294967295 calls gets the replies of an
  abstract manager that keeps a queue of values for every key of every configuration: setting a key
  appends a value (cut to 511 characters, the name to 127) while the configuration has fewer than
  128 values, getting it returns the \<^emph>\<open>oldest\<close> value, and deleting it removes the oldest value, which
  brings back the next one. So a key that is set again keeps its first value until that is deleted.
  The replies of a get include how much of the value fits the buffer and whether it is terminated.
\<close>

lemma config_refines_queues:
  assumes "length calls < 4294967295"
  shows "snd (call_run cfg_step cfg_start calls) = snd (call_run cfg_spec cfg_empty calls) \<and>
    cfg_abs (fst (call_run cfg_step cfg_start calls)) = fst (call_run cfg_spec cfg_empty calls)"
  using cfg.bounded_results [of 0 calls cfg_start] assms cfg_start_abs by (simp add: list_all_iff)

lemma config_refines_queues_witness:
  "snd (call_run cfg_step cfg_start
     [Create ''net'', Set 1 ''mtu'' CONFIG_TYPE_INTEGER ''1500'' CONFIG_SOURCE_FILE,
      Set 1 ''mtu'' CONFIG_TYPE_INTEGER ''9000'' CONFIG_SOURCE_RUNTIME, Get 1 ''mtu'' 16, Delete 1 ''mtu'', Get 1 ''mtu'' 5]) =
   [Identifier 1, Code 0, Code 0, Text 0 (Some (''1500'', True)), Code 0, Text 0 (Some (''9000'', False))]"
proof -
  let ?calls = "[Create ''net'', Set 1 ''mtu'' CONFIG_TYPE_INTEGER ''1500'' CONFIG_SOURCE_FILE,
      Set 1 ''mtu'' CONFIG_TYPE_INTEGER ''9000'' CONFIG_SOURCE_RUNTIME, Get 1 ''mtu'' 16, Delete 1 ''mtu'', Get 1 ''mtu'' 5]"
  have "snd (call_run cfg_spec cfg_empty ?calls) =
      [Identifier 1, Code 0, Code 0, Text 0 (Some (''1500'', True)), Code 0, Text 0 (Some (''9000'', False))]"
    by (simp add: cfg_empty_def copy_out_def Let_def)
  then show ?thesis using config_refines_queues [of ?calls] by simp
qed

end
