(* ===== verification/Page_Cache.thy ===== *)
theory Page_Cache
  imports Service_Tables "HOL-Library.Multiset"
begin

text \<open>
  The page cache of \<open>src/io-filesystem/page_cache_manager.c\<close>: four zones of pages; a page is free when
  its \<open>page_data\<close> is null. The static counter that numbers pages is an argument and a result of the
  operations that use it; whether \<open>malloc\<close> succeeds is an argument. The ratios that are set to zero
  and never changed are left out, and the hit ratio of the metrics is kept as its two operands. The
  pages of a zone are the list of its \<open>page_count\<close> slots; a pointer to a page is the pair of its zone
  and its index. A page written from less than 4096 bytes reads past the end of its source.

  The second half shows that the accounting of every zone is exact and that a write never takes a
  slot that is in use.
\<close>

section \<open>Constants and data\<close>

definition PAGE_CACHE_SIZE :: u32 where "PAGE_CACHE_SIZE = 4096"

datatype CachePageState = CACHE_CLEAN | CACHE_DIRTY | CACHE_WRITEBACK | CACHE_LOCKED

datatype EvictionPolicy = EVICT_LRU | EVICT_LFU | EVICT_FIFO | EVICT_CLOCK | EVICT_ARC

record CachePage =
  pg_cache_page_id :: u32
  pg_disk_offset :: u64
  pg_page_data :: "u8 list option"
  pg_state :: CachePageState
  pg_access_count :: u32
  pg_last_access_time :: u64
  pg_creation_time :: u64
  pg_is_pinned :: bool
  pg_is_dirty :: bool
  pg_dirty_count :: u32

record CacheZone =
  zn_zone_id :: u32
  zn_pages :: "CachePage list"
  zn_total_size :: u64
  zn_used_size :: u64

record PageCacheManager =
  pm_cache_manager_id :: u32
  pm_policy :: EvictionPolicy
  pm_zones :: "CacheZone list"
  pm_total_cache_pages :: u32
  pm_total_cache_size :: u64
  pm_cache_hits :: u64
  pm_cache_misses :: u64
  pm_pages_evicted :: u64
  pm_pages_writeback :: u64
  pm_dirty_page_count :: u32

record CacheMetrics =
  px_manager_id :: u32
  px_total_cache_size :: u64
  px_used_cache_size :: u64
  px_hit_ratio :: "(u64 \<times> u64) option"
  px_total_hits :: u64
  px_total_misses :: u64
  px_dirty_pages :: u32

type_synonym pcache = "PageCacheManager option"

definition zero_page :: CachePage where
  "zero_page = \<lparr>pg_cache_page_id = 0, pg_disk_offset = 0, pg_page_data = None, pg_state = CACHE_CLEAN,
     pg_access_count = 0, pg_last_access_time = 0, pg_creation_time = 0, pg_is_pinned = False,
     pg_is_dirty = False, pg_dirty_count = 0\<rparr>"

section \<open>Initialisation\<close>

text \<open>The size of a zone is computed with 32 bits.\<close>

definition new_zone :: "u32 \<Rightarrow> nat \<Rightarrow> CacheZone" where
  "new_zone page_count i = \<lparr>zn_zone_id = of_nat i, zn_pages = replicate (unat page_count) zero_page,
     zn_total_size = ucast (page_count * PAGE_CACHE_SIZE), zn_used_size = 0\<rparr>"

definition cache_manager_init :: "u64 \<Rightarrow> EvictionPolicy \<Rightarrow> bool \<Rightarrow> (nat \<Rightarrow> bool) \<Rightarrow> pcache" where
  "cache_manager_init cache_size policy malloc_ok zone_ok =
     (if \<not> malloc_ok \<or> \<not> list_all zone_ok [0..<4] then None
      else let pages = ucast (cache_size div ucast PAGE_CACHE_SIZE)
           in Some \<lparr>pm_cache_manager_id = 1, pm_policy = policy, pm_zones = map (new_zone (pages div 4)) [0..<4],
                pm_total_cache_pages = pages, pm_total_cache_size = cache_size, pm_cache_hits = 0,
                pm_cache_misses = 0, pm_pages_evicted = 0, pm_pages_writeback = 0, pm_dirty_page_count = 0\<rparr>)"

definition cache_manager_destroy :: "pcache \<Rightarrow> pcache \<times> int" where
  "cache_manager_destroy h = (None, case h of None \<Rightarrow> -1 | Some m \<Rightarrow> 0)"

section \<open>Reading and writing\<close>

text \<open>The first page, zone by zone, that satisfies a condition.\<close>

fun find_page :: "(CachePage \<Rightarrow> bool) \<Rightarrow> CacheZone list \<Rightarrow> (nat \<times> nat) option" where
  "find_page P [] = None"
| "find_page P (z # zs) =
     (case first_idx P (zn_pages z) of Some j \<Rightarrow> Some (0, j)
      | None \<Rightarrow> map_option (\<lambda>(i, j). (Suc i, j)) (find_page P zs))"

definition page_at :: "CacheZone list \<Rightarrow> nat \<times> nat \<Rightarrow> CachePage" where
  "page_at zs = (\<lambda>(i, j). zn_pages (zs ! i) ! j)"

definition set_page :: "nat \<times> nat \<Rightarrow> CachePage \<Rightarrow> CacheZone list \<Rightarrow> CacheZone list" where
  "set_page = (\<lambda>(i, j) p zs. zs[i := (zs ! i)\<lparr>zn_pages := (zn_pages (zs ! i))[j := p]\<rparr>])"

definition cache_read_page :: "pcache \<Rightarrow> u64 \<Rightarrow> pcache \<times> (nat \<times> nat) option" where
  "cache_read_page h disk_offset = with_handle None h (\<lambda>m.
     case find_page (\<lambda>p. pg_disk_offset p = disk_offset \<and> pg_page_data p \<noteq> None) (pm_zones m) of
       None \<Rightarrow> (m\<lparr>pm_cache_misses := pm_cache_misses m + 1\<rparr>, None)
     | Some ij \<Rightarrow>
         let p = page_at (pm_zones m) ij in
         (m\<lparr>pm_zones := set_page ij (p\<lparr>pg_access_count := pg_access_count p + 1, pg_last_access_time := 0\<rparr>) (pm_zones m),
            pm_cache_hits := pm_cache_hits m + 1\<rparr>, Some ij))"

text \<open>The zone with the least use among those with room, from index \<open>i\<close> on.\<close>

fun best_zone :: "CacheZone list \<Rightarrow> nat \<Rightarrow> (nat \<times> u64) option \<Rightarrow> nat option" where
  "best_zone [] i best = map_option fst best"
| "best_zone (z # zs) i best =
     best_zone zs (Suc i)
       (if zn_used_size z < zn_total_size z \<and> (case best of None \<Rightarrow> True | Some (_, u) \<Rightarrow> zn_used_size z < u)
        then Some (i, zn_used_size z) else best)"

definition free_idx :: "CacheZone \<Rightarrow> nat" where
  "free_idx z = (case first_idx (\<lambda>p. pg_page_data p = None) (zn_pages z) of None \<Rightarrow> 0 | Some j \<Rightarrow> j)"

definition cache_write_page ::
    "pcache \<Rightarrow> u32 \<Rightarrow> u64 \<Rightarrow> u8 list option \<Rightarrow> bool \<Rightarrow> ((pcache \<times> u32) \<times> int) outcome" where
  "cache_write_page h next_id disk_offset data malloc_ok =
     (case (h, data) of
        (Some m, Some d) \<Rightarrow>
          (case best_zone (pm_zones m) 0 None of None \<Rightarrow> Done ((h, next_id), -1)
           | Some i \<Rightarrow>
               let z = pm_zones m ! i; j = free_idx z;
                   p = (zn_pages z ! j)\<lparr>pg_cache_page_id := next_id, pg_disk_offset := disk_offset\<rparr>
               in if \<not> malloc_ok
                  then Done ((Some (m\<lparr>pm_zones := set_page (i, j) (p\<lparr>pg_page_data := None\<rparr>) (pm_zones m)\<rparr>), next_id + 1), -1)
                  else if length d < 4096 then Undef
                  else
                    let zs = set_page (i, j) (p\<lparr>pg_page_data := Some (take 4096 d), pg_state := CACHE_DIRTY,
                               pg_access_count := 0, pg_last_access_time := 0, pg_creation_time := 0,
                               pg_is_pinned := False, pg_is_dirty := True, pg_dirty_count := 1\<rparr>) (pm_zones m)
                    in Done ((Some (m\<lparr>pm_zones := zs[i := (zs ! i)\<lparr>zn_used_size := zn_used_size z + ucast PAGE_CACHE_SIZE\<rparr>],
                               pm_dirty_page_count := pm_dirty_page_count m + 1\<rparr>), next_id + 1), 0))
      | _ \<Rightarrow> Done ((h, next_id), -1))"

section \<open>Eviction and write-back\<close>

definition cache_evict_page :: "pcache \<Rightarrow> u32 \<Rightarrow> pcache \<times> int" where
  "cache_evict_page h page_id = with_handle (-1) h (\<lambda>m.
     case find_page (\<lambda>p. pg_cache_page_id p = page_id \<and> pg_page_data p \<noteq> None) (pm_zones m) of None \<Rightarrow> (m, -1)
     | Some (i, j) \<Rightarrow>
         let p = page_at (pm_zones m) (i, j) in
         if pg_is_pinned p then (m, -1)
         else
           let zs = set_page (i, j) zero_page (pm_zones m)
           in (m\<lparr>pm_zones := zs[i := (zs ! i)\<lparr>zn_used_size := zn_used_size (zs ! i) - ucast PAGE_CACHE_SIZE\<rparr>],
                 pm_pages_evicted := pm_pages_evicted m + 1,
                 pm_dirty_page_count := (if pg_is_dirty p then pm_dirty_page_count m - 1 else pm_dirty_page_count m)\<rparr>, 0))"

text \<open>The searches for a victim: the first page whose key is least among the candidates.\<close>

fun victim_loop :: "(CachePage \<Rightarrow> 'k::linorder) \<Rightarrow> CachePage list \<Rightarrow> 'k \<Rightarrow> u32 \<Rightarrow> u32" where
  "victim_loop key [] least victim = victim"
| "victim_loop key (p # ps) least victim =
     (if pg_page_data p \<noteq> None \<and> \<not> pg_is_pinned p \<and> key p < least
      then victim_loop key ps (key p) (pg_cache_page_id p) else victim_loop key ps least victim)"

definition all_pages :: "PageCacheManager \<Rightarrow> CachePage list" where
  "all_pages m = concat (map zn_pages (pm_zones m))"

definition cache_evict_lru_page :: "pcache \<Rightarrow> pcache \<times> int" where
  "cache_evict_lru_page h = with_handle (-1) h (\<lambda>m.
     let victim = victim_loop pg_last_access_time (all_pages m) 18446744073709551615 0 in
     if victim > 0 then (let (h', r) = cache_evict_page (Some m) victim in (the h', r)) else (m, -1))"

definition cache_evict_lfu_page :: "pcache \<Rightarrow> pcache \<times> int" where
  "cache_evict_lfu_page h = with_handle (-1) h (\<lambda>m.
     let victim = victim_loop pg_access_count (all_pages m) 4294967295 0 in
     if victim > 0 then (let (h', r) = cache_evict_page (Some m) victim in (the h', r)) else (m, -1))"

definition cache_writeback_dirty_pages :: "pcache \<Rightarrow> pcache \<times> int" where
  "cache_writeback_dirty_pages h = with_handle (-1) h (\<lambda>m.
     let dirty = (\<lambda>p. pg_is_dirty p \<and> pg_page_data p \<noteq> None);
         n = length (filter dirty (all_pages m))
     in (m\<lparr>pm_zones := map (\<lambda>z. z\<lparr>zn_pages := map (\<lambda>p. if dirty p then p\<lparr>pg_state := CACHE_WRITEBACK\<rparr> else p) (zn_pages z)\<rparr>) (pm_zones m),
           pm_pages_writeback := pm_pages_writeback m + of_nat n\<rparr>, sint (of_nat n :: u32)))"

definition cache_flush_zone :: "pcache \<Rightarrow> u32 \<Rightarrow> pcache \<times> int" where
  "cache_flush_zone h zone_id = with_handle (-1) h (\<lambda>m.
     if unat zone_id \<ge> length (pm_zones m) then (m, -1)
     else let z = pm_zones m ! unat zone_id;
              n = length (filter (\<lambda>p. pg_page_data p \<noteq> None) (zn_pages z))
          in (m\<lparr>pm_zones := (pm_zones m)[unat zone_id :=
                z\<lparr>zn_pages := map (\<lambda>p. if pg_page_data p \<noteq> None then zero_page else p) (zn_pages z),
                  zn_used_size := zn_used_size z - of_nat n * ucast PAGE_CACHE_SIZE\<rparr>]\<rparr>, 0))"

definition set_pinned :: "bool \<Rightarrow> pcache \<Rightarrow> u32 \<Rightarrow> pcache \<times> int" where
  "set_pinned b h page_id = with_handle (-1) h (\<lambda>m.
     case find_page (\<lambda>p. pg_cache_page_id p = page_id) (pm_zones m) of None \<Rightarrow> (m, -1)
     | Some ij \<Rightarrow> (m\<lparr>pm_zones := set_page ij ((page_at (pm_zones m) ij)\<lparr>pg_is_pinned := b\<rparr>) (pm_zones m)\<rparr>, 0))"

definition cache_lock_page :: "pcache \<Rightarrow> u32 \<Rightarrow> pcache \<times> int" where
  "cache_lock_page h page_id = set_pinned True h page_id"

definition cache_unlock_page :: "pcache \<Rightarrow> u32 \<Rightarrow> pcache \<times> int" where
  "cache_unlock_page h page_id = set_pinned False h page_id"

text \<open>Prefetching writes pages of zeros; the offset of page \<open>i\<close> is computed with 32 bits. The
  arguments say which of the allocations succeed.\<close>

fun prefetch_loop :: "pcache \<Rightarrow> u32 \<Rightarrow> u64 \<Rightarrow> nat \<Rightarrow> bool list \<Rightarrow> pcache \<times> u32" where
  "prefetch_loop h next_id start i [] = (h, next_id)"
| "prefetch_loop h next_id start i (ok # oks) =
     (case cache_write_page h next_id (start + ucast (of_nat i * PAGE_CACHE_SIZE)) (Some (replicate 4096 0)) ok of
        Undef \<Rightarrow> (h, next_id)
      | Done ((h', n'), r) \<Rightarrow> prefetch_loop h' n' start (Suc i) oks)"

definition cache_prefetch_pages :: "pcache \<Rightarrow> u32 \<Rightarrow> u64 \<Rightarrow> u32 \<Rightarrow> (nat \<Rightarrow> bool) \<Rightarrow> (pcache \<times> u32) \<times> int" where
  "cache_prefetch_pages h next_id start npages malloc_ok =
     (if h = None \<or> npages = 0 then ((h, next_id), -1)
      else (prefetch_loop h next_id start 0 (map malloc_ok [0..<unat npages]), sint npages))"

definition cache_get_metrics :: "pcache \<Rightarrow> bool \<Rightarrow> int \<times> CacheMetrics option" where
  "cache_get_metrics h metrics = read_handle (-1, None) h (\<lambda>m.
     if \<not> metrics then (-1, None)
     else let total_accesses = pm_cache_hits m + pm_cache_misses m
          in (0, Some \<lparr>px_manager_id = pm_cache_manager_id m, px_total_cache_size = pm_total_cache_size m,
               px_used_cache_size = sum_list (map zn_used_size (pm_zones m)),
               px_hit_ratio = (if total_accesses > 0 then Some (pm_cache_hits m, total_accesses) else None),
               px_total_hits = pm_cache_hits m, px_total_misses = pm_cache_misses m,
               px_dirty_pages = pm_dirty_page_count m\<rparr>))"

section \<open>What the cache holds\<close>

definition entry :: "CachePage \<Rightarrow> (u64 \<times> u8 list) multiset" where
  "entry p = (case pg_page_data p of None \<Rightarrow> {#} | Some d \<Rightarrow> {#(pg_disk_offset p, d)#})"

definition zone_held :: "CacheZone \<Rightarrow> (u64 \<times> u8 list) multiset" where
  "zone_held z = sum_list (map entry (zn_pages z))"

definition cached :: "PageCacheManager \<Rightarrow> (u64 \<times> u8 list) multiset" where
  "cached m = sum_list (map zone_held (pm_zones m))"

definition capacity :: "PageCacheManager \<Rightarrow> nat" where
  "capacity m = sum_list (map (\<lambda>z. length (zn_pages z)) (pm_zones m))"

text \<open>The accounting of a zone: its use is the size of the pages it holds, its size that of its slots.\<close>

definition zone_exact :: "CacheZone \<Rightarrow> bool" where
  "zone_exact z \<longleftrightarrow> length (zn_pages z) < 1048576 \<and> unat (zn_used_size z) = 4096 * size (zone_held z)
     \<and> unat (zn_total_size z) = 4096 * length (zn_pages z)"

definition cache_exact :: "PageCacheManager \<Rightarrow> bool" where
  "cache_exact m \<longleftrightarrow> length (pm_zones m) = 4 \<and> list_all zone_exact (pm_zones m)"

lemma sum_list_exchange:
  fixes xs :: "'a::comm_monoid_add list"
  assumes "i < length xs"
  shows "sum_list (xs[i := x]) + xs ! i = sum_list xs + x"
  using assms
proof (induction xs arbitrary: i)
  case (Cons y ys)
  then show ?case by (cases i) (auto simp: ac_simps)
qed simp

lemma entry_simps [simp]:
  "entry zero_page = {#}" "pg_page_data p = None \<Longrightarrow> entry p = {#}"
  "pg_page_data p = Some d \<Longrightarrow> entry p = {#(pg_disk_offset p, d)#}"
  by (simp_all add: entry_def zero_page_def)

lemma size_entry: "size (entry p) \<le> 1" "size (entry p) = 1 \<longleftrightarrow> pg_page_data p \<noteq> None"
  by (auto simp: entry_def split: option.split)

lemma size_zone_held: "size (zone_held z) \<le> length (zn_pages z)"
  and zone_held_full: "size (zone_held z) = length (zn_pages z) \<longleftrightarrow> (\<forall>p\<in>set (zn_pages z). pg_page_data p \<noteq> None)"
proof -
  have le: "size (sum_list (map entry ps)) \<le> length ps" for ps
  proof (induction ps)
    case (Cons p ps)
    then show ?case using size_entry(1) [of p] by simp
  qed simp
  have "size (sum_list (map entry ps)) = length ps \<longleftrightarrow> (\<forall>p\<in>set ps. pg_page_data p \<noteq> None)" for ps
  proof (induction ps)
    case (Cons p ps)
    then show ?case using size_entry [of p] le [of ps] by auto
  qed simp
  with le show "size (zone_held z) \<le> length (zn_pages z)"
    "size (zone_held z) = length (zn_pages z) \<longleftrightarrow> (\<forall>p\<in>set (zn_pages z). pg_page_data p \<noteq> None)"
    by (auto simp: zone_held_def)
qed

lemma zone_held_set_page:
  "j < length (zn_pages z) \<Longrightarrow>
     zone_held (z\<lparr>zn_pages := (zn_pages z)[j := p]\<rparr>) + entry (zn_pages z ! j) = zone_held z + entry p"
  using sum_list_exchange [of j "map entry (zn_pages z)" "entry p"] by (simp add: zone_held_def map_update)

lemma zone_held_update_used [simp]: "zone_held (z\<lparr>zn_used_size := u\<rparr>) = zone_held z"
  by (simp add: zone_held_def)

lemma cached_set_zone:
  "i < length (pm_zones m) \<Longrightarrow>
     cached (m\<lparr>pm_zones := (pm_zones m)[i := z]\<rparr>) + zone_held (pm_zones m ! i) = cached m + zone_held z"
  using sum_list_exchange [of i "map zone_held (pm_zones m)" "zone_held z"] by (simp add: cached_def map_update)

lemma capacity_set_zone:
  assumes "i < length (pm_zones m)" and "length (zn_pages z) = length (zn_pages (pm_zones m ! i))"
  shows "capacity (m\<lparr>pm_zones := (pm_zones m)[i := z]\<rparr>) = capacity m"
  using sum_list_exchange [of i "map (\<lambda>z. length (zn_pages z)) (pm_zones m)" "length (zn_pages z)"] assms
  by (simp add: capacity_def map_update)

lemma cache_exact_set_zone:
  "\<lbrakk>cache_exact m; zone_exact z\<rbrakk> \<Longrightarrow> cache_exact (m\<lparr>pm_zones := (pm_zones m)[i := z]\<rparr>)"
  by (auto simp: cache_exact_def list_all_iff dest: set_update_subset_insert [THEN subsetD])

lemma cache_exact_nth: "\<lbrakk>cache_exact m; i < length (pm_zones m)\<rbrakk> \<Longrightarrow> zone_exact (pm_zones m ! i)"
  by (simp add: cache_exact_def list_all_length)

section \<open>The searches\<close>

lemma find_page_SomeD:
  "find_page P zs = Some (i, j) \<Longrightarrow> i < length zs \<and> j < length (zn_pages (zs ! i)) \<and> P (zn_pages (zs ! i) ! j)"
proof (induction zs arbitrary: i)
  case (Cons z zs)
  show ?case
  proof (cases "first_idx P (zn_pages z)")
    case None
    with Cons show ?thesis by auto
  next
    case (Some k)
    with Cons.prems show ?thesis by (auto dest: first_idx_SomeD)
  qed
qed simp

lemma find_page_None: "find_page P zs = None \<longleftrightarrow> (\<forall>z\<in>set zs. \<forall>p\<in>set (zn_pages z). \<not> P p)"
  by (induction zs) (auto simp: first_idx_None split: option.split dest: first_idx_SomeD)

lemma best_zone_room:
  assumes "best_zone zs k b = Some i" and "\<And>n u. b = Some (n, u) \<Longrightarrow> n < k"
  shows "(\<exists>u. b = Some (i, u)) \<or> (k \<le> i \<and> i < k + length zs \<and> zn_used_size (zs ! (i - k)) < zn_total_size (zs ! (i - k)))"
  using assms
proof (induction zs arbitrary: k b)
  case (Cons z zs)
  from Cons.IH [OF Cons.prems(1) [unfolded best_zone.simps]] Cons.prems(2)
  show ?case by (fastforce split: if_splits option.splits simp: nth_Cons' less_Suc_eq)
qed auto

lemma best_zone_None:
  "best_zone zs k b = None \<longleftrightarrow> b = None \<and> (\<forall>z\<in>set zs. \<not> zn_used_size z < zn_total_size z)"
  by (induction zs k b rule: best_zone.induct) (auto split: option.splits)

lemma zone_room: "zone_exact z \<Longrightarrow> zn_used_size z < zn_total_size z \<longleftrightarrow> size (zone_held z) < length (zn_pages z)"
  by (simp add: zone_exact_def word_less_nat_alt)

lemma free_idx_free:
  assumes "size (zone_held z) < length (zn_pages z)"
  shows "free_idx z < length (zn_pages z)" and "pg_page_data (zn_pages z ! free_idx z) = None"
proof -
  from assms zone_held_full [of z] have "first_idx (\<lambda>p. pg_page_data p = None) (zn_pages z) \<noteq> None"
    by (auto simp: first_idx_None)
  then obtain j where "first_idx (\<lambda>p. pg_page_data p = None) (zn_pages z) = Some j" by blast
  then show "free_idx z < length (zn_pages z)" "pg_page_data (zn_pages z ! free_idx z) = None"
    by (auto simp: free_idx_def dest: first_idx_SomeD)
qed

section \<open>The operations on the contents\<close>

text \<open>Replacing one page of an exact cache, with the use of its zone set to match.\<close>

definition put_page :: "nat \<times> nat \<Rightarrow> CachePage \<Rightarrow> u64 \<Rightarrow> CacheZone list \<Rightarrow> CacheZone list" where
  "put_page = (\<lambda>(i, j) p u zs. zs[i := (zs ! i)\<lparr>zn_pages := (zn_pages (zs ! i))[j := p], zn_used_size := u\<rparr>])"

lemma set_page_put: "set_page (i, j) p zs = put_page (i, j) p (zn_used_size (zs ! i)) zs"
  by (simp add: set_page_def put_page_def)

lemma set_page_used:
  "i < length zs \<Longrightarrow>
     (set_page (i, j) p zs)[i := (set_page (i, j) p zs ! i)\<lparr>zn_used_size := u\<rparr>] = put_page (i, j) p u zs"
  by (simp add: set_page_def put_page_def)

lemma put_page_exact:
  assumes "cache_exact m" and i: "i < length (pm_zones m)" and j: "j < length (zn_pages (pm_zones m ! i))"
    and u: "unat u + 4096 * size (entry (page_at (pm_zones m) (i, j))) =
              unat (zn_used_size (pm_zones m ! i)) + 4096 * size (entry p)"
  defines "m' \<equiv> m\<lparr>pm_zones := put_page (i, j) p u (pm_zones m)\<rparr>"
  shows "cache_exact m'" and "capacity m' = capacity m"
    and "cached m' + entry (page_at (pm_zones m) (i, j)) = cached m + entry p"
proof -
  let ?z = "pm_zones m ! i"
  let ?z' = "?z\<lparr>zn_pages := (zn_pages ?z)[j := p], zn_used_size := u\<rparr>"
  have m': "m' = m\<lparr>pm_zones := (pm_zones m)[i := ?z']\<rparr>" by (simp add: m'_def put_page_def)
  have held: "zone_held ?z' + entry (zn_pages ?z ! j) = zone_held ?z + entry p"
    using zone_held_set_page [OF j, of p] by simp
  from arg_cong [OF held, where f = size]
  have "size (zone_held ?z') + size (entry (zn_pages ?z ! j)) = size (zone_held ?z) + size (entry p)" by simp
  with cache_exact_nth [OF assms(1) i] u have "zone_exact ?z'" by (auto simp: zone_exact_def page_at_def)
  then show "cache_exact m'" unfolding m' by (rule cache_exact_set_zone [OF assms(1)])
  show "capacity m' = capacity m" unfolding m' by (rule capacity_set_zone) (use i in auto)
  from cached_set_zone [OF i, of ?z'] have "cached m' + zone_held ?z = cached m + zone_held ?z'" by (simp only: m')
  then have "(cached m' + entry (zn_pages ?z ! j)) + zone_held ?z = cached m + (zone_held ?z' + entry (zn_pages ?z ! j))"
    by (simp add: ac_simps)
  also have "\<dots> = (cached m + entry p) + zone_held ?z" unfolding held by (simp add: ac_simps)
  finally show "cached m' + entry (page_at (pm_zones m) (i, j)) = cached m + entry p" by (simp add: page_at_def)
qed

lemma contents_update [simp]:
  "cached (m\<lparr>pm_dirty_page_count := c\<rparr>) = cached m" "capacity (m\<lparr>pm_dirty_page_count := c\<rparr>) = capacity m"
  "cached (m\<lparr>pm_cache_hits := a\<rparr>) = cached m" "capacity (m\<lparr>pm_cache_hits := a\<rparr>) = capacity m"
  "cached (m\<lparr>pm_cache_misses := a\<rparr>) = cached m" "capacity (m\<lparr>pm_cache_misses := a\<rparr>) = capacity m"
  "cached (m\<lparr>pm_pages_evicted := a\<rparr>) = cached m" "capacity (m\<lparr>pm_pages_evicted := a\<rparr>) = capacity m"
  "cached (m\<lparr>pm_pages_writeback := a\<rparr>) = cached m" "capacity (m\<lparr>pm_pages_writeback := a\<rparr>) = capacity m"
  "cache_exact (m\<lparr>pm_dirty_page_count := c\<rparr>) = cache_exact m" "cache_exact (m\<lparr>pm_cache_hits := a\<rparr>) = cache_exact m"
  "cache_exact (m\<lparr>pm_cache_misses := a\<rparr>) = cache_exact m" "cache_exact (m\<lparr>pm_pages_evicted := a\<rparr>) = cache_exact m"
  "cache_exact (m\<lparr>pm_pages_writeback := a\<rparr>) = cache_exact m"
  by (simp_all add: cached_def capacity_def cache_exact_def)

lemma set_page_exact:
  assumes "cache_exact m" and "i < length (pm_zones m)" and "j < length (zn_pages (pm_zones m ! i))"
    and e: "entry p = entry (page_at (pm_zones m) (i, j))"
  defines "m' \<equiv> m\<lparr>pm_zones := set_page (i, j) p (pm_zones m)\<rparr>"
  shows "cache_exact m'" and "capacity m' = capacity m" and "cached m' = cached m"
  using put_page_exact [OF assms(1-3), of "zn_used_size (pm_zones m ! i)" p] e
  by (simp_all add: m'_def set_page_put)

lemma best_zone_full:
  assumes "cache_exact m"
  shows "best_zone (pm_zones m) 0 None = None \<longleftrightarrow> size (cached m) = capacity m"
proof -
  have "(\<forall>z\<in>set zs. \<not> zn_used_size z < zn_total_size z) \<longleftrightarrow>
          size (sum_list (map zone_held zs)) = sum_list (map (\<lambda>z. length (zn_pages z)) zs)
        \<and> size (sum_list (map zone_held zs)) \<le> sum_list (map (\<lambda>z. length (zn_pages z)) zs)"
    if "list_all zone_exact zs" for zs
    using that
  proof (induction zs)
    case (Cons z zs)
    then have ex: "zone_exact z" by simp
    have "size (sum_list (map zone_held zs)) \<le> sum_list (map (\<lambda>z. length (zn_pages z)) zs)" for zs
    proof (induction zs)
      case (Cons z zs)
      then show ?case using size_zone_held [of z] by simp
    qed simp
    from Cons this [of zs] size_zone_held [of z] show ?case by (auto simp: zone_room [OF ex])
  qed simp
  with assms show ?thesis by (auto simp: best_zone_None cache_exact_def cached_def capacity_def)
qed

lemma cache_write_full:
  assumes "cache_exact m" and "size (cached m) = capacity m"
  shows "cache_write_page (Some m) n off data ok = Done ((Some m, n), -1)"
  using assms best_zone_full [OF assms(1)] by (simp add: cache_write_page_def split: option.split)

lemma cache_write_fits:
  assumes "cache_exact m" and "size (cached m) \<noteq> capacity m" and d: "4096 \<le> length d"
  shows "\<exists>m'. cache_write_page (Some m) n off (Some d) ok = Done ((Some m', n + 1), if ok then 0 else -1)
    \<and> cache_exact m' \<and> capacity m' = capacity m
    \<and> cached m' = cached m + (if ok then {#(off, take 4096 d)#} else {#})"
proof -
  from assms(2) best_zone_full [OF assms(1)] obtain i where best: "best_zone (pm_zones m) 0 None = Some i" by fastforce
  from best_zone_room [OF best] have i: "i < length (pm_zones m)"
    and room: "zn_used_size (pm_zones m ! i) < zn_total_size (pm_zones m ! i)" by auto
  let ?z = "pm_zones m ! i" and ?j = "free_idx (pm_zones m ! i)"
  have ex: "zone_exact ?z" by (rule cache_exact_nth [OF assms(1) i])
  note free = free_idx_free [OF room [unfolded zone_room [OF ex]]]
  have old: "entry (page_at (pm_zones m) (i, ?j)) = {#}" using free(2) by (simp add: page_at_def)
  have u: "unat (zn_used_size ?z + 4096) = unat (zn_used_size ?z) + 4096"
    using ex size_zone_held [of ?z] by (simp add: zone_exact_def unat_word_ariths)
  show ?thesis
  proof (cases ok)
    case True
    show ?thesis
      using put_page_exact [OF assms(1) i free(1), of "zn_used_size ?z + 4096"
          "(zn_pages ?z ! ?j)\<lparr>pg_cache_page_id := n, pg_disk_offset := off, pg_page_data := Some (take 4096 d),
             pg_state := CACHE_DIRTY, pg_access_count := 0, pg_last_access_time := 0, pg_creation_time := 0,
             pg_is_pinned := False, pg_is_dirty := True, pg_dirty_count := 1\<rparr>"] True d old u
      by (simp add: cache_write_page_def best Let_def PAGE_CACHE_SIZE_def set_page_used [OF i])
  next
    case False
    show ?thesis
      using set_page_exact [OF assms(1) i free(1), of
          "(zn_pages ?z ! ?j)\<lparr>pg_cache_page_id := n, pg_disk_offset := off, pg_page_data := None\<rparr>"] False old
      by (simp add: cache_write_page_def best Let_def)
  qed
qed

lemma entry_update [simp]:
  "entry (p\<lparr>pg_access_count := a\<rparr>) = entry p" "entry (p\<lparr>pg_last_access_time := b\<rparr>) = entry p"
  "entry (p\<lparr>pg_is_pinned := c\<rparr>) = entry p" "entry (p\<lparr>pg_state := s\<rparr>) = entry p"
  by (simp_all add: entry_def split: option.split)

lemma in_entry: "(k, d) \<in># entry p \<longleftrightarrow> pg_disk_offset p = k \<and> pg_page_data p = Some d"
  by (auto simp: entry_def split: option.split)

text \<open>An operation keeps the accounting and the capacity and leaves the contents \<open>c\<close>.\<close>

definition leaves :: "PageCacheManager \<Rightarrow> pcache \<Rightarrow> (u64 \<times> u8 list) multiset \<Rightarrow> bool" where
  "leaves m h c = (case h of None \<Rightarrow> False | Some m' \<Rightarrow> cache_exact m' \<and> capacity m' = capacity m \<and> cached m' = c)"

lemma cache_read_leaves:
  assumes "cache_exact m"
  shows "leaves m (fst (cache_read_page (Some m) off)) (cached m)"
proof (cases "find_page (\<lambda>p. pg_disk_offset p = off \<and> pg_page_data p \<noteq> None) (pm_zones m)")
  case None
  with assms show ?thesis by (simp add: cache_read_page_def leaves_def)
next
  case (Some ij)
  obtain i j where ij: "ij = (i, j)" by force
  note found = find_page_SomeD [OF Some [unfolded ij]]
  let ?p = "page_at (pm_zones m) (i, j)"
  show ?thesis
    using Some ij found set_page_exact [OF assms, of i j "?p\<lparr>pg_access_count := pg_access_count ?p + 1, pg_last_access_time := 0\<rparr>"]
    by (simp add: cache_read_page_def leaves_def Let_def)
qed

lemma cache_read_result:
  assumes "cache_read_page (Some m) off = (h, r)"
  shows "r = None \<longleftrightarrow> off \<notin> fst ` set_mset (cached m)"
    and "r = Some ij \<Longrightarrow> (off, the (pg_page_data (page_at (pm_zones m) ij))) \<in># cached m"
proof -
  let ?P = "\<lambda>p. pg_disk_offset p = off \<and> pg_page_data p \<noteq> None"
  have r: "r = find_page ?P (pm_zones m)"
    using arg_cong [OF assms, where f = snd] by (simp add: cache_read_page_def Let_def split: option.splits)
  have in_sum: "x \<in># sum_list ms \<longleftrightarrow> (\<exists>c\<in>set ms. x \<in># c)" for x :: "u64 \<times> u8 list" and ms
    by (induction ms) auto
  have in_cached: "(k, d) \<in># cached m \<longleftrightarrow>
      (\<exists>z\<in>set (pm_zones m). \<exists>p\<in>set (zn_pages z). pg_disk_offset p = k \<and> pg_page_data p = Some d)" for k d
    by (simp add: cached_def zone_held_def in_sum in_entry)
  show "r = None \<longleftrightarrow> off \<notin> fst ` set_mset (cached m)"
    unfolding r find_page_None image_iff using in_cached by fastforce
  assume "r = Some ij"
  with r find_page_SomeD [of ?P "pm_zones m" "fst ij" "snd ij"]
  show "(off, the (pg_page_data (page_at (pm_zones m) ij))) \<in># cached m"
    by (auto simp: in_cached page_at_def split: prod.splits) (metis nth_mem)
qed

lemma cache_evict_leaves:
  assumes "cache_exact m"
  shows "(snd (cache_evict_page (Some m) page_id) = -1 \<and> fst (cache_evict_page (Some m) page_id) = Some m)
       \<or> (snd (cache_evict_page (Some m) page_id) = 0
          \<and> (\<exists>e. e \<in># cached m \<and> leaves m (fst (cache_evict_page (Some m) page_id)) (cached m - {#e#})))"
proof (cases "find_page (\<lambda>p. pg_cache_page_id p = page_id \<and> pg_page_data p \<noteq> None) (pm_zones m)")
  case None
  then show ?thesis by (simp add: cache_evict_page_def)
next
  case (Some ij)
  obtain i j where ij: "ij = (i, j)" by force
  note found = find_page_SomeD [OF Some [unfolded ij]]
  then have i: "i < length (pm_zones m)" and j: "j < length (zn_pages (pm_zones m ! i))" by auto
  let ?p = "page_at (pm_zones m) (i, j)" and ?z = "pm_zones m ! i"
  from found obtain d where d: "pg_page_data ?p = Some d" by (auto simp: page_at_def)
  show ?thesis
  proof (cases "pg_is_pinned ?p")
    case True
    with Some ij show ?thesis by (simp add: cache_evict_page_def)
  next
    case False
    have "size (zone_held (?z\<lparr>zn_pages := (zn_pages ?z)[j := zero_page]\<rparr>)) + 1 = size (zone_held ?z)"
      using arg_cong [OF zone_held_set_page [OF j, of zero_page], where f = size] d by (simp add: page_at_def)
    with cache_exact_nth [OF assms i] have "4096 \<le> unat (zn_used_size ?z)" by (auto simp: zone_exact_def)
    then have u: "unat (zn_used_size ?z - 4096) + 4096 = unat (zn_used_size ?z)"
      by (simp add: unat_sub word_le_nat_alt)
    from put_page_exact [OF assms i j, of "zn_used_size ?z - 4096" zero_page] u d
    have put: "cache_exact (m\<lparr>pm_zones := put_page (i, j) zero_page (zn_used_size ?z - 4096) (pm_zones m)\<rparr>)"
      "capacity (m\<lparr>pm_zones := put_page (i, j) zero_page (zn_used_size ?z - 4096) (pm_zones m)\<rparr>) = capacity m"
      "add_mset (pg_disk_offset ?p, d) (cached (m\<lparr>pm_zones := put_page (i, j) zero_page (zn_used_size ?z - 4096) (pm_zones m)\<rparr>))
         = cached m" by simp_all
    have used: "zn_used_size (set_page (i, j) zero_page (pm_zones m) ! i) = zn_used_size ?z"
      using i by (simp add: set_page_def)
    from put(3) have e: "(pg_disk_offset ?p, d) \<in># cached m"
      and rest: "cached (m\<lparr>pm_zones := put_page (i, j) zero_page (zn_used_size ?z - 4096) (pm_zones m)\<rparr>)
             = cached m - {#(pg_disk_offset ?p, d)#}" by (metis union_single_eq_member, metis add_mset_remove_trivial)
    from put(1,2) rest Some ij False
    have "snd (cache_evict_page (Some m) page_id) = 0"
      "leaves m (fst (cache_evict_page (Some m) page_id)) (cached m - {#(pg_disk_offset ?p, d)#})"
      by (simp_all add: cache_evict_page_def Let_def PAGE_CACHE_SIZE_def used set_page_used [OF i] leaves_def)
    with e show ?thesis by blast
  qed
qed

lemma cache_pin_leaves:
  assumes "cache_exact m"
  shows "leaves m (fst (set_pinned b (Some m) page_id)) (cached m)"
proof (cases "find_page (\<lambda>p. pg_cache_page_id p = page_id) (pm_zones m)")
  case None
  with assms show ?thesis by (simp add: set_pinned_def leaves_def)
next
  case (Some ij)
  obtain i j where ij: "ij = (i, j)" by force
  note found = find_page_SomeD [OF Some [unfolded ij]]
  show ?thesis
    using Some ij found set_page_exact [OF assms, of i j "(page_at (pm_zones m) (i, j))\<lparr>pg_is_pinned := b\<rparr>"]
    by (simp add: set_pinned_def leaves_def)
qed

lemma cache_writeback_leaves:
  assumes "cache_exact m"
  shows "leaves m (fst (cache_writeback_dirty_pages (Some m))) (cached m)"
proof -
  define f :: "CachePage \<Rightarrow> CachePage" where "f = (\<lambda>p. if pg_is_dirty p \<and> pg_page_data p \<noteq> None then p\<lparr>pg_state := CACHE_WRITEBACK\<rparr> else p)"
  define g :: "CacheZone \<Rightarrow> CacheZone" where "g = (\<lambda>z. z\<lparr>zn_pages := map f (zn_pages z)\<rparr>)"
  have [simp]: "zone_held (g z) = zone_held z" for z
    by (simp add: zone_held_def g_def comp_def f_def if_distrib [of entry] cong: if_cong)
  have [simp]: "length (zn_pages (g z)) = length (zn_pages z)" "zone_exact (g z) = zone_exact z" for z
    by (simp_all add: zone_exact_def) (simp_all add: g_def)
  have "cache_exact (m\<lparr>pm_zones := map g (pm_zones m)\<rparr>)" "capacity (m\<lparr>pm_zones := map g (pm_zones m)\<rparr>) = capacity m"
    "cached (m\<lparr>pm_zones := map g (pm_zones m)\<rparr>) = cached m"
    using assms by (simp_all add: cache_exact_def list.pred_map comp_def capacity_def cached_def)
  then show ?thesis by (simp add: cache_writeback_dirty_pages_def Let_def leaves_def f_def g_def)
qed

lemma sum_zero_pages: "sum_list (map (\<lambda>p. entry (if pg_page_data p \<noteq> None then zero_page else p)) ps) = {#}"
  by (induction ps) auto

lemma size_held_filter: "size (zone_held z) = length (filter (\<lambda>p. pg_page_data p \<noteq> None) (zn_pages z))"
proof -
  have "size (sum_list (map entry ps)) = length (filter (\<lambda>p. pg_page_data p \<noteq> None) ps)" for ps
    by (induction ps) (auto simp: entry_def split: option.split)
  then show ?thesis by (simp add: zone_held_def)
qed

lemma cache_flush_leaves:
  assumes "cache_exact m"
  shows "leaves m (fst (cache_flush_zone (Some m) k))
     (if unat k < 4 then cached m - zone_held (pm_zones m ! unat k) else cached m)"
proof (cases "unat k < 4")
  case False
  with assms show ?thesis by (simp add: cache_flush_zone_def leaves_def cache_exact_def)
next
  case True
  with assms have i: "unat k < length (pm_zones m)" by (simp add: cache_exact_def)
  let ?z = "pm_zones m ! unat k"
  let ?n = "length (filter (\<lambda>p. pg_page_data p \<noteq> None) (zn_pages ?z))"
  define z' where "z' = ?z\<lparr>zn_pages := map (\<lambda>p. if pg_page_data p \<noteq> None then zero_page else p) (zn_pages ?z),
                  zn_used_size := zn_used_size ?z - of_nat ?n * 4096\<rparr>"
  have empty: "zone_held z' = {#}"
    unfolding zone_held_def z'_def using sum_zero_pages [of "zn_pages ?z"] by (simp add: comp_def)
  have ex: "zone_exact ?z" by (rule cache_exact_nth [OF assms i])
  then have "unat (zn_used_size ?z) = ?n * 4096" by (simp add: zone_exact_def size_held_filter)
  then have "(of_nat (unat (zn_used_size ?z)) :: u64) = of_nat (?n * 4096)" by (rule arg_cong)
  then have "zn_used_size ?z = of_nat ?n * 4096" by (simp only: of_nat_unat ucast_id of_nat_mult of_nat_numeral)
  with ex empty have "zone_exact z'" by (simp add: zone_exact_def) (simp add: z'_def)
  note ex' = cache_exact_set_zone [OF assms this, of "unat k"]
  have cap: "capacity (m\<lparr>pm_zones := (pm_zones m)[unat k := z']\<rparr>) = capacity m"
    by (rule capacity_set_zone [OF i]) (simp add: z'_def)
  from arg_cong [OF cached_set_zone [OF i, of z'], where f = "\<lambda>c. c - zone_held ?z"] empty
  have "cached (m\<lparr>pm_zones := (pm_zones m)[unat k := z']\<rparr>) = cached m - zone_held ?z" by simp
  with ex' cap have "leaves m (Some (m\<lparr>pm_zones := (pm_zones m)[unat k := z']\<rparr>)) (cached m - zone_held ?z)"
    by (simp add: leaves_def)
  with True i show ?thesis by (simp add: cache_flush_zone_def Let_def PAGE_CACHE_SIZE_def z'_def)
qed

lemma cache_init_exact:
  assumes "cache_manager_init cache_size policy ok zok = Some m" and "cache_size < 17179869184"
  shows "cache_exact m" and "cached m = {#}" and "capacity m = 4 * (unat cache_size div 16384)"
proof -
  have sz: "unat cache_size < 17179869184" using assms(2) by (simp add: word_less_nat_alt)
  have pages: "unat (ucast (cache_size div 4096) :: u32) = unat cache_size div 4096"
    using sz by (simp add: unsigned_ucast_eq take_bit_nat_eq_self unat_div flip: nat_take_bit_eq)
  define k :: u32 where "k = ucast (cache_size div 4096) div 4"
  have k: "unat k = unat cache_size div 16384" by (simp add: k_def unat_div pages div_mult2_eq [symmetric])
  have kb: "unat k < 1048576" using sz k by simp
  have "sum_list (replicate n {#}) = {#}" for n by (induction n) simp_all
  then have held: "zone_held (new_zone k i) = {#}" for i
    by (simp add: zone_held_def new_zone_def)
  have tot: "unat (ucast (k * 4096) :: u64) = 4096 * unat k"
    using kb by (simp add: unsigned_ucast_eq unat_word_ariths take_bit_eq_mod)
  have ex: "zone_exact (new_zone k i)" for i
    using kb tot held [of i] by (simp add: zone_exact_def) (simp add: new_zone_def PAGE_CACHE_SIZE_def)
  have zs: "pm_zones m = map (new_zone k) [0..<4]"
    using assms(1) by (auto simp: cache_manager_init_def Let_def k_def PAGE_CACHE_SIZE_def split: if_splits)
  show "cache_exact m" using ex by (simp add: cache_exact_def zs list_all_iff)
  show "cached m = {#}" by (simp add: cached_def zs held comp_def)
  show "capacity m = 4 * (unat cache_size div 16384)"
    by (simp add: capacity_def zs comp_def k [symmetric]) (simp add: new_zone_def sum_list_triv)
qed

section \<open>Histories\<close>

datatype cache_call = ReadPage u64 | WritePage u64 "u8 list" bool | EvictPage u32 | EvictLru | EvictLfu
  | WritebackPages | FlushZone u32 | LockPage u32 | UnlockPage u32 | PrefetchPages u64 u32 "nat \<Rightarrow> bool"

fun cache_call_step :: "pcache \<times> u32 \<Rightarrow> cache_call \<Rightarrow> (pcache \<times> u32) outcome" where
  "cache_call_step (h, n) (ReadPage off) = Done (fst (cache_read_page h off), n)"
| "cache_call_step (h, n) (WritePage off d ok) =
     (case cache_write_page h n off (Some d) ok of Undef \<Rightarrow> Undef | Done (s, r) \<Rightarrow> Done s)"
| "cache_call_step (h, n) (EvictPage k) = Done (fst (cache_evict_page h k), n)"
| "cache_call_step (h, n) EvictLru = Done (fst (cache_evict_lru_page h), n)"
| "cache_call_step (h, n) EvictLfu = Done (fst (cache_evict_lfu_page h), n)"
| "cache_call_step (h, n) WritebackPages = Done (fst (cache_writeback_dirty_pages h), n)"
| "cache_call_step (h, n) (FlushZone k) = Done (fst (cache_flush_zone h k), n)"
| "cache_call_step (h, n) (LockPage k) = Done (fst (cache_lock_page h k), n)"
| "cache_call_step (h, n) (UnlockPage k) = Done (fst (cache_unlock_page h k), n)"
| "cache_call_step (h, n) (PrefetchPages a k oks) = Done (fst (cache_prefetch_pages h n a k oks))"

fun cache_calls :: "pcache \<times> u32 \<Rightarrow> cache_call list \<Rightarrow> (pcache \<times> u32) outcome" where
  "cache_calls s [] = Done s"
| "cache_calls s (c # cs) = (case cache_call_step s c of Undef \<Rightarrow> Undef | Done s' \<Rightarrow> cache_calls s' cs)"

definition exact_with :: "nat \<Rightarrow> pcache \<Rightarrow> bool" where
  "exact_with k h = (case h of None \<Rightarrow> False | Some m \<Rightarrow> cache_exact m \<and> capacity m = k)"

lemma exact_withI: "\<lbrakk>leaves m h c; capacity m = k\<rbrakk> \<Longrightarrow> exact_with k h"
  by (simp add: leaves_def exact_with_def split: option.splits)

lemma cache_evict_exact: "exact_with k (Some m) \<Longrightarrow> exact_with k (fst (cache_evict_page (Some m) page_id))"
  using cache_evict_leaves [of m page_id] by (auto simp: exact_with_def leaves_def split: option.splits)

lemma cache_evict_least_exact:
  assumes "exact_with k (Some m)"
  shows "exact_with k (fst (cache_evict_lru_page (Some m)))" and "exact_with k (fst (cache_evict_lfu_page (Some m)))"
proof -
  have some: "Some (the h) = h" if "exact_with k h" for h using that by (auto simp: exact_with_def split: option.splits)
  have "fst (cache_evict_page (Some m) v) = Some (the (fst (cache_evict_page (Some m) v)))" for v
    using some [OF cache_evict_exact [OF assms]] by simp
  then show "exact_with k (fst (cache_evict_lru_page (Some m)))" "exact_with k (fst (cache_evict_lfu_page (Some m)))"
    using assms cache_evict_exact [OF assms]
    by (simp_all add: cache_evict_lru_page_def cache_evict_lfu_page_def Let_def case_prod_beta)
qed

lemma cache_write_exact:
  assumes "exact_with k (Some m)" and "cache_write_page (Some m) n off (Some d) ok = Done ((h, n'), r)"
  shows "exact_with k h"
proof -
  from assms(1) have m: "cache_exact m" "capacity m = k" by (auto simp: exact_with_def)
  show ?thesis
  proof (cases "size (cached m) = capacity m")
    case True
    with cache_write_full [OF m(1)] assms show ?thesis by simp
  next
    case False
    have ok: "cache_write_page (Some m) n off (Some d) False = cache_write_page (Some m) n off (Some (replicate 4096 0)) False"
      by (simp add: cache_write_page_def Let_def split: option.split)
    have "4096 \<le> length d \<or> \<not> ok"
    proof (rule ccontr)
      assume "\<not> ?thesis"
      moreover obtain i where "best_zone (pm_zones m) 0 None = Some i" using best_zone_full [OF m(1)] False by fastforce
      ultimately show False using assms(2) by (simp add: cache_write_page_def Let_def)
    qed
    then show ?thesis
      using cache_write_fits [OF m(1) False, of d n off ok]
        cache_write_fits [OF m(1) False, of "replicate 4096 0" n off False] assms(2) m(2) ok
      by (cases ok) (auto simp: exact_with_def)
  qed
qed

lemma prefetch_exact: "exact_with k h \<Longrightarrow> exact_with k (fst (prefetch_loop h n start i oks))"
proof (induction h n start i oks rule: prefetch_loop.induct)
  case (2 h n start i ok oks)
  then obtain m where h: "h = Some m" by (auto simp: exact_with_def split: option.splits)
  show ?case
    using 2 cache_write_exact [OF 2(2) [unfolded h]]
    by (auto simp: h split: outcome.split)
qed simp

lemma cache_call_step_exact:
  assumes "cache_call_step (h, n) c = Done (h', n')" and "exact_with k h"
  shows "exact_with k h'"
proof -
  from assms(2) obtain m where h: "h = Some m" and m: "cache_exact m" "capacity m = k"
    by (auto simp: exact_with_def split: option.splits)
  show ?thesis
  proof (cases c)
    case (WritePage off d ok)
    with assms h cache_write_exact show ?thesis by (fastforce split: outcome.splits)
  next
    case (PrefetchPages a b oks)
    with assms prefetch_exact show ?thesis
      by (auto simp: cache_prefetch_pages_def split: if_splits) (metis fst_conv)
  qed (use assms h m cache_evict_exact [of k m] cache_evict_least_exact [of k m]
      exact_withI [OF cache_read_leaves [OF m(1)] m(2)] exact_withI [OF cache_pin_leaves [OF m(1)] m(2)]
      exact_withI [OF cache_writeback_leaves [OF m(1)] m(2)] exact_withI [OF cache_flush_leaves [OF m(1)] m(2)]
      in \<open>auto simp: cache_lock_page_def cache_unlock_page_def\<close>)
qed

lemma cache_calls_exact: "\<lbrakk>cache_calls s cs = Done (h', n'); exact_with k (fst s)\<rbrakk> \<Longrightarrow> exact_with k h'"
proof (induction s cs rule: cache_calls.induct)
  case (2 s c cs)
  then show ?case
    by (cases s) (auto split: outcome.splits dest: cache_call_step_exact)
qed simp

lemma cached_within: "size (cached m) \<le> capacity m"
proof -
  have "size (sum_list (map zone_held zs)) \<le> sum_list (map (\<lambda>z. length (zn_pages z)) zs)" for zs
  proof (induction zs)
    case (Cons z zs)
    then show ?case using size_zone_held [of z] by simp
  qed simp
  then show ?thesis by (simp add: cached_def capacity_def)
qed

lemma metrics_used:
  assumes "cache_exact m"
  shows "unat (sum_list (map zn_used_size (pm_zones m))) = 4096 * size (cached m)"
proof -
  from assms obtain a b c d where zs: "pm_zones m = [a, b, c, d]"
    by (auto simp: cache_exact_def numeral_eq_Suc length_Suc_conv)
  from assms size_zone_held [of a] size_zone_held [of b] size_zone_held [of c] size_zone_held [of d] show ?thesis
    by (simp add: cache_exact_def zs zone_exact_def cached_def unat_word_ariths)
qed

text \<open>
  Claim C33. The accounting of the page cache is exact. After any sequence of reads, writes, evictions,
  write-backs, zone flushes, locks, unlocks and prefetches of a cache created with less than 16 GB, the
  use it reports is 4096 bytes for each page it holds and never more than its slots. A write is
  refused exactly when every slot is in use (or its allocation fails), and a write that succeeds adds
  the page to those held without displacing any: it never lands on a slot in use, although the search
  for a free slot falls back to slot 0. A read finds a page exactly when one with that offset is
  held.
\<close>

theorem page_cache_accounting:
  assumes "cache_manager_init cache_size policy True zone_ok = Some m0" and "cache_size < 17179869184"
    and "cache_calls (Some m0, n0) calls = Done (h, n)"
  shows "\<exists>m. h = Some m \<and> size (cached m) \<le> 4 * (unat cache_size div 16384)
    \<and> map_option (\<lambda>x. unat (px_used_cache_size x)) (snd (cache_get_metrics h True)) = Some (4096 * size (cached m))
    \<and> (\<forall>off d ok. 4096 \<le> length d \<longrightarrow>
         (if size (cached m) = 4 * (unat cache_size div 16384)
          then cache_write_page h n off (Some d) ok = Done ((h, n), -1)
          else \<exists>m'. cache_write_page h n off (Some d) ok = Done ((Some m', n + 1), if ok then 0 else -1)
             \<and> cached m' = cached m + (if ok then {#(off, take 4096 d)#} else {#})))
    \<and> (\<forall>off. snd (cache_read_page h off) = None \<longleftrightarrow> off \<notin> fst ` set_mset (cached m))"
proof -
  note init = cache_init_exact [OF assms(1,2)]
  have "exact_with (4 * (unat cache_size div 16384)) h"
    by (rule cache_calls_exact [OF assms(3)]) (simp add: exact_with_def init)
  then obtain m where h: "h = Some m" and m: "cache_exact m" "capacity m = 4 * (unat cache_size div 16384)"
    by (auto simp: exact_with_def split: option.splits)
  have r: "snd (cache_read_page (Some m) off) = None \<longleftrightarrow> off \<notin> fst ` set_mset (cached m)" for off
    by (rule cache_read_result(1) [OF prod.collapse [symmetric]])
  have w: "if size (cached m) = capacity m then cache_write_page h n off (Some d) ok = Done ((h, n), -1)
      else \<exists>m'. cache_write_page h n off (Some d) ok = Done ((Some m', n + 1), if ok then 0 else -1)
             \<and> cached m' = cached m + (if ok then {#(off, take 4096 d)#} else {#})"
    if "4096 \<le> length d" for off d ok
    using cache_write_full [OF m(1), of n off "Some d" ok] cache_write_fits [OF m(1) _ that, of n off ok]
    unfolding h by (auto split del: if_split split: if_split)
  show ?thesis
    using cached_within [of m] metrics_used [OF m(1)] r w unfolding h m(2)
    by (intro exI [of _ m]) (simp add: cache_get_metrics_def Let_def)
qed

text \<open>A cache of four slots, after a missed read, a write-back and a lock that finds page 0 among the
  free slots, takes a page and then holds exactly that one.\<close>

theorem page_cache_accounting_witness:
  "\<exists>m0 m m'. cache_manager_init 16384 EVICT_LRU True (\<lambda>_. True) = Some m0
     \<and> cache_calls (Some m0, 1) [ReadPage 8, WritebackPages, LockPage 0] = Done (Some m, 1)
     \<and> cache_write_page (Some m) 1 8 (Some (replicate 4096 7)) True = Done ((Some m', 2), 0)
     \<and> cached m' = {#(8, replicate 4096 7)#}"
proof -
  let ?m0 = "the (cache_manager_init 16384 EVICT_LRU True (\<lambda>_. True))"
  let ?r = "fst (cache_read_page (Some ?m0) 8)"
  let ?b = "fst (cache_writeback_dirty_pages ?r)"
  have i: "cache_manager_init 16384 EVICT_LRU True (\<lambda>_. True) = Some ?m0"
    by (simp add: cache_manager_init_def Let_def list_all_iff)
  have s: "(16384 :: u64) < 17179869184" by simp
  have r: "cache_calls (Some ?m0, 1) [ReadPage 8, WritebackPages, LockPage 0] = Done (fst (cache_lock_page ?b 0), 1)" by simp
  obtain m1 where m1: "?r = Some m1" "cache_exact m1" "cached m1 = {#}"
    using cache_read_leaves [of ?m0 8] cache_init_exact [OF i s] by (auto simp: leaves_def split: option.splits)
  obtain m2 where m2: "?b = Some m2" "cache_exact m2" "cached m2 = {#}"
    using cache_writeback_leaves [of m1] m1 by (auto simp: leaves_def split: option.splits)
  obtain m where m: "fst (cache_lock_page ?b 0) = Some m" "cached m = {#}"
    using cache_pin_leaves [of m2 True 0] m2 by (auto simp: leaves_def cache_lock_page_def split: option.splits)
  from page_cache_accounting [OF i s r] m
  have "\<forall>off d. 4096 \<le> length d \<longrightarrow> (\<forall>ok. \<exists>m'. cache_write_page (Some m) 1 off (Some d) ok =
      Done ((Some m', 2), if ok then 0 else -1) \<and> cached m' = (if ok then {#(off, take 4096 d)#} else {#}))" by simp
  from this [rule_format, of "replicate 4096 7" 8 True]
  have "\<exists>m'. cache_write_page (Some m) 1 8 (Some (replicate 4096 7)) True = Done ((Some m', 2), 0)
     \<and> cached m' = {#(8, replicate 4096 7)#}" by simp
  with i r m(1) show ?thesis by auto
qed

end
