(* ===== verification/Traffic_Shaper.thy ===== *)
theory Traffic_Shaper
  imports Service_Tables
begin

text \<open>
  The traffic shaper of \<open>src/load-balancing/traffic_shaper.c\<close>: policies, each with classification rules
  and rate limiters. The three static counters that number policies, rules and limiters are arguments
  and results of the operations that use them. A utilisation in per cent, a float, is kept as the pair
  of integers it is computed from, and the average of the metrics as the list of those. The loops
  over the policies that go on after a policy without the wanted rule or queue search for the first
  policy that has it.

  The second half shows that the shaper refines a table of budgets that are spent and never refilled.
\<close>

section \<open>Constants and data\<close>

definition MAX_TRAFFIC_POLICIES :: nat where "MAX_TRAFFIC_POLICIES = 128"
definition MAX_TRAFFIC_RULES :: nat where "MAX_TRAFFIC_RULES = 512"
definition MAX_RATE_LIMITERS :: nat where "MAX_RATE_LIMITERS = 256"

datatype TrafficClass = TRAFFIC_CLASS_REAL_TIME | TRAFFIC_CLASS_INTERACTIVE | TRAFFIC_CLASS_BULK
  | TRAFFIC_CLASS_BACKGROUND | TRAFFIC_CLASS_BEST_EFFORT

datatype ShapingAlgorithm = SHAPING_ALGORITHM_TOKEN_BUCKET | SHAPING_ALGORITHM_LEAKY_BUCKET
  | SHAPING_ALGORITHM_HIERARCHICAL | SHAPING_ALGORITHM_RED

record RateLimiter =
  rl_rate_limiter_id :: u32
  rl_traffic_class :: TrafficClass
  rl_rate_limit_bps :: u64
  rl_burst_size_bytes :: u64
  rl_tokens :: u64
  rl_last_refill_time :: u64
  rl_bytes_processed :: u64
  rl_packets_dropped :: u32
  rl_packets_shaped :: u32

record TrafficRule =
  tr_rule_id :: u32
  tr_src_ip :: u32
  tr_dst_ip :: u32
  tr_src_port :: "16 word"
  tr_dst_port :: "16 word"
  tr_assigned_class :: TrafficClass
  tr_priority :: u64
  tr_is_enabled :: bool

record TrafficQueue =
  tq_queue_id :: u32
  tq_traffic_class :: TrafficClass
  tq_queue_depth :: u32
  tq_max_queue_size :: u32
  tq_packets_enqueued :: u32
  tq_packets_dequeued :: u32
  tq_packets_dropped :: u32

record TrafficPolicy =
  tp_policy_id :: u32
  tp_policy_name :: string
  tp_algorithm :: ShapingAlgorithm
  tp_queues :: "TrafficQueue list"
  tp_limiters :: "RateLimiter list"
  tp_rules :: "TrafficRule list"
  tp_total_bandwidth_limit_bps :: u64
  tp_current_bandwidth_usage_bps :: u64
  tp_utilization_percent :: "(u64 \<times> u64) option"

record TrafficShaper =
  ts_shaper_id :: u32
  ts_policies :: "TrafficPolicy list"
  ts_total_packets_shaped :: u64
  ts_total_packets_dropped :: u64
  ts_total_bytes_shaped :: u64

record TrafficShaperMetrics =
  tx_shaper_id :: u32
  tx_active_policies :: u32
  tx_total_packets_shaped :: u64
  tx_total_packets_dropped :: u64
  tx_total_bytes_shaped :: u64
  tx_utilization_percents :: "(u64 \<times> u64) option list"

type_synonym shaper = "TrafficShaper option"

text \<open>The number of a class in the enumeration, what a classification returns.\<close>

fun class_code :: "TrafficClass \<Rightarrow> int" where
  "class_code TRAFFIC_CLASS_REAL_TIME = 0"
| "class_code TRAFFIC_CLASS_INTERACTIVE = 1"
| "class_code TRAFFIC_CLASS_BULK = 2"
| "class_code TRAFFIC_CLASS_BACKGROUND = 3"
| "class_code TRAFFIC_CLASS_BEST_EFFORT = 4"

section \<open>Policies and rules\<close>

definition traffic_shaper_init :: "bool \<Rightarrow> shaper" where
  "traffic_shaper_init malloc_ok =
     (if \<not> malloc_ok then None
      else Some \<lparr>ts_shaper_id = 1, ts_policies = [], ts_total_packets_shaped = 0, ts_total_packets_dropped = 0,
        ts_total_bytes_shaped = 0\<rparr>)"

definition traffic_shaper_destroy :: "shaper \<Rightarrow> shaper \<times> int" where
  "traffic_shaper_destroy h = (None, case h of None \<Rightarrow> -1 | Some m \<Rightarrow> 0)"

definition traffic_policy_create ::
    "shaper \<Rightarrow> u32 \<Rightarrow> string option \<Rightarrow> ShapingAlgorithm \<Rightarrow> u64 \<Rightarrow> (shaper \<times> u32) \<times> u32" where
  "traffic_policy_create h next_policy_id policy_name algorithm bandwidth =
     (case h of None \<Rightarrow> ((h, next_policy_id), 0)
      | Some m \<Rightarrow>
          if length (ts_policies m) \<ge> MAX_TRAFFIC_POLICIES then ((h, next_policy_id), 0)
          else ((Some (m\<lparr>ts_policies := ts_policies m @ [\<lparr>tp_policy_id = next_policy_id,
                   tp_policy_name = (case policy_name of None \<Rightarrow> '''' | Some s \<Rightarrow> take 63 s), tp_algorithm = algorithm,
                   tp_queues = [], tp_limiters = [], tp_rules = [], tp_total_bandwidth_limit_bps = bandwidth,
                   tp_current_bandwidth_usage_bps = 0, tp_utilization_percent = None\<rparr>]\<rparr>), next_policy_id + 1), next_policy_id))"

definition find_policy :: "u32 \<Rightarrow> TrafficShaper \<Rightarrow> nat option" where
  "find_policy policy_id m = id_idx tp_policy_id policy_id (ts_policies m)"

definition set_policy :: "nat \<Rightarrow> TrafficPolicy \<Rightarrow> TrafficShaper \<Rightarrow> TrafficShaper" where
  "set_policy i p m = m\<lparr>ts_policies := (ts_policies m)[i := p]\<rparr>"

definition traffic_policy_destroy :: "shaper \<Rightarrow> u32 \<Rightarrow> shaper \<times> int" where
  "traffic_policy_destroy h policy_id = with_handle (-1) h (\<lambda>m.
     case find_policy policy_id m of None \<Rightarrow> (m, -1)
     | Some i \<Rightarrow> (m\<lparr>ts_policies := remove_at i (ts_policies m)\<rparr>, 0))"

definition traffic_rule_add ::
    "shaper \<Rightarrow> u32 \<Rightarrow> u32 \<Rightarrow> u32 \<Rightarrow> u32 \<Rightarrow> 16 word \<Rightarrow> 16 word \<Rightarrow> TrafficClass \<Rightarrow> (shaper \<times> u32) \<times> int" where
  "traffic_rule_add h next_rule_id policy_id src_ip dst_ip src_port dst_port traffic_class =
     (case h of None \<Rightarrow> ((h, next_rule_id), -1)
      | Some m \<Rightarrow>
          (case find_policy policy_id m of None \<Rightarrow> ((h, next_rule_id), -1)
           | Some i \<Rightarrow>
               let p = ts_policies m ! i in
               if length (tp_rules p) \<ge> MAX_TRAFFIC_RULES then ((h, next_rule_id), -1)
               else ((Some (set_policy i (p\<lparr>tp_rules := tp_rules p @ [\<lparr>tr_rule_id = next_rule_id, tr_src_ip = src_ip,
                        tr_dst_ip = dst_ip, tr_src_port = src_port, tr_dst_port = dst_port,
                        tr_assigned_class = traffic_class, tr_priority = of_nat (length (tp_rules p)),
                        tr_is_enabled = True\<rparr>]\<rparr>) m), next_rule_id + 1), sint next_rule_id)))"

definition find_rule :: "u32 \<Rightarrow> TrafficPolicy \<Rightarrow> nat option" where
  "find_rule rule_id p = first_idx (\<lambda>r. tr_rule_id r = rule_id) (tp_rules p)"

definition traffic_rule_remove :: "shaper \<Rightarrow> u32 \<Rightarrow> u32 \<Rightarrow> shaper \<times> int" where
  "traffic_rule_remove h policy_id rule_id = with_handle (-1) h (\<lambda>m.
     if policy_id = 0 \<or> rule_id = 0 then (m, -1)
     else
       (case first_idx (\<lambda>p. tp_policy_id p = policy_id \<and> find_rule rule_id p \<noteq> None) (ts_policies m) of
          None \<Rightarrow> (m, -1)
        | Some i \<Rightarrow>
            let p = ts_policies m ! i
            in (set_policy i (p\<lparr>tp_rules := remove_at (the (find_rule rule_id p)) (tp_rules p)\<rparr>) m, 0)))"

section \<open>Limiters and packets\<close>

definition traffic_rate_limiter_create ::
    "shaper \<Rightarrow> u32 \<Rightarrow> u32 \<Rightarrow> TrafficClass \<Rightarrow> u64 \<Rightarrow> u64 \<Rightarrow> (shaper \<times> u32) \<times> int" where
  "traffic_rate_limiter_create h next_limiter_id policy_id traffic_class rate_bps burst_bytes =
     (case h of None \<Rightarrow> ((h, next_limiter_id), -1)
      | Some m \<Rightarrow>
          (case find_policy policy_id m of None \<Rightarrow> ((h, next_limiter_id), -1)
           | Some i \<Rightarrow>
               let p = ts_policies m ! i in
               if length (tp_limiters p) \<ge> MAX_RATE_LIMITERS then ((h, next_limiter_id), -1)
               else ((Some (set_policy i (p\<lparr>tp_limiters := tp_limiters p @ [\<lparr>rl_rate_limiter_id = next_limiter_id,
                        rl_traffic_class = traffic_class, rl_rate_limit_bps = rate_bps, rl_burst_size_bytes = burst_bytes,
                        rl_tokens = burst_bytes, rl_last_refill_time = 0, rl_bytes_processed = 0, rl_packets_dropped = 0,
                        rl_packets_shaped = 0\<rparr>]\<rparr>) m), next_limiter_id + 1), sint next_limiter_id)))"

definition traffic_classify_packet :: "shaper \<Rightarrow> u32 \<Rightarrow> u32 \<Rightarrow> u32 \<Rightarrow> int" where
  "traffic_classify_packet h policy_id src_ip dst_ip = read_handle (-1) h (\<lambda>m.
     case find_policy policy_id m of None \<Rightarrow> -1
     | Some i \<Rightarrow>
         (case find (\<lambda>r. tr_src_ip r = src_ip \<and> tr_dst_ip r = dst_ip) (tp_rules (ts_policies m ! i)) of
            None \<Rightarrow> class_code TRAFFIC_CLASS_BEST_EFFORT
          | Some r \<Rightarrow> class_code (tr_assigned_class r)))"

definition traffic_shape_packet :: "shaper \<Rightarrow> u32 \<Rightarrow> u32 \<Rightarrow> TrafficClass \<Rightarrow> shaper \<times> int" where
  "traffic_shape_packet h policy_id packet_size traffic_class = with_handle (-1) h (\<lambda>m.
     case find_policy policy_id m of None \<Rightarrow> (m, -1)
     | Some i \<Rightarrow>
         let p = ts_policies m ! i in
         (case first_idx (\<lambda>l. rl_traffic_class l = traffic_class) (tp_limiters p) of None \<Rightarrow> (m, 0)
          | Some j \<Rightarrow>
              let l = tp_limiters p ! j in
              if rl_tokens l \<ge> ucast packet_size
              then ((set_policy i (p\<lparr>tp_limiters := (tp_limiters p)[j := l\<lparr>rl_tokens := rl_tokens l - ucast packet_size,
                       rl_bytes_processed := rl_bytes_processed l + ucast packet_size,
                       rl_packets_shaped := rl_packets_shaped l + 1\<rparr>]\<rparr>) m)
                     \<lparr>ts_total_bytes_shaped := ts_total_bytes_shaped m + ucast packet_size,
                      ts_total_packets_shaped := ts_total_packets_shaped m + 1\<rparr>, 0)
              else ((set_policy i (p\<lparr>tp_limiters := (tp_limiters p)[j := l\<lparr>rl_packets_dropped := rl_packets_dropped l + 1\<rparr>]\<rparr>) m)
                     \<lparr>ts_total_packets_dropped := ts_total_packets_dropped m + 1\<rparr>, -1)))"

section \<open>Queues, usage and metrics\<close>

text \<open>The first queue that satisfies a condition, among the policies with a given number.\<close>

definition find_queue :: "u32 \<Rightarrow> (TrafficQueue \<Rightarrow> bool) \<Rightarrow> TrafficShaper \<Rightarrow> (nat \<times> nat) option" where
  "find_queue policy_id P m =
     (case first_idx (\<lambda>p. tp_policy_id p = policy_id \<and> list_ex P (tp_queues p)) (ts_policies m) of None \<Rightarrow> None
      | Some i \<Rightarrow> map_option (Pair i) (first_idx P (tp_queues (ts_policies m ! i))))"

definition set_queue :: "nat \<times> nat \<Rightarrow> TrafficQueue \<Rightarrow> TrafficShaper \<Rightarrow> TrafficShaper" where
  "set_queue = (\<lambda>(i, j) q m.
     let p = ts_policies m ! i in set_policy i (p\<lparr>tp_queues := (tp_queues p)[j := q]\<rparr>) m)"

definition traffic_enqueue_packet :: "shaper \<Rightarrow> u32 \<Rightarrow> u32 \<Rightarrow> u32 \<Rightarrow> shaper \<times> int" where
  "traffic_enqueue_packet h policy_id queue_id packet_size = with_handle (-1) h (\<lambda>m.
     if policy_id = 0 \<or> queue_id = 0 then (m, -1)
     else
       (case find_queue policy_id (\<lambda>q. tq_queue_id q = queue_id) m of None \<Rightarrow> (m, -1)
        | Some (i, j) \<Rightarrow>
            let q = tp_queues (ts_policies m ! i) ! j in
            if tq_queue_depth q < tq_max_queue_size q
            then (set_queue (i, j) (q\<lparr>tq_queue_depth := tq_queue_depth q + 1,
                    tq_packets_enqueued := tq_packets_enqueued q + 1\<rparr>) m, 0)
            else (set_queue (i, j) (q\<lparr>tq_packets_dropped := tq_packets_dropped q + 1\<rparr>) m, -1)))"

definition traffic_dequeue_packet :: "shaper \<Rightarrow> u32 \<Rightarrow> u32 \<Rightarrow> shaper \<times> int" where
  "traffic_dequeue_packet h policy_id queue_id = with_handle (-1) h (\<lambda>m.
     if policy_id = 0 \<or> queue_id = 0 then (m, -1)
     else
       (case find_queue policy_id (\<lambda>q. tq_queue_id q = queue_id \<and> tq_queue_depth q > 0) m of None \<Rightarrow> (m, -1)
        | Some (i, j) \<Rightarrow>
            let q = tp_queues (ts_policies m ! i) ! j
            in (set_queue (i, j) (q\<lparr>tq_queue_depth := tq_queue_depth q - 1,
                  tq_packets_dequeued := tq_packets_dequeued q + 1\<rparr>) m, 0)))"

definition traffic_enforce_rate_limits :: "shaper \<Rightarrow> u32 \<Rightarrow> int" where
  "traffic_enforce_rate_limits h policy_id = (if h = None \<or> policy_id = 0 then -1 else 0)"

definition traffic_update_bandwidth_usage :: "shaper \<Rightarrow> u32 \<Rightarrow> shaper \<times> int" where
  "traffic_update_bandwidth_usage h policy_id = with_handle (-1) h (\<lambda>m.
     case find_policy policy_id m of None \<Rightarrow> (m, -1)
     | Some i \<Rightarrow>
         let p = ts_policies m ! i; usage = sum_list (map rl_bytes_processed (tp_limiters p)) * 8
         in (set_policy i (p\<lparr>tp_current_bandwidth_usage_bps := usage,
               tp_utilization_percent := (if tp_total_bandwidth_limit_bps p > 0
                 then Some (usage, tp_total_bandwidth_limit_bps p) else tp_utilization_percent p)\<rparr>) m, 0))"

definition traffic_shaper_get_metrics :: "shaper \<Rightarrow> bool \<Rightarrow> int \<times> TrafficShaperMetrics option" where
  "traffic_shaper_get_metrics h metrics = read_handle (-1, None) h (\<lambda>m.
     if \<not> metrics then (-1, None)
     else (0, Some \<lparr>tx_shaper_id = ts_shaper_id m, tx_active_policies = of_nat (length (ts_policies m)),
        tx_total_packets_shaped = ts_total_packets_shaped m, tx_total_packets_dropped = ts_total_packets_dropped m,
        tx_total_bytes_shaped = ts_total_bytes_shaped m,
        tx_utilization_percents = map tp_utilization_percent (ts_policies m)\<rparr>))"

section \<open>Budgets\<close>

text \<open>What a policy means: its rules in order, the number of its limiters, and what is left of the
  budget of every class that has one.\<close>

record plan =
  pl_rules :: "(u32 \<times> (u32 \<times> u32) \<times> TrafficClass) list"
  pl_limiters :: nat
  pl_budget :: "TrafficClass \<rightharpoonup> u64"

record plans =
  ps_plans :: "u32 \<rightharpoonup> plan"
  ps_next_policy :: u32
  ps_next_rule :: u32
  ps_next_limiter :: u32

datatype shaper_call =
  CreatePolicy string ShapingAlgorithm u64 | DestroyPolicy u32 | AddRule u32 u32 u32 "16 word" "16 word" TrafficClass
  | RemoveRule u32 u32 | CreateLimiter u32 TrafficClass u64 u64 | Classify u32 u32 u32 | Shape u32 u32 TrafficClass
  | Enqueue u32 u32 u32 | Dequeue u32 u32 | Enforce u32 | UpdateUsage u32

record shaper_state =
  sh_shaper :: TrafficShaper
  sh_next_policy :: u32
  sh_next_rule :: u32
  sh_next_limiter :: u32

definition on_shaper :: "shaper_state \<Rightarrow> shaper \<times> int \<Rightarrow> shaper_state \<times> int" where
  "on_shaper s x = (s\<lparr>sh_shaper := the (fst x)\<rparr>, snd x)"

fun shaper_step :: "shaper_state \<Rightarrow> shaper_call \<Rightarrow> shaper_state \<times> int" where
  "shaper_step s (CreatePolicy nm alg bw) =
     (let ((h, nx), r) = traffic_policy_create (Some (sh_shaper s)) (sh_next_policy s) (Some nm) alg bw
      in (s\<lparr>sh_shaper := the h, sh_next_policy := nx\<rparr>, uint r))"
| "shaper_step s (DestroyPolicy k) = on_shaper s (traffic_policy_destroy (Some (sh_shaper s)) k)"
| "shaper_step s (AddRule k src dst sp dp c) =
     (let ((h, nx), r) = traffic_rule_add (Some (sh_shaper s)) (sh_next_rule s) k src dst sp dp c
      in (s\<lparr>sh_shaper := the h, sh_next_rule := nx\<rparr>, r))"
| "shaper_step s (RemoveRule k r) = on_shaper s (traffic_rule_remove (Some (sh_shaper s)) k r)"
| "shaper_step s (CreateLimiter k c rate burst) =
     (let ((h, nx), r) = traffic_rate_limiter_create (Some (sh_shaper s)) (sh_next_limiter s) k c rate burst
      in (s\<lparr>sh_shaper := the h, sh_next_limiter := nx\<rparr>, r))"
| "shaper_step s (Classify k src dst) = (s, traffic_classify_packet (Some (sh_shaper s)) k src dst)"
| "shaper_step s (Shape k sz c) = on_shaper s (traffic_shape_packet (Some (sh_shaper s)) k sz c)"
| "shaper_step s (Enqueue k q sz) = on_shaper s (traffic_enqueue_packet (Some (sh_shaper s)) k q sz)"
| "shaper_step s (Dequeue k q) = on_shaper s (traffic_dequeue_packet (Some (sh_shaper s)) k q)"
| "shaper_step s (Enforce k) = (s, traffic_enforce_rate_limits (Some (sh_shaper s)) k)"
| "shaper_step s (UpdateUsage k) = on_shaper s (traffic_update_bandwidth_usage (Some (sh_shaper s)) k)"

definition set_plan :: "u32 \<Rightarrow> plan \<Rightarrow> plans \<Rightarrow> plans" where
  "set_plan k p a = a\<lparr>ps_plans := (ps_plans a)(k \<mapsto> p)\<rparr>"

definition drop_rule :: "u32 \<Rightarrow> plan \<Rightarrow> plan \<times> int" where
  "drop_rule r p = (case first_idx (\<lambda>x. fst x = r) (pl_rules p) of None \<Rightarrow> (p, -1)
     | Some j \<Rightarrow> (p\<lparr>pl_rules := remove_at j (pl_rules p)\<rparr>, 0))"

definition spend :: "u32 \<Rightarrow> TrafficClass \<Rightarrow> plan \<Rightarrow> plan \<times> int" where
  "spend sz c p = (case pl_budget p c of None \<Rightarrow> (p, 0)
     | Some t \<Rightarrow> if ucast sz \<le> t then (p\<lparr>pl_budget := (pl_budget p)(c \<mapsto> t - ucast sz)\<rparr>, 0) else (p, -1))"

fun shaper_spec :: "plans \<Rightarrow> shaper_call \<Rightarrow> plans \<times> int" where
  "shaper_spec a (CreatePolicy nm alg bw) =
     (if card (dom (ps_plans a)) \<ge> 128 then (a, 0)
      else ((set_plan (ps_next_policy a) \<lparr>pl_rules = [], pl_limiters = 0, pl_budget = Map.empty\<rparr> a)
              \<lparr>ps_next_policy := ps_next_policy a + 1\<rparr>, uint (ps_next_policy a)))"
| "shaper_spec a (DestroyPolicy k) = (a\<lparr>ps_plans := (ps_plans a)(k := None)\<rparr>, if ps_plans a k = None then -1 else 0)"
| "shaper_spec a (AddRule k src dst sp dp c) =
     (case ps_plans a k of None \<Rightarrow> (a, -1)
      | Some p \<Rightarrow> if length (pl_rules p) \<ge> 512 then (a, -1)
                 else ((set_plan k (p\<lparr>pl_rules := pl_rules p @ [(ps_next_rule a, (src, dst), c)]\<rparr>) a)
                         \<lparr>ps_next_rule := ps_next_rule a + 1\<rparr>, sint (ps_next_rule a)))"
| "shaper_spec a (RemoveRule k r) =
     (case ps_plans a k of None \<Rightarrow> (a, -1)
      | Some p \<Rightarrow> if r = 0 then (a, -1) else (set_plan k (fst (drop_rule r p)) a, snd (drop_rule r p)))"
| "shaper_spec a (CreateLimiter k c rate burst) =
     (case ps_plans a k of None \<Rightarrow> (a, -1)
      | Some p \<Rightarrow> if pl_limiters p \<ge> 256 then (a, -1)
                 else ((set_plan k (p\<lparr>pl_limiters := pl_limiters p + 1,
                         pl_budget := [c \<mapsto> burst] ++ pl_budget p\<rparr>) a)
                         \<lparr>ps_next_limiter := ps_next_limiter a + 1\<rparr>, sint (ps_next_limiter a)))"
| "shaper_spec a (Classify k src dst) =
     (a, case ps_plans a k of None \<Rightarrow> -1
      | Some p \<Rightarrow> (case find (\<lambda>x. fst (snd x) = (src, dst)) (pl_rules p) of None \<Rightarrow> 4 | Some x \<Rightarrow> class_code (snd (snd x))))"
| "shaper_spec a (Shape k sz c) =
     (case ps_plans a k of None \<Rightarrow> (a, -1) | Some p \<Rightarrow> (set_plan k (fst (spend sz c p)) a, snd (spend sz c p)))"
| "shaper_spec a (Enqueue k q sz) = (a, -1)"
| "shaper_spec a (Dequeue k q) = (a, -1)"
| "shaper_spec a (Enforce k) = (a, if k = 0 then -1 else 0)"
| "shaper_spec a (UpdateUsage k) = (a, if ps_plans a k = None then -1 else 0)"

definition rule_view :: "TrafficRule \<Rightarrow> u32 \<times> (u32 \<times> u32) \<times> TrafficClass" where
  "rule_view r = (tr_rule_id r, (tr_src_ip r, tr_dst_ip r), tr_assigned_class r)"

definition plan_of :: "TrafficPolicy \<Rightarrow> plan" where
  "plan_of p = \<lparr>pl_rules = map rule_view (tp_rules p), pl_limiters = length (tp_limiters p),
     pl_budget = (\<lambda>c. map_option rl_tokens (find (\<lambda>l. rl_traffic_class l = c) (tp_limiters p)))\<rparr>"

definition shaper_abs :: "shaper_state \<Rightarrow> plans" where
  "shaper_abs s = \<lparr>ps_plans = table_map tp_policy_id plan_of (ts_policies (sh_shaper s)),
     ps_next_policy = sh_next_policy s, ps_next_rule = sh_next_rule s, ps_next_limiter = sh_next_limiter s\<rparr>"

definition shaper_inv :: "nat \<Rightarrow> shaper_state \<Rightarrow> bool" where
  "shaper_inv n s \<longleftrightarrow> ids_below n (sh_next_policy s) (map tp_policy_id (ts_policies (sh_shaper s)))
     \<and> list_all (\<lambda>p. tp_queues p = []) (ts_policies (sh_shaper s))"

section \<open>Simulation\<close>

lemma plan_lookup:
  "shaper_inv n s \<Longrightarrow>
     ps_plans (shaper_abs s) k = map_option (\<lambda>i. plan_of (ts_policies (sh_shaper s) ! i)) (find_policy k (sh_shaper s))"
  unfolding shaper_inv_def by (drule conjunct1) (simp add: shaper_abs_def find_policy_def id_lookup)

lemma policy_found:
  "find_policy k m = Some i \<Longrightarrow> i < length (ts_policies m) \<and> tp_policy_id (ts_policies m ! i) = k"
  using id_idxD [of tp_policy_id k "ts_policies m" i] by (simp add: find_policy_def)

lemma shaper_inv_mono: "shaper_inv (Suc n) s \<Longrightarrow> shaper_inv n s"
  by (simp add: shaper_inv_def ids_below_mono)

lemma set_policy_sim:
  assumes "shaper_inv (Suc n) s" and "find_policy k (sh_shaper s) = Some i"
    and "tp_policy_id p = k" and "tp_queues p = []"
    and "ts_policies m = ts_policies (set_policy i p (sh_shaper s))"
  shows "shaper_inv n (s\<lparr>sh_shaper := m\<rparr>)"
    and "shaper_abs (s\<lparr>sh_shaper := m\<rparr>) = set_plan k (plan_of p) (shaper_abs s)"
  using assms id_update(1) [of n "sh_next_policy s" tp_policy_id "ts_policies (sh_shaper s)" k i p]
    id_update(2) [of n "sh_next_policy s" tp_policy_id "ts_policies (sh_shaper s)" k i p plan_of]
  by (auto simp: shaper_inv_def shaper_abs_def find_policy_def set_policy_def set_plan_def list_all_iff
      dest!: set_update_subset_insert [THEN subsetD])

lemma queues_empty: "\<lbrakk>shaper_inv n s; find_policy k (sh_shaper s) = Some i\<rbrakk> \<Longrightarrow> tp_queues (ts_policies (sh_shaper s) ! i) = []"
  using policy_found by (auto simp: shaper_inv_def list_all_length)

lemma no_queue: "shaper_inv n s \<Longrightarrow> find_queue k P (sh_shaper s) = None"
  by (auto simp: find_queue_def shaper_inv_def list_all_iff first_idx_None split: option.split
      dest!: first_idx_SomeD(2,3))

lemma set_same_plan [simp]: "ps_plans a k = Some p \<Longrightarrow> set_plan k p a = a"
  by (simp add: set_plan_def map_upd_triv)

lemma create_policy_sim:
  assumes "shaper_inv (Suc n) s" and "shaper_step s (CreatePolicy nm alg bw) = (s', r)"
  shows "shaper_inv n s' \<and> shaper_spec (shaper_abs s) (CreatePolicy nm alg bw) = (shaper_abs s', r)"
proof -
  let ?p = "\<lparr>tp_policy_id = sh_next_policy s, tp_policy_name = take 63 nm, tp_algorithm = alg, tp_queues = [],
    tp_limiters = [], tp_rules = [], tp_total_bandwidth_limit_bps = bw, tp_current_bandwidth_usage_bps = 0,
    tp_utilization_percent = None\<rparr>"
  have ids: "ids_below (Suc n) (sh_next_policy s) (map tp_policy_id (ts_policies (sh_shaper s)))"
    using assms(1) by (simp add: shaper_inv_def)
  have "plan_of ?p = \<lparr>pl_rules = [], pl_limiters = 0, pl_budget = Map.empty\<rparr>" by (simp add: plan_of_def)
  with assms id_create(1) [OF ids, of ?p] id_create(2) [OF ids, of ?p plan_of] id_create(3) [OF ids, of ?p plan_of]
    shaper_inv_mono [OF assms(1)]
  show ?thesis
    by (auto simp: traffic_policy_create_def shaper_abs_def shaper_inv_def set_plan_def MAX_TRAFFIC_POLICIES_def split: if_splits)
qed

lemma destroy_policy_sim:
  assumes "shaper_inv (Suc n) s" and "shaper_step s (DestroyPolicy k) = (s', r)"
  shows "shaper_inv n s' \<and> shaper_spec (shaper_abs s) (DestroyPolicy k) = (shaper_abs s', r)"
proof (cases "find_policy k (sh_shaper s)")
  case None
  with assms plan_lookup [OF assms(1), of k] shaper_inv_mono [OF assms(1)] show ?thesis
    by (auto simp: traffic_policy_destroy_def on_shaper_def shaper_abs_def)
next
  case (Some i)
  have ids: "ids_below (Suc n) (sh_next_policy s) (map tp_policy_id (ts_policies (sh_shaper s)))"
    using assms(1) by (simp add: shaper_inv_def)
  have "id_idx tp_policy_id k (ts_policies (sh_shaper s)) = Some i" using Some by (simp add: find_policy_def)
  with assms Some id_remove(1) [OF ids, of k i] id_remove(2) [OF ids, of k i plan_of] plan_lookup [OF assms(1), of k]
  show ?thesis
    by (auto simp: traffic_policy_destroy_def on_shaper_def shaper_abs_def shaper_inv_def list_all_remove_at)
qed

lemma missing_policy_sim:
  assumes "shaper_inv (Suc n) s" and "find_policy k (sh_shaper s) = None" and "shaper_step s x = (s', r)"
    and "x \<in> {AddRule k src dst sp dp c, CreateLimiter k c rate burst, Classify k src dst, Shape k sz c, UpdateUsage k}"
  shows "shaper_inv n s' \<and> shaper_spec (shaper_abs s) x = (shaper_abs s', r)"
  using assms plan_lookup [OF assms(1), of k] shaper_inv_mono [OF assms(1)]
  by (auto simp: traffic_rule_add_def traffic_rate_limiter_create_def traffic_classify_packet_def traffic_shape_packet_def
      traffic_update_bandwidth_usage_def on_shaper_def with_handle_Some)

text \<open>The calls on a policy that exists, at index \<open>i\<close>.\<close>

lemma add_rule_sim:
  assumes "shaper_inv (Suc n) s" and "find_policy k (sh_shaper s) = Some i" and "shaper_step s (AddRule k src dst sp dp c) = (s', r)"
  shows "shaper_inv n s' \<and> shaper_spec (shaper_abs s) (AddRule k src dst sp dp c) = (shaper_abs s', r)"
proof -
  let ?p = "ts_policies (sh_shaper s) ! i"
  let ?r = "\<lparr>tr_rule_id = sh_next_rule s, tr_src_ip = src, tr_dst_ip = dst, tr_src_port = sp, tr_dst_port = dp,
    tr_assigned_class = c, tr_priority = of_nat (length (tp_rules ?p)), tr_is_enabled = True\<rparr>"
  let ?x = "?p\<lparr>tp_rules := tp_rules ?p @ [?r]\<rparr>"
  have plan: "ps_plans (shaper_abs s) k = Some (plan_of ?p)" using plan_lookup [OF assms(1)] assms(2) by simp
  have next_rule: "shaper_inv m (t\<lparr>sh_next_rule := u\<rparr>) = shaper_inv m t"
    "shaper_abs (t\<lparr>sh_next_rule := u\<rparr>) = (shaper_abs t)\<lparr>ps_next_rule := u\<rparr>" for m t u
    by (simp_all add: shaper_inv_def shaper_abs_def)
  have "shaper_inv n (s\<lparr>sh_shaper := set_policy i ?x (sh_shaper s)\<rparr>)"
    "shaper_abs (s\<lparr>sh_shaper := set_policy i ?x (sh_shaper s)\<rparr>) = set_plan k (plan_of ?x) (shaper_abs s)"
    using set_policy_sim [OF assms(1,2), of ?x "set_policy i ?x (sh_shaper s)"] policy_found [OF assms(2)]
      queues_empty [OF assms(1,2)] by simp_all
  moreover have "plan_of ?x = (plan_of ?p)\<lparr>pl_rules := pl_rules (plan_of ?p) @ [(sh_next_rule s, (src, dst), c)]\<rparr>"
    by (simp add: plan_of_def rule_view_def)
  moreover have "length (pl_rules (plan_of ?p)) = length (tp_rules ?p)" "ps_next_rule (shaper_abs s) = sh_next_rule s"
    by (simp_all add: plan_of_def shaper_abs_def)
  ultimately show ?thesis
    using plan assms(2,3) shaper_inv_mono [OF assms(1)]
    by (auto simp: traffic_rule_add_def MAX_TRAFFIC_RULES_def Let_def next_rule split: if_splits)
qed

lemma create_limiter_sim:
  assumes "shaper_inv (Suc n) s" and "find_policy k (sh_shaper s) = Some i" and "shaper_step s (CreateLimiter k c rate burst) = (s', r)"
  shows "shaper_inv n s' \<and> shaper_spec (shaper_abs s) (CreateLimiter k c rate burst) = (shaper_abs s', r)"
proof -
  let ?p = "ts_policies (sh_shaper s) ! i"
  let ?l = "\<lparr>rl_rate_limiter_id = sh_next_limiter s, rl_traffic_class = c, rl_rate_limit_bps = rate,
    rl_burst_size_bytes = burst, rl_tokens = burst, rl_last_refill_time = 0, rl_bytes_processed = 0,
    rl_packets_dropped = 0, rl_packets_shaped = 0\<rparr>"
  let ?x = "?p\<lparr>tp_limiters := tp_limiters ?p @ [?l]\<rparr>"
  have plan: "ps_plans (shaper_abs s) k = Some (plan_of ?p)" using plan_lookup [OF assms(1)] assms(2) by simp
  have next_limiter: "shaper_inv m (t\<lparr>sh_next_limiter := u\<rparr>) = shaper_inv m t"
    "shaper_abs (t\<lparr>sh_next_limiter := u\<rparr>) = (shaper_abs t)\<lparr>ps_next_limiter := u\<rparr>" for m t u
    by (simp_all add: shaper_inv_def shaper_abs_def)
  have "shaper_inv n (s\<lparr>sh_shaper := set_policy i ?x (sh_shaper s)\<rparr>)"
    "shaper_abs (s\<lparr>sh_shaper := set_policy i ?x (sh_shaper s)\<rparr>) = set_plan k (plan_of ?x) (shaper_abs s)"
    using set_policy_sim [OF assms(1,2), of ?x "set_policy i ?x (sh_shaper s)"] policy_found [OF assms(2)]
      queues_empty [OF assms(1,2)] by simp_all
  moreover have "plan_of ?x = (plan_of ?p)\<lparr>pl_limiters := pl_limiters (plan_of ?p) + 1,
      pl_budget := [c \<mapsto> burst] ++ pl_budget (plan_of ?p)\<rparr>"
    by (auto simp: plan_of_def fun_eq_iff find_snoc map_add_def split: option.split)
  moreover have "pl_limiters (plan_of ?p) = length (tp_limiters ?p)" "ps_next_limiter (shaper_abs s) = sh_next_limiter s"
    by (simp_all add: plan_of_def shaper_abs_def)
  ultimately show ?thesis
    using plan assms(2,3) shaper_inv_mono [OF assms(1)]
    by (auto simp: traffic_rate_limiter_create_def MAX_RATE_LIMITERS_def Let_def next_limiter split: if_splits)
qed

lemma shape_sim:
  assumes "shaper_inv (Suc n) s" and "find_policy k (sh_shaper s) = Some i" and "shaper_step s (Shape k sz c) = (s', r)"
  shows "shaper_inv n s' \<and> shaper_spec (shaper_abs s) (Shape k sz c) = (shaper_abs s', r)"
proof -
  let ?p = "ts_policies (sh_shaper s) ! i"
  have plan: "ps_plans (shaper_abs s) k = Some (plan_of ?p)" using plan_lookup [OF assms(1)] assms(2) by simp
  show ?thesis
  proof (cases "first_idx (\<lambda>l. rl_traffic_class l = c) (tp_limiters ?p)")
    case None
    then have "pl_budget (plan_of ?p) c = None" by (simp add: plan_of_def first_idx_find_None)
    with None plan assms(2,3) shaper_inv_mono [OF assms(1)] show ?thesis
      by (auto simp: traffic_shape_packet_def on_shaper_def spend_def)
  next
    case (Some j)
    let ?l = "tp_limiters ?p ! j"
    have lc: "rl_traffic_class ?l = c" using first_idx_SomeD(2) [OF Some] .
    have bud: "pl_budget (plan_of ?p) c = Some (rl_tokens ?l)"
      using first_idx_find_Some [OF Some] by (simp add: plan_of_def)
    have upd: "shaper_inv n (s\<lparr>sh_shaper := m\<rparr>) \<and>
        shaper_abs (s\<lparr>sh_shaper := m\<rparr>) = set_plan k ((plan_of ?p)\<lparr>pl_budget := (pl_budget (plan_of ?p))(c \<mapsto> rl_tokens l)\<rparr>) (shaper_abs s)"
      if "rl_traffic_class l = c"
        and "ts_policies m = ts_policies (set_policy i (?p\<lparr>tp_limiters := (tp_limiters ?p)[j := l]\<rparr>) (sh_shaper s))" for l m
    proof -
      have "plan_of (?p\<lparr>tp_limiters := (tp_limiters ?p)[j := l]\<rparr>) =
          (plan_of ?p)\<lparr>pl_budget := (pl_budget (plan_of ?p))(c \<mapsto> rl_tokens l)\<rparr>"
        using find_key_update [OF Some that(1)] by (auto simp: plan_of_def fun_eq_iff)
      with set_policy_sim [OF assms(1,2) _ _ that(2)] policy_found [OF assms(2)] queues_empty [OF assms(1,2)]
      show ?thesis by simp
    qed
    have same: "(plan_of ?p)\<lparr>pl_budget := (pl_budget (plan_of ?p))(c \<mapsto> rl_tokens ?l)\<rparr> = plan_of ?p"
      using bud by (simp add: map_upd_triv)
    have drop: "shaper_inv n (s\<lparr>sh_shaper := m\<rparr>) \<and> shaper_abs (s\<lparr>sh_shaper := m\<rparr>) = shaper_abs s"
      if "ts_policies m = ts_policies (set_policy i (?p\<lparr>tp_limiters := (tp_limiters ?p)[j := ?l\<lparr>rl_packets_dropped := u\<rparr>]\<rparr>) (sh_shaper s))" for m u
      using upd [OF _ that] lc same plan by simp
    show ?thesis
    proof (cases "ucast sz \<le> rl_tokens ?l")
      case True
      let ?x = "?l\<lparr>rl_tokens := rl_tokens ?l - ucast sz, rl_bytes_processed := rl_bytes_processed ?l + ucast sz,
        rl_packets_shaped := rl_packets_shaped ?l + 1\<rparr>"
      let ?m = "(set_policy i (?p\<lparr>tp_limiters := (tp_limiters ?p)[j := ?x]\<rparr>) (sh_shaper s))
        \<lparr>ts_total_bytes_shaped := ts_total_bytes_shaped (sh_shaper s) + ucast sz,
         ts_total_packets_shaped := ts_total_packets_shaped (sh_shaper s) + 1\<rparr>"
      have "s' = s\<lparr>sh_shaper := ?m\<rparr>" "r = 0"
        using assms(2,3) Some True by (auto simp: traffic_shape_packet_def on_shaper_def Let_def)
      with True bud plan upd [of ?x ?m] lc show ?thesis by (simp add: spend_def)
    next
      case False
      let ?m = "(set_policy i (?p\<lparr>tp_limiters := (tp_limiters ?p)[j := ?l\<lparr>rl_packets_dropped := rl_packets_dropped ?l + 1\<rparr>]\<rparr>) (sh_shaper s))
        \<lparr>ts_total_packets_dropped := ts_total_packets_dropped (sh_shaper s) + 1\<rparr>"
      have "s' = s\<lparr>sh_shaper := ?m\<rparr>" "r = -1"
        using assms(2,3) Some False by (auto simp: traffic_shape_packet_def on_shaper_def Let_def)
      with False bud plan drop [of ?m] show ?thesis by (simp add: spend_def)
    qed
  qed
qed

lemma update_usage_sim:
  assumes "shaper_inv (Suc n) s" and "find_policy k (sh_shaper s) = Some i" and "shaper_step s (UpdateUsage k) = (s', r)"
  shows "shaper_inv n s' \<and> shaper_spec (shaper_abs s) (UpdateUsage k) = (shaper_abs s', r)"
proof -
  let ?p = "ts_policies (sh_shaper s) ! i" and ?u = "sum_list (map rl_bytes_processed (tp_limiters (ts_policies (sh_shaper s) ! i))) * 8"
  let ?x = "?p\<lparr>tp_current_bandwidth_usage_bps := ?u, tp_utilization_percent := (if tp_total_bandwidth_limit_bps ?p > 0
                 then Some (?u, tp_total_bandwidth_limit_bps ?p) else tp_utilization_percent ?p)\<rparr>"
  have plan: "ps_plans (shaper_abs s) k = Some (plan_of ?p)" using plan_lookup [OF assms(1)] assms(2) by simp
  have "plan_of ?x = plan_of ?p" by (simp add: plan_of_def)
  moreover have "shaper_step s (UpdateUsage k) = (s\<lparr>sh_shaper := set_policy i ?x (sh_shaper s)\<rparr>, 0)"
    using assms(2) by (simp add: traffic_update_bandwidth_usage_def on_shaper_def Let_def)
  ultimately show ?thesis
    using set_policy_sim [OF assms(1,2), of ?x "set_policy i ?x (sh_shaper s)"] policy_found [OF assms(2)]
      queues_empty [OF assms(1,2)] assms(3) plan by simp
qed

lemma classify_sim:
  assumes "shaper_inv (Suc n) s" and "find_policy k (sh_shaper s) = Some i" and "shaper_step s (Classify k src dst) = (s', r)"
  shows "shaper_inv n s' \<and> shaper_spec (shaper_abs s) (Classify k src dst) = (shaper_abs s', r)"
proof -
  let ?p = "ts_policies (sh_shaper s) ! i"
  have plan: "ps_plans (shaper_abs s) k = Some (plan_of ?p)" using plan_lookup [OF assms(1)] assms(2) by simp
  have "find (\<lambda>x. fst (snd x) = (src, dst)) (map rule_view rs) = map_option rule_view (find (\<lambda>r. tr_src_ip r = src \<and> tr_dst_ip r = dst) rs)" for rs
    by (induction rs) (auto simp: rule_view_def)
  with plan assms(2,3) shaper_inv_mono [OF assms(1)] show ?thesis
    by (auto simp: traffic_classify_packet_def plan_of_def rule_view_def split: option.splits)
qed

lemma remove_rule_sim:
  assumes "shaper_inv (Suc n) s" and "shaper_step s (RemoveRule k q) = (s', r)"
  shows "shaper_inv n s' \<and> shaper_spec (shaper_abs s) (RemoveRule k q) = (shaper_abs s', r)"
proof -
  let ?m = "sh_shaper s" and ?P = "\<lambda>p. tp_policy_id p = k \<and> find_rule q p \<noteq> None"
  have view: "first_idx (\<lambda>x. fst x = q) (map rule_view rs) = first_idx (\<lambda>r. tr_rule_id r = q) rs" for rs
    by (induction rs) (auto simp: rule_view_def)
  have dropped: "drop_rule q (plan_of p) = (case find_rule q p of None \<Rightarrow> (plan_of p, -1)
      | Some j \<Rightarrow> (plan_of (p\<lparr>tp_rules := remove_at j (tp_rules p)\<rparr>), 0))" for p
    by (simp add: drop_rule_def find_rule_def plan_of_def view map_remove_at split: option.split)
  have dist: "distinct (map tp_policy_id (ts_policies ?m))" and nz: "0 \<notin> tp_policy_id ` set (ts_policies ?m)"
    using assms(1) by (auto simp: shaper_inv_def ids_below_def list_all_iff)
  show ?thesis
  proof (cases "k = 0 \<or> q = 0 \<or> first_idx ?P (ts_policies ?m) = None")
    case True
    then have same: "s' = s" "r = -1" using assms(2) by (auto simp: traffic_rule_remove_def on_shaper_def)
    have "q = 0 \<or> drop_rule q p = (p, -1)" if "ps_plans (shaper_abs s) k = Some p" for p
      using that True plan_lookup [OF assms(1), of k] policy_found [of k ?m] nz
      by (auto simp: dropped first_idx_None split: option.split)
    with same shaper_inv_mono [OF assms(1)] show ?thesis by (auto split: option.split)
  next
    case False
    then obtain i where i: "first_idx ?P (ts_policies ?m) = Some i" and kq: "k \<noteq> 0" "q \<noteq> 0" by blast
    let ?p = "ts_policies ?m ! i"
    note d = first_idx_SomeD [OF i]
    have "first_idx (\<lambda>p. tp_policy_id p = k) (ts_policies ?m) = Some i"
      unfolding first_idx_Some using d dist by (auto simp: distinct_conv_nth)
    then have found: "find_policy k ?m = Some i" using kq by (simp add: find_policy_def id_idx_def)
    from d obtain j where j: "find_rule q ?p = Some j" by blast
    let ?x = "?p\<lparr>tp_rules := remove_at j (tp_rules ?p)\<rparr>"
    have "s' = s\<lparr>sh_shaper := set_policy i ?x ?m\<rparr>" "r = 0"
      using assms(2) i kq j by (auto simp: traffic_rule_remove_def on_shaper_def Let_def)
    with set_policy_sim [OF assms(1) found, of ?x "set_policy i ?x ?m"] policy_found [OF found]
      queues_empty [OF assms(1) found] plan_lookup [OF assms(1), of k] found j kq dropped [of ?p]
    show ?thesis by simp
  qed
qed

lemma shaper_simulation:
  assumes "shaper_inv (Suc n) s" and "True" and "shaper_step s x = (s', r)"
  shows "shaper_inv n s' \<and> shaper_spec (shaper_abs s) x = (shaper_abs s', r)"
proof -
  have one: "shaper_inv n s' \<and> shaper_spec (shaper_abs s) x = (shaper_abs s', r)"
    if x: "x \<in> {AddRule k src dst sp dp c, CreateLimiter k c rate burst, Classify k src dst, Shape k sz c, UpdateUsage k}"
    for k src dst sp dp c rate burst sz
  proof (cases "find_policy k (sh_shaper s)")
    case None
    from missing_policy_sim [OF assms(1) None assms(3) x] show ?thesis .
  next
    case (Some i)
    from x consider "x = AddRule k src dst sp dp c" | "x = CreateLimiter k c rate burst" | "x = Classify k src dst"
      | "x = Shape k sz c" | "x = UpdateUsage k" by auto
    then show ?thesis
    proof cases
      case 1
      from add_rule_sim [OF assms(1) Some assms(3) [unfolded 1]] 1 show ?thesis by blast
    next
      case 2
      from create_limiter_sim [OF assms(1) Some assms(3) [unfolded 2]] 2 show ?thesis by blast
    next
      case 3
      from classify_sim [OF assms(1) Some assms(3) [unfolded 3]] 3 show ?thesis by blast
    next
      case 4
      from shape_sim [OF assms(1) Some assms(3) [unfolded 4]] 4 show ?thesis by blast
    next
      case 5
      from update_usage_sim [OF assms(1) Some assms(3) [unfolded 5]] 5 show ?thesis by blast
    qed
  qed
  have inert: "shaper_step s x = (s, r) \<and> shaper_spec (shaper_abs s) x = (shaper_abs s, r)"
    if "x \<in> {Enqueue k q sz, Dequeue k q, Enforce k}" for k q sz
    using that assms(3) no_queue [OF assms(1)]
    by (auto simp: traffic_enqueue_packet_def traffic_dequeue_packet_def traffic_enforce_rate_limits_def on_shaper_def
        with_handle_Some)
  show ?thesis
  proof (cases x)
    case (CreatePolicy nm alg bw)
    with create_policy_sim [OF assms(1)] assms(3) show ?thesis by blast
  next
    case (DestroyPolicy k)
    with destroy_policy_sim [OF assms(1)] assms(3) show ?thesis by blast
  next
    case (RemoveRule k q)
    with remove_rule_sim [OF assms(1)] assms(3) show ?thesis by blast
  next
    case (Enqueue k q sz)
    with inert [of k q sz] shaper_inv_mono [OF assms(1)] assms(3) show ?thesis by auto
  next
    case (Dequeue k q)
    with inert [of k q] shaper_inv_mono [OF assms(1)] assms(3) show ?thesis by auto
  next
    case (Enforce k)
    with inert [of k] shaper_inv_mono [OF assms(1)] assms(3) show ?thesis by auto
  qed (use one in blast)+
qed

interpretation shaping: bounded_refinement shaper_step shaper_spec shaper_abs shaper_inv "\<lambda>x. True"
  by unfold_locales (rule shaper_simulation)

section \<open>Main theorem\<close>

definition shaper_start :: shaper_state where
  "shaper_start = \<lparr>sh_shaper = the (traffic_shaper_init True), sh_next_policy = 1, sh_next_rule = 1, sh_next_limiter = 1\<rparr>"

definition no_plans :: plans where
  "no_plans = \<lparr>ps_plans = Map.empty, ps_next_policy = 1, ps_next_rule = 1, ps_next_limiter = 1\<rparr>"

lemma shaper_start_abs: "shaper_abs shaper_start = no_plans" "n < 4294967295 \<Longrightarrow> shaper_inv n shaper_start"
  by (simp_all add: shaper_abs_def shaper_start_def no_plans_def traffic_shaper_init_def shaper_inv_def ids_below_def)

text \<open>
  Claim C35. From a new shaper, every history of fewer than 4294967295 calls gets the replies of an
  abstract shaper that keeps for every policy its rules in order and a budget for every class that has
  a limiter. A packet is classified by the first rule with its two addresses; the ports of a rule are
  never looked at. A packet of a class without a budget passes; one of a class with a budget passes
  exactly when the budget covers it, and is then paid from the budget. The budget of a class is the
  burst size of its first limiter (a second limiter for the class changes nothing), and no call ever
  adds to it: the rate of a limiter has no effect. Every queue operation fails, since nothing
  creates a queue.
\<close>

theorem traffic_refines_budgets:
  assumes "length calls < 4294967295"
  shows "snd (call_run shaper_step shaper_start calls) = snd (call_run shaper_spec no_plans calls) \<and>
    shaper_abs (fst (call_run shaper_step shaper_start calls)) = fst (call_run shaper_spec no_plans calls)"
  using shaping.bounded_results [of 0 calls shaper_start] assms shaper_start_abs by (simp add: list_all_iff)

theorem traffic_refines_budgets_witness:
  "snd (call_run shaper_step shaper_start
     [CreatePolicy ''web'' SHAPING_ALGORITHM_TOKEN_BUCKET 0, CreateLimiter 1 TRAFFIC_CLASS_BULK 1000 1500,
      AddRule 1 10 20 80 80 TRAFFIC_CLASS_BULK, Classify 1 10 20, Shape 1 1000 TRAFFIC_CLASS_BULK, UpdateUsage 1,
      Shape 1 1000 TRAFFIC_CLASS_BULK, Shape 1 500 TRAFFIC_CLASS_BULK, Enqueue 1 1 100]) = [1, 1, 1, 2, 0, 0, -1, 0, -1]"
proof -
  let ?calls = "[CreatePolicy ''web'' SHAPING_ALGORITHM_TOKEN_BUCKET 0, CreateLimiter 1 TRAFFIC_CLASS_BULK 1000 1500,
      AddRule 1 10 20 80 80 TRAFFIC_CLASS_BULK, Classify 1 10 20, Shape 1 1000 TRAFFIC_CLASS_BULK, UpdateUsage 1,
      Shape 1 1000 TRAFFIC_CLASS_BULK, Shape 1 500 TRAFFIC_CLASS_BULK, Enqueue 1 1 100]"
  have "snd (call_run shaper_spec no_plans ?calls) = [1, 1, 1, 2, 0, 0, -1, 0, -1]"
    by (simp add: no_plans_def set_plan_def spend_def Let_def map_add_def)
  then show ?thesis using traffic_refines_budgets [of ?calls] by simp
qed

section \<open>A burst is spent once\<close>

text \<open>What is left of the budget of a class, and the bytes of the class that a history lets pass.\<close>

definition budget_left :: "u32 \<Rightarrow> TrafficClass \<Rightarrow> shaper_state \<Rightarrow> nat option" where
  "budget_left k c s = (case ps_plans (shaper_abs s) k of None \<Rightarrow> None | Some p \<Rightarrow> map_option unat (pl_budget p c))"

fun passed_bytes :: "u32 \<Rightarrow> TrafficClass \<Rightarrow> shaper_call list \<Rightarrow> int list \<Rightarrow> nat" where
  "passed_bytes k c (Shape k' sz c' # xs) (r # rs) =
     (if k' = k \<and> c' = c \<and> r = 0 then unat sz else 0) + passed_bytes k c xs rs"
| "passed_bytes k c (x # xs) (r # rs) = passed_bytes k c xs rs"
| "passed_bytes k c xs rs = 0"

lemma next_policy_fresh: "shaper_inv (Suc n) s \<Longrightarrow> ps_plans (shaper_abs s) (ps_next_policy (shaper_abs s)) = None"
proof -
  assume "shaper_inv (Suc n) s"
  then have "ps_next_policy (shaper_abs s) \<notin> dom (ps_plans (shaper_abs s))"
    by (auto simp: shaper_inv_def shaper_abs_def ids_below_def list_all_iff dom_table_map)
  then show ?thesis by auto
qed

lemma budget_step:
  assumes "shaper_inv (Suc n) s" and "x \<noteq> DestroyPolicy k" and "budget_left k c s = Some b" and "shaper_step s x = (s', r)"
  shows "\<exists>b'. budget_left k c s' = Some b' \<and> b' + passed_bytes k c [x] [r] = b"
proof -
  from shaper_simulation [OF assms(1) _ assms(4)] have spec: "shaper_spec (shaper_abs s) x = (shaper_abs s', r)" by simp
  from assms(3) obtain p t where p: "ps_plans (shaper_abs s) k = Some p" and t: "pl_budget p c = Some t" and b: "b = unat t"
    by (auto simp: budget_left_def split: option.splits)
  have pay: "unat (t - ucast sz) + unat sz = unat t" if "ucast sz \<le> t" for sz :: u32
  proof -
    have "unat (ucast sz :: u64) = unat sz"
      using unsigned_less [of sz, where ?'a = nat] by (simp add: unsigned_ucast_eq take_bit_nat_eq_self)
    with that show ?thesis by (simp add: unat_sub word_le_nat_alt)
  qed
  let ?a = "shaper_abs s"
  have fresh: "ps_next_policy ?a \<noteq> k" using next_policy_fresh [OF assms(1)] p by auto
  have "\<exists>p' t'. ps_plans (fst (shaper_spec ?a x)) k = Some p' \<and> pl_budget p' c = Some t'
      \<and> unat t' + passed_bytes k c [x] [snd (shaper_spec ?a x)] = unat t"
    using assms(2) p t pay fresh
    by (cases x) (auto simp: set_plan_def drop_rule_def spend_def Let_def map_add_def split: option.split)
  with spec b show ?thesis by (auto simp: budget_left_def)
qed

lemma budget_run:
  "\<lbrakk>shaper_inv (length xs) s; DestroyPolicy k \<notin> set xs; budget_left k c s = Some b; call_run shaper_step s xs = (s', rs)\<rbrakk>
    \<Longrightarrow> \<exists>b'. budget_left k c s' = Some b' \<and> b' + passed_bytes k c xs rs = b"
proof (induction xs arbitrary: s b rs)
  case (Cons x xs)
  obtain s1 r rs1 where step: "shaper_step s x = (s1, r)" "call_run shaper_step s1 xs = (s', rs1)" "rs = r # rs1"
    using Cons.prems(4) by (auto split: prod.splits)
  have inv: "shaper_inv (Suc (length xs)) s" using Cons.prems(1) by simp
  obtain b1 where b1: "budget_left k c s1 = Some b1" "b1 + passed_bytes k c [x] [r] = b"
    using budget_step [OF inv _ Cons.prems(3) step(1)] Cons.prems(2) by auto
  have "shaper_inv (length xs) s1" using shaper_simulation [OF inv _ step(1)] by simp
  with Cons.IH [OF _ _ b1(1) step(2)] Cons.prems(2) obtain b'
    where "budget_left k c s' = Some b'" "b' + passed_bytes k c xs rs1 = b1" by auto
  moreover have "passed_bytes k c (x # xs) (r # rs1) = passed_bytes k c [x] [r] + passed_bytes k c xs rs1"
    by (cases x) simp_all
  ultimately show ?case using b1(2) step(3) by auto
qed simp

text \<open>
  The burst of a limiter is all that its class ever gets. Take any state reached from a new
  shaper in which a class of a policy has a limiter, with \<open>b\<close> bytes left, and any further calls that do
  not destroy the policy, fewer than 4294967295 in all: the bytes of the packets of that class that the
  policy lets pass, together with what is left at the end, are exactly \<open>b\<close>. So a class is never over its
  burst, and once that is spent it is blocked until the policy is destroyed, however much time passes.
\<close>

lemma traffic_burst_spent_once:
  assumes "length before + length after < 4294967295" and "DestroyPolicy k \<notin> set after"
    and "call_run shaper_step shaper_start before = (s, rs)" and "budget_left k c s = Some b"
    and "call_run shaper_step s after = (s', rs')"
  shows "\<exists>b'. budget_left k c s' = Some b' \<and> b' + passed_bytes k c after rs' = b"
proof -
  have "shaper_inv (length after + length before) shaper_start" using shaper_start_abs(2) assms(1) by simp
  from shaping.bounded_run [OF this _ assms(3)] have "shaper_inv (length after) s" by (simp add: list_all_iff)
  from budget_run [OF this assms(2,4,5)] show ?thesis .
qed

lemma traffic_burst_spent_once_witness:
  "\<exists>s rs s' rs'. call_run shaper_step shaper_start
       [CreatePolicy ''web'' SHAPING_ALGORITHM_TOKEN_BUCKET 0, CreateLimiter 1 TRAFFIC_CLASS_BULK 1000 1500] = (s, rs)
     \<and> budget_left 1 TRAFFIC_CLASS_BULK s = Some 1500
     \<and> call_run shaper_step s [Shape 1 1000 TRAFFIC_CLASS_BULK, Enforce 1, Shape 1 1000 TRAFFIC_CLASS_BULK] = (s', rs')
     \<and> (\<exists>b'. budget_left 1 TRAFFIC_CLASS_BULK s' = Some b' \<and>
          b' + passed_bytes 1 TRAFFIC_CLASS_BULK [Shape 1 1000 TRAFFIC_CLASS_BULK, Enforce 1, Shape 1 1000 TRAFFIC_CLASS_BULK] rs' = 1500)"
proof -
  let ?pre = "[CreatePolicy ''web'' SHAPING_ALGORITHM_TOKEN_BUCKET 0, CreateLimiter 1 TRAFFIC_CLASS_BULK 1000 1500]"
  let ?post = "[Shape 1 1000 TRAFFIC_CLASS_BULK, Enforce 1, Shape 1 1000 TRAFFIC_CLASS_BULK]"
  obtain s rs where pre: "call_run shaper_step shaper_start ?pre = (s, rs)" by (rule prod.exhaust)
  obtain s' rs' where post: "call_run shaper_step s ?post = (s', rs')" by (rule prod.exhaust)
  have "shaper_inv (0 + length ?pre) shaper_start" by (rule shaper_start_abs(2)) simp
  from shaping.bounded_run [OF this _ pre] have "call_run shaper_spec no_plans ?pre = (shaper_abs s, rs)"
    unfolding shaper_start_abs(1) by (auto simp only: list_all_iff)
  from arg_cong [OF this, where f = fst] have "shaper_abs s = fst (call_run shaper_spec no_plans ?pre)" by simp
  then have left: "budget_left 1 TRAFFIC_CLASS_BULK s = Some 1500"
    by (simp add: budget_left_def no_plans_def set_plan_def Let_def map_add_def)
  have "length ?pre + length ?post < 4294967295" "DestroyPolicy 1 \<notin> set ?post" by simp_all
  from traffic_burst_spent_once [OF this pre left post] pre left post show ?thesis by blast
qed

end
