(* ===== verification/IO_Scheduler.thy ===== *)
theory IO_Scheduler
  imports Service_Tables "HOL-Library.Multiset"
begin

text \<open>
  The disk request scheduler of \<open>src/io-filesystem/io_scheduler.c\<close>. A queue is an array of 1024 slots
  with a fill count and a rear index; the searches and sorts go over the first \<open>request_count\<close> slots.
  The static counter that numbers requests is an argument and a result of \<open>io_submit_request\<close>; whether
  \<open>malloc\<close> succeeds is an argument. A data buffer is the number of bytes it was allocated with, and a
  pointer to a request is the pair of its queue and its slot. The float of the metrics is kept as its
  two operands, its constant fields and the averages that are never changed are left out.

  The two sorts are the nested loops of the code, with the 32-bit bounds that the code computes, and
  reading past the array is undefined. The second half shows that they are stable sorts of the queue
  and that sorting an empty queue is undefined.
\<close>

section \<open>Constants and data\<close>

definition MAX_IO_QUEUES :: u32 where "MAX_IO_QUEUES = 32"

datatype IOOperationType = IO_READ | IO_WRITE | IO_TRIM | IO_FLUSH | IO_SYNC

datatype IORequestStatus =
  IO_STATUS_PENDING | IO_STATUS_SCHEDULED | IO_STATUS_EXECUTING | IO_STATUS_COMPLETED | IO_STATUS_FAILED

datatype IOSchedulingAlgorithm = IO_SCHED_FIFO | IO_SCHED_ELEVATOR | IO_SCHED_DEADLINE | IO_SCHED_CFQ | IO_SCHED_NOOP

record IORequest =
  iq_request_id :: u32
  iq_operation :: IOOperationType
  iq_disk_sector :: u64
  iq_sector_count :: u32
  iq_data_buffer :: "u32 option"
  iq_status :: IORequestStatus
  iq_submission_time :: u64
  iq_start_time :: u64
  iq_completion_time :: u64
  iq_priority :: u32
  iq_is_queued :: bool

record IOQueue =
  ioq_queue_id :: u32
  ioq_request_count :: u32
  ioq_requests :: "IORequest list"
  ioq_front_index :: u32
  ioq_rear_index :: u32
  ioq_total_operations :: u64
  ioq_total_sectors_read :: u64
  ioq_total_sectors_written :: u64
  ioq_total_io_time_ms :: u64

record IOScheduler =
  ios_scheduler_id :: u32
  ios_algorithm :: IOSchedulingAlgorithm
  ios_queue_count :: u32
  ios_queues :: "IOQueue list"
  ios_total_requests :: u64
  ios_total_read_operations :: u64
  ios_total_write_operations :: u64

record IOMetrics =
  iox_scheduler_id :: u32
  iox_total_requests :: u64
  iox_read_requests :: u64
  iox_write_requests :: u64
  iox_average_latency_ms :: "(u64 \<times> u64) option"

type_synonym iosched = "IOScheduler option"

definition zero_request :: IORequest where
  "zero_request = \<lparr>iq_request_id = 0, iq_operation = IO_READ, iq_disk_sector = 0, iq_sector_count = 0,
     iq_data_buffer = None, iq_status = IO_STATUS_PENDING, iq_submission_time = 0, iq_start_time = 0,
     iq_completion_time = 0, iq_priority = 0, iq_is_queued = False\<rparr>"

section \<open>Submitting and cancelling\<close>

text \<open>All 32 queues are in the structure; the loop numbers those in use.\<close>

definition zero_queue :: "u32 \<Rightarrow> IOQueue" where
  "zero_queue k = \<lparr>ioq_queue_id = k, ioq_request_count = 0, ioq_requests = replicate 1024 zero_request,
     ioq_front_index = 0, ioq_rear_index = 0, ioq_total_operations = 0, ioq_total_sectors_read = 0,
     ioq_total_sectors_written = 0, ioq_total_io_time_ms = 0\<rparr>"

definition io_scheduler_init :: "IOSchedulingAlgorithm \<Rightarrow> u32 \<Rightarrow> bool \<Rightarrow> iosched" where
  "io_scheduler_init algorithm queue_count malloc_ok =
     (if \<not> malloc_ok then None
      else let n = (if queue_count > MAX_IO_QUEUES then MAX_IO_QUEUES else queue_count)
           in Some \<lparr>ios_scheduler_id = 1, ios_algorithm = algorithm, ios_queue_count = n,
                ios_queues = map (\<lambda>i. zero_queue (if i < unat n then of_nat i else 0)) [0..<32],
                ios_total_requests = 0, ios_total_read_operations = 0, ios_total_write_operations = 0\<rparr>)"

definition io_scheduler_destroy :: "iosched \<Rightarrow> iosched \<times> int" where
  "io_scheduler_destroy h = (None, case h of None \<Rightarrow> -1 | Some m \<Rightarrow> 0)"

definition set_queue_at :: "nat \<Rightarrow> IOQueue \<Rightarrow> IOScheduler \<Rightarrow> IOScheduler" where
  "set_queue_at i q m = m\<lparr>ios_queues := (ios_queues m)[i := q]\<rparr>"

definition io_submit_request ::
    "iosched \<Rightarrow> u32 \<Rightarrow> IOOperationType \<Rightarrow> u64 \<Rightarrow> u32 \<Rightarrow> bool \<Rightarrow> (iosched \<times> u32) \<times> (nat \<times> nat) option" where
  "io_submit_request h next_id op sector nsectors malloc_ok =
     (case h of None \<Rightarrow> ((h, next_id), None)
      | Some m \<Rightarrow>
          let q = ios_queues m ! 0; rear = unat (ioq_rear_index q) in
          if nsectors = 0 \<or> ioq_request_count q \<ge> 1024 then ((h, next_id), None)
          else
            let r = zero_request\<lparr>iq_request_id := next_id, iq_operation := op, iq_disk_sector := sector,
                      iq_sector_count := nsectors\<rparr>
            in if \<not> malloc_ok
               then ((Some (set_queue_at 0 (q\<lparr>ioq_requests := (ioq_requests q)[rear := r]\<rparr>) m), next_id + 1), None)
               else
                 let r' = r\<lparr>iq_data_buffer := Some (nsectors * 512), iq_status := IO_STATUS_PENDING, iq_is_queued := True\<rparr>;
                     q' = q\<lparr>ioq_requests := (ioq_requests q)[rear := r'],
                            ioq_rear_index := (ioq_rear_index q + 1) mod 1024,
                            ioq_request_count := ioq_request_count q + 1,
                            ioq_total_sectors_read := ioq_total_sectors_read q + (if op = IO_READ then ucast nsectors else 0),
                            ioq_total_sectors_written := ioq_total_sectors_written q + (if op = IO_WRITE then ucast nsectors else 0)\<rparr>
                 in ((Some ((set_queue_at 0 q' m)\<lparr>ios_total_requests := ios_total_requests m + 1,
                        ios_total_read_operations := ios_total_read_operations m + (if op = IO_READ then 1 else 0),
                        ios_total_write_operations := ios_total_write_operations m + (if op = IO_WRITE then 1 else 0)\<rparr>), next_id + 1),
                     Some (0, rear)))"

text \<open>The live slots of a queue, and the first of them, over the queues in use, that satisfies a
  condition.\<close>

definition live :: "IOQueue \<Rightarrow> IORequest list" where
  "live q = take (unat (ioq_request_count q)) (ioq_requests q)"

fun find_request :: "(IORequest \<Rightarrow> bool) \<Rightarrow> IOQueue list \<Rightarrow> (nat \<times> nat) option" where
  "find_request P [] = None"
| "find_request P (q # qs) =
     (case first_idx P (live q) of Some j \<Rightarrow> Some (0, j)
      | None \<Rightarrow> map_option (\<lambda>(i, j). (Suc i, j)) (find_request P qs))"

definition used_queues :: "IOScheduler \<Rightarrow> IOQueue list" where
  "used_queues m = take (unat (ios_queue_count m)) (ios_queues m)"

definition io_cancel_request :: "iosched \<Rightarrow> u32 \<Rightarrow> iosched \<times> int" where
  "io_cancel_request h request_id = with_handle (-1) h (\<lambda>m.
     case find_request (\<lambda>r. iq_request_id r = request_id \<and>
            (iq_status r = IO_STATUS_PENDING \<or> iq_status r = IO_STATUS_SCHEDULED)) (used_queues m) of
       None \<Rightarrow> (m, -1)
     | Some (i, j) \<Rightarrow>
         let q = ios_queues m ! i
         in (set_queue_at i (q\<lparr>ioq_requests := (ioq_requests q)[j := zero_request],
               ioq_request_count := ioq_request_count q - 1\<rparr>) m, 0))"

section \<open>Sorting\<close>

text \<open>The inner loop from slot \<open>j\<close> for \<open>k\<close> more steps, and the outer loop from \<open>i\<close> for \<open>k\<close> more steps: the
  bounds \<open>request_count - 1\<close> and \<open>request_count - i - 1\<close> are unsigned.\<close>

fun sort_inner :: "(IORequest \<Rightarrow> IORequest \<Rightarrow> bool) \<Rightarrow> nat \<Rightarrow> nat \<Rightarrow> IORequest list \<Rightarrow> IORequest list outcome" where
  "sort_inner swap 0 j rs = Done rs"
| "sort_inner swap (Suc k) j rs =
     (if Suc j \<ge> length rs then Undef
      else sort_inner swap k (Suc j) (if swap (rs ! j) (rs ! Suc j) then rs[j := rs ! Suc j, Suc j := rs ! j] else rs))"

fun sort_outer :: "(IORequest \<Rightarrow> IORequest \<Rightarrow> bool) \<Rightarrow> u32 \<Rightarrow> nat \<Rightarrow> u32 \<Rightarrow> IORequest list \<Rightarrow> IORequest list outcome" where
  "sort_outer swap n 0 i rs = Done rs"
| "sort_outer swap n (Suc k) i rs =
     (case sort_inner swap (unat (n - i - 1)) 0 rs of Undef \<Rightarrow> Undef
      | Done rs' \<Rightarrow> sort_outer swap n k (i + 1) rs')"

definition sort_queue :: "(IORequest \<Rightarrow> IORequest \<Rightarrow> bool) \<Rightarrow> iosched \<Rightarrow> u32 \<Rightarrow> (iosched \<times> int) outcome" where
  "sort_queue swap h queue_id = with_handle_ub (-1) h (\<lambda>m.
     if queue_id \<ge> ios_queue_count m then Done (m, -1)
     else
       let q = ios_queues m ! unat queue_id; n = ioq_request_count q in
       (case sort_outer swap n (unat (n - 1)) 0 (ioq_requests q) of Undef \<Rightarrow> Undef
        | Done rs \<Rightarrow> Done (set_queue_at (unat queue_id) (q\<lparr>ioq_requests := rs\<rparr>) m, sint n)))"

definition io_elevator_sort :: "iosched \<Rightarrow> u32 \<Rightarrow> u64 \<Rightarrow> (iosched \<times> int) outcome" where
  "io_elevator_sort h queue_id current_head_position =
     sort_queue (\<lambda>a b. iq_disk_sector a > iq_disk_sector b) h queue_id"

definition io_deadline_sort :: "iosched \<Rightarrow> u32 \<Rightarrow> (iosched \<times> int) outcome" where
  "io_deadline_sort h queue_id = sort_queue (\<lambda>a b. iq_priority a < iq_priority b) h queue_id"

definition io_schedule_requests :: "iosched \<Rightarrow> u32 \<Rightarrow> (iosched \<times> int) outcome" where
  "io_schedule_requests h queue_id =
     (case h of None \<Rightarrow> Done (None, -1)
      | Some m \<Rightarrow>
          if queue_id \<ge> ios_queue_count m then Done (h, -1)
          else (case ios_algorithm m of
                  IO_SCHED_ELEVATOR \<Rightarrow> io_elevator_sort h queue_id 0
                | IO_SCHED_DEADLINE \<Rightarrow> io_deadline_sort h queue_id
                | _ \<Rightarrow> Done (h, 0)))"

section \<open>Executing and completing\<close>

text \<open>The request is the one in slot \<open>j\<close> of queue \<open>i\<close>.\<close>

definition io_execute_request :: "iosched \<Rightarrow> (nat \<times> nat) option \<Rightarrow> iosched \<times> int" where
  "io_execute_request h request =
     (case (h, request) of
        (Some m, Some (i, j)) \<Rightarrow>
          let q = ios_queues m ! i; r = ioq_requests q ! j;
              done = (if iq_operation r \<in> {IO_READ, IO_WRITE, IO_FLUSH} then ucast (iq_sector_count r * 10)
                      else iq_completion_time r)
          in (Some (set_queue_at i (q\<lparr>ioq_requests := (ioq_requests q)[j :=
                r\<lparr>iq_status := IO_STATUS_COMPLETED, iq_start_time := 0, iq_completion_time := done\<rparr>]\<rparr>) m), 0)
      | _ \<Rightarrow> (h, -1))"

definition io_complete_request :: "iosched \<Rightarrow> u32 \<Rightarrow> iosched \<times> int" where
  "io_complete_request h request_id = with_handle (-1) h (\<lambda>m.
     case find_request (\<lambda>r. iq_request_id r = request_id) (used_queues m) of None \<Rightarrow> (m, -1)
     | Some (i, j) \<Rightarrow>
         let q = ios_queues m ! i; r = ioq_requests q ! j
         in (set_queue_at i (q\<lparr>ioq_total_io_time_ms := ioq_total_io_time_ms q + (iq_completion_time r - iq_submission_time r),
               ioq_total_operations := ioq_total_operations q + 1,
               ioq_requests := (ioq_requests q)[j := zero_request]\<rparr>) m, 0))"

definition io_get_next_request :: "iosched \<Rightarrow> u32 \<Rightarrow> bool \<Rightarrow> iosched \<times> int \<times> (nat \<times> nat) option" where
  "io_get_next_request h queue_id request = with_handle (-1, None) h (\<lambda>m.
     if queue_id \<ge> ios_queue_count m \<or> \<not> request then (m, -1, None)
     else
       let q = ios_queues m ! unat queue_id in
       (case first_idx (\<lambda>r. iq_status r = IO_STATUS_PENDING) (live q) of None \<Rightarrow> (m, -1, None)
        | Some j \<Rightarrow>
            (set_queue_at (unat queue_id) (q\<lparr>ioq_requests := (ioq_requests q)[j :=
               (ioq_requests q ! j)\<lparr>iq_status := IO_STATUS_SCHEDULED\<rparr>]\<rparr>) m, 0, Some (unat queue_id, j))))"

definition io_get_metrics :: "iosched \<Rightarrow> bool \<Rightarrow> int \<times> IOMetrics option" where
  "io_get_metrics h metrics = read_handle (-1, None) h (\<lambda>m.
     if \<not> metrics then (-1, None)
     else (0, Some \<lparr>iox_scheduler_id = ios_scheduler_id m, iox_total_requests = ios_total_requests m,
        iox_read_requests = ios_total_read_operations m, iox_write_requests = ios_total_write_operations m,
        iox_average_latency_ms = (if ios_total_requests m > 0
          then Some (sum_list (map ioq_total_io_time_ms (used_queues m)), ios_total_requests m) else None)\<rparr>))"

section \<open>The loops as passes over a list\<close>

text \<open>One pass of the inner loop over the slots it visits, for a key.\<close>

fun bubble :: "('a \<Rightarrow> 'k::linorder) \<Rightarrow> 'a list \<Rightarrow> 'a list" where
  "bubble key (a # b # xs) = (if key b < key a then b # bubble key (a # xs) else a # bubble key (b # xs))"
| "bubble key xs = xs"

lemma length_bubble [simp]: "length (bubble key xs) = length xs"
  by (induction key xs rule: bubble.induct) auto

lemma mset_bubble [simp]: "mset (bubble key xs) = mset xs"
  by (induction key xs rule: bubble.induct) auto

lemma set_bubble [simp]: "set (bubble key xs) = set xs"
  by (metis mset_bubble set_mset_mset)

lemma bubble_stable: "filter (\<lambda>x. key x = c) (bubble key xs) = filter (\<lambda>x. key x = c) xs"
  by (induction key xs rule: bubble.induct) auto

lemma bubble_max: "x \<in> set xs \<Longrightarrow> key x \<le> key (last (bubble key xs))"
proof (induction key xs arbitrary: x rule: bubble.induct)
  case (1 key a b xs)
  have ne: "bubble key (y # xs) \<noteq> []" for y using length_bubble [of key "y # xs"] by (cases "bubble key (y # xs)") auto
  show ?case
  proof (cases "key b < key a")
    case True
    with 1(1) [of a] 1(1) [of x] 1(3) have "key x \<le> key (last (bubble key (a # xs)))" by auto
    with True ne show ?thesis by simp
  next
    case False
    with 1(2) [of b] 1(2) [of x] 1(3) have "key x \<le> key (last (bubble key (b # xs)))" by auto
    with False ne show ?thesis by simp
  qed
qed auto

lemma sort_inner_bubble:
  assumes "j + k < length rs" and "\<And>a b. swap a b \<longleftrightarrow> key b < key a"
  shows "sort_inner swap k j rs = Done (take j rs @ bubble key (take (Suc k) (drop j rs)) @ drop (Suc (j + k)) rs)"
  using assms(1)
proof (induction k arbitrary: j rs)
  case 0
  then show ?case by (simp add: take_Suc hd_drop_conv_nth id_take_nth_drop [symmetric])
next
  case (Suc k)
  let ?rs = "if swap (rs ! j) (rs ! Suc j) then rs[j := rs ! Suc j, Suc j := rs ! j] else rs"
  obtain ps a b qs where rs: "rs = ps @ a # b # qs" and j: "length ps = j"
  proof
    show "rs = take j rs @ rs ! j # rs ! Suc j # drop (Suc (Suc j)) rs"
      using Suc.prems by (simp add: Cons_nth_drop_Suc)
  qed (use Suc.prems in simp)
  have "?rs = ps @ (if key b < key a then b # a # qs else a # b # qs)"
    unfolding rs assms(2) by (simp add: j [symmetric] nth_append list_update_append)
  then have step: "?rs = (ps @ [if key b < key a then b else a]) @ (if key b < key a then a else b) # qs" by simp
  have "sort_inner swap (Suc k) j rs = sort_inner swap k (Suc j) ?rs" using Suc.prems by simp
  also have "\<dots> = Done (take (Suc j) ?rs @ bubble key (take (Suc k) (drop (Suc j) ?rs)) @ drop (Suc (Suc j + k)) ?rs)"
    by (rule Suc.IH) (use Suc.prems in auto)
  also have "\<dots> = Done (take j rs @ bubble key (take (Suc (Suc k)) (drop j rs)) @ drop (Suc (j + Suc k)) rs)"
    unfolding step by (simp add: rs j [symmetric])
  finally show ?case .
qed

text \<open>The first \<open>n\<close> slots in the course of the outer loop: the last \<open>i\<close> of them are in place.\<close>

definition in_place :: "('a \<Rightarrow> 'k::linorder) \<Rightarrow> 'a list \<Rightarrow> nat \<Rightarrow> 'a list \<Rightarrow> bool" where
  "in_place key xs i ys \<longleftrightarrow> mset ys = mset xs \<and> (\<forall>c. filter (\<lambda>x. key x = c) ys = filter (\<lambda>x. key x = c) xs)
     \<and> sorted (map key (drop (length xs - i) ys))
     \<and> (\<forall>x\<in>set (take (length xs - i) ys). \<forall>y\<in>set (drop (length xs - i) ys). key x \<le> key y)"

lemma in_place_length: "in_place key xs i ys \<Longrightarrow> length ys = length xs"
  unfolding in_place_def by (blast dest: mset_eq_length)

lemma in_place_step:
  assumes "in_place key xs i ys" and "i < length xs"
  shows "in_place key xs (Suc i) (bubble key (take (length xs - i) ys) @ drop (length xs - i) ys)"
proof -
  let ?m = "length xs - i" and ?us = "take (length xs - i) ys" and ?vs = "drop (length xs - i) ys"
  have len: "length ys = length xs" by (rule in_place_length [OF assms(1)])
  let ?b = "bubble key ?us"
  have lb: "length ?b = ?m" using len by simp
  have ne: "?b \<noteq> []" using lb assms(2) by (metis length_0_conv less_numeral_extra(3) zero_less_diff)
  then have split: "?b = butlast ?b @ [last ?b]" by simp
  have m1: "length xs - Suc i = length (butlast ?b)" using lb assms(2) by simp
  have parts: "take (length xs - Suc i) (?b @ ?vs) = butlast ?b" "drop (length xs - Suc i) (?b @ ?vs) = last ?b # ?vs"
    unfolding m1 by (subst split, simp)+
  have le: "key x \<le> key y" if "x \<in> set ?us" "y \<in> set ?vs" for x y using assms(1) that by (simp add: in_place_def)
  have max: "key x \<le> key (last ?b)" if "x \<in> set ?us" for x using bubble_max [OF that] .
  have last_in: "last ?b \<in> set ?us" using last_in_set [OF ne] by simp
  have sub: "set (butlast ?b) \<subseteq> set ?us" by (metis in_set_butlastD set_bubble subsetI)
  show ?thesis
    unfolding in_place_def parts
  proof (intro conjI allI ballI)
    have "mset (?us @ ?vs) = mset xs" using assms(1) by (simp only: in_place_def append_take_drop_id)
    then show "mset (?b @ ?vs) = mset xs" by (simp only: mset_append mset_bubble)
    fix c
    have "filter (\<lambda>x. key x = c) (?us @ ?vs) = filter (\<lambda>x. key x = c) xs"
      using assms(1) by (simp only: in_place_def append_take_drop_id)
    then show "filter (\<lambda>x. key x = c) (?b @ ?vs) = filter (\<lambda>x. key x = c) xs"
      by (simp only: filter_append bubble_stable)
  next
    show "sorted (map key (last ?b # ?vs))" using assms(1) le [OF last_in] by (simp add: in_place_def)
  next
    fix x y assume "x \<in> set (butlast ?b)" "y \<in> set (last ?b # ?vs)"
    then show "key x \<le> key y" using sub max le by auto
  qed
qed

lemma sort_outer_in_place:
  assumes "\<And>a b. swap a b \<longleftrightarrow> key b < key a" and n: "unat n \<le> length rs"
    and "in_place key xs (unat i) (take (unat n) rs)" and "length xs = unat n" and "unat i + k < unat n"
  shows "\<exists>ys. sort_outer swap n k i rs = Done (ys @ drop (unat n) rs) \<and> in_place key xs (unat i + k) ys"
  using n assms(3-)
proof (induction k arbitrary: i rs)
  case 0
  then show ?case by (intro exI [of _ "take (unat n) rs"]) simp
next
  case (Suc k)
  let ?m = "unat n - unat i"
  have i1: "unat (i + 1) = Suc (unat i)" using Suc.prems(4) unsigned_less [of n, where ?'a = nat] by (simp add: unat_word_ariths)
  have "unat (n - i) = ?m" using Suc.prems(4) by (simp add: unat_sub word_le_nat_alt)
  then have bound: "unat (n - i - 1) = ?m - 1" using Suc.prems(4) by (simp add: unat_sub word_le_nat_alt)
  have Sm: "Suc (unat n - Suc (unat i)) = ?m" using Suc.prems(4) by simp
  let ?us = "bubble key (take ?m (take (unat n) rs))" and ?ws = "drop ?m (take (unat n) rs)"
  have tk: "take ?m (take (unat n) rs) = take ?m rs" "?ws @ drop (unat n) rs = drop ?m rs"
    by (simp_all add: drop_take min_def) (metis append_take_drop_id diff_le_self drop_drop le_add_diff_inverse2)
  have inner: "sort_inner swap (?m - 1) 0 rs = Done ((?us @ ?ws) @ drop (unat n) rs)"
    using sort_inner_bubble [of 0 "?m - 1" rs swap key] assms(1) Suc.prems by (simp add: Sm tk)
  have "length (?us @ ?ws) = unat n" using Suc.prems(1) by simp
  moreover have "in_place key xs (unat (i + 1)) (?us @ ?ws)"
    using in_place_step [OF Suc.prems(2)] Suc.prems(3,4) by (simp add: i1)
  ultimately show ?case
    using Suc.IH [of "(?us @ ?ws) @ drop (unat n) rs" "i + 1"] Suc.prems i1 inner bound by simp
qed

lemma in_place_sorted:
  assumes "in_place key xs (length xs - 1) ys" and "xs \<noteq> []"
  shows "ys = sort_key key xs"
proof -
  have one: "length xs - (length xs - 1) = 1" using assms(2) by (cases xs) auto
  have len: "length ys = length xs" by (rule in_place_length [OF assms(1)])
  then obtain y zs where ys: "ys = y # zs" using assms(2) by (cases ys) auto
  have "sorted (map key ys)" using assms(1) unfolding in_place_def one ys by simp
  moreover have "mset ys = mset xs" "filter (\<lambda>x. key k = key x) ys = filter (\<lambda>x. key k = key x) xs" for k
    using assms(1) by (simp_all add: in_place_def eq_commute [of "key k"])
  ultimately show ?thesis by (metis properties_for_sort_key)
qed

lemma sort_queue_sorts:
  assumes "\<And>a b. swap a b \<longleftrightarrow> key b < key a" and "0 < n" and "unat n \<le> length rs"
  shows "sort_outer swap n (unat (n - 1)) 0 rs = Done (sort_key key (take (unat n) rs) @ drop (unat n) rs)"
proof -
  let ?xs = "take (unat n) rs"
  have pos: "0 < unat n" using assms(2) by (simp add: word_less_nat_alt)
  then have n1: "unat (n - 1) = unat n - 1" by (simp add: unat_sub word_le_nat_alt Suc_leI)
  have "in_place key ?xs 0 ?xs" by (simp add: in_place_def)
  then obtain ys where "sort_outer swap n (unat n - 1) 0 rs = Done (ys @ drop (unat n) rs)" "in_place key ?xs (unat n - 1) ys"
    using sort_outer_in_place [of swap key n rs ?xs 0 "unat n - 1"] assms(1,3) pos by auto
  moreover have "?xs \<noteq> []" "length ?xs = unat n" using assms(3) pos by auto
  ultimately show ?thesis using in_place_sorted [of key ?xs ys] n1 by simp
qed

text \<open>With no requests both loop bounds wrap around, and the inner loop runs off the array.\<close>

lemma sort_inner_runs_off: "j < length rs \<Longrightarrow> length rs \<le> j + k \<Longrightarrow> sort_inner swap k j rs = Undef"
proof (induction k arbitrary: j rs)
  case (Suc k)
  show ?case
  proof (cases "Suc j < length rs")
    case True
    with Suc.prems Suc.IH [of "Suc j" "if swap (rs ! j) (rs ! Suc j) then rs[j := rs ! Suc j, Suc j := rs ! j] else rs"]
    show ?thesis by auto
  qed simp
qed simp

lemma sort_empty_undefined:
  assumes "rs \<noteq> []" and "length rs < 4294967295"
  shows "sort_outer swap 0 (unat (0 - 1 :: u32)) 0 rs = Undef"
proof -
  have outer: "unat (0 - 1 :: u32) = Suc 4294967294" and inner: "unat (0 - 0 - 1 :: u32) = 4294967295"
    by (simp_all add: unsigned_minus_1_eq_mask mask_eq_exp_minus_1)
  have "sort_inner swap 4294967295 0 rs = Undef" using assms by (intro sort_inner_runs_off) auto
  then show ?thesis by (simp only: outer sort_outer.simps inner outcome.case)
qed

section \<open>Histories\<close>

datatype io_call = Submit IOOperationType u64 u32 bool | Cancel u32 | Schedule u32 | ElevatorSort u32 u64
  | DeadlineSort u32 | Execute "nat \<times> nat" | Complete u32 | NextRequest u32

definition drop_result :: "('s \<times> 'r) outcome \<Rightarrow> 's outcome" where
  "drop_result x = (case x of Undef \<Rightarrow> Undef | Done (s, r) \<Rightarrow> Done s)"

fun io_step :: "iosched \<Rightarrow> u32 \<Rightarrow> io_call \<Rightarrow> (iosched \<times> u32) outcome" where
  "io_step h n (Submit op sector k ok) = Done (fst (io_submit_request h n op sector k ok))"
| "io_step h n (Cancel k) = Done (fst (io_cancel_request h k), n)"
| "io_step h n (Schedule k) = (case drop_result (io_schedule_requests h k) of Undef \<Rightarrow> Undef | Done h' \<Rightarrow> Done (h', n))"
| "io_step h n (ElevatorSort k p) = (case drop_result (io_elevator_sort h k p) of Undef \<Rightarrow> Undef | Done h' \<Rightarrow> Done (h', n))"
| "io_step h n (DeadlineSort k) = (case drop_result (io_deadline_sort h k) of Undef \<Rightarrow> Undef | Done h' \<Rightarrow> Done (h', n))"
| "io_step h n (Execute p) = Done (fst (io_execute_request h (Some p)), n)"
| "io_step h n (Complete k) = Done (fst (io_complete_request h k), n)"
| "io_step h n (NextRequest k) = Done (fst (io_get_next_request h k True), n)"

fun io_run :: "iosched \<Rightarrow> u32 \<Rightarrow> io_call list \<Rightarrow> (iosched \<times> u32) outcome" where
  "io_run h n [] = Done (h, n)"
| "io_run h n (c # cs) = (case io_step h n c of Undef \<Rightarrow> Undef | Done (h', n') \<Rightarrow> io_run h' n' cs)"

definition queue_wf :: "IOQueue \<Rightarrow> bool" where
  "queue_wf q \<longleftrightarrow> length (ioq_requests q) = 1024 \<and> ioq_request_count q \<le> 1024 \<and> ioq_rear_index q < 1024"

definition io_wf :: "IOScheduler \<Rightarrow> bool" where
  "io_wf m \<longleftrightarrow> length (ios_queues m) = 32 \<and> ios_queue_count m \<le> 32 \<and> list_all queue_wf (ios_queues m)"

definition io_ok :: "iosched \<Rightarrow> bool" where
  "io_ok h = (case h of None \<Rightarrow> False | Some m \<Rightarrow> io_wf m)"

lemma io_ok_simps [simp]: "io_ok None = False" "io_ok (Some m) = io_wf m"
  by (simp_all add: io_ok_def)

lemma io_wf_nth: "\<lbrakk>io_wf m; i < 32\<rbrakk> \<Longrightarrow> queue_wf (ios_queues m ! i)"
  by (simp add: io_wf_def list_all_length)

lemma io_wf_set: "\<lbrakk>io_wf m; queue_wf q\<rbrakk> \<Longrightarrow> io_wf (set_queue_at i q m)"
  by (auto simp: io_wf_def set_queue_at_def list_all_iff dest: set_update_subset_insert [THEN subsetD])

lemma io_wf_update [simp]:
  "io_wf (m\<lparr>ios_total_requests := a\<rparr>) = io_wf m" "io_wf (m\<lparr>ios_total_read_operations := a\<rparr>) = io_wf m"
  "io_wf (m\<lparr>ios_total_write_operations := a\<rparr>) = io_wf m"
  by (simp_all add: io_wf_def)

lemma io_init_wf: "io_ok (io_scheduler_init algorithm k True)"
  by (auto simp: io_scheduler_init_def io_wf_def MAX_IO_QUEUES_def list_all_iff queue_wf_def zero_queue_def Let_def)

lemma queue_wf_slot: "queue_wf q \<Longrightarrow> queue_wf (q\<lparr>ioq_requests := (ioq_requests q)[j := r]\<rparr>)"
  by (simp add: queue_wf_def)

lemma find_requestD:
  "find_request P qs = Some (i, j) \<Longrightarrow> i < length qs \<and> j < unat (ioq_request_count (qs ! i)) \<and> P (live (qs ! i) ! j)"
proof (induction qs arbitrary: i)
  case (Cons q qs)
  show ?case
  proof (cases "first_idx P (live q)")
    case None
    with Cons show ?thesis by auto
  next
    case (Some k)
    with Cons.prems show ?thesis by (auto simp: live_def dest: first_idx_SomeD)
  qed
qed simp

lemma find_used:
  assumes "io_wf m" and "find_request P (used_queues m) = Some (i, j)"
  shows "i < 32" and "j < unat (ioq_request_count (ios_queues m ! i))" and "j < 1024"
proof -
  from find_requestD [OF assms(2)] assms(1) show "i < 32" and j: "j < unat (ioq_request_count (ios_queues m ! i))"
    by (auto simp: used_queues_def io_wf_def)
  with io_wf_nth [OF assms(1)] show "j < 1024" by (fastforce simp: queue_wf_def word_le_nat_alt)
qed

lemma queue_index: "io_wf m \<Longrightarrow> k < ios_queue_count m \<Longrightarrow> unat k < 32"
  by (simp add: io_wf_def word_less_nat_alt word_le_nat_alt)

text \<open>The sorts of a well-formed scheduler, completely.\<close>

lemma sort_queue_exact:
  assumes "io_wf m" and "k < ios_queue_count m" and "\<And>a b. swap a b \<longleftrightarrow> key b < key a"
  defines "q \<equiv> ios_queues m ! unat k"
  shows "sort_queue swap (Some m) k =
    (if ioq_request_count q = 0 then Undef
     else Done (Some (set_queue_at (unat k) (q\<lparr>ioq_requests := sort_key key (live q)
            @ drop (unat (ioq_request_count q)) (ioq_requests q)\<rparr>) m), int (unat (ioq_request_count q))))"
proof -
  have q: "queue_wf q" unfolding q_def by (rule io_wf_nth [OF assms(1) queue_index [OF assms(1,2)]])
  let ?n = "ioq_request_count q"
  have n: "unat ?n \<le> 1024" and len: "length (ioq_requests q) = 1024" using q by (simp_all add: queue_wf_def word_le_nat_alt)
  show ?thesis
  proof (cases "?n = 0")
    case True
    have "ioq_requests q \<noteq> []" using len by auto
    with sort_empty_undefined [of "ioq_requests q" swap] len True
    have "sort_outer swap ?n (unat (?n - 1)) 0 (ioq_requests q) = Undef" by simp
    with True assms(2) show ?thesis by (simp add: sort_queue_def Let_def with_handle_ub_def q_def)
  next
    case False
    then have "0 < ?n" by (simp add: word_neq_0_conv)
    from sort_queue_sorts [of swap key, OF assms(3) this, of "ioq_requests q"] n len
    have "sort_outer swap ?n (unat (?n - 1)) 0 (ioq_requests q) =
        Done (sort_key key (live q) @ drop (unat ?n) (ioq_requests q))" by (simp add: live_def)
    moreover have "?n < 2147483648" using n by (simp add: word_less_nat_alt)
    then have "sint ?n = int (unat ?n)" by (simp add: sint_small)
    moreover have "\<not> ios_queue_count m \<le> k" using assms(2) by (simp add: not_le)
    ultimately show ?thesis using False by (simp add: sort_queue_def Let_def with_handle_ub_def q_def)
  qed
qed

lemma sort_queue_wf:
  assumes "io_wf m" and "sort_queue swap (Some m) k = Done (h, r)" and "\<And>a b. swap a b \<longleftrightarrow> (key b :: 'k::linorder) < key a"
  shows "io_ok h"
proof (cases "k < ios_queue_count m")
  case True
  let ?q = "ios_queues m ! unat k"
  have q: "queue_wf ?q" by (rule io_wf_nth [OF assms(1) queue_index [OF assms(1) True]])
  then have "queue_wf (?q\<lparr>ioq_requests := sort_key key (live ?q) @ drop (unat (ioq_request_count ?q)) (ioq_requests ?q)\<rparr>)"
    by (simp add: queue_wf_def live_def word_le_nat_alt)
  from io_wf_set [OF assms(1) this] sort_queue_exact [OF assms(1) True assms(3)] assms(2) show ?thesis
    by (auto split: if_splits)
next
  case False
  then have "ios_queue_count m \<le> k" by (simp add: not_less)
  with assms(1,2) show ?thesis by (auto simp: sort_queue_def with_handle_ub_def)
qed

lemma priority_key: "a < b \<longleftrightarrow> - uint b < - uint a" for a b :: u32
  by (simp add: word_less_def)

lemma io_step_wf:
  assumes "io_step h n c = Done (h', n')" and "io_ok h"
  shows "io_ok h'"
proof -
  from assms(2) obtain m where h: "h = Some m" and m: "io_wf m" by (auto simp: io_ok_def split: option.splits)
  have ele: "io_ok h1" if "io_elevator_sort h k p = Done (h1, r)" for k p h1 r
    by (rule sort_queue_wf [OF m that [unfolded h io_elevator_sort_def], where key = iq_disk_sector]) simp
  have dead: "io_ok h1" if "io_deadline_sort h k = Done (h1, r)" for k h1 r
    by (rule sort_queue_wf [OF m that [unfolded h io_deadline_sort_def], where key = "\<lambda>r. - uint (iq_priority r)"])
      (rule priority_key)
  show ?thesis
  proof (cases c)
    case (Submit op sector k ok)
    let ?q = "ios_queues m ! 0"
    have q: "queue_wf ?q" by (rule io_wf_nth [OF m]) simp
    have rear: "(ioq_rear_index ?q + 1) mod 1024 < 1024" by (simp add: word_less_nat_alt unat_mod)
    have grow: "ioq_request_count ?q + 1 \<le> 1024" if "\<not> 1024 \<le> ioq_request_count ?q"
      using that by (simp add: word_le_nat_alt unat_word_ariths)
    from assms(1) Submit h m q rear grow show ?thesis
      by (auto simp: io_submit_request_def Let_def split: if_splits intro!: io_wf_set) (auto simp: queue_wf_def)
  next
    case (Cancel k)
    show ?thesis
    proof (cases "find_request (\<lambda>r. iq_request_id r = k \<and> (iq_status r = IO_STATUS_PENDING \<or> iq_status r = IO_STATUS_SCHEDULED)) (used_queues m)")
      case None
      with assms(1) Cancel h m show ?thesis by (auto simp: io_cancel_request_def)
    next
      case (Some ij)
      obtain i j where ij: "ij = (i, j)" by force
      note f = find_used [OF m Some [unfolded ij]]
      have "ioq_request_count (ios_queues m ! i) - 1 \<le> 1024"
        using f(2) io_wf_nth [OF m f(1)] by (auto simp: queue_wf_def word_le_nat_alt unat_sub Suc_leI)
      with assms(1) Cancel h m io_wf_nth [OF m f(1)] Some ij show ?thesis
        by (auto simp: io_cancel_request_def Let_def intro!: io_wf_set) (auto simp: queue_wf_def)
    qed
  next
    case (Schedule k)
    with assms(1) h m ele dead show ?thesis
      by (auto simp: io_schedule_requests_def drop_result_def split: outcome.splits if_splits IOSchedulingAlgorithm.splits)
  next
    case (ElevatorSort k p)
    with assms(1) ele show ?thesis by (auto simp: drop_result_def split: outcome.splits)
  next
    case (DeadlineSort k)
    with assms(1) dead show ?thesis by (auto simp: drop_result_def split: outcome.splits)
  next
    case (Execute p)
    obtain i j where p: "p = (i, j)" by force
    show ?thesis
    proof (cases "i < 32")
      case True
      with assms(1) Execute h m p io_wf_nth [OF m True] show ?thesis
        by (auto simp: io_execute_request_def Let_def intro!: io_wf_set queue_wf_slot)
    next
      case False
      with m have "(ios_queues m)[i := q] = ios_queues m" for q by (simp add: io_wf_def list_update_beyond)
      then have "set_queue_at i q m = m" for q by (simp add: set_queue_at_def)
      with assms(1) Execute h m p show ?thesis by (auto simp: io_execute_request_def Let_def)
    qed
  next
    case (Complete k)
    show ?thesis
    proof (cases "find_request (\<lambda>r. iq_request_id r = k) (used_queues m)")
      case None
      with assms(1) Complete h m show ?thesis by (auto simp: io_complete_request_def)
    next
      case (Some ij)
      obtain i j where ij: "ij = (i, j)" by force
      from assms(1) Complete h m io_wf_nth [OF m find_used(1) [OF m Some [unfolded ij]]] Some ij show ?thesis
        by (auto simp: io_complete_request_def Let_def intro!: io_wf_set) (auto simp: queue_wf_def)
    qed
  next
    case (NextRequest k)
    show ?thesis
    proof (cases "k < ios_queue_count m")
      case True
      with assms(1) NextRequest h m io_wf_nth [OF m queue_index [OF m True]] show ?thesis
        by (auto simp: io_get_next_request_def Let_def with_handle_Some intro!: io_wf_set queue_wf_slot split: option.splits)
    next
      case False
      then have "ios_queue_count m \<le> k" by (simp add: not_less)
      with assms(1) NextRequest h m show ?thesis by (auto simp: io_get_next_request_def with_handle_Some)
    qed
  qed
qed

lemma io_run_wf: "\<lbrakk>io_run h n cs = Done (h', n'); io_ok h\<rbrakk> \<Longrightarrow> io_ok h'"
  by (induction h n cs rule: io_run.induct) (auto split: outcome.splits dest: io_step_wf)

text \<open>A submission that finds room and memory.\<close>

lemma io_submit_adds:
  assumes "io_wf m" and "ioq_request_count (ios_queues m ! 0) < 1024" and "k \<noteq> 0"
  defines "q \<equiv> ios_queues m ! 0"
  obtains m' where "io_submit_request (Some m) n op sector k True = ((Some m', n + 1), Some (0, unat (ioq_rear_index q)))"
    and "io_wf m'" and "ios_queue_count m' = ios_queue_count m"
    and "ioq_request_count (ios_queues m' ! 0) = ioq_request_count q + 1"
    and "ioq_rear_index (ios_queues m' ! 0) = (ioq_rear_index q + 1) mod 1024"
    and "ioq_requests (ios_queues m' ! 0) = (ioq_requests q)[unat (ioq_rear_index q) :=
      zero_request\<lparr>iq_request_id := n, iq_operation := op, iq_disk_sector := sector, iq_sector_count := k,
        iq_data_buffer := Some (k * 512), iq_status := IO_STATUS_PENDING, iq_is_queued := True\<rparr>]"
proof -
  have room: "\<not> 1024 \<le> ioq_request_count q" using assms(2) by (simp add: q_def not_le)
  have len: "0 < length (ios_queues m)" using assms(1) by (simp add: io_wf_def)
  obtain m' where sub: "io_submit_request (Some m) n op sector k True = ((Some m', n + 1), Some (0, unat (ioq_rear_index q)))"
    using room assms(3) by (simp add: io_submit_request_def Let_def q_def)
  then have "io_step (Some m) n (Submit op sector k True) = Done (Some m', n + 1)" by simp
  from io_step_wf [OF this] assms(1) have "io_wf m'" by simp
  with sub show thesis
    by (rule that) (use sub room assms(3) len in \<open>auto simp: io_submit_request_def Let_def q_def set_queue_at_def\<close>)
qed

section \<open>Main theorem\<close>

text \<open>
  Claim C17. After any history of submissions, cancellations, sorts, executions, completions and
  fetches of a new scheduler, for every queue in use: the nested loops of the elevator sort put the
  live requests of the queue in the order of the library's stable sort by sector, those of the deadline
  sort in its order by descending priority; slots that are not live and everything else stay as they
  are, and the count is returned. But on a queue without requests both sorts are undefined: the loop
  bound \<open>request_count - 1\<close> wraps around to 4294967295 and the loop runs off the array.
\<close>

theorem io_sorts_exact:
  assumes "io_run (io_scheduler_init algorithm queue_count True) n0 calls = Done (Some m, n)" and "k < ios_queue_count m"
  defines "q \<equiv> ios_queues m ! unat k"
  defines "sorted_by \<equiv> \<lambda>rs. set_queue_at (unat k) (q\<lparr>ioq_requests := rs @ drop (unat (ioq_request_count q)) (ioq_requests q)\<rparr>) m"
  shows "io_elevator_sort (Some m) k p =
      (if ioq_request_count q = 0 then Undef
       else Done (Some (sorted_by (sort_key iq_disk_sector (live q))), int (length (live q))))
    \<and> io_deadline_sort (Some m) k =
      (if ioq_request_count q = 0 then Undef
       else Done (Some (sorted_by (sort_key (\<lambda>r. - uint (iq_priority r)) (live q))), int (length (live q))))"
proof -
  have m: "io_wf m" using io_run_wf [OF assms(1) io_init_wf] by simp
  have "queue_wf q" unfolding q_def by (rule io_wf_nth [OF m queue_index [OF m assms(2)]])
  then have len: "length (live q) = unat (ioq_request_count q)" by (simp add: live_def queue_wf_def word_le_nat_alt)
  show ?thesis
    unfolding io_elevator_sort_def io_deadline_sort_def
    using sort_queue_exact [OF m assms(2), of "\<lambda>a b. iq_disk_sector a > iq_disk_sector b" iq_disk_sector]
      sort_queue_exact [OF m assms(2) priority_key, of iq_priority]
    by (simp add: q_def [symmetric] sorted_by_def len)
qed

text \<open>Two requests, for sectors 9 and 4, are put in the order 4, 9.\<close>

theorem io_sorts_exact_witness:
  "\<exists>m m'. io_run (io_scheduler_init IO_SCHED_ELEVATOR 1 True) 1 [Submit IO_READ 9 1 True, Submit IO_WRITE 4 1 True] = Done (Some m, 3)
     \<and> io_elevator_sort (Some m) 0 0 = Done (Some m', 2) \<and> map iq_disk_sector (live (ios_queues m' ! 0)) = [4, 9]"
proof -
  let ?calls = "[Submit IO_READ 9 1 True, Submit IO_WRITE 4 1 True]"
  let ?a = "zero_request\<lparr>iq_request_id := 1, iq_operation := IO_READ, iq_disk_sector := 9, iq_sector_count := 1,
    iq_data_buffer := Some 512, iq_status := IO_STATUS_PENDING, iq_is_queued := True\<rparr>"
  let ?b = "zero_request\<lparr>iq_request_id := 2, iq_operation := IO_WRITE, iq_disk_sector := 4, iq_sector_count := 1,
    iq_data_buffer := Some 512, iq_status := IO_STATUS_PENDING, iq_is_queued := True\<rparr>"
  obtain m where run: "io_run (io_scheduler_init IO_SCHED_ELEVATOR 1 True) 1 ?calls = Done (Some m, 3)"
    and count: "ioq_request_count (ios_queues m ! 0) = 2" and used: "ios_queue_count m = 1"
    and reqs: "ioq_requests (ios_queues m ! 0) = (replicate 1024 zero_request)[0 := ?a, 1 := ?b]"
    and len: "length (ios_queues m) = 32"
  proof -
    let ?m0 = "the (io_scheduler_init IO_SCHED_ELEVATOR 1 True)"
    have init: "io_scheduler_init IO_SCHED_ELEVATOR 1 True = Some ?m0" by (simp add: io_scheduler_init_def Let_def)
    have m0: "io_wf ?m0" "ios_queues ?m0 ! 0 = zero_queue 0" "ios_queue_count ?m0 = 1"
      using io_init_wf [of IO_SCHED_ELEVATOR 1] init by (auto simp: io_scheduler_init_def Let_def MAX_IO_QUEUES_def)
    obtain m1 where m1: "io_submit_request (Some ?m0) 1 IO_READ 9 1 True = ((Some m1, 1 + 1), Some (0, unat (ioq_rear_index (ios_queues ?m0 ! 0))))"
      "io_wf m1" "ios_queue_count m1 = ios_queue_count ?m0" "ioq_request_count (ios_queues m1 ! 0) = ioq_request_count (ios_queues ?m0 ! 0) + 1"
      "ioq_rear_index (ios_queues m1 ! 0) = (ioq_rear_index (ios_queues ?m0 ! 0) + 1) mod 1024"
      "ioq_requests (ios_queues m1 ! 0) = (ioq_requests (ios_queues ?m0 ! 0))[unat (ioq_rear_index (ios_queues ?m0 ! 0)) := ?a]"
      by (rule io_submit_adds [OF m0(1), of 1 1 IO_READ 9]) (simp_all add: m0(2) zero_queue_def)
    obtain m2 where m2: "io_submit_request (Some m1) 2 IO_WRITE 4 1 True = ((Some m2, 2 + 1), Some (0, unat (ioq_rear_index (ios_queues m1 ! 0))))"
      "io_wf m2" "ios_queue_count m2 = ios_queue_count m1" "ioq_request_count (ios_queues m2 ! 0) = ioq_request_count (ios_queues m1 ! 0) + 1"
      "ioq_requests (ios_queues m2 ! 0) = (ioq_requests (ios_queues m1 ! 0))[unat (ioq_rear_index (ios_queues m1 ! 0)) := ?b]"
      by (rule io_submit_adds [OF m1(2), of 1 2 IO_WRITE 4]) (simp_all add: m0(2) m1 zero_queue_def)
    show thesis
      by (rule that [of m2]) (use init m0 m1 m2 in \<open>simp_all add: zero_queue_def io_wf_def del: option.sel\<close>)
  qed
  have two: "take 2 (replicate 1024 zero_request) = [zero_request, zero_request]"
    by (simp add: numeral_2_eq_2)
  then have live: "live (ios_queues m ! 0) = [?a, ?b]" by (simp add: live_def count reqs take_update_swap)
  have sort: "sort_key iq_disk_sector [?a, ?b] = [?b, ?a]" by (simp add: zero_request_def)
  let ?q = "ios_queues m ! 0"
  let ?m' = "set_queue_at 0 (?q\<lparr>ioq_requests := [?b, ?a] @ drop 2 (ioq_requests ?q)\<rparr>) m"
  have "io_elevator_sort (Some m) 0 0 = Done (Some ?m', 2)"
    using io_sorts_exact [OF run, of 0 0] used count live sort by simp
  moreover have "map iq_disk_sector (live (ios_queues ?m' ! 0)) = [4, 9]"
    using len by (simp add: set_queue_at_def live_def count zero_request_def)
  ultimately show ?thesis using run by (intro exI [of _ m] exI [of _ ?m'] conjI)
qed

text \<open>A completed request leaves a zeroed slot, whose status reads as pending, among the live ones: the
  next fetch succeeds, whatever else the queue holds.\<close>

lemma io_completed_slot_is_fetched:
  assumes "io_wf m" and "find_request (\<lambda>r. iq_request_id r = k) (used_queues m) = Some (i, j)"
    and "io_complete_request (Some m) k = (Some m', r)"
  shows "\<exists>m'' slot. io_get_next_request (Some m') (of_nat i) True = (Some m'', 0, Some (i, slot)) \<and> slot \<le> j"
proof -
  note f = find_used [OF assms(1,2)]
  let ?q = "ios_queues m ! i"
  have used: "i < unat (ios_queue_count m)" using find_requestD [OF assms(2)] by (simp add: used_queues_def)
  have i: "unat (of_nat i :: u32) = i" using f(1) by (simp add: unat_of_nat)
  have m': "ios_queues m' ! i = ?q\<lparr>ioq_total_io_time_ms := ioq_total_io_time_ms ?q
        + (iq_completion_time (ioq_requests ?q ! j) - iq_submission_time (ioq_requests ?q ! j)),
      ioq_total_operations := ioq_total_operations ?q + 1, ioq_requests := (ioq_requests ?q)[j := zero_request]\<rparr>"
    "ios_queue_count m' = ios_queue_count m"
    using assms f(1) by (auto simp: io_complete_request_def Let_def set_queue_at_def io_wf_def)
  have len: "length (ioq_requests ?q) = 1024" using io_wf_nth [OF assms(1) f(1)] by (simp add: queue_wf_def)
  have slot: "live (ios_queues m' ! i) ! j = zero_request" "j < length (live (ios_queues m' ! i))"
    using f(2,3) len by (simp_all add: live_def m')
  then have "zero_request \<in> set (live (ios_queues m' ! i))" by (metis nth_mem)
  then have "first_idx (\<lambda>r. iq_status r = IO_STATUS_PENDING) (live (ios_queues m' ! i)) \<noteq> None"
    unfolding first_idx_None by (metis IORequest.select_convs(6) zero_request_def)
  then obtain s where s: "first_idx (\<lambda>r. iq_status r = IO_STATUS_PENDING) (live (ios_queues m' ! i)) = Some s" by blast
  moreover have "s \<le> j"
    using s slot unfolding first_idx_Some by (metis IORequest.select_convs(6) not_le zero_request_def)
  moreover have "\<not> ios_queue_count m' \<le> of_nat i" using used i m'(2) by (simp add: not_le word_less_nat_alt)
  ultimately show ?thesis by (auto simp: io_get_next_request_def Let_def i)
qed

end
