(* ===== verification/Memory_Pools.thy ===== *)
theory Memory_Pools
  imports Service_Tables
begin

text \<open>
  The pool allocator of \<open>src/memory-management/memory_pool_allocator.c\<close>. Pointers are 64-bit addresses,
  0 the null pointer; the address that \<open>malloc\<close> returns for a new pool is an argument (\<open>None\<close> when it
  fails). The static counters that number pools and blocks are arguments and results of the
  operations that use them. A destroyed pool and a freed block stay in their arrays as zeroed slots.
  The ratios, floats, are kept as the pairs of numbers they are computed from; the average
  fragmentation, which is never changed, is left out.

  The second half shows that every block lies inside its pool, that blocks are disjoint as long as
  none has been freed, and that blocks overlap once one has.
\<close>

section \<open>Constants and data\<close>

definition MAX_MEMORY_POOLS :: nat where "MAX_MEMORY_POOLS = 64"
definition MAX_POOL_SIZE :: u64 where "MAX_POOL_SIZE = 1024 * 1024 * 1024"

datatype PoolType = POOL_FIXED_SIZE | POOL_VARIABLE_SIZE | POOL_SLAB

record MemoryBlock =
  mb_block_id :: u32
  mb_block_ptr :: u64
  mb_block_size :: u64
  mb_is_allocated :: bool
  mb_allocations :: u32
  mb_allocation_time :: u64

record MemoryPool =
  mp_pool_id :: u32
  mp_pool_type :: PoolType
  mp_pool_size :: u64
  mp_pool_base :: u64
  mp_blocks :: "MemoryBlock list"
  mp_total_allocated :: u64
  mp_total_free :: u64
  mp_peak_usage :: u64
  mp_allocation_count :: u32
  mp_deallocation_count :: u32
  mp_fragmentation_ratio :: "(u32 \<times> u32) option"

record MemoryAllocator =
  ma_allocator_id :: u32
  ma_pools :: "MemoryPool list"
  ma_total_memory_managed :: u64
  ma_total_allocated :: u64
  ma_total_free :: u64
  ma_total_allocations :: u32
  ma_total_deallocations :: u32

record AllocatorMetrics =
  mx_allocator_id :: u32
  mx_total_memory :: u64
  mx_used_memory :: u64
  mx_free_memory :: u64
  mx_utilization_percent :: "(u64 \<times> u64) option"
  mx_total_allocations :: u32

type_synonym pools = "MemoryAllocator option"

definition zero_block :: MemoryBlock where
  "zero_block = \<lparr>mb_block_id = 0, mb_block_ptr = 0, mb_block_size = 0, mb_is_allocated = False, mb_allocations = 0,
     mb_allocation_time = 0\<rparr>"

definition zero_pool :: MemoryPool where
  "zero_pool = \<lparr>mp_pool_id = 0, mp_pool_type = POOL_FIXED_SIZE, mp_pool_size = 0, mp_pool_base = 0, mp_blocks = [],
     mp_total_allocated = 0, mp_total_free = 0, mp_peak_usage = 0, mp_allocation_count = 0, mp_deallocation_count = 0,
     mp_fragmentation_ratio = None\<rparr>"

section \<open>Pools\<close>

definition allocator_init :: "u64 \<Rightarrow> bool \<Rightarrow> pools" where
  "allocator_init total_memory malloc_ok =
     (if \<not> malloc_ok then None
      else Some \<lparr>ma_allocator_id = 1, ma_pools = [], ma_total_memory_managed = total_memory, ma_total_allocated = 0,
        ma_total_free = total_memory, ma_total_allocations = 0, ma_total_deallocations = 0\<rparr>)"

definition allocator_destroy :: "pools \<Rightarrow> pools \<times> int" where
  "allocator_destroy h = (None, case h of None \<Rightarrow> -1 | Some m \<Rightarrow> 0)"

text \<open>The result is the index of the new pool. When \<open>malloc\<close> fails the count is not raised, so the slot
  stays free and only the counter has moved.\<close>

definition allocator_create_pool :: "pools \<Rightarrow> u32 \<Rightarrow> PoolType \<Rightarrow> u64 \<Rightarrow> u64 option \<Rightarrow> (pools \<times> u32) \<times> nat option" where
  "allocator_create_pool h next_pool_id type pool_size malloc_result =
     (case h of None \<Rightarrow> ((h, next_pool_id), None)
      | Some m \<Rightarrow>
          if length (ma_pools m) \<ge> MAX_MEMORY_POOLS \<or> pool_size > MAX_POOL_SIZE then ((h, next_pool_id), None)
          else
            (case malloc_result of None \<Rightarrow> ((h, next_pool_id + 1), None)
             | Some base \<Rightarrow>
                 ((Some (m\<lparr>ma_pools := ma_pools m @ [zero_pool\<lparr>mp_pool_id := next_pool_id, mp_pool_type := type,
                      mp_pool_size := pool_size, mp_pool_base := base, mp_total_free := pool_size\<rparr>],
                    ma_total_free := ma_total_free m - pool_size\<rparr>), next_pool_id + 1), Some (length (ma_pools m)))))"

definition find_pool :: "u32 \<Rightarrow> MemoryAllocator \<Rightarrow> nat option" where
  "find_pool pool_id m = first_idx (\<lambda>p. mp_pool_id p = pool_id) (ma_pools m)"

definition set_pool :: "nat \<Rightarrow> MemoryPool \<Rightarrow> MemoryAllocator \<Rightarrow> MemoryAllocator" where
  "set_pool i p m = m\<lparr>ma_pools := (ma_pools m)[i := p]\<rparr>"

definition allocator_destroy_pool :: "pools \<Rightarrow> u32 \<Rightarrow> pools \<times> int" where
  "allocator_destroy_pool h pool_id = with_handle (-1) h (\<lambda>m.
     case find_pool pool_id m of None \<Rightarrow> (m, -1)
     | Some i \<Rightarrow> ((set_pool i zero_pool m)\<lparr>ma_total_free := ma_total_free m + mp_pool_size (ma_pools m ! i)\<rparr>, 0))"

section \<open>Blocks\<close>

definition allocator_allocate :: "pools \<Rightarrow> u32 \<Rightarrow> u32 \<Rightarrow> u64 \<Rightarrow> (pools \<times> u32) \<times> u64" where
  "allocator_allocate h next_block_id pool_id sz =
     (case h of None \<Rightarrow> ((h, next_block_id), 0)
      | Some m \<Rightarrow>
          if sz = 0 then ((h, next_block_id), 0)
          else
            (case find_pool pool_id m of None \<Rightarrow> ((h, next_block_id), 0)
             | Some i \<Rightarrow>
                 let p = ma_pools m ! i in
                 if mp_total_free p < sz \<or> length (mp_blocks p) \<ge> 4096 then ((h, next_block_id), 0)
                 else
                   let b = \<lparr>mb_block_id = next_block_id, mb_block_ptr = mp_pool_base p + mp_total_allocated p,
                             mb_block_size = sz, mb_is_allocated = True, mb_allocations = 1, mb_allocation_time = 0\<rparr>;
                       used = mp_total_allocated p + sz;
                       p' = p\<lparr>mp_blocks := mp_blocks p @ [b], mp_total_allocated := used,
                              mp_total_free := mp_total_free p - sz, mp_allocation_count := mp_allocation_count p + 1,
                              mp_peak_usage := (if used > mp_peak_usage p then used else mp_peak_usage p)\<rparr>
                   in ((Some ((set_pool i p' m)\<lparr>ma_total_allocated := ma_total_allocated m + sz,
                          ma_total_allocations := ma_total_allocations m + 1\<rparr>), next_block_id + 1), mb_block_ptr b)))"

definition find_block :: "u64 \<Rightarrow> MemoryPool \<Rightarrow> nat option" where
  "find_block ptr p = first_idx (\<lambda>b. mb_block_ptr b = ptr \<and> mb_is_allocated b) (mp_blocks p)"

definition allocator_deallocate :: "pools \<Rightarrow> u32 \<Rightarrow> u64 \<Rightarrow> pools \<times> int" where
  "allocator_deallocate h pool_id ptr = with_handle (-1) h (\<lambda>m.
     if ptr = 0 then (m, -1)
     else
       (case first_idx (\<lambda>p. mp_pool_id p = pool_id \<and> find_block ptr p \<noteq> None) (ma_pools m) of None \<Rightarrow> (m, -1)
        | Some i \<Rightarrow>
            let p = ma_pools m ! i; j = the (find_block ptr p); sz = mb_block_size (mp_blocks p ! j);
                p' = p\<lparr>mp_total_allocated := mp_total_allocated p - sz, mp_total_free := mp_total_free p + sz,
                       mp_deallocation_count := mp_deallocation_count p + 1,
                       mp_blocks := (mp_blocks p)[j := zero_block]\<rparr>
            in ((set_pool i p' m)\<lparr>ma_total_allocated := ma_total_allocated m - sz,
                  ma_total_deallocations := ma_total_deallocations m + 1\<rparr>, 0)))"

definition allocator_resize_block :: "pools \<Rightarrow> u32 \<Rightarrow> u64 \<Rightarrow> u64 \<Rightarrow> int" where
  "allocator_resize_block h pool_id ptr new_size = (if h = None \<or> ptr = 0 \<or> new_size = 0 then -1 else 0)"

section \<open>Maintenance and metrics\<close>

definition allocator_defragment_pool :: "pools \<Rightarrow> u32 \<Rightarrow> pools \<times> int" where
  "allocator_defragment_pool h pool_id = with_handle (-1) h (\<lambda>m.
     case find_pool pool_id m of None \<Rightarrow> (m, -1)
     | Some i \<Rightarrow>
         let p = ma_pools m ! i; free_blocks = length (filter (\<lambda>b. \<not> mb_is_allocated b) (mp_blocks p))
         in (if free_blocks > 0
             then set_pool i (p\<lparr>mp_fragmentation_ratio := Some (of_nat free_blocks, of_nat (length (mp_blocks p)))\<rparr>) m
             else m, 0))"

definition allocator_compact_pool :: "pools \<Rightarrow> u32 \<Rightarrow> pools \<times> int" where
  "allocator_compact_pool h pool_id =
     (case h of None \<Rightarrow> (None, -1)
      | Some m \<Rightarrow> if find_pool pool_id m = None then (h, -1) else allocator_defragment_pool h pool_id)"

definition allocator_enable_statistics :: "pools \<Rightarrow> int" where
  "allocator_enable_statistics h = (if h = None then -1 else 0)"

definition allocator_get_pool_statistics :: "pools \<Rightarrow> u32 \<Rightarrow> int" where
  "allocator_get_pool_statistics h pool_id = read_handle (-1) h (\<lambda>m. if find_pool pool_id m = None then -1 else 0)"

definition allocator_get_metrics :: "pools \<Rightarrow> bool \<Rightarrow> int \<times> AllocatorMetrics option" where
  "allocator_get_metrics h metrics = read_handle (-1, None) h (\<lambda>m.
     if \<not> metrics then (-1, None)
     else (0, Some \<lparr>mx_allocator_id = ma_allocator_id m, mx_total_memory = ma_total_memory_managed m,
        mx_used_memory = ma_total_allocated m, mx_free_memory = ma_total_free m,
        mx_utilization_percent = (if ma_total_memory_managed m > 0
          then Some (ma_total_allocated m, ma_total_memory_managed m) else None),
        mx_total_allocations = ma_total_allocations m\<rparr>))"

section \<open>Histories\<close>

datatype pool_call = CreatePool PoolType u64 "u64 option" | DestroyPool u32 | Allocate u32 u64 | Deallocate u32 u64
  | Defragment u32 | Compact u32

record pool_state =
  pst_allocator :: pools
  pst_next_pool :: u32
  pst_next_block :: u32

fun pool_step :: "pool_state \<Rightarrow> pool_call \<Rightarrow> pool_state" where
  "pool_step s (CreatePool t n base) =
     (let ((h, nx), r) = allocator_create_pool (pst_allocator s) (pst_next_pool s) t n base
      in s\<lparr>pst_allocator := h, pst_next_pool := nx\<rparr>)"
| "pool_step s (DestroyPool k) = s\<lparr>pst_allocator := fst (allocator_destroy_pool (pst_allocator s) k)\<rparr>"
| "pool_step s (Allocate k n) =
     (let ((h, nx), r) = allocator_allocate (pst_allocator s) (pst_next_block s) k n
      in s\<lparr>pst_allocator := h, pst_next_block := nx\<rparr>)"
| "pool_step s (Deallocate k ptr) = s\<lparr>pst_allocator := fst (allocator_deallocate (pst_allocator s) k ptr)\<rparr>"
| "pool_step s (Defragment k) = s\<lparr>pst_allocator := fst (allocator_defragment_pool (pst_allocator s) k)\<rparr>"
| "pool_step s (Compact k) = s\<lparr>pst_allocator := fst (allocator_compact_pool (pst_allocator s) k)\<rparr>"

text \<open>What \<open>malloc\<close> promises: a region that does not wrap around the address space.\<close>

fun malloc_sound :: "pool_call \<Rightarrow> bool" where
  "malloc_sound (CreatePool t n (Some base)) \<longleftrightarrow> base \<noteq> 0 \<and> unat base + unat n < 2 ^ 64"
| "malloc_sound c \<longleftrightarrow> True"

fun is_deallocate :: "pool_call \<Rightarrow> bool" where
  "is_deallocate (Deallocate k ptr) \<longleftrightarrow> True"
| "is_deallocate c \<longleftrightarrow> False"

definition allocated_bytes :: "MemoryPool \<Rightarrow> nat" where
  "allocated_bytes p = sum_list (map (\<lambda>b. if mb_is_allocated b then unat (mb_block_size b) else 0) (mp_blocks p))"

definition block_inside :: "MemoryPool \<Rightarrow> MemoryBlock \<Rightarrow> bool" where
  "block_inside p b \<longleftrightarrow> unat (mp_pool_base p) \<le> unat (mb_block_ptr b) \<and>
     unat (mb_block_ptr b) + unat (mb_block_size b) \<le> unat (mp_pool_base p) + unat (mp_pool_size p)"

definition pool_exact :: "MemoryPool \<Rightarrow> bool" where
  "pool_exact p \<longleftrightarrow> unat (mp_pool_base p) + unat (mp_pool_size p) < 2 ^ 64 \<and> mp_pool_size p \<le> MAX_POOL_SIZE
     \<and> unat (mp_total_allocated p) = allocated_bytes p
     \<and> unat (mp_total_allocated p) + unat (mp_total_free p) = unat (mp_pool_size p)
     \<and> (\<forall>b\<in>set (mp_blocks p). mb_is_allocated b \<longrightarrow> block_inside p b)"

definition blocks_disjoint :: "MemoryPool \<Rightarrow> bool" where
  "blocks_disjoint p \<longleftrightarrow> (\<forall>i j. i < j \<longrightarrow> j < length (mp_blocks p) \<longrightarrow>
     unat (mb_block_ptr (mp_blocks p ! i)) + unat (mb_block_size (mp_blocks p ! i)) \<le> unat (mb_block_ptr (mp_blocks p ! j)))"

text \<open>Blocks that follow each other from the base of the pool, none of them freed.\<close>

definition packed :: "MemoryPool \<Rightarrow> bool" where
  "packed p \<longleftrightarrow> list_all mb_is_allocated (mp_blocks p) \<and> (\<forall>i<length (mp_blocks p).
     unat (mb_block_ptr (mp_blocks p ! i)) =
       unat (mp_pool_base p) + sum_list (map (\<lambda>b. unat (mb_block_size b)) (take i (mp_blocks p))))"

section \<open>One pool\<close>

lemma pool_exact_cong:
  assumes "mp_pool_base p = mp_pool_base q" "mp_pool_size p = mp_pool_size q" "mp_blocks p = mp_blocks q"
    "mp_total_allocated p = mp_total_allocated q" "mp_total_free p = mp_total_free q"
  shows "pool_exact p = pool_exact q" and "packed p = packed q"
  using assms by (simp_all add: pool_exact_def packed_def block_inside_def allocated_bytes_def)

lemma new_pool_exact:
  assumes "unat base + unat n < 2 ^ 64" and "n \<le> MAX_POOL_SIZE"
  shows "pool_exact (zero_pool\<lparr>mp_pool_id := k, mp_pool_type := t, mp_pool_size := n, mp_pool_base := base, mp_total_free := n\<rparr>)"
    and "packed (zero_pool\<lparr>mp_pool_id := k, mp_pool_type := t, mp_pool_size := n, mp_pool_base := base, mp_total_free := n\<rparr>)"
  using assms by (simp_all add: pool_exact_def packed_def allocated_bytes_def zero_pool_def)

lemma zero_pool_exact: "pool_exact zero_pool" "packed zero_pool"
  by (simp_all add: pool_exact_def packed_def allocated_bytes_def zero_pool_def)

lemma allocate_pool:
  assumes exact: "pool_exact p" and room: "\<not> mp_total_free p < sz"
    and b: "mb_block_ptr b = mp_pool_base p + mp_total_allocated p" "mb_block_size b = sz" "mb_is_allocated b"
    and p': "mp_pool_base p' = mp_pool_base p" "mp_pool_size p' = mp_pool_size p" "mp_blocks p' = mp_blocks p @ [b]"
      "mp_total_allocated p' = mp_total_allocated p + sz" "mp_total_free p' = mp_total_free p - sz"
  shows "pool_exact p'" and "packed p \<Longrightarrow> packed p'"
proof -
  have address: "unat (mb_block_ptr b) = unat (mp_pool_base p) + unat (mp_total_allocated p)"
    using exact by (simp add: b pool_exact_def unat_word_ariths)
  have fits: "unat (mp_total_allocated p) + unat sz \<le> unat (mp_pool_size p)"
    using exact room by (simp add: pool_exact_def word_less_nat_alt)
  have "unat (mp_total_allocated p') = unat (mp_total_allocated p) + unat sz"
    using fits exact by (simp add: p' pool_exact_def unat_word_ariths)
  moreover have "unat (mp_total_free p') = unat (mp_total_free p) - unat sz"
    using room by (simp add: p' unat_sub not_less)
  moreover have "allocated_bytes p' = allocated_bytes p + unat sz" by (simp add: allocated_bytes_def p' b)
  moreover have "block_inside p' b" using fits by (simp add: block_inside_def p' address b(2))
  moreover have "block_inside p' c = block_inside p c" for c by (simp add: block_inside_def p')
  moreover have "unat sz \<le> unat (mp_total_free p)" using room by (simp add: word_less_nat_alt)
  ultimately show "pool_exact p'" using exact by (auto simp: pool_exact_def p')
  assume packed: "packed p"
  then have "allocated_bytes p = sum_list (map (\<lambda>b. unat (mb_block_size b)) (mp_blocks p))"
    unfolding allocated_bytes_def packed_def list_all_iff by (intro arg_cong [where f = sum_list] map_cong) auto
  with packed exact show "packed p'"
    by (auto simp: packed_def p' b(3) nth_append less_Suc_eq address pool_exact_def)
qed

lemma allocate_record:
  fixes k c :: u32 and u :: u64
  assumes "pool_exact p" and "\<not> mp_total_free p < sz"
  defines "b \<equiv> \<lparr>mb_block_id = k, mb_block_ptr = mp_pool_base p + mp_total_allocated p, mb_block_size = sz,
    mb_is_allocated = True, mb_allocations = 1, mb_allocation_time = 0\<rparr>"
  defines "p' \<equiv> p\<lparr>mp_blocks := mp_blocks p @ [b], mp_total_allocated := mp_total_allocated p + sz,
    mp_total_free := mp_total_free p - sz, mp_allocation_count := c, mp_peak_usage := u\<rparr>"
  shows "pool_exact p'" and "packed p \<Longrightarrow> packed p'"
  using allocate_pool [OF assms(1,2), of b p'] by (simp_all add: b_def p'_def)

lemma packed_disjoint:
  assumes "packed p"
  shows "blocks_disjoint p"
  unfolding blocks_disjoint_def
proof (intro allI impI)
  fix i j assume ij: "i < j" "j < length (mp_blocks p)"
  let ?size = "\<lambda>b. unat (mb_block_size b)"
  have "take (Suc i) (mp_blocks p) = take i (mp_blocks p) @ [mp_blocks p ! i]" using ij by (simp add: take_Suc_conv_app_nth)
  then have "sum_list (map ?size (take i (mp_blocks p))) + ?size (mp_blocks p ! i) = sum_list (map ?size (take (Suc i) (mp_blocks p)))"
    by simp
  also have "\<dots> \<le> sum_list (map ?size (take j (mp_blocks p)))"
  proof -
    have "take j (mp_blocks p) = take (Suc i) (mp_blocks p) @ take (j - Suc i) (drop (Suc i) (mp_blocks p))"
      using ij by (simp add: take_add [symmetric] del: take_add)
    then show ?thesis by simp
  qed
  finally show "unat (mb_block_ptr (mp_blocks p ! i)) + ?size (mp_blocks p ! i) \<le> unat (mb_block_ptr (mp_blocks p ! j))"
    using assms ij by (simp add: packed_def)
qed

lemma deallocate_pool_exact:
  assumes "pool_exact p" and "find_block ptr p = Some j"
  defines "sz \<equiv> mb_block_size (mp_blocks p ! j)"
  shows "pool_exact (p\<lparr>mp_total_allocated := mp_total_allocated p - sz, mp_total_free := mp_total_free p + sz,
    mp_deallocation_count := c, mp_blocks := (mp_blocks p)[j := zero_block]\<rparr>)" (is "pool_exact ?p")
proof -
  have j: "j < length (mp_blocks p)" and live: "mb_is_allocated (mp_blocks p ! j)"
    using first_idx_SomeD [OF assms(2) [unfolded find_block_def]] by auto
  let ?f = "\<lambda>b. if mb_is_allocated b then unat (mb_block_size b) else 0"
  have "sum_list (map ?f (mp_blocks p)) = sum_list (map ?f (take j (mp_blocks p))) + (?f (mp_blocks p ! j) + sum_list (map ?f (drop (Suc j) (mp_blocks p))))"
    by (subst id_take_nth_drop [OF j]) simp
  moreover have "sum_list (map ?f ((mp_blocks p)[j := zero_block])) = sum_list (map ?f (take j (mp_blocks p))) + sum_list (map ?f (drop (Suc j) (mp_blocks p)))"
    using j by (simp add: upd_conv_take_nth_drop zero_block_def)
  ultimately have bytes: "allocated_bytes ?p + unat sz = allocated_bytes p"
    using live by (simp add: allocated_bytes_def sz_def)
  have le: "sz \<le> mp_total_allocated p" using bytes assms(1) by (simp add: pool_exact_def word_le_nat_alt)
  have "unat (mp_total_free p + sz) = unat (mp_total_free p) + unat sz"
    using assms(1) le by (simp add: pool_exact_def unat_word_ariths word_le_nat_alt)
  moreover have "mb_is_allocated b \<longrightarrow> block_inside ?p b" if "b \<in> set ((mp_blocks p)[j := zero_block])" for b
  proof -
    have "b = zero_block \<or> b \<in> set (mp_blocks p)" using set_update_subset_insert that by fastforce
    then show ?thesis using assms(1) by (auto simp: pool_exact_def block_inside_def zero_block_def)
  qed
  ultimately show ?thesis
    using assms(1) bytes le by (auto simp: pool_exact_def unat_sub word_le_nat_alt)
qed

section \<open>Every pool\<close>

definition all_pools :: "(MemoryPool \<Rightarrow> bool) \<Rightarrow> pool_state \<Rightarrow> bool" where
  "all_pools P s = (case pst_allocator s of None \<Rightarrow> True | Some m \<Rightarrow> list_all P (ma_pools m))"

lemma set_pool_all: "\<lbrakk>list_all P (ma_pools m); P p\<rbrakk> \<Longrightarrow> list_all P (ma_pools (set_pool i p m))"
  by (auto simp: set_pool_def list_all_iff dest: set_update_subset_insert [THEN subsetD])

lemma find_pool_all: "\<lbrakk>list_all P (ma_pools m); find_pool k m = Some i\<rbrakk> \<Longrightarrow> P (ma_pools m ! i)"
  by (auto simp: find_pool_def list_all_iff dest: first_idx_SomeD)

text \<open>A property of pools that every operation but freeing keeps.\<close>

lemma pool_step_keeps:
  assumes s: "all_pools P s" and ok: "malloc_sound c" and "\<not> is_deallocate c"
    and new: "\<And>k t n base. \<lbrakk>unat base + unat n < 2 ^ 64; n \<le> MAX_POOL_SIZE\<rbrakk> \<Longrightarrow>
      P (zero_pool\<lparr>mp_pool_id := k, mp_pool_type := t, mp_pool_size := n, mp_pool_base := base, mp_total_free := n\<rparr>)"
    and zero: "P zero_pool"
    and frag: "\<And>p r. P p \<Longrightarrow> P (p\<lparr>mp_fragmentation_ratio := r\<rparr>)"
    and alloc: "\<And>p sz k c u. \<lbrakk>P p; \<not> mp_total_free p < sz\<rbrakk> \<Longrightarrow>
      P (p\<lparr>mp_blocks := mp_blocks p @ [\<lparr>mb_block_id = k, mb_block_ptr = mp_pool_base p + mp_total_allocated p,
            mb_block_size = sz, mb_is_allocated = True, mb_allocations = 1, mb_allocation_time = 0\<rparr>],
          mp_total_allocated := mp_total_allocated p + sz, mp_total_free := mp_total_free p - sz,
          mp_allocation_count := c, mp_peak_usage := u\<rparr>)"
  shows "all_pools P (pool_step s c)"
proof (cases "pst_allocator s")
  case None
  with assms(3) show ?thesis
    by (cases c) (simp_all add: all_pools_def allocator_create_pool_def allocator_destroy_pool_def allocator_allocate_def
        allocator_defragment_pool_def allocator_compact_pool_def)
next
  case (Some m)
  with s have m: "list_all P (ma_pools m)" by (simp add: all_pools_def)
  have defrag: "all_pools P (s\<lparr>pst_allocator := fst (allocator_defragment_pool (Some m) k)\<rparr>)" for k
    using m find_pool_all [OF m] frag
    by (auto simp: allocator_defragment_pool_def all_pools_def Let_def set_pool_all split: option.split)
  show ?thesis
  proof (cases c)
    case (CreatePool t n base)
    with m Some ok new show ?thesis
      by (auto simp: allocator_create_pool_def all_pools_def split: option.split if_split)
  next
    case (DestroyPool k)
    with m Some zero show ?thesis
      by (auto simp: allocator_destroy_pool_def all_pools_def set_pool_all split: option.split)
  next
    case (Allocate k n)
    with m Some find_pool_all [OF m] alloc show ?thesis
      by (auto simp: allocator_allocate_def all_pools_def Let_def set_pool_all split: option.split)
  next
    case (Compact k)
    with m Some defrag [of k] show ?thesis by (auto simp: allocator_compact_pool_def all_pools_def)
  qed (use Some defrag assms(3) in auto)
qed

lemma pool_step_packed:
  assumes "all_pools (\<lambda>p. pool_exact p \<and> packed p) s" and "malloc_sound c" and "\<not> is_deallocate c"
  shows "all_pools (\<lambda>p. pool_exact p \<and> packed p) (pool_step s c)"
proof (rule pool_step_keeps [OF assms], goal_cases)
  case (3 p r)
  then show ?case using pool_exact_cong [of "p\<lparr>mp_fragmentation_ratio := r\<rparr>" p] by simp
next
  case (4 p sz k c u)
  then show ?case using allocate_record [of p sz] by blast
qed (simp_all add: new_pool_exact zero_pool_exact)

lemma pool_step_exact:
  assumes "all_pools pool_exact s" and "malloc_sound c"
  shows "all_pools pool_exact (pool_step s c)"
proof (cases "is_deallocate c")
  case False
  show ?thesis
  proof (rule pool_step_keeps [OF assms False], goal_cases)
    case (3 p r)
    then show ?case using pool_exact_cong(1) [of "p\<lparr>mp_fragmentation_ratio := r\<rparr>" p] by simp
  next
    case (4 p sz k c u)
    then show ?case by (rule allocate_record(1))
  qed (simp_all add: new_pool_exact zero_pool_exact)
next
  case True
  then obtain k ptr where c: "c = Deallocate k ptr" by (cases c) auto
  show ?thesis
  proof (cases "pst_allocator s")
    case (Some m)
    with assms(1) have m: "list_all pool_exact (ma_pools m)" by (simp add: all_pools_def)
    show ?thesis
    proof (cases "first_idx (\<lambda>p. mp_pool_id p = k \<and> find_block ptr p \<noteq> None) (ma_pools m)")
      case None
      with c Some m show ?thesis by (simp add: allocator_deallocate_def all_pools_def)
    next
      case (Some i)
      then have "pool_exact (ma_pools m ! i)" "find_block ptr (ma_pools m ! i) \<noteq> None"
        using m first_idx_SomeD [OF Some] by (auto simp: list_all_iff)
      then obtain j where "pool_exact (ma_pools m ! i)" "find_block ptr (ma_pools m ! i) = Some j" by blast
      from deallocate_pool_exact [OF this] m \<open>pst_allocator s = Some m\<close> c Some \<open>find_block ptr (ma_pools m ! i) = Some j\<close>
      show ?thesis by (auto simp: allocator_deallocate_def all_pools_def Let_def set_pool_all)
    qed
  qed (simp add: c allocator_deallocate_def all_pools_def)
qed

lemma pool_run_exact:
  "\<lbrakk>all_pools pool_exact s; list_all malloc_sound calls\<rbrakk> \<Longrightarrow> all_pools pool_exact (foldl pool_step s calls)"
  by (induction calls arbitrary: s) (auto intro: pool_step_exact)

lemma pool_run_packed:
  "\<lbrakk>all_pools (\<lambda>p. pool_exact p \<and> packed p) s; list_all malloc_sound calls; \<not> list_ex is_deallocate calls\<rbrakk> \<Longrightarrow>
     all_pools (\<lambda>p. pool_exact p \<and> packed p) (foldl pool_step s calls)"
  by (induction calls arbitrary: s) (auto intro: pool_step_packed)

section \<open>Main theorems\<close>

definition pools_start :: "u64 \<Rightarrow> pool_state" where
  "pools_start total_memory = \<lparr>pst_allocator = allocator_init total_memory True, pst_next_pool = 1, pst_next_block = 1\<rparr>"

lemma pools_start_all: "all_pools P (pools_start t)"
  by (simp add: all_pools_def pools_start_def allocator_init_def)

text \<open>
  Claim C34. After any history of an allocator, with pools from a \<open>malloc\<close> whose regions do not wrap
  around the address space, in every pool: the bytes counted as allocated are exactly those of the
  allocated blocks, together with the free ones they are the pool, and every allocated block lies inside
  the pool. If no block has been freed in the history, the blocks of a pool do not overlap.
\<close>

theorem pool_blocks_safe:
  assumes "list_all malloc_sound calls" and "pst_allocator (foldl pool_step (pools_start t) calls) = Some m"
    and "p \<in> set (ma_pools m)"
  shows "unat (mp_total_allocated p) = allocated_bytes p \<and>
    unat (mp_total_allocated p) + unat (mp_total_free p) = unat (mp_pool_size p) \<and>
    (\<forall>b\<in>set (mp_blocks p). mb_is_allocated b \<longrightarrow> block_inside p b) \<and>
    (\<not> list_ex is_deallocate calls \<longrightarrow> blocks_disjoint p)"
proof -
  have "pool_exact p"
    using pool_run_exact [OF pools_start_all assms(1), of t] assms(2,3) by (auto simp: all_pools_def list_all_iff)
  moreover have "packed p" if "\<not> list_ex is_deallocate calls"
    using pool_run_packed [OF pools_start_all assms(1) that, of t] assms(2,3) by (auto simp: all_pools_def list_all_iff)
  ultimately show ?thesis using packed_disjoint by (auto simp: pool_exact_def)
qed

theorem pool_blocks_safe_witness:
  "\<exists>m p. pst_allocator (foldl pool_step (pools_start 4096)
       [CreatePool POOL_SLAB 1000 (Some 65536), Allocate 1 300, Allocate 1 500]) = Some m
     \<and> p \<in> set (ma_pools m) \<and> length (mp_blocks p) = 2 \<and> blocks_disjoint p"
proof -
  let ?calls = "[CreatePool POOL_SLAB 1000 (Some 65536), Allocate 1 300, Allocate 1 500]"
  let ?m = "the (pst_allocator (foldl pool_step (pools_start 4096) ?calls))"
  have sound: "list_all malloc_sound ?calls" and free: "\<not> list_ex is_deallocate ?calls" by simp_all
  have m: "pst_allocator (foldl pool_step (pools_start 4096) ?calls) = Some ?m"
    and p: "ma_pools ?m ! 0 \<in> set (ma_pools ?m)" "length (mp_blocks (ma_pools ?m ! 0)) = 2"
    by (simp_all add: pools_start_def allocator_init_def allocator_create_pool_def allocator_allocate_def find_pool_def
        set_pool_def zero_pool_def MAX_MEMORY_POOLS_def MAX_POOL_SIZE_def Let_def)
  from pool_blocks_safe [OF sound m p(1)] free have "blocks_disjoint (ma_pools ?m ! 0)" by blast
  with m p show ?thesis by blast
qed

definition in_block :: "nat \<Rightarrow> MemoryBlock \<Rightarrow> bool" where
  "in_block a b \<longleftrightarrow> unat (mb_block_ptr b) \<le> a \<and> a < unat (mb_block_ptr b) + unat (mb_block_size b)"

text \<open>
  Freeing a block that is not the last makes the allocator hand out memory that is in use,
  because the next block is placed at the number of bytes allocated and not behind the last block. For
  every pool and all sizes: allocate blocks of \<open>s1\<close> and \<open>s2\<close> bytes, free the first and allocate \<open>s3\<close>
  bytes; whenever \<open>s1 < s2 + s3\<close>, in particular for blocks of equal size, the second and the third block
  are both allocated and share an address.
\<close>

lemma pool_reuse_overlaps:
  assumes "base \<noteq> 0" and "unat base + unat n < 2 ^ 64" and "n \<le> MAX_POOL_SIZE"
    and "0 < s1" "0 < s2" "0 < s3" and "unat s1 + unat s2 \<le> unat n" and "unat s2 + unat s3 \<le> unat n"
    and "unat s1 < unat s2 + unat s3"
  shows "\<exists>m p b c. pst_allocator (foldl pool_step (pools_start t)
      [CreatePool ty n (Some base), Allocate 1 s1, Allocate 1 s2, Deallocate 1 base, Allocate 1 s3]) = Some m \<and>
    ma_pools m = [p] \<and> mp_blocks p = [zero_block, b, c] \<and> mb_is_allocated b \<and> mb_is_allocated c \<and>
    (\<exists>a. in_block a b \<and> in_block a c)"
proof -
  define blk where "blk = (\<lambda>k a sz. \<lparr>mb_block_id = k, mb_block_ptr = a, mb_block_size = sz, mb_is_allocated = True,
    mb_allocations = 1, mb_allocation_time = 0\<rparr>)"
  have f0: "\<not> MAX_POOL_SIZE < n" using assms(3) by (simp add: not_less)
  have f1: "\<not> n < s1" "\<not> n - s1 < s2" using assms(7) by (auto simp: word_less_nat_alt unat_sub word_le_nat_alt not_less)
  have refund: "n - s1 - s2 + s1 = n - s2" "s1 + s2 - s1 = s2" by simp_all
  have f2: "\<not> n - s2 < s3" using assms(8) by (auto simp: word_less_nat_alt unat_sub word_le_nat_alt not_less)
  have nz: "s1 \<noteq> 0" "s2 \<noteq> 0" "s3 \<noteq> 0" using assms(4-6) by (auto simp: word_gt_0)
  let ?calls = "[CreatePool ty n (Some base), Allocate 1 s1, Allocate 1 s2, Deallocate 1 base, Allocate 1 s3]"
  have "\<exists>m p. pst_allocator (foldl pool_step (pools_start t) ?calls) = Some m \<and>
    ma_pools m = [p] \<and> mp_blocks p = [zero_block, blk 2 (base + s1) s2, blk 3 (base + s2) s3]"
    using assms(1) f0 f1 f2 nz
    by (simp add: pools_start_def allocator_init_def allocator_create_pool_def allocator_allocate_def allocator_deallocate_def
        find_pool_def find_block_def set_pool_def zero_pool_def MAX_MEMORY_POOLS_def Let_def blk_def refund)
  then obtain m p where mp: "pst_allocator (foldl pool_step (pools_start t) ?calls) = Some m"
    "ma_pools m = [p]" "mp_blocks p = [zero_block, blk 2 (base + s1) s2, blk 3 (base + s2) s3]" by blast
  have addr: "unat (base + s1) = unat base + unat s1" "unat (base + s2) = unat base + unat s2"
    using assms(2,7,8) by (simp_all add: unat_word_ariths)
  have "0 < unat s1" "0 < unat s2" "0 < unat s3" using assms(4-6) by (simp_all add: word_less_nat_alt)
  then have "in_block (unat base + max (unat s1) (unat s2)) (blk 2 (base + s1) s2)"
    "in_block (unat base + max (unat s1) (unat s2)) (blk 3 (base + s2) s3)"
    using assms(9) by (auto simp: in_block_def blk_def addr)
  then have "\<exists>a. in_block a (blk 2 (base + s1) s2) \<and> in_block a (blk 3 (base + s2) s3)" by blast
  moreover have "mb_is_allocated (blk k a sz)" for k a sz by (simp add: blk_def)
  ultimately show ?thesis using mp by blast
qed

lemma pool_reuse_overlaps_witness:
  "\<exists>m p b c. pst_allocator (foldl pool_step (pools_start 4096)
      [CreatePool POOL_FIXED_SIZE 1024 (Some 65536), Allocate 1 100, Allocate 1 100, Deallocate 1 65536, Allocate 1 100]) = Some m \<and>
    ma_pools m = [p] \<and> mp_blocks p = [zero_block, b, c] \<and> mb_is_allocated b \<and> mb_is_allocated c \<and>
    (\<exists>a. in_block a b \<and> in_block a c)"
  by (rule pool_reuse_overlaps) (simp_all add: MAX_POOL_SIZE_def)

end
