(* ===== verification/Distributed_Consensus.thy ===== *)
theory Distributed_Consensus
  imports Service_Tables
begin

text \<open>
  The consensus module of \<open>src/distributed-systems/distributed_consensus.c\<close>: a manager with a table of
  nodes, and the handlers that a node runs. The functions on a node take and return it; those on the
  manager update its table. The entries of a log are never stored (\<open>log_entries\<close> stays null), only
  counted; the pointer is left out, and with it the calls of \<open>free\<close> that it guards. Whether \<open>malloc\<close>
  succeeds is an argument; the leader writes through its pointers without a check, which is undefined
  when one is null. The latency of the metrics is a constant.

  The second half shows that the log of a node stays within its bounds and is committed in order, and
  that a node gives its vote in a term to every candidate that asks.
\<close>

section \<open>Constants and data\<close>

definition MAX_CONSENSUS_NODES :: nat where "MAX_CONSENSUS_NODES = 256"
definition MAX_LOG_ENTRIES :: u64 where "MAX_LOG_ENTRIES = 10000"
definition CONSENSUS_TIMEOUT_MS :: u32 where "CONSENSUS_TIMEOUT_MS = 1000"

datatype ConsensusState = CONSENSUS_FOLLOWER | CONSENSUS_CANDIDATE | CONSENSUS_LEADER | CONSENSUS_DEAD

datatype LogEntryType =
  LOG_ENTRY_CLIENT_REQUEST | LOG_ENTRY_MEMBERSHIP_CHANGE | LOG_ENTRY_SNAPSHOT | LOG_ENTRY_CONFIGURATION

record ConsensusNode =
  cn_node_id :: u32
  cn_node_address :: string
  cn_port :: "16 word"
  cn_current_term :: u64
  cn_voted_for :: u32
  cn_log_size :: u64
  cn_commit_index :: u64
  cn_last_applied :: u64
  cn_next_index :: "u64 list option"
  cn_match_index :: "u64 list option"
  cn_state :: ConsensusState
  cn_election_timeout :: u32
  cn_last_heartbeat :: u32

record ConsensusManager =
  cg_consensus_id :: u32
  cg_nodes :: "ConsensusNode list"
  cg_leader_id :: u32
  cg_current_term :: u64
  cg_log_size :: u64
  cg_log_applied :: u64
  cg_total_entries_replicated :: u64
  cg_total_entries_committed :: u64
  cg_total_elections :: u64
  cg_last_election_time :: u64

record AppendEntriesRequest =
  aq_term :: u64
  aq_leader_id :: u32
  aq_prev_log_index :: u64
  aq_prev_log_term :: u64
  aq_leader_commit :: u64
  aq_entry_count :: u64

record AppendEntriesResponse =
  as_term :: u64
  as_success :: bool
  as_match_index :: u64

record RequestVoteRequest =
  vq_term :: u64
  vq_last_log_index :: u64
  vq_last_log_term :: u64

record RequestVoteResponse =
  vs_term :: u64
  vs_vote_granted :: bool

record ConsensusMetrics =
  cmx_node_id :: u32
  cmx_current_state :: ConsensusState
  cmx_current_term :: u64
  cmx_log_size :: u64
  cmx_last_applied :: u64
  cmx_entries_replicated :: u64

type_synonym cgroup = "ConsensusManager option"
type_synonym cnode = "ConsensusNode option"

section \<open>The manager and its nodes\<close>

definition zero_node :: ConsensusNode where
  "zero_node = \<lparr>cn_node_id = 0, cn_node_address = '''', cn_port = 0, cn_current_term = 0, cn_voted_for = 0,
     cn_log_size = 0, cn_commit_index = 0, cn_last_applied = 0, cn_next_index = None, cn_match_index = None,
     cn_state = CONSENSUS_FOLLOWER, cn_election_timeout = 0, cn_last_heartbeat = 0\<rparr>"

definition consensus_manager_init :: "u32 \<Rightarrow> u32 \<Rightarrow> bool \<Rightarrow> cgroup" where
  "consensus_manager_init node_id total_nodes malloc_ok =
     (if unat total_nodes > MAX_CONSENSUS_NODES \<or> \<not> malloc_ok then None
      else Some \<lparr>cg_consensus_id = 1,
        cg_nodes = [zero_node\<lparr>cn_node_id := node_id, cn_node_address := ''127.0.0.1'', cn_port := ucast (5000 + node_id),
          cn_election_timeout := CONSENSUS_TIMEOUT_MS\<rparr>],
        cg_leader_id = 0, cg_current_term = 0, cg_log_size = 0, cg_log_applied = 0, cg_total_entries_replicated = 0,
        cg_total_entries_committed = 0, cg_total_elections = 0, cg_last_election_time = 0\<rparr>)"

definition consensus_manager_destroy :: "cgroup \<Rightarrow> cgroup \<times> int" where
  "consensus_manager_destroy h = (None, case h of None \<Rightarrow> -1 | Some m \<Rightarrow> 0)"

definition new_node :: "ConsensusManager \<Rightarrow> u32 \<Rightarrow> string \<Rightarrow> 16 word \<Rightarrow> ConsensusNode" where
  "new_node m node_id address port = zero_node\<lparr>cn_node_id := node_id, cn_node_address := take 63 address, cn_port := port,
     cn_current_term := cg_current_term m, cn_election_timeout := CONSENSUS_TIMEOUT_MS\<rparr>"

definition consensus_add_node :: "cgroup \<Rightarrow> u32 \<Rightarrow> string option \<Rightarrow> 16 word \<Rightarrow> cgroup \<times> int" where
  "consensus_add_node h node_id address port = with_handle (-1) h (\<lambda>m.
     case address of None \<Rightarrow> (m, -1)
     | Some a \<Rightarrow> if length (cg_nodes m) \<ge> MAX_CONSENSUS_NODES then (m, -1)
                else (m\<lparr>cg_nodes := cg_nodes m @ [new_node m node_id a port]\<rparr>, 0))"

text \<open>Removing a node only checks that it is there.\<close>

definition consensus_remove_node :: "cgroup \<Rightarrow> u32 \<Rightarrow> int" where
  "consensus_remove_node h node_id = read_handle (-1) h (\<lambda>m.
     if list_ex (\<lambda>n. cn_node_id n = node_id) (cg_nodes m) then 0 else -1)"

section \<open>States of a node\<close>

definition follow :: "u64 \<Rightarrow> ConsensusNode \<Rightarrow> ConsensusNode" where
  "follow term n = n\<lparr>cn_state := CONSENSUS_FOLLOWER, cn_current_term := term, cn_voted_for := 0\<rparr>"

definition consensus_become_follower :: "cnode \<Rightarrow> u64 \<Rightarrow> cnode \<times> int" where
  "consensus_become_follower h term = with_handle (-1) h (\<lambda>n. (follow term n, 0))"

definition run_for :: "ConsensusNode \<Rightarrow> ConsensusNode" where
  "run_for n = n\<lparr>cn_state := CONSENSUS_CANDIDATE, cn_current_term := cn_current_term n + 1, cn_voted_for := cn_node_id n\<rparr>"

definition consensus_become_candidate :: "cnode \<Rightarrow> cnode \<times> int" where
  "consensus_become_candidate h = with_handle (-1) h (\<lambda>n. (run_for n, 0))"

definition consensus_become_leader :: "cnode \<Rightarrow> bool \<Rightarrow> bool \<Rightarrow> (cnode \<times> int) outcome" where
  "consensus_become_leader h next_ok match_ok = with_handle_ub (-1) h (\<lambda>n.
     if (cn_next_index n = None \<and> \<not> next_ok) \<or> (cn_match_index n = None \<and> \<not> match_ok) then Undef
     else Done (n\<lparr>cn_state := CONSENSUS_LEADER, cn_next_index := Some (replicate 256 (cn_log_size n + 1)),
            cn_match_index := Some (replicate 256 0)\<rparr>, 0))"

section \<open>The log\<close>

definition consensus_append_entry :: "cnode \<Rightarrow> LogEntryType \<Rightarrow> u8 list option \<Rightarrow> u64 \<Rightarrow> cnode \<times> int" where
  "consensus_append_entry h type data data_size = with_handle (-1) h (\<lambda>n.
     if cn_log_size n \<ge> MAX_LOG_ENTRIES then (n, -1) else (n\<lparr>cn_log_size := cn_log_size n + 1\<rparr>, 0))"

definition consensus_replicate_entry :: "cgroup \<Rightarrow> u64 \<Rightarrow> cgroup \<times> int" where
  "consensus_replicate_entry h log_index = with_handle (-1) h (\<lambda>m.
     if log_index \<ge> cg_log_size m then (m, -1)
     else (m\<lparr>cg_total_entries_replicated := cg_total_entries_replicated m + 1\<rparr>, 0))"

definition consensus_commit_entries :: "cgroup \<Rightarrow> cgroup \<times> int" where
  "consensus_commit_entries h = with_handle (-1) h (\<lambda>m.
     (m\<lparr>cg_total_entries_committed := cg_total_entries_committed m + 1, cg_log_applied := cg_log_applied m + 1\<rparr>, 0))"

fun append_loop :: "nat \<Rightarrow> u64 \<Rightarrow> u64" where
  "append_loop 0 log_size = log_size"
| "append_loop (Suc k) log_size = append_loop k (if log_size < MAX_LOG_ENTRIES then log_size + 1 else log_size)"

section \<open>Messages\<close>

text \<open>The handlers on a node and a request that are not null; the response is written field by field,
  the first three before anything is decided.\<close>

definition append_entries :: "ConsensusNode \<Rightarrow> AppendEntriesRequest \<Rightarrow> ConsensusNode \<times> AppendEntriesResponse \<times> int" where
  "append_entries node rq =
     (let resp = \<lparr>as_term = cn_current_term node, as_success = False, as_match_index = 0\<rparr>;
          n = (if aq_term rq > cn_current_term node then follow (aq_term rq) node else node)
      in if aq_term rq < cn_current_term n then (n, resp, -1)
         else
           let n1 = n\<lparr>cn_last_heartbeat := 0\<rparr> in
           if aq_prev_log_index rq > 0 \<and> aq_prev_log_index rq > cn_log_size n1
           then (n1, resp\<lparr>as_match_index := cn_log_size n1\<rparr>, 0)
           else
             let n2 = n1\<lparr>cn_log_size := append_loop (unat (aq_entry_count rq)) (cn_log_size n1)\<rparr>;
                 n3 = (if aq_leader_commit rq > cn_commit_index n2
                       then n2\<lparr>cn_commit_index := (if aq_leader_commit rq < cn_log_size n2 then aq_leader_commit rq else cn_log_size n2)\<rparr>
                       else n2)
             in (n3, resp\<lparr>as_success := True, as_match_index := cn_log_size n3\<rparr>, 0))"

definition consensus_append_entries_handler ::
    "cnode \<Rightarrow> AppendEntriesRequest option \<Rightarrow> bool \<Rightarrow> cnode \<times> AppendEntriesResponse option \<times> int" where
  "consensus_append_entries_handler h request response = with_handle (None, -1) h (\<lambda>n.
     case request of None \<Rightarrow> (n, None, -1)
     | Some rq \<Rightarrow> if \<not> response then (n, None, -1)
                 else let (n', resp, r) = append_entries n rq in (n', Some resp, r))"

definition request_vote :: "ConsensusNode \<Rightarrow> RequestVoteRequest \<Rightarrow> ConsensusNode \<times> RequestVoteResponse" where
  "request_vote node rq =
     (let newer = vq_term rq > cn_current_term node;
          n = (if newer then follow (vq_term rq) node else node);
          resp = \<lparr>vs_term = (if newer then vq_term rq else cn_current_term node), vs_vote_granted = False\<rparr>
      in if vq_term rq < cn_current_term n then (n, resp)
         else if (cn_voted_for n = 0 \<or> cn_voted_for n = cn_node_id n) \<and> vq_last_log_index rq \<ge> cn_log_size n
         then (n\<lparr>cn_voted_for := cn_node_id n\<rparr>, resp\<lparr>vs_vote_granted := True\<rparr>)
         else (n, resp))"

definition consensus_request_vote_handler ::
    "cnode \<Rightarrow> RequestVoteRequest option \<Rightarrow> bool \<Rightarrow> cnode \<times> RequestVoteResponse option \<times> int" where
  "consensus_request_vote_handler h request response = with_handle (None, -1) h (\<lambda>n.
     case request of None \<Rightarrow> (n, None, -1)
     | Some rq \<Rightarrow> if \<not> response then (n, None, -1) else let (n', resp) = request_vote n rq in (n', Some resp, 0))"

section \<open>Elections, clients and metrics\<close>

definition consensus_start_election :: "cnode \<Rightarrow> cnode \<times> int" where
  "consensus_start_election h = (fst (consensus_become_candidate h), if h = None then -1 else 0)"

definition consensus_handle_election_timeout :: "cgroup \<Rightarrow> cgroup \<times> int" where
  "consensus_handle_election_timeout h = with_handle (-1) h (\<lambda>m.
     if cg_nodes m = [] then (m, -1)
     else (m\<lparr>cg_total_elections := cg_total_elections m + 1, cg_last_election_time := 0,
             cg_nodes := map (\<lambda>n. if cn_state n = CONSENSUS_FOLLOWER then the (fst (consensus_start_election (Some n))) else n) (cg_nodes m)\<rparr>, 0))"

definition consensus_process_client_request :: "cgroup \<Rightarrow> u32 \<Rightarrow> u8 list option \<Rightarrow> u64 \<Rightarrow> cgroup \<times> int" where
  "consensus_process_client_request h client_id command command_size = with_handle (-1) h (\<lambda>m.
     if command = None \<or> cg_leader_id m = 0 then (m, -1)
     else
       (case first_idx (\<lambda>n. cn_node_id n = cg_leader_id m) (cg_nodes m) of None \<Rightarrow> (m, -1)
        | Some i \<Rightarrow>
            if cn_state (cg_nodes m ! i) \<noteq> CONSENSUS_LEADER then (m, -1)
            else
              let leader = the (fst (consensus_append_entry (Some (cg_nodes m ! i)) LOG_ENTRY_CLIENT_REQUEST command command_size));
                  m1 = m\<lparr>cg_nodes := (cg_nodes m)[i := leader]\<rparr>
              in (the (fst (consensus_replicate_entry (Some m1) (cn_log_size leader - 1))), 0)))"

text \<open>Snapshots and compaction only check their arguments.\<close>

definition consensus_create_snapshot :: "cnode \<Rightarrow> int" where
  "consensus_create_snapshot h = (if h = None then -1 else 0)"

definition consensus_restore_snapshot :: "cnode \<Rightarrow> bool \<Rightarrow> int" where
  "consensus_restore_snapshot h snapshot = (if h = None \<or> \<not> snapshot then -1 else 0)"

definition consensus_compact_log :: "cnode \<Rightarrow> u64 \<Rightarrow> int" where
  "consensus_compact_log h retain_entries = (if h = None then -1 else 0)"

definition consensus_get_metrics :: "cnode \<Rightarrow> bool \<Rightarrow> int \<times> ConsensusMetrics option" where
  "consensus_get_metrics h metrics = read_handle (-1, None) h (\<lambda>n.
     if \<not> metrics then (-1, None)
     else (0, Some \<lparr>cmx_node_id = cn_node_id n, cmx_current_state = cn_state n,
        cmx_current_term = cn_current_term n, cmx_log_size = cn_log_size n, cmx_last_applied = cn_last_applied n,
        cmx_entries_replicated = 0\<rparr>))"

definition consensus_manager_get_metrics :: "cgroup \<Rightarrow> int" where
  "consensus_manager_get_metrics h = (if h = None then -1 else 0)"

definition consensus_add_node_to_cluster :: "cgroup \<Rightarrow> u32 \<Rightarrow> string option \<Rightarrow> 16 word \<Rightarrow> (cgroup \<times> u32) \<times> int" where
  "consensus_add_node_to_cluster h next_node_id address port =
     (if h = None \<or> address = None then ((h, next_node_id), -1)
      else let (h', r) = consensus_add_node h next_node_id address port in ((h', next_node_id + 1), r))"

definition consensus_remove_node_from_cluster :: "cgroup \<Rightarrow> u32 \<Rightarrow> int" where
  "consensus_remove_node_from_cluster h node_id = (if h = None then -1 else consensus_remove_node h node_id)"

section \<open>Histories of a node\<close>

datatype node_call = AppendEntries AppendEntriesRequest | RequestVote RequestVoteRequest | BecomeFollower u64
  | StartElection | BecomeLeader bool bool | AppendEntry LogEntryType "u8 list option" u64

fun node_step :: "cnode \<Rightarrow> node_call \<Rightarrow> cnode outcome" where
  "node_step h (AppendEntries rq) = Done (fst (consensus_append_entries_handler h (Some rq) True))"
| "node_step h (RequestVote rq) = Done (fst (consensus_request_vote_handler h (Some rq) True))"
| "node_step h (BecomeFollower t) = Done (fst (consensus_become_follower h t))"
| "node_step h StartElection = Done (fst (consensus_start_election h))"
| "node_step h (BecomeLeader a b) = (case consensus_become_leader h a b of Undef \<Rightarrow> Undef | Done (h', r) \<Rightarrow> Done h')"
| "node_step h (AppendEntry t d k) = Done (fst (consensus_append_entry h t d k))"

fun node_run :: "cnode \<Rightarrow> node_call list \<Rightarrow> cnode outcome" where
  "node_run h [] = Done h"
| "node_run h (c # cs) = (case node_step h c of Undef \<Rightarrow> Undef | Done h' \<Rightarrow> node_run h' cs)"

text \<open>A node as the manager creates it: its own, or one added.\<close>

definition starts :: "ConsensusNode \<Rightarrow> bool" where
  "starts n \<longleftrightarrow> (\<exists>k t m. consensus_manager_init k t True = Some m \<and> n \<in> set (cg_nodes m)) \<or> (\<exists>m k a p. n = new_node m k a p)"

definition node_ok :: "ConsensusNode \<Rightarrow> bool" where
  "node_ok n \<longleftrightarrow> cn_commit_index n \<le> cn_log_size n \<and> cn_log_size n \<le> MAX_LOG_ENTRIES
     \<and> (cn_voted_for n = 0 \<or> cn_voted_for n = cn_node_id n)"

text \<open>The log and its committed part only grow.\<close>

definition grows :: "ConsensusNode \<Rightarrow> ConsensusNode \<Rightarrow> bool" where
  "grows n n' \<longleftrightarrow> cn_log_size n \<le> cn_log_size n' \<and> cn_commit_index n \<le> cn_commit_index n'"

lemma new_node_starts: "starts (new_node m k a p)"
  unfolding starts_def by blast

lemma starts_ok: "starts n \<Longrightarrow> node_ok n"
  by (auto simp: starts_def node_ok_def new_node_def zero_node_def consensus_manager_init_def split: if_splits)

lemma append_loop_bounds: "s \<le> MAX_LOG_ENTRIES \<Longrightarrow> s \<le> append_loop k s \<and> append_loop k s \<le> MAX_LOG_ENTRIES"
proof (induction k s rule: append_loop.induct)
  case (2 k s)
  show ?case
  proof (cases "s < MAX_LOG_ENTRIES")
    case True
    then have "s + 1 \<le> MAX_LOG_ENTRIES" "s \<le> s + 1"
      by (simp_all add: MAX_LOG_ENTRIES_def word_le_nat_alt word_less_nat_alt unat_word_ariths)
    with True 2 show ?thesis by (auto intro: order.trans)
  next
    case False
    with 2 show ?thesis by simp
  qed
qed simp

lemma follow_ok: "node_ok n \<Longrightarrow> node_ok (follow t n)" "grows n (follow t n)" "cn_log_size (follow t n) = cn_log_size n"
  by (simp_all add: node_ok_def follow_def grows_def)

lemma append_entries_ok:
  assumes "node_ok n"
  shows "node_ok (fst (append_entries n rq)) \<and> grows n (fst (append_entries n rq))"
proof -
  define q where "q = (if aq_term rq > cn_current_term n then follow (aq_term rq) n else n)"
  have n: "node_ok q" "cn_log_size q = cn_log_size n" "cn_commit_index q = cn_commit_index n"
    using assms by (auto simp: q_def follow_def node_ok_def)
  have loop: "cn_log_size n \<le> append_loop k (cn_log_size n)" "append_loop k (cn_log_size n) \<le> MAX_LOG_ENTRIES" for k
    using append_loop_bounds assms by (auto simp: node_ok_def)
  let ?l = "append_loop (unat (aq_entry_count rq)) (cn_log_size n)"
  have commit: "cn_commit_index n \<le> (if aq_leader_commit rq < ?l then aq_leader_commit rq else ?l)"
    if "aq_leader_commit rq > cn_commit_index n"
    using that assms loop by (auto simp: node_ok_def intro: order.trans)
  have "cn_commit_index n \<le> ?l" using assms loop by (auto simp: node_ok_def intro: order.trans)
  with n loop commit assms show ?thesis
    unfolding append_entries_def Let_def q_def [symmetric] by (auto simp: grows_def node_ok_def not_less)
qed

lemma request_vote_ok:
  assumes "node_ok n"
  shows "node_ok (fst (request_vote n rq)) \<and> grows n (fst (request_vote n rq)) \<and> cn_log_size (fst (request_vote n rq)) = cn_log_size n"
  using assms by (auto simp: request_vote_def Let_def follow_def node_ok_def grows_def)

lemma node_step_ok:
  assumes "node_step (Some n) c = Done h" and "node_ok n"
  shows "\<exists>n'. h = Some n' \<and> node_ok n' \<and> grows n n'"
proof (cases c)
  case (AppendEntries rq)
  with assms append_entries_ok [OF assms(2), of rq] show ?thesis
    by (auto simp: consensus_append_entries_handler_def case_prod_beta)
next
  case (RequestVote rq)
  with assms request_vote_ok [OF assms(2), of rq] show ?thesis
    by (auto simp: consensus_request_vote_handler_def case_prod_beta)
next
  case (BecomeFollower t)
  with assms follow_ok show ?thesis by (auto simp: consensus_become_follower_def)
next
  case StartElection
  with assms show ?thesis
    by (auto simp: consensus_start_election_def consensus_become_candidate_def run_for_def node_ok_def grows_def)
next
  case (BecomeLeader a b)
  with assms show ?thesis
    by (auto simp: consensus_become_leader_def node_ok_def grows_def with_handle_ub_def split: if_splits)
next
  case (AppendEntry t d k)
  have "cn_log_size n \<le> append_loop 1 (cn_log_size n) \<and> append_loop 1 (cn_log_size n) \<le> MAX_LOG_ENTRIES"
    using append_loop_bounds [of "cn_log_size n" 1] assms(2) by (simp only: node_ok_def)
  with AppendEntry assms show ?thesis
    by (auto simp: consensus_append_entry_def node_ok_def grows_def not_le split: if_splits intro: order.trans)
qed

lemma node_run_ok: "\<lbrakk>node_run (Some n) cs = Done h; node_ok n\<rbrakk> \<Longrightarrow> \<exists>n'. h = Some n' \<and> node_ok n' \<and> grows n n'"
proof (induction cs arbitrary: n)
  case (Cons c cs)
  obtain h1 where step: "node_step (Some n) c = Done h1" and run: "node_run h1 cs = Done h"
    using Cons.prems(1) by (auto split: outcome.splits)
  from node_step_ok [OF step Cons.prems(2)] obtain n1 where n1: "h1 = Some n1" "node_ok n1" "grows n n1" by blast
  from Cons.IH [OF run [unfolded n1(1)] n1(2)] n1(3) show ?case by (auto simp: grows_def intro: order.trans)
qed (auto simp: grows_def)

section \<open>Main theorems\<close>

text \<open>
  Claim C18. Over any history of messages, elections and appends, from a node as the manager creates it:
  the log of a node has at most 10000 entries, its committed part is inside the log, and whatever
  calls come next, neither the log nor the committed part ever shrinks (nothing is truncated, and what
  was committed stays committed).
\<close>

theorem consensus_log_bounds:
  assumes "starts n0" and "node_run (Some n0) calls = Done (Some n)" and "node_run (Some n) later = Done h"
  shows "cn_commit_index n \<le> cn_log_size n \<and> cn_log_size n \<le> 10000 \<and>
    (\<exists>n'. h = Some n' \<and> cn_log_size n \<le> cn_log_size n' \<and> cn_commit_index n \<le> cn_commit_index n')"
proof -
  have n: "node_ok n" using node_run_ok [OF assms(2) starts_ok [OF assms(1)]] by auto
  with node_run_ok [OF assms(3) n] show ?thesis by (auto simp: node_ok_def grows_def MAX_LOG_ENTRIES_def)
qed

theorem consensus_log_bounds_witness:
  "\<exists>n n'. node_run (Some (new_node (the (consensus_manager_init 1 3 True)) 2 ''10.0.0.2'' 5002))
       [AppendEntries \<lparr>aq_term = 1, aq_leader_id = 1, aq_prev_log_index = 0, aq_prev_log_term = 0, aq_leader_commit = 1,
          aq_entry_count = 2\<rparr>] = Done (Some n)
     \<and> cn_log_size n = 2 \<and> cn_commit_index n = 1
     \<and> node_run (Some n) [StartElection] = Done (Some n') \<and> cn_log_size n \<le> cn_log_size n' \<and> cn_commit_index n \<le> cn_commit_index n'"
proof -
  let ?m = "the (consensus_manager_init 1 3 True)"
  let ?rq = "\<lparr>aq_term = 1, aq_leader_id = 1, aq_prev_log_index = 0, aq_prev_log_term = 0, aq_leader_commit = 1, aq_entry_count = 2\<rparr>"
  let ?n0 = "new_node ?m 2 ''10.0.0.2'' 5002"
  have start: "starts ?n0" by (rule new_node_starts)
  have "append_loop (Suc (Suc 0)) 0 = 2" by (simp add: MAX_LOG_ENTRIES_def)
  then have loop: "append_loop 2 0 = 2" by (simp only: numeral_2_eq_2)
  have m: "cg_current_term ?m = 0" by (simp add: consensus_manager_init_def MAX_CONSENSUS_NODES_def)
  obtain n where run: "node_run (Some ?n0) [AppendEntries ?rq] = Done (Some n)" and n: "cn_log_size n = 2" "cn_commit_index n = 1"
    by (simp add: consensus_append_entries_handler_def append_entries_def new_node_def zero_node_def follow_def m loop Let_def)
  have later: "node_run (Some n) [StartElection] = Done (Some (run_for n))"
    by (simp add: consensus_start_election_def consensus_become_candidate_def)
  from consensus_log_bounds [OF start run later] run n later show ?thesis by blast
qed

text \<open>The answers to a sequence of vote requests.\<close>

fun vote_answers :: "ConsensusNode \<Rightarrow> RequestVoteRequest list \<Rightarrow> bool list" where
  "vote_answers n [] = []"
| "vote_answers n (rq # rqs) = (let (n', resp) = request_vote n rq in vs_vote_granted resp # vote_answers n' rqs)"

lemma request_vote_exact:
  assumes "node_ok n"
  shows "vs_vote_granted (snd (request_vote n rq)) \<longleftrightarrow> cn_current_term n \<le> vq_term rq \<and> cn_log_size n \<le> vq_last_log_index rq"
    and "cn_current_term n \<le> vq_term rq \<Longrightarrow> cn_current_term (fst (request_vote n rq)) = vq_term rq"
  using assms by (auto simp: request_vote_def Let_def follow_def node_ok_def not_less)

lemma vote_answers_same_term:
  "\<lbrakk>node_ok n; cn_current_term n \<le> t; \<forall>rq\<in>set rqs. vq_term rq = t \<and> cn_log_size n \<le> vq_last_log_index rq\<rbrakk>
    \<Longrightarrow> vote_answers n rqs = replicate (length rqs) True"
proof (induction rqs arbitrary: n)
  case (Cons rq rqs)
  have rq: "vq_term rq = t" "cn_log_size n \<le> vq_last_log_index rq" using Cons.prems by auto
  have "vs_vote_granted (snd (request_vote n rq))" using request_vote_exact(1) [OF Cons.prems(1)] Cons.prems(2) rq by simp
  moreover have "cn_current_term (fst (request_vote n rq)) = t"
    using request_vote_exact(2) [OF Cons.prems(1)] Cons.prems(2) rq by simp
  moreover have "vote_answers (fst (request_vote n rq)) rqs = replicate (length rqs) True"
    by (rule Cons.IH) (use request_vote_ok [OF Cons.prems(1), of rq] calculation Cons.prems(3) in auto)
  ultimately show ?case by (simp add: case_prod_beta)
qed simp

text \<open>
  A node can vote for any number of candidates in one term, so a term can have several leaders
  that each hold the votes of all nodes. After any history of a node, a request for its vote is granted
  exactly when the term of the request is not older than the node's and the candidate's log is not shorter
  than its own: earlier votes play no role. In particular all of any number of such requests in the same
  term are granted, one after the other. (A request does not name its candidate, and the node records a
  vote given to another as a vote for itself.)
\<close>

lemma consensus_votes_repeated:
  assumes "starts n0" and "node_run (Some n0) calls = Done (Some n)"
  shows "(vs_vote_granted (snd (request_vote n rq)) \<longleftrightarrow> cn_current_term n \<le> vq_term rq \<and> cn_log_size n \<le> vq_last_log_index rq) \<and>
    (cn_current_term n \<le> t \<and> (\<forall>r\<in>set rqs. vq_term r = t \<and> cn_log_size n \<le> vq_last_log_index r) \<longrightarrow>
       vote_answers n rqs = replicate (length rqs) True)"
proof -
  have n: "node_ok n" using node_run_ok [OF assms(2) starts_ok [OF assms(1)]] by auto
  show ?thesis using request_vote_exact(1) [OF n] vote_answers_same_term [OF n] by blast
qed

lemma consensus_votes_repeated_witness:
  "vote_answers (new_node (the (consensus_manager_init 1 3 True)) 2 ''10.0.0.2'' 5002)
     [\<lparr>vq_term = 1, vq_last_log_index = 0, vq_last_log_term = 0\<rparr>, \<lparr>vq_term = 1, vq_last_log_index = 5, vq_last_log_term = 1\<rparr>] = [True, True]"
proof -
  let ?n0 = "new_node (the (consensus_manager_init 1 3 True)) 2 ''10.0.0.2'' 5002"
  have start: "starts ?n0" by (rule new_node_starts)
  have run: "node_run (Some ?n0) [] = Done (Some ?n0)" by simp
  show ?thesis
    using consensus_votes_repeated [OF start run, of _ 1 "[\<lparr>vq_term = 1, vq_last_log_index = 0, vq_last_log_term = 0\<rparr>,
        \<lparr>vq_term = 1, vq_last_log_index = 5, vq_last_log_term = 1\<rparr>]"]
    by (simp add: new_node_def zero_node_def consensus_manager_init_def MAX_CONSENSUS_NODES_def)
qed

text \<open>No function names a leader, so every request of a client is refused.\<close>

lemma consensus_clients_refused:
  assumes "cg_leader_id m = 0"
  shows "consensus_process_client_request (Some m) k command n = (Some m, -1)"
    and "cg_leader_id (the (fst (consensus_add_node (Some m) i a p))) = 0"
    and "cg_leader_id (the (fst (consensus_handle_election_timeout (Some m)))) = 0"
    and "cg_leader_id (the (fst (consensus_commit_entries (Some m)))) = 0"
    and "cg_leader_id (the (fst (consensus_replicate_entry (Some m) x))) = 0"
  using assms by (auto simp: consensus_process_client_request_def consensus_add_node_def
      consensus_handle_election_timeout_def consensus_commit_entries_def consensus_replicate_entry_def split: option.split)

end
