(* ===== verification/Garbage_Collector.thy ===== *)
theory Garbage_Collector
  imports Service_Tables
begin

text \<open>
  The collector of \<open>src/memory-management/garbage_collector.c\<close>. Objects are the slots in use of one
  table; a freed object stays there as a zeroed slot. The static counter that numbers objects and the
  address that \<open>malloc\<close> returns (\<open>None\<close> when it fails) are arguments of the operation that uses them. The
  references of an object are its whole array of 32 numbers, since removing one leaves a hole. The two
  floats and the three times, which are only ever zero, are left out.

  The second half compares a collection with reachability: an object survives exactly when it has
  references of its own, not when it is referenced.
\<close>

section \<open>Constants and data\<close>

definition MAX_GC_OBJECTS :: nat where "MAX_GC_OBJECTS = 65536"
definition MAX_OBJECT_REFERENCES :: u32 where "MAX_OBJECT_REFERENCES = 32"

datatype GCStatus = GC_STATUS_ALLOCATED | GC_STATUS_MARKED | GC_STATUS_UNMARKED | GC_STATUS_COLLECTED

datatype GCAlgorithm = GC_ALGORITHM_MARK_SWEEP | GC_ALGORITHM_COPY | GC_ALGORITHM_GENERATIONAL
  | GC_ALGORITHM_CONCURRENT | GC_ALGORITHM_INCREMENTAL

record GCObject =
  go_object_id :: u32
  go_object_ptr :: "u64 option"
  go_object_size :: u64
  go_status :: GCStatus
  go_reference_count :: u32
  go_referenced_objects :: "u32 list"
  go_allocation_time :: u64
  go_last_access_time :: u64
  go_access_count :: u32

record GarbageCollector =
  gc_gc_id :: u32
  gc_algorithm :: GCAlgorithm
  gc_objects :: "GCObject list"
  gc_total_collected :: u64
  gc_total_objects_collected :: u64
  gc_gc_cycle_count :: u32
  gc_major_gc_count :: u32
  gc_minor_gc_count :: u32
  gc_is_concurrent :: bool
  gc_is_generational :: bool

record GCMetrics =
  gx_gc_id :: u32
  gx_total_collected :: u64
  gx_total_objects_collected :: u64
  gx_gc_cycles :: u64
  gx_major_collections :: u64
  gx_minor_collections :: u64

type_synonym gc = "GarbageCollector option"

definition zero_object :: GCObject where
  "zero_object = \<lparr>go_object_id = 0, go_object_ptr = None, go_object_size = 0, go_status = GC_STATUS_ALLOCATED,
     go_reference_count = 0, go_referenced_objects = replicate 32 0, go_allocation_time = 0, go_last_access_time = 0,
     go_access_count = 0\<rparr>"

section \<open>Objects and references\<close>

definition gc_init :: "GCAlgorithm \<Rightarrow> bool \<Rightarrow> gc" where
  "gc_init algorithm malloc_ok =
     (if \<not> malloc_ok then None
      else Some \<lparr>gc_gc_id = 1, gc_algorithm = algorithm, gc_objects = [], gc_total_collected = 0,
        gc_total_objects_collected = 0, gc_gc_cycle_count = 0, gc_major_gc_count = 0, gc_minor_gc_count = 0,
        gc_is_concurrent = (algorithm = GC_ALGORITHM_CONCURRENT), gc_is_generational = (algorithm = GC_ALGORITHM_GENERATIONAL)\<rparr>)"

definition gc_destroy :: "gc \<Rightarrow> gc \<times> int" where
  "gc_destroy h = (None, case h of None \<Rightarrow> -1 | Some g \<Rightarrow> 0)"

definition gc_allocate_object :: "gc \<Rightarrow> u32 \<Rightarrow> u64 \<Rightarrow> u64 option \<Rightarrow> (gc \<times> u32) \<times> u32" where
  "gc_allocate_object h next_object_id object_size malloc_result =
     (case h of None \<Rightarrow> ((h, next_object_id), 0)
      | Some g \<Rightarrow>
          if length (gc_objects g) \<ge> MAX_GC_OBJECTS \<or> object_size = 0 then ((h, next_object_id), 0)
          else
            (case malloc_result of None \<Rightarrow> ((h, next_object_id + 1), 0)
             | Some ptr \<Rightarrow>
                 ((Some (g\<lparr>gc_objects := gc_objects g @ [zero_object\<lparr>go_object_id := next_object_id,
                      go_object_ptr := Some ptr, go_object_size := object_size\<rparr>]\<rparr>), next_object_id + 1), next_object_id)))"

definition find_object :: "u32 \<Rightarrow> GarbageCollector \<Rightarrow> nat option" where
  "find_object object_id g = first_idx (\<lambda>x. go_object_id x = object_id) (gc_objects g)"

definition set_object :: "nat \<Rightarrow> GCObject \<Rightarrow> GarbageCollector \<Rightarrow> GarbageCollector" where
  "set_object i x g = g\<lparr>gc_objects := (gc_objects g)[i := x]\<rparr>"

definition gc_deallocate_object :: "gc \<Rightarrow> u32 \<Rightarrow> gc \<times> int" where
  "gc_deallocate_object h object_id = with_handle (-1) h (\<lambda>g.
     case find_object object_id g of None \<Rightarrow> (g, -1) | Some i \<Rightarrow> (set_object i zero_object g, 0))"

definition gc_add_reference :: "gc \<Rightarrow> u32 \<Rightarrow> u32 \<Rightarrow> gc \<times> int" where
  "gc_add_reference h from_object to_object = with_handle (-1) h (\<lambda>g.
     case find_object from_object g of None \<Rightarrow> (g, -1)
     | Some i \<Rightarrow>
         let x = gc_objects g ! i in
         if go_reference_count x \<ge> MAX_OBJECT_REFERENCES then (g, -1)
         else (set_object i (x\<lparr>go_referenced_objects := (go_referenced_objects x)[unat (go_reference_count x) := to_object],
                 go_reference_count := go_reference_count x + 1\<rparr>) g, 0))"

text \<open>The references in use of an object, and the first of them to a given one.\<close>

definition references :: "GCObject \<Rightarrow> u32 list" where
  "references x = take (unat (go_reference_count x)) (go_referenced_objects x)"

definition find_reference :: "u32 \<Rightarrow> GCObject \<Rightarrow> nat option" where
  "find_reference to_object x = first_idx (\<lambda>r. r = to_object) (references x)"

definition gc_remove_reference :: "gc \<Rightarrow> u32 \<Rightarrow> u32 \<Rightarrow> gc \<times> int" where
  "gc_remove_reference h from_object to_object = with_handle (-1) h (\<lambda>g.
     case first_idx (\<lambda>x. go_object_id x = from_object \<and> find_reference to_object x \<noteq> None) (gc_objects g) of
       None \<Rightarrow> (g, -1)
     | Some i \<Rightarrow>
         let x = gc_objects g ! i
         in (set_object i (x\<lparr>go_referenced_objects := (go_referenced_objects x)[the (find_reference to_object x) := 0],
               go_reference_count := go_reference_count x - 1\<rparr>) g, 0))"

section \<open>Collections\<close>

definition mark :: "GCObject \<Rightarrow> GCObject" where
  "mark x = (if go_object_ptr x \<noteq> None \<and> go_reference_count x > 0 then x\<lparr>go_status := GC_STATUS_MARKED\<rparr>
     else x\<lparr>go_status := GC_STATUS_UNMARKED\<rparr>)"

definition gc_mark_phase :: "gc \<Rightarrow> gc \<times> int" where
  "gc_mark_phase h = with_handle (-1) h (\<lambda>g. (g\<lparr>gc_objects := map mark (gc_objects g)\<rparr>, 0))"

definition garbage :: "GCObject \<Rightarrow> bool" where
  "garbage x \<longleftrightarrow> go_status x = GC_STATUS_UNMARKED \<and> go_object_ptr x \<noteq> None"

definition gc_sweep_phase :: "gc \<Rightarrow> gc \<times> int" where
  "gc_sweep_phase h = with_handle (-1) h (\<lambda>g.
     let dead = filter garbage (gc_objects g)
     in (g\<lparr>gc_objects := map (\<lambda>x. if garbage x then zero_object else x) (gc_objects g),
           gc_total_collected := gc_total_collected g + sum_list (map go_object_size dead),
           gc_total_objects_collected := gc_total_objects_collected g + of_nat (length dead)\<rparr>, sint (of_nat (length dead) :: u32)))"

definition gc_run_full_collection :: "gc \<Rightarrow> gc \<times> int" where
  "gc_run_full_collection h = with_handle (-1) h (\<lambda>g.
     let (h1, swept) = gc_sweep_phase (fst (gc_mark_phase (Some g))); g1 = the h1
     in (g1\<lparr>gc_gc_cycle_count := gc_gc_cycle_count g1 + 1, gc_major_gc_count := gc_major_gc_count g1 + 1\<rparr>, swept))"

definition gc_collect_object :: "gc \<Rightarrow> u32 \<Rightarrow> gc \<times> int" where
  "gc_collect_object h object_id = with_handle (-1) h (\<lambda>g.
     case find_object object_id g of None \<Rightarrow> (g, -1)
     | Some i \<Rightarrow>
         ((set_object i zero_object g)\<lparr>gc_total_collected := gc_total_collected g + go_object_size (gc_objects g ! i),
            gc_total_objects_collected := gc_total_objects_collected g + 1\<rparr>, 0))"

fun incremental_loop :: "nat \<Rightarrow> nat \<Rightarrow> GarbageCollector \<Rightarrow> GarbageCollector" where
  "incremental_loop 0 i g = g"
| "incremental_loop (Suc k) i g =
     (if i \<ge> length (gc_objects g) then g
      else
        let x = gc_objects g ! i
        in incremental_loop k (Suc i)
             (if go_reference_count x = 0 \<and> go_object_ptr x \<noteq> None
              then the (fst (gc_collect_object (Some g) (go_object_id x))) else g))"

definition gc_run_incremental_collection :: "gc \<Rightarrow> gc \<times> int" where
  "gc_run_incremental_collection h = with_handle (-1) h (\<lambda>g.
     let batch = length (gc_objects g) div 10; g1 = incremental_loop (if batch = 0 then 1 else batch) 0 g
     in (g1\<lparr>gc_minor_gc_count := gc_minor_gc_count g1 + 1\<rparr>, 0))"

section \<open>Single objects, modes and metrics\<close>

definition set_status :: "GCStatus \<Rightarrow> gc \<Rightarrow> u32 \<Rightarrow> gc \<times> int" where
  "set_status st h object_id = with_handle (-1) h (\<lambda>g.
     case find_object object_id g of None \<Rightarrow> (g, -1)
     | Some i \<Rightarrow> (set_object i ((gc_objects g ! i)\<lparr>go_status := st\<rparr>) g, 0))"

definition gc_mark_object :: "gc \<Rightarrow> u32 \<Rightarrow> gc \<times> int" where
  "gc_mark_object h object_id = set_status GC_STATUS_MARKED h object_id"

definition gc_unmark_object :: "gc \<Rightarrow> u32 \<Rightarrow> gc \<times> int" where
  "gc_unmark_object h object_id = set_status GC_STATUS_UNMARKED h object_id"

definition gc_enable_concurrent_mode :: "gc \<Rightarrow> gc \<times> int" where
  "gc_enable_concurrent_mode h = with_handle (-1) h (\<lambda>g. (g\<lparr>gc_is_concurrent := True\<rparr>, 0))"

definition gc_disable_concurrent_mode :: "gc \<Rightarrow> gc \<times> int" where
  "gc_disable_concurrent_mode h = with_handle (-1) h (\<lambda>g. (g\<lparr>gc_is_concurrent := False\<rparr>, 0))"

definition gc_set_heap_size :: "gc \<Rightarrow> u64 \<Rightarrow> int" where
  "gc_set_heap_size h heap_size = (if h = None \<or> heap_size = 0 then -1 else 0)"

text \<open>The 64-bit sum is returned as an \<open>int\<close>.\<close>

definition gc_get_heap_usage :: "gc \<Rightarrow> int" where
  "gc_get_heap_usage h = read_handle (-1) h (\<lambda>g.
     sint (ucast (sum_list (map go_object_size (filter (\<lambda>x. go_object_ptr x \<noteq> None) (gc_objects g)))) :: u32))"

definition gc_get_metrics :: "gc \<Rightarrow> bool \<Rightarrow> int \<times> GCMetrics option" where
  "gc_get_metrics h metrics = read_handle (-1, None) h (\<lambda>g.
     if \<not> metrics then (-1, None)
     else (0, Some \<lparr>gx_gc_id = gc_gc_id g, gx_total_collected = gc_total_collected g,
        gx_total_objects_collected = gc_total_objects_collected g, gx_gc_cycles = ucast (gc_gc_cycle_count g),
        gx_major_collections = ucast (gc_major_gc_count g), gx_minor_collections = ucast (gc_minor_gc_count g)\<rparr>))"

section \<open>Histories\<close>

datatype gc_call = AllocateObject u64 "u64 option" | DeallocateObject u32 | AddReference u32 u32 | RemoveReference u32 u32
  | MarkPhase | SweepPhase | FullCollection | IncrementalCollection | MarkObject u32 | UnmarkObject u32 | CollectObject u32
  | EnableConcurrent | DisableConcurrent

fun gc_step :: "gc \<times> u32 \<Rightarrow> gc_call \<Rightarrow> gc \<times> u32" where
  "gc_step (h, n) (AllocateObject k p) = fst (gc_allocate_object h n k p)"
| "gc_step (h, n) (DeallocateObject k) = (fst (gc_deallocate_object h k), n)"
| "gc_step (h, n) (AddReference a b) = (fst (gc_add_reference h a b), n)"
| "gc_step (h, n) (RemoveReference a b) = (fst (gc_remove_reference h a b), n)"
| "gc_step (h, n) MarkPhase = (fst (gc_mark_phase h), n)"
| "gc_step (h, n) SweepPhase = (fst (gc_sweep_phase h), n)"
| "gc_step (h, n) FullCollection = (fst (gc_run_full_collection h), n)"
| "gc_step (h, n) IncrementalCollection = (fst (gc_run_incremental_collection h), n)"
| "gc_step (h, n) (MarkObject k) = (fst (gc_mark_object h k), n)"
| "gc_step (h, n) (UnmarkObject k) = (fst (gc_unmark_object h k), n)"
| "gc_step (h, n) (CollectObject k) = (fst (gc_collect_object h k), n)"
| "gc_step (h, n) EnableConcurrent = (fst (gc_enable_concurrent_mode h), n)"
| "gc_step (h, n) DisableConcurrent = (fst (gc_disable_concurrent_mode h), n)"

section \<open>Identities of objects\<close>

text \<open>Every step but an allocation leaves each slot with the object it had, or empties it.\<close>

definition keeps_slot :: "GCObject \<Rightarrow> GCObject \<Rightarrow> bool" where
  "keeps_slot x y \<longleftrightarrow> (go_object_ptr y \<noteq> None \<longrightarrow> go_object_ptr x \<noteq> None \<and> go_object_id y = go_object_id x)"

definition keeps_slots :: "GarbageCollector \<Rightarrow> GarbageCollector \<Rightarrow> bool" where
  "keeps_slots g g' \<longleftrightarrow> list_all2 keeps_slot (gc_objects g) (gc_objects g')"

lemma keeps_slot_simps [simp]: "keeps_slot x x" "keeps_slot x zero_object"
  "keeps_slot x (x\<lparr>go_status := st\<rparr>)" "keeps_slot x (x\<lparr>go_referenced_objects := r, go_reference_count := c\<rparr>)"
  by (simp_all add: keeps_slot_def zero_object_def)

lemma keeps_slots_refl [simp]: "keeps_slots g g"
  by (simp add: keeps_slots_def list_all2_same)

lemma keeps_slots_trans: "keeps_slots a b \<Longrightarrow> keeps_slots b c \<Longrightarrow> keeps_slots a c"
  unfolding keeps_slots_def by (rule list_all2_trans [of keeps_slot keeps_slot keeps_slot]) (auto simp: keeps_slot_def)

lemma keeps_slots_set:
  assumes "i < length (gc_objects g) \<Longrightarrow> keeps_slot (gc_objects g ! i) x"
  shows "keeps_slots g (set_object i x g)"
proof (cases "i < length (gc_objects g)")
  case True
  with assms show ?thesis by (simp add: keeps_slots_def set_object_def list_all2_conv_all_nth nth_list_update)
next
  case False
  then show ?thesis by (simp add: keeps_slots_def set_object_def list_update_beyond list_all2_same not_less)
qed

lemma keeps_slots_map: "(\<And>x. keeps_slot x (f x)) \<Longrightarrow> keeps_slots g (g\<lparr>gc_objects := map f (gc_objects g)\<rparr>)"
  by (simp add: keeps_slots_def list_all2_conv_all_nth)

lemma keeps_slots_update [simp]:
  "keeps_slots g (g'\<lparr>gc_total_collected := a\<rparr>) = keeps_slots g g'" "keeps_slots g (g'\<lparr>gc_total_objects_collected := a\<rparr>) = keeps_slots g g'"
  "keeps_slots g (g'\<lparr>gc_gc_cycle_count := c\<rparr>) = keeps_slots g g'" "keeps_slots g (g'\<lparr>gc_major_gc_count := c\<rparr>) = keeps_slots g g'"
  "keeps_slots g (g'\<lparr>gc_minor_gc_count := c\<rparr>) = keeps_slots g g'" "keeps_slots g (g'\<lparr>gc_is_concurrent := b\<rparr>) = keeps_slots g g'"
  by (simp_all add: keeps_slots_def)

lemma keeps_mark [simp]: "keeps_slot x (mark x)"
  by (simp add: mark_def)

lemma collect_keeps: "keeps_slots g (the (fst (gc_collect_object (Some g) k)))"
  by (auto simp: gc_collect_object_def keeps_slots_set split: option.split)

lemma incremental_keeps: "keeps_slots g (incremental_loop k i g)"
  by (induction k i g rule: incremental_loop.induct) (auto simp: Let_def intro: keeps_slots_trans [OF collect_keeps])

lemma sweep_keeps: "keeps_slots g (the (fst (gc_sweep_phase (Some g))))"
  by (simp add: gc_sweep_phase_def Let_def keeps_slots_map)

lemma mark_keeps: "keeps_slots g (the (fst (gc_mark_phase (Some g))))"
  by (simp add: gc_mark_phase_def keeps_slots_map)

lemma full_keeps: "keeps_slots g (the (fst (gc_run_full_collection (Some g))))"
  using keeps_slots_trans [OF mark_keeps sweep_keeps, of g]
  by (simp add: gc_run_full_collection_def gc_mark_phase_def Let_def case_prod_beta)

lemma gc_step_keeps:
  assumes "gc_step (Some g, n) c = (h, n')" and "\<forall>k p. c \<noteq> AllocateObject k p"
  shows "n' = n \<and> (\<exists>g'. h = Some g' \<and> keeps_slots g g')"
proof -
  have alt: "fst (gc_sweep_phase (Some g)) = Some (the (fst (gc_sweep_phase (Some g))))"
    "fst (gc_mark_phase (Some g)) = Some (the (fst (gc_mark_phase (Some g))))"
    "fst (gc_run_full_collection (Some g)) = Some (the (fst (gc_run_full_collection (Some g))))"
    "fst (gc_collect_object (Some g) k) = Some (the (fst (gc_collect_object (Some g) k)))" for k
    by (simp_all add: gc_sweep_phase_def gc_mark_phase_def gc_run_full_collection_def gc_collect_object_def)
  show ?thesis
    using assms alt sweep_keeps [of g] mark_keeps [of g] full_keeps [of g] collect_keeps [of g]
    by (cases c) (auto simp: gc_deallocate_object_def gc_add_reference_def gc_remove_reference_def set_status_def
        gc_run_incremental_collection_def gc_mark_object_def gc_unmark_object_def gc_enable_concurrent_mode_def
        gc_disable_concurrent_mode_def Let_def incremental_keeps keeps_slots_set split: option.split)
qed

text \<open>Objects with memory have different identifiers, all of them given out before.\<close>

definition gc_inv :: "nat \<Rightarrow> gc \<times> u32 \<Rightarrow> bool" where
  "gc_inv k s = (case s of (None, n) \<Rightarrow> False
     | (Some g, n) \<Rightarrow> n \<noteq> 0 \<and> unat n + k < 4294967296 \<and> length (gc_objects g) \<le> 65536
         \<and> (\<forall>x\<in>set (gc_objects g). go_object_ptr x \<noteq> None \<longrightarrow> go_object_id x < n)
         \<and> (\<forall>i j. i < j \<longrightarrow> j < length (gc_objects g) \<longrightarrow> go_object_ptr (gc_objects g ! i) \<noteq> None \<longrightarrow>
              go_object_ptr (gc_objects g ! j) \<noteq> None \<longrightarrow> go_object_id (gc_objects g ! i) \<noteq> go_object_id (gc_objects g ! j)))"

lemma gc_inv_distinct:
  "\<lbrakk>gc_inv k (Some g, n); i < j; j < length (gc_objects g); go_object_ptr (gc_objects g ! i) \<noteq> None;
    go_object_ptr (gc_objects g ! j) \<noteq> None\<rbrakk> \<Longrightarrow> go_object_id (gc_objects g ! i) \<noteq> go_object_id (gc_objects g ! j)"
  by (simp add: gc_inv_def)

lemma gc_inv_keeps:
  assumes "gc_inv (Suc k) (Some g, n)" and "keeps_slots g g'"
  shows "gc_inv k (Some g', n)"
proof -
  have len: "length (gc_objects g') = length (gc_objects g)" using assms(2) by (simp add: keeps_slots_def list_all2_lengthD)
  have slot: "go_object_ptr (gc_objects g' ! i) \<noteq> None \<longrightarrow>
      go_object_ptr (gc_objects g ! i) \<noteq> None \<and> go_object_id (gc_objects g' ! i) = go_object_id (gc_objects g ! i)"
    if "i < length (gc_objects g)" for i
    using assms(2) that by (simp add: keeps_slots_def list_all2_conv_all_nth keeps_slot_def)
  have "go_object_id x < n" if x: "x \<in> set (gc_objects g')" "go_object_ptr x \<noteq> None" for x
  proof -
    obtain i where i: "i < length (gc_objects g)" "x = gc_objects g' ! i" using x(1) len by (auto simp: in_set_conv_nth)
    with slot [OF i(1)] x(2) assms(1) show ?thesis by (auto simp: gc_inv_def dest: nth_mem)
  qed
  moreover have "go_object_id (gc_objects g' ! i) \<noteq> go_object_id (gc_objects g' ! j)"
    if "i < j" "j < length (gc_objects g')" "go_object_ptr (gc_objects g' ! i) \<noteq> None" "go_object_ptr (gc_objects g' ! j) \<noteq> None" for i j
    using that slot [of i] slot [of j] len assms(1) by (simp add: gc_inv_def)
  ultimately show ?thesis using assms(1) len by (simp add: gc_inv_def)
qed

lemma gc_inv_allocate:
  assumes "gc_inv (Suc k) (Some g, n)"
  shows "gc_inv k (fst (gc_allocate_object (Some g) n sz p))"
proof (cases "p = None \<or> length (gc_objects g) \<ge> MAX_GC_OBJECTS \<or> sz = 0")
  case True
  have nxt: "unat (n + 1) = Suc (unat n)" using assms by (simp add: gc_inv_def unat_word_ariths)
  then have "n + 1 \<noteq> 0" "n < n + 1" by (auto simp: word_less_nat_alt)
  then have "x < n \<Longrightarrow> x < n + 1" for x by (meson less_trans)
  with True assms \<open>n + 1 \<noteq> 0\<close> nxt show ?thesis
    by (auto simp: gc_allocate_object_def gc_inv_def split: option.split)
next
  case False
  then obtain a where a: "p = Some a" by auto
  have nxt: "unat (n + 1) = Suc (unat n)" using assms by (simp add: gc_inv_def unat_word_ariths)
  then have n1: "n + 1 \<noteq> 0" "n < n + 1" by (auto simp: word_less_nat_alt)
  then have lt: "x < n \<Longrightarrow> x < n + 1" for x by (meson less_trans)
  let ?x = "zero_object\<lparr>go_object_id := n, go_object_ptr := Some a, go_object_size := sz\<rparr>"
  let ?g = "g\<lparr>gc_objects := gc_objects g @ [?x]\<rparr>"
  have "go_object_id (gc_objects ?g ! i) \<noteq> go_object_id (gc_objects ?g ! j)"
    if "i < j" "j < length (gc_objects ?g)" "go_object_ptr (gc_objects ?g ! i) \<noteq> None" "go_object_ptr (gc_objects ?g ! j) \<noteq> None" for i j
    using that assms by (cases "j = length (gc_objects g)") (auto simp: gc_inv_def nth_append dest!: nth_mem)
  moreover have "fst (gc_allocate_object (Some g) n sz p) = (Some ?g, n + 1)"
    using False a by (simp add: gc_allocate_object_def)
  ultimately show ?thesis
    using assms n1 nxt lt False by (auto simp: gc_inv_def MAX_GC_OBJECTS_def)
qed

lemma gc_run_inv: "gc_inv (k + length cs) s \<Longrightarrow> gc_inv k (foldl gc_step s cs)"
proof (induction cs arbitrary: s)
  case (Cons c cs)
  obtain g n where s: "s = (Some g, n)" using Cons.prems by (auto simp: gc_inv_def split: prod.splits option.splits)
  have "gc_inv (k + length cs) (gc_step s c)"
  proof (cases "\<exists>sz p. c = AllocateObject sz p")
    case True
    with gc_inv_allocate [of "k + length cs" g n] Cons.prems s show ?thesis by auto
  next
    case False
    obtain h n' where step: "gc_step (Some g, n) c = (h, n')" by (rule prod.exhaust)
    with gc_step_keeps [OF step] False gc_inv_keeps [of "k + length cs" g n] Cons.prems s show ?thesis by auto
  qed
  with Cons.IH show ?case by simp
qed simp

section \<open>What a collection keeps\<close>

definition object_of :: "GarbageCollector \<Rightarrow> u32 \<Rightarrow> GCObject option" where
  "object_of g k = find (\<lambda>x. go_object_id x = k \<and> go_object_ptr x \<noteq> None) (gc_objects g)"

lemma find_refine:
  assumes "\<And>i j. \<lbrakk>i < j; j < length xs; Q (xs ! i); Q (xs ! j)\<rbrakk> \<Longrightarrow> False"
  shows "find (\<lambda>x. Q x \<and> R x) xs = (case find Q xs of None \<Rightarrow> None | Some x \<Rightarrow> if R x then Some x else None)"
  using assms
proof (induction xs)
  case (Cons x xs)
  have rest: "\<not> Q y" if "Q x" "y \<in> set xs" for y
    using that Cons.prems [of 0 "Suc k" for k] by (auto simp: in_set_conv_nth)
  have IH: "find (\<lambda>x. Q x \<and> R x) xs = (case find Q xs of None \<Rightarrow> None | Some x \<Rightarrow> if R x then Some x else None)"
    by (rule Cons.IH) (use Cons.prems [of "Suc i" "Suc j" for i j] in auto)
  show ?case
  proof (cases "Q x")
    case True
    then have "find (\<lambda>x. Q x \<and> R x) xs = None" using rest by (auto simp: find_None_iff)
    with True show ?thesis by simp
  qed (simp add: IH)
qed simp

lemma find_map: "find P (map f xs) = map_option f (find (\<lambda>x. P (f x)) xs)"
  by (induction xs) auto

text \<open>A full collection slot by slot.\<close>

lemma full_collection_eq:
  "\<exists>g'. gc_run_full_collection (Some g) = (Some g', sint (of_nat (length (filter (\<lambda>x. go_object_ptr x \<noteq> None \<and> go_reference_count x = 0) (gc_objects g))) :: u32))
    \<and> gc_objects g' = map (\<lambda>x. if go_object_ptr x \<noteq> None \<and> go_reference_count x = 0 then zero_object else mark x) (gc_objects g)"
proof -
  have gm: "garbage (mark x) \<longleftrightarrow> go_object_ptr x \<noteq> None \<and> go_reference_count x = 0" for x
    by (auto simp: garbage_def mark_def word_gt_0)
  have "length (filter garbage (map mark xs)) = length (filter (\<lambda>x. go_object_ptr x \<noteq> None \<and> go_reference_count x = 0) xs)" for xs
    by (induction xs) (simp_all add: gm)
  then show ?thesis
    by (simp add: gc_run_full_collection_def gc_mark_phase_def gc_sweep_phase_def Let_def gm comp_def with_handle_Some)
qed

lemma collection_object:
  assumes "gc_inv k (Some g, n)" and "gc_run_full_collection (Some g) = (Some g', r)"
  shows "object_of g' a = (case object_of g a of None \<Rightarrow> None
    | Some x \<Rightarrow> if go_reference_count x \<noteq> 0 then Some (x\<lparr>go_status := GC_STATUS_MARKED\<rparr>) else None)"
proof -
  let ?f = "\<lambda>x. if go_object_ptr x \<noteq> None \<and> go_reference_count x = 0 then zero_object else mark x"
  have objs: "gc_objects g' = map ?f (gc_objects g)" using full_collection_eq [of g] assms(2) by auto
  have "(\<lambda>x. go_object_id (?f x) = a \<and> go_object_ptr (?f x) \<noteq> None) =
      (\<lambda>x. (go_object_id x = a \<and> go_object_ptr x \<noteq> None) \<and> go_reference_count x \<noteq> 0)"
    by (auto simp: fun_eq_iff zero_object_def mark_def)
  then have "object_of g' a = map_option ?f (find (\<lambda>x. (go_object_id x = a \<and> go_object_ptr x \<noteq> None) \<and> go_reference_count x \<noteq> 0) (gc_objects g))"
    by (simp only: object_of_def objs find_map)
  also have "find (\<lambda>x. (go_object_id x = a \<and> go_object_ptr x \<noteq> None) \<and> go_reference_count x \<noteq> 0) (gc_objects g) =
      (case object_of g a of None \<Rightarrow> None | Some x \<Rightarrow> if go_reference_count x \<noteq> 0 then Some x else None)"
    unfolding object_of_def
  proof (rule find_refine)
    fix i j
    assume "i < j" "j < length (gc_objects g)" "go_object_id (gc_objects g ! i) = a \<and> go_object_ptr (gc_objects g ! i) \<noteq> None"
      "go_object_id (gc_objects g ! j) = a \<and> go_object_ptr (gc_objects g ! j) \<noteq> None"
    with gc_inv_distinct [OF assms(1), of i j] show False by simp
  qed
  also have "map_option ?f \<dots> = (case object_of g a of None \<Rightarrow> None
    | Some x \<Rightarrow> if go_reference_count x \<noteq> 0 then Some (x\<lparr>go_status := GC_STATUS_MARKED\<rparr>) else None)"
  proof (cases "object_of g a")
    case (Some x)
    then have "go_object_ptr x \<noteq> None" by (auto simp: object_of_def find_Some_iff)
    with Some show ?thesis by (simp add: mark_def word_gt_0)
  qed simp
  finally show ?thesis .
qed

section \<open>Main theorem\<close>

text \<open>
  The collector frees objects that are in use. After any history of fewer than 4294967295
  calls, a full collection keeps an object exactly when it has references of its own, whether or not
  anything refers to it, and returns the number of objects it frees. So an object \<open>b\<close> without references
  is freed although an object \<open>a\<close> that is kept refers to it, and \<open>a\<close> goes on referring to it.
\<close>

lemma gc_frees_referenced_objects:
  assumes "length calls < 4294967295" and "foldl gc_step (gc_init algorithm True, 1) calls = (Some g, n)"
    and "gc_run_full_collection (Some g) = (Some g', r)"
  shows "(\<forall>k. object_of g' k = (case object_of g k of None \<Rightarrow> None
      | Some x \<Rightarrow> if go_reference_count x \<noteq> 0 then Some (x\<lparr>go_status := GC_STATUS_MARKED\<rparr>) else None)) \<and>
    r = int (length (filter (\<lambda>x. go_object_ptr x \<noteq> None \<and> go_reference_count x = 0) (gc_objects g))) \<and>
    (\<forall>a b x y. object_of g a = Some x \<and> b \<in> set (references x) \<and> object_of g b = Some y \<and> go_reference_count y = 0 \<longrightarrow>
       (\<exists>x'. object_of g' a = Some x' \<and> b \<in> set (references x')) \<and> object_of g' b = None)"
proof -
  have "gc_inv (0 + length calls) (gc_init algorithm True, 1)"
    using assms(1) by (simp add: gc_inv_def gc_init_def)
  from gc_run_inv [OF this] assms(2) have inv: "gc_inv 0 (Some g, n)" by simp
  note obj = collection_object [OF inv assms(3)]
  let ?dead = "filter (\<lambda>x. go_object_ptr x \<noteq> None \<and> go_reference_count x = 0) (gc_objects g)"
  have "length (gc_objects g) \<le> 65536" using inv by (simp add: gc_inv_def)
  then have few: "length ?dead \<le> 65536" by (rule order.trans [OF length_filter_le])
  then have dead: "unat (of_nat (length ?dead) :: u32) = length ?dead" by (simp add: unat_of_nat_u32)
  with few have "(of_nat (length ?dead) :: u32) < 2147483648" by (simp add: word_less_nat_alt)
  then have "sint (of_nat (length ?dead) :: u32) = uint (of_nat (length ?dead) :: u32)" by (rule sint_small)
  also have "\<dots> = int (unat (of_nat (length ?dead) :: u32))" by (simp only: of_nat_unat)
  finally have "sint (of_nat (length ?dead) :: u32) = int (length ?dead)" by (simp only: dead)
  then have r: "r = int (length ?dead)" using full_collection_eq [of g] assms(3) by auto
  have "(\<exists>x'. object_of g' a = Some x' \<and> b \<in> set (references x')) \<and> object_of g' b = None"
    if "object_of g a = Some x" "b \<in> set (references x)" "object_of g b = Some y" "go_reference_count y = 0" for a b x y
  proof -
    have "go_reference_count x \<noteq> 0" using that(2) by (auto simp: references_def)
    with that show ?thesis by (simp add: obj references_def)
  qed
  with obj r show ?thesis by blast
qed

text \<open>Object 1 refers to object 2; the collection frees object 2.\<close>

lemma gc_frees_referenced_objects_witness:
  "\<exists>g g' x. foldl gc_step (gc_init GC_ALGORITHM_MARK_SWEEP True, 1)
       [AllocateObject 64 (Some 4096), AllocateObject 64 (Some 8192), AddReference 1 2] = (Some g, 3)
     \<and> gc_run_full_collection (Some g) = (Some g', 1)
     \<and> object_of g' 1 = Some x \<and> 2 \<in> set (references x) \<and> object_of g 2 \<noteq> None \<and> object_of g' 2 = None"
proof -
  let ?calls = "[AllocateObject 64 (Some 4096), AllocateObject 64 (Some 8192), AddReference 1 2]"
  let ?a = "zero_object\<lparr>go_object_id := 1, go_object_ptr := Some 4096, go_object_size := 64,
    go_referenced_objects := (replicate 32 0)[0 := 2], go_reference_count := 1\<rparr>"
  let ?b = "zero_object\<lparr>go_object_id := 2, go_object_ptr := Some 8192, go_object_size := 64\<rparr>"
  obtain g where g: "foldl gc_step (gc_init GC_ALGORITHM_MARK_SWEEP True, 1) ?calls = (Some g, 3)" "gc_objects g = [?a, ?b]"
    by (simp add: gc_init_def gc_allocate_object_def gc_add_reference_def find_object_def set_object_def
        MAX_GC_OBJECTS_def MAX_OBJECT_REFERENCES_def Let_def zero_object_def)
  obtain g' r where col: "gc_run_full_collection (Some g) = (Some g', r)" using full_collection_eq [of g] by blast
  have len: "length ?calls < 4294967295" by simp
  have refs: "2 \<in> set (references ?a)" by (simp add: references_def numeral_eq_Suc)
  have objs: "object_of g 1 = Some ?a" "object_of g 2 = Some ?b" by (simp_all add: object_of_def g(2))
  have b: "go_reference_count ?b = 0" by (simp add: zero_object_def)
  from gc_frees_referenced_objects [OF len g(1) col] objs refs b
  have "\<exists>x'. object_of g' 1 = Some x' \<and> 2 \<in> set (references x')" "object_of g' 2 = None" by blast+
  moreover have "r = 1" using gc_frees_referenced_objects [OF len g(1) col] by (simp add: g(2) zero_object_def)
  ultimately show ?thesis using g(1) col objs(2) by blast
qed

end
