(* ===== verification/Certificates.thy ===== *)
theory Certificates
  imports Service_Tables
begin

text \<open>
  The certificate manager of \<open>src/security-cryptography/certificate_manager.c\<close>: key stores, each with
  certificates, private keys and a list of revoked certificates. The three static counters that
  number stores, certificates and keys are arguments and results of the operations that use them;
  whether an allocation succeeds is an argument. An operation on a certificate or a key searches
  the stores for one that has both identifiers, and goes on after a store that lacks the second. A
  caller whose data is shorter than the length it gives is undefined; a buffer that is written is the
  list of bytes written to its start, and its new length.

  The second half shows that the manager refines a map of vaults, that what is imported is what is
  exported until the store is destroyed, and what revocation, chain verification and key generation
  really do.
\<close>

section \<open>Constants and data\<close>

definition MAX_CERTIFICATES :: nat where "MAX_CERTIFICATES = 512"
definition MAX_CERTIFICATE_CHAIN :: u32 where "MAX_CERTIFICATE_CHAIN = 16"
definition MAX_KEY_STORES :: nat where "MAX_KEY_STORES = 64"
definition MAX_REVOKED_CERTS :: nat where "MAX_REVOKED_CERTS = 256"

datatype CertificateType = CERT_TYPE_ROOT_CA | CERT_TYPE_INTERMEDIATE_CA | CERT_TYPE_END_ENTITY | CERT_TYPE_SELF_SIGNED

datatype CertificateStatus = CERT_STATUS_VALID | CERT_STATUS_EXPIRED | CERT_STATUS_REVOKED | CERT_STATUS_SUSPENDED

record Certificate =
  ct_cert_id :: u32
  ct_subject :: string
  ct_issuer :: string
  ct_thumbprint :: string
  ct_cert_data :: "u8 list"
  ct_cert_length :: u32
  ct_cert_type :: CertificateType
  ct_status :: CertificateStatus
  ct_issued_time :: u64
  ct_expiry_time :: u64
  ct_key_bits :: u32
  ct_is_trusted :: bool
  ct_chain_depth :: u32

text \<open>An imported key has no public half: its pointer stays \<open>NULL\<close>.\<close>

record PrivateKey =
  pk_key_id :: u32
  pk_key_alias :: string
  pk_private_key :: "u8 list"
  pk_private_key_length :: u32
  pk_public_key :: "u8 list option"
  pk_public_key_length :: u32
  pk_associated_cert_id :: u32
  pk_key_bits :: u32
  pk_created_time :: u64
  pk_is_protected :: bool

record KeyStore =
  ks_store_id :: u32
  ks_store_name :: string
  ks_certificates :: "Certificate list"
  ks_private_keys :: "PrivateKey list"
  ks_revoked_cert_ids :: "u32 list"
  ks_is_secured :: bool

record CertificateManager =
  cr_manager_id :: u32
  cr_key_stores :: "KeyStore list"
  cr_default_store_id :: u32
  cr_certificates_validated :: u64
  cr_validation_failures :: u32

record CertificateManagerMetrics =
  cn_manager_id :: u32
  cn_total_stores :: u32
  cn_total_certificates :: u32
  cn_total_keys :: u32
  cn_revoked_certificates :: u32
  cn_certificates_validated :: u64
  cn_validation_failures :: u32

type_synonym certs = "CertificateManager option"

section \<open>Key stores\<close>

definition certificate_manager_init :: "bool \<Rightarrow> certs" where
  "certificate_manager_init malloc_ok =
     (if \<not> malloc_ok then None
      else Some \<lparr>cr_manager_id = 1, cr_key_stores = [], cr_default_store_id = 0, cr_certificates_validated = 0,
        cr_validation_failures = 0\<rparr>)"

definition certificate_manager_destroy :: "certs \<Rightarrow> certs \<times> int" where
  "certificate_manager_destroy h = (None, case h of None \<Rightarrow> -1 | Some m \<Rightarrow> 0)"

definition keystore_create :: "certs \<Rightarrow> u32 \<Rightarrow> string option \<Rightarrow> (certs \<times> u32) \<times> u32" where
  "keystore_create h next_store_id store_name =
     (case h of None \<Rightarrow> ((h, next_store_id), 0)
      | Some m \<Rightarrow>
          if length (cr_key_stores m) \<ge> MAX_KEY_STORES then ((h, next_store_id), 0)
          else ((Some (m\<lparr>
              cr_key_stores := cr_key_stores m @ [\<lparr>ks_store_id = next_store_id,
                ks_store_name = (case store_name of None \<Rightarrow> '''' | Some n \<Rightarrow> take 63 n),
                ks_certificates = [], ks_private_keys = [], ks_revoked_cert_ids = [], ks_is_secured = True\<rparr>],
              cr_default_store_id := (if cr_default_store_id m = 0 then next_store_id else cr_default_store_id m)\<rparr>),
            next_store_id + 1), next_store_id))"

definition find_store :: "u32 \<Rightarrow> CertificateManager \<Rightarrow> nat option" where
  "find_store store_id m = id_idx ks_store_id store_id (cr_key_stores m)"

definition find_cert :: "u32 \<Rightarrow> KeyStore \<Rightarrow> nat option" where
  "find_cert cert_id s = id_idx ct_cert_id cert_id (ks_certificates s)"

definition find_private_key :: "u32 \<Rightarrow> KeyStore \<Rightarrow> nat option" where
  "find_private_key key_id s = id_idx pk_key_id key_id (ks_private_keys s)"

text \<open>The nested loops: the first store with the identifier that has the entry, and the entry in it.\<close>

definition locate :: "(KeyStore \<Rightarrow> nat option) \<Rightarrow> u32 \<Rightarrow> CertificateManager \<Rightarrow> (nat \<times> nat) option" where
  "locate sel store_id m =
     (if store_id = 0 then None
      else case first_idx (\<lambda>s. ks_store_id s = store_id \<and> sel s \<noteq> None) (cr_key_stores m) of None \<Rightarrow> None
      | Some i \<Rightarrow> Some (i, the (sel (cr_key_stores m ! i))))"

definition set_store :: "nat \<Rightarrow> KeyStore \<Rightarrow> CertificateManager \<Rightarrow> CertificateManager" where
  "set_store i s m = m\<lparr>cr_key_stores := (cr_key_stores m)[i := s]\<rparr>"

definition cert_at :: "nat \<times> nat \<Rightarrow> CertificateManager \<Rightarrow> Certificate" where
  "cert_at p m = ks_certificates (cr_key_stores m ! fst p) ! snd p"

definition key_at :: "nat \<times> nat \<Rightarrow> CertificateManager \<Rightarrow> PrivateKey" where
  "key_at p m = ks_private_keys (cr_key_stores m ! fst p) ! snd p"

definition set_cert :: "nat \<times> nat \<Rightarrow> Certificate \<Rightarrow> CertificateManager \<Rightarrow> CertificateManager" where
  "set_cert p c m = (let s = cr_key_stores m ! fst p
     in set_store (fst p) (s\<lparr>ks_certificates := (ks_certificates s)[snd p := c]\<rparr>) m)"

definition set_private_key :: "nat \<times> nat \<Rightarrow> PrivateKey \<Rightarrow> CertificateManager \<Rightarrow> CertificateManager" where
  "set_private_key p k m = (let s = cr_key_stores m ! fst p
     in set_store (fst p) (s\<lparr>ks_private_keys := (ks_private_keys s)[snd p := k]\<rparr>) m)"

definition keystore_destroy :: "certs \<Rightarrow> u32 \<Rightarrow> certs \<times> int" where
  "keystore_destroy h store_id = with_handle (-1) h (\<lambda>m.
     case find_store store_id m of None \<Rightarrow> (m, -1)
     | Some i \<Rightarrow> (m\<lparr>cr_key_stores := remove_at i (cr_key_stores m),
                    cr_default_store_id := (if cr_default_store_id m = store_id then 0 else cr_default_store_id m)\<rparr>, 0))"

section \<open>Certificates\<close>

definition certificate_import ::
    "certs \<Rightarrow> u32 \<Rightarrow> u32 \<Rightarrow> u8 list option \<Rightarrow> u32 \<Rightarrow> string option \<Rightarrow> string option \<Rightarrow> bool \<Rightarrow>
     ((certs \<times> u32) \<times> u32) outcome" where
  "certificate_import h next_cert_id store_id cert_data cert_length subject issuer malloc_ok =
     (case (h, cert_data) of
        (Some m, Some d) \<Rightarrow>
          (case find_store store_id m of None \<Rightarrow> Done ((h, next_cert_id), 0)
           | Some i \<Rightarrow>
               let s = cr_key_stores m ! i in
               if length (ks_certificates s) \<ge> MAX_CERTIFICATES then Done ((h, next_cert_id), 0)
               else if \<not> malloc_ok then Done ((h, next_cert_id + 1), 0)
               else if length d < unat cert_length then Undef
               else (let cert = \<lparr>ct_cert_id = next_cert_id,
                       ct_subject = (case subject of None \<Rightarrow> '''' | Some t \<Rightarrow> take 255 t),
                       ct_issuer = (case issuer of None \<Rightarrow> '''' | Some t \<Rightarrow> take 255 t),
                       ct_thumbprint = ''THUMB_'' @ dec_digits (unat next_cert_id),
                       ct_cert_data = take (unat cert_length) d, ct_cert_length = cert_length,
                       ct_cert_type = CERT_TYPE_END_ENTITY, ct_status = CERT_STATUS_VALID, ct_issued_time = 0,
                       ct_expiry_time = 0, ct_key_bits = 2048, ct_is_trusted = False, ct_chain_depth = 0\<rparr>;
                       m1 = set_store i (s\<lparr>ks_certificates := ks_certificates s @ [cert]\<rparr>) m
                     in Done ((Some (m1\<lparr>cr_certificates_validated := cr_certificates_validated m1 + 1\<rparr>),
                               next_cert_id + 1), next_cert_id)))
      | _ \<Rightarrow> Done ((h, next_cert_id), 0))"

definition certificate_export :: "certs \<Rightarrow> u32 \<Rightarrow> u32 \<Rightarrow> bool \<Rightarrow> u32 option \<Rightarrow> int \<times> (u8 list \<times> u32) option" where
  "certificate_export h store_id cert_id cert_data cert_length = read_handle (-1, None) h (\<lambda>m.
     case cert_length of None \<Rightarrow> (-1, None)
     | Some cap \<Rightarrow>
         if \<not> cert_data then (-1, None)
         else case locate (find_cert cert_id) store_id m of None \<Rightarrow> (-1, None)
         | Some p \<Rightarrow>
             let c = cert_at p m in
             if ct_cert_length c \<le> cap
             then (0, Some (take (unat (ct_cert_length c)) (ct_cert_data c), ct_cert_length c)) else (-1, None))"

definition certificate_validate :: "certs \<Rightarrow> u32 \<Rightarrow> u32 \<Rightarrow> certs \<times> int" where
  "certificate_validate h store_id cert_id = with_handle (-1) h (\<lambda>m.
     case locate (find_cert cert_id) store_id m of None \<Rightarrow> (m, -1)
     | Some p \<Rightarrow>
         if ct_status (cert_at p m) = CERT_STATUS_VALID
         then (m\<lparr>cr_certificates_validated := cr_certificates_validated m + 1\<rparr>, 0)
         else (m\<lparr>cr_validation_failures := cr_validation_failures m + 1\<rparr>, -1))"

definition certificate_verify_chain :: "certs \<Rightarrow> u32 \<Rightarrow> u32 \<Rightarrow> certs \<times> int" where
  "certificate_verify_chain h store_id cert_id = with_handle (-1) h (\<lambda>m.
     case locate (find_cert cert_id) store_id m of None \<Rightarrow> (m, -1)
     | Some p \<Rightarrow>
         let c = cert_at p m in
         if ct_chain_depth c \<le> MAX_CERTIFICATE_CHAIN
         then (set_cert p (c\<lparr>ct_chain_depth := ct_chain_depth c + 1\<rparr>) m, 0) else (m, -1))"

definition certificate_revoke :: "certs \<Rightarrow> u32 \<Rightarrow> u32 \<Rightarrow> certs \<times> int" where
  "certificate_revoke h store_id cert_id = with_handle (-1) h (\<lambda>m.
     case locate (find_cert cert_id) store_id m of None \<Rightarrow> (m, -1)
     | Some p \<Rightarrow>
         let m1 = set_cert p ((cert_at p m)\<lparr>ct_status := CERT_STATUS_REVOKED\<rparr>) m;
             s = cr_key_stores m1 ! fst p
         in (if length (ks_revoked_cert_ids s) < MAX_REVOKED_CERTS
             then set_store (fst p) (s\<lparr>ks_revoked_cert_ids := ks_revoked_cert_ids s @ [cert_id]\<rparr>) m1 else m1, 0))"

definition certificate_check_revocation_status :: "certs \<Rightarrow> u32 \<Rightarrow> u32 \<Rightarrow> int" where
  "certificate_check_revocation_status h store_id cert_id = read_handle (-1) h (\<lambda>m.
     if cert_id = 0 then -1
     else case find_store store_id m of None \<Rightarrow> -1
     | Some i \<Rightarrow> if first_idx (\<lambda>c. c = cert_id) (ks_revoked_cert_ids (cr_key_stores m ! i)) = None then 0 else 1)"

definition certificate_check_expiry :: "certs \<Rightarrow> u32 \<Rightarrow> u32 \<Rightarrow> int" where
  "certificate_check_expiry h store_id cert_id = read_handle (-1) h (\<lambda>m.
     case locate (find_cert cert_id) store_id m of None \<Rightarrow> -1
     | Some p \<Rightarrow> if ct_status (cert_at p m) = CERT_STATUS_EXPIRED then 1 else 0)"

section \<open>Private keys\<close>

definition generated_private :: "u32 \<Rightarrow> u8 list" where
  "generated_private n = map (\<lambda>j. ucast ((of_nat j * 23 + 89) mod 256 :: u32)) [0..<unat n]"

definition generated_public :: "u32 \<Rightarrow> u8 list" where
  "generated_public n = map (\<lambda>j. ucast ((of_nat j * 31 + 127) mod 256 :: u32)) [0..<unat n]"

definition private_key_generate ::
    "certs \<Rightarrow> u32 \<Rightarrow> u32 \<Rightarrow> u32 \<Rightarrow> string option \<Rightarrow> bool \<Rightarrow> bool \<Rightarrow> (certs \<times> u32) \<times> u32" where
  "private_key_generate h next_key_id store_id key_bits key_alias malloc_private malloc_public =
     (case h of None \<Rightarrow> ((h, next_key_id), 0)
      | Some m \<Rightarrow>
          if key_bits = 0 then ((h, next_key_id), 0)
          else case find_store store_id m of None \<Rightarrow> ((h, next_key_id), 0)
          | Some i \<Rightarrow>
              let s = cr_key_stores m ! i in
              if length (ks_private_keys s) \<ge> MAX_CERTIFICATES then ((h, next_key_id), 0)
              else if \<not> malloc_private \<or> \<not> malloc_public then ((h, next_key_id + 1), 0)
              else (let key = \<lparr>pk_key_id = next_key_id,
                      pk_key_alias = (case key_alias of None \<Rightarrow> '''' | Some t \<Rightarrow> take 63 t),
                      pk_private_key = generated_private (key_bits div 8), pk_private_key_length = key_bits div 8,
                      pk_public_key = Some (generated_public (key_bits div 8)), pk_public_key_length = key_bits div 8,
                      pk_associated_cert_id = 0, pk_key_bits = key_bits, pk_created_time = 0, pk_is_protected = True\<rparr>
                    in ((Some (set_store i (s\<lparr>ks_private_keys := ks_private_keys s @ [key]\<rparr>) m), next_key_id + 1),
                        next_key_id)))"

definition private_key_import ::
    "certs \<Rightarrow> u32 \<Rightarrow> u32 \<Rightarrow> u8 list option \<Rightarrow> u32 \<Rightarrow> string option \<Rightarrow> bool \<Rightarrow> ((certs \<times> u32) \<times> int) outcome" where
  "private_key_import h next_key_id store_id key_data key_length key_alias malloc_ok =
     (case (h, key_data) of
        (Some m, Some d) \<Rightarrow>
          (case find_store store_id m of None \<Rightarrow> Done ((h, next_key_id), -1)
           | Some i \<Rightarrow>
               let s = cr_key_stores m ! i in
               if length (ks_private_keys s) \<ge> MAX_CERTIFICATES then Done ((h, next_key_id), -1)
               else if \<not> malloc_ok then Done ((h, next_key_id + 1), -1)
               else if length d < unat key_length then Undef
               else (let key = \<lparr>pk_key_id = next_key_id,
                       pk_key_alias = (case key_alias of None \<Rightarrow> '''' | Some t \<Rightarrow> take 63 t),
                       pk_private_key = take (unat key_length) d, pk_private_key_length = key_length,
                       pk_public_key = None, pk_public_key_length = 0, pk_associated_cert_id = 0,
                       pk_key_bits = key_length * 8, pk_created_time = 0, pk_is_protected = True\<rparr>
                     in Done ((Some (set_store i (s\<lparr>ks_private_keys := ks_private_keys s @ [key]\<rparr>) m),
                               next_key_id + 1), sint next_key_id)))
      | _ \<Rightarrow> Done ((h, next_key_id), -1))"

definition private_key_export :: "certs \<Rightarrow> u32 \<Rightarrow> u32 \<Rightarrow> bool \<Rightarrow> u32 option \<Rightarrow> int \<times> (u8 list \<times> u32) option" where
  "private_key_export h store_id key_id key_data key_length = read_handle (-1, None) h (\<lambda>m.
     case key_length of None \<Rightarrow> (-1, None)
     | Some cap \<Rightarrow>
         if \<not> key_data then (-1, None)
         else case locate (find_private_key key_id) store_id m of None \<Rightarrow> (-1, None)
         | Some p \<Rightarrow>
             let k = key_at p m in
             if pk_private_key_length k \<le> cap
             then (0, Some (take (unat (pk_private_key_length k)) (pk_private_key k), pk_private_key_length k))
             else (-1, None))"

definition private_key_protect :: "certs \<Rightarrow> u32 \<Rightarrow> u32 \<Rightarrow> certs \<times> int" where
  "private_key_protect h store_id key_id = with_handle (-1) h (\<lambda>m.
     case locate (find_private_key key_id) store_id m of None \<Rightarrow> (m, -1)
     | Some p \<Rightarrow> (set_private_key p ((key_at p m)\<lparr>pk_is_protected := True\<rparr>) m, 0))"

definition private_key_unprotect :: "certs \<Rightarrow> u32 \<Rightarrow> u32 \<Rightarrow> certs \<times> int" where
  "private_key_unprotect h store_id key_id = with_handle (-1) h (\<lambda>m.
     case locate (find_private_key key_id) store_id m of None \<Rightarrow> (m, -1)
     | Some p \<Rightarrow> (set_private_key p ((key_at p m)\<lparr>pk_is_protected := False\<rparr>) m, 0))"

definition certificate_bind_key :: "certs \<Rightarrow> u32 \<Rightarrow> u32 \<Rightarrow> u32 \<Rightarrow> certs \<times> int" where
  "certificate_bind_key h store_id cert_id key_id = with_handle (-1) h (\<lambda>m.
     if key_id = 0 then (m, -1)
     else case locate (find_cert cert_id) store_id m of None \<Rightarrow> (m, -1)
     | Some p \<Rightarrow> (set_cert p ((cert_at p m)\<lparr>ct_chain_depth := key_id\<rparr>) m, 0))"

definition certificate_get_associated_key :: "certs \<Rightarrow> u32 \<Rightarrow> u32 \<Rightarrow> bool \<Rightarrow> int \<times> u32 option" where
  "certificate_get_associated_key h store_id cert_id key_id = read_handle (-1, None) h (\<lambda>m.
     if \<not> key_id then (-1, None)
     else case locate (find_cert cert_id) store_id m of None \<Rightarrow> (-1, None)
     | Some p \<Rightarrow> (0, Some (ct_chain_depth (cert_at p m))))"

definition certificate_manager_get_metrics :: "certs \<Rightarrow> bool \<Rightarrow> int \<times> CertificateManagerMetrics option" where
  "certificate_manager_get_metrics h metrics = read_handle (-1, None) h (\<lambda>m.
     if \<not> metrics then (-1, None)
     else (0, Some \<lparr>cn_manager_id = cr_manager_id m, cn_total_stores = of_nat (length (cr_key_stores m)),
        cn_total_certificates = foldl (\<lambda>t s. t + of_nat (length (ks_certificates s))) 0 (cr_key_stores m),
        cn_total_keys = foldl (\<lambda>t s. t + of_nat (length (ks_private_keys s))) 0 (cr_key_stores m),
        cn_revoked_certificates = foldl (\<lambda>t s. t + of_nat (length (ks_revoked_cert_ids s))) 0 (cr_key_stores m),
        cn_certificates_validated = cr_certificates_validated m,
        cn_validation_failures = cr_validation_failures m\<rparr>))"

section \<open>Vaults\<close>

text \<open>
  What the manager means: a map of vaults, each with the bytes, the validity and the number bound to
  every certificate, the bytes of every private key, and the list of revocations.
\<close>

record cert_view =
  cv_data :: "u8 list"
  cv_valid :: bool
  cv_number :: u32

record vault =
  va_certs :: "u32 \<rightharpoonup> cert_view"
  va_keys :: "u32 \<rightharpoonup> u8 list"
  va_revoked :: "u32 list"

record vaults =
  vs_stores :: "u32 \<rightharpoonup> vault"
  vs_next_store :: u32
  vs_next_cert :: u32
  vs_next_key :: u32

datatype cert_call =
  CreateStore "string option" | DestroyStore u32 | ImportCert u32 "u8 list" "string option" "string option"
  | ExportCert u32 u32 u32 | ValidateCert u32 u32 | VerifyChain u32 u32 | RevokeCert u32 u32 | RevocationStatus u32 u32
  | CheckExpiry u32 u32 | GenerateKey u32 u32 "string option" | ImportKey u32 "u8 list" "string option"
  | ExportKey u32 u32 u32 | ProtectKey u32 u32 | UnprotectKey u32 u32 | BindKey u32 u32 u32 | AssociatedKey u32 u32

datatype cert_reply = Identifier u32 | Code int | Bytes int "(u8 list \<times> u32) option" | Number int "u32 option"

record cert_state =
  ce_manager :: CertificateManager
  ce_next_store :: u32
  ce_next_cert :: u32
  ce_next_key :: u32

abbreviation ce_handle :: "cert_state \<Rightarrow> certs" where "ce_handle s \<equiv> Some (ce_manager s)"

definition on_certs :: "cert_state \<Rightarrow> certs \<times> int \<Rightarrow> cert_state \<times> cert_reply" where
  "on_certs s x = (s\<lparr>ce_manager := the (fst x)\<rparr>, Code (snd x))"

text \<open>Calls whose allocations succeed, with data as long as the length given.\<close>

fun cert_step :: "cert_state \<Rightarrow> cert_call \<Rightarrow> cert_state \<times> cert_reply" where
  "cert_step s (CreateStore nm) =
     (let ((h, nx), r) = keystore_create (ce_handle s) (ce_next_store s) nm
      in (s\<lparr>ce_manager := the h, ce_next_store := nx\<rparr>, Identifier r))"
| "cert_step s (DestroyStore k) = on_certs s (keystore_destroy (ce_handle s) k)"
| "cert_step s (ImportCert k d subj iss) =
     (case certificate_import (ce_handle s) (ce_next_cert s) k (Some d) (of_nat (length d)) subj iss True of
        Undef \<Rightarrow> (s, Code (-2))
      | Done ((h, nx), r) \<Rightarrow> (s\<lparr>ce_manager := the h, ce_next_cert := nx\<rparr>, Identifier r))"
| "cert_step s (ExportCert k c cap) =
     (s, case certificate_export (ce_handle s) k c True (Some cap) of (r, out) \<Rightarrow> Bytes r out)"
| "cert_step s (ValidateCert k c) = on_certs s (certificate_validate (ce_handle s) k c)"
| "cert_step s (VerifyChain k c) = on_certs s (certificate_verify_chain (ce_handle s) k c)"
| "cert_step s (RevokeCert k c) = on_certs s (certificate_revoke (ce_handle s) k c)"
| "cert_step s (RevocationStatus k c) = (s, Code (certificate_check_revocation_status (ce_handle s) k c))"
| "cert_step s (CheckExpiry k c) = (s, Code (certificate_check_expiry (ce_handle s) k c))"
| "cert_step s (GenerateKey k bits a) =
     (let ((h, nx), r) = private_key_generate (ce_handle s) (ce_next_key s) k bits a True True
      in (s\<lparr>ce_manager := the h, ce_next_key := nx\<rparr>, Identifier r))"
| "cert_step s (ImportKey k d a) =
     (case private_key_import (ce_handle s) (ce_next_key s) k (Some d) (of_nat (length d)) a True of
        Undef \<Rightarrow> (s, Code (-2))
      | Done ((h, nx), r) \<Rightarrow> (s\<lparr>ce_manager := the h, ce_next_key := nx\<rparr>, Code r))"
| "cert_step s (ExportKey k y cap) =
     (s, case private_key_export (ce_handle s) k y True (Some cap) of (r, out) \<Rightarrow> Bytes r out)"
| "cert_step s (ProtectKey k y) = on_certs s (private_key_protect (ce_handle s) k y)"
| "cert_step s (UnprotectKey k y) = on_certs s (private_key_unprotect (ce_handle s) k y)"
| "cert_step s (BindKey k c y) = on_certs s (certificate_bind_key (ce_handle s) k c y)"
| "cert_step s (AssociatedKey k c) =
     (s, case certificate_get_associated_key (ce_handle s) k c True of (r, out) \<Rightarrow> Number r out)"

fun cert_fits :: "cert_call \<Rightarrow> bool" where
  "cert_fits (ImportCert k d subj iss) \<longleftrightarrow> length d < 4294967296"
| "cert_fits (ImportKey k d a) \<longleftrightarrow> length d < 4294967296"
| "cert_fits c \<longleftrightarrow> True"

definition cert_of :: "vaults \<Rightarrow> u32 \<Rightarrow> u32 \<Rightarrow> cert_view option" where
  "cert_of a k c = Option.bind (vs_stores a k) (\<lambda>v. va_certs v c)"

definition key_of :: "vaults \<Rightarrow> u32 \<Rightarrow> u32 \<Rightarrow> u8 list option" where
  "key_of a k y = Option.bind (vs_stores a k) (\<lambda>v. va_keys v y)"

definition put_vault :: "u32 \<Rightarrow> (vault \<Rightarrow> vault) \<Rightarrow> vaults \<Rightarrow> vaults" where
  "put_vault k f a = a\<lparr>vs_stores := (vs_stores a)(k := map_option f (vs_stores a k))\<rparr>"

definition put_cert :: "u32 \<Rightarrow> u32 \<Rightarrow> cert_view \<Rightarrow> vaults \<Rightarrow> vaults" where
  "put_cert k c x = put_vault k (\<lambda>v. v\<lparr>va_certs := (va_certs v)(c \<mapsto> x)\<rparr>)"

definition put_key :: "u32 \<Rightarrow> u32 \<Rightarrow> u8 list \<Rightarrow> vaults \<Rightarrow> vaults" where
  "put_key k y x = put_vault k (\<lambda>v. v\<lparr>va_keys := (va_keys v)(y \<mapsto> x)\<rparr>)"

definition bytes_reply :: "u8 list option \<Rightarrow> u32 \<Rightarrow> cert_reply" where
  "bytes_reply d cap =
     (case d of None \<Rightarrow> Bytes (-1) None
      | Some bs \<Rightarrow> if length bs \<le> unat cap then Bytes 0 (Some (bs, of_nat (length bs))) else Bytes (-1) None)"

fun cert_spec :: "vaults \<Rightarrow> cert_call \<Rightarrow> vaults \<times> cert_reply" where
  "cert_spec a (CreateStore nm) =
     (if card (dom (vs_stores a)) \<ge> 64 then (a, Identifier 0)
      else (a\<lparr>vs_stores := (vs_stores a)(vs_next_store a \<mapsto> \<lparr>va_certs = Map.empty, va_keys = Map.empty, va_revoked = []\<rparr>),
              vs_next_store := vs_next_store a + 1\<rparr>, Identifier (vs_next_store a)))"
| "cert_spec a (DestroyStore k) =
     (a\<lparr>vs_stores := (vs_stores a)(k := None)\<rparr>, Code (if vs_stores a k = None then -1 else 0))"
| "cert_spec a (ImportCert k d subj iss) =
     (case vs_stores a k of None \<Rightarrow> (a, Identifier 0)
      | Some v \<Rightarrow>
          if card (dom (va_certs v)) \<ge> 512 then (a, Identifier 0)
          else ((put_cert k (vs_next_cert a) \<lparr>cv_data = d, cv_valid = True, cv_number = 0\<rparr> a)
                  \<lparr>vs_next_cert := vs_next_cert a + 1\<rparr>, Identifier (vs_next_cert a)))"
| "cert_spec a (ExportCert k c cap) = (a, bytes_reply (map_option cv_data (cert_of a k c)) cap)"
| "cert_spec a (ValidateCert k c) =
     (a, Code (case cert_of a k c of None \<Rightarrow> -1 | Some x \<Rightarrow> if cv_valid x then 0 else -1))"
| "cert_spec a (VerifyChain k c) =
     (case cert_of a k c of None \<Rightarrow> (a, Code (-1))
      | Some x \<Rightarrow>
          if cv_number x \<le> 16 then (put_cert k c (x\<lparr>cv_number := cv_number x + 1\<rparr>) a, Code 0) else (a, Code (-1)))"
| "cert_spec a (RevokeCert k c) =
     (case cert_of a k c of None \<Rightarrow> (a, Code (-1))
      | Some x \<Rightarrow>
          (put_vault k (\<lambda>v. v\<lparr>va_revoked := take 256 (va_revoked v @ [c])\<rparr>) (put_cert k c (x\<lparr>cv_valid := False\<rparr>) a), Code 0))"
| "cert_spec a (RevocationStatus k c) =
     (a, Code (case vs_stores a k of None \<Rightarrow> -1
               | Some v \<Rightarrow> if c = 0 then -1 else if c \<in> set (va_revoked v) then 1 else 0))"
| "cert_spec a (CheckExpiry k c) = (a, Code (if cert_of a k c = None then -1 else 0))"
| "cert_spec a (GenerateKey k bits al) =
     (case vs_stores a k of None \<Rightarrow> (a, Identifier 0)
      | Some v \<Rightarrow>
          if bits = 0 \<or> card (dom (va_keys v)) \<ge> 512 then (a, Identifier 0)
          else ((put_key k (vs_next_key a) (generated_private (bits div 8)) a)\<lparr>vs_next_key := vs_next_key a + 1\<rparr>,
                Identifier (vs_next_key a)))"
| "cert_spec a (ImportKey k d al) =
     (case vs_stores a k of None \<Rightarrow> (a, Code (-1))
      | Some v \<Rightarrow>
          if card (dom (va_keys v)) \<ge> 512 then (a, Code (-1))
          else ((put_key k (vs_next_key a) d a)\<lparr>vs_next_key := vs_next_key a + 1\<rparr>, Code (sint (vs_next_key a))))"
| "cert_spec a (ExportKey k y cap) = (a, bytes_reply (key_of a k y) cap)"
| "cert_spec a (ProtectKey k y) = (a, Code (if key_of a k y = None then -1 else 0))"
| "cert_spec a (UnprotectKey k y) = (a, Code (if key_of a k y = None then -1 else 0))"
| "cert_spec a (BindKey k c y) =
     (case cert_of a k c of None \<Rightarrow> (a, Code (-1))
      | Some x \<Rightarrow> if y = 0 then (a, Code (-1)) else (put_cert k c (x\<lparr>cv_number := y\<rparr>) a, Code 0))"
| "cert_spec a (AssociatedKey k c) =
     (a, case cert_of a k c of None \<Rightarrow> Number (-1) None | Some x \<Rightarrow> Number 0 (Some (cv_number x)))"

section \<open>The manager refines the vaults\<close>

definition cert_wf :: "Certificate \<Rightarrow> bool" where
  "cert_wf c \<longleftrightarrow> unat (ct_cert_length c) = length (ct_cert_data c) \<and> ct_status c \<in> {CERT_STATUS_VALID, CERT_STATUS_REVOKED}"

definition key_wf :: "PrivateKey \<Rightarrow> bool" where
  "key_wf k \<longleftrightarrow> unat (pk_private_key_length k) = length (pk_private_key k)"

definition store_wf :: "nat \<Rightarrow> u32 \<Rightarrow> u32 \<Rightarrow> KeyStore \<Rightarrow> bool" where
  "store_wf n next_cert next_key s \<longleftrightarrow>
     ids_below n next_cert (map ct_cert_id (ks_certificates s)) \<and> ids_below n next_key (map pk_key_id (ks_private_keys s)) \<and>
     list_all cert_wf (ks_certificates s) \<and> list_all key_wf (ks_private_keys s) \<and>
     length (ks_certificates s) \<le> MAX_CERTIFICATES \<and> length (ks_private_keys s) \<le> MAX_CERTIFICATES \<and>
     length (ks_revoked_cert_ids s) \<le> MAX_REVOKED_CERTS"

definition cert_inv :: "nat \<Rightarrow> cert_state \<Rightarrow> bool" where
  "cert_inv n s \<longleftrightarrow>
     ids_below n (ce_next_store s) (map ks_store_id (cr_key_stores (ce_manager s))) \<and>
     list_all (store_wf n (ce_next_cert s) (ce_next_key s)) (cr_key_stores (ce_manager s)) \<and>
     length (cr_key_stores (ce_manager s)) \<le> MAX_KEY_STORES \<and>
     ids_below n (ce_next_cert s) [] \<and> ids_below n (ce_next_key s) []"

definition view :: "Certificate \<Rightarrow> cert_view" where
  "view c = \<lparr>cv_data = ct_cert_data c, cv_valid = (ct_status c = CERT_STATUS_VALID), cv_number = ct_chain_depth c\<rparr>"

definition vault_of :: "KeyStore \<Rightarrow> vault" where
  "vault_of s = \<lparr>va_certs = table_map ct_cert_id view (ks_certificates s),
     va_keys = table_map pk_key_id pk_private_key (ks_private_keys s), va_revoked = ks_revoked_cert_ids s\<rparr>"

definition cert_abs :: "cert_state \<Rightarrow> vaults" where
  "cert_abs s = \<lparr>vs_stores = table_map ks_store_id vault_of (cr_key_stores (ce_manager s)),
     vs_next_store = ce_next_store s, vs_next_cert = ce_next_cert s, vs_next_key = ce_next_key s\<rparr>"

lemma cert_abs_next [simp]:
  "vs_next_store (cert_abs s) = ce_next_store s" "vs_next_cert (cert_abs s) = ce_next_cert s"
  "vs_next_key (cert_abs s) = ce_next_key s"
  by (simp_all add: cert_abs_def)

lemma store_wf_mono: "store_wf (Suc n) c k s \<Longrightarrow> store_wf n c k s"
  by (simp add: store_wf_def ids_below_mono)

lemma cert_inv_mono: "cert_inv (Suc n) s \<Longrightarrow> cert_inv n s"
  by (auto simp: cert_inv_def ids_below_mono list_all_iff intro: store_wf_mono)

lemma store_lookup:
  assumes "cert_inv n s"
  shows "vs_stores (cert_abs s) k = map_option (\<lambda>i. vault_of (cr_key_stores (ce_manager s) ! i)) (find_store k (ce_manager s))"
proof -
  have "ids_below n (ce_next_store s) (map ks_store_id (cr_key_stores (ce_manager s)))"
    using assms by (simp add: cert_inv_def)
  from id_lookup [OF this, of vault_of k] show ?thesis by (simp add: cert_abs_def find_store_def)
qed

lemma vault_lookup:
  assumes "store_wf n nc nk s"
  shows "va_certs (vault_of s) c = map_option (\<lambda>j. view (ks_certificates s ! j)) (find_cert c s)"
    and "va_keys (vault_of s) y = map_option (\<lambda>j. pk_private_key (ks_private_keys s ! j)) (find_private_key y s)"
proof -
  have "ids_below n nc (map ct_cert_id (ks_certificates s))" "ids_below n nk (map pk_key_id (ks_private_keys s))"
    using assms by (simp_all add: store_wf_def)
  note look = id_lookup [OF this(1), of view c] id_lookup [OF this(2), of pk_private_key y]
  show "va_certs (vault_of s) c = map_option (\<lambda>j. view (ks_certificates s ! j)) (find_cert c s)"
    by (simp add: vault_of_def find_cert_def look)
  show "va_keys (vault_of s) y = map_option (\<lambda>j. pk_private_key (ks_private_keys s ! j)) (find_private_key y s)"
    by (simp add: vault_of_def find_private_key_def look)
qed

lemma find_storeD:
  assumes "find_store k m = Some i"
  shows "i < length (cr_key_stores m)" and "ks_store_id (cr_key_stores m ! i) = k" and "k \<noteq> 0"
  using assms id_idxD [of ks_store_id k "cr_key_stores m" i] by (auto simp: find_store_def id_idx_def split: if_splits)

lemma found_store_wf:
  "cert_inv n s \<Longrightarrow> find_store k (ce_manager s) = Some i \<Longrightarrow>
   store_wf n (ce_next_cert s) (ce_next_key s) (cr_key_stores (ce_manager s) ! i)"
  using find_storeD(1) [of k "ce_manager s" i] by (auto simp: cert_inv_def list_all_length)

lemma locate_store:
  assumes "cert_inv n s"
  shows "locate sel k (ce_manager s) =
    (case find_store k (ce_manager s) of None \<Rightarrow> None
     | Some i \<Rightarrow> map_option (Pair i) (sel (cr_key_stores (ce_manager s) ! i)))"
proof -
  have "ids_below n (ce_next_store s) (map ks_store_id (cr_key_stores (ce_manager s)))"
    using assms by (simp add: cert_inv_def)
  note search = nested_search [OF this, of k sel]
  show ?thesis
  proof (cases "k = 0")
    case True
    then show ?thesis by (simp add: locate_def find_store_def id_idx_def)
  next
    case False
    with search show ?thesis by (auto simp: locate_def find_store_def split: option.split)
  qed
qed

lemma locate_cert:
  assumes "cert_inv n s"
  shows "cert_of (cert_abs s) k c = map_option (\<lambda>p. view (cert_at p (ce_manager s))) (locate (find_cert c) k (ce_manager s))"
proof (cases "find_store k (ce_manager s)")
  case None
  with store_lookup [OF assms, of k] locate_store [OF assms, of "find_cert c" k] show ?thesis by (simp add: cert_of_def)
next
  case (Some i)
  with store_lookup [OF assms, of k] locate_store [OF assms, of "find_cert c" k] found_store_wf [OF assms Some] show ?thesis
    by (simp add: cert_of_def vault_lookup(1) [of n "ce_next_cert s" "ce_next_key s"] cert_at_def option.map_comp comp_def)
qed

lemma locate_key:
  assumes "cert_inv n s"
  shows "key_of (cert_abs s) k y = map_option (\<lambda>p. pk_private_key (key_at p (ce_manager s))) (locate (find_private_key y) k (ce_manager s))"
proof (cases "find_store k (ce_manager s)")
  case None
  with store_lookup [OF assms, of k] locate_store [OF assms, of "find_private_key y" k] show ?thesis by (simp add: key_of_def)
next
  case (Some i)
  with store_lookup [OF assms, of k] locate_store [OF assms, of "find_private_key y" k] found_store_wf [OF assms Some] show ?thesis
    by (simp add: key_of_def vault_lookup(2) [of n "ce_next_cert s" "ce_next_key s"] key_at_def option.map_comp comp_def)
qed

text \<open>A call changes one store and moves a counter by at most one.\<close>

lemma ids_below_later: "ids_below (Suc n) nx ks \<Longrightarrow> nx' \<in> {nx, nx + 1} \<Longrightarrow> ids_below n nx' ks"
  using ids_below_new(1) [of n nx ks] ids_below_mono [of n nx ks] by (auto simp: ids_below_def)

lemma store_wf_later:
  "store_wf (Suc n) nc nk s \<Longrightarrow> nc' \<in> {nc, nc + 1} \<Longrightarrow> nk' \<in> {nk, nk + 1} \<Longrightarrow> store_wf n nc' nk' s"
  unfolding store_wf_def by (metis ids_below_later)

lemma set_store_sim:
  assumes "cert_inv (Suc n) s" and "find_store k (ce_manager s) = Some i"
    and "cr_key_stores (ce_manager t) = (cr_key_stores (ce_manager s))[i := x]" and "ce_next_store t = ce_next_store s"
    and "ce_next_cert t \<in> {ce_next_cert s, ce_next_cert s + 1}" and "ce_next_key t \<in> {ce_next_key s, ce_next_key s + 1}"
    and "ks_store_id x = k" and "store_wf n (ce_next_cert t) (ce_next_key t) x"
  shows "cert_inv n t"
    and "cert_abs t = (put_vault k (\<lambda>v. vault_of x) (cert_abs s))\<lparr>vs_next_cert := ce_next_cert t, vs_next_key := ce_next_key t\<rparr>"
proof -
  let ?xs = "cr_key_stores (ce_manager s)"
  have ids: "ids_below (Suc n) (ce_next_store s) (map ks_store_id ?xs)" using assms(1) by (simp add: cert_inv_def)
  have i: "id_idx ks_store_id k ?xs = Some i" using assms(2) by (simp add: find_store_def)
  note upd = id_update [OF ids i assms(7)]
  have "list_all (store_wf n (ce_next_cert t) (ce_next_key t)) ?xs"
    using assms(1,5,6) by (auto simp: cert_inv_def list_all_iff intro: store_wf_later)
  then have "list_all (store_wf n (ce_next_cert t) (ce_next_key t)) (?xs[i := x])" using assms(8) by (rule list_all_update)
  moreover have "ids_below n (ce_next_cert t) []" "ids_below n (ce_next_key t) []"
    using assms(1,5,6) by (auto simp: cert_inv_def intro: ids_below_later)
  ultimately show "cert_inv n t" using assms(1,3,4) upd(1) by (simp add: cert_inv_def)
  show "cert_abs t = (put_vault k (\<lambda>v. vault_of x) (cert_abs s))\<lparr>vs_next_cert := ce_next_cert t, vs_next_key := ce_next_key t\<rparr>"
    using store_lookup [OF assms(1), of k] assms(2,3,4) upd(2) [of vault_of] by (simp add: cert_abs_def put_vault_def)
qed

lemma locate_Some:
  assumes "cert_inv n s" and "locate sel k (ce_manager s) = Some p"
  shows "find_store k (ce_manager s) = Some (fst p)"
    and "sel (cr_key_stores (ce_manager s) ! fst p) = Some (snd p)"
  using assms(2) locate_store [OF assms(1), of sel k] by (auto split: option.splits)

lemma store_wf_set_cert:
  assumes "store_wf (Suc n) nc nk s" and "find_cert c s = Some j" and "ct_cert_id x = c" and "cert_wf x"
  shows "store_wf n nc nk (s\<lparr>ks_certificates := (ks_certificates s)[j := x]\<rparr>)"
    and "vault_of (s\<lparr>ks_certificates := (ks_certificates s)[j := x]\<rparr>) =
      (vault_of s)\<lparr>va_certs := (va_certs (vault_of s))(c \<mapsto> view x)\<rparr>"
proof -
  have "ids_below (Suc n) nc (map ct_cert_id (ks_certificates s))" using assms(1) by (simp add: store_wf_def)
  note upd = id_update [OF this assms(2) [unfolded find_cert_def] assms(3)]
  show "store_wf n nc nk (s\<lparr>ks_certificates := (ks_certificates s)[j := x]\<rparr>)"
    using store_wf_mono [OF assms(1)] upd(1) assms(4) by (simp add: store_wf_def list_all_update)
  show "vault_of (s\<lparr>ks_certificates := (ks_certificates s)[j := x]\<rparr>) =
      (vault_of s)\<lparr>va_certs := (va_certs (vault_of s))(c \<mapsto> view x)\<rparr>"
    using upd(2) [of view] by (simp add: vault_of_def)
qed

lemma set_cert_sim:
  assumes "cert_inv (Suc n) s" and "locate (find_cert c) k (ce_manager s) = Some p"
    and "ct_cert_id x = c" and "cert_wf x"
  shows "cert_inv n (s\<lparr>ce_manager := set_cert p x (ce_manager s)\<rparr>)"
    and "cert_abs (s\<lparr>ce_manager := set_cert p x (ce_manager s)\<rparr>) = put_cert k c (view x) (cert_abs s)"
proof -
  note at = locate_Some [OF assms(1,2)]
  let ?st = "cr_key_stores (ce_manager s) ! fst p"
  let ?new = "?st\<lparr>ks_certificates := (ks_certificates ?st)[snd p := x]\<rparr>"
  note wf = store_wf_set_cert [OF found_store_wf [OF assms(1) at(1)] at(2) assms(3,4)]
  have t: "cr_key_stores (ce_manager (s\<lparr>ce_manager := set_cert p x (ce_manager s)\<rparr>)) =
      (cr_key_stores (ce_manager s))[fst p := ?new]" by (simp add: set_cert_def set_store_def Let_def)
  have "ks_store_id ?new = k" using find_storeD(2) [OF at(1)] by simp
  note sim = set_store_sim [OF assms(1) at(1) t _ _ _ this]
  from sim(1) wf(1) show "cert_inv n (s\<lparr>ce_manager := set_cert p x (ce_manager s)\<rparr>)" by simp
  from sim(2) wf store_lookup [OF assms(1), of k] at(1)
  show "cert_abs (s\<lparr>ce_manager := set_cert p x (ce_manager s)\<rparr>) = put_cert k c (view x) (cert_abs s)"
    by (simp add: put_cert_def put_vault_def)
qed

lemma cert_abs_more:
  "cert_abs (s\<lparr>ce_manager := (ce_manager s)\<lparr>cr_certificates_validated := a\<rparr>\<rparr>) = cert_abs s"
  "cert_abs (s\<lparr>ce_manager := (ce_manager s)\<lparr>cr_validation_failures := b\<rparr>\<rparr>) = cert_abs s"
  "cert_inv n (s\<lparr>ce_manager := (ce_manager s)\<lparr>cr_certificates_validated := a\<rparr>\<rparr>) = cert_inv n s"
  "cert_inv n (s\<lparr>ce_manager := (ce_manager s)\<lparr>cr_validation_failures := b\<rparr>\<rparr>) = cert_inv n s"
  by (simp_all add: cert_abs_def cert_inv_def)

lemma located_cert:
  assumes "cert_inv n s" and "locate (find_cert c) k (ce_manager s) = Some p"
  shows "ct_cert_id (cert_at p (ce_manager s)) = c" and "cert_wf (cert_at p (ce_manager s))"
proof -
  note at = locate_Some [OF assms]
  let ?st = "cr_key_stores (ce_manager s) ! fst p"
  have "snd p < length (ks_certificates ?st)" "ct_cert_id (ks_certificates ?st ! snd p) = c"
    using id_idxD [OF at(2) [unfolded find_cert_def]] by auto
  with found_store_wf [OF assms(1) at(1)]
  show "ct_cert_id (cert_at p (ce_manager s)) = c" and "cert_wf (cert_at p (ce_manager s))"
    by (simp_all add: cert_at_def store_wf_def list_all_length)
qed

lemma located_key:
  assumes "cert_inv n s" and "locate (find_private_key y) k (ce_manager s) = Some p"
  shows "pk_key_id (key_at p (ce_manager s)) = y" and "key_wf (key_at p (ce_manager s))"
proof -
  note at = locate_Some [OF assms]
  let ?st = "cr_key_stores (ce_manager s) ! fst p"
  have "snd p < length (ks_private_keys ?st)" "pk_key_id (ks_private_keys ?st ! snd p) = y"
    using id_idxD [OF at(2) [unfolded find_private_key_def]] by auto
  with found_store_wf [OF assms(1) at(1)]
  show "pk_key_id (key_at p (ce_manager s)) = y" and "key_wf (key_at p (ce_manager s))"
    by (simp_all add: key_at_def store_wf_def list_all_length)
qed

text \<open>The calls on certificates.\<close>

lemma view_sel [simp]:
  "cv_data (view c) = ct_cert_data c" "cv_valid (view c) \<longleftrightarrow> ct_status c = CERT_STATUS_VALID" "cv_number (view c) = ct_chain_depth c"
  by (simp_all add: view_def)

lemma bytes_reply_exact:
  assumes "unat (n :: u32) = length d"
  shows "bytes_reply (Some d) cap =
    (case if n \<le> cap then (0, Some (take (unat n) d, n)) else (-1, None) of (r, out) \<Rightarrow> Bytes r out)"
proof -
  have "of_nat (length d) = n" by (simp flip: assms)
  then show ?thesis using assms by (simp add: bytes_reply_def word_le_nat_alt)
qed

lemma read_cert_sim:
  assumes "cert_inv n s"
  shows "cert_spec (cert_abs s) (ExportCert k c cap) = (cert_abs s, snd (cert_step s (ExportCert k c cap)))"
    and "cert_spec (cert_abs s) (CheckExpiry k c) = (cert_abs s, snd (cert_step s (CheckExpiry k c)))"
    and "cert_spec (cert_abs s) (AssociatedKey k c) = (cert_abs s, snd (cert_step s (AssociatedKey k c)))"
    and "cert_spec (cert_abs s) (ExportKey k c cap) = (cert_abs s, snd (cert_step s (ExportKey k c cap)))"
    and "cert_spec (cert_abs s) (RevocationStatus k c) = (cert_abs s, snd (cert_step s (RevocationStatus k c)))"
proof -
  note lc = locate_cert [OF assms, of k c] and lk = locate_key [OF assms, of k c]
  note fc = located_cert [OF assms, of c k] and fk = located_key [OF assms, of c k]
  show "cert_spec (cert_abs s) (ExportCert k c cap) = (cert_abs s, snd (cert_step s (ExportCert k c cap)))"
  proof (cases "locate (find_cert c) k (ce_manager s)")
    case None
    with lc show ?thesis by (simp add: certificate_export_def bytes_reply_def)
  next
    case (Some p)
    from fc(2) [OF this] have "unat (ct_cert_length (cert_at p (ce_manager s))) = length (ct_cert_data (cert_at p (ce_manager s)))"
      by (simp add: cert_wf_def)
    from bytes_reply_exact [OF this, of cap] lc Some show ?thesis by (simp add: certificate_export_def Let_def)
  qed
  show "cert_spec (cert_abs s) (CheckExpiry k c) = (cert_abs s, snd (cert_step s (CheckExpiry k c)))"
    using lc fc(2)
    by (cases "locate (find_cert c) k (ce_manager s)") (auto simp: certificate_check_expiry_def cert_wf_def)
  show "cert_spec (cert_abs s) (AssociatedKey k c) = (cert_abs s, snd (cert_step s (AssociatedKey k c)))"
    using lc by (cases "locate (find_cert c) k (ce_manager s)") (auto simp: certificate_get_associated_key_def)
  show "cert_spec (cert_abs s) (ExportKey k c cap) = (cert_abs s, snd (cert_step s (ExportKey k c cap)))"
  proof (cases "locate (find_private_key c) k (ce_manager s)")
    case None
    with lk show ?thesis by (simp add: private_key_export_def bytes_reply_def)
  next
    case (Some p)
    from bytes_reply_exact [OF fk(2) [OF this, unfolded key_wf_def], of cap] lk Some show ?thesis
      by (simp add: private_key_export_def Let_def)
  qed
  show "cert_spec (cert_abs s) (RevocationStatus k c) = (cert_abs s, snd (cert_step s (RevocationStatus k c)))"
    using store_lookup [OF assms, of k]
    by (cases "find_store k (ce_manager s)")
      (auto simp: certificate_check_revocation_status_def vault_of_def first_idx_None split: if_splits)
qed

lemma validate_sim:
  assumes "cert_inv (Suc n) s" and "cert_step s (ValidateCert k c) = (s', r)"
  shows "cert_inv n s' \<and> cert_spec (cert_abs s) (ValidateCert k c) = (cert_abs s', r)"
  using assms locate_cert [OF assms(1), of k c] cert_inv_mono [OF assms(1)]
  by (cases "locate (find_cert c) k (ce_manager s)")
    (auto simp: certificate_validate_def on_certs_def cert_abs_more split: if_splits)

lemma number_sim:
  assumes "cert_inv (Suc n) s"
  shows "cert_step s (VerifyChain k c) = (s', r) \<Longrightarrow> cert_inv n s' \<and> cert_spec (cert_abs s) (VerifyChain k c) = (cert_abs s', r)"
    and "cert_step s (BindKey k c y) = (s', r) \<Longrightarrow> cert_inv n s' \<and> cert_spec (cert_abs s) (BindKey k c y) = (cert_abs s', r)"
proof -
  have sim: "cert_inv n (s\<lparr>ce_manager := set_cert p ((cert_at p (ce_manager s))\<lparr>ct_chain_depth := d\<rparr>) (ce_manager s)\<rparr>)"
    "cert_abs (s\<lparr>ce_manager := set_cert p ((cert_at p (ce_manager s))\<lparr>ct_chain_depth := d\<rparr>) (ce_manager s)\<rparr>) =
      put_cert k c ((view (cert_at p (ce_manager s)))\<lparr>cv_number := d\<rparr>) (cert_abs s)"
    if p: "locate (find_cert c) k (ce_manager s) = Some p" for p d
    using set_cert_sim [OF assms p, of "(cert_at p (ce_manager s))\<lparr>ct_chain_depth := d\<rparr>"] located_cert [OF assms p]
    by (simp_all add: cert_wf_def view_def)
  show "cert_inv n s' \<and> cert_spec (cert_abs s) (VerifyChain k c) = (cert_abs s', r)" if "cert_step s (VerifyChain k c) = (s', r)"
    using that locate_cert [OF assms, of k c] cert_inv_mono [OF assms] sim
    by (cases "locate (find_cert c) k (ce_manager s)")
      (auto simp: certificate_verify_chain_def on_certs_def Let_def MAX_CERTIFICATE_CHAIN_def split: if_splits)
  show "cert_inv n s' \<and> cert_spec (cert_abs s) (BindKey k c y) = (cert_abs s', r)" if "cert_step s (BindKey k c y) = (s', r)"
    using that locate_cert [OF assms, of k c] cert_inv_mono [OF assms] sim
    by (cases "locate (find_cert c) k (ce_manager s)")
      (auto simp: certificate_bind_key_def on_certs_def split: if_splits)
qed

lemma revoke_sim:
  assumes "cert_inv (Suc n) s" and "cert_step s (RevokeCert k c) = (s', r)"
  shows "cert_inv n s' \<and> cert_spec (cert_abs s) (RevokeCert k c) = (cert_abs s', r)"
proof (cases "locate (find_cert c) k (ce_manager s)")
  case None
  with assms locate_cert [OF assms(1), of k c] cert_inv_mono [OF assms(1)] show ?thesis
    by (auto simp: certificate_revoke_def on_certs_def)
next
  case (Some p)
  let ?st = "cr_key_stores (ce_manager s) ! fst p" and ?x = "(cert_at p (ce_manager s))\<lparr>ct_status := CERT_STATUS_REVOKED\<rparr>"
  let ?new = "?st\<lparr>ks_certificates := (ks_certificates ?st)[snd p := ?x],
      ks_revoked_cert_ids := take 256 (ks_revoked_cert_ids ?st @ [c])\<rparr>"
  note at = locate_Some [OF assms(1) Some]
  note old = found_store_wf [OF assms(1) at(1)]
  have "ct_cert_id ?x = c" "cert_wf ?x" using located_cert [OF assms(1) Some] by (simp_all add: cert_wf_def)
  note wf = store_wf_set_cert [OF old at(2) this]
  have i: "fst p < length (cr_key_stores (ce_manager s))" and "ks_store_id ?new = k" using find_storeD [OF at(1)] by simp_all
  have len: "length (ks_revoked_cert_ids ?st) \<le> 256" using old by (simp add: store_wf_def MAX_REVOKED_CERTS_def)
  then have "cr_key_stores (ce_manager s') = (cr_key_stores (ce_manager s))[fst p := ?new]"
    and s': "ce_next_store s' = ce_next_store s" "ce_next_cert s' = ce_next_cert s" "ce_next_key s' = ce_next_key s" and "r = Code 0"
    using assms(2) Some i
    by (auto simp: certificate_revoke_def on_certs_def Let_def set_cert_def set_store_def MAX_REVOKED_CERTS_def split: if_splits)
  note sim = set_store_sim [OF assms(1) at(1) this(1,2) _ _ \<open>ks_store_id ?new = k\<close>]
  have "store_wf n (ce_next_cert s') (ce_next_key s') ?new"
    using wf(1) s' by (auto simp: store_wf_def MAX_REVOKED_CERTS_def min_def)
  with sim s' have "cert_inv n s'" and A: "cert_abs s' = (put_vault k (\<lambda>v. vault_of ?new) (cert_abs s))
      \<lparr>vs_next_cert := ce_next_cert s, vs_next_key := ce_next_key s\<rparr>" by simp_all
  have "vault_of ?new = (vault_of ?st)\<lparr>va_certs := (va_certs (vault_of ?st))(c \<mapsto> view ?x),
      va_revoked := take 256 (va_revoked (vault_of ?st) @ [c])\<rparr>"
    using wf(2) by (simp add: vault_of_def)
  moreover have "view ?x = (view (cert_at p (ce_manager s)))\<lparr>cv_valid := False\<rparr>" by (simp add: view_def)
  ultimately have "cert_spec (cert_abs s) (RevokeCert k c) = (cert_abs s', r)"
    using A locate_cert [OF assms(1), of k c] Some at(1) store_lookup [OF assms(1), of k] \<open>r = Code 0\<close>
    by (simp add: put_cert_def put_vault_def)
  with \<open>cert_inv n s'\<close> show ?thesis by simp
qed

text \<open>The calls on keys, and those that make or remove entries.\<close>

lemma same_key_sim:
  assumes "cert_inv (Suc n) s" and "locate (find_private_key y) k (ce_manager s) = Some p"
  defines "x b \<equiv> (key_at p (ce_manager s))\<lparr>pk_is_protected := b\<rparr>"
  shows "cert_inv n (s\<lparr>ce_manager := set_private_key p (x b) (ce_manager s)\<rparr>)"
    and "cert_abs (s\<lparr>ce_manager := set_private_key p (x b) (ce_manager s)\<rparr>) = cert_abs s"
proof -
  note at = locate_Some [OF assms(1,2)]
  let ?st = "cr_key_stores (ce_manager s) ! fst p" and ?t = "s\<lparr>ce_manager := set_private_key p (x b) (ce_manager s)\<rparr>"
  let ?new = "?st\<lparr>ks_private_keys := (ks_private_keys ?st)[snd p := x b]\<rparr>"
  note old = found_store_wf [OF assms(1) at(1)]
  have x: "pk_key_id (x b) = y" "key_wf (x b)" "pk_private_key (x b) = pk_private_key (ks_private_keys ?st ! snd p)"
    using located_key [OF assms(1,2)] by (simp_all add: x_def key_wf_def key_at_def)
  have ids: "ids_below (Suc n) (ce_next_key s) (map pk_key_id (ks_private_keys ?st))" using old by (simp add: store_wf_def)
  note upd = id_update [OF ids at(2) [unfolded find_private_key_def] x(1)]
  have "table_map pk_key_id pk_private_key (ks_private_keys ?st) y = Some (pk_private_key (x b))"
    using id_lookup [OF ids, of pk_private_key y] at(2) x(3) by (simp add: find_private_key_def)
  with upd(2) [of pk_private_key] have V: "vault_of ?new = vault_of ?st" by (simp add: vault_of_def map_upd_triv)
  have "store_wf n (ce_next_cert ?t) (ce_next_key ?t) ?new"
    using store_wf_mono [OF old] upd(1) x(2) by (simp add: store_wf_def list_all_update)
  moreover have "cr_key_stores (ce_manager ?t) = (cr_key_stores (ce_manager s))[fst p := ?new]"
    by (simp add: set_private_key_def set_store_def Let_def)
  moreover have "ks_store_id ?new = k" using find_storeD(2) [OF at(1)] by simp
  ultimately have inv: "cert_inv n ?t" and abs: "cert_abs ?t = (put_vault k (\<lambda>v. vault_of ?new) (cert_abs s))
      \<lparr>vs_next_cert := ce_next_cert s, vs_next_key := ce_next_key s\<rparr>"
    using set_store_sim [OF assms(1) at(1), of ?t ?new] by simp_all
  show "cert_inv n ?t" by (rule inv)
  have "(vs_stores (cert_abs s))(k \<mapsto> vault_of ?st) = vs_stores (cert_abs s)"
    using store_lookup [OF assms(1), of k] at(1) by (intro map_upd_triv) simp
  with abs V store_lookup [OF assms(1), of k] at(1) show "cert_abs ?t = cert_abs s"
    by (simp add: put_vault_def)
qed

lemma protect_sim:
  assumes "cert_inv (Suc n) s"
  shows "cert_step s (ProtectKey k y) = (s', r) \<Longrightarrow> cert_inv n s' \<and> cert_spec (cert_abs s) (ProtectKey k y) = (cert_abs s', r)"
    and "cert_step s (UnprotectKey k y) = (s', r) \<Longrightarrow> cert_inv n s' \<and> cert_spec (cert_abs s) (UnprotectKey k y) = (cert_abs s', r)"
  using locate_key [OF assms, of k y] cert_inv_mono [OF assms] same_key_sim [OF assms, of y k]
  by (cases "locate (find_private_key y) k (ce_manager s)";
      auto simp: private_key_protect_def private_key_unprotect_def on_certs_def)+

lemma append_cert:
  assumes "store_wf (Suc n) nc nk s" and "ct_cert_id x = nc" and "cert_wf x" and "length (ks_certificates s) < MAX_CERTIFICATES"
  shows "store_wf n (nc + 1) nk (s\<lparr>ks_certificates := ks_certificates s @ [x]\<rparr>)"
    and "vault_of (s\<lparr>ks_certificates := ks_certificates s @ [x]\<rparr>) =
      (vault_of s)\<lparr>va_certs := (va_certs (vault_of s))(nc \<mapsto> view x)\<rparr>"
proof -
  have "ids_below (Suc n) nc (map ct_cert_id (ks_certificates s))" using assms(1) by (simp add: store_wf_def)
  note new = id_create [OF this assms(2)]
  show "store_wf n (nc + 1) nk (s\<lparr>ks_certificates := ks_certificates s @ [x]\<rparr>)"
    using store_wf_mono [OF assms(1)] new(1) assms(3,4) by (simp add: store_wf_def)
  show "vault_of (s\<lparr>ks_certificates := ks_certificates s @ [x]\<rparr>) =
      (vault_of s)\<lparr>va_certs := (va_certs (vault_of s))(nc \<mapsto> view x)\<rparr>"
    using new(2) [of view] by (simp add: vault_of_def)
qed

lemma append_key:
  assumes "store_wf (Suc n) nc nk s" and "pk_key_id x = nk" and "key_wf x" and "length (ks_private_keys s) < MAX_CERTIFICATES"
  shows "store_wf n nc (nk + 1) (s\<lparr>ks_private_keys := ks_private_keys s @ [x]\<rparr>)"
    and "vault_of (s\<lparr>ks_private_keys := ks_private_keys s @ [x]\<rparr>) =
      (vault_of s)\<lparr>va_keys := (va_keys (vault_of s))(nk \<mapsto> pk_private_key x)\<rparr>"
proof -
  have "ids_below (Suc n) nk (map pk_key_id (ks_private_keys s))" using assms(1) by (simp add: store_wf_def)
  note new = id_create [OF this assms(2)]
  show "store_wf n nc (nk + 1) (s\<lparr>ks_private_keys := ks_private_keys s @ [x]\<rparr>)"
    using store_wf_mono [OF assms(1)] new(1) assms(3,4) by (simp add: store_wf_def)
  show "vault_of (s\<lparr>ks_private_keys := ks_private_keys s @ [x]\<rparr>) =
      (vault_of s)\<lparr>va_keys := (va_keys (vault_of s))(nk \<mapsto> pk_private_key x)\<rparr>"
    using new(2) [of pk_private_key] by (simp add: vault_of_def)
qed

lemma vault_sizes:
  assumes "store_wf n nc nk s"
  shows "card (dom (va_certs (vault_of s))) = length (ks_certificates s)"
    and "card (dom (va_keys (vault_of s))) = length (ks_private_keys s)"
  using assms by (simp_all add: vault_of_def store_wf_def ids_below_def card_table_map)

lemma add_key_sim:
  assumes "cert_inv (Suc n) s" and "find_store k (ce_manager s) = Some i"
    and "length (ks_private_keys (cr_key_stores (ce_manager s) ! i)) < MAX_CERTIFICATES"
    and "pk_key_id x = ce_next_key s" and "key_wf x"
  defines "st \<equiv> cr_key_stores (ce_manager s) ! i"
  defines "t \<equiv> s\<lparr>ce_manager := set_store i (st\<lparr>ks_private_keys := ks_private_keys st @ [x]\<rparr>) (ce_manager s),
      ce_next_key := ce_next_key s + 1\<rparr>"
  shows "cert_inv n t"
    and "cert_abs t = (put_key k (ce_next_key s) (pk_private_key x) (cert_abs s))\<lparr>vs_next_key := ce_next_key s + 1\<rparr>"
proof -
  note new = append_key [OF found_store_wf [OF assms(1,2)] assms(4,5,3), folded st_def]
  have "ks_store_id (st\<lparr>ks_private_keys := ks_private_keys st @ [x]\<rparr>) = k" using find_storeD(2) [OF assms(2)] by (simp add: st_def)
  note sim = set_store_sim [OF assms(1,2) _ _ _ _ this, of t]
  from sim(1) new(1) show "cert_inv n t" by (simp add: t_def set_store_def)
  from sim(2) new store_lookup [OF assms(1), of k] assms(2)
  show "cert_abs t = (put_key k (ce_next_key s) (pk_private_key x) (cert_abs s))\<lparr>vs_next_key := ce_next_key s + 1\<rparr>"
    by (simp add: t_def set_store_def put_key_def put_vault_def st_def)
qed

lemma length_generated [simp]: "length (generated_private n) = unat n" "length (generated_public n) = unat n"
  by (simp_all add: generated_private_def generated_public_def)

lemma generate_key_sim:
  assumes "cert_inv (Suc n) s" and "cert_step s (GenerateKey k bits a) = (s', r)"
  shows "cert_inv n s' \<and> cert_spec (cert_abs s) (GenerateKey k bits a) = (cert_abs s', r)"
proof (cases "find_store k (ce_manager s)")
  case None
  with assms store_lookup [OF assms(1), of k] cert_inv_mono [OF assms(1)] show ?thesis
    by (auto simp: private_key_generate_def split: if_splits)
next
  case (Some i)
  with assms(2) store_lookup [OF assms(1), of k] cert_inv_mono [OF assms(1)] vault_sizes(2) [OF found_store_wf [OF assms(1) Some]]
  show ?thesis
    by (auto simp: private_key_generate_def Let_def MAX_CERTIFICATES_def split: if_splits)
      (auto simp: add_key_sim [OF assms(1) Some] MAX_CERTIFICATES_def key_wf_def)
qed

lemma import_key_sim:
  assumes "cert_inv (Suc n) s" and "cert_step s (ImportKey k d a) = (s', r)" and "length d < 4294967296"
  shows "cert_inv n s' \<and> cert_spec (cert_abs s) (ImportKey k d a) = (cert_abs s', r)"
proof (cases "find_store k (ce_manager s)")
  case None
  with assms store_lookup [OF assms(1), of k] cert_inv_mono [OF assms(1)] show ?thesis by (auto simp: private_key_import_def)
next
  case (Some i)
  with assms(2,3) store_lookup [OF assms(1), of k] cert_inv_mono [OF assms(1)] vault_sizes(2) [OF found_store_wf [OF assms(1) Some]]
  show ?thesis
    by (auto simp: private_key_import_def Let_def MAX_CERTIFICATES_def unat_of_nat_u32 split: if_splits)
      (auto simp: add_key_sim [OF assms(1) Some] MAX_CERTIFICATES_def key_wf_def unat_of_nat_u32)
qed

lemma import_cert_sim:
  assumes "cert_inv (Suc n) s" and "cert_step s (ImportCert k d subj iss) = (s', r)" and "length d < 4294967296"
  shows "cert_inv n s' \<and> cert_spec (cert_abs s) (ImportCert k d subj iss) = (cert_abs s', r)"
proof (cases "find_store k (ce_manager s)")
  case None
  with assms store_lookup [OF assms(1), of k] cert_inv_mono [OF assms(1)] show ?thesis by (auto simp: certificate_import_def)
next
  case (Some i)
  let ?st = "cr_key_stores (ce_manager s) ! i"
  note old = found_store_wf [OF assms(1) Some]
  have look: "vs_stores (cert_abs s) k = Some (vault_of ?st)" using store_lookup [OF assms(1), of k] Some by simp
  have d: "unat (of_nat (length d) :: u32) = length d" using assms(3) by (rule unat_of_nat_u32)
  show ?thesis
  proof (cases "length (ks_certificates ?st) < MAX_CERTIFICATES")
    case False
    with assms(2) Some look vault_sizes(1) [OF old] cert_inv_mono [OF assms(1)] show ?thesis
      by (auto simp: certificate_import_def MAX_CERTIFICATES_def)
  next
    case True
    define x where "x = \<lparr>ct_cert_id = ce_next_cert s,
        ct_subject = (case subj of None \<Rightarrow> '''' | Some t \<Rightarrow> take 255 t),
        ct_issuer = (case iss of None \<Rightarrow> '''' | Some t \<Rightarrow> take 255 t),
        ct_thumbprint = ''THUMB_'' @ dec_digits (unat (ce_next_cert s)),
        ct_cert_data = d, ct_cert_length = of_nat (length d),
        ct_cert_type = CERT_TYPE_END_ENTITY, ct_status = CERT_STATUS_VALID, ct_issued_time = 0,
        ct_expiry_time = 0, ct_key_bits = 2048, ct_is_trusted = False, ct_chain_depth = 0\<rparr>"
    have x: "ct_cert_id x = ce_next_cert s" "cert_wf x" "view x = \<lparr>cv_data = d, cv_valid = True, cv_number = 0\<rparr>"
      by (simp_all add: x_def cert_wf_def d view_def)
    note new = append_cert [OF old x(1,2) True]
    let ?new = "?st\<lparr>ks_certificates := ks_certificates ?st @ [x]\<rparr>"
    have "cr_key_stores (ce_manager s') = (cr_key_stores (ce_manager s))[i := ?new]"
      and s': "ce_next_store s' = ce_next_store s" "ce_next_cert s' = ce_next_cert s + 1" "ce_next_key s' = ce_next_key s"
      and r: "r = Identifier (ce_next_cert s)"
      using assms(2) Some True d by (auto simp: certificate_import_def Let_def set_store_def x_def)
    moreover have "ks_store_id ?new = k" using find_storeD(2) [OF Some] by simp
    ultimately have "cert_inv n s'" and A: "cert_abs s' = (put_vault k (\<lambda>v. vault_of ?new) (cert_abs s))
        \<lparr>vs_next_cert := ce_next_cert s + 1, vs_next_key := ce_next_key s\<rparr>"
      using set_store_sim [OF assms(1) Some, of s' ?new] new(1) by simp_all
    then show ?thesis
      using new(2) True look vault_sizes(1) [OF old] x(3) r
      by (simp add: put_cert_def put_vault_def MAX_CERTIFICATES_def)
  qed
qed

lemma store_table_sim:
  assumes "cert_inv (Suc n) s"
  shows "cert_step s (CreateStore nm) = (s', r) \<Longrightarrow> cert_inv n s' \<and> cert_spec (cert_abs s) (CreateStore nm) = (cert_abs s', r)"
    and "cert_step s (DestroyStore k) = (s', r) \<Longrightarrow> cert_inv n s' \<and> cert_spec (cert_abs s) (DestroyStore k) = (cert_abs s', r)"
proof -
  let ?xs = "cr_key_stores (ce_manager s)"
  have ids: "ids_below (Suc n) (ce_next_store s) (map ks_store_id ?xs)"
    and wf: "list_all (store_wf n (ce_next_cert s) (ce_next_key s)) ?xs"
    using assms cert_inv_mono [OF assms] by (simp_all add: cert_inv_def)
  have empty_wf: "store_wf n (ce_next_cert s) (ce_next_key s)
      \<lparr>ks_store_id = a, ks_store_name = b, ks_certificates = [], ks_private_keys = [], ks_revoked_cert_ids = [], ks_is_secured = True\<rparr>" for a b
    using cert_inv_mono [OF assms] by (simp add: cert_inv_def store_wf_def)
  note new = id_create [OF ids, of "\<lparr>ks_store_id = ce_next_store s, ks_store_name = (case nm of None \<Rightarrow> '''' | Some n \<Rightarrow> take 63 n),
      ks_certificates = [], ks_private_keys = [], ks_revoked_cert_ids = [], ks_is_secured = True\<rparr>"]
  show "cert_inv n s' \<and> cert_spec (cert_abs s) (CreateStore nm) = (cert_abs s', r)" if "cert_step s (CreateStore nm) = (s', r)"
    using that new(1) new(2) [of vault_of] new(3) [of vault_of] cert_inv_mono [OF assms] empty_wf
    by (auto simp: keystore_create_def cert_inv_def cert_abs_def vault_of_def MAX_KEY_STORES_def split: if_splits)
  show "cert_inv n s' \<and> cert_spec (cert_abs s) (DestroyStore k) = (cert_abs s', r)" if step: "cert_step s (DestroyStore k) = (s', r)"
  proof (cases "find_store k (ce_manager s)")
    case None
    with step cert_inv_mono [OF assms] store_lookup [OF assms, of k] show ?thesis
      by (auto simp: keystore_destroy_def on_certs_def fun_upd_idem)
  next
    case (Some i)
    note del = id_remove [OF ids Some [unfolded find_store_def]]
    from step Some del(1) del(2) [of vault_of] store_lookup [OF assms, of k] cert_inv_mono [OF assms]
      list_all_remove_at [OF wf, of i] length_remove_at [of i ?xs] find_storeD(1) [OF Some]
    show ?thesis
      by (auto simp: keystore_destroy_def on_certs_def cert_inv_def cert_abs_def)
  qed
qed

lemma cert_simulation:
  assumes "cert_inv (Suc n) s" and "cert_fits c" and "cert_step s c = (s', r)"
  shows "cert_inv n s' \<and> cert_spec (cert_abs s) c = (cert_abs s', r)"
proof -
  have read: "cert_inv n s' \<and> cert_spec (cert_abs s) c = (cert_abs s', r)"
    if "s' = s" "cert_spec (cert_abs s) c = (cert_abs s, snd (cert_step s c))"
    using that assms(3) cert_inv_mono [OF assms(1)] by simp
  show ?thesis
    using assms(2,3) read read_cert_sim [OF assms(1)] validate_sim [OF assms(1)] number_sim [OF assms(1)] revoke_sim [OF assms(1)]
      protect_sim [OF assms(1)] generate_key_sim [OF assms(1)] import_key_sim [OF assms(1)] import_cert_sim [OF assms(1)]
      store_table_sim [OF assms(1)]
    by (cases c) (simp_all only: cert_fits.simps, auto)
qed

interpretation certs: bounded_refinement cert_step cert_spec cert_abs cert_inv cert_fits
  by unfold_locales (rule cert_simulation)

section \<open>What later calls keep\<close>

lemma cert_of_fresh:
  assumes "cert_inv n s" and "cert_of (cert_abs s) k c = Some x"
  shows "c \<noteq> ce_next_cert s" and "k \<noteq> ce_next_store s"
proof -
  obtain p where p: "locate (find_cert c) k (ce_manager s) = Some p" using locate_cert [OF assms(1), of k c] assms(2) by (cases "locate (find_cert c) k (ce_manager s)") auto
  note at = locate_Some [OF assms(1) p]
  have "c \<in> set (map ct_cert_id (ks_certificates (cr_key_stores (ce_manager s) ! fst p)))"
    using id_idxD [OF at(2) [unfolded find_cert_def]] by auto
  with found_store_wf [OF assms(1) at(1)] show "c \<noteq> ce_next_cert s" by (auto simp: store_wf_def ids_below_def list_all_iff)
  have "k \<in> set (map ks_store_id (cr_key_stores (ce_manager s)))" using find_storeD [OF at(1)] by auto
  with assms(1) show "k \<noteq> ce_next_store s" by (auto simp: cert_inv_def ids_below_def list_all_iff)
qed

text \<open>
  Until its store is destroyed a certificate stays, with its bytes, and does not become valid again.
\<close>

lemma cert_spec_keeps:
  assumes "cert_of a k c = Some x" and "call \<noteq> DestroyStore k" and "c \<noteq> vs_next_cert a" and "k \<noteq> vs_next_store a"
  shows "\<exists>y. cert_of (fst (cert_spec a call)) k c = Some y \<and> cv_data y = cv_data x \<and> (cv_valid y \<longrightarrow> cv_valid x)"
proof -
  obtain v where v: "vs_stores a k = Some v" "va_certs v c = Some x" using assms(1) by (auto simp: cert_of_def bind_eq_Some_conv)
  show ?thesis
    using assms(2,3,4) v
    by (cases call) (auto simp: cert_of_def put_cert_def put_key_def put_vault_def bind_eq_Some_conv
        split: option.splits if_splits)
qed

lemma cert_step_keeps:
  assumes "cert_inv (Suc n) s" and "cert_fits call" and "cert_of (cert_abs s) k c = Some x" and "call \<noteq> DestroyStore k"
  shows "\<exists>y. cert_of (cert_abs (fst (cert_step s call))) k c = Some y \<and> cv_data y = cv_data x \<and> (cv_valid y \<longrightarrow> cv_valid x)"
  using cert_spec_keeps [OF assms(3,4)] cert_of_fresh [OF assms(1,3)]
    cert_simulation [OF assms(1,2), of "fst (cert_step s call)" "snd (cert_step s call)"] by simp

lemma cert_run_keeps:
  assumes "cert_inv (n + length calls) s" and "list_all cert_fits calls" and "cert_of (cert_abs s) k c = Some x"
    and "DestroyStore k \<notin> set calls"
  shows "\<exists>y. cert_of (cert_abs (fst (call_run cert_step s calls))) k c = Some y \<and> cv_data y = cv_data x \<and> (cv_valid y \<longrightarrow> cv_valid x)"
  using assms
proof (induction calls arbitrary: s x)
  case Nil
  then show ?case by simp
next
  case (Cons call calls)
  obtain s1 r where step: "cert_step s call = (s1, r)" by fastforce
  with Cons.prems cert_step_keeps [of "n + length calls" s call k c x] obtain y
    where y: "cert_of (cert_abs s1) k c = Some y" "cv_data y = cv_data x" "cv_valid y \<longrightarrow> cv_valid x" by auto
  have "cert_inv (n + length calls) s1" using Cons.prems step cert_simulation [of "n + length calls" s call s1 r] by simp
  from Cons.IH [OF this _ y(1)] Cons.prems y step show ?case by (auto split: prod.split)
qed

lemma import_spec_cert:
  "cert_spec a (ImportCert k d subj iss) = (b, Identifier c) \<Longrightarrow> c \<noteq> 0 \<Longrightarrow>
   cert_of b k c = Some \<lparr>cv_data = d, cv_valid = True, cv_number = 0\<rparr>"
  by (auto simp: cert_of_def put_cert_def put_vault_def split: option.splits if_splits)

lemma revoke_spec_cert:
  "cert_spec a (RevokeCert k c) = (b, Code 0) \<Longrightarrow> \<exists>x. cert_of b k c = Some x \<and> \<not> cv_valid x"
  by (auto simp: cert_of_def put_cert_def put_vault_def bind_eq_Some_conv split: option.splits)

section \<open>Lists that fill up, numbers with two meanings, keys without secrets\<close>

text \<open>
  When a store has recorded 256 revocations, one more is not recorded: the certificate is revoked,
  validation says so, and the revocation status says it is not.
\<close>

lemma revocation_not_recorded:
  assumes "vs_stores a k = Some v" and "va_certs v c = Some x" and "length (va_revoked v) = 256"
    and "c \<notin> set (va_revoked v)" and "c \<noteq> 0"
  shows "snd (call_run cert_spec a [RevokeCert k c, RevocationStatus k c, ValidateCert k c]) = [Code 0, Code 0, Code (-1)]"
  using assms by (simp add: cert_of_def put_cert_def put_vault_def)

text \<open>The number bound as the associated key is the one that chain verification counts up.\<close>

lemma verification_changes_bound_key:
  assumes "cert_of a k c = Some x" and "y \<noteq> 0" and "y \<le> 16"
  shows "snd (call_run cert_spec a [BindKey k c y, VerifyChain k c, AssociatedKey k c]) = [Code 0, Code 0, Number 0 (Some (y + 1))]"
  using assms by (auto simp: cert_of_def put_cert_def put_vault_def bind_eq_Some_conv)

lemma binding_defeats_verification:
  assumes "cert_of a k c = Some x" and "16 < y"
  shows "snd (call_run cert_spec a [BindKey k c y, VerifyChain k c]) = [Code 0, Code (-1)]"
proof -
  have "y \<noteq> 0" using assms(2) by auto
  with assms show ?thesis by (auto simp: cert_of_def put_cert_def put_vault_def bind_eq_Some_conv)
qed

text \<open>Two generated keys of one size are the same key.\<close>

lemma generated_keys_equal:
  assumes "vs_stores a k = Some v" and "card (dom (va_keys v)) < 511" and "finite (dom (va_keys v))" and "bits \<noteq> 0"
  shows "(\<lambda>b. key_of b k (vs_next_key a) = key_of b k (vs_next_key a + 1) \<and> key_of b k (vs_next_key a) \<noteq> None)
    (fst (call_run cert_spec a [GenerateKey k bits n1, GenerateKey k bits n2]))"
proof -
  have "\<not> 512 \<le> card (insert y (dom (va_keys v)))" for y using assms(2,3) by (simp add: card_insert_if)
  with assms show ?thesis by (simp add: key_of_def put_key_def put_vault_def)
qed

section \<open>Main theorems\<close>

definition cert_start :: cert_state where
  "cert_start = \<lparr>ce_manager = the (certificate_manager_init True), ce_next_store = 1, ce_next_cert = 1, ce_next_key = 1\<rparr>"

definition vaults_start :: vaults where
  "vaults_start = \<lparr>vs_stores = Map.empty, vs_next_store = 1, vs_next_cert = 1, vs_next_key = 1\<rparr>"

lemma cert_start_abs: "cert_abs cert_start = vaults_start" "n < 4294967295 \<Longrightarrow> cert_inv n cert_start"
  by (simp_all add: cert_abs_def cert_start_def vaults_start_def certificate_manager_init_def cert_inv_def ids_below_def)

text \<open>
  Claim C9. Certificates. From a new manager, any history of fewer than 4294967295 calls gets the replies
  of a map of vaults: identifiers count up and are not reused; a store takes 512 certificates and 512
  keys; exporting gives the bytes of the certificate or the key with that identifier in that store, if
  they fit; a certificate validates unless it was revoked; no certificate is ever expired; verifying a
  chain succeeds while the number of the certificate is at most 16 and adds one to it; and binding a
  key replaces that same number.
\<close>

theorem cert_refines_vaults:
  assumes "length calls < 4294967295" and "list_all cert_fits calls"
  shows "snd (call_run cert_step cert_start calls) = snd (call_run cert_spec vaults_start calls) \<and>
    cert_abs (fst (call_run cert_step cert_start calls)) = fst (call_run cert_spec vaults_start calls)"
  using certs.bounded_results [of 0 calls cert_start] assms cert_start_abs by simp

theorem cert_refines_vaults_witness:
  "snd (call_run cert_step cert_start
     [CreateStore None, ImportCert 1 [7, 8] None None, ExportCert 1 1 4, BindKey 1 1 5, VerifyChain 1 1, AssociatedKey 1 1,
      RevokeCert 1 1, ValidateCert 1 1, RevocationStatus 1 1]) =
   [Identifier 1, Identifier 1, Bytes 0 (Some ([7, 8], 2)), Code 0, Code 0, Number 0 (Some 6), Code 0, Code (-1), Code 1]"
proof -
  let ?calls = "[CreateStore None, ImportCert 1 [7, 8] None None, ExportCert 1 1 4, BindKey 1 1 5, VerifyChain 1 1,
      AssociatedKey 1 1, RevokeCert 1 1, ValidateCert 1 1, RevocationStatus 1 1]"
  have "snd (call_run cert_spec vaults_start ?calls) =
      [Identifier 1, Identifier 1, Bytes 0 (Some ([7, 8], 2)), Code 0, Code 0, Number 0 (Some 6), Code 0, Code (-1), Code 1]"
    by (simp add: vaults_start_def cert_of_def put_cert_def put_vault_def bytes_reply_def)
  then show ?thesis using cert_refines_vaults [of ?calls] by simp
qed

text \<open>
  Claim C10. Well-formed tables. Every state a history of fewer than 4294967295 calls reaches is well
  formed: at most 64 stores, with at most 512 certificates, 512 keys and 256 recorded revocations each, so
  that no array is written past its end; identifiers of stores, of the certificates of a store and of
  its keys are distinct, not 0 and below their counters; the length of a certificate and of a key is
  that of its bytes; and a certificate is valid or revoked, never expired or suspended.
\<close>

theorem cert_wellformed:
  assumes "length calls < 4294967295" and "list_all cert_fits calls"
  shows "cert_inv 0 (fst (call_run cert_step cert_start calls))"
  using certs.bounded_results(3) [of 0 calls cert_start] assms cert_start_abs by simp

theorem cert_wellformed_witness:
  "cert_inv 0 (fst (call_run cert_step cert_start [CreateStore None, ImportCert 1 [7] None None, RevokeCert 1 1, DestroyStore 1]))"
  using cert_wellformed [of "[CreateStore None, ImportCert 1 [7] None None, RevokeCert 1 1, DestroyStore 1]"] by simp

text \<open>
  Round trip. Bytes that were imported as a certificate are exported again, unchanged and
  with their length, after any further calls, as long as its store is not destroyed and the buffer is
  large enough.
\<close>

lemma cert_export_returns_import:
  assumes "length before + length after < 4294967294" and "list_all cert_fits (before @ ImportCert k d subj iss # after)"
    and "cert_step (fst (call_run cert_step cert_start before)) (ImportCert k d subj iss) = (s, Identifier c)" and "c \<noteq> 0"
    and "DestroyStore k \<notin> set after" and "length d \<le> unat cap"
  shows "snd (cert_step (fst (call_run cert_step s after)) (ExportCert k c cap)) = Bytes 0 (Some (d, of_nat (length d)))"
proof -
  let ?s0 = "fst (call_run cert_step cert_start before)" and ?s2 = "fst (call_run cert_step s after)"
  have "cert_inv (Suc (length after)) ?s0"
    using certs.bounded_results(3) [of "Suc (length after)" before cert_start] assms(1,2) cert_start_abs(2) by simp
  from cert_simulation [OF this _ assms(3)] assms(2)
  have inv: "cert_inv (0 + length after) s" and spec: "cert_spec (cert_abs ?s0) (ImportCert k d subj iss) = (cert_abs s, Identifier c)"
    by simp_all
  from cert_run_keeps [OF inv _ import_spec_cert [OF spec assms(4)] assms(5)] assms(2) obtain y where y: "cert_of (cert_abs ?s2) k c = Some y" "cv_data y = d" by auto
  have "cert_inv 0 ?s2" using certs.bounded_results(3) [OF inv] assms(2) by simp
  from read_cert_sim(1) [OF this, of k c cap] y assms(6) show ?thesis by (simp add: bytes_reply_def)
qed

lemma cert_export_returns_import_witness:
  "snd (cert_step (fst (call_run cert_step
      (fst (cert_step (fst (call_run cert_step cert_start [CreateStore None])) (ImportCert 1 [7, 8] None None)))
      [RevokeCert 1 1, ImportCert 1 [9] None None])) (ExportCert 1 1 2)) = Bytes 0 (Some ([7, 8], 2))"
proof -
  let ?s = "fst (cert_step (fst (call_run cert_step cert_start [CreateStore None])) (ImportCert 1 [7, 8] None None))"
  have "cert_step (fst (call_run cert_step cert_start [CreateStore None])) (ImportCert 1 [7, 8] None None) = (?s, Identifier 1)"
    by (simp add: cert_start_def certificate_manager_init_def keystore_create_def MAX_KEY_STORES_def certificate_import_def
        find_store_def id_idx_def MAX_CERTIFICATES_def Let_def)
  from cert_export_returns_import [OF _ _ this, of "[RevokeCert 1 1, ImportCert 1 [9] None None]" 2] show ?thesis by simp
qed

text \<open>
  Claim C11. Revocation is for good. After a certificate was revoked it does not validate, whatever calls
  follow, unless its store is destroyed.
\<close>

theorem cert_revocation_permanent:
  assumes "length before + length after < 4294967293" and "list_all cert_fits (before @ after)"
    and "cert_step (fst (call_run cert_step cert_start before)) (RevokeCert k c) = (s, Code 0)"
    and "DestroyStore k \<notin> set after"
  shows "snd (cert_step (fst (call_run cert_step s after)) (ValidateCert k c)) = Code (-1)"
proof -
  let ?s0 = "fst (call_run cert_step cert_start before)" and ?s2 = "fst (call_run cert_step s after)"
  have "cert_inv (Suc (Suc (length after))) ?s0"
    using certs.bounded_results(3) [of "Suc (Suc (length after))" before cert_start] assms(1,2) cert_start_abs(2) by simp
  from cert_simulation [OF this _ assms(3)]
  have inv: "cert_inv (1 + length after) s" and spec: "cert_spec (cert_abs ?s0) (RevokeCert k c) = (cert_abs s, Code 0)"
    by simp_all
  from revoke_spec_cert [OF spec] obtain x where "cert_of (cert_abs s) k c = Some x" "\<not> cv_valid x" by auto
  with cert_run_keeps [OF inv _ _ assms(4)] assms(2) obtain y
    where y: "cert_of (cert_abs ?s2) k c = Some y" "\<not> cv_valid y" by fastforce
  have "cert_inv 1 ?s2" using certs.bounded_results(3) [OF inv] assms(2) by simp
  with validate_sim [of 0 ?s2 k c "fst (cert_step ?s2 (ValidateCert k c))" "snd (cert_step ?s2 (ValidateCert k c))"] y
  show ?thesis by simp
qed

theorem cert_revocation_permanent_witness:
  "snd (cert_step (fst (call_run cert_step
      (fst (cert_step (fst (call_run cert_step cert_start [CreateStore None, ImportCert 1 [7] None None])) (RevokeCert 1 1)))
      [VerifyChain 1 1, BindKey 1 1 3])) (ValidateCert 1 1)) = Code (-1)"
proof -
  let ?a = "fst (call_run cert_step cert_start [CreateStore None, ImportCert 1 [7] None None])"
  let ?s = "fst (cert_step ?a (RevokeCert 1 1))"
  have "cert_step ?a (RevokeCert 1 1) = (?s, Code 0)"
    by (simp add: cert_start_def certificate_manager_init_def keystore_create_def MAX_KEY_STORES_def certificate_import_def
        find_store_def id_idx_def MAX_CERTIFICATES_def Let_def certificate_revoke_def on_certs_def locate_def find_cert_def
        set_store_def with_handle_def set_cert_def cert_at_def MAX_REVOKED_CERTS_def)
  from cert_revocation_permanent [OF _ _ this, of "[VerifyChain 1 1, BindKey 1 1 3]"] show ?thesis by simp
qed

end
