(* ===== verification/Record_Layer.thy ===== *)
theory Record_Layer
  imports Service_Tables
begin

unbundle bit_operations_syntax

text \<open>
  What the TLS manager and the encryption engine share: a record is encrypted and decrypted by one
  loop, \<^verbatim>\<open>for (j = 0; j < n; j++) out[j] = in[j] ^ pad(j);\<close>, and is announced as 16 bytes longer than
  its text. The loop here reads and writes byte by byte and is undefined where it leaves a buffer or
  the pad is not defined (an empty key is a division by zero). The locale \<open>record_layer\<close> states what both
  modules do with it; from that follow, once for both, the round trip, what short records do, and that
  nothing protects a record from being changed.
\<close>

section \<open>The loop\<close>

primrec xor_loop :: "(nat \<Rightarrow> u8 option) \<Rightarrow> u8 list \<Rightarrow> u8 list \<Rightarrow> nat \<Rightarrow> u8 list outcome" where
  "xor_loop pad inp out 0 = Done out"
| "xor_loop pad inp out (Suc n) =
     (case xor_loop pad inp out n of Undef \<Rightarrow> Undef
      | Done b \<Rightarrow>
          (case pad n of None \<Rightarrow> Undef
           | Some k \<Rightarrow> if n < length inp \<and> n < length b then Done (b[n := (inp ! n) XOR k]) else Undef))"

definition pad_defined :: "(nat \<Rightarrow> u8 option) \<Rightarrow> nat \<Rightarrow> bool" where
  "pad_defined pad n \<longleftrightarrow> (\<forall>j<n. pad j \<noteq> None)"

definition xor_with :: "(nat \<Rightarrow> u8 option) \<Rightarrow> u8 list \<Rightarrow> u8 list" where
  "xor_with pad xs = map (\<lambda>j. (xs ! j) XOR the (pad j)) [0..<length xs]"

lemma length_xor_with [simp]: "length (xor_with pad xs) = length xs"
  by (simp add: xor_with_def)

lemma xor_loop_Undef: "\<not> (pad_defined pad n \<and> n \<le> length inp \<and> n \<le> length out) \<Longrightarrow> xor_loop pad inp out n = Undef"
  and xor_loop_Done: "pad_defined pad n \<Longrightarrow> n \<le> length inp \<Longrightarrow> n \<le> length out \<Longrightarrow>
    xor_loop pad inp out n = Done (xor_with pad (take n inp) @ drop n out)"
proof (induction n)
  case 0
  {
    case 1
    then show ?case by (simp add: pad_defined_def)
  next
    case 2
    then show ?case by (simp add: xor_with_def)
  }
next
  case (Suc n)
  {
    case 2
    let ?b = "xor_with pad (take n inp) @ drop n out"
    obtain k where k: "pad n = Some k" using 2 by (auto simp: pad_defined_def)
    have IH: "xor_loop pad inp out n = Done ?b" using Suc 2 by (simp add: pad_defined_def)
    have "map (\<lambda>j. (take (Suc n) inp ! j) XOR the (pad j)) [0..<n] = map (\<lambda>j. (take n inp ! j) XOR the (pad j)) [0..<n]" by simp
    with 2 have "xor_with pad (take (Suc n) inp) = xor_with pad (take n inp) @ [(inp ! n) XOR k]"
      by (simp add: xor_with_def k)
    moreover have "drop n out = out ! n # drop (Suc n) out" using 2 by (simp add: Cons_nth_drop_Suc)
    ultimately have "?b[n := (inp ! n) XOR k] = xor_with pad (take (Suc n) inp) @ drop (Suc n) out"
      using 2 by (simp add: list_update_append)
    with IH k 2 show ?case by (simp del: xor_loop.simps(1))
  next
    case 1
    show ?case
    proof (cases "pad_defined pad n \<and> n \<le> length inp \<and> n \<le> length out")
      case True
      with Suc 1 show ?thesis by (auto simp: pad_defined_def less_Suc_eq split: option.split)
    next
      case False
      with Suc show ?thesis by simp
    qed
  }
qed

lemma xor_loop_eq:
  "xor_loop pad inp out n =
     (if pad_defined pad n \<and> n \<le> length inp \<and> n \<le> length out
      then Done (xor_with pad (take n inp) @ drop n out) else Undef)"
  using xor_loop_Undef xor_loop_Done by auto

lemma xor_with_involution: "xor_with pad (xor_with pad xs) = xs"
  by (rule nth_equalityI) (simp_all add: xor_with_def xor.assoc)

text \<open>Two texts under the same pad differ exactly as their records differ: the pad drops out.\<close>

lemma xor_with_difference:
  "length xs = length ys \<Longrightarrow>
   map2 (XOR) (xor_with pad xs) (xor_with pad ys) = map2 (XOR) xs ys"
  by (rule nth_equalityI) (simp_all add: xor_with_def ac_simps)

lemma xor_with_change:
  "i < length xs \<Longrightarrow> xor_with pad (xs[i := (xs ! i) XOR d]) = (xor_with pad xs)[i := (xor_with pad xs ! i) XOR d]"
  by (rule nth_equalityI) (auto simp: xor_with_def nth_list_update ac_simps)

section \<open>Record layers\<close>

text \<open>
  A layer has, for a session that can carry records, a pad; \<open>enc\<close> and \<open>dec\<close> take the bytes, the length
  given and the content of the output buffer, and return the state, the status and, on success, the
  output buffer and the length announced.
\<close>

type_synonym 's record_op = "'s \<Rightarrow> u32 \<Rightarrow> u8 list \<Rightarrow> u32 \<Rightarrow> u8 list \<Rightarrow> ('s \<times> int \<times> (u8 list \<times> u32) option) outcome"

locale record_layer =
  fixes pad :: "'s \<Rightarrow> u32 \<Rightarrow> (nat \<Rightarrow> u8 option) option"
    and enc :: "'s record_op"
    and dec :: "'s record_op"
  assumes enc_closed: "pad s k = None \<Longrightarrow> enc s k inp n out = Done (s, -1, None)"
    and dec_closed: "pad s k = None \<Longrightarrow> dec s k inp n out = Done (s, -1, None)"
    and enc_open: "pad s k = Some f \<Longrightarrow> \<exists>s'. pad s' = pad s \<and>
      enc s k inp n out = (case xor_loop f inp out (unat n) of Undef \<Rightarrow> Undef | Done b \<Rightarrow> Done (s', 0, Some (b, n + 16)))"
    and dec_open: "pad s k = Some f \<Longrightarrow> \<exists>s'. pad s' = pad s \<and>
      dec s k inp n out = (case xor_loop f inp out (unat (n - 16)) of Undef \<Rightarrow> Undef | Done b \<Rightarrow> Done (s', 0, Some (b, n - 16)))"
begin

lemma enc_defined:
  assumes "pad s k = Some f" and "pad_defined f (unat n)" and "unat n \<le> length inp" and "unat n \<le> length out"
  obtains s' where "enc s k inp n out = Done (s', 0, Some (xor_with f (take (unat n) inp) @ drop (unat n) out, n + 16))"
    and "pad s' = pad s"
  using enc_open [OF assms(1), of inp n out] assms(2-4) by (auto simp: xor_loop_eq)

lemma dec_defined:
  assumes "pad s k = Some f" and "pad_defined f (unat (n - 16))" and "unat (n - 16) \<le> length inp" and "unat (n - 16) \<le> length out"
  obtains s' where "dec s k inp n out =
      Done (s', 0, Some (xor_with f (take (unat (n - 16)) inp) @ drop (unat (n - 16)) out, n - 16))"
    and "pad s' = pad s"
  using dec_open [OF assms(1), of inp n out] assms(2-4) by (auto simp: xor_loop_eq)

text \<open>What one session encrypts, every session with the same pad decrypts; the 16 bytes after the text play no part.\<close>

lemma round_trip:
  assumes "pad s k = Some f" and "pad t j = Some f" and "pad_defined f (length p)" and "length p < 4294967296"
    and "length p \<le> length out" and "length p \<le> length out'"
  obtains s' t' c where "enc s k p (of_nat (length p)) out = Done (s', 0, Some (c, of_nat (length p) + 16))"
    and "length c = length out"
    and "dec t j (take (length p) c @ tail) (of_nat (length p) + 16) out' =
      Done (t', 0, Some (p @ drop (length p) out', of_nat (length p)))"
proof -
  have n: "unat (of_nat (length p) :: u32) = length p" using assms(4) by (rule unat_of_nat_u32)
  let ?c = "xor_with f p @ drop (length p) out"
  obtain s' where e: "enc s k p (of_nat (length p)) out = Done (s', 0, Some (?c, of_nat (length p) + 16))"
    using enc_defined [OF assms(1), of "of_nat (length p)" p out] assms(3,5) n by auto
  have t: "take (length p) ?c = xor_with f p" by simp
  obtain t' where d: "dec t j (take (length p) ?c @ tail) (of_nat (length p) + 16) out' =
      Done (t', 0, Some (p @ drop (length p) out', of_nat (length p)))"
    using dec_defined [OF assms(2), of "of_nat (length p) + 16" "take (length p) ?c @ tail" out'] assms(3,6) n
    by (auto simp: t xor_with_involution)
  show thesis by (rule that [OF e _ d]) (use assms(5) in simp)
qed

text \<open>A record announced shorter than 16 bytes makes the loop run over nearly the whole address space.\<close>

lemma short_record:
  assumes "pad s k = Some f" and "n < 16" and "length inp < 4294967280"
  shows "dec s k inp n out = Undef"
proof -
  have "unat n < 16" using assms(2) by (simp add: word_less_nat_alt)
  then have "unat (n - 16) = unat n + 4294967280" by (simp add: unat_sub_if' word_le_nat_alt)
  with dec_open [OF assms(1), of inp n out] assms(3) show ?thesis by (auto simp: xor_loop_eq)
qed

text \<open>Changing a byte of a record changes that byte of the text, and nothing reports it.\<close>

lemma malleable:
  assumes "pad s k = Some f" and "dec s k inp n out = Done (s1, 0, Some (b, m))" and "i < unat (n - 16)"
  shows "\<exists>s2. dec s k (inp[i := (inp ! i) XOR d]) n out = Done (s2, 0, Some (b[i := (b ! i) XOR d], m))"
proof -
  let ?m = "unat (n - 16)"
  have ok: "pad_defined f ?m" "?m \<le> length inp" "?m \<le> length out" and b: "b = xor_with f (take ?m inp) @ drop ?m out" "m = n - 16"
    using dec_open [OF assms(1), of inp n out] assms(2) by (auto simp: xor_loop_eq split: if_splits)
  have "take ?m (inp[i := (inp ! i) XOR d]) = (take ?m inp)[i := (take ?m inp ! i) XOR d]" using assms(3) by (simp add: take_update_swap)
  with xor_with_change [of i "take ?m inp" f d] ok assms(3)
  have "xor_with f (take ?m (inp[i := (inp ! i) XOR d])) @ drop ?m out = b[i := (b ! i) XOR d]"
    by (simp add: b list_update_append nth_append)
  then show ?thesis using dec_open [OF assms(1), of "inp[i := (inp ! i) XOR d]" n out] ok b by (auto simp: xor_loop_eq)
qed

end

end
