(* ===== verification/TLS_Manager.thy ===== *)
theory TLS_Manager
  imports Record_Layer
begin

text \<open>
  The TLS manager of \<open>src/secure-communication/tls_manager.c\<close>: sessions with a state, the cipher suites
  supported, alerts, and the encryption of records. The static counters of sessions and alerts are
  arguments and results. A buffer that is written is passed as its content before and returned as its
  content after; reading or writing past the end of a buffer is undefined.

  The second half shows which states a session can get into unless \<open>tls_session_set_state\<close> sets it by hand, what a negotiation chooses, and that
  records decrypt to what was encrypted, in every session.
\<close>

section \<open>Constants and data\<close>

definition MAX_TLS_SESSIONS :: nat where "MAX_TLS_SESSIONS = 512"
definition MAX_CIPHERS_PER_SESSION :: nat where "MAX_CIPHERS_PER_SESSION = 8"

datatype TLSVersion = TLS_VERSION_1_0 | TLS_VERSION_1_1 | TLS_VERSION_1_2 | TLS_VERSION_1_3

datatype TLSState =
  TLS_STATE_IDLE | TLS_STATE_HANDSHAKE | TLS_STATE_ESTABLISHED | TLS_STATE_CLOSING | TLS_STATE_CLOSED | TLS_STATE_ERROR

datatype CipherSuite =
  CIPHER_SUITE_AES_128_GCM_SHA256 | CIPHER_SUITE_AES_256_GCM_SHA384 | CIPHER_SUITE_CHACHA20_POLY1305
  | CIPHER_SUITE_RSA_AES_128_CBC_SHA | CIPHER_SUITE_ECDHE_AES_256_GCM_SHA384

record TLSSession =
  tl_session_id :: u32
  tl_connection_id :: u32
  tl_tls_version :: TLSVersion
  tl_state :: TLSState
  tl_negotiated_cipher :: CipherSuite
  tl_client_random :: "u8 list"
  tl_server_random :: "u8 list"
  tl_session_ticket :: "u8 list"
  tl_bytes_sent :: u64
  tl_bytes_received :: u64
  tl_session_start_time :: u64
  tl_last_activity_time :: u64
  tl_handshake_count :: u32
  tl_renegotiation_count :: u32

record TLSAlert =
  ta_alert_id :: u32
  ta_session_id :: u32
  ta_alert_level :: u8
  ta_alert_description :: u8
  ta_alert_timestamp :: u64

record TLSManager =
  tm_manager_id :: u32
  tm_sessions :: "TLSSession list"
  tm_alerts :: "TLSAlert list"
  tm_supported_ciphers :: "CipherSuite list"
  tm_min_version :: TLSVersion
  tm_max_version :: TLSVersion
  tm_total_bytes_encrypted :: u64
  tm_total_bytes_decrypted :: u64
  tm_total_handshakes :: u32
  tm_failed_handshakes :: u32

record TLSManagerMetrics =
  tx_manager_id :: u32
  tx_active_sessions :: u32
  tx_total_sessions :: u32
  tx_supported_ciphers :: u32
  tx_total_bytes_encrypted :: u64
  tx_total_bytes_decrypted :: u64
  tx_total_handshakes :: u32
  tx_failed_handshakes :: u32

type_synonym tls = "TLSManager option"

section \<open>Sessions\<close>

definition tls_manager_init :: "bool \<Rightarrow> tls" where
  "tls_manager_init malloc_ok =
     (if \<not> malloc_ok then None
      else Some \<lparr>tm_manager_id = 1, tm_sessions = [], tm_alerts = [], tm_supported_ciphers = [],
        tm_min_version = TLS_VERSION_1_2, tm_max_version = TLS_VERSION_1_3, tm_total_bytes_encrypted = 0,
        tm_total_bytes_decrypted = 0, tm_total_handshakes = 0, tm_failed_handshakes = 0\<rparr>)"

definition tls_manager_destroy :: "tls \<Rightarrow> tls \<times> int" where
  "tls_manager_destroy h = (None, case h of None \<Rightarrow> -1 | Some m \<Rightarrow> 0)"

definition client_random_bytes :: "u8 list" where
  "client_random_bytes = map (\<lambda>i. ucast ((of_nat i * 11 + 73) mod 256 :: u32)) [0..<32]"

definition server_random_bytes :: "u8 list" where
  "server_random_bytes = map (\<lambda>i. ucast ((of_nat i * 13 + 97) mod 256 :: u32)) [0..<32]"

definition tls_session_create :: "tls \<Rightarrow> u32 \<Rightarrow> u32 \<Rightarrow> TLSVersion \<Rightarrow> (tls \<times> u32) \<times> u32" where
  "tls_session_create h next_session_id connection_id version =
     (case h of None \<Rightarrow> ((h, next_session_id), 0)
      | Some m \<Rightarrow>
          if length (tm_sessions m) \<ge> MAX_TLS_SESSIONS then ((h, next_session_id), 0)
          else ((Some (m\<lparr>tm_sessions := tm_sessions m @ [\<lparr>tl_session_id = next_session_id,
                    tl_connection_id = connection_id, tl_tls_version = version, tl_state = TLS_STATE_IDLE,
                    tl_negotiated_cipher = CIPHER_SUITE_AES_128_GCM_SHA256,
                    tl_client_random = client_random_bytes, tl_server_random = server_random_bytes,
                    tl_session_ticket = replicate 32 0, tl_bytes_sent = 0, tl_bytes_received = 0,
                    tl_session_start_time = 0, tl_last_activity_time = 0, tl_handshake_count = 0,
                    tl_renegotiation_count = 0\<rparr>]\<rparr>), next_session_id + 1), next_session_id))"

definition find_tls_session :: "u32 \<Rightarrow> TLSManager \<Rightarrow> nat option" where
  "find_tls_session session_id m = id_idx tl_session_id session_id (tm_sessions m)"

definition set_session :: "nat \<Rightarrow> TLSSession \<Rightarrow> TLSManager \<Rightarrow> TLSManager" where
  "set_session i t m = m\<lparr>tm_sessions := (tm_sessions m)[i := t]\<rparr>"

definition tls_session_destroy :: "tls \<Rightarrow> u32 \<Rightarrow> tls \<times> int" where
  "tls_session_destroy h session_id = with_handle (-1) h (\<lambda>m.
     case find_tls_session session_id m of None \<Rightarrow> (m, -1)
     | Some i \<Rightarrow> (m\<lparr>tm_sessions := remove_at i (tm_sessions m)\<rparr>, 0))"

definition tls_session_start_handshake :: "tls \<Rightarrow> u32 \<Rightarrow> tls \<times> int" where
  "tls_session_start_handshake h session_id = with_handle (-1) h (\<lambda>m.
     case find_tls_session session_id m of None \<Rightarrow> (m, -1)
     | Some i \<Rightarrow>
         let t = tm_sessions m ! i in
         if tl_state t = TLS_STATE_IDLE \<or> tl_state t = TLS_STATE_ESTABLISHED
         then ((set_session i (t\<lparr>tl_state := TLS_STATE_HANDSHAKE, tl_handshake_count := tl_handshake_count t + 1\<rparr>) m)
                 \<lparr>tm_total_handshakes := tm_total_handshakes m + 1\<rparr>, 0)
         else (m, -1))"

definition tls_session_handle_client_hello :: "tls \<Rightarrow> u32 \<Rightarrow> u8 list option \<Rightarrow> u32 \<Rightarrow> tls \<times> int" where
  "tls_session_handle_client_hello h session_id hello_data hello_length = with_handle (-1) h (\<lambda>m.
     if hello_data = None then (m, -1)
     else case find_tls_session session_id m of None \<Rightarrow> (m, -1)
     | Some i \<Rightarrow>
         let t = tm_sessions m ! i in
         if tl_state t = TLS_STATE_HANDSHAKE
         then (set_session i (t\<lparr>tl_bytes_received := tl_bytes_received t + ucast hello_length\<rparr>) m, 0) else (m, -1))"

definition tls_session_handle_server_hello :: "tls \<Rightarrow> u32 \<Rightarrow> u8 list option \<Rightarrow> u32 \<Rightarrow> tls \<times> int" where
  "tls_session_handle_server_hello h session_id hello_data hello_length = with_handle (-1) h (\<lambda>m.
     if hello_data = None then (m, -1)
     else case find_tls_session session_id m of None \<Rightarrow> (m, -1)
     | Some i \<Rightarrow>
         let t = tm_sessions m ! i in
         if tl_state t = TLS_STATE_HANDSHAKE
         then (set_session i (t\<lparr>tl_bytes_sent := tl_bytes_sent t + ucast hello_length\<rparr>) m, 0) else (m, -1))"

definition tls_session_set_state :: "tls \<Rightarrow> u32 \<Rightarrow> TLSState \<Rightarrow> tls \<times> int" where
  "tls_session_set_state h session_id state = with_handle (-1) h (\<lambda>m.
     case find_tls_session session_id m of None \<Rightarrow> (m, -1)
     | Some i \<Rightarrow> (set_session i ((tm_sessions m ! i)\<lparr>tl_state := state\<rparr>) m, 0))"

definition tls_session_get_state :: "tls \<Rightarrow> u32 \<Rightarrow> bool \<Rightarrow> int \<times> TLSState option" where
  "tls_session_get_state h session_id state = read_handle (-1, None) h (\<lambda>m.
     if \<not> state then (-1, None)
     else case find_tls_session session_id m of None \<Rightarrow> (-1, None)
     | Some i \<Rightarrow> (0, Some (tl_state (tm_sessions m ! i))))"

definition tls_session_resume :: "tls \<Rightarrow> u32 \<Rightarrow> tls \<times> int" where
  "tls_session_resume h session_id = with_handle (-1) h (\<lambda>m.
     case find_tls_session session_id m of None \<Rightarrow> (m, -1)
     | Some i \<Rightarrow>
         let t = tm_sessions m ! i in
         if tl_state t = TLS_STATE_IDLE \<or> tl_state t = TLS_STATE_CLOSED
         then (set_session i (t\<lparr>tl_state := TLS_STATE_ESTABLISHED\<rparr>) m, 0) else (m, -1))"

definition tls_session_renegotiate :: "tls \<Rightarrow> u32 \<Rightarrow> tls \<times> int" where
  "tls_session_renegotiate h session_id = with_handle (-1) h (\<lambda>m.
     case find_tls_session session_id m of None \<Rightarrow> (m, -1)
     | Some i \<Rightarrow>
         let t = tm_sessions m ! i in
         if tl_state t = TLS_STATE_ESTABLISHED
         then ((set_session i (t\<lparr>tl_state := TLS_STATE_HANDSHAKE, tl_renegotiation_count := tl_renegotiation_count t + 1\<rparr>) m)
                 \<lparr>tm_total_handshakes := tm_total_handshakes m + 1\<rparr>, 0)
         else (m, -1))"

definition tls_verify_certificate_chain :: "tls \<Rightarrow> u32 \<Rightarrow> int" where
  "tls_verify_certificate_chain h session_id = read_handle (-1) h (\<lambda>m. if find_tls_session session_id m = None then -1 else 0)"

definition tls_send_alert :: "tls \<Rightarrow> u32 \<Rightarrow> u32 \<Rightarrow> u8 \<Rightarrow> u8 \<Rightarrow> (tls \<times> u32) \<times> int" where
  "tls_send_alert h next_alert_id session_id alert_level alert_description =
     (case h of None \<Rightarrow> ((h, next_alert_id), -1)
      | Some m \<Rightarrow>
          if session_id = 0 \<or> length (tm_alerts m) \<ge> 256 then ((h, next_alert_id), -1)
          else ((Some (m\<lparr>tm_alerts := tm_alerts m @ [\<lparr>ta_alert_id = next_alert_id, ta_session_id = session_id,
                    ta_alert_level = alert_level, ta_alert_description = alert_description, ta_alert_timestamp = 0\<rparr>]\<rparr>),
                 next_alert_id + 1), sint next_alert_id))"

definition tls_set_min_version :: "tls \<Rightarrow> TLSVersion \<Rightarrow> tls \<times> int" where
  "tls_set_min_version h version = with_handle (-1) h (\<lambda>m. (m\<lparr>tm_min_version := version\<rparr>, 0))"

definition tls_set_max_version :: "tls \<Rightarrow> TLSVersion \<Rightarrow> tls \<times> int" where
  "tls_set_max_version h version = with_handle (-1) h (\<lambda>m. (m\<lparr>tm_max_version := version\<rparr>, 0))"

section \<open>Cipher suites\<close>

definition tls_cipher_suite_add :: "tls \<Rightarrow> CipherSuite \<Rightarrow> tls \<times> int" where
  "tls_cipher_suite_add h cipher = with_handle (-1) h (\<lambda>m.
     if length (tm_supported_ciphers m) \<ge> MAX_CIPHERS_PER_SESSION then (m, -1)
     else (m\<lparr>tm_supported_ciphers := tm_supported_ciphers m @ [cipher]\<rparr>, 0))"

definition tls_cipher_suite_remove :: "tls \<Rightarrow> CipherSuite \<Rightarrow> tls \<times> int" where
  "tls_cipher_suite_remove h cipher = with_handle (-1) h (\<lambda>m.
     case first_idx (\<lambda>c. c = cipher) (tm_supported_ciphers m) of None \<Rightarrow> (m, -1)
     | Some i \<Rightarrow> (m\<lparr>tm_supported_ciphers := remove_at i (tm_supported_ciphers m)\<rparr>, 0))"

text \<open>The two loops: \<open>n\<close> more rounds of the outer one, from \<open>j\<close> on.\<close>

fun negotiate_loop :: "CipherSuite list \<Rightarrow> CipherSuite list \<Rightarrow> nat \<Rightarrow> nat \<Rightarrow> CipherSuite option outcome" where
  "negotiate_loop supported client j 0 = Done None"
| "negotiate_loop supported client j (Suc n) =
     (if j \<ge> length client then Undef
      else if list_ex (\<lambda>c. client ! j = c) supported then Done (Some (client ! j))
      else negotiate_loop supported client (Suc j) n)"

definition tls_cipher_suite_negotiate ::
    "tls \<Rightarrow> u32 \<Rightarrow> CipherSuite list option \<Rightarrow> u32 \<Rightarrow> (tls \<times> int) outcome" where
  "tls_cipher_suite_negotiate h session_id client_ciphers cipher_count = with_handle_ub (-1) h (\<lambda>m.
     case client_ciphers of None \<Rightarrow> Done (m, -1)
     | Some client \<Rightarrow>
         if cipher_count = 0 then Done (m, -1)
         else case find_tls_session session_id m of None \<Rightarrow> Done (m, -1)
         | Some i \<Rightarrow>
             (case negotiate_loop (tm_supported_ciphers m) client 0 (min (unat cipher_count) (length (tm_supported_ciphers m))) of
                Undef \<Rightarrow> Undef
              | Done None \<Rightarrow> Done (m, -1)
              | Done (Some c) \<Rightarrow> Done (set_session i ((tm_sessions m ! i)\<lparr>tl_negotiated_cipher := c\<rparr>) m, 0)))"

section \<open>Records\<close>

definition tls_pad :: "nat \<Rightarrow> u8 option" where
  "tls_pad j = Some (ucast (of_nat j mod 256 :: u32))"

definition find_established :: "u32 \<Rightarrow> TLSManager \<Rightarrow> nat option" where
  "find_established session_id m =
     (if session_id = 0 then None
      else first_idx (\<lambda>t. tl_session_id t = session_id \<and> tl_state t = TLS_STATE_ESTABLISHED) (tm_sessions m))"

definition tls_record_encrypt ::
    "tls \<Rightarrow> u32 \<Rightarrow> u8 list option \<Rightarrow> u32 \<Rightarrow> u8 list option \<Rightarrow> bool \<Rightarrow> (tls \<times> int \<times> (u8 list \<times> u32) option) outcome" where
  "tls_record_encrypt h session_id plaintext plaintext_length ciphertext ciphertext_length = with_handle_ub (-1, None) h (\<lambda>m.
     case (plaintext, ciphertext) of
       (Some p, Some buf) \<Rightarrow>
         if \<not> ciphertext_length then Done (m, -1, None)
         else (case find_established session_id m of None \<Rightarrow> Done (m, -1, None)
         | Some i \<Rightarrow>
             (case xor_loop tls_pad p buf (unat plaintext_length) of Undef \<Rightarrow> Undef
              | Done c \<Rightarrow>
                  let t = tm_sessions m ! i
                  in Done ((set_session i (t\<lparr>tl_bytes_sent := tl_bytes_sent t + ucast plaintext_length\<rparr>) m)
                       \<lparr>tm_total_bytes_encrypted := tm_total_bytes_encrypted m + ucast plaintext_length\<rparr>,
                       0, Some (c, plaintext_length + 16))))
     | _ \<Rightarrow> Done (m, -1, None))"

definition tls_record_decrypt ::
    "tls \<Rightarrow> u32 \<Rightarrow> u8 list option \<Rightarrow> u32 \<Rightarrow> u8 list option \<Rightarrow> bool \<Rightarrow> (tls \<times> int \<times> (u8 list \<times> u32) option) outcome" where
  "tls_record_decrypt h session_id ciphertext ciphertext_length plaintext plaintext_length = with_handle_ub (-1, None) h (\<lambda>m.
     case (ciphertext, plaintext) of
       (Some c, Some buf) \<Rightarrow>
         if \<not> plaintext_length then Done (m, -1, None)
         else (case find_established session_id m of None \<Rightarrow> Done (m, -1, None)
         | Some i \<Rightarrow>
             let n = ciphertext_length - 16
             in (case xor_loop tls_pad c buf (unat n) of Undef \<Rightarrow> Undef
              | Done p \<Rightarrow>
                  let t = tm_sessions m ! i
                  in Done ((set_session i (t\<lparr>tl_bytes_received := tl_bytes_received t + ucast n\<rparr>) m)
                       \<lparr>tm_total_bytes_decrypted := tm_total_bytes_decrypted m + ucast n\<rparr>, 0, Some (p, n))))
     | _ \<Rightarrow> Done (m, -1, None))"

definition tls_manager_get_metrics :: "tls \<Rightarrow> bool \<Rightarrow> int \<times> TLSManagerMetrics option" where
  "tls_manager_get_metrics h metrics = read_handle (-1, None) h (\<lambda>m.
     if \<not> metrics then (-1, None)
     else (0, Some \<lparr>tx_manager_id = tm_manager_id m,
        tx_active_sessions = foldl (\<lambda>a t. if tl_state t = TLS_STATE_ESTABLISHED \<or> tl_state t = TLS_STATE_HANDSHAKE
          then a + 1 else a) 0 (tm_sessions m),
        tx_total_sessions = of_nat (length (tm_sessions m)),
        tx_supported_ciphers = of_nat (length (tm_supported_ciphers m)),
        tx_total_bytes_encrypted = tm_total_bytes_encrypted m, tx_total_bytes_decrypted = tm_total_bytes_decrypted m,
        tx_total_handshakes = tm_total_handshakes m, tx_failed_handshakes = tm_failed_handshakes m\<rparr>))"

section \<open>The states of a session\<close>

text \<open>
  All calls of the module as steps of the manager together with its counters. \<open>tls_session_set_state\<close> gives a
  session any state; the steps are those in which it is called for the sessions \<open>H\<close> only.
\<close>

record tls_state =
  tz_manager :: TLSManager
  tz_next_session :: u32
  tz_next_alert :: u32

definition tls_initial :: "tls_state \<Rightarrow> bool" where
  "tls_initial s \<longleftrightarrow> tls_manager_init True = Some (tz_manager s)"

abbreviation tz_handle :: "tls_state \<Rightarrow> tls" where "tz_handle s \<equiv> Some (tz_manager s)"

inductive tls_step :: "u32 set \<Rightarrow> tls_state \<Rightarrow> tls_state \<Rightarrow> bool"
  for H :: "u32 set" where
  step_create: "tls_session_create (tz_handle s) (tz_next_session s) c v = ((Some m, nx), r) \<Longrightarrow>
    tls_step H s (s\<lparr>tz_manager := m, tz_next_session := nx\<rparr>)"
| step_destroy: "tls_session_destroy (tz_handle s) k = (Some m, r) \<Longrightarrow> tls_step H s (s\<lparr>tz_manager := m\<rparr>)"
| step_handshake: "tls_session_start_handshake (tz_handle s) k = (Some m, r) \<Longrightarrow> tls_step H s (s\<lparr>tz_manager := m\<rparr>)"
| step_client_hello: "tls_session_handle_client_hello (tz_handle s) k d n = (Some m, r) \<Longrightarrow> tls_step H s (s\<lparr>tz_manager := m\<rparr>)"
| step_server_hello: "tls_session_handle_server_hello (tz_handle s) k d n = (Some m, r) \<Longrightarrow> tls_step H s (s\<lparr>tz_manager := m\<rparr>)"
| step_add: "tls_cipher_suite_add (tz_handle s) c = (Some m, r) \<Longrightarrow> tls_step H s (s\<lparr>tz_manager := m\<rparr>)"
| step_remove: "tls_cipher_suite_remove (tz_handle s) c = (Some m, r) \<Longrightarrow> tls_step H s (s\<lparr>tz_manager := m\<rparr>)"
| step_negotiate: "tls_cipher_suite_negotiate (tz_handle s) k cs n = Done (Some m, r) \<Longrightarrow> tls_step H s (s\<lparr>tz_manager := m\<rparr>)"
| step_encrypt: "tls_record_encrypt (tz_handle s) k p n b l = Done (Some m, r) \<Longrightarrow> tls_step H s (s\<lparr>tz_manager := m\<rparr>)"
| step_decrypt: "tls_record_decrypt (tz_handle s) k p n b l = Done (Some m, r) \<Longrightarrow> tls_step H s (s\<lparr>tz_manager := m\<rparr>)"
| step_alert: "tls_send_alert (tz_handle s) (tz_next_alert s) k lv ds = ((Some m, nx), r') \<Longrightarrow>
    tls_step H s (s\<lparr>tz_manager := m, tz_next_alert := nx\<rparr>)"
| step_set_state: "k \<in> H \<Longrightarrow> tls_session_set_state (tz_handle s) k st = (Some m, r) \<Longrightarrow> tls_step H s (s\<lparr>tz_manager := m\<rparr>)"
| step_resume: "tls_session_resume (tz_handle s) k = (Some m, r) \<Longrightarrow> tls_step H s (s\<lparr>tz_manager := m\<rparr>)"
| step_renegotiate: "tls_session_renegotiate (tz_handle s) k = (Some m, r) \<Longrightarrow> tls_step H s (s\<lparr>tz_manager := m\<rparr>)"
| step_min: "tls_set_min_version (tz_handle s) v = (Some m, r) \<Longrightarrow> tls_step H s (s\<lparr>tz_manager := m\<rparr>)"
| step_max: "tls_set_max_version (tz_handle s) v = (Some m, r) \<Longrightarrow> tls_step H s (s\<lparr>tz_manager := m\<rparr>)"

definition session_ok :: "u32 set \<Rightarrow> TLSSession \<Rightarrow> bool" where
  "session_ok H t \<longleftrightarrow> tl_session_id t \<in> H \<or>
     (tl_state t = TLS_STATE_IDLE \<or> tl_state t = TLS_STATE_ESTABLISHED) \<and> tl_handshake_count t = 0 \<and> tl_renegotiation_count t = 0 \<or>
     tl_state t = TLS_STATE_HANDSHAKE \<and> tl_handshake_count t + tl_renegotiation_count t = 1"

definition tls_ok :: "u32 set \<Rightarrow> tls_state \<Rightarrow> bool" where
  "tls_ok H s \<longleftrightarrow> list_all (session_ok H) (tm_sessions (tz_manager s)) \<and> length (tm_sessions (tz_manager s)) \<le> MAX_TLS_SESSIONS \<and>
     length (tm_supported_ciphers (tz_manager s)) \<le> MAX_CIPHERS_PER_SESSION \<and> length (tm_alerts (tz_manager s)) \<le> 256 \<and>
     tm_failed_handshakes (tz_manager s) = 0"

lemma find_tls_sessionD: "find_tls_session k m = Some i \<Longrightarrow> i < length (tm_sessions m)"
  by (auto simp: find_tls_session_def dest: id_idxD)

lemma found_session_id: "find_tls_session k m = Some i \<Longrightarrow> tl_session_id (tm_sessions m ! i) = k"
  by (auto simp: find_tls_session_def dest: id_idxD)

lemma find_establishedD:
  assumes "find_established k m = Some i"
  shows "i < length (tm_sessions m)" and "tl_state (tm_sessions m ! i) = TLS_STATE_ESTABLISHED"
  using assms first_idx_SomeD by (fastforce simp: find_established_def split: if_splits)+

lemma found_session_ok:
  assumes "list_all (session_ok H) (tm_sessions m)"
  shows "find_tls_session k m = Some i \<Longrightarrow> session_ok H (tm_sessions m ! i)"
    and "find_established k m = Some i \<Longrightarrow> session_ok H (tm_sessions m ! i) \<and> tl_state (tm_sessions m ! i) = TLS_STATE_ESTABLISHED"
  using assms find_tls_sessionD find_establishedD list_all_nth by blast+

lemma tls_step_ok:
  assumes "tls_step H s s'" and "tls_ok H s"
  shows "tls_ok H s'"
proof -
  have all: "list_all (session_ok H) (tm_sessions (tz_manager s))" using assms(2) by (simp add: tls_ok_def)
  note ok = found_session_ok [OF all]
  from assms(1) show ?thesis
  proof (cases rule: tls_step.cases)
    case (step_create c v m nx r)
    then show ?thesis using assms(2) by (auto simp: tls_session_create_def tls_ok_def session_ok_def split: if_splits)
  next
    case (step_destroy k m r)
    then show ?thesis using assms(2)
      by (auto simp: tls_session_destroy_def tls_ok_def list_all_remove_at length_remove_at dest: find_tls_sessionD split: option.splits)
  next
    case (step_handshake k m r)
    then show ?thesis using assms(2)
      by (auto simp: tls_session_start_handshake_def Let_def set_session_def session_ok_def tls_ok_def dest!: ok(1)
        intro!: list_all_update split: option.splits if_splits)
  next
    case (step_client_hello k d n m r)
    then show ?thesis using assms(2)
      by (auto simp: tls_session_handle_client_hello_def Let_def set_session_def session_ok_def tls_ok_def dest!: ok(1)
        intro!: list_all_update split: option.splits if_splits)
  next
    case (step_server_hello k d n m r)
    then show ?thesis using assms(2)
      by (auto simp: tls_session_handle_server_hello_def Let_def set_session_def session_ok_def tls_ok_def dest!: ok(1)
        intro!: list_all_update split: option.splits if_splits)
  next
    case (step_add c m r)
    then show ?thesis using assms(2) by (auto simp: tls_cipher_suite_add_def tls_ok_def split: if_splits)
  next
    case (step_remove c m r)
    then show ?thesis using assms(2)
      by (auto simp: tls_cipher_suite_remove_def tls_ok_def length_remove_at dest: first_idx_SomeD(1) split: option.splits)
  next
    case (step_negotiate k cs n m r)
    then show ?thesis using assms(2)
      by (auto simp: tls_cipher_suite_negotiate_def set_session_def session_ok_def tls_ok_def dest!: ok(1)
        intro!: list_all_update split: option.splits if_splits outcome.splits)
  next
    case (step_encrypt k p n b l m r)
    then show ?thesis using assms(2)
      by (auto simp: tls_record_encrypt_def Let_def set_session_def session_ok_def tls_ok_def dest!: ok(2)
        intro!: list_all_update split: option.splits if_splits outcome.splits)
  next
    case (step_decrypt k p n b l m r)
    then show ?thesis using assms(2)
      by (auto simp: tls_record_decrypt_def Let_def set_session_def session_ok_def tls_ok_def dest!: ok(2)
        intro!: list_all_update split: option.splits if_splits outcome.splits)
  next
    case (step_alert k lv ds m nx r')
    then show ?thesis using assms(2) by (auto simp: tls_send_alert_def tls_ok_def split: if_splits)
  next
    case (step_set_state k st m r)
    then show ?thesis using assms(2) found_session_id [of k "tz_manager s"]
      by (auto simp: tls_session_set_state_def set_session_def session_ok_def tls_ok_def intro!: list_all_update split: option.splits)
  next
    case (step_resume k m r)
    then show ?thesis using assms(2)
      by (auto simp: tls_session_resume_def Let_def set_session_def session_ok_def tls_ok_def dest!: ok(1)
        intro!: list_all_update split: option.splits if_splits)
  next
    case (step_renegotiate k m r)
    then show ?thesis using assms(2)
      by (auto simp: tls_session_renegotiate_def Let_def set_session_def session_ok_def tls_ok_def dest!: ok(1)
        intro!: list_all_update split: option.splits if_splits)
  next
    case (step_min v m r)
    then show ?thesis using assms(2) by (auto simp: tls_set_min_version_def tls_ok_def)
  next
    case (step_max v m r)
    then show ?thesis using assms(2) by (auto simp: tls_set_max_version_def tls_ok_def)
  qed
qed

interpretation tls_states: invariant_system tls_initial "tls_step H" "tls_ok H" for H
proof
  show "tls_ok H s" if "tls_initial s" for s
  proof -
    from that have "tz_manager s = the (tls_manager_init True)" by (simp add: tls_initial_def)
    then show ?thesis by (simp add: tls_ok_def tls_manager_init_def)
  qed
qed (rule tls_step_ok)

section \<open>What a negotiation chooses\<close>

lemma negotiate_loop_find:
  assumes "j + n \<le> length client"
  shows "negotiate_loop supported client j n = Done (find (\<lambda>c. c \<in> set supported) (take n (drop j client)))"
  using assms
proof (induction n arbitrary: j)
  case 0
  then show ?case by simp
next
  case (Suc n)
  then have "drop j client = client ! j # drop (Suc j) client" by (simp add: Cons_nth_drop_Suc)
  with Suc show ?case by (auto simp: list_ex_iff)
qed

text \<open>
  With as many suites as the client says, the first one of its list that is supported is chosen; but
  only as many are looked at as the manager supports.
\<close>

lemma tls_negotiation_exact:
  assumes "find_tls_session k m = Some i" and "length client = unat n" and "n \<noteq> 0"
  shows "tls_cipher_suite_negotiate (Some m) k (Some client) n =
    (case find (\<lambda>c. c \<in> set (tm_supported_ciphers m)) (take (length (tm_supported_ciphers m)) client) of
       None \<Rightarrow> Done (Some m, -1)
     | Some c \<Rightarrow> Done (Some (set_session i ((tm_sessions m ! i)\<lparr>tl_negotiated_cipher := c\<rparr>) m), 0))"
  using assms by (simp add: tls_cipher_suite_negotiate_def with_handle_ub_def negotiate_loop_find min_def split: option.split)

lemma tls_negotiation_misses_late_match:
  assumes "find_tls_session k m = Some i" and "tm_supported_ciphers m = [c]" and "d \<noteq> c"
  shows "tls_cipher_suite_negotiate (Some m) k (Some [d, c]) 2 = Done (Some m, -1)"
  using assms tls_negotiation_exact [OF assms(1), of "[d, c]" 2] by simp

section \<open>Records\<close>

definition tls_session_pad :: "TLSManager \<Rightarrow> u32 \<Rightarrow> (nat \<Rightarrow> u8 option) option" where
  "tls_session_pad m k = map_option (\<lambda>i. tls_pad) (find_established k m)"

definition the_manager :: "(tls \<times> 'r) outcome \<Rightarrow> (TLSManager \<times> 'r) outcome" where
  "the_manager x = (case x of Undef \<Rightarrow> Undef | Done (h, r) \<Rightarrow> Done (the h, r))"

lemma the_manager_Done: "the_manager x = Done (m, r) \<Longrightarrow> \<exists>h. x = Done (h, r)"
  by (auto simp: the_manager_def split: outcome.splits)

definition tls_enc :: "TLSManager record_op" where
  "tls_enc m k inp n out = the_manager (tls_record_encrypt (Some m) k (Some inp) n (Some out) True)"

definition tls_dec :: "TLSManager record_op" where
  "tls_dec m k inp n out = the_manager (tls_record_decrypt (Some m) k (Some inp) n (Some out) True)"

lemma same_sessions_pad:
  assumes "i < length (tm_sessions m)" and "tm_sessions m' = (tm_sessions m)[i := f (tm_sessions m ! i)]"
    and "\<And>t. tl_session_id (f t) = tl_session_id t \<and> tl_state (f t) = tl_state t"
  shows "tls_session_pad m' = tls_session_pad m"
  using assms by (intro ext) (simp add: tls_session_pad_def find_established_def first_idx_update_same)

interpretation tls_records: record_layer tls_session_pad tls_enc tls_dec
proof
  fix m k inp n out
  assume "tls_session_pad m k = None"
  then show "tls_enc m k inp n out = Done (m, -1, None)" and "tls_dec m k inp n out = Done (m, -1, None)"
    by (simp_all add: tls_session_pad_def tls_enc_def tls_dec_def the_manager_def tls_record_encrypt_def tls_record_decrypt_def
        with_handle_ub_def)
next
  fix m k f inp out and n :: u32
  assume "tls_session_pad m k = Some f"
  then obtain i where i: "find_established k m = Some i" and f: "f = tls_pad" by (auto simp: tls_session_pad_def)
  note len = find_establishedD(1) [OF i]
  let ?t = "tm_sessions m ! i"
  let ?e = "(set_session i (?t\<lparr>tl_bytes_sent := tl_bytes_sent ?t + ucast n\<rparr>) m)
      \<lparr>tm_total_bytes_encrypted := tm_total_bytes_encrypted m + ucast n\<rparr>"
  let ?d = "(set_session i (?t\<lparr>tl_bytes_received := tl_bytes_received ?t + ucast (n - 16)\<rparr>) m)
      \<lparr>tm_total_bytes_decrypted := tm_total_bytes_decrypted m + ucast (n - 16)\<rparr>"
  have "tls_session_pad ?e = tls_session_pad m"
    by (rule same_sessions_pad [OF len, where f = "\<lambda>t. t\<lparr>tl_bytes_sent := tl_bytes_sent t + ucast n\<rparr>"]) (simp_all add: set_session_def)
  then show "\<exists>s'. tls_session_pad s' = tls_session_pad m \<and> tls_enc m k inp n out =
      (case xor_loop f inp out (unat n) of Undef \<Rightarrow> Undef | Done b \<Rightarrow> Done (s', 0, Some (b, n + 16)))"
    using i f by (intro exI [of _ ?e]) (simp add: tls_enc_def the_manager_def tls_record_encrypt_def with_handle_ub_def Let_def split: outcome.split)
  have "tls_session_pad ?d = tls_session_pad m"
    by (rule same_sessions_pad [OF len, where f = "\<lambda>t. t\<lparr>tl_bytes_received := tl_bytes_received t + ucast (n - 16)\<rparr>"])
      (simp_all add: set_session_def)
  then show "\<exists>s'. tls_session_pad s' = tls_session_pad m \<and> tls_dec m k inp n out =
      (case xor_loop f inp out (unat (n - 16)) of Undef \<Rightarrow> Undef | Done b \<Rightarrow> Done (s', 0, Some (b, n - 16)))"
    using i f by (intro exI [of _ ?d]) (simp add: tls_dec_def the_manager_def tls_record_decrypt_def with_handle_ub_def Let_def split: outcome.split)
qed

lemma tls_pad_defined: "pad_defined tls_pad n"
  by (simp add: pad_defined_def tls_pad_def)

lemma tls_short_record_undefined:
  assumes "find_established k m \<noteq> None" and "n < 16" and "length c < 4294967280"
  shows "tls_record_decrypt (Some m) k (Some c) n (Some out) True = Undef"
  using tls_records.short_record [of m k tls_pad n c out] assms
  by (auto simp: tls_session_pad_def tls_dec_def the_manager_def split: outcome.splits)

section \<open>Main theorems\<close>

text \<open>
  Claim C12. The states of a TLS session. Over every sequence of calls of the module, a session whose identifier was
  never given to \<open>tls_session_set_state\<close> is idle, in a handshake or established; if records can be sent in it, it
  has never begun a handshake, and if it began a handshake it has begun exactly one and stays in it.
  The states of other sessions may be set by hand in any way.
\<close>

theorem tls_established_without_handshake:
  assumes "reach tls_initial (tls_step H) s" and "t \<in> set (tm_sessions (tz_manager s))" and "tl_session_id t \<notin> H"
  shows "(tl_state t = TLS_STATE_IDLE \<or> tl_state t = TLS_STATE_ESTABLISHED) \<and> tl_handshake_count t = 0 \<and> tl_renegotiation_count t = 0 \<or>
    tl_state t = TLS_STATE_HANDSHAKE \<and> tl_handshake_count t + tl_renegotiation_count t = 1"
  using tls_states.inv_reachable [OF assms(1)] assms(2,3) by (auto simp: tls_ok_def list_all_iff session_ok_def)

definition tls_start :: tls_state where
  "tls_start = \<lparr>tz_manager = the (tls_manager_init True), tz_next_session = 1, tz_next_alert = 1\<rparr>"

definition one_session :: tls_state where
  "one_session = tls_start\<lparr>tz_manager := the (fst (fst (tls_session_create (tz_handle tls_start) 1 9 TLS_VERSION_1_3))),
     tz_next_session := 2\<rparr>"

definition one_established :: tls_state where
  "one_established = one_session\<lparr>tz_manager := the (fst (tls_session_resume (tz_handle one_session) 1))\<rparr>"

lemmas tls_eval = one_established_def one_session_def tls_start_def tls_manager_init_def tls_session_create_def
  tls_session_resume_def find_tls_session_def id_idx_def set_session_def MAX_TLS_SESSIONS_def Let_def

lemma one_established_reached: "reach tls_initial (tls_step {}) one_established"
proof -
  have "reach tls_initial (tls_step {}) tls_start"
    by (rule reach.reach_init) (simp add: tls_initial_def tls_start_def tls_manager_init_def)
  moreover have "tls_step {} tls_start one_session"
    unfolding one_session_def by (rule tls_step.step_create [of _ 9 TLS_VERSION_1_3 _ 2 1]) (simp add: tls_eval)
  moreover have "tls_step {} one_session one_established"
    unfolding one_established_def by (rule tls_step.step_resume [of _ 1 _ 0]) (simp add: tls_eval)
  ultimately show ?thesis by (blast intro: reach.reach_step)
qed

theorem tls_established_without_handshake_witness:
  "tl_state (tm_sessions (tz_manager one_established) ! 0) = TLS_STATE_ESTABLISHED \<and>
   tl_handshake_count (tm_sessions (tz_manager one_established) ! 0) = 0"
proof -
  have "length (tm_sessions (tz_manager one_established)) = 1"
    and est: "tl_state (tm_sessions (tz_manager one_established) ! 0) = TLS_STATE_ESTABLISHED"
    by (simp_all add: tls_eval)
  then have "tm_sessions (tz_manager one_established) ! 0 \<in> set (tm_sessions (tz_manager one_established))" by simp
  from tls_established_without_handshake [OF one_established_reached this] est show ?thesis by simp
qed

text \<open>
  Claim C13. TLS records. What an established session encrypts, any established session of any manager
  decrypts to the same bytes and the same length, whatever the 16 bytes after the text are: the round
  trip needs neither the same session nor the same key, and the room left for an authentication tag is
  not checked.
\<close>

theorem tls_record_roundtrip:
  assumes "find_established k m \<noteq> None" and "find_established j m' \<noteq> None" and "length p < 4294967296"
    and "length p \<le> length out" and "length p \<le> length out'"
  shows "\<exists>h c. tls_record_encrypt (Some m) k (Some p) (of_nat (length p)) (Some out) True =
        Done (h, 0, Some (c, of_nat (length p) + 16)) \<and> length c = length out \<and>
      (\<forall>tag. \<exists>h'. tls_record_decrypt (Some m') j (Some (take (length p) c @ tag)) (of_nat (length p) + 16) (Some out') True =
        Done (h', 0, Some (p @ drop (length p) out', of_nat (length p))))"
proof -
  have pads: "tls_session_pad m k = Some tls_pad" "tls_session_pad m' j = Some tls_pad"
    using assms(1,2) by (auto simp: tls_session_pad_def)
  note trip = tls_records.round_trip [OF pads tls_pad_defined assms(3-5)]
  obtain s c where e: "tls_enc m k p (of_nat (length p)) out = Done (s, 0, Some (c, of_nat (length p) + 16))" "length c = length out"
    by (rule trip [of "[]"])
  have d: "\<exists>t. tls_dec m' j (take (length p) c @ tag) (of_nat (length p) + 16) out' =
      Done (t, 0, Some (p @ drop (length p) out', of_nat (length p)))" for tag
    by (rule trip [of tag]) (use e(1) in auto)
  from the_manager_Done [OF e(1) [unfolded tls_enc_def]] e(2) d show ?thesis
    unfolding tls_dec_def by (blast dest: the_manager_Done)
qed

theorem tls_record_roundtrip_witness:
  "\<exists>h c. tls_record_encrypt (tz_handle one_established) 1 (Some [65, 66]) 2 (Some [0, 0, 0]) True = Done (h, 0, Some (c, 18)) \<and> length c = 3 \<and>
     (\<forall>tag. \<exists>h'. tls_record_decrypt (tz_handle one_established) 1 (Some (take 2 c @ tag)) 18 (Some [0, 0]) True =
       Done (h', 0, Some ([65, 66], 2)))"
proof -
  have "find_established 1 (tz_manager one_established) \<noteq> None" by (simp add: tls_eval find_established_def)
  from tls_record_roundtrip [OF this this, of "[65, 66]" "[0, 0, 0]" "[0, 0]"] show ?thesis
    by (simp add: numeral_2_eq_2 numeral_3_eq_3)
qed

end
