(* ===== verification/Encryption_Engine.thy ===== *)
theory Encryption_Engine
  imports Record_Layer
begin

unbundle bit_operations_syntax

text \<open>
  The encryption engine of \<open>src/security-cryptography/encryption_engine.c\<close>: sessions with a key and an
  initialisation vector, encryption and decryption of data, buffers that are kept with their text, and
  a hash. The static counters of sessions and buffers are arguments and results; whether an allocation
  succeeds and what a new block contains are arguments. The throughput of the metrics, a
  floating-point quotient, is left out.

  The second half shows that the key arrays are never left, that data decrypts to what was encrypted
  under the same key, and what destroying a key and reading a buffer back do.
\<close>

section \<open>Constants and data\<close>

definition MAX_ENCRYPTION_SESSIONS :: nat where "MAX_ENCRYPTION_SESSIONS = 256"
definition MAX_KEY_SIZE :: nat where "MAX_KEY_SIZE = 256"
definition MAX_IV_SIZE :: nat where "MAX_IV_SIZE = 16"
definition MAX_ENCRYPTED_BUFFERS :: nat where "MAX_ENCRYPTED_BUFFERS = 1024"

datatype CipherType = CIPHER_AES_128 | CIPHER_AES_256 | CIPHER_RSA_2048 | CIPHER_RSA_4096 | CIPHER_CHACHA20 | CIPHER_3DES

datatype EncryptionMode = MODE_ECB | MODE_CBC | MODE_CTR | MODE_GCM | MODE_XTS

record EncryptionKey =
  xk_key :: "u8 list"
  xk_key_length :: u32
  xk_iv :: "u8 list"
  xk_iv_length :: u32
  xk_created_time :: u64
  xk_usage_count :: u32
  xk_is_active :: bool

record EncryptionSession =
  xs_session_id :: u32
  xs_cipher_type :: CipherType
  xs_mode :: EncryptionMode
  xs_key :: EncryptionKey
  xs_iv_key :: EncryptionKey
  xs_bytes_encrypted :: u64
  xs_bytes_decrypted :: u64
  xs_operation_count :: u32
  xs_is_active :: bool

record EncryptedBuffer =
  xb_buffer_id :: u32
  xb_encrypted_data :: "u8 list"
  xb_encrypted_length :: u32
  xb_plaintext_data :: "u8 list"
  xb_plaintext_length :: u32
  xb_session_id :: u32
  xb_cipher_type :: CipherType

record EncryptionEngine =
  xe_engine_id :: u32
  xe_sessions :: "EncryptionSession list"
  xe_buffers :: "EncryptedBuffer list"
  xe_total_bytes_encrypted :: u64
  xe_total_bytes_decrypted :: u64
  xe_total_operations :: u32

record EncryptionEngineMetrics =
  xm_engine_id :: u32
  xm_active_sessions :: u32
  xm_total_operations :: u32
  xm_total_bytes_encrypted :: u64
  xm_total_bytes_decrypted :: u64

type_synonym engine = "EncryptionEngine option"

section \<open>Sessions and keys\<close>

definition encryption_engine_init :: "bool \<Rightarrow> engine" where
  "encryption_engine_init malloc_ok =
     (if \<not> malloc_ok then None
      else Some \<lparr>xe_engine_id = 1, xe_sessions = [], xe_buffers = [], xe_total_bytes_encrypted = 0,
        xe_total_bytes_decrypted = 0, xe_total_operations = 0\<rparr>)"

definition encryption_engine_destroy :: "engine \<Rightarrow> engine \<times> int" where
  "encryption_engine_destroy h = (None, case h of None \<Rightarrow> -1 | Some e \<Rightarrow> 0)"

definition zero_key :: EncryptionKey where
  "zero_key = \<lparr>xk_key = replicate MAX_KEY_SIZE 0, xk_key_length = 0, xk_iv = replicate MAX_IV_SIZE 0, xk_iv_length = 0,
     xk_created_time = 0, xk_usage_count = 0, xk_is_active = False\<rparr>"

definition encryption_session_create :: "engine \<Rightarrow> u32 \<Rightarrow> CipherType \<Rightarrow> EncryptionMode \<Rightarrow> (engine \<times> u32) \<times> u32" where
  "encryption_session_create h next_session_id cipher mode =
     (case h of None \<Rightarrow> ((h, next_session_id), 0)
      | Some e \<Rightarrow>
          if length (xe_sessions e) \<ge> MAX_ENCRYPTION_SESSIONS then ((h, next_session_id), 0)
          else ((Some (e\<lparr>xe_sessions := xe_sessions e @ [\<lparr>xs_session_id = next_session_id, xs_cipher_type = cipher,
                    xs_mode = mode, xs_key = zero_key, xs_iv_key = zero_key, xs_bytes_encrypted = 0,
                    xs_bytes_decrypted = 0, xs_operation_count = 0, xs_is_active = True\<rparr>]\<rparr>),
                 next_session_id + 1), next_session_id))"

definition find_enc_session :: "u32 \<Rightarrow> EncryptionEngine \<Rightarrow> nat option" where
  "find_enc_session session_id e = id_idx xs_session_id session_id (xe_sessions e)"

definition set_enc_session :: "nat \<Rightarrow> EncryptionSession \<Rightarrow> EncryptionEngine \<Rightarrow> EncryptionEngine" where
  "set_enc_session i t e = e\<lparr>xe_sessions := (xe_sessions e)[i := t]\<rparr>"

definition encryption_session_destroy :: "engine \<Rightarrow> u32 \<Rightarrow> engine \<times> int" where
  "encryption_session_destroy h session_id = with_handle (-1) h (\<lambda>e.
     case find_enc_session session_id e of None \<Rightarrow> (e, -1)
     | Some i \<Rightarrow> (e\<lparr>xe_sessions := remove_at i (xe_sessions e)\<rparr>, 0))"

definition generated_key :: "nat \<Rightarrow> u8 list" where
  "generated_key n = map (\<lambda>j. ucast ((of_nat j * 17 + 42) mod 256 :: u32)) [0..<n]"

definition generated_iv :: "nat \<Rightarrow> u8 list" where
  "generated_iv n = map (\<lambda>j. ucast ((of_nat j * 19 + 73) mod 256 :: u32)) [0..<n]"

definition store_key :: "u8 list \<Rightarrow> u32 \<Rightarrow> EncryptionKey \<Rightarrow> EncryptionKey" where
  "store_key bs key_length k = k\<lparr>xk_key := bs @ drop (length bs) (xk_key k), xk_key_length := key_length, xk_created_time := 0,
     xk_usage_count := 0, xk_is_active := True\<rparr>"

definition store_iv :: "u8 list \<Rightarrow> u32 \<Rightarrow> EncryptionKey \<Rightarrow> EncryptionKey" where
  "store_iv bs iv_length k = k\<lparr>xk_iv := bs @ drop (length bs) (xk_iv k), xk_iv_length := iv_length, xk_is_active := True\<rparr>"

definition encryption_key_generate :: "engine \<Rightarrow> u32 \<Rightarrow> u32 \<Rightarrow> engine \<times> int" where
  "encryption_key_generate h session_id key_length = with_handle (-1) h (\<lambda>e.
     if unat key_length > MAX_KEY_SIZE then (e, -1)
     else case find_enc_session session_id e of None \<Rightarrow> (e, -1)
     | Some i \<Rightarrow>
         let t = xe_sessions e ! i
         in (set_enc_session i (t\<lparr>xs_key := store_key (generated_key (unat key_length)) key_length (xs_key t)\<rparr>) e, 0))"

definition encryption_key_import :: "engine \<Rightarrow> u32 \<Rightarrow> u8 list option \<Rightarrow> u32 \<Rightarrow> (engine \<times> int) outcome" where
  "encryption_key_import h session_id key key_length = with_handle_ub (-1) h (\<lambda>e.
     case key of None \<Rightarrow> Done (e, -1)
     | Some bs \<Rightarrow>
         if unat key_length > MAX_KEY_SIZE then Done (e, -1)
         else case find_enc_session session_id e of None \<Rightarrow> Done (e, -1)
         | Some i \<Rightarrow>
             if length bs < unat key_length then Undef
             else (let t = xe_sessions e ! i
                   in Done (set_enc_session i (t\<lparr>xs_key := store_key (take (unat key_length) bs) key_length (xs_key t)\<rparr>) e, 0)))"

definition encryption_iv_generate :: "engine \<Rightarrow> u32 \<Rightarrow> u32 \<Rightarrow> engine \<times> int" where
  "encryption_iv_generate h session_id iv_length = with_handle (-1) h (\<lambda>e.
     if unat iv_length > MAX_IV_SIZE then (e, -1)
     else case find_enc_session session_id e of None \<Rightarrow> (e, -1)
     | Some i \<Rightarrow>
         let t = xe_sessions e ! i
         in (set_enc_session i (t\<lparr>xs_iv_key := store_iv (generated_iv (unat iv_length)) iv_length (xs_iv_key t)\<rparr>) e, 0))"

definition encryption_iv_import :: "engine \<Rightarrow> u32 \<Rightarrow> u8 list option \<Rightarrow> u32 \<Rightarrow> (engine \<times> int) outcome" where
  "encryption_iv_import h session_id iv iv_length = with_handle_ub (-1) h (\<lambda>e.
     case iv of None \<Rightarrow> Done (e, -1)
     | Some bs \<Rightarrow>
         if unat iv_length > MAX_IV_SIZE then Done (e, -1)
         else case find_enc_session session_id e of None \<Rightarrow> Done (e, -1)
         | Some i \<Rightarrow>
             if length bs < unat iv_length then Undef
             else (let t = xe_sessions e ! i
                   in Done (set_enc_session i (t\<lparr>xs_iv_key := store_iv (take (unat iv_length) bs) iv_length (xs_iv_key t)\<rparr>) e, 0)))"

text \<open>The search goes on after a session whose key is not active; the result of the generation is ignored.\<close>

definition encryption_rotate_key :: "engine \<Rightarrow> u32 \<Rightarrow> engine \<times> int" where
  "encryption_rotate_key h session_id = with_handle (-1) h (\<lambda>e.
     if session_id = 0 then (e, -1)
     else case first_idx (\<lambda>t. xs_session_id t = session_id \<and> xk_is_active (xs_key t)) (xe_sessions e) of None \<Rightarrow> (e, -1)
     | Some i \<Rightarrow> (the (fst (encryption_key_generate (Some e) session_id (xk_key_length (xs_key (xe_sessions e ! i))))), 0))"

definition encryption_destroy_key :: "engine \<Rightarrow> u32 \<Rightarrow> engine \<times> int" where
  "encryption_destroy_key h session_id = with_handle (-1) h (\<lambda>e.
     case find_enc_session session_id e of None \<Rightarrow> (e, -1)
     | Some i \<Rightarrow>
         let t = xe_sessions e ! i
         in (set_enc_session i (t\<lparr>xs_key := (xs_key t)\<lparr>xk_key := replicate MAX_KEY_SIZE 0, xk_is_active := False\<rparr>\<rparr>) e, 0))"

section \<open>Data and buffers\<close>

text \<open>A key of length 0 is a division by zero.\<close>

definition key_pad :: "EncryptionKey \<Rightarrow> nat \<Rightarrow> u8 option" where
  "key_pad k j =
     (if xk_key_length k = 0 then None
      else let i = j mod unat (xk_key_length k) in if i < length (xk_key k) then Some (xk_key k ! i) else None)"

definition find_active :: "u32 \<Rightarrow> EncryptionEngine \<Rightarrow> nat option" where
  "find_active session_id e =
     (if session_id = 0 then None
      else first_idx (\<lambda>t. xs_session_id t = session_id \<and> xs_is_active t) (xe_sessions e))"

definition encryption_encrypt_data ::
    "engine \<Rightarrow> u32 \<Rightarrow> u8 list option \<Rightarrow> u32 \<Rightarrow> u8 list option \<Rightarrow> bool \<Rightarrow> (engine \<times> int \<times> (u8 list \<times> u32) option) outcome" where
  "encryption_encrypt_data h session_id plaintext plaintext_length ciphertext ciphertext_length = with_handle_ub (-1, None) h (\<lambda>e.
     case (plaintext, ciphertext) of
       (Some p, Some buf) \<Rightarrow>
         if \<not> ciphertext_length then Done (e, -1, None)
         else (case find_active session_id e of None \<Rightarrow> Done (e, -1, None)
         | Some i \<Rightarrow>
             let t = xe_sessions e ! i
             in (case xor_loop (key_pad (xs_key t)) p buf (unat plaintext_length) of Undef \<Rightarrow> Undef
              | Done c \<Rightarrow>
                  Done ((set_enc_session i (t\<lparr>xs_bytes_encrypted := xs_bytes_encrypted t + ucast plaintext_length,
                         xs_operation_count := xs_operation_count t + 1\<rparr>) e)
                       \<lparr>xe_total_bytes_encrypted := xe_total_bytes_encrypted e + ucast plaintext_length,
                        xe_total_operations := xe_total_operations e + 1\<rparr>,
                       0, Some (c, plaintext_length + 16))))
     | _ \<Rightarrow> Done (e, -1, None))"

definition encryption_decrypt_data ::
    "engine \<Rightarrow> u32 \<Rightarrow> u8 list option \<Rightarrow> u32 \<Rightarrow> u8 list option \<Rightarrow> bool \<Rightarrow> (engine \<times> int \<times> (u8 list \<times> u32) option) outcome" where
  "encryption_decrypt_data h session_id ciphertext ciphertext_length plaintext plaintext_length = with_handle_ub (-1, None) h (\<lambda>e.
     case (ciphertext, plaintext) of
       (Some c, Some buf) \<Rightarrow>
         if \<not> plaintext_length then Done (e, -1, None)
         else (case find_active session_id e of None \<Rightarrow> Done (e, -1, None)
         | Some i \<Rightarrow>
             let t = xe_sessions e ! i; n = ciphertext_length - 16
             in (case xor_loop (key_pad (xs_key t)) c buf (unat n) of Undef \<Rightarrow> Undef
              | Done p \<Rightarrow>
                  Done ((set_enc_session i (t\<lparr>xs_bytes_decrypted := xs_bytes_decrypted t + ucast n,
                         xs_operation_count := xs_operation_count t + 1\<rparr>) e)
                       \<lparr>xe_total_bytes_decrypted := xe_total_bytes_decrypted e + ucast n,
                        xe_total_operations := xe_total_operations e + 1\<rparr>, 0, Some (p, n))))
     | _ \<Rightarrow> Done (e, -1, None))"

text \<open>\<open>fresh\<close> is what the block for the encrypted data contains; its size wraps as the addition does.\<close>

definition encryption_encrypt_buffer_stream ::
    "engine \<Rightarrow> u32 \<Rightarrow> u32 \<Rightarrow> u8 list option \<Rightarrow> u32 \<Rightarrow> bool \<Rightarrow> bool \<Rightarrow> (nat \<Rightarrow> u8) \<Rightarrow> ((engine \<times> u32) \<times> int) outcome" where
  "encryption_encrypt_buffer_stream h next_buffer_id session_id data len malloc_plain malloc_encrypted fresh =
     (case (h, data) of
        (Some e, Some d) \<Rightarrow>
          if session_id = 0 \<or> length (xe_buffers e) \<ge> MAX_ENCRYPTED_BUFFERS then Done ((h, next_buffer_id), -1)
          else if \<not> malloc_plain then Done ((h, next_buffer_id + 1), -1)
          else if length d < unat len then Undef
          else if \<not> malloc_encrypted then Done ((h, next_buffer_id + 1), -1)
          else (case encryption_encrypt_data h session_id data len (Some (map fresh [0..<unat (len + 16)])) True of
                  Undef \<Rightarrow> Undef
                | Done (Some e1, r, Some (c, n)) \<Rightarrow>
                    Done ((Some (e1\<lparr>xe_buffers := xe_buffers e1 @ [\<lparr>xb_buffer_id = next_buffer_id, xb_encrypted_data = c,
                        xb_encrypted_length = n, xb_plaintext_data = take (unat len) d, xb_plaintext_length = len,
                        xb_session_id = session_id, xb_cipher_type = CIPHER_AES_128\<rparr>]\<rparr>), next_buffer_id + 1),
                      sint next_buffer_id)
                | Done (h1, _) \<Rightarrow> Done ((h1, next_buffer_id + 1), -1))
      | _ \<Rightarrow> Done ((h, next_buffer_id), -1))"

definition encryption_decrypt_buffer_stream :: "engine \<Rightarrow> u32 \<Rightarrow> bool \<Rightarrow> u32 option \<Rightarrow> int \<times> (u8 list \<times> u32) option" where
  "encryption_decrypt_buffer_stream h session_id data len = read_handle (-1, None) h (\<lambda>e.
     case len of None \<Rightarrow> (-1, None)
     | Some cap \<Rightarrow>
         if session_id = 0 \<or> \<not> data then (-1, None)
         else case first_idx (\<lambda>b. xb_session_id b = session_id) (xe_buffers e) of None \<Rightarrow> (-1, None)
         | Some i \<Rightarrow>
             let b = xe_buffers e ! i in
             if xb_plaintext_length b \<le> cap
             then (0, Some (take (unat (xb_plaintext_length b)) (xb_plaintext_data b), xb_plaintext_length b)) else (-1, None))"

text \<open>Shifting a 64-bit number by 64 or more, from the ninth byte on, is undefined.\<close>

definition hash_step :: "u64 \<Rightarrow> u8 \<Rightarrow> u64" where
  "hash_step hash_value b = (push_bit 5 hash_value + hash_value) + ucast b"

definition encryption_compute_hash :: "u8 list option \<Rightarrow> u32 \<Rightarrow> bool \<Rightarrow> u32 \<Rightarrow> (int \<times> u8 list) outcome" where
  "encryption_compute_hash data len hash hash_length =
     (case data of None \<Rightarrow> Done (-1, [])
      | Some d \<Rightarrow>
          if \<not> hash \<or> len = 0 \<or> hash_length = 0 then Done (-1, [])
          else if length d < unat len \<or> hash_length > 8 then Undef
          else (let hash_value = foldl hash_step 5381 (take (unat len) d)
                in Done (0, map (\<lambda>i. ucast (drop_bit (i * 8) hash_value mod 256)) [0..<unat hash_length])))"

definition encryption_engine_get_metrics :: "engine \<Rightarrow> bool \<Rightarrow> int \<times> EncryptionEngineMetrics option" where
  "encryption_engine_get_metrics h metrics = read_handle (-1, None) h (\<lambda>e.
     if \<not> metrics then (-1, None)
     else (0, Some \<lparr>xm_engine_id = xe_engine_id e,
        xm_active_sessions = foldl (\<lambda>a t. if xs_is_active t then a + 1 else a) 0 (xe_sessions e),
        xm_total_operations = xe_total_operations e, xm_total_bytes_encrypted = xe_total_bytes_encrypted e,
        xm_total_bytes_decrypted = xe_total_bytes_decrypted e\<rparr>))"

section \<open>Key arrays are never left\<close>

record engine_state =
  xz_engine :: EncryptionEngine
  xz_next_session :: u32
  xz_next_buffer :: u32

abbreviation xz_handle :: "engine_state \<Rightarrow> engine" where "xz_handle s \<equiv> Some (xz_engine s)"

definition engine_initial :: "engine_state \<Rightarrow> bool" where
  "engine_initial s \<longleftrightarrow> encryption_engine_init True = Some (xz_engine s)"

inductive engine_step :: "engine_state \<Rightarrow> engine_state \<Rightarrow> bool" where
  step_create: "encryption_session_create (xz_handle s) (xz_next_session s) c md = ((Some e, nx), r) \<Longrightarrow>
    engine_step s (s\<lparr>xz_engine := e, xz_next_session := nx\<rparr>)"
| step_destroy: "encryption_session_destroy (xz_handle s) k = (Some e, r) \<Longrightarrow> engine_step s (s\<lparr>xz_engine := e\<rparr>)"
| step_key_generate: "encryption_key_generate (xz_handle s) k n = (Some e, r) \<Longrightarrow> engine_step s (s\<lparr>xz_engine := e\<rparr>)"
| step_key_import: "encryption_key_import (xz_handle s) k d n = Done (Some e, r) \<Longrightarrow> engine_step s (s\<lparr>xz_engine := e\<rparr>)"
| step_iv_generate: "encryption_iv_generate (xz_handle s) k n = (Some e, r) \<Longrightarrow> engine_step s (s\<lparr>xz_engine := e\<rparr>)"
| step_iv_import: "encryption_iv_import (xz_handle s) k d n = Done (Some e, r) \<Longrightarrow> engine_step s (s\<lparr>xz_engine := e\<rparr>)"
| step_rotate: "encryption_rotate_key (xz_handle s) k = (Some e, r) \<Longrightarrow> engine_step s (s\<lparr>xz_engine := e\<rparr>)"
| step_destroy_key: "encryption_destroy_key (xz_handle s) k = (Some e, r) \<Longrightarrow> engine_step s (s\<lparr>xz_engine := e\<rparr>)"
| step_encrypt: "encryption_encrypt_data (xz_handle s) k p n b l = Done (Some e, r') \<Longrightarrow> engine_step s (s\<lparr>xz_engine := e\<rparr>)"
| step_decrypt: "encryption_decrypt_data (xz_handle s) k p n b l = Done (Some e, r') \<Longrightarrow> engine_step s (s\<lparr>xz_engine := e\<rparr>)"
| step_stream: "encryption_encrypt_buffer_stream (xz_handle s) (xz_next_buffer s) k d n m1 m2 f = Done ((Some e, nx), r) \<Longrightarrow>
    engine_step s (s\<lparr>xz_engine := e, xz_next_buffer := nx\<rparr>)"

definition key_ok :: "EncryptionKey \<Rightarrow> bool" where
  "key_ok k \<longleftrightarrow> length (xk_key k) = MAX_KEY_SIZE \<and> unat (xk_key_length k) \<le> MAX_KEY_SIZE \<and>
     length (xk_iv k) = MAX_IV_SIZE \<and> unat (xk_iv_length k) \<le> MAX_IV_SIZE"

definition enc_session_ok :: "EncryptionSession \<Rightarrow> bool" where
  "enc_session_ok t \<longleftrightarrow> key_ok (xs_key t) \<and> key_ok (xs_iv_key t) \<and> xs_is_active t"

definition buffer_ok :: "EncryptedBuffer \<Rightarrow> bool" where
  "buffer_ok b \<longleftrightarrow> unat (xb_plaintext_length b) = length (xb_plaintext_data b) \<and>
     unat (xb_encrypted_length b) = length (xb_encrypted_data b) \<and> length (xb_plaintext_data b) \<le> length (xb_encrypted_data b)"

definition engine_wf :: "EncryptionEngine \<Rightarrow> bool" where
  "engine_wf e \<longleftrightarrow> list_all enc_session_ok (xe_sessions e) \<and> list_all buffer_ok (xe_buffers e) \<and>
     length (xe_sessions e) \<le> MAX_ENCRYPTION_SESSIONS \<and> length (xe_buffers e) \<le> MAX_ENCRYPTED_BUFFERS"

lemma zero_key_ok: "key_ok zero_key"
  by (simp add: key_ok_def zero_key_def)

lemma store_key_ok:
  "key_ok k \<Longrightarrow> length bs = unat n \<Longrightarrow> unat n \<le> MAX_KEY_SIZE \<Longrightarrow> key_ok (store_key bs n k)"
  by (simp add: key_ok_def store_key_def)

lemma store_iv_ok:
  "key_ok k \<Longrightarrow> length bs = unat n \<Longrightarrow> unat n \<le> MAX_IV_SIZE \<Longrightarrow> key_ok (store_iv bs n k)"
  by (simp add: key_ok_def store_iv_def)

lemma length_generated_key [simp]: "length (generated_key n) = n" "length (generated_iv n) = n"
  by (simp_all add: generated_key_def generated_iv_def)

lemma find_activeD:
  assumes "find_active k e = Some i"
  shows "i < length (xe_sessions e)" and "xs_is_active (xe_sessions e ! i)" and "xs_session_id (xe_sessions e ! i) = k"
  using assms first_idx_SomeD by (fastforce simp: find_active_def split: if_splits)+

lemma found_enc_session_ok:
  assumes "engine_wf e"
  shows "find_enc_session k e = Some i \<Longrightarrow> enc_session_ok (xe_sessions e ! i)"
    and "find_active k e = Some i \<Longrightarrow> enc_session_ok (xe_sessions e ! i)"
  using assms id_idxD [of xs_session_id k "xe_sessions e" i] find_activeD(1) [of k e i]
  by (auto simp: engine_wf_def find_enc_session_def list_all_length)

lemma key_generate_wf:
  assumes "engine_wf e" and "encryption_key_generate (Some e) k n = (Some e', r)"
  shows "engine_wf e'"
  using assms found_enc_session_ok(1) [OF assms(1)]
  by (auto simp: encryption_key_generate_def set_enc_session_def engine_wf_def Let_def enc_session_ok_def
      intro!: list_all_update store_key_ok split: option.splits if_splits)

lemma key_import_wf:
  assumes "engine_wf e" and "encryption_key_import (Some e) k d n = Done (Some e', r)"
  shows "engine_wf e'"
  using assms found_enc_session_ok(1) [OF assms(1)]
  by (auto simp: encryption_key_import_def set_enc_session_def engine_wf_def Let_def enc_session_ok_def
      intro!: list_all_update store_key_ok split: option.splits if_splits)

lemma iv_wf:
  assumes "engine_wf e"
  shows "encryption_iv_generate (Some e) k n = (Some e', r) \<Longrightarrow> engine_wf e'"
    and "encryption_iv_import (Some e) k d n = Done (Some e', r) \<Longrightarrow> engine_wf e'"
  using assms found_enc_session_ok(1) [OF assms]
  by (auto simp: encryption_iv_generate_def encryption_iv_import_def set_enc_session_def engine_wf_def Let_def enc_session_ok_def
      intro!: list_all_update store_iv_ok split: option.splits if_splits)

lemma destroy_key_wf:
  assumes "engine_wf e" and "encryption_destroy_key (Some e) k = (Some e', r)"
  shows "engine_wf e'"
  using assms found_enc_session_ok(1) [OF assms(1)]
  by (auto simp: encryption_destroy_key_def set_enc_session_def engine_wf_def Let_def enc_session_ok_def key_ok_def
      intro!: list_all_update split: option.splits)

lemma rotate_key_wf:
  assumes "engine_wf e" and "encryption_rotate_key (Some e) k = (Some e', r)"
  shows "engine_wf e'"
proof -
  have "engine_wf (the (fst (encryption_key_generate (Some e) k n)))" for n
  proof -
    obtain e1 r1 where "encryption_key_generate (Some e) k n = (Some e1, r1)"
      by (auto simp: encryption_key_generate_def with_handle_Some)
    with key_generate_wf [OF assms(1) this] show ?thesis by simp
  qed
  with assms show ?thesis by (auto simp: encryption_rotate_key_def split: option.splits if_splits)
qed

lemma data_wf:
  assumes "engine_wf e"
  shows "encryption_encrypt_data (Some e) k p n b l = Done (Some e', x) \<Longrightarrow> engine_wf e'"
    and "encryption_decrypt_data (Some e) k p n b l = Done (Some e', x) \<Longrightarrow> engine_wf e'"
  using assms found_enc_session_ok(2) [OF assms]
  by (auto simp: encryption_encrypt_data_def encryption_decrypt_data_def set_enc_session_def engine_wf_def Let_def enc_session_ok_def
      intro!: list_all_update split: option.splits if_splits outcome.splits)

lemma encrypt_data_result:
  assumes "encryption_encrypt_data (Some e) k (Some p) n (Some buf) True = Done (h, r, Some (c, m))"
  shows "unat n \<le> length p" and "unat n \<le> length buf" and "length c = length buf" and "m = n + 16"
  using assms
  by (auto simp: encryption_encrypt_data_def with_handle_ub_def Let_def xor_loop_eq split: option.splits if_splits outcome.splits)

lemma stream_wf:
  assumes "engine_wf e" and "encryption_encrypt_buffer_stream (Some e) nx k d n m1 m2 f = Done ((Some e', nx'), r)"
  shows "engine_wf e'"
proof -
  consider "e' = e" | bs e1 r1 c m where "d = Some bs" "unat n \<le> length bs" "length (xe_buffers e) < MAX_ENCRYPTED_BUFFERS"
      "encryption_encrypt_data (Some e) k (Some bs) n (Some (map f [0..<unat (n + 16)])) True = Done (Some e1, r1, Some (c, m))"
      "e' = e1\<lparr>xe_buffers := xe_buffers e1 @ [\<lparr>xb_buffer_id = nx, xb_encrypted_data = c, xb_encrypted_length = m,
        xb_plaintext_data = take (unat n) bs, xb_plaintext_length = n, xb_session_id = k, xb_cipher_type = CIPHER_AES_128\<rparr>]\<rparr>"
    | bs r1 where "encryption_encrypt_data (Some e) k (Some bs) n (Some (map f [0..<unat (n + 16)])) True = Done (Some e', r1, None)"
    using assms(2)
    by (auto simp: encryption_encrypt_buffer_stream_def split: option.splits if_splits outcome.splits)
  then show ?thesis
  proof cases
    case 2
    note c = encrypt_data_result [OF 2(4)]
    have "xe_buffers e1 = xe_buffers e" using 2(4)
      by (auto simp: encryption_encrypt_data_def set_enc_session_def Let_def split: option.splits if_splits outcome.splits)
    with data_wf(1) [OF assms(1) 2(4)] 2 c show ?thesis by (simp add: engine_wf_def buffer_ok_def)
  qed (use assms(1) data_wf(1) in auto)
qed

lemma engine_step_wf:
  assumes "engine_step s s'" and "engine_wf (xz_engine s)"
  shows "engine_wf (xz_engine s')"
  using assms(1)
proof (cases rule: engine_step.cases)
  case (step_create c md e nx r)
  then show ?thesis using assms(2)
    by (auto simp: encryption_session_create_def engine_wf_def enc_session_ok_def zero_key_ok split: if_splits)
next
  case (step_destroy k e r)
  then show ?thesis using assms(2)
    by (auto simp: encryption_session_destroy_def engine_wf_def find_enc_session_def list_all_remove_at length_remove_at
        dest: id_idxD split: option.splits)
qed (auto dest: key_generate_wf [OF assms(2)] key_import_wf [OF assms(2)] iv_wf [OF assms(2)] rotate_key_wf [OF assms(2)]
    destroy_key_wf [OF assms(2)] data_wf [OF assms(2)] stream_wf [OF assms(2)])

interpretation engine_states: invariant_system engine_initial engine_step "\<lambda>s. engine_wf (xz_engine s)"
proof
  show "engine_wf (xz_engine s)" if "engine_initial s" for s
  proof -
    from that have "xz_engine s = the (encryption_engine_init True)" by (simp add: engine_initial_def)
    then show ?thesis by (simp add: engine_wf_def encryption_engine_init_def)
  qed
qed (rule engine_step_wf)

section \<open>Data\<close>

definition engine_pad :: "EncryptionEngine \<Rightarrow> u32 \<Rightarrow> (nat \<Rightarrow> u8 option) option" where
  "engine_pad e k = map_option (\<lambda>i. key_pad (xs_key (xe_sessions e ! i))) (find_active k e)"

definition the_engine :: "(engine \<times> 'r) outcome \<Rightarrow> (EncryptionEngine \<times> 'r) outcome" where
  "the_engine x = (case x of Undef \<Rightarrow> Undef | Done (h, r) \<Rightarrow> Done (the h, r))"

lemma the_engine_Done: "the_engine x = Done (e, r) \<Longrightarrow> \<exists>h. x = Done (h, r)"
  by (auto simp: the_engine_def split: outcome.splits)

definition engine_enc :: "EncryptionEngine record_op" where
  "engine_enc e k inp n out = the_engine (encryption_encrypt_data (Some e) k (Some inp) n (Some out) True)"

definition engine_dec :: "EncryptionEngine record_op" where
  "engine_dec e k inp n out = the_engine (encryption_decrypt_data (Some e) k (Some inp) n (Some out) True)"

lemma same_sessions_engine_pad:
  assumes "i < length (xe_sessions e)" and "xe_sessions e' = (xe_sessions e)[i := f (xe_sessions e ! i)]"
    and "\<And>t. xs_session_id (f t) = xs_session_id t \<and> xs_is_active (f t) = xs_is_active t \<and> xs_key (f t) = xs_key t"
  shows "engine_pad e' = engine_pad e"
proof
  fix k
  have "find_active k e' = find_active k e"
    using assms by (simp add: find_active_def first_idx_update_same)
  moreover have "xs_key (xe_sessions e' ! j) = xs_key (xe_sessions e ! j)" for j
    using assms by (cases "j = i") simp_all
  ultimately show "engine_pad e' k = engine_pad e k" by (simp add: engine_pad_def)
qed

interpretation engine_records: record_layer engine_pad engine_enc engine_dec
proof
  fix e k inp n out
  assume "engine_pad e k = None"
  then show "engine_enc e k inp n out = Done (e, -1, None)" and "engine_dec e k inp n out = Done (e, -1, None)"
    by (simp_all add: engine_pad_def engine_enc_def engine_dec_def the_engine_def encryption_encrypt_data_def encryption_decrypt_data_def
        with_handle_ub_def)
next
  fix e k f inp out and n :: u32
  assume "engine_pad e k = Some f"
  then obtain i where i: "find_active k e = Some i" and f: "f = key_pad (xs_key (xe_sessions e ! i))" by (auto simp: engine_pad_def)
  note len = find_activeD(1) [OF i]
  let ?t = "xe_sessions e ! i"
  let ?c = "(set_enc_session i (?t\<lparr>xs_bytes_encrypted := xs_bytes_encrypted ?t + ucast n, xs_operation_count := xs_operation_count ?t + 1\<rparr>) e)
      \<lparr>xe_total_bytes_encrypted := xe_total_bytes_encrypted e + ucast n, xe_total_operations := xe_total_operations e + 1\<rparr>"
  let ?d = "(set_enc_session i (?t\<lparr>xs_bytes_decrypted := xs_bytes_decrypted ?t + ucast (n - 16), xs_operation_count := xs_operation_count ?t + 1\<rparr>) e)
      \<lparr>xe_total_bytes_decrypted := xe_total_bytes_decrypted e + ucast (n - 16), xe_total_operations := xe_total_operations e + 1\<rparr>"
  have "engine_pad ?c = engine_pad e"
    by (rule same_sessions_engine_pad [OF len, where f = "\<lambda>t. t\<lparr>xs_bytes_encrypted := xs_bytes_encrypted t + ucast n,
        xs_operation_count := xs_operation_count t + 1\<rparr>"]) (simp_all add: set_enc_session_def)
  then show "\<exists>s'. engine_pad s' = engine_pad e \<and> engine_enc e k inp n out =
      (case xor_loop f inp out (unat n) of Undef \<Rightarrow> Undef | Done b \<Rightarrow> Done (s', 0, Some (b, n + 16)))"
    using i f by (intro exI [of _ ?c])
      (simp add: engine_enc_def the_engine_def encryption_encrypt_data_def with_handle_ub_def Let_def split: outcome.split)
  have "engine_pad ?d = engine_pad e"
    by (rule same_sessions_engine_pad [OF len, where f = "\<lambda>t. t\<lparr>xs_bytes_decrypted := xs_bytes_decrypted t + ucast (n - 16),
        xs_operation_count := xs_operation_count t + 1\<rparr>"]) (simp_all add: set_enc_session_def)
  then show "\<exists>s'. engine_pad s' = engine_pad e \<and> engine_dec e k inp n out =
      (case xor_loop f inp out (unat (n - 16)) of Undef \<Rightarrow> Undef | Done b \<Rightarrow> Done (s', 0, Some (b, n - 16)))"
    using i f by (intro exI [of _ ?d])
      (simp add: engine_dec_def the_engine_def encryption_decrypt_data_def with_handle_ub_def Let_def split: outcome.split)
qed

lemma key_pad_defined:
  assumes "key_ok k" and "xk_key_length k \<noteq> 0"
  shows "pad_defined (key_pad k) n"
proof -
  have "0 < unat (xk_key_length k)" using assms(2) by (simp add: unat_gt_0)
  then have "j mod unat (xk_key_length k) < length (xk_key k)" for j
    using assms(1) less_le_trans [OF mod_less_divisor [of "unat (xk_key_length k)" j]] by (simp add: key_ok_def)
  with assms(2) show ?thesis by (simp add: pad_defined_def key_pad_def Let_def)
qed

text \<open>Without a key there is no pad: encrypting anything but the empty text divides by zero.\<close>

lemma encryption_without_key_undefined:
  assumes "find_active k e = Some i" and "xk_key_length (xs_key (xe_sessions e ! i)) = 0" and "n \<noteq> 0"
  shows "encryption_encrypt_data (Some e) k (Some p) n (Some out) True = Undef"
proof -
  have "\<not> pad_defined (key_pad (xs_key (xe_sessions e ! i))) (unat n)"
    using assms(2,3) by (auto simp: pad_defined_def key_pad_def unat_gt_0 intro!: exI [of _ 0])
  with assms(1) show ?thesis by (simp add: encryption_encrypt_data_def with_handle_ub_def Let_def xor_loop_eq)
qed

section \<open>Destroyed keys and kept texts\<close>

lemma find_active_wf: "engine_wf e \<Longrightarrow> find_active k e = find_enc_session k e"
proof -
  assume "engine_wf e"
  then have "\<And>t. t \<in> set (xe_sessions e) \<Longrightarrow> xs_is_active t" by (auto simp: engine_wf_def list_all_iff enc_session_ok_def)
  then have "first_idx (\<lambda>t. xs_session_id t = k \<and> xs_is_active t) xs = first_idx (\<lambda>t. xs_session_id t = k) xs"
    if "set xs \<subseteq> set (xe_sessions e)" for xs
    using that by (induction xs) auto
  then show ?thesis by (simp add: find_active_def find_enc_session_def id_idx_def)
qed

lemma xor_with_zero: "(\<And>j. j < length xs \<Longrightarrow> pad j = Some 0) \<Longrightarrow> xor_with pad xs = xs"
  by (rule nth_equalityI) (simp_all add: xor_with_def)

lemma destroyed_key_pad:
  assumes "engine_wf e" and "find_enc_session k e = Some i" and "xk_key_length (xs_key (xe_sessions e ! i)) \<noteq> 0"
    and "encryption_destroy_key (Some e) k = (Some e', r)"
  shows "\<exists>f. engine_pad e' k = Some f \<and> (\<forall>j. f j = Some 0)"
proof -
  let ?t = "xe_sessions e ! i"
  have i: "i < length (xe_sessions e)" using assms(2) id_idxD [of xs_session_id k "xe_sessions e" i] by (simp add: find_enc_session_def)
  let ?z = "(xs_key ?t)\<lparr>xk_key := replicate MAX_KEY_SIZE 0, xk_is_active := False\<rparr>"
  have e': "xe_sessions e' = (xe_sessions e)[i := ?t\<lparr>xs_key := ?z\<rparr>]"
    using assms(2,4) by (auto simp: encryption_destroy_key_def set_enc_session_def Let_def)
  have "find_active k e' = find_active k e"
    using i e' first_idx_update_same [of "xe_sessions e" "\<lambda>t. xs_session_id t = k \<and> xs_is_active t"
      "\<lambda>t. t\<lparr>xs_key := (xs_key t)\<lparr>xk_key := replicate MAX_KEY_SIZE 0, xk_is_active := False\<rparr>\<rparr>" i]
    by (simp add: find_active_def)
  then have pad: "engine_pad e' k = Some (key_pad ?z)" using assms(1,2) e' i find_active_wf by (simp add: engine_pad_def)
  have "key_ok ?z" using found_enc_session_ok(1) [OF assms(1,2)] by (simp add: enc_session_ok_def key_ok_def)
  have zero: "key_pad ?z j = Some 0" for j
  proof -
    have "key_pad ?z j \<noteq> None" using key_pad_defined [OF \<open>key_ok ?z\<close>, of "Suc j"] assms(3) by (auto simp: pad_defined_def)
    then show ?thesis by (auto simp: key_pad_def Let_def split: if_splits)
  qed
  with pad show ?thesis by blast
qed

text \<open>Reading a buffer back gives the first text kept for the session, whatever was encrypted since.\<close>

lemma encryption_stream_returns_first:
  assumes "first_idx (\<lambda>b. xb_session_id b = k) (xe_buffers e) = Some i"
    and "encryption_encrypt_buffer_stream (Some e) nx k (Some d) n m1 m2 f = Done ((Some e', nx'), r)"
  shows "encryption_decrypt_buffer_stream (Some e') k dp cap = encryption_decrypt_buffer_stream (Some e) k dp cap"
proof -
  have same: "xe_buffers e1 = xe_buffers e"
    if "encryption_encrypt_data (Some e) k (Some d) n b True = Done (Some e1, x)" for b e1 x
    using that by (auto simp: encryption_encrypt_data_def set_enc_session_def Let_def split: option.splits if_splits outcome.splits)
  obtain bs where "xe_buffers e' = xe_buffers e @ bs"
    using assms(2) same by (fastforce simp: encryption_encrypt_buffer_stream_def split: option.splits if_splits outcome.splits)
  with assms(1) first_idx_SomeD(1) [OF assms(1)] show ?thesis
    by (auto simp: encryption_decrypt_buffer_stream_def first_idx_append nth_append Let_def split: option.split)
qed

section \<open>Main theorems\<close>

definition engine_start :: engine_state where
  "engine_start = \<lparr>xz_engine = the (encryption_engine_init True), xz_next_session = 1, xz_next_buffer = 1\<rparr>"

definition engine_one :: engine_state where
  "engine_one = engine_start\<lparr>xz_engine := the (fst (fst (encryption_session_create (xz_handle engine_start) 1 CIPHER_CHACHA20 MODE_CTR))),
     xz_next_session := 2\<rparr>"

definition engine_keyed :: engine_state where
  "engine_keyed = engine_one\<lparr>xz_engine := the (fst (encryption_key_generate (xz_handle engine_one) 1 2))\<rparr>"

lemmas engine_eval = engine_keyed_def engine_one_def engine_start_def encryption_engine_init_def encryption_session_create_def
  encryption_key_generate_def find_enc_session_def id_idx_def set_enc_session_def MAX_ENCRYPTION_SESSIONS_def MAX_KEY_SIZE_def
  store_key_def zero_key_def Let_def

lemma engine_keyed_reached: "reach engine_initial engine_step engine_keyed"
proof -
  have "reach engine_initial engine_step engine_start"
    by (rule reach.reach_init) (simp add: engine_initial_def engine_start_def encryption_engine_init_def)
  moreover have "engine_step engine_start engine_one"
    unfolding engine_one_def by (rule engine_step.step_create [of _ CIPHER_CHACHA20 MODE_CTR _ 2 1]) (simp add: engine_eval)
  moreover have "engine_step engine_one engine_keyed"
    unfolding engine_keyed_def by (rule engine_step.step_key_generate [of _ 1 2 _ 0]) (simp add: engine_eval)
  ultimately show ?thesis by (blast intro: reach.reach_step)
qed

text \<open>
  Claim C14. Encryption and decryption. In every reachable engine, data that an active session with a key
  encrypts is decrypted to the same bytes and length by any session of any reachable engine with the
  same key, whatever the cipher and the mode of the two sessions are.
\<close>

theorem encryption_roundtrip:
  assumes "reach engine_initial engine_step s" and "find_active k (xz_engine s) = Some i" and "find_active j (xz_engine s') = Some i'"
    and "xs_key (xe_sessions (xz_engine s) ! i) = key" and "xs_key (xe_sessions (xz_engine s') ! i') = key" and "xk_key_length key \<noteq> 0"
    and "length p < 4294967296" and "length p \<le> length out" and "length p \<le> length out'"
  shows "\<exists>h c h'. encryption_encrypt_data (xz_handle s) k (Some p) (of_nat (length p)) (Some out) True =
        Done (h, 0, Some (c, of_nat (length p) + 16)) \<and>
      encryption_decrypt_data (xz_handle s') j (Some c) (of_nat (length p) + 16) (Some out') True =
        Done (h', 0, Some (p @ drop (length p) out', of_nat (length p)))"
proof -
  have pads: "engine_pad (xz_engine s) k = Some (key_pad key)" "engine_pad (xz_engine s') j = Some (key_pad key)"
    using assms(2-5) by (simp_all add: engine_pad_def)
  have "key_ok key" using found_enc_session_ok(2) [OF engine_states.inv_reachable [OF assms(1)] assms(2)] assms(4)
    by (simp add: enc_session_ok_def)
  note trip = engine_records.round_trip [OF pads key_pad_defined [OF this assms(6)] assms(7-9)]
  obtain e c where e: "engine_enc (xz_engine s) k p (of_nat (length p)) out = Done (e, 0, Some (c, of_nat (length p) + 16))"
    by (rule trip [of "[]"])
  have "\<exists>e'. engine_dec (xz_engine s') j (take (length p) c @ tag) (of_nat (length p) + 16) out' =
      Done (e', 0, Some (p @ drop (length p) out', of_nat (length p)))" for tag
    by (rule trip [of tag]) (use e in auto)
  from this [of "drop (length p) c"] the_engine_Done [OF e [unfolded engine_enc_def]] show ?thesis
    unfolding engine_dec_def by (simp only: append_take_drop_id) (blast dest: the_engine_Done)
qed

theorem encryption_roundtrip_witness:
  "\<exists>h c h'. encryption_encrypt_data (xz_handle engine_keyed) 1 (Some [65, 66, 67]) 3 (Some [0, 0, 0]) True = Done (h, 0, Some (c, 19)) \<and>
     encryption_decrypt_data (xz_handle engine_keyed) 1 (Some c) 19 (Some [0, 0, 0]) True = Done (h', 0, Some ([65, 66, 67], 3))"
proof -
  have a: "find_active 1 (xz_engine engine_keyed) = Some 0" by (simp add: engine_eval find_active_def)
  have k: "xk_key_length (xs_key (xe_sessions (xz_engine engine_keyed) ! 0)) \<noteq> 0" by (simp add: engine_eval)
  from encryption_roundtrip [OF engine_keyed_reached a a refl refl k, of "[65, 66, 67]" "[0, 0, 0]" "[0, 0, 0]"]
  show ?thesis by simp
qed

text \<open>
  Destroying a key. In every reachable engine, after the key of a session was destroyed the
  session still accepts data, reports success and writes the text itself as the record: destroying
  the key turns encryption off.
\<close>

lemma encryption_after_destroy_is_plaintext:
  assumes "reach engine_initial engine_step s" and "find_enc_session k (xz_engine s) = Some i"
    and "xk_key_length (xs_key (xe_sessions (xz_engine s) ! i)) \<noteq> 0"
    and "encryption_destroy_key (xz_handle s) k = (Some e, r)" and "length p < 4294967296" and "length p \<le> length out"
  shows "r = 0 \<and> (\<exists>h. encryption_encrypt_data (Some e) k (Some p) (of_nat (length p)) (Some out) True =
      Done (h, 0, Some (p @ drop (length p) out, of_nat (length p) + 16)))"
proof -
  obtain f where f: "engine_pad e k = Some f" "\<forall>j. f j = Some 0"
    using destroyed_key_pad [OF engine_states.inv_reachable [OF assms(1)] assms(2-4)] by blast
  have n: "unat (of_nat (length p) :: u32) = length p" using assms(5) by (rule unat_of_nat_u32)
  have "pad_defined f (unat (of_nat (length p) :: u32))" using f(2) by (simp add: pad_defined_def)
  from engine_records.enc_defined [OF f(1) this, of p out] n assms(6) xor_with_zero [of p f] f(2)
  obtain e1 where "engine_enc e k p (of_nat (length p)) out = Done (e1, 0, Some (p @ drop (length p) out, of_nat (length p) + 16))"
    by auto
  from the_engine_Done [OF this [unfolded engine_enc_def]] assms(2,4) show ?thesis by (auto simp: encryption_destroy_key_def Let_def)
qed

lemma encryption_after_destroy_is_plaintext_witness:
  "\<exists>h. encryption_encrypt_data (fst (encryption_destroy_key (xz_handle engine_keyed) 1)) 1 (Some [65, 66]) 2 (Some [0, 0]) True =
     Done (h, 0, Some ([65, 66], 18))"
proof -
  have a: "find_enc_session 1 (xz_engine engine_keyed) = Some 0" by (simp add: engine_eval)
  have k: "xk_key_length (xs_key (xe_sessions (xz_engine engine_keyed) ! 0)) \<noteq> 0" by (simp add: engine_eval)
  obtain e r where d: "encryption_destroy_key (xz_handle engine_keyed) 1 = (Some e, r)"
    by (auto simp: encryption_destroy_key_def with_handle_Some)
  from encryption_after_destroy_is_plaintext [OF engine_keyed_reached a k d, of "[65, 66]" "[0, 0]"] show ?thesis by (simp add: d)
qed

end
