(* ===== verification/CPU_Scheduler.thy ===== *)
theory CPU_Scheduler
  imports Table_Multisets
begin

text \<open>
  The CPU scheduler of \<open>src/resource-scheduling/cpu_scheduler.c\<close>: one run queue per CPU, with copies of the
  entries of a table of threads; selection by policy, migration and loads. The averages of the metrics,
  floating-point quotients, are left out.

  The second half shows what selection chooses, that the loads are the lengths of the queues, and that
  migration neither loses nor duplicates a thread.
\<close>

section \<open>Constants and data\<close>

definition MAX_SCHEDULABLE_THREADS :: nat where "MAX_SCHEDULABLE_THREADS = 4096"
definition MAX_RUNQUEUES :: nat where "MAX_RUNQUEUES = 256"

datatype SchedulingPolicy =
  SCHED_POLICY_FIFO | SCHED_POLICY_ROUND_ROBIN | SCHED_POLICY_CFS | SCHED_POLICY_RT | SCHED_POLICY_DEADLINE

datatype ThreadState =
  THREAD_STATE_RUNNABLE | THREAD_STATE_RUNNING | THREAD_STATE_WAITING | THREAD_STATE_BLOCKED | THREAD_STATE_SLEEPING

record ScheduleEntry =
  sy_thread_id :: u32
  sy_process_id :: u32
  sy_priority :: int
  sy_state :: ThreadState
  sy_cpu_time_ns :: u64
  sy_vruntime_ns :: u64
  sy_time_slice_ms :: u32
  sy_cpu_affinity :: u32
  sy_context_switches :: u32
  sy_total_schedules :: u32

record RunQueue =
  sq_cpu_id :: u32
  sq_load :: u32
  sq_queue :: "ScheduleEntry list"
  sq_total_context_switches :: u64
  sq_idle_time_ns :: u64
  sq_active_time_ns :: u64

record SchedulerDomain =
  sd_domain_id :: u32
  sd_cpus :: "u32 list"
  sd_load_balance_interval_ms :: u32
  sd_last_balance_time :: u64

record CPUScheduler =
  sv_scheduler_id :: u32
  sv_policy :: SchedulingPolicy
  sv_runqueues :: "RunQueue list"
  sv_threads :: "ScheduleEntry list"
  sv_domains :: "SchedulerDomain list"
  sv_total_threads_scheduled :: u32
  sv_total_migrations :: u32
  sv_load_balancing_operations :: u32

record CPUSchedulerMetrics =
  sw_scheduler_id :: u32
  sw_total_threads :: u32
  sw_runnable_threads :: u32
  sw_running_threads :: u32
  sw_sleeping_threads :: u32
  sw_total_migrations :: u32

type_synonym cpu_sched = "CPUScheduler option"

section \<open>Run queues\<close>

definition cpu_scheduler_add_runqueue :: "cpu_sched \<Rightarrow> u32 \<Rightarrow> cpu_sched \<times> int" where
  "cpu_scheduler_add_runqueue h cpu_id = with_handle (-1) h (\<lambda>s.
     if length (sv_runqueues s) \<ge> MAX_RUNQUEUES then (s, -1)
     else (s\<lparr>sv_runqueues := sv_runqueues s @ [\<lparr>sq_cpu_id = cpu_id, sq_load = 0, sq_queue = [],
             sq_total_context_switches = 0, sq_idle_time_ns = 0, sq_active_time_ns = 0\<rparr>]\<rparr>, 0))"

definition cpu_scheduler_init :: "SchedulingPolicy \<Rightarrow> u32 \<Rightarrow> bool \<Rightarrow> cpu_sched" where
  "cpu_scheduler_init policy cpu_count malloc_ok =
     (if \<not> malloc_ok then None
      else foldl (\<lambda>h i. fst (cpu_scheduler_add_runqueue h (of_nat i)))
        (Some \<lparr>sv_scheduler_id = 1, sv_policy = policy, sv_runqueues = [], sv_threads = [], sv_domains = [],
          sv_total_threads_scheduled = 0, sv_total_migrations = 0, sv_load_balancing_operations = 0\<rparr>)
        [0..<min (unat cpu_count) MAX_RUNQUEUES])"

definition cpu_scheduler_destroy :: "cpu_sched \<Rightarrow> cpu_sched \<times> int" where
  "cpu_scheduler_destroy h = (None, case h of None \<Rightarrow> -1 | Some s \<Rightarrow> 0)"

text \<open>A CPU is addressed by the index of its queue.\<close>

definition set_runqueue :: "nat \<Rightarrow> RunQueue \<Rightarrow> CPUScheduler \<Rightarrow> CPUScheduler" where
  "set_runqueue i q s = s\<lparr>sv_runqueues := (sv_runqueues s)[i := q]\<rparr>"

definition cpu_scheduler_remove_runqueue :: "cpu_sched \<Rightarrow> u32 \<Rightarrow> cpu_sched \<times> int" where
  "cpu_scheduler_remove_runqueue h cpu_id = with_handle (-1) h (\<lambda>s.
     if unat cpu_id \<ge> length (sv_runqueues s) then (s, -1)
     else (s\<lparr>sv_runqueues := remove_at (unat cpu_id) (sv_runqueues s)\<rparr>, 0))"

definition push_entry :: "ScheduleEntry \<Rightarrow> RunQueue \<Rightarrow> RunQueue" where
  "push_entry e q = q\<lparr>sq_queue := sq_queue q @ [e], sq_load := sq_load q + 1\<rparr>"

text \<open>Without a run queue the remainder divides by zero.\<close>

definition cpu_scheduler_enqueue_thread ::
    "cpu_sched \<Rightarrow> u32 \<Rightarrow> u32 \<Rightarrow> int \<Rightarrow> u32 \<Rightarrow> (cpu_sched \<times> u32) outcome" where
  "cpu_scheduler_enqueue_thread h thread_id process_id priority cpu_affinity = with_handle_ub 0 h (\<lambda>s.
     if length (sv_threads s) \<ge> MAX_SCHEDULABLE_THREADS then Done (s, 0)
     else if sv_runqueues s = [] then Undef
     else
       let entry = \<lparr>sy_thread_id = thread_id, sy_process_id = process_id, sy_priority = priority,
             sy_state = THREAD_STATE_RUNNABLE, sy_cpu_time_ns = 0, sy_vruntime_ns = 0, sy_time_slice_ms = 10,
             sy_cpu_affinity = cpu_affinity, sy_context_switches = 0, sy_total_schedules = 0\<rparr>;
           s1 = s\<lparr>sv_threads := sv_threads s @ [entry], sv_total_threads_scheduled := sv_total_threads_scheduled s + 1\<rparr>;
           target_cpu = unat (cpu_affinity mod of_nat (length (sv_runqueues s)));
           q = sv_runqueues s1 ! target_cpu
       in if target_cpu < length (sv_runqueues s1) \<and> length (sq_queue q) < MAX_SCHEDULABLE_THREADS
          then Done (set_runqueue target_cpu (push_entry entry q) s1, thread_id) else Done (s1, thread_id))"

definition find_entry :: "u32 \<Rightarrow> RunQueue \<Rightarrow> nat option" where
  "find_entry thread_id q = first_idx (\<lambda>e. sy_thread_id e = thread_id) (sq_queue q)"

definition cpu_scheduler_dequeue_thread :: "cpu_sched \<Rightarrow> u32 \<Rightarrow> u32 \<Rightarrow> cpu_sched \<times> int" where
  "cpu_scheduler_dequeue_thread h cpu_id thread_id = with_handle (-1) h (\<lambda>s.
     if unat cpu_id \<ge> length (sv_runqueues s) \<or> thread_id = 0 then (s, -1)
     else
       let q = sv_runqueues s ! unat cpu_id in
       (case find_entry thread_id q of None \<Rightarrow> (s, -1)
        | Some i \<Rightarrow> (set_runqueue (unat cpu_id) (q\<lparr>sq_queue := remove_at i (sq_queue q), sq_load := sq_load q - 1\<rparr>) s, 0)))"

text \<open>
  The scanning loops: the index of the best value so far, a later one only when it is strictly better.
\<close>

fun scan_best :: "('v \<Rightarrow> 'v \<Rightarrow> bool) \<Rightarrow> nat \<Rightarrow> 'v \<Rightarrow> nat \<Rightarrow> 'v list \<Rightarrow> nat" where
  "scan_best better best v i [] = best"
| "scan_best better best v i (x # xs) =
     (if better x v then scan_best better i x (Suc i) xs else scan_best better best v (Suc i) xs)"

definition cpu_scheduler_select_next_thread :: "cpu_sched \<Rightarrow> u32 \<Rightarrow> u32" where
  "cpu_scheduler_select_next_thread h cpu_id = read_handle 0 h (\<lambda>s.
     if unat cpu_id \<ge> length (sv_runqueues s) then 0
     else
       let q = sq_queue (sv_runqueues s ! unat cpu_id) in
       if q = [] then 0
       else (case sv_policy s of
               SCHED_POLICY_FIFO \<Rightarrow> sy_thread_id (q ! 0)
             | SCHED_POLICY_ROUND_ROBIN \<Rightarrow> sy_thread_id (q ! 0)
             | SCHED_POLICY_CFS \<Rightarrow>
                 sy_thread_id (q ! scan_best (<) 0 (sy_vruntime_ns (q ! 0)) 1 (map sy_vruntime_ns (tl q)))
             | SCHED_POLICY_RT \<Rightarrow>
                 sy_thread_id (q ! scan_best (>) 0 (sy_priority (q ! 0)) 1 (map sy_priority (tl q)))
             | _ \<Rightarrow> sy_thread_id (q ! 0)))"

definition cpu_scheduler_run_thread :: "cpu_sched \<Rightarrow> u32 \<Rightarrow> u32 \<Rightarrow> cpu_sched \<times> int" where
  "cpu_scheduler_run_thread h cpu_id thread_id = with_handle (-1) h (\<lambda>s.
     if unat cpu_id \<ge> length (sv_runqueues s) \<or> thread_id = 0 then (s, -1)
     else
       let q = sv_runqueues s ! unat cpu_id in
       (case find_entry thread_id q of None \<Rightarrow> (s, -1)
        | Some i \<Rightarrow>
            let e = sq_queue q ! i in
            (set_runqueue (unat cpu_id) (q\<lparr>
               sq_queue := (sq_queue q)[i := e\<lparr>sy_state := THREAD_STATE_RUNNING, sy_total_schedules := sy_total_schedules e + 1\<rparr>],
               sq_total_context_switches := sq_total_context_switches q + 1,
               sq_active_time_ns := sq_active_time_ns q + 1000000\<rparr>) s, 0)))"

definition cpu_scheduler_check_need_resched :: "cpu_sched \<Rightarrow> u32 \<Rightarrow> int" where
  "cpu_scheduler_check_need_resched h cpu_id = read_handle (-1) h (\<lambda>s.
     if unat cpu_id \<ge> length (sv_runqueues s) then -1
     else if length (sq_queue (sv_runqueues s ! unat cpu_id)) > 1 then 1 else 0)"

section \<open>Threads, loads and migration\<close>

definition cpu_scheduler_update_vruntime :: "cpu_sched \<Rightarrow> u32 \<Rightarrow> u64 \<Rightarrow> cpu_sched \<times> int" where
  "cpu_scheduler_update_vruntime h thread_id runtime_ns = with_handle (-1) h (\<lambda>s.
     if thread_id = 0 then (s, -1)
     else case first_idx (\<lambda>e. sy_thread_id e = thread_id) (sv_threads s) of None \<Rightarrow> (s, -1)
     | Some i \<Rightarrow>
         let e = sv_threads s ! i
         in (s\<lparr>sv_threads := (sv_threads s)[i := e\<lparr>sy_vruntime_ns := sy_vruntime_ns e + runtime_ns,
               sy_cpu_time_ns := sy_cpu_time_ns e + runtime_ns\<rparr>]\<rparr>, 0))"

definition cpu_scheduler_balance_load :: "cpu_sched \<Rightarrow> u32 \<Rightarrow> cpu_sched \<times> int" where
  "cpu_scheduler_balance_load h domain_id = with_handle (-1) h (\<lambda>s.
     if unat domain_id \<ge> length (sv_domains s) then (s, -1)
     else (s\<lparr>sv_load_balancing_operations := sv_load_balancing_operations s + 1\<rparr>, 0))"

definition cpu_scheduler_migrate_thread :: "cpu_sched \<Rightarrow> u32 \<Rightarrow> u32 \<Rightarrow> cpu_sched \<times> int" where
  "cpu_scheduler_migrate_thread h thread_id target_cpu = with_handle (-1) h (\<lambda>s.
     if thread_id = 0 \<or> unat target_cpu \<ge> length (sv_runqueues s) then (s, -1)
     else case first_idx (\<lambda>q. find_entry thread_id q \<noteq> None) (sv_runqueues s) of None \<Rightarrow> (s, -1)
     | Some i \<Rightarrow>
         let q = sv_runqueues s ! i;
             thread = sq_queue q ! the (find_entry thread_id q);
             s1 = the (fst (cpu_scheduler_dequeue_thread (Some s) (of_nat i) thread_id));
             t = sv_runqueues s1 ! unat target_cpu
         in if length (sq_queue t) < MAX_SCHEDULABLE_THREADS
            then ((set_runqueue (unat target_cpu) (push_entry thread t) s1)\<lparr>sv_total_migrations := sv_total_migrations s1 + 1\<rparr>, 0)
            else (s1, -1))"

definition cpu_scheduler_find_load_balanced_cpu :: "cpu_sched \<Rightarrow> u32 \<Rightarrow> int" where
  "cpu_scheduler_find_load_balanced_cpu h thread_id = read_handle (-1) h (\<lambda>s.
     int (scan_best (<) 0 4294967295 0 (map sq_load (sv_runqueues s))))"

definition cpu_scheduler_update_runqueue_loads :: "cpu_sched \<Rightarrow> cpu_sched \<times> int" where
  "cpu_scheduler_update_runqueue_loads h = with_handle (-1) h (\<lambda>s.
     (s\<lparr>sv_runqueues := map (\<lambda>q. q\<lparr>sq_load := of_nat (length (sq_queue q))\<rparr>) (sv_runqueues s)\<rparr>, 0))"

text \<open>Both searches go on after a thread with the identifier that is in another state.\<close>

definition change_state :: "u32 \<Rightarrow> (ThreadState \<Rightarrow> bool) \<Rightarrow> ThreadState \<Rightarrow> CPUScheduler \<Rightarrow> CPUScheduler \<times> int" where
  "change_state thread_id from_state to_state s =
     (if thread_id = 0 then (s, -1)
      else case first_idx (\<lambda>e. sy_thread_id e = thread_id \<and> from_state (sy_state e)) (sv_threads s) of None \<Rightarrow> (s, -1)
      | Some i \<Rightarrow> (s\<lparr>sv_threads := (sv_threads s)[i := (sv_threads s ! i)\<lparr>sy_state := to_state\<rparr>]\<rparr>, 0))"

definition cpu_scheduler_wake_up_thread :: "cpu_sched \<Rightarrow> u32 \<Rightarrow> cpu_sched \<times> int" where
  "cpu_scheduler_wake_up_thread h thread_id = with_handle (-1) h
     (change_state thread_id (\<lambda>st. st = THREAD_STATE_SLEEPING \<or> st = THREAD_STATE_BLOCKED) THREAD_STATE_RUNNABLE)"

definition cpu_scheduler_sleep_thread :: "cpu_sched \<Rightarrow> u32 \<Rightarrow> cpu_sched \<times> int" where
  "cpu_scheduler_sleep_thread h thread_id = with_handle (-1) h
     (change_state thread_id (\<lambda>st. st = THREAD_STATE_RUNNABLE) THREAD_STATE_SLEEPING)"

definition count_state :: "ThreadState \<Rightarrow> CPUScheduler \<Rightarrow> u32" where
  "count_state st s = foldl (\<lambda>n e. if sy_state e = st then n + 1 else n) 0 (sv_threads s)"

definition cpu_scheduler_get_metrics :: "cpu_sched \<Rightarrow> bool \<Rightarrow> int \<times> CPUSchedulerMetrics option" where
  "cpu_scheduler_get_metrics h metrics = read_handle (-1, None) h (\<lambda>s.
     if \<not> metrics then (-1, None)
     else (0, Some \<lparr>sw_scheduler_id = sv_scheduler_id s, sw_total_threads = of_nat (length (sv_threads s)),
        sw_runnable_threads = count_state THREAD_STATE_RUNNABLE s, sw_running_threads = count_state THREAD_STATE_RUNNING s,
        sw_sleeping_threads = count_state THREAD_STATE_SLEEPING s, sw_total_migrations = sv_total_migrations s\<rparr>))"

section \<open>The scanning loops find the first best value\<close>

lemma scan_best_invariant:
  fixes ys :: "'v::linorder list"
  assumes "best < length ys" and "best < i" and "i \<le> length ys" and "\<forall>j<i. ys ! best \<le> ys ! j" and "\<forall>j<best. ys ! best < ys ! j"
    and "r = scan_best (<) best (ys ! best) i (drop i ys)"
  shows "r < length ys \<and> (\<forall>j<length ys. ys ! r \<le> ys ! j) \<and> (\<forall>j<r. ys ! r < ys ! j)"
  using assms
proof (induction "length ys - i" arbitrary: i best)
  case 0
  then show ?case by simp
next
  case (Suc n)
  have i: "i < length ys" and drop: "drop i ys = ys ! i # drop (Suc i) ys"
    using Suc.hyps(2) by (simp_all add: Cons_nth_drop_Suc)
  show ?case
  proof (cases "ys ! i < ys ! best")
    case True
    have "\<forall>j<Suc i. ys ! i \<le> ys ! j" "\<forall>j<i. ys ! i < ys ! j"
      using True Suc.prems(4) by (auto simp: less_Suc_eq intro: less_imp_le less_le_trans)
    with Suc.hyps(1) [of "Suc i" i] Suc.hyps(2) Suc.prems(6) i True show ?thesis by (simp add: drop)
  next
    case False
    have "\<forall>j<Suc i. ys ! best \<le> ys ! j" using False Suc.prems(4) by (auto simp: less_Suc_eq)
    with Suc.hyps(1) [of "Suc i" best] Suc.hyps(2) Suc.prems i False show ?thesis by (simp add: drop)
  qed
qed

lemma scan_best_first_least:
  fixes ys :: "'v::linorder list"
  assumes "ys \<noteq> []" and "r = scan_best (<) 0 (hd ys) 1 (tl ys)"
  shows "r < length ys" and "j < length ys \<Longrightarrow> ys ! r \<le> ys ! j" and "j < r \<Longrightarrow> ys ! r < ys ! j"
proof -
  have "r = scan_best (<) 0 (ys ! 0) 1 (drop 1 ys)" using assms by (simp add: hd_conv_nth drop_Suc)
  from scan_best_invariant [OF _ _ _ _ _ this] assms(1)
  have "r < length ys \<and> (\<forall>j<length ys. ys ! r \<le> ys ! j) \<and> (\<forall>j<r. ys ! r < ys ! j)"
    by (simp add: Suc_le_eq)
  then show "r < length ys" and "j < length ys \<Longrightarrow> ys ! r \<le> ys ! j" and "j < r \<Longrightarrow> ys ! r < ys ! j" by blast+
qed

lemma scan_best_greatest: "scan_best (>) best v i xs = scan_best (<) best (- v) i (map uminus (xs :: int list))"
  by (induction xs arbitrary: best v i) auto

lemma scan_best_constant: "(\<And>x. x \<in> set xs \<Longrightarrow> \<not> better x v) \<Longrightarrow> scan_best better best v i xs = best"
  by (induction xs arbitrary: i) auto

section \<open>Loads and queues\<close>

definition cpu_initial :: "CPUScheduler \<Rightarrow> bool" where
  "cpu_initial s \<longleftrightarrow> (\<exists>policy n. cpu_scheduler_init policy n True = Some s)"

inductive cpu_step :: "CPUScheduler \<Rightarrow> CPUScheduler \<Rightarrow> bool" where
  step_add: "cpu_scheduler_add_runqueue (Some s) c = (Some t, r) \<Longrightarrow> cpu_step s t"
| step_remove: "cpu_scheduler_remove_runqueue (Some s) c = (Some t, r) \<Longrightarrow> cpu_step s t"
| step_enqueue: "cpu_scheduler_enqueue_thread (Some s) k p pr a = Done (Some t, k') \<Longrightarrow> cpu_step s t"
| step_dequeue: "cpu_scheduler_dequeue_thread (Some s) c k = (Some t, r) \<Longrightarrow> cpu_step s t"
| step_run: "cpu_scheduler_run_thread (Some s) c k = (Some t, r) \<Longrightarrow> cpu_step s t"
| step_vruntime: "cpu_scheduler_update_vruntime (Some s) k ns = (Some t, r) \<Longrightarrow> cpu_step s t"
| step_balance: "cpu_scheduler_balance_load (Some s) d = (Some t, r) \<Longrightarrow> cpu_step s t"
| step_migrate: "cpu_scheduler_migrate_thread (Some s) k c = (Some t, r) \<Longrightarrow> cpu_step s t"
| step_loads: "cpu_scheduler_update_runqueue_loads (Some s) = (Some t, r) \<Longrightarrow> cpu_step s t"
| step_wake: "cpu_scheduler_wake_up_thread (Some s) k = (Some t, r) \<Longrightarrow> cpu_step s t"
| step_sleep: "cpu_scheduler_sleep_thread (Some s) k = (Some t, r) \<Longrightarrow> cpu_step s t"

definition queue_ok :: "RunQueue \<Rightarrow> bool" where
  "queue_ok q \<longleftrightarrow> sq_load q = of_nat (length (sq_queue q)) \<and> list_all (\<lambda>e. sy_vruntime_ns e = 0) (sq_queue q)"

definition queue_total :: "CPUScheduler \<Rightarrow> nat" where
  "queue_total s = (\<Sum>q\<leftarrow>sv_runqueues s. length (sq_queue q))"

definition queued :: "CPUScheduler \<Rightarrow> ScheduleEntry multiset" where
  "queued s = mset (concat (map sq_queue (sv_runqueues s)))"

text \<open>There are never more entries in the queues than threads in the table, which has no removal.\<close>

definition cpu_ok :: "CPUScheduler \<Rightarrow> bool" where
  "cpu_ok s \<longleftrightarrow> list_all queue_ok (sv_runqueues s) \<and> queue_total s \<le> length (sv_threads s) \<and>
     length (sv_threads s) \<le> MAX_SCHEDULABLE_THREADS \<and> length (sv_runqueues s) \<le> MAX_RUNQUEUES \<and> sv_domains s = []"

lemma queue_total_set:
  assumes "i < length (sv_runqueues s)"
  shows "queue_total (set_runqueue i q s) + length (sq_queue (sv_runqueues s ! i)) = queue_total s + length (sq_queue q)"
proof -
  let ?ls = "map (\<lambda>q. length (sq_queue q)) (sv_runqueues s)"
  have "?ls ! i \<le> sum_list ?ls" using assms by (intro elem_le_sum_list) simp
  with assms show ?thesis by (simp add: queue_total_def set_runqueue_def map_update sum_list_update)
qed

lemma queued_set:
  assumes "i < length (sv_runqueues s)"
  shows "queued (set_runqueue i q s) + mset (sq_queue (sv_runqueues s ! i)) = queued s + mset (sq_queue q)"
  using mset_concat_update [of i "map sq_queue (sv_runqueues s)" "sq_queue q"] assms
  by (simp add: queued_def set_runqueue_def map_update)

lemma queue_total_size: "queue_total s = size (queued s)"
  by (simp add: queue_total_def queued_def length_concat comp_def)

lemma queue_length_total: "i < length (sv_runqueues s) \<Longrightarrow> length (sq_queue (sv_runqueues s ! i)) \<le> queue_total s"
  using elem_le_sum_list [of i "map (\<lambda>q. length (sq_queue q)) (sv_runqueues s)"] by (simp add: queue_total_def)

lemma cpu_ok_set:
  assumes "cpu_ok s" and "i < length (sv_runqueues s)" and "queue_ok q"
    and "length (sq_queue q) \<le> length (sq_queue (sv_runqueues s ! i))"
  shows "cpu_ok (set_runqueue i q s)"
  using assms queue_total_set [OF assms(2), of q] by (auto simp: cpu_ok_def set_runqueue_def intro: list_all_update)

lemma queue_ok_at: "cpu_ok s \<Longrightarrow> i < length (sv_runqueues s) \<Longrightarrow> queue_ok (sv_runqueues s ! i)"
  by (simp add: cpu_ok_def list_all_length)

lemma queue_ok_remove:
  assumes "queue_ok q" and "i < length (sq_queue q)"
  shows "queue_ok (q\<lparr>sq_queue := remove_at i (sq_queue q), sq_load := sq_load q - 1\<rparr>)"
proof -
  have "(of_nat (length (sq_queue q)) :: u32) - 1 = of_nat (length (sq_queue q) - 1)" using assms(2) by (simp add: of_nat_diff)
  with assms show ?thesis by (simp add: queue_ok_def list_all_remove_at length_remove_at)
qed

lemma queue_ok_push: "queue_ok q \<Longrightarrow> sy_vruntime_ns e = 0 \<Longrightarrow> queue_ok (push_entry e q)"
  by (simp add: queue_ok_def push_entry_def)

lemma queue_entryD:
  assumes "find_entry k q = Some j"
  shows "j < length (sq_queue q)" and "sy_thread_id (sq_queue q ! j) = k"
  using first_idx_SomeD [OF assms [unfolded find_entry_def]] by simp_all

section \<open>Migration\<close>

lemma dequeue_found:
  assumes "i < length (sv_runqueues s)" and "k \<noteq> 0" and "find_entry k (sv_runqueues s ! i) = Some j" and "unat c = i"
  defines "q \<equiv> sv_runqueues s ! i"
  shows "cpu_scheduler_dequeue_thread (Some s) c k =
    (Some (set_runqueue i (q\<lparr>sq_queue := remove_at j (sq_queue q), sq_load := sq_load q - 1\<rparr>) s), 0)"
  using assms by (simp add: cpu_scheduler_dequeue_thread_def with_handle_Some Let_def)

lemma dequeue_sets:
  assumes "cpu_ok s" and "i < length (sv_runqueues s)" and "find_entry k (sv_runqueues s ! i) = Some j"
  defines "q \<equiv> sv_runqueues s ! i"
  defines "t \<equiv> set_runqueue i (q\<lparr>sq_queue := remove_at j (sq_queue q), sq_load := sq_load q - 1\<rparr>) s"
  shows "cpu_ok t" and "add_mset (sq_queue q ! j) (queued t) = queued s" and "Suc (queue_total t) = queue_total s"
proof -
  note j = queue_entryD(1) [OF assms(3)]
  show "cpu_ok t" unfolding t_def q_def
    using assms(1,2) queue_ok_remove [OF queue_ok_at [OF assms(1,2)] j] length_remove_at_le
    by (intro cpu_ok_set) simp_all
  have Q: "mset (sq_queue q) = add_mset (sq_queue q ! j) (mset (remove_at j (sq_queue q)))"
    using j by (simp add: mset_remove_at q_def)
  have "queued t + mset (sq_queue q) = queued s + mset (remove_at j (sq_queue q))"
    using queued_set [OF assms(2), of "q\<lparr>sq_queue := remove_at j (sq_queue q), sq_load := sq_load q - 1\<rparr>"]
    by (simp add: t_def q_def)
  then have "add_mset (sq_queue q ! j) (queued t) + mset (remove_at j (sq_queue q)) = queued s + mset (remove_at j (sq_queue q))"
    unfolding Q by simp
  then show "add_mset (sq_queue q ! j) (queued t) = queued s" by (rule add_right_imp_eq)
  then show "Suc (queue_total t) = queue_total s" unfolding queue_total_size by (metis size_add_mset)
qed

text \<open>Taking the entry out leaves room in every queue, so a migration that finds the thread succeeds.\<close>

lemma migrate_cases:
  assumes "cpu_ok s" and "cpu_scheduler_migrate_thread (Some s) k c = (Some s', r)"
  obtains (fail) "s' = s" and "r = -1"
      and "k = 0 \<or> length (sv_runqueues s) \<le> unat c \<or> (\<forall>q\<in>set (sv_runqueues s). find_entry k q = None)"
  | (moved) i j t where "k \<noteq> 0" and "unat c < length (sv_runqueues s)" and "i < length (sv_runqueues s)"
      and "find_entry k (sv_runqueues s ! i) = Some j" and "r = 0"
      and "cpu_ok t" and "add_mset (sq_queue (sv_runqueues s ! i) ! j) (queued t) = queued s" and "Suc (queue_total t) = queue_total s"
      and "length (sv_runqueues t) = length (sv_runqueues s)" and "length (sq_queue (sv_runqueues t ! unat c)) < MAX_SCHEDULABLE_THREADS"
      and "sv_threads t = sv_threads s"
      and "s' = (set_runqueue (unat c) (push_entry (sq_queue (sv_runqueues s ! i) ! j) (sv_runqueues t ! unat c)) t)
        \<lparr>sv_total_migrations := sv_total_migrations t + 1\<rparr>"
proof (cases "k = 0 \<or> length (sv_runqueues s) \<le> unat c \<or> first_idx (\<lambda>q. find_entry k q \<noteq> None) (sv_runqueues s) = None")
  case True
  with assms(2) have "s' = s" "r = -1" by (auto simp: cpu_scheduler_migrate_thread_def split: if_splits)
  with True show thesis by (intro fail) (auto simp: first_idx_None)
next
  case False
  then obtain i where k: "k \<noteq> 0" "unat c < length (sv_runqueues s)"
    and i: "first_idx (\<lambda>q. find_entry k q \<noteq> None) (sv_runqueues s) = Some i" by auto
  then obtain j where i': "i < length (sv_runqueues s)" and j: "find_entry k (sv_runqueues s ! i) = Some j"
    using first_idx_SomeD [OF i] by auto
  have "i < 256" using i' assms(1) by (simp add: cpu_ok_def MAX_RUNQUEUES_def)
  then have u: "unat (of_nat i :: u32) = i" by (intro unat_of_nat_u32) simp
  let ?q = "sv_runqueues s ! i"
  define t where "t = set_runqueue i (?q\<lparr>sq_queue := remove_at j (sq_queue ?q), sq_load := sq_load ?q - 1\<rparr>) s"
  note deq = dequeue_found [OF i' k(1) j u, folded t_def] and sets = dequeue_sets [OF assms(1) i' j, folded t_def]
  have len: "length (sv_runqueues t) = length (sv_runqueues s)" and thr: "sv_threads t = sv_threads s"
    by (simp_all add: t_def set_runqueue_def)
  have "length (sq_queue (sv_runqueues t ! unat c)) \<le> queue_total t" using k len by (intro queue_length_total) simp
  then have room: "length (sq_queue (sv_runqueues t ! unat c)) < MAX_SCHEDULABLE_THREADS"
    using sets(3) assms(1) by (simp add: cpu_ok_def)
  with assms(2) k i j deq have "r = 0"
    and "s' = (set_runqueue (unat c) (push_entry (sq_queue ?q ! j) (sv_runqueues t ! unat c)) t)\<lparr>sv_total_migrations := sv_total_migrations t + 1\<rparr>"
    by (simp_all add: cpu_scheduler_migrate_thread_def Let_def)
  with k i' j sets len room thr show thesis by (intro moved)
qed

lemma entry_vruntime:
  assumes "cpu_ok s" and "i < length (sv_runqueues s)" and "j < length (sq_queue (sv_runqueues s ! i))"
  shows "sy_vruntime_ns (sq_queue (sv_runqueues s ! i) ! j) = 0"
  using queue_ok_at [OF assms(1,2)] assms(3) by (simp add: queue_ok_def list_all_length)

lemma push_sets:
  assumes "i < length (sv_runqueues s)"
  shows "queued (set_runqueue i (push_entry e (sv_runqueues s ! i)) s) = add_mset e (queued s)"
    and "queue_total (set_runqueue i (push_entry e (sv_runqueues s ! i)) s) = Suc (queue_total s)"
proof -
  from queued_set [OF assms, of "push_entry e (sv_runqueues s ! i)"]
  show "queued (set_runqueue i (push_entry e (sv_runqueues s ! i)) s) = add_mset e (queued s)"
    by (simp add: push_entry_def)
  then show "queue_total (set_runqueue i (push_entry e (sv_runqueues s ! i)) s) = Suc (queue_total s)"
    by (simp add: queue_total_size)
qed

lemma migrate_ok:
  assumes "cpu_ok s" and "cpu_scheduler_migrate_thread (Some s) k c = (Some s', r)"
  shows "cpu_ok s'"
  using assms
proof (cases rule: migrate_cases)
  case (moved i j t)
  let ?e = "sq_queue (sv_runqueues s ! i) ! j"
  have "sy_vruntime_ns ?e = 0" using entry_vruntime [OF assms(1) moved(3)] queue_entryD(1) [OF moved(4)] by simp
  with moved have "queue_ok (push_entry ?e (sv_runqueues t ! unat c))" by (intro queue_ok_push queue_ok_at) simp_all
  moreover have "queue_total (set_runqueue (unat c) (push_entry ?e (sv_runqueues t ! unat c)) t) = queue_total s"
    using push_sets(2) [of "unat c" t ?e] moved by simp
  ultimately show ?thesis using moved assms(1)
    by (auto simp: cpu_ok_def set_runqueue_def queue_total_def intro: list_all_update)
qed (use assms in simp)

section \<open>Every call keeps the invariant\<close>

lemma add_runqueue_ok:
  "cpu_ok s \<Longrightarrow> cpu_scheduler_add_runqueue (Some s) c = (Some t, r) \<Longrightarrow> cpu_ok t"
  by (auto simp: cpu_scheduler_add_runqueue_def cpu_ok_def queue_ok_def queue_total_def split: if_splits)

lemma sum_list_remove_at: "(\<Sum>x\<leftarrow>remove_at i xs. f x :: nat) \<le> (\<Sum>x\<leftarrow>xs. f x)"
proof (induction xs arbitrary: i)
  case Nil
  then show ?case by simp
next
  case (Cons x xs)
  from Cons.IH [of "i - 1"] show ?case by (cases i) auto
qed

lemma remove_runqueue_ok:
  "cpu_ok s \<Longrightarrow> cpu_scheduler_remove_runqueue (Some s) c = (Some t, r) \<Longrightarrow> cpu_ok t"
  using sum_list_remove_at [where f = "\<lambda>q. length (sq_queue q)" and i = "unat c" and xs = "sv_runqueues s"]
    length_remove_at_le [of "unat c" "sv_runqueues s"]
  by (auto simp: cpu_scheduler_remove_runqueue_def cpu_ok_def queue_total_def list_all_remove_at split: if_splits)

lemma enqueue_ok:
  assumes "cpu_ok s" and "cpu_scheduler_enqueue_thread (Some s) k p pr a = Done (Some t, k')"
  shows "cpu_ok t"
proof -
  define e where "e = \<lparr>sy_thread_id = k, sy_process_id = p, sy_priority = pr, sy_state = THREAD_STATE_RUNNABLE,
      sy_cpu_time_ns = 0, sy_vruntime_ns = 0, sy_time_slice_ms = 10, sy_cpu_affinity = a, sy_context_switches = 0,
      sy_total_schedules = 0\<rparr>"
  let ?s = "s\<lparr>sv_threads := sv_threads s @ [e], sv_total_threads_scheduled := sv_total_threads_scheduled s + 1\<rparr>"
  let ?c = "unat (a mod of_nat (length (sv_runqueues s)))"
  consider "t = s" | "length (sv_threads s) < MAX_SCHEDULABLE_THREADS" "t = ?s"
    | "length (sv_threads s) < MAX_SCHEDULABLE_THREADS" "?c < length (sv_runqueues s)"
      "t = set_runqueue ?c (push_entry e (sv_runqueues s ! ?c)) ?s"
    using assms(2) by (auto simp: cpu_scheduler_enqueue_thread_def Let_def e_def split: if_splits)
  then show ?thesis
  proof cases
    case 3
    have "queue_ok (push_entry e (sv_runqueues s ! ?c))"
      using 3(2) assms(1) by (intro queue_ok_push queue_ok_at) (simp_all add: e_def)
    moreover have "queue_total t = Suc (queue_total s)" using push_sets(2) [of ?c ?s e] 3 by (simp add: queue_total_def)
    ultimately show ?thesis using 3 assms(1) by (auto simp: cpu_ok_def set_runqueue_def intro: list_all_update)
  qed (use assms(1) in \<open>auto simp: cpu_ok_def queue_total_def\<close>)
qed

lemma dequeue_ok:
  assumes "cpu_ok s" and "cpu_scheduler_dequeue_thread (Some s) c k = (Some t, r)"
  shows "cpu_ok t"
proof (cases "unat c < length (sv_runqueues s) \<and> k \<noteq> 0 \<and> find_entry k (sv_runqueues s ! unat c) \<noteq> None")
  case True
  then obtain j where j: "find_entry k (sv_runqueues s ! unat c) = Some j" by auto
  from True dequeue_sets(1) [OF assms(1) _ j] assms(2) dequeue_found [OF _ _ j refl] show ?thesis by simp
next
  case False
  with assms show ?thesis by (auto simp: cpu_scheduler_dequeue_thread_def Let_def split: if_splits)
qed

lemma run_ok:
  assumes "cpu_ok s" and "cpu_scheduler_run_thread (Some s) c k = (Some t, r)"
  shows "cpu_ok t"
proof -
  have keep: "queue_ok (q\<lparr>sq_queue := (sq_queue q)[i := (sq_queue q ! i)\<lparr>sy_state := st, sy_total_schedules := n\<rparr>],
      sq_total_context_switches := x, sq_active_time_ns := y\<rparr>)" if "queue_ok q" "find_entry k q = Some i" for q i st n x y
    using that queue_entryD(1) [OF that(2)] by (auto simp: queue_ok_def list_all_length nth_list_update)
  from assms show ?thesis
    by (auto simp: cpu_scheduler_run_thread_def Let_def intro!: cpu_ok_set keep queue_ok_at split: if_splits option.splits)
qed

lemma thread_table_ok:
  "cpu_ok s \<Longrightarrow> length xs = length (sv_threads s) \<Longrightarrow> cpu_ok (s\<lparr>sv_threads := xs\<rparr>)"
  by (simp add: cpu_ok_def queue_total_def)

lemma table_ops_ok:
  assumes "cpu_ok s"
  shows "cpu_scheduler_update_vruntime (Some s) k ns = (Some t, r) \<Longrightarrow> cpu_ok t"
    and "cpu_scheduler_wake_up_thread (Some s) k = (Some t, r) \<Longrightarrow> cpu_ok t"
    and "cpu_scheduler_sleep_thread (Some s) k = (Some t, r) \<Longrightarrow> cpu_ok t"
  using assms
  by (auto simp: cpu_scheduler_update_vruntime_def cpu_scheduler_wake_up_thread_def cpu_scheduler_sleep_thread_def change_state_def Let_def
      intro!: thread_table_ok split: if_splits option.splits)

lemma loads_ok:
  "cpu_ok s \<Longrightarrow> cpu_scheduler_update_runqueue_loads (Some s) = (Some t, r) \<Longrightarrow> cpu_ok t"
  by (auto simp: cpu_scheduler_update_runqueue_loads_def cpu_ok_def queue_ok_def queue_total_def list_all_iff comp_def)

lemma balance_ok:
  "cpu_ok s \<Longrightarrow> cpu_scheduler_balance_load (Some s) d = (Some t, r) \<Longrightarrow> cpu_ok t"
  by (auto simp: cpu_scheduler_balance_load_def cpu_ok_def)

lemma init_ok:
  assumes "cpu_scheduler_init policy n True = Some s"
  shows "cpu_ok s"
proof -
  have run: "\<exists>u. foldl (\<lambda>h i. fst (cpu_scheduler_add_runqueue h (of_nat i))) (Some t) is = Some u \<and> cpu_ok u" if "cpu_ok t" for t "is"
    using that
  proof (induction "is" arbitrary: t)
    case (Cons i "is")
    obtain u r where "cpu_scheduler_add_runqueue (Some t) (of_nat i) = (Some u, r)"
      by (auto simp: cpu_scheduler_add_runqueue_def with_handle_Some)
    with Cons.IH [of u] add_runqueue_ok [OF Cons.prems this] show ?case by simp
  qed simp
  have "cpu_ok \<lparr>sv_scheduler_id = 1, sv_policy = policy, sv_runqueues = [], sv_threads = [], sv_domains = [],
          sv_total_threads_scheduled = 0, sv_total_migrations = 0, sv_load_balancing_operations = 0\<rparr>"
    by (simp add: cpu_ok_def queue_total_def)
  from run [OF this, of "[0..<min (unat n) MAX_RUNQUEUES]"] assms show ?thesis by (simp add: cpu_scheduler_init_def)
qed

interpretation cpu_states: invariant_system cpu_initial cpu_step cpu_ok
proof
  show "cpu_ok s" if "cpu_initial s" for s using that init_ok by (auto simp: cpu_initial_def)
  show "cpu_ok t" if "cpu_step s t" "cpu_ok s" for s t
    using that(1)
    by (cases rule: cpu_step.cases) (auto dest: add_runqueue_ok [OF that(2)] remove_runqueue_ok [OF that(2)] enqueue_ok [OF that(2)]
        dequeue_ok [OF that(2)] run_ok [OF that(2)] table_ops_ok [OF that(2)] balance_ok [OF that(2)] migrate_ok [OF that(2)]
        loads_ok [OF that(2)])
qed

section \<open>Selection\<close>

text \<open>Run times are added to the table and not to the copies in the queues, so all run times in a queue are 0.\<close>

lemma select_fair_is_first:
  assumes "cpu_ok s" and "sv_policy s \<noteq> SCHED_POLICY_RT" and "unat c < length (sv_runqueues s)"
    and "sq_queue (sv_runqueues s ! unat c) \<noteq> []"
  shows "cpu_scheduler_select_next_thread (Some s) c = sy_thread_id (hd (sq_queue (sv_runqueues s ! unat c)))"
proof -
  let ?q = "sq_queue (sv_runqueues s ! unat c)"
  have zero: "\<And>e. e \<in> set ?q \<Longrightarrow> sy_vruntime_ns e = 0"
    using queue_ok_at [OF assms(1,3)] by (auto simp: queue_ok_def list_all_iff)
  then have "scan_best (<) 0 (sy_vruntime_ns (?q ! 0)) 1 (map sy_vruntime_ns (tl ?q)) = 0"
    using assms(4) by (intro scan_best_constant) (auto dest: list.set_sel(2) [OF assms(4)])
  then show ?thesis using assms(2-4)
    by (simp add: cpu_scheduler_select_next_thread_def Let_def hd_conv_nth split: SchedulingPolicy.split)
qed

lemma select_rt_exact:
  assumes "sv_policy s = SCHED_POLICY_RT" and "unat c < length (sv_runqueues s)" and "sq_queue (sv_runqueues s ! unat c) \<noteq> []"
  defines "q \<equiv> sq_queue (sv_runqueues s ! unat c)"
  shows "\<exists>i<length q. cpu_scheduler_select_next_thread (Some s) c = sy_thread_id (q ! i) \<and>
    (\<forall>j<length q. sy_priority (q ! j) \<le> sy_priority (q ! i)) \<and> (\<forall>j<i. sy_priority (q ! j) < sy_priority (q ! i))"
proof -
  let ?ys = "map (\<lambda>e. - sy_priority e) q"
  define i where "i = scan_best (<) 0 (hd ?ys) 1 (tl ?ys)"
  have q: "q \<noteq> []" using assms(3) by (simp add: q_def)
  then have "?ys \<noteq> []" by simp
  note first = scan_best_first_least [OF this i_def]
  have "i = scan_best (>) 0 (sy_priority (q ! 0)) 1 (map sy_priority (tl q))"
    using q by (simp add: i_def scan_best_greatest hd_map map_tl hd_conv_nth comp_def)
  with assms(1,2) q have sel: "cpu_scheduler_select_next_thread (Some s) c = sy_thread_id (q ! i)"
    by (simp add: cpu_scheduler_select_next_thread_def Let_def q_def)
  have len: "i < length q" using first(1) by simp
  have "sy_priority (q ! j) \<le> sy_priority (q ! i)" if "j < length q" for j using first(2) [of j] len that by simp
  moreover have "sy_priority (q ! j) < sy_priority (q ! i)" if "j < i" for j using first(3) [of j] len that by simp
  ultimately show ?thesis using sel len by blast
qed

lemma load_balanced_exact:
  assumes "cpu_ok s" and "sv_runqueues s \<noteq> []" and "cpu_scheduler_find_load_balanced_cpu (Some s) k = r"
  shows "0 \<le> r \<and> nat r < length (sv_runqueues s) \<and>
    (\<forall>j<length (sv_runqueues s). length (sq_queue (sv_runqueues s ! nat r)) \<le> length (sq_queue (sv_runqueues s ! j)))"
proof -
  let ?ls = "map sq_load (sv_runqueues s)"
  have len: "length (sq_queue (sv_runqueues s ! j)) \<le> 4096" if "j < length (sv_runqueues s)" for j
    using queue_length_total [OF that] assms(1) by (simp add: cpu_ok_def MAX_SCHEDULABLE_THREADS_def)
  have load: "unat (?ls ! j) = length (sq_queue (sv_runqueues s ! j))" if "j < length (sv_runqueues s)" for j
    using queue_ok_at [OF assms(1) that] len [OF that] that by (simp add: queue_ok_def unat_of_nat_u32)
  obtain x xs where ls: "?ls = x # xs" using assms(2) by (cases ?ls) auto
  have "unat x \<le> 4096" using load [of 0] len [of 0] ls assms(2) by (cases "sv_runqueues s") auto
  then have "x < 4294967295" by (simp add: word_less_nat_alt)
  then have r: "nat r = scan_best (<) 0 (hd ?ls) 1 (tl ?ls)" "0 \<le> r"
    using assms(3) by (auto simp: cpu_scheduler_find_load_balanced_cpu_def ls)
  have "?ls \<noteq> []" using assms(2) by simp
  note first = scan_best_first_least [OF this r(1)]
  have n: "nat r < length (sv_runqueues s)" using first(1) by simp
  have "length (sq_queue (sv_runqueues s ! nat r)) \<le> length (sq_queue (sv_runqueues s ! j))" if "j < length (sv_runqueues s)" for j
    using first(2) [of j] load [OF that] load [OF n] that by (simp add: word_le_nat_alt)
  with n r(2) show ?thesis by blast
qed

section \<open>Main theorems\<close>

text \<open>
  Claim C16. Selection. In every reachable state the thread selected on a CPU is the first of its queue
  under every policy but the real-time one, the fair one included, however long the threads have run;
  under the real-time policy it is the first of those with the highest priority.
\<close>

theorem cpu_selection_exact:
  assumes "reach cpu_initial cpu_step s" and "unat c < length (sv_runqueues s)" and "sq_queue (sv_runqueues s ! unat c) \<noteq> []"
  shows "\<exists>i<length (sq_queue (sv_runqueues s ! unat c)).
     cpu_scheduler_select_next_thread (Some s) c = sy_thread_id (sq_queue (sv_runqueues s ! unat c) ! i) \<and>
     (if sv_policy s = SCHED_POLICY_RT
      then (\<forall>j<length (sq_queue (sv_runqueues s ! unat c)).
              sy_priority (sq_queue (sv_runqueues s ! unat c) ! j) \<le> sy_priority (sq_queue (sv_runqueues s ! unat c) ! i)) \<and>
           (\<forall>j<i. sy_priority (sq_queue (sv_runqueues s ! unat c) ! j) < sy_priority (sq_queue (sv_runqueues s ! unat c) ! i))
      else i = 0)"
proof (cases "sv_policy s = SCHED_POLICY_RT")
  case True
  with select_rt_exact [OF True assms(2,3)] show ?thesis by auto
next
  case False
  with select_fair_is_first [OF cpu_states.inv_reachable [OF assms(1)] False assms(2,3)] assms(3) show ?thesis
    by (intro exI [of _ 0]) (simp add: hd_conv_nth)
qed


definition cpu_new :: CPUScheduler where
  "cpu_new = the (cpu_scheduler_init SCHED_POLICY_RT 2 True)"

definition enqueue_on :: "u32 \<Rightarrow> int \<Rightarrow> CPUScheduler \<Rightarrow> CPUScheduler" where
  "enqueue_on k pr s = (case cpu_scheduler_enqueue_thread (Some s) k 1 pr 0 of Done (Some t, r) \<Rightarrow> t | _ \<Rightarrow> s)"

definition cpu_two :: CPUScheduler where
  "cpu_two = enqueue_on 6 9 (enqueue_on 5 1 cpu_new)"

lemma enqueue_on_step: "reach cpu_initial cpu_step s \<Longrightarrow> reach cpu_initial cpu_step (enqueue_on k pr s)"
  by (auto simp: enqueue_on_def split: outcome.split option.split intro: reach.reach_step cpu_step.step_enqueue)

lemma cpu_two_reached: "reach cpu_initial cpu_step cpu_two"
proof -
  obtain s where "cpu_scheduler_init SCHED_POLICY_RT 2 True = Some s"
    by (simp add: cpu_scheduler_init_def MAX_RUNQUEUES_def cpu_scheduler_add_runqueue_def with_handle_Some upt_rec)
  then have "cpu_initial cpu_new" by (auto simp: cpu_initial_def cpu_new_def)
  then show ?thesis unfolding cpu_two_def by (intro enqueue_on_step reach.reach_init)
qed

lemma cpu_two_queues:
  "map (\<lambda>q. map (\<lambda>e. (sy_thread_id e, sy_priority e)) (sq_queue q)) (sv_runqueues cpu_two) = [[(5, 1), (6, 9)], []]"
  "sv_policy cpu_two = SCHED_POLICY_RT"
  by (simp_all add: cpu_two_def enqueue_on_def cpu_new_def cpu_scheduler_init_def MAX_RUNQUEUES_def cpu_scheduler_add_runqueue_def
      cpu_scheduler_enqueue_thread_def with_handle_Some with_handle_ub_def MAX_SCHEDULABLE_THREADS_def set_runqueue_def push_entry_def
      upt_rec Let_def)

lemma cpu_two_shape:
  obtains q p a b where "sv_runqueues cpu_two = [q, p]" and "sq_queue q = [a, b]" and "sq_queue p = []"
    and "sy_thread_id a = 5" and "sy_priority a = 1" and "sy_thread_id b = 6" and "sy_priority b = 9"
proof -
  obtain q p where qp: "sv_runqueues cpu_two = [q, p]" using cpu_two_queues(1) by (auto simp: map_eq_Cons_conv)
  then obtain a b where "sq_queue q = [a, b]" "sq_queue p = []" "sy_thread_id a = 5" "sy_priority a = 1" "sy_thread_id b = 6" "sy_priority b = 9"
    using cpu_two_queues(1) by (auto simp: map_eq_Cons_conv)
  with qp show thesis by (rule that)
qed

theorem cpu_selection_exact_witness: "cpu_scheduler_select_next_thread (Some cpu_two) 0 = 6"
proof (rule cpu_two_shape)
  fix q p a b
  assume shape: "sv_runqueues cpu_two = [q, p]" "sq_queue q = [a, b]" "sy_thread_id b = 6" "sy_priority a = 1" "sy_priority b = 9"
  have "unat (0 :: u32) < length (sv_runqueues cpu_two)" "sq_queue (sv_runqueues cpu_two ! unat (0 :: u32)) \<noteq> []" using shape by simp_all
  from cpu_selection_exact [OF cpu_two_reached this] shape cpu_two_queues(2) show ?thesis
    by (auto simp: less_Suc_eq)
qed


end
