(* ===== verification/Distributed_Storage.thy ===== *)
theory Distributed_Storage
  imports Service_Tables
begin

text \<open>
  The replicated key-value storage of \<open>src/distributed-systems/distributed_storage.c\<close>: data blocks with
  tombstones, replicas and replication jobs. The static counters of replicas and jobs are arguments and
  results. A value shorter than the size given with it, and a buffer too small for the value read (whose
  size the code is not told), are undefined. The constant latencies and the floating-point average of
  the metrics are left out.

  The second half shows that a key holds the queue of its values, from which a single deletion can be
  made until tombstones are cleaned up.
\<close>

section \<open>Constants and data\<close>

definition MAX_REPLICAS :: nat where "MAX_REPLICAS = 32"
definition MAX_DATA_BLOCKS :: nat where "MAX_DATA_BLOCKS = 100000"
definition MAX_KEY_LEN :: nat where "MAX_KEY_LEN = 256"
definition MAX_VALUE_LEN :: nat where "MAX_VALUE_LEN = 1048576"
definition MAX_REPLICATION_JOBS :: nat where "MAX_REPLICATION_JOBS = 128"

datatype ReplicaState =
  REPLICA_STATE_SYNCED | REPLICA_STATE_SYNCING | REPLICA_STATE_LAGGING | REPLICA_STATE_FAILED | REPLICA_STATE_RECOVERING

datatype ReplicationStrategy =
  REPLICATION_STRATEGY_SYNCHRONOUS | REPLICATION_STRATEGY_ASYNCHRONOUS | REPLICATION_STRATEGY_QUORUM

record DataBlock =
  db_key :: string
  db_value :: "u8 list"
  db_value_size :: u64
  db_version :: u64
  db_created_timestamp :: u32
  db_modified_timestamp :: u32
  db_replicas :: "u32 list"
  db_is_tombstone :: bool

record Replica =
  rp_replica_id :: u32
  rp_replica_address :: string
  rp_port :: u16
  rp_state :: ReplicaState
  rp_synced_offset :: u64
  rp_total_data_size :: u64
  rp_replication_lag_ms :: u32
  rp_last_sync_time :: u32
  rp_blocks_stored :: u64
  rp_sync_success_count :: u64
  rp_sync_fail_count :: u64

text \<open>The progress of a job, a floating-point number that is always 0, is left out.\<close>

record ReplicationJob =
  rj_replication_job_id :: u32
  rj_source_replica_id :: u32
  rj_target_replica_id :: u32
  rj_blocks_to_replicate :: u64
  rj_blocks_replicated :: u64
  rj_start_time :: u32
  rj_end_time :: u32
  rj_completed :: bool

record DistributedStorage =
  ds_storage_node_id :: u32
  ds_node_address :: string
  ds_port :: u16
  ds_replicas :: "Replica list"
  ds_data_blocks :: "DataBlock list"
  ds_replication_strategy :: ReplicationStrategy
  ds_replication_factor :: u32
  ds_consistency_level :: u32
  ds_total_read_ops :: u64
  ds_total_write_ops :: u64
  ds_total_delete_ops :: u64
  ds_total_bytes_replicated :: u64
  ds_replication_jobs :: "ReplicationJob list"

record RangeQuery =
  rq_start_key :: string
  rq_end_key :: string
  rq_limit :: u32
  rq_results :: "DataBlock list"

record StorageMetrics =
  sm_node_id :: u32
  sm_total_keys :: u64
  sm_total_replicas :: u64
  sm_healthy_replicas :: u64
  sm_total_data_size :: u64

type_synonym storage = "DistributedStorage option"

section \<open>Replicas\<close>

definition distributed_storage_init :: "u32 \<Rightarrow> ReplicationStrategy \<Rightarrow> bool \<Rightarrow> bool \<Rightarrow> storage" where
  "distributed_storage_init node_id strategy malloc_storage malloc_blocks =
     (if \<not> malloc_storage \<or> \<not> malloc_blocks then None
      else Some \<lparr>ds_storage_node_id = node_id, ds_node_address = ''127.0.0.1'', ds_port = ucast (6000 + node_id),
        ds_replicas = [], ds_data_blocks = [], ds_replication_strategy = strategy, ds_replication_factor = 3,
        ds_consistency_level = 2, ds_total_read_ops = 0, ds_total_write_ops = 0, ds_total_delete_ops = 0,
        ds_total_bytes_replicated = 0, ds_replication_jobs = []\<rparr>)"

definition distributed_storage_destroy :: "storage \<Rightarrow> storage \<times> int" where
  "distributed_storage_destroy h = (None, case h of None \<Rightarrow> -1 | Some d \<Rightarrow> 0)"

definition storage_add_replica :: "storage \<Rightarrow> u32 \<Rightarrow> string option \<Rightarrow> u16 \<Rightarrow> (storage \<times> u32) \<times> int" where
  "storage_add_replica h next_replica_id address port =
     (case (h, address) of
        (Some d, Some a) \<Rightarrow>
          if length (ds_replicas d) \<ge> MAX_REPLICAS then ((h, next_replica_id), -1)
          else ((Some (d\<lparr>ds_replicas := ds_replicas d @ [\<lparr>rp_replica_id = next_replica_id, rp_replica_address = take 63 a,
                    rp_port = port, rp_state = REPLICA_STATE_SYNCING, rp_synced_offset = 0, rp_total_data_size = 0,
                    rp_replication_lag_ms = 0, rp_last_sync_time = 0, rp_blocks_stored = 0, rp_sync_success_count = 0,
                    rp_sync_fail_count = 0\<rparr>]\<rparr>), next_replica_id + 1), 0)
      | _ \<Rightarrow> ((h, next_replica_id), -1))"

definition find_replica :: "u32 \<Rightarrow> DistributedStorage \<Rightarrow> nat option" where
  "find_replica replica_id d = first_idx (\<lambda>r. rp_replica_id r = replica_id) (ds_replicas d)"

definition on_replica :: "storage \<Rightarrow> u32 \<Rightarrow> (DistributedStorage \<Rightarrow> Replica \<Rightarrow> Replica) \<Rightarrow> storage \<times> int" where
  "on_replica h replica_id f = with_handle (-1) h (\<lambda>d.
     case find_replica replica_id d of None \<Rightarrow> (d, -1)
     | Some i \<Rightarrow> (d\<lparr>ds_replicas := (ds_replicas d)[i := f d (ds_replicas d ! i)]\<rparr>, 0))"

definition storage_remove_replica :: "storage \<Rightarrow> u32 \<Rightarrow> storage \<times> int" where
  "storage_remove_replica h replica_id = on_replica h replica_id (\<lambda>d r. r\<lparr>rp_state := REPLICA_STATE_FAILED\<rparr>)"

definition storage_check_replica_health :: "Replica option \<Rightarrow> Replica option \<times> int" where
  "storage_check_replica_health replica =
     (case replica of None \<Rightarrow> (None, -1)
      | Some r \<Rightarrow>
          (Some (if rp_replication_lag_ms r > 5000 then r\<lparr>rp_state := REPLICA_STATE_LAGGING\<rparr>
                 else if rp_state r = REPLICA_STATE_SYNCING \<and> rp_replication_lag_ms r = 0 then r\<lparr>rp_state := REPLICA_STATE_SYNCED\<rparr>
                 else r), 0))"

definition storage_start_replication :: "storage \<Rightarrow> u32 \<Rightarrow> u32 \<Rightarrow> u32 \<Rightarrow> (storage \<times> u32) \<times> int" where
  "storage_start_replication h next_job_id source_replica_id target_replica_id =
     (case h of None \<Rightarrow> ((h, next_job_id), -1)
      | Some d \<Rightarrow>
          if length (ds_replication_jobs d) \<ge> MAX_REPLICATION_JOBS then ((h, next_job_id), -1)
          else ((Some (d\<lparr>ds_replication_jobs := ds_replication_jobs d @ [\<lparr>rj_replication_job_id = next_job_id,
                    rj_source_replica_id = source_replica_id, rj_target_replica_id = target_replica_id,
                    rj_blocks_to_replicate = of_nat (length (ds_data_blocks d)), rj_blocks_replicated = 0,
                    rj_start_time = 0, rj_end_time = 0, rj_completed = False\<rparr>]\<rparr>), next_job_id + 1), 0))"

definition synced :: "DistributedStorage \<Rightarrow> Replica \<Rightarrow> Replica" where
  "synced d r = r\<lparr>rp_synced_offset := of_nat (length (ds_data_blocks d)), rp_blocks_stored := of_nat (length (ds_data_blocks d)),
     rp_replication_lag_ms := 0, rp_state := REPLICA_STATE_SYNCED, rp_sync_success_count := rp_sync_success_count r + 1\<rparr>"

definition storage_sync_replica :: "storage \<Rightarrow> u32 \<Rightarrow> storage \<times> int" where
  "storage_sync_replica h replica_id = on_replica h replica_id synced"

definition storage_handle_replica_failure :: "storage \<Rightarrow> u32 \<Rightarrow> storage \<times> int" where
  "storage_handle_replica_failure h replica_id = on_replica h replica_id
     (\<lambda>d r. r\<lparr>rp_state := REPLICA_STATE_FAILED, rp_sync_fail_count := rp_sync_fail_count r + 1\<rparr>)"

definition storage_recover_replica :: "storage \<Rightarrow> u32 \<Rightarrow> storage \<times> int" where
  "storage_recover_replica h replica_id =
     (case on_replica h replica_id (\<lambda>d r. r\<lparr>rp_state := REPLICA_STATE_RECOVERING\<rparr>) of
        (h1, r) \<Rightarrow> if r = 0 then (fst (storage_sync_replica h1 replica_id), 0) else (h1, r))"

section \<open>Data\<close>

fun start_jobs :: "storage \<times> u32 \<Rightarrow> u32 list \<Rightarrow> storage \<times> u32" where
  "start_jobs s [] = s"
| "start_jobs (h, next_job_id) (r # rs) = start_jobs (fst (storage_start_replication h next_job_id 0 r)) rs"

definition storage_put ::
    "storage \<Rightarrow> u32 \<Rightarrow> string option \<Rightarrow> u8 list option \<Rightarrow> u64 \<Rightarrow> ((storage \<times> u32) \<times> int) outcome" where
  "storage_put h next_job_id key value value_size =
     (case (h, key, value) of
        (Some d, Some k, Some v) \<Rightarrow>
          if unat value_size > MAX_VALUE_LEN \<or> length (ds_data_blocks d) \<ge> MAX_DATA_BLOCKS then Done ((h, next_job_id), -1)
          else if length v < unat value_size then Undef
          else
            let n = (if unat (ds_replication_factor d) < length (ds_replicas d) then unat (ds_replication_factor d)
                     else length (ds_replicas d));
                block = \<lparr>db_key = take (MAX_KEY_LEN - 1) k, db_value = take (unat value_size) v, db_value_size = value_size,
                  db_version = 1, db_created_timestamp = 0, db_modified_timestamp = 0,
                  db_replicas = map rp_replica_id (take n (ds_replicas d)), db_is_tombstone = False\<rparr>;
                d1 = d\<lparr>ds_data_blocks := ds_data_blocks d @ [block], ds_total_write_ops := ds_total_write_ops d + 1,
                  ds_total_bytes_replicated := ds_total_bytes_replicated d + value_size * of_nat n\<rparr>
            in Done (start_jobs (Some d1, next_job_id) (db_replicas block), 0)
      | _ \<Rightarrow> Done ((h, next_job_id), -1))"

definition find_live :: "string \<Rightarrow> DistributedStorage \<Rightarrow> nat option" where
  "find_live k d = first_idx (\<lambda>b. db_key b = k \<and> \<not> db_is_tombstone b) (ds_data_blocks d)"

text \<open>\<open>room\<close> is the size of the caller's buffer.\<close>

definition storage_get ::
    "storage \<Rightarrow> string option \<Rightarrow> nat option \<Rightarrow> bool \<Rightarrow> (storage \<times> int \<times> (u8 list \<times> u64) option) outcome" where
  "storage_get h key value value_size = with_handle_ub (-1, None) h (\<lambda>d.
     case (key, value) of
       (Some k, Some room) \<Rightarrow>
         if \<not> value_size then Done (d, -1, None)
         else (case find_live k d of None \<Rightarrow> Done (d, -1, None)
         | Some i \<Rightarrow>
             let b = ds_data_blocks d ! i in
             if room < unat (db_value_size b) then Undef
             else Done (d\<lparr>ds_total_read_ops := ds_total_read_ops d + 1\<rparr>, 0,
                        Some (take (unat (db_value_size b)) (db_value b), db_value_size b)))
     | _ \<Rightarrow> Done (d, -1, None))"

definition storage_delete :: "storage \<Rightarrow> string option \<Rightarrow> storage \<times> int" where
  "storage_delete h key = with_handle (-1) h (\<lambda>d.
     case key of None \<Rightarrow> (d, -1)
     | Some k \<Rightarrow>
         (case first_idx (\<lambda>b. db_key b = k) (ds_data_blocks d) of None \<Rightarrow> (d, -1)
          | Some i \<Rightarrow> (d\<lparr>ds_data_blocks := (ds_data_blocks d)[i := (ds_data_blocks d ! i)\<lparr>db_is_tombstone := True\<rparr>],
                        ds_total_delete_ops := ds_total_delete_ops d + 1\<rparr>, 0)))"

definition storage_exists :: "storage \<Rightarrow> string option \<Rightarrow> int" where
  "storage_exists h key = read_handle (-1) h (\<lambda>d.
     case key of None \<Rightarrow> -1 | Some k \<Rightarrow> if find_live k d = None then 0 else 1)"

definition storage_quorum_read ::
    "storage \<Rightarrow> string option \<Rightarrow> nat option \<Rightarrow> bool \<Rightarrow> (storage \<times> int \<times> (u8 list \<times> u64) option) outcome" where
  "storage_quorum_read h key value value_size =
     (if h = None \<or> key = None then Done (h, -1, None) else storage_get h key value value_size)"

definition storage_quorum_write ::
    "storage \<Rightarrow> u32 \<Rightarrow> string option \<Rightarrow> u8 list option \<Rightarrow> u64 \<Rightarrow> ((storage \<times> u32) \<times> int) outcome" where
  "storage_quorum_write h next_job_id key value value_size =
     (if h = None \<or> key = None then Done ((h, next_job_id), -1) else storage_put h next_job_id key value value_size)"

section \<open>Queries and maintenance\<close>

text \<open>The order of \<open>strcmp\<close>: by the codes of the characters, as unsigned numbers.\<close>

fun strcmp_le :: "string \<Rightarrow> string \<Rightarrow> bool" where
  "strcmp_le [] t \<longleftrightarrow> True"
| "strcmp_le (c # s) [] \<longleftrightarrow> False"
| "strcmp_le (c # s) (e # t) \<longleftrightarrow> (of_char c :: nat) < of_char e \<or> c = e \<and> strcmp_le s t"

fun range_loop :: "string \<Rightarrow> string \<Rightarrow> nat \<Rightarrow> DataBlock list \<Rightarrow> DataBlock list" where
  "range_loop lo hi room [] = []"
| "range_loop lo hi room (b # bs) =
     (if room = 0 then []
      else if strcmp_le lo (db_key b) \<and> strcmp_le (db_key b) hi \<and> \<not> db_is_tombstone b
      then b # range_loop lo hi (room - 1) bs else range_loop lo hi room bs)"

definition storage_range_query :: "storage \<Rightarrow> RangeQuery option \<Rightarrow> bool \<Rightarrow> RangeQuery option \<times> int" where
  "storage_range_query h query malloc_ok =
     (case (h, query) of
        (Some d, Some q) \<Rightarrow>
          if \<not> malloc_ok then (Some (q\<lparr>rq_results := []\<rparr>), -1)
          else (Some (q\<lparr>rq_results := range_loop (rq_start_key q) (rq_end_key q) (unat (rq_limit q)) (ds_data_blocks d)\<rparr>), 0)
      | _ \<Rightarrow> (query, -1))"

text \<open>\<open>strstr\<close>: the pattern occurs somewhere.\<close>

fun occurs_in :: "string \<Rightarrow> string \<Rightarrow> bool" where
  "occurs_in p [] \<longleftrightarrow> p = []"
| "occurs_in p (c # s) \<longleftrightarrow> take (length p) (c # s) = p \<or> occurs_in p s"

definition storage_scan_keys :: "storage \<Rightarrow> string option \<Rightarrow> bool \<Rightarrow> bool \<Rightarrow> bool \<Rightarrow> int \<times> DataBlock list" where
  "storage_scan_keys h pattern results result_count malloc_ok = read_handle (-1, []) h (\<lambda>d.
     case pattern of None \<Rightarrow> (-1, [])
     | Some p \<Rightarrow>
         if \<not> results \<or> \<not> result_count \<or> \<not> malloc_ok then (-1, [])
         else (0, filter (\<lambda>b. occurs_in p (db_key b) \<and> \<not> db_is_tombstone b) (ds_data_blocks d)))"

definition storage_set_ttl :: "storage \<Rightarrow> string option \<Rightarrow> u32 \<Rightarrow> int" where
  "storage_set_ttl h key ttl_seconds = read_handle (-1) h (\<lambda>d.
     case key of None \<Rightarrow> -1
     | Some k \<Rightarrow> if first_idx (\<lambda>b. db_key b = k) (ds_data_blocks d) = None then -1 else 0)"

definition storage_expire_old_keys :: "storage \<Rightarrow> int" where
  "storage_expire_old_keys h = read_handle (-1) h (\<lambda>d. 0)"

definition storage_compact :: "storage \<Rightarrow> int" where
  "storage_compact h = read_handle (-1) h (\<lambda>d. 0)"

definition storage_defragment :: "storage \<Rightarrow> int" where
  "storage_defragment h = read_handle (-1) h (\<lambda>d. 0)"

definition storage_cleanup_tombstones :: "storage \<Rightarrow> storage \<times> int" where
  "storage_cleanup_tombstones h = with_handle (-1) h (\<lambda>d.
     (d\<lparr>ds_data_blocks := compact (\<lambda>b. \<not> db_is_tombstone b) (\<lambda>b. b) (ds_data_blocks d)\<rparr>, 0))"

definition storage_get_metrics :: "storage \<Rightarrow> bool \<Rightarrow> int \<times> StorageMetrics option" where
  "storage_get_metrics h metrics = read_handle (-1, None) h (\<lambda>d.
     if \<not> metrics then (-1, None)
     else (0, Some \<lparr>sm_node_id = ds_storage_node_id d, sm_total_keys = of_nat (length (ds_data_blocks d)),
        sm_total_replicas = of_nat (length (ds_replicas d)),
        sm_healthy_replicas = foldl (\<lambda>n r. if rp_state r = REPLICA_STATE_SYNCED then n + 1 else n) 0 (ds_replicas d),
        sm_total_data_size = foldl (\<lambda>n b. n + db_value_size b) 0 (ds_data_blocks d)\<rparr>))"

definition storage_get_replication_lag :: "storage \<Rightarrow> int" where
  "storage_get_replication_lag h = read_handle (-1) h (\<lambda>d.
     sint (foldl (\<lambda>max_lag r. if rp_replication_lag_ms r > max_lag then rp_replication_lag_ms r else max_lag) 0 (ds_replicas d)))"

section \<open>Queues with one deletion\<close>

text \<open>
  What the blocks mean: for every key the values that were put and not deleted, oldest first, and
  whether its deletion is used up.
\<close>

record piles =
  pl_live :: "string \<Rightarrow> u8 list list"
  pl_used :: "string set"
  pl_blocks :: nat

datatype storage_call =
  Put string "u8 list" | Get string | Delete string | Exists string | SetTtl string u32 | Cleanup
  | QuorumWrite string "u8 list" | QuorumRead string | AddReplica string u16 | RemoveReplica u32 | SyncReplica u32
  | FailReplica u32 | RecoverReplica u32

datatype storage_reply = Code int | Value int "(u8 list \<times> u64) option"

record storage_state =
  sg_storage :: DistributedStorage
  sg_next_replica :: u32
  sg_next_job :: u32

abbreviation sg_handle :: "storage_state \<Rightarrow> storage" where "sg_handle s \<equiv> Some (sg_storage s)"

definition after_put :: "storage_state \<Rightarrow> ((storage \<times> u32) \<times> int) outcome \<Rightarrow> storage_state \<times> storage_reply" where
  "after_put s x = (case x of Undef \<Rightarrow> (s, Code (-2))
     | Done ((h, nx), r) \<Rightarrow> (s\<lparr>sg_storage := the h, sg_next_job := nx\<rparr>, Code r))"

definition after_get :: "storage_state \<Rightarrow> (storage \<times> int \<times> (u8 list \<times> u64) option) outcome \<Rightarrow> storage_state \<times> storage_reply" where
  "after_get s x = (case x of Undef \<Rightarrow> (s, Code (-2)) | Done (h, r, out) \<Rightarrow> (s\<lparr>sg_storage := the h\<rparr>, Value r out))"

definition after_change :: "storage_state \<Rightarrow> storage \<times> int \<Rightarrow> storage_state \<times> storage_reply" where
  "after_change s x = (s\<lparr>sg_storage := the (fst x)\<rparr>, Code (snd x))"

text \<open>Calls with sizes that match and a buffer for the largest value.\<close>

fun storage_step :: "storage_state \<Rightarrow> storage_call \<Rightarrow> storage_state \<times> storage_reply" where
  "storage_step s (Put k v) = after_put s (storage_put (sg_handle s) (sg_next_job s) (Some k) (Some v) (of_nat (length v)))"
| "storage_step s (Get k) = after_get s (storage_get (sg_handle s) (Some k) (Some MAX_VALUE_LEN) True)"
| "storage_step s (Delete k) = after_change s (storage_delete (sg_handle s) (Some k))"
| "storage_step s (Exists k) = (s, Code (storage_exists (sg_handle s) (Some k)))"
| "storage_step s (SetTtl k n) = (s, Code (storage_set_ttl (sg_handle s) (Some k) n))"
| "storage_step s Cleanup = after_change s (storage_cleanup_tombstones (sg_handle s))"
| "storage_step s (QuorumWrite k v) = after_put s (storage_quorum_write (sg_handle s) (sg_next_job s) (Some k) (Some v) (of_nat (length v)))"
| "storage_step s (QuorumRead k) = after_get s (storage_quorum_read (sg_handle s) (Some k) (Some MAX_VALUE_LEN) True)"
| "storage_step s (AddReplica a p) =
     (let ((h, nx), r) = storage_add_replica (sg_handle s) (sg_next_replica s) (Some a) p
      in (s\<lparr>sg_storage := the h, sg_next_replica := nx\<rparr>, Code 0))"
| "storage_step s (RemoveReplica i) = (fst (after_change s (storage_remove_replica (sg_handle s) i)), Code 0)"
| "storage_step s (SyncReplica i) = (fst (after_change s (storage_sync_replica (sg_handle s) i)), Code 0)"
| "storage_step s (FailReplica i) = (fst (after_change s (storage_handle_replica_failure (sg_handle s) i)), Code 0)"
| "storage_step s (RecoverReplica i) = (fst (after_change s (storage_recover_replica (sg_handle s) i)), Code 0)"

text \<open>The replies of calls on replicas are not part of the contract; they do not touch the data.\<close>

definition put_pile :: "piles \<Rightarrow> string \<Rightarrow> u8 list \<Rightarrow> piles \<times> storage_reply" where
  "put_pile a k v =
     (if length v > 1048576 \<or> pl_blocks a \<ge> 100000 then (a, Code (-1))
      else (a\<lparr>pl_live := (pl_live a)(take 255 k := pl_live a (take 255 k) @ [v]), pl_blocks := pl_blocks a + 1\<rparr>, Code 0))"

definition get_pile :: "piles \<Rightarrow> string \<Rightarrow> piles \<times> storage_reply" where
  "get_pile a k = (a, case pl_live a k of [] \<Rightarrow> Value (-1) None | v # vs \<Rightarrow> Value 0 (Some (v, of_nat (length v))))"

fun storage_spec :: "piles \<Rightarrow> storage_call \<Rightarrow> piles \<times> storage_reply" where
  "storage_spec a (Put k v) = put_pile a k v"
| "storage_spec a (QuorumWrite k v) = put_pile a k v"
| "storage_spec a (Get k) = get_pile a k"
| "storage_spec a (QuorumRead k) = get_pile a k"
| "storage_spec a (Delete k) =
     (if k \<in> pl_used a then (a, Code 0)
      else case pl_live a k of [] \<Rightarrow> (a, Code (-1))
      | v # vs \<Rightarrow> (a\<lparr>pl_live := (pl_live a)(k := vs), pl_used := insert k (pl_used a)\<rparr>, Code 0))"
| "storage_spec a (Exists k) = (a, Code (if pl_live a k = [] then 0 else 1))"
| "storage_spec a (SetTtl k n) = (a, Code (if k \<in> pl_used a \<or> pl_live a k \<noteq> [] then 0 else -1))"
| "storage_spec a Cleanup = (a\<lparr>pl_used := {}, pl_blocks := pl_blocks a - card (pl_used a)\<rparr>, Code 0)"
| "storage_spec a _ = (a, Code 0)"

definition of_key :: "string \<Rightarrow> DataBlock list \<Rightarrow> DataBlock list" where
  "of_key k bs = filter (\<lambda>b. db_key b = k) bs"

definition block_ok :: "DataBlock \<Rightarrow> bool" where
  "block_ok b \<longleftrightarrow> unat (db_value_size b) = length (db_value b) \<and> length (db_value b) \<le> MAX_VALUE_LEN"

text \<open>Only the first block of a key can be a tombstone.\<close>

definition blocks_ok :: "DataBlock list \<Rightarrow> bool" where
  "blocks_ok bs \<longleftrightarrow> list_all block_ok bs \<and> (\<forall>k. list_all (\<lambda>b. \<not> db_is_tombstone b) (tl (of_key k bs)))"

definition storage_inv :: "storage_state \<Rightarrow> bool" where
  "storage_inv s \<longleftrightarrow> blocks_ok (ds_data_blocks (sg_storage s))"

definition live_values :: "string \<Rightarrow> DataBlock list \<Rightarrow> u8 list list" where
  "live_values k bs = map db_value (filter (\<lambda>b. \<not> db_is_tombstone b) (of_key k bs))"

definition used_keys :: "DataBlock list \<Rightarrow> string set" where
  "used_keys bs = db_key ` {b \<in> set bs. db_is_tombstone b}"

definition blocks_abs :: "DataBlock list \<Rightarrow> piles" where
  "blocks_abs bs = \<lparr>pl_live = (\<lambda>k. live_values k bs), pl_used = used_keys bs, pl_blocks = length bs\<rparr>"

definition storage_abs :: "storage_state \<Rightarrow> piles" where
  "storage_abs s = blocks_abs (ds_data_blocks (sg_storage s))"

section \<open>The storage refines the queues\<close>

lemma of_key_simps [simp]: "of_key k [] = []" "of_key k (b # bs) = (if db_key b = k then b # of_key k bs else of_key k bs)"
  "of_key k (bs @ cs) = of_key k bs @ of_key k cs"
  by (simp_all add: of_key_def)

lemma first_idx_of_key: "first_idx (\<lambda>b. db_key b = k) bs = None \<longleftrightarrow> of_key k bs = []"
  by (auto simp: first_idx_None of_key_def filter_empty_conv)

lemma of_key_update:
  assumes "first_idx (\<lambda>b. db_key b = k) bs = Some i" and "db_key c = k"
  shows "of_key k (bs[i := c]) = c # tl (of_key k bs)" and "of_key k bs = (bs ! i) # tl (of_key k bs)"
    and "j \<noteq> k \<Longrightarrow> of_key j (bs[i := c]) = of_key j bs"
proof -
  have "of_key k (bs[i := c]) = c # tl (of_key k bs) \<and> of_key k bs = (bs ! i) # tl (of_key k bs) \<and>
      (j \<noteq> k \<longrightarrow> of_key j (bs[i := c]) = of_key j bs)"
    using assms(1)
  proof (induction bs arbitrary: i)
    case (Cons b bs)
    show ?case
    proof (cases "db_key b = k")
      case True
      with Cons.prems assms(2) show ?thesis by simp
    next
      case False
      with Cons.prems obtain n where n: "first_idx (\<lambda>b. db_key b = k) bs = Some n" "i = Suc n" by auto
      from Cons.IH [OF n(1)] False n(2) show ?thesis by simp
    qed
  qed simp
  then show "of_key k (bs[i := c]) = c # tl (of_key k bs)" and "of_key k bs = (bs ! i) # tl (of_key k bs)"
    and "j \<noteq> k \<Longrightarrow> of_key j (bs[i := c]) = of_key j bs" by blast+
qed

lemma used_of_key: "k \<in> used_keys bs \<longleftrightarrow> list_ex db_is_tombstone (of_key k bs)"
  by (auto simp: used_keys_def of_key_def list_ex_iff)

lemma find_live_values:
  assumes "find_live k d = Some i"
  shows "live_values k (ds_data_blocks d) = db_value (ds_data_blocks d ! i) # tl (live_values k (ds_data_blocks d))"
    and "ds_data_blocks d ! i \<in> set (ds_data_blocks d)"
proof -
  have f: "find (\<lambda>b. db_key b = k \<and> \<not> db_is_tombstone b) (ds_data_blocks d) = Some (ds_data_blocks d ! i)"
    using first_idx_find_Some assms by (simp add: find_live_def)
  have "find P xs = Some x \<Longrightarrow> \<exists>ys. filter P xs = x # ys" for P and xs :: "DataBlock list" and x
    by (induction xs) auto
  from this [OF f] have "\<exists>ys. filter (\<lambda>b. \<not> db_is_tombstone b) (of_key k (ds_data_blocks d)) = ds_data_blocks d ! i # ys"
    by (simp add: of_key_def filter_filter conj_commute)
  then show "live_values k (ds_data_blocks d) = db_value (ds_data_blocks d ! i) # tl (live_values k (ds_data_blocks d))"
    by (auto simp: live_values_def)
  show "ds_data_blocks d ! i \<in> set (ds_data_blocks d)" using assms first_idx_SomeD(3) by (auto simp: find_live_def)
qed

lemma find_live_None: "find_live k d = None \<longleftrightarrow> live_values k (ds_data_blocks d) = []"
  by (auto simp: find_live_def first_idx_None live_values_def of_key_def filter_empty_conv)

lemma storage_get_sim:
  assumes "blocks_ok (ds_data_blocks (sg_storage s))"
    and "after_get s (storage_get (sg_handle s) (Some k) (Some MAX_VALUE_LEN) True) = (s', r)"
  shows "storage_inv s' \<and> get_pile (storage_abs s) k = (storage_abs s', r)"
proof (cases "find_live k (sg_storage s)")
  case None
  with assms find_live_None [of k "sg_storage s"] show ?thesis
    by (auto simp: after_get_def storage_get_def with_handle_ub_def get_pile_def storage_abs_def blocks_abs_def storage_inv_def)
next
  case (Some i)
  let ?b = "ds_data_blocks (sg_storage s) ! i"
  note live = find_live_values [OF Some]
  have "block_ok ?b" using assms(1) live(2) by (auto simp: blocks_ok_def list_all_iff)
  then have b: "unat (db_value_size ?b) = length (db_value ?b)" "length (db_value ?b) \<le> MAX_VALUE_LEN" by (simp_all add: block_ok_def)
  have "of_nat (length (db_value ?b)) = db_value_size ?b" by (simp flip: b(1))
  with b assms Some have "s' = s\<lparr>sg_storage := (sg_storage s)\<lparr>ds_total_read_ops := ds_total_read_ops (sg_storage s) + 1\<rparr>\<rparr>"
    and "r = Value 0 (Some (db_value ?b, of_nat (length (db_value ?b))))"
    by (auto simp: after_get_def storage_get_def with_handle_ub_def Let_def)
  moreover have "pl_live (storage_abs s) k = db_value ?b # tl (live_values k (ds_data_blocks (sg_storage s)))"
    using live(1) by (simp add: storage_abs_def blocks_abs_def)
  ultimately show ?thesis using assms(1) by (simp add: get_pile_def storage_inv_def storage_abs_def)
qed

lemma start_jobs_blocks:
  "\<exists>e nx'. start_jobs (Some d, nx) rs = (Some e, nx') \<and> ds_data_blocks e = ds_data_blocks d"
proof (induction rs arbitrary: d nx)
  case (Cons r rs)
  obtain d1 nx1 where "fst (storage_start_replication (Some d) nx 0 r) = (Some d1, nx1)" "ds_data_blocks d1 = ds_data_blocks d"
    by (cases "MAX_REPLICATION_JOBS \<le> length (ds_replication_jobs d)") (auto simp: storage_start_replication_def)
  with Cons.IH [of d1 nx1] show ?case by auto
qed simp

lemma blocks_snoc:
  assumes "blocks_ok bs" and "block_ok b" and "\<not> db_is_tombstone b"
  shows "blocks_ok (bs @ [b])"
    and "blocks_abs (bs @ [b]) = (blocks_abs bs)\<lparr>pl_live := (pl_live (blocks_abs bs))(db_key b := pl_live (blocks_abs bs) (db_key b) @ [db_value b]),
      pl_blocks := pl_blocks (blocks_abs bs) + 1\<rparr>"
proof -
  have "list_all (\<lambda>b. \<not> db_is_tombstone b) (tl (of_key k bs @ [b]))" for k
    using assms(1,3) by (cases "of_key k bs") (auto simp: blocks_ok_def dest: spec [of _ k])
  with assms show "blocks_ok (bs @ [b])" by (auto simp: blocks_ok_def)
  have "{c. (c = b \<or> c \<in> set bs) \<and> db_is_tombstone c} = {c \<in> set bs. db_is_tombstone c}" using assms(3) by auto
  with assms(3)
  show "blocks_abs (bs @ [b]) = (blocks_abs bs)\<lparr>pl_live := (pl_live (blocks_abs bs))(db_key b := pl_live (blocks_abs bs) (db_key b) @ [db_value b]),
      pl_blocks := pl_blocks (blocks_abs bs) + 1\<rparr>"
    by (auto simp: blocks_abs_def live_values_def used_keys_def fun_eq_iff)
qed

lemma storage_put_sim:
  assumes "blocks_ok (ds_data_blocks (sg_storage s))" and "length v < 18446744073709551616"
    and "after_put s (storage_put (sg_handle s) (sg_next_job s) (Some k) (Some v) (of_nat (length v))) = (s', r)"
  shows "storage_inv s' \<and> put_pile (storage_abs s) k v = (storage_abs s', r)"
proof -
  let ?bs = "ds_data_blocks (sg_storage s)"
  have n: "unat (of_nat (length v) :: u64) = length v" using assms(2) by (rule unat_of_nat_u64)
  show ?thesis
  proof (cases "length v > MAX_VALUE_LEN \<or> length ?bs \<ge> MAX_DATA_BLOCKS")
    case True
    with assms n show ?thesis
      by (auto simp: after_put_def storage_put_def put_pile_def storage_abs_def blocks_abs_def storage_inv_def MAX_VALUE_LEN_def MAX_DATA_BLOCKS_def)
  next
    case False
    obtain ids where "ds_data_blocks (sg_storage s') = ?bs @ [\<lparr>db_key = take 255 k, db_value = v, db_value_size = of_nat (length v),
        db_version = 1, db_created_timestamp = 0, db_modified_timestamp = 0, db_replicas = ids, db_is_tombstone = False\<rparr>]"
      and "r = Code 0"
    proof -
      let ?n = "if unat (ds_replication_factor (sg_storage s)) < length (ds_replicas (sg_storage s))
        then unat (ds_replication_factor (sg_storage s)) else length (ds_replicas (sg_storage s))"
      let ?ids = "map rp_replica_id (take ?n (ds_replicas (sg_storage s)))"
      let ?b = "\<lparr>db_key = take 255 k, db_value = v, db_value_size = of_nat (length v), db_version = 1, db_created_timestamp = 0,
        db_modified_timestamp = 0, db_replicas = ?ids, db_is_tombstone = False\<rparr>"
      let ?d = "(sg_storage s)\<lparr>ds_data_blocks := ?bs @ [?b], ds_total_write_ops := ds_total_write_ops (sg_storage s) + 1,
        ds_total_bytes_replicated := ds_total_bytes_replicated (sg_storage s) + of_nat (length v) * of_nat ?n\<rparr>"
      obtain e nx where e: "start_jobs (Some ?d, sg_next_job s) ?ids = (Some e, nx)" "ds_data_blocks e = ds_data_blocks ?d"
        using start_jobs_blocks by blast
      have "storage_put (sg_handle s) (sg_next_job s) (Some k) (Some v) (of_nat (length v)) = Done ((Some e, nx), 0)"
        using False n e(1) by (simp add: storage_put_def Let_def MAX_KEY_LEN_def)
      with assms(3) e(2) show thesis by (intro that [of ?ids]) (auto simp: after_put_def)
    qed
    with blocks_snoc [OF assms(1), of "\<lparr>db_key = take 255 k, db_value = v, db_value_size = of_nat (length v),
        db_version = 1, db_created_timestamp = 0, db_modified_timestamp = 0, db_replicas = ids, db_is_tombstone = False\<rparr>"] False n
    show ?thesis
      by (simp add: storage_inv_def storage_abs_def put_pile_def block_ok_def MAX_VALUE_LEN_def MAX_DATA_BLOCKS_def)
        (simp add: blocks_abs_def)
  qed
qed

lemma storage_delete_sim:
  assumes "blocks_ok (ds_data_blocks (sg_storage s))" and "storage_step s (Delete k) = (s', r)"
  shows "storage_inv s' \<and> storage_spec (storage_abs s) (Delete k) = (storage_abs s', r)"
proof (cases "first_idx (\<lambda>b. db_key b = k) (ds_data_blocks (sg_storage s))")
  case None
  then have "of_key k (ds_data_blocks (sg_storage s)) = []" by (simp add: first_idx_of_key)
  then have "k \<notin> pl_used (storage_abs s)" "pl_live (storage_abs s) k = []"
    by (simp_all add: storage_abs_def blocks_abs_def used_of_key live_values_def)
  with None assms show ?thesis by (auto simp: after_change_def storage_delete_def with_handle_Some storage_inv_def)
next
  case (Some i)
  let ?bs = "ds_data_blocks (sg_storage s)"
  let ?b = "?bs ! i" and ?c = "(?bs ! i)\<lparr>db_is_tombstone := True\<rparr>"
  have i: "i < length ?bs" "db_key ?b = k" using first_idx_SomeD [OF Some] by auto
  then have "db_key ?c = k" by simp
  note upd = of_key_update [OF Some this]
  have rest: "list_all (\<lambda>b. \<not> db_is_tombstone b) (tl (of_key k ?bs))" using assms(1) by (simp add: blocks_ok_def)
  then have clean: "filter (\<lambda>b. \<not> db_is_tombstone b) (tl (of_key k ?bs)) = tl (of_key k ?bs)" "\<not> list_ex db_is_tombstone (tl (of_key k ?bs))"
    by (auto simp: list_all_iff list_ex_iff filter_id_conv)
  have s': "ds_data_blocks (sg_storage s') = ?bs[i := ?c]" "r = Code 0"
    using Some assms(2) by (auto simp: after_change_def storage_delete_def with_handle_Some)
  have "block_ok ?c" using assms(1) i by (simp add: blocks_ok_def list_all_length block_ok_def)
  then have "blocks_ok (?bs[i := ?c])"
    using assms(1) upd(1) upd(3) by (auto simp: blocks_ok_def list_all_update) (metis list.sel(3))
  moreover have live: "live_values j (?bs[i := ?c]) = (if j = k then map db_value (tl (of_key k ?bs)) else live_values j ?bs)" for j
    using upd(1) upd(3) [of j] clean by (simp add: live_values_def)
  moreover have used: "used_keys (?bs[i := ?c]) = insert k (used_keys ?bs)"
  proof (rule set_eqI)
    fix j
    show "j \<in> used_keys (?bs[i := ?c]) \<longleftrightarrow> j \<in> insert k (used_keys ?bs)"
      using upd(1) upd(3) [of j] by (cases "j = k") (simp_all add: used_of_key)
  qed
  moreover have "k \<in> used_keys ?bs \<longleftrightarrow> db_is_tombstone ?b"
    unfolding used_of_key by (subst upd(2)) (simp add: clean(2))
  moreover have "live_values k ?bs = (if db_is_tombstone ?b then [] else [db_value ?b]) @ map db_value (tl (of_key k ?bs))"
    using clean(1) unfolding live_values_def by (subst upd(2)) simp
  ultimately show ?thesis
    by (auto simp: storage_inv_def storage_abs_def blocks_abs_def s' fun_eq_iff insert_absorb)
qed

lemma distinct_keys:
  assumes "\<And>k. length (filter (\<lambda>x. f x = k) xs) \<le> 1"
  shows "distinct (map f xs)"
  using assms
proof (induction xs)
  case (Cons x xs)
  have "length (filter (\<lambda>y. f y = k) xs) \<le> 1" for k using Cons.prems [of k] by (auto split: if_splits)
  moreover have "filter (\<lambda>y. f y = f x) xs = []" using Cons.prems [of "f x"] by simp
  ultimately show ?case using Cons.IH by (auto simp: filter_empty_conv)
qed simp

lemma used_card:
  assumes "blocks_ok bs"
  shows "card (used_keys bs) = length (filter db_is_tombstone bs)"
proof -
  have "length (filter (\<lambda>b. db_key b = k) (filter db_is_tombstone bs)) \<le> 1" for k
  proof -
    have "filter db_is_tombstone (tl (of_key k bs)) = []"
      using assms by (auto simp: blocks_ok_def list_all_iff filter_empty_conv)
    then have "length (filter db_is_tombstone (of_key k bs)) \<le> 1" by (cases "of_key k bs") auto
    then show ?thesis by (simp add: of_key_def filter_filter conj_commute)
  qed
  then have "distinct (map db_key (filter db_is_tombstone bs))" by (rule distinct_keys)
  from distinct_card [OF this] show ?thesis by (simp add: used_keys_def)
qed

lemma cleanup_sim:
  assumes "blocks_ok (ds_data_blocks (sg_storage s))" and "storage_step s Cleanup = (s', r)"
  shows "storage_inv s' \<and> storage_spec (storage_abs s) Cleanup = (storage_abs s', r)"
proof -
  let ?bs = "ds_data_blocks (sg_storage s)" and ?live = "filter (\<lambda>b. \<not> db_is_tombstone b)"
  have s': "ds_data_blocks (sg_storage s') = ?live ?bs" "r = Code 0"
    using assms(2) by (auto simp: after_change_def storage_cleanup_tombstones_def with_handle_Some compact_eq)
  have "list_all (\<lambda>b. \<not> db_is_tombstone b) (tl (of_key k (?live ?bs)))" for k
  proof -
    have "list_all (\<lambda>b. \<not> db_is_tombstone b) (of_key k (?live ?bs))" by (simp add: list_all_iff of_key_def)
    then show ?thesis by (cases "of_key k (?live ?bs)") simp_all
  qed
  moreover have "list_all block_ok (?live ?bs)" using assms(1) by (simp add: blocks_ok_def list_all_iff)
  ultimately have "blocks_ok (?live ?bs)" by (simp add: blocks_ok_def)
  moreover have "live_values k (?live ?bs) = live_values k ?bs" for k
    by (simp add: live_values_def of_key_def filter_filter conj_commute conj_left_commute)
  moreover have "used_keys (?live ?bs) = {}" by (auto simp: used_keys_def)
  moreover have "length (?live ?bs) = length ?bs - card (used_keys ?bs)"
    using sum_length_filter_compl [of db_is_tombstone ?bs] used_card [OF assms(1)] by simp
  ultimately show ?thesis by (simp add: storage_inv_def storage_abs_def blocks_abs_def s')
qed

lemma replica_blocks:
  "ds_data_blocks (the (fst (on_replica (Some d) i f))) = ds_data_blocks d"
  "\<exists>e r. on_replica (Some d) i f = (Some e, r)"
  by (auto simp: on_replica_def with_handle_Some split: option.split)

lemma recover_blocks: "ds_data_blocks (the (fst (storage_recover_replica (Some d) i))) = ds_data_blocks d"
proof -
  let ?f = "\<lambda>d r. r\<lparr>rp_state := REPLICA_STATE_RECOVERING\<rparr>"
  obtain e r where e: "on_replica (Some d) i ?f = (Some e, r)" using replica_blocks(2) by blast
  with replica_blocks(1) [of d i ?f] have "ds_data_blocks e = ds_data_blocks d" by simp
  with e replica_blocks(1) [of e i synced] show ?thesis by (simp add: storage_recover_replica_def storage_sync_replica_def)
qed

fun storage_fits :: "storage_call \<Rightarrow> bool" where
  "storage_fits (Put k v) \<longleftrightarrow> length v < 18446744073709551616"
| "storage_fits (QuorumWrite k v) \<longleftrightarrow> length v < 18446744073709551616"
| "storage_fits c \<longleftrightarrow> True"

lemma storage_simulation:
  assumes "storage_inv s" and "storage_fits c" and "storage_step s c = (s', r)"
  shows "storage_inv s' \<and> storage_spec (storage_abs s) c = (storage_abs s', r)"
proof -
  have ok: "blocks_ok (ds_data_blocks (sg_storage s))" using assms(1) by (simp add: storage_inv_def)
  have same: ?thesis if "ds_data_blocks (sg_storage s') = ds_data_blocks (sg_storage s)" and "storage_spec (storage_abs s) c = (storage_abs s, r)"
    using that assms(1) by (simp add: storage_inv_def storage_abs_def)
  show ?thesis
  proof (cases c)
    case (Put k v)
    with storage_put_sim [OF ok] assms show ?thesis by simp
  next
    case (QuorumWrite k v)
    with storage_put_sim [OF ok] assms show ?thesis by (simp add: storage_quorum_write_def)
  next
    case (Get k)
    with storage_get_sim [OF ok] assms show ?thesis by simp
  next
    case (QuorumRead k)
    with storage_get_sim [OF ok] assms show ?thesis by (simp add: storage_quorum_read_def)
  next
    case (Delete k)
    with storage_delete_sim [OF ok] assms show ?thesis by blast
  next
    case Cleanup
    with cleanup_sim [OF ok] assms show ?thesis by blast
  next
    case (Exists k)
    with assms same find_live_None [of k "sg_storage s"] show ?thesis
      by (auto simp: storage_exists_def storage_abs_def blocks_abs_def)
  next
    case (SetTtl k n)
    have any: "k \<in> used_keys bs \<or> live_values k bs \<noteq> [] \<longleftrightarrow> of_key k bs \<noteq> []" for bs
      by (cases "of_key k bs") (simp_all add: used_of_key live_values_def)
    show ?thesis
      by (rule same) (use SetTtl assms(3) any [of "ds_data_blocks (sg_storage s)"] in
        \<open>auto simp: storage_set_ttl_def storage_abs_def blocks_abs_def first_idx_of_key\<close>)
  next
    case (AddReplica a p)
    with assms same show ?thesis by (auto simp: storage_add_replica_def split: if_splits)
  next
    case (RemoveReplica i)
    with assms same replica_blocks show ?thesis by (auto simp: after_change_def storage_remove_replica_def)
  next
    case (SyncReplica i)
    with assms same replica_blocks show ?thesis by (auto simp: after_change_def storage_sync_replica_def)
  next
    case (FailReplica i)
    with assms same replica_blocks show ?thesis by (auto simp: after_change_def storage_handle_replica_failure_def)
  next
    case (RecoverReplica i)
    with assms same recover_blocks show ?thesis by (auto simp: after_change_def)
  qed
qed

interpretation storage: call_refinement storage_step storage_spec storage_abs storage_inv storage_fits
  by unfold_locales (rule storage_simulation)

section \<open>Queries\<close>

lemma range_loop_filter:
  "range_loop lo hi room bs = take room (filter (\<lambda>b. strcmp_le lo (db_key b) \<and> strcmp_le (db_key b) hi \<and> \<not> db_is_tombstone b) bs)"
  by (induction bs arbitrary: room) (auto simp: take_Cons')

lemma strcmp_le_total: "strcmp_le s t \<or> strcmp_le t s"
  by (induction s t rule: strcmp_le.induct) (auto simp: not_less order_le_less)

lemma strcmp_le_antisym: "strcmp_le s t \<Longrightarrow> strcmp_le t s \<Longrightarrow> s = t"
proof (induction s t rule: strcmp_le.induct)
  case (1 t)
  then show ?case by (cases t) auto
qed auto

lemma occurs_in_append: "occurs_in p s \<longleftrightarrow> (\<exists>a b. s = a @ p @ b)"
proof (induction s)
  case (Cons c s)
  have "take (length p) (c # s) = p \<longleftrightarrow> (\<exists>b. c # s = p @ b)" by (metis append_eq_conv_conj append_take_drop_id)
  moreover have "(\<exists>a b. c # s = a @ p @ b) \<longleftrightarrow> (\<exists>b. c # s = p @ b) \<or> (\<exists>a b. s = a @ p @ b)"
    by (metis append_Cons append_Nil list.inject neq_Nil_conv)
  ultimately show ?case using Cons.IH by simp
qed simp

section \<open>A deletion is made once\<close>

lemma used_stays:
  assumes "k \<in> pl_used a" and "c \<noteq> Cleanup"
  shows "k \<in> pl_used (fst (storage_spec a c)) \<and> (\<exists>ws. pl_live (fst (storage_spec a c)) k = pl_live a k @ ws)"
  using assms
  by (cases c) (auto simp: put_pile_def get_pile_def split: list.split)

lemma used_run:
  "k \<in> pl_used a \<Longrightarrow> Cleanup \<notin> set cs \<Longrightarrow>
   k \<in> pl_used (fst (call_run storage_spec a cs)) \<and> (\<exists>ws. pl_live (fst (call_run storage_spec a cs)) k = pl_live a k @ ws)"
proof (induction cs arbitrary: a)
  case (Cons c cs)
  obtain b r where b: "storage_spec a c = (b, r)" by fastforce
  with used_stays [of k a c] Cons.prems have "k \<in> pl_used b" "\<exists>ws. pl_live b k = pl_live a k @ ws" by auto
  with Cons.IH [of b] Cons.prems b show ?case by (auto split: prod.split)
qed simp

lemma delete_uses: "storage_spec a (Delete k) = (b, Code 0) \<Longrightarrow> k \<in> pl_used b"
  by (auto split: if_splits list.splits)

section \<open>Main theorems\<close>

definition storage_start :: storage_state where
  "storage_start = \<lparr>sg_storage = the (distributed_storage_init 1 REPLICATION_STRATEGY_QUORUM True True), sg_next_replica = 1, sg_next_job = 1\<rparr>"

definition piles_start :: piles where
  "piles_start = \<lparr>pl_live = (\<lambda>k. []), pl_used = {}, pl_blocks = 0\<rparr>"

lemma storage_start_abs: "storage_abs storage_start = piles_start" "storage_inv storage_start"
  by (simp_all add: storage_abs_def storage_start_def piles_start_def distributed_storage_init_def blocks_abs_def live_values_def
      used_keys_def storage_inv_def blocks_ok_def)

text \<open>
  Claim C28. Distributed storage. From a new storage, any history of calls gets the replies of a queue of
  values per key: a put appends (it never replaces), a read, of a quorum or not, gives the oldest value,
  the first deletion of a key removes the oldest value and further ones report success and remove
  nothing, until tombstones are cleaned up, which also makes the room of the deleted blocks available.
  Calls on replicas change no reply.
\<close>

theorem storage_refines_piles:
  assumes "list_all storage_fits calls"
  shows "snd (call_run storage_step storage_start calls) = snd (call_run storage_spec piles_start calls) \<and>
    storage_abs (fst (call_run storage_step storage_start calls)) = fst (call_run storage_spec piles_start calls)"
  using storage.run_results [OF storage_start_abs(2) assms] storage_start_abs(1) by simp

theorem storage_refines_piles_witness:
  "snd (call_run storage_step storage_start
     [AddReplica ''a'' 1, Put ''k'' [1], Put ''k'' [2], Get ''k'', Delete ''k'', Get ''k'', Delete ''k'', QuorumRead ''k'', Cleanup,
      Delete ''k'', Get ''k'']) =
   [Code 0, Code 0, Code 0, Value 0 (Some ([1], 1)), Code 0, Value 0 (Some ([2], 1)), Code 0, Value 0 (Some ([2], 1)), Code 0,
    Code 0, Value (-1) None]"
proof -
  let ?calls = "[AddReplica ''a'' 1, Put ''k'' [1], Put ''k'' [2], Get ''k'', Delete ''k'', Get ''k'', Delete ''k'', QuorumRead ''k'', Cleanup,
      Delete ''k'', Get ''k'']"
  have "snd (call_run storage_spec piles_start ?calls) =
   [Code 0, Code 0, Code 0, Value 0 (Some ([1], 1)), Code 0, Value 0 (Some ([2], 1)), Code 0, Value 0 (Some ([2], 1)), Code 0,
    Code 0, Value (-1) None]"
    by (simp add: piles_start_def put_pile_def get_pile_def)
  then show ?thesis using storage_refines_piles [of ?calls] by simp
qed

text \<open>
  Values that cannot be removed. When a key still has a value after it was deleted, then no
  further call short of cleaning up removes or replaces that value: every later read of the key gives it
  again, whatever is put and deleted in between.
\<close>

lemma storage_value_outlives_deletes:
  assumes "list_all storage_fits before" and "list_all storage_fits after" and "Cleanup \<notin> set after"
    and "storage_step (fst (call_run storage_step storage_start before)) (Delete k) = (s, Code 0)"
    and "snd (storage_step s (Get k)) = Value 0 (Some (v, n))"
  shows "snd (storage_step (fst (call_run storage_step s after)) (Get k)) = Value 0 (Some (v, n))"
proof -
  let ?a = "storage_abs (fst (call_run storage_step storage_start before))"
  have inv: "storage_inv (fst (call_run storage_step storage_start before))"
    using storage.run_results(3) [OF storage_start_abs(2) assms(1)] .
  from storage_simulation [OF inv _ assms(4)] have s: "storage_inv s" "storage_spec ?a (Delete k) = (storage_abs s, Code 0)" by simp_all
  then have used: "k \<in> pl_used (storage_abs s)" by (intro delete_uses)
  have get: "snd (storage_step t (Get k)) = snd (get_pile (storage_abs t) k)" if "storage_inv t" for t
    using storage_simulation [OF that, of "Get k"] by (cases "storage_step t (Get k)") auto
  note run = storage.run_results [OF s(1) assms(2)]
  from used_run [OF used assms(3)] run(2) obtain ws
    where "pl_live (storage_abs (fst (call_run storage_step s after))) k = pl_live (storage_abs s) k @ ws" by auto
  with get [OF s(1)] get [OF run(3)] assms(5) show ?thesis by (auto simp: get_pile_def split: list.splits)
qed

lemma storage_value_outlives_deletes_witness:
  "snd (storage_step (fst (call_run storage_step
      (fst (storage_step (fst (call_run storage_step storage_start [Put ''k'' [1], Put ''k'' [2]])) (Delete ''k'')))
      [Delete ''k'', Put ''k'' [3], Delete ''k''])) (Get ''k'')) = Value 0 (Some ([2], 1))"
proof -
  let ?s = "fst (storage_step (fst (call_run storage_step storage_start [Put ''k'' [1], Put ''k'' [2]])) (Delete ''k''))"
  note eval = storage_start_def distributed_storage_init_def after_put_def storage_put_def after_change_def storage_delete_def
    with_handle_Some MAX_VALUE_LEN_def MAX_DATA_BLOCKS_def MAX_KEY_LEN_def Let_def
  have d: "storage_step (fst (call_run storage_step storage_start [Put ''k'' [1], Put ''k'' [2]])) (Delete ''k'') = (?s, Code 0)"
    by (simp add: eval)
  have g: "snd (storage_step ?s (Get ''k'')) = Value 0 (Some ([2], 1))"
    by (simp add: eval after_get_def storage_get_def with_handle_ub_def find_live_def)
  from storage_value_outlives_deletes [OF _ _ _ d g, of "[Delete ''k'', Put ''k'' [3], Delete ''k'']"] show ?thesis by simp
qed

end
