(* ===== verification/Event_Reactor.thy ===== *)
theory Event_Reactor
  imports Service_Tables
begin

unbundle bit_operations_syntax

text \<open>
  The event reactor of \<open>src/async-io-multiplexing/event_reactor.c\<close>: event sources, a circular queue of
  4096 events, and the dispatch and processing loops. The static counters of sources and events are
  arguments and results. A handler is code of the caller: processing returns the list of its calls, in
  order; handlers are taken not to call the reactor. The constant rate of the metrics is left out.

  The second half shows that the queue is a queue as long as it does not overflow, and that a round of
  dispatching and processing calls the handler of every registered source once.
\<close>

section \<open>Constants and data\<close>

definition MAX_EVENT_SOURCES :: nat where "MAX_EVENT_SOURCES = 8192"
definition MAX_EVENTS_PER_POLL :: nat where "MAX_EVENTS_PER_POLL = 4096"

datatype EventType =
  EVENT_TYPE_READ | EVENT_TYPE_WRITE | EVENT_TYPE_ERROR | EVENT_TYPE_TIMEOUT | EVENT_TYPE_SIGNAL | EVENT_TYPE_CUSTOM

datatype EventState =
  EVENT_STATE_INACTIVE | EVENT_STATE_REGISTERED | EVENT_STATE_FIRED | EVENT_STATE_PROCESSING | EVENT_STATE_READY

record EventSource =
  vs_event_source_id :: u32
  vs_fd :: int
  vs_event_type :: EventType
  vs_state :: EventState
  vs_handler :: ptr
  vs_user_data :: ptr
  vs_event_count :: u32
  vs_last_event_time :: u64
  vs_is_oneshot :: u8
  vs_is_edge_triggered :: u8

record Event =
  ve_event_id :: u32
  ve_source_id :: u32
  ve_type :: EventType
  ve_timestamp :: u64
  ve_fd :: int
  ve_event_flags :: u32

record EventReactor =
  vr_reactor_id :: u32
  vr_event_sources :: "EventSource list"
  vr_event_queue :: "Event list"
  vr_event_queue_front :: u32
  vr_event_queue_rear :: u32
  vr_pending_events :: u32
  vr_total_events_processed :: u32
  vr_reactor_start_time :: u64
  vr_is_running :: bool

record ReactorMetrics =
  vm_reactor_id :: u32
  vm_registered_sources :: u32
  vm_pending_events :: u32
  vm_total_processed :: u32

type_synonym reactor = "EventReactor option"

text \<open>A call of a handler: the handler, its descriptor, the type of the event and the user data.\<close>

type_synonym invocation = "ptr \<times> int \<times> EventType \<times> ptr"

section \<open>Sources\<close>

definition zero_event :: Event where
  "zero_event = \<lparr>ve_event_id = 0, ve_source_id = 0, ve_type = EVENT_TYPE_READ, ve_timestamp = 0, ve_fd = 0, ve_event_flags = 0\<rparr>"

definition event_reactor_create :: "bool \<Rightarrow> reactor" where
  "event_reactor_create malloc_ok =
     (if \<not> malloc_ok then None
      else Some \<lparr>vr_reactor_id = 1, vr_event_sources = [], vr_event_queue = replicate MAX_EVENTS_PER_POLL zero_event,
        vr_event_queue_front = 0, vr_event_queue_rear = 0, vr_pending_events = 0, vr_total_events_processed = 0,
        vr_reactor_start_time = 0, vr_is_running = False\<rparr>)"

definition event_reactor_destroy :: "reactor \<Rightarrow> reactor \<times> int" where
  "event_reactor_destroy h = (None, case h of None \<Rightarrow> -1 | Some r \<Rightarrow> 0)"

definition find_fd :: "int \<Rightarrow> EventSource list \<Rightarrow> nat option" where
  "find_fd fd ss = first_idx (\<lambda>s. vs_fd s = fd) ss"

definition event_register :: "reactor \<Rightarrow> u32 \<Rightarrow> int \<Rightarrow> EventType \<Rightarrow> ptr \<Rightarrow> ptr \<Rightarrow> (reactor \<times> u32) \<times> int" where
  "event_register h next_event_source_id fd type handler user_data =
     (case h of None \<Rightarrow> ((h, next_event_source_id), -1)
      | Some r \<Rightarrow>
          if handler = 0 \<or> fd < 0 \<or> length (vr_event_sources r) \<ge> MAX_EVENT_SOURCES then ((h, next_event_source_id), -1)
          else
            let source = \<lparr>vs_event_source_id = next_event_source_id, vs_fd = fd, vs_event_type = type,
                  vs_state = EVENT_STATE_REGISTERED, vs_handler = handler, vs_user_data = user_data, vs_event_count = 0,
                  vs_last_event_time = 0, vs_is_oneshot = 0, vs_is_edge_triggered = 0\<rparr>
            in ((Some (r\<lparr>vr_event_sources := (case find_fd fd (vr_event_sources r) of
                      None \<Rightarrow> vr_event_sources r @ [source] | Some i \<Rightarrow> (vr_event_sources r)[i := source])\<rparr>),
                 next_event_source_id + 1), sint next_event_source_id))"

definition event_unregister :: "reactor \<Rightarrow> int \<Rightarrow> reactor \<times> int" where
  "event_unregister h fd = with_handle (-1) h (\<lambda>r.
     if fd < 0 then (r, -1)
     else case find_fd fd (vr_event_sources r) of None \<Rightarrow> (r, -1)
     | Some i \<Rightarrow> (r\<lparr>vr_event_sources := remove_at i (vr_event_sources r)\<rparr>, 0))"

definition on_source :: "reactor \<Rightarrow> int \<Rightarrow> (EventSource \<Rightarrow> EventSource) \<Rightarrow> reactor \<times> int" where
  "on_source h fd f = with_handle (-1) h (\<lambda>r.
     if fd < 0 then (r, -1)
     else case find_fd fd (vr_event_sources r) of None \<Rightarrow> (r, -1)
     | Some i \<Rightarrow> (r\<lparr>vr_event_sources := (vr_event_sources r)[i := f (vr_event_sources r ! i)]\<rparr>, 0))"

definition event_modify :: "reactor \<Rightarrow> int \<Rightarrow> EventType \<Rightarrow> u32 \<Rightarrow> reactor \<times> int" where
  "event_modify h fd type flags = on_source h fd (\<lambda>s.
     let s1 = s\<lparr>vs_event_type := type\<rparr>;
         s2 = (if flags AND 1 \<noteq> 0 then s1\<lparr>vs_is_oneshot := 1\<rparr> else s1)
     in if flags AND 2 \<noteq> 0 then s2\<lparr>vs_is_edge_triggered := 1\<rparr> else s2)"

definition event_set_oneshot :: "reactor \<Rightarrow> int \<Rightarrow> u8 \<Rightarrow> reactor \<times> int" where
  "event_set_oneshot h fd oneshot = on_source h fd (\<lambda>s. s\<lparr>vs_is_oneshot := oneshot\<rparr>)"

definition event_set_edge_triggered :: "reactor \<Rightarrow> int \<Rightarrow> u8 \<Rightarrow> reactor \<times> int" where
  "event_set_edge_triggered h fd edge_triggered = on_source h fd (\<lambda>s. s\<lparr>vs_is_edge_triggered := edge_triggered\<rparr>)"

section \<open>The queue\<close>

text \<open>The code writes at the rear without looking at the number of events pending.\<close>

definition push_event :: "Event \<Rightarrow> EventReactor \<Rightarrow> EventReactor" where
  "push_event e r = r\<lparr>vr_event_queue := (vr_event_queue r)[unat (vr_event_queue_rear r) := e],
     vr_event_queue_rear := (vr_event_queue_rear r + 1) mod of_nat MAX_EVENTS_PER_POLL,
     vr_pending_events := vr_pending_events r + 1\<rparr>"

definition event_of :: "u32 \<Rightarrow> EventSource \<Rightarrow> EventType \<Rightarrow> u32 \<Rightarrow> Event" where
  "event_of next_event_id s type flags = \<lparr>ve_event_id = next_event_id, ve_source_id = vs_event_source_id s, ve_type = type,
     ve_timestamp = 0, ve_fd = vs_fd s, ve_event_flags = flags\<rparr>"

text \<open>The loop of \<open>event_dispatch\<close> over the sources that are left, with the number of events found so far.\<close>

fun dispatch_loop ::
    "EventSource list \<Rightarrow> nat \<Rightarrow> EventReactor \<Rightarrow> u32 \<Rightarrow> EventSource list \<times> nat \<times> EventReactor \<times> u32" where
  "dispatch_loop [] found r next_event_id = ([], found, r, next_event_id)"
| "dispatch_loop (s # ss) found r next_event_id =
     (if found \<ge> MAX_EVENTS_PER_POLL then (s # ss, found, r, next_event_id)
      else if vs_state s = EVENT_STATE_REGISTERED
      then (let (ss1, found1, r1, nx) = dispatch_loop ss (Suc found) (push_event (event_of next_event_id s (vs_event_type s) 0) r)
              (next_event_id + 1)
            in (s\<lparr>vs_state := EVENT_STATE_READY\<rparr> # ss1, found1, r1, nx))
      else (let (ss1, found1, r1, nx) = dispatch_loop ss found r next_event_id in (s # ss1, found1, r1, nx)))"

definition event_dispatch :: "reactor \<Rightarrow> u32 \<Rightarrow> int \<Rightarrow> (reactor \<times> u32) \<times> int" where
  "event_dispatch h next_event_id timeout_ms =
     (case h of None \<Rightarrow> ((h, next_event_id), -1)
      | Some r \<Rightarrow>
          let (ss, found, r1, nx) = dispatch_loop (vr_event_sources r) 0 (r\<lparr>vr_is_running := True\<rparr>) next_event_id
          in ((Some (r1\<lparr>vr_event_sources := ss\<rparr>), nx), int found))"

definition handle_event :: "Event \<Rightarrow> EventSource list \<Rightarrow> EventSource list \<times> invocation list" where
  "handle_event e ss =
     (case first_idx (\<lambda>s. vs_event_source_id s = ve_source_id e) ss of None \<Rightarrow> (ss, [])
      | Some i \<Rightarrow>
          let s = ss ! i
          in (ss[i := s\<lparr>vs_event_count := vs_event_count s + 1, vs_last_event_time := 0,
                vs_state := (if vs_is_oneshot s \<noteq> 0 then EVENT_STATE_INACTIVE else EVENT_STATE_REGISTERED)\<rparr>],
              if vs_handler s \<noteq> 0 then [(vs_handler s, vs_fd s, ve_type e, vs_user_data s)] else []))"

function process_loop :: "nat \<Rightarrow> EventReactor \<Rightarrow> nat \<times> EventReactor \<times> invocation list" where
  "process_loop processed r =
     (if vr_pending_events r > 0 \<and> processed < MAX_EVENTS_PER_POLL
      then let (ss, calls) = handle_event (vr_event_queue r ! unat (vr_event_queue_front r)) (vr_event_sources r);
               (n, r1, calls1) = process_loop (Suc processed) (r\<lparr>vr_event_sources := ss,
                 vr_event_queue_front := (vr_event_queue_front r + 1) mod of_nat MAX_EVENTS_PER_POLL,
                 vr_pending_events := vr_pending_events r - 1,
                 vr_total_events_processed := vr_total_events_processed r + 1\<rparr>)
           in (n, r1, calls @ calls1)
      else (processed, r, []))"
  by pat_completeness auto
termination
  by (relation "measure (\<lambda>(processed, r). MAX_EVENTS_PER_POLL - processed)") auto

declare process_loop.simps [simp del]

definition event_process_queue :: "reactor \<Rightarrow> reactor \<times> int \<times> invocation list" where
  "event_process_queue h = with_handle (-1, []) h (\<lambda>r. let (n, r1, calls) = process_loop 0 r in (r1, int n, calls))"

definition trigger :: "reactor \<Rightarrow> u32 \<Rightarrow> u32 \<Rightarrow> EventType \<Rightarrow> u32 \<Rightarrow> (reactor \<times> u32) \<times> int" where
  "trigger h next_event_id source_id type flags =
     (case h of None \<Rightarrow> ((h, next_event_id), -1)
      | Some r \<Rightarrow>
          (case first_idx (\<lambda>s. vs_event_source_id s = source_id) (vr_event_sources r) of None \<Rightarrow> ((h, next_event_id), -1)
           | Some i \<Rightarrow> ((Some (push_event (event_of next_event_id (vr_event_sources r ! i) type flags) r), next_event_id + 1), 0)))"

definition event_trigger_custom :: "reactor \<Rightarrow> u32 \<Rightarrow> u32 \<Rightarrow> u32 \<Rightarrow> (reactor \<times> u32) \<times> int" where
  "event_trigger_custom h next_event_id source_id flags = trigger h next_event_id source_id EVENT_TYPE_CUSTOM flags"

definition event_handle_timeout :: "reactor \<Rightarrow> u32 \<Rightarrow> u32 \<Rightarrow> (reactor \<times> u32) \<times> int" where
  "event_handle_timeout h next_event_id source_id = trigger h next_event_id source_id EVENT_TYPE_TIMEOUT 0"

definition event_reactor_get_metrics :: "reactor \<Rightarrow> bool \<Rightarrow> int \<times> ReactorMetrics option" where
  "event_reactor_get_metrics h metrics = read_handle (-1, None) h (\<lambda>r.
     if \<not> metrics then (-1, None)
     else (0, Some \<lparr>vm_reactor_id = vr_reactor_id r, vm_registered_sources = of_nat (length (vr_event_sources r)),
        vm_pending_events = vr_pending_events r, vm_total_processed = vr_total_events_processed r\<rparr>))"

section \<open>The reactor as a queue\<close>

text \<open>
  The intended machine: the sources and an unbounded list of events. Dispatching appends an event for every
  registered source, processing empties the list and calls the handlers in its order.
\<close>

record ReactorSpec =
  sp_sources :: "EventSource list"
  sp_events :: "Event list"
  sp_source :: u32
  sp_event :: u32
  sp_done :: u32

datatype reactor_call =
    Register int EventType ptr ptr | Unregister int | Modify int EventType u32 | Oneshot int u8 | Edge int u8
  | Dispatch int | Process | Custom u32 u32 | Timeout u32

type_synonym reactor_state = "EventReactor \<times> u32 \<times> u32"

definition lift_reactor :: "reactor_state \<Rightarrow> reactor \<times> int \<Rightarrow> reactor_state \<times> int \<times> invocation list" where
  "lift_reactor st res = ((the (fst res), snd st), snd res, [])"

fun reactor_step :: "reactor_state \<Rightarrow> reactor_call \<Rightarrow> reactor_state \<times> int \<times> invocation list" where
  "reactor_step (r, src, ev) (Register fd ty hn ud) = (let ((h, src1), v) = event_register (Some r) src fd ty hn ud in ((the h, src1, ev), v, []))"
| "reactor_step st (Unregister fd) = lift_reactor st (event_unregister (Some (fst st)) fd)"
| "reactor_step st (Modify fd ty fl) = lift_reactor st (event_modify (Some (fst st)) fd ty fl)"
| "reactor_step st (Oneshot fd b) = lift_reactor st (event_set_oneshot (Some (fst st)) fd b)"
| "reactor_step st (Edge fd b) = lift_reactor st (event_set_edge_triggered (Some (fst st)) fd b)"
| "reactor_step (r, src, ev) (Dispatch t) = (let ((h, ev1), v) = event_dispatch (Some r) ev t in ((the h, src, ev1), v, []))"
| "reactor_step (r, src, ev) Process = (let (h, v, calls) = event_process_queue (Some r) in ((the h, src, ev), v, calls))"
| "reactor_step (r, src, ev) (Custom k fl) = (let ((h, ev1), v) = event_trigger_custom (Some r) ev k fl in ((the h, src, ev1), v, []))"
| "reactor_step (r, src, ev) (Timeout k) = (let ((h, ev1), v) = event_handle_timeout (Some r) ev k in ((the h, src, ev1), v, []))"

fun numbered :: "u32 \<Rightarrow> EventSource list \<Rightarrow> Event list" where
  "numbered ev [] = []"
| "numbered ev (s # ss) = event_of ev s (vs_event_type s) 0 # numbered (ev + 1) ss"

abbreviation registered :: "EventSource \<Rightarrow> bool" where
  "registered s \<equiv> vs_state s = EVENT_STATE_REGISTERED"

definition mark_ready :: "EventSource \<Rightarrow> EventSource" where
  "mark_ready s = (if registered s then s\<lparr>vs_state := EVENT_STATE_READY\<rparr> else s)"

fun handle_all :: "Event list \<Rightarrow> EventSource list \<Rightarrow> EventSource list \<times> invocation list" where
  "handle_all [] ss = (ss, [])"
| "handle_all (e # es) ss =
     (let (ss1, calls) = handle_event e ss; (ss2, calls1) = handle_all es ss1 in (ss2, calls @ calls1))"

definition change_source :: "int \<Rightarrow> (nat \<Rightarrow> EventSource list \<Rightarrow> EventSource list) \<Rightarrow> ReactorSpec \<Rightarrow> ReactorSpec \<times> int \<times> invocation list" where
  "change_source fd f a =
     (case find_fd fd (sp_sources a) of None \<Rightarrow> (a, -1, [])
      | Some i \<Rightarrow> if fd < 0 then (a, -1, []) else (a\<lparr>sp_sources := f i (sp_sources a)\<rparr>, 0, []))"

definition spec_trigger :: "u32 \<Rightarrow> EventType \<Rightarrow> u32 \<Rightarrow> ReactorSpec \<Rightarrow> ReactorSpec \<times> int \<times> invocation list" where
  "spec_trigger k ty fl a =
     (case first_idx (\<lambda>s. vs_event_source_id s = k) (sp_sources a) of None \<Rightarrow> (a, -1, [])
      | Some i \<Rightarrow> (a\<lparr>sp_events := sp_events a @ [event_of (sp_event a) (sp_sources a ! i) ty fl], sp_event := sp_event a + 1\<rparr>, 0, []))"

fun reactor_spec :: "ReactorSpec \<Rightarrow> reactor_call \<Rightarrow> ReactorSpec \<times> int \<times> invocation list" where
  "reactor_spec a (Register fd ty hn ud) =
     (if hn = 0 \<or> fd < 0 \<or> length (sp_sources a) \<ge> 8192 then (a, -1, [])
      else let s = \<lparr>vs_event_source_id = sp_source a, vs_fd = fd, vs_event_type = ty,
                  vs_state = EVENT_STATE_REGISTERED, vs_handler = hn, vs_user_data = ud, vs_event_count = 0,
                  vs_last_event_time = 0, vs_is_oneshot = 0, vs_is_edge_triggered = 0\<rparr>
           in (a\<lparr>sp_sources := (case find_fd fd (sp_sources a) of
                 None \<Rightarrow> sp_sources a @ [s] | Some i \<Rightarrow> (sp_sources a)[i := s]), sp_source := sp_source a + 1\<rparr>,
               sint (sp_source a), []))"
| "reactor_spec a (Unregister fd) = change_source fd remove_at a"
| "reactor_spec a (Modify fd ty fl) = change_source fd (\<lambda>i ss. ss[i := (ss ! i)\<lparr>vs_event_type := ty,
     vs_is_oneshot := (if fl AND 1 \<noteq> 0 then 1 else vs_is_oneshot (ss ! i)),
     vs_is_edge_triggered := (if fl AND 2 \<noteq> 0 then 1 else vs_is_edge_triggered (ss ! i))\<rparr>]) a"
| "reactor_spec a (Oneshot fd b) = change_source fd (\<lambda>i ss. ss[i := (ss ! i)\<lparr>vs_is_oneshot := b\<rparr>]) a"
| "reactor_spec a (Edge fd b) = change_source fd (\<lambda>i ss. ss[i := (ss ! i)\<lparr>vs_is_edge_triggered := b\<rparr>]) a"
| "reactor_spec a (Dispatch t) =
     (let new = filter registered (sp_sources a)
      in (a\<lparr>sp_sources := map mark_ready (sp_sources a), sp_events := sp_events a @ numbered (sp_event a) new,
            sp_event := sp_event a + of_nat (length new)\<rparr>, int (length new), []))"
| "reactor_spec a Process =
     (let (ss, calls) = handle_all (sp_events a) (sp_sources a)
      in (a\<lparr>sp_sources := ss, sp_events := [], sp_done := sp_done a + of_nat (length (sp_events a))\<rparr>,
          int (length (sp_events a)), calls))"
| "reactor_spec a (Custom k fl) = spec_trigger k EVENT_TYPE_CUSTOM fl a"
| "reactor_spec a (Timeout k) = spec_trigger k EVENT_TYPE_TIMEOUT 0 a"

text \<open>The code never looks whether the queue is full: a history must leave room for the events it makes.\<close>

fun reactor_room :: "ReactorSpec \<Rightarrow> reactor_call \<Rightarrow> bool" where
  "reactor_room a (Dispatch t) \<longleftrightarrow> length (sp_events a) + length (filter registered (sp_sources a)) \<le> 4096"
| "reactor_room a (Custom k fl) \<longleftrightarrow> length (sp_events a) < 4096"
| "reactor_room a (Timeout k) \<longleftrightarrow> length (sp_events a) < 4096"
| "reactor_room a c \<longleftrightarrow> True"

definition reactor_inv :: "EventReactor \<Rightarrow> bool" where
  "reactor_inv r \<longleftrightarrow> length (vr_event_queue r) = 4096 \<and> unat (vr_event_queue_front r) < 4096 \<and> unat (vr_pending_events r) \<le> 4096 \<and>
     unat (vr_event_queue_rear r) = (unat (vr_event_queue_front r) + unat (vr_pending_events r)) mod 4096"

definition pending_of :: "EventReactor \<Rightarrow> Event list" where
  "pending_of r = ring (unat (vr_event_queue_front r)) (unat (vr_pending_events r)) (vr_event_queue r)"

definition reactor_abs :: "reactor_state \<Rightarrow> ReactorSpec" where
  "reactor_abs st = (case st of (r, src, ev) \<Rightarrow>
     \<lparr>sp_sources = vr_event_sources r, sp_events = pending_of r, sp_source = src, sp_event = ev, sp_done = vr_total_events_processed r\<rparr>)"

lemma length_pending [simp]: "length (pending_of r) = unat (vr_pending_events r)"
  by (simp add: pending_of_def)

lemma reactor_inv_sources [simp]:
  "reactor_inv (r\<lparr>vr_event_sources := ss\<rparr>) = reactor_inv r" "pending_of (r\<lparr>vr_event_sources := ss\<rparr>) = pending_of r"
  "reactor_inv (r\<lparr>vr_is_running := b\<rparr>) = reactor_inv r" "pending_of (r\<lparr>vr_is_running := b\<rparr>) = pending_of r"
  by (simp_all add: reactor_inv_def pending_of_def)

lemma unat_small_succ: "unat (w :: u32) \<le> 4096 \<Longrightarrow> unat (w + 1) = Suc (unat w)"
  by (simp add: unat_word_ariths)

lemma unat_next_place: "unat (w :: u32) < 4096 \<Longrightarrow> unat ((w + 1) mod 4096) = Suc (unat w) mod 4096"
  using unat_small_succ [of w] by (simp add: unat_mod_distrib)

lemma push_event_sources [simp]: "vr_event_sources (push_event e r) = vr_event_sources r"
    "vr_total_events_processed (push_event e r) = vr_total_events_processed r"
    "push_event e r\<lparr>vr_event_sources := ss\<rparr> = push_event e (r\<lparr>vr_event_sources := ss\<rparr>)"
  by (simp_all add: push_event_def)

text \<open>While there is room, writing at the rear appends to the pending events.\<close>

lemma push_event_queue:
  assumes inv: "reactor_inv r" and room: "unat (vr_pending_events r) < 4096"
  shows "reactor_inv (push_event e r) \<and> pending_of (push_event e r) = pending_of r @ [e]"
proof -
  let ?f = "unat (vr_event_queue_front r)" and ?n = "unat (vr_pending_events r)"
  have len: "length (vr_event_queue r) = 4096" and f: "?f < 4096" and rear: "unat (vr_event_queue_rear r) = (?f + ?n) mod 4096"
    using inv by (simp_all add: reactor_inv_def)
  have n: "unat (vr_pending_events r + 1) = Suc ?n" using room by (intro unat_small_succ) simp
  have "unat (vr_event_queue_rear r) < 4096" using rear by simp
  then have "unat ((vr_event_queue_rear r + 1) mod 4096) = (?f + Suc ?n) mod 4096"
    using unat_next_place [of "vr_event_queue_rear r"] rear by (simp add: mod_Suc_eq)
  then have "reactor_inv (push_event e r)"
    using len f n room by (simp add: reactor_inv_def push_event_def MAX_EVENTS_PER_POLL_def)
  moreover have "pending_of (push_event e r) = pending_of r @ [e]"
    using ring_put [of ?n "vr_event_queue r" ?f e] len room rear n by (simp add: pending_of_def push_event_def)
  ultimately show ?thesis by simp
qed

text \<open>Taking the event at the front removes the head of the pending events.\<close>

lemma pop_event_queue:
  fixes ss :: "EventSource list" and r :: EventReactor
  assumes inv: "reactor_inv r" and some: "0 < vr_pending_events r"
  defines "r1 \<equiv> r\<lparr>vr_event_sources := ss, vr_event_queue_front := (vr_event_queue_front r + 1) mod of_nat MAX_EVENTS_PER_POLL,
      vr_pending_events := vr_pending_events r - 1, vr_total_events_processed := vr_total_events_processed r + 1\<rparr>"
  shows "reactor_inv r1 \<and> pending_of r = vr_event_queue r ! unat (vr_event_queue_front r) # pending_of r1"
proof -
  let ?f = "unat (vr_event_queue_front r)"
  have len: "length (vr_event_queue r) = 4096" and f: "?f < 4096" and bound: "unat (vr_pending_events r) \<le> 4096"
    and rear: "unat (vr_event_queue_rear r) = (?f + unat (vr_pending_events r)) mod 4096"
    using inv by (simp_all add: reactor_inv_def)
  obtain n where n: "unat (vr_pending_events r) = Suc n"
    using some by (metis gr0_conv_Suc unat_gt_0 word_gt_0)
  then have n1: "unat (vr_pending_events r - 1) = n"
    using some by (metis Suc_inject unat_minus_one word_gt_0 diff_Suc_1)
  have place: "unat ((vr_event_queue_front r + 1) mod 4096) = Suc ?f mod 4096" by (rule unat_next_place [OF f])
  have "reactor_inv r1"
    using len bound rear place n n1 by (simp add: r1_def reactor_inv_def MAX_EVENTS_PER_POLL_def mod_add_left_eq)
  moreover have "pending_of r = vr_event_queue r ! ?f # pending_of r1"
    using ring_Suc [of ?f "vr_event_queue r" n] len f place n n1
    by (simp add: r1_def pending_of_def MAX_EVENTS_PER_POLL_def)
  ultimately show ?thesis by simp
qed

lemma process_loop_all:
  assumes "reactor_inv r" and "m + unat (vr_pending_events r) \<le> 4096" and "process_loop m r = (n, r1, calls)"
  shows "reactor_inv r1 \<and> n = m + unat (vr_pending_events r) \<and> pending_of r1 = [] \<and>
    handle_all (pending_of r) (vr_event_sources r) = (vr_event_sources r1, calls) \<and>
    vr_total_events_processed r1 = vr_total_events_processed r + vr_pending_events r"
  using assms
proof (induction m r arbitrary: n r1 calls rule: process_loop.induct)
  case (1 m r)
  show ?case
  proof (cases "vr_pending_events r > 0")
    case False
    then have "vr_pending_events r = 0" by (simp add: word_gt_0)
    then show ?thesis using 1(2-4) by (auto simp: process_loop.simps [of m r] pending_of_def)
  next
    case True
    then have pos: "0 < unat (vr_pending_events r)" by (simp add: word_less_nat_alt)
    obtain ss c0 where he: "handle_event (vr_event_queue r ! unat (vr_event_queue_front r)) (vr_event_sources r) = (ss, c0)"
      by fastforce
    let ?r = "r\<lparr>vr_event_sources := ss, vr_event_queue_front := (vr_event_queue_front r + 1) mod of_nat MAX_EVENTS_PER_POLL,
      vr_pending_events := vr_pending_events r - 1, vr_total_events_processed := vr_total_events_processed r + 1\<rparr>"
    have room: "m < MAX_EVENTS_PER_POLL" using 1(3) pos by (simp add: MAX_EVENTS_PER_POLL_def)
    have "process_loop m r = (let (n1, r2, c1) = process_loop (Suc m) ?r in (n1, r2, c0 @ c1))"
      using True room he by (subst process_loop.simps) simp
    then obtain c1 where rest: "process_loop (Suc m) ?r = (n, r1, c1)" and calls: "calls = c0 @ c1"
      using 1(4) by (cases "process_loop (Suc m) ?r") simp
    have "vr_pending_events r \<noteq> 0" using True by auto
    then have u: "unat (vr_pending_events r) = Suc (unat (vr_pending_events r - 1))"
      using pos by (simp add: unat_minus_one)
    have pop: "reactor_inv ?r \<and> pending_of r = vr_event_queue r ! unat (vr_event_queue_front r) # pending_of ?r"
      by (rule pop_event_queue [OF 1(2) True])
    have "reactor_inv r1 \<and> n = Suc m + unat (vr_pending_events ?r) \<and> pending_of r1 = [] \<and>
        handle_all (pending_of ?r) (vr_event_sources ?r) = (vr_event_sources r1, c1) \<and>
        vr_total_events_processed r1 = vr_total_events_processed ?r + vr_pending_events ?r"
      using 1(3) u by (intro 1(1) [OF conjI [OF True room] he [symmetric] refl _ _ rest] conjunct1 [OF pop]) simp_all
    then show ?thesis using pop he calls u by simp
  qed
qed

lemma dispatch_loop_all:
  assumes "reactor_inv r" and "unat (vr_pending_events r) + length (filter registered ss) \<le> 4096"
    and "found + length (filter registered ss) \<le> 4096" and "dispatch_loop ss found r ev = (ss1, found1, r1, ev1)"
  shows "reactor_inv r1 \<and> ss1 = map mark_ready ss \<and> found1 = found + length (filter registered ss) \<and>
    pending_of r1 = pending_of r @ numbered ev (filter registered ss) \<and> ev1 = ev + of_nat (length (filter registered ss)) \<and>
    vr_total_events_processed r1 = vr_total_events_processed r"
  using assms
proof (induction ss arbitrary: found r ev ss1 found1 r1 ev1)
  case Nil
  then show ?case by simp
next
  case (Cons s ss)
  show ?case
  proof (cases "registered s")
    case True
    let ?r = "push_event (event_of ev s (vs_event_type s) 0) r"
    have room: "unat (vr_pending_events r) < 4096" "found < MAX_EVENTS_PER_POLL"
      using Cons.prems True by (simp_all add: MAX_EVENTS_PER_POLL_def)
    obtain ss2 where d: "dispatch_loop ss (Suc found) ?r (ev + 1) = (ss2, found1, r1, ev1)"
      and ss1: "ss1 = s\<lparr>vs_state := EVENT_STATE_READY\<rparr> # ss2"
      using Cons.prems(4) True room by (auto split: prod.splits)
    note p = push_event_queue [OF Cons.prems(1) room(1), of "event_of ev s (vs_event_type s) 0"]
    have "unat (vr_pending_events ?r) = Suc (unat (vr_pending_events r))"
      using p by (metis length_pending length_append_singleton)
    then show ?thesis
      using Cons.IH [OF conjunct1 [OF p] _ _ d] Cons.prems(2,3) True p ss1 by (simp add: mark_ready_def)
  next
    case False
    then show ?thesis
    proof (cases "found < MAX_EVENTS_PER_POLL")
      case True
      then obtain ss2 where d: "dispatch_loop ss found r ev = (ss2, found1, r1, ev1)" and ss1: "ss1 = s # ss2"
        using Cons.prems(4) False by (auto split: prod.splits)
      show ?thesis using Cons.IH [OF Cons.prems(1) _ _ d] Cons.prems(2,3) False ss1 by (simp add: mark_ready_def)
    next
      case full: False
      then have none: "filter registered ss = []" using Cons.prems(3) False
        by (cases "filter registered ss") (auto simp: MAX_EVENTS_PER_POLL_def)
      then have "map mark_ready ss = ss" by (intro map_idI) (auto simp: filter_empty_conv mark_ready_def)
      moreover have "mark_ready s = s" using False by (simp add: mark_ready_def)
      ultimately show ?thesis using Cons.prems full False none by auto
    qed
  qed
qed

lemma on_source_sim:
  assumes "lift_reactor (r, src, ev) (on_source (Some r) fd f) = (st1, v)" and "reactor_inv r"
  shows "reactor_inv (fst st1) \<and> change_source fd (\<lambda>i ss. ss[i := f (ss ! i)]) (reactor_abs (r, src, ev)) = (reactor_abs st1, v)"
  using assms
  by (auto simp: on_source_def change_source_def lift_reactor_def with_handle_def reactor_abs_def split: option.splits if_splits)

lemma unregister_sim:
  assumes "lift_reactor (r, src, ev) (event_unregister (Some r) fd) = (st1, v)" and "reactor_inv r"
  shows "reactor_inv (fst st1) \<and> change_source fd remove_at (reactor_abs (r, src, ev)) = (reactor_abs st1, v)"
  using assms
  by (auto simp: event_unregister_def change_source_def lift_reactor_def with_handle_def reactor_abs_def split: option.splits if_splits)

lemma event_modify_update:
  "event_modify h fd ty fl = on_source h fd (\<lambda>s. s\<lparr>vs_event_type := ty,
     vs_is_oneshot := (if fl AND 1 \<noteq> 0 then 1 else vs_is_oneshot s),
     vs_is_edge_triggered := (if fl AND 2 \<noteq> 0 then 1 else vs_is_edge_triggered s)\<rparr>)"
  unfolding event_modify_def by (intro arg_cong [where f = "on_source h fd"] ext) simp

lemma trigger_sim:
  assumes inv: "reactor_inv r" and room: "unat (vr_pending_events r) < 4096"
    and t: "trigger (Some r) ev k ty fl = ((h, ev1), v)"
  shows "reactor_inv (the h) \<and> spec_trigger k ty fl (reactor_abs (r, src, ev)) = (reactor_abs (the h, src, ev1), v, [])"
  using t inv push_event_queue [OF inv room]
  by (auto simp: trigger_def spec_trigger_def reactor_abs_def split: option.splits)

lemma dispatch_sim:
  assumes inv: "reactor_inv r" and room: "unat (vr_pending_events r) + length (filter registered (vr_event_sources r)) \<le> 4096"
    and d: "event_dispatch (Some r) ev t = ((h, ev1), v)"
  shows "reactor_inv (the h) \<and> reactor_spec (reactor_abs (r, src, ev)) (Dispatch t) = (reactor_abs (the h, src, ev1), v, [])"
proof -
  obtain ss found r1 nx where l: "dispatch_loop (vr_event_sources r) 0 (r\<lparr>vr_is_running := True\<rparr>) ev = (ss, found, r1, nx)"
    by (metis prod_cases4)
  have "h = Some (r1\<lparr>vr_event_sources := ss\<rparr>)" "ev1 = nx" "v = int found"
    using d l by (auto simp: event_dispatch_def)
  then show ?thesis
    using dispatch_loop_all [OF _ _ _ l] inv room by (simp add: reactor_abs_def Let_def)
qed

lemma process_sim:
  assumes inv: "reactor_inv r" and p: "event_process_queue (Some r) = (h, v, calls)"
  shows "reactor_inv (the h) \<and> reactor_spec (reactor_abs (r, src, ev)) Process = (reactor_abs (the h, src, ev), v, calls)"
proof -
  obtain n r1 c where l: "process_loop 0 r = (n, r1, c)" by (metis prod_cases3)
  have "h = Some r1" "v = int n" "calls = c" using p l by (auto simp: event_process_queue_def with_handle_def)
  then show ?thesis
    using process_loop_all [OF inv _ l] inv by (simp add: reactor_abs_def reactor_inv_def)
qed

interpretation evr: guarded_refinement reactor_step reactor_spec reactor_abs "\<lambda>st. reactor_inv (fst st)" reactor_room
proof
  fix st c st1 v
  assume inv: "reactor_inv (fst st)" and room: "reactor_room (reactor_abs st) c" and step: "reactor_step st c = (st1, v)"
  obtain r src ev where st: "st = (r, src, ev)" by (metis prod_cases3)
  show "reactor_inv (fst st1) \<and> reactor_spec (reactor_abs st) c = (reactor_abs st1, v)"
  proof (cases c)
    case (Register fd ty hn ud)
    then show ?thesis using inv step st
      by (auto simp: event_register_def reactor_abs_def MAX_EVENT_SOURCES_def Let_def split: if_splits option.split)
  next
    case (Unregister fd)
    then show ?thesis using inv step st unregister_sim [of r src ev fd st1 v] by simp
  next
    case (Modify fd ty fl)
    then have "lift_reactor (r, src, ev) (event_modify (Some r) fd ty fl) = (st1, v)" using step st by simp
    from on_source_sim [OF this [unfolded event_modify_update]] inv st Modify show ?thesis by simp
  next
    case (Oneshot fd b)
    then show ?thesis using inv step st on_source_sim [of r src ev fd _ st1 v] by (simp add: event_set_oneshot_def)
  next
    case (Edge fd b)
    then show ?thesis using inv step st on_source_sim [of r src ev fd _ st1 v] by (simp add: event_set_edge_triggered_def)
  next
    case (Dispatch t)
    obtain h ev1 n where d: "event_dispatch (Some r) ev t = ((h, ev1), n)" by (metis prod.exhaust)
    then show ?thesis using Dispatch inv room step st dispatch_sim [OF _ _ d, of src]
      by (auto simp: reactor_abs_def)
  next
    case Process
    obtain h n calls where p: "event_process_queue (Some r) = (h, n, calls)" by (metis prod_cases3)
    then show ?thesis using Process inv step st process_sim [OF _ p, of src ev] by auto
  next
    case (Custom k fl)
    obtain h ev1 n where t: "event_trigger_custom (Some r) ev k fl = ((h, ev1), n)" by (metis prod.exhaust)
    then show ?thesis using Custom inv room step st trigger_sim [OF _ _ t [unfolded event_trigger_custom_def], of src]
      by (auto simp: reactor_abs_def)
  next
    case (Timeout k)
    obtain h ev1 n where t: "event_handle_timeout (Some r) ev k = ((h, ev1), n)" by (metis prod.exhaust)
    then show ?thesis using Timeout inv room step st trigger_sim [OF _ _ t [unfolded event_handle_timeout_def], of src]
      by (auto simp: reactor_abs_def)
  qed
qed

definition reactor_empty :: ReactorSpec where
  "reactor_empty = \<lparr>sp_sources = [], sp_events = [], sp_source = 1, sp_event = 1, sp_done = 0\<rparr>"

lemma reactor_created:
  assumes "event_reactor_create True = Some r"
  shows "reactor_inv r \<and> reactor_abs (r, 1, 1) = reactor_empty"
  using assms
  by (auto simp: event_reactor_create_def reactor_inv_def reactor_abs_def reactor_empty_def pending_of_def MAX_EVENTS_PER_POLL_def)

section \<open>What a round does\<close>

text \<open>
  The effect of a round of dispatching and processing on a source, and the handler calls it makes.
\<close>

definition served :: "EventSource \<Rightarrow> EventSource" where
  "served s = (if registered s
     then s\<lparr>vs_event_count := vs_event_count s + 1, vs_last_event_time := 0,
       vs_state := (if vs_is_oneshot s \<noteq> 0 then EVENT_STATE_INACTIVE else EVENT_STATE_REGISTERED)\<rparr>
     else s)"

definition calls_of :: "EventSource \<Rightarrow> invocation list" where
  "calls_of s = (if registered s \<and> vs_handler s \<noteq> 0 then [(vs_handler s, vs_fd s, vs_event_type s, vs_user_data s)] else [])"

lemma source_id_marks [simp]: "vs_event_source_id (mark_ready s) = vs_event_source_id s" "vs_event_source_id (served s) = vs_event_source_id s"
  by (simp_all add: mark_ready_def served_def)

lemma handle_event_middle:
  assumes "vs_event_source_id s = ve_source_id e" and "\<forall>x\<in>set xs. vs_event_source_id x \<noteq> ve_source_id e"
  shows "handle_event e (xs @ s # ys) =
    (xs @ s\<lparr>vs_event_count := vs_event_count s + 1, vs_last_event_time := 0,
       vs_state := (if vs_is_oneshot s \<noteq> 0 then EVENT_STATE_INACTIVE else EVENT_STATE_REGISTERED)\<rparr> # ys,
     if vs_handler s \<noteq> 0 then [(vs_handler s, vs_fd s, ve_type e, vs_user_data s)] else [])"
proof -
  have "first_idx (\<lambda>x. vs_event_source_id x = ve_source_id e) (xs @ s # ys) = Some (length xs)"
    using assms by (auto simp: first_idx_Some nth_append)
  then show ?thesis by (simp add: handle_event_def Let_def)
qed

lemma handle_all_round:
  assumes "distinct (map vs_event_source_id (xs @ ys))"
  shows "handle_all (numbered ev (filter registered ys)) (xs @ map mark_ready ys) = (xs @ map served ys, concat (map calls_of ys))"
  using assms
proof (induction ys arbitrary: xs ev)
  case Nil
  then show ?case by simp
next
  case (Cons s ys)
  have "distinct (map vs_event_source_id ((xs @ [served s]) @ ys))" using Cons.prems by simp
  then have IH: "handle_all (numbered ev1 (filter registered ys)) (xs @ served s # map mark_ready ys) =
      (xs @ served s # map served ys, concat (map calls_of ys))" for ev1
    using Cons.IH [of "xs @ [served s]" ev1] by simp
  show ?case
  proof (cases "registered s")
    case True
    have apart: "\<forall>x\<in>set xs. vs_event_source_id x \<noteq> ve_source_id (event_of ev s (vs_event_type s) 0)"
      using Cons.prems by (auto simp: event_of_def image_iff)
    have "handle_event (event_of ev s (vs_event_type s) 0) (xs @ mark_ready s # map mark_ready ys) =
        (xs @ served s # map mark_ready ys, calls_of s)"
      using True handle_event_middle [OF _ apart, of "mark_ready s" "map mark_ready ys"]
      by (simp add: event_of_def mark_ready_def served_def calls_of_def)
    then show ?thesis using True IH by simp
  next
    case False
    then have "mark_ready s = s" "served s = s" "calls_of s = []" by (simp_all add: mark_ready_def served_def calls_of_def)
    then show ?thesis using False IH by simp
  qed
qed

text \<open>The write that follows a full queue lands on the oldest event, and the count passes the size of the queue.\<close>

lemma full_queue_overwrites:
  assumes "reactor_inv r" and "vr_pending_events r = 4096"
  shows "vr_event_queue (push_event e r) ! unat (vr_event_queue_front r) = e \<and> vr_pending_events (push_event e r) = 4097"
  using assms by (simp add: reactor_inv_def push_event_def)

text \<open>Registering a known descriptor again fails when the table is full.\<close>

lemma full_table_refuses_known_fd:
  assumes "length (vr_event_sources r) = MAX_EVENT_SOURCES"
  shows "event_register (Some r) src fd ty hn ud = ((Some r, src), -1)"
  using assms by (simp add: event_register_def)

section \<open>Properties\<close>

text \<open>
  Claim C7. The reactor is a queue of events. For a new reactor and every history of registrations, removals,
  modifications, dispatches, custom and timeout events and processing rounds that never makes more than 4096
  events pending, every return value and every handler call, in order, is that of the machine with an unbounded list of
  events, and the sources and the pending events are those of that machine at the end.
\<close>

theorem reactor_refines_queue:
  assumes "event_reactor_create True = Some r" and "guarded reactor_spec reactor_room reactor_empty cs"
  shows "snd (call_run reactor_step (r, 1, 1) cs) = snd (call_run reactor_spec reactor_empty cs) \<and>
    reactor_abs (fst (call_run reactor_step (r, 1, 1) cs)) = fst (call_run reactor_spec reactor_empty cs)"
  using evr.guarded_run [of "(r, 1, 1)" cs] reactor_created [OF assms(1)] assms(2) by simp

lemmas reactor_witness_simps = reactor_empty_def change_source_def spec_trigger_def find_fd_def mark_ready_def
  handle_event_def event_of_def

theorem reactor_refines_queue_witness:
  "\<exists>r. event_reactor_create True = Some r \<and>
    snd (call_run reactor_step (r, 1, 1)
      [Register 3 EVENT_TYPE_READ 100 7, Register 4 EVENT_TYPE_WRITE 200 8, Oneshot 4 1, Custom 2 9, Dispatch 0, Process, Dispatch 0, Process]) =
    [(1, []), (2, []), (0, []), (0, []), (2, []),
     (3, [(200, 4, EVENT_TYPE_CUSTOM, 8), (100, 3, EVENT_TYPE_READ, 7), (200, 4, EVENT_TYPE_WRITE, 8)]),
     (1, []), (1, [(100, 3, EVENT_TYPE_READ, 7)])]"
proof -
  let ?cs = "[Register 3 EVENT_TYPE_READ 100 7, Register 4 EVENT_TYPE_WRITE 200 8, Oneshot 4 1, Custom 2 9, Dispatch 0, Process, Dispatch 0, Process]"
  obtain r where r: "event_reactor_create True = Some r" by (simp add: event_reactor_create_def)
  have "guarded reactor_spec reactor_room reactor_empty ?cs"
    by (simp add: reactor_witness_simps)
  from reactor_refines_queue [OF r this] r show ?thesis
    by (intro exI [of _ r]) (simp add: reactor_witness_simps)
qed

text \<open>
  Claim C8. A round serves every registered source once. When no event is pending, the identifiers of the sources are
  distinct and at most 4096 sources are registered, dispatching and then processing calls the handler of each registered
  source exactly once, in the order of the table, with its descriptor, event type and user data; each of them is
  then registered again, or inactive if it is one-shot, and the queue is empty.
\<close>

theorem reactor_round_serves_all:
  assumes "reactor_inv r" and "vr_pending_events r = 0" and "distinct (map vs_event_source_id (vr_event_sources r))"
    and "length (filter registered (vr_event_sources r)) \<le> 4096"
    and "event_dispatch (Some r) ev t = ((h, ev1), found)" and "event_process_queue h = (h1, n, calls)"
  shows "\<exists>r1. h1 = Some r1 \<and> vr_event_sources r1 = map served (vr_event_sources r) \<and> vr_pending_events r1 = 0 \<and>
    calls = concat (map calls_of (vr_event_sources r)) \<and>
    found = int (length (filter registered (vr_event_sources r))) \<and> n = found"
proof -
  have none: "pending_of r = []" using assms(2) by (simp add: pending_of_def)
  obtain r0 where h: "h = Some r0" using assms(5) by (auto simp: event_dispatch_def split: prod.splits)
  obtain r1 where h1: "h1 = Some r1" using assms(6) h by (auto simp: event_process_queue_def with_handle_def split: prod.splits)
  have d: "reactor_inv r0 \<and> vr_event_sources r0 = map mark_ready (vr_event_sources r) \<and>
      pending_of r0 = numbered ev (filter registered (vr_event_sources r)) \<and> found = int (length (filter registered (vr_event_sources r)))"
    using dispatch_sim [OF assms(1) _ assms(5), of 0] assms(2,4) none h by (auto simp: reactor_abs_def Let_def)
  moreover have "length (numbered ev xs) = length xs" for xs by (induction ev xs rule: numbered.induct) auto
  moreover have "reactor_spec (reactor_abs (r0, 0, 0)) Process = (reactor_abs (r1, 0, 0), n, calls)"
    using process_sim [of r0 h1 n calls 0 0] assms(6) d h h1 by simp
  ultimately have "vr_event_sources r1 = map served (vr_event_sources r)" "pending_of r1 = []"
      "calls = concat (map calls_of (vr_event_sources r))" "n = found"
    using handle_all_round [of "[]" "vr_event_sources r" ev] assms(3) by (auto simp: reactor_abs_def)
  moreover from this have "vr_pending_events r1 = 0" by (metis length_pending list.size(3) unat_eq_zero)
  ultimately show ?thesis using h1 d by simp
qed

theorem reactor_round_serves_all_witness:
  "\<exists>r h ev1 found h1 n r1. event_reactor_create True = Some r \<and>
    event_dispatch (Some (r\<lparr>vr_event_sources := [\<lparr>vs_event_source_id = 1, vs_fd = 3, vs_event_type = EVENT_TYPE_READ,
      vs_state = EVENT_STATE_REGISTERED, vs_handler = 100, vs_user_data = 7, vs_event_count = 0,
      vs_last_event_time = 0, vs_is_oneshot = 1, vs_is_edge_triggered = 0\<rparr>]\<rparr>)) 1 0 = ((h, ev1), found) \<and>
    event_process_queue h = (h1, n, [(100, 3, EVENT_TYPE_READ, 7)]) \<and> h1 = Some r1 \<and> n = 1 \<and>
    map vs_state (vr_event_sources r1) = [EVENT_STATE_INACTIVE]"
proof -
  obtain r where r: "event_reactor_create True = Some r" by (simp add: event_reactor_create_def)
  let ?s = "\<lparr>vs_event_source_id = 1, vs_fd = 3, vs_event_type = EVENT_TYPE_READ,
      vs_state = EVENT_STATE_REGISTERED, vs_handler = 100, vs_user_data = 7, vs_event_count = 0,
      vs_last_event_time = 0, vs_is_oneshot = 1, vs_is_edge_triggered = 0\<rparr>"
  let ?r = "r\<lparr>vr_event_sources := [?s]\<rparr>"
  obtain h ev1 found where d: "event_dispatch (Some ?r) 1 0 = ((h, ev1), found)" by (metis prod.exhaust)
  obtain h1 n calls where p: "event_process_queue h = (h1, n, calls)" by (metis prod_cases3)
  have "reactor_inv ?r" "vr_pending_events ?r = 0"
    using reactor_created [OF r] r by (auto simp: event_reactor_create_def)
  from reactor_round_serves_all [OF this _ _ d p]
  obtain r1 where "h1 = Some r1" "n = 1" "calls = [(100, 3, EVENT_TYPE_READ, 7)]" "map vs_state (vr_event_sources r1) = [EVENT_STATE_INACTIVE]"
    by (auto simp: served_def calls_of_def)
  with p have "event_process_queue h = (h1, n, [(100, 3, EVENT_TYPE_READ, 7)])" by simp
  with r d \<open>h1 = Some r1\<close> \<open>n = 1\<close> \<open>map vs_state (vr_event_sources r1) = [EVENT_STATE_INACTIVE]\<close> show ?thesis
    by (intro exI conjI)
qed

end
