(* ===== verification/CLI_Core.thy ===== *)
theory CLI_Core
  imports Prelude
begin

text \<open>
  The core of the command line, \<open>src/bin/cli/cli.c\<close>: the context of the session, the table of commands,
  the parser, dispatching with its checks, the history. A function pointer of the table is a value of a
  type \<open>'f\<close>, and calling it is the argument \<open>exec\<close> of the functions that do so; theory \<open>CLI_Shell\<close> gives
  both. The world outside the program has the type \<open>'w\<close>. Allocations are taken to succeed.

  What is printed is kept as the list of the calls that print: the calls of the four printing functions with
  their format and arguments, and the calls of \<open>printf\<close> that have arguments, with the format less its escape
  sequences and line ends. A \<open>printf\<close> of fixed text is left out. A write past the end of a buffer is the
  outcome \<open>Undef\<close>.

  The second half compares the parser with a splitting into words, and holds the interface of a set of commands
  (locale \<open>cli_commands\<close>): commands do not touch the level, the history and the table. From it follow the
  window of the history and the separation of privileges.
\<close>

section \<open>Data\<close>

definition MAX_COMMANDS :: nat where "MAX_COMMANDS = 256"
definition MAX_HISTORY :: nat where "MAX_HISTORY = 1000"
definition MAX_ARG_COUNT :: nat where "MAX_ARG_COUNT = 32"

datatype cli_status_t = CLI_SUCCESS | CLI_ERROR | CLI_ERROR_INVALID_ARG | CLI_ERROR_NOT_FOUND | CLI_ERROR_PERMISSION

datatype priv_level_t = PRIV_PUBLIC | PRIV_USER | PRIV_ADMIN | PRIV_SYSTEM | PRIV_ROOT

fun level_value :: "priv_level_t \<Rightarrow> nat" where
  "level_value PRIV_PUBLIC = 0"
| "level_value PRIV_USER = 1"
| "level_value PRIV_ADMIN = 2"
| "level_value PRIV_SYSTEM = 3"
| "level_value PRIV_ROOT = 4"

text \<open>The enumeration is compared by its values.\<close>

instantiation priv_level_t :: linorder
begin

definition less_eq_priv_level_t :: "priv_level_t \<Rightarrow> priv_level_t \<Rightarrow> bool" where
  "less_eq_priv_level_t a b = (level_value a \<le> level_value b)"

definition less_priv_level_t :: "priv_level_t \<Rightarrow> priv_level_t \<Rightarrow> bool" where
  "less_priv_level_t a b = (level_value a < level_value b)"

instance
proof
  fix a b :: priv_level_t
  show "a \<le> b \<Longrightarrow> b \<le> a \<Longrightarrow> a = b" by (cases a; cases b) (simp_all add: less_eq_priv_level_t_def)
qed (auto simp: less_eq_priv_level_t_def less_priv_level_t_def)

end

record 'f cli_command_t =
  cm_name :: string
  cm_description :: string
  cm_execute :: 'f
  cm_required_level :: priv_level_t
  cm_min_args :: int
  cm_max_args :: int
  cm_usage :: string

record cli_parse_result_t =
  pr_command :: string
  pr_args :: "string list"

record cli_context_t =
  cx_current_level :: priv_level_t
  cx_current_user :: string
  cx_current_dir :: string
  cx_history :: "string list"
  cx_should_exit :: bool

text \<open>The static variables of the program, and the world outside.\<close>

record ('f, 'w) cli =
  cl_context :: cli_context_t
  cl_commands :: "'f cli_command_t list"
  cl_world :: 'w

text \<open>The calls that print; \<open>Prompt\<close> is the prompt written, \<open>Sleep\<close> a call of \<open>sleep\<close>.\<close>

datatype arg = S string | D int

datatype message =
    Print_error string "arg list" | Print_success string "arg list" | Print_info string "arg list"
  | Print_warning string "arg list" | Printf string "arg list" | Prompt string | Sleep int

type_synonym ('f, 'w) reply = "(('f, 'w) cli \<times> cli_status_t \<times> message list) outcome"

section \<open>Context and permissions\<close>

definition cli_init_context :: "bool \<Rightarrow> cli_context_t" where
  "cli_init_context getuid_is_0 =
     \<lparr>cx_current_level = (if getuid_is_0 then PRIV_ROOT else PRIV_USER),
      cx_current_user = (if getuid_is_0 then ''root'' else ''oneos''), cx_current_dir = ''/home'',
      cx_history = [], cx_should_exit = False\<rparr>"

definition cli_init :: "bool \<Rightarrow> 'w \<Rightarrow> ('f, 'w) cli \<times> cli_status_t" where
  "cli_init getuid_is_0 w = (\<lparr>cl_context = cli_init_context getuid_is_0, cl_commands = [], cl_world = w\<rparr>, CLI_SUCCESS)"

definition cli_check_permission :: "priv_level_t \<Rightarrow> ('f, 'w) cli \<Rightarrow> bool" where
  "cli_check_permission required c \<longleftrightarrow> cx_current_level (cl_context c) \<ge> required"

definition cli_get_user_level :: "string \<Rightarrow> priv_level_t" where
  "cli_get_user_level username =
     (if username = ''root'' then PRIV_ROOT else if username = ''admin'' then PRIV_ADMIN else PRIV_USER)"

definition cli_set_user_level :: "priv_level_t \<Rightarrow> ('f, 'w) cli \<Rightarrow> ('f, 'w) cli" where
  "cli_set_user_level level c = c\<lparr>cl_context := (cl_context c)\<lparr>cx_current_level := level\<rparr>\<rparr>"

definition cli_get_current_dir :: "('f, 'w) cli \<Rightarrow> string" where
  "cli_get_current_dir c = cx_current_dir (cl_context c)"

definition cli_get_current_user :: "('f, 'w) cli \<Rightarrow> string" where
  "cli_get_current_user c = cx_current_user (cl_context c)"

section \<open>Commands\<close>

definition cli_register_command :: "'f cli_command_t \<Rightarrow> ('f, 'w) cli \<Rightarrow> ('f, 'w) cli \<times> message list" where
  "cli_register_command cmd c =
     (if length (cl_commands c) \<ge> MAX_COMMANDS then (c, [Print_error ''Command registry full'' []])
      else (c\<lparr>cl_commands := cl_commands c @ [cmd]\<rparr>, []))"

definition cli_command_exists :: "string \<Rightarrow> 'f cli_command_t list \<Rightarrow> int" where
  "cli_command_exists name cmds = (case first_idx (\<lambda>k. cm_name k = name) cmds of None \<Rightarrow> -1 | Some i \<Rightarrow> int i)"

definition cli_dispatch_command ::
    "('f \<Rightarrow> ('f, 'w) cli \<Rightarrow> string list \<Rightarrow> ('f, 'w) reply) \<Rightarrow> string \<Rightarrow> string list \<Rightarrow> ('f, 'w) cli \<Rightarrow> ('f, 'w) reply" where
  "cli_dispatch_command exec command argv c =
     (let cmd_index = cli_command_exists command (cl_commands c); argc = int (length argv)
      in if cmd_index < 0 then Done (c, CLI_ERROR_NOT_FOUND, [Print_error ''Command not found: %s'' [S command]])
         else
           let cmd = cl_commands c ! nat cmd_index
           in if \<not> cli_check_permission (cm_required_level cmd) c
              then Done (c, CLI_ERROR_PERMISSION, [Print_error ''Permission denied'' []])
              else if argc < cm_min_args cmd \<or> (cm_max_args cmd > 0 \<and> argc > cm_max_args cmd)
              then Done (c, CLI_ERROR_INVALID_ARG, [Print_error ''Invalid argument count. Usage: %s'' [S (cm_usage cmd)]])
              else exec (cm_execute cmd) c argv)"

definition cli_show_help :: "string \<Rightarrow> ('f, 'w) cli \<Rightarrow> message list" where
  "cli_show_help command c =
     (let cmd_index = cli_command_exists command (cl_commands c)
      in if cmd_index < 0 then [Print_error ''Command not found: %s'' [S command]]
         else let cmd = cl_commands c ! nat cmd_index
              in [Printf ''%s'' [S (cm_name cmd)], Printf ''  %s'' [S (cm_description cmd)], Printf ''  Usage: %s'' [S (cm_usage cmd)]])"

definition cli_show_all_commands :: "('f, 'w) cli \<Rightarrow> message list" where
  "cli_show_all_commands c =
     map (\<lambda>k. Printf ''  %-20s %s'' [S (cm_name k), S (cm_description k)]) (cl_commands c)"

section \<open>Parsing\<close>

definition delimiter :: "char \<Rightarrow> bool" where
  "delimiter ch \<longleftrightarrow> ch \<in> {CHR '' '', CHR 0x09, CHR 0x0A}"

text \<open>\<open>strtok\<close> with the delimiters of the parser: the token, and the place where the next call goes on.\<close>

definition strtok :: "string \<Rightarrow> (string \<times> string) option" where
  "strtok s =
     (let t = dropWhile delimiter s
      in if t = [] then None
         else Some (takeWhile (\<lambda>ch. \<not> delimiter ch) t, tl (dropWhile (\<lambda>ch. \<not> delimiter ch) t)))"

lemma strtok_shorter: "strtok s = Some (tok, rest) \<Longrightarrow> length rest < length s"
proof -
  assume "strtok s = Some (tok, rest)"
  then have r: "rest = tl (dropWhile (\<lambda>ch. \<not> delimiter ch) (dropWhile delimiter s))" and n: "dropWhile delimiter s \<noteq> []"
    by (auto simp: strtok_def Let_def split: if_splits)
  have "length (dropWhile (\<lambda>ch. \<not> delimiter ch) (dropWhile delimiter s)) \<le> length s"
    by (meson length_dropWhile_le order_trans)
  moreover have "0 < length s" using n by auto
  ultimately show ?thesis unfolding r length_tl by linarith
qed

text \<open>The loop that collects arguments. The token is taken before the number of arguments is looked at.\<close>

function arg_loop :: "string \<Rightarrow> string list \<Rightarrow> string list" where
  "arg_loop rest args =
     (case strtok rest of None \<Rightarrow> args
      | Some (token, rest1) \<Rightarrow> if length args < MAX_ARG_COUNT - 1 then arg_loop rest1 (args @ [token]) else args)"
  by pat_completeness auto
termination by (relation "measure (\<lambda>(rest, args). length rest)") (auto dest: strtok_shorter)

declare arg_loop.simps [simp del]

text \<open>The result is \<open>None\<close> for the null pointer. The command is copied into 64 bytes with no check of its length.\<close>

definition cli_parse_input :: "string option \<Rightarrow> cli_parse_result_t option outcome" where
  "cli_parse_input input =
     (case input of None \<Rightarrow> Done None
      | Some s \<Rightarrow>
          if length s = 0 then Done None
          else case strtok s of None \<Rightarrow> Done None
          | Some (token, rest) \<Rightarrow>
              if length token \<ge> 64 then Undef
              else Done (Some \<lparr>pr_command = token, pr_args = arg_loop rest []\<rparr>))"

section \<open>History and execution\<close>

definition cli_add_history :: "string \<Rightarrow> ('f, 'w) cli \<Rightarrow> ('f, 'w) cli" where
  "cli_add_history command c =
     (let h = cx_history (cl_context c); h1 = (if length h \<ge> MAX_HISTORY then tl h else h)
      in c\<lparr>cl_context := (cl_context c)\<lparr>cx_history := h1 @ [command]\<rparr>\<rparr>)"

definition cli_get_history :: "int \<Rightarrow> ('f, 'w) cli \<Rightarrow> string option" where
  "cli_get_history index c =
     (if index < 0 \<or> index \<ge> int (length (cx_history (cl_context c))) then None else Some (cx_history (cl_context c) ! nat index))"

definition cli_history_count :: "('f, 'w) cli \<Rightarrow> int" where
  "cli_history_count c = int (length (cx_history (cl_context c)))"

definition cli_execute_command ::
    "('f \<Rightarrow> ('f, 'w) cli \<Rightarrow> string list \<Rightarrow> ('f, 'w) reply) \<Rightarrow> string option \<Rightarrow> ('f, 'w) cli \<Rightarrow> ('f, 'w) reply" where
  "cli_execute_command exec command c =
     (case command of None \<Rightarrow> Done (c, CLI_ERROR_INVALID_ARG, [])
      | Some s \<Rightarrow>
          (case cli_parse_input command of Undef \<Rightarrow> Undef
           | Done None \<Rightarrow> Done (c, CLI_ERROR_INVALID_ARG, [])
           | Done (Some result) \<Rightarrow>
               cli_dispatch_command exec (pr_command result) (pr_args result) (cli_add_history s c)))"

definition cli_process_input ::
    "('f \<Rightarrow> ('f, 'w) cli \<Rightarrow> string list \<Rightarrow> ('f, 'w) reply) \<Rightarrow> string option \<Rightarrow> ('f, 'w) cli \<Rightarrow> ('f, 'w) reply" where
  "cli_process_input exec input_buffer c =
     (case input_buffer of None \<Rightarrow> Done (c, CLI_ERROR_INVALID_ARG, []) | Some s \<Rightarrow> cli_execute_command exec input_buffer c)"

definition cli_parse_arguments :: "int \<Rightarrow> bool \<Rightarrow> cli_status_t" where
  "cli_parse_arguments argc argv = (if argc < 1 \<or> \<not> argv then CLI_ERROR_INVALID_ARG else CLI_SUCCESS)"

definition cli_display_help :: "('f, 'w) cli \<Rightarrow> cli_status_t \<times> message list" where
  "cli_display_help c = (CLI_SUCCESS, cli_show_all_commands c)"

section \<open>The parser splits into words\<close>

text \<open>The words of a text, read character by character; the first argument is the word being read.\<close>

fun words_from :: "string \<Rightarrow> string \<Rightarrow> string list" where
  "words_from w [] = (if w = [] then [] else [w])"
| "words_from w (ch # s) =
     (if delimiter ch then (if w = [] then [] else [w]) @ words_from [] s else words_from (w @ [ch]) s)"

lemma words_from_word:
  "w \<noteq> [] \<Longrightarrow>
   words_from w s = (w @ takeWhile (\<lambda>ch. \<not> delimiter ch) s) # words_from [] (tl (dropWhile (\<lambda>ch. \<not> delimiter ch) s))"
  by (induction s arbitrary: w) auto

lemma words_from_blanks: "words_from [] s = words_from [] (dropWhile delimiter s)"
  by (induction s) auto

lemma words_strtok:
  "words_from [] s = (case strtok s of None \<Rightarrow> [] | Some (token, rest) \<Rightarrow> token # words_from [] rest)"
proof (cases "dropWhile delimiter s")
  case Nil
  moreover from this have "words_from [] s = []" using words_from_blanks [of s] by (simp only: words_from.simps) simp
  ultimately show ?thesis by (simp add: strtok_def)
next
  case (Cons ch t)
  then have "\<not> delimiter ch" by (metis hd_dropWhile list.discI list.sel(1))
  then show ?thesis using Cons words_from_blanks [of s] words_from_word [of "[ch]" t] by (simp add: strtok_def)
qed

lemma arg_loop_words: "arg_loop rest args = args @ take (MAX_ARG_COUNT - 1 - length args) (words_from [] rest)"
proof (induction rest args rule: arg_loop.induct)
  case (1 rest args)
  show ?case
  proof (cases "strtok rest")
    case None
    then show ?thesis by (simp add: arg_loop.simps [of rest] words_strtok [of rest])
  next
    case (Some tr)
    obtain token rest1 where tr: "tr = (token, rest1)" by fastforce
    have m: "MAX_ARG_COUNT - 1 - length args = Suc (MAX_ARG_COUNT - 1 - Suc (length args))" if "length args < MAX_ARG_COUNT - 1"
      using that by linarith
    show ?thesis
    proof (cases "length args < MAX_ARG_COUNT - 1")
      case True
      then show ?thesis
        using 1 [OF Some tr [symmetric]] Some tr m
        by (simp add: arg_loop.simps [of rest args] words_strtok [of rest])
    next
      case False
      then show ?thesis using Some tr by (simp add: arg_loop.simps [of rest args])
    qed
  qed
qed

lemma cli_parse_exact:
  "cli_parse_input (Some s) =
     (case words_from [] s of [] \<Rightarrow> Done None
      | w # ws \<Rightarrow> if length w \<ge> 64 then Undef else Done (Some \<lparr>pr_command = w, pr_args = take 31 ws\<rparr>))"
proof -
  have "strtok [] = None" by (simp add: strtok_def)
  then show ?thesis
    by (auto simp: cli_parse_input_def words_strtok [of s] arg_loop_words MAX_ARG_COUNT_def split: option.split)
qed

definition blank :: "string \<Rightarrow> bool" where
  "blank s \<longleftrightarrow> list_all delimiter s"

definition word :: "string \<Rightarrow> bool" where
  "word w \<longleftrightarrow> w \<noteq> [] \<and> list_all (\<lambda>ch. \<not> delimiter ch) w"

text \<open>Words written out, each after a separator, with a last separator.\<close>

fun layout :: "(string \<times> string) list \<Rightarrow> string \<Rightarrow> string" where
  "layout [] trail = trail"
| "layout ((sep, w) # ps) trail = sep @ w @ layout ps trail"

lemma words_blank: "blank sep \<Longrightarrow> words_from [] (sep @ s) = words_from [] s"
  by (induction sep) (auto simp: blank_def)

lemma words_from_append: "list_all (\<lambda>ch. \<not> delimiter ch) w \<Longrightarrow> words_from v (w @ s) = words_from (v @ w) s"
  by (induction w arbitrary: v) auto

lemma words_from_end:
  assumes "w \<noteq> []" and "s = [] \<or> delimiter (hd s)"
  shows "words_from w s = w # words_from [] s"
  using assms by (cases s) auto

lemma words_layout:
  assumes "list_all (\<lambda>(sep, w). blank sep \<and> word w) ps" and "list_all (\<lambda>(sep, w). sep \<noteq> []) (tl ps)" and "blank trail"
  shows "words_from [] (layout ps trail) = map snd ps"
  using assms
proof (induction ps)
  case Nil
  then show ?case using words_blank [of trail "[]"] by simp
next
  case (Cons p ps)
  obtain sep w where p: "p = (sep, w)" by fastforce
  have b: "blank sep" and w: "w \<noteq> []" "list_all (\<lambda>ch. \<not> delimiter ch) w" using Cons.prems(1) p by (auto simp: word_def)
  have "list_all (\<lambda>(sep, w). sep \<noteq> []) (tl ps)" using Cons.prems(2) by (cases ps) auto
  then have IH: "words_from [] (layout ps trail) = map snd ps" using Cons by simp
  have "layout ps trail = [] \<or> delimiter (hd (layout ps trail))"
    using Cons.prems by (cases ps; cases trail) (auto simp: blank_def list_all_iff neq_Nil_conv)
  then have "words_from w (layout ps trail) = w # map snd ps" using words_from_end [OF w(1)] IH by simp
  then show ?case using p words_blank [OF b] words_from_append [OF w(2), of "[]"] by simp
qed

section \<open>Sets of commands\<close>

text \<open>The last entries of a list.\<close>

definition window :: "nat \<Rightarrow> 'a list \<Rightarrow> 'a list" where
  "window n xs = drop (length xs - n) xs"

lemma window_snoc:
  assumes "0 < n"
  shows "(if length (window n xs) \<ge> n then tl (window n xs) else window n xs) @ [x] = window n (xs @ [x])"
proof (cases "length xs \<ge> n")
  case True
  then have "length (xs @ [x]) - n = Suc (length xs - n)" using assms by simp
  with True assms show ?thesis by (simp add: window_def drop_Suc tl_drop)
next
  case False
  then show ?thesis by (simp add: window_def)
qed

text \<open>A command may change the directory, the exit flag and the world, and nothing else.\<close>

locale cli_commands =
  fixes exec :: "'f \<Rightarrow> ('f, 'w) cli \<Rightarrow> string list \<Rightarrow> ('f, 'w) reply"
  assumes exec_keeps: "exec f c argv = Done (c1, st, ms) \<Longrightarrow>
      cl_commands c1 = cl_commands c \<and> cx_current_level (cl_context c1) = cx_current_level (cl_context c) \<and>
      cx_history (cl_context c1) = cx_history (cl_context c)"
begin

lemma dispatch_keeps:
  assumes "cli_dispatch_command exec command argv c = Done (c1, st, ms)"
  shows "cl_commands c1 = cl_commands c \<and> cx_current_level (cl_context c1) = cx_current_level (cl_context c) \<and>
    cx_history (cl_context c1) = cx_history (cl_context c)"
  using assms exec_keeps by (auto simp: cli_dispatch_command_def Let_def split: if_splits)

text \<open>A line that holds a word is added to the window of the history, whatever comes of it.\<close>

lemma execute_keeps:
  assumes "cli_execute_command exec (Some s) c = Done (c1, st, ms)"
  shows "cl_commands c1 = cl_commands c" and "cx_current_level (cl_context c1) = cx_current_level (cl_context c)"
    and "cx_history (cl_context c) = window MAX_HISTORY hs \<Longrightarrow>
      cx_history (cl_context c1) = window MAX_HISTORY (hs @ (if words_from [] s = [] then [] else [s]))"
proof -
  have "cl_commands c1 = cl_commands c \<and> cx_current_level (cl_context c1) = cx_current_level (cl_context c) \<and>
    (cx_history (cl_context c) = window MAX_HISTORY hs \<longrightarrow>
     cx_history (cl_context c1) = window MAX_HISTORY (hs @ (if words_from [] s = [] then [] else [s])))"
  proof (cases "words_from [] s")
    case Nil
    then show ?thesis using assms by (simp add: cli_execute_command_def cli_parse_exact)
  next
    case (Cons w ws)
    then have "cli_dispatch_command exec w (take 31 ws) (cli_add_history s c) = Done (c1, st, ms)"
      using assms by (auto simp: cli_execute_command_def cli_parse_exact split: if_splits)
    from dispatch_keeps [OF this] Cons window_snoc [of MAX_HISTORY hs s] show ?thesis
      by (auto simp: cli_add_history_def Let_def MAX_HISTORY_def)
  qed
  then show "cl_commands c1 = cl_commands c" "cx_current_level (cl_context c1) = cx_current_level (cl_context c)"
    "cx_history (cl_context c) = window MAX_HISTORY hs \<Longrightarrow>
      cx_history (cl_context c1) = window MAX_HISTORY (hs @ (if words_from [] s = [] then [] else [s]))"
    by simp_all
qed

end

text \<open>Only what the level of the session allows is reached: other bodies may be anything.\<close>

definition allowed :: "('f, 'w) cli \<Rightarrow> 'f \<Rightarrow> bool" where
  "allowed c f \<longleftrightarrow> (\<exists>k \<in> set (cl_commands c). cm_execute k = f \<and> cm_required_level k \<le> cx_current_level (cl_context c))"

lemma dispatch_confined:
  assumes "\<And>f c argv. allowed c0 f \<Longrightarrow> exec1 f c argv = exec2 f c argv"
    and "cl_commands c = cl_commands c0" and "cx_current_level (cl_context c) = cx_current_level (cl_context c0)"
  shows "cli_dispatch_command exec1 command argv c = cli_dispatch_command exec2 command argv c"
proof (cases "first_idx (\<lambda>k. cm_name k = command) (cl_commands c)")
  case None
  then show ?thesis by (simp add: cli_dispatch_command_def cli_command_exists_def)
next
  case (Some i)
  then have "cl_commands c ! i \<in> set (cl_commands c0)" using assms(2) by (auto simp: first_idx_Some)
  then have "cm_required_level (cl_commands c ! i) \<le> cx_current_level (cl_context c) \<Longrightarrow>
      exec1 (cm_execute (cl_commands c ! i)) c argv = exec2 (cm_execute (cl_commands c ! i)) c argv"
    using assms(3) by (intro assms(1)) (auto simp: allowed_def)
  then show ?thesis using Some
    by (simp add: cli_dispatch_command_def cli_command_exists_def cli_check_permission_def Let_def)
qed

lemma execute_confined:
  assumes "\<And>f c argv. allowed c0 f \<Longrightarrow> exec1 f c argv = exec2 f c argv"
    and "cl_commands c = cl_commands c0" and "cx_current_level (cl_context c) = cx_current_level (cl_context c0)"
  shows "cli_execute_command exec1 (Some s) c = cli_execute_command exec2 (Some s) c"
proof -
  have "cli_dispatch_command exec1 command argv (cli_add_history s c) = cli_dispatch_command exec2 command argv (cli_add_history s c)"
    for command argv
    using assms(2,3) by (intro dispatch_confined [OF assms(1)]) (simp_all add: cli_add_history_def Let_def)
  then show ?thesis by (simp add: cli_execute_command_def split: outcome.split option.split)
qed

section \<open>Properties\<close>

text \<open>
  Claim C3. The parser reads back what is written. Words without blanks, written with any blanks before, between and after
  them, are parsed to the first word as the command and the others as its arguments, provided the command has fewer than 64
  characters and there are at most 31 arguments.
\<close>

theorem cli_parse_roundtrip:
  assumes "list_all (\<lambda>(sep, w). blank sep \<and> word w) ((sep, command) # ps)" and "list_all (\<lambda>(sep, w). sep \<noteq> []) ps"
    and "blank trail" and "length command < 64" and "length ps \<le> 31"
  shows "cli_parse_input (Some (layout ((sep, command) # ps) trail)) =
    Done (Some \<lparr>pr_command = command, pr_args = map snd ps\<rparr>)"
  using words_layout [of "(sep, command) # ps" trail] assms by (simp add: cli_parse_exact)

theorem cli_parse_roundtrip_witness:
  "cli_parse_input (Some (''  cp '' @ [CHR 0x09] @ ''a.txt b.txt'' @ [CHR 0x0A])) =
   Done (Some \<lparr>pr_command = ''cp'', pr_args = [''a.txt'', ''b.txt'']\<rparr>)"
  using cli_parse_roundtrip [of "''  ''" "''cp''" "[('' '' @ [CHR 0x09], ''a.txt''), ('' '', ''b.txt'')]" "[CHR 0x0A]"]
  by (simp add: blank_def word_def delimiter_def)

text \<open>A command of 64 characters or more is copied past the end of its buffer.\<close>

lemma long_command_undefined:
  "words_from [] s = w # ws \<Longrightarrow> length w \<ge> 64 \<Longrightarrow> cli_execute_command exec (Some s) c = Undef"
  by (simp add: cli_execute_command_def cli_parse_exact)

end
