(* ===== verification/CLI_Shell.thy ===== *)
theory CLI_Shell
  imports CLI_Core
begin

text \<open>
  The commands of the shell (\<open>src/bin/cli/commands.c\<close> and \<open>extended_commands.c\<close>), the table that registers them
  and the loop of \<open>src/bin/cli/shell.c\<close>. The operating system is an argument (record \<open>os\<close>): the functions of the C
  library that the commands call, on a world of any type. A file is read as it is after the files it is
  copied to were opened. Commands that only print fixed text or the clock are one definition,
  \<open>prints_only\<close>.

  The second half shows that the commands meet the interface of \<open>CLI_Core\<close>, that a session without administrator rights
  reaches no administrator command, what the history holds, and how lines reach the parser.
\<close>

section \<open>The operating system\<close>

record 'w os =
  os_entries :: "'w \<Rightarrow> string \<Rightarrow> string list option"
  os_stat_size :: "'w \<Rightarrow> string \<Rightarrow> int option"
  os_chdir :: "'w \<Rightarrow> string \<Rightarrow> 'w option"
  os_getcwd :: "'w \<Rightarrow> string \<Rightarrow> string"
  os_contents :: "'w \<Rightarrow> string \<Rightarrow> string option"
  os_create :: "'w \<Rightarrow> string \<Rightarrow> 'w option"
  os_write :: "'w \<Rightarrow> string \<Rightarrow> string \<Rightarrow> 'w"
  os_open_append :: "'w \<Rightarrow> string \<Rightarrow> 'w option"
  os_mkdir :: "'w \<Rightarrow> string \<Rightarrow> 'w option"
  os_unlink :: "'w \<Rightarrow> string \<Rightarrow> 'w option"
  os_rename :: "'w \<Rightarrow> string \<Rightarrow> string \<Rightarrow> 'w option"
  os_time :: "'w \<Rightarrow> int"

text \<open>The function pointers of the table.\<close>

datatype cmd_fn =
    F_pwd | F_ls | F_cd | F_cat | F_mkdir | F_rm | F_cp | F_mv | F_touch | F_find | F_whoami | F_help | F_history
  | F_clear | F_echo | F_version | F_exit | F_sysinfo | F_sysconfig_get | F_sysconfig_set | F_memory_status
  | F_process_list | F_shutdown | F_user_create | F_package_install | F_device_list | F_interface_list | F_route_list
  | F_ping | F_ps | F_top | F_cpu_usage | F_disk_usage | F_time_get | F_time_set | F_cron_list | F_cron_add | F_mount
  | F_unmount | F_volume_list | F_user_list | F_permission_grant | F_audit_log | F_log_view | F_config_export
  | F_config_import | F_status_report | F_health_check | F_reboot | F_sleep | F_power_status

section \<open>Reading lines and numbers\<close>

abbreviation newline :: char where "newline \<equiv> CHR 0x0A"

text \<open>\<open>fgets\<close> into a buffer of \<open>n\<close> bytes: what it reads, and the rest of the stream; \<open>cstr\<close> is the C string in a buffer.\<close>

definition fgets :: "nat \<Rightarrow> string \<Rightarrow> (string \<times> string) option" where
  "fgets n s =
     (if s = [] then None
      else let buf = take (n - 1) s; l = length (takeWhile (\<lambda>ch. ch \<noteq> newline) buf); k = (if l < length buf then Suc l else l)
           in Some (take k s, drop k s))"

definition cstr :: "string \<Rightarrow> string" where
  "cstr s = takeWhile (\<lambda>ch. ch \<noteq> CHR 0x00) s"

lemma fgets_progress:
  assumes "fgets n s = Some (buf, rest)" and "1 < n"
  shows "s = buf @ rest \<and> length rest < length s"
proof -
  let ?b = "take (n - 1) s"
  let ?l = "length (takeWhile (\<lambda>ch. ch \<noteq> newline) ?b)"
  have "s \<noteq> []" using assms(1) by (auto simp: fgets_def)
  then have "0 < length ?b" using assms(2) by simp
  then have "0 < (if ?l < length ?b then Suc ?l else ?l)" by (cases "?l < length ?b") auto
  with assms(1) \<open>s \<noteq> []\<close> show ?thesis by (auto simp: fgets_def Let_def split: if_splits)
qed

function cat_loop :: "string \<Rightarrow> message list" where
  "cat_loop s =
     (case fgets 1024 s of None \<Rightarrow> [] | Some (buffer, rest) \<Rightarrow> Printf ''%s'' [S (cstr buffer)] # cat_loop rest)"
  by pat_completeness auto
termination by (relation "measure length") (auto dest!: fgets_progress)

declare cat_loop.simps [simp del]

definition c_isspace :: "char \<Rightarrow> bool" where
  "c_isspace ch \<longleftrightarrow> ch \<in> {CHR '' '', CHR 0x09, CHR 0x0A, CHR 0x0B, CHR 0x0C, CHR 0x0D}"

definition c_isdigit :: "char \<Rightarrow> bool" where
  "c_isdigit ch \<longleftrightarrow> of_char ch \<in> {48..57 :: nat}"

fun decimal :: "int \<Rightarrow> string \<Rightarrow> int" where
  "decimal acc [] = acc"
| "decimal acc (ch # s) = (if c_isdigit ch then decimal (acc * 10 + (of_char ch - 48)) s else acc)"

text \<open>\<open>atoi\<close> is undefined when the number is not an \<open>int\<close>.\<close>

definition atoi :: "string \<Rightarrow> int outcome" where
  "atoi s =
     (let t = dropWhile c_isspace s;
          v = (case t of [] \<Rightarrow> 0
               | ch # u \<Rightarrow> if ch = CHR ''-'' then - decimal 0 u else if ch = CHR ''+'' then decimal 0 u else decimal 0 t)
      in if -2147483648 \<le> v \<and> v \<le> 2147483647 then Done v else Undef)"

section \<open>The commands of commands.c\<close>

type_synonym 'w shell = "(cmd_fn, 'w) cli"
type_synonym 'w cmd = "'w shell \<Rightarrow> string list \<Rightarrow> (cmd_fn, 'w) reply"

text \<open>The end of a command that does not change the state, and of one that changed the world or failed to.\<close>

definition says :: "'w shell \<Rightarrow> cli_status_t \<Rightarrow> message list \<Rightarrow> (cmd_fn, 'w) reply" where
  "says c st ms = Done (c, st, ms)"

definition requires :: "string \<Rightarrow> 'w shell \<Rightarrow> (cmd_fn, 'w) reply" where
  "requires what c = says c CLI_ERROR_INVALID_ARG [Print_error what []]"

definition cmd_pwd :: "'w cmd" where
  "cmd_pwd c argv = says c CLI_SUCCESS [Printf ''%s'' [S (cli_get_current_dir c)]]"

text \<open>A size that \<open>stat\<close> did not deliver is printed from an uninitialised buffer.\<close>

fun ls_long :: "'w os \<Rightarrow> 'w \<Rightarrow> string \<Rightarrow> string list \<Rightarrow> message list outcome" where
  "ls_long os w path [] = Done []"
| "ls_long os w path (d_name # ds) =
     (case os_stat_size os w (take 511 (path @ ''/'' @ d_name)) of None \<Rightarrow> Undef
      | Some n \<Rightarrow> (case ls_long os w path ds of Undef \<Rightarrow> Undef
         | Done ms \<Rightarrow> Done (Printf ''  %-20s %8lu bytes'' [S d_name, D n] # ms)))"

definition cmd_ls :: "'w os \<Rightarrow> 'w cmd" where
  "cmd_ls os c argv =
     (let path = (if length argv > 0 then argv ! 0 else cli_get_current_dir c)
      in case os_entries os (cl_world c) path of
           None \<Rightarrow> says c CLI_ERROR [Print_error ''Cannot open directory: %s'' [S path]]
         | Some ds \<Rightarrow>
             if length argv > 1 \<and> argv ! 1 = ''-l''
             then (case ls_long os (cl_world c) path ds of Undef \<Rightarrow> Undef | Done ms \<Rightarrow> says c CLI_SUCCESS ms)
             else says c CLI_SUCCESS (map (\<lambda>d. Printf ''  %-20s'' [S d]) ds))"

definition cmd_cd :: "'w os \<Rightarrow> 'w cmd" where
  "cmd_cd os c argv =
     (if length argv < 1 then requires ''Directory required'' c
      else case os_chdir os (cl_world c) (argv ! 0) of
        None \<Rightarrow> says c CLI_ERROR [Print_error ''Cannot change directory: %s'' [S (argv ! 0)]]
      | Some w \<Rightarrow> says (c\<lparr>cl_world := w, cl_context := (cl_context c)\<lparr>cx_current_dir := os_getcwd os w (cx_current_dir (cl_context c))\<rparr>\<rparr>)
          CLI_SUCCESS [])"

definition cmd_cat :: "'w os \<Rightarrow> 'w cmd" where
  "cmd_cat os c argv =
     (if length argv < 1 then requires ''File required'' c
      else case os_contents os (cl_world c) (argv ! 0) of
        None \<Rightarrow> says c CLI_ERROR [Print_error ''Cannot open file: %s'' [S (argv ! 0)]]
      | Some s \<Rightarrow> says c CLI_SUCCESS (cat_loop s))"

definition on_world :: "'w shell \<Rightarrow> 'w option \<Rightarrow> message \<Rightarrow> message \<Rightarrow> (cmd_fn, 'w) reply" where
  "on_world c res failure success =
     (case res of None \<Rightarrow> says c CLI_ERROR [failure] | Some w \<Rightarrow> says (c\<lparr>cl_world := w\<rparr>) CLI_SUCCESS [success])"

definition cmd_mkdir :: "'w os \<Rightarrow> 'w cmd" where
  "cmd_mkdir os c argv =
     (if length argv < 1 then requires ''Directory name required'' c
      else on_world c (os_mkdir os (cl_world c) (argv ! 0)) (Print_error ''Cannot create directory: %s'' [S (argv ! 0)])
        (Print_success ''Directory created: %s'' [S (argv ! 0)]))"

definition cmd_rm :: "'w os \<Rightarrow> 'w cmd" where
  "cmd_rm os c argv =
     (if length argv < 1 then requires ''File required'' c
      else on_world c (os_unlink os (cl_world c) (argv ! 0)) (Print_error ''Cannot remove file: %s'' [S (argv ! 0)])
        (Print_success ''File removed: %s'' [S (argv ! 0)]))"

text \<open>The loop of \<open>cmd_cp\<close> over what is left of the source, in pieces of 4096 bytes.\<close>

function copy_loop :: "'w os \<Rightarrow> string \<Rightarrow> string \<Rightarrow> 'w \<Rightarrow> 'w" where
  "copy_loop os dst s w = (if s = [] then w else copy_loop os dst (drop 4096 s) (os_write os w dst (take 4096 s)))"
  by pat_completeness auto
termination by (relation "measure (\<lambda>(os, dst, s, w). length s)") auto

declare copy_loop.simps [simp del]

definition cmd_cp :: "'w os \<Rightarrow> 'w cmd" where
  "cmd_cp os c argv =
     (if length argv < 2 then requires ''Source and destination required'' c
      else case os_contents os (cl_world c) (argv ! 0) of
        None \<Rightarrow> says c CLI_ERROR [Print_error ''Cannot open source: %s'' [S (argv ! 0)]]
      | Some s0 \<Rightarrow>
          (case os_create os (cl_world c) (argv ! 1) of
             None \<Rightarrow> says c CLI_ERROR [Print_error ''Cannot open destination: %s'' [S (argv ! 1)]]
           | Some w \<Rightarrow>
               let s = (case os_contents os w (argv ! 0) of None \<Rightarrow> [] | Some s \<Rightarrow> s)
               in says (c\<lparr>cl_world := copy_loop os (argv ! 1) s w\<rparr>) CLI_SUCCESS
                    [Print_success ''File copied: %s -> %s'' [S (argv ! 0), S (argv ! 1)]]))"

definition cmd_mv :: "'w os \<Rightarrow> 'w cmd" where
  "cmd_mv os c argv =
     (if length argv < 2 then requires ''Source and destination required'' c
      else on_world c (os_rename os (cl_world c) (argv ! 0) (argv ! 1)) (Print_error ''Cannot move file: %s'' [S (argv ! 0)])
        (Print_success ''File moved: %s -> %s'' [S (argv ! 0), S (argv ! 1)]))"

definition cmd_touch :: "'w os \<Rightarrow> 'w cmd" where
  "cmd_touch os c argv =
     (if length argv < 1 then requires ''File name required'' c
      else on_world c (os_open_append os (cl_world c) (argv ! 0)) (Print_error ''Cannot create file: %s'' [S (argv ! 0)])
        (Print_success ''File created: %s'' [S (argv ! 0)]))"

definition cmd_find :: "'w cmd" where
  "cmd_find c argv =
     (if length argv < 1 then requires ''Path required'' c
      else says c CLI_SUCCESS [Print_info ''Find in directory: %s (feature implementation pending)'' [S (argv ! 0)]])"

definition cmd_whoami :: "'w cmd" where
  "cmd_whoami c argv = says c CLI_SUCCESS [Printf ''%s'' [S (cli_get_current_user c)]]"

definition cmd_help :: "'w cmd" where
  "cmd_help c argv = says c CLI_SUCCESS (if length argv > 0 then cli_show_help (argv ! 0) c else cli_show_all_commands c)"

definition cmd_history :: "'w cmd" where
  "cmd_history c argv = says c CLI_SUCCESS
     (map (\<lambda>i. Printf ''  %3d  %s'' [D (i + 1), S (the (cli_get_history i c))]) [0..cli_history_count c - 1])"

definition cmd_echo :: "'w cmd" where
  "cmd_echo c argv = says c CLI_SUCCESS (map (\<lambda>a. Printf ''%s '' [S a]) argv)"

definition set_exit :: "'w shell \<Rightarrow> 'w shell" where
  "set_exit c = c\<lparr>cl_context := (cl_context c)\<lparr>cx_should_exit := True\<rparr>\<rparr>"

definition cmd_exit :: "'w cmd" where
  "cmd_exit c argv = says (set_exit c) CLI_SUCCESS [Print_info ''Goodbye!'' []]"

definition cmd_abhi_sysinfo :: "'w os \<Rightarrow> 'w cmd" where
  "cmd_abhi_sysinfo os c argv = says c CLI_SUCCESS
     [Printf ''  User:            %s'' [S (cli_get_current_user c)], Printf ''  Current Dir:     %s'' [S (cli_get_current_dir c)],
      Printf ''  Privilege Level: %d'' [D (int (level_value (cx_current_level (cl_context c))))],
      Printf ''  Uptime:          %ld seconds'' [D (os_time os (cl_world c))]]"

definition cmd_abhi_sysconfig_get :: "'w cmd" where
  "cmd_abhi_sysconfig_get c argv = (if length argv < 1 then requires ''Configuration key required'' c else says c CLI_SUCCESS [])"

definition cmd_abhi_sysconfig_set :: "'w cmd" where
  "cmd_abhi_sysconfig_set c argv =
     (if length argv < 2 then requires ''Key and value required'' c
      else says c CLI_SUCCESS [Print_success ''Configuration updated: %s=%s'' [S (argv ! 0), S (argv ! 1)]])"

text \<open>The check that the administrator commands make themselves.\<close>

definition admin_only :: "'w shell \<Rightarrow> (cmd_fn, 'w) reply \<Rightarrow> (cmd_fn, 'w) reply" where
  "admin_only c body =
     (if \<not> cli_check_permission PRIV_ADMIN c then says c CLI_ERROR_PERMISSION [Print_error ''Admin privileges required'' []] else body)"

definition delay_of :: "string list \<Rightarrow> int outcome" where
  "delay_of argv = (if length argv > 1 \<and> argv ! 0 = ''--delay'' then atoi (argv ! 1) else Done 0)"

definition cmd_abhi_shutdown :: "'w cmd" where
  "cmd_abhi_shutdown c argv = admin_only c
     (case delay_of argv of Undef \<Rightarrow> Undef
      | Done delay \<Rightarrow> says (set_exit c) CLI_SUCCESS
          ([Print_warning ''System shutting down in %d seconds'' [D delay]] @ (if delay > 0 then [Sleep delay] else []) @
           [Print_info ''Shutdown complete'' []]))"

definition cmd_abhi_user_create :: "'w cmd" where
  "cmd_abhi_user_create c argv = admin_only c
     (if length argv < 1 then requires ''Username required'' c
      else says c CLI_SUCCESS [Print_success ''User created: %s'' [S (argv ! 0)]])"

definition cmd_abhi_package_install :: "'w cmd" where
  "cmd_abhi_package_install c argv = admin_only c
     (if length argv < 1 then requires ''Package name required'' c
      else says c CLI_SUCCESS [Print_info ''Installing package: %s'' [S (argv ! 0)], Print_success ''Package installed: %s'' [S (argv ! 0)]])"

section \<open>The commands of extended-commands.c\<close>

text \<open>
  Twenty commands of the two files only print fixed text or the clock.
\<close>

definition prints_only :: "'w cmd" where
  "prints_only c argv = says c CLI_SUCCESS []"

definition cmd_ping :: "'w cmd" where
  "cmd_ping c argv =
     (if length argv < 1 then requires ''Host required'' c
      else says c CLI_SUCCESS (Print_info ''PING %s (simulated)'' [S (argv ! 0)] #
        map (\<lambda>i. Printf ''  bytes=32 time=%d ms TTL=64'' [D (10 + i * 2)]) [0..3]))"

definition cmd_abhi_time_set :: "'w cmd" where
  "cmd_abhi_time_set c argv = admin_only c
     (if length argv < 1 then requires ''Timestamp required'' c
      else says c CLI_SUCCESS [Print_success ''System time set to: %s'' [S (argv ! 0)]])"

definition cmd_abhi_cron_add :: "'w cmd" where
  "cmd_abhi_cron_add c argv =
     (if length argv < 2 then requires ''Schedule and command required'' c
      else says c CLI_SUCCESS [Print_success ''Task scheduled: %s -> %s'' [S (argv ! 0), S (argv ! 1)]])"

definition cmd_abhi_mount :: "'w cmd" where
  "cmd_abhi_mount c argv = admin_only c
     (if length argv < 2 then requires ''Source and mount point required'' c
      else says c CLI_SUCCESS [Print_success ''Mounted: %s -> %s'' [S (argv ! 0), S (argv ! 1)]])"

definition cmd_abhi_unmount :: "'w cmd" where
  "cmd_abhi_unmount c argv = admin_only c
     (if length argv < 1 then requires ''Mount point required'' c
      else says c CLI_SUCCESS [Print_success ''Unmounted: %s'' [S (argv ! 0)]])"

definition cmd_abhi_permission_grant :: "'w cmd" where
  "cmd_abhi_permission_grant c argv = admin_only c (says c CLI_SUCCESS [Print_success ''Permission granted'' []])"

definition cmd_abhi_config_export :: "'w cmd" where
  "cmd_abhi_config_export c argv =
     (if length argv < 1 then requires ''Output file required'' c
      else says c CLI_SUCCESS [Print_success ''Configuration exported to: %s'' [S (argv ! 0)]])"

definition cmd_abhi_config_import :: "'w cmd" where
  "cmd_abhi_config_import c argv = admin_only c
     (if length argv < 1 then requires ''Input file required'' c
      else says c CLI_SUCCESS [Print_success ''Configuration imported from: %s'' [S (argv ! 0)]])"

definition cmd_abhi_reboot :: "'w cmd" where
  "cmd_abhi_reboot c argv = admin_only c
     (case delay_of argv of Undef \<Rightarrow> Undef
      | Done delay \<Rightarrow> says (set_exit c) CLI_SUCCESS [Print_warning ''System rebooting in %d seconds'' [D delay]])"

definition cmd_abhi_sleep :: "'w cmd" where
  "cmd_abhi_sleep c argv = says c CLI_SUCCESS
     [Print_info ''System entering sleep mode'' [], Print_info ''Wake-up in background (no actual sleep in simulation)'' []]"

text \<open>Calling a function pointer of the table.\<close>

definition execute :: "'w os \<Rightarrow> cmd_fn \<Rightarrow> 'w cmd" where
  "execute os f =
     (case f of
        F_pwd \<Rightarrow> cmd_pwd | F_ls \<Rightarrow> cmd_ls os | F_cd \<Rightarrow> cmd_cd os | F_cat \<Rightarrow> cmd_cat os | F_mkdir \<Rightarrow> cmd_mkdir os
      | F_rm \<Rightarrow> cmd_rm os | F_cp \<Rightarrow> cmd_cp os | F_mv \<Rightarrow> cmd_mv os | F_touch \<Rightarrow> cmd_touch os | F_find \<Rightarrow> cmd_find
      | F_whoami \<Rightarrow> cmd_whoami | F_help \<Rightarrow> cmd_help | F_history \<Rightarrow> cmd_history | F_echo \<Rightarrow> cmd_echo | F_exit \<Rightarrow> cmd_exit
      | F_sysinfo \<Rightarrow> cmd_abhi_sysinfo os | F_sysconfig_get \<Rightarrow> cmd_abhi_sysconfig_get
      | F_sysconfig_set \<Rightarrow> cmd_abhi_sysconfig_set | F_shutdown \<Rightarrow> cmd_abhi_shutdown
      | F_user_create \<Rightarrow> cmd_abhi_user_create | F_package_install \<Rightarrow> cmd_abhi_package_install | F_ping \<Rightarrow> cmd_ping
      | F_time_set \<Rightarrow> cmd_abhi_time_set | F_cron_add \<Rightarrow> cmd_abhi_cron_add | F_mount \<Rightarrow> cmd_abhi_mount
      | F_unmount \<Rightarrow> cmd_abhi_unmount | F_permission_grant \<Rightarrow> cmd_abhi_permission_grant
      | F_config_export \<Rightarrow> cmd_abhi_config_export | F_config_import \<Rightarrow> cmd_abhi_config_import
      | F_reboot \<Rightarrow> cmd_abhi_reboot | F_sleep \<Rightarrow> cmd_abhi_sleep | _ \<Rightarrow> prints_only)"

section \<open>The table\<close>

definition command ::
    "string \<Rightarrow> string \<Rightarrow> 'f \<Rightarrow> priv_level_t \<Rightarrow> int \<Rightarrow> int \<Rightarrow> string \<Rightarrow> 'f cli_command_t" where
  "command name description fn required_level min_args max_args usage =
     \<lparr>cm_name = name, cm_description = description, cm_execute = fn, cm_required_level = required_level,
      cm_min_args = min_args, cm_max_args = max_args, cm_usage = usage\<rparr>"

definition posix_commands :: "cmd_fn cli_command_t list" where
  "posix_commands =
   [command ''pwd'' ''Print working directory'' F_pwd PRIV_PUBLIC 0 0 ''pwd'',
    command ''ls'' ''List directory contents'' F_ls PRIV_PUBLIC 0 2 ''ls [path] [-l]'',
    command ''cd'' ''Change directory'' F_cd PRIV_USER 1 1 ''cd <directory>'',
    command ''cat'' ''Display file contents'' F_cat PRIV_USER 1 1 ''cat <file>'',
    command ''mkdir'' ''Create directory'' F_mkdir PRIV_USER 1 2 ''mkdir <dirname> [-p]'',
    command ''rm'' ''Remove file'' F_rm PRIV_USER 1 1 ''rm <file>'',
    command ''cp'' ''Copy file'' F_cp PRIV_USER 2 2 ''cp <source> <destination>'',
    command ''mv'' ''Move/rename file'' F_mv PRIV_USER 2 2 ''mv <source> <destination>'',
    command ''touch'' ''Create empty file'' F_touch PRIV_USER 1 1 ''touch <filename>'',
    command ''find'' ''Find files'' F_find PRIV_USER 1 3 ''find <path> [-name pattern]'',
    command ''whoami'' ''Show current user'' F_whoami PRIV_PUBLIC 0 0 ''whoami'',
    command ''help'' ''Show help information'' F_help PRIV_PUBLIC 0 1 ''help [command]'',
    command ''history'' ''Show command history'' F_history PRIV_PUBLIC 0 0 ''history'',
    command ''clear'' ''Clear screen'' F_clear PRIV_PUBLIC 0 0 ''clear'',
    command ''echo'' ''Print text'' F_echo PRIV_PUBLIC 1 32 ''echo <text>'',
    command ''version'' ''Show system version'' F_version PRIV_PUBLIC 0 0 ''version'',
    command ''exit'' ''Exit shell'' F_exit PRIV_PUBLIC 0 0 ''exit'']"

definition system_commands :: "cmd_fn cli_command_t list" where
  "system_commands =
   [command ''abhi-sysinfo'' ''Show system information'' F_sysinfo PRIV_USER 0 1 ''abhi-sysinfo [--json]'',
    command ''abhi-sysconfig-get'' ''Get system configuration'' F_sysconfig_get PRIV_USER 1 1 ''abhi-sysconfig-get <key>'',
    command ''abhi-sysconfig-set'' ''Set system configuration'' F_sysconfig_set PRIV_ADMIN 2 2 ''abhi-sysconfig-set <key> <value>'',
    command ''abhi-memory-status'' ''Show memory usage'' F_memory_status PRIV_USER 0 1 ''abhi-memory-status [--verbose]'',
    command ''abhi-process-list'' ''List running processes'' F_process_list PRIV_USER 0 1 ''abhi-process-list [--detailed]'',
    command ''abhi-shutdown'' ''Shutdown system'' F_shutdown PRIV_ADMIN 0 2 ''abhi-shutdown [--delay seconds]'',
    command ''abhi-user-create'' ''Create user account'' F_user_create PRIV_ADMIN 1 4 ''abhi-user-create <username> [--uid=] [--group=]'',
    command ''abhi-package-install'' ''Install package'' F_package_install PRIV_ADMIN 1 3 ''abhi-package-install <package> [--version=]'',
    command ''abhi-device-list'' ''List system devices'' F_device_list PRIV_USER 0 1 ''abhi-device-list [--type=all|block|char|net]'',
    command ''ps'' ''List processes'' F_ps PRIV_USER 0 1 ''ps [--verbose]'',
    command ''top'' ''Show process usage'' F_top PRIV_USER 0 0 ''top'',
    command ''cpu-usage'' ''Show CPU usage'' F_cpu_usage PRIV_USER 0 0 ''cpu-usage'',
    command ''abhi-cpu-usage'' ''Show CPU usage'' F_cpu_usage PRIV_USER 0 0 ''abhi-cpu-usage'',
    command ''disk-usage'' ''Show disk usage'' F_disk_usage PRIV_USER 0 1 ''disk-usage [path]'',
    command ''abhi-disk-usage'' ''Show disk usage'' F_disk_usage PRIV_USER 0 1 ''abhi-disk-usage [path]'',
    command ''time-get'' ''Get system time'' F_time_get PRIV_PUBLIC 0 0 ''time-get'',
    command ''abhi-time-get'' ''Get system time'' F_time_get PRIV_PUBLIC 0 0 ''abhi-time-get'',
    command ''time-set'' ''Set system time'' F_time_set PRIV_ADMIN 1 1 ''time-set <timestamp>'',
    command ''abhi-time-set'' ''Set system time'' F_time_set PRIV_ADMIN 1 1 ''abhi-time-set <timestamp>'',
    command ''ping'' ''Ping host'' F_ping PRIV_USER 1 2 ''ping <host> [-c count]'']"

definition resource_commands :: "cmd_fn cli_command_t list" where
  "resource_commands =
   [command ''interfaces'' ''List network interfaces'' F_interface_list PRIV_USER 0 0 ''interfaces'',
    command ''abhi-interface-list'' ''List network interfaces'' F_interface_list PRIV_USER 0 0 ''abhi-interface-list'',
    command ''routes'' ''List routing table'' F_route_list PRIV_USER 0 0 ''routes'',
    command ''abhi-route-list'' ''List routing table'' F_route_list PRIV_USER 0 0 ''abhi-route-list'',
    command ''mount'' ''Mount filesystem'' F_mount PRIV_ADMIN 2 3 ''mount <device> <path> [--type=]'',
    command ''abhi-mount'' ''Mount filesystem'' F_mount PRIV_ADMIN 2 3 ''abhi-mount <device> <path> [--type=]'',
    command ''unmount'' ''Unmount filesystem'' F_unmount PRIV_ADMIN 1 1 ''unmount <path>'',
    command ''abhi-unmount'' ''Unmount filesystem'' F_unmount PRIV_ADMIN 1 1 ''abhi-unmount <path>'',
    command ''volumes'' ''List volumes'' F_volume_list PRIV_USER 0 0 ''volumes'',
    command ''abhi-volume-list'' ''List volumes'' F_volume_list PRIV_USER 0 0 ''abhi-volume-list'',
    command ''users'' ''List users'' F_user_list PRIV_USER 0 0 ''users'',
    command ''abhi-user-list'' ''List users'' F_user_list PRIV_USER 0 0 ''abhi-user-list'',
    command ''chmod'' ''Grant permissions'' F_permission_grant PRIV_ADMIN 2 2 ''chmod <user> <permission>'',
    command ''abhi-permission-grant'' ''Grant permissions'' F_permission_grant PRIV_ADMIN 2 2 ''abhi-permission-grant <user> <permission>'',
    command ''audit'' ''View audit log'' F_audit_log PRIV_USER 0 0 ''audit'',
    command ''abhi-audit-log'' ''View audit log'' F_audit_log PRIV_USER 0 0 ''abhi-audit-log'',
    command ''logs'' ''View system logs'' F_log_view PRIV_USER 0 1 ''logs [--lines=N]'',
    command ''abhi-log-view'' ''View system logs'' F_log_view PRIV_USER 0 1 ''abhi-log-view [--lines=N]'',
    command ''cron-list'' ''List cron jobs'' F_cron_list PRIV_USER 0 0 ''cron-list'',
    command ''abhi-cron-list'' ''List cron jobs'' F_cron_list PRIV_USER 0 0 ''abhi-cron-list'']"

definition service_commands :: "cmd_fn cli_command_t list" where
  "service_commands =
   [command ''cron-add'' ''Add cron job'' F_cron_add PRIV_USER 2 2 ''cron-add <schedule> <command>'',
    command ''abhi-cron-add'' ''Add cron job'' F_cron_add PRIV_USER 2 2 ''abhi-cron-add <schedule> <command>'',
    command ''export'' ''Export configuration'' F_config_export PRIV_ADMIN 0 1 ''export [--file=]'',
    command ''abhi-config-export'' ''Export configuration'' F_config_export PRIV_ADMIN 0 1 ''abhi-config-export [--file=]'',
    command ''import'' ''Import configuration'' F_config_import PRIV_ADMIN 1 1 ''import <file>'',
    command ''abhi-config-import'' ''Import configuration'' F_config_import PRIV_ADMIN 1 1 ''abhi-config-import <file>'',
    command ''status'' ''System status report'' F_status_report PRIV_USER 0 1 ''status [--json]'',
    command ''abhi-status-report'' ''System status report'' F_status_report PRIV_USER 0 1 ''abhi-status-report [--json]'',
    command ''health'' ''Health check'' F_health_check PRIV_USER 0 1 ''health [--verbose]'',
    command ''abhi-health-check'' ''Health check'' F_health_check PRIV_USER 0 1 ''abhi-health-check [--verbose]'',
    command ''reboot'' ''Reboot system'' F_reboot PRIV_ADMIN 0 1 ''reboot [--delay=seconds]'',
    command ''abhi-reboot'' ''Reboot system'' F_reboot PRIV_ADMIN 0 1 ''abhi-reboot [--delay=seconds]'',
    command ''sleep'' ''Sleep mode'' F_sleep PRIV_ADMIN 0 1 ''sleep [--delay=seconds]'',
    command ''abhi-sleep'' ''Sleep mode'' F_sleep PRIV_ADMIN 0 1 ''abhi-sleep [--delay=seconds]'',
    command ''power'' ''Show power status'' F_power_status PRIV_USER 0 0 ''power'',
    command ''abhi-power-status'' ''Show power status'' F_power_status PRIV_USER 0 0 ''abhi-power-status'']"

definition commands :: "cmd_fn cli_command_t list" where
  "commands = posix_commands @ system_commands @ resource_commands @ service_commands"

fun register_loop :: "cmd_fn cli_command_t list \<Rightarrow> 'w shell \<Rightarrow> 'w shell" where
  "register_loop [] c = c"
| "register_loop (k # ks) c = register_loop ks (fst (cli_register_command k c))"

definition register_all_commands :: "'w shell \<Rightarrow> 'w shell" where
  "register_all_commands c = register_loop commands c"

section \<open>The loop\<close>

definition print_prompt :: "'w shell \<Rightarrow> nat \<Rightarrow> string" where
  "print_prompt c sz =
     (let esc = [CHR 0x1B]; ctx = cl_context c; priv_char = (if cx_current_level ctx \<ge> PRIV_ADMIN then CHR ''#'' else CHR ''$'')
      in take (sz - 1) (esc @ ''[0;32m['' @ cx_current_user ctx @ ''@oneos]'' @ esc @ ''[0m '' @ esc @ ''[0;34m'' @ cx_current_dir ctx @
           esc @ ''[0m '' @ [priv_char] @ '' ''))"

text \<open>The line in the buffer: up to the first line end of the C string.\<close>

definition line_of :: "string \<Rightarrow> string" where
  "line_of buffer = takeWhile (\<lambda>ch. ch \<noteq> newline) (cstr buffer)"

function shell_loop :: "(cmd_fn \<Rightarrow> 'w cmd) \<Rightarrow> 'w shell \<Rightarrow> string \<Rightarrow> ('w shell \<times> message list) outcome" where
  "shell_loop exec c stdin =
     (if cx_should_exit (cl_context c) then Done (c, [])
      else case fgets 4096 stdin of None \<Rightarrow> Done (c, [Prompt (print_prompt c 256)])
      | Some (buffer, rest) \<Rightarrow>
          let input = line_of buffer
          in case (if length input = 0 then Done (c, CLI_SUCCESS, []) else cli_execute_command exec (Some input) c) of
               Undef \<Rightarrow> Undef
             | Done (c1, st, ms) \<Rightarrow>
                 (case shell_loop exec c1 rest of Undef \<Rightarrow> Undef
                  | Done (c2, ms1) \<Rightarrow> Done (c2, Prompt (print_prompt c 256) # ms @ ms1)))"
  by pat_completeness auto
termination by (relation "measure (\<lambda>(exec, c, stdin). length stdin)") (auto dest: fgets_progress)

declare shell_loop.simps [simp del]

text \<open>The state is that before \<open>cli_cleanup_context\<close>, which frees the history at the end of the program.\<close>

definition shell_main :: "(cmd_fn \<Rightarrow> 'w cmd) \<Rightarrow> bool \<Rightarrow> 'w \<Rightarrow> string \<Rightarrow> ('w shell \<times> message list) outcome" where
  "shell_main exec getuid_is_0 w stdin = shell_loop exec (register_all_commands (fst (cli_init getuid_is_0 w))) stdin"

section \<open>The commands meet the interface\<close>

text \<open>A reply that leaves the table, the level and the history as they were.\<close>

definition keeps :: "'w shell \<Rightarrow> (cmd_fn, 'w) reply \<Rightarrow> bool" where
  "keeps c r \<longleftrightarrow> (case r of Undef \<Rightarrow> True
     | Done (c1, st, ms) \<Rightarrow> cl_commands c1 = cl_commands c \<and> cx_current_level (cl_context c1) = cx_current_level (cl_context c) \<and>
         cx_history (cl_context c1) = cx_history (cl_context c))"

lemma keeps_intros [simp]:
  "keeps c (says c st ms)" "keeps c (says (c\<lparr>cl_world := w\<rparr>) st ms)" "keeps c (says (set_exit c) st ms)"
  "keeps c (says (c\<lparr>cl_world := w, cl_context := (cl_context c)\<lparr>cx_current_dir := d\<rparr>\<rparr>) st ms)"
  "keeps c Undef" "keeps c (requires what c)"
  "keeps c (on_world c res m1 m2)"
  by (auto simp: keeps_def says_def set_exit_def requires_def on_world_def split: option.split)

lemma keeps_admin_only [simp]: "keeps c r \<Longrightarrow> keeps c (admin_only c r)"
  by (simp add: admin_only_def)

lemmas command_defs = cmd_pwd_def cmd_ls_def cmd_cd_def cmd_cat_def cmd_mkdir_def cmd_rm_def cmd_cp_def cmd_mv_def cmd_touch_def
  cmd_find_def cmd_whoami_def cmd_help_def cmd_history_def cmd_echo_def cmd_exit_def cmd_abhi_sysinfo_def
  cmd_abhi_sysconfig_get_def cmd_abhi_sysconfig_set_def cmd_abhi_shutdown_def cmd_abhi_user_create_def
  cmd_abhi_package_install_def prints_only_def cmd_ping_def cmd_abhi_time_set_def cmd_abhi_cron_add_def cmd_abhi_mount_def
  cmd_abhi_unmount_def cmd_abhi_permission_grant_def cmd_abhi_config_export_def cmd_abhi_config_import_def cmd_abhi_reboot_def
  cmd_abhi_sleep_def

lemma execute_keeps_all: "keeps c (execute os f c argv)"
  by (cases f) (simp_all add: execute_def command_defs Let_def split: option.split outcome.split)

interpretation sh: cli_commands "execute os" for os
proof
  fix f :: cmd_fn and c c1 :: "'a shell" and argv st ms
  assume "execute os f c argv = Done (c1, st, ms)"
  then show "cl_commands c1 = cl_commands c \<and> cx_current_level (cl_context c1) = cx_current_level (cl_context c) \<and>
      cx_history (cl_context c1) = cx_history (cl_context c)"
    using execute_keeps_all [of c os f argv] by (simp add: keeps_def)
qed

section \<open>Sessions\<close>

text \<open>The lines that the loop reads.\<close>

function input_lines :: "string \<Rightarrow> string list" where
  "input_lines s = (case fgets 4096 s of None \<Rightarrow> [] | Some (buffer, rest) \<Rightarrow> line_of buffer # input_lines rest)"
  by pat_completeness auto
termination by (relation "measure length") (auto dest: fgets_progress)

declare input_lines.simps [simp del]

abbreviation entered :: "string \<Rightarrow> string list" where
  "entered s \<equiv> filter (\<lambda>l. words_from [] l \<noteq> []) (input_lines s)"

text \<open>One round of the loop.\<close>

definition round :: "(cmd_fn \<Rightarrow> 'w cmd) \<Rightarrow> 'w shell \<Rightarrow> string \<Rightarrow> (cmd_fn, 'w) reply" where
  "round exec c input = (if length input = 0 then Done (c, CLI_SUCCESS, []) else cli_execute_command exec (Some input) c)"

lemma shell_loop_stop:
  "cx_should_exit (cl_context c) \<Longrightarrow> shell_loop exec c stdin = Done (c, [])"
  "\<not> cx_should_exit (cl_context c) \<Longrightarrow> fgets 4096 stdin = None \<Longrightarrow> shell_loop exec c stdin = Done (c, [Prompt (print_prompt c 256)])"
  by (simp_all add: shell_loop.simps [of exec c stdin])

lemma shell_loop_round:
  assumes "\<not> cx_should_exit (cl_context c)" and "fgets 4096 stdin = Some (buffer, rest)"
  shows "shell_loop exec c stdin = (case round exec c (line_of buffer) of Undef \<Rightarrow> Undef
    | Done (c1, st, ms) \<Rightarrow> (case shell_loop exec c1 rest of Undef \<Rightarrow> Undef
       | Done (c2, ms1) \<Rightarrow> Done (c2, Prompt (print_prompt c 256) # ms @ ms1)))"
  using assms by (simp add: shell_loop.simps [of exec c stdin] round_def Let_def)

lemma round_confined:
  assumes "\<And>f c argv. allowed c0 f \<Longrightarrow> exec1 f c argv = exec2 f c argv"
    and "cl_commands c = cl_commands c0" and "cx_current_level (cl_context c) = cx_current_level (cl_context c0)"
  shows "round exec1 c s = round exec2 c s"
  using execute_confined [OF assms] by (simp add: round_def)

lemma round_keeps:
  assumes "round (execute os) c s = Done (c1, st, ms)"
  shows "cl_commands c1 = cl_commands c" and "cx_current_level (cl_context c1) = cx_current_level (cl_context c)"
    and "cx_history (cl_context c) = window MAX_HISTORY hs \<Longrightarrow>
      cx_history (cl_context c1) = window MAX_HISTORY (hs @ (if words_from [] s = [] then [] else [s]))"
  using assms sh.execute_keeps [of os s c c1 st ms] by (auto simp: round_def split: if_splits)

lemma loop_confined:
  assumes agree: "\<And>f c argv. allowed c0 f \<Longrightarrow> exec f c argv = execute os f c argv"
    and "cl_commands c = cl_commands c0" and "cx_current_level (cl_context c) = cx_current_level (cl_context c0)"
  shows "shell_loop exec c stdin = shell_loop (execute os) c stdin"
  using assms(2,3)
proof (induction "length stdin" arbitrary: c stdin rule: less_induct)
  case less
  show ?case
  proof (cases "cx_should_exit (cl_context c) \<or> fgets 4096 stdin = None")
    case True
    then show ?thesis by (auto simp: shell_loop_stop shell_loop.simps [of _ c stdin])
  next
    case False
    then obtain buffer rest where f: "fgets 4096 stdin = Some (buffer, rest)" and go: "\<not> cx_should_exit (cl_context c)" by auto
    have shorter: "length rest < length stdin" using fgets_progress [OF f] by auto
    have r: "round exec c (line_of buffer) = round (execute os) c (line_of buffer)"
      by (rule round_confined [OF agree less.prems])
    show ?thesis
    proof (cases "round (execute os) c (line_of buffer)")
      case (Done x)
      obtain c1 st ms where x: "x = (c1, st, ms)" by (metis prod_cases3)
      have "shell_loop exec c1 rest = shell_loop (execute os) c1 rest"
        using round_keeps(1,2) [OF Done [unfolded x]] less.prems by (intro less.hyps shorter) simp_all
      then show ?thesis using r Done x by (simp add: shell_loop_round [OF go f])
    next
      case Undef
      then show ?thesis using r by (simp add: shell_loop_round [OF go f])
    qed
  qed
qed

lemma loop_history:
  assumes "shell_loop (execute os) c stdin = Done (c2, ms)" and "cx_history (cl_context c) = window MAX_HISTORY hs"
  shows "cx_current_level (cl_context c2) = cx_current_level (cl_context c) \<and>
    (\<exists>n. cx_history (cl_context c2) = window MAX_HISTORY (hs @ take n (entered stdin)) \<and>
      (cx_should_exit (cl_context c2) \<or> length (entered stdin) \<le> n))"
  using assms
proof (induction "length stdin" arbitrary: c stdin hs c2 ms rule: less_induct)
  case less
  show ?case
  proof (cases "cx_should_exit (cl_context c) \<or> fgets 4096 stdin = None")
    case True
    then have "c2 = c" and "cx_should_exit (cl_context c2) \<or> entered stdin = []"
      using less.prems(1) by (auto simp: shell_loop.simps [of _ c stdin] input_lines.simps [of stdin] split: if_splits)
    then show ?thesis using less.prems(2) by (auto intro!: exI [of _ 0])
  next
    case False
    then obtain buffer rest where f: "fgets 4096 stdin = Some (buffer, rest)" and go: "\<not> cx_should_exit (cl_context c)" by auto
    have shorter: "length rest < length stdin" using fgets_progress [OF f] by auto
    obtain c1 st ms0 ms1 where r: "round (execute os) c (line_of buffer) = Done (c1, st, ms0)"
      and l: "shell_loop (execute os) c1 rest = Done (c2, ms1)"
      using less.prems(1) by (auto simp: shell_loop_round [OF go f] split: outcome.splits prod.splits)
    let ?new = "if words_from [] (line_of buffer) = [] then [] else [line_of buffer]"
    have "cx_current_level (cl_context c2) = cx_current_level (cl_context c1) \<and>
        (\<exists>n. cx_history (cl_context c2) = window MAX_HISTORY ((hs @ ?new) @ take n (entered rest)) \<and>
          (cx_should_exit (cl_context c2) \<or> length (entered rest) \<le> n))"
      by (rule less.hyps [OF shorter l round_keeps(3) [OF r less.prems(2)]])
    then obtain n where n: "cx_history (cl_context c2) = window MAX_HISTORY ((hs @ ?new) @ take n (entered rest))"
        "cx_should_exit (cl_context c2) \<or> length (entered rest) \<le> n"
      and lev: "cx_current_level (cl_context c2) = cx_current_level (cl_context c1)" by blast
    have "entered stdin = ?new @ entered rest" by (simp add: input_lines.simps [of stdin] f)
    then show ?thesis using n lev round_keeps(2) [OF r] by (auto intro!: exI [of _ "length ?new + n"])
  qed
qed

section \<open>The table of the shell\<close>

lemma length_commands: "length commands = 73"
  by (simp add: commands_def posix_commands_def system_commands_def resource_commands_def service_commands_def)

lemma register_loop_commands:
  "length (cl_commands c) + length ks \<le> MAX_COMMANDS \<Longrightarrow>
   register_loop ks c = c\<lparr>cl_commands := cl_commands c @ ks\<rparr>"
proof (induction ks arbitrary: c)
  case Nil
  then show ?case by simp
next
  case (Cons k ks)
  then have "fst (cli_register_command k c) = c\<lparr>cl_commands := cl_commands c @ [k]\<rparr>"
    by (simp add: cli_register_command_def)
  then show ?case using Cons by simp
qed

lemma shell_start:
  "cl_commands (register_all_commands (fst (cli_init b w))) = commands"
  "cl_context (register_all_commands (fst (cli_init b w))) = cli_init_context b"
  by (simp_all add: register_all_commands_def register_loop_commands cli_init_def length_commands MAX_COMMANDS_def)

text \<open>The names are distinct, so every row can be reached by its name; every limit of arguments can be met.\<close>

lemma command_names_distinct: "distinct (map cm_name commands)"
  by (simp add: commands_def posix_commands_def system_commands_def resource_commands_def service_commands_def command_def)

lemma command_limits: "list_all (\<lambda>k. cm_min_args k \<le> 31 \<and> (cm_max_args k = 0 \<longrightarrow> cm_min_args k = 0) \<and>
    (cm_max_args k > 0 \<longrightarrow> cm_min_args k \<le> cm_max_args k)) commands"
  by (simp add: commands_def posix_commands_def system_commands_def resource_commands_def service_commands_def command_def)

lemma command_found:
  assumes "k \<in> set commands"
  shows "\<exists>i < length commands. cli_command_exists (cm_name k) commands = int i \<and> commands ! i = k"
proof -
  obtain i where i: "i < length commands" "commands ! i = k" using assms by (auto simp: in_set_conv_nth)
  have "first_idx (\<lambda>x. cm_name x = cm_name k) commands = Some i"
    using i nth_eq_iff_index_eq [OF command_names_distinct, of _ i] by (fastforce simp: first_idx_Some)
  then show ?thesis using i by (auto simp: cli_command_exists_def)
qed

definition admin_functions :: "cmd_fn set" where
  "admin_functions = {F_sysconfig_set, F_shutdown, F_user_create, F_package_install, F_time_set, F_mount, F_unmount,
     F_permission_grant, F_config_export, F_config_import, F_reboot, F_sleep}"

lemma command_levels:
  "list_all (\<lambda>k. cm_required_level k \<le> PRIV_USER \<longrightarrow> cm_execute k \<notin> admin_functions) commands"
  by (simp add: commands_def posix_commands_def system_commands_def resource_commands_def service_commands_def command_def
      admin_functions_def less_eq_priv_level_t_def)

lemma user_allowed: "allowed (register_all_commands (fst (cli_init False w))) f \<Longrightarrow> f \<notin> admin_functions"
  using command_levels by (auto simp: allowed_def shell_start cli_init_context_def list_all_iff)

section \<open>Lines and files\<close>

definition plain_line :: "string \<Rightarrow> bool" where
  "plain_line l \<longleftrightarrow> length l < 4095 \<and> newline \<notin> set l \<and> CHR 0x00 \<notin> set l"

lemma fgets_line:
  assumes "newline \<notin> set l" and "length l < n - 1"
  shows "fgets n (l @ newline # rest) = Some (l @ [newline], rest)"
proof -
  obtain k where "n - 1 - length l = Suc k" using assms(2) by (metis Suc_diff_Suc diff_Suc_1 minus_nat.diff_0 zero_less_diff)
  then have t: "take (n - 1) (l @ newline # rest) = l @ newline # take k rest" using assms(2) by simp
  have "takeWhile (\<lambda>ch. ch \<noteq> newline) (l @ newline # take k rest) = l"
    using assms(1) by (auto simp: takeWhile_append)
  then show ?thesis unfolding fgets_def Let_def t by simp
qed

lemma takeWhile_absent: "x \<notin> set l \<Longrightarrow> takeWhile (\<lambda>ch. ch \<noteq> x) l = l"
  by (auto simp: takeWhile_eq_all_conv)

lemma fgets_full:
  assumes "newline \<notin> set l" and "length l = n - 1" and "l \<noteq> []"
  shows "fgets n (l @ s) = Some (l, s)"
proof -
  have t: "take (n - 1) (l @ s) = l" using assms(2) by simp
  show ?thesis using assms(3) unfolding fgets_def Let_def t takeWhile_absent [OF assms(1)] by simp
qed

lemma line_of_plain: "plain_line l \<Longrightarrow> line_of (l @ [newline]) = l"
  by (auto simp: plain_line_def line_of_def cstr_def takeWhile_append takeWhile_eq_all_conv)

text \<open>Lines of fewer than 4095 characters reach the loop as they are written.\<close>

lemma input_lines_plain: "list_all plain_line ls \<Longrightarrow> input_lines (concat (map (\<lambda>l. l @ [newline]) ls)) = ls"
proof (induction ls)
  case Nil
  then show ?case by (simp add: input_lines.simps fgets_def)
next
  case (Cons l ls)
  then have "fgets 4096 (l @ newline # concat (map (\<lambda>l. l @ [newline]) ls)) = Some (l @ [newline], concat (map (\<lambda>l. l @ [newline]) ls))"
    by (intro fgets_line) (auto simp: plain_line_def)
  then show ?case using Cons
    by (simp add: input_lines.simps [of "l @ newline # concat (map (\<lambda>l. l @ [newline]) ls)"] line_of_plain)
qed

text \<open>A longer line is split: its rest is executed as a line of its own.\<close>

lemma long_line_split:
  assumes "length l = 4095" and "newline \<notin> set l" and "CHR 0x00 \<notin> set l"
  shows "input_lines (l @ s) = l # input_lines s"
proof -
  have "fgets 4096 (l @ s) = Some (l, s)" using assms by (intro fgets_full) auto
  moreover have "line_of l = l" using assms(2,3) by (simp add: line_of_def cstr_def takeWhile_absent)
  ultimately show ?thesis by (simp add: input_lines.simps [of "l @ s"])
qed

fun printed :: "message list \<Rightarrow> string" where
  "printed (Printf fmt [S t] # ms) = t @ printed ms"
| "printed ms = []"

text \<open>A file without zero bytes is printed as it is.\<close>

lemma cat_prints_file: "CHR 0x00 \<notin> set s \<Longrightarrow> printed (cat_loop s) = s"
proof (induction "length s" arbitrary: s rule: less_induct)
  case less
  show ?case
  proof (cases "fgets 1024 s")
    case None
    then show ?thesis by (simp add: cat_loop.simps [of s]) (simp add: fgets_def Let_def split: if_splits)
  next
    case (Some br)
    obtain buffer rest where br: "br = (buffer, rest)" by fastforce
    have s: "s = buffer @ rest" "length rest < length s" using fgets_progress [OF Some [unfolded br]] by auto
    then have "cstr buffer = buffer" using less.prems by (auto simp: cstr_def takeWhile_eq_all_conv)
    moreover have "printed (cat_loop rest) = rest" using less.prems s by (intro less.hyps) auto
    ultimately show ?thesis using Some br unfolding s(1) by (simp add: cat_loop.simps [of "buffer @ rest"])
  qed
qed

text \<open>
  Copying a file onto itself empties it, on a system where opening a file for writing empties it: the
  destination is opened before the source is read.
\<close>

lemma self_copy_empties:
  assumes "os_contents os (cl_world c) p = Some s" and "os_create os (cl_world c) p = Some w" and "os_contents os w p = Some []"
  shows "cmd_cp os c [p, p] = Done (c\<lparr>cl_world := w\<rparr>, CLI_SUCCESS, [Print_success ''File copied: %s -> %s'' [S p, S p]])"
  using assms by (simp add: cmd_cp_def says_def copy_loop.simps)

section \<open>Limits of arguments\<close>

lemma dispatch_found:
  assumes "k \<in> set commands" and "cl_commands c = commands"
  shows "cli_dispatch_command exec (cm_name k) argv c =
    (if \<not> cli_check_permission (cm_required_level k) c then Done (c, CLI_ERROR_PERMISSION, [Print_error ''Permission denied'' []])
     else if int (length argv) < cm_min_args k \<or> (cm_max_args k > 0 \<and> int (length argv) > cm_max_args k)
     then Done (c, CLI_ERROR_INVALID_ARG, [Print_error ''Invalid argument count. Usage: %s'' [S (cm_usage k)]])
     else exec (cm_execute k) c argv)"
  using command_found [OF assms(1)] assms(2) by (auto simp: cli_dispatch_command_def Let_def)

text \<open>A limit of no arguments is no limit: the commands that take none accept any number.\<close>

lemma no_arguments_unlimited:
  assumes "k \<in> set commands" and "cl_commands c = commands" and "cm_max_args k = 0" and "cli_check_permission (cm_required_level k) c"
  shows "cli_dispatch_command exec (cm_name k) argv c = exec (cm_execute k) c argv"
proof -
  have "cm_min_args k = 0" using command_limits assms(1,3) by (auto simp: list_all_iff)
  then show ?thesis using assms by (simp add: dispatch_found)
qed

text \<open>The limit of one argument makes the delay of a reboot unreachable.\<close>

lemma reboot_has_no_delay:
  assumes "k \<in> set commands" and "cm_execute k = F_reboot" and "cl_commands c = commands"
    and "cli_dispatch_command (execute os) (cm_name k) argv c = Done (c1, st, ms)" and "Print_warning fmt [D d] \<in> set ms"
  shows "d = 0"
proof -
  have "list_all (\<lambda>k. cm_execute k = F_reboot \<longrightarrow> cm_max_args k = 1) commands"
    by (simp add: commands_def posix_commands_def system_commands_def resource_commands_def service_commands_def command_def)
  then have "cm_max_args k = 1" using assms(1,2) by (auto simp: list_all_iff)
  then show ?thesis using assms
    by (auto simp: dispatch_found execute_def cmd_abhi_reboot_def delay_of_def admin_only_def says_def split: if_splits)
qed

section \<open>Properties\<close>

text \<open>
  Claim C2. A session without administrator rights reaches no administrator command. For every input, the session of a user who
  is not root is the same, in its output, its effects on the world and its state, whatever the twelve administrator
  commands are replaced with, and it ends with the level it began with.
\<close>

theorem shell_admin_unreachable:
  assumes "\<And>f c argv. f \<notin> admin_functions \<Longrightarrow> exec f c argv = execute os f c argv"
  shows "shell_main exec False w stdin = shell_main (execute os) False w stdin \<and>
    (\<forall>c ms. shell_main (execute os) False w stdin = Done (c, ms) \<longrightarrow> cx_current_level (cl_context c) = PRIV_USER)"
proof -
  let ?c = "register_all_commands (fst (cli_init False w))"
  have "shell_loop exec ?c stdin = shell_loop (execute os) ?c stdin"
    by (rule loop_confined [of ?c]) (auto intro: assms dest: user_allowed)
  moreover have "cx_history (cl_context ?c) = window MAX_HISTORY []" "cx_current_level (cl_context ?c) = PRIV_USER"
    by (simp_all add: shell_start cli_init_context_def window_def)
  ultimately show ?thesis using loop_history [of os ?c stdin _ _ "[]"] by (auto simp: shell_main_def)
qed

definition no_os :: "unit os" where
  "no_os = \<lparr>os_entries = \<lambda>w p. None, os_stat_size = \<lambda>w p. None, os_chdir = \<lambda>w p. None, os_getcwd = \<lambda>w d. d,
     os_contents = \<lambda>w p. None, os_create = \<lambda>w p. None, os_write = \<lambda>w p s. w, os_open_append = \<lambda>w p. None,
     os_mkdir = \<lambda>w p. None, os_unlink = \<lambda>w p. None, os_rename = \<lambda>w p q. None, os_time = \<lambda>w. 0\<rparr>"

theorem shell_admin_unreachable_witness:
  "shell_main (\<lambda>f c argv. if f \<in> admin_functions then Undef else execute no_os f c argv) False () (''abhi-shutdown'' @ [newline]) =
   shell_main (execute no_os) False () (''abhi-shutdown'' @ [newline])"
  using shell_admin_unreachable [of "\<lambda>f c argv. if f \<in> admin_functions then Undef else execute no_os f c argv" no_os "()"
      "''abhi-shutdown'' @ [newline]"] by simp

text \<open>
  Sessions over whole lines: the lines executed are a prefix of the input, the first prefix after which the session is over,
  or the whole input.
\<close>

abbreviation typed :: "string list \<Rightarrow> string" where
  "typed ls \<equiv> concat (map (\<lambda>l. l @ [newline]) ls)"

lemma fgets_typed: "plain_line l \<Longrightarrow> fgets 4096 (typed (l # ls)) = Some (l @ [newline], typed ls)"
  by (simp add: fgets_line plain_line_def)

lemma loop_lines:
  assumes "list_all plain_line ls" and "shell_loop (execute os) c (typed ls) = Done (c2, ms)"
    and "cx_history (cl_context c) = window MAX_HISTORY hs"
  shows "\<exists>k \<le> length ls. cx_history (cl_context c2) = window MAX_HISTORY (hs @ filter (\<lambda>l. words_from [] l \<noteq> []) (take k ls)) \<and>
    (\<forall>j < k. \<exists>c' ms'. shell_loop (execute os) c (typed (take j ls)) = Done (c', ms') \<and> \<not> cx_should_exit (cl_context c')) \<and>
    (\<exists>ms'. shell_loop (execute os) c (typed (take k ls)) = Done (c2, ms')) \<and>
    (cx_should_exit (cl_context c2) \<or> k = length ls)"
  using assms
proof (induction ls arbitrary: c hs ms)
  case Nil
  then show ?case by (auto simp: shell_loop.simps fgets_def split: if_splits)
next
  case (Cons l ls)
  show ?case
  proof (cases "cx_should_exit (cl_context c)")
    case True
    then have "c2 = c" using Cons.prems(2) by (simp add: shell_loop_stop)
    then show ?thesis using True Cons.prems(3) by (intro exI [of _ 0]) (simp add: shell_loop_stop)
  next
    case False
    have pl: "plain_line l" "list_all plain_line ls" using Cons.prems(1) by simp_all
    have step: "shell_loop (execute os) c (typed (l # xs)) = (case round (execute os) c l of Undef \<Rightarrow> Undef
        | Done (c1, st, ms) \<Rightarrow> (case shell_loop (execute os) c1 (typed xs) of Undef \<Rightarrow> Undef
           | Done (c2, ms1) \<Rightarrow> Done (c2, Prompt (print_prompt c 256) # ms @ ms1)))" for xs
      using shell_loop_round [OF False fgets_typed [OF pl(1), of xs], of "execute os"] by (simp only: line_of_plain [OF pl(1)])
    obtain c1 st ms0 ms1 where r: "round (execute os) c l = Done (c1, st, ms0)"
      and l: "shell_loop (execute os) c1 (typed ls) = Done (c2, ms1)"
      using Cons.prems(2) unfolding step by (auto split: outcome.splits prod.splits)
    note more = step [unfolded r outcome.case prod.case]
    obtain k where k: "k \<le> length ls"
        "cx_history (cl_context c2) = window MAX_HISTORY ((hs @ (if words_from [] l = [] then [] else [l])) @
           filter (\<lambda>l. words_from [] l \<noteq> []) (take k ls))"
        "\<forall>j < k. \<exists>c' ms'. shell_loop (execute os) c1 (typed (take j ls)) = Done (c', ms') \<and> \<not> cx_should_exit (cl_context c')"
        "\<exists>ms'. shell_loop (execute os) c1 (typed (take k ls)) = Done (c2, ms')"
        "cx_should_exit (cl_context c2) \<or> k = length ls"
      using Cons.IH [OF pl(2) l round_keeps(3) [OF r Cons.prems(3)]] by blast
    have "\<exists>c' ms'. shell_loop (execute os) c (typed (take j (l # ls))) = Done (c', ms') \<and> \<not> cx_should_exit (cl_context c')"
      if "j < Suc k" for j
    proof (cases j)
      case 0
      then show ?thesis using False by (simp add: shell_loop_stop fgets_def)
    next
      case (Suc i)
      then show ?thesis using k(3) that by (fastforce simp only: take_Suc_Cons more outcome.case prod.case Suc_less_eq)
    qed
    moreover have "\<exists>ms'. shell_loop (execute os) c (typed (take (Suc k) (l # ls))) = Done (c2, ms')"
      using k(4) by (auto simp only: take_Suc_Cons more outcome.case prod.case)
    ultimately show ?thesis using k(1,2,5) by (intro exI [of _ "Suc k"]) auto
  qed
qed

text \<open>
  Claim C4. The history is the last 1000 commands. When the input is a list of lines of fewer than 4095 characters without zero
  bytes and the session ends, some first \<open>k\<close> of the lines were executed, and the history holds, in order, the last 1000 of
  those among them that contain a word. The \<open>k\<close> lines are all of them when the session was not ended by a command;
  otherwise the last of them is the line that ended it: the session over the first \<open>k\<close> lines ends in the same state, and over
  any fewer of them it is not over.
\<close>

theorem shell_history_window:
  assumes "list_all plain_line ls"
    and "shell_main (execute os) root w (concat (map (\<lambda>l. l @ [newline]) ls)) = Done (c, ms)"
  shows "\<exists>k \<le> length ls. cx_history (cl_context c) = window 1000 (filter (\<lambda>l. words_from [] l \<noteq> []) (take k ls)) \<and>
    (\<forall>j < k. \<exists>c' ms'. shell_main (execute os) root w (concat (map (\<lambda>l. l @ [newline]) (take j ls))) = Done (c', ms') \<and>
       \<not> cx_should_exit (cl_context c')) \<and>
    (\<exists>ms'. shell_main (execute os) root w (concat (map (\<lambda>l. l @ [newline]) (take k ls))) = Done (c, ms')) \<and>
    (cx_should_exit (cl_context c) \<or> k = length ls)"
proof -
  have "cx_history (cl_context (register_all_commands (fst (cli_init root w)))) = window MAX_HISTORY []"
    by (simp add: shell_start cli_init_context_def window_def)
  from loop_lines [OF assms(1) assms(2) [unfolded shell_main_def] this] show ?thesis
    by (simp only: shell_main_def MAX_HISTORY_def append_Nil)
qed

lemma witness_rows:
  "cli_command_exists ''pwd'' commands = 0" "cli_command_exists ''exit'' commands = 16"
  "commands ! 0 = command ''pwd'' ''Print working directory'' F_pwd PRIV_PUBLIC 0 0 ''pwd''"
  "commands ! 16 = command ''exit'' ''Exit shell'' F_exit PRIV_PUBLIC 0 0 ''exit''"
  by (simp_all add: cli_command_exists_def commands_def posix_commands_def command_def)

lemma shell_start_state:
  "register_all_commands (fst (cli_init b w)) = \<lparr>cl_context = cli_init_context b, cl_commands = commands, cl_world = w\<rparr>"
  by (simp add: register_all_commands_def register_loop_commands cli_init_def length_commands MAX_COMMANDS_def)

lemmas shell_eval = shell_loop_round shell_loop_stop round_def cli_execute_command_def cli_parse_input_def strtok_def
  arg_loop.simps cli_dispatch_command_def cli_check_permission_def witness_rows command_def less_eq_priv_level_t_def
  cli_add_history_def execute_def cmd_pwd_def cmd_exit_def says_def set_exit_def cli_init_context_def delimiter_def Let_def MAX_HISTORY_def

theorem shell_history_window_witness:
  "\<exists>c ms. shell_main (execute no_os) False () (concat (map (\<lambda>l. l @ [newline]) [''pwd'', '' '', ''exit'', ''ls''])) = Done (c, ms) \<and>
    cx_history (cl_context c) = [''pwd'', ''exit''] \<and> cx_should_exit (cl_context c) \<and>
    (\<exists>k \<le> 4. cx_history (cl_context c) = window 1000 (filter (\<lambda>l. words_from [] l \<noteq> []) (take k [''pwd'', '' '', ''exit'', ''ls''])) \<and>
      (\<exists>ms'. shell_main (execute no_os) False () (concat (map (\<lambda>l. l @ [newline]) (take k [''pwd'', '' '', ''exit'', ''ls'']))) = Done (c, ms')))"
proof -
  let ?ls = "[''pwd'', '' '', ''exit'', ''ls'']"
  let ?in = "\<lambda>ls. concat (map (\<lambda>l. l @ [newline]) ls)"
  have f: "fgets 4096 (?in ?ls) = Some (''pwd'' @ [newline], ?in (tl ?ls))"
    "fgets 4096 (?in (tl ?ls)) = Some ('' '' @ [newline], ?in (tl (tl ?ls)))"
    "fgets 4096 (?in (tl (tl ?ls))) = Some (''exit'' @ [newline], ?in [''ls''])"
    by (simp_all add: fgets_def)
  have plain: "list_all plain_line ?ls" by (simp add: plain_line_def)
  have l: "line_of (''pwd'' @ [newline]) = ''pwd''" "line_of ('' '' @ [newline]) = '' ''" "line_of (''exit'' @ [newline]) = ''exit''"
    by (simp_all add: line_of_def cstr_def)
  have "\<exists>c ms. shell_main (execute no_os) False () (?in ?ls) = Done (c, ms) \<and> cx_history (cl_context c) = [''pwd'', ''exit''] \<and>
      cx_should_exit (cl_context c)"
    unfolding shell_main_def shell_start_state
    using f l by (simp add: shell_eval)
  then obtain c ms where r: "shell_main (execute no_os) False () (?in ?ls) = Done (c, ms)"
      "cx_history (cl_context c) = [''pwd'', ''exit''] \<and> cx_should_exit (cl_context c)"
    by blast
  have "length ?ls = 4" by simp
  with shell_history_window [OF plain r(1)] r show ?thesis by metis
qed

end
