(* ===== verification/Load_Balancer.thy ===== *)
theory Load_Balancer
  imports Complex_Main Service_Tables
begin

text \<open>
  The load balancer of \<open>src/load-balancing/load_balancer.c\<close>: pools of servers, selection by algorithm, states and loads
  of servers. The static counters are arguments and results. A load, a \<open>float\<close>, is a real number; \<open>NaN\<close> is
  taken not to be passed. The table of requests, which nothing writes, and the floating-point rates
  of the metrics are left out.

  The second half shows that least-connection selection finds a healthy server with the fewest connections, and that
  round-robin selection spreads requests evenly, healthy or not.
\<close>

section \<open>Constants and data\<close>

definition MAX_BACKEND_SERVERS :: nat where "MAX_BACKEND_SERVERS = 256"
definition MAX_LOAD_BALANCER_POOLS :: nat where "MAX_LOAD_BALANCER_POOLS = 64"

datatype LoadBalancingAlgorithm =
    LB_ALGORITHM_ROUND_ROBIN | LB_ALGORITHM_LEAST_CONN | LB_ALGORITHM_WEIGHTED | LB_ALGORITHM_IP_HASH
  | LB_ALGORITHM_CONSISTENT_HASH | LB_ALGORITHM_RANDOM

datatype ServerState =
  SERVER_STATE_HEALTHY | SERVER_STATE_DEGRADED | SERVER_STATE_UNHEALTHY | SERVER_STATE_DRAINING | SERVER_STATE_MAINTENANCE

record BackendServer =
  bs_server_id :: u32
  bs_server_ip :: u32
  bs_server_port :: u16
  bs_state :: ServerState
  bs_weight :: u32
  bs_active_connections :: u32
  bs_total_requests :: u32
  bs_bytes_sent :: u64
  bs_bytes_received :: u64
  bs_response_time_avg_ms :: real
  bs_cpu_usage :: real
  bs_memory_usage :: real

record LoadBalancerPool =
  lp_pool_id :: u32
  lp_pool_name :: string
  lp_servers :: "BackendServer list"
  lp_algorithm :: LoadBalancingAlgorithm
  lp_current_server_index :: u32
  lp_total_requests :: u32
  lp_successful_requests :: u32
  lp_failed_requests :: u32

record LoadBalancer =
  lb_balancer_id :: u32
  lb_pools :: "LoadBalancerPool list"
  lb_total_servers :: u32
  lb_healthy_servers :: u32
  lb_total_bytes_processed :: u64
  lb_total_connections :: u32

record LoadBalancerMetrics =
  lm_balancer_id :: u32
  lm_total_pools :: u32
  lm_total_servers :: u32
  lm_healthy_servers :: u32
  lm_total_requests :: u32
  lm_successful_requests :: u32

type_synonym balancer = "LoadBalancer option"

section \<open>Pools\<close>

definition load_balancer_init :: "bool \<Rightarrow> balancer" where
  "load_balancer_init malloc_ok =
     (if \<not> malloc_ok then None
      else Some \<lparr>lb_balancer_id = 1, lb_pools = [], lb_total_servers = 0, lb_healthy_servers = 0,
        lb_total_bytes_processed = 0, lb_total_connections = 0\<rparr>)"

definition load_balancer_destroy :: "balancer \<Rightarrow> balancer \<times> int" where
  "load_balancer_destroy h = (None, case h of None \<Rightarrow> -1 | Some b \<Rightarrow> 0)"

definition load_balancer_pool_create ::
    "balancer \<Rightarrow> u32 \<Rightarrow> string option \<Rightarrow> LoadBalancingAlgorithm \<Rightarrow> (balancer \<times> u32) \<times> u32" where
  "load_balancer_pool_create h next_pool_id pool_name algorithm =
     (case h of None \<Rightarrow> ((h, next_pool_id), 0)
      | Some b \<Rightarrow>
          if length (lb_pools b) \<ge> MAX_LOAD_BALANCER_POOLS then ((h, next_pool_id), 0)
          else ((Some (b\<lparr>lb_pools := lb_pools b @ [\<lparr>lp_pool_id = next_pool_id,
                  lp_pool_name = (case pool_name of None \<Rightarrow> [] | Some s \<Rightarrow> take 63 s), lp_servers = [], lp_algorithm = algorithm,
                  lp_current_server_index = 0, lp_total_requests = 0, lp_successful_requests = 0, lp_failed_requests = 0\<rparr>]\<rparr>),
                 next_pool_id + 1), next_pool_id))"

definition find_pool :: "u32 \<Rightarrow> LoadBalancer \<Rightarrow> nat option" where
  "find_pool pool_id b = first_idx (\<lambda>p. lp_pool_id p = pool_id) (lb_pools b)"

definition load_balancer_pool_destroy :: "balancer \<Rightarrow> u32 \<Rightarrow> balancer \<times> int" where
  "load_balancer_pool_destroy h pool_id = with_handle (-1) h (\<lambda>b.
     if pool_id = 0 then (b, -1)
     else case find_pool pool_id b of None \<Rightarrow> (b, -1)
     | Some i \<Rightarrow> (b\<lparr>lb_pools := remove_at i (lb_pools b)\<rparr>, 0))"

definition load_balancer_add_server ::
    "balancer \<Rightarrow> u32 \<Rightarrow> u32 \<Rightarrow> u32 \<Rightarrow> u16 \<Rightarrow> u32 \<Rightarrow> (balancer \<times> u32) \<times> int" where
  "load_balancer_add_server h next_server_id pool_id server_ip server_port weight =
     (case h of None \<Rightarrow> ((h, next_server_id), -1)
      | Some b \<Rightarrow>
          if pool_id = 0 then ((h, next_server_id), -1)
          else case find_pool pool_id b of None \<Rightarrow> ((h, next_server_id), -1)
          | Some i \<Rightarrow>
              let p = lb_pools b ! i
              in if length (lp_servers p) \<ge> MAX_BACKEND_SERVERS then ((h, next_server_id), -1)
                 else
                   let s = \<lparr>bs_server_id = next_server_id, bs_server_ip = server_ip, bs_server_port = server_port,
                         bs_state = SERVER_STATE_HEALTHY, bs_weight = (if weight > 0 then weight else 1), bs_active_connections = 0,
                         bs_total_requests = 0, bs_bytes_sent = 0, bs_bytes_received = 0, bs_response_time_avg_ms = 0,
                         bs_cpu_usage = 0, bs_memory_usage = 0\<rparr>
                   in ((Some (b\<lparr>lb_pools := (lb_pools b)[i := p\<lparr>lp_servers := lp_servers p @ [s]\<rparr>],
                          lb_total_servers := lb_total_servers b + 1, lb_healthy_servers := lb_healthy_servers b + 1\<rparr>),
                        next_server_id + 1), sint next_server_id))"

section \<open>Servers\<close>

definition find_server :: "u32 \<Rightarrow> LoadBalancerPool \<Rightarrow> nat option" where
  "find_server server_id p = first_idx (\<lambda>s. bs_server_id s = server_id) (lp_servers p)"

text \<open>
  The two nested searches: the pools with the identifier are searched one after the other for the server. The
  indices of the pool and of the server.
\<close>

definition locate_server :: "u32 \<Rightarrow> u32 \<Rightarrow> LoadBalancer \<Rightarrow> (nat \<times> nat) option" where
  "locate_server pool_id server_id b =
     (if pool_id = 0 \<or> server_id = 0 then None
      else case first_idx (\<lambda>p. lp_pool_id p = pool_id \<and> find_server server_id p \<noteq> None) (lb_pools b) of None \<Rightarrow> None
      | Some i \<Rightarrow> map_option (Pair i) (find_server server_id (lb_pools b ! i)))"

definition set_servers :: "nat \<Rightarrow> BackendServer list \<Rightarrow> LoadBalancer \<Rightarrow> LoadBalancer" where
  "set_servers i ss b = b\<lparr>lb_pools := (lb_pools b)[i := (lb_pools b ! i)\<lparr>lp_servers := ss\<rparr>]\<rparr>"

text \<open>
  After the move, the place of the removed server holds the next server, or still the removed one if
  that was the last: its state decides whether a healthy server is counted off.
\<close>

definition load_balancer_remove_server :: "balancer \<Rightarrow> u32 \<Rightarrow> u32 \<Rightarrow> balancer \<times> int" where
  "load_balancer_remove_server h pool_id server_id = with_handle (-1) h (\<lambda>b.
     case locate_server pool_id server_id b of None \<Rightarrow> (b, -1)
     | Some (i, j) \<Rightarrow>
         let ss = lp_servers (lb_pools b ! i); left = ss ! (if Suc j < length ss then Suc j else j)
         in ((set_servers i (remove_at j ss) b)\<lparr>lb_total_servers := lb_total_servers b - 1,
               lb_healthy_servers := (if bs_state left = SERVER_STATE_HEALTHY then lb_healthy_servers b - 1 else lb_healthy_servers b)\<rparr>, 0))"

definition load_balancer_update_server_state :: "balancer \<Rightarrow> u32 \<Rightarrow> u32 \<Rightarrow> ServerState \<Rightarrow> balancer \<times> int" where
  "load_balancer_update_server_state h pool_id server_id state = with_handle (-1) h (\<lambda>b.
     case locate_server pool_id server_id b of None \<Rightarrow> (b, -1)
     | Some (i, j) \<Rightarrow>
         let ss = lp_servers (lb_pools b ! i); old_state = bs_state (ss ! j); n = lb_healthy_servers b
         in ((set_servers i (ss[j := (ss ! j)\<lparr>bs_state := state\<rparr>]) b)\<lparr>lb_healthy_servers :=
               (if old_state = SERVER_STATE_HEALTHY \<and> state \<noteq> SERVER_STATE_HEALTHY then n - 1
                else if old_state \<noteq> SERVER_STATE_HEALTHY \<and> state = SERVER_STATE_HEALTHY then n + 1 else n)\<rparr>, 0))"

definition load_balancer_update_server_metrics :: "balancer \<Rightarrow> u32 \<Rightarrow> u32 \<Rightarrow> real \<Rightarrow> real \<Rightarrow> balancer \<times> int" where
  "load_balancer_update_server_metrics h pool_id server_id cpu memory = with_handle (-1) h (\<lambda>b.
     case locate_server pool_id server_id b of None \<Rightarrow> (b, -1)
     | Some (i, j) \<Rightarrow>
         let ss = lp_servers (lb_pools b ! i)
         in (set_servers i (ss[j := (ss ! j)\<lparr>bs_cpu_usage := cpu, bs_memory_usage := memory\<rparr>]) b, 0))"

definition load_balancer_drain_server :: "balancer \<Rightarrow> u32 \<Rightarrow> u32 \<Rightarrow> balancer \<times> int" where
  "load_balancer_drain_server h pool_id server_id = with_handle (-1) h (\<lambda>b.
     case locate_server pool_id server_id b of None \<Rightarrow> (b, -1)
     | Some (i, j) \<Rightarrow>
         let ss = lp_servers (lb_pools b ! i)
         in (set_servers i (ss[j := (ss ! j)\<lparr>bs_state := SERVER_STATE_DRAINING\<rparr>]) b, 0))"

definition over_limit :: "BackendServer \<Rightarrow> bool" where
  "over_limit s \<longleftrightarrow> (bs_cpu_usage s > 90 \<or> bs_memory_usage s > 85) \<and> bs_state s = SERVER_STATE_HEALTHY"

definition load_balancer_detect_unhealthy_servers :: "balancer \<Rightarrow> u32 \<Rightarrow> balancer \<times> int" where
  "load_balancer_detect_unhealthy_servers h pool_id = with_handle 0 h (\<lambda>b.
     if pool_id = 0 then (b, 0)
     else (b\<lparr>lb_pools := map (\<lambda>p. if lp_pool_id p = pool_id
              then p\<lparr>lp_servers := map (\<lambda>s. if over_limit s then s\<lparr>bs_state := SERVER_STATE_DEGRADED\<rparr> else s) (lp_servers p)\<rparr> else p)
              (lb_pools b)\<rparr>,
           foldl (\<lambda>n p. if lp_pool_id p = pool_id then n + int (length (filter over_limit (lp_servers p))) else n) 0 (lb_pools b)))"

section \<open>Selection\<close>

text \<open>The loop of the least-connection search from server \<open>j\<close> on, with the minimum and the choice so far.\<close>

fun least_loop :: "nat \<Rightarrow> u32 \<Rightarrow> int \<Rightarrow> BackendServer list \<Rightarrow> int" where
  "least_loop j min_conn selected [] = selected"
| "least_loop j min_conn selected (s # ss) =
     (if bs_state s = SERVER_STATE_HEALTHY \<and> bs_active_connections s < min_conn
      then least_loop (Suc j) (bs_active_connections s) (int j) ss
      else least_loop (Suc j) min_conn selected ss)"

definition healthy_weight :: "BackendServer list \<Rightarrow> u32" where
  "healthy_weight ss = foldl (\<lambda>w s. if bs_state s = SERVER_STATE_HEALTHY then w + bs_weight s else w) 0 ss"

text \<open>The choice of the algorithm, and whether it moves the index of the pool on.\<close>

definition choose_server :: "LoadBalancerPool \<Rightarrow> int \<times> bool" where
  "choose_server p =
     (let n = of_nat (length (lp_servers p)); c = lp_current_server_index p
      in case lp_algorithm p of
           LB_ALGORITHM_ROUND_ROBIN \<Rightarrow> (sint (c mod n), True)
         | LB_ALGORITHM_LEAST_CONN \<Rightarrow> (least_loop 0 4294967295 (-1) (lp_servers p), False)
         | LB_ALGORITHM_WEIGHTED \<Rightarrow>
             (if healthy_weight (lp_servers p) > 0 then (sint (c mod healthy_weight (lp_servers p)), True) else (-1, False))
         | LB_ALGORITHM_RANDOM \<Rightarrow> (sint (c mod n), True)
         | _ \<Rightarrow> (0, False))"

definition take_request :: "BackendServer \<Rightarrow> BackendServer" where
  "take_request s = s\<lparr>bs_active_connections := bs_active_connections s + 1, bs_total_requests := bs_total_requests s + 1\<rparr>"

definition select_in_pool :: "LoadBalancerPool \<Rightarrow> LoadBalancerPool \<times> int" where
  "select_in_pool p =
     (if lp_servers p = [] then (p, -1)
      else
        let (selected_server, moved) = choose_server p;
            p1 = (if moved then p\<lparr>lp_current_server_index := lp_current_server_index p + 1\<rparr> else p)
        in if selected_server \<ge> 0 \<and> selected_server < int (length (lp_servers p))
           then (p1\<lparr>lp_servers := (lp_servers p)[nat selected_server := take_request (lp_servers p ! nat selected_server)]\<rparr>, selected_server)
           else (p1, -1))"

definition load_balancer_select_server :: "balancer \<Rightarrow> u32 \<Rightarrow> balancer \<times> int" where
  "load_balancer_select_server h pool_id = with_handle (-1) h (\<lambda>b.
     if pool_id = 0 then (b, -1)
     else case find_pool pool_id b of None \<Rightarrow> (b, -1)
     | Some i \<Rightarrow> (let (p, r) = select_in_pool (lb_pools b ! i) in (b\<lparr>lb_pools := (lb_pools b)[i := p]\<rparr>, r)))"

definition load_balancer_route_request :: "balancer \<Rightarrow> u32 \<Rightarrow> u32 \<Rightarrow> u16 \<Rightarrow> balancer \<times> int" where
  "load_balancer_route_request h pool_id source_ip source_port =
     (case h of None \<Rightarrow> (None, -1)
      | Some b \<Rightarrow>
          if pool_id = 0 then (h, -1)
          else case find_pool pool_id b of None \<Rightarrow> (h, -1)
          | Some i \<Rightarrow>
              (case load_balancer_select_server h pool_id of (h1, server_idx) \<Rightarrow>
                 if server_idx < 0 then (h1, -1)
                 else (map_option (\<lambda>b1. let p = lb_pools b1 ! i
                         in b1\<lparr>lb_pools := (lb_pools b1)[i := p\<lparr>lp_total_requests := lp_total_requests p + 1,
                              lp_successful_requests := lp_successful_requests p + 1\<rparr>],
                            lb_total_connections := lb_total_connections b1 + 1\<rparr>) h1, server_idx)))"

definition pool_answer :: "balancer \<Rightarrow> u32 \<Rightarrow> int" where
  "pool_answer h pool_id = (if h = None \<or> pool_id = 0 then -1 else 0)"

definition load_balancer_rebalance_pool :: "balancer \<Rightarrow> u32 \<Rightarrow> int" where
  "load_balancer_rebalance_pool h pool_id = pool_answer h pool_id"

definition load_balancer_enable_sticky_sessions :: "balancer \<Rightarrow> u32 \<Rightarrow> int" where
  "load_balancer_enable_sticky_sessions h pool_id = pool_answer h pool_id"

definition load_balancer_disable_sticky_sessions :: "balancer \<Rightarrow> u32 \<Rightarrow> int" where
  "load_balancer_disable_sticky_sessions h pool_id = pool_answer h pool_id"

definition load_balancer_get_metrics :: "balancer \<Rightarrow> bool \<Rightarrow> int \<times> LoadBalancerMetrics option" where
  "load_balancer_get_metrics h metrics = read_handle (-1, None) h (\<lambda>b.
     if \<not> metrics then (-1, None)
     else (0, Some \<lparr>lm_balancer_id = lb_balancer_id b, lm_total_pools = of_nat (length (lb_pools b)), lm_total_servers = lb_total_servers b,
        lm_healthy_servers = lb_healthy_servers b, lm_total_requests = foldl (\<lambda>n p. n + lp_total_requests p) 0 (lb_pools b),
        lm_successful_requests = foldl (\<lambda>n p. n + lp_successful_requests p) 0 (lb_pools b)\<rparr>))"

section \<open>Least connections\<close>

text \<open>What the search knows after the servers \<open>xs\<close>.\<close>

definition least_of :: "BackendServer list \<Rightarrow> u32 \<Rightarrow> int \<Rightarrow> bool" where
  "least_of xs min_conn selected \<longleftrightarrow>
     (selected = -1 \<and> min_conn = 4294967295 \<and>
        (\<forall>s\<in>set xs. bs_state s = SERVER_STATE_HEALTHY \<longrightarrow> \<not> bs_active_connections s < 4294967295)) \<or>
     (\<exists>i<length xs. selected = int i \<and> bs_state (xs ! i) = SERVER_STATE_HEALTHY \<and> min_conn = bs_active_connections (xs ! i) \<and>
        min_conn < 4294967295 \<and>
        (\<forall>k<length xs. bs_state (xs ! k) = SERVER_STATE_HEALTHY \<longrightarrow> min_conn \<le> bs_active_connections (xs ! k)) \<and>
        (\<forall>k<i. bs_state (xs ! k) = SERVER_STATE_HEALTHY \<longrightarrow> min_conn < bs_active_connections (xs ! k)))"

lemma least_of_skip:
  assumes "least_of xs m r" and "\<not> (bs_state s = SERVER_STATE_HEALTHY \<and> bs_active_connections s < m)"
  shows "least_of (xs @ [s]) m r"
proof (cases "r = -1")
  case True
  then show ?thesis using assms by (auto simp: least_of_def)
next
  case False
  then obtain i where i: "i < length xs" "r = int i" "bs_state (xs ! i) = SERVER_STATE_HEALTHY" "m = bs_active_connections (xs ! i)"
      "m < 4294967295" "\<forall>k<length xs. bs_state (xs ! k) = SERVER_STATE_HEALTHY \<longrightarrow> m \<le> bs_active_connections (xs ! k)"
      "\<forall>k<i. bs_state (xs ! k) = SERVER_STATE_HEALTHY \<longrightarrow> m < bs_active_connections (xs ! k)"
    using assms(1) by (auto simp: least_of_def)
  then have "\<exists>i<length (xs @ [s]). r = int i \<and> bs_state ((xs @ [s]) ! i) = SERVER_STATE_HEALTHY \<and> m = bs_active_connections ((xs @ [s]) ! i) \<and>
      m < 4294967295 \<and> (\<forall>k<length (xs @ [s]). bs_state ((xs @ [s]) ! k) = SERVER_STATE_HEALTHY \<longrightarrow> m \<le> bs_active_connections ((xs @ [s]) ! k)) \<and>
      (\<forall>k<i. bs_state ((xs @ [s]) ! k) = SERVER_STATE_HEALTHY \<longrightarrow> m < bs_active_connections ((xs @ [s]) ! k))"
    using assms(2) by (intro exI [of _ i]) (auto simp: nth_append less_Suc_eq)
  then show ?thesis unfolding least_of_def by blast
qed

lemma least_of_take:
  assumes "least_of xs m r" and s: "bs_state s = SERVER_STATE_HEALTHY" "bs_active_connections s < m"
  shows "least_of (xs @ [s]) (bs_active_connections s) (int (length xs))"
proof -
  let ?m = "bs_active_connections s"
  have "?m < bs_active_connections (xs ! k)" if "k < length xs" "bs_state (xs ! k) = SERVER_STATE_HEALTHY" for k
    using assms that by (auto simp: least_of_def)
  moreover have "?m < 4294967295" using assms by (auto simp: least_of_def)
  ultimately have "\<forall>k<length (xs @ [s]). bs_state ((xs @ [s]) ! k) = SERVER_STATE_HEALTHY \<longrightarrow> ?m \<le> bs_active_connections ((xs @ [s]) ! k)"
      "\<forall>k<length xs. bs_state ((xs @ [s]) ! k) = SERVER_STATE_HEALTHY \<longrightarrow> ?m < bs_active_connections ((xs @ [s]) ! k)" "?m < 4294967295"
    by (auto simp: nth_append less_Suc_eq intro: less_imp_le)
  then show ?thesis using s unfolding least_of_def by (intro disjI2 exI [of _ "length xs"]) simp
qed

lemma least_loop_of:
  "least_of xs m r \<Longrightarrow> \<exists>m1. least_of (xs @ ss) m1 (least_loop (length xs) m r ss)"
proof (induction ss arbitrary: xs m r)
  case Nil
  then show ?case by auto
next
  case (Cons s ss)
  show ?case
  proof (cases "bs_state s = SERVER_STATE_HEALTHY \<and> bs_active_connections s < m")
    case True
    then show ?thesis using Cons.IH [of "xs @ [s]"] least_of_take [OF Cons.prems] by simp
  next
    case False
    then show ?thesis using Cons.IH [of "xs @ [s]"] least_of_skip [OF Cons.prems False] by auto
  qed
qed

lemma least_loop_exact: "\<exists>m. least_of ss m (least_loop 0 4294967295 (-1) ss)"
  using least_loop_of [of "[]" 4294967295 "-1" ss] by (simp add: least_of_def)

section \<open>Round robin\<close>

text \<open>How often place \<open>j\<close> is met in \<open>m\<close> steps from \<open>c\<close> round a ring of \<open>n\<close> places.\<close>

definition hits :: "nat \<Rightarrow> nat \<Rightarrow> nat \<Rightarrow> nat \<Rightarrow> nat" where
  "hits c n m j = length (filter (\<lambda>i. (c + i) mod n = j) [0..<m])"

lemma hits_block:
  assumes "j < n"
  shows "length (filter (\<lambda>i. (c + i) mod n = j) [m..<m + n]) = 1"
proof -
  have "(c + m) mod n < n" using assms by (intro mod_less_divisor) simp
  then have ex1: "\<exists>!k. k < n \<and> ((c + m) mod n + k) mod n = j" using turn_unique assms by blast
  then obtain k0 where "{k. k < n \<and> ((c + m) mod n + k) mod n = j} = {k0}" by blast
  moreover have "((c + m) mod n + k) mod n = (c + (m + k)) mod n" for k by (simp add: mod_add_left_eq add.assoc)
  ultimately have "{k. k < n \<and> (c + (m + k)) mod n = j} = {k0}" by simp
  moreover have "{i. i < length [m..<m + n] \<and> (c + [m..<m + n] ! i) mod n = j} = {k. k < n \<and> (c + (m + k)) mod n = j}"
    by (auto simp: nth_upt)
  ultimately show ?thesis by (simp add: length_filter_conv_card)
qed

lemma hits_rounds: "j < n \<Longrightarrow> hits c n (n * k) j = k"
proof (induction k)
  case 0
  then show ?case by (simp add: hits_def)
next
  case (Suc k)
  have "[0..<n * Suc k] = [0..<n * k] @ [n * k..<n * k + n]"
    using upt_add_eq_append [of 0 "n * k" n] by (simp only: mult_Suc_right add.commute)
  then have "hits c n (n * Suc k) j = hits c n (n * k) j + length (filter (\<lambda>i. (c + i) mod n = j) [n * k..<n * k + n])"
    by (simp only: hits_def filter_append length_append)
  then show ?case using Suc hits_block [OF Suc.prems, of c "n * k"] by simp
qed

lemma hits_Suc: "hits c n (Suc m) j = hits c n m j + (if (c + m) mod n = j then 1 else 0)"
  by (simp add: hits_def)

definition took :: "nat \<Rightarrow> BackendServer \<Rightarrow> BackendServer" where
  "took k s = s\<lparr>bs_active_connections := bs_active_connections s + of_nat k, bs_total_requests := bs_total_requests s + of_nat k\<rparr>"

lemma took_simps: "took 0 s = s" "take_request (took k s) = took (Suc k) s"
  by (simp_all add: took_def take_request_def)

text \<open>A request routed within its pool.\<close>

definition route_in_pool :: "LoadBalancerPool \<Rightarrow> LoadBalancerPool" where
  "route_in_pool p = (let p1 = fst (select_in_pool p)
     in p1\<lparr>lp_total_requests := lp_total_requests p1 + 1, lp_successful_requests := lp_successful_requests p1 + 1\<rparr>)"

definition rotates :: "LoadBalancerPool \<Rightarrow> bool" where
  "rotates p \<longleftrightarrow> lp_algorithm p = LB_ALGORITHM_ROUND_ROBIN \<and> lp_servers p \<noteq> [] \<and> length (lp_servers p) \<le> MAX_BACKEND_SERVERS"

lemma choose_rotating:
  assumes "rotates p"
  defines "j \<equiv> unat (lp_current_server_index p) mod length (lp_servers p)"
  shows "choose_server p = (int j, True)" and "j < length (lp_servers p)"
proof -
  let ?n = "length (lp_servers p)"
  show j: "j < ?n" using assms by (simp add: rotates_def)
  have n: "unat (of_nat ?n :: u32) = ?n" using assms(1) by (intro unat_of_nat_u32) (simp add: rotates_def MAX_BACKEND_SERVERS_def)
  then have u: "unat (lp_current_server_index p mod of_nat ?n) = j" by (simp add: unat_mod_distrib j_def)
  have "j < 256" using j assms(1) by (simp add: rotates_def MAX_BACKEND_SERVERS_def)
  with u have "sint (lp_current_server_index p mod of_nat ?n) = int j"
    by (simp add: sint_small [of "lp_current_server_index p mod of_nat ?n"] word_less_nat_alt uint_nat)
  then show "choose_server p = (int j, True)" using assms(1) by (simp add: choose_server_def rotates_def)
qed

lemma select_rotating:
  assumes "rotates p"
  defines "j \<equiv> unat (lp_current_server_index p) mod length (lp_servers p)"
  shows "select_in_pool p = (p\<lparr>lp_current_server_index := lp_current_server_index p + 1,
    lp_servers := (lp_servers p)[j := take_request (lp_servers p ! j)]\<rparr>, int j)"
  using choose_rotating [OF assms(1)] assms by (simp add: select_in_pool_def rotates_def)

lemma route_rotating:
  assumes "rotates p" and "unat (lp_current_server_index p) + m < 4294967296"
  defines "n \<equiv> length (lp_servers p)"
  shows "rotates ((route_in_pool ^^ m) p) \<and> lp_pool_id ((route_in_pool ^^ m) p) = lp_pool_id p \<and>
    unat (lp_current_server_index ((route_in_pool ^^ m) p)) = unat (lp_current_server_index p) + m \<and>
    lp_servers ((route_in_pool ^^ m) p) = map (\<lambda>j. took (hits (unat (lp_current_server_index p)) n m j) (lp_servers p ! j)) [0..<n] \<and>
    lp_successful_requests ((route_in_pool ^^ m) p) = lp_successful_requests p + of_nat m"
  using assms(2)
proof (induction m)
  case 0
  then show ?case using assms(1) by (simp add: hits_def took_simps n_def map_nth)
next
  case (Suc m)
  let ?q = "(route_in_pool ^^ m) p" and ?c = "unat (lp_current_server_index p)"
  have IH: "rotates ?q" "lp_pool_id ?q = lp_pool_id p" "unat (lp_current_server_index ?q) = ?c + m"
      "lp_servers ?q = map (\<lambda>j. took (hits ?c n m j) (lp_servers p ! j)) [0..<n]"
      "lp_successful_requests ?q = lp_successful_requests p + of_nat m"
    using Suc by simp_all
  have n: "0 < n" using assms(1) by (simp add: rotates_def n_def)
  have len: "length (lp_servers ?q) = n" by (simp add: IH(4))
  have index: "unat (lp_current_server_index ?q + 1) = ?c + Suc m" using IH(3) Suc.prems by (simp add: unat_word_ariths)
  have servers: "(lp_servers ?q)[(?c + m) mod n := take_request (lp_servers ?q ! ((?c + m) mod n))] =
      map (\<lambda>j. took (hits ?c n (Suc m) j) (lp_servers p ! j)) [0..<n]"
    using n by (intro nth_equalityI) (auto simp: IH(4) nth_list_update hits_Suc took_simps)
  have step: "(route_in_pool ^^ Suc m) p = ?q\<lparr>lp_current_server_index := lp_current_server_index ?q + 1,
      lp_servers := map (\<lambda>j. took (hits ?c n (Suc m) j) (lp_servers p ! j)) [0..<n],
      lp_total_requests := lp_total_requests ?q + 1, lp_successful_requests := lp_successful_requests ?q + 1\<rparr>"
    using select_rotating [OF IH(1)] by (simp add: route_in_pool_def len IH(3) servers)
  show ?case unfolding step using IH(1,2,5) index n len by (simp add: rotates_def)
qed

text \<open>A request routed to a pool that rotates changes that pool and the number of connections.\<close>

lemma route_request_pool:
  assumes "find_pool pid b = Some i" and "pid \<noteq> 0" and "rotates (lb_pools b ! i)"
  shows "fst (load_balancer_route_request (Some b) pid ip port) =
    Some (b\<lparr>lb_pools := (lb_pools b)[i := route_in_pool (lb_pools b ! i)], lb_total_connections := lb_total_connections b + 1\<rparr>)"
proof -
  have "i < length (lb_pools b)" using assms(1) by (auto simp: find_pool_def first_idx_Some)
  then show ?thesis using assms select_rotating [OF assms(3)]
    by (simp add: load_balancer_route_request_def load_balancer_select_server_def with_handle_def route_in_pool_def)
qed

lemma route_many:
  assumes "find_pool pid b = Some i" and "pid \<noteq> 0" and "rotates (lb_pools b ! i)"
    and "unat (lp_current_server_index (lb_pools b ! i)) + m < 4294967296"
  shows "((\<lambda>h. fst (load_balancer_route_request h pid ip port)) ^^ m) (Some b) =
    Some (b\<lparr>lb_pools := (lb_pools b)[i := (route_in_pool ^^ m) (lb_pools b ! i)], lb_total_connections := lb_total_connections b + of_nat m\<rparr>)"
  using assms(4)
proof (induction m)
  case 0
  then show ?case by simp
next
  case (Suc m)
  let ?b = "b\<lparr>lb_pools := (lb_pools b)[i := (route_in_pool ^^ m) (lb_pools b ! i)], lb_total_connections := lb_total_connections b + of_nat m\<rparr>"
  have i: "i < length (lb_pools b)" "lp_pool_id (lb_pools b ! i) = pid" "\<forall>j<i. lp_pool_id (lb_pools b ! j) \<noteq> pid"
    using assms(1) by (auto simp: find_pool_def first_idx_Some)
  have r: "rotates ((route_in_pool ^^ m) (lb_pools b ! i))" "lp_pool_id ((route_in_pool ^^ m) (lb_pools b ! i)) = pid"
    using route_rotating [OF assms(3), of m] Suc.prems i by simp_all
  have "find_pool pid ?b = Some i" using i r(2) by (auto simp: find_pool_def first_idx_Some nth_list_update)
  from route_request_pool [OF this assms(2), of ip port] r i Suc show ?case by (simp add: algebra_simps)
qed

section \<open>Flaws of the bookkeeping\<close>

text \<open>
  Weighted selection takes a position within the sum of the weights as the number of a server: past the
  servers it fails.
\<close>

lemma weighted_index_past_servers:
  assumes "lp_algorithm p = LB_ALGORITHM_WEIGHTED"
    and "int (length (lp_servers p)) \<le> sint (lp_current_server_index p mod healthy_weight (lp_servers p))"
  shows "snd (select_in_pool p) = -1"
  using assms by (simp add: select_in_pool_def choose_server_def Let_def split: prod.split)

text \<open>Draining a healthy server leaves the number of healthy servers as it was.\<close>

lemma drain_keeps_healthy_count:
  assumes "load_balancer_drain_server (Some b) pid sid = (Some b1, r)"
  shows "lb_healthy_servers b1 = lb_healthy_servers b"
  using assms by (auto simp: load_balancer_drain_server_def with_handle_def set_servers_def Let_def split: option.splits)

text \<open>Removing a server that is not healthy counts a healthy one off, if the next one is healthy.\<close>

lemma remove_counts_next_server:
  assumes "locate_server pid sid b = Some (i, j)" and "Suc j < length (lp_servers (lb_pools b ! i))"
    and "bs_state (lp_servers (lb_pools b ! i) ! Suc j) = SERVER_STATE_HEALTHY"
    and "load_balancer_remove_server (Some b) pid sid = (Some b1, r)"
  shows "lb_healthy_servers b1 = lb_healthy_servers b - 1"
  using assms by (auto simp: load_balancer_remove_server_def with_handle_def Let_def)

section \<open>Properties\<close>

text \<open>
  Claim C5. Least-connection selection is exact. If some healthy server of the pool has fewer than 4294967295 connections, the
  first of the healthy servers with the fewest connections is returned and gets one connection and one request
  more, and nothing else changes; otherwise the selection fails and nothing changes.
\<close>

theorem lb_least_connections:
  assumes "find_pool pid b = Some i" and "pid \<noteq> 0" and "lp_algorithm (lb_pools b ! i) = LB_ALGORITHM_LEAST_CONN"
    and "load_balancer_select_server (Some b) pid = (h, r)"
  shows "if \<exists>s \<in> set (lp_servers (lb_pools b ! i)). bs_state s = SERVER_STATE_HEALTHY \<and> bs_active_connections s < 4294967295
    then \<exists>j < length (lp_servers (lb_pools b ! i)). r = int j \<and>
      bs_state (lp_servers (lb_pools b ! i) ! j) = SERVER_STATE_HEALTHY \<and>
      (\<forall>k < length (lp_servers (lb_pools b ! i)). bs_state (lp_servers (lb_pools b ! i) ! k) = SERVER_STATE_HEALTHY \<longrightarrow>
        bs_active_connections (lp_servers (lb_pools b ! i) ! j) \<le> bs_active_connections (lp_servers (lb_pools b ! i) ! k) \<and>
        (k < j \<longrightarrow> bs_active_connections (lp_servers (lb_pools b ! i) ! j) < bs_active_connections (lp_servers (lb_pools b ! i) ! k))) \<and>
      h = Some (set_servers i ((lp_servers (lb_pools b ! i))[j := take_request (lp_servers (lb_pools b ! i) ! j)]) b)
    else r = -1 \<and> h = Some b"
proof -
  let ?p = "lb_pools b ! i"
  let ?ss = "lp_servers ?p"
  have i: "i < length (lb_pools b)" using assms(1) by (auto simp: find_pool_def first_idx_Some)
  obtain m where m: "least_of ?ss m (least_loop 0 4294967295 (-1) ?ss)" using least_loop_exact by blast
  let ?sel = "least_loop 0 4294967295 (-1) ?ss"
  have c: "choose_server ?p = (?sel, False)" using assms(3) by (simp add: choose_server_def)
  have res: "(h, r) = (let (p, r) = select_in_pool ?p in (Some (b\<lparr>lb_pools := (lb_pools b)[i := p]\<rparr>), r))"
    using assms by (simp add: load_balancer_select_server_def with_handle_def split: prod.splits)
  show ?thesis
  proof (cases "?sel = -1")
    case True
    then have "\<not> (\<exists>s \<in> set ?ss. bs_state s = SERVER_STATE_HEALTHY \<and> bs_active_connections s < 4294967295)"
      using m by (auto simp: least_of_def)
    moreover have "select_in_pool ?p = (?p, -1)" using True c by (simp add: select_in_pool_def)
    ultimately show ?thesis using res by simp
  next
    case False
    then obtain j where j: "j < length ?ss" "?sel = int j" "bs_state (?ss ! j) = SERVER_STATE_HEALTHY"
        "bs_active_connections (?ss ! j) < 4294967295"
        "\<forall>k<length ?ss. bs_state (?ss ! k) = SERVER_STATE_HEALTHY \<longrightarrow> bs_active_connections (?ss ! j) \<le> bs_active_connections (?ss ! k)"
        "\<forall>k<j. bs_state (?ss ! k) = SERVER_STATE_HEALTHY \<longrightarrow> bs_active_connections (?ss ! j) < bs_active_connections (?ss ! k)"
      using m by (auto simp: least_of_def)
    have "select_in_pool ?p = (?p\<lparr>lp_servers := ?ss[j := take_request (?ss ! j)]\<rparr>, int j)"
      using j(1,2) c by (auto simp: select_in_pool_def)
    then have "h = Some (set_servers i (?ss[j := take_request (?ss ! j)]) b)" "r = int j" using res by (simp_all add: set_servers_def)
    moreover have "\<exists>s \<in> set ?ss. bs_state s = SERVER_STATE_HEALTHY \<and> bs_active_connections s < 4294967295" using j(1,3,4) by auto
    ultimately show ?thesis using j by auto
  qed
qed

definition sample_server :: "u32 \<Rightarrow> u32 \<Rightarrow> BackendServer" where
  "sample_server k conns = \<lparr>bs_server_id = k, bs_server_ip = 0, bs_server_port = 80, bs_state = SERVER_STATE_HEALTHY, bs_weight = 1,
     bs_active_connections = conns, bs_total_requests = 0, bs_bytes_sent = 0, bs_bytes_received = 0, bs_response_time_avg_ms = 0,
     bs_cpu_usage = 0, bs_memory_usage = 0\<rparr>"

definition sample_balancer :: "LoadBalancingAlgorithm \<Rightarrow> LoadBalancer" where
  "sample_balancer a = \<lparr>lb_balancer_id = 1, lb_pools = [\<lparr>lp_pool_id = 1, lp_pool_name = ''web'',
     lp_servers = [sample_server 1 5, sample_server 2 3, sample_server 3 3], lp_algorithm = a, lp_current_server_index = 0,
     lp_total_requests = 0, lp_successful_requests = 0, lp_failed_requests = 0\<rparr>],
     lb_total_servers = 3, lb_healthy_servers = 3, lb_total_bytes_processed = 0, lb_total_connections = 0\<rparr>"

theorem lb_least_connections_witness:
  "snd (load_balancer_select_server (Some (sample_balancer LB_ALGORITHM_LEAST_CONN)) 1) = 1"
proof -
  let ?b = "sample_balancer LB_ALGORITHM_LEAST_CONN"
  obtain h r where s: "load_balancer_select_server (Some ?b) 1 = (h, r)" by fastforce
  have f: "find_pool 1 ?b = Some 0" by (simp add: find_pool_def sample_balancer_def)
  have a: "lp_algorithm (lb_pools ?b ! 0) = LB_ALGORITHM_LEAST_CONN" by (simp add: sample_balancer_def)
  have ss: "lp_servers (lb_pools ?b ! 0) = [sample_server 1 5, sample_server 2 3, sample_server 3 3]" by (simp add: sample_balancer_def)
  have d: "bs_state (sample_server k n) = SERVER_STATE_HEALTHY" "bs_active_connections (sample_server k n) = n" for k n
    by (simp_all add: sample_server_def)
  obtain j where "j < 3" "r = int j" and least: "\<forall>k < 3. bs_active_connections ([sample_server 1 5, sample_server 2 3, sample_server 3 3] ! j)
      \<le> bs_active_connections ([sample_server 1 5, sample_server 2 3, sample_server 3 3] ! k) \<and>
      (k < j \<longrightarrow> bs_active_connections ([sample_server 1 5, sample_server 2 3, sample_server 3 3] ! j)
      < bs_active_connections ([sample_server 1 5, sample_server 2 3, sample_server 3 3] ! k))"
    using lb_least_connections [OF f _ a s] by (auto simp: ss d less_Suc_eq numeral_3_eq_3)
  moreover from this have "j = 1" by (auto simp: d less_Suc_eq numeral_3_eq_3)
  ultimately show ?thesis using s by simp
qed

text \<open>
  Claim C6. Round robin is fair. While the index of the pool does not wrap around, \<open>n * k\<close> requests routed to a
  round-robin pool of \<open>n\<close> servers give each server, whatever its state and from whatever index, exactly \<open>k\<close> more
  connections and requests; other pools keep their servers, and all requests are counted as successful.
\<close>

theorem lb_round_robin_fair:
  assumes "find_pool pid b = Some i" and "pid \<noteq> 0" and "rotates (lb_pools b ! i)"
    and "unat (lp_current_server_index (lb_pools b ! i)) + length (lp_servers (lb_pools b ! i)) * k < 4294967296"
  shows "\<exists>b1. ((\<lambda>h. fst (load_balancer_route_request h pid ip port)) ^^ (length (lp_servers (lb_pools b ! i)) * k)) (Some b) = Some b1 \<and>
    lp_servers (lb_pools b1 ! i) = map (took k) (lp_servers (lb_pools b ! i)) \<and>
    lp_successful_requests (lb_pools b1 ! i) =
      lp_successful_requests (lb_pools b ! i) + of_nat (length (lp_servers (lb_pools b ! i)) * k) \<and>
    (\<forall>j. j \<noteq> i \<longrightarrow> lb_pools b1 ! j = lb_pools b ! j)"
proof -
  let ?p = "lb_pools b ! i"
  let ?n = "length (lp_servers ?p)"
  have i: "i < length (lb_pools b)" using assms(1) by (auto simp: find_pool_def first_idx_Some)
  have "map (\<lambda>j. took (hits (unat (lp_current_server_index ?p)) ?n (?n * k) j) (lp_servers ?p ! j)) [0..<?n] = map (took k) (lp_servers ?p)"
    by (intro nth_equalityI) (simp_all add: hits_rounds)
  then show ?thesis
    using route_many [OF assms, of ip port] route_rotating [OF assms(3,4)] i by simp
qed

theorem lb_round_robin_fair_witness:
  "\<exists>b1. ((\<lambda>h. fst (load_balancer_route_request h 1 9 99)) ^^ 6) (Some (sample_balancer LB_ALGORITHM_ROUND_ROBIN)) = Some b1 \<and>
    map bs_active_connections (lp_servers (lb_pools b1 ! 0)) = [7, 5, 5]"
proof -
  let ?b = "sample_balancer LB_ALGORITHM_ROUND_ROBIN"
  have "find_pool 1 ?b = Some 0" "rotates (lb_pools ?b ! 0)"
    by (simp_all add: find_pool_def sample_balancer_def rotates_def MAX_BACKEND_SERVERS_def)
  from lb_round_robin_fair [OF this(1) _ this(2), of 2 9 99] show ?thesis
    by (auto simp: sample_balancer_def sample_server_def took_def)
qed

end
