(* ===== verification/Spec2Isabelle.thy ===== *)
theory Spec2Isabelle
  imports Scheduler Journal Threads IPC Network_Stack Networking_Core Security_Core Memory_Manager
    Virtual_Memory Interrupts Syscalls Kernel_Hybrid Filesystem Device_Driver KV_Store Msg_Broker Audit_Chain
    Fault_Tolerance Resource_Allocator Dist_Cache Consensus_Engine Watchdog Cluster_Manager
    Auth_Manager Config_Manager Page_Cache Traffic_Shaper IO_Scheduler
    Memory_Pools Distributed_Consensus Garbage_Collector Certificates TLS_Manager
    Encryption_Engine CPU_Scheduler Distributed_Storage Event_Reactor
    CLI_Core CLI_Shell Load_Balancer
begin

text \<open>
  OneOS: a verification library for the core of the operating system and its distributed services.

  \<^bold>\<open>The program.\<close> OneOS is a large collection of C modules. A module keeps its state either in a
  structure that its \<open>init\<close> function allocates and returns (kernel, memory, scheduler, IPC, network,
  files, security, drivers) or in a static array of objects that the calls address by a number
  (everything under \<open>src/services\<close>). Modules return \<open>-1\<close>, 0 or \<open>NULL\<close> on errors. They run in one thread
  of control, call each other rarely and share no variables; what they share is the way they keep
  their tables: a fixed array with a count, a new object at the end, a removed one closed over by a
  shifting or compacting loop, and identifiers taken from the count or from a counter. The library
  therefore has one theory per module over a common layer for tables, handles and histories.

  \<^bold>\<open>The common layer.\<close>
  \<^item> \<open>Prelude\<close>: machine integers (\<open>u8\<close> to \<open>u64\<close>), the outcome type for undefined behaviour, the handle
    prologue (\<open>if (!s) return r\<close>), search loops (\<open>first_idx\<close>), removal loops (\<open>shift_down\<close>, \<open>compact\<close>,
    proved equal to \<open>remove_at\<close> and \<open>filter\<close>), tables addressed by number (\<open>slot_of\<close>, \<open>slot_get\<close>).
  \<^item> \<open>Contracts\<close>: the interfaces as locales: systems with an invariant, refinement of an abstract
    machine, tables with identifiers from a count or a counter, ballots in which a voter has one vote
    per term (\<open>ballot\<close>). Every locale is interpreted on the definitions of the modules.
  \<^item> \<open>Service_Tables\<close>: the prologue of the services (\<open>with_slot\<close>), histories of calls with their
    results (\<open>call_run\<close>), the locale \<open>bounded_refinement\<close> (a simulation of single calls, under an
    invariant that allows for a number of further calls, gives equal results of whole histories) and
    its case \<open>call_refinement\<close> without the bound, the locale \<open>slot_service\<close> (objects of a service do not
    influence each other), tables as maps (\<open>table_map\<close>), tables with identifiers from a counter
    (\<open>ids_below\<close>, \<open>id_idx\<close>) and ring buffers. The locale \<open>guarded_refinement\<close> is the simulation that holds as
    long as the abstract machine stays within a limit.
  \<^item> \<open>Record_Layer\<close>: the loop that combines a text with a pad, and the locale \<open>record_layer\<close> from which both
    ciphers have their round trips. \<open>Table_Multisets\<close>: what moving and removing entries does to the multiset of a
    table.

  \<^bold>\<open>The modules.\<close> Each theory has the constants and structures of the header, one definition per C
  function under its C name, and then its properties.
  \<^item> \<open>Scheduler\<close>, \<open>core-services/process_scheduler.c\<close>: round robin visits every process in turn, and
    the current index stays inside the array.
  \<^item> \<open>Threads\<close>, \<open>core-services/thread_manager.c\<close>: mutual exclusion over every interleaving of lock and
    unlock calls, refinement of a recursive lock, conservation of the units of a semaphore, finality
    of termination.
  \<^item> \<open>IPC\<close>, \<open>core-services/ipc_manager.c\<close>: pipes deliver the bytes written in order, queues are FIFO,
    buffers stay in their bounds; the exact condition under which a pipe write runs over its buffer.
  \<^item> \<open>Memory_Manager\<close> and \<open>Virtual_Memory\<close>, \<open>mm/memory_manager.c\<close>, \<open>mm/virtual_memory.c\<close>: the accounting
    is exact, mappings of different pages do not interfere, freed slots are never reused.
  \<^item> \<open>Interrupts\<close>, \<open>Syscalls\<close>, \<open>Kernel_Hybrid\<close>, \<open>kernel/interrupt_handler.c\<close>, \<open>kernel/syscall_handler.c\<close>,
    \<open>kernel/kernel_hybrid.c\<close>: which handlers run on an interrupt and which function a system call
    number reaches.
  \<^item> \<open>Journal\<close>, \<open>fs/fs_journal.c\<close>: recovery completes exactly the committed transactions, commits
    sync exactly their entries, checksums detect a changed byte. \<open>Filesystem\<close>, \<open>fs/filesystem_core.c\<close>:
    a created file is found.
  \<^item> \<open>Network_Stack\<close> and \<open>Networking_Core\<close>, \<open>net/network_stack.c\<close>, \<open>net/networking_core.c\<close>: lifetime of ARP
    entries, traffic accounting, the overrun of closing a connection.
  \<^item> \<open>Security_Core\<close>, \<open>security/security_core.c\<close>: lock-out after failed logins, the password round
    trip, and that access decisions ignore the policies. \<open>Device_Driver\<close>, \<open>drivers/device_driver.c\<close>: the
    exact condition for a use after delete.
  \<^item> \<open>KV_Store\<close>, \<open>services/dist_kv_store.c\<close>: a store refines a map from keys to version histories,
    stores are isolated, scans enumerate, an aborted transaction can be committed.
  \<^item> \<open>Msg_Broker\<close>, \<open>services/msg_broker.c\<close>: the ring buffers refine FIFO queues.
  \<^item> \<open>Audit_Chain\<close>, \<open>services/blockchain_audit.c\<close>: verification reports exactly the first block never
    mined, on a chain in a slot not used before; queries return exactly the matching transactions, tampering is
    not detected.
  \<^item> \<open>Resource_Allocator\<close>, \<open>services/resource_allocator.c\<close>: the pools keep exact books.
  \<^item> \<open>Dist_Cache\<close>, \<open>services/dist_cache.c\<close>: a cache refines one map with expiry, clean-up included, and is undefined
    exactly when an overwrite is longer than the block of its key.
  \<^item> \<open>Fault_Tolerance\<close>, \<open>services/fault_tolerance.c\<close>: the CRC detects every burst of up to four bytes,
    clean-up ends and keeps the most recent recovery points.
  \<^item> \<open>Consensus_Engine\<close>, \<open>clustering-replication/consensus_engine.c\<close>: a term has at most one candidate with
    the votes of a majority; the engine miscounts the votes it gets. \<open>Distributed_Consensus\<close>,
    \<open>distributed-systems/distributed_consensus.c\<close>, a second module for the same purpose: the log of a node is
    bounded and never shrinks, but a node votes for every candidate of a term. \<open>Cluster_Manager\<close>,
    \<open>services/cluster_manager.c\<close>: no call ever reaches a cluster, though events are accepted for any.
  \<^item> \<open>Watchdog\<close>, \<open>fault-tolerance/watchdog_deadlock_detector.c\<close>: which deadlocks are found, exactly.
  \<^item> \<open>Auth_Manager\<close>, \<open>secure-communication/auth_manager.c\<close>: permission checks refine role-based access
    control with multiplicities. \<open>Config_Manager\<close>, \<open>configuration-management/config_manager.c\<close>: a key refines a
    queue of values.
  \<^item> \<open>IO_Scheduler\<close> and \<open>Page_Cache\<close>, \<open>io-filesystem/io_scheduler.c\<close>, \<open>io-filesystem/page_cache_manager.c\<close>: the
    two sorting loops are stable sorts, and undefined on an empty queue; the accounting of the cache is
    exact and a write never displaces a page.
  \<^item> \<open>Memory_Pools\<close> and \<open>Garbage_Collector\<close>, \<open>memory-management/memory_pool_allocator.c\<close>,
    \<open>memory-management/garbage_collector.c\<close>: blocks lie inside their pool and are disjoint until one is freed,
    after which they overlap; a collection frees objects that are in use.
  \<^item> \<open>Traffic_Shaper\<close> and \<open>Load_Balancer\<close>, \<open>load-balancing/traffic_shaper.c\<close>, \<open>load-balancing/load_balancer.c\<close>: limiters
    refine budgets that are never refilled; least-connection selection is exact and round robin is fair.
  \<^item> \<open>Certificates\<close>, \<open>security-cryptography/certificate_manager.c\<close>: the manager refines a map of vaults, its states are
    well formed, an import is exported unchanged, a revocation is permanent.
  \<^item> \<open>TLS_Manager\<close> and \<open>Encryption_Engine\<close>, \<open>secure-communication/tls_manager.c\<close>,
    \<open>security-cryptography/encryption_engine.c\<close>: records and data are decrypted to what was encrypted; a session that
    carries records never made a handshake, unless its state was set by hand, and after its key was destroyed a session sends its text in the clear.
  \<^item> \<open>CPU_Scheduler\<close>, \<open>resource-scheduling/cpu_scheduler.c\<close>: migration between run queues loses no thread, and the
    selection by each policy is exact.
  \<^item> \<open>Distributed_Storage\<close>, \<open>distributed-systems/distributed_storage.c\<close>: the storage refines queues of values with
    one deletion each.
  \<^item> \<open>Event_Reactor\<close>, \<open>async-io-multiplexing/event_reactor.c\<close>: the circular queue refines a list as long as it does
    not overflow, and a round of dispatching and processing serves every registered source once.
  \<^item> \<open>CLI_Core\<close> and \<open>CLI_Shell\<close>, \<open>bin/cli/cli.c\<close>, \<open>commands.c\<close>, \<open>extended_commands.c\<close>, \<open>shell.c\<close>: the command line.
    \<open>CLI_Core\<close> is written for any set of commands (locale \<open>cli_commands\<close>), \<open>CLI_Shell\<close> has the commands and the table. The
    parser reads back what is written, a user session reaches no administrator command, and the history is a
    window of the lines entered, up to the one that ended the session.

  This theory adds the defect that four tables of different modules have in common.

  \<^bold>\<open>Conventions.\<close> An array with a count is the list of its live elements; integers have their C
  width and wrap; a pointer argument that may be null is an option; a string argument is the
  characters before its end and storing it in a fixed array truncates it as \<open>strncpy\<close> does there.
  What comes from outside (the clock, the success of \<open>malloc\<close>, the content of memory that was not
  initialised, the operating system below the shell) is an argument. Undefined behaviour that a caller can reach (writing past a block,
  using freed memory) is the outcome \<open>Undef\<close>; the theorems say exactly when it happens. An address
  returned to the caller is the index of the object it points to. Printing is left out, except in the shell.

  \<^bold>\<open>Bounds and termination.\<close> No definition has fuel. Loops are structural recursion over the list
  they walk or over the number of steps that their bounds give (computed with the width of the code,
  wrap-around included), or functions with a measure (the counting loops of the audit chain, the
  clean-up loop of the recovery points, applying committed entries). Hypotheses such as
  \<open>length k < 256\<close> are the sizes of the C arrays, those such as \<open>length calls < 4294967295\<close> exclude that a
  32-bit counter of identifiers wraps, and each theorem with hypotheses has a witness that meets them.

  \<^bold>\<open>Not modelled.\<close> Code whose results are floating-point numbers (analytics, learning, prediction,
  cost and load scores); access to hardware and files; start-up code and user interfaces, which
  print; files that do not compile, such as
  \<open>services/security_policy_engine.c\<close>, which uses an undeclared member \<open>rule_count\<close>, and the function
  \<open>mb_nack_message\<close>. Disaster recovery, replication, checkpoints, deployment, containers and virtualisation, the security
  manager and the logger are further modules of the kind of those above: tables with the same loops, for which the
  common layer is meant. \<open>memory-management/virtual_memory_manager.c\<close> is left out because its initialisation writes
  through a pointer that it has just cleared.
\<close>

text \<open>
  Claim C40. Four tables of different components share one defect: each numbers a new entry by its
  count plus one and lets entries be removed. Whenever the identifiers of such a table are 1 to
  \<open>n\<close> (as they are until the first removal), removing any entry but the last and creating another
  one hands out the identifier \<open>n\<close>, which the last entry still has: afterwards two processes, two
  users, two encryption keys or two files share an identifier.
\<close>

theorem removal_reuses_identifiers:
  "(dense_ids Scheduler.sp_pid (Scheduler.sc_processes s) \<longrightarrow> length (Scheduler.sc_processes s) \<le> 512 \<longrightarrow>
    1 \<le> unat k \<longrightarrow> unat k < length (Scheduler.sc_processes s) \<longrightarrow>
    process_add (process_remove s k) a = (s', i) \<longrightarrow> i \<noteq> 0 \<longrightarrow>
    i = of_nat (length (Scheduler.sc_processes s)) \<and> \<not> distinct (map sp_pid (Scheduler.sc_processes s'))) \<and>
   (dense_ids us_user_id (sc_users c) \<longrightarrow> length (sc_users c) \<le> 128 \<longrightarrow>
    1 \<le> unat k \<longrightarrow> unat k < length (sc_users c) \<longrightarrow>
    Security_Core.user_create (Security_Core.user_delete c k) b = (c', i) \<longrightarrow> i \<noteq> 0 \<longrightarrow>
    i = of_nat (length (sc_users c)) \<and> \<not> distinct (map us_user_id (sc_users c'))) \<and>
   (dense_ids ek_key_id (sc_keys c) \<longrightarrow> length (sc_keys c) \<le> 512 \<longrightarrow>
    1 \<le> unat k \<longrightarrow> unat k < length (sc_keys c) \<longrightarrow>
    key_create (key_delete c k) d = (c', i) \<longrightarrow> i \<noteq> 0 \<longrightarrow>
    i = of_nat (length (sc_keys c)) \<and> \<not> distinct (map ek_key_id (sc_keys c'))) \<and>
   (dense_ids fe_inode (fs_entries f) \<longrightarrow> length (fs_entries f) \<le> 10000 \<longrightarrow>
    1 \<le> unat k \<longrightarrow> unat k < length (fs_entries f) \<longrightarrow>
    file_create (file_delete f k) e = (f', i) \<longrightarrow> i \<noteq> 0 \<longrightarrow>
    i = of_nat (length (fs_entries f)) \<and> \<not> distinct (map fe_inode (fs_entries f')))"
  using process_table.key_reused [of s k a s' i] user_table.key_reused [of c k b c' i]
    key_table.key_reused [of c k d c' i] file_table.key_reused [of f k e f' i]
  by auto

definition two_users :: SecurityCore where
  "two_users = foldl sec_apply sec_start
     [Security_Core.CreateUser (Some ''ann'') (Some ''pa'') 1, Security_Core.CreateUser (Some ''ben'') (Some ''pb'') 2]"

definition two_keys :: SecurityCore where
  "two_keys = fst (key_create (fst (key_create sec_start (ENCRYPT_AES128, 16, 1))) (ENCRYPT_AES128, 16, 2))"

definition two_files :: FileSystem where
  "two_files = fst (file_create (fst (file_create fs_start (''a'', FS_TYPE_FILE, 6, 1))) (''b'', FS_TYPE_FILE, 6, 2))"

lemma dense_two: "map key xs = [1, 2] \<Longrightarrow> dense_ids key xs \<and> length xs = 2"
  by (auto simp: dense_ids_def less_Suc_eq map_eq_Cons_conv)

lemma two_users_facts: "map us_user_id (sc_users two_users) = [1, 2]"
  "snd (Security_Core.user_create (Security_Core.user_delete two_users 1) (''cid'', ''pc'', 3)) \<noteq> 0"
  by (simp_all add: two_users_def sec_start_def security_init_def security_create_user_def Security_Core.user_create_def
      Security_Core.user_delete_def security_delete_user_def with_handle_Some MAX_USERS_def Let_def)

lemma two_keys_facts: "map ek_key_id (sc_keys two_keys) = [1, 2]"
  "snd (key_create (key_delete two_keys 1) (ENCRYPT_AES128, 16, 3)) \<noteq> 0"
  by (simp_all add: two_keys_def sec_start_def security_init_def key_create_def key_delete_def
      security_create_encryption_key_def security_delete_encryption_key_def with_handle_Some MAX_ENCRYPTION_KEYS_def
      Let_def)

lemma two_files_facts: "map fe_inode (fs_entries two_files) = [1, 2]"
  "snd (file_create (file_delete two_files 1) (''c'', FS_TYPE_FILE, 6, 3)) \<noteq> 0"
  by (simp_all add: two_files_def fs_start_def filesystem_init_def file_create_def file_delete_def
      filesystem_create_file_def delete_remove_at with_handle_Some MAX_FILES_def MAX_FILENAME_def Let_def)

lemma two_processes_facts: "map sp_pid (Scheduler.sc_processes sched_two) = [1, 2]"
  "snd (process_add (process_remove sched_two 1) (''top'', Scheduler.PRIORITY_LOW, 3)) \<noteq> 0"
  by (simp_all add: sched_two_def process_add_def process_remove_def scheduler_add_process_def scheduler_remove_process_def
      shift_down_remove_at with_handle_ub_def MAX_SCHEDULED_PROCESSES_def Let_def)

theorem removal_reuses_identifiers_witness:
  "(let (s, i) = process_add (process_remove sched_two 1) (''top'', Scheduler.PRIORITY_LOW, 3)
    in i = 2 \<and> \<not> distinct (map sp_pid (Scheduler.sc_processes s))) \<and>
   (let (c, i) = Security_Core.user_create (Security_Core.user_delete two_users 1) (''cid'', ''pc'', 3)
    in i = 2 \<and> \<not> distinct (map us_user_id (sc_users c))) \<and>
   (let (c, i) = key_create (key_delete two_keys 1) (ENCRYPT_AES128, 16, 3)
    in i = 2 \<and> \<not> distinct (map ek_key_id (sc_keys c))) \<and>
   (let (f, i) = file_create (file_delete two_files 1) (''c'', FS_TYPE_FILE, 6, 3)
    in i = 2 \<and> \<not> distinct (map fe_inode (fs_entries f)))"
proof -
  let ?p = "process_add (process_remove sched_two 1) (''top'', Scheduler.PRIORITY_LOW, 3)"
  let ?u = "Security_Core.user_create (Security_Core.user_delete two_users 1) (''cid'', ''pc'', 3)"
  let ?k = "key_create (key_delete two_keys 1) (ENCRYPT_AES128, 16, 3)"
  let ?f = "file_create (file_delete two_files 1) (''c'', FS_TYPE_FILE, 6, 3)"
  have "snd ?p = 2 \<and> \<not> distinct (map sp_pid (Scheduler.sc_processes (fst ?p)))"
    using removal_reuses_identifiers [of sched_two 1 "(''top'', Scheduler.PRIORITY_LOW, 3)" "fst ?p" "snd ?p"]
      two_processes_facts(2) dense_two [OF two_processes_facts(1)] by simp
  moreover have "snd ?u = 2 \<and> \<not> distinct (map us_user_id (sc_users (fst ?u)))"
    using removal_reuses_identifiers [of _ 1 _ _ "snd ?u" two_users "(''cid'', ''pc'', 3)" "fst ?u"]
      two_users_facts(2) dense_two [OF two_users_facts(1)] by simp
  moreover have "snd ?k = 2 \<and> \<not> distinct (map ek_key_id (sc_keys (fst ?k)))"
    using removal_reuses_identifiers [of _ 1 _ _ "snd ?k" two_keys _ "fst ?k" "(ENCRYPT_AES128, 16, 3)"]
      two_keys_facts(2) dense_two [OF two_keys_facts(1)] by simp
  moreover have "snd ?f = 2 \<and> \<not> distinct (map fe_inode (fs_entries (fst ?f)))"
    using removal_reuses_identifiers [of _ 1 _ _ "snd ?f" _ _ _ _ two_files "(''c'', FS_TYPE_FILE, 6, 3)" "fst ?f"]
      two_files_facts(2) dense_two [OF two_files_facts(1)] by simp
  ultimately show ?thesis by (simp add: case_prod_beta)
qed

end
